(* ===== verification/Microtel_Prelude.thy ===== *)
theory Microtel_Prelude
  imports Main "HOL-Library.Char_ord" "HOL-Library.Word"
begin

text \<open>
  Shared vocabulary of the development: the collections of automation rules, the machine types,
  and the generic facts on lists that several components use.

  \<^item> \<open>sv_simps\<close> collects the rewrite rules of the \<open>std::string_view\<close> operations;
  \<^item> \<open>inv_intros\<close> collects, per component, the rules ``this operation keeps the invariant''.
\<close>

unbundle bit_operations_syntax

named_theorems sv_simps \<open>rewrite rules for the string_view operations\<close>
named_theorems inv_intros \<open>operations that keep a component's invariant\<close>

type_synonym u8 = "8 word"
type_synonym u32 = "32 word"
type_synonym u64 = "64 word"

section \<open>Lists\<close>

lemma hd_append_nonempty [simp]: "xs \<noteq> [] \<Longrightarrow> hd (xs @ ys) = hd xs"
  by (cases xs) auto

lemma filter_length_lt:
  "x \<in> set xs \<Longrightarrow> \<not> P x \<Longrightarrow> length (filter P xs) < length xs"
  by (rule length_filter_less)

lemma distinct_map_filter_Cons:
  "distinct (map f xs) \<Longrightarrow> f y = k \<Longrightarrow> distinct (map f (y # filter (\<lambda>x. f x \<noteq> k) xs))"
  by (auto simp: distinct_map_filter)

text \<open>
  Association-list reading of an entry list: the value of the first entry with a given key,
  with the projections \<open>kf\<close> and \<open>vf\<close> of the entry type.
\<close>

definition assoc_of :: "('e \<Rightarrow> 'k) \<Rightarrow> ('e \<Rightarrow> 'v) \<Rightarrow> 'e list \<Rightarrow> ('k \<rightharpoonup> 'v)" where
  "assoc_of kf vf es = map_of (map (\<lambda>e. (kf e, vf e)) es)"

lemma assoc_of_simps [simp]:
  "assoc_of kf vf [] = Map.empty"
  "assoc_of kf vf (e # es) = (assoc_of kf vf es)(kf e \<mapsto> vf e)"
  by (simp_all add: assoc_of_def)

lemma assoc_of_None_iff: "assoc_of kf vf es k = None \<longleftrightarrow> k \<notin> kf ` set es"
  by (induction es) auto

lemma dom_assoc_of [simp]: "dom (assoc_of kf vf es) = kf ` set es"
  by (simp add: assoc_of_def dom_map_of_conv_image_fst image_image)

lemma assoc_of_append [simp]:
  "assoc_of kf vf (xs @ ys) = assoc_of kf vf ys ++ assoc_of kf vf xs"
  by (simp add: assoc_of_def map_of_append)

lemma assoc_of_filter_neq [simp]:
  "assoc_of kf vf (filter (\<lambda>e. kf e \<noteq> k) es) = (assoc_of kf vf es)(k := None)"
  by (induction es) (auto simp: fun_eq_iff)

lemma card_keys_distinct:
  "distinct (map kf es) \<Longrightarrow> card (kf ` set es) = length es"
  by (metis distinct_card length_map set_map)

section \<open>Left folds over a growing accumulator\<close>

lemma foldl_append_map:
  "foldl (\<lambda>acc x. acc @ f x) a xs = a @ concat (map f xs)"
  by (induction xs arbitrary: a) auto

section \<open>Nibbles of an octet\<close>

lemma and_15_take_bit: "n AND 15 = take_bit 4 n" for n :: nat
  by (simp add: take_bit_eq_mask mask_eq_exp_minus_1)

lemma nibble_less [simp]: "n AND 15 < 16" for n :: nat
  using take_bit_nat_less_exp [of 4 n] by (simp add: and_15_take_bit)

lemma nibbles_join:
  assumes "n < 256"
  shows "push_bit 4 (drop_bit 4 n AND 15) OR (n AND 15) = (n :: nat)"
proof -
  have "take_bit 4 (drop_bit 4 n) = drop_bit 4 n"
    using assms by (simp add: take_bit_nat_eq_self drop_bit_eq_div less_mult_imp_div_less)
  moreover have "push_bit 4 (drop_bit 4 n) OR take_bit 4 n = n"
    by (rule bit_eqI) (auto simp: bit_simps)
  ultimately show ?thesis by (simp add: and_15_take_bit)
qed

lemma nibbles_split:
  assumes "h < 16" "l < 16"
  shows "drop_bit 4 (push_bit 4 h OR l) = (h :: nat)" "(push_bit 4 h OR l) AND 15 = l"
    "push_bit 4 h OR l < (256 :: nat)"
proof -
  have l: "take_bit 4 l = l" "drop_bit 4 l = 0"
    using assms by (simp_all add: take_bit_nat_eq_self drop_bit_eq_div)
  show high: "drop_bit 4 (push_bit 4 h OR l) = h"
    by (simp only: drop_bit_or l) (simp add: drop_bit_push_bit)
  show low: "(push_bit 4 h OR l) AND 15 = l"
    unfolding and_15_take_bit by (simp only: take_bit_or l) (simp add: take_bit_push_bit)
  have "push_bit 4 h OR l = push_bit 4 h + l"
    using bits_ident [of 4 "push_bit 4 h OR l"] high low by (simp only: and_15_take_bit)
  with assms show "push_bit 4 h OR l < 256" by (simp add: push_bit_eq_mult)
qed

lemma all_less_16:
  assumes "list_all P [0..<16]" and "i < 16"
  shows "P i"
  using assms by (simp add: list_all_iff)

lemma not_bit_high: "n < 256 \<Longrightarrow> 8 \<le> i \<Longrightarrow> \<not> bit (n :: nat) i"
proof -
  assume "n < 256" "8 \<le> i"
  then have "n < 2 ^ i" using power_increasing [of 8 i "2 :: nat"] by simp
  then show ?thesis by (simp add: bit_iff_odd)
qed

lemma top_two_bits:
  assumes "n < 256"
  shows "n AND 192 = 128 \<longleftrightarrow> 128 \<le> n \<and> n < (192 :: nat)"
proof -
  have "n AND 192 = push_bit 6 (drop_bit 6 n)"
  proof (rule bit_eqI)
    fix i
    show "bit (n AND 192) i = bit (push_bit 6 (drop_bit 6 n)) i"
    proof (cases "i < 8")
      case True
      then have "i \<in> {0, 1, 2, 3, 4, 5, 6, 7}" by auto
      then show ?thesis by (auto simp: bit_simps)
    next
      case False
      then show ?thesis using not_bit_high [OF assms] by (auto simp: bit_simps)
    qed
  qed
  also have "\<dots> = 64 * (n div 64)" by (simp add: push_bit_eq_mult drop_bit_eq_div)
  finally show ?thesis by simp linarith
qed

section \<open>Order of first occurrence\<close>

fun first_seen :: "'a list \<Rightarrow> 'a list" where
  "first_seen [] = []"
| "first_seen (x # xs) = x # filter (\<lambda>y. y \<noteq> x) (first_seen xs)"

lemma distinct_first_seen: "distinct (first_seen xs)" "set (first_seen xs) = set xs"
  by (induction xs) auto

lemma first_seen_snoc:
  "first_seen (xs @ [x]) = (if x \<in> set xs then first_seen xs else first_seen xs @ [x])"
  by (induction xs) (auto simp: filter_id_conv distinct_first_seen)

end
