(* ===== verification/Header_Text.thy ===== *)
theory Header_Text
  imports Microtel_Prelude
begin

text \<open>
  The text scanning that the two header parsers of \<open>src/api\<close> (\<open>trace_state.cpp\<close> and
  \<open>baggage.cpp\<close>) share: the \<open>std::string_view\<close> operations they call, the trimming of optional
  whitespace, the step that takes the next comma-separated list member off a header, and the
  step that appends one member to a header being built.

  The locale \<open>header_list\<close> is the contract between a member grammar and the list syntax: a
  rendered member is non-empty, holds no comma, neither starts nor ends with optional
  whitespace, and parses back. Under it, splitting the header that the append loop builds gives
  back the rendered members, which is the list half of both header round trips.
\<close>

section \<open>\<open>std::string_view\<close>\<close>

text \<open>\<open>find(c)\<close>; \<open>None\<close> is \<open>npos\<close>.\<close>

fun sv_find :: "char \<Rightarrow> string \<Rightarrow> nat option" where
  "sv_find c [] = None"
| "sv_find c (x # xs) = (if x = c then Some 0 else map_option Suc (sv_find c xs))"

text \<open>\<open>substr(0, at)\<close>, where \<open>npos\<close> takes the whole view.\<close>

definition sv_upto :: "string \<Rightarrow> nat option \<Rightarrow> string" where
  "sv_upto s at = (case at of None \<Rightarrow> s | Some n \<Rightarrow> take n s)"

text \<open>\<open>at == npos ? string_view{} : substr(at + 1)\<close>.\<close>

definition sv_after :: "string \<Rightarrow> nat option \<Rightarrow> string" where
  "sv_after s at = (case at of None \<Rightarrow> [] | Some n \<Rightarrow> drop (n + 1) s)"

definition IsOptionalWhitespace :: "char \<Rightarrow> bool" where
  "IsOptionalWhitespace c \<longleftrightarrow> c = CHR '' '' \<or> c = CHR 0x09"

fun trim_front :: "string \<Rightarrow> string" where
  "trim_front [] = []"
| "trim_front (c # cs) = (if IsOptionalWhitespace c then trim_front cs else c # cs)"

fun trim_back :: "string \<Rightarrow> string" where
  "trim_back s = (if s \<noteq> [] \<and> IsOptionalWhitespace (last s) then trim_back (butlast s) else s)"

declare trim_back.simps [simp del]

definition TrimOptionalWhitespace :: "string \<Rightarrow> string" where
  "TrimOptionalWhitespace member = trim_back (trim_front member)"

text \<open>One turn of the list loop: the trimmed next member and the rest of the header.\<close>

definition next_member :: "string \<Rightarrow> string \<times> string" where
  "next_member header =
     (let comma = sv_find (CHR '','') header
      in (TrimOptionalWhitespace (sv_upto header comma), sv_after header comma))"

text \<open>One turn of the serialising loop: a separator unless the header is still empty.\<close>

definition append_sep :: "char \<Rightarrow> string \<Rightarrow> string \<Rightarrow> string" where
  "append_sep c out item = (if out \<noteq> [] then out @ [c] else out) @ item"

abbreviation append_member :: "string \<Rightarrow> string \<Rightarrow> string" where
  "append_member \<equiv> append_sep (CHR '','')"

section \<open>Facts on scanning\<close>

lemma sv_find_None_iff [sv_simps]: "sv_find c s = None \<longleftrightarrow> c \<notin> set s"
  by (induction s) auto

lemma sv_find_append [sv_simps]: "c \<notin> set xs \<Longrightarrow> sv_find c (xs @ c # ys) = Some (length xs)"
  by (induction xs) auto

lemma sv_find_absent [sv_simps]: "c \<notin> set s \<Longrightarrow> sv_find c s = None"
  by (simp add: sv_find_None_iff)

lemma sv_find_SomeD:
  "sv_find c s = Some n \<Longrightarrow> n < length s \<and> c \<notin> set (take n s) \<and> s = take n s @ c # drop (n + 1) s"
  by (induction s arbitrary: n) (auto split: if_splits)

lemma sv_find_split:
  assumes "sv_find c s = Some n"
  obtains xs ys where "s = xs @ c # ys" "c \<notin> set xs" "take n s = xs" "drop (n + 1) s = ys"
  using sv_find_SomeD [OF assms] by blast

lemma sv_after_shorter: "s \<noteq> [] \<Longrightarrow> length (sv_after s (sv_find c s)) < length s"
  by (auto simp: sv_after_def split: option.splits)

lemma trim_back_last:
  "s = [] \<or> \<not> IsOptionalWhitespace (last s) \<Longrightarrow> trim_back s = s"
  by (subst trim_back.simps) auto

lemma trim_front_hd:
  "s = [] \<or> \<not> IsOptionalWhitespace (hd s) \<Longrightarrow> trim_front s = s"
  by (cases s) auto

lemma Trim_id [sv_simps]:
  "s = [] \<or> (\<not> IsOptionalWhitespace (hd s) \<and> \<not> IsOptionalWhitespace (last s)) \<Longrightarrow>
   TrimOptionalWhitespace s = s"
  by (auto simp: TrimOptionalWhitespace_def trim_front_hd trim_back_last)

lemma trim_front_not_ws:
  "trim_front s = [] \<or> \<not> IsOptionalWhitespace (hd (trim_front s))"
  by (induction s) auto

lemma trim_back_not_ws:
  "trim_back s = [] \<or> \<not> IsOptionalWhitespace (last (trim_back s))"
proof (induction s rule: trim_back.induct)
  case (1 s)
  then show ?case by (subst trim_back.simps, subst (2) trim_back.simps) auto
qed

lemma trim_back_hd: "trim_back s \<noteq> [] \<Longrightarrow> hd (trim_back s) = hd s"
proof (induction s rule: trim_back.induct)
  case (1 s)
  show ?case
  proof (cases "s \<noteq> [] \<and> IsOptionalWhitespace (last s)")
    case True
    then have eq: "trim_back s = trim_back (butlast s)" by (subst trim_back.simps) simp
    with "1.prems" have "butlast s \<noteq> []" by (auto simp: trim_back.simps)
    then have "hd (butlast s) = hd s" by (cases s) (auto split: if_splits)
    with "1.IH" [OF True] "1.prems" eq show ?thesis by simp
  next
    case False
    then show ?thesis by (subst trim_back.simps) auto
  qed
qed

lemma Trim_trimmed:
  "TrimOptionalWhitespace s = [] \<or>
   \<not> IsOptionalWhitespace (hd (TrimOptionalWhitespace s)) \<and>
   \<not> IsOptionalWhitespace (last (TrimOptionalWhitespace s))"
  unfolding TrimOptionalWhitespace_def
  using trim_back_not_ws trim_back_hd trim_front_not_ws [of s]
  by (metis trim_back.simps)

lemma Trim_idem: "TrimOptionalWhitespace (TrimOptionalWhitespace s) = TrimOptionalWhitespace s"
  using Trim_trimmed by (rule Trim_id)

lemma set_trim_front: "set (trim_front s) \<subseteq> set s"
  by (induction s) auto

lemma set_trim_back: "set (trim_back s) \<subseteq> set s"
proof (induction s rule: trim_back.induct)
  case (1 s)
  then show ?case by (subst trim_back.simps) (auto dest: in_set_butlastD)
qed

lemma set_Trim: "set (TrimOptionalWhitespace s) \<subseteq> set s"
  unfolding TrimOptionalWhitespace_def using set_trim_front set_trim_back by blast

lemma next_member_shorter: "h \<noteq> [] \<Longrightarrow> length (snd (next_member h)) < length h"
  by (simp add: next_member_def Let_def sv_after_shorter)

lemma next_member_lt: "(m, rest) = next_member h \<Longrightarrow> h \<noteq> [] \<Longrightarrow> length rest < length h"
  using next_member_shorter [of h] by (metis snd_conv)

section \<open>Members of a header\<close>

text \<open>
  The list of members that the loop visits, in order: the reference reading of both
  \<open>ParseMembers\<close> loops.
\<close>

function members :: "string \<Rightarrow> string list" where
  "members header =
     (if header = [] then []
      else fst (next_member header) # members (snd (next_member header)))"
  by pat_completeness auto
termination
  by (relation "measure length") (auto simp: next_member_shorter)

declare members.simps [simp del]

lemma members_Nil [simp]: "members [] = []"
  by (simp add: members.simps)

lemma members_step: "h \<noteq> [] \<Longrightarrow> members h = fst (next_member h) # members (snd (next_member h))"
  by (simp add: members.simps [of h])

text \<open>Text joined by, and split at, a separator.\<close>

fun join_on :: "char \<Rightarrow> string list \<Rightarrow> string" where
  "join_on c [] = []"
| "join_on c [m] = m"
| "join_on c (m # ms) = m @ c # join_on c ms"

function split_on :: "char \<Rightarrow> string \<Rightarrow> string list" where
  "split_on c s =
     (case sv_find c s of None \<Rightarrow> [s] | Some n \<Rightarrow> take n s # split_on c (drop (n + 1) s))"
  by pat_completeness auto
termination
  by (relation "measure (\<lambda>(c, s). length s)") (auto dest: sv_find_SomeD)

declare split_on.simps [simp del]

lemma split_on_absent: "c \<notin> set s \<Longrightarrow> split_on c s = [s]"
  by (subst split_on.simps) (simp add: sv_simps)

lemma split_on_append: "c \<notin> set xs \<Longrightarrow> split_on c (xs @ c # ys) = xs # split_on c ys"
  by (subst split_on.simps) (simp add: sv_simps)

lemma split_on_join:
  "ms \<noteq> [] \<Longrightarrow> \<forall>m \<in> set ms. c \<notin> set m \<Longrightarrow> split_on c (join_on c ms) = ms"
  by (induction c ms rule: join_on.induct) (auto simp: split_on_absent split_on_append)

lemma join_on_snoc: "ms \<noteq> [] \<Longrightarrow> join_on c (ms @ [m]) = join_on c ms @ c # m"
  by (induction c ms rule: join_on.induct) auto

lemma join_on_nonempty: "ms \<noteq> [] \<Longrightarrow> \<forall>m \<in> set ms. m \<noteq> [] \<Longrightarrow> join_on c ms \<noteq> []"
  by (induction c ms rule: join_on.induct) auto

lemma set_join_on: "set (join_on c ms) \<subseteq> insert c (\<Union> (set ` set ms))"
  by (induction c ms rule: join_on.induct) auto

lemma last_join_on:
  "ms \<noteq> [] \<Longrightarrow> \<forall>m \<in> set ms. m \<noteq> [] \<Longrightarrow> last (join_on c ms) = last (last ms)"
  by (induction c ms rule: join_on.induct) (auto simp: join_on_nonempty)

lemma foldl_append_sep:
  "\<forall>m \<in> set ms. m \<noteq> [] \<Longrightarrow> foldl (append_sep c) [] ms = join_on c ms"
proof (induction ms rule: rev_induct)
  case (snoc m ms)
  then show ?case
    by (cases "ms = []") (auto simp: append_sep_def join_on_snoc join_on_nonempty)
qed simp

definition clean_member :: "string \<Rightarrow> bool" where
  "clean_member m \<longleftrightarrow> m \<noteq> [] \<and> CHR '','' \<notin> set m \<and>
     \<not> IsOptionalWhitespace (hd m) \<and> \<not> IsOptionalWhitespace (last m)"

lemma members_join:
  "\<forall>m \<in> set ms. clean_member m \<Longrightarrow> members (join_on (CHR '','') ms) = ms"
proof (induction "CHR '',''" ms rule: join_on.induct)
  case (2 m)
  then show ?case
    by (simp add: members_step next_member_def clean_member_def sv_simps sv_upto_def sv_after_def)
next
  case (3 m m' ms)
  then have "next_member (join_on (CHR '','') (m # m' # ms)) = (m, join_on (CHR '','') (m' # ms))"
    by (simp add: next_member_def clean_member_def sv_simps sv_upto_def sv_after_def)
  with 3 show ?case by (simp add: members_step)
qed simp

section \<open>The contract between a member grammar and the list syntax\<close>

locale header_list =
  fixes render :: "'e \<Rightarrow> string"
    and parse :: "string \<Rightarrow> 'e option"
    and ok :: "'e \<Rightarrow> bool"
  assumes render_clean: "ok e \<Longrightarrow> clean_member (render e)"
    and parse_render: "ok e \<Longrightarrow> parse (render e) = Some e"
begin

lemma members_of_rendered:
  assumes "\<forall>e \<in> set es. ok e"
  shows "members (foldl append_member [] (map render es)) = map render es"
proof -
  have clean: "\<forall>m \<in> set (map render es). clean_member m"
    using assms by (auto intro: render_clean)
  then have "foldl append_member [] (map render es) = join_on (CHR '','') (map render es)"
    by (intro foldl_append_sep) (auto simp: clean_member_def)
  with members_join [OF clean] show ?thesis by simp
qed

lemma parse_members_of_rendered:
  assumes "\<forall>e \<in> set es. ok e"
  shows "map parse (members (foldl append_member [] (map render es))) = map Some es"
  using assms by (simp add: members_of_rendered parse_render)

lemma render_nonempty: "ok e \<Longrightarrow> render e \<noteq> []"
  using render_clean by (auto simp: clean_member_def)

lemma rendered_header_empty_iff:
  assumes "\<forall>e \<in> set es. ok e"
  shows "foldl append_member [] (map render es) = [] \<longleftrightarrow> es = []"
  using members_of_rendered [OF assms] by (metis foldl.simps(1) map_is_Nil_conv members_Nil)

end

end
