(* ===== verification/Kv_Store.thy ===== *)
theory Kv_Store
  imports Microtel_Prelude
begin

text \<open>
  The contract that the two propagated key/value lists, \<open>TraceState\<close> and \<open>Baggage\<close>, promise to
  their callers: \<open>Set\<close> either stores the pair or leaves the value alone, \<open>Erase\<close> removes a key,
  and both keep the class invariant. Everything a caller can observe through \<open>Get\<close> after a
  sequence of mutations follows from these laws alone.
\<close>

datatype kv_op = KSet string string | KErase string

definition kv_step ::
    "('s \<Rightarrow> string \<Rightarrow> string \<Rightarrow> 's) \<Rightarrow> ('s \<Rightarrow> string \<Rightarrow> 's) \<Rightarrow> 's \<Rightarrow> kv_op \<Rightarrow> 's" where
  "kv_step put del s op = (case op of KSet k v \<Rightarrow> put s k v | KErase k \<Rightarrow> del s k)"

definition kv_run ::
    "('s \<Rightarrow> string \<Rightarrow> string \<Rightarrow> 's) \<Rightarrow> ('s \<Rightarrow> string \<Rightarrow> 's) \<Rightarrow> 's \<Rightarrow> kv_op list \<Rightarrow> 's" where
  "kv_run put del = foldl (kv_step put del)"

locale kv_store =
  fixes get :: "'s \<Rightarrow> string \<Rightarrow> string option"
    and put :: "'s \<Rightarrow> string \<Rightarrow> string \<Rightarrow> 's"
    and del :: "'s \<Rightarrow> string \<Rightarrow> 's"
    and accepts :: "'s \<Rightarrow> string \<Rightarrow> string \<Rightarrow> bool"
    and invar :: "'s \<Rightarrow> bool"
  assumes get_put: "invar s \<Longrightarrow> accepts s k v \<Longrightarrow> get (put s k v) = (get s)(k \<mapsto> v)"
    and put_refused: "invar s \<Longrightarrow> \<not> accepts s k v \<Longrightarrow> put s k v = s"
    and get_del: "invar s \<Longrightarrow> get (del s k) = (get s)(k := None)"
    and del_absent: "invar s \<Longrightarrow> get s k = None \<Longrightarrow> del s k = s"
    and invar_put: "invar s \<Longrightarrow> invar (put s k v)"
    and invar_del: "invar s \<Longrightarrow> invar (del s k)"
begin

lemma step_invar: "invar s \<Longrightarrow> invar (kv_step put del s op)"
  by (cases op) (simp_all add: kv_step_def invar_put invar_del)

lemma run_invar: "invar s \<Longrightarrow> invar (kv_run put del s ops)"
  unfolding kv_run_def by (induction ops arbitrary: s) (simp_all add: step_invar)

lemma get_put_cases:
  "invar s \<Longrightarrow> get (put s k v) = (if accepts s k v then (get s)(k \<mapsto> v) else get s)"
  by (simp add: get_put put_refused)

lemma step_origin:
  assumes "invar s" "get (kv_step put del s op) k = Some v"
  shows "op = KSet k v \<or> get s k = Some v"
  using assms by (cases op) (auto simp: kv_step_def get_put_cases get_del split: if_splits)

text \<open>No value out of thin air: what a run leaves behind was there or was set during the run.\<close>

lemma run_origin:
  assumes "invar s" "get (kv_run put del s ops) k = Some v"
  shows "KSet k v \<in> set ops \<or> get s k = Some v"
  using assms
proof (induction ops arbitrary: s)
  case (Cons op ops)
  then have "KSet k v \<in> set ops \<or> get (kv_step put del s op) k = Some v"
    by (auto simp: kv_run_def dest: step_invar)
  then show ?case using step_origin [OF Cons.prems(1)] by fastforce
qed (simp add: kv_run_def)

text \<open>Operations on other keys do not disturb a key.\<close>

lemma run_other_keys:
  assumes "invar s" "\<forall>op \<in> set ops. case op of KSet k' v \<Rightarrow> k' \<noteq> k | KErase k' \<Rightarrow> k' \<noteq> k"
  shows "get (kv_run put del s ops) k = get s k"
  using assms
proof (induction ops arbitrary: s)
  case (Cons op ops)
  have "get (kv_step put del s op) k = get s k"
    using Cons.prems by (cases op) (auto simp: kv_step_def get_put_cases get_del)
  with Cons show ?case by (simp add: kv_run_def step_invar)
qed (simp add: kv_run_def)

lemma put_idem:
  assumes "invar s" "accepts s k v" "accepts (put s k v) k v"
  shows "get (put (put s k v) k v) = get (put s k v)"
  using assms by (simp add: get_put invar_put)

lemma del_put:
  assumes "invar s" "accepts s k v"
  shows "get (del (put s k v) k) = (get s)(k := None)"
  using assms by (simp add: get_put get_del invar_put)

end

end
