(* ===== verification/Trace_State.thy ===== *)
theory Trace_State
  imports Header_Text Kv_Store
begin

text \<open>
  \<open>microtel::TraceState\<close> (\<open>src/api/trace_state.cpp\<close>): the W3C \<open>tracestate\<close> list, its grammar,
  the header parser and printer, and the copy-on-write mutators. The shared immutable entry list
  behind the \<open>shared_ptr\<close> is the list itself; the null pointer of the empty state is \<open>None\<close>.

  Proved here: every value the public surface can build satisfies \<open>ts_wf\<close> (at most 32 entries,
  valid and distinct keys, valid values, never a non-null empty list), the header round trip,
  and that \<open>Get\<close>, \<open>Set\<close> and \<open>Erase\<close> implement a finite map with a move-to-front order.
  The locale \<open>kv_store\<close> is the contract this class and \<open>Baggage\<close> share.
\<close>

section \<open>Representation and grammar\<close>

record ts_entry =
  ts_key :: string
  ts_value :: string

record TraceState =
  m_entries :: "ts_entry list option"

definition TraceState_kMaxEntries :: nat where "TraceState_kMaxEntries = 32"
definition kMaxSimpleKeyChars :: nat where "kMaxSimpleKeyChars = 256"
definition kMaxTenantIdChars :: nat where "kMaxTenantIdChars = 241"
definition kMaxSystemIdChars :: nat where "kMaxSystemIdChars = 14"
definition kMaxValueChars :: nat where "kMaxValueChars = 256"

definition IsLowerAlpha :: "char \<Rightarrow> bool" where
  "IsLowerAlpha c \<longleftrightarrow> CHR ''a'' \<le> c \<and> c \<le> CHR ''z''"

definition IsDigit :: "char \<Rightarrow> bool" where
  "IsDigit c \<longleftrightarrow> CHR ''0'' \<le> c \<and> c \<le> CHR ''9''"

definition IsKeyTailChar :: "char \<Rightarrow> bool" where
  "IsKeyTailChar c \<longleftrightarrow> IsLowerAlpha c \<or> IsDigit c \<or> c = CHR ''_'' \<or> c = CHR ''-'' \<or>
     c = CHR ''*'' \<or> c = CHR ''/''"

definition HasValidKeyTail :: "string \<Rightarrow> bool" where
  "HasValidKeyTail component \<longleftrightarrow> list_all IsKeyTailChar (drop 1 component)"

definition IsLowerAlphaLedComponent :: "string \<Rightarrow> nat \<Rightarrow> bool" where
  "IsLowerAlphaLedComponent component max_chars =
     (if component = [] \<or> length component > max_chars then False
      else IsLowerAlpha (hd component) \<and> HasValidKeyTail component)"

definition IsTenantId :: "string \<Rightarrow> bool" where
  "IsTenantId component =
     (if component = [] \<or> length component > kMaxTenantIdChars then False
      else (IsLowerAlpha (hd component) \<or> IsDigit (hd component)) \<and> HasValidKeyTail component)"

definition IsValidKey :: "string \<Rightarrow> bool" where
  "IsValidKey k =
     (case sv_find (CHR ''@'') k of
        None \<Rightarrow> IsLowerAlphaLedComponent k kMaxSimpleKeyChars
      | Some at \<Rightarrow> IsTenantId (take at k) \<and>
                   IsLowerAlphaLedComponent (drop (at + 1) k) kMaxSystemIdChars)"

definition IsValueChar :: "char \<Rightarrow> bool" where
  "IsValueChar c \<longleftrightarrow> (CHR '' '' \<le> c \<and> c \<le> CHR ''~'') \<and> c \<noteq> CHR '','' \<and> c \<noteq> CHR ''=''"

definition IsValidValue :: "string \<Rightarrow> bool" where
  "IsValidValue v =
     (if v = [] \<or> length v > kMaxValueChars then False
      else if last v = CHR '' '' then False
      else list_all IsValueChar v)"

section \<open>Parsing and printing\<close>

definition ts_Contains :: "ts_entry list \<Rightarrow> string \<Rightarrow> bool" where
  "ts_Contains entries k \<longleftrightarrow> list_ex (\<lambda>entry. ts_key entry = k) entries"

fun AppendExcept_loop :: "ts_entry list \<Rightarrow> string \<Rightarrow> ts_entry list \<Rightarrow> ts_entry list" where
  "AppendExcept_loop [] k destination = destination"
| "AppendExcept_loop (entry # es) k destination =
     AppendExcept_loop es k
       (if ts_key entry \<noteq> k then destination @ [entry] else destination)"

definition AppendExcept ::
    "ts_entry list option \<Rightarrow> string \<Rightarrow> ts_entry list \<Rightarrow> ts_entry list" where
  "AppendExcept source k destination =
     (case source of None \<Rightarrow> destination | Some es \<Rightarrow> AppendExcept_loop es k destination)"

definition ts_ParseMember :: "string \<Rightarrow> ts_entry option" where
  "ts_ParseMember member =
     (case sv_find (CHR ''='') member of
        None \<Rightarrow> None
      | Some equals \<Rightarrow>
          let k = take equals member; v = drop (equals + 1) member
          in if \<not> IsValidKey k \<or> \<not> IsValidValue v then None
             else Some \<lparr>ts_key = k, ts_value = v\<rparr>)"

text \<open>
  \<open>None\<close> is the \<open>false\<close> return, after which the caller discards the entries; \<open>Some\<close> carries the
  entries accumulated so far.
\<close>

function ts_ParseMembers :: "string \<Rightarrow> ts_entry list \<Rightarrow> ts_entry list option" where
  "ts_ParseMembers header entries =
     (if header = [] then Some entries
      else
        let (member, rest) = next_member header
        in if member = [] then ts_ParseMembers rest entries
           else if length entries = TraceState_kMaxEntries then None
           else (case ts_ParseMember member of
                   None \<Rightarrow> None
                 | Some entry \<Rightarrow>
                     if ts_Contains entries (ts_key entry) then None
                     else ts_ParseMembers rest (entries @ [entry])))"
  by pat_completeness auto
termination
  by (relation "measure (\<lambda>(header, entries). length header)") (auto dest: next_member_lt)

declare ts_ParseMembers.simps [simp del]

definition TraceState_FromHeader :: "string \<Rightarrow> TraceState" where
  "TraceState_FromHeader header =
     (case ts_ParseMembers header [] of
        None \<Rightarrow> \<lparr>m_entries = None\<rparr>
      | Some es \<Rightarrow> if es = [] then \<lparr>m_entries = None\<rparr> else \<lparr>m_entries = Some es\<rparr>)"

definition ts_append_entry :: "string \<Rightarrow> ts_entry \<Rightarrow> string" where
  "ts_append_entry header entry =
     (if header \<noteq> [] then header @ [CHR '',''] else header)
       @ ts_key entry @ [CHR ''=''] @ ts_value entry"

definition TraceState_ToHeader :: "TraceState \<Rightarrow> string" where
  "TraceState_ToHeader s = (case m_entries s of None \<Rightarrow> [] | Some es \<Rightarrow> foldl ts_append_entry [] es)"

section \<open>Reading and mutating\<close>

definition TraceState_Size :: "TraceState \<Rightarrow> nat" where
  "TraceState_Size s = (case m_entries s of None \<Rightarrow> 0 | Some es \<Rightarrow> length es)"

definition TraceState_Empty :: "TraceState \<Rightarrow> bool" where
  "TraceState_Empty s \<longleftrightarrow> TraceState_Size s = 0"

fun TraceState_Get_loop :: "ts_entry list \<Rightarrow> string \<Rightarrow> string option" where
  "TraceState_Get_loop [] k = None"
| "TraceState_Get_loop (entry # es) k = (if ts_key entry = k then Some (ts_value entry) else TraceState_Get_loop es k)"

definition TraceState_Get :: "TraceState \<Rightarrow> string \<Rightarrow> string option" where
  "TraceState_Get s k = (case m_entries s of None \<Rightarrow> None | Some es \<Rightarrow> TraceState_Get_loop es k)"

definition TraceState_Set :: "TraceState \<Rightarrow> string \<Rightarrow> string \<Rightarrow> TraceState" where
  "TraceState_Set s k v =
     (let replaces_existing = (TraceState_Get s k \<noteq> None);
          would_overflow = (\<not> replaces_existing \<and> TraceState_Size s \<ge> TraceState_kMaxEntries)
      in if \<not> IsValidKey k \<or> \<not> IsValidValue v \<or> would_overflow then s
         else \<lparr>m_entries = Some (AppendExcept (m_entries s) k [\<lparr>ts_key = k, ts_value = v\<rparr>])\<rparr>)"

definition TraceState_Erase :: "TraceState \<Rightarrow> string \<Rightarrow> TraceState" where
  "TraceState_Erase s k =
     (if TraceState_Get s k = None then s
      else if TraceState_Size s = 1 then \<lparr>m_entries = None\<rparr>
      else \<lparr>m_entries = Some (AppendExcept (m_entries s) k [])\<rparr>)"

section \<open>The invariant\<close>

definition ts_entry_ok :: "ts_entry \<Rightarrow> bool" where
  "ts_entry_ok e \<longleftrightarrow> IsValidKey (ts_key e) \<and> IsValidValue (ts_value e)"

definition ts_entries :: "TraceState \<Rightarrow> ts_entry list" where
  "ts_entries s = (case m_entries s of None \<Rightarrow> [] | Some es \<Rightarrow> es)"

definition ts_list_ok :: "ts_entry list \<Rightarrow> bool" where
  "ts_list_ok es \<longleftrightarrow> length es \<le> TraceState_kMaxEntries \<and> distinct (map ts_key es) \<and>
     list_all ts_entry_ok es"

definition ts_wf :: "TraceState \<Rightarrow> bool" where
  "ts_wf s \<longleftrightarrow> m_entries s \<noteq> Some [] \<and> ts_list_ok (ts_entries s)"

definition ts_accepts :: "TraceState \<Rightarrow> string \<Rightarrow> string \<Rightarrow> bool" where
  "ts_accepts s k v \<longleftrightarrow> IsValidKey k \<and> IsValidValue v \<and>
     (TraceState_Get s k \<noteq> None \<or> TraceState_Size s < TraceState_kMaxEntries)"

subsection \<open>Loops as list functions\<close>

lemma AppendExcept_loop_eq:
  "AppendExcept_loop es k d = d @ filter (\<lambda>e. ts_key e \<noteq> k) es"
  by (induction es arbitrary: d) auto

lemma AppendExcept_eq:
  "AppendExcept (m_entries s) k d = d @ filter (\<lambda>e. ts_key e \<noteq> k) (ts_entries s)"
  by (auto simp: AppendExcept_def ts_entries_def AppendExcept_loop_eq split: option.splits)

lemma Get_loop_eq: "TraceState_Get_loop es = assoc_of ts_key ts_value es"
  by (rule ext, rename_tac k, induct_tac es) auto

lemma Get_eq: "TraceState_Get s = assoc_of ts_key ts_value (ts_entries s)"
  by (rule ext) (simp add: TraceState_Get_def ts_entries_def Get_loop_eq split: option.splits)

lemma Size_eq: "TraceState_Size s = length (ts_entries s)"
  by (simp add: TraceState_Size_def ts_entries_def split: option.splits)

lemma Get_None_iff: "TraceState_Get s k = None \<longleftrightarrow> k \<notin> ts_key ` set (ts_entries s)"
  by (simp add: Get_eq assoc_of_None_iff)

lemma ts_entries_Set:
  "ts_entries (TraceState_Set s k v) =
     (if ts_accepts s k v
      then \<lparr>ts_key = k, ts_value = v\<rparr> # filter (\<lambda>e. ts_key e \<noteq> k) (ts_entries s)
      else ts_entries s)"
  by (auto simp: TraceState_Set_def ts_accepts_def AppendExcept_eq Let_def ts_entries_def)

lemma filter_singleton_key:
  "length es = 1 \<Longrightarrow> k \<in> f ` set es \<Longrightarrow> filter (\<lambda>e. f e \<noteq> k) es = []"
  by (cases es) auto

lemma ts_entries_Erase:
  "ts_entries (TraceState_Erase s k) = filter (\<lambda>e. ts_key e \<noteq> k) (ts_entries s)"
proof (cases "TraceState_Get s k = None")
  case True
  then have "filter (\<lambda>e. ts_key e \<noteq> k) (ts_entries s) = ts_entries s"
    by (auto simp: Get_None_iff filter_id_conv)
  with True show ?thesis by (simp add: TraceState_Erase_def)
next
  case False
  then have "k \<in> ts_key ` set (ts_entries s)" by (simp add: Get_None_iff)
  with False show ?thesis
    using filter_singleton_key [of "ts_entries s" k ts_key]
    by (auto simp: TraceState_Erase_def AppendExcept_eq Size_eq) (simp_all add: ts_entries_def)
qed

subsection \<open>Mutators keep the invariant\<close>

lemma ts_wf_empty [inv_intros]: "ts_wf \<lparr>m_entries = None\<rparr>"
  by (simp add: ts_wf_def ts_entries_def ts_list_ok_def)

lemma ts_list_ok_filter: "ts_list_ok es \<Longrightarrow> ts_list_ok (filter P es)"
  by (auto simp: ts_list_ok_def distinct_map_filter list_all_iff
      intro: le_trans [OF length_filter_le])

lemma ts_wf_Set [inv_intros]:
  assumes "ts_wf s"
  shows "ts_wf (TraceState_Set s k v)"
proof (cases "ts_accepts s k v")
  case True
  let ?f = "filter (\<lambda>e. ts_key e \<noteq> k) (ts_entries s)"
  have "length ?f < TraceState_kMaxEntries"
  proof (cases "TraceState_Get s k = None")
    case True
    then show ?thesis
      using \<open>ts_accepts s k v\<close>
      by (auto simp: ts_accepts_def Size_eq intro: le_less_trans [OF length_filter_le])
  next
    case False
    then obtain e where "e \<in> set (ts_entries s)" "ts_key e = k" by (auto simp: Get_None_iff)
    then have "length ?f < length (ts_entries s)" by (auto intro: filter_length_lt)
    with assms show ?thesis by (simp add: ts_wf_def ts_list_ok_def)
  qed
  moreover have "m_entries (TraceState_Set s k v) \<noteq> Some []"
    using True by (auto simp: TraceState_Set_def ts_accepts_def AppendExcept_eq)
  ultimately show ?thesis
    using assms True ts_list_ok_filter [of "ts_entries s" "\<lambda>e. ts_key e \<noteq> k"]
    by (auto simp: ts_wf_def ts_list_ok_def ts_entries_Set ts_accepts_def ts_entry_ok_def)
next
  case False
  then have "TraceState_Set s k v = s"
    by (auto simp: TraceState_Set_def ts_accepts_def Let_def)
  with assms show ?thesis by simp
qed

lemma filter_key_nonempty:
  "distinct (map f es) \<Longrightarrow> length es \<noteq> 1 \<Longrightarrow> es \<noteq> [] \<Longrightarrow> filter (\<lambda>e. f e \<noteq> k) es \<noteq> []"
  by (cases es; cases "tl es") (auto simp: filter_empty_conv)

lemma ts_wf_Erase [inv_intros]:
  assumes "ts_wf s"
  shows "ts_wf (TraceState_Erase s k)"
proof -
  have "m_entries (TraceState_Erase s k) \<noteq> Some []"
  proof (cases "TraceState_Get s k = None \<or> TraceState_Size s = 1")
    case True
    with assms show ?thesis by (auto simp: TraceState_Erase_def ts_wf_def)
  next
    case False
    then have "ts_entries s \<noteq> []" by (auto simp: Get_None_iff)
    with False assms have "filter (\<lambda>e. ts_key e \<noteq> k) (ts_entries s) \<noteq> []"
      by (intro filter_key_nonempty) (auto simp: Size_eq ts_wf_def ts_list_ok_def)
    with False show ?thesis by (auto simp: TraceState_Erase_def AppendExcept_eq)
  qed
  with assms show ?thesis
    by (simp add: ts_wf_def ts_entries_Erase ts_list_ok_filter)
qed

lemma Set_refused: "\<not> ts_accepts s k v \<Longrightarrow> TraceState_Set s k v = s"
  by (auto simp: TraceState_Set_def ts_accepts_def Let_def)

interpretation ts: kv_store TraceState_Get TraceState_Set TraceState_Erase ts_accepts ts_wf
proof unfold_locales
  fix s k v
  show "ts_accepts s k v \<Longrightarrow> TraceState_Get (TraceState_Set s k v) = (TraceState_Get s)(k \<mapsto> v)"
    by (simp add: Get_eq ts_entries_Set)
  show "TraceState_Get (TraceState_Erase s k) = (TraceState_Get s)(k := None)"
    by (simp add: Get_eq ts_entries_Erase)
  show "TraceState_Get s k = None \<Longrightarrow> TraceState_Erase s k = s"
    by (simp add: TraceState_Erase_def)
qed (simp_all add: Set_refused ts_wf_Set ts_wf_Erase)

section \<open>The parser\<close>

subsection \<open>Characters of valid keys and values\<close>

lemma key_tail_char_facts:
  "IsKeyTailChar c \<Longrightarrow> c \<noteq> CHR ''='' \<and> c \<noteq> CHR '','' \<and> \<not> IsOptionalWhitespace c"
  by (auto simp: IsKeyTailChar_def IsLowerAlpha_def IsDigit_def IsOptionalWhitespace_def)

lemma lower_alpha_tail: "IsLowerAlpha c \<Longrightarrow> IsKeyTailChar c"
  by (simp add: IsKeyTailChar_def)

lemma component_chars:
  assumes "IsLowerAlphaLedComponent k n \<or> IsTenantId k"
  shows "k \<noteq> [] \<and> (\<forall>c \<in> set k. IsKeyTailChar c)"
  using assms
  by (cases k)
    (auto simp: IsLowerAlphaLedComponent_def IsTenantId_def HasValidKeyTail_def list_all_iff
      IsKeyTailChar_def split: if_splits)

lemma valid_key_chars:
  assumes "IsValidKey k"
  shows "k \<noteq> [] \<and> (\<forall>c \<in> set k. IsKeyTailChar c \<or> c = CHR ''@'')"
proof (cases "sv_find (CHR ''@'') k")
  case None
  with assms component_chars [of k] show ?thesis by (auto simp: IsValidKey_def)
next
  case (Some at)
  with assms have "IsTenantId (take at k)" "IsLowerAlphaLedComponent (drop (at + 1) k) 14"
    by (auto simp: IsValidKey_def kMaxSystemIdChars_def)
  then have tail: "\<forall>c \<in> set (take at k) \<union> set (drop (at + 1) k). IsKeyTailChar c"
    using component_chars by blast
  from Some obtain xs ys where k: "k = xs @ CHR ''@'' # ys" and parts: "take at k = xs"
    "drop (at + 1) k = ys" by (rule sv_find_split)
  from tail have "\<forall>c \<in> set xs \<union> set ys. IsKeyTailChar c" by (simp only: parts)
  with k show ?thesis by auto
qed

lemma valid_key_no:
  assumes "IsValidKey k"
  shows "CHR ''='' \<notin> set k" "CHR '','' \<notin> set k" "\<not> IsOptionalWhitespace (hd k)"
proof -
  have ok: "c \<noteq> CHR ''='' \<and> c \<noteq> CHR '','' \<and> \<not> IsOptionalWhitespace c" if "c \<in> set k" for c
  proof (cases "c = CHR ''@''")
    case False
    with valid_key_chars [OF assms] that have "IsKeyTailChar c" by blast
    then show ?thesis by (rule key_tail_char_facts)
  qed (simp add: IsOptionalWhitespace_def)
  then show "CHR ''='' \<notin> set k" "CHR '','' \<notin> set k" by auto
  show "\<not> IsOptionalWhitespace (hd k)" using valid_key_chars [OF assms] ok by simp
qed

lemma valid_value_facts:
  assumes "IsValidValue v"
  shows "v \<noteq> []" "CHR '','' \<notin> set v" "\<not> IsOptionalWhitespace (last v)"
proof -
  have "v \<noteq> []" "last v \<noteq> CHR '' ''" "\<forall>c \<in> set v. IsValueChar c"
    using assms by (auto simp: IsValidValue_def list_all_iff split: if_splits)
  then show "v \<noteq> []" "CHR '','' \<notin> set v" by (auto simp: IsValueChar_def)
  have "IsValueChar (last v)"
    using \<open>v \<noteq> []\<close> \<open>\<forall>c \<in> set v. IsValueChar c\<close> by simp
  with \<open>last v \<noteq> CHR '' ''\<close> show "\<not> IsOptionalWhitespace (last v)"
    by (auto simp: IsOptionalWhitespace_def IsValueChar_def)
qed

definition ts_render :: "ts_entry \<Rightarrow> string" where
  "ts_render e = ts_key e @ [CHR ''=''] @ ts_value e"

lemma ts_append_entry_eq: "ts_append_entry h e = append_member h (ts_render e)"
  by (simp add: ts_append_entry_def append_sep_def ts_render_def)

lemma ts_ParseMember_render: "ts_entry_ok e \<Longrightarrow> ts_ParseMember (ts_render e) = Some e"
  by (simp add: ts_ParseMember_def ts_render_def ts_entry_ok_def valid_key_no sv_simps)

lemma ts_ParseMember_ok: "ts_ParseMember m = Some e \<Longrightarrow> ts_entry_ok e"
  by (auto simp: ts_ParseMember_def ts_entry_ok_def Let_def split: option.splits if_splits)

interpretation ts_list: header_list ts_render ts_ParseMember ts_entry_ok
proof unfold_locales
  fix e assume ok: "ts_entry_ok e"
  then show "clean_member (ts_render e)"
    using valid_key_no [of "ts_key e"] valid_key_chars [of "ts_key e"]
      valid_value_facts [of "ts_value e"]
    by (auto simp: clean_member_def ts_render_def ts_entry_ok_def)
  show "ts_ParseMember (ts_render e) = Some e" using ok by (rule ts_ParseMember_render)
qed

subsection \<open>The loop as a fold over the members\<close>

fun ts_admit :: "string list \<Rightarrow> ts_entry list \<Rightarrow> ts_entry list option" where
  "ts_admit [] es = Some es"
| "ts_admit (m # ms) es =
     (if length es = TraceState_kMaxEntries then None
      else case ts_ParseMember m of
             None \<Rightarrow> None
           | Some e \<Rightarrow> if ts_key e \<in> ts_key ` set es then None else ts_admit ms (es @ [e]))"

lemma ts_Contains_iff: "ts_Contains es k \<longleftrightarrow> k \<in> ts_key ` set es"
  by (auto simp: ts_Contains_def list_ex_iff)

lemma ts_ParseMembers_admit:
  "ts_ParseMembers h es = ts_admit (filter (\<lambda>m. m \<noteq> []) (members h)) es"
proof (induction h es rule: ts_ParseMembers.induct)
  case (1 h es)
  show ?case
  proof (cases "h = []")
    case False
    obtain m rest where nm: "next_member h = (m, rest)" by (cases "next_member h")
    with False show ?thesis
      using "1.IH" [OF False nm [symmetric] refl]
      by (subst ts_ParseMembers.simps)
        (auto simp: members_step ts_Contains_iff split: option.splits)
  qed (simp add: ts_ParseMembers.simps)
qed

lemma ts_admit_Some_iff:
  assumes "ts_list_ok es"
  shows "ts_admit ms es = Some rs \<longleftrightarrow>
    (\<exists>new. rs = es @ new \<and> map ts_ParseMember ms = map Some new \<and> ts_list_ok rs)"
  using assms
proof (induction ms arbitrary: es)
  case (Cons m ms)
  show ?case
  proof (cases "ts_ParseMember m")
    case (Some e)
    let ?bad = "length es = TraceState_kMaxEntries \<or> ts_key e \<in> ts_key ` set es"
    show ?thesis
    proof (cases ?bad)
      case True
      have "\<not> ts_list_ok (es @ e # new)" for new
        using True by (auto simp: ts_list_ok_def)
      with True Some show ?thesis by (auto simp: map_eq_Cons_conv)
    next
      case False
      with Cons.prems Some have "ts_list_ok (es @ [e])"
        by (auto simp: ts_list_ok_def ts_ParseMember_ok)
      from Cons.IH [OF this] False Some show ?thesis
        by (auto simp: map_eq_Cons_conv Cons_eq_map_conv)
    qed
  qed (auto simp: Cons_eq_map_conv)
qed auto

lemma ts_FromHeader_entries:
  "ts_entries (TraceState_FromHeader h) =
     (case ts_admit (filter (\<lambda>m. m \<noteq> []) (members h)) [] of None \<Rightarrow> [] | Some es \<Rightarrow> es)"
  by (auto simp: TraceState_FromHeader_def ts_ParseMembers_admit ts_entries_def split: option.splits)

lemma ts_list_ok_Nil [simp]: "ts_list_ok []"
  by (simp add: ts_list_ok_def)

lemma ts_wf_FromHeader [inv_intros]: "ts_wf (TraceState_FromHeader h)"
  by (auto simp: TraceState_FromHeader_def ts_ParseMembers_admit ts_wf_def ts_entries_def
      ts_admit_Some_iff split: option.splits)

lemma ts_ToHeader_eq:
  "TraceState_ToHeader s = foldl append_member [] (map ts_render (ts_entries s))"
  by (auto simp: TraceState_ToHeader_def ts_entries_def foldl_map ts_append_entry_eq
      cong: foldl_cong split: option.splits)

lemma ts_wf_all_ok: "ts_wf s \<Longrightarrow> \<forall>e \<in> set (ts_entries s). ts_entry_ok e"
  by (simp add: ts_wf_def ts_list_ok_def list_all_iff)

lemma ts_roundtrip: "ts_wf s \<Longrightarrow> TraceState_FromHeader (TraceState_ToHeader s) = s"
proof -
  assume wf: "ts_wf s"
  note ok = ts_wf_all_ok [OF wf]
  have "filter (\<lambda>m. m \<noteq> []) (members (TraceState_ToHeader s)) = map ts_render (ts_entries s)"
    using ok by (auto simp: ts_ToHeader_eq ts_list.members_of_rendered ts_list.render_nonempty
        intro!: filter_True)
  moreover have "ts_admit (map ts_render (ts_entries s)) [] = Some (ts_entries s)"
    using wf ok by (simp add: ts_admit_Some_iff ts_wf_def ts_ParseMember_render)
  ultimately show ?thesis
    using wf by (cases s) (auto simp: TraceState_FromHeader_def ts_ParseMembers_admit
        ts_wf_def ts_entries_def split: option.splits)
qed

section \<open>Properties\<close>

text \<open>
  C1: every trace state the public surface can build, by parsing any header and then applying any
  sequence of \<open>Set\<close> and \<open>Erase\<close> calls, is well formed (at most 32 entries, distinct valid keys,
  valid values, the empty state always the null pointer) and survives a hop: parsing the header
  it serialises to gives the same value back.
\<close>

theorem trace_state_roundtrip:
  "let s = kv_run TraceState_Set TraceState_Erase (TraceState_FromHeader h) ops
   in ts_wf s \<and> TraceState_FromHeader (TraceState_ToHeader s) = s"
  using ts.run_invar [OF ts_wf_FromHeader] by (simp add: Let_def ts_roundtrip)

text \<open>
  \<open>FromHeader\<close> accepts a header exactly when all of its non-blank comma-separated members parse,
  no two share a key and there are at most 32 of them, and then keeps all of them in order;
  any single violation discards the whole header.
\<close>

theorem trace_state_from_header_spec:
  "m_entries (TraceState_FromHeader h) = Some es \<longleftrightarrow>
     es \<noteq> [] \<and> map ts_ParseMember (filter (\<lambda>m. m \<noteq> []) (members h)) = map Some es \<and>
     length es \<le> 32 \<and> distinct (map ts_key es)"
proof -
  have ok: "ts_list_ok es \<longleftrightarrow> length es \<le> 32 \<and> distinct (map ts_key es)"
    if "map ts_ParseMember ms = map Some es" for ms
  proof -
    have "ts_entry_ok e" if "e \<in> set es" for e
      using that \<open>map ts_ParseMember ms = map Some es\<close>
      by (metis (no_types, lifting) image_iff list.set_map ts_ParseMember_ok)
    then show ?thesis by (auto simp: ts_list_ok_def TraceState_kMaxEntries_def list_all_iff)
  qed
  let ?ms = "filter (\<lambda>m. m \<noteq> []) (members h)"
  have "m_entries (TraceState_FromHeader h) = Some es \<longleftrightarrow> es \<noteq> [] \<and> ts_admit ?ms [] = Some es"
    by (auto simp: TraceState_FromHeader_def ts_ParseMembers_admit split: option.splits)
  also have "\<dots> \<longleftrightarrow> es \<noteq> [] \<and> map ts_ParseMember ?ms = map Some es \<and> ts_list_ok es"
    by (simp add: ts_admit_Some_iff)
  finally show ?thesis using ok by blast
qed

text \<open>
  \<open>Set\<close> and \<open>Erase\<close> implement a bounded finite map. An accepted \<open>Set\<close> moves the key to the
  front and keeps the order of the other entries; a refused one (bad key, bad value, or a new key
  at 32 entries) changes nothing; \<open>Erase\<close> removes the key and nothing else.
\<close>

theorem trace_state_mutators:
  "ts_entries (TraceState_Set s k v) =
     (if IsValidKey k \<and> IsValidValue v \<and> (TraceState_Get s k \<noteq> None \<or> TraceState_Size s < 32)
      then \<lparr>ts_key = k, ts_value = v\<rparr> # filter (\<lambda>e. ts_key e \<noteq> k) (ts_entries s)
      else ts_entries s) \<and>
   ts_entries (TraceState_Erase s k) = filter (\<lambda>e. ts_key e \<noteq> k) (ts_entries s) \<and>
   TraceState_Get s = assoc_of ts_key ts_value (ts_entries s)"
  by (simp add: ts_entries_Set ts_entries_Erase Get_eq ts_accepts_def TraceState_kMaxEntries_def)

theorem trace_state_mutators_witness:
  "map ts_key (ts_entries (TraceState_Set (TraceState_FromHeader ''a=1,b=2'') ''b'' ''3'')) =
     [''b'', ''a'']"
proof -
  have "IsValidKey ''b'' \<and> IsValidValue ''3''" by code_simp
  moreover have "ts_entries (TraceState_FromHeader ''a=1,b=2'') =
      [\<lparr>ts_key = ''a'', ts_value = ''1''\<rparr>, \<lparr>ts_key = ''b'', ts_value = ''2''\<rparr>]" by code_simp
  moreover have "TraceState_Size (TraceState_FromHeader ''a=1,b=2'') < 32" by code_simp
  ultimately show ?thesis
    using trace_state_mutators [of "TraceState_FromHeader ''a=1,b=2''" "''b''" "''3''"] by simp
qed

end
