(* ===== verification/Baggage.thy ===== *)
theory Baggage
  imports Header_Text Kv_Store "HOL-Library.Sublist"
begin

text \<open>
  \<open>microtel::Baggage\<close> (\<open>src/api/baggage.cpp\<close>): the W3C \<open>baggage\<close> list with its percent codec, the
  opaque property tail, the three size limits, and the copy-on-write mutators. Octets are
  characters; \<open>std::size_t\<close> sums of string lengths are natural numbers, since no such sum can
  exceed the address space.

  Proved here: the percent codec decodes what it encodes and predicts its own length, the
  header a baggage serialises to is exactly as long as the limit checks assume and within the
  limits, the header round trip, and the \<open>kv_store\<close> contract of the mutators.
\<close>

section \<open>Representation and character classes\<close>

record bg_entry =
  bg_key :: string
  bg_value :: string
  bg_properties :: string
  bg_member_bytes :: nat

record Baggage =
  m_impl :: "bg_entry list option"

definition Baggage_kMaxEntries :: nat where "Baggage_kMaxEntries = 180"
definition kMaxEntryBytes :: nat where "kMaxEntryBytes = 4096"
definition kMaxTotalBytes :: nat where "kMaxTotalBytes = 8192"

definition bg_IsDigit :: "char \<Rightarrow> bool" where
  "bg_IsDigit c \<longleftrightarrow> CHR ''0'' \<le> c \<and> c \<le> CHR ''9''"

definition IsAlpha :: "char \<Rightarrow> bool" where
  "IsAlpha c \<longleftrightarrow> (CHR ''a'' \<le> c \<and> c \<le> CHR ''z'') \<or> (CHR ''A'' \<le> c \<and> c \<le> CHR ''Z'')"

definition kTokenSpecials :: string where
  "kTokenSpecials = ''!#$%&'' @ [CHR 0x27] @ ''*+-.^_'' @ [CHR 0x60] @ ''|~''"

definition IsTokenChar :: "char \<Rightarrow> bool" where
  "IsTokenChar c \<longleftrightarrow> IsAlpha c \<or> bg_IsDigit c \<or> sv_find c kTokenSpecials \<noteq> None"

definition IsToken :: "string \<Rightarrow> bool" where
  "IsToken t \<longleftrightarrow> t \<noteq> [] \<and> list_all IsTokenChar t"

definition IsBaggageOctet :: "char \<Rightarrow> bool" where
  "IsBaggageOctet c =
     (let octet = (of_char c :: nat)
      in if octet < 0x21 \<or> octet > 0x7E then False
         else c \<noteq> CHR 0x22 \<and> c \<noteq> CHR '','' \<and> c \<noteq> CHR '';'' \<and> c \<noteq> CHR 0x5C)"

definition IsWireValue :: "string \<Rightarrow> bool" where
  "IsWireValue t \<longleftrightarrow> list_all IsBaggageOctet t"

definition IsHexDigit :: "char \<Rightarrow> bool" where
  "IsHexDigit c \<longleftrightarrow> bg_IsDigit c \<or> (CHR ''a'' \<le> c \<and> c \<le> CHR ''f'') \<or> (CHR ''A'' \<le> c \<and> c \<le> CHR ''F'')"

definition bg_HexDigitValue :: "char \<Rightarrow> nat" where
  "bg_HexDigitValue c =
     (if bg_IsDigit c then of_char c - of_char (CHR ''0'')
      else
        let base = (if CHR ''a'' \<le> c \<and> c \<le> CHR ''f'' then CHR ''a'' else CHR ''A'')
        in (of_char c - of_char base) + 10)"

section \<open>Percent codec\<close>

text \<open>The cursor \<open>at\<close> into \<open>raw\<close> is the suffix still to read.\<close>

fun DecodeValue :: "string \<Rightarrow> string \<Rightarrow> string option" where
  "DecodeValue [] out = Some out"
| "DecodeValue (c # cs) out =
     (if \<not> IsBaggageOctet c then None
      else if c \<noteq> CHR ''%'' then DecodeValue cs (out @ [c])
      else (case cs of
              high # low # rest \<Rightarrow>
                if \<not> IsHexDigit high \<or> \<not> IsHexDigit low then None
                else DecodeValue rest
                       (out @ [char_of ((push_bit 4 (bg_HexDigitValue high)) OR bg_HexDigitValue low)])
            | _ \<Rightarrow> None))"

definition NeedsEscape :: "char \<Rightarrow> bool" where
  "NeedsEscape c \<longleftrightarrow> \<not> IsBaggageOctet c \<or> c = CHR ''%''"

definition EncodedSize :: "string \<Rightarrow> nat" where
  "EncodedSize decoded = foldl (\<lambda>size c. size + (if NeedsEscape c then 3 else 1)) 0 decoded"

definition kUpperHexDigits :: string where "kUpperHexDigits = ''0123456789ABCDEF''"

fun AppendEncoded :: "string \<Rightarrow> string \<Rightarrow> string" where
  "AppendEncoded [] out = out"
| "AppendEncoded (c # cs) out =
     (if \<not> NeedsEscape c then AppendEncoded cs (out @ [c])
      else
        let octet = (of_char c :: nat)
        in AppendEncoded cs
             (out @ [CHR ''%'', kUpperHexDigits ! (drop_bit 4 octet AND 0x0F),
                     kUpperHexDigits ! (octet AND 0x0F)]))"

section \<open>Members\<close>

definition AppendProperty :: "string \<Rightarrow> string \<Rightarrow> string option" where
  "AppendProperty property out =
     (let equals = sv_find (CHR ''='') property;
          name = TrimOptionalWhitespace (sv_upto property equals)
      in if \<not> IsToken name then None
         else
           let v = TrimOptionalWhitespace (sv_after property equals)
           in if equals \<noteq> None \<and> \<not> IsWireValue v then None
              else
                let out1 = (if out \<noteq> [] then out @ [CHR '';''] else out) @ name
                in Some (if equals \<noteq> None then out1 @ [CHR ''=''] @ v else out1))"

function ParseProperties :: "string \<Rightarrow> string \<Rightarrow> string option" where
  "ParseProperties tail out =
     (let semicolon = sv_find (CHR '';'') tail
      in case AppendProperty (TrimOptionalWhitespace (sv_upto tail semicolon)) out of
           None \<Rightarrow> None
         | Some out' \<Rightarrow>
             (case semicolon of
                None \<Rightarrow> Some out'
              | Some n \<Rightarrow> ParseProperties (drop (n + 1) tail) out'))"
  by pat_completeness auto
termination
  by (relation "measure (\<lambda>(tail, out). length tail)") (auto dest: sv_find_SomeD [OF sym])

declare ParseProperties.simps [simp del]

definition MakeEntry :: "string \<Rightarrow> string \<Rightarrow> string \<Rightarrow> bg_entry" where
  "MakeEntry k v properties =
     (let property_bytes = (if properties = [] then 0 else 1 + length properties);
          member_bytes = length k + 1 + EncodedSize v + property_bytes
      in \<lparr>bg_key = k, bg_value = v, bg_properties = properties, bg_member_bytes = member_bytes\<rparr>)"

definition bg_ParseMember :: "string \<Rightarrow> bg_entry option" where
  "bg_ParseMember member =
     (let semicolon = sv_find (CHR '';'') member;
          head = sv_upto member semicolon
      in case sv_find (CHR ''='') head of
           None \<Rightarrow> None
         | Some equals \<Rightarrow>
             let k = TrimOptionalWhitespace (take equals head)
             in if \<not> IsToken k then None
                else (case DecodeValue (TrimOptionalWhitespace (drop (equals + 1) head)) [] of
                        None \<Rightarrow> None
                      | Some v \<Rightarrow>
                          (case semicolon of
                             None \<Rightarrow> Some (MakeEntry k v [])
                           | Some n \<Rightarrow>
                               (case ParseProperties (drop (n + 1) member) [] of
                                  None \<Rightarrow> None
                                | Some properties \<Rightarrow> Some (MakeEntry k v properties)))))"

definition bg_Contains :: "bg_entry list \<Rightarrow> string \<Rightarrow> bool" where
  "bg_Contains entries k \<longleftrightarrow> list_ex (\<lambda>entry. bg_key entry = k) entries"

definition TotalWith :: "nat \<Rightarrow> nat \<Rightarrow> nat \<Rightarrow> nat" where
  "TotalWith total_bytes count member_bytes = total_bytes + (if count = 0 then 0 else 1) + member_bytes"

fun SerialisedSize_loop :: "bg_entry list \<Rightarrow> nat \<Rightarrow> nat \<Rightarrow> nat" where
  "SerialisedSize_loop [] total_bytes count = total_bytes"
| "SerialisedSize_loop (entry # es) total_bytes count =
     SerialisedSize_loop es (TotalWith total_bytes count (bg_member_bytes entry)) (count + 1)"

definition SerialisedSize :: "bg_entry list \<Rightarrow> nat" where
  "SerialisedSize entries = SerialisedSize_loop entries 0 0"

datatype Admission = Accepted | Skipped | Stopped

definition Admit :: "bg_entry \<Rightarrow> bg_entry list \<Rightarrow> nat \<Rightarrow> Admission" where
  "Admit candidate entries total_bytes =
     (if bg_member_bytes candidate > kMaxEntryBytes then Skipped
      else if bg_Contains entries (bg_key candidate) then Skipped
      else if length entries \<ge> Baggage_kMaxEntries then Stopped
      else if TotalWith total_bytes (length entries) (bg_member_bytes candidate) > kMaxTotalBytes
           then Stopped
      else Accepted)"

function bg_ParseMembers :: "string \<Rightarrow> bg_entry list \<Rightarrow> nat \<Rightarrow> bg_entry list" where
  "bg_ParseMembers header entries total_bytes =
     (if header = [] then entries
      else
        let (member, rest) = next_member header
        in (case (if member = [] then None else bg_ParseMember member) of
              None \<Rightarrow> bg_ParseMembers rest entries total_bytes
            | Some entry \<Rightarrow>
                (case Admit entry entries total_bytes of
                   Stopped \<Rightarrow> entries
                 | Skipped \<Rightarrow> bg_ParseMembers rest entries total_bytes
                 | Accepted \<Rightarrow>
                     bg_ParseMembers rest (entries @ [entry])
                       (TotalWith total_bytes (length entries) (bg_member_bytes entry)))))"
  by pat_completeness auto
termination
  by (relation "measure (\<lambda>(header, entries, total_bytes). length header)") (auto dest: next_member_lt)

declare bg_ParseMembers.simps [simp del]

section \<open>The public surface\<close>

definition Seal :: "bg_entry list \<Rightarrow> bg_entry list option" where
  "Seal entries = (if entries = [] then None else Some entries)"

definition Baggage_FromHeader :: "string \<Rightarrow> Baggage" where
  "Baggage_FromHeader header = \<lparr>m_impl = Seal (bg_ParseMembers header [] 0)\<rparr>"

definition bg_append_entry :: "string \<Rightarrow> bg_entry \<Rightarrow> string" where
  "bg_append_entry header entry =
     (let h = (if header \<noteq> [] then header @ [CHR '',''] else header)
                @ bg_key entry @ [CHR ''=''];
          h1 = AppendEncoded (bg_value entry) h
      in if bg_properties entry \<noteq> [] then h1 @ [CHR '';''] @ bg_properties entry else h1)"

definition Baggage_ToHeader :: "Baggage \<Rightarrow> string" where
  "Baggage_ToHeader b = (case m_impl b of None \<Rightarrow> [] | Some es \<Rightarrow> foldl bg_append_entry [] es)"

fun Baggage_Get_loop :: "bg_entry list \<Rightarrow> string \<Rightarrow> string option" where
  "Baggage_Get_loop [] k = None"
| "Baggage_Get_loop (entry # es) k =
     (if bg_key entry = k then Some (bg_value entry) else Baggage_Get_loop es k)"

definition Baggage_Get :: "Baggage \<Rightarrow> string \<Rightarrow> string option" where
  "Baggage_Get b k = (case m_impl b of None \<Rightarrow> None | Some es \<Rightarrow> Baggage_Get_loop es k)"

definition Baggage_Size :: "Baggage \<Rightarrow> nat" where
  "Baggage_Size b = (case m_impl b of None \<Rightarrow> 0 | Some es \<Rightarrow> length es)"

definition Baggage_Empty :: "Baggage \<Rightarrow> bool" where
  "Baggage_Empty b \<longleftrightarrow> Baggage_Size b = 0"

text \<open>\<open>ranges::find\<close> on the key, then overwrite in place or append at the end.\<close>

fun set_or_push :: "bg_entry \<Rightarrow> bg_entry list \<Rightarrow> bg_entry list" where
  "set_or_push candidate [] = [candidate]"
| "set_or_push candidate (e # es) =
     (if bg_key e = bg_key candidate then candidate # es else e # set_or_push candidate es)"

definition Baggage_Set :: "Baggage \<Rightarrow> string \<Rightarrow> string \<Rightarrow> Baggage" where
  "Baggage_Set b k v =
     (let replaces_existing = (Baggage_Get b k \<noteq> None)
      in if \<not> IsToken k \<or> (\<not> replaces_existing \<and> Baggage_Size b \<ge> Baggage_kMaxEntries) then b
         else
           let candidate = MakeEntry k v []
           in if bg_member_bytes candidate > kMaxEntryBytes then b
              else
                let entries = set_or_push candidate (case m_impl b of None \<Rightarrow> [] | Some es \<Rightarrow> es)
                in if SerialisedSize entries > kMaxTotalBytes then b
                   else \<lparr>m_impl = Seal entries\<rparr>)"

definition Baggage_Erase :: "Baggage \<Rightarrow> string \<Rightarrow> Baggage" where
  "Baggage_Erase b k =
     (if Baggage_Get b k = None then b
      else (case m_impl b of
              None \<Rightarrow> b
            | Some es \<Rightarrow> \<lparr>m_impl = Seal (filter (\<lambda>entry. bg_key entry \<noteq> k) es)\<rparr>))"

section \<open>The percent codec round trips\<close>

definition enc_char :: "char \<Rightarrow> string" where
  "enc_char c =
     (if \<not> NeedsEscape c then [c]
      else [CHR ''%'', kUpperHexDigits ! (drop_bit 4 (of_char c :: nat) AND 0x0F),
            kUpperHexDigits ! ((of_char c :: nat) AND 0x0F)])"

definition enc :: "string \<Rightarrow> string" where
  "enc s = concat (map enc_char s)"

text \<open>The sixteen upper-case hexadecimal digits.\<close>

definition upper_digit_ok :: "nat \<Rightarrow> bool" where
  "upper_digit_ok i \<longleftrightarrow> IsHexDigit (kUpperHexDigits ! i) \<and> IsBaggageOctet (kUpperHexDigits ! i) \<and>
     bg_HexDigitValue (kUpperHexDigits ! i) = i"

lemma upper_digit_ok: "i < 16 \<Longrightarrow> upper_digit_ok i"
  by (rule all_less_16 [of upper_digit_ok]) (code_simp, assumption)

lemma escape_ok:
  "upper_digit_ok (drop_bit 4 (of_char c :: nat) AND 15)"
  "upper_digit_ok ((of_char c :: nat) AND 15)"
  "char_of (push_bit 4 (drop_bit 4 (of_char c :: nat) AND 15) OR (of_char c AND 15)) = c"
  by (simp_all only: upper_digit_ok nibble_less nibbles_join [OF nat_of_char_less_256] char_of_char)

lemma percent_octet: "IsBaggageOctet (CHR ''%'')"
  by code_simp

lemma AppendEncoded_eq: "AppendEncoded s out = out @ enc s"
  by (induction s arbitrary: out) (auto simp: enc_def enc_char_def Let_def)

lemma EncodedSize_eq: "EncodedSize s = length (enc s)"
proof -
  have "foldl (\<lambda>size c. size + (if NeedsEscape c then 3 else 1)) n s = n + length (enc s)" for n
    by (induction s arbitrary: n) (auto simp: enc_def enc_char_def)
  then show ?thesis by (simp add: EncodedSize_def)
qed

lemma DecodeValue_enc_char: "DecodeValue (enc_char c @ r) out = DecodeValue r (out @ [c])"
proof (cases "NeedsEscape c")
  case True
  with escape_ok [of c] show ?thesis
    by (simp add: enc_char_def upper_digit_ok_def percent_octet)
qed (auto simp: enc_char_def NeedsEscape_def)

lemma DecodeValue_enc: "DecodeValue (enc s @ r) out = DecodeValue r (out @ s)"
  by (induction s arbitrary: out) (simp_all add: enc_def DecodeValue_enc_char)

lemma DecodeValue_enc_all: "DecodeValue (enc s) [] = Some s"
  using DecodeValue_enc [of s "[]" "[]"] by simp

lemma enc_octets: "\<forall>c \<in> set (enc s). IsBaggageOctet c"
proof -
  have "\<forall>d \<in> set (enc_char c). IsBaggageOctet d" for c
    using escape_ok(1,2) [of c] percent_octet
    by (auto simp: enc_char_def upper_digit_ok_def NeedsEscape_def)
  then show ?thesis by (auto simp: enc_def)
qed

section \<open>Character facts\<close>

lemma octet_facts:
  "IsBaggageOctet c \<Longrightarrow> c \<noteq> CHR '','' \<and> c \<noteq> CHR '';'' \<and> \<not> IsOptionalWhitespace c"
  by (auto simp: IsBaggageOctet_def IsOptionalWhitespace_def Let_def split: if_splits)

lemma token_char_octet:
  assumes "IsTokenChar c"
  shows "IsBaggageOctet c \<and> c \<noteq> CHR ''=''"
proof -
  consider "IsAlpha c" | "bg_IsDigit c" | "c \<in> set kTokenSpecials"
    using assms by (auto simp: IsTokenChar_def sv_find_None_iff)
  then show ?thesis
  proof cases
    case 1
    then show ?thesis by (auto simp: IsAlpha_def IsBaggageOctet_def less_eq_char_def)
  next
    case 2
    then show ?thesis by (auto simp: bg_IsDigit_def IsBaggageOctet_def less_eq_char_def)
  next
    case 3
    then show ?thesis by (auto simp: kTokenSpecials_def IsBaggageOctet_def)
  qed
qed

lemma token_facts:
  assumes "IsToken k"
  shows "k \<noteq> []" "\<forall>c \<in> set k. IsBaggageOctet c" "CHR ''='' \<notin> set k"
  using assms token_char_octet by (auto simp: IsToken_def list_all_iff)

lemma octets_no:
  assumes "\<forall>c \<in> set s. IsBaggageOctet c"
  shows "CHR '','' \<notin> set s" "CHR '';'' \<notin> set s"
    "s \<noteq> [] \<Longrightarrow> \<not> IsOptionalWhitespace (hd s) \<and> \<not> IsOptionalWhitespace (last s)"
  using assms octet_facts by (auto dest: hd_in_set last_in_set)

lemma octets_trim: "\<forall>c \<in> set s. IsBaggageOctet c \<Longrightarrow> TrimOptionalWhitespace s = s"
  by (rule Trim_id) (auto dest: octets_no(3))

lemma equals_octet: "IsBaggageOctet (CHR ''='')"
  by code_simp

section \<open>Property tails\<close>

text \<open>One property in canonical form: \<open>name\<close> or \<open>name=value\<close>.\<close>

definition canon_property :: "string \<Rightarrow> string option" where
  "canon_property p = AppendProperty p []"

lemma AppendProperty_canon:
  "AppendProperty p out = map_option (append_sep (CHR '';'') out) (canon_property p)"
  by (simp add: AppendProperty_def canon_property_def append_sep_def Let_def)

lemma canon_property_cases:
  assumes "canon_property p = Some q"
  obtains name where "IsToken name" "q = name"
  | name v where "IsToken name" "IsWireValue v" "q = name @ CHR ''='' # v"
  using assms that
  by (auto simp: canon_property_def AppendProperty_def Let_def split: if_splits)

lemma canon_property_octets:
  assumes "canon_property p = Some q"
  shows "q \<noteq> [] \<and> (\<forall>c \<in> set q. IsBaggageOctet c)"
  using assms
proof (cases rule: canon_property_cases)
  case (2 name v)
  then show ?thesis
    using token_facts(2) [of name] equals_octet by (auto simp: IsWireValue_def list_all_iff)
qed (use token_facts in blast)

lemma canon_property_idem:
  assumes "canon_property p = Some q"
  shows "canon_property q = Some q"
  using assms
proof (cases rule: canon_property_cases)
  case (1 name)
  then show ?thesis
    by (simp add: canon_property_def AppendProperty_def token_facts octets_trim sv_upto_def sv_simps)
next
  case (2 name v)
  then show ?thesis
    by (simp add: canon_property_def AppendProperty_def token_facts octets_trim sv_upto_def
        sv_after_def sv_simps IsWireValue_def list_all_iff)
qed

fun append_all :: "string list \<Rightarrow> string \<Rightarrow> string option" where
  "append_all [] out = Some out"
| "append_all (p # ps) out =
     (case canon_property p of None \<Rightarrow> None | Some q \<Rightarrow> append_all ps (append_sep (CHR '';'') out q))"

lemma ParseProperties_split:
  "ParseProperties tail out = append_all (map TrimOptionalWhitespace (split_on (CHR '';'') tail)) out"
proof (induction tail out rule: ParseProperties.induct)
  case (1 tail out)
  then show ?case
    by (subst ParseProperties.simps, subst split_on.simps)
      (auto simp: AppendProperty_canon sv_upto_def Let_def split: option.splits)
qed

lemma append_all_Some:
  "append_all ps out = Some r \<longleftrightarrow>
     (\<exists>qs. map canon_property ps = map Some qs \<and> r = foldl (append_sep (CHR '';'')) out qs)"
proof (induction ps arbitrary: out)
  case (Cons p ps)
  then show ?case by (cases "canon_property p") (auto simp: Cons_eq_map_conv)
qed auto

lemma ParseProperties_canonical:
  assumes "ParseProperties tail [] = Some r"
  shows "r \<noteq> []" "\<forall>c \<in> set r. IsBaggageOctet c \<or> c = CHR '';''"
    "\<not> IsOptionalWhitespace (last r)" "ParseProperties r [] = Some r"
proof -
  from assms obtain qs where qs:
    "map canon_property (map TrimOptionalWhitespace (split_on (CHR '';'') tail)) = map Some qs"
    and r: "r = foldl (append_sep (CHR '';'')) [] qs"
    by (auto simp: ParseProperties_split append_all_Some)
  have ne: "qs \<noteq> []" using qs by (subst (asm) split_on.simps) (auto split: option.splits)
  have canon: "\<exists>p. canon_property p = Some q" if "q \<in> set qs" for q
    using that qs by (metis (no_types, lifting) image_iff list.set_map)
  have oct: "\<forall>q \<in> set qs. q \<noteq> [] \<and> (\<forall>c \<in> set q. IsBaggageOctet c)"
    using canon canon_property_octets by blast
  have rj: "r = join_on (CHR '';'') qs" using r oct by (simp add: foldl_append_sep)
  show "r \<noteq> []" using rj ne oct by (simp add: join_on_nonempty)
  show "\<forall>c \<in> set r. IsBaggageOctet c \<or> c = CHR '';''"
    using rj oct set_join_on [of "CHR '';''" qs] by blast
  have "last qs \<in> set qs" using ne by simp
  with oct have "IsBaggageOctet (last (last qs))" by (auto dest: last_in_set)
  then have "IsBaggageOctet (last r)" using rj ne oct by (simp add: last_join_on)
  then show "\<not> IsOptionalWhitespace (last r)" using octet_facts by blast
  have "split_on (CHR '';'') r = qs"
    using rj ne oct octets_no(2) by (simp add: split_on_join)
  moreover have "map TrimOptionalWhitespace qs = qs"
    using oct by (simp add: map_idI octets_trim)
  moreover have "map canon_property qs = map Some qs"
    using canon canon_property_idem by (auto intro!: map_cong)
  ultimately show "ParseProperties r [] = Some r"
    using r by (simp only: ParseProperties_split append_all_Some) blast
qed

section \<open>One member\<close>

definition bg_render :: "bg_entry \<Rightarrow> string" where
  "bg_render e = bg_key e @ [CHR ''=''] @ enc (bg_value e) @
     (if bg_properties e = [] then [] else CHR '';'' # bg_properties e)"

definition bg_entry_ok :: "bg_entry \<Rightarrow> bool" where
  "bg_entry_ok e \<longleftrightarrow> IsToken (bg_key e) \<and>
     (bg_properties e = [] \<or> ParseProperties (bg_properties e) [] = Some (bg_properties e)) \<and>
     e = MakeEntry (bg_key e) (bg_value e) (bg_properties e)"

lemma MakeEntry_sel [simp]:
  "bg_key (MakeEntry k v p) = k" "bg_value (MakeEntry k v p) = v"
  "bg_properties (MakeEntry k v p) = p"
  by (simp_all add: MakeEntry_def Let_def)

lemma length_bg_render: "bg_entry_ok e \<Longrightarrow> length (bg_render e) = bg_member_bytes e"
proof -
  assume "bg_entry_ok e"
  then have "bg_member_bytes e = bg_member_bytes (MakeEntry (bg_key e) (bg_value e) (bg_properties e))"
    by (metis bg_entry_ok_def)
  then show ?thesis by (simp add: MakeEntry_def bg_render_def EncodedSize_eq Let_def)
qed

lemma bg_append_entry_eq: "bg_append_entry h e = append_member h (bg_render e)"
  by (simp add: bg_append_entry_def bg_render_def append_sep_def AppendEncoded_eq Let_def)

lemma bg_head_no_semicolon:
  "IsToken k \<Longrightarrow> CHR '';'' \<notin> set (k @ CHR ''='' # enc v)"
  using token_facts(2) [of k] enc_octets [of v] octet_facts by auto

lemma bg_ParseMember_render:
  assumes "bg_entry_ok e"
  shows "bg_ParseMember (bg_render e) = Some e"
proof -
  let ?k = "bg_key e" and ?v = "bg_value e" and ?p = "bg_properties e"
  let ?head = "?k @ CHR ''='' # enc ?v"
  have k: "IsToken ?k" and e: "MakeEntry ?k ?v ?p = e"
    and p: "?p = [] \<or> ParseProperties ?p [] = Some ?p"
    using assms by (auto simp: bg_entry_ok_def)
  have eq: "sv_find (CHR ''='') ?head = Some (length ?k)"
    using token_facts(3) [OF k] by (simp add: sv_simps)
  have semi: "CHR '';'' \<notin> set ?head" using k by (rule bg_head_no_semicolon)
  have trims: "TrimOptionalWhitespace ?k = ?k" "TrimOptionalWhitespace (enc ?v) = enc ?v"
    using token_facts(2) [OF k] enc_octets by (simp_all add: octets_trim)
  show ?thesis
  proof (cases "?p = []")
    case True
    then have r: "bg_render e = ?head" by (simp add: bg_render_def)
    have "bg_ParseMember (bg_render e) = Some (MakeEntry ?k ?v [])"
      unfolding r bg_ParseMember_def Let_def sv_find_absent [OF semi]
      by (simp add: sv_upto_def eq trims k DecodeValue_enc_all)
    with e True show ?thesis by simp
  next
    case False
    then have r: "bg_render e = ?head @ CHR '';'' # ?p" by (simp add: bg_render_def)
    have "bg_ParseMember (bg_render e) = Some (MakeEntry ?k ?v ?p)"
      unfolding r bg_ParseMember_def Let_def sv_find_append [OF semi]
      using False p by (simp add: sv_upto_def eq trims k DecodeValue_enc_all)
    with e show ?thesis by simp
  qed
qed

lemma bg_render_clean: "bg_entry_ok e \<Longrightarrow> clean_member (bg_render e)"
proof -
  assume ok: "bg_entry_ok e"
  let ?head = "bg_key e @ CHR ''='' # enc (bg_value e)"
  have k: "IsToken (bg_key e)" using ok by (simp add: bg_entry_ok_def)
  have hd_oct: "\<forall>c \<in> set ?head. IsBaggageOctet c"
    using token_facts(2) [OF k] enc_octets [of "bg_value e"] equals_octet by auto
  have r: "bg_render e = ?head @ (if bg_properties e = [] then [] else CHR '';'' # bg_properties e)"
    by (simp add: bg_render_def)
  show ?thesis
  proof (cases "bg_properties e = []")
    case True
    then show ?thesis using octets_no [OF hd_oct] by (simp add: clean_member_def r)
  next
    case False
    then have "ParseProperties (bg_properties e) [] = Some (bg_properties e)"
      using ok by (simp add: bg_entry_ok_def)
    note canon = ParseProperties_canonical [OF this]
    then have "CHR '','' \<notin> set (bg_properties e)" using octet_facts by fastforce
    with False canon show ?thesis
      using octets_no [OF hd_oct] token_facts(1) [OF k] by (auto simp: clean_member_def r)
  qed
qed

lemma bg_ParseMember_ok: "bg_ParseMember m = Some e \<Longrightarrow> bg_entry_ok e"
  using ParseProperties_canonical(4)
  by (auto simp: bg_ParseMember_def bg_entry_ok_def Let_def split: option.splits if_splits)

interpretation bg_list: header_list bg_render bg_ParseMember bg_entry_ok
  by unfold_locales (simp_all add: bg_render_clean bg_ParseMember_render)

section \<open>Sizes and limits\<close>

lemma SerialisedSize_loop_eq:
  "SerialisedSize_loop es t n =
     t + sum_list (map bg_member_bytes es) + (if n = 0 then length es - 1 else length es)"
  by (induction es arbitrary: t n) (auto simp: TotalWith_def)

lemma SerialisedSize_eq:
  "SerialisedSize es = sum_list (map bg_member_bytes es) + (length es - 1)"
  by (simp add: SerialisedSize_def SerialisedSize_loop_eq)

lemma SerialisedSize_snoc:
  "SerialisedSize (es @ [e]) = TotalWith (SerialisedSize es) (length es) (bg_member_bytes e)"
  by (cases es) (auto simp: SerialisedSize_eq TotalWith_def)

lemma SerialisedSize_Nil [simp]: "SerialisedSize [] = 0"
  by (simp add: SerialisedSize_eq)

lemma SerialisedSize_append_mono: "SerialisedSize es \<le> SerialisedSize (es @ fs)"
  by (auto simp: SerialisedSize_eq)

lemma sum_list_filter_le: "sum_list (map f (filter P xs)) \<le> sum_list (map f (xs :: 'a list))"
  for f :: "'a \<Rightarrow> nat"
  by (induction xs) auto

lemma SerialisedSize_filter_le: "SerialisedSize (filter P es) \<le> SerialisedSize es"
  unfolding SerialisedSize_eq
  by (intro add_mono sum_list_filter_le diff_le_mono) simp

lemma length_join_on: "length (join_on c ms) = sum_list (map length ms) + (length ms - 1)"
  by (induction c ms rule: join_on.induct) auto

definition bg_list_ok :: "bg_entry list \<Rightarrow> bool" where
  "bg_list_ok es \<longleftrightarrow> length es \<le> Baggage_kMaxEntries \<and> distinct (map bg_key es) \<and>
     (\<forall>e \<in> set es. bg_entry_ok e \<and> bg_member_bytes e \<le> kMaxEntryBytes) \<and>
     SerialisedSize es \<le> kMaxTotalBytes"

definition bg_entries :: "Baggage \<Rightarrow> bg_entry list" where
  "bg_entries b = (case m_impl b of None \<Rightarrow> [] | Some es \<Rightarrow> es)"

definition bg_wf :: "Baggage \<Rightarrow> bool" where
  "bg_wf b \<longleftrightarrow> m_impl b \<noteq> Some [] \<and> bg_list_ok (bg_entries b)"

lemma bg_list_ok_Nil [simp]: "bg_list_ok []"
  by (simp add: bg_list_ok_def)

lemma bg_list_ok_prefix: "bg_list_ok (es @ fs) \<Longrightarrow> bg_list_ok es"
  using SerialisedSize_append_mono [of es fs] by (auto simp: bg_list_ok_def)

lemma bg_list_ok_filter: "bg_list_ok es \<Longrightarrow> bg_list_ok (filter P es)"
  by (auto simp: bg_list_ok_def distinct_map_filter
      intro: le_trans [OF length_filter_le] le_trans [OF SerialisedSize_filter_le])

lemma bg_Contains_iff: "bg_Contains es k \<longleftrightarrow> k \<in> bg_key ` set es"
  by (auto simp: bg_Contains_def list_ex_iff)

lemma Admit_Accepted_iff:
  assumes "bg_list_ok es" "bg_entry_ok e"
  shows "Admit e es (SerialisedSize es) = Accepted \<longleftrightarrow> bg_list_ok (es @ [e])"
  using assms
  by (auto simp: Admit_def bg_list_ok_def bg_Contains_iff simp flip: SerialisedSize_snoc)

lemma bg_entries_Seal [simp]: "bg_entries \<lparr>m_impl = Seal es\<rparr> = es"
  by (simp add: bg_entries_def Seal_def)

lemma bg_wf_Seal: "bg_list_ok es \<Longrightarrow> bg_wf \<lparr>m_impl = Seal es\<rparr>"
  by (simp add: bg_wf_def Seal_def bg_entries_def)

lemma bg_wf_sealed: "bg_wf b \<Longrightarrow> b = \<lparr>m_impl = Seal (bg_entries b)\<rparr>"
  by (cases b) (auto simp: bg_wf_def Seal_def bg_entries_def split: option.splits)

section \<open>The parsing loop\<close>

fun bg_admit :: "string list \<Rightarrow> bg_entry list \<Rightarrow> bg_entry list" where
  "bg_admit [] es = es"
| "bg_admit (m # ms) es =
     (case bg_ParseMember m of
        None \<Rightarrow> bg_admit ms es
      | Some e \<Rightarrow>
          (case Admit e es (SerialisedSize es) of
             Stopped \<Rightarrow> es
           | Skipped \<Rightarrow> bg_admit ms es
           | Accepted \<Rightarrow> bg_admit ms (es @ [e])))"

lemma bg_ParseMember_Nil [simp]: "bg_ParseMember [] = None"
  by (simp add: bg_ParseMember_def sv_upto_def)

lemma bg_ParseMembers_admit:
  "n = SerialisedSize es \<Longrightarrow> bg_ParseMembers h es n = bg_admit (members h) es"
proof (induction h es n rule: bg_ParseMembers.induct)
  case (1 h es n)
  show ?case
  proof (cases "h = []")
    case False
    obtain m rest where nm: "next_member h = (m, rest)" by (cases "next_member h")
    with False "1" show ?thesis
      by (subst bg_ParseMembers.simps)
        (auto simp: members_step SerialisedSize_snoc split: option.splits Admission.splits)
  qed (simp add: bg_ParseMembers.simps)
qed

lemma bg_admit_ok: "bg_list_ok es \<Longrightarrow> bg_list_ok (bg_admit ms es)"
proof (induction ms arbitrary: es)
  case (Cons m ms)
  then show ?case
    by (auto simp: Admit_Accepted_iff bg_ParseMember_ok split: option.splits Admission.splits)
qed simp

lemma bg_admit_all:
  "bg_list_ok (es @ List.map_filter bg_ParseMember ms) \<Longrightarrow>
   bg_admit ms es = es @ List.map_filter bg_ParseMember ms"
proof (induction ms arbitrary: es)
  case (Cons m ms)
  show ?case
  proof (cases "bg_ParseMember m")
    case (Some e)
    let ?rest = "List.map_filter bg_ParseMember ms"
    from Cons.prems Some have ok: "bg_list_ok ((es @ [e]) @ ?rest)" by (simp add: map_filter_simps)
    then have "bg_list_ok (es @ [e])" by (rule bg_list_ok_prefix)
    moreover from this have "bg_list_ok es" by (rule bg_list_ok_prefix)
    ultimately have "Admit e es (SerialisedSize es) = Accepted"
      using Some by (simp add: Admit_Accepted_iff bg_ParseMember_ok)
    with Some Cons.IH [OF ok] show ?thesis by (simp add: map_filter_simps)
  qed (use Cons in \<open>simp add: map_filter_simps\<close>)
qed (simp add: map_filter_simps)

text \<open>The members that qualify on their own: not oversized, and the first with their key.\<close>

fun bg_qualified :: "bg_entry list \<Rightarrow> string list \<Rightarrow> bg_entry list" where
  "bg_qualified [] seen = []"
| "bg_qualified (e # es) seen =
     (if bg_member_bytes e > kMaxEntryBytes \<or> bg_key e \<in> set seen then bg_qualified es seen
      else e # bg_qualified es (seen @ [bg_key e]))"

lemma Admit_Skipped_iff:
  "Admit e es n = Skipped \<longleftrightarrow> bg_member_bytes e > kMaxEntryBytes \<or> bg_key e \<in> set (map bg_key es)"
  by (auto simp: Admit_def bg_Contains_iff)

lemma prefix_append_Cons_cases:
  assumes "prefix p (es @ e # fs)"
  shows "prefix p es \<or> prefix (es @ [e]) p"
  using assms by (auto simp: prefix_append prefix_Cons)

abbreviation bg_candidates :: "string list \<Rightarrow> bg_entry list \<Rightarrow> bg_entry list" where
  "bg_candidates ms es \<equiv> es @ bg_qualified (List.map_filter bg_ParseMember ms) (map bg_key es)"

lemma bg_admit_longest:
  assumes "bg_list_ok es"
  shows "prefix (bg_admit ms es) (bg_candidates ms es) \<and>
    (\<forall>p. prefix p (bg_candidates ms es) \<and> bg_list_ok p \<longrightarrow> prefix p (bg_admit ms es))"
  using assms
proof (induction ms arbitrary: es)
  case (Cons m ms)
  show ?case
  proof (cases "bg_ParseMember m")
    case (Some e)
    note accepted = Admit_Accepted_iff [OF Cons.prems bg_ParseMember_ok [OF Some]]
    show ?thesis
    proof (cases "Admit e es (SerialisedSize es)")
      case Accepted
      then have "bg_candidates (m # ms) es = bg_candidates ms (es @ [e])"
        using Some Admit_Skipped_iff [of e es "SerialisedSize es"]
        by (simp add: map_filter_simps)
      then show ?thesis using Accepted Some Cons.IH [of "es @ [e]"] accepted by simp
    next
      case Skipped
      then have "bg_candidates (m # ms) es = bg_candidates ms es"
        using Some by (simp add: map_filter_simps Admit_Skipped_iff)
      then show ?thesis using Skipped Some Cons by simp
    next
      case Stopped
      then obtain fs where all: "bg_candidates (m # ms) es = es @ e # fs"
        using Some Admit_Skipped_iff [of e es "SerialisedSize es"] by (simp add: map_filter_simps)
      have "\<not> bg_list_ok (es @ [e])" using accepted Stopped by simp
      then have "prefix p (es @ e # fs) \<and> bg_list_ok p \<Longrightarrow> prefix p es" for p
        using prefix_append_Cons_cases [of p es e fs] bg_list_ok_prefix [of "es @ [e]"]
        by (auto simp del: append_assoc elim!: prefixE)
      then show ?thesis unfolding all using Stopped Some by simp
    qed
  qed (use Cons in \<open>simp add: map_filter_simps\<close>)
qed (simp add: map_filter_simps)

lemma bg_entries_FromHeader: "bg_entries (Baggage_FromHeader h) = bg_admit (members h) []"
  by (simp add: Baggage_FromHeader_def bg_ParseMembers_admit)

lemma bg_wf_FromHeader [inv_intros]: "bg_wf (Baggage_FromHeader h)"
  by (simp add: Baggage_FromHeader_def bg_ParseMembers_admit bg_wf_Seal bg_admit_ok)

lemma bg_ToHeader_eq:
  "Baggage_ToHeader b = foldl append_member [] (map bg_render (bg_entries b))"
  by (auto simp: Baggage_ToHeader_def bg_entries_def foldl_map bg_append_entry_eq
      cong: foldl_cong split: option.splits)

lemma bg_wf_all_ok: "bg_wf b \<Longrightarrow> \<forall>e \<in> set (bg_entries b). bg_entry_ok e"
  by (simp add: bg_wf_def bg_list_ok_def)

lemma map_filter_Some: "List.map_filter f (map g es) = es" if "\<forall>e \<in> set es. f (g e) = Some e"
  using that by (induction es) (auto simp: map_filter_simps)

lemma bg_roundtrip:
  assumes "bg_wf b"
  shows "Baggage_FromHeader (Baggage_ToHeader b) = b"
proof -
  note ok = bg_wf_all_ok [OF assms]
  have "List.map_filter bg_ParseMember (members (Baggage_ToHeader b)) = bg_entries b"
    using ok by (simp add: bg_ToHeader_eq bg_list.members_of_rendered map_filter_Some
        bg_list.parse_render)
  with assms have "bg_admit (members (Baggage_ToHeader b)) [] = bg_entries b"
    by (simp add: bg_admit_all bg_wf_def)
  then show ?thesis
    using bg_wf_sealed [OF assms]
    by (simp add: Baggage_FromHeader_def bg_ParseMembers_admit)
qed

lemma bg_ToHeader_length:
  assumes "bg_wf b"
  shows "length (Baggage_ToHeader b) = SerialisedSize (bg_entries b)"
proof -
  note ok = bg_wf_all_ok [OF assms]
  have "Baggage_ToHeader b = join_on (CHR '','') (map bg_render (bg_entries b))"
    unfolding bg_ToHeader_eq using ok
    by (intro foldl_append_sep) (metis (no_types, lifting) bg_list.render_nonempty imageE set_map)
  moreover have "map length (map bg_render (bg_entries b)) = map bg_member_bytes (bg_entries b)"
    using ok by (simp add: length_bg_render)
  ultimately show ?thesis
    by (simp only: length_join_on SerialisedSize_eq length_map)
qed

section \<open>The mutators\<close>

lemma bg_Get_eq: "Baggage_Get b = assoc_of bg_key bg_value (bg_entries b)"
proof -
  have "Baggage_Get_loop es k = assoc_of bg_key bg_value es k" for es k
    by (induction es) auto
  then show ?thesis
    by (intro ext) (simp add: Baggage_Get_def bg_entries_def split: option.splits)
qed

lemma bg_Size_eq: "Baggage_Size b = length (bg_entries b)"
  by (simp add: Baggage_Size_def bg_entries_def split: option.splits)

lemma bg_Get_None_iff: "Baggage_Get b k = None \<longleftrightarrow> k \<notin> bg_key ` set (bg_entries b)"
  by (simp add: bg_Get_eq assoc_of_None_iff)

lemma keys_set_or_push:
  "map bg_key (set_or_push c es) =
     (if bg_key c \<in> bg_key ` set es then map bg_key es else map bg_key es @ [bg_key c])"
  by (induction es) auto

lemma set_set_or_push: "set (set_or_push c es) \<subseteq> insert c (set es)"
  by (induction es) auto

lemma assoc_set_or_push:
  "assoc_of bg_key bg_value (set_or_push c es) =
     (assoc_of bg_key bg_value es)(bg_key c \<mapsto> bg_value c)"
  by (induction es) (auto simp: fun_eq_iff)

lemma set_or_push_nonempty: "set_or_push c es \<noteq> []"
  by (induction es) auto

definition bg_accepts :: "Baggage \<Rightarrow> string \<Rightarrow> string \<Rightarrow> bool" where
  "bg_accepts b k v \<longleftrightarrow> IsToken k \<and>
     (Baggage_Get b k \<noteq> None \<or> Baggage_Size b < Baggage_kMaxEntries) \<and>
     bg_member_bytes (MakeEntry k v []) \<le> kMaxEntryBytes \<and>
     SerialisedSize (set_or_push (MakeEntry k v []) (bg_entries b)) \<le> kMaxTotalBytes"

lemma Baggage_Set_eq:
  "Baggage_Set b k v =
     (if bg_accepts b k v then \<lparr>m_impl = Seal (set_or_push (MakeEntry k v []) (bg_entries b))\<rparr>
      else b)"
  by (auto simp: Baggage_Set_def bg_accepts_def bg_entries_def Let_def)

lemma length_set_or_push:
  "length (set_or_push c es) = (if bg_key c \<in> bg_key ` set es then length es else length es + 1)"
  by (induction es) auto

lemma bg_wf_Set [inv_intros]:
  assumes "bg_wf b"
  shows "bg_wf (Baggage_Set b k v)"
proof (cases "bg_accepts b k v")
  case True
  let ?c = "MakeEntry k v []"
  let ?es = "set_or_push ?c (bg_entries b)"
  have "\<forall>e \<in> set ?es. bg_entry_ok e \<and> bg_member_bytes e \<le> kMaxEntryBytes"
    using assms True set_set_or_push [of ?c "bg_entries b"]
    by (auto simp: bg_wf_def bg_list_ok_def bg_accepts_def bg_entry_ok_def)
  moreover have "distinct (map bg_key ?es)" "length ?es \<le> Baggage_kMaxEntries"
    using assms True
    by (auto simp: keys_set_or_push length_set_or_push bg_wf_def bg_list_ok_def bg_accepts_def
        bg_Get_None_iff bg_Size_eq)
  ultimately have "bg_list_ok ?es" using True by (simp add: bg_list_ok_def bg_accepts_def)
  with True show ?thesis by (simp add: Baggage_Set_eq bg_wf_Seal)
qed (use assms in \<open>simp add: Baggage_Set_eq\<close>)

lemma bg_entries_Erase:
  "bg_entries (Baggage_Erase b k) = filter (\<lambda>e. bg_key e \<noteq> k) (bg_entries b)"
proof (cases "Baggage_Get b k = None")
  case True
  then have "filter (\<lambda>e. bg_key e \<noteq> k) (bg_entries b) = bg_entries b"
    by (auto simp: bg_Get_None_iff filter_id_conv)
  with True show ?thesis by (simp add: Baggage_Erase_def)
next
  case False
  then have "m_impl b \<noteq> None" by (auto simp: Baggage_Get_def split: option.splits)
  with False show ?thesis by (auto simp: Baggage_Erase_def) (simp add: bg_entries_def)
qed

lemma bg_wf_Erase [inv_intros]: "bg_wf b \<Longrightarrow> bg_wf (Baggage_Erase b k)"
proof -
  assume wf: "bg_wf b"
  then have "bg_list_ok (filter P (bg_entries b))" for P
    by (simp add: bg_wf_def bg_list_ok_filter)
  with wf show ?thesis
    by (auto simp: Baggage_Erase_def bg_entries_def intro: bg_wf_Seal split: option.splits)
qed

interpretation bg: kv_store Baggage_Get Baggage_Set Baggage_Erase bg_accepts bg_wf
proof unfold_locales
  fix s k v
  show "bg_accepts s k v \<Longrightarrow> Baggage_Get (Baggage_Set s k v) = (Baggage_Get s)(k \<mapsto> v)"
    by (simp add: Baggage_Set_eq bg_Get_eq assoc_set_or_push)
  show "Baggage_Get (Baggage_Erase s k) = (Baggage_Get s)(k := None)"
    by (simp add: bg_Get_eq bg_entries_Erase)
  show "Baggage_Get s k = None \<Longrightarrow> Baggage_Erase s k = s"
    by (simp add: Baggage_Erase_def)
qed (simp_all add: bg_wf_Set bg_wf_Erase, simp add: Baggage_Set_eq)

section \<open>Properties\<close>

text \<open>
  C2: every baggage the public surface can build, by parsing any header and then applying any
  sequence of \<open>Set\<close> and \<open>Erase\<close> calls, survives a hop unchanged (values, properties and order),
  and the header it serialises to has exactly the length the limit checks computed, at most
  8192 bytes, with at most 180 members of at most 4096 bytes each.
\<close>

theorem baggage_roundtrip:
  "let b = kv_run Baggage_Set Baggage_Erase (Baggage_FromHeader h) ops
   in Baggage_FromHeader (Baggage_ToHeader b) = b \<and>
      length (Baggage_ToHeader b) = SerialisedSize (bg_entries b) \<and>
      length (Baggage_ToHeader b) \<le> 8192 \<and> Baggage_Size b \<le> 180 \<and>
      list_all (\<lambda>e. length (bg_render e) \<le> 4096) (bg_entries b)"
proof -
  define b where "b = kv_run Baggage_Set Baggage_Erase (Baggage_FromHeader h) ops"
  have wf: "bg_wf b" unfolding b_def by (intro bg.run_invar bg_wf_FromHeader)
  have "SerialisedSize (bg_entries b) \<le> 8192 \<and> length (bg_entries b) \<le> 180"
    using wf by (simp add: bg_wf_def bg_list_ok_def kMaxTotalBytes_def Baggage_kMaxEntries_def)
  moreover have "list_all (\<lambda>e. length (bg_render e) \<le> 4096) (bg_entries b)"
    using wf by (auto simp: bg_wf_def bg_list_ok_def list_all_iff length_bg_render kMaxEntryBytes_def)
  ultimately show ?thesis
    using wf by (simp add: Let_def bg_roundtrip bg_ToHeader_length bg_Size_eq flip: b_def)
qed

text \<open>
  Parsing a baggage header is per list-member. A member qualifies on its own: it parses, is not
  over the size of one member, and no earlier qualifying member has its key; a member that does not
  costs only itself. What is kept is exactly the longest initial run of the qualifying members, in
  order, that respects the limits on number and total size.
\<close>

theorem baggage_from_header_per_member:
  fixes h :: string
  defines "qualified \<equiv> bg_qualified (List.map_filter bg_ParseMember (members h)) []"
  shows "prefix (bg_entries (Baggage_FromHeader h)) qualified \<and>
    bg_list_ok (bg_entries (Baggage_FromHeader h)) \<and>
    (\<forall>p. prefix p qualified \<and> bg_list_ok p \<longrightarrow> prefix p (bg_entries (Baggage_FromHeader h)))"
  using bg_admit_longest [of "[]" "members h"] bg_admit_ok [of "[]" "members h"]
  by (simp add: bg_entries_FromHeader qualified_def)

theorem baggage_from_header_per_member_witness:
  "bg_list_ok (bg_qualified (List.map_filter bg_ParseMember (members ''a=1,bad,b=%20,a=2'')) []) \<and>
   bg_entries (Baggage_FromHeader ''a=1,bad,b=%20,a=2'') =
     [MakeEntry ''a'' ''1'' [], MakeEntry ''b'' '' '' []]"
proof -
  let ?q = "bg_qualified (List.map_filter bg_ParseMember (members ''a=1,bad,b=%20,a=2'')) []"
  have q: "?q = [MakeEntry ''a'' ''1'' [], MakeEntry ''b'' '' '' []]"
    by code_simp
  have ok: "bg_list_ok ?q"
    unfolding q by code_simp
  from baggage_from_header_per_member [of "''a=1,bad,b=%20,a=2''"] ok
  have "prefix (bg_entries (Baggage_FromHeader ''a=1,bad,b=%20,a=2'')) ?q"
    "prefix ?q (bg_entries (Baggage_FromHeader ''a=1,bad,b=%20,a=2''))"
    by blast+
  then show ?thesis using ok q by (metis prefix_order.antisym)
qed

text \<open>
  The percent codec. Decoding the encoding of any octet string gives it back, and the encoded
  form is as long as \<open>EncodedSize\<close> predicts without building it.
\<close>

theorem baggage_percent_codec:
  "DecodeValue (AppendEncoded s []) [] = Some s \<and>
   length (AppendEncoded s out) = length out + EncodedSize s"
  by (simp add: AppendEncoded_eq DecodeValue_enc_all EncodedSize_eq)

end
