(* ===== verification/Propagator.thy ===== *)
theory Propagator
  imports Trace_Types
begin

text \<open>
  The W3C Trace Context and Baggage propagators (\<open>src/api/propagator.cpp\<close>). A carrier is not
  part of the program: the caller supplies it as a setter and a getter callback, so here it is a
  state of any type with the two functions as parameters, \<open>None\<close> being an empty
  \<open>std::function\<close>. What the round trips rely on is the documented meaning of the callbacks, the
  predicate \<open>carrier_ok\<close>: reading a header after setting it gives the value set, and setting one
  header does not change another.

  Proved here: \<open>ParseTraceparent\<close> inverts \<open>FormatTraceparent\<close>, it accepts a version-00 header
  exactly when that header is the canonical form of a valid context, and a context injected into
  a clean carrier is extracted unchanged, marked remote.
\<close>

section \<open>Lower-case hexadecimal\<close>

definition IsLowerHexDigit :: "char \<Rightarrow> bool" where
  "IsLowerHexDigit c \<longleftrightarrow> (CHR ''0'' \<le> c \<and> c \<le> CHR ''9'') \<or> (CHR ''a'' \<le> c \<and> c \<le> CHR ''f'')"

definition HexDigitValue :: "char \<Rightarrow> nat" where
  "HexDigitValue c =
     (if CHR ''0'' \<le> c \<and> c \<le> CHR ''9'' then of_char c - of_char (CHR ''0'')
      else (of_char c - of_char (CHR ''a'')) + 10)"

text \<open>The loop over the \<open>N\<close> output bytes, reading two characters for each.\<close>

fun parse_hex_pairs :: "nat \<Rightarrow> string \<Rightarrow> u8 list \<Rightarrow> u8 list option" where
  "parse_hex_pairs 0 hex out = Some out"
| "parse_hex_pairs (Suc n) (high # low # hex) out =
     (if \<not> IsLowerHexDigit high \<or> \<not> IsLowerHexDigit low then None
      else parse_hex_pairs n hex
             (out @ [word_of_nat ((push_bit 4 (HexDigitValue high)) OR HexDigitValue low)]))"
| "parse_hex_pairs (Suc n) _ out = None"

definition ParseLowerHexBytes :: "nat \<Rightarrow> string \<Rightarrow> u8 list option" where
  "ParseLowerHexBytes N hex = (if length hex \<noteq> N * 2 then None else parse_hex_pairs N hex [])"

section \<open>traceparent\<close>

definition kTraceIdOffset :: nat where "kTraceIdOffset = 0 + 2 + 1"
definition kSpanIdOffset :: nat where "kSpanIdOffset = kTraceIdOffset + TraceId_kSizeBytes * 2 + 1"
definition kFlagsOffset :: nat where "kFlagsOffset = kSpanIdOffset + SpanId_kSizeBytes * 2 + 1"
definition kTraceparentChars :: nat where "kTraceparentChars = kFlagsOffset + 2"
definition kVersion00 :: u8 where "kVersion00 = 0x00"
definition kForbiddenVersion :: u8 where "kForbiddenVersion = 0xFF"

definition sv_substr :: "string \<Rightarrow> nat \<Rightarrow> nat \<Rightarrow> string" where
  "sv_substr s pos n = take n (drop pos s)"

definition HasFixedSeparators :: "string \<Rightarrow> bool" where
  "HasFixedSeparators header \<longleftrightarrow>
     header ! (kTraceIdOffset - 1) = CHR ''-'' \<and> header ! (kSpanIdOffset - 1) = CHR ''-'' \<and>
     header ! (kFlagsOffset - 1) = CHR ''-''"

definition HasParsableLength :: "string \<Rightarrow> u8 \<Rightarrow> bool" where
  "HasParsableLength header version =
     (if length header = kTraceparentChars then True
      else version \<noteq> kVersion00 \<and> header ! kTraceparentChars = CHR ''-'')"

definition HasParsableShape :: "string \<Rightarrow> bool" where
  "HasParsableShape header =
     (if length header < kTraceparentChars then False
      else if \<not> HasFixedSeparators header then False
      else (case ParseLowerHexBytes 1 (sv_substr header 0 2) of
              None \<Rightarrow> False
            | Some version \<Rightarrow>
                if hd version = kForbiddenVersion then False
                else HasParsableLength header (hd version)))"

definition ParseTraceparent :: "string \<Rightarrow> SpanContext \<Rightarrow> SpanContext option" where
  "ParseTraceparent header out =
     (if \<not> HasParsableShape header then None
      else
        (case ParseLowerHexBytes TraceId_kSizeBytes
                (sv_substr header kTraceIdOffset (TraceId_kSizeBytes * 2)) of
           None \<Rightarrow> None
         | Some trace_bytes \<Rightarrow>
        (case ParseLowerHexBytes SpanId_kSizeBytes
                (sv_substr header kSpanIdOffset (SpanId_kSizeBytes * 2)) of
           None \<Rightarrow> None
         | Some span_bytes \<Rightarrow>
        (case ParseLowerHexBytes 1 (sv_substr header kFlagsOffset 2) of
           None \<Rightarrow> None
         | Some flags \<Rightarrow>
             let tid = \<lparr>tid_bytes = trace_bytes\<rparr>; sid = \<lparr>sid_bytes = span_bytes\<rparr>
             in if \<not> TraceId_IsValid tid \<or> \<not> SpanId_IsValid sid then None
                else Some (out\<lparr>trace_id := tid, span_id := sid,
                               trace_flags := \<lparr>flag_bits = hd flags\<rparr>\<rparr>)))))"

definition kLowerHexDigits :: string where "kLowerHexDigits = ''0123456789abcdef''"

definition FormatTraceparent :: "SpanContext \<Rightarrow> string" where
  "FormatTraceparent context =
     (let flags = unat (flag_bits (trace_flags context))
      in ''00'' @ [CHR ''-''] @ TraceId_ToHex (trace_id context) @ [CHR ''-'']
           @ SpanId_ToHex (span_id context) @ [CHR ''-'']
           @ [kLowerHexDigits ! (drop_bit 4 flags AND 0x0F), kLowerHexDigits ! (flags AND 0x0F)])"

section \<open>The propagators\<close>

type_synonym 'c HeaderSetter = "(string \<Rightarrow> string \<Rightarrow> 'c \<Rightarrow> 'c) option"
type_synonym HeaderGetter = "(string \<Rightarrow> string option) option"

definition W3CTraceContextPropagator_Inject ::
    "SpanContext \<Rightarrow> 'c HeaderSetter \<Rightarrow> 'c \<Rightarrow> 'c" where
  "W3CTraceContextPropagator_Inject context setter carrier =
     (case setter of
        None \<Rightarrow> carrier
      | Some set_header \<Rightarrow>
          if \<not> SpanContext_IsValid context then carrier
          else
            let carrier1 = set_header ''traceparent'' (FormatTraceparent context) carrier;
                state = TraceState_ToHeader (trace_state context)
            in if state \<noteq> [] then set_header ''tracestate'' state carrier1 else carrier1)"

definition W3CTraceContextPropagator_Extract :: "HeaderGetter \<Rightarrow> SpanContext" where
  "W3CTraceContextPropagator_Extract getter =
     (case getter of
        None \<Rightarrow> SpanContext_default
      | Some get_header \<Rightarrow>
          (case get_header ''traceparent'' of
             None \<Rightarrow> SpanContext_default
           | Some traceparent \<Rightarrow>
               (case ParseTraceparent traceparent SpanContext_default of
                  None \<Rightarrow> SpanContext_default
                | Some context \<Rightarrow>
                    let context1 =
                          (case get_header ''tracestate'' of
                             None \<Rightarrow> context
                           | Some tracestate \<Rightarrow>
                               context\<lparr>trace_state := TraceState_FromHeader tracestate\<rparr>)
                    in context1\<lparr>remote := True\<rparr>)))"

definition W3CBaggagePropagator_Inject :: "Baggage \<Rightarrow> 'c HeaderSetter \<Rightarrow> 'c \<Rightarrow> 'c" where
  "W3CBaggagePropagator_Inject b setter carrier =
     (case setter of
        None \<Rightarrow> carrier
      | Some set_header \<Rightarrow>
          if Baggage_Empty b then carrier
          else set_header ''baggage'' (Baggage_ToHeader b) carrier)"

definition W3CBaggagePropagator_Extract :: "HeaderGetter \<Rightarrow> Baggage" where
  "W3CBaggagePropagator_Extract getter =
     (case getter of
        None \<Rightarrow> \<lparr>m_impl = None\<rparr>
      | Some get_header \<Rightarrow>
          (case get_header ''baggage'' of
             None \<Rightarrow> \<lparr>m_impl = None\<rparr>
           | Some h \<Rightarrow> Baggage_FromHeader h))"

section \<open>Hexadecimal round trips\<close>

definition lower_digit_ok :: "nat \<Rightarrow> bool" where
  "lower_digit_ok i \<longleftrightarrow> IsLowerHexDigit (NibbleToHex i) \<and> HexDigitValue (NibbleToHex i) = i \<and>
     kLowerHexDigits ! i = NibbleToHex i"

lemma lower_digit_ok: "i < 16 \<Longrightarrow> lower_digit_ok i"
  by (rule all_less_16 [of lower_digit_ok]) (code_simp, assumption)

lemma byte_hex_digits:
  "IsLowerHexDigit (NibbleToHex (drop_bit 4 (unat (b :: u8))))"
  "HexDigitValue (NibbleToHex (drop_bit 4 (unat b))) = drop_bit 4 (unat b)"
  "IsLowerHexDigit (NibbleToHex (unat b AND 15))"
  "HexDigitValue (NibbleToHex (unat b AND 15)) = unat b AND 15"
  using lower_digit_ok [OF high_nibble_less [of b]] lower_digit_ok [OF nibble_less [of "unat b"]]
  by (simp_all only: lower_digit_ok_def)

lemma parse_hex_pairs_hex:
  "parse_hex_pairs (length bs) (BytesToLowerHex bs @ r) out = Some (out @ bs)"
proof (induction bs arbitrary: out)
  case (Cons b bs)
  then show ?case
    by (simp add: BytesToLowerHex_eq byte_hex_def byte_hex_digits u8_nibbles del: push_bit_nat_eq)
qed simp

lemma ParseLowerHexBytes_hex [simp]:
  "n = length bs \<Longrightarrow> ParseLowerHexBytes n (BytesToLowerHex bs) = Some bs"
  using parse_hex_pairs_hex [of bs "[]" "[]"] by (simp add: ParseLowerHexBytes_def)

lemma lower_hex_digit_inv:
  assumes "IsLowerHexDigit c"
  shows "NibbleToHex (HexDigitValue c) = c" "HexDigitValue c < 16"
  using assms
  by (auto simp: IsLowerHexDigit_def HexDigitValue_def NibbleToHex_def less_eq_char_def)

lemma byte_hex_of_digits:
  assumes "IsLowerHexDigit high" "IsLowerHexDigit low"
  shows "byte_hex (word_of_nat (push_bit 4 (HexDigitValue high) OR HexDigitValue low)) = [high, low]"
proof -
  let ?n = "push_bit 4 (HexDigitValue high) OR HexDigitValue low"
  note d = lower_hex_digit_inv [OF assms(1)] lower_hex_digit_inv [OF assms(2)]
  have "unat (word_of_nat ?n :: u8) = ?n"
    using nibbles_split(3) [OF d(2,4)] by (simp add: unat_of_nat)
  then show ?thesis
    using nibbles_split(1,2) [OF d(2,4)] d(1,3) by (simp add: byte_hex_def)
qed

lemma parse_hex_pairs_inv:
  assumes "parse_hex_pairs n hex out = Some r" "length hex = 2 * n"
  shows "\<exists>bs. r = out @ bs \<and> length bs = n \<and> BytesToLowerHex bs = hex"
  using assms
proof (induction n hex out rule: parse_hex_pairs.induct)
  case (2 n high low hex out)
  let ?b = "word_of_nat (push_bit 4 (HexDigitValue high) OR HexDigitValue low) :: u8"
  from 2 have dig: "IsLowerHexDigit high" "IsLowerHexDigit low" by (auto split: if_splits)
  with 2 obtain bs where bs: "r = (out @ [?b]) @ bs" "length bs = n" "BytesToLowerHex bs = hex"
    by auto
  have "BytesToLowerHex (?b # bs) = high # low # hex"
    using bs(3) byte_hex_of_digits [OF dig] by (simp add: BytesToLowerHex_eq)
  with bs show ?case by (intro exI [of _ "?b # bs"]) simp
qed (auto simp: BytesToLowerHex_eq)

lemma ParseLowerHexBytes_inv:
  assumes "ParseLowerHexBytes n hex = Some bs"
  shows "length bs = n" "BytesToLowerHex bs = hex"
  using assms parse_hex_pairs_inv [of n hex "[]" bs]
  by (auto simp: ParseLowerHexBytes_def split: if_splits)

section \<open>The fixed layout\<close>

lemma traceparent_offsets:
  "kTraceIdOffset = 3" "kSpanIdOffset = 36" "kFlagsOffset = 53" "kTraceparentChars = 55"
  "TraceId_kSizeBytes = 16" "SpanId_kSizeBytes = 8"
  by (simp_all add: kTraceIdOffset_def kSpanIdOffset_def kFlagsOffset_def kTraceparentChars_def
      TraceId_kSizeBytes_def SpanId_kSizeBytes_def)

lemma traceparent_parts:
  assumes "length v = 2" "length t = 32" "length s = 16" "length f = 2"
  defines "h \<equiv> v @ CHR ''-'' # t @ CHR ''-'' # s @ CHR ''-'' # f"
  shows "sv_substr h 0 2 = v" "sv_substr h 3 32 = t" "sv_substr h 36 16 = s" "sv_substr h 53 2 = f"
    "length h = 55" "HasFixedSeparators h"
  using assms(1-4)
  by (simp_all add: h_def sv_substr_def HasFixedSeparators_def traceparent_offsets nth_append)

lemma take_nth_sep: "n < length h \<Longrightarrow> h ! n = c \<Longrightarrow> h = take n h @ c # drop (n + 1) h"
  using id_take_nth_drop [of n h] by simp

lemma traceparent_layout:
  assumes "length h = 55" "HasFixedSeparators h"
  shows "h = sv_substr h 0 2 @ CHR ''-'' # sv_substr h 3 32 @ CHR ''-'' # sv_substr h 36 16
           @ CHR ''-'' # sv_substr h 53 2"
proof -
  have seps: "h ! 2 = CHR ''-''" "h ! 35 = CHR ''-''" "h ! 52 = CHR ''-''"
    using assms(2) by (simp_all add: HasFixedSeparators_def traceparent_offsets)
  have d3: "drop 3 h = take 32 (drop 3 h) @ CHR ''-'' # drop 36 h"
    using take_nth_sep [of 32 "drop 3 h" "CHR ''-''"] seps assms(1) by simp
  have d36: "drop 36 h = take 16 (drop 36 h) @ CHR ''-'' # drop 53 h"
    using take_nth_sep [of 16 "drop 36 h" "CHR ''-''"] seps assms(1) by simp
  have d53: "drop 53 h = take 2 (drop 53 h)" using assms(1) by simp
  have "h = take 2 h @ CHR ''-'' # drop 3 h"
    using take_nth_sep [of 2 h "CHR ''-''"] seps assms(1) by simp
  with d3 d36 d53 show ?thesis unfolding sv_substr_def by (metis drop_0)
qed

lemma FormatTraceparent_layout:
  "FormatTraceparent c =
     ''00'' @ CHR ''-'' # TraceId_ToHex (trace_id c) @ CHR ''-'' # SpanId_ToHex (span_id c)
       @ CHR ''-'' # BytesToLowerHex [flag_bits (trace_flags c)]"
proof -
  let ?n = "unat (flag_bits (trace_flags c))"
  have "kLowerHexDigits ! (drop_bit 4 ?n AND 15) = NibbleToHex (drop_bit 4 ?n)"
    "kLowerHexDigits ! (?n AND 15) = NibbleToHex (?n AND 15)"
    using lower_digit_ok [OF high_nibble_less] lower_digit_ok [OF nibble_less [of ?n]]
    by (simp_all only: lower_digit_ok_def unat_high_nibble)
  then show ?thesis by (simp add: FormatTraceparent_def BytesToLowerHex_eq byte_hex_def Let_def)
qed

lemma version_00: "ParseLowerHexBytes 1 ''00'' = Some [0]"
  by (simp add: ParseLowerHexBytes_def) code_simp

lemma Parse_Format:
  assumes "SpanContext_IsValid c" "ids_sized c"
  shows "ParseTraceparent (FormatTraceparent c) out =
    Some (out\<lparr>trace_id := trace_id c, span_id := span_id c, trace_flags := trace_flags c\<rparr>)"
proof -
  let ?h = "FormatTraceparent c"
  have "length (TraceId_ToHex (trace_id c)) = 32" "length (SpanId_ToHex (span_id c)) = 16"
    using assms(2)
    by (simp_all add: TraceId_ToHex_def SpanId_ToHex_def ids_sized_def traceparent_offsets)
  then have parts: "sv_substr ?h 0 2 = ''00''" "sv_substr ?h 3 32 = TraceId_ToHex (trace_id c)"
    "sv_substr ?h 36 16 = SpanId_ToHex (span_id c)"
    "sv_substr ?h 53 2 = BytesToLowerHex [flag_bits (trace_flags c)]"
    "length ?h = 55" "HasFixedSeparators ?h"
    unfolding FormatTraceparent_layout by (intro traceparent_parts; simp)+
  have shape: "HasParsableShape ?h"
    using parts version_00
    by (simp add: HasParsableShape_def HasParsableLength_def traceparent_offsets
        kForbiddenVersion_def)
  have valid: "TraceId_IsValid \<lparr>tid_bytes = tid_bytes (trace_id c)\<rparr>"
    "SpanId_IsValid \<lparr>sid_bytes = sid_bytes (span_id c)\<rparr>"
    using assms(1) by (simp_all add: SpanContext_IsValid_def TraceId_IsValid_def SpanId_IsValid_def)
  have "ParseLowerHexBytes 16 (sv_substr ?h 3 32) = Some (tid_bytes (trace_id c))"
    "ParseLowerHexBytes 8 (sv_substr ?h 36 16) = Some (sid_bytes (span_id c))"
    "ParseLowerHexBytes 1 (sv_substr ?h 53 2) = Some [flag_bits (trace_flags c)]"
    using assms(2)
    by (simp_all add: parts TraceId_ToHex_def SpanId_ToHex_def ids_sized_def traceparent_offsets)
  with shape valid show ?thesis
    by (simp add: ParseTraceparent_def traceparent_offsets)
qed

lemma Parse_Some:
  assumes "ParseTraceparent h out = Some c"
  shows "SpanContext_IsValid c" "ids_sized c" "HasParsableShape h"
    "TraceId_ToHex (trace_id c) = sv_substr h 3 32" "SpanId_ToHex (span_id c) = sv_substr h 36 16"
    "BytesToLowerHex [flag_bits (trace_flags c)] = sv_substr h 53 2"
    "trace_state c = trace_state out" "remote c = remote out"
proof -
  from assms show shape: "HasParsableShape h"
    by (auto simp: ParseTraceparent_def split: if_splits)
  with assms obtain tb sb fb where
    t: "ParseLowerHexBytes 16 (sv_substr h 3 32) = Some tb" and
    s: "ParseLowerHexBytes 8 (sv_substr h 36 16) = Some sb" and
    f: "ParseLowerHexBytes 1 (sv_substr h 53 2) = Some fb" and
    v: "TraceId_IsValid \<lparr>tid_bytes = tb\<rparr>" "SpanId_IsValid \<lparr>sid_bytes = sb\<rparr>" and
    c: "c = out\<lparr>trace_id := \<lparr>tid_bytes = tb\<rparr>, span_id := \<lparr>sid_bytes = sb\<rparr>,
                  trace_flags := \<lparr>flag_bits = hd fb\<rparr>\<rparr>"
    by (auto simp: ParseTraceparent_def traceparent_offsets Let_def split: option.splits if_splits)
  from ParseLowerHexBytes_inv [OF f] have "fb = [hd fb]" by (cases fb) auto
  with t s f v c show "SpanContext_IsValid c" "ids_sized c"
    "TraceId_ToHex (trace_id c) = sv_substr h 3 32" "SpanId_ToHex (span_id c) = sv_substr h 36 16"
    "BytesToLowerHex [flag_bits (trace_flags c)] = sv_substr h 53 2"
    "trace_state c = trace_state out" "remote c = remote out"
    by (simp_all add: SpanContext_IsValid_def ids_sized_def traceparent_offsets TraceId_ToHex_def
        SpanId_ToHex_def ParseLowerHexBytes_inv)
qed

lemma shape_version_00:
  assumes "HasParsableShape h" "take 2 h = ''00''"
  shows "length h = 55" "HasFixedSeparators h"
  using assms version_00
  by (auto simp: HasParsableShape_def HasParsableLength_def sv_substr_def traceparent_offsets
      kVersion00_def split: if_splits option.splits)

lemma Parse_00_canonical:
  assumes "ParseTraceparent h out = Some c" "take 2 h = ''00''"
  shows "h = FormatTraceparent c"
proof -
  note p = Parse_Some [OF assms(1)]
  have "sv_substr h 0 2 = ''00''" using assms(2) by (simp add: sv_substr_def)
  with traceparent_layout [OF shape_version_00 [OF p(3) assms(2)]] p(4-6) show ?thesis
    by (simp only: FormatTraceparent_layout)
qed

lemma Format_prefix: "take 2 (FormatTraceparent c) = ''00''"
  by (simp add: FormatTraceparent_layout)

section \<open>Properties\<close>

text \<open>
  C3: a version-00 \<open>traceparent\<close> value is accepted exactly when it is the canonical text of some
  valid span context (non-zero trace and parent ids, lower-case digits, 55 characters), and the
  ids and all eight flag bits it yields are that context's.
\<close>

theorem traceparent_00_iff:
  "take 2 h = ''00'' \<and> ParseTraceparent h SpanContext_default = Some c \<longleftrightarrow>
   SpanContext_IsValid c \<and> ids_sized c \<and> trace_state c = \<lparr>m_entries = None\<rparr> \<and> \<not> remote c \<and>
   h = FormatTraceparent c"
  (is "?L \<longleftrightarrow> ?R")
proof
  assume l: ?L
  then show ?R
    using Parse_Some [of h SpanContext_default c] Parse_00_canonical [of h SpanContext_default c]
    by (simp add: SpanContext_default_def)
next
  assume ?R
  then show ?L
    using Parse_Format [of c SpanContext_default] Format_prefix [of c]
    by (simp add: SpanContext_default_def)
qed

text \<open>
  Any version a parser may meet. \<open>ParseTraceparent\<close> succeeds only on at least 55 characters
  with the three separators in place, a version other than \<open>ff\<close>, and, past character 55, nothing
  for version 00 and a separator for a higher one; what it returns is always a valid context with
  ids of the right width.
\<close>

theorem traceparent_accepts_only_valid:
  assumes "ParseTraceparent h out = Some c"
  shows "SpanContext_IsValid c \<and> ids_sized c \<and> 55 \<le> length h \<and> HasFixedSeparators h \<and>
    take 2 h \<noteq> ''ff'' \<and> (length h = 55 \<or> take 2 h \<noteq> ''00'' \<and> h ! 55 = CHR ''-'')"
proof -
  note p = Parse_Some [OF assms]
  have "ParseLowerHexBytes 1 ''ff'' = Some [kForbiddenVersion]"
    by (simp add: ParseLowerHexBytes_def kForbiddenVersion_def) code_simp
  with p(3) have "take 2 h \<noteq> ''ff''" "55 \<le> length h" "HasFixedSeparators h"
    "length h = 55 \<or> h ! 55 = CHR ''-''"
    by (auto simp: HasParsableShape_def HasParsableLength_def sv_substr_def traceparent_offsets
        split: if_splits option.splits)
  moreover have "length h = 55" if "take 2 h = ''00''" using p(3) that by (rule shape_version_00)
  ultimately show ?thesis using p(1,2) by auto
qed

definition sample_context :: SpanContext where
  "sample_context = SpanContext_default\<lparr>trace_id := \<lparr>tid_bytes = replicate 15 0 @ [1]\<rparr>,
     span_id := \<lparr>sid_bytes = replicate 7 0 @ [2]\<rparr>, trace_flags := \<lparr>flag_bits = 1\<rparr>,
     trace_state := TraceState_FromHeader ''v=1''\<rparr>"

lemma sample_context_ok: "SpanContext_IsValid sample_context" "ids_sized sample_context"
  by code_simp+

theorem traceparent_accepts_only_valid_witness:
  "55 \<le> length (FormatTraceparent sample_context) \<and>
   take 2 (FormatTraceparent sample_context) \<noteq> ''ff''"
  using traceparent_accepts_only_valid [OF Parse_Format [OF sample_context_ok]] by blast

text \<open>The documented meaning of the carrier callbacks.\<close>

definition carrier_ok ::
    "(string \<Rightarrow> string \<Rightarrow> 'c \<Rightarrow> 'c) \<Rightarrow> ('c \<Rightarrow> string \<Rightarrow> string option) \<Rightarrow> bool" where
  "carrier_ok set_header get_header \<longleftrightarrow>
     (\<forall>k v c k'. get_header (set_header k v c) k' = (if k' = k then Some v else get_header c k'))"

text \<open>
  A hop through a carrier. Injecting a valid context whose trace state is well formed into a
  carrier that holds no \<open>tracestate\<close> yet, and extracting from it, gives the same context with
  \<open>remote\<close> set.
\<close>

theorem trace_context_hop:
  assumes "carrier_ok set_header get_header" "get_header carrier ''tracestate'' = None"
    and "SpanContext_IsValid c" "ids_sized c" "ts_wf (trace_state c)"
  shows "W3CTraceContextPropagator_Extract
     (Some (get_header (W3CTraceContextPropagator_Inject c (Some set_header) carrier))) =
     c\<lparr>remote := True\<rparr>"
proof -
  let ?state = "TraceState_ToHeader (trace_state c)"
  let ?car = "W3CTraceContextPropagator_Inject c (Some set_header) carrier"
  have tp: "get_header ?car ''traceparent'' = Some (FormatTraceparent c)"
    and ts: "get_header ?car ''tracestate'' = (if ?state = [] then None else Some ?state)"
    using assms(1-3)
    by (auto simp: W3CTraceContextPropagator_Inject_def carrier_ok_def Let_def)
  have state: "TraceState_FromHeader ?state = trace_state c" by (rule ts_roundtrip [OF assms(5)])
  have empty: "trace_state c = \<lparr>m_entries = None\<rparr>" if "?state = []"
    using state that by (simp add: TraceState_FromHeader_def ts_ParseMembers.simps)
  show ?thesis
    using tp ts state empty Parse_Format [OF assms(3,4), of SpanContext_default]
    by (cases c) (auto simp: W3CTraceContextPropagator_Extract_def SpanContext_default_def Let_def)
qed

definition map_setter :: "string \<Rightarrow> string \<Rightarrow> (string \<rightharpoonup> string) \<Rightarrow> (string \<rightharpoonup> string)" where
  "map_setter k v m = m(k \<mapsto> v)"

lemma carrier_ok_map: "carrier_ok map_setter (\<lambda>m. m)"
  by (simp add: carrier_ok_def map_setter_def)

theorem trace_context_hop_witness:
  "W3CTraceContextPropagator_Extract
     (Some (W3CTraceContextPropagator_Inject sample_context (Some map_setter) Map.empty)) =
     sample_context\<lparr>remote := True\<rparr>"
proof -
  have "ts_wf (trace_state sample_context)"
    by (simp add: sample_context_def ts_wf_FromHeader)
  from trace_context_hop [OF carrier_ok_map _ sample_context_ok this, of Map.empty]
  show ?thesis by simp
qed

text \<open>
  A hop of baggage. Injecting a well-formed baggage into a carrier without a \<open>baggage\<close> header
  and extracting gives it back, empty or not; an empty baggage writes nothing.
\<close>

theorem baggage_hop:
  assumes "carrier_ok set_header get_header" "get_header carrier ''baggage'' = None" "bg_wf b"
  shows "W3CBaggagePropagator_Extract
     (Some (get_header (W3CBaggagePropagator_Inject b (Some set_header) carrier))) = b"
proof (cases "Baggage_Empty b")
  case True
  with assms(3) have "b = \<lparr>m_impl = None\<rparr>"
    using bg_wf_sealed [OF assms(3)] by (simp add: Baggage_Empty_def bg_Size_eq Seal_def)
  with True assms(2) show ?thesis
    by (simp add: W3CBaggagePropagator_Extract_def W3CBaggagePropagator_Inject_def)
next
  case False
  with assms show ?thesis
    by (simp add: W3CBaggagePropagator_Extract_def W3CBaggagePropagator_Inject_def carrier_ok_def
        bg_roundtrip)
qed

theorem baggage_hop_witness:
  "W3CBaggagePropagator_Extract
     (Some (W3CBaggagePropagator_Inject (Baggage_FromHeader ''a=%2C;p=1'') (Some map_setter) Map.empty))
   = Baggage_FromHeader ''a=%2C;p=1''"
  using baggage_hop [OF carrier_ok_map _ bg_wf_FromHeader, of Map.empty] by simp

end
