(* ===== verification/Diagnostics.thy ===== *)
theory Diagnostics
  imports Microtel_Prelude
begin

text \<open>
  The diagnostics sink every component reports to: \<open>DropReason\<close>, \<open>Error\<close> and the production sink
  \<open>DiagnosticsCounters\<close> (\<open>src/sdk/diagnostics_counters.cpp\<close>). The relaxed atomic counters are
  64-bit words, so that an addition wraps as \<open>fetch_add\<close> does. A component holds a nullable
  pointer to the sink; \<open>count_drop\<close> is the null check around \<open>RecordDrop\<close> that each of them
  repeats. The wall clock is a parameter.
\<close>

section \<open>Vocabulary\<close>

datatype DropReason =
    QueueFull | RecordTooLarge | SpanAttributeLimit | SpanEventLimit | SpanLinkLimit
  | EventAttributeLimit | LinkAttributeLimit | AttributeValueTruncated | PostShutdown
  | ResponseTooLarge | DecompressionTooLarge | MalformedResponse | PartialSuccessRejection
  | NonRetryableFailure | RetryableFailureRecovered | RetryBudgetExhausted | TransportBusy
  | ConnectFailure | ForceFlushTimeout | ShutdownTimeout | CardinalityOverflow
  | MetricCallbackTimeout | NonFiniteValue | LogAttributeLimit | LeafPayloadMalformed
  | LeafPayloadTooLarge | LeafUnknown

datatype ConnectionState = Disconnected | Connecting | Connected | Reconnecting | Closed

datatype Error_Kind =
    Kind_Unspecified | Kind_Network | Kind_Protocol | Kind_ResourceExhausted | Kind_Cancelled
  | Kind_Malformed | Kind_InternalFailure

record Error =
  err_kind :: Error_Kind
  err_message :: string
  err_os_errno :: int

datatype Status = Completed | TimedOut | AlreadyShutDown | Failed | InvalidArgument | Unsupported

section \<open>The counters\<close>

record DiagnosticsCounters =
  m_counters :: "DropReason \<Rightarrow> u64"
  m_batches_sent :: u64
  m_batches_failed :: u64
  m_queue_depth :: u64
  m_connection_state :: ConnectionState
  m_last_error_time :: "int option"
  m_last_error_message :: string

definition kMaxErrorMessageLength :: nat where "kMaxErrorMessageLength = 256"

definition DiagnosticsCounters_init :: DiagnosticsCounters where
  "DiagnosticsCounters_init =
     \<lparr>m_counters = (\<lambda>_. 0), m_batches_sent = 0, m_batches_failed = 0, m_queue_depth = 0,
      m_connection_state = Disconnected, m_last_error_time = None, m_last_error_message = []\<rparr>"

definition RecordDrop :: "DropReason \<Rightarrow> u64 \<Rightarrow> DiagnosticsCounters \<Rightarrow> DiagnosticsCounters" where
  "RecordDrop reason n d = d\<lparr>m_counters := (m_counters d)(reason := m_counters d reason + n)\<rparr>"

definition RecordBatchSent :: "DiagnosticsCounters \<Rightarrow> DiagnosticsCounters" where
  "RecordBatchSent d = d\<lparr>m_batches_sent := m_batches_sent d + 1\<rparr>"

definition RecordBatchFailed :: "int \<Rightarrow> Error \<Rightarrow> DiagnosticsCounters \<Rightarrow> DiagnosticsCounters" where
  "RecordBatchFailed now err d =
     d\<lparr>m_batches_failed := m_batches_failed d + 1,
       m_last_error_time := Some now,
       m_last_error_message := take kMaxErrorMessageLength (err_message err)\<rparr>"

definition SetQueueDepth :: "u64 \<Rightarrow> DiagnosticsCounters \<Rightarrow> DiagnosticsCounters" where
  "SetQueueDepth depth d = d\<lparr>m_queue_depth := depth\<rparr>"

definition SetConnectionState :: "ConnectionState \<Rightarrow> DiagnosticsCounters \<Rightarrow> DiagnosticsCounters" where
  "SetConnectionState state d = d\<lparr>m_connection_state := state\<rparr>"

record HealthSnapshot =
  drop_counters :: "DropReason \<Rightarrow> u64"
  batches_sent :: u64
  batches_failed :: u64
  queue_depth_now :: u64
  last_error_time :: "int option"
  last_error_message :: string
  connection_state :: ConnectionState

definition Snapshot :: "DiagnosticsCounters \<Rightarrow> HealthSnapshot" where
  "Snapshot d =
     \<lparr>drop_counters = m_counters d, batches_sent = m_batches_sent d,
      batches_failed = m_batches_failed d, queue_depth_now = m_queue_depth d,
      last_error_time = m_last_error_time d, last_error_message = m_last_error_message d,
      connection_state = m_connection_state d\<rparr>"

section \<open>Reporting through a nullable sink\<close>

type_synonym sink = "DiagnosticsCounters option"

definition count_drop ::
    "DropReason \<Rightarrow> nat \<Rightarrow> DiagnosticsCounters option \<Rightarrow> DiagnosticsCounters option" where
  "count_drop reason n diag = map_option (RecordDrop reason (of_nat n)) diag"

text \<open>The count a sink holds for a reason; a null sink counts nothing.\<close>

definition drops :: "DiagnosticsCounters option \<Rightarrow> DropReason \<Rightarrow> u64" where
  "drops diag reason = (case diag of None \<Rightarrow> 0 | Some d \<Rightarrow> m_counters d reason)"

lemma drops_count_drop:
  "diag \<noteq> None \<Longrightarrow>
   drops (count_drop reason n diag) r = drops diag r + (if r = reason then of_nat n else 0)"
  by (auto simp: drops_def count_drop_def RecordDrop_def split: option.splits)

lemma count_drop_None_iff [simp]: "count_drop reason n diag = None \<longleftrightarrow> diag = None"
  by (simp add: count_drop_def)

lemma count_drop_0 [simp]: "count_drop reason 0 diag = diag"
  by (cases diag) (simp_all add: count_drop_def RecordDrop_def)

lemma count_drop_add:
  "count_drop reason m (count_drop reason n diag) = count_drop reason (n + m) diag"
  by (cases diag) (simp_all add: count_drop_def RecordDrop_def add.assoc)

lemma RecordBatchFailed_capped:
  "length (last_error_message (Snapshot (RecordBatchFailed now err d))) \<le> 256"
  by (simp add: Snapshot_def RecordBatchFailed_def kMaxErrorMessageLength_def)

end
