(* ===== verification/Span_Record.thy ===== *)
theory Span_Record
  imports Trace_Types Diagnostics
begin

text \<open>
  Attributes, the worker-thread span record (\<open>include/microtel/internal/batch.hpp\<close>) and the limits
  applied to it (\<open>src/sdk/span_limits.cpp\<close>). Doubles are carried as their 64-bit patterns;
  timestamps are integers with the default \<open>time_point{}\<close> as 0; a \<open>shared_ptr<const Resource>\<close> is
  compared by identity only, so it is an address (\<open>None\<close> for null). Memory allocation succeeds:
  the \<open>catch\<close> branches for \<open>std::bad_alloc\<close> are not part of the model.

  Proved here: truncation never splits a UTF-8 code point, keeps valid text valid and gives up at
  most three bytes more than asked; applying the limits bounds every collection and every string,
  changes nothing within the limits, and counts exactly what it removed.
\<close>

section \<open>Data\<close>

datatype AttributeValue =
    AV_bool bool
  | AV_int64 "64 word"
  | AV_double u64
  | AV_string string
  | AV_bools "bool list"
  | AV_int64s "64 word list"
  | AV_doubles "u64 list"
  | AV_strings "string list"

record KeyValue =
  kv_key :: string
  kv_value :: AttributeValue

record SpanEvent =
  ev_name :: string
  ev_timestamp :: int
  ev_attributes :: "KeyValue list"

record SpanLink =
  lk_context :: SpanContext
  lk_attributes :: "KeyValue list"

type_synonym resource_ptr = nat

record InstrumentationScope =
  scope_name :: string
  scope_version :: string

record SpanRecord =
  rec_context :: SpanContext
  rec_parent_context :: SpanContext
  rec_name :: string
  rec_kind :: SpanKind
  rec_status_code :: StatusCode
  rec_status_description :: string
  rec_start_time :: int
  rec_end_time :: int
  rec_attributes :: "KeyValue list"
  rec_events :: "SpanEvent list"
  rec_links :: "SpanLink list"
  rec_resource :: "resource_ptr option"

record SpanLimitOptions =
  attribute_count_limit :: nat
  event_count_limit :: nat
  link_count_limit :: nat
  attribute_value_length_limit :: nat
  event_attribute_count_limit :: nat
  link_attribute_count_limit :: nat

definition SpanLimitOptions_default :: SpanLimitOptions where
  "SpanLimitOptions_default =
     \<lparr>attribute_count_limit = 128, event_count_limit = 128, link_count_limit = 128,
      attribute_value_length_limit = 4096, event_attribute_count_limit = 128,
      link_attribute_count_limit = 128\<rparr>"

section \<open>Truncation\<close>

definition is_continuation :: "char \<Rightarrow> bool" where
  "is_continuation c \<longleftrightarrow> (of_char c :: nat) AND 0xC0 = 0x80"

fun Utf8SafePrefix_loop :: "string \<Rightarrow> nat \<Rightarrow> nat" where
  "Utf8SafePrefix_loop s 0 = 0"
| "Utf8SafePrefix_loop s (Suc i) =
     (if is_continuation (s ! Suc i) then Utf8SafePrefix_loop s i else Suc i)"

definition Utf8SafePrefix :: "string \<Rightarrow> nat \<Rightarrow> nat" where
  "Utf8SafePrefix s limit = Utf8SafePrefix_loop s limit"

fun truncate_elements :: "string list \<Rightarrow> nat \<Rightarrow> string list \<times> nat" where
  "truncate_elements [] limit = ([], 0)"
| "truncate_elements (element # es) limit =
     (let (es', n) = truncate_elements es limit
      in if length element > limit then (take (Utf8SafePrefix element limit) element # es', Suc n)
         else (element # es', n))"

text \<open>The truncated value and how many strings lost bytes.\<close>

definition TruncateStrings :: "AttributeValue \<Rightarrow> nat \<Rightarrow> AttributeValue \<times> nat" where
  "TruncateStrings v limit =
     (case v of
        AV_string s \<Rightarrow>
          if length s \<le> limit then (v, 0) else (AV_string (take (Utf8SafePrefix s limit) s), 1)
      | AV_strings arr \<Rightarrow>
          (let (arr', n) = truncate_elements arr limit in (AV_strings arr', n))
      | _ \<Rightarrow> (v, 0))"

definition KeepFirst :: "'a list \<Rightarrow> nat \<Rightarrow> 'a list \<times> nat" where
  "KeepFirst items limit =
     (if length items \<le> limit then (items, 0) else (take limit items, length items - limit))"

fun TruncateAll :: "KeyValue list \<Rightarrow> nat \<Rightarrow> KeyValue list \<times> nat" where
  "TruncateAll [] limit = ([], 0)"
| "TruncateAll (kv # kvs) limit =
     (let (v, n) = TruncateStrings (kv_value kv) limit; (kvs', m) = TruncateAll kvs limit
      in (kv\<lparr>kv_value := v\<rparr> # kvs', n + m))"

text \<open>\<open>Count\<close>: nothing is reported for a zero count.\<close>

definition Count ::
    "DiagnosticsCounters option \<Rightarrow> DropReason \<Rightarrow> nat \<Rightarrow> DiagnosticsCounters option" where
  "Count diag reason n = (if n > 0 \<and> diag \<noteq> None then count_drop reason n diag else diag)"

fun limit_events ::
    "SpanEvent list \<Rightarrow> SpanLimitOptions \<Rightarrow> SpanEvent list \<times> nat \<times> nat" where
  "limit_events [] limits = ([], 0, 0)"
| "limit_events (e # es) limits =
     (let (kept, gone) = KeepFirst (ev_attributes e) (event_attribute_count_limit limits);
          (attrs, n) = TruncateAll kept (attribute_value_length_limit limits);
          (es', gone', n') = limit_events es limits
      in (e\<lparr>ev_attributes := attrs\<rparr> # es', gone + gone', n + n'))"

fun limit_links :: "SpanLink list \<Rightarrow> SpanLimitOptions \<Rightarrow> SpanLink list \<times> nat \<times> nat" where
  "limit_links [] limits = ([], 0, 0)"
| "limit_links (l # ls) limits =
     (let (kept, gone) = KeepFirst (lk_attributes l) (link_attribute_count_limit limits);
          (attrs, n) = TruncateAll kept (attribute_value_length_limit limits);
          (ls', gone', n') = limit_links ls limits
      in (l\<lparr>lk_attributes := attrs\<rparr> # ls', gone + gone', n + n'))"

definition ApplySpanLimits ::
    "SpanRecord \<Rightarrow> SpanLimitOptions \<Rightarrow> DiagnosticsCounters option \<Rightarrow>
     SpanRecord \<times> DiagnosticsCounters option" where
  "ApplySpanLimits r limits diag =
     (let value_limit = attribute_value_length_limit limits;
          (kept, attr_gone) = KeepFirst (rec_attributes r) (attribute_count_limit limits);
          diag1 = Count diag SpanAttributeLimit attr_gone;
          (attrs, n0) = TruncateAll kept value_limit;
          (events, ev_gone) = KeepFirst (rec_events r) (event_count_limit limits);
          diag2 = Count diag1 SpanEventLimit ev_gone;
          (events', event_attrs, n1) = limit_events events limits;
          diag3 = Count diag2 EventAttributeLimit event_attrs;
          (links, lk_gone) = KeepFirst (rec_links r) (link_count_limit limits);
          diag4 = Count diag3 SpanLinkLimit lk_gone;
          (links', link_attrs, n2) = limit_links links limits;
          diag5 = Count diag4 LinkAttributeLimit link_attrs
      in (r\<lparr>rec_attributes := attrs, rec_events := events', rec_links := links'\<rparr>,
          Count diag5 AttributeValueTruncated (n0 + n1 + n2)))"

fun AppendAttributes_loop ::
    "KeyValue list \<Rightarrow> KeyValue list \<Rightarrow> SpanLimitOptions \<Rightarrow> nat \<Rightarrow> nat \<Rightarrow>
     KeyValue list \<times> nat \<times> nat" where
  "AppendAttributes_loop attributes [] limits over_limit truncated =
     (attributes, over_limit, truncated)"
| "AppendAttributes_loop attributes (kv # kvs) limits over_limit truncated =
     (if length attributes \<ge> attribute_count_limit limits
      then AppendAttributes_loop attributes kvs limits (over_limit + 1) truncated
      else
        let (v, n) = TruncateStrings (kv_value kv) (attribute_value_length_limit limits)
        in AppendAttributes_loop (attributes @ [kv\<lparr>kv_value := v\<rparr>]) kvs limits over_limit
             (truncated + n))"

definition AppendAttributes ::
    "KeyValue list \<Rightarrow> KeyValue list \<Rightarrow> SpanLimitOptions \<Rightarrow> DiagnosticsCounters option \<Rightarrow>
     KeyValue list \<times> DiagnosticsCounters option" where
  "AppendAttributes attributes extra limits diag =
     (let (attrs, over_limit, truncated) = AppendAttributes_loop attributes extra limits 0 0
      in (attrs, Count (Count diag SpanAttributeLimit over_limit) AttributeValueTruncated truncated))"

section \<open>Truncation keeps UTF-8\<close>

text \<open>
  Reference definition of well-formed UTF-8 (RFC 3629): the length of the code point a string
  starts with, and strings that are a sequence of such code points.
\<close>

definition octet_in :: "nat \<Rightarrow> nat \<Rightarrow> char \<Rightarrow> bool" where
  "octet_in lo hi c \<longleftrightarrow> lo \<le> of_char c \<and> of_char c \<le> (hi :: nat)"

definition ascii :: "char \<Rightarrow> bool" where
  "ascii a \<longleftrightarrow> octet_in 0 0x7F a"

definition cont :: "char \<Rightarrow> bool" where
  "cont b \<longleftrightarrow> octet_in 0x80 0xBF b"

definition start2 :: "char \<Rightarrow> char \<Rightarrow> bool" where
  "start2 a b \<longleftrightarrow> octet_in 0xC2 0xDF a \<and> cont b"

definition start3 :: "char \<Rightarrow> char \<Rightarrow> bool" where
  "start3 a b \<longleftrightarrow>
     octet_in 0xE0 0xE0 a \<and> octet_in 0xA0 0xBF b \<or> octet_in 0xE1 0xEC a \<and> cont b \<or>
     octet_in 0xED 0xED a \<and> octet_in 0x80 0x9F b \<or> octet_in 0xEE 0xEF a \<and> cont b"

definition start4 :: "char \<Rightarrow> char \<Rightarrow> bool" where
  "start4 a b \<longleftrightarrow>
     octet_in 0xF0 0xF0 a \<and> octet_in 0x90 0xBF b \<or> octet_in 0xF1 0xF3 a \<and> cont b \<or>
     octet_in 0xF4 0xF4 a \<and> octet_in 0x80 0x8F b"

definition utf8_len :: "string \<Rightarrow> nat option" where
  "utf8_len s =
     (if s = [] then None
      else if ascii (s ! 0) then Some 1
      else if 2 \<le> length s \<and> start2 (s ! 0) (s ! 1) then Some 2
      else if 3 \<le> length s \<and> start3 (s ! 0) (s ! 1) \<and> cont (s ! 2) then Some 3
      else if 4 \<le> length s \<and> start4 (s ! 0) (s ! 1) \<and> cont (s ! 2) \<and> cont (s ! 3) then Some 4
      else None)"

lemma is_continuation_iff: "is_continuation c \<longleftrightarrow> cont c"
  using top_two_bits [OF nat_of_char_less_256 [of c]]
  by (auto simp: is_continuation_def octet_in_def cont_def)

lemma start_facts:
  "ascii a \<Longrightarrow> \<not> cont a" "start2 a b \<Longrightarrow> \<not> cont a \<and> cont b"
  "start3 a b \<Longrightarrow> \<not> cont a \<and> cont b" "start4 a b \<Longrightarrow> \<not> cont a \<and> cont b"
  by (auto simp: ascii_def cont_def start2_def start3_def start4_def octet_in_def)

lemma utf8_len_facts:
  assumes "utf8_len s = Some n"
  shows "0 < n" "n \<le> 4" "n \<le> length s" "\<not> is_continuation (s ! 0)"
    "0 < j \<Longrightarrow> j < n \<Longrightarrow> is_continuation (s ! j)"
proof -
  show "0 < n" "n \<le> 4" "n \<le> length s"
    using assms by (auto simp: utf8_len_def Suc_le_eq split: if_splits)
  show "\<not> is_continuation (s ! 0)"
    using assms by (auto simp: utf8_len_def is_continuation_iff dest: start_facts split: if_splits)
  show "is_continuation (s ! j)" if j: "0 < j" "j < n"
  proof -
    consider "j = 1" | "j = 2" | "j = 3" using j \<open>n \<le> 4\<close> by linarith
    then show ?thesis
    proof cases
      case 1
      with assms j(2) show ?thesis
        by (simp add: utf8_len_def is_continuation_iff split: if_splits) (auto dest: start_facts)
    next
      case 2
      with assms j(2) show ?thesis
        by (auto simp: utf8_len_def is_continuation_iff split: if_splits)
    next
      case 3
      with assms j(2) show ?thesis
        by (auto simp: utf8_len_def is_continuation_iff split: if_splits)
    qed
  qed
qed

function utf8_valid :: "string \<Rightarrow> bool" where
  "utf8_valid s =
     (if s = [] then True
      else case utf8_len s of None \<Rightarrow> False | Some n \<Rightarrow> utf8_valid (drop n s))"
  by pat_completeness auto
termination
  by (relation "measure length") (auto dest: utf8_len_facts(1))

declare utf8_valid.simps [simp del]

lemma utf8_valid_Nil [simp]: "utf8_valid []"
  by (simp add: utf8_valid.simps)

lemma utf8_valid_step:
  assumes "utf8_valid s" "s \<noteq> []"
  obtains n where "utf8_len s = Some n" "utf8_valid (drop n s)"
  using assms by (auto simp: utf8_valid.simps [of s] split: option.splits)

lemma utf8_len_take: "utf8_len s = Some n \<Longrightarrow> n \<le> i \<Longrightarrow> utf8_len (take i s) = Some n"
  by (auto simp: utf8_len_def split: if_splits)

lemma utf8_boundary_take:
  assumes "utf8_valid s" "i \<le> length s" "i < length s \<Longrightarrow> \<not> is_continuation (s ! i)"
  shows "utf8_valid (take i s)"
  using assms
proof (induction s arbitrary: i rule: length_induct)
  case (1 s)
  show ?case
  proof (cases "i = 0 \<or> s = []")
    case False
    then obtain n where n: "utf8_len s = Some n" and rest: "utf8_valid (drop n s)"
      using "1.prems"(1) by (auto elim: utf8_valid_step)
    note f = utf8_len_facts [OF n]
    have "n \<le> i" using f(3,5) "1.prems"(2,3) False by (cases "i < n") auto
    then have "utf8_valid (take (i - n) (drop n s))"
      using "1.IH" [rule_format, of "drop n s" "i - n"] f(1) False rest "1.prems"(2,3) by simp
    with n \<open>n \<le> i\<close> False show ?thesis
      by (subst utf8_valid.simps) (simp add: utf8_len_take drop_take)
  qed auto
qed

lemma utf8_boundary_within_4:
  assumes "utf8_valid s" "i + 4 < length s"
  shows "\<exists>j. i < j \<and> j \<le> i + 4 \<and> \<not> is_continuation (s ! j)"
  using assms
proof (induction s arbitrary: i rule: length_induct)
  case (1 s)
  then obtain n where n: "utf8_len s = Some n" and rest: "utf8_valid (drop n s)"
    by (auto elim: utf8_valid_step)
  note f = utf8_len_facts [OF n]
  show ?case
  proof (cases "n \<le> i")
    case True
    have "length (drop n s) < length s" "i - n + 4 < length (drop n s)"
      using f(1) True "1.prems"(2) by auto
    then obtain j where "i - n < j" "j \<le> i - n + 4" "\<not> is_continuation (drop n s ! j)"
      using "1.IH" rest by blast
    then show ?thesis using True f(3) by (intro exI [of _ "n + j"]) auto
  next
    case False
    have "drop n s \<noteq> []" using f(2) "1.prems"(2) by simp
    with rest obtain m where "utf8_len (drop n s) = Some m" by (auto elim: utf8_valid_step)
    from utf8_len_facts(4) [OF this] have "\<not> is_continuation (s ! n)" using f(3) by simp
    then show ?thesis using False f(2) by (intro exI [of _ n]) auto
  qed
qed

lemma prefix_loop_facts:
  "Utf8SafePrefix_loop s i \<le> i"
  "Utf8SafePrefix_loop s i = 0 \<or> \<not> is_continuation (s ! Utf8SafePrefix_loop s i)"
  "Utf8SafePrefix_loop s i < j \<Longrightarrow> j \<le> i \<Longrightarrow> is_continuation (s ! j)"
  by (induction s i rule: Utf8SafePrefix_loop.induct) (auto simp: le_Suc_eq split: if_splits)

lemma start_disjoint:
  "start2 a b \<Longrightarrow> \<not> ascii a" "start3 a b \<Longrightarrow> \<not> ascii a" "start3 a b \<Longrightarrow> \<not> start2 a c"
  "start4 a b \<Longrightarrow> \<not> ascii a" "start4 a b \<Longrightarrow> \<not> start2 a c" "start4 a b \<Longrightarrow> \<not> start3 a c"
  by (auto simp: ascii_def start2_def start3_def start4_def octet_in_def)

lemma utf8_len_of_take: "utf8_len (take i s) = Some n \<Longrightarrow> utf8_len s = Some n"
  by (auto simp: utf8_len_def start_disjoint split: if_splits)

lemma utf8_valid_take_boundary:
  assumes "utf8_valid s" "i < length s" "utf8_valid (take i s)"
  shows "\<not> is_continuation (s ! i)"
  using assms
proof (induction s arbitrary: i rule: length_induct)
  case (1 s)
  then obtain n where n: "utf8_len s = Some n" and rest: "utf8_valid (drop n s)"
    by (auto elim: utf8_valid_step)
  note f = utf8_len_facts [OF n]
  show ?case
  proof (cases "i = 0")
    case False
    with "1.prems"(2,3) obtain m where m: "utf8_len (take i s) = Some m"
      and rest': "utf8_valid (drop m (take i s))" by (auto elim: utf8_valid_step)
    have "m = n" using utf8_len_of_take [OF m] n by simp
    moreover have "m \<le> i" using utf8_len_facts(3) [OF m] by simp
    ultimately have "\<not> is_continuation (drop n s ! (i - n))"
      using "1.IH" [rule_format, of "drop n s" "i - n"] f(1) rest rest' "1.prems"(2)
      by (simp add: drop_take)
    with \<open>m = n\<close> \<open>m \<le> i\<close> f(3) show ?thesis by simp
  qed (use f in simp)
qed

lemma Utf8SafePrefix_le: "Utf8SafePrefix s limit \<le> limit"
  by (simp add: Utf8SafePrefix_def prefix_loop_facts)

text \<open>
  C4: truncation respects UTF-8. For well-formed text longer than the limit, \<open>Utf8SafePrefix\<close>
  is a cut within the limit that leaves well-formed text, it is the longest such cut, and it
  gives up at most three bytes of the limit.
\<close>

theorem utf8_safe_truncation:
  assumes "utf8_valid s" "limit < length s"
  shows "utf8_valid (take (Utf8SafePrefix s limit) s) \<and> Utf8SafePrefix s limit \<le> limit \<and>
    limit \<le> Utf8SafePrefix s limit + 3 \<and>
    (\<forall>i \<le> limit. utf8_valid (take i s) \<longrightarrow> i \<le> Utf8SafePrefix s limit)"
proof (intro conjI)
  let ?c = "Utf8SafePrefix s limit"
  have c: "?c \<le> limit" by (rule Utf8SafePrefix_le)
  then show "?c \<le> limit" .
  have "?c = 0 \<or> \<not> is_continuation (s ! ?c)"
    unfolding Utf8SafePrefix_def by (rule prefix_loop_facts)
  with c assms show "utf8_valid (take ?c s)" by (auto intro: utf8_boundary_take)
  have skipped: "is_continuation (s ! j)" if "?c < j" "j \<le> limit" for j
    using that unfolding Utf8SafePrefix_def by (rule prefix_loop_facts)
  show "limit \<le> ?c + 3"
  proof (rule ccontr)
    assume "\<not> limit \<le> ?c + 3"
    then have "?c + 4 \<le> limit" by simp
    with assms utf8_boundary_within_4 [of s ?c] skipped show False by force
  qed
  show "\<forall>i \<le> limit. utf8_valid (take i s) \<longrightarrow> i \<le> ?c"
  proof (intro allI impI)
    fix i assume "i \<le> limit" "utf8_valid (take i s)"
    moreover have "\<not> is_continuation (s ! i)"
      using utf8_valid_take_boundary assms calculation by simp
    ultimately show "i \<le> ?c" using skipped [of i] by linarith
  qed
qed

text \<open>Two euro signs (three bytes each) cut at five bytes.\<close>

definition euros :: string where
  "euros = map char_of [0xE2, 0x82, 0xAC, 0xE2, 0x82, 0xAC :: nat]"

lemma euros_valid: "utf8_valid euros"
  by (simp add: euros_def utf8_valid.simps utf8_len_def ascii_def start2_def start3_def cont_def
      octet_in_def)

theorem utf8_safe_truncation_witness:
  "utf8_valid (take (Utf8SafePrefix euros 5) euros) \<and> Utf8SafePrefix euros 5 = 3"
proof -
  have "length euros = 6" by (simp add: euros_def)
  with utf8_safe_truncation [OF euros_valid, of 5] have "utf8_valid (take (Utf8SafePrefix euros 5) euros)"
    by simp
  moreover have "Utf8SafePrefix euros 5 = 3"
    by code_simp
  ultimately show ?thesis by simp
qed

section \<open>What the limits remove\<close>

text \<open>Reference definitions: the clipped text, value and attributes, and what was clipped.\<close>

definition clip_text :: "nat \<Rightarrow> string \<Rightarrow> string" where
  "clip_text limit s = (if limit < length s then take (Utf8SafePrefix s limit) s else s)"

fun clip_value :: "nat \<Rightarrow> AttributeValue \<Rightarrow> AttributeValue" where
  "clip_value limit (AV_string s) = AV_string (clip_text limit s)"
| "clip_value limit (AV_strings ss) = AV_strings (map (clip_text limit) ss)"
| "clip_value limit v = v"

fun value_texts :: "AttributeValue \<Rightarrow> string list" where
  "value_texts (AV_string s) = [s]"
| "value_texts (AV_strings ss) = ss"
| "value_texts v = []"

definition too_long :: "nat \<Rightarrow> KeyValue list \<Rightarrow> nat" where
  "too_long limit kvs =
     length (filter (\<lambda>s. limit < length s) (concat (map (value_texts \<circ> kv_value) kvs)))"

definition clip_attrs :: "nat \<Rightarrow> KeyValue list \<Rightarrow> KeyValue list" where
  "clip_attrs limit = map (kv_value_update (clip_value limit))"

definition attrs_within :: "nat \<Rightarrow> nat \<Rightarrow> KeyValue list \<Rightarrow> bool" where
  "attrs_within n limit kvs \<longleftrightarrow> length kvs \<le> n \<and>
     (\<forall>kv \<in> set kvs. \<forall>s \<in> set (value_texts (kv_value kv)). length s \<le> limit)"

lemma clip_text_facts:
  "length (clip_text limit s) \<le> limit" "length s \<le> limit \<Longrightarrow> clip_text limit s = s"
  using Utf8SafePrefix_le [of s limit] by (auto simp: clip_text_def min_def)

lemma clip_value_idle:
  "\<forall>s \<in> set (value_texts v). length s \<le> limit \<Longrightarrow> clip_value limit v = v"
  by (cases v) (auto simp: clip_text_facts intro: map_idI)

lemma value_texts_clip: "value_texts (clip_value limit v) = map (clip_text limit) (value_texts v)"
  by (cases v) auto

lemma truncate_elements_eq:
  "truncate_elements es limit = (map (clip_text limit) es, length (filter (\<lambda>s. limit < length s) es))"
  by (induction es) (auto simp: clip_text_def)

lemma TruncateStrings_eq:
  "TruncateStrings v limit =
     (clip_value limit v, length (filter (\<lambda>s. limit < length s) (value_texts v)))"
  by (cases v) (auto simp: TruncateStrings_def truncate_elements_eq clip_text_def)

lemma TruncateAll_eq: "TruncateAll kvs limit = (clip_attrs limit kvs, too_long limit kvs)"
  by (induction kvs) (auto simp: TruncateStrings_eq clip_attrs_def too_long_def)

lemma KeepFirst_eq: "KeepFirst items limit = (take limit items, length items - limit)"
  by (auto simp: KeepFirst_def)

lemma attrs_within_clip: "attrs_within n limit (clip_attrs limit (take n kvs))"
  by (auto simp: attrs_within_def clip_attrs_def value_texts_clip clip_text_facts)

lemma attrs_within_idle:
  assumes "attrs_within n limit kvs"
  shows "take n kvs = kvs" "clip_attrs limit kvs = kvs" "too_long limit kvs = 0"
proof -
  show "take n kvs = kvs" using assms by (simp add: attrs_within_def)
  have "kv\<lparr>kv_value := clip_value limit (kv_value kv)\<rparr> = kv" if "kv \<in> set kvs" for kv
    using assms that by (simp add: attrs_within_def clip_value_idle)
  then show "clip_attrs limit kvs = kvs"
    unfolding clip_attrs_def by (intro map_idI) (metis KeyValue.unfold_congs(2))
  show "too_long limit kvs = 0"
    using assms by (auto simp: too_long_def attrs_within_def filter_empty_conv not_less)
qed

definition record_within :: "SpanLimitOptions \<Rightarrow> SpanRecord \<Rightarrow> bool" where
  "record_within limits r \<longleftrightarrow>
     attrs_within (attribute_count_limit limits) (attribute_value_length_limit limits)
       (rec_attributes r) \<and>
     length (rec_events r) \<le> event_count_limit limits \<and>
     (\<forall>e \<in> set (rec_events r). attrs_within (event_attribute_count_limit limits)
        (attribute_value_length_limit limits) (ev_attributes e)) \<and>
     length (rec_links r) \<le> link_count_limit limits \<and>
     (\<forall>l \<in> set (rec_links r). attrs_within (link_attribute_count_limit limits)
        (attribute_value_length_limit limits) (lk_attributes l))"

definition limited :: "nat \<Rightarrow> nat \<Rightarrow> KeyValue list \<Rightarrow> KeyValue list" where
  "limited n limit kvs = clip_attrs limit (take n kvs)"

lemma limit_events_eq:
  "limit_events es limits =
     (let n = event_attribute_count_limit limits; limit = attribute_value_length_limit limits
      in (map (ev_attributes_update (limited n limit)) es,
          sum_list (map (\<lambda>e. length (ev_attributes e) - n) es),
          sum_list (map (\<lambda>e. too_long limit (take n (ev_attributes e))) es)))"
  by (induction es) (auto simp: Let_def KeepFirst_eq TruncateAll_eq limited_def)

lemma limit_links_eq:
  "limit_links ls limits =
     (let n = link_attribute_count_limit limits; limit = attribute_value_length_limit limits
      in (map (lk_attributes_update (limited n limit)) ls,
          sum_list (map (\<lambda>l. length (lk_attributes l) - n) ls),
          sum_list (map (\<lambda>l. too_long limit (take n (lk_attributes l))) ls)))"
  by (induction ls) (auto simp: Let_def KeepFirst_eq TruncateAll_eq limited_def)

text \<open>How many items a record loses, by the reason it is reported under.\<close>

fun limit_losses :: "SpanLimitOptions \<Rightarrow> SpanRecord \<Rightarrow> DropReason \<Rightarrow> nat" where
  "limit_losses limits r SpanAttributeLimit = length (rec_attributes r) - attribute_count_limit limits"
| "limit_losses limits r SpanEventLimit = length (rec_events r) - event_count_limit limits"
| "limit_losses limits r SpanLinkLimit = length (rec_links r) - link_count_limit limits"
| "limit_losses limits r EventAttributeLimit =
     (\<Sum>e \<leftarrow> take (event_count_limit limits) (rec_events r).
        length (ev_attributes e) - event_attribute_count_limit limits)"
| "limit_losses limits r LinkAttributeLimit =
     (\<Sum>l \<leftarrow> take (link_count_limit limits) (rec_links r).
        length (lk_attributes l) - link_attribute_count_limit limits)"
| "limit_losses limits r AttributeValueTruncated =
     (let limit = attribute_value_length_limit limits in
      too_long limit (take (attribute_count_limit limits) (rec_attributes r)) +
      (\<Sum>e \<leftarrow> take (event_count_limit limits) (rec_events r).
         too_long limit (take (event_attribute_count_limit limits) (ev_attributes e))) +
      (\<Sum>l \<leftarrow> take (link_count_limit limits) (rec_links r).
         too_long limit (take (link_attribute_count_limit limits) (lk_attributes l))))"
| "limit_losses limits r _ = 0"

lemma Count_eq: "Count diag reason n = count_drop reason n diag"
  by (cases diag; cases n) (auto simp: Count_def count_drop_def RecordDrop_def)

lemma ApplySpanLimits_record:
  "fst (ApplySpanLimits r limits diag) =
     r\<lparr>rec_attributes :=
         limited (attribute_count_limit limits) (attribute_value_length_limit limits)
           (rec_attributes r),
       rec_events :=
         map (ev_attributes_update
               (limited (event_attribute_count_limit limits) (attribute_value_length_limit limits)))
           (take (event_count_limit limits) (rec_events r)),
       rec_links :=
         map (lk_attributes_update
               (limited (link_attribute_count_limit limits) (attribute_value_length_limit limits)))
           (take (link_count_limit limits) (rec_links r))\<rparr>"
  by (simp add: ApplySpanLimits_def Let_def KeepFirst_eq TruncateAll_eq limit_events_eq
      limit_links_eq limited_def)

lemma ApplySpanLimits_drops:
  assumes "diag \<noteq> None"
  shows "drops (snd (ApplySpanLimits r limits diag)) reason =
    drops diag reason + of_nat (limit_losses limits r reason)"
  using assms
  by (cases reason)
    (simp_all add: ApplySpanLimits_def Let_def KeepFirst_eq TruncateAll_eq limit_events_eq
      limit_links_eq Count_eq drops_count_drop)

lemma limited_within: "attrs_within n limit (limited n limit kvs)"
  by (simp add: limited_def attrs_within_clip)

lemma limited_idle: "attrs_within n limit kvs \<Longrightarrow> limited n limit kvs = kvs"
  by (simp add: limited_def attrs_within_idle)

lemma event_limited_idle:
  "attrs_within n limit (ev_attributes e) \<Longrightarrow> ev_attributes_update (limited n limit) e = e"
  by (cases e) (simp add: limited_idle)

lemma link_limited_idle:
  "attrs_within n limit (lk_attributes l) \<Longrightarrow> lk_attributes_update (limited n limit) l = l"
  by (cases l) (simp add: limited_idle)

text \<open>
  \<open>ApplySpanLimits\<close> enforces the limits. The record it leaves is within every limit; a
  record already within them is left unchanged; and a present sink is charged, for each reason,
  exactly the number of attributes, events, links and strings that were removed or clipped.
\<close>

theorem apply_span_limits:
  "record_within limits (fst (ApplySpanLimits r limits diag)) \<and>
   (record_within limits r \<longrightarrow> fst (ApplySpanLimits r limits diag) = r) \<and>
   (diag \<noteq> None \<longrightarrow>
      drops (snd (ApplySpanLimits r limits diag)) reason =
        drops diag reason + of_nat (limit_losses limits r reason))"
proof (intro conjI impI)
  show "record_within limits (fst (ApplySpanLimits r limits diag))"
    by (auto simp: ApplySpanLimits_record record_within_def limited_within)
  show "fst (ApplySpanLimits r limits diag) = r" if w: "record_within limits r"
  proof -
    have "map (ev_attributes_update (limited (event_attribute_count_limit limits)
        (attribute_value_length_limit limits))) (rec_events r) = rec_events r"
      using w by (auto simp: record_within_def intro!: map_idI event_limited_idle)
    moreover have "map (lk_attributes_update (limited (link_attribute_count_limit limits)
        (attribute_value_length_limit limits))) (rec_links r) = rec_links r"
      using w by (auto simp: record_within_def intro!: map_idI link_limited_idle)
    ultimately show ?thesis
      using w by (simp add: ApplySpanLimits_record record_within_def limited_idle)
  qed
qed (simp add: ApplySpanLimits_drops)

definition SpanRecord_default :: SpanRecord where
  "SpanRecord_default =
     \<lparr>rec_context = SpanContext_default, rec_parent_context = SpanContext_default, rec_name = [],
      rec_kind = Internal, rec_status_code = Unset, rec_status_description = [],
      rec_start_time = 0, rec_end_time = 0, rec_attributes = [], rec_events = [], rec_links = [],
      rec_resource = None\<rparr>"

lemma drops_init: "drops (Some DiagnosticsCounters_init) reason = 0"
  by (simp add: drops_def DiagnosticsCounters_init_def)

theorem apply_span_limits_witness:
  "let limits = SpanLimitOptions_default\<lparr>attribute_count_limit := 1\<rparr>;
       kv = \<lparr>kv_key = ''k'', kv_value = AV_bool True\<rparr>;
       r = SpanRecord_default\<lparr>rec_attributes := [kv]\<rparr>
   in fst (ApplySpanLimits r limits None) = r \<and>
      drops (snd (ApplySpanLimits (r\<lparr>rec_attributes := [kv, kv, kv]\<rparr>) limits
         (Some DiagnosticsCounters_init))) SpanAttributeLimit = 2"
proof -
  let ?limits = "SpanLimitOptions_default\<lparr>attribute_count_limit := 1\<rparr>"
  let ?kv = "\<lparr>kv_key = ''k'', kv_value = AV_bool True\<rparr>"
  let ?r = "SpanRecord_default\<lparr>rec_attributes := [?kv]\<rparr>"
  have "record_within ?limits ?r" by (simp add: record_within_def attrs_within_def SpanRecord_default_def)
  then have "fst (ApplySpanLimits ?r ?limits None) = ?r"
    using apply_span_limits [of ?limits ?r None] by blast
  moreover have "drops (snd (ApplySpanLimits (?r\<lparr>rec_attributes := [?kv, ?kv, ?kv]\<rparr>) ?limits
      (Some DiagnosticsCounters_init))) SpanAttributeLimit = 2"
    using apply_span_limits [of ?limits "?r\<lparr>rec_attributes := [?kv, ?kv, ?kv]\<rparr>"
        "Some DiagnosticsCounters_init" SpanAttributeLimit]
    by (simp add: drops_init)
  ultimately show ?thesis by (simp only: Let_def)
qed

end
