(* ===== verification/Sampler.thy ===== *)
theory Sampler
  imports Complex_Main Span_Record
begin

text \<open>
  The samplers (\<open>src/sdk/sampler_factories.cpp\<close>, \<open>src/sdk/sampler_chains.cpp\<close>): the four built-in
  ones, the three rule combinators and the two chain modes, as one datatype whose constructors are
  the classes; a virtual call is a case distinction, an empty \<open>SamplerHandle\<close> is \<open>None\<close>. The root
  of a \<open>ParentBased\<close> sampler is never empty, as its constructor requires.

  A ratio is a \<open>double\<close>: not a number, an infinity, or a rational. \<open>static_cast<double>(UINT64_MAX)\<close>
  is \<open>2 ^ 64\<close>, and scaling a double by a power of two is exact, so \<open>ComputeThreshold\<close> computes with
  rationals what the code computes with doubles.

  Proved here: the ratio sampler samples exactly the promised share of trace ids, consistently as
  the ratio grows; each chain mode computes its documented combination; retuning reaches every
  ratio sampler and nothing else.
\<close>

section \<open>Vocabulary\<close>

datatype SamplingDecision = Drop | RecordOnly | RecordAndSample

record SamplingContext =
  sc_parent :: SpanContext
  sc_span_kind :: SpanKind
  sc_span_name :: string
  sc_initial_attributes :: "KeyValue list"
  sc_links :: "SpanLink list"
  sc_trace_id :: TraceId

record SamplingResult =
  sr_decision :: SamplingDecision
  sr_additional_attributes :: "KeyValue list"
  sr_trace_state :: "TraceState option"

definition plain_result :: "SamplingDecision \<Rightarrow> SamplingResult" where
  "plain_result d = \<lparr>sr_decision = d, sr_additional_attributes = [], sr_trace_state = None\<rparr>"

definition DropResult :: SamplingResult where
  "DropResult = plain_result Drop"

datatype double_value = NaN | Minus_Inf | Finite rat | Plus_Inf

datatype ChainMode = FirstMatch | AllMustAgree

datatype rule =
    AttributeRule string AttributeValue
  | SpanNameRule string
  | SpanKindRule SpanKind

datatype sampler =
    AlwaysOnSampler
  | AlwaysOffSampler
  | TraceIdRatioSampler rat u64
  | ParentBasedSampler sampler
  | RuleSampler rule "sampler option" "sampler option"
  | ChainSampler "sampler list" ChainMode

section \<open>The ratio sampler\<close>

definition NormaliseRatio :: "double_value \<Rightarrow> rat" where
  "NormaliseRatio ratio =
     (case ratio of
        NaN \<Rightarrow> 0
      | Minus_Inf \<Rightarrow> 0
      | Plus_Inf \<Rightarrow> 1
      | Finite r \<Rightarrow> if r < 0 then 0 else if 1 < r then 1 else r)"

definition ComputeThreshold :: "rat \<Rightarrow> u64" where
  "ComputeThreshold ratio =
     (if ratio \<ge> 1 then -1 else if ratio \<le> 0 then 0 else of_int \<lfloor>ratio * 2 ^ 64\<rfloor>)"

definition ReadLowerBE64 :: "TraceId \<Rightarrow> u64" where
  "ReadLowerBE64 tid =
     foldl (\<lambda>v i. push_bit 8 v OR ucast (tid_bytes tid ! (8 + i))) 0 [0..<8]"

definition SampleDecision :: "u64 \<Rightarrow> SamplingContext \<Rightarrow> SamplingDecision" where
  "SampleDecision threshold ctx =
     (if threshold = -1 then RecordAndSample
      else if ReadLowerBE64 (sc_trace_id ctx) < threshold then RecordAndSample else Drop)"

definition MakeTraceIdRatioSampler :: "double_value \<Rightarrow> sampler" where
  "MakeTraceIdRatioSampler ratio =
     TraceIdRatioSampler (NormaliseRatio ratio) (ComputeThreshold (NormaliseRatio ratio))"

section \<open>Rules\<close>

text \<open>\<open>operator==\<close> on attribute values: doubles compare as IEEE 754 numbers.\<close>

definition is_nan_bits :: "u64 \<Rightarrow> bool" where
  "is_nan_bits b \<longleftrightarrow> unat b mod 2 ^ 63 > 0x7FF0000000000000"

definition double_eq :: "u64 \<Rightarrow> u64 \<Rightarrow> bool" where
  "double_eq a b \<longleftrightarrow> \<not> is_nan_bits a \<and> \<not> is_nan_bits b \<and>
     (a = b \<or> unat a mod 2 ^ 63 = 0 \<and> unat b mod 2 ^ 63 = 0)"

fun value_eq :: "AttributeValue \<Rightarrow> AttributeValue \<Rightarrow> bool" where
  "value_eq (AV_double a) (AV_double b) = double_eq a b"
| "value_eq (AV_doubles as) (AV_doubles bs) =
     (length as = length bs \<and> list_all (\<lambda>(a, b). double_eq a b) (zip as bs))"
| "value_eq v w = (v = w)"

fun find_attribute :: "string \<Rightarrow> KeyValue list \<Rightarrow> KeyValue option" where
  "find_attribute key [] = None"
| "find_attribute key (kv # kvs) = (if kv_key kv = key then Some kv else find_attribute key kvs)"

fun Matches :: "rule \<Rightarrow> SamplingContext \<Rightarrow> bool" where
  "Matches (AttributeRule key expected) ctx =
     (case find_attribute key (sc_initial_attributes ctx) of
        None \<Rightarrow> False
      | Some found \<Rightarrow> value_eq (kv_value found) expected)"
| "Matches (SpanNameRule name) ctx = (sc_span_name ctx = name)"
| "Matches (SpanKindRule kind) ctx = (sc_span_kind ctx = kind)"

section \<open>Decisions\<close>

text \<open>\<open>dynamic_cast<const RuleSampler*>\<close>: the predicate a chain child carries, if any.\<close>

fun rule_of :: "sampler \<Rightarrow> rule option" where
  "rule_of (RuleSampler r _ _) = Some r"
| "rule_of _ = None"

fun ShouldSample :: "sampler \<Rightarrow> SamplingContext \<Rightarrow> SamplingResult"
  and ShouldSample_handle :: "sampler option \<Rightarrow> SamplingContext \<Rightarrow> SamplingResult"
  and EvaluateFirstMatch :: "sampler list \<Rightarrow> SamplingContext \<Rightarrow> SamplingResult"
  and EvaluateAllMustAgree ::
    "sampler list \<Rightarrow> SamplingContext \<Rightarrow> SamplingResult \<Rightarrow> SamplingResult" where
  "ShouldSample AlwaysOnSampler ctx = plain_result RecordAndSample"
| "ShouldSample AlwaysOffSampler ctx = plain_result Drop"
| "ShouldSample (TraceIdRatioSampler ratio threshold) ctx =
     plain_result (SampleDecision threshold ctx)"
| "ShouldSample (ParentBasedSampler rt) ctx =
     (if SpanContext_IsValid (sc_parent ctx) \<and> TraceFlags_IsSampled (trace_flags (sc_parent ctx))
      then plain_result RecordAndSample
      else ShouldSample rt ctx)"
| "ShouldSample (RuleSampler r on_match on_no_match) ctx =
     (if Matches r ctx then ShouldSample_handle on_match ctx
      else ShouldSample_handle on_no_match ctx)"
| "ShouldSample (ChainSampler children mode) ctx =
     (if mode = FirstMatch then EvaluateFirstMatch children ctx
      else EvaluateAllMustAgree children ctx DropResult)"
| "ShouldSample_handle None ctx = DropResult"
| "ShouldSample_handle (Some delegate) ctx = ShouldSample delegate ctx"
| "EvaluateFirstMatch [] ctx = DropResult"
| "EvaluateFirstMatch (child # children) ctx =
     (if (case rule_of child of None \<Rightarrow> True | Some r \<Rightarrow> Matches r ctx)
      then ShouldSample child ctx
      else EvaluateFirstMatch children ctx)"
| "EvaluateAllMustAgree [] ctx result = result"
| "EvaluateAllMustAgree (child # children) ctx result =
     (let result' = ShouldSample child ctx
      in if sr_decision result' \<noteq> RecordAndSample then DropResult
         else EvaluateAllMustAgree children ctx result')"

definition MakeChainSampler :: "sampler option list \<Rightarrow> ChainMode \<Rightarrow> sampler" where
  "MakeChainSampler handles mode = ChainSampler (List.map_filter (\<lambda>h. h) handles) mode"

section \<open>Retuning\<close>

fun TrySetRatio :: "rat \<Rightarrow> sampler \<Rightarrow> bool \<times> sampler"
  and TryDelegate :: "rat \<Rightarrow> sampler option \<Rightarrow> bool \<times> sampler option"
  and TryChildren :: "rat \<Rightarrow> sampler list \<Rightarrow> bool \<times> sampler list" where
  "TrySetRatio ratio AlwaysOnSampler = (False, AlwaysOnSampler)"
| "TrySetRatio ratio AlwaysOffSampler = (False, AlwaysOffSampler)"
| "TrySetRatio ratio (TraceIdRatioSampler old threshold) =
     (if ratio = old then (True, TraceIdRatioSampler old threshold)
      else (True, TraceIdRatioSampler ratio (ComputeThreshold ratio)))"
| "TrySetRatio ratio (ParentBasedSampler rt) =
     (let (applied, rt') = TrySetRatio ratio rt in (applied, ParentBasedSampler rt'))"
| "TrySetRatio ratio (RuleSampler r on_match on_no_match) =
     (let (applied1, m) = TryDelegate ratio on_match;
          (applied2, n) = TryDelegate ratio on_no_match
      in (applied2 \<or> applied1, RuleSampler r m n))"
| "TrySetRatio ratio (ChainSampler children mode) =
     (let (applied, children') = TryChildren ratio children
      in (applied, ChainSampler children' mode))"
| "TryDelegate ratio None = (False, None)"
| "TryDelegate ratio (Some s) = (let (applied, s') = TrySetRatio ratio s in (applied, Some s'))"
| "TryChildren ratio [] = (False, [])"
| "TryChildren ratio (child # children) =
     (let (a, child') = TrySetRatio ratio child; (b, children') = TryChildren ratio children
      in (a \<or> b, child' # children'))"

section \<open>The share of traces a ratio keeps\<close>

lemma be64_step:
  fixes v :: u64 and b :: u8
  assumes "unat v < 2 ^ 56"
  shows "unat (push_bit 8 v OR ucast b) = unat v * 256 + unat b"
proof -
  have "unat (push_bit 8 v) = unat v * 256"
    using assms by (simp add: push_bit_eq_mult unat_word_ariths)
  moreover have "push_bit 8 v OR ucast b = push_bit 8 v + (ucast b :: u64)"
    by (rule disjunctive_add [symmetric]) (auto simp: bit_simps dest: bit_imp_le_length)
  moreover have "unat (ucast b :: u64) = unat b" by (simp add: unsigned_ucast_eq take_bit_nat_eq_self unat_u8_less order_less_trans [OF unat_u8_less])
  ultimately show ?thesis
    using assms unat_u8_less [of b] by (simp add: unat_word_ariths)
qed

text \<open>The big-endian number of a byte sequence.\<close>

definition be_number :: "u8 list \<Rightarrow> nat" where
  "be_number bs = foldl (\<lambda>n b. n * 256 + unat b) 0 bs"

lemma be_fold:
  assumes "length bs \<le> k" "k \<le> 8" "unat (v :: u64) < 2 ^ (64 - 8 * k)"
  shows "unat (foldl (\<lambda>v b. push_bit 8 v OR ucast b) v bs) =
    foldl (\<lambda>n b. n * 256 + unat (b :: u8)) (unat v) bs"
  using assms
proof (induction bs arbitrary: v k)
  case (Cons b bs)
  then obtain j where k: "k = Suc j" by (cases k) auto
  have "(2 :: nat) ^ (64 - 8 * k) \<le> 2 ^ 56" using k by (intro power_increasing) auto
  then have step: "unat (push_bit 8 v OR ucast b) = unat v * 256 + unat b"
    using Cons.prems(3) by (intro be64_step) simp
  have "unat v * 256 + unat b < 2 ^ (64 - 8 * k) * 256"
    using Cons.prems(3) unat_u8_less [of b] by (simp add: nat_less_iff)
  also have "\<dots> = 2 ^ (64 - 8 * k + 8)" by (simp only: power_add) simp
  also have "64 - 8 * k + 8 = 64 - 8 * j" using Cons.prems(2) k by simp
  finally show ?case using Cons.IH [of j] Cons.prems k step by simp
qed simp

lemma ReadLowerBE64_number:
  assumes "length (tid_bytes t) = TraceId_kSizeBytes"
  shows "unat (ReadLowerBE64 t) = be_number (drop 8 (tid_bytes t))"
proof -
  let ?bs = "map (\<lambda>i. tid_bytes t ! (8 + i)) [0..<8]"
  have bs: "?bs = drop 8 (tid_bytes t)"
    using assms by (intro nth_equalityI) (simp_all add: TraceId_kSizeBytes_def)
  have "ReadLowerBE64 t = foldl (\<lambda>v b. push_bit 8 v OR ucast b) 0 ?bs"
    by (simp add: ReadLowerBE64_def foldl_map)
  then show ?thesis using be_fold [of ?bs 8 0] assms by (simp add: bs be_number_def TraceId_kSizeBytes_def)
qed

text \<open>The largest double below 1 is \<open>1 - 2 ^ -53\<close>.\<close>

definition double_ratio :: "double_value \<Rightarrow> bool" where
  "double_ratio ratio \<longleftrightarrow> (case ratio of Finite r \<Rightarrow> r < 1 \<longrightarrow> r \<le> 1 - 1 / 2 ^ 53 | _ \<Rightarrow> True)"

lemma NormaliseRatio_double:
  "double_ratio ratio \<Longrightarrow> 0 \<le> NormaliseRatio ratio \<and> NormaliseRatio ratio \<le> 1 \<and>
   (NormaliseRatio ratio < 1 \<longrightarrow> NormaliseRatio ratio \<le> 1 - 1 / 2 ^ 53)"
  by (cases ratio) (auto simp: double_ratio_def NormaliseRatio_def)

lemma uint_of_int_small: "0 \<le> x \<Longrightarrow> x < 2 ^ 64 \<Longrightarrow> uint (of_int x :: u64) = x"
  by (simp add: unsigned_of_int take_bit_int_eq_self)

lemma threshold_exact:
  assumes "0 \<le> r" "r \<le> 1 - 1 / 2 ^ 53"
  shows "unat (ComputeThreshold r) = nat \<lfloor>r * 2 ^ 64\<rfloor>" "ComputeThreshold r \<noteq> -1"
proof -
  have "r < 1" using assms(2) by (simp add: field_simps)
  have "r * 2 ^ 64 \<le> (1 - 1 / 2 ^ 53) * 2 ^ 64" using assms(2) by (intro mult_right_mono) simp_all
  also have "\<dots> = of_int (2 ^ 64 - 2 ^ 11)" by simp
  finally have le: "\<lfloor>r * 2 ^ 64\<rfloor> \<le> 2 ^ 64 - 2 ^ 11" by (simp add: floor_le_iff)
  have ge: "0 \<le> \<lfloor>r * 2 ^ 64\<rfloor>" using assms(1) by simp
  show unat: "unat (ComputeThreshold r) = nat \<lfloor>r * 2 ^ 64\<rfloor>"
  proof (cases "r = 0")
    case False
    then have "ComputeThreshold r = of_int \<lfloor>r * 2 ^ 64\<rfloor>"
      using \<open>r < 1\<close> assms(1) by (simp add: ComputeThreshold_def)
    moreover have "uint (of_int \<lfloor>r * 2 ^ 64\<rfloor> :: u64) = \<lfloor>r * 2 ^ 64\<rfloor>"
      using le ge by (intro uint_of_int_small) simp_all
    ultimately show ?thesis by (simp only: unat_eq_nat_uint)
  qed (simp add: ComputeThreshold_def)
  show "ComputeThreshold r \<noteq> -1"
  proof
    assume "ComputeThreshold r = -1"
    then have "nat \<lfloor>r * 2 ^ 64\<rfloor> = unat (-1 :: u64)" using unat by simp
    moreover have "unat (-1 :: u64) = 2 ^ 64 - 1"
      by (simp add: unsigned_minus_1_eq_mask mask_eq_exp_minus_1)
    moreover have "nat \<lfloor>r * 2 ^ 64\<rfloor> \<le> nat (2 ^ 64 - 2 ^ 11)" using le by (rule nat_mono)
    ultimately show False by simp
  qed
qed

text \<open>
  C13: the ratio sampler keeps the promised share, consistently. For any configured ratio,
  clamped to the unit interval with not-a-number read as 0, a trace is sampled exactly when the
  big-endian number in the low eight bytes of its id, plus one, is at most the ratio times
  \<open>2 ^ 64\<close>. So ratio 1 samples every trace, ratio 0 none, and a trace sampled at one ratio is
  sampled at every higher one.
\<close>

theorem trace_id_ratio_share:
  assumes "length (tid_bytes (sc_trace_id ctx)) = TraceId_kSizeBytes" "double_ratio ratio"
  shows "sr_decision (ShouldSample (MakeTraceIdRatioSampler ratio) ctx) =
    (if of_nat (be_number (drop 8 (tid_bytes (sc_trace_id ctx)))) + 1 \<le> NormaliseRatio ratio * 2 ^ 64
     then RecordAndSample else Drop)"
proof -
  let ?r = "NormaliseRatio ratio"
  let ?low = "ReadLowerBE64 (sc_trace_id ctx)"
  note range = NormaliseRatio_double [OF assms(2)]
  have low: "unat ?low < 2 ^ 64" using unsigned_less [of ?low, where 'a = nat] by simp
  show ?thesis
  proof (cases "?r = 1")
    case True
    have "of_nat (unat ?low) + 1 \<le> (2 :: rat) ^ 64"
      using low by (metis Suc_leI of_nat_Suc of_nat_le_iff of_nat_numeral of_nat_power add.commute)
    then show ?thesis
      by (simp add: MakeTraceIdRatioSampler_def SampleDecision_def True ComputeThreshold_def
          plain_result_def flip: ReadLowerBE64_number [OF assms(1)])
  next
    case False
    then have r: "0 \<le> ?r" "?r \<le> 1 - 1 / 2 ^ 53" using range by auto
    have "?low < ComputeThreshold ?r \<longleftrightarrow> int (unat ?low) < \<lfloor>?r * 2 ^ 64\<rfloor>"
      unfolding word_less_nat_alt threshold_exact(1) [OF r] by (rule zless_nat_eq_int_zless)
    also have "\<dots> \<longleftrightarrow> of_int (int (unat ?low) + 1) \<le> ?r * 2 ^ 64"
      unfolding le_floor_iff [symmetric] by linarith
    also have "of_int (int (unat ?low) + 1) = of_nat (unat ?low) + (1 :: rat)" by simp
    finally show ?thesis
      using threshold_exact(2) [OF r]
      by (simp add: MakeTraceIdRatioSampler_def SampleDecision_def plain_result_def
          flip: ReadLowerBE64_number [OF assms(1)])
  qed
qed

definition sample_sampling_context :: SamplingContext where
  "sample_sampling_context =
     \<lparr>sc_parent = SpanContext_default, sc_span_kind = Internal, sc_span_name = ''op'',
      sc_initial_attributes = [], sc_links = [], sc_trace_id = \<lparr>tid_bytes = replicate 8 7 @ replicate 8 0\<rparr>\<rparr>"

theorem trace_id_ratio_share_witness:
  "sr_decision (ShouldSample (MakeTraceIdRatioSampler (Finite (1 / 2))) sample_sampling_context) =
     RecordAndSample"
proof -
  have len: "length (tid_bytes (sc_trace_id sample_sampling_context)) = TraceId_kSizeBytes"
    by (simp add: sample_sampling_context_def TraceId_kSizeBytes_def)
  have "double_ratio (Finite (1 / 2))" by (simp add: double_ratio_def)
  moreover have "be_number (drop 8 (tid_bytes (sc_trace_id sample_sampling_context))) = 0"
    by (simp add: be_number_def sample_sampling_context_def eval_nat_numeral)
  ultimately show ?thesis
    using trace_id_ratio_share [OF len, of "Finite (1 / 2)"] by (simp add: NormaliseRatio_def)
qed

section \<open>Chains\<close>

definition applies :: "SamplingContext \<Rightarrow> sampler \<Rightarrow> bool" where
  "applies ctx child \<longleftrightarrow> (case rule_of child of None \<Rightarrow> True | Some r \<Rightarrow> Matches r ctx)"

lemma EvaluateFirstMatch_find:
  "EvaluateFirstMatch children ctx =
     (case find (applies ctx) children of None \<Rightarrow> DropResult | Some child \<Rightarrow> ShouldSample child ctx)"
  by (induction children) (auto simp: applies_def split: option.splits)

definition agrees :: "SamplingContext \<Rightarrow> sampler \<Rightarrow> bool" where
  "agrees ctx child \<longleftrightarrow> sr_decision (ShouldSample child ctx) = RecordAndSample"

lemma EvaluateAllMustAgree_eq:
  "EvaluateAllMustAgree children ctx result =
     (if \<forall>child \<in> set children. agrees ctx child
      then (if children = [] then result else ShouldSample (last children) ctx)
      else DropResult)"
  by (induction children arbitrary: result) (auto simp: agrees_def Let_def)

text \<open>
  What a chain decides. Empty handles are ignored. In \<open>FirstMatch\<close> mode the first child that
  carries no predicate, or whose predicate matches, decides and none matching drops the span; in
  \<open>AllMustAgree\<close> mode the last child's result stands if there is a child and all of them say
  \<open>RecordAndSample\<close>, and otherwise the span is dropped.
\<close>

theorem chain_decision:
  "ShouldSample (MakeChainSampler handles FirstMatch) ctx =
     (case find (applies ctx) (List.map_filter (\<lambda>h. h) handles) of
        None \<Rightarrow> DropResult | Some child \<Rightarrow> ShouldSample child ctx) \<and>
   ShouldSample (MakeChainSampler handles AllMustAgree) ctx =
     (let children = List.map_filter (\<lambda>h. h) handles
      in if children \<noteq> [] \<and> list_all (agrees ctx) children
         then ShouldSample (last children) ctx else DropResult)"
  by (auto simp: MakeChainSampler_def EvaluateFirstMatch_find EvaluateAllMustAgree_eq Let_def
      list_all_iff)

section \<open>Retuning\<close>

fun ratios :: "sampler \<Rightarrow> (rat \<times> u64) list"
  and ratios_handle :: "sampler option \<Rightarrow> (rat \<times> u64) list"
  and ratios_children :: "sampler list \<Rightarrow> (rat \<times> u64) list" where
  "ratios (TraceIdRatioSampler r t) = [(r, t)]"
| "ratios (ParentBasedSampler rt) = ratios rt"
| "ratios (RuleSampler _ m n) = ratios_handle m @ ratios_handle n"
| "ratios (ChainSampler cs _) = ratios_children cs"
| "ratios _ = []"
| "ratios_handle None = []"
| "ratios_handle (Some s) = ratios s"
| "ratios_children [] = []"
| "ratios_children (c # cs) = ratios c @ ratios_children cs"

text \<open>The sampler with its ratios blanked out: everything retuning must leave alone.\<close>

fun shape :: "sampler \<Rightarrow> sampler"
  and shape_handle :: "sampler option \<Rightarrow> sampler option"
  and shape_children :: "sampler list \<Rightarrow> sampler list" where
  "shape (TraceIdRatioSampler r t) = TraceIdRatioSampler 0 0"
| "shape (ParentBasedSampler rt) = ParentBasedSampler (shape rt)"
| "shape (RuleSampler r m n) = RuleSampler r (shape_handle m) (shape_handle n)"
| "shape (ChainSampler cs mode) = ChainSampler (shape_children cs) mode"
| "shape s = s"
| "shape_handle None = None"
| "shape_handle (Some s) = Some (shape s)"
| "shape_children [] = []"
| "shape_children (c # cs) = shape c # shape_children cs"

definition tuned :: "(rat \<times> u64) list \<Rightarrow> bool" where
  "tuned rts \<longleftrightarrow> (\<forall>(r, t) \<in> set rts. t = ComputeThreshold r)"

definition retuned :: "rat \<Rightarrow> (rat \<times> u64) list \<Rightarrow> (rat \<times> u64) list" where
  "retuned ratio rts = replicate (length rts) (ratio, ComputeThreshold ratio)"

lemma tuned_append [simp]: "tuned (xs @ ys) \<longleftrightarrow> tuned xs \<and> tuned ys"
  by (auto simp: tuned_def)

lemma retuned_append [simp]: "retuned r (xs @ ys) = retuned r xs @ retuned r ys"
  by (simp add: retuned_def replicate_add)

lemma retuned_Nil [simp]: "retuned r [] = []"
  by (simp add: retuned_def)

lemma TrySetRatio_eq:
  "tuned (ratios s) \<Longrightarrow>
     fst (TrySetRatio ratio s) = (ratios s \<noteq> []) \<and>
     ratios (snd (TrySetRatio ratio s)) = retuned ratio (ratios s) \<and>
     shape (snd (TrySetRatio ratio s)) = shape s \<and>
     (ratios s = [] \<longrightarrow> snd (TrySetRatio ratio s) = s)"
  "tuned (ratios_handle h) \<Longrightarrow>
     fst (TryDelegate ratio h) = (ratios_handle h \<noteq> []) \<and>
     ratios_handle (snd (TryDelegate ratio h)) = retuned ratio (ratios_handle h) \<and>
     shape_handle (snd (TryDelegate ratio h)) = shape_handle h \<and>
     (ratios_handle h = [] \<longrightarrow> snd (TryDelegate ratio h) = h)"
  "tuned (ratios_children cs) \<Longrightarrow>
     fst (TryChildren ratio cs) = (ratios_children cs \<noteq> []) \<and>
     ratios_children (snd (TryChildren ratio cs)) = retuned ratio (ratios_children cs) \<and>
     shape_children (snd (TryChildren ratio cs)) = shape_children cs \<and>
     (ratios_children cs = [] \<longrightarrow> snd (TryChildren ratio cs) = cs)"
proof (induction s and h and cs rule: ratios_ratios_handle_ratios_children.induct)
  case (1 old threshold)
  then show ?case by (auto simp: tuned_def retuned_def)
qed (auto simp: split_def Let_def)

text \<open>
  Retuning. \<open>TrySetRatio\<close> succeeds exactly when the sampler contains a ratio sampler anywhere
  below it. It then gives every one of them the new ratio and the threshold computed from it, and
  changes nothing else about the composition; when it fails it changes nothing at all.
\<close>

theorem try_set_ratio_reaches_all:
  assumes "tuned (ratios s)" "TrySetRatio ratio s = (applied, s')"
  shows "applied = (ratios s \<noteq> []) \<and>
    ratios s' = replicate (length (ratios s)) (ratio, ComputeThreshold ratio) \<and>
    shape s' = shape s \<and> (\<not> applied \<longrightarrow> s' = s)"
  using TrySetRatio_eq(1) [OF assms(1), of ratio] assms(2) by (auto simp: retuned_def)

theorem try_set_ratio_reaches_all_witness:
  "let s = ParentBasedSampler (RuleSampler (SpanNameRule ''x'')
             (Some (MakeTraceIdRatioSampler (Finite 0))) (Some AlwaysOnSampler))
   in case TrySetRatio 1 s of (applied, s') \<Rightarrow> applied \<and> ratios s' = [(1, -1)]"
proof -
  let ?s = "ParentBasedSampler (RuleSampler (SpanNameRule ''x'')
             (Some (MakeTraceIdRatioSampler (Finite 0))) (Some AlwaysOnSampler))"
  obtain applied s' where t: "TrySetRatio 1 ?s = (applied, s')" by fastforce
  have "tuned (ratios ?s)" "ratios ?s \<noteq> []" "length (ratios ?s) = 1"
    by (simp_all add: tuned_def MakeTraceIdRatioSampler_def)
  with try_set_ratio_reaches_all [OF _ t] show ?thesis
    unfolding Let_def t by (simp add: ComputeThreshold_def)
qed

end
