(* ===== verification/Sdk_Span.thy ===== *)
theory Sdk_Span
  imports Span_Record
begin

text \<open>
  The recording span (\<open>src/sdk/sdk_span.cpp\<close>). An operation takes the span and the shared
  diagnostics sink and returns both; the wall clock reading it may need is the argument \<open>now\<close>.
  The processor a span ends into is an interface, the locale \<open>span_processor\<close>: \<open>on_end\<close> takes the
  record, the scope and the processor's state (with the sink) and returns the new state and what
  it left behind in the record, since \<open>OnEnd\<close> takes an rvalue reference and may or may not move
  from it. Allocation succeeds, so \<open>DropOnBadAlloc\<close> runs its argument.

  Proved here: no sequence of calls takes the record over the limits, everything that is turned
  away is counted, the status follows its precedence rule, and a span delivers exactly one record,
  frozen at its first \<open>End\<close>, however it is used afterwards.
\<close>

section \<open>State and operations\<close>

record SdkSpan =
  m_scope :: InstrumentationScope
  m_limits :: SpanLimitOptions
  m_record :: SpanRecord
  m_ended :: bool

definition ClipAttribute :: "KeyValue \<Rightarrow> nat \<Rightarrow> sink \<Rightarrow> KeyValue \<times> sink" where
  "ClipAttribute kv limit diag =
     (let (v, truncated) = TruncateStrings (kv_value kv) limit
      in (kv\<lparr>kv_value := v\<rparr>,
          if truncated > 0 then count_drop AttributeValueTruncated truncated diag else diag))"

text \<open>The loop \<open>BuildEvent\<close> and \<open>BuildLink\<close> share: clip and append until the count limit.\<close>

fun clip_loop ::
    "KeyValue list \<Rightarrow> KeyValue list \<Rightarrow> nat \<Rightarrow> nat \<Rightarrow> sink \<Rightarrow> KeyValue list \<times> sink" where
  "clip_loop attributes [] count_limit limit diag = (attributes, diag)"
| "clip_loop attributes (kv # kvs) count_limit limit diag =
     (if length attributes \<ge> count_limit then (attributes, diag)
      else let (copy, diag') = ClipAttribute kv limit diag
           in clip_loop (attributes @ [copy]) kvs count_limit limit diag')"

definition BuildEvent ::
    "string \<Rightarrow> KeyValue list \<Rightarrow> int \<Rightarrow> int \<Rightarrow> SpanLimitOptions \<Rightarrow> sink \<Rightarrow> SpanEvent \<times> sink" where
  "BuildEvent name attributes timestamp now limits diag =
     (let (kept, diag1) = clip_loop [] attributes (event_attribute_count_limit limits)
            (attribute_value_length_limit limits) diag;
          ev = \<lparr>ev_name = name, ev_timestamp = (if timestamp = 0 then now else timestamp),
                ev_attributes = kept\<rparr>
      in (ev, if length attributes > length kept
              then count_drop EventAttributeLimit (length attributes - length kept) diag1
              else diag1))"

definition BuildLink ::
    "SpanContext \<Rightarrow> KeyValue list \<Rightarrow> SpanLimitOptions \<Rightarrow> sink \<Rightarrow> SpanLink \<times> sink" where
  "BuildLink linked_context attributes limits diag =
     (let (kept, diag1) = clip_loop [] attributes (link_attribute_count_limit limits)
            (attribute_value_length_limit limits) diag;
          lk = \<lparr>lk_context = linked_context, lk_attributes = kept\<rparr>
      in (lk, if length attributes > length kept
              then count_drop LinkAttributeLimit (length attributes - length kept) diag1
              else diag1))"

definition SdkSpan_new ::
    "SpanContext \<Rightarrow> SpanContext \<Rightarrow> string \<Rightarrow> SpanKind \<Rightarrow> int \<Rightarrow> int \<Rightarrow> InstrumentationScope \<Rightarrow>
     SpanLimitOptions \<Rightarrow> SdkSpan" where
  "SdkSpan_new context parent_context name kind start_time now scope limits =
     \<lparr>m_scope = scope, m_limits = limits,
      m_record = SpanRecord_default
        \<lparr>rec_context := context, rec_parent_context := parent_context, rec_name := name,
         rec_kind := kind, rec_start_time := (if start_time = 0 then now else start_time)\<rparr>,
      m_ended = False\<rparr>"

definition GetContext :: "SdkSpan \<Rightarrow> SpanContext" where
  "GetContext s = rec_context (m_record s)"

definition SetAttribute :: "string \<Rightarrow> AttributeValue \<Rightarrow> SdkSpan \<times> sink \<Rightarrow> SdkSpan \<times> sink" where
  "SetAttribute key val = (\<lambda>(s, diag).
     if m_ended s then (s, diag)
     else if length (rec_attributes (m_record s)) \<ge> attribute_count_limit (m_limits s)
     then (s, count_drop SpanAttributeLimit 1 diag)
     else
       let (v, truncated) = TruncateStrings val (attribute_value_length_limit (m_limits s));
           diag1 = (if truncated > 0 then count_drop AttributeValueTruncated truncated diag
                    else diag)
       in (s\<lparr>m_record := m_record s
              \<lparr>rec_attributes := rec_attributes (m_record s) @ [\<lparr>kv_key = key, kv_value = v\<rparr>]\<rparr>\<rparr>,
           diag1))"

definition AddEvent ::
    "string \<Rightarrow> KeyValue list \<Rightarrow> int \<Rightarrow> int \<Rightarrow> SdkSpan \<times> sink \<Rightarrow> SdkSpan \<times> sink" where
  "AddEvent name attributes timestamp now = (\<lambda>(s, diag).
     if m_ended s then (s, diag)
     else if length (rec_events (m_record s)) \<ge> event_count_limit (m_limits s)
     then (s, count_drop SpanEventLimit 1 diag)
     else
       let (ev, diag1) = BuildEvent name attributes timestamp now (m_limits s) diag
       in (s\<lparr>m_record := m_record s\<lparr>rec_events := rec_events (m_record s) @ [ev]\<rparr>\<rparr>, diag1))"

definition AddLink :: "SpanContext \<Rightarrow> KeyValue list \<Rightarrow> SdkSpan \<times> sink \<Rightarrow> SdkSpan \<times> sink" where
  "AddLink linked_context attributes = (\<lambda>(s, diag).
     if m_ended s then (s, diag)
     else if length (rec_links (m_record s)) \<ge> link_count_limit (m_limits s)
     then (s, count_drop SpanLinkLimit 1 diag)
     else
       let (lk, diag1) = BuildLink linked_context attributes (m_limits s) diag
       in (s\<lparr>m_record := m_record s\<lparr>rec_links := rec_links (m_record s) @ [lk]\<rparr>\<rparr>, diag1))"

definition SetStatus :: "StatusCode \<Rightarrow> string \<Rightarrow> SdkSpan \<times> sink \<Rightarrow> SdkSpan \<times> sink" where
  "SetStatus code description = (\<lambda>(s, diag).
     if m_ended s then (s, diag)
     else if code = Ok
     then (s\<lparr>m_record := m_record s\<lparr>rec_status_code := Ok, rec_status_description := []\<rparr>\<rparr>, diag)
     else if code = StatusCode.Error \<and> rec_status_code (m_record s) \<noteq> Ok
     then (s\<lparr>m_record := m_record s
              \<lparr>rec_status_code := StatusCode.Error, rec_status_description := description\<rparr>\<rparr>, diag)
     else (s, diag))"

definition UpdateName :: "string \<Rightarrow> SdkSpan \<times> sink \<Rightarrow> SdkSpan \<times> sink" where
  "UpdateName name = (\<lambda>(s, diag).
     if \<not> m_ended s then (s\<lparr>m_record := m_record s\<lparr>rec_name := name\<rparr>\<rparr>, diag) else (s, diag))"

text \<open>\<open>End\<close>: the exchange on \<open>m_ended\<close> lets only the first call through.\<close>

type_synonym 'p on_end = "SpanRecord \<Rightarrow> InstrumentationScope \<Rightarrow> 'p \<times> sink \<Rightarrow> SpanRecord \<times> 'p \<times> sink"

definition End ::
    "'p on_end \<Rightarrow> int \<Rightarrow> int \<Rightarrow> (SdkSpan \<times> sink) \<times> 'p \<Rightarrow> (SdkSpan \<times> sink) \<times> 'p" where
  "End on_end end_time now = (\<lambda>((s, diag), p).
     if m_ended s then ((s, diag), p)
     else
       let r = (m_record s)\<lparr>rec_end_time := (if end_time = 0 then now else end_time)\<rparr>;
           (left_over, p', diag') = on_end r (m_scope s) (p, diag)
       in ((s\<lparr>m_ended := True, m_record := left_over\<rparr>, diag'), p'))"

text \<open>
  What a record holds after it was moved from: the strings, vectors and shared pointers are
  empty, including the \<open>TraceState\<close> inside each span context; everything else is copied.
\<close>

definition moved_context :: "SpanContext \<Rightarrow> SpanContext" where
  "moved_context c = c\<lparr>trace_state := \<lparr>m_entries = None\<rparr>\<rparr>"

definition moved_from :: "SpanRecord \<Rightarrow> SpanRecord" where
  "moved_from r =
     r\<lparr>rec_context := moved_context (rec_context r),
       rec_parent_context := moved_context (rec_parent_context r),
       rec_name := [], rec_status_description := [], rec_attributes := [], rec_events := [],
       rec_links := [], rec_resource := None\<rparr>"

section \<open>Call sequences\<close>

datatype span_op =
    Op_SetAttribute string AttributeValue
  | Op_AddEvent string "KeyValue list" int int
  | Op_AddLink SpanContext "KeyValue list"
  | Op_SetStatus StatusCode string
  | Op_UpdateName string
  | Op_End int int

fun span_mutate :: "span_op \<Rightarrow> SdkSpan \<times> sink \<Rightarrow> SdkSpan \<times> sink" where
  "span_mutate (Op_SetAttribute key v) sd = SetAttribute key v sd"
| "span_mutate (Op_AddEvent name attrs t now) sd = AddEvent name attrs t now sd"
| "span_mutate (Op_AddLink c attrs) sd = AddLink c attrs sd"
| "span_mutate (Op_SetStatus code descr) sd = SetStatus code descr sd"
| "span_mutate (Op_UpdateName name) sd = UpdateName name sd"
| "span_mutate (Op_End t now) sd = sd"

fun span_call :: "'p on_end \<Rightarrow> (SdkSpan \<times> sink) \<times> 'p \<Rightarrow> span_op \<Rightarrow> (SdkSpan \<times> sink) \<times> 'p" where
  "span_call on_end (sd, p) (Op_End t now) = End on_end t now (sd, p)"
| "span_call on_end (sd, p) oper = (span_mutate oper sd, p)"

definition span_run ::
    "'p on_end \<Rightarrow> span_op list \<Rightarrow> (SdkSpan \<times> sink) \<times> 'p \<Rightarrow> (SdkSpan \<times> sink) \<times> 'p" where
  "span_run on_end ops st = foldl (span_call on_end) st ops"

text \<open>A span's whole life: the calls, then the destructor, which ends the span.\<close>

definition span_life ::
    "'p on_end \<Rightarrow> span_op list \<Rightarrow> int \<Rightarrow> (SdkSpan \<times> sink) \<times> 'p \<Rightarrow> (SdkSpan \<times> sink) \<times> 'p" where
  "span_life on_end ops now st = End on_end 0 now (span_run on_end ops st)"

section \<open>The limits along a call sequence\<close>

lemma limited_append:
  "limited n limit (kvs @ [kv]) =
     (if length kvs < n then limited n limit kvs @ [kv_value_update (clip_value limit) kv]
      else limited n limit kvs)"
  by (auto simp: limited_def clip_attrs_def take_Cons')

lemma length_limited [simp]: "length (limited n limit kvs) = min n (length kvs)"
  by (simp add: limited_def clip_attrs_def min.commute)

lemma too_long_append: "too_long limit (xs @ ys) = too_long limit xs + too_long limit ys"
  by (simp add: too_long_def)

lemma too_long_Nil [simp]: "too_long limit [] = 0"
  by (simp add: too_long_def)

lemma too_long_one:
  "too_long limit [kv] = length (filter (\<lambda>s. limit < length s) (value_texts (kv_value kv)))"
  by (simp add: too_long_def)

lemma ClipAttribute_eq:
  "ClipAttribute kv limit diag =
     (kv_value_update (clip_value limit) kv,
      count_drop AttributeValueTruncated (too_long limit [kv]) diag)"
  by (cases kv) (auto simp: ClipAttribute_def TruncateStrings_eq too_long_one Let_def)

lemma clip_loop_eq:
  "clip_loop acc kvs n limit diag =
     (acc @ limited (n - length acc) limit kvs,
      count_drop AttributeValueTruncated (too_long limit (take (n - length acc) kvs)) diag)"
proof (induction kvs arbitrary: acc diag)
  case Nil
  then show ?case by (simp add: limited_def clip_attrs_def too_long_def)
next
  case (Cons kv kvs)
  have t: "take (n - length acc) (kv # kvs) =
      (if length acc \<ge> n then [] else kv # take (n - Suc (length acc)) kvs)"
    by (simp add: take_Cons' Suc_diff_Suc)
  show ?case
    using too_long_append [of limit "[kv]" "take (n - Suc (length acc)) kvs"]
    by (simp add: Cons.IH ClipAttribute_eq t limited_def clip_attrs_def count_drop_add
        too_long_def [of _ "[]"])
qed

text \<open>The same calls on an unbounded record: everything is appended as given.\<close>

fun spec_mutate :: "SpanRecord \<Rightarrow> span_op \<Rightarrow> SpanRecord" where
  "spec_mutate r (Op_SetAttribute key v) =
     r\<lparr>rec_attributes := rec_attributes r @ [\<lparr>kv_key = key, kv_value = v\<rparr>]\<rparr>"
| "spec_mutate r (Op_AddEvent name attrs t now) =
     r\<lparr>rec_events := rec_events r @
         [\<lparr>ev_name = name, ev_timestamp = (if t = 0 then now else t), ev_attributes = attrs\<rparr>]\<rparr>"
| "spec_mutate r (Op_AddLink c attrs) =
     r\<lparr>rec_links := rec_links r @ [\<lparr>lk_context = c, lk_attributes = attrs\<rparr>]\<rparr>"
| "spec_mutate r (Op_SetStatus code descr) =
     (if code = Ok then r\<lparr>rec_status_code := Ok, rec_status_description := []\<rparr>
      else if code = StatusCode.Error \<and> rec_status_code r \<noteq> Ok
      then r\<lparr>rec_status_code := StatusCode.Error, rec_status_description := descr\<rparr>
      else r)"
| "spec_mutate r (Op_UpdateName name) = r\<lparr>rec_name := name\<rparr>"
| "spec_mutate r (Op_End t now) = r"

definition limit_record :: "SpanLimitOptions \<Rightarrow> SpanRecord \<Rightarrow> SpanRecord" where
  "limit_record limits r = fst (ApplySpanLimits r limits None)"

lemma limit_record_fields:
  "rec_attributes (limit_record limits r) =
     limited (attribute_count_limit limits) (attribute_value_length_limit limits) (rec_attributes r)"
  "rec_events (limit_record limits r) =
     map (ev_attributes_update
       (limited (event_attribute_count_limit limits) (attribute_value_length_limit limits)))
       (take (event_count_limit limits) (rec_events r))"
  "rec_links (limit_record limits r) =
     map (lk_attributes_update
       (limited (link_attribute_count_limit limits) (attribute_value_length_limit limits)))
       (take (link_count_limit limits) (rec_links r))"
  "rec_status_code (limit_record limits r) = rec_status_code r"
  by (simp_all add: limit_record_def ApplySpanLimits_record)

lemma take_snoc: "take n (xs @ [x]) = (if length xs < n then take n xs @ [x] else take n xs)"
  by (simp add: take_Cons')

lemma SetAttribute_live:
  "\<not> m_ended s \<Longrightarrow> SetAttribute key v (s, diag) =
     (let kv = \<lparr>kv_key = key, kv_value = v\<rparr>; limit = attribute_value_length_limit (m_limits s)
      in if length (rec_attributes (m_record s)) \<ge> attribute_count_limit (m_limits s)
         then (s, count_drop SpanAttributeLimit 1 diag)
         else (s\<lparr>m_record := m_record s\<lparr>rec_attributes :=
                   rec_attributes (m_record s) @ [kv_value_update (clip_value limit) kv]\<rparr>\<rparr>,
               count_drop AttributeValueTruncated (too_long limit [kv]) diag))"
  by (auto simp: SetAttribute_def Let_def TruncateStrings_eq too_long_one)

lemma BuildEvent_eq:
  "BuildEvent name attrs t now limits diag =
     (let n = event_attribute_count_limit limits; limit = attribute_value_length_limit limits
      in (\<lparr>ev_name = name, ev_timestamp = (if t = 0 then now else t),
           ev_attributes = limited n limit attrs\<rparr>,
          count_drop EventAttributeLimit (length attrs - n)
            (count_drop AttributeValueTruncated (too_long limit (take n attrs)) diag)))"
  by (auto simp: BuildEvent_def Let_def clip_loop_eq min_def)

lemma BuildLink_eq:
  "BuildLink c attrs limits diag =
     (let n = link_attribute_count_limit limits; limit = attribute_value_length_limit limits
      in (\<lparr>lk_context = c, lk_attributes = limited n limit attrs\<rparr>,
          count_drop LinkAttributeLimit (length attrs - n)
            (count_drop AttributeValueTruncated (too_long limit (take n attrs)) diag)))"
  by (auto simp: BuildLink_def Let_def clip_loop_eq min_def)

lemmas live_mutate = SetAttribute_live AddEvent_def AddLink_def SetStatus_def UpdateName_def
  BuildEvent_eq BuildLink_eq Let_def

lemma mutate_keeps:
  assumes "span_mutate oper (s, diag) = (s', diag')"
  shows "m_limits s' = m_limits s" "m_ended s' = m_ended s" "m_scope s' = m_scope s"
    "diag' = None \<longleftrightarrow> diag = None"
  using assms
  by (cases oper; auto simp: SetAttribute_def AddEvent_def AddLink_def SetStatus_def UpdateName_def
      BuildEvent_eq BuildLink_eq Let_def split: if_splits prod.splits)+

lemma ended_mutate: "m_ended s \<Longrightarrow> span_mutate oper (s, diag) = (s, diag)"
  by (cases oper) (simp_all add: SetAttribute_def AddEvent_def AddLink_def SetStatus_def UpdateName_def)

text \<open>One call on a live span is the unbounded call followed by the limits.\<close>

lemma mutate_record:
  assumes "\<not> m_ended s" "m_record s = limit_record (m_limits s) r"
  shows "m_record (fst (span_mutate oper (s, diag))) = limit_record (m_limits s) (spec_mutate r oper)"
  using assms
  by (cases oper)
    (auto simp: live_mutate limit_record_fields take_snoc limited_append limit_record_def
      ApplySpanLimits_record)

lemma mutate_drops:
  assumes "\<not> m_ended s" "m_record s = limit_record (m_limits s) r" "diag \<noteq> None"
  shows "drops (snd (span_mutate oper (s, diag))) reason +
      of_nat (limit_losses (m_limits s) r reason) =
    drops diag reason + of_nat (limit_losses (m_limits s) (spec_mutate r oper) reason)"
  using assms
  by (cases oper; cases reason)
    (auto simp: live_mutate limit_record_fields take_snoc limited_append drops_count_drop
      too_long_append Suc_diff_le)

definition span_mutates :: "span_op list \<Rightarrow> SdkSpan \<times> sink \<Rightarrow> SdkSpan \<times> sink" where
  "span_mutates ops sd = foldl (\<lambda>sd oper. span_mutate oper sd) sd ops"

definition spec_record :: "SpanRecord \<Rightarrow> span_op list \<Rightarrow> SpanRecord" where
  "spec_record r ops = foldl spec_mutate r ops"

lemma span_mutates_snoc: "span_mutates (ops @ [oper]) sd = span_mutate oper (span_mutates ops sd)"
  by (simp add: span_mutates_def)

lemma spec_record_snoc: "spec_record r (ops @ [oper]) = spec_mutate (spec_record r ops) oper"
  by (simp add: spec_record_def)

lemma mutates_keep:
  "span_mutates ops (s, diag) = (s', diag') \<Longrightarrow>
   m_limits s' = m_limits s \<and> m_ended s' = m_ended s \<and> m_scope s' = m_scope s \<and>
   (diag' = None \<longleftrightarrow> diag = None)"
proof (induction ops arbitrary: s' diag' rule: rev_induct)
  case (snoc oper ops)
  obtain s1 d1 where "span_mutates ops (s, diag) = (s1, d1)" by (cases "span_mutates ops (s, diag)")
  with snoc mutate_keeps [of oper s1 d1 s' diag'] show ?case by (simp add: span_mutates_snoc)
qed (simp add: span_mutates_def)

lemma ended_mutates: "m_ended s \<Longrightarrow> span_mutates ops (s, diag) = (s, diag)"
  by (induction ops rule: rev_induct) (simp_all add: span_mutates_snoc ended_mutate span_mutates_def)

lemma balance_trans:
  fixes a b c :: u64
  assumes "a + l1 = b + l2" "b + l0 = c + l1"
  shows "a + l0 = c + l2"
proof -
  have "a = b + l2 - l1" "b = c + l1 - l0" using assms by (simp_all add: eq_diff_eq)
  then show ?thesis by simp
qed

lemma mutates_refine:
  assumes "\<not> m_ended s" "m_record s = limit_record (m_limits s) r"
    and "span_mutates ops (s, diag) = (s', diag')"
  shows "m_record s' = limit_record (m_limits s) (spec_record r ops)"
    "diag \<noteq> None \<Longrightarrow> drops diag' reason + of_nat (limit_losses (m_limits s) r reason) =
      drops diag reason + of_nat (limit_losses (m_limits s) (spec_record r ops) reason)"
  using assms(3)
proof (induction ops arbitrary: s' diag' rule: rev_induct)
  case (snoc oper ops)
  obtain s1 d1 where st: "span_mutates ops (s, diag) = (s1, d1)" by (cases "span_mutates ops (s, diag)")
  note keep = mutates_keep [OF st]
  { case 1
    then show ?case
      using mutate_record [of s1 "spec_record r ops" oper d1] snoc.IH(1) [OF st] keep assms(1) st
      by (simp add: span_mutates_snoc spec_record_snoc)
  next
    case 2
    then show ?case
      using balance_trans [OF mutate_drops [of s1 "spec_record r ops" d1 oper reason]]
        snoc.IH(1) [OF st] snoc.IH(2) [OF _ st] keep assms(1) st
      by (simp add: span_mutates_snoc spec_record_snoc)
  }
qed (use assms(2) in \<open>simp_all add: span_mutates_def spec_record_def\<close>)

text \<open>
  C5: recording with limits is recording without limits, limited afterwards. Whatever calls a
  freshly started span receives, the record it holds is the one \<open>ApplySpanLimits\<close> makes of the
  record that keeps everything, and a present sink is charged for exactly the attributes, events,
  links and strings that this removes.
\<close>

theorem sdk_span_refines_limits:
  assumes "span_mutates ops (SdkSpan_new ctx parent name kind t now scope limits, diag) = (s, diag')"
  shows "m_record s =
      fst (ApplySpanLimits
        (spec_record (m_record (SdkSpan_new ctx parent name kind t now scope limits)) ops) limits None) \<and>
    (diag \<noteq> None \<longrightarrow> drops diag' reason = drops diag reason + of_nat (limit_losses limits
        (spec_record (m_record (SdkSpan_new ctx parent name kind t now scope limits)) ops) reason))"
proof -
  let ?s = "SdkSpan_new ctx parent name kind t now scope limits"
  have new: "\<not> m_ended ?s" "m_limits ?s = limits" by (simp_all add: SdkSpan_new_def)
  have "m_record ?s = limit_record (m_limits ?s) (m_record ?s)"
    by (simp add: SdkSpan_new_def limit_record_def ApplySpanLimits_record SpanRecord_default_def
        limited_def clip_attrs_def)
  note refine = mutates_refine [OF new(1) this assms, unfolded new]
  have "limit_losses limits (m_record ?s) reason = 0"
    by (cases reason) (simp_all add: SdkSpan_new_def SpanRecord_default_def)
  with refine(1) refine(2) [of reason] show ?thesis by (simp add: limit_record_def)
qed

definition sample_span :: "SpanLimitOptions \<Rightarrow> SdkSpan" where
  "sample_span limits =
     SdkSpan_new SpanContext_default SpanContext_default ''op'' Internal 0 7
       \<lparr>scope_name = ''lib'', scope_version = ''1''\<rparr> limits"

theorem sdk_span_refines_limits_witness:
  "let limits = SpanLimitOptions_default\<lparr>attribute_count_limit := 1\<rparr>;
       ops = [Op_SetAttribute ''a'' (AV_bool True), Op_SetAttribute ''b'' (AV_bool True)];
       (s, d) = span_mutates ops (sample_span limits, Some DiagnosticsCounters_init)
   in length (rec_attributes (m_record s)) = 1 \<and> drops d SpanAttributeLimit = 1"
proof -
  let ?limits = "SpanLimitOptions_default\<lparr>attribute_count_limit := 1\<rparr>"
  let ?ops = "[Op_SetAttribute ''a'' (AV_bool True), Op_SetAttribute ''b'' (AV_bool True)]"
  obtain s d where sd: "span_mutates ?ops (sample_span ?limits, Some DiagnosticsCounters_init) = (s, d)"
    by fastforce
  from sdk_span_refines_limits [OF sd [unfolded sample_span_def], of SpanAttributeLimit]
  have "length (rec_attributes (m_record s)) = 1 \<and> drops d SpanAttributeLimit = 1"
    by (simp add: ApplySpanLimits_record spec_record_def SdkSpan_new_def SpanRecord_default_def
        drops_init)
  with sd show ?thesis by (simp add: Let_def)
qed

section \<open>Status precedence\<close>

definition sets_ok :: "span_op list \<Rightarrow> bool" where
  "sets_ok ops \<longleftrightarrow> (\<exists>oper \<in> set ops. case oper of Op_SetStatus code _ \<Rightarrow> code = Ok | _ \<Rightarrow> False)"

fun error_descriptions :: "span_op list \<Rightarrow> string list" where
  "error_descriptions [] = []"
| "error_descriptions (Op_SetStatus StatusCode.Error descr # ops) = descr # error_descriptions ops"
| "error_descriptions (oper # ops) = error_descriptions ops"

definition final_status :: "span_op list \<Rightarrow> StatusCode \<times> string" where
  "final_status ops =
     (if sets_ok ops then (Ok, [])
      else if error_descriptions ops = [] then (Unset, [])
      else (StatusCode.Error, last (error_descriptions ops)))"

lemma error_descriptions_append:
  "error_descriptions (xs @ ys) = error_descriptions xs @ error_descriptions ys"
  by (induction xs rule: error_descriptions.induct) simp_all

lemma sets_ok_snoc:
  "sets_ok (ops @ [oper]) \<longleftrightarrow>
     sets_ok ops \<or> (case oper of Op_SetStatus code _ \<Rightarrow> code = Ok | _ \<Rightarrow> False)"
  by (auto simp: sets_ok_def)

lemma spec_status:
  assumes "rec_status_code r = Unset" "rec_status_description r = []"
  shows "(rec_status_code (spec_record r ops), rec_status_description (spec_record r ops)) =
    final_status ops"
proof (induction ops rule: rev_induct)
  case Nil
  then show ?case using assms by (simp add: spec_record_def final_status_def sets_ok_def)
next
  case (snoc oper ops)
  show ?case
  proof (cases oper)
    case (Op_SetStatus code descr)
    with snoc show ?thesis
      by (cases code)
        (auto simp: spec_record_snoc final_status_def sets_ok_snoc error_descriptions_append
          split: if_splits)
  qed (use snoc in \<open>simp_all add: spec_record_snoc final_status_def sets_ok_snoc
      error_descriptions_append\<close>)
qed

lemma limit_record_status [simp]:
  "rec_status_description (limit_record limits r) = rec_status_description r"
  by (simp add: limit_record_def ApplySpanLimits_record)

text \<open>
  The status a span ends up with. After any calls on a freshly started span, the status is
  \<open>Ok\<close> with no description if any call set \<open>Ok\<close>; otherwise \<open>Error\<close> with the description of the
  last call that set \<open>Error\<close>; otherwise \<open>Unset\<close>.
\<close>

theorem sdk_span_status:
  assumes "span_mutates ops (SdkSpan_new ctx parent name kind t now scope limits, diag) = (s, diag')"
  shows "(rec_status_code (m_record s), rec_status_description (m_record s)) = final_status ops"
proof -
  let ?s = "SdkSpan_new ctx parent name kind t now scope limits"
  have new: "\<not> m_ended ?s" "m_limits ?s = limits"
    "rec_status_code (m_record ?s) = Unset" "rec_status_description (m_record ?s) = []"
    by (simp_all add: SdkSpan_new_def SpanRecord_default_def)
  have "m_record ?s = limit_record (m_limits ?s) (m_record ?s)"
    by (simp add: SdkSpan_new_def limit_record_def ApplySpanLimits_record SpanRecord_default_def
        limited_def clip_attrs_def)
  from mutates_refine(1) [OF new(1) this assms] spec_status [OF new(3,4), of ops]
  show ?thesis by (simp add: limit_record_fields)
qed

theorem sdk_span_status_witness:
  "let ops = [Op_SetStatus StatusCode.Error ''x'', Op_SetStatus Ok ''y'', Op_SetStatus StatusCode.Error ''z''];
       r = m_record (fst (span_mutates ops (sample_span SpanLimitOptions_default, None)))
   in (rec_status_code r, rec_status_description r) = (Ok, [])"
proof -
  let ?ops = "[Op_SetStatus StatusCode.Error ''x'', Op_SetStatus Ok ''y'', Op_SetStatus StatusCode.Error ''z'']"
  obtain s d where sd: "span_mutates ?ops (sample_span SpanLimitOptions_default, None) = (s, d)"
    by fastforce
  from sdk_span_status [OF sd [unfolded sample_span_def]] sd show ?thesis
    by (simp add: final_status_def sets_ok_def)
qed

section \<open>Ending\<close>

fun is_End :: "span_op \<Rightarrow> bool" where
  "is_End (Op_End t now) = True"
| "is_End oper = False"

definition before_end :: "span_op list \<Rightarrow> span_op list" where
  "before_end ops = takeWhile (\<lambda>oper. \<not> is_End oper) ops"

text \<open>The end time the first \<open>End\<close> sets, the destructor's at the clock reading \<open>last\<close> if none.\<close>

fun end_time_of :: "span_op list \<Rightarrow> int \<Rightarrow> int" where
  "end_time_of [] final = final"
| "end_time_of (Op_End t now # ops) final = (if t = 0 then now else t)"
| "end_time_of (oper # ops) final = end_time_of ops final"

lemma span_call_mutate: "\<not> is_End oper \<Longrightarrow> span_call on_end (sd, p) oper = (span_mutate oper sd, p)"
  by (cases oper) auto

lemma span_call_ended: "m_ended s \<Longrightarrow> span_call on_end ((s, diag), p) oper = ((s, diag), p)"
  using ended_mutate [of s oper diag] by (cases oper) (auto simp: End_def)

lemma span_run_ended: "m_ended s \<Longrightarrow> span_run on_end ops ((s, diag), p) = ((s, diag), p)"
  by (induction ops) (simp_all add: span_run_def span_call_ended)

lemma span_run_Cons: "span_run on_end (oper # ops) st = span_run on_end ops (span_call on_end st oper)"
  by (simp add: span_run_def)

lemma End_ended: "m_ended s \<Longrightarrow> End on_end t now ((s, diag), p) = ((s, diag), p)"
  by (simp add: End_def)

lemma End_ends: "m_ended (fst (fst (End on_end t now sdp)))"
  by (auto simp: End_def Let_def split: prod.splits)

text \<open>\<open>finish\<close>: hand the record over, once, with the given end time.\<close>

definition finish :: "'p on_end \<Rightarrow> int \<Rightarrow> (SdkSpan \<times> sink) \<times> 'p \<Rightarrow> (SdkSpan \<times> sink) \<times> 'p" where
  "finish on_end end_time = (\<lambda>((s, diag), p).
     case on_end ((m_record s)\<lparr>rec_end_time := end_time\<rparr>) (m_scope s) (p, diag) of
       (left_over, p', diag') \<Rightarrow> ((s\<lparr>m_ended := True, m_record := left_over\<rparr>, diag'), p'))"

lemma End_live:
  "\<not> m_ended s \<Longrightarrow>
   End on_end t now ((s, diag), p) = finish on_end (if t = 0 then now else t) ((s, diag), p)"
  by (simp add: End_def finish_def)

lemma span_life_live:
  "\<not> m_ended s \<Longrightarrow> span_life on_end ops final ((s, diag), p) =
     finish on_end (end_time_of ops final) (span_mutates (before_end ops) (s, diag), p)"
proof (induction ops arbitrary: s diag)
  case Nil
  then show ?case by (simp add: span_life_def span_run_def span_mutates_def before_end_def End_live)
next
  case (Cons oper ops)
  show ?case
  proof (cases "is_End oper")
    case True
    then obtain t now where oper: "oper = Op_End t now" by (cases oper) auto
    obtain s' d' p' where e: "End on_end t now ((s, diag), p) = ((s', d'), p')"
      by (metis surj_pair)
    then have "m_ended s'" using End_ends [of on_end t now "((s, diag), p)"] by simp
    then have "span_life on_end (oper # ops) final ((s, diag), p) = ((s', d'), p')"
      by (simp add: span_life_def span_run_Cons oper e span_run_ended End_ended)
    with e Cons.prems oper show ?thesis by (simp add: End_live before_end_def span_mutates_def)
  next
    case False
    obtain s' d' where m: "span_mutate oper (s, diag) = (s', d')" by fastforce
    then have "\<not> m_ended s'" using mutate_keeps(2) [OF m] Cons.prems by simp
    from Cons.IH [OF this, of d'] False m show ?thesis
      by (cases oper) (simp_all add: span_life_def span_run_Cons span_mutates_def before_end_def)
  qed
qed

text \<open>
  C6: a span delivers exactly one record. From a live span, any sequence of calls with any number
  of \<open>End\<close>s, followed by the destructor, amounts to the calls before the first \<open>End\<close> and then one
  hand-over of the record to the processor, with the scope of the tracer and the end time of that
  \<open>End\<close> (the destructor's clock if there was none); every later call is without effect on the
  span, the processor and the counters.
\<close>

theorem sdk_span_single_delivery:
  assumes "\<not> m_ended s"
  shows "span_life on_end ops final ((s, diag), p) =
    finish on_end (end_time_of ops final) (span_mutates (before_end ops) (s, diag), p)"
  using assms by (rule span_life_live)

text \<open>A processor that keeps what it is handed.\<close>

definition collect_on_end :: "(SpanRecord \<times> InstrumentationScope) list on_end" where
  "collect_on_end r scope = (\<lambda>(p, diag). (moved_from r, p @ [(r, scope)], diag))"

theorem sdk_span_single_delivery_witness:
  "length (snd (span_life collect_on_end
     [Op_UpdateName ''a'', Op_End 5 9, Op_UpdateName ''b'', Op_End 6 9] 9
     ((sample_span SpanLimitOptions_default, None), []))) = 1"
proof -
  have "\<not> m_ended (sample_span SpanLimitOptions_default)"
    by (simp add: sample_span_def SdkSpan_new_def)
  from sdk_span_single_delivery [OF this, of collect_on_end
      "[Op_UpdateName ''a'', Op_End 5 9, Op_UpdateName ''b'', Op_End 6 9]" 9 None "[]"]
  show ?thesis by (simp add: finish_def collect_on_end_def split: prod.splits)
qed

section \<open>The processor interface\<close>

text \<open>
  What a span relies on after it has handed its record over: the identity in the record it keeps
  is still its own. Both processors are shown to satisfy this where they are modelled.
\<close>

definition same_identity :: "SpanContext \<Rightarrow> SpanContext \<Rightarrow> bool" where
  "same_identity c d \<longleftrightarrow> trace_id c = trace_id d \<and> span_id c = span_id d \<and>
     trace_flags c = trace_flags d \<and> remote c = remote d"

lemma same_identity_moved [simp]: "same_identity (moved_context c) c" "same_identity c c"
  by (simp_all add: same_identity_def moved_context_def)

locale span_processor =
  fixes on_end :: "'p on_end"
  assumes on_end_identity:
    "on_end r scope w = (left_over, w') \<Longrightarrow> same_identity (rec_context left_over) (rec_context r)"
begin

lemma End_identity:
  "same_identity (GetContext (fst (fst (End on_end t now ((s, diag), p))))) (GetContext s)"
proof (cases "m_ended s")
  case False
  let ?r = "(m_record s)\<lparr>rec_end_time := (if t = 0 then now else t)\<rparr>"
  obtain l w where h: "on_end ?r (m_scope s) (p, diag) = (l, w)" by (metis surj_pair)
  from on_end_identity [OF h] h False show ?thesis
    by (cases w) (simp add: End_live finish_def GetContext_def)
qed (simp add: End_ended)

lemma mutate_context: "GetContext (fst (span_mutate oper (s, diag))) = GetContext s"
  by (cases oper)
    (auto simp: GetContext_def SetAttribute_def AddEvent_def AddLink_def SetStatus_def
      UpdateName_def Let_def split: prod.splits)

lemma call_identity:
  "same_identity (GetContext (fst (fst (span_call on_end ((s, diag), p) oper)))) (GetContext s)"
proof (cases "is_End oper")
  case True
  then show ?thesis by (cases oper) (simp_all add: End_identity)
next
  case False
  then show ?thesis by (simp add: span_call_mutate mutate_context)
qed

lemma run_identity:
  "same_identity (GetContext (fst (fst (span_run on_end ops ((s, diag), p))))) (GetContext s)"
proof (induction ops arbitrary: s diag p)
  case (Cons oper ops)
  obtain s' d' p' where c: "span_call on_end ((s, diag), p) oper = ((s', d'), p')"
    by (metis surj_pair)
  from Cons [of s' d' p'] call_identity [of s diag p oper] c show ?case
    by (simp add: span_run_Cons same_identity_def)
qed (simp add: span_run_def)

lemma live_context:
  assumes "\<forall>oper \<in> set ops. \<not> is_End oper"
  shows "GetContext (fst (fst (span_run on_end ops ((s, diag), p)))) = GetContext s"
  using assms
proof (induction ops arbitrary: s diag p)
  case (Cons oper ops)
  obtain s' d' where m: "span_mutate oper (s, diag) = (s', d')" by fastforce
  with Cons mutate_context [of oper s diag] show ?case
    by (simp add: span_run_Cons span_call_mutate)
qed (simp add: span_run_def)

end

end
