(* ===== verification/Sdk_Tracer.thy ===== *)
theory Sdk_Tracer
  imports Sampler Sdk_Span
begin

text \<open>
  Span creation (\<open>src/sdk/sdk_tracer.cpp\<close>). The per-thread random engine is a generator state with
  the function \<open>next_random\<close>; the thread's context slot, the wall clock and the diagnostics sink
  are passed explicitly. Allocation succeeds, so a recorded span is always a real one. A handle is
  either the no-op singleton of \<open>src/sdk/noop_span.cpp\<close>, whose methods do nothing and whose context
  is invalid, or a recording span. \<open>OnStart\<close> is a no-op in both processors; the context it is
  given is part of the result.

  Proved here: identity and parentage of a new span, that start-time attributes obey the span
  limits, and that spans started inside one another stay in one trace, sampled or not.
\<close>

section \<open>Identifiers\<close>

text \<open>\<open>memcpy\<close> of a 64-bit value on a little-endian machine.\<close>

definition bytes_of_u64 :: "u64 \<Rightarrow> u8 list" where
  "bytes_of_u64 v = map (\<lambda>i. ucast (drop_bit (8 * i) v)) [0..<8]"

type_synonym 'g rng = "'g \<Rightarrow> u64 \<times> 'g"

definition GenerateSpanId :: "'g rng \<Rightarrow> 'g \<Rightarrow> SpanId \<times> 'g" where
  "GenerateSpanId next_random g =
     (let (v, g') = next_random g in (\<lparr>sid_bytes = bytes_of_u64 v\<rparr>, g'))"

definition GenerateTraceId :: "'g rng \<Rightarrow> 'g \<Rightarrow> TraceId \<times> 'g" where
  "GenerateTraceId next_random g =
     (let (hi, g1) = next_random g; (lo, g2) = next_random g1
      in (\<lparr>tid_bytes = bytes_of_u64 hi @ bytes_of_u64 lo\<rparr>, g2))"

section \<open>Starting a span\<close>

record StartSpanOptions =
  opt_kind :: SpanKind
  opt_parent :: "SpanContext option"
  opt_start_time :: int
  opt_attributes :: "KeyValue list"

record SdkTracer =
  t_sampler :: sampler
  t_scope :: InstrumentationScope
  t_limits :: SpanLimitOptions

datatype span_handle = Noop_Handle | Sdk_Handle SdkSpan

definition handle_context :: "span_handle \<Rightarrow> SpanContext" where
  "handle_context h = (case h of Noop_Handle \<Rightarrow> SpanContext_default | Sdk_Handle s \<Rightarrow> GetContext s)"

fun SeedAttributes :: "KeyValue list \<Rightarrow> SdkSpan \<times> sink \<Rightarrow> SdkSpan \<times> sink" where
  "SeedAttributes [] sd = sd"
| "SeedAttributes (kv # kvs) sd = SeedAttributes kvs (SetAttribute (kv_key kv) (kv_value kv) sd)"

definition ResolveTraceState :: "SamplingResult \<Rightarrow> SpanContext \<Rightarrow> TraceState" where
  "ResolveTraceState result parent =
     (case sr_trace_state result of
        Some ts \<Rightarrow> ts
      | None \<Rightarrow> if SpanContext_IsValid parent then trace_state parent else \<lparr>m_entries = None\<rparr>)"

record 'g start_result =
  sr_handle :: span_handle
  sr_started :: SpanContext
  sr_on_start :: "Context option"
  sr_diag :: sink
  sr_rng :: 'g

definition StartSpanInternal ::
    "'g rng \<Rightarrow> SdkTracer \<Rightarrow> string \<Rightarrow> StartSpanOptions \<Rightarrow> Context \<Rightarrow> int \<Rightarrow> sink \<Rightarrow> 'g \<Rightarrow> 'g start_result" where
  "StartSpanInternal next_random tracer name opts current now diag g =
     (let parent_ctx = (case opt_parent opts of Some p \<Rightarrow> p
                        | None \<Rightarrow> active_span_context (CurrentContext current));
          (tid, g1) = (if SpanContext_IsValid parent_ctx then (trace_id parent_ctx, g)
                       else GenerateTraceId next_random g);
          (sid, g2) = GenerateSpanId next_random g1;
          sctx = \<lparr>sc_parent = parent_ctx, sc_span_kind = opt_kind opts, sc_span_name = name,
                  sc_initial_attributes = opt_attributes opts, sc_links = [], sc_trace_id = tid\<rparr>;
          result = ShouldSample (t_sampler tracer) sctx;
          sampled = (sr_decision result = RecordAndSample);
          ctx = \<lparr>trace_id = tid, span_id = sid,
                 trace_flags = \<lparr>flag_bits = (if sampled then kSampled else 0)\<rparr>,
                 trace_state = ResolveTraceState result parent_ctx, remote = False\<rparr>
      in if sr_decision result = Drop
         then \<lparr>sr_handle = Noop_Handle, sr_started = ctx, sr_on_start = None, sr_diag = diag,
               sr_rng = g2\<rparr>
         else
           let raw = SdkSpan_new ctx parent_ctx name (opt_kind opts) (opt_start_time opts) now
                       (t_scope tracer) (t_limits tracer);
               (s1, diag1) = SeedAttributes (opt_attributes opts) (raw, diag);
               (s2, diag2) = SeedAttributes (sr_additional_attributes result) (s1, diag1)
           in \<lparr>sr_handle = Sdk_Handle s2, sr_started = ctx,
               sr_on_start = Some \<lparr>active_span_context = parent_ctx,
                                   baggage = baggage (CurrentContext current)\<rparr>,
               sr_diag = diag2, sr_rng = g2\<rparr>)"

definition StartSpan ::
    "'g rng \<Rightarrow> SdkTracer \<Rightarrow> string \<Rightarrow> StartSpanOptions \<Rightarrow> Context \<Rightarrow> int \<Rightarrow> sink \<Rightarrow> 'g \<Rightarrow>
     span_handle \<times> sink \<times> 'g" where
  "StartSpan next_random tracer name opts current now diag g =
     (let r = StartSpanInternal next_random tracer name opts current now diag g
      in (sr_handle r, sr_diag r, sr_rng r))"

text \<open>\<open>StartAsCurrentSpan\<close> also installs the started context: the scope and the new slot.\<close>

definition StartAsCurrentSpan ::
    "'g rng \<Rightarrow> SdkTracer \<Rightarrow> string \<Rightarrow> StartSpanOptions \<Rightarrow> Context \<Rightarrow> int \<Rightarrow> sink \<Rightarrow> 'g \<Rightarrow>
     (span_handle \<times> ScopedContext) \<times> Context \<times> sink \<times> 'g" where
  "StartAsCurrentSpan next_random tracer name opts current now diag g =
     (let r = StartSpanInternal next_random tracer name opts current now diag g;
          (scope, current') = ScopedContext_install
            \<lparr>active_span_context = sr_started r, baggage = baggage (CurrentContext current)\<rparr> current
      in ((sr_handle r, scope), current', sr_diag r, sr_rng r))"

section \<open>Start-time attributes\<close>

lemma SeedAttributes_mutates:
  "SeedAttributes kvs sd = span_mutates (map (\<lambda>kv. Op_SetAttribute (kv_key kv) (kv_value kv)) kvs) sd"
  by (induction kvs arbitrary: sd) (simp_all add: span_mutates_def)

lemma span_mutates_append: "span_mutates ys (span_mutates xs sd) = span_mutates (xs @ ys) sd"
  by (simp add: span_mutates_def)

lemma spec_record_seed:
  "spec_record r (map (\<lambda>kv. Op_SetAttribute (kv_key kv) (kv_value kv)) kvs) =
     r\<lparr>rec_attributes := rec_attributes r @ kvs\<rparr>"
proof (induction kvs rule: rev_induct)
  case (snoc kv kvs)
  then show ?case by (cases kv) (simp add: spec_record_snoc)
qed (simp add: spec_record_def)

lemma SdkSpan_new_facts:
  "\<not> m_ended (SdkSpan_new c p n k t now sc l)" "m_limits (SdkSpan_new c p n k t now sc l) = l"
  "m_record (SdkSpan_new c p n k t now sc l) =
     limit_record (m_limits (SdkSpan_new c p n k t now sc l)) (m_record (SdkSpan_new c p n k t now sc l))"
  by (simp_all add: SdkSpan_new_def limit_record_def ApplySpanLimits_record SpanRecord_default_def
      limited_def clip_attrs_def)

lemma seeded_record:
  assumes "SeedAttributes ys (SeedAttributes xs (SdkSpan_new c p n k t now sc l, diag)) = (s, diag')"
  shows "m_record s = limit_record l
    ((m_record (SdkSpan_new c p n k t now sc l))\<lparr>rec_attributes := xs @ ys\<rparr>)"
proof -
  let ?s = "SdkSpan_new c p n k t now sc l"
  let ?ops = "map (\<lambda>kv. Op_SetAttribute (kv_key kv) (kv_value kv)) (xs @ ys)"
  have "span_mutates ?ops (?s, diag) = (s, diag')"
    using assms by (simp add: SeedAttributes_mutates span_mutates_append)
  from mutates_refine(1) [OF SdkSpan_new_facts(1,3) this]
  have "m_record s = limit_record l (spec_record (m_record ?s) ?ops)"
    by (simp add: SdkSpan_new_facts(2))
  moreover have "rec_attributes (m_record ?s) = []" by (simp add: SdkSpan_new_def SpanRecord_default_def)
  ultimately show ?thesis by (simp only: spec_record_seed append_Nil)
qed

definition resolved_parent :: "StartSpanOptions \<Rightarrow> Context \<Rightarrow> SpanContext" where
  "resolved_parent opts current =
     (case opt_parent opts of Some p \<Rightarrow> p
      | None \<Rightarrow> active_span_context (CurrentContext current))"

definition sampling_result ::
    "SdkTracer \<Rightarrow> string \<Rightarrow> StartSpanOptions \<Rightarrow> SpanContext \<Rightarrow> TraceId \<Rightarrow> SamplingResult" where
  "sampling_result tracer name opts parent tid =
     ShouldSample (t_sampler tracer)
       \<lparr>sc_parent = parent, sc_span_kind = opt_kind opts, sc_span_name = name,
        sc_initial_attributes = opt_attributes opts, sc_links = [], sc_trace_id = tid\<rparr>"

definition started_context ::
    "'g rng \<Rightarrow> SdkTracer \<Rightarrow> string \<Rightarrow> StartSpanOptions \<Rightarrow> Context \<Rightarrow> 'g \<Rightarrow> SpanContext" where
  "started_context next_random tracer name opts current g =
     (let parent = resolved_parent opts current;
          tid = (if SpanContext_IsValid parent then trace_id parent
                 else fst (GenerateTraceId next_random g));
          g1 = (if SpanContext_IsValid parent then g else snd (GenerateTraceId next_random g));
          result = sampling_result tracer name opts parent tid
      in \<lparr>trace_id = tid, span_id = fst (GenerateSpanId next_random g1),
          trace_flags =
            \<lparr>flag_bits = (if sr_decision result = RecordAndSample then kSampled else 0)\<rparr>,
          trace_state = ResolveTraceState result parent, remote = False\<rparr>)"

lemma StartSpanInternal_eq:
  "sr_started (StartSpanInternal next_random tracer name opts current now diag g) =
     started_context next_random tracer name opts current g"
  "sr_handle (StartSpanInternal next_random tracer name opts current now diag g) =
     (let parent = resolved_parent opts current;
          ctx = started_context next_random tracer name opts current g;
          result = sampling_result tracer name opts parent (trace_id ctx);
          raw = SdkSpan_new ctx parent name (opt_kind opts) (opt_start_time opts) now
                  (t_scope tracer) (t_limits tracer)
      in if sr_decision result = Drop then Noop_Handle
         else Sdk_Handle (fst (SeedAttributes (sr_additional_attributes result)
                (SeedAttributes (opt_attributes opts) (raw, diag)))))"
  by (cases "SpanContext_IsValid (resolved_parent opts current)";
      simp add: StartSpanInternal_def started_context_def sampling_result_def Let_def split_def
        flip: resolved_parent_def)+

lemma seeded_span:
  assumes "s = fst (SeedAttributes ys (SeedAttributes xs (SdkSpan_new c p n k t now sc l, diag)))"
  shows "GetContext s = c" "\<not> m_ended s" "rec_parent_context (m_record s) = p"
    "rec_attributes (m_record s) =
       limited (attribute_count_limit l) (attribute_value_length_limit l) (xs @ ys)"
proof -
  let ?run = "SeedAttributes ys (SeedAttributes xs (SdkSpan_new c p n k t now sc l, diag))"
  obtain diag' where run: "?run = (s, diag')" using assms by (cases ?run) simp
  from seeded_record [OF run] show "GetContext s = c" "rec_parent_context (m_record s) = p"
    "rec_attributes (m_record s) =
       limited (attribute_count_limit l) (attribute_value_length_limit l) (xs @ ys)"
    by (simp_all add: GetContext_def limit_record_def ApplySpanLimits_record SdkSpan_new_def)
  from run have "span_mutates (map (\<lambda>kv. Op_SetAttribute (kv_key kv) (kv_value kv)) (xs @ ys))
      (SdkSpan_new c p n k t now sc l, diag) = (s, diag')"
    by (simp add: SeedAttributes_mutates span_mutates_append)
  from mutates_keep [OF this] show "\<not> m_ended s" by (simp add: SdkSpan_new_facts)
qed

text \<open>
  What a started span is. The parent is the explicit one if given, even an invalid one, and
  the thread's current span otherwise; the trace id is the parent's if the parent is valid; the
  sampled flag says exactly whether the sampler answered \<open>RecordAndSample\<close>; the handle is the no-op
  one exactly when it answered \<open>Drop\<close>. A recording handle reports the started context, and its
  record holds the parent and the caller's and the sampler's attributes under the span limits.
\<close>

theorem start_span_identity:
  "let r = StartSpanInternal next_random tracer name opts current now diag g;
       parent = resolved_parent opts current;
       result = sampling_result tracer name opts parent (trace_id (sr_started r))
   in trace_id (sr_started r) = (if SpanContext_IsValid parent then trace_id parent
        else fst (GenerateTraceId next_random g)) \<and>
      TraceFlags_IsSampled (trace_flags (sr_started r)) = (sr_decision result = RecordAndSample) \<and>
      (case sr_handle r of
         Noop_Handle \<Rightarrow> sr_decision result = Drop
       | Sdk_Handle s \<Rightarrow> sr_decision result \<noteq> Drop \<and> GetContext s = sr_started r \<and> \<not> m_ended s \<and>
           rec_parent_context (m_record s) = parent \<and>
           rec_attributes (m_record s) = limited (attribute_count_limit (t_limits tracer))
             (attribute_value_length_limit (t_limits tracer))
             (opt_attributes opts @ sr_additional_attributes result))"
proof -
  let ?c = "started_context next_random tracer name opts current g"
  let ?r = "StartSpanInternal next_random tracer name opts current now diag g"
  let ?parent = "resolved_parent opts current"
  let ?result = "sampling_result tracer name opts ?parent (trace_id ?c)"
  have "TraceFlags_IsSampled (trace_flags ?c) = (sr_decision ?result = RecordAndSample)"
    by (simp add: started_context_def Let_def TraceFlags_IsSampled_def kSampled_def)
  moreover have "trace_id ?c = (if SpanContext_IsValid ?parent then trace_id ?parent
        else fst (GenerateTraceId next_random g))"
    by (simp add: started_context_def Let_def)
  moreover have "case sr_handle ?r of
      Noop_Handle \<Rightarrow> sr_decision ?result = Drop
    | Sdk_Handle s \<Rightarrow> sr_decision ?result \<noteq> Drop \<and> GetContext s = ?c \<and> \<not> m_ended s \<and>
        rec_parent_context (m_record s) = ?parent \<and>
        rec_attributes (m_record s) = limited (attribute_count_limit (t_limits tracer))
          (attribute_value_length_limit (t_limits tracer))
          (opt_attributes opts @ sr_additional_attributes ?result)"
    using seeded_span [OF refl]
    by (cases "sr_decision ?result = Drop") (simp_all add: StartSpanInternal_eq(2) Let_def)
  ultimately show ?thesis unfolding Let_def StartSpanInternal_eq(1) by blast
qed

section \<open>Nested spans\<close>

text \<open>The contexts installed by spans that are each started as current inside the previous one.\<close>

fun nested_contexts ::
    "'g rng \<Rightarrow> SdkTracer \<Rightarrow> (string \<times> StartSpanOptions) list \<Rightarrow> Context \<Rightarrow> int \<Rightarrow> sink \<Rightarrow> 'g \<Rightarrow>
     Context list" where
  "nested_contexts next_random tracer [] current now diag g = []"
| "nested_contexts next_random tracer ((name, opts) # rest) current now diag g =
     (let (sp, current', diag', g') =
            StartAsCurrentSpan next_random tracer name opts current now diag g
      in current' # nested_contexts next_random tracer rest current' now diag' g')"

lemma StartAsCurrentSpan_slot:
  assumes "StartAsCurrentSpan next_random tracer name opts current now diag g = (sp, current', rest)"
  shows "active_span_context current' = started_context next_random tracer name opts current g"
    "baggage current' = baggage current"
  using assms
  by (auto simp: StartAsCurrentSpan_def ScopedContext_install_def StartSpanInternal_eq(1) Let_def
      CurrentContext_def)

lemma started_in_trace:
  "opt_parent opts = None \<Longrightarrow> SpanContext_IsValid (active_span_context current) \<Longrightarrow>
   trace_id (started_context next_random tracer name opts current g) =
     trace_id (active_span_context current)"
  by (simp add: started_context_def resolved_parent_def Let_def CurrentContext_def)

lemma nested_in_trace:
  assumes "\<forall>(name, opts) \<in> set nest. opt_parent opts = None"
    and "SpanContext_IsValid (active_span_context current)"
    and "\<forall>c \<in> set (nested_contexts next_random tracer nest current now diag g).
      SpanContext_IsValid (active_span_context c)"
    and "c \<in> set (nested_contexts next_random tracer nest current now diag g)"
  shows "trace_id (active_span_context c) = trace_id (active_span_context current) \<and>
    baggage c = baggage current"
  using assms
proof (induction nest arbitrary: current diag g)
  case (Cons no nest)
  obtain name opts where no: "no = (name, opts)" by fastforce
  obtain sp current' diag' g' where
    st: "StartAsCurrentSpan next_random tracer name opts current now diag g = (sp, current', diag', g')"
    by (metis surj_pair)
  note slot = StartAsCurrentSpan_slot [OF st]
  have first: "trace_id (active_span_context current') = trace_id (active_span_context current)"
    using Cons.prems(1,2) started_in_trace [of opts current] by (simp add: slot no)
  show ?case
  proof (cases "c = current'")
    case True
    then show ?thesis using first slot by simp
  next
    case False
    then show ?thesis
      using Cons.IH [of current' diag' g'] Cons.prems first slot(2) by (simp add: no st)
  qed
qed simp

text \<open>
  Spans started inside one another stay in one trace. When spans are started as current, one
  inside the other and without explicit parents, whatever the sampler decides about each of them,
  every context they install has the trace id of the outermost one and the caller's baggage. The
  generated identifiers must be valid, that is, not all zero.
\<close>

theorem nested_spans_one_trace:
  assumes "\<forall>(name, opts) \<in> set nest. opt_parent opts = None"
    and "\<forall>c \<in> set (nested_contexts next_random tracer nest current now diag g).
      SpanContext_IsValid (active_span_context c)"
    and "c \<in> set (nested_contexts next_random tracer nest current now diag g)"
  shows "trace_id (active_span_context c) =
      trace_id (active_span_context (hd (nested_contexts next_random tracer nest current now diag g))) \<and>
    baggage c = baggage current"
proof (cases nest)
  case (Cons no rest)
  obtain name opts where no: "no = (name, opts)" by fastforce
  obtain sp current' diag' g' where
    st: "StartAsCurrentSpan next_random tracer name opts current now diag g = (sp, current', diag', g')"
    by (metis surj_pair)
  have eq: "nested_contexts next_random tracer nest current now diag g =
      current' # nested_contexts next_random tracer rest current' now diag' g'"
    by (simp add: Cons no st)
  show ?thesis
  proof (cases "c = current'")
    case False
    with nested_in_trace [of rest current' next_random tracer now diag' g' c] assms eq
      StartAsCurrentSpan_slot(2) [OF st]
    show ?thesis by (auto simp: Cons)
  qed (use eq StartAsCurrentSpan_slot(2) [OF st] in simp)
qed (use assms in simp)

text \<open>Two nested spans that the sampler drops.\<close>

definition counter_rng :: "u64 rng" where
  "counter_rng g = (g, g + 1)"

definition sample_tracer :: SdkTracer where
  "sample_tracer =
     \<lparr>t_sampler = AlwaysOffSampler, t_scope = \<lparr>scope_name = ''lib'', scope_version = ''1''\<rparr>,
      t_limits = SpanLimitOptions_default\<rparr>"

definition sample_nest :: "(string \<times> StartSpanOptions) list" where
  "sample_nest =
     (let opts = \<lparr>opt_kind = Internal, opt_parent = None, opt_start_time = 0, opt_attributes = []\<rparr>
      in [(''outer'', opts), (''inner'', opts)])"

theorem nested_spans_one_trace_witness:
  "let cs = nested_contexts counter_rng sample_tracer sample_nest Context_default 1 None 1
   in trace_id (active_span_context (cs ! 1)) = trace_id (active_span_context (cs ! 0))"
proof -
  define cs where "cs = nested_contexts counter_rng sample_tracer sample_nest Context_default 1 None 1"
  have "list_all (\<lambda>c. SpanContext_IsValid (active_span_context c)) cs" unfolding cs_def by code_simp
  then have valid: "\<forall>c \<in> set cs. SpanContext_IsValid (active_span_context c)" by (simp add: list_all_iff)
  have len: "length cs = 2" unfolding cs_def by code_simp
  have parents: "\<forall>(name, opts) \<in> set sample_nest. opt_parent opts = None"
    by (simp add: sample_nest_def Let_def)
  from len have "cs ! 1 \<in> set cs" "hd cs = cs ! 0" by (simp_all add: hd_conv_nth flip: length_greater_0_conv)
  with nested_spans_one_trace [OF parents, of counter_rng sample_tracer Context_default 1 None 1 "cs ! 1"]
    valid show ?thesis by (simp add: cs_def [symmetric])
qed

end
