(* ===== verification/Batch_Worker.thy ===== *)
theory Batch_Worker
  imports Diagnostics
begin

text \<open>
  The concurrency skeleton the two batching processors share: caller threads that enqueue, retune,
  flush and shut down under the processor's mutex, and one worker thread running \<open>WorkerLoop\<close>.
  Each critical section is one atomic step of the relation \<open>worker_step\<close>, so that a run of the
  relation is one interleaving of the threads. \<open>wait_for\<close> may return at any time, because the
  schedule delay may elapse at any time.

  The operations are those of the processor, bundled in \<open>worker_ops\<close>; the locale \<open>batch_worker\<close>
  states what the skeleton relies on and is interpreted for \<open>BatchSpanProcessor\<close> and
  \<open>BatchLogRecordProcessor\<close> in their theories. The world also carries history that no step reads:
  the records accepted so far, the fate of each one that left the queue, the batches handed to
  the exporter, and for every flush how many records had been accepted when it was requested.

  Proved here: nothing is lost, duplicated or reordered between the queue and the exporter except
  by counted eviction; a completed \<open>ForceFlush\<close> means everything accepted before it has been
  exported or evicted, and exported when only \<open>DropNewest\<close> was in force meanwhile; a worker that has
  exited leaves nothing behind; and in every interleaving the worker reaches those points within
  three moves for each record queued or accepted meanwhile.
\<close>

section \<open>Options\<close>

datatype DropPolicy = DropNewest | DropOldest

record BatchOptions =
  max_queue_size :: nat
  max_export_batch_size :: nat
  schedule_delay :: int
  drop_policy :: DropPolicy

definition BatchOptions_default :: BatchOptions where
  "BatchOptions_default =
     \<lparr>max_queue_size = 8192, max_export_batch_size = 512, schedule_delay = 5000,
      drop_policy = DropNewest\<rparr>"

section \<open>Operations and world\<close>

text \<open>
  \<open>op_enq\<close> reports whether the record entered the queue, \<open>op_flush\<close> the ticket of a flush (none
  after shutdown), \<open>op_shutdown\<close> whether this call was the first, and \<open>op_collect\<close> the batch, the
  \<open>done\<close> flag and the pending flush ticket of \<open>WakeResult\<close>.
\<close>

record ('p, 'q, 'r, 'h) worker_ops =
  op_enq :: "'r \<Rightarrow> 'p \<times> DiagnosticsCounters option \<Rightarrow> bool \<times> 'p \<times> DiagnosticsCounters option"
  op_item :: "'r \<Rightarrow> 'q"
  op_set_options :: "BatchOptions \<Rightarrow> 'p \<Rightarrow> 'p"
  op_flush :: "'p \<Rightarrow> nat option \<times> 'p"
  op_shutdown :: "'p \<Rightarrow> bool \<times> 'p"
  op_collect :: "'p \<Rightarrow> ('q list \<times> bool \<times> nat) \<times> 'p"
  op_export :: "'p \<Rightarrow> 'q list \<Rightarrow> 'h list"
  op_ack :: "nat \<Rightarrow> 'p \<Rightarrow> 'p"
  op_queue :: "'p \<Rightarrow> 'q list"
  op_is_shutdown :: "'p \<Rightarrow> bool"
  op_flush_seq :: "'p \<Rightarrow> nat"
  op_flush_done_seq :: "'p \<Rightarrow> nat"
  op_options :: "'p \<Rightarrow> BatchOptions"

text \<open>Where the worker is: the locals of \<open>WorkerLoop\<close> between its critical sections.\<close>

datatype 'q worker_pc = Waiting | Exporting "'q list" bool nat | Acking bool nat | Exited

datatype fate = Evicted | In_Flight | Exported

record ('p, 'q, 'h) world =
  w_proc :: 'p
  w_sink :: "DiagnosticsCounters option"
  w_pc :: "'q worker_pc"
  w_calls :: "'h list"
  w_accepted :: "'q list"
  w_gone :: "(fate \<times> 'q) list"
  w_batches :: "'q list list"
  w_flushes :: "(nat \<times> nat) list"

definition world_init :: "'p \<Rightarrow> DiagnosticsCounters option \<Rightarrow> ('p, 'q, 'h) world" where
  "world_init p diag =
     \<lparr>w_proc = p, w_sink = diag, w_pc = Waiting, w_calls = [], w_accepted = [], w_gone = [],
      w_batches = [], w_flushes = []\<rparr>"

fun settle :: "fate \<times> 'q \<Rightarrow> fate \<times> 'q" where
  "settle (In_Flight, q) = (Exported, q)"
| "settle (f, q) = (f, q)"

section \<open>Steps\<close>

text \<open>What the steps of the worker thread do to the world.\<close>

definition collect_world ::
    "('p, 'q, 'r, 'h) worker_ops \<Rightarrow> ('p, 'q, 'h) world \<Rightarrow> ('p, 'q, 'h) world" where
  "collect_world ops w =
     (case op_collect ops (w_proc w) of ((batch, finished, pending), p') \<Rightarrow>
        w\<lparr>w_proc := p',
          w_pc := (if batch \<noteq> [] then Exporting batch finished pending
                   else Acking finished pending),
          w_gone := w_gone w @ map (Pair In_Flight) batch\<rparr>)"

definition export_world ::
    "('p, 'q, 'r, 'h) worker_ops \<Rightarrow> 'q list \<Rightarrow> bool \<Rightarrow> nat \<Rightarrow> ('p, 'q, 'h) world \<Rightarrow>
     ('p, 'q, 'h) world" where
  "export_world ops batch finished pending w =
     w\<lparr>w_pc := Acking finished pending,
       w_calls := w_calls w @ op_export ops (w_proc w) batch,
       w_batches := w_batches w @ [batch],
       w_gone := map settle (w_gone w)\<rparr>"

definition ack_world ::
    "('p, 'q, 'r, 'h) worker_ops \<Rightarrow> bool \<Rightarrow> nat \<Rightarrow> ('p, 'q, 'h) world \<Rightarrow> ('p, 'q, 'h) world" where
  "ack_world ops finished pending w =
     w\<lparr>w_proc := (if pending > 0 then op_ack ops pending (w_proc w) else w_proc w),
       w_pc := (if finished then Exited else Waiting)\<rparr>"

inductive worker_move ::
    "('p, 'q, 'r, 'h) worker_ops \<Rightarrow> ('p, 'q, 'h) world \<Rightarrow> ('p, 'q, 'h) world \<Rightarrow> bool"
  for ops :: "('p, 'q, 'r, 'h) worker_ops" where
  wm_collect: "w_pc w = Waiting \<Longrightarrow> worker_move ops w (collect_world ops w)"
| wm_export: "w_pc w = Exporting batch finished pending \<Longrightarrow>
    worker_move ops w (export_world ops batch finished pending w)"
| wm_ack: "w_pc w = Acking finished pending \<Longrightarrow>
    worker_move ops w (ack_world ops finished pending w)"

text \<open>What a caller thread does; the evicted records are those the queue lost at its front.\<close>

definition enq_world ::
    "('p, 'q, 'r, 'h) worker_ops \<Rightarrow> 'r \<Rightarrow> ('p, 'q, 'h) world \<Rightarrow> ('p, 'q, 'h) world" where
  "enq_world ops r w =
     (case op_enq ops r (w_proc w, w_sink w) of (acc, p', diag') \<Rightarrow>
        let fresh = (if acc then [op_item ops r] else []);
            evicted = length (op_queue ops (w_proc w)) + length fresh - length (op_queue ops p')
        in w\<lparr>w_proc := p', w_sink := diag', w_accepted := w_accepted w @ fresh,
             w_gone := w_gone w @ map (Pair Evicted) (take evicted (op_queue ops (w_proc w)))\<rparr>)"

definition flush_world ::
    "('p, 'q, 'r, 'h) worker_ops \<Rightarrow> ('p, 'q, 'h) world \<Rightarrow> ('p, 'q, 'h) world" where
  "flush_world ops w =
     (case op_flush ops (w_proc w) of (ticket, p') \<Rightarrow>
        w\<lparr>w_proc := p',
          w_flushes := (case ticket of None \<Rightarrow> w_flushes w
                        | Some target \<Rightarrow> (target, length (w_accepted w)) # w_flushes w)\<rparr>)"

inductive worker_step ::
    "('p, 'q, 'r, 'h) worker_ops \<Rightarrow> ('p, 'q, 'h) world \<Rightarrow> ('p, 'q, 'h) world \<Rightarrow> bool"
  for ops :: "('p, 'q, 'r, 'h) worker_ops" where
  ws_enqueue: "worker_step ops w (enq_world ops r w)"
| ws_set_options: "worker_step ops w (w\<lparr>w_proc := op_set_options ops opts (w_proc w)\<rparr>)"
| ws_flush: "worker_step ops w (flush_world ops w)"
| ws_shutdown: "worker_step ops w (w\<lparr>w_proc := snd (op_shutdown ops (w_proc w))\<rparr>)"
| ws_worker: "worker_move ops w w' \<Longrightarrow> worker_step ops w w'"

inductive reachable ::
    "('p, 'q, 'r, 'h) worker_ops \<Rightarrow> ('p, 'q, 'h) world \<Rightarrow> ('p, 'q, 'h) world \<Rightarrow> bool"
  for ops :: "('p, 'q, 'r, 'h) worker_ops" and w0 :: "('p, 'q, 'h) world" where
  reach_init: "reachable ops w0 w0"
| reach_step: "reachable ops w0 w \<Longrightarrow> worker_step ops w w' \<Longrightarrow> reachable ops w0 w'"

text \<open>
  How the waiting calls return: \<open>ForceFlush\<close> with \<open>Completed\<close> exactly when its ticket has been
  acknowledged before its deadline, \<open>Shutdown\<close> with \<open>Completed\<close> once the worker was joined.
\<close>

definition flush_completed :: "('p, 'q, 'r, 'h) worker_ops \<Rightarrow> ('p, 'q, 'h) world \<Rightarrow> nat \<Rightarrow> bool" where
  "flush_completed ops w target \<longleftrightarrow> op_flush_done_seq ops (w_proc w) \<ge> target"

definition records_with :: "fate \<Rightarrow> ('p, 'q, 'h) world \<Rightarrow> 'q list" where
  "records_with f w = map snd (filter (\<lambda>x. fst x = f) (w_gone w))"

definition in_flight :: "('p, 'q, 'h) world \<Rightarrow> 'q list" where
  "in_flight w = (case w_pc w of Exporting batch _ _ \<Rightarrow> batch | _ \<Rightarrow> [])"

text \<open>The first \<open>n\<close> accepted records have left the queue and are no longer with the worker.\<close>

definition settled :: "('p, 'q, 'h) world \<Rightarrow> nat \<Rightarrow> bool" where
  "settled w n \<longleftrightarrow> n \<le> length (w_gone w) \<and> (\<forall>x \<in> set (take n (w_gone w)). fst x \<noteq> In_Flight)"

text \<open>
  A stretch of a run during which only \<open>DropNewest\<close> was in force, and a stretch during which the
  worker made \<open>m\<close> moves, its batch size positive at each collection, in between whatever the callers
  did; a caller never moves the worker.
\<close>

definition newest_step ::
    "('p, 'q, 'r, 'h) worker_ops \<Rightarrow> ('p, 'q, 'h) world \<Rightarrow> ('p, 'q, 'h) world \<Rightarrow> bool" where
  "newest_step ops w w' \<longleftrightarrow>
     worker_step ops w w' \<and> drop_policy (op_options ops (w_proc w)) = DropNewest"

inductive worked ::
    "('p, 'q, 'r, 'h) worker_ops \<Rightarrow> ('p, 'q, 'h) world \<Rightarrow> nat \<Rightarrow> ('p, 'q, 'h) world \<Rightarrow> bool"
  for ops :: "('p, 'q, 'r, 'h) worker_ops" and w :: "('p, 'q, 'h) world" where
  worked_0: "worked ops w 0 w"
| worked_caller: "worked ops w m v \<Longrightarrow> worker_step ops v w' \<Longrightarrow> w_pc w' = w_pc v \<Longrightarrow> worked ops w m w'"
| worked_move: "worked ops w m v \<Longrightarrow> worker_move ops v w' \<Longrightarrow>
    0 < max_export_batch_size (op_options ops (w_proc v)) \<Longrightarrow> worked ops w (Suc m) w'"

section \<open>The invariant\<close>

definition same_control :: "('p, 'q, 'r, 'h) worker_ops \<Rightarrow> 'p \<Rightarrow> 'p \<Rightarrow> bool" where
  "same_control ops p p' \<longleftrightarrow>
     op_is_shutdown ops p' = op_is_shutdown ops p \<and> op_flush_seq ops p' = op_flush_seq ops p \<and>
     op_flush_done_seq ops p' = op_flush_done_seq ops p \<and> op_export ops p' = op_export ops p"

definition conserved :: "('p, 'q, 'r, 'h) worker_ops \<Rightarrow> ('p, 'q, 'h) world \<Rightarrow> bool" where
  "conserved ops w \<longleftrightarrow>
     map snd (w_gone w) @ op_queue ops (w_proc w) = w_accepted w \<and>
     filter (\<lambda>x. fst x \<noteq> Evicted) (w_gone w) =
       map (Pair Exported) (concat (w_batches w)) @ map (Pair In_Flight) (in_flight w) \<and>
     w_calls w = concat (map (op_export ops (w_proc w)) (w_batches w))"

definition tickets_ok :: "('p, 'q, 'r, 'h) worker_ops \<Rightarrow> ('p, 'q, 'h) world \<Rightarrow> bool" where
  "tickets_ok ops w \<longleftrightarrow>
     (\<forall>(t, n) \<in> set (w_flushes w).
        0 < t \<and> t \<le> op_flush_seq ops (w_proc w) \<and> n \<le> length (w_accepted w) \<and>
        (t \<le> op_flush_done_seq ops (w_proc w) \<longrightarrow> settled w n)) \<and>
     op_flush_done_seq ops (w_proc w) \<le> op_flush_seq ops (w_proc w)"

text \<open>What the worker's locals promise: a pending ticket covers flushes whose records have all
  left the queue; \<open>done\<close> means that nothing can enter the queue any more and that no flush
  beyond the pending ticket is waiting.\<close>

definition promise ::
    "('p, 'q, 'r, 'h) worker_ops \<Rightarrow> bool \<Rightarrow> nat \<Rightarrow> ('p, 'q, 'h) world \<Rightarrow> bool" where
  "promise ops finished pending w \<longleftrightarrow>
     (finished \<longrightarrow> op_is_shutdown ops (w_proc w) \<and> op_queue ops (w_proc w) = [] \<and>
        op_flush_seq ops (w_proc w) \<le>
          (if pending > 0 then pending else op_flush_done_seq ops (w_proc w))) \<and>
     pending \<le> op_flush_seq ops (w_proc w) \<and>
     (\<forall>(t, n) \<in> set (w_flushes w). t \<le> pending \<longrightarrow> n \<le> length (w_gone w))"

fun promised :: "('p, 'q, 'r, 'h) worker_ops \<Rightarrow> 'q worker_pc \<Rightarrow> ('p, 'q, 'h) world \<Rightarrow> bool" where
  "promised ops Waiting w = True"
| "promised ops (Exporting batch finished pending) w = promise ops finished pending w"
| "promised ops (Acking finished pending) w = promise ops finished pending w"
| "promised ops Exited w = promise ops True 0 w"

definition worker_inv :: "('p, 'q, 'r, 'h) worker_ops \<Rightarrow> ('p, 'q, 'h) world \<Rightarrow> bool" where
  "worker_inv ops w \<longleftrightarrow> conserved ops w \<and> tickets_ok ops w \<and> promised ops (w_pc w) w"

lemma settled_append: "w_gone w' = w_gone w @ xs \<Longrightarrow> settled w n \<Longrightarrow> settled w' n"
  by (auto simp: settled_def)

lemma snd_settle [simp]: "snd (settle x) = snd x"
  by (cases x rule: settle.cases) auto

lemma settle_not_In_Flight: "fst (settle x) \<noteq> In_Flight"
  by (cases x rule: settle.cases) auto

lemma settle_Evicted: "fst (settle x) = Evicted \<longleftrightarrow> fst x = Evicted"
  by (cases x rule: settle.cases) auto

lemma settled_settle: "w_gone w' = map settle (w_gone w) \<Longrightarrow> n \<le> length (w_gone w) \<Longrightarrow> settled w' n"
  by (simp add: settled_def take_map settle_not_In_Flight)

lemma filter_settle:
  "filter (\<lambda>x. fst x \<noteq> Evicted) (map settle xs) = map settle (filter (\<lambda>x. fst x \<noteq> Evicted) xs)"
  by (induction xs) (auto simp: settle_Evicted)

lemma filter_Pair: "filter (\<lambda>x. fst x \<noteq> Evicted) (map (Pair f) qs) =
    (if f = Evicted then [] else map (Pair f) qs)"
  by (induction qs) auto

lemma no_flight_settled:
  assumes "conserved ops w" "in_flight w = []" "n \<le> length (w_gone w)"
  shows "settled w n"
proof -
  have "fst x \<noteq> In_Flight" if "x \<in> set (w_gone w)" for x
  proof
    assume "fst x = In_Flight"
    then have "x \<in> set (filter (\<lambda>x. fst x \<noteq> Evicted) (w_gone w))" using that by simp
    then have "x \<in> set (map (Pair Exported) (concat (w_batches w)))"
      using assms(1,2) by (simp only: conserved_def) simp
    then show False using \<open>fst x = In_Flight\<close> by auto
  qed
  then show ?thesis using assms(3) by (auto simp: settled_def dest: in_set_takeD)
qed

lemma conserved_fates:
  assumes "conserved ops w"
  shows "records_with Exported w = concat (w_batches w)" "records_with In_Flight w = in_flight w"
proof -
  have *: "records_with f w = map snd (filter (\<lambda>x. fst x = f) (filter (\<lambda>x. fst x \<noteq> Evicted) (w_gone w)))"
    if "f \<noteq> Evicted" for f
    using that by (auto simp: records_with_def intro!: arg_cong [where f = "map snd"] filter_cong)
  have same: "map snd (filter (\<lambda>x. fst x = g) (map (Pair f) qs)) = (if f = g then qs else [])"
    for f g and qs :: "'b list" by (induction qs) auto
  show "records_with Exported w = concat (w_batches w)" "records_with In_Flight w = in_flight w"
    using assms by (simp_all add: * conserved_def same o_def filter_map)
qed

lemma settled_cong: "w_gone w' = w_gone w \<Longrightarrow> settled w' n = settled w n"
  by (simp add: settled_def)

lemma take_append_drop_length:
  assumes "k \<le> length xs" "ys = drop k xs @ zs"
  shows "take (length xs + length zs - length ys) xs = take k xs"
  using assms by simp

lemma reachable_run: "reachable ops w0 w \<Longrightarrow> (worker_step ops)\<^sup>*\<^sup>* w w' \<Longrightarrow> reachable ops w0 w'"
  by (erule rtranclp_induct) (auto intro: reach_step)

definition outgoing :: "('p, 'q, 'r, 'h) worker_ops \<Rightarrow> ('p, 'q, 'h) world \<Rightarrow> 'q list" where
  "outgoing ops w = concat (w_batches w) @ in_flight w @ op_queue ops (w_proc w)"

lemma fates_list:
  "length xs = length (filter (\<lambda>x. fst x = Evicted) xs) + length (filter (\<lambda>x. fst x = In_Flight) xs) +
     length (filter (\<lambda>x. fst x = Exported) xs)"
proof (induction xs)
  case (Cons x xs)
  then show ?case by (cases "fst x") simp_all
qed simp

lemma fates_length:
  "length (w_gone w) = length (records_with Evicted w) + length (records_with In_Flight w) +
     length (records_with Exported w)"
  by (simp add: records_with_def fates_list [symmetric])

lemma records_with_settle:
  "map snd (filter (\<lambda>x. fst x = Evicted) (map settle xs)) = map snd (filter (\<lambda>x. fst x = Evicted) xs)"
  by (induction xs) (auto simp: settle_Evicted)

section \<open>What the skeleton relies on\<close>

locale batch_worker =
  fixes ops :: "('p, 'q, 'r, 'h) worker_ops"
  assumes enq_queue:
    "op_enq ops r (p, diag) = (acc, p', diag') \<Longrightarrow>
     \<exists>k \<le> length (op_queue ops p).
       op_queue ops p' = drop k (op_queue ops p) @ (if acc then [op_item ops r] else [])"
  and enq_newest:
    "op_enq ops r (p, diag) = (acc, p', diag') \<Longrightarrow> drop_policy (op_options ops p) = DropNewest \<Longrightarrow>
     op_queue ops p' = op_queue ops p @ (if acc then [op_item ops r] else [])"
  and enq_shut:
    "op_enq ops r (p, diag) = (acc, p', diag') \<Longrightarrow> op_is_shutdown ops p \<Longrightarrow>
     \<not> acc \<and> op_queue ops p' = op_queue ops p"
  and enq_control: "op_enq ops r (p, diag) = (acc, p', diag') \<Longrightarrow> same_control ops p p'"
  and set_options_law:
    "same_control ops p (op_set_options ops opts p)"
    "op_queue ops (op_set_options ops opts p) = op_queue ops p"
  and flush_law:
    "op_flush ops p = (ticket, p') \<Longrightarrow>
     op_queue ops p' = op_queue ops p \<and> op_is_shutdown ops p' = op_is_shutdown ops p \<and>
     op_flush_done_seq ops p' = op_flush_done_seq ops p \<and> op_export ops p' = op_export ops p \<and>
     op_flush_seq ops p' = (if op_is_shutdown ops p then 0 else 1) + op_flush_seq ops p \<and>
     ticket = (if op_is_shutdown ops p then None else Some (op_flush_seq ops p'))"
  and shutdown_law:
    "op_shutdown ops p = (first, p') \<Longrightarrow>
     op_queue ops p' = op_queue ops p \<and> op_is_shutdown ops p' \<and>
     op_flush_seq ops p' = op_flush_seq ops p \<and>
     op_flush_done_seq ops p' = op_flush_done_seq ops p \<and> op_export ops p' = op_export ops p"
  and collect_law:
    "op_collect ops p = ((batch, finished, pending), p') \<Longrightarrow>
     same_control ops p p' \<and> op_queue ops p = batch @ op_queue ops p' \<and>
     (finished \<longleftrightarrow> op_is_shutdown ops p \<and> op_queue ops p' = []) \<and>
     pending = (if op_flush_seq ops p > op_flush_done_seq ops p \<and> op_queue ops p' = []
                then op_flush_seq ops p else 0)"
  and ack_law:
    "op_queue ops (op_ack ops n p) = op_queue ops p"
    "op_is_shutdown ops (op_ack ops n p) = op_is_shutdown ops p"
    "op_flush_seq ops (op_ack ops n p) = op_flush_seq ops p"
    "op_flush_done_seq ops (op_ack ops n p) = n"
    "op_export ops (op_ack ops n p) = op_export ops p"
begin

lemma inv_frame:
  assumes "worker_inv ops w" "same_control ops (w_proc w) p'" "op_queue ops p' = op_queue ops (w_proc w)"
  shows "worker_inv ops (w\<lparr>w_proc := p'\<rparr>)"
  using assms
  by (cases "w_pc w")
    (auto simp: worker_inv_def conserved_def tickets_ok_def promise_def same_control_def
      in_flight_def records_with_def settled_def)

lemma inv_enq:
  assumes "worker_inv ops w"
  shows "worker_inv ops (enq_world ops r w)"
proof -
  obtain acc p' diag' where e: "op_enq ops r (w_proc w, w_sink w) = (acc, p', diag')"
    by (metis surj_pair)
  let ?fresh = "if acc then [op_item ops r] else []"
  obtain k where k: "k \<le> length (op_queue ops (w_proc w))"
    "op_queue ops p' = drop k (op_queue ops (w_proc w)) @ ?fresh" using enq_queue [OF e] by blast
  let ?out = "take k (op_queue ops (w_proc w))"
  let ?w = "enq_world ops r w"
  have w: "?w = w\<lparr>w_proc := p', w_sink := diag', w_accepted := w_accepted w @ ?fresh,
      w_gone := w_gone w @ map (Pair Evicted) ?out\<rparr>"
    unfolding enq_world_def e Let_def by (simp only: prod.case take_append_drop_length [OF k])
  note ctl = enq_control [OF e, unfolded same_control_def]
  have "conserved ops ?w"
    using assms ctl k
    by (auto simp: w worker_inv_def conserved_def in_flight_def o_def filter_Pair)
  moreover have "settled ?w n" if "settled w n" for n
    using that by (rule settled_append [rotated]) (simp add: w)
  then have "tickets_ok ops ?w"
    using assms ctl unfolding worker_inv_def tickets_ok_def by (auto simp: w)
  moreover have "promise ops finished pending ?w" if "promise ops finished pending w" for finished pending
    using that ctl enq_shut [OF e] by (fastforce simp: w promise_def)
  ultimately show ?thesis
    using assms by (cases "w_pc w") (auto simp: worker_inv_def w)
qed

lemma inv_flush:
  assumes "worker_inv ops w"
  shows "worker_inv ops (flush_world ops w)"
proof -
  obtain ticket p' where f: "op_flush ops (w_proc w) = (ticket, p')" by fastforce
  note law = flush_law [OF f]
  have "conserved ops w" "tickets_ok ops w" "promised ops (w_pc w) w"
    using assms by (simp_all add: worker_inv_def)
  then show ?thesis
    using law
    by (cases "w_pc w")
      (auto simp: flush_world_def f worker_inv_def conserved_def tickets_ok_def promise_def
        in_flight_def records_with_def settled_def)
qed

lemma inv_shutdown:
  assumes "worker_inv ops w"
  shows "worker_inv ops (w\<lparr>w_proc := snd (op_shutdown ops (w_proc w))\<rparr>)"
proof -
  obtain first p' where f: "op_shutdown ops (w_proc w) = (first, p')" by fastforce
  have "conserved ops w" "tickets_ok ops w" "promised ops (w_pc w) w"
    using assms by (simp_all add: worker_inv_def)
  then show ?thesis
    using shutdown_law [OF f]
    by (cases "w_pc w")
      (auto simp: f worker_inv_def conserved_def tickets_ok_def promise_def in_flight_def
        records_with_def settled_def)
qed

lemma inv_collect:
  assumes "worker_inv ops w" "w_pc w = Waiting"
  shows "worker_inv ops (collect_world ops w)"
proof -
  obtain batch finished pending p' where
    c: "op_collect ops (w_proc w) = ((batch, finished, pending), p')" by (metis surj_pair)
  let ?w = "collect_world ops w"
  have w: "?w = w\<lparr>w_proc := p',
      w_pc := (if batch \<noteq> [] then Exporting batch finished pending else Acking finished pending),
      w_gone := w_gone w @ map (Pair In_Flight) batch\<rparr>"
    by (simp add: collect_world_def c)
  note law = collect_law [OF c, unfolded same_control_def]
  have con: "conserved ops w" and tick: "tickets_ok ops w"
    using assms by (simp_all add: worker_inv_def)
  have "conserved ops ?w"
    using con law assms(2)
    by (auto simp: w conserved_def in_flight_def o_def filter_Pair)
  moreover have "settled ?w n" if "settled w n" for n
    using that by (rule settled_append [rotated]) (simp add: w)
  then have "tickets_ok ops ?w"
    using tick law unfolding tickets_ok_def by (auto simp: w)
  moreover have "promise ops finished pending ?w"
  proof -
    have "length (w_gone ?w) = length (w_accepted w)" if "op_queue ops p' = []"
      using arg_cong [OF conjunct1 [OF con [unfolded conserved_def]], of length] law that
      by (simp add: w)
    then show ?thesis
      using tick law by (auto simp: promise_def tickets_ok_def w)
  qed
  ultimately show ?thesis by (cases "batch = []") (simp_all add: worker_inv_def w)
qed

lemma inv_export:
  assumes "worker_inv ops w" "w_pc w = Exporting batch finished pending"
  shows "worker_inv ops (export_world ops batch finished pending w)"
proof -
  let ?w = "export_world ops batch finished pending w"
  have con: "conserved ops w" and tick: "tickets_ok ops w" and pr: "promise ops finished pending w"
    using assms by (simp_all add: worker_inv_def)
  have gone: "w_gone ?w = map settle (w_gone w)" by (simp add: export_world_def)
  have "conserved ops ?w"
    using con assms(2) unfolding conserved_def
    by (simp add: export_world_def filter_settle in_flight_def o_def)
  moreover have "settled ?w n" if "settled w n" for n
    by (rule settled_settle [OF gone]) (use that in \<open>simp add: settled_def\<close>)
  then have "tickets_ok ops ?w"
    using tick unfolding tickets_ok_def by (auto simp: export_world_def)
  moreover have "promise ops finished pending ?w"
    using pr by (auto simp: promise_def export_world_def split: if_splits)
  ultimately show ?thesis by (simp add: worker_inv_def export_world_def)
qed

lemma inv_ack:
  assumes "worker_inv ops w" "w_pc w = Acking finished pending"
  shows "worker_inv ops (ack_world ops finished pending w)"
proof -
  let ?w = "ack_world ops finished pending w"
  have con: "conserved ops w" and tick: "tickets_ok ops w" and pr: "promise ops finished pending w"
    using assms by (simp_all add: worker_inv_def)
  have idle: "in_flight w = []" "in_flight ?w = []"
    using assms(2) by (simp_all add: in_flight_def ack_world_def)
  have "conserved ops ?w"
    using con idle by (simp add: conserved_def ack_world_def ack_law)
  moreover have "settled ?w n"
    if "(t, n) \<in> set (w_flushes w)" "t \<le> op_flush_done_seq ops (w_proc ?w)" for t n
  proof -
    have "n \<le> length (w_gone w)"
      using that tick pr
      by (cases "pending > 0")
        (auto simp: ack_world_def ack_law tickets_ok_def promise_def settled_def)
    from no_flight_settled [OF con idle(1) this] show ?thesis
      by (rule settled_append [rotated, where xs = "[]"]) (simp add: ack_world_def)
  qed
  then have "tickets_ok ops ?w"
    using tick pr unfolding tickets_ok_def promise_def by (auto simp: ack_world_def ack_law)
  moreover have "promised ops (w_pc ?w) ?w"
    using pr tick by (auto simp: promise_def ack_world_def ack_law tickets_ok_def)
  ultimately show ?thesis by (simp add: worker_inv_def)
qed

lemma inv_move: "worker_move ops w w' \<Longrightarrow> worker_inv ops w \<Longrightarrow> worker_inv ops w'"
  by (induction rule: worker_move.induct) (simp_all add: inv_collect inv_export inv_ack)

lemma inv_step: "worker_step ops w w' \<Longrightarrow> worker_inv ops w \<Longrightarrow> worker_inv ops w'"
  by (induction rule: worker_step.induct)
    (simp_all add: inv_enq inv_frame set_options_law inv_flush inv_shutdown inv_move)

text \<open>A freshly constructed processor: empty queue, no flush requested.\<close>

lemma inv_init:
  assumes "op_queue ops p = []" "op_flush_done_seq ops p = 0"
  shows "worker_inv ops (world_init p diag)"
  using assms
  by (simp add: worker_inv_def conserved_def tickets_ok_def world_init_def in_flight_def)

lemma inv_reachable: "reachable ops w0 w \<Longrightarrow> worker_inv ops w0 \<Longrightarrow> worker_inv ops w"
  by (induction rule: reachable.induct) (auto intro: inv_step)

text \<open>What a client of the processor can conclude.\<close>

lemma no_loss:
  assumes "worker_inv ops w"
  shows "map snd (w_gone w) @ op_queue ops (w_proc w) = w_accepted w"
    "records_with Exported w = concat (w_batches w)" "records_with In_Flight w = in_flight w"
    "w_calls w = concat (map (op_export ops (w_proc w)) (w_batches w))"
  using assms conserved_fates [of ops w] by (simp_all add: worker_inv_def conserved_def)

lemma flush_settles:
  assumes "worker_inv ops w" "(target, n) \<in> set (w_flushes w)" "flush_completed ops w target"
  shows "settled w n"
  using assms by (auto simp: worker_inv_def tickets_ok_def flush_completed_def)

lemma exit_settles:
  assumes "worker_inv ops w" "w_pc w = Exited"
  shows "op_queue ops (w_proc w) = []" "settled w (length (w_accepted w))"
proof -
  have con: "conserved ops w" and q: "op_queue ops (w_proc w) = []"
    using assms by (simp_all add: worker_inv_def promise_def)
  show "op_queue ops (w_proc w) = []" by (rule q)
  have "length (w_accepted w) = length (w_gone w)"
    using con q by (metis append_Nil2 conserved_def length_map)
  then show "settled w (length (w_accepted w))"
    using no_flight_settled [OF con] assms(2) by (simp add: in_flight_def)
qed

text \<open>
  How a stretch of a run changes what is accepted and what is on its way out. \<open>outgoing\<close> is
  everything exported, being exported or queued, in that order; under \<open>DropNewest\<close> it only grows
  by what is accepted, and nothing is evicted.
\<close>

lemma accepted_grows: "worker_step ops w w' \<Longrightarrow> \<exists>xs. w_accepted w' = w_accepted w @ xs"
  by (induction rule: worker_step.induct)
    (auto simp: enq_world_def flush_world_def collect_world_def export_world_def ack_world_def Let_def
      elim!: worker_move.cases split: prod.splits)

lemma accepted_run: "(worker_step ops)\<^sup>*\<^sup>* w w' \<Longrightarrow> \<exists>xs. w_accepted w' = w_accepted w @ xs"
  by (induction rule: rtranclp_induct) (auto dest: accepted_grows)

lemma flushes_run: "(worker_step ops)\<^sup>*\<^sup>* w w' \<Longrightarrow> set (w_flushes w) \<subseteq> set (w_flushes w')"
proof (induction rule: rtranclp_induct)
  case (step v w')
  from step(2) have "set (w_flushes v) \<subseteq> set (w_flushes w')"
    by (induction rule: worker_step.induct)
      (auto simp: enq_world_def flush_world_def collect_world_def export_world_def ack_world_def Let_def
        elim!: worker_move.cases split: prod.splits option.splits)
  with step(3) show ?case by blast
qed simp

lemma newest_move:
  assumes "worker_move ops w w'"
  shows "outgoing ops w' = outgoing ops w \<and> w_accepted w' = w_accepted w \<and>
    records_with Evicted w' = records_with Evicted w"
  using assms
proof (induction rule: worker_move.induct)
  case (wm_collect w)
  obtain batch finished pending p' where
    c: "op_collect ops (w_proc w) = ((batch, finished, pending), p')" by (metis surj_pair)
  with wm_collect collect_law [OF c] show ?case
    by (auto simp: collect_world_def outgoing_def in_flight_def records_with_def filter_map o_def)
next
  case (wm_export w batch finished pending)
  then show ?case
    by (simp add: export_world_def outgoing_def in_flight_def records_with_def records_with_settle)
next
  case (wm_ack w finished pending)
  then show ?case
    by (auto simp: ack_world_def ack_law outgoing_def in_flight_def records_with_def)
qed

lemma newest_enq:
  assumes "drop_policy (op_options ops (w_proc w)) = DropNewest"
  shows "\<exists>xs. outgoing ops (enq_world ops r w) = outgoing ops w @ xs \<and>
    w_accepted (enq_world ops r w) = w_accepted w @ xs \<and>
    records_with Evicted (enq_world ops r w) = records_with Evicted w"
proof -
  obtain acc p' diag' where e: "op_enq ops r (w_proc w, w_sink w) = (acc, p', diag')"
    by (metis surj_pair)
  from enq_newest [OF e assms] show ?thesis
    by (auto simp: enq_world_def e outgoing_def in_flight_def records_with_def Let_def)
qed

lemma newest_step_out:
  assumes "newest_step ops w w'"
  shows "\<exists>xs. outgoing ops w' = outgoing ops w @ xs \<and> w_accepted w' = w_accepted w @ xs \<and>
    records_with Evicted w' = records_with Evicted w"
proof -
  from assms have "worker_step ops w w'" and new: "drop_policy (op_options ops (w_proc w)) = DropNewest"
    by (simp_all add: newest_step_def)
  then show ?thesis
  proof (induction rule: worker_step.induct)
    case (ws_enqueue w r)
    then show ?case by (rule newest_enq)
  next
    case (ws_flush w)
    obtain ticket p' where f: "op_flush ops (w_proc w) = (ticket, p')" by fastforce
    then show ?case
      using flush_law [OF f] by (simp add: flush_world_def outgoing_def in_flight_def records_with_def)
  next
    case (ws_shutdown w)
    obtain first p' where f: "op_shutdown ops (w_proc w) = (first, p')" by fastforce
    then show ?case
      using shutdown_law [OF f] by (simp add: outgoing_def in_flight_def records_with_def)
  qed (use newest_move set_options_law in \<open>auto simp: outgoing_def in_flight_def records_with_def\<close>)
qed

lemma newest_run:
  "(newest_step ops)\<^sup>*\<^sup>* w w' \<Longrightarrow>
   \<exists>xs. outgoing ops w' = outgoing ops w @ xs \<and> w_accepted w' = w_accepted w @ xs \<and>
     records_with Evicted w' = records_with Evicted w"
proof (induction rule: rtranclp_induct)
  case (step v w')
  then show ?case using newest_step_out [OF step(2)] by auto
qed simp

lemma out_length:
  assumes "worker_inv ops w"
  shows "length (records_with Evicted w) + length (outgoing ops w) = length (w_accepted w)"
proof -
  have "length (w_accepted w) = length (w_gone w) + length (op_queue ops (w_proc w))"
    using no_loss(1) [OF assms] by (metis length_append length_map)
  then show ?thesis
    using no_loss(2,3) [OF assms] fates_length [of w] by (simp add: outgoing_def)
qed

text \<open>A settled prefix: what of it was not evicted has been exported.\<close>

lemma settled_exported:
  assumes "worker_inv ops w" "settled w n"
  shows "n \<le> length (records_with Evicted w) + length (concat (w_batches w))"
proof -
  let ?P = "\<lambda>f. filter (\<lambda>x. fst x = f) (take n (w_gone w))"
  have "length (?P In_Flight) = 0" using assms(2) by (auto simp: settled_def filter_empty_conv)
  then have "n = length (?P Evicted) + length (?P Exported)"
    using assms(2) fates_list [of "take n (w_gone w)"] by (simp add: settled_def)
  moreover have "length (?P f) \<le> length (records_with f w)" for f
    using append_take_drop_id [of n "w_gone w"]
    by (metis filter_append le_add1 length_append length_map records_with_def)
  ultimately show ?thesis using no_loss(2) [OF assms(1)] by (metis add_mono)
qed

lemma newest_flush_exports:
  assumes "worker_inv ops w" "worker_inv ops w'" "(newest_step ops)\<^sup>*\<^sup>* w w'"
    "settled w' (length (w_accepted w))"
  shows "\<exists>later. concat (w_batches w') = outgoing ops w @ later"
proof -
  obtain xs where xs: "outgoing ops w' = outgoing ops w @ xs"
    "records_with Evicted w' = records_with Evicted w" using newest_run [OF assms(3)] by blast
  have "length (outgoing ops w) \<le> length (concat (w_batches w'))"
    using settled_exported [OF assms(2,4)] out_length [OF assms(1)] xs(2) by simp
  moreover have "concat (w_batches w') = take (length (concat (w_batches w'))) (outgoing ops w @ xs)"
    using xs(1) by (metis append_eq_conv_conj outgoing_def)
  ultimately show ?thesis by (metis append_take_drop_id take_all_iff take_append)
qed

end

section \<open>Progress\<close>

text \<open>
  The worker takes as much as a batch holds. \<open>effort\<close> bounds the moves it still has to make before
  a batch for which \<open>covers\<close> holds of \<open>done\<close> and the pending ticket has been exported and acknowledged.
\<close>

definition effort ::
    "(bool \<Rightarrow> nat \<Rightarrow> bool) \<Rightarrow> ('p, 'q, 'r, 'h) worker_ops \<Rightarrow> ('p, 'q, 'h) world \<Rightarrow> nat" where
  "effort covers ops w = (let queued = length (op_queue ops (w_proc w)) in
     case w_pc w of
       Waiting \<Rightarrow> 3 * queued + 3
     | Exporting batch finished pending \<Rightarrow> (if covers finished pending then 2 else 3 * queued + 5)
     | Acking finished pending \<Rightarrow> (if covers finished pending then 1 else 3 * queued + 4)
     | Exited \<Rightarrow> 0)"

lemma effort_bound: "effort covers ops w \<le> 3 * length (op_queue ops (w_proc w)) + 5"
  by (auto simp: effort_def Let_def split: worker_pc.splits)

text \<open>A ticket being carried is newer than the last one acknowledged.\<close>

fun carried :: "'q worker_pc \<Rightarrow> nat" where
  "carried (Exporting batch finished pending) = pending"
| "carried (Acking finished pending) = pending"
| "carried _ = 0"

definition newer :: "('p, 'q, 'r, 'h) worker_ops \<Rightarrow> ('p, 'q, 'h) world \<Rightarrow> bool" where
  "newer ops w \<longleftrightarrow> carried (w_pc w) = 0 \<or> op_flush_done_seq ops (w_proc w) < carried (w_pc w)"

locale draining_worker = batch_worker +
  assumes collect_takes:
    "op_collect ops p = ((batch, finished, pending), p') \<Longrightarrow>
     batch = take (max_export_batch_size (op_options ops p)) (op_queue ops p)"
begin

lemma caller_step:
  assumes "worker_step ops w w'" "w_pc w' = w_pc w"
  shows "op_flush_done_seq ops (w_proc w') = op_flush_done_seq ops (w_proc w) \<and>
    set (w_flushes w) \<subseteq> set (w_flushes w') \<and>
    (op_is_shutdown ops (w_proc w) \<longrightarrow> op_is_shutdown ops (w_proc w') \<and> w_accepted w' = w_accepted w) \<and>
    length (op_queue ops (w_proc w')) + length (w_accepted w) \<le>
      length (op_queue ops (w_proc w)) + length (w_accepted w')"
  using assms
proof (induction rule: worker_step.induct)
  case (ws_enqueue w r)
  obtain acc p' diag' where e: "op_enq ops r (w_proc w, w_sink w) = (acc, p', diag')"
    by (metis surj_pair)
  obtain k where k: "op_queue ops p' = drop k (op_queue ops (w_proc w)) @ (if acc then [op_item ops r] else [])"
    using enq_queue [OF e] by blast
  then have "length (op_queue ops p') \<le> length (op_queue ops (w_proc w)) + (if acc then 1 else 0)" by simp
  with enq_control [OF e] enq_shut [OF e] show ?case
    by (auto simp: enq_world_def e same_control_def Let_def)
next
  case (ws_flush w)
  obtain ticket p' where f: "op_flush ops (w_proc w) = (ticket, p')" by fastforce
  show ?case using flush_law [OF f] by (auto simp: flush_world_def f split: option.splits)
next
  case (ws_shutdown w)
  obtain first p' where f: "op_shutdown ops (w_proc w) = (first, p')" by fastforce
  show ?case using shutdown_law [OF f] by (simp add: f)
next
  case (ws_worker w w')
  then show ?case
    by (auto simp: collect_world_def export_world_def ack_world_def elim!: worker_move.cases
        split: prod.splits if_splits)
next
  case (ws_set_options w opts)
  then show ?case using set_options_law [unfolded same_control_def] by simp
qed

lemma effort_caller:
  assumes "worker_step ops w w'" "w_pc w' = w_pc w"
  shows "effort covers ops w' + 3 * length (w_accepted w) \<le> effort covers ops w + 3 * length (w_accepted w')"
proof -
  have "length (w_accepted w) \<le> length (w_accepted w')" using accepted_grows [OF assms(1)] by auto
  then show ?thesis
    using caller_step [OF assms] assms(2) by (cases "w_pc w") (auto simp: effort_def Let_def)
qed

text \<open>Every move of the worker comes closer, or acknowledges a batch that is covered.\<close>

lemma effort_move:
  assumes "worker_move ops w w'" "0 < max_export_batch_size (op_options ops (w_proc w))"
    "\<And>finished pending batch p'. op_collect ops (w_proc w) = ((batch, finished, pending), p') \<Longrightarrow>
       op_queue ops p' = [] \<Longrightarrow> covers finished pending"
    "\<And>finished pending. w_pc w = Acking finished pending \<Longrightarrow> \<not> covers finished pending"
  shows "effort covers ops w' < effort covers ops w"
  using assms
proof (induction rule: worker_move.induct)
  case (wm_collect w)
  obtain batch finished pending p' where
    c: "op_collect ops (w_proc w) = ((batch, finished, pending), p')" by (metis surj_pair)
  have q: "op_queue ops (w_proc w) = batch @ op_queue ops p'" using collect_law [OF c] by blast
  have "batch \<noteq> []" if "op_queue ops p' \<noteq> []"
    using collect_takes [OF c] that q wm_collect(2) by auto
  then have "1 \<le> length batch" if "op_queue ops p' \<noteq> []" using that by (simp add: Suc_le_eq)
  with wm_collect(1) wm_collect(3) [OF c] q show ?case
    by (cases "op_queue ops p' = []"; cases "batch = []") (auto simp: effort_def collect_world_def c Let_def)
qed (auto simp: effort_def export_world_def ack_world_def ack_law Let_def)

lemma newer_move:
  assumes "worker_move ops w w'" "newer ops w"
  shows "newer ops w' \<and> op_flush_done_seq ops (w_proc w) \<le> op_flush_done_seq ops (w_proc w') \<and>
    w_flushes w' = w_flushes w \<and> w_accepted w' = w_accepted w \<and>
    op_is_shutdown ops (w_proc w') = op_is_shutdown ops (w_proc w)"
  using assms
proof (induction rule: worker_move.induct)
  case (wm_collect w)
  obtain batch finished pending p' where
    c: "op_collect ops (w_proc w) = ((batch, finished, pending), p')" by (metis surj_pair)
  with collect_law [OF c] show ?case
    by (auto simp: collect_world_def newer_def same_control_def)
qed (auto simp: export_world_def ack_world_def newer_def ack_law)

lemma newer_step:
  assumes "worker_step ops w w'" "newer ops w"
  shows "newer ops w'"
proof (cases "worker_move ops w w'")
  case False
  then have "w_pc w' = w_pc w"
    using assms(1) by (auto simp: enq_world_def flush_world_def Let_def elim!: worker_step.cases split: prod.splits)
  then show ?thesis using caller_step [OF assms(1)] assms(2) by (simp add: newer_def)
qed (use newer_move assms(2) in blast)

lemma newer_reachable: "reachable ops w0 w \<Longrightarrow> newer ops w0 \<Longrightarrow> newer ops w"
  by (induction rule: reachable.induct) (auto intro: newer_step)

text \<open>
  Any interleaving: as long as a flush is unanswered, the worker has made at most three moves for
  each record that was queued or has been accepted since, and five more.
\<close>

lemma worked_flush:
  assumes "worked ops w m w'" "worker_inv ops w" "newer ops w" "(target, n) \<in> set (w_flushes w)"
  shows "worker_inv ops w' \<and> newer ops w' \<and> (target, n) \<in> set (w_flushes w') \<and>
    length (w_accepted w) \<le> length (w_accepted w') \<and>
    (\<not> flush_completed ops w' target \<longrightarrow>
       m + effort (\<lambda>_ pending. target \<le> pending) ops w' + 3 * length (w_accepted w) \<le>
         effort (\<lambda>_ pending. target \<le> pending) ops w + 3 * length (w_accepted w'))"
  using assms
proof (induction rule: worked.induct)
  case (worked_caller m v w')
  then show ?case
    using caller_step [OF worked_caller(2,3)] accepted_grows [OF worked_caller(2)]
      effort_caller [OF worked_caller(2,3), of "\<lambda>_ pending. target \<le> pending"]
      inv_step [OF worked_caller(2)] newer_step [OF worked_caller(2)]
    by (auto simp: flush_completed_def)
next
  case (worked_move m v w')
  then have I: "worker_inv ops v" "newer ops v" "(target, n) \<in> set (w_flushes v)" by simp_all
  note mv = newer_move [OF worked_move(2) I(2)]
  have less: "effort (\<lambda>_ pending. target \<le> pending) ops w' < effort (\<lambda>_ pending. target \<le> pending) ops v"
    if no: "\<not> flush_completed ops w' target"
  proof (rule effort_move [OF worked_move(2,3)])
    have "op_flush_done_seq ops (w_proc v) < target" "target \<le> op_flush_seq ops (w_proc v)"
      using no mv I by (auto simp: flush_completed_def worker_inv_def tickets_ok_def)
    then show "target \<le> pending" if "op_collect ops (w_proc v) = ((batch, finished, pending), p')"
      "op_queue ops p' = []" for finished pending batch p'
      using collect_law [OF that(1)] that(2) by simp
    show "\<not> target \<le> pending" if "w_pc v = Acking finished pending" for finished pending
    proof -
      have "w' = ack_world ops finished pending v"
        using worked_move(2) that by (auto elim!: worker_move.cases)
      moreover have "0 < target" using I by (auto simp: worker_inv_def tickets_ok_def)
      ultimately show ?thesis using no by (cases "0 < pending") (auto simp: ack_world_def ack_law flush_completed_def)
    qed
  qed
  show ?case
    using worked_move(4) assms(2-) inv_move [OF worked_move(2) I(1)] mv less
    by (auto simp: flush_completed_def)
qed simp

lemma worked_shutdown:
  assumes "worked ops w m w'" "op_is_shutdown ops (w_proc w)" "newer ops w"
  shows "op_is_shutdown ops (w_proc w') \<and> w_accepted w' = w_accepted w \<and> newer ops w' \<and>
    (w_pc w' \<noteq> Exited \<longrightarrow> m + effort (\<lambda>finished _. finished) ops w' \<le> effort (\<lambda>finished _. finished) ops w)"
  using assms
proof (induction rule: worked.induct)
  case (worked_caller m v w')
  then show ?case
    using caller_step [OF worked_caller(2,3)] newer_step [OF worked_caller(2)]
      effort_caller [OF worked_caller(2,3), of "\<lambda>finished _. finished"] by auto
next
  case (worked_move m v w')
  then have I: "op_is_shutdown ops (w_proc v)" "newer ops v" by simp_all
  have alive: "w_pc v \<noteq> Exited" using worked_move(2) by (auto elim!: worker_move.cases)
  have "effort (\<lambda>finished _. finished) ops w' < effort (\<lambda>finished _. finished) ops v" if "w_pc w' \<noteq> Exited"
  proof (rule effort_move [OF worked_move(2,3)])
    show "finished" if "op_collect ops (w_proc v) = ((batch, finished, pending), p')"
      "op_queue ops p' = []" for finished pending batch p'
      using collect_law [OF that(1)] that(2) I(1) by simp
    show "\<not> finished" if "w_pc v = Acking finished pending" for finished pending
      using worked_move(2) that \<open>w_pc w' \<noteq> Exited\<close> by (auto simp: ack_world_def elim!: worker_move.cases)
  qed
  with worked_move newer_move [OF worked_move(2) I(2)] alive show ?case by auto
qed simp

lemma exited_flush:
  assumes "worker_inv ops w" "w_pc w = Exited" "(target, n) \<in> set (w_flushes w)"
  shows "flush_completed ops w target"
  using assms by (auto simp: worker_inv_def promise_def tickets_ok_def flush_completed_def)

lemma not_stuck: "w_pc w \<noteq> Exited \<Longrightarrow> \<exists>w'. worker_move ops w w'"
  by (cases "w_pc w") (auto intro: worker_move.intros)

end

end
