(* ===== verification/Log_Pipeline.thy ===== *)
theory Log_Pipeline
  imports Batch_Worker Sdk_Span
begin

text \<open>
  The log pipeline: \<open>SdkLogger\<close> (\<open>src/sdk/sdk_logger.cpp\<close>), \<open>BatchLogRecordProcessor\<close>
  (\<open>src/sdk/batch_log_record_processor.cpp\<close>) and the synchronous processors
  \<open>SimpleLogRecordProcessor\<close> and \<open>SimpleSpanProcessor\<close>. The batching processor is a second instance
  of the skeleton in \<open>Batch_Worker\<close>. With \<open>max_queue_size = 0\<close> and \<open>DropOldest\<close> the code pops an
  empty deque, which is undefined; the model leaves the queue empty there, and the statements
  about the cap assume a positive one.

  Proved here: correlation and attribute limits of an emitted record, the queue cap, order and
  conservation, and that flush and shutdown deliver, for logs as for spans.
\<close>

section \<open>Records and the logger\<close>

record LogRecord =
  log_time :: int
  log_observed_time :: int
  log_severity_number :: nat
  log_severity_text :: string
  log_body :: AttributeValue
  log_attributes :: "KeyValue list"
  log_dropped_attributes_count :: u32
  log_trace_id :: TraceId
  log_span_id :: SpanId
  log_trace_flags :: TraceFlags
  log_event_name :: string

record SdkLogger =
  lg_scope :: InstrumentationScope
  lg_max_attributes :: nat

text \<open>The current-span source is optional; \<open>Some ctx\<close> is a source that reports \<open>ctx\<close>.\<close>

definition FillTraceContext :: "SpanContext option \<Rightarrow> LogRecord \<Rightarrow> LogRecord" where
  "FillTraceContext source r =
     (case source of
        None \<Rightarrow> r
      | Some ctx \<Rightarrow>
          if TraceId_IsValid (log_trace_id r) then r
          else if SpanContext_IsValid ctx
          then r\<lparr>log_trace_id := trace_id ctx, log_span_id := span_id ctx,
                 log_trace_flags := trace_flags ctx\<rparr>
          else r)"

definition EnforceAttributeLimit :: "nat \<Rightarrow> LogRecord \<times> sink \<Rightarrow> LogRecord \<times> sink" where
  "EnforceAttributeLimit max_attributes = (\<lambda>(r, diag).
     if length (log_attributes r) \<le> max_attributes then (r, diag)
     else
       let overflow = length (log_attributes r) - max_attributes
       in (r\<lparr>log_attributes := take max_attributes (log_attributes r),
             log_dropped_attributes_count := log_dropped_attributes_count r + of_nat overflow\<rparr>,
           count_drop LogAttributeLimit overflow diag))"

text \<open>\<open>Emit\<close> up to the hand-over: the record the processor receives with the logger's scope.\<close>

definition Emit_record ::
    "SdkLogger \<Rightarrow> SpanContext option \<Rightarrow> int \<Rightarrow> LogRecord \<times> sink \<Rightarrow> LogRecord \<times> sink" where
  "Emit_record logger source now = (\<lambda>(r, diag).
     let r1 = (if log_observed_time r = 0 then r\<lparr>log_observed_time := now\<rparr> else r);
         r2 = FillTraceContext source r1
     in EnforceAttributeLimit (lg_max_attributes logger) (r2, diag))"

section \<open>The batching processor\<close>

record QueuedLog =
  ql_record :: LogRecord
  ql_scope :: InstrumentationScope

record BatchLogRecordProcessor =
  lp_resource :: "resource_ptr option"
  lp_opts :: BatchOptions
  lp_queue :: "QueuedLog list"
  lp_shutdown :: bool
  lp_flush_seq :: nat
  lp_flush_done_seq :: nat

definition BatchLogRecordProcessor_new ::
    "resource_ptr option \<Rightarrow> BatchOptions \<Rightarrow> BatchLogRecordProcessor" where
  "BatchLogRecordProcessor_new resource opts =
     \<lparr>lp_resource = resource, lp_opts = opts, lp_queue = [], lp_shutdown = False,
      lp_flush_seq = 0, lp_flush_done_seq = 0\<rparr>"

text \<open>\<open>OnEmit\<close>, reporting whether the record was queued.\<close>

definition OnEmit ::
    "LogRecord \<Rightarrow> InstrumentationScope \<Rightarrow> BatchLogRecordProcessor \<times> sink \<Rightarrow>
     bool \<times> BatchLogRecordProcessor \<times> sink" where
  "OnEmit r scope = (\<lambda>(p, diag).
     if lp_shutdown p then (False, p, count_drop PostShutdown 1 diag)
     else if length (lp_queue p) \<ge> max_queue_size (lp_opts p)
     then
       let diag1 = count_drop QueueFull 1 diag
       in if drop_policy (lp_opts p) = DropOldest
          then (True,
                p\<lparr>lp_queue := drop 1 (lp_queue p) @ [\<lparr>ql_record = r, ql_scope = scope\<rparr>]\<rparr>, diag1)
          else (False, p, diag1)
     else (True, p\<lparr>lp_queue := lp_queue p @ [\<lparr>ql_record = r, ql_scope = scope\<rparr>]\<rparr>, diag))"

definition blp_SetOptions :: "BatchOptions \<Rightarrow> BatchLogRecordProcessor \<Rightarrow> BatchLogRecordProcessor" where
  "blp_SetOptions opts p = p\<lparr>lp_opts := opts\<rparr>"

definition blp_ForceFlush_request ::
    "BatchLogRecordProcessor \<Rightarrow> nat option \<times> BatchLogRecordProcessor" where
  "blp_ForceFlush_request p =
     (if lp_shutdown p then (None, p)
      else (Some (lp_flush_seq p + 1), p\<lparr>lp_flush_seq := lp_flush_seq p + 1\<rparr>))"

definition blp_ForceFlush_result :: "nat option \<Rightarrow> BatchLogRecordProcessor \<Rightarrow> Status" where
  "blp_ForceFlush_result ticket p =
     (case ticket of
        None \<Rightarrow> AlreadyShutDown
      | Some target \<Rightarrow> if lp_flush_done_seq p \<ge> target then Completed else TimedOut)"

definition blp_Shutdown_request ::
    "BatchLogRecordProcessor \<Rightarrow> bool \<times> BatchLogRecordProcessor" where
  "blp_Shutdown_request p = (if lp_shutdown p then (False, p) else (True, p\<lparr>lp_shutdown := True\<rparr>))"

fun blp_pop_fronts ::
    "nat \<Rightarrow> BatchLogRecordProcessor \<Rightarrow> QueuedLog list \<Rightarrow> QueuedLog list \<times> BatchLogRecordProcessor" where
  "blp_pop_fronts 0 p batch = (batch, p)"
| "blp_pop_fronts (Suc count) p batch =
     (case lp_queue p of
        [] \<Rightarrow> (batch, p)
      | front # rest \<Rightarrow> blp_pop_fronts count (p\<lparr>lp_queue := rest\<rparr>) (batch @ [front]))"

definition blp_WaitAndCollect ::
    "BatchLogRecordProcessor \<Rightarrow> (QueuedLog list \<times> bool \<times> nat) \<times> BatchLogRecordProcessor" where
  "blp_WaitAndCollect p =
     (let count = min (length (lp_queue p)) (max_export_batch_size (lp_opts p));
          (batch, p1) = blp_pop_fronts count p [];
          pending_flush_seq =
            (if lp_flush_seq p1 > lp_flush_done_seq p1 \<and> lp_queue p1 = [] then lp_flush_seq p1 else 0)
      in ((batch, lp_shutdown p1 \<and> lp_queue p1 = [], pending_flush_seq), p1))"

definition blp_acknowledge_flush :: "nat \<Rightarrow> BatchLogRecordProcessor \<Rightarrow> BatchLogRecordProcessor" where
  "blp_acknowledge_flush pending p = p\<lparr>lp_flush_done_seq := pending\<rparr>"

record LogBatchHandle =
  lh_records :: "LogRecord list"
  lh_resource :: "resource_ptr option"
  lh_scope :: InstrumentationScope

definition same_scope :: "QueuedLog \<Rightarrow> InstrumentationScope \<Rightarrow> bool" where
  "same_scope item scope \<longleftrightarrow> scope_name scope = scope_name (ql_scope item) \<and>
     scope_version scope = scope_version (ql_scope item)"

fun push_group ::
    "QueuedLog \<Rightarrow> (InstrumentationScope \<times> LogRecord list) list \<Rightarrow>
     (InstrumentationScope \<times> LogRecord list) list" where
  "push_group item [] = [(ql_scope item, [ql_record item])]"
| "push_group item ((scope, records) # groups) =
     (if same_scope item scope then (scope, records @ [ql_record item]) # groups
      else (scope, records) # push_group item groups)"

definition blp_ExportBatch :: "BatchLogRecordProcessor \<Rightarrow> QueuedLog list \<Rightarrow> LogBatchHandle list" where
  "blp_ExportBatch p batch =
     (let groups = foldl (\<lambda>groups item. push_group item groups) [] batch
      in map (\<lambda>(scope, records).
                \<lparr>lh_records = records, lh_resource = lp_resource p, lh_scope = scope\<rparr>) groups)"

definition blp_ops ::
    "(BatchLogRecordProcessor, QueuedLog, LogRecord \<times> InstrumentationScope, LogBatchHandle) worker_ops" where
  "blp_ops =
     \<lparr>op_enq = (\<lambda>(r, scope). OnEmit r scope),
      op_item = (\<lambda>(r, scope). \<lparr>ql_record = r, ql_scope = scope\<rparr>),
      op_set_options = blp_SetOptions, op_flush = blp_ForceFlush_request,
      op_shutdown = blp_Shutdown_request, op_collect = blp_WaitAndCollect,
      op_export = blp_ExportBatch, op_ack = blp_acknowledge_flush,
      op_queue = lp_queue, op_is_shutdown = lp_shutdown, op_flush_seq = lp_flush_seq,
      op_flush_done_seq = lp_flush_done_seq, op_options = lp_opts\<rparr>"

lemma blp_pop_fronts_eq:
  "count \<le> length (lp_queue p) \<Longrightarrow> blp_pop_fronts count p batch =
     (batch @ take count (lp_queue p), p\<lparr>lp_queue := drop count (lp_queue p)\<rparr>)"
proof (induction count arbitrary: p batch)
  case (Suc count)
  then obtain front rest where "lp_queue p = front # rest" by (cases "lp_queue p") auto
  with Suc show ?case by simp
qed simp

lemma blp_WaitAndCollect_eq:
  "blp_WaitAndCollect p =
     (let n = max_export_batch_size (lp_opts p); rest = drop n (lp_queue p)
      in ((take n (lp_queue p), lp_shutdown p \<and> rest = [],
           if lp_flush_seq p > lp_flush_done_seq p \<and> rest = [] then lp_flush_seq p else 0),
          p\<lparr>lp_queue := rest\<rparr>))"
  by (simp add: blp_WaitAndCollect_def blp_pop_fronts_eq Let_def min_def)

lemma blp_ExportBatch_cong: "lp_resource p' = lp_resource p \<Longrightarrow> blp_ExportBatch p' = blp_ExportBatch p"
  by (rule ext) (simp add: blp_ExportBatch_def)

interpretation blp: draining_worker blp_ops
proof
  fix r :: "LogRecord \<times> InstrumentationScope" and p diag acc p' diag'
  assume e: "op_enq blp_ops r (p, diag) = (acc, p', diag')"
  obtain rec scope where r: "r = (rec, scope)" by fastforce
  from e have e': "OnEmit rec scope (p, diag) = (acc, p', diag')" by (simp add: blp_ops_def r)
  have "\<exists>k \<le> length (lp_queue p). lp_queue p' = drop k (lp_queue p) @
      (if acc then [\<lparr>ql_record = rec, ql_scope = scope\<rparr>] else [])"
  proof (cases "lp_queue p' = drop 1 (lp_queue p) @ (if acc then [\<lparr>ql_record = rec, ql_scope = scope\<rparr>] else [])
      \<and> lp_queue p \<noteq> []")
    case True
    then show ?thesis by (intro exI [of _ 1]) (simp add: Suc_le_eq)
  next
    case False
    then show ?thesis
      using e' by (intro exI [of _ 0]) (auto simp: OnEmit_def Let_def split: if_splits)
  qed
  then show "\<exists>k \<le> length (op_queue blp_ops p). op_queue blp_ops p' =
      drop k (op_queue blp_ops p) @ (if acc then [op_item blp_ops r] else [])"
    by (cases acc) (simp_all add: blp_ops_def r)
  show "op_queue blp_ops p' = op_queue blp_ops p @ (if acc then [op_item blp_ops r] else [])"
    if "drop_policy (op_options blp_ops p) = DropNewest"
    using that e' by (auto simp: blp_ops_def r OnEmit_def Let_def split: if_splits)
  show "\<not> acc \<and> op_queue blp_ops p' = op_queue blp_ops p" if "op_is_shutdown blp_ops p"
    using that e' by (simp add: blp_ops_def OnEmit_def)
  show "same_control blp_ops p p'"
    using e' by (auto simp: same_control_def blp_ops_def OnEmit_def Let_def split: if_splits
        intro!: blp_ExportBatch_cong)
qed (auto simp: blp_ops_def same_control_def blp_SetOptions_def blp_ForceFlush_request_def
    blp_Shutdown_request_def blp_acknowledge_flush_def blp_WaitAndCollect_eq Let_def
    intro!: blp_ExportBatch_cong split: if_splits)

section \<open>The logger\<close>

text \<open>
  What a log call emits. The observation time is filled in if unset; the trace correlation
  is the record's own if it has a valid trace id, else the current span's if there is a valid one;
  the first \<open>max_attributes\<close> attributes are kept in order, and the surplus is added to the record's
  dropped count and charged to the sink.
\<close>

theorem emit_record_spec:
  "case Emit_record logger source now (r, diag) of (r', diag') \<Rightarrow>
     let surplus = length (log_attributes r) - lg_max_attributes logger
     in log_observed_time r' = (if log_observed_time r = 0 then now else log_observed_time r) \<and>
        (log_trace_id r', log_span_id r', log_trace_flags r') =
          (case source of
             Some ctx \<Rightarrow> if \<not> TraceId_IsValid (log_trace_id r) \<and> SpanContext_IsValid ctx
                         then (trace_id ctx, span_id ctx, trace_flags ctx)
                         else (log_trace_id r, log_span_id r, log_trace_flags r)
           | None \<Rightarrow> (log_trace_id r, log_span_id r, log_trace_flags r)) \<and>
        log_attributes r' = take (lg_max_attributes logger) (log_attributes r) \<and>
        log_dropped_attributes_count r' = log_dropped_attributes_count r + of_nat surplus \<and>
        diag' = count_drop LogAttributeLimit surplus diag"
  by (auto simp: Emit_record_def FillTraceContext_def EnforceAttributeLimit_def Let_def
      split: option.splits)

section \<open>The queue cap\<close>

text \<open>
  The log queue and its cap. A record that finds room is appended; at the cap exactly one
  record is lost and counted, the incoming one or the oldest. So the queue never grows past the
  larger of the cap and its present length; but a queue that is over the cap, because the cap was
  lowered while it was full, is not brought back under it: under \<open>DropOldest\<close> its length stays.
\<close>

theorem log_queue_cap:
  assumes "OnEmit r scope (p, diag) = (queued, p', diag')"
  shows "length (lp_queue p') \<le> max (max_queue_size (lp_opts p)) (max 1 (length (lp_queue p))) \<and>
    (\<not> lp_shutdown p \<and> length (lp_queue p) \<ge> max_queue_size (lp_opts p) \<and> lp_queue p \<noteq> [] \<longrightarrow>
       length (lp_queue p') = length (lp_queue p) \<and>
       diag' = count_drop QueueFull 1 diag \<and>
       lp_queue p' = (if drop_policy (lp_opts p) = DropOldest
         then tl (lp_queue p) @ [\<lparr>ql_record = r, ql_scope = scope\<rparr>] else lp_queue p)) \<and>
    (\<not> lp_shutdown p \<and> length (lp_queue p) < max_queue_size (lp_opts p) \<longrightarrow>
       queued \<and> lp_queue p' = lp_queue p @ [\<lparr>ql_record = r, ql_scope = scope\<rparr>] \<and> diag' = diag)"
proof -
  have "length (drop (Suc 0) (lp_queue p)) + 1 \<le> max 1 (length (lp_queue p))"
    by (cases "lp_queue p") auto
  then show ?thesis
    using assms by (cases "lp_queue p") (auto simp: OnEmit_def Let_def split: if_splits)
qed

definition sample_log :: LogRecord where
  "sample_log =
     \<lparr>log_time = 0, log_observed_time = 0, log_severity_number = 9, log_severity_text = ''INFO'',
      log_body = AV_string ''hello'', log_attributes = [], log_dropped_attributes_count = 0,
      log_trace_id = TraceId_default, log_span_id = SpanId_default,
      log_trace_flags = \<lparr>flag_bits = 0\<rparr>, log_event_name = []\<rparr>"

definition sample_log_scope :: InstrumentationScope where
  "sample_log_scope = \<lparr>scope_name = ''lib'', scope_version = ''1''\<rparr>"

theorem log_queue_cap_witness:
  "let item = \<lparr>ql_record = sample_log, ql_scope = sample_log_scope\<rparr>;
       p = (BatchLogRecordProcessor_new None
              (BatchOptions_default\<lparr>max_queue_size := 1, drop_policy := DropOldest\<rparr>))
             \<lparr>lp_queue := [item, item, item]\<rparr>
   in length (lp_queue (fst (snd (OnEmit sample_log sample_log_scope (p, None))))) = 3"
proof -
  let ?item = "\<lparr>ql_record = sample_log, ql_scope = sample_log_scope\<rparr>"
  let ?p = "(BatchLogRecordProcessor_new None
      (BatchOptions_default\<lparr>max_queue_size := 1, drop_policy := DropOldest\<rparr>))
      \<lparr>lp_queue := [?item, ?item, ?item]\<rparr>"
  obtain queued p' diag' where e: "OnEmit sample_log sample_log_scope (?p, None) = (queued, p', diag')"
    by (metis surj_pair)
  from log_queue_cap [OF e] have "length (lp_queue p') = 3"
    by (simp add: BatchLogRecordProcessor_new_def)
  then show ?thesis unfolding Let_def e by simp
qed

section \<open>Grouping\<close>

lemma push_group_map:
  assumes "distinct ss"
  shows "push_group item (map (\<lambda>s. (s, f s)) ss) =
    (if ql_scope item \<in> set ss
     then map (\<lambda>s. (s, f s @ (if s = ql_scope item then [ql_record item] else []))) ss
     else map (\<lambda>s. (s, f s)) ss @ [(ql_scope item, [ql_record item])])"
  using assms
proof (induction ss)
  case (Cons s ss)
  have "same_scope item s \<longleftrightarrow> s = ql_scope item" by (auto simp: same_scope_def)
  with Cons show ?case by (auto intro!: map_cong)
qed simp

lemma log_groups:
  "foldl (\<lambda>groups item. push_group item groups) [] batch =
     map (\<lambda>s. (s, map ql_record (filter (\<lambda>x. ql_scope x = s) batch)))
       (first_seen (map ql_scope batch))"
proof (induction batch rule: rev_induct)
  case (snoc item batch)
  then show ?case
    by (auto simp: push_group_map distinct_first_seen first_seen_snoc filter_empty_conv image_iff
        intro!: map_cong)
qed simp

text \<open>
  The grouping of a drained log batch. One handle per scope, in the order in which the scopes
  first occur, each with exactly the records of its scope in queue order and the processor's
  resource.
\<close>

theorem log_batch_grouping:
  "blp_ExportBatch p batch =
     map (\<lambda>scope. \<lparr>lh_records = map ql_record (filter (\<lambda>x. ql_scope x = scope) batch),
                   lh_resource = lp_resource p, lh_scope = scope\<rparr>)
       (first_seen (map ql_scope batch))"
  by (simp add: blp_ExportBatch_def log_groups)

section \<open>The processor with its threads\<close>

abbreviation blp_start ::
    "resource_ptr option \<Rightarrow> BatchOptions \<Rightarrow> sink \<Rightarrow>
     (BatchLogRecordProcessor, QueuedLog, LogBatchHandle) world" where
  "blp_start resource opts diag \<equiv> world_init (BatchLogRecordProcessor_new resource opts) diag"

lemma blp_start_inv: "worker_inv blp_ops (blp_start resource opts diag)"
  by (rule blp.inv_init) (simp_all add: blp_ops_def BatchLogRecordProcessor_new_def)

lemmas blp_reachable_inv = blp.inv_reachable [OF _ blp_start_inv]

text \<open>
  The log processor delivers. In every reachable state the accepted records have, in order,
  left the queue or are in it, and the exporter has received exactly the grouped batches; when a flush
  has returned \<open>Completed\<close>, each record accepted before it was exported or evicted; and once the worker
  has exited nothing is left behind.
\<close>

theorem log_processor_delivers:
  assumes "reachable blp_ops (blp_start resource opts diag) w"
  shows "map snd (w_gone w) @ lp_queue (w_proc w) = w_accepted w \<and>
    w_calls w = concat (map (blp_ExportBatch (w_proc w)) (w_batches w)) \<and>
    records_with Exported w = concat (w_batches w) \<and>
    ((target, n) \<in> set (w_flushes w) \<and> blp_ForceFlush_result (Some target) (w_proc w) = Completed \<longrightarrow>
       settled w n) \<and>
    (w_pc w = Exited \<longrightarrow> lp_queue (w_proc w) = [] \<and> settled w (length (w_accepted w)))"
proof -
  note I = blp_reachable_inv [OF assms]
  have "flush_completed blp_ops w target"
    if "blp_ForceFlush_result (Some target) (w_proc w) = Completed"
    using that by (simp add: blp_ForceFlush_result_def flush_completed_def blp_ops_def split: if_splits)
  then show ?thesis
    using blp.no_loss [OF I] blp.flush_settles [OF I] blp.exit_settles [OF I]
    by (auto simp: blp_ops_def)
qed

theorem log_processor_delivers_witness:
  "let w = enq_world blp_ops (sample_log, sample_log_scope) (blp_start None BatchOptions_default None)
   in lp_queue (w_proc w) = w_accepted w"
proof -
  let ?start = "blp_start None BatchOptions_default None"
  let ?w = "enq_world blp_ops (sample_log, sample_log_scope) ?start"
  have "reachable blp_ops ?start ?w" by (rule reach_step [OF reach_init]) (rule ws_enqueue)
  moreover have "w_gone ?w = []"
    by (simp add: enq_world_def blp_ops_def OnEmit_def world_init_def BatchLogRecordProcessor_new_def
        BatchOptions_default_def)
  ultimately show ?thesis
    using log_processor_delivers [of None BatchOptions_default None ?w] by (simp add: Let_def)
qed

section \<open>The synchronous processors\<close>

text \<open>
  Each ended span and each emitted record becomes a batch of one, exported before the call
  returns. The state is the list of batches handed to the exporter.
\<close>

definition SimpleSpanProcessor_OnEnd ::
    "resource_ptr option \<Rightarrow> (SpanRecord list \<times> resource_ptr option \<times> InstrumentationScope) list on_end" where
  "SimpleSpanProcessor_OnEnd m_resource r scope = (\<lambda>(exported, diag).
     let resource = (if rec_resource r \<noteq> None then rec_resource r else m_resource)
     in (moved_from r, exported @ [([r], resource, scope)], diag))"

definition SimpleLogRecordProcessor_OnEmit ::
    "resource_ptr option \<Rightarrow> LogRecord \<Rightarrow> InstrumentationScope \<Rightarrow> LogBatchHandle list \<Rightarrow>
     LogBatchHandle list" where
  "SimpleLogRecordProcessor_OnEmit m_resource r scope exported =
     exported @ [\<lparr>lh_records = [r], lh_resource = m_resource, lh_scope = scope\<rparr>]"

interpretation ssp: span_processor "SimpleSpanProcessor_OnEnd resource"
proof
  fix r scope and w :: "(SpanRecord list \<times> resource_ptr option \<times> InstrumentationScope) list \<times> sink"
    and left_over w'
  assume "SimpleSpanProcessor_OnEnd resource r scope w = (left_over, w')"
  then show "same_identity (rec_context left_over) (rec_context r)"
    by (auto simp: SimpleSpanProcessor_OnEnd_def moved_from_def Let_def split: prod.splits)
qed

text \<open>
  A span keeps its identity across \<open>End\<close>. With the synchronous processor, whatever is called
  on a span, \<open>GetContext\<close> reports the same trace id, span id and flags before and after; and until
  \<open>End\<close> the whole context, trace state included, is unchanged.
\<close>

theorem span_identity_stable:
  "same_identity
     (GetContext (fst (fst (span_run (SimpleSpanProcessor_OnEnd resource) ops ((s, diag), p)))))
     (GetContext s) \<and>
   (list_all (\<lambda>oper. \<not> is_End oper) ops \<longrightarrow>
      GetContext (fst (fst (span_run (SimpleSpanProcessor_OnEnd resource) ops ((s, diag), p)))) =
        GetContext s)"
  using ssp.run_identity ssp.live_context by (auto simp: list_all_iff)

theorem span_identity_stable_witness:
  "let c = SpanContext_default\<lparr>trace_state := \<lparr>m_entries = Some []\<rparr>\<rparr>;
       s = SdkSpan_new c SpanContext_default ''op'' Internal 0 7 sample_log_scope SpanLimitOptions_default
   in GetContext (fst (fst (span_run (SimpleSpanProcessor_OnEnd None) [Op_UpdateName ''x'']
        ((s, None), [])))) = c"
proof -
  let ?c = "SpanContext_default\<lparr>trace_state := \<lparr>m_entries = Some []\<rparr>\<rparr>"
  let ?s = "SdkSpan_new ?c SpanContext_default ''op'' Internal 0 7 sample_log_scope SpanLimitOptions_default"
  have "GetContext ?s = ?c" by (simp add: GetContext_def SdkSpan_new_def)
  with span_identity_stable [of None "[Op_UpdateName ''x'']" ?s None "[]"] show ?thesis
    by (simp add: Let_def)
qed

end
