(* ===== verification/Leaf_Time.thy ===== *)
theory Leaf_Time
  imports "HOL-Library.Multiset" "HOL-Library.Sublist" Span_Record
begin

text \<open>
  Timestamps of leaf devices (\<open>src/sdk/leaf_time.cpp\<close>): saturating 64-bit arithmetic, the
  corrections of the three time modes, and the boot anchor. An \<open>std::int64_t\<close> is an integer and
  \<open>in64\<close> its range; that no operation leaves the range, where C++ would be undefined, is proved.
  The anchor's fixed array with its count is a list of sixteen samples and a number.

  Proved here: the saturating operations are exact below the bounds and clamp at them, without
  overflow on the way; a correction keeps the order of timestamps; the anchor keeps the most recent
  samples of the current boot within the window and answers with the second-smallest offset.
\<close>

section \<open>Saturating arithmetic\<close>

definition kMax :: int where "kMax = 2 ^ 63 - 1"
definition kMin :: int where "kMin = - (2 ^ 63)"

definition in64 :: "int \<Rightarrow> bool" where
  "in64 x \<longleftrightarrow> kMin \<le> x \<and> x \<le> kMax"

definition SaturatingAdd :: "int \<Rightarrow> int \<Rightarrow> int" where
  "SaturatingAdd a b =
     (if b > 0 \<and> a > kMax - b then kMax
      else if b < 0 \<and> a < kMin - b then kMin
      else a + b)"

definition SaturatingSub :: "int \<Rightarrow> int \<Rightarrow> int" where
  "SaturatingSub a b =
     (if b < 0 \<and> a > kMax + b then kMax
      else if b > 0 \<and> a < kMin + b then kMin
      else a - b)"

definition clamp64 :: "int \<Rightarrow> int" where
  "clamp64 x = max kMin (min kMax x)"

section \<open>Corrections\<close>

record TimeCorrection =
  tc_offset :: int
  tc_fixed :: "int option"

record SyncLimits =
  max_sync_age :: int
  max_clock_skew :: int

definition Corrected :: "int \<Rightarrow> TimeCorrection \<Rightarrow> int" where
  "Corrected t c =
     (case tc_fixed c of Some f \<Rightarrow> f | None \<Rightarrow> max 0 (SaturatingAdd t (tc_offset c)))"

definition ConcentratorStamped :: "int \<Rightarrow> int option \<Rightarrow> TimeCorrection" where
  "ConcentratorStamped received encode_time =
     (case encode_time of
        None \<Rightarrow> \<lparr>tc_offset = 0, tc_fixed = Some (max 0 received)\<rparr>
      | Some e \<Rightarrow> \<lparr>tc_offset = SaturatingSub received e, tc_fixed = None\<rparr>)"

definition SyncRelative :: "int \<Rightarrow> int \<Rightarrow> int \<Rightarrow> SyncLimits \<Rightarrow> TimeCorrection option" where
  "SyncRelative received encode_time sync_age limits =
     (let skew = SaturatingSub received encode_time;
          abs_skew = (if skew \<ge> 0 then skew else SaturatingSub 0 skew);
          fresh = (sync_age \<ge> 0 \<and> sync_age \<le> max_sync_age limits)
      in if \<not> fresh \<or> abs_skew > max_clock_skew limits then None
         else Some \<lparr>tc_offset = 0, tc_fixed = None\<rparr>)"

definition ApplyTimeCorrection :: "TimeCorrection \<Rightarrow> SpanRecord \<Rightarrow> SpanRecord" where
  "ApplyTimeCorrection c r =
     r\<lparr>rec_start_time := Corrected (rec_start_time r) c,
       rec_end_time := Corrected (rec_end_time r) c,
       rec_events := map (ev_timestamp_update (\<lambda>t. Corrected t c)) (rec_events r)\<rparr>"

lemma SaturatingAdd_clamp: "in64 a \<Longrightarrow> in64 b \<Longrightarrow> SaturatingAdd a b = clamp64 (a + b)"
  by (auto simp: SaturatingAdd_def clamp64_def in64_def kMax_def kMin_def)

lemma SaturatingSub_clamp: "in64 a \<Longrightarrow> in64 b \<Longrightarrow> SaturatingSub a b = clamp64 (a - b)"
  by (auto simp: SaturatingSub_def clamp64_def in64_def kMax_def kMin_def)

lemma clamp64_mono: "x \<le> y \<Longrightarrow> clamp64 x \<le> clamp64 y"
  by (auto simp: clamp64_def)

lemma clamp64_range: "in64 (clamp64 x)"
  by (simp add: clamp64_def in64_def kMax_def kMin_def)

lemma Corrected_mono:
  assumes "in64 s" "in64 t" "in64 (tc_offset c)" "s \<le> t"
  shows "Corrected s c \<le> Corrected t c"
  using assms clamp64_mono [of "s + tc_offset c" "t + tc_offset c"]
  by (auto simp: Corrected_def SaturatingAdd_clamp split: option.splits)

text \<open>
  Correcting timestamps. The saturating operations return the mathematical sum or difference
  clamped to 64 bits, and the bounds they compare with do not overflow either. So any
  correction is monotone: a span that starts before it ends still does after
  \<open>ApplyTimeCorrection\<close>, no corrected time is negative unless it was pinned so, and where nothing
  saturates the duration is kept.
\<close>

theorem time_correction_ordered:
  assumes "in64 (rec_start_time r)" "in64 (rec_end_time r)" "in64 (tc_offset c)"
    "rec_start_time r \<le> rec_end_time r"
  shows "SaturatingAdd (rec_start_time r) (tc_offset c) = clamp64 (rec_start_time r + tc_offset c) \<and>
    SaturatingSub (rec_start_time r) (tc_offset c) = clamp64 (rec_start_time r - tc_offset c) \<and>
    (tc_offset c > 0 \<longrightarrow> in64 (kMax - tc_offset c) \<and> in64 (kMin + tc_offset c)) \<and>
    (tc_offset c < 0 \<longrightarrow> in64 (kMin - tc_offset c) \<and> in64 (kMax + tc_offset c)) \<and>
    rec_start_time (ApplyTimeCorrection c r) \<le> rec_end_time (ApplyTimeCorrection c r) \<and>
    (tc_fixed c = None \<and> 0 \<le> rec_start_time r + tc_offset c \<and>
       rec_end_time r + tc_offset c \<le> kMax \<longrightarrow>
     rec_end_time (ApplyTimeCorrection c r) - rec_start_time (ApplyTimeCorrection c r) =
       rec_end_time r - rec_start_time r)"
proof (intro conjI impI)
  show "SaturatingAdd (rec_start_time r) (tc_offset c) = clamp64 (rec_start_time r + tc_offset c)"
    using assms by (simp add: SaturatingAdd_clamp)
  show "SaturatingSub (rec_start_time r) (tc_offset c) = clamp64 (rec_start_time r - tc_offset c)"
    using assms by (simp add: SaturatingSub_clamp)
  show "rec_start_time (ApplyTimeCorrection c r) \<le> rec_end_time (ApplyTimeCorrection c r)"
    using assms Corrected_mono by (simp add: ApplyTimeCorrection_def)
  assume "tc_fixed c = None \<and> 0 \<le> rec_start_time r + tc_offset c \<and> rec_end_time r + tc_offset c \<le> kMax"
  then show "rec_end_time (ApplyTimeCorrection c r) - rec_start_time (ApplyTimeCorrection c r) =
      rec_end_time r - rec_start_time r"
    using assms by (auto simp: ApplyTimeCorrection_def Corrected_def SaturatingAdd_clamp clamp64_def
        kMin_def)
qed (use assms(3) in \<open>auto simp: in64_def kMax_def kMin_def\<close>)

theorem time_correction_ordered_witness:
  "let r = SpanRecord_default\<lparr>rec_start_time := 5, rec_end_time := 9\<rparr>;
       c = ConcentratorStamped 100 (Some 40)
   in rec_end_time (ApplyTimeCorrection c r) - rec_start_time (ApplyTimeCorrection c r) = 4"
proof -
  let ?r = "SpanRecord_default\<lparr>rec_start_time := 5, rec_end_time := 9\<rparr>"
  let ?c = "ConcentratorStamped 100 (Some 40)"
  have c: "tc_offset ?c = 60" "tc_fixed ?c = None"
    by (simp_all add: ConcentratorStamped_def SaturatingSub_def kMin_def)
  have "in64 (rec_start_time ?r)" "in64 (rec_end_time ?r)" "in64 (tc_offset ?c)"
    by (simp_all add: c in64_def kMax_def kMin_def)
  from time_correction_ordered [OF this] show ?thesis by (simp add: c Let_def kMax_def)
qed

section \<open>The boot anchor\<close>

record Sample =
  s_offset :: int
  s_at :: int

record BootSample =
  bs_boot_id :: int
  bs_offset :: int
  bs_at :: int

record BootAnchor =
  ba_boot_id :: "int option"
  ba_samples :: "Sample list"
  ba_count :: nat

definition kMaxSamples :: nat where "kMaxSamples = 16"

definition BootAnchor_new :: BootAnchor where
  "BootAnchor_new =
     \<lparr>ba_boot_id = None, ba_samples = replicate kMaxSamples \<lparr>s_offset = 0, s_at = 0\<rparr>, ba_count = 0\<rparr>"

text \<open>\<open>AgeOut\<close>: the loop index runs from \<open>i\<close> over the remaining samples.\<close>

fun AgeOut_loop :: "int \<Rightarrow> nat \<Rightarrow> nat \<Rightarrow> Sample list \<Rightarrow> nat \<Rightarrow> Sample list \<times> nat" where
  "AgeOut_loop cutoff 0 i samples kept = (samples, kept)"
| "AgeOut_loop cutoff (Suc n) i samples kept =
     (if s_at (samples ! i) \<ge> cutoff
      then AgeOut_loop cutoff n (i + 1) (samples[kept := samples ! i]) (kept + 1)
      else AgeOut_loop cutoff n (i + 1) samples kept)"

definition AgeOut :: "int \<Rightarrow> BootAnchor \<Rightarrow> BootAnchor" where
  "AgeOut cutoff a =
     (let (samples, kept) = AgeOut_loop cutoff (ba_count a) 0 (ba_samples a) 0
      in a\<lparr>ba_samples := samples, ba_count := kept\<rparr>)"

fun shift_down :: "nat \<Rightarrow> nat \<Rightarrow> Sample list \<Rightarrow> Sample list" where
  "shift_down 0 i samples = samples"
| "shift_down (Suc n) i samples = shift_down n (i + 1) (samples[i - 1 := samples ! i])"

fun Anchor_loop :: "Sample list \<Rightarrow> int \<Rightarrow> int \<Rightarrow> int \<times> int" where
  "Anchor_loop [] lowest second = (lowest, second)"
| "Anchor_loop (s # ss) lowest second =
     (let b = s_offset s
      in if b < lowest then Anchor_loop ss b lowest
         else if b < second then Anchor_loop ss lowest b
         else Anchor_loop ss lowest second)"

definition Anchor :: "BootAnchor \<Rightarrow> int" where
  "Anchor a =
     (let (lowest, second) = Anchor_loop (take (ba_count a) (ba_samples a)) kMax kMax
      in if ba_count a < 2 then lowest else second)"

definition BootAnchor_Update :: "BootSample \<Rightarrow> int \<Rightarrow> BootAnchor \<Rightarrow> int \<times> BootAnchor" where
  "BootAnchor_Update sample window a =
     (let a1 = (if ba_boot_id a \<noteq> Some (bs_boot_id sample)
                then a\<lparr>ba_boot_id := Some (bs_boot_id sample), ba_count := 0\<rparr> else a);
          a2 = AgeOut (SaturatingSub (bs_at sample) window) a1;
          a3 = (if ba_count a2 = kMaxSamples
                then a2\<lparr>ba_samples := shift_down (ba_count a2 - 1) 1 (ba_samples a2),
                        ba_count := ba_count a2 - 1\<rparr>
                else a2);
          a4 = a3\<lparr>ba_samples := (ba_samples a3)
                    [ba_count a3 := \<lparr>s_offset = bs_offset sample, s_at = bs_at sample\<rparr>],
                  ba_count := ba_count a3 + 1\<rparr>
      in (Anchor a4, a4))"

definition active :: "BootAnchor \<Rightarrow> Sample list" where
  "active a = take (ba_count a) (ba_samples a)"

definition anchor_inv :: "BootAnchor \<Rightarrow> bool" where
  "anchor_inv a \<longleftrightarrow> length (ba_samples a) = kMaxSamples \<and> ba_count a \<le> kMaxSamples \<and>
     (\<forall>x \<in> set (active a). s_offset x \<le> kMax)"

lemma AgeOut_loop_eq:
  assumes "kept \<le> i" "i + n \<le> length samples" "AgeOut_loop cutoff n i samples kept = (samples', kept')"
  shows "length samples' = length samples \<and> kept' \<le> i + n \<and>
    take kept' samples' = take kept samples @ filter (\<lambda>x. s_at x \<ge> cutoff) (take n (drop i samples))"
  using assms
proof (induction n arbitrary: i samples kept)
  case (Suc n)
  have d: "take (Suc n) (drop i samples) = samples ! i # take n (drop (Suc i) samples)"
    using Suc.prems(2) by (simp add: Cons_nth_drop_Suc [symmetric])
  show ?case
  proof (cases "s_at (samples ! i) \<ge> cutoff")
    case True
    let ?s = "samples[kept := samples ! i]"
    have "take (kept + 1) ?s = take kept samples @ [samples ! i]"
      using Suc.prems(1,2) by (simp add: take_Suc_conv_app_nth)
    moreover have "drop (Suc i) ?s = drop (Suc i) samples" using Suc.prems(1) by simp
    ultimately show ?thesis
      using Suc.IH [of "kept + 1" "i + 1" ?s] Suc.prems True d by simp
  next
    case False
    then show ?thesis using Suc.IH [of kept "i + 1" samples] Suc.prems d by simp
  qed
qed simp

lemma AgeOut_facts:
  assumes "anchor_inv a"
  shows "anchor_inv (AgeOut cutoff a)" "ba_boot_id (AgeOut cutoff a) = ba_boot_id a"
    "active (AgeOut cutoff a) = filter (\<lambda>x. s_at x \<ge> cutoff) (active a)"
proof -
  obtain samples kept where l: "AgeOut_loop cutoff (ba_count a) 0 (ba_samples a) 0 = (samples, kept)"
    by fastforce
  have "length samples = kMaxSamples \<and> kept \<le> ba_count a \<and>
      take kept samples = filter (\<lambda>x. s_at x \<ge> cutoff) (active a)"
    using AgeOut_loop_eq [OF _ _ l] assms by (simp add: anchor_inv_def active_def)
  with assms l show "anchor_inv (AgeOut cutoff a)" "ba_boot_id (AgeOut cutoff a) = ba_boot_id a"
    "active (AgeOut cutoff a) = filter (\<lambda>x. s_at x \<ge> cutoff) (active a)"
    by (auto simp: AgeOut_def anchor_inv_def active_def)
qed

lemma shift_down_eq:
  "0 < i \<Longrightarrow> i + n \<le> length samples \<Longrightarrow>
   take (i - 1 + n) (shift_down n i samples) = take (i - 1) samples @ take n (drop i samples) \<and>
   length (shift_down n i samples) = length samples"
proof (induction n arbitrary: i samples)
  case (Suc n)
  let ?s = "samples[i - 1 := samples ! i]"
  have "take i ?s = take (i - 1) samples @ [samples ! i]"
    using Suc.prems take_Suc_conv_app_nth [of "i - 1" ?s] by simp
  moreover have "take (Suc n) (drop i samples) = samples ! i # take n (drop (Suc i) samples)"
    using Suc.prems(2) by (simp add: Cons_nth_drop_Suc [symmetric])
  moreover have "drop (Suc i) ?s = drop (Suc i) samples" by simp
  ultimately show ?case using Suc.IH [of "i + 1" ?s] Suc.prems by simp
qed simp

subsection \<open>The second-smallest offset\<close>

lemma take2_insort:
  assumes "sorted ws" "length ws \<ge> 2" "ws ! 1 \<le> (z :: int)"
  shows "take 2 (insort z ws) = take 2 ws"
proof -
  obtain a b r where "ws = a # b # r" using assms(2) by (cases ws; cases "tl ws") auto
  with assms show ?thesis by auto
qed

lemma two_below:
  assumes "sorted ws" "mset ws = mset (x # y # zs)" "x \<le> z" "y \<le> (z :: int)"
  shows "length ws \<ge> 2" "ws ! 1 \<le> z"
proof -
  show len: "length ws \<ge> 2" using arg_cong [OF assms(2), of size] by simp
  show "ws ! 1 \<le> z"
  proof (rule ccontr)
    assume c: "\<not> ws ! 1 \<le> z"
    obtain a b r where ws: "ws = a # b # r" using len by (cases ws; cases "tl ws") auto
    have "filter (\<lambda>w. w \<le> z) r = []" using c assms(1) by (fastforce simp: ws filter_empty_conv)
    then have "length (filter (\<lambda>w. w \<le> z) ws) \<le> 1" using c by (simp add: ws)
    moreover have "size (filter_mset (\<lambda>w. w \<le> z) (mset ws)) \<ge> 2"
      using assms(3,4) by (simp add: assms(2))
    ultimately show False by (simp flip: mset_filter)
  qed
qed

lemma drop_largest:
  assumes "x \<le> z" "y \<le> (z :: int)"
  shows "take 2 (sort (x # y # z # zs)) = take 2 (sort (x # y # zs))"
proof -
  let ?ws = "sort (x # y # zs)"
  have "sort (x # y # z # zs) = insort z ?ws"
    by (rule properties_for_sort) (simp_all add: sorted_insort)
  with take2_insort [of ?ws z] two_below [of ?ws x y zs z] assms show ?thesis
    by (simp del: sort_key_simps)
qed

lemma sort_perm: "mset xs = mset ys \<Longrightarrow> sort xs = sort (ys :: int list)"
  by (rule properties_for_sort) simp_all

lemma Anchor_loop_two:
  "lowest \<le> second \<Longrightarrow> Anchor_loop ss lowest second = (l2, s2) \<Longrightarrow>
   [l2, s2] = take 2 (sort (lowest # second # map s_offset ss))"
proof (induction ss arbitrary: lowest second)
  case (Cons s ss)
  let ?b = "s_offset s" and ?r = "map s_offset ss"
  consider "?b < lowest" | "lowest \<le> ?b" "?b < second" | "second \<le> ?b" by linarith
  then show ?case
  proof cases
    case 1
    have "sort (lowest # second # ?b # ?r) = sort (?b # lowest # second # ?r)"
      by (rule sort_perm) simp
    with 1 Cons drop_largest [of ?b second lowest ?r] show ?thesis by (simp del: sort_key_simps)
  next
    case 2
    have "sort (lowest # second # ?b # ?r) = sort (lowest # ?b # second # ?r)"
      by (rule sort_perm) simp
    with 2 Cons drop_largest [of lowest second ?b ?r] show ?thesis by (simp del: sort_key_simps)
  next
    case 3
    with Cons drop_largest [of lowest ?b second ?r] show ?thesis by (simp del: sort_key_simps)
  qed
qed simp

definition second_smallest :: "int list \<Rightarrow> int" where
  "second_smallest os = (if length os < 2 then hd (sort os) else sort os ! 1)"

lemma Anchor_eq:
  assumes "\<forall>x \<in> set (active a). s_offset x \<le> kMax" "active a \<noteq> []" "length (active a) = ba_count a"
  shows "Anchor a = second_smallest (map s_offset (active a))"
proof -
  let ?os = "map s_offset (active a)"
  obtain l s2 where l: "Anchor_loop (active a) kMax kMax = (l, s2)" by fastforce
  have "sort (kMax # kMax # ?os) = sort ?os @ [kMax, kMax]"
    by (rule properties_for_sort) (use assms(1) in \<open>auto simp: sorted_append\<close>)
  with Anchor_loop_two [OF order_refl l] have two: "[l, s2] = take 2 (sort ?os @ [kMax, kMax])"
    by (simp del: sort_key_simps)
  have len: "length (sort ?os) = ba_count a" using assms(3) by simp
  have "sort ?os \<noteq> []" using assms(2) by (metis length_0_conv length_map length_sort)
  then obtain o1 rest where so: "sort ?os = o1 # rest" by (cases "sort ?os") auto
  have "Anchor a = (if ba_count a < 2 then l else s2)"
    using l by (simp add: Anchor_def active_def [symmetric])
  also have "\<dots> = second_smallest ?os"
    using two so len assms(3) by (cases rest) (auto simp: second_smallest_def)
  finally show ?thesis .
qed

text \<open>What one update makes of the current samples.\<close>

definition updated_samples :: "BootAnchor \<Rightarrow> BootSample \<Rightarrow> int \<Rightarrow> Sample list" where
  "updated_samples a sample window =
     (let same_boot = (if ba_boot_id a = Some (bs_boot_id sample) then active a else []);
          recent = filter (\<lambda>x. s_at x \<ge> SaturatingSub (bs_at sample) window) same_boot;
          room = (if length recent = kMaxSamples then tl recent else recent)
      in room @ [\<lparr>s_offset = bs_offset sample, s_at = bs_at sample\<rparr>])"

text \<open>
  The boot anchor. In its fixed array of sixteen, an update keeps, in order, the samples of
  the current boot that lie within the window, drops the oldest of them if they fill the array,
  and appends the new one; it answers with the second-smallest offset of the samples it then
  holds, the only one when there is only one, so that a single outlier never sets the anchor.
\<close>

theorem boot_anchor_refines:
  assumes "anchor_inv a" "bs_offset sample \<le> kMax" "BootAnchor_Update sample window a = (result, a')"
  shows "anchor_inv a' \<and> ba_boot_id a' = Some (bs_boot_id sample) \<and>
    active a' = updated_samples a sample window \<and>
    result = second_smallest (map s_offset (updated_samples a sample window))"
proof -
  define cutoff where "cutoff = SaturatingSub (bs_at sample) window"
  define a1 where "a1 = (if ba_boot_id a \<noteq> Some (bs_boot_id sample)
    then a\<lparr>ba_boot_id := Some (bs_boot_id sample), ba_count := 0\<rparr> else a)"
  define a2 where "a2 = AgeOut cutoff a1"
  define a3 where "a3 = (if ba_count a2 = kMaxSamples
    then a2\<lparr>ba_samples := shift_down (ba_count a2 - 1) 1 (ba_samples a2), ba_count := ba_count a2 - 1\<rparr>
    else a2)"
  let ?new = "\<lparr>s_offset = bs_offset sample, s_at = bs_at sample\<rparr>"
  define a4 where "a4 = a3\<lparr>ba_samples := (ba_samples a3)[ba_count a3 := ?new], ba_count := ba_count a3 + 1\<rparr>"
  have "BootAnchor_Update sample window a = (Anchor a4, a4)"
    unfolding BootAnchor_Update_def Let_def a4_def a3_def a2_def a1_def cutoff_def by (rule refl)
  then have a4: "a' = a3\<lparr>ba_samples := (ba_samples a3)[ba_count a3 := ?new], ba_count := ba_count a3 + 1\<rparr>"
    and r: "result = Anchor a'" using assms(3) by (simp_all add: a4_def)
  have i1: "anchor_inv a1" and act1: "active a1 =
      (if ba_boot_id a = Some (bs_boot_id sample) then active a else [])"
    using assms(1) by (auto simp: a1_def anchor_inv_def active_def)
  note f2 = AgeOut_facts [OF i1, of cutoff, folded a2_def]
  have len2: "length (active a2) = ba_count a2" "length (ba_samples a2) = kMaxSamples"
    using f2(1) by (simp_all add: anchor_inv_def active_def)
  have act3: "active a3 = (if length (active a2) = kMaxSamples then tl (active a2) else active a2)"
    and len3: "length (ba_samples a3) = kMaxSamples" "ba_count a3 < kMaxSamples"
  proof -
    have sh: "take 15 (shift_down 15 1 (ba_samples a2)) = take 15 (drop 1 (ba_samples a2))"
      "length (shift_down 15 1 (ba_samples a2)) = 16"
      using shift_down_eq [of 1 15 "ba_samples a2"] len2 by (simp_all add: kMaxSamples_def)
    show "active a3 = (if length (active a2) = kMaxSamples then tl (active a2) else active a2)"
      using sh len2 by (auto simp: a3_def active_def kMaxSamples_def tl_take drop_Suc)
    show "length (ba_samples a3) = kMaxSamples" "ba_count a3 < kMaxSamples"
      using sh len2 f2(1) by (auto simp: a3_def kMaxSamples_def anchor_inv_def)
  qed
  have act4: "active a' = active a3 @ [?new]"
    using len3 by (simp add: a4 active_def take_Suc_conv_app_nth)
  then have upd: "active a' = updated_samples a sample window"
    by (simp add: act3 f2(3) act1 updated_samples_def Let_def cutoff_def)
  have bound: "\<forall>x \<in> set (active a'). s_offset x \<le> kMax"
    using f2(1) assms(2) set_mono_suffix [OF suffix_tl, of "active a2"]
    by (auto simp: act4 act3 anchor_inv_def)
  have "length (active a') = ba_count a'" using len3 by (simp add: active_def a4)
  with Anchor_eq [OF bound] act4 r upd have "result = second_smallest (map s_offset (updated_samples a sample window))"
    by simp
  moreover have "ba_boot_id a' = Some (bs_boot_id sample)"
    using f2(2) by (simp add: a4 a3_def a1_def)
  moreover have "anchor_inv a'" using bound len3 by (simp add: anchor_inv_def a4)
  ultimately show ?thesis using upd by simp
qed

theorem boot_anchor_refines_witness:
  "let a1 = snd (BootAnchor_Update \<lparr>bs_boot_id = 1, bs_offset = 500, bs_at = 10\<rparr> 100 BootAnchor_new)
   in fst (BootAnchor_Update \<lparr>bs_boot_id = 1, bs_offset = 3, bs_at = 20\<rparr> 100 a1) = 500"
proof -
  let ?s1 = "\<lparr>bs_boot_id = 1, bs_offset = 500, bs_at = 10\<rparr>"
  let ?s2 = "\<lparr>bs_boot_id = 1, bs_offset = 3, bs_at = 20\<rparr>"
  obtain r1 a1 where u1: "BootAnchor_Update ?s1 100 BootAnchor_new = (r1, a1)" by fastforce
  obtain r2 a2 where u2: "BootAnchor_Update ?s2 100 a1 = (r2, a2)" by fastforce
  have "anchor_inv BootAnchor_new" by (simp add: anchor_inv_def BootAnchor_new_def active_def)
  from boot_anchor_refines [OF this _ u1] have a1: "anchor_inv a1" "ba_boot_id a1 = Some 1"
    "active a1 = [\<lparr>s_offset = 500, s_at = 10\<rparr>]"
    by (simp_all add: kMax_def updated_samples_def BootAnchor_new_def active_def)
  from boot_anchor_refines [OF a1(1) _ u2] a1 have "r2 = 500"
    by (simp add: kMax_def updated_samples_def second_smallest_def SaturatingSub_def kMin_def
        kMaxSamples_def)
  then show ?thesis by (simp add: u1 u2)
qed

end
