(* ===== verification/Leaf_Table.thy ===== *)
theory Leaf_Table
  imports Leaf_Time
begin

text \<open>
  The concentrator's per-leaf state (\<open>src/sdk/leaf_table.cpp\<close>): a bounded table in recency order with
  an index into it, and the cache of unknown leaves. The linked list is a list of nodes with
  addresses and the hash index maps an identifier to the address of its node, so that the two can
  be out of step; a \<open>shared_ptr\<close> is an address, \<open>None\<close> for null. Each public operation runs under
  the table's mutex and is one step. Allocation succeeds.

  Proved here: the list and the index always agree, every operation is the obvious one on a plain
  list of entries in order of last sighting, the table never holds more than its bound, and one
  leaf with one declared hash resolves to one shared resource for as long as it stays in the table.
\<close>

section \<open>A list with an index into it\<close>

text \<open>
  The nodes of a linked list carry their addresses; the index maps the key of each node to its
  address. \<open>indexed\<close> says that the two agree.
\<close>

definition indexed :: "('a \<Rightarrow> string) \<Rightarrow> (nat \<times> 'a) list \<Rightarrow> (string \<times> nat) list \<Rightarrow> nat \<Rightarrow> bool" where
  "indexed key nodes index fresh \<longleftrightarrow>
     distinct (map fst nodes) \<and> distinct (map (key \<circ> snd) nodes) \<and> distinct (map fst index) \<and>
     (\<forall>x \<in> set nodes. fst x < fresh) \<and> set index = (\<lambda>x. (key (snd x), fst x)) ` set nodes"

lemma indexed_empty [simp]: "indexed key [] [] fresh"
  by (simp add: indexed_def)

lemma indexed_key:
  assumes "indexed key nodes index fresh" "(n, e) \<in> set nodes" "(n', e') \<in> set nodes"
  shows "n = n' \<longleftrightarrow> key e = key e'"
proof -
  have "inj_on fst (set nodes)" "inj_on (key \<circ> snd) (set nodes)"
    using assms(1) by (simp_all add: indexed_def distinct_map)
  from inj_onD [OF this(1), of "(n, e)" "(n', e')"] inj_onD [OF this(2), of "(n, e)" "(n', e')"]
  show ?thesis using assms(2,3) by auto
qed

lemma indexed_unique:
  assumes "indexed key nodes index fresh" "(n, e) \<in> set nodes" "(n, e') \<in> set nodes"
  shows "e = e'"
  using assms unfolding indexed_def by (metis eq_key_imp_eq_value)

lemma indexed_lookup:
  assumes "indexed key nodes index fresh"
  shows "map_of index k = Some n \<longleftrightarrow> (\<exists>e. (n, e) \<in> set nodes \<and> key e = k)"
proof -
  have "map_of index k = Some n \<longleftrightarrow> (k, n) \<in> (\<lambda>x. (key (snd x), fst x)) ` set nodes"
    using assms by (simp add: indexed_def)
  then show ?thesis by force
qed

lemma indexed_node:
  assumes "indexed key nodes index fresh"
  shows "map_of nodes n = Some e \<longleftrightarrow> (n, e) \<in> set nodes"
  using assms by (simp add: indexed_def)

lemma indexed_missing:
  assumes "indexed key nodes index fresh"
  shows "map_of index k = None \<longleftrightarrow> k \<notin> key ` snd ` set nodes"
proof -
  have "fst ` set index = key ` snd ` set nodes"
    using assms by (simp add: indexed_def image_image)
  then show ?thesis by (simp add: map_of_eq_None_iff)
qed

lemma indexed_length:
  assumes "indexed key nodes index fresh"
  shows "length index = length nodes"
proof -
  have "distinct index" "distinct nodes"
    using assms by (auto simp: indexed_def distinct_map)
  then have "length index = card (set index)" "length nodes = card (set nodes)"
    by (simp_all add: distinct_card)
  moreover have "inj_on (\<lambda>x. (key (snd x), fst x)) (set nodes)"
    using assms by (auto simp: inj_on_def intro: indexed_unique)
  ultimately show ?thesis using assms by (simp add: indexed_def card_image)
qed

lemma indexed_remove:
  assumes t: "indexed key nodes index fresh" and n: "(n, e) \<in> set nodes"
  shows "indexed key (filter (\<lambda>x. fst x \<noteq> n) nodes) (filter (\<lambda>x. fst x \<noteq> key e) index) fresh"
proof -
  have "set (filter (\<lambda>x. fst x \<noteq> key e) index) =
          (\<lambda>x. (key (snd x), fst x)) ` {x \<in> set nodes. key (snd x) \<noteq> key e}"
    using t by (auto simp: indexed_def)
  also have "{x \<in> set nodes. key (snd x) \<noteq> key e} = set (filter (\<lambda>x. fst x \<noteq> n) nodes)"
    using indexed_key [OF t _ n] by (auto simp del: split_paired_All split_paired_Ex) (metis prod.collapse)+
  finally show ?thesis
    using t by (simp add: indexed_def distinct_map_filter)
qed

lemma indexed_push:
  assumes "indexed key nodes index fresh" "key e \<notin> key ` snd ` set nodes"
  shows "indexed key ((fresh, e) # nodes) ((key e, fresh) # index) (Suc fresh)"
    "indexed key (nodes @ [(fresh, e)]) ((key e, fresh) # index) (Suc fresh)"
proof -
  have "key e \<notin> fst ` set index"
    using assms indexed_missing [of key nodes index fresh "key e"] by (simp add: map_of_eq_None_iff)
  moreover have "fresh \<notin> fst ` set nodes" using assms by (force simp: indexed_def)
  ultimately show "indexed key ((fresh, e) # nodes) ((key e, fresh) # index) (Suc fresh)"
    "indexed key (nodes @ [(fresh, e)]) ((key e, fresh) # index) (Suc fresh)"
    using assms by (auto simp: indexed_def less_Suc_eq image_image)
qed

lemma indexed_splice:
  assumes t: "indexed key nodes index fresh" and n: "(n, e) \<in> set nodes" and k: "key e' = key e"
  shows "indexed key ((n, e') # filter (\<lambda>x. fst x \<noteq> n) nodes) index fresh"
proof -
  let ?rest = "filter (\<lambda>x. fst x \<noteq> n) nodes"
  have "insert (n, e) (set ?rest) = set nodes"
    using n by (auto dest: indexed_unique [OF t n])
  then have "set index = insert (key e, n) ((\<lambda>x. (key (snd x), fst x)) ` set ?rest)"
    using t unfolding indexed_def by (metis (no_types, lifting) fst_conv image_insert snd_conv)
  moreover have "key e \<notin> (key \<circ> snd) ` set ?rest"
    using indexed_key [OF t n] by (force simp del: split_paired_All split_paired_Ex)
  moreover have "distinct (map fst ?rest)" "distinct (map (key \<circ> snd) ?rest)"
    using t by (simp_all add: indexed_def distinct_map_filter)
  moreover have "n < fresh" using t n by (force simp: indexed_def)
  ultimately show ?thesis
    using t k by (auto simp: indexed_def)
qed

lemma filter_last:
  "distinct (map f xs) \<Longrightarrow> xs \<noteq> [] \<Longrightarrow> filter (\<lambda>x. f x \<noteq> f (last xs)) xs = butlast xs"
  by (induction xs) (auto simp: filter_id_conv)

lemma filter_hd:
  "distinct (map f xs) \<Longrightarrow> xs \<noteq> [] \<Longrightarrow> filter (\<lambda>x. f x \<noteq> f (hd xs)) xs = tl xs"
  by (cases xs) (auto simp: filter_id_conv image_iff)

section \<open>State\<close>

datatype LeafTimeMode = ConcentratorStamped_mode | SyncRelative_mode | BootRelative_mode | Unix_mode

record LeafSettings =
  ls_configured :: bool
  ls_time_mode :: "LeafTimeMode option"
  ls_resource :: "KeyValue list"

record Entry =
  e_id :: string
  e_settings :: "LeafSettings option"
  e_declared_hash :: u64
  e_resource :: "resource_ptr option"
  e_anchor :: BootAnchor
  e_last_seen :: int

record LeafTable =
  lt_max_leaves :: nat
  lt_idle_timeout :: int
  lt_recency :: "(nat \<times> Entry) list"
  lt_index :: "(string \<times> nat) list"
  lt_fresh :: nat
  lt_evicted :: nat

definition LeafTable_new :: "nat \<Rightarrow> int \<Rightarrow> LeafTable" where
  "LeafTable_new max_leaves idle_timeout =
     \<lparr>lt_max_leaves = max max_leaves 1, lt_idle_timeout = idle_timeout, lt_recency = [],
      lt_index = [], lt_fresh = 0, lt_evicted = 0\<rparr>"

section \<open>Operations\<close>

text \<open>\<open>Touch\<close>: splice the node the index finds to the front and stamp it.\<close>

definition Touch :: "string \<Rightarrow> int \<Rightarrow> LeafTable \<Rightarrow> bool \<times> LeafTable" where
  "Touch leaf now t =
     (case map_of (lt_index t) leaf of
        None \<Rightarrow> (False, t)
      | Some node \<Rightarrow>
          (case map_of (lt_recency t) node of
             None \<Rightarrow> (False, t)
           | Some e \<Rightarrow>
               (True, t\<lparr>lt_recency := (node, e\<lparr>e_last_seen := now\<rparr>) #
                          filter (\<lambda>x. fst x \<noteq> node) (lt_recency t)\<rparr>)))"

definition EvictOldest :: "LeafTable \<Rightarrow> LeafTable" where
  "EvictOldest t =
     t\<lparr>lt_index := filter (\<lambda>x. fst x \<noteq> e_id (snd (last (lt_recency t)))) (lt_index t),
       lt_recency := butlast (lt_recency t), lt_evicted := lt_evicted t + 1\<rparr>"

function EvictIdle_loop :: "int \<Rightarrow> LeafTable \<Rightarrow> LeafTable" where
  "EvictIdle_loop now t =
     (if lt_recency t \<noteq> [] \<and> now - e_last_seen (snd (last (lt_recency t))) > lt_idle_timeout t
      then EvictIdle_loop now (EvictOldest t) else t)"
  by pat_completeness auto
termination
  by (relation "measure (\<lambda>(_, t). length (lt_recency t))") (auto simp: EvictOldest_def)

declare EvictIdle_loop.simps [simp del]

definition EvictIdle :: "int \<Rightarrow> LeafTable \<Rightarrow> LeafTable" where
  "EvictIdle now t = (if lt_idle_timeout t \<le> 0 then t else EvictIdle_loop now t)"

definition new_entry :: "string \<Rightarrow> int \<Rightarrow> Entry" where
  "new_entry leaf now =
     \<lparr>e_id = leaf, e_settings = None, e_declared_hash = 0, e_resource = None,
      e_anchor = BootAnchor_new, e_last_seen = now\<rparr>"

text \<open>The entry \<open>TouchOrInsert\<close> returns is the front one.\<close>

definition TouchOrInsert :: "string \<Rightarrow> int \<Rightarrow> LeafTable \<Rightarrow> LeafTable" where
  "TouchOrInsert leaf now t =
     (case Touch leaf now t of
        (True, t') \<Rightarrow> t'
      | (False, _) \<Rightarrow>
          let t1 = EvictIdle now t;
              t2 = (if length (lt_index t1) \<ge> lt_max_leaves t1 then EvictOldest t1 else t1)
          in t2\<lparr>lt_recency := (lt_fresh t2, new_entry leaf now) # lt_recency t2,
                lt_index := (leaf, lt_fresh t2) # lt_index t2, lt_fresh := lt_fresh t2 + 1\<rparr>)"

definition front :: "LeafTable \<Rightarrow> Entry" where
  "front t = snd (hd (lt_recency t))"

definition update_front :: "(Entry \<Rightarrow> Entry) \<Rightarrow> LeafTable \<Rightarrow> LeafTable" where
  "update_front f t =
     t\<lparr>lt_recency := (case lt_recency t of [] \<Rightarrow> [] | (n, e) # r \<Rightarrow> (n, f e) # r)\<rparr>"

definition Settings :: "string \<Rightarrow> int \<Rightarrow> LeafTable \<Rightarrow> LeafSettings option \<times> LeafTable" where
  "Settings leaf now t =
     (let (found, t') = Touch leaf now t in (if found then e_settings (front t') else None, t'))"

definition AdoptSettings ::
    "string \<Rightarrow> LeafSettings option \<Rightarrow> int \<Rightarrow> LeafTable \<Rightarrow> LeafSettings option \<times> LeafTable" where
  "AdoptSettings leaf settings now t =
     (let t1 = TouchOrInsert leaf now t;
          t2 = (if e_settings (front t1) = None then update_front (e_settings_update (\<lambda>_. settings)) t1
                else t1)
      in (e_settings (front t2), t2))"

definition lt_Find :: "string \<Rightarrow> u64 \<Rightarrow> int \<Rightarrow> LeafTable \<Rightarrow> resource_ptr option \<times> LeafTable" where
  "lt_Find leaf declared_hash now t =
     (let (found, t') = Touch leaf now t
      in if \<not> found \<or> e_declared_hash (front t') \<noteq> declared_hash then (None, t')
         else (e_resource (front t'), t'))"

definition lt_Insert ::
    "string \<Rightarrow> u64 \<Rightarrow> resource_ptr option \<Rightarrow> int \<Rightarrow> LeafTable \<Rightarrow> resource_ptr option \<times> LeafTable" where
  "lt_Insert leaf declared_hash resource now t =
     (let t1 = TouchOrInsert leaf now t;
          t2 = (if e_resource (front t1) = None \<or> e_declared_hash (front t1) \<noteq> declared_hash
                then update_front (\<lambda>e. e\<lparr>e_declared_hash := declared_hash, e_resource := resource\<rparr>) t1
                else t1)
      in (e_resource (front t2), t2))"

definition UpdateBootAnchor :: "string \<Rightarrow> BootSample \<Rightarrow> int \<Rightarrow> int \<Rightarrow> LeafTable \<Rightarrow> int \<times> LeafTable" where
  "UpdateBootAnchor leaf sample window now t =
     (let t1 = TouchOrInsert leaf now t;
          (anchor, a) = BootAnchor_Update sample window (e_anchor (front t1))
      in (anchor, update_front (e_anchor_update (\<lambda>_. a)) t1))"

text \<open>\<open>Size\<close> and \<open>Evicted\<close>.\<close>

definition lt_Size :: "LeafTable \<Rightarrow> nat" where
  "lt_Size t = length (lt_index t)"

section \<open>Unknown leaves\<close>

text \<open>\<open>UnknownLeafCache\<close>: the negative answers, the oldest first.\<close>

record Answer =
  a_id :: string
  a_at :: int

record UnknownLeafCache =
  uc_capacity :: nat
  uc_ttl :: int
  uc_age :: "(nat \<times> Answer) list"
  uc_index :: "(string \<times> nat) list"
  uc_fresh :: nat

definition UnknownLeafCache_new :: "nat \<Rightarrow> int \<Rightarrow> UnknownLeafCache" where
  "UnknownLeafCache_new capacity ttl =
     \<lparr>uc_capacity = max capacity 1, uc_ttl = ttl, uc_age = [], uc_index = [], uc_fresh = 0\<rparr>"

definition uc_Erase :: "nat \<times> Answer \<Rightarrow> UnknownLeafCache \<Rightarrow> UnknownLeafCache" where
  "uc_Erase node c =
     c\<lparr>uc_index := filter (\<lambda>x. fst x \<noteq> a_id (snd node)) (uc_index c),
       uc_age := filter (\<lambda>x. fst x \<noteq> fst node) (uc_age c)\<rparr>"

definition uc_Contains :: "string \<Rightarrow> int \<Rightarrow> UnknownLeafCache \<Rightarrow> bool \<times> UnknownLeafCache" where
  "uc_Contains leaf now c =
     (case map_of (uc_index c) leaf of
        None \<Rightarrow> (False, c)
      | Some node \<Rightarrow>
          (case map_of (uc_age c) node of
             None \<Rightarrow> (False, c)
           | Some a \<Rightarrow> if now - a_at a > uc_ttl c then (False, uc_Erase (node, a) c) else (True, c)))"

function uc_expire :: "int \<Rightarrow> UnknownLeafCache \<Rightarrow> UnknownLeafCache" where
  "uc_expire now c =
     (if uc_age c \<noteq> [] \<and> now - a_at (snd (hd (uc_age c))) > uc_ttl c
      then uc_expire now (uc_Erase (hd (uc_age c)) c) else c)"
  by pat_completeness auto
termination
  by (relation "measure (\<lambda>(_, c). length (uc_age c))")
     (auto simp: uc_Erase_def intro!: length_filter_less)

declare uc_expire.simps [simp del]

definition uc_Insert :: "string \<Rightarrow> int \<Rightarrow> UnknownLeafCache \<Rightarrow> UnknownLeafCache" where
  "uc_Insert leaf now c =
     (if map_of (uc_index c) leaf \<noteq> None then c
      else let c1 = uc_expire now c;
               c2 = (if length (uc_index c1) \<ge> uc_capacity c1 then uc_Erase (hd (uc_age c1)) c1 else c1)
           in c2\<lparr>uc_age := uc_age c2 @ [(uc_fresh c2, \<lparr>a_id = leaf, a_at = now\<rparr>)],
                 uc_index := (leaf, uc_fresh c2) # uc_index c2, uc_fresh := uc_fresh c2 + 1\<rparr>)"

definition uc_Size :: "UnknownLeafCache \<Rightarrow> nat" where
  "uc_Size c = length (uc_index c)"

section \<open>The table is a plain list in recency order\<close>

definition entries :: "LeafTable \<Rightarrow> Entry list" where
  "entries t = map snd (lt_recency t)"

definition lt_inv :: "LeafTable \<Rightarrow> bool" where
  "lt_inv t \<longleftrightarrow> indexed e_id (lt_recency t) (lt_index t) (lt_fresh t) \<and>
     length (entries t) \<le> lt_max_leaves t \<and> 1 \<le> lt_max_leaves t"

text \<open>What the operations do to that list.\<close>

definition move_to_front :: "string \<Rightarrow> int \<Rightarrow> Entry \<Rightarrow> Entry list \<Rightarrow> Entry list" where
  "move_to_front leaf now e es = e\<lparr>e_last_seen := now\<rparr> # filter (\<lambda>x. e_id x \<noteq> leaf) es"

definition idle :: "int \<Rightarrow> int \<Rightarrow> Entry \<Rightarrow> bool" where
  "idle timeout now e \<longleftrightarrow> 0 < timeout \<and> timeout < now - e_last_seen e"

definition drop_idle :: "int \<Rightarrow> int \<Rightarrow> Entry list \<Rightarrow> Entry list" where
  "drop_idle timeout now es = rev (dropWhile (idle timeout now) (rev es))"

definition seen :: "nat \<Rightarrow> int \<Rightarrow> string \<Rightarrow> int \<Rightarrow> Entry list \<Rightarrow> Entry list" where
  "seen capacity timeout leaf now es =
     (case find (\<lambda>e. e_id e = leaf) es of
        Some e \<Rightarrow> move_to_front leaf now e es
      | None \<Rightarrow> new_entry leaf now # take (capacity - 1) (drop_idle timeout now es))"

abbreviation in_step :: "LeafTable \<Rightarrow> bool" where
  "in_step t \<equiv> indexed e_id (lt_recency t) (lt_index t) (lt_fresh t)"

lemma entries_distinct: "in_step t \<Longrightarrow> distinct (map e_id (entries t))"
  by (simp add: indexed_def entries_def)

lemma in_step_length: "in_step t \<Longrightarrow> length (lt_index t) = length (entries t)"
  by (simp add: indexed_length entries_def)

lemma map_snd_filter_key:
  assumes "indexed key nodes index fresh" "(n, e) \<in> set nodes"
  shows "map snd (filter (\<lambda>x. fst x \<noteq> n) nodes) = filter (\<lambda>x. key x \<noteq> key e) (map snd nodes)"
proof -
  have "filter (\<lambda>x. fst x \<noteq> n) nodes = filter (\<lambda>x. key (snd x) \<noteq> key e) nodes"
    using indexed_key [OF assms(1)] assms(2) by (intro filter_cong) auto
  then show ?thesis by (simp add: filter_map comp_def)
qed

lemma find_key:
  assumes "distinct (map key xs)" "x \<in> set xs"
  shows "find (\<lambda>y. key y = key x) xs = Some x"
  using assms by (induction xs) (auto simp: image_iff)

lemma length_filter_key:
  assumes "distinct (map key xs)" "x \<in> set xs"
  shows "length (filter (\<lambda>y. key y \<noteq> key x) xs) = length xs - 1"
proof -
  have "inj_on key (set xs)" "distinct xs" using assms(1) by (simp_all add: distinct_map)
  then have "filter (\<lambda>y. key y \<noteq> key x) xs = remove1 x xs"
    using assms(2) by (auto simp: distinct_remove1_removeAll removeAll_filter_not_eq inj_on_def
        intro!: filter_cong)
  then show ?thesis using assms(2) by (simp add: length_remove1)
qed

lemma Touch_spec:
  assumes t: "in_step t"
  shows "case find (\<lambda>e. e_id e = leaf) (entries t) of
           None \<Rightarrow> Touch leaf now t = (False, t)
         | Some e \<Rightarrow> \<exists>t'. Touch leaf now t = (True, t') \<and> in_step t' \<and>
             entries t' = move_to_front leaf now e (entries t) \<and> lt_evicted t' = lt_evicted t \<and>
             lt_max_leaves t' = lt_max_leaves t \<and> lt_idle_timeout t' = lt_idle_timeout t"
proof (cases "map_of (lt_index t) leaf")
  case None
  then have "find (\<lambda>e. e_id e = leaf) (entries t) = None"
    using indexed_missing [OF t] by (auto simp: find_None_iff entries_def)
  then show ?thesis using None by (simp add: Touch_def)
next
  case (Some n)
  then obtain e where e: "(n, e) \<in> set (lt_recency t)" "e_id e = leaf"
    using indexed_lookup [OF t] by blast
  then have "e \<in> set (entries t)" by (force simp: entries_def)
  then have "find (\<lambda>x. e_id x = leaf) (entries t) = Some e"
    using find_key [OF entries_distinct [OF t]] e(2) by auto
  moreover have "map_of (lt_recency t) n = Some e" using indexed_node [OF t] e by simp
  moreover have "indexed e_id ((n, e\<lparr>e_last_seen := now\<rparr>) # filter (\<lambda>x. fst x \<noteq> n) (lt_recency t))
                   (lt_index t) (lt_fresh t)"
    using indexed_splice [OF t e(1)] by simp
  ultimately show ?thesis
    using Some map_snd_filter_key [OF t e(1)] e(2)
    by (simp add: Touch_def move_to_front_def entries_def)
qed

lemma EvictOldest_spec:
  assumes t: "in_step t" and "entries t \<noteq> []"
  shows "in_step (EvictOldest t)" "entries (EvictOldest t) = butlast (entries t)"
proof -
  let ?l = "last (lt_recency t)"
  have ne: "lt_recency t \<noteq> []" using assms by (simp add: entries_def)
  then have "(fst ?l, snd ?l) \<in> set (lt_recency t)" by simp
  note removed = indexed_remove [OF t this]
  have "filter (\<lambda>x. fst x \<noteq> fst ?l) (lt_recency t) = butlast (lt_recency t)"
    using filter_last [of fst "lt_recency t"] t ne by (simp add: indexed_def)
  with removed show "in_step (EvictOldest t)" by (simp add: EvictOldest_def)
  show "entries (EvictOldest t) = butlast (entries t)"
    by (simp add: EvictOldest_def entries_def map_butlast)
qed

lemma EvictOldest_fields [simp]:
  "lt_max_leaves (EvictOldest t) = lt_max_leaves t" "lt_idle_timeout (EvictOldest t) = lt_idle_timeout t"
  "lt_evicted (EvictOldest t) = lt_evicted t + 1"
  by (simp_all add: EvictOldest_def)

lemma drop_idle_snoc:
  "drop_idle timeout now (es @ [e]) = (if idle timeout now e then drop_idle timeout now es else es @ [e])"
  by (simp add: drop_idle_def)

lemma EvictIdle_loop_spec:
  assumes "in_step t" "0 < lt_idle_timeout t"
  shows "in_step (EvictIdle_loop now t) \<and>
     entries (EvictIdle_loop now t) = drop_idle (lt_idle_timeout t) now (entries t) \<and>
     lt_evicted (EvictIdle_loop now t) + length (entries (EvictIdle_loop now t)) =
       lt_evicted t + length (entries t) \<and>
     lt_max_leaves (EvictIdle_loop now t) = lt_max_leaves t \<and>
     lt_idle_timeout (EvictIdle_loop now t) = lt_idle_timeout t"
  using assms
proof (induction now t rule: EvictIdle_loop.induct)
  case (1 now t)
  let ?go = "lt_recency t \<noteq> [] \<and> now - e_last_seen (snd (last (lt_recency t))) > lt_idle_timeout t"
  show ?case
  proof (cases "entries t = []")
    case True
    then have "EvictIdle_loop now t = t"
      by (subst EvictIdle_loop.simps) (simp add: entries_def)
    then show ?thesis using True 1(2) by (simp add: drop_idle_def)
  next
    case ne: False
    then have go: "?go \<longleftrightarrow> idle (lt_idle_timeout t) now (last (entries t))"
      using 1(3) by (auto simp: entries_def last_map idle_def)
    have split: "entries t = butlast (entries t) @ [last (entries t)]" using ne by simp
    show ?thesis
    proof (cases ?go)
      case True
      have "drop_idle (lt_idle_timeout t) now (entries t) =
              drop_idle (lt_idle_timeout t) now (butlast (entries t))"
        using True go by (subst split) (simp add: drop_idle_snoc del: append_butlast_last_id)
      moreover have "EvictIdle_loop now t = EvictIdle_loop now (EvictOldest t)"
        using True by (subst EvictIdle_loop.simps) simp
      ultimately show ?thesis
        using 1(1) [OF True] EvictOldest_spec [OF 1(2) ne] 1(3) ne
        by (cases "entries t") auto
    next
      case False
      have "drop_idle (lt_idle_timeout t) now (entries t) = entries t"
        using False go by (subst (1 2) split) (simp add: drop_idle_snoc del: append_butlast_last_id)
      moreover have "EvictIdle_loop now t = t"
        using False by (subst EvictIdle_loop.simps) auto
      ultimately show ?thesis using 1(2) by simp
    qed
  qed
qed

lemma EvictIdle_spec:
  assumes "in_step t"
  shows "in_step (EvictIdle now t)"
    "entries (EvictIdle now t) = drop_idle (lt_idle_timeout t) now (entries t)"
    "lt_evicted (EvictIdle now t) + length (entries (EvictIdle now t)) = lt_evicted t + length (entries t)"
    "lt_max_leaves (EvictIdle now t) = lt_max_leaves t"
    "lt_idle_timeout (EvictIdle now t) = lt_idle_timeout t"
  using EvictIdle_loop_spec [OF assms, of now] assms
  by (auto simp: EvictIdle_def drop_idle_def idle_def dropWhile_eq_self_iff)

lemma drop_idle_subset: "set (drop_idle timeout now es) \<subseteq> set es"
  by (auto simp: drop_idle_def dest: set_dropWhileD)

lemma drop_idle_length: "length (drop_idle timeout now es) \<le> length es"
  using length_dropWhile_le [of "idle timeout now" "rev es"] by (simp add: drop_idle_def)

lemma take_make_room:
  "length es \<le> n \<Longrightarrow> 1 \<le> n \<Longrightarrow> (if n \<le> length es then butlast es else es) = take (n - 1) es"
  by (auto simp: butlast_conv_take)

text \<open>Everything an operation leaves behind besides the list: the bounds, and the evictions that account for the entries gone.\<close>

definition same_bounds :: "LeafTable \<Rightarrow> LeafTable \<Rightarrow> bool" where
  "same_bounds t t' \<longleftrightarrow> lt_max_leaves t' = lt_max_leaves t \<and> lt_idle_timeout t' = lt_idle_timeout t"

lemma TouchOrInsert_spec:
  assumes t: "lt_inv t"
  shows "lt_inv (TouchOrInsert leaf now t)"
    and "entries (TouchOrInsert leaf now t) =
           seen (lt_max_leaves t) (lt_idle_timeout t) leaf now (entries t)"
    and "same_bounds t (TouchOrInsert leaf now t)"
    and "lt_evicted (TouchOrInsert leaf now t) + length (entries (TouchOrInsert leaf now t)) =
           lt_evicted t + length (entries t) + (if leaf \<in> e_id ` set (entries t) then 0 else 1)"
proof -
  have step: "in_step t" and len: "length (entries t) \<le> lt_max_leaves t" and one: "1 \<le> lt_max_leaves t"
    using t by (auto simp: lt_inv_def)
  let ?t' = "TouchOrInsert leaf now t"
  have "lt_inv ?t' \<and> entries ?t' = seen (lt_max_leaves t) (lt_idle_timeout t) leaf now (entries t) \<and>
    same_bounds t ?t' \<and> lt_evicted ?t' + length (entries ?t') =
      lt_evicted t + length (entries t) + (if leaf \<in> e_id ` set (entries t) then 0 else 1)"
  proof (cases "find (\<lambda>e. e_id e = leaf) (entries t)")
    case (Some e)
    then have e: "e \<in> set (entries t)" "e_id e = leaf" by (auto simp: find_Some_iff)
    from Touch_spec [OF step, of leaf now] Some obtain t' where
      t': "Touch leaf now t = (True, t')" "in_step t'" "entries t' = move_to_front leaf now e (entries t)"
        "lt_evicted t' = lt_evicted t" "lt_max_leaves t' = lt_max_leaves t"
        "lt_idle_timeout t' = lt_idle_timeout t"
      by auto
    have "length (filter (\<lambda>x. e_id x \<noteq> leaf) (entries t)) = length (entries t) - 1"
      using length_filter_key [OF entries_distinct [OF step] e(1)] e(2) by simp
    then have "length (entries t') = length (entries t)"
      using t'(3) e(1) by (cases "entries t") (auto simp: move_to_front_def)
    then show ?thesis
      using t' e Some len one by (auto simp: TouchOrInsert_def lt_inv_def seen_def same_bounds_def)
  next
    case None
    then have new: "leaf \<notin> e_id ` set (entries t)" by (auto simp: find_None_iff)
    have no: "Touch leaf now t = (False, t)" using Touch_spec [OF step, of leaf now] None by simp
    define t1 where "t1 = EvictIdle now t"
    define t2 where "t2 = (if length (lt_index t1) \<ge> lt_max_leaves t1 then EvictOldest t1 else t1)"
    note idle1 = EvictIdle_spec [OF step, of now, folded t1_def]
    have len1: "length (entries t1) \<le> lt_max_leaves t"
      using idle1(2) drop_idle_length [of "lt_idle_timeout t" now "entries t"] len by simp
    have room: "in_step t2 \<and> entries t2 = take (lt_max_leaves t - 1) (entries t1) \<and> same_bounds t t2 \<and>
       lt_evicted t2 + length (entries t2) = lt_evicted t1 + length (entries t1)"
      using EvictOldest_spec [OF idle1(1)] idle1(1,4,5) len1 one take_make_room [OF len1 one]
      by (cases "entries t1") (auto simp: t2_def in_step_length same_bounds_def)
    have gone: "leaf \<notin> e_id ` set (entries t2)"
      using room new idle1(2) drop_idle_subset [of "lt_idle_timeout t" now "entries t"]
      by (auto dest: in_set_takeD)
    have t': "?t' = t2\<lparr>lt_recency := (lt_fresh t2, new_entry leaf now) # lt_recency t2,
                lt_index := (leaf, lt_fresh t2) # lt_index t2, lt_fresh := lt_fresh t2 + 1\<rparr>"
      by (simp add: TouchOrInsert_def no Let_def flip: t1_def t2_def)
    have "e_id (new_entry leaf now) \<notin> e_id ` snd ` set (lt_recency t2)"
      using gone by (simp add: entries_def new_entry_def)
    then have "in_step ?t'"
      using indexed_push(1) [of e_id "lt_recency t2" "lt_index t2" "lt_fresh t2" "new_entry leaf now"]
        room by (simp add: t' new_entry_def)
    moreover have ents: "entries ?t' = new_entry leaf now # entries t2" by (simp add: t' entries_def)
    ultimately show ?thesis
      using room None new idle1(2,3) len one
      by (auto simp: lt_inv_def seen_def same_bounds_def t')
  qed
  then show "lt_inv ?t'"
    "entries ?t' = seen (lt_max_leaves t) (lt_idle_timeout t) leaf now (entries t)"
    "same_bounds t ?t'" "lt_evicted ?t' + length (entries ?t') =
      lt_evicted t + length (entries t) + (if leaf \<in> e_id ` set (entries t) then 0 else 1)"
    by auto
qed

subsection \<open>All operations\<close>

datatype table_op =
  Op_Settings string int
| Op_AdoptSettings string "LeafSettings option" int
| Op_Find string u64 int
| Op_Insert string u64 "resource_ptr option" int
| Op_UpdateBootAnchor string BootSample int int

fun lt_step :: "table_op \<Rightarrow> LeafTable \<Rightarrow> LeafTable" where
  "lt_step (Op_Settings leaf now) t = snd (Settings leaf now t)"
| "lt_step (Op_AdoptSettings leaf settings now) t = snd (AdoptSettings leaf settings now t)"
| "lt_step (Op_Find leaf h now) t = snd (lt_Find leaf h now t)"
| "lt_step (Op_Insert leaf h r now) t = snd (lt_Insert leaf h r now t)"
| "lt_step (Op_UpdateBootAnchor leaf sample window now) t = snd (UpdateBootAnchor leaf sample window now t)"

text \<open>What each does to the plain list: a lookup only moves an entry, the others change its front.\<close>

definition tracked :: "string \<Rightarrow> Entry list \<Rightarrow> Entry option" where
  "tracked leaf es = find (\<lambda>e. e_id e = leaf) es"

definition looked_up :: "string \<Rightarrow> int \<Rightarrow> Entry list \<Rightarrow> Entry list" where
  "looked_up leaf now es = (case tracked leaf es of None \<Rightarrow> es | Some e \<Rightarrow> move_to_front leaf now e es)"

fun on_front :: "(Entry \<Rightarrow> Entry) \<Rightarrow> Entry list \<Rightarrow> Entry list" where
  "on_front f [] = []"
| "on_front f (e # es) = f e # es"

definition adopt :: "LeafSettings option \<Rightarrow> Entry \<Rightarrow> Entry" where
  "adopt settings e = (if e_settings e = None then e\<lparr>e_settings := settings\<rparr> else e)"

definition declare_resource :: "u64 \<Rightarrow> resource_ptr option \<Rightarrow> Entry \<Rightarrow> Entry" where
  "declare_resource h r e =
     (if e_resource e = None \<or> e_declared_hash e \<noteq> h then e\<lparr>e_declared_hash := h, e_resource := r\<rparr> else e)"

definition add_sample :: "BootSample \<Rightarrow> int \<Rightarrow> Entry \<Rightarrow> Entry" where
  "add_sample sample window e = e\<lparr>e_anchor := snd (BootAnchor_Update sample window (e_anchor e))\<rparr>"

fun plain_step :: "nat \<Rightarrow> int \<Rightarrow> table_op \<Rightarrow> Entry list \<Rightarrow> Entry list" where
  "plain_step capacity timeout (Op_Settings leaf now) es = looked_up leaf now es"
| "plain_step capacity timeout (Op_AdoptSettings leaf settings now) es =
     on_front (adopt settings) (seen capacity timeout leaf now es)"
| "plain_step capacity timeout (Op_Find leaf h now) es = looked_up leaf now es"
| "plain_step capacity timeout (Op_Insert leaf h r now) es =
     on_front (declare_resource h r) (seen capacity timeout leaf now es)"
| "plain_step capacity timeout (Op_UpdateBootAnchor leaf sample window now) es =
     on_front (add_sample sample window) (seen capacity timeout leaf now es)"

fun inserts :: "table_op \<Rightarrow> string option" where
  "inserts (Op_AdoptSettings leaf _ _) = Some leaf"
| "inserts (Op_Insert leaf _ _ _) = Some leaf"
| "inserts (Op_UpdateBootAnchor leaf _ _ _) = Some leaf"
| "inserts _ = None"

definition added :: "string option \<Rightarrow> Entry list \<Rightarrow> nat" where
  "added leaf es = (case leaf of None \<Rightarrow> 0 | Some l \<Rightarrow> if tracked l es = None then 1 else 0)"

lemma tracked_None: "tracked leaf es = None \<longleftrightarrow> leaf \<notin> e_id ` set es"
  by (auto simp: tracked_def find_None_iff)

lemma update_front_lt:
  assumes "lt_inv t" "\<And>e. e_id (f e) = e_id e"
  shows "lt_inv (update_front f t)" "entries (update_front f t) = on_front f (entries t)"
    "same_bounds t (update_front f t)" "lt_evicted (update_front f t) = lt_evicted t"
proof -
  show ents: "entries (update_front f t) = on_front f (entries t)"
    by (cases "lt_recency t") (auto simp: update_front_def entries_def split: prod.splits)
  have "in_step (update_front f t)"
  proof (cases "lt_recency t")
    case (Cons x r)
    obtain n e where x: "x = (n, e)" by force
    have t: "indexed e_id ((n, e) # r) (lt_index t) (lt_fresh t)"
      using assms(1) Cons x by (simp add: lt_inv_def)
    then have "filter (\<lambda>y. fst y \<noteq> n) r = r" by (auto simp: indexed_def filter_id_conv)
    then show ?thesis
      using indexed_splice [OF t, of n e "f e"] Cons x assms(2) by (simp add: update_front_def)
  qed (use assms(1) in \<open>simp add: update_front_def lt_inv_def\<close>)
  moreover have "length (on_front f (entries t)) = length (entries t)" by (cases "entries t") auto
  ultimately show "lt_inv (update_front f t)"
    using assms ents by (simp add: lt_inv_def) (simp add: update_front_def)
  show "same_bounds t (update_front f t)" "lt_evicted (update_front f t) = lt_evicted t"
    by (simp_all add: update_front_def same_bounds_def)
qed

lemma front_entries: "entries t \<noteq> [] \<Longrightarrow> front t = hd (entries t)"
  by (auto simp: front_def entries_def hd_map)

lemma seen_nonempty [simp]: "seen capacity timeout leaf now es \<noteq> []"
  by (simp add: seen_def move_to_front_def split: option.splits)

lemma on_front_unchanged: "es \<noteq> [] \<Longrightarrow> f (hd es) = hd es \<Longrightarrow> on_front f es = es"
  by (cases es) auto

lemma Touch_looked_up:
  assumes "lt_inv t"
  shows "lt_inv (snd (Touch leaf now t)) \<and> entries (snd (Touch leaf now t)) = looked_up leaf now (entries t) \<and>
    same_bounds t (snd (Touch leaf now t)) \<and> lt_evicted (snd (Touch leaf now t)) = lt_evicted t \<and>
    length (entries (snd (Touch leaf now t))) = length (entries t) \<and>
    fst (Touch leaf now t) = (tracked leaf (entries t) \<noteq> None)"
proof -
  have step: "in_step t" using assms by (simp add: lt_inv_def)
  have len: "length (looked_up leaf now (entries t)) = length (entries t)"
  proof (cases "tracked leaf (entries t)")
    case (Some e)
    then have "e \<in> set (entries t)" "e_id e = leaf" by (auto simp: tracked_def find_Some_iff)
    then show ?thesis
      using Some length_filter_key [OF entries_distinct [OF step], of e]
      by (cases "entries t") (auto simp: looked_up_def move_to_front_def)
  qed (simp add: looked_up_def)
  show ?thesis
    using Touch_spec [OF step, of leaf now] assms len
    by (cases "tracked leaf (entries t)")
      (auto simp: looked_up_def lt_inv_def same_bounds_def tracked_def)
qed

lemma seen_eq_looked_up: "tracked leaf es \<noteq> None \<Longrightarrow> seen capacity timeout leaf now es = looked_up leaf now es"
  by (auto simp: seen_def looked_up_def tracked_def)

lemma with_front:
  assumes "lt_inv t" and f: "\<And>e. e_id (f e) = e_id e"
    and t': "t' = update_front f (TouchOrInsert leaf now t)"
  shows "lt_inv t' \<and> entries t' = on_front f (seen (lt_max_leaves t) (lt_idle_timeout t) leaf now (entries t)) \<and>
    same_bounds t t' \<and> lt_evicted t' + length (entries t') =
      lt_evicted t + length (entries t) + added (Some leaf) (entries t)"
proof -
  note touched = TouchOrInsert_spec [OF assms(1), of leaf now]
  note updated = update_front_lt [OF touched(1), of f, OF f]
  have "length (on_front f es) = length es" for es by (cases es) auto
  then show ?thesis
    using touched updated by (auto simp: t' added_def tracked_None same_bounds_def)
qed

text \<open>The operations that change the front entry do so whether or not they write.\<close>

lemma update_front_unchanged:
  "lt_recency t \<noteq> [] \<Longrightarrow> f (front t) = front t \<Longrightarrow> update_front f t = t"
  by (cases "lt_recency t") (auto simp: update_front_def front_def)

lemma TouchOrInsert_nonempty: "lt_inv t \<Longrightarrow> lt_recency (TouchOrInsert leaf now t) \<noteq> []"
  using TouchOrInsert_spec(2) [of t leaf now] seen_nonempty by (metis entries_def list.map_disc_iff)

lemma front_update_front: "lt_recency t \<noteq> [] \<Longrightarrow> front (update_front f t) = f (front t)"
  by (cases "lt_recency t") (auto simp: update_front_def front_def)

lemma writing_operations:
  assumes "lt_inv t"
  shows "AdoptSettings leaf settings now t =
           (e_settings (adopt settings (front (TouchOrInsert leaf now t))),
            update_front (adopt settings) (TouchOrInsert leaf now t))"
    "lt_Insert leaf h r now t =
           (e_resource (declare_resource h r (front (TouchOrInsert leaf now t))),
            update_front (declare_resource h r) (TouchOrInsert leaf now t))"
    "snd (UpdateBootAnchor leaf sample window now t) =
           update_front (add_sample sample window) (TouchOrInsert leaf now t)"
proof -
  note ne = TouchOrInsert_nonempty [OF assms(1), of leaf now]
  have cong: "f (front t') = g (front t') \<Longrightarrow> update_front f t' = update_front g t'" for f g t'
    by (cases "lt_recency t'") (auto simp: update_front_def front_def)
  show "AdoptSettings leaf settings now t =
           (e_settings (adopt settings (front (TouchOrInsert leaf now t))),
            update_front (adopt settings) (TouchOrInsert leaf now t))"
    using ne by (auto simp: AdoptSettings_def Let_def adopt_def front_update_front
        update_front_unchanged intro!: cong)
  show "lt_Insert leaf h r now t =
           (e_resource (declare_resource h r (front (TouchOrInsert leaf now t))),
            update_front (declare_resource h r) (TouchOrInsert leaf now t))"
    using ne by (auto simp: lt_Insert_def Let_def declare_resource_def front_update_front
        update_front_unchanged intro!: cong)
  show "snd (UpdateBootAnchor leaf sample window now t) =
           update_front (add_sample sample window) (TouchOrInsert leaf now t)"
    by (auto simp: UpdateBootAnchor_def Let_def add_sample_def split: prod.splits intro!: cong)
qed

lemma keeps_id [simp]:
  "e_id (adopt settings e) = e_id e" "e_id (declare_resource h r e) = e_id e"
  "e_id (add_sample sample window e) = e_id e"
  by (simp_all add: adopt_def declare_resource_def add_sample_def)

lemma lt_step_spec:
  assumes "lt_inv t"
  shows "lt_inv (lt_step op t) \<and>
    entries (lt_step op t) = plain_step (lt_max_leaves t) (lt_idle_timeout t) op (entries t) \<and>
    same_bounds t (lt_step op t) \<and> lt_evicted (lt_step op t) + length (entries (lt_step op t)) =
      lt_evicted t + length (entries t) + added (inserts op) (entries t)"
proof (cases op)
  case (Op_Settings leaf now)
  then show ?thesis
    using Touch_looked_up [OF assms, of leaf now]
    by (auto simp: Settings_def added_def split: prod.splits)
next
  case (Op_Find leaf h now)
  then show ?thesis
    using Touch_looked_up [OF assms, of leaf now]
    by (auto simp: lt_Find_def added_def split: prod.splits)
qed (simp_all only: lt_step.simps plain_step.simps inserts.simps writing_operations [OF assms] snd_conv,
    (rule with_front [OF assms _ refl], simp)+)

subsection \<open>Order of last sighting\<close>

definition recency_ordered :: "Entry list \<Rightarrow> bool" where
  "recency_ordered es \<longleftrightarrow> sorted_wrt (\<lambda>a b. e_last_seen b \<le> e_last_seen a) es"

lemma drop_idle_prefix: "prefix (drop_idle timeout now es) es"
  using suffix_dropWhile [of "idle timeout now" "rev es"] by (simp add: drop_idle_def suffix_to_prefix)

lemma recency_ordered_prefix: "prefix xs es \<Longrightarrow> recency_ordered es \<Longrightarrow> recency_ordered xs"
  by (auto simp: recency_ordered_def sorted_wrt_append elim!: prefixE)

lemma drop_idle_exact:
  assumes "recency_ordered es"
  shows "drop_idle timeout now es = filter (\<lambda>e. \<not> idle timeout now e) es"
  using assms
proof (induction es rule: rev_induct)
  case (snoc e es)
  show ?case
  proof (cases "idle timeout now e")
    case False
    then have "\<forall>x \<in> set es. \<not> idle timeout now x"
      using snoc.prems by (auto simp: recency_ordered_def sorted_wrt_append idle_def)
    then show ?thesis using False by (simp add: drop_idle_snoc filter_id_conv)
  qed (use snoc in \<open>auto simp: drop_idle_snoc recency_ordered_def sorted_wrt_append\<close>)
qed (simp add: drop_idle_def)

lemma recency_ordered_seen:
  assumes "recency_ordered es" "\<forall>e \<in> set es. e_last_seen e \<le> now"
  shows "recency_ordered (seen capacity timeout leaf now es)"
proof (cases "find (\<lambda>e. e_id e = leaf) es")
  case None
  let ?kept = "take (capacity - 1) (drop_idle timeout now es)"
  have "prefix ?kept es" by (meson drop_idle_prefix prefix_order.trans take_is_prefix)
  then have "recency_ordered ?kept" "set ?kept \<subseteq> set es"
    using assms(1) recency_ordered_prefix set_mono_prefix by blast+
  then show ?thesis
    using None assms(2) by (auto simp: seen_def recency_ordered_def new_entry_def)
qed (use assms in \<open>auto simp: seen_def move_to_front_def recency_ordered_def sorted_wrt_filter\<close>)

text \<open>
  C15: the leaf table is a bounded list in order of last sighting. Every operation keeps the list
  and its index in step and does to the list of entries what \<open>plain_step\<close> says: a lookup moves the
  entry to the front; the others insert a missing entry after dropping the idle ones and, if still
  full, the least recently seen, and then change only the front entry. No bound changes, the table
  never exceeds its capacity, and the entries gone are exactly the evictions counted. When the
  steady clock has not gone back, the entries dropped as idle are exactly the idle ones.
\<close>

theorem leaf_table_refines:
  assumes "lt_inv t"
  shows "lt_inv (lt_step op t) \<and>
    entries (lt_step op t) = plain_step (lt_max_leaves t) (lt_idle_timeout t) op (entries t) \<and>
    lt_max_leaves (lt_step op t) = lt_max_leaves t \<and> lt_idle_timeout (lt_step op t) = lt_idle_timeout t \<and>
    lt_Size (lt_step op t) = length (entries (lt_step op t)) \<and> lt_Size (lt_step op t) \<le> lt_max_leaves t \<and>
    lt_evicted (lt_step op t) + lt_Size (lt_step op t) =
      lt_evicted t + lt_Size t + added (inserts op) (entries t) \<and>
    (recency_ordered (entries t) \<and> (\<forall>e \<in> set (entries t). e_last_seen e \<le> now) \<longrightarrow>
       drop_idle timeout now (entries t) = filter (\<lambda>e. \<not> idle timeout now e) (entries t) \<and>
       recency_ordered (seen capacity timeout leaf now (entries t)))"
proof -
  have size: "lt_Size t' = length (entries t')" if "lt_inv t'" for t'
    using that by (simp add: lt_Size_def lt_inv_def in_step_length)
  note spec = lt_step_spec [OF assms, of op]
  then have "lt_Size (lt_step op t) \<le> lt_max_leaves t"
    using size [of "lt_step op t"] by (auto simp: lt_inv_def same_bounds_def)
  then show ?thesis
    using spec size [of "lt_step op t"] size [OF assms] drop_idle_exact recency_ordered_seen
    by (auto simp: same_bounds_def)
qed

definition full_table :: LeafTable where
  "full_table = LeafTable_new 1 10\<lparr>lt_recency := [(0, new_entry ''a'' 0)], lt_index := [(''a'', 0)], lt_fresh := 1\<rparr>"

theorem leaf_table_refines_witness:
  "lt_inv full_table \<and> map e_id (entries (lt_step (Op_Insert ''b'' 7 (Some 1) 5) full_table)) = [''b'']"
proof -
  have inv: "lt_inv full_table"
    by (simp add: lt_inv_def full_table_def LeafTable_new_def entries_def indexed_def new_entry_def)
  then show ?thesis
    using leaf_table_refines [OF inv, of "Op_Insert ''b'' 7 (Some 1) 5"]
    by (simp add: full_table_def LeafTable_new_def entries_def seen_def new_entry_def del: lt_step.simps)
qed

section \<open>One resource per declaration\<close>

text \<open>
  What the leaf receiver relies on when it resolves a leaf's resource: a lookup answers from the
  cache, an insertion keeps what another thread cached first for the same declaration, and any
  other step on the table may evict the entry but not change it.
\<close>

locale resource_cache =
  fixes find_in :: "'k \<Rightarrow> 'h \<Rightarrow> 'n \<Rightarrow> 't \<Rightarrow> 'r option \<times> 't"
    and insert_in :: "'k \<Rightarrow> 'h \<Rightarrow> 'r \<Rightarrow> 'n \<Rightarrow> 't \<Rightarrow> 'r option \<times> 't"
    and step :: "'op \<Rightarrow> 't \<Rightarrow> 't"
    and redeclares :: "'op \<Rightarrow> 'k \<Rightarrow> 'h \<Rightarrow> bool"
    and cached :: "'t \<Rightarrow> 'k \<Rightarrow> ('h \<times> 'r) option"
    and inv :: "'t \<Rightarrow> bool"
  assumes find_result: "inv t \<Longrightarrow> fst (find_in k h n t) =
      (case cached t k of Some (h', r) \<Rightarrow> if h' = h then Some r else None | None \<Rightarrow> None)"
    and insert_result: "inv t \<Longrightarrow> fst (insert_in k h r n t) =
      Some (case cached t k of Some (h', r') \<Rightarrow> if h' = h then r' else r | None \<Rightarrow> r)"
    and insert_cached: "inv t \<Longrightarrow> fst (insert_in k h r n t) = Some r' \<Longrightarrow>
      cached (snd (insert_in k h r n t)) k = Some (h, r')"
    and insert_inv: "inv t \<Longrightarrow> inv (snd (insert_in k h r n t))"
    and step_inv: "inv t \<Longrightarrow> inv (step op t)"
    and step_cached: "inv t \<Longrightarrow> cached t k = Some (h, r) \<Longrightarrow> (\<And>h'. redeclares op k h' \<Longrightarrow> h' = h) \<Longrightarrow>
      cached (step op t) k = Some (h, r) \<or> cached (step op t) k = None"
begin

fun stays :: "'k \<Rightarrow> 'op list \<Rightarrow> 't \<Rightarrow> bool" where
  "stays k [] t = True"
| "stays k (op # ops) t \<longleftrightarrow> cached (step op t) k \<noteq> None \<and> stays k ops (step op t)"

lemma stays_cached:
  assumes "inv t" "cached t k = Some (h, r)" "stays k ops t"
    "\<forall>op \<in> set ops. \<forall>h'. redeclares op k h' \<longrightarrow> h' = h"
  shows "inv (fold step ops t) \<and> cached (fold step ops t) k = Some (h, r)"
  using assms
proof (induction ops arbitrary: t)
  case (Cons op ops)
  have "h' = h" if "redeclares op k h'" for h' using Cons.prems(4) that by simp
  then have "cached (step op t) k = Some (h, r) \<or> cached (step op t) k = None"
    by (rule step_cached [OF Cons.prems(1,2)])
  with Cons.prems(3)
  have "cached (step op t) k = Some (h, r)" by auto
  then show ?case using Cons.IH [of "step op t"] Cons.prems step_inv by simp
qed simp

lemma one_resource:
  assumes "inv t" "fst (insert_in k h r n t) = Some p"
    and "stays k ops (snd (insert_in k h r n t))"
    and "\<forall>op \<in> set ops. \<forall>h'. redeclares op k h' \<longrightarrow> h' = h"
  shows "fst (find_in k h n' (fold step ops (snd (insert_in k h r n t)))) = Some p"
    "fst (insert_in k h r' n' (fold step ops (snd (insert_in k h r n t)))) = Some p"
proof -
  have "inv (fold step ops (snd (insert_in k h r n t))) \<and>
        cached (fold step ops (snd (insert_in k h r n t))) k = Some (h, p)"
    using assms by (intro stays_cached insert_inv insert_cached) auto
  then show "fst (find_in k h n' (fold step ops (snd (insert_in k h r n t)))) = Some p"
    "fst (insert_in k h r' n' (fold step ops (snd (insert_in k h r n t)))) = Some p"
    by (simp_all add: find_result insert_result)
qed

end

text \<open>The table provides that interface.\<close>

definition cached_resource :: "LeafTable \<Rightarrow> string \<Rightarrow> (u64 \<times> resource_ptr) option" where
  "cached_resource t leaf =
     (case tracked leaf (entries t) of
        None \<Rightarrow> None
      | Some e \<Rightarrow> map_option (\<lambda>r. (e_declared_hash e, r)) (e_resource e))"

fun redeclares :: "table_op \<Rightarrow> string \<Rightarrow> u64 \<Rightarrow> bool" where
  "redeclares (Op_Insert leaf h _ _) k h' \<longleftrightarrow> leaf = k \<and> h = h'"
| "redeclares _ k h' \<longleftrightarrow> False"

lemma tracked_other:
  assumes "k \<noteq> leaf"
  shows "tracked k (looked_up leaf now es) = tracked k es"
    "tracked k (seen capacity timeout leaf now es) \<in> {tracked k es, None}"
proof -
  have filter: "find (\<lambda>e. e_id e = k) (filter (\<lambda>x. e_id x \<noteq> leaf) es) = find (\<lambda>e. e_id e = k) es" for es
    using assms by (induction es) auto
  have prefix: "prefix xs es \<Longrightarrow> find P xs \<in> {find P es, None}" for P xs and es :: "Entry list"
  proof (elim prefixE)
    show "es = xs @ zs \<Longrightarrow> find P xs \<in> {find P es, None}" for zs
      by (induction xs arbitrary: es) auto
  qed
  have moved: "tracked k (move_to_front leaf now e es) = tracked k es" if "tracked leaf es = Some e" for e
  proof -
    have "e_id e = leaf" using that by (auto simp: tracked_def find_Some_iff)
    then show ?thesis using assms filter [of es] by (simp add: tracked_def move_to_front_def)
  qed
  show "tracked k (looked_up leaf now es) = tracked k es"
    by (cases "tracked leaf es") (simp_all add: looked_up_def moved)
  show "tracked k (seen capacity timeout leaf now es) \<in> {tracked k es, None}"
  proof (cases "tracked leaf es")
    case None
    have "prefix (take (capacity - 1) (drop_idle timeout now es)) es"
      by (meson drop_idle_prefix prefix_order.trans take_is_prefix)
    from prefix [OF this, of "\<lambda>e. e_id e = k"] None assms show ?thesis
      by (simp add: seen_def tracked_def new_entry_def)
  qed (use moved in \<open>simp add: seen_eq_looked_up looked_up_def\<close>)
qed

lemma tracked_on_front_other:
  "es \<noteq> [] \<Longrightarrow> e_id (hd es) \<noteq> k \<Longrightarrow> (\<And>e. e_id (f e) = e_id e) \<Longrightarrow> tracked k (on_front f es) = tracked k es"
  by (cases es) (auto simp: tracked_def)

lemma hd_seen:
  "hd (seen capacity timeout leaf now es) =
     (case tracked leaf es of Some e \<Rightarrow> e\<lparr>e_last_seen := now\<rparr> | None \<Rightarrow> new_entry leaf now)"
  by (simp add: seen_def tracked_def move_to_front_def split: option.splits)

lemma id_hd_seen: "e_id (hd (seen capacity timeout leaf now es)) = leaf"
  by (auto simp: hd_seen tracked_def find_Some_iff new_entry_def split: option.splits)

lemma tracked_on_front_self:
  assumes "es \<noteq> []" "e_id (hd es) = k" "\<And>e. e_id (f e) = e_id e"
  shows "tracked k (on_front f es) = Some (f (hd es))"
  using assms by (cases es) (auto simp: tracked_def)

lemma tracked_looked_up_self:
  "tracked leaf (looked_up leaf now es) = map_option (e_last_seen_update (\<lambda>_. now)) (tracked leaf es)"
proof (cases "tracked leaf es")
  case (Some e)
  moreover from Some have "e_id e = leaf" by (auto simp: tracked_def find_Some_iff)
  ultimately show ?thesis by (simp add: looked_up_def tracked_def move_to_front_def)
qed (simp add: looked_up_def)

lemma plain_step_cached:
  assumes "tracked k es = Some e" "e_resource e = Some r"
    and "\<And>h'. redeclares op k h' \<Longrightarrow> h' = e_declared_hash e"
  shows "tracked k (plain_step capacity timeout op es) = None \<or>
    (\<exists>e'. tracked k (plain_step capacity timeout op es) = Some e' \<and>
       e_resource e' = Some r \<and> e_declared_hash e' = e_declared_hash e)"
proof -
  have self: "tracked k (on_front f (seen capacity timeout k now es)) = Some (f (e\<lparr>e_last_seen := now\<rparr>))"
    if "\<And>e. e_id (f e) = e_id e" for f now
    using tracked_on_front_self [OF seen_nonempty id_hd_seen that] assms(1) by (simp add: hd_seen)
  have other: "tracked k (on_front f (seen capacity timeout leaf now es)) \<in> {Some e, None}"
    if "\<And>e. e_id (f e) = e_id e" "k \<noteq> leaf" for f leaf now
    using tracked_on_front_other [OF seen_nonempty, of _ _ leaf _ _ k f] that id_hd_seen tracked_other(2) [OF that(2)] assms(1)
    by (metis (no_types, lifting) insertE insert_iff)
  have look: "tracked k (looked_up leaf now es) = Some e \<or>
      tracked k (looked_up leaf now es) = Some (e\<lparr>e_last_seen := now\<rparr>)" for leaf now
    using tracked_other(1) [of k leaf now es] tracked_looked_up_self [of k now es] assms(1)
    by (cases "k = leaf") auto
  show ?thesis
  proof (cases op)
    case (Op_AdoptSettings leaf settings now)
    then show ?thesis
      using self [of "adopt settings" now] other [of "adopt settings" leaf now] assms
      by (cases "k = leaf") (auto simp: adopt_def)
  next
    case (Op_Insert leaf h r' now)
    then show ?thesis
      using self [of "declare_resource h r'" now] other [of "declare_resource h r'" leaf now] assms
      by (cases "k = leaf") (auto simp: declare_resource_def)
  next
    case (Op_UpdateBootAnchor leaf sample window now)
    then show ?thesis
      using self [of "add_sample sample window" now] other [of "add_sample sample window" leaf now] assms
      by (cases "k = leaf") (auto simp: add_sample_def)
  next
    case (Op_Settings leaf now)
    then show ?thesis using look [of leaf now] assms by auto
  next
    case (Op_Find leaf h now)
    then show ?thesis using look [of leaf now] assms by auto
  qed
qed

lemma lt_Find_result:
  assumes "lt_inv t"
  shows "fst (lt_Find leaf h now t) =
    (case cached_resource t leaf of Some (h', r) \<Rightarrow> if h' = h then Some r else None | None \<Rightarrow> None)"
proof -
  obtain found t' where touch: "Touch leaf now t = (found, t')" by force
  have spec: "found = (tracked leaf (entries t) \<noteq> None)" "entries t' = looked_up leaf now (entries t)"
    using Touch_looked_up [OF assms, of leaf now] by (simp_all add: touch)
  have found: "fst (lt_Find leaf h now t) =
      (if \<not> found \<or> e_declared_hash (front t') \<noteq> h then None else e_resource (front t'))"
    by (simp add: lt_Find_def touch)
  show ?thesis
  proof (cases "tracked leaf (entries t)")
    case (Some e)
    then have "entries t' = e\<lparr>e_last_seen := now\<rparr> # filter (\<lambda>x. e_id x \<noteq> leaf) (entries t)"
      using spec(2) by (simp add: looked_up_def move_to_front_def)
    then have "front t' = e\<lparr>e_last_seen := now\<rparr>" using front_entries [of t'] by simp
    then show ?thesis
      using Some found spec(1) by (cases "e_resource e") (simp_all add: cached_resource_def)
  qed (use found spec(1) in \<open>simp add: cached_resource_def\<close>)
qed

lemma lt_Insert_result:
  assumes "lt_inv t"
  shows "fst (lt_Insert leaf h (Some r) now t) =
      Some (case cached_resource t leaf of Some (h', r') \<Rightarrow> if h' = h then r' else r | None \<Rightarrow> r)"
    "fst (lt_Insert leaf h (Some r) now t) = Some p \<Longrightarrow>
      cached_resource (snd (lt_Insert leaf h (Some r) now t)) leaf = Some (h, p)"
proof -
  let ?es = "seen (lt_max_leaves t) (lt_idle_timeout t) leaf now (entries t)"
  let ?d = "declare_resource h (Some r)"
  have "front (TouchOrInsert leaf now t) = hd ?es"
    using TouchOrInsert_spec(2) [OF assms, of leaf now] by (metis front_entries seen_nonempty)
  then have result: "fst (lt_Insert leaf h (Some r) now t) = e_resource (?d (hd ?es))"
    by (simp add: writing_operations [OF assms])
  then show "fst (lt_Insert leaf h (Some r) now t) =
      Some (case cached_resource t leaf of Some (h', r') \<Rightarrow> if h' = h then r' else r | None \<Rightarrow> r)"
    by (auto simp: hd_seen cached_resource_def declare_resource_def new_entry_def split: option.splits)
  have "entries (snd (lt_Insert leaf h (Some r) now t)) = on_front ?d ?es"
    using lt_step_spec [OF assms, of "Op_Insert leaf h (Some r) now"] by simp
  then have "tracked leaf (entries (snd (lt_Insert leaf h (Some r) now t))) = Some (?d (hd ?es))"
    using tracked_on_front_self [OF seen_nonempty id_hd_seen, of ?d] by simp
  then show "cached_resource (snd (lt_Insert leaf h (Some r) now t)) leaf = Some (h, p)"
    if "fst (lt_Insert leaf h (Some r) now t) = Some p"
    using that result by (auto simp: cached_resource_def declare_resource_def)
qed

lemma lt_step_cached:
  assumes "lt_inv t" "cached_resource t k = Some (h, r)" "\<And>h'. redeclares op k h' \<Longrightarrow> h' = h"
  shows "cached_resource (lt_step op t) k = Some (h, r) \<or> cached_resource (lt_step op t) k = None"
proof -
  obtain e where e: "tracked k (entries t) = Some e" "e_resource e = Some r" "e_declared_hash e = h"
    using assms(2) by (auto simp: cached_resource_def split: option.splits)
  have "entries (lt_step op t) = plain_step (lt_max_leaves t) (lt_idle_timeout t) op (entries t)"
    using lt_step_spec [OF assms(1)] by blast
  then show ?thesis
    using plain_step_cached [OF e(1,2), of op "lt_max_leaves t" "lt_idle_timeout t"] assms(3) e(3)
    by (auto simp: cached_resource_def)
qed

interpretation lt: resource_cache lt_Find "\<lambda>k h r. lt_Insert k h (Some r)" lt_step redeclares cached_resource lt_inv
proof unfold_locales
  show "lt_inv (snd (lt_Insert k h (Some r) n t))" if "lt_inv t" for k h r n t
    using lt_step_spec [OF that, of "Op_Insert k h (Some r) n"] by simp
  show "lt_inv (lt_step op t)" if "lt_inv t" for op t
    using lt_step_spec [OF that] by blast
qed (rule lt_Find_result lt_Insert_result lt_step_cached; assumption)+

text \<open>
  Threads that race on one leaf share one resource. Once an insertion for a leaf and a
  declaration has answered with a resource, every later lookup and insertion for the same leaf and
  declaration answers with that same resource, whatever any threads did to the table in between,
  as long as the leaf was not evicted and did not declare something else.
\<close>

theorem leaf_resource_shared:
  assumes "lt_inv t" "lt_Insert leaf h (Some r) now t = (Some p, t')"
    and "lt.stays leaf ops t'"
    and "\<forall>op \<in> set ops. \<forall>h'. redeclares op leaf h' \<longrightarrow> h' = h"
  shows "fst (lt_Find leaf h now' (fold lt_step ops t')) = Some p \<and>
    fst (lt_Insert leaf h (Some r') now' (fold lt_step ops t')) = Some p"
  using lt.one_resource [OF assms(1), of leaf h r now p ops] assms by auto

theorem leaf_resource_shared_witness:
  "lt_inv (LeafTable_new 2 0) \<and>
   fst (lt_Find ''a'' 7 3 (fold lt_step [Op_Insert ''b'' 8 (Some 1) 2, Op_Insert ''a'' 7 (Some 2) 3]
     (snd (lt_Insert ''a'' 7 (Some 0) 1 (LeafTable_new 2 0))))) = Some 0"
proof -
  let ?t = "LeafTable_new 2 0" and ?ops = "[Op_Insert ''b'' 8 (Some 1) 2, Op_Insert ''a'' 7 (Some 2) 3]"
  have inv: "lt_inv ?t" by (simp add: lt_inv_def LeafTable_new_def entries_def)
  obtain t' where t': "lt_Insert ''a'' 7 (Some 0) 1 ?t = (Some 0, t')"
    and stays: "lt.stays ''a'' ?ops t'"
    by (simp add: lt_Insert_def TouchOrInsert_def Touch_def EvictIdle_def LeafTable_new_def
        new_entry_def update_front_def front_def cached_resource_def tracked_def entries_def Let_def)
  from leaf_resource_shared [OF inv t' stays] t' inv show ?thesis by simp
qed

section \<open>Unknown leaves\<close>

definition answers :: "UnknownLeafCache \<Rightarrow> Answer list" where
  "answers c = map snd (uc_age c)"

definition uc_inv :: "UnknownLeafCache \<Rightarrow> bool" where
  "uc_inv c \<longleftrightarrow> indexed a_id (uc_age c) (uc_index c) (uc_fresh c) \<and>
     length (answers c) \<le> uc_capacity c \<and> 1 \<le> uc_capacity c"

definition expired :: "int \<Rightarrow> int \<Rightarrow> Answer \<Rightarrow> bool" where
  "expired ttl now a \<longleftrightarrow> ttl < now - a_at a"

definition answer_for :: "string \<Rightarrow> Answer list \<Rightarrow> Answer option" where
  "answer_for leaf as = find (\<lambda>a. a_id a = leaf) as"

lemma uc_inv_new: "uc_inv (UnknownLeafCache_new capacity ttl)"
  by (simp add: uc_inv_def UnknownLeafCache_new_def answers_def)

lemma uc_Erase_spec:
  assumes "indexed a_id (uc_age c) (uc_index c) (uc_fresh c)" "(n, a) \<in> set (uc_age c)"
  shows "indexed a_id (uc_age (uc_Erase (n, a) c)) (uc_index (uc_Erase (n, a) c)) (uc_fresh (uc_Erase (n, a) c))"
    "answers (uc_Erase (n, a) c) = filter (\<lambda>x. a_id x \<noteq> a_id a) (answers c)"
  using indexed_remove [OF assms] map_snd_filter_key [OF assms]
  by (simp_all add: uc_Erase_def answers_def)

lemma uc_Erase_fields [simp]:
  "uc_capacity (uc_Erase x c) = uc_capacity c" "uc_ttl (uc_Erase x c) = uc_ttl c"
  by (simp_all add: uc_Erase_def)

lemma answers_distinct: "uc_inv c \<Longrightarrow> distinct (map a_id (answers c))"
  by (simp add: uc_inv_def indexed_def answers_def)

lemma uc_Erase_hd:
  assumes "indexed a_id (uc_age c) (uc_index c) (uc_fresh c)" "uc_age c \<noteq> []"
  shows "indexed a_id (uc_age (uc_Erase (hd (uc_age c)) c)) (uc_index (uc_Erase (hd (uc_age c)) c))
      (uc_fresh (uc_Erase (hd (uc_age c)) c))"
    "answers (uc_Erase (hd (uc_age c)) c) = tl (answers c)"
proof -
  obtain n a where x: "hd (uc_age c) = (n, a)" by force
  then have "(n, a) \<in> set (uc_age c)" using assms(2) by (metis list.set_sel(1))
  note erased = uc_Erase_spec [OF assms(1) this]
  have "distinct (map a_id (answers c))" using assms(1) by (simp add: indexed_def answers_def)
  then have "filter (\<lambda>y. a_id y \<noteq> a_id a) (answers c) = tl (answers c)"
    using filter_hd [of a_id "answers c"] assms(2) x by (simp add: answers_def hd_map)
  then show "indexed a_id (uc_age (uc_Erase (hd (uc_age c)) c)) (uc_index (uc_Erase (hd (uc_age c)) c))
      (uc_fresh (uc_Erase (hd (uc_age c)) c))"
    "answers (uc_Erase (hd (uc_age c)) c) = tl (answers c)"
    using erased x by simp_all
qed

lemma uc_expire_spec:
  assumes "indexed a_id (uc_age c) (uc_index c) (uc_fresh c)"
  shows "indexed a_id (uc_age (uc_expire now c)) (uc_index (uc_expire now c)) (uc_fresh (uc_expire now c)) \<and>
    answers (uc_expire now c) = dropWhile (expired (uc_ttl c) now) (answers c) \<and>
    uc_capacity (uc_expire now c) = uc_capacity c \<and> uc_ttl (uc_expire now c) = uc_ttl c"
  using assms
proof (induction now c rule: uc_expire.induct)
  case (1 now c)
  let ?go = "uc_age c \<noteq> [] \<and> now - a_at (snd (hd (uc_age c))) > uc_ttl c"
  show ?case
  proof (cases ?go)
    case True
    then have "uc_expire now c = uc_expire now (uc_Erase (hd (uc_age c)) c)"
      by (subst uc_expire.simps) simp
    moreover have "dropWhile (expired (uc_ttl c) now) (answers c) = dropWhile (expired (uc_ttl c) now) (tl (answers c))"
      using True by (cases "uc_age c") (auto simp: answers_def expired_def)
    ultimately show ?thesis using 1(1) [OF True] uc_Erase_hd [OF 1(2)] True by simp
  next
    case False
    then have "uc_expire now c = c" by (subst uc_expire.simps) auto
    moreover have "dropWhile (expired (uc_ttl c) now) (answers c) = answers c"
      using False by (cases "uc_age c") (auto simp: answers_def expired_def)
    ultimately show ?thesis using 1(2) by simp
  qed
qed

text \<open>\<open>Contains\<close> answers yes exactly for an answer within its time to live, and forgets one past it.\<close>

lemma uc_Contains_spec:
  assumes "uc_inv c"
  shows "fst (uc_Contains leaf now c) \<longleftrightarrow>
      (\<exists>a. answer_for leaf (answers c) = Some a \<and> \<not> expired (uc_ttl c) now a)"
    "uc_inv (snd (uc_Contains leaf now c))"
    "answers (snd (uc_Contains leaf now c)) =
       filter (\<lambda>a. \<not> (a_id a = leaf \<and> expired (uc_ttl c) now a)) (answers c)"
proof -
  have step: "indexed a_id (uc_age c) (uc_index c) (uc_fresh c)" using assms by (simp add: uc_inv_def)
  have "(fst (uc_Contains leaf now c) \<longleftrightarrow>
      (\<exists>a. answer_for leaf (answers c) = Some a \<and> \<not> expired (uc_ttl c) now a)) \<and>
    uc_inv (snd (uc_Contains leaf now c)) \<and> answers (snd (uc_Contains leaf now c)) =
       filter (\<lambda>a. \<not> (a_id a = leaf \<and> expired (uc_ttl c) now a)) (answers c)"
  proof (cases "map_of (uc_index c) leaf")
    case None
    then have "leaf \<notin> a_id ` set (answers c)"
      using indexed_missing [OF step] by (simp add: answers_def)
    moreover from this have "answer_for leaf (answers c) = None"
      by (auto simp: answer_for_def find_None_iff)
    moreover from \<open>leaf \<notin> a_id ` set (answers c)\<close>
    have "filter (\<lambda>a. \<not> (a_id a = leaf \<and> expired (uc_ttl c) now a)) (answers c) = answers c"
      by (auto simp: filter_id_conv)
    ultimately show ?thesis
      using None assms by (auto simp: uc_Contains_def)
  next
    case (Some n)
    then obtain a where a: "(n, a) \<in> set (uc_age c)" "a_id a = leaf"
      using indexed_lookup [OF step] by blast
    then have mem: "a \<in> set (answers c)" by (force simp: answers_def)
    have ans: "answer_for leaf (answers c) = Some a"
      using find_key [OF answers_distinct [OF assms] mem] a(2) by (simp add: answer_for_def)
    have only: "x = a" if "x \<in> set (answers c)" "a_id x = leaf" for x
      using that mem a(2) answers_distinct [OF assms] by (auto simp: distinct_map dest: inj_onD)
    have node: "map_of (uc_age c) n = Some a" using indexed_node [OF step] a by simp
    show ?thesis
    proof (cases "expired (uc_ttl c) now a")
      case True
      have "length (filter (\<lambda>x. a_id x \<noteq> leaf) (answers c)) \<le> uc_capacity c"
        using assms le_trans [OF length_filter_le] by (auto simp: uc_inv_def)
      moreover have "filter (\<lambda>x. a_id x \<noteq> leaf) (answers c) =
          filter (\<lambda>x. \<not> (a_id x = leaf \<and> expired (uc_ttl c) now x)) (answers c)"
        using True only by (intro filter_cong) auto
      ultimately show ?thesis
        using True Some node ans uc_Erase_spec [OF step a(1)] a(2) assms
        by (auto simp: uc_Contains_def uc_inv_def expired_def)
    next
      case False
      have "filter (\<lambda>x. \<not> (a_id x = leaf \<and> expired (uc_ttl c) now x)) (answers c) = answers c"
        using False only by (auto simp: filter_id_conv)
      then show ?thesis
        using False Some node ans assms by (auto simp: uc_Contains_def expired_def)
    qed
  qed
  then show "fst (uc_Contains leaf now c) \<longleftrightarrow>
      (\<exists>a. answer_for leaf (answers c) = Some a \<and> \<not> expired (uc_ttl c) now a)"
    "uc_inv (snd (uc_Contains leaf now c))"
    "answers (snd (uc_Contains leaf now c)) =
       filter (\<lambda>a. \<not> (a_id a = leaf \<and> expired (uc_ttl c) now a)) (answers c)" by auto
qed

lemma in_set_tlD: "x \<in> set (tl xs) \<Longrightarrow> x \<in> set xs"
  by (cases xs) auto

lemma uc_Insert_spec:
  assumes "uc_inv c"
  shows "uc_inv (uc_Insert leaf now c) \<and> answers (uc_Insert leaf now c) =
    (if leaf \<in> a_id ` set (answers c) then answers c
     else (let kept = dropWhile (expired (uc_ttl c) now) (answers c)
           in (if length kept \<ge> uc_capacity c then tl kept else kept) @ [\<lparr>a_id = leaf, a_at = now\<rparr>]))"
proof -
  have step: "indexed a_id (uc_age c) (uc_index c) (uc_fresh c)" and one: "1 \<le> uc_capacity c"
    using assms by (auto simp: uc_inv_def)
  show ?thesis
  proof (cases "map_of (uc_index c) leaf = None")
    case False
    then have "leaf \<in> a_id ` set (answers c)"
      using indexed_missing [OF step] by (simp add: answers_def)
    then show ?thesis using False assms by (simp add: uc_Insert_def)
  next
    case True
    then have new: "leaf \<notin> a_id ` set (answers c)"
      using indexed_missing [OF step] by (simp add: answers_def)
    define c1 where "c1 = uc_expire now c"
    define c2 where "c2 = (if length (uc_index c1) \<ge> uc_capacity c1 then uc_Erase (hd (uc_age c1)) c1 else c1)"
    note e1 = uc_expire_spec [OF step, of now, folded c1_def]
    let ?kept = "dropWhile (expired (uc_ttl c) now) (answers c)"
    have len1: "length (uc_index c1) = length (answers c1)"
      using indexed_length [of a_id "uc_age c1" "uc_index c1" "uc_fresh c1"] e1
      by (metis answers_def length_map)
    have room: "indexed a_id (uc_age c2) (uc_index c2) (uc_fresh c2) \<and> uc_capacity c2 = uc_capacity c \<and>
      answers c2 = (if length ?kept \<ge> uc_capacity c then tl ?kept else ?kept)"
      using e1 uc_Erase_hd [of c1] one len1 by (cases "uc_age c1") (auto simp: c2_def answers_def)
    have le: "length ?kept \<le> uc_capacity c"
      using assms length_dropWhile_le [of "expired (uc_ttl c) now" "answers c"] by (simp add: uc_inv_def)
    have "set (answers c2) \<subseteq> set (answers c)"
      using room by (auto dest: set_dropWhileD in_set_tlD split: if_splits)
    then have "a_id \<lparr>a_id = leaf, a_at = now\<rparr> \<notin> a_id ` snd ` set (uc_age c2)"
      using new by (auto simp: answers_def)
    from indexed_push(2) [OF conjunct1 [OF room] this]
    have c': "uc_Insert leaf now c = c2\<lparr>uc_age := uc_age c2 @ [(uc_fresh c2, \<lparr>a_id = leaf, a_at = now\<rparr>)],
                 uc_index := (leaf, uc_fresh c2) # uc_index c2, uc_fresh := uc_fresh c2 + 1\<rparr>"
      "indexed a_id (uc_age (uc_Insert leaf now c)) (uc_index (uc_Insert leaf now c)) (uc_fresh (uc_Insert leaf now c))"
      using True by (simp_all add: uc_Insert_def Let_def flip: c1_def c2_def)
    then have "answers (uc_Insert leaf now c) = answers c2 @ [\<lparr>a_id = leaf, a_at = now\<rparr>]"
      by (simp add: answers_def)
    moreover have "length (answers c2) < uc_capacity c" using room le one by auto
    ultimately show ?thesis using c' room new one by (simp add: uc_inv_def Let_def)
  qed
qed

end
