(* ===== verification/Leaf_Resource.thy ===== *)
theory Leaf_Resource
  imports Leaf_Table
begin

text \<open>
  The pure parts of the leaf receiver (\<open>src/sdk/leaf_resource.cpp\<close>, \<open>src/sdk/leaf_options.cpp\<close>) and
  the key-level merge of resources (\<open>include/microtel/resource.hpp\<close>): reading the reserved wire
  attributes, the payload checks that need them, the hash of a declared resource, the merge of the
  configuration layers under a byte budget, and the validation of the receiver's options.

  A \<open>Resource\<close> is its attribute list. Byte counts are natural numbers: the strings counted are in
  memory, so the sums of a \<open>std::size_t\<close> do not wrap. The budget's hash map is a finite map. The
  hash reads objects in memory: integers are little-endian and \<open>std::size_t\<close> has eight bytes.

  Proved here: what a merge of layers resolves each key to, that the running byte count is the
  cost of the resource finally built, that the budget bounds it, and what validation ensures.
\<close>

section \<open>Resources\<close>

type_synonym Resource = "KeyValue list"

fun merge_one :: "Resource \<Rightarrow> KeyValue \<Rightarrow> Resource" where
  "merge_one [] kv = [kv]"
| "merge_one (x # xs) kv =
     (if kv_key x = kv_key kv then x\<lparr>kv_value := kv_value kv\<rparr> # xs else x # merge_one xs kv)"

definition Resource_Merge :: "Resource \<Rightarrow> Resource \<Rightarrow> Resource" where
  "Resource_Merge base overriding = foldl merge_one base overriding"

section \<open>Reserved attributes\<close>

definition kLeafReservedPrefix :: string where "kLeafReservedPrefix = ''microtel.leaf.''"
definition kLeafProtoVersion :: u64 where "kLeafProtoVersion = 1"
definition kMaxLeafIdBytes :: nat where "kMaxLeafIdBytes = 128"
definition kProtoKey :: string where "kProtoKey = ''microtel.leaf.proto''"
definition kTimeModeKey :: string where "kTimeModeKey = ''microtel.leaf.time_mode''"
definition kEncodeTimeKey :: string where "kEncodeTimeKey = ''microtel.leaf.encode_time''"
definition kSyncAgeKey :: string where "kSyncAgeKey = ''microtel.leaf.sync_age''"
definition kBootIdKey :: string where "kBootIdKey = ''microtel.leaf.boot_id''"
definition kDroppedSpansKey :: string where "kDroppedSpansKey = ''microtel.leaf.dropped_spans''"
definition kDroppedItemsKey :: string where "kDroppedItemsKey = ''microtel.leaf.dropped_items''"
definition kServiceNameKey :: string where "kServiceNameKey = ''service.name''"
definition kUnknownService :: string where "kUnknownService = ''unknown_service''"
definition kScalarBytes :: nat where "kScalarBytes = 8"

definition IsReserved :: "string \<Rightarrow> bool" where
  "IsReserved k = (take (length kLeafReservedPrefix) k = kLeafReservedPrefix)"

record LeafWireInfo =
  wi_proto :: "u64 option"
  wi_time_mode :: "u64 option"
  wi_encode_time :: "u64 option"
  wi_sync_age :: "u64 option"
  wi_boot_id :: "u64 option"
  wi_dropped_spans :: "u64 option"
  wi_dropped_items :: "u64 option"
  wi_wrong_type :: bool
  wi_declared :: bool

definition LeafWireInfo_new :: LeafWireInfo where
  "LeafWireInfo_new =
     \<lparr>wi_proto = None, wi_time_mode = None, wi_encode_time = None, wi_sync_age = None,
      wi_boot_id = None, wi_dropped_spans = None, wi_dropped_items = None,
      wi_wrong_type = False, wi_declared = False\<rparr>"

text \<open>\<open>SlotFor\<close>: the member a known key fills, as its update; \<open>None\<close> for an unknown key.\<close>

definition SlotFor :: "string \<Rightarrow> (u64 \<Rightarrow> LeafWireInfo \<Rightarrow> LeafWireInfo) option" where
  "SlotFor k =
     (if kProtoKey = k then Some (\<lambda>v. wi_proto_update (\<lambda>_. Some v))
      else if kTimeModeKey = k then Some (\<lambda>v. wi_time_mode_update (\<lambda>_. Some v))
      else if kEncodeTimeKey = k then Some (\<lambda>v. wi_encode_time_update (\<lambda>_. Some v))
      else if kSyncAgeKey = k then Some (\<lambda>v. wi_sync_age_update (\<lambda>_. Some v))
      else if kBootIdKey = k then Some (\<lambda>v. wi_boot_id_update (\<lambda>_. Some v))
      else if kDroppedSpansKey = k then Some (\<lambda>v. wi_dropped_spans_update (\<lambda>_. Some v))
      else if kDroppedItemsKey = k then Some (\<lambda>v. wi_dropped_items_update (\<lambda>_. Some v))
      else None)"

definition read_one :: "LeafWireInfo \<Rightarrow> KeyValue \<Rightarrow> LeafWireInfo" where
  "read_one info kv =
     (if \<not> IsReserved (kv_key kv) then info
      else
        let info1 = info\<lparr>wi_declared := True\<rparr>
        in (case SlotFor (kv_key kv) of
              None \<Rightarrow> info1
            | Some slot \<Rightarrow>
                (case kv_value kv of
                   AV_int64 v \<Rightarrow> slot v info1
                 | _ \<Rightarrow> info1\<lparr>wi_wrong_type := True\<rparr>)))"

definition ReadWireInfo :: "Resource \<Rightarrow> LeafWireInfo" where
  "ReadWireInfo resource = foldl read_one LeafWireInfo_new resource"

text \<open>The numbers of the time modes on the wire; \<open>Unix\<close> has none.\<close>

fun mode_number :: "LeafTimeMode \<Rightarrow> u64" where
  "mode_number ConcentratorStamped_mode = 0"
| "mode_number SyncRelative_mode = 1"
| "mode_number BootRelative_mode = 2"
| "mode_number Unix_mode = 3"

definition CheckWireInfo :: "LeafWireInfo \<Rightarrow> LeafTimeMode option" where
  "CheckWireInfo info =
     (if \<not> wi_declared info then Some Unix_mode
      else if wi_wrong_type info \<or> wi_proto info \<noteq> Some kLeafProtoVersion \<or> wi_time_mode info = None
      then None
      else
        let mode = the (wi_time_mode info)
        in if mode = mode_number ConcentratorStamped_mode then Some ConcentratorStamped_mode
           else if mode = mode_number SyncRelative_mode then
             (if wi_encode_time info = None \<or> wi_sync_age info = None then None
              else Some SyncRelative_mode)
           else if mode = mode_number BootRelative_mode then
             (if wi_encode_time info = None \<or> wi_boot_id info = None then None
              else Some BootRelative_mode)
           else None)"

definition TimeModeAllowed :: "LeafTimeMode \<Rightarrow> LeafTimeMode option \<Rightarrow> bool" where
  "TimeModeAllowed declared configured =
     (if declared = Unix_mode then configured = Some Unix_mode
      else configured = None \<or> configured = Some declared \<or> declared = ConcentratorStamped_mode)"

section \<open>The hash of a declared resource\<close>

definition kFnvOffset :: u64 where "kFnvOffset = 14695981039346656037"
definition kFnvPrime :: u64 where "kFnvPrime = 1099511628211"

definition Fnv_bytes :: "u64 \<Rightarrow> u8 list \<Rightarrow> u64" where
  "Fnv_bytes h data = foldl (\<lambda>h b. (h XOR ucast b) * kFnvPrime) h data"

text \<open>An eight-byte object in memory.\<close>

definition le_bytes :: "u64 \<Rightarrow> u8 list" where
  "le_bytes w = map (\<lambda>i. ucast (drop_bit (8 * i) w)) [0..<8]"

definition char_byte :: "char \<Rightarrow> u8" where
  "char_byte c = of_nat (of_char c)"

definition Fnv_string :: "u64 \<Rightarrow> string \<Rightarrow> u64" where
  "Fnv_string h s = Fnv_bytes (Fnv_bytes h (le_bytes (of_nat (length s)))) (map char_byte s)"

definition bool_byte :: "bool \<Rightarrow> u8" where
  "bool_byte b = (if b then 1 else 0)"

fun HashValue :: "u64 \<Rightarrow> AttributeValue \<Rightarrow> u64" where
  "HashValue h (AV_bool b) = Fnv_bytes (Fnv_bytes h (le_bytes 0)) [bool_byte b]"
| "HashValue h (AV_int64 i) = Fnv_bytes (Fnv_bytes h (le_bytes 1)) (le_bytes i)"
| "HashValue h (AV_double d) = Fnv_bytes (Fnv_bytes h (le_bytes 2)) (le_bytes d)"
| "HashValue h (AV_string s) = Fnv_string (Fnv_bytes h (le_bytes 3)) s"
| "HashValue h (AV_bools bs) =
     foldl (\<lambda>h b. Fnv_bytes h [bool_byte b])
       (Fnv_bytes (Fnv_bytes h (le_bytes 4)) (le_bytes (of_nat (length bs)))) bs"
| "HashValue h (AV_int64s xs) =
     foldl (\<lambda>h i. Fnv_bytes h (le_bytes i))
       (Fnv_bytes (Fnv_bytes h (le_bytes 5)) (le_bytes (of_nat (length xs)))) xs"
| "HashValue h (AV_doubles ds) =
     foldl (\<lambda>h d. Fnv_bytes h (le_bytes d))
       (Fnv_bytes (Fnv_bytes h (le_bytes 6)) (le_bytes (of_nat (length ds)))) ds"
| "HashValue h (AV_strings ss) =
     foldl Fnv_string (Fnv_bytes (Fnv_bytes h (le_bytes 7)) (le_bytes (of_nat (length ss)))) ss"

definition hash_one :: "u64 \<Rightarrow> KeyValue \<Rightarrow> u64" where
  "hash_one h kv =
     (if IsReserved (kv_key kv) then h else HashValue (Fnv_string h (kv_key kv)) (kv_value kv))"

definition HashDeclaredResource :: "Resource \<Rightarrow> u64" where
  "HashDeclaredResource resource = foldl hash_one kFnvOffset resource"

section \<open>The byte budget\<close>

fun lr_ValueBytes :: "AttributeValue \<Rightarrow> nat" where
  "lr_ValueBytes (AV_string s) = length s"
| "lr_ValueBytes (AV_strings strings) = foldl (\<lambda>n s. n + length s) 0 strings"
| "lr_ValueBytes (AV_bools bools) = length bools * kScalarBytes"
| "lr_ValueBytes (AV_int64s ints) = length ints * kScalarBytes"
| "lr_ValueBytes (AV_doubles doubles) = length doubles * kScalarBytes"
| "lr_ValueBytes _ = kScalarBytes"

definition AttributeBytes :: "KeyValue \<Rightarrow> nat" where
  "AttributeBytes kv = length (kv_key kv) + lr_ValueBytes (kv_value kv)"

record Budget =
  b_values :: "(string \<times> nat) list"
  b_total :: nat

definition Budget_new :: Budget where
  "Budget_new = \<lparr>b_values = [], b_total = 0\<rparr>"

definition Budget_TotalWith :: "string \<Rightarrow> nat \<Rightarrow> Budget \<Rightarrow> nat" where
  "Budget_TotalWith k value_bytes b =
     (case map_of (b_values b) k of
        None \<Rightarrow> b_total b + length k + value_bytes
      | Some old \<Rightarrow> b_total b - old + value_bytes)"

definition Budget_Set :: "string \<Rightarrow> nat \<Rightarrow> Budget \<Rightarrow> Budget" where
  "Budget_Set k value_bytes b =
     \<lparr>b_values = (k, value_bytes) # filter (\<lambda>x. fst x \<noteq> k) (b_values b),
      b_total = Budget_TotalWith k value_bytes b\<rparr>"

definition Budget_Has :: "string \<Rightarrow> Budget \<Rightarrow> bool" where
  "Budget_Has k b \<longleftrightarrow> map_of (b_values b) k \<noteq> None"

section \<open>Layers\<close>

record LeafResourceLayers =
  ly_defaults :: Resource
  ly_declared :: Resource
  ly_configured :: Resource
  ly_id_key :: string
  ly_leaf_id :: string
  ly_budget :: nat

text \<open>A null layer is the empty one (\<open>OrNone\<close>).\<close>

definition charge :: "Budget \<Rightarrow> KeyValue \<Rightarrow> Budget" where
  "charge b kv = Budget_Set (kv_key kv) (lr_ValueBytes (kv_value kv)) b"

definition ChargeFixedLayers :: "LeafResourceLayers \<Rightarrow> Budget \<Rightarrow> string list \<times> Budget" where
  "ChargeFixedLayers layers budget =
     (let b1 = foldl charge budget (ly_defaults layers);
          b2 = foldl charge b1 (ly_configured layers);
          pinned = map kv_key (ly_configured layers);
          (pinned', b3) = (if ly_id_key layers \<noteq> []
            then (ly_id_key layers # pinned, Budget_Set (ly_id_key layers) (length (ly_leaf_id layers)) b2)
            else (pinned, b2));
          b4 = (if \<not> Budget_Has kServiceNameKey b3
                then Budget_Set kServiceNameKey (length kUnknownService) b3 else b3)
      in (pinned', b4))"

fun AdmitDeclared ::
    "nat \<Rightarrow> Resource \<Rightarrow> string list \<Rightarrow> Budget \<Rightarrow> nat \<Rightarrow> Resource \<times> Budget \<times> nat" where
  "AdmitDeclared limit [] pinned budget dropped = ([], budget, dropped)"
| "AdmitDeclared limit (kv # kvs) pinned budget dropped =
     (if IsReserved (kv_key kv) \<or> kv_key kv \<in> set pinned
      then AdmitDeclared limit kvs pinned budget dropped
      else
        let value_bytes = lr_ValueBytes (kv_value kv)
        in if Budget_TotalWith (kv_key kv) value_bytes budget > limit
           then AdmitDeclared limit kvs pinned budget (dropped + 1)
           else
             let (admitted, budget', dropped') =
                   AdmitDeclared limit kvs pinned (Budget_Set (kv_key kv) value_bytes budget) dropped
             in (kv # admitted, budget', dropped'))"

definition Layer :: "string \<Rightarrow> string \<Rightarrow> Resource" where
  "Layer k v = [\<lparr>kv_key = k, kv_value = AV_string v\<rparr>]"

definition Names :: "Resource \<Rightarrow> string \<Rightarrow> bool" where
  "Names resource k \<longleftrightarrow> find (\<lambda>kv. kv_key kv = k) resource \<noteq> None"

record ResolvedLeafResource =
  rl_resource :: Resource
  rl_attributes_dropped :: nat

definition ResolveLeafResource :: "LeafResourceLayers \<Rightarrow> ResolvedLeafResource" where
  "ResolveLeafResource layers =
     (let (pinned, budget) = ChargeFixedLayers layers Budget_new;
          (admitted, _, dropped) = AdmitDeclared (ly_budget layers) (ly_declared layers) pinned budget 0;
          m1 = Resource_Merge (ly_defaults layers) admitted;
          m2 = Resource_Merge m1 (ly_configured layers);
          m3 = (if ly_id_key layers \<noteq> []
                then Resource_Merge m2 (Layer (ly_id_key layers) (ly_leaf_id layers)) else m2);
          m4 = (if \<not> Names m3 kServiceNameKey
                then Resource_Merge m3 (Layer kServiceNameKey kUnknownService) else m3)
      in \<lparr>rl_resource = m4, rl_attributes_dropped = dropped\<rparr>)"

text \<open>The loop of \<open>MergeResolverResource\<close>: the configured resource, the budget and the count.\<close>

fun merge_answer ::
    "string \<Rightarrow> nat \<Rightarrow> Resource \<Rightarrow> Resource \<times> Budget \<times> nat \<Rightarrow> Resource \<times> Budget \<times> nat" where
  "merge_answer id_key limit [] s = s"
| "merge_answer id_key limit (kv # kvs) (configured, budget, dropped) =
     (if IsReserved (kv_key kv) \<or> (id_key \<noteq> [] \<and> kv_key kv = id_key)
      then merge_answer id_key limit kvs (configured, budget, dropped)
      else
        let value_bytes = lr_ValueBytes (kv_value kv)
        in if Budget_TotalWith (kv_key kv) value_bytes budget > limit
           then merge_answer id_key limit kvs (configured, budget, dropped + 1)
           else merge_answer id_key limit kvs
                  (merge_one configured kv, Budget_Set (kv_key kv) value_bytes budget, dropped))"

definition MergeResolverResource ::
    "Resource \<Rightarrow> Resource \<Rightarrow> LeafResourceLayers \<Rightarrow> nat \<times> Resource" where
  "MergeResolverResource configured answer fixed =
     (let layers = fixed\<lparr>ly_declared := [], ly_configured := configured\<rparr>;
          (_, budget) = ChargeFixedLayers layers Budget_new;
          (configured', _, dropped) =
            merge_answer (ly_id_key fixed) (ly_budget fixed) answer (configured, budget, 0)
      in (dropped, configured'))"

section \<open>Resources as maps\<close>

text \<open>What a key resolves to: the first attribute in a resource, the last one in an overriding list.\<close>

abbreviation resource_map :: "Resource \<Rightarrow> (string \<rightharpoonup> AttributeValue)" where
  "resource_map \<equiv> assoc_of kv_key kv_value"

definition last_map :: "Resource \<Rightarrow> (string \<rightharpoonup> AttributeValue)" where
  "last_map kvs = resource_map (rev kvs)"

lemma last_map_simps [simp]:
  "last_map [] = Map.empty"
  "last_map (kvs @ [kv]) = (last_map kvs)(kv_key kv \<mapsto> kv_value kv)"
  by (simp_all add: last_map_def)

lemma dom_last_map [simp]: "dom (last_map kvs) = kv_key ` set kvs"
  by (simp add: last_map_def)

lemma foldl_upd_last_map:
  "foldl (\<lambda>m kv. m(kv_key kv \<mapsto> kv_value kv)) m kvs = m ++ last_map kvs"
  by (induction kvs rule: rev_induct) (auto simp: fun_eq_iff map_add_def split: option.splits)

lemma last_map_Cons: "last_map (kv # kvs) = [kv_key kv \<mapsto> kv_value kv] ++ last_map kvs"
  by (simp add: last_map_def)

lemma last_map_distinct: "distinct (map kv_key kvs) \<Longrightarrow> last_map kvs = resource_map kvs"
proof (induction kvs)
  case (Cons kv kvs)
  then have "last_map kvs (kv_key kv) = None" by (simp add: assoc_of_None_iff)
  then show ?case using Cons by (auto simp: last_map_Cons fun_eq_iff map_add_def split: option.splits)
qed simp

lemma resource_map_merge_one [simp]:
  "resource_map (merge_one b kv) = (resource_map b)(kv_key kv \<mapsto> kv_value kv)"
  by (induction b kv rule: merge_one.induct) (auto simp: fun_eq_iff)

lemma keys_merge_one: "kv_key ` set (merge_one b kv) = insert (kv_key kv) (kv_key ` set b)"
  by (induction b kv rule: merge_one.induct) auto

lemma distinct_merge_one [simp]:
  "distinct (map kv_key (merge_one b kv)) = distinct (map kv_key b)"
  by (induction b kv rule: merge_one.induct) (auto simp: keys_merge_one simp flip: image_set)

lemma resource_map_Merge [simp]:
  "resource_map (Resource_Merge b o') = resource_map b ++ last_map o'"
  unfolding Resource_Merge_def
  by (induction o' rule: rev_induct) (auto simp: fun_eq_iff map_add_def split: option.splits)

lemma distinct_Merge [simp]:
  "distinct (map kv_key (Resource_Merge b o')) = distinct (map kv_key b)"
  unfolding Resource_Merge_def by (induction o' rule: rev_induct) auto

lemma Names_iff: "Names r k \<longleftrightarrow> resource_map r k \<noteq> None"
  by (auto simp: Names_def find_None_iff assoc_of_None_iff)

lemma last_map_Layer [simp]: "last_map (Layer k v) = [k \<mapsto> AV_string v]"
  by (simp add: Layer_def last_map_def)

section \<open>The budget is the cost of a map\<close>

definition map_cost :: "(string \<rightharpoonup> AttributeValue) \<Rightarrow> nat" where
  "map_cost m = (\<Sum>k \<in> dom m. length k + lr_ValueBytes (the (m k)))"

definition represents :: "Budget \<Rightarrow> (string \<rightharpoonup> AttributeValue) \<Rightarrow> bool" where
  "represents b m \<longleftrightarrow> map_of (b_values b) = map_option lr_ValueBytes \<circ> m \<and> finite (dom m) \<and>
     b_total b = map_cost m"

lemma map_cost_upd_new: "finite (dom m) \<Longrightarrow> m k = None \<Longrightarrow> map_cost (m(k \<mapsto> v)) = map_cost m + length k + lr_ValueBytes v"
  by (auto simp: map_cost_def domIff intro!: sum.cong)

lemma map_cost_upd_old:
  assumes "finite (dom m)" "m k = Some old"
  shows "map_cost (m(k \<mapsto> v)) = map_cost m - lr_ValueBytes old + lr_ValueBytes v"
proof -
  have k: "k \<in> dom m" using assms(2) by auto
  have "map_cost m = (length k + lr_ValueBytes old) + (\<Sum>j \<in> dom m - {k}. length j + lr_ValueBytes (the (m j)))"
    using sum.remove [OF assms(1) k, of "\<lambda>k. length k + lr_ValueBytes (the (m k))"] assms(2)
    by (simp add: map_cost_def)
  moreover have "map_cost (m(k \<mapsto> v)) =
      (length k + lr_ValueBytes v) + (\<Sum>j \<in> dom m - {k}. length j + lr_ValueBytes (the (m j)))"
    using sum.remove [of "dom (m(k \<mapsto> v))" k "\<lambda>j. length j + lr_ValueBytes (the ((m(k \<mapsto> v)) j))"] assms k
    by (simp add: map_cost_def insert_absorb)
  ultimately show ?thesis by simp
qed

lemma represents_total:
  "represents b m \<Longrightarrow> Budget_TotalWith k (lr_ValueBytes v) b = map_cost (m(k \<mapsto> v))"
  by (cases "m k") (auto simp: represents_def Budget_TotalWith_def map_cost_upd_new map_cost_upd_old)

lemma map_of_filter_key: "map_of (filter (\<lambda>x. fst x \<noteq> k) xs) = (map_of xs)(k := None)"
  by (induction xs) (auto simp: fun_eq_iff)

lemma represents_Set:
  assumes "represents b m"
  shows "represents (Budget_Set k (lr_ValueBytes v) b) (m(k \<mapsto> v))"
proof -
  have "map_of (filter (\<lambda>x. fst x \<noteq> k) (b_values b)) = (map_of (b_values b))(k := None)"
    by (rule map_of_filter_key)
  then show ?thesis
    using assms represents_total [OF assms, of k v]
    by (auto simp: represents_def Budget_Set_def fun_eq_iff)
qed

lemma represents_Has: "represents b m \<Longrightarrow> Budget_Has k b \<longleftrightarrow> m k \<noteq> None"
  by (auto simp: represents_def Budget_Has_def)

lemma represents_charges:
  "represents b m \<Longrightarrow> represents (foldl charge b kvs) (m ++ last_map kvs)"
  by (induction kvs rule: rev_induct) (auto simp: charge_def represents_Set)

lemma represents_new: "represents Budget_new Map.empty"
  by (simp add: represents_def Budget_new_def map_cost_def fun_eq_iff)

lemma map_cost_resource:
  assumes "distinct (map kv_key r)"
  shows "map_cost (resource_map r) = (\<Sum>kv \<leftarrow> r. AttributeBytes kv)"
  using assms
proof (induction r)
  case (Cons kv r)
  then show ?case
    using map_cost_upd_new [of "resource_map r" "kv_key kv" "kv_value kv"]
    by (simp add: assoc_of_None_iff AttributeBytes_def del: fun_upd_apply)
qed (simp add: map_cost_def)

section \<open>Admission under the budget\<close>

text \<open>
  The reference: the cost is recomputed from the map for every candidate instead of being kept as
  a running total.
\<close>

fun admit_ref ::
    "nat \<Rightarrow> (string \<Rightarrow> bool) \<Rightarrow> (string \<rightharpoonup> AttributeValue) \<Rightarrow> Resource \<Rightarrow> Resource \<times> nat" where
  "admit_ref limit skipped m [] = ([], 0)"
| "admit_ref limit skipped m (kv # kvs) =
     (if skipped (kv_key kv) then admit_ref limit skipped m kvs
      else if map_cost (m(kv_key kv \<mapsto> kv_value kv)) > limit
      then apsnd Suc (admit_ref limit skipped m kvs)
      else apfst ((#) kv) (admit_ref limit skipped (m(kv_key kv \<mapsto> kv_value kv)) kvs))"

lemma AdmitDeclared_ref:
  assumes "represents b m"
  shows "\<exists>b'. AdmitDeclared limit kvs pinned b d =
    (let a = admit_ref limit (\<lambda>k. IsReserved k \<or> k \<in> set pinned) m kvs in (fst a, b', d + snd a))"
  using assms
proof (induction kvs arbitrary: b m d)
  case (Cons kv kvs)
  let ?set = "Budget_Set (kv_key kv) (lr_ValueBytes (kv_value kv)) b"
  note total = represents_total [OF Cons.prems, of "kv_key kv" "kv_value kv"]
  from Cons.IH [OF represents_Set [OF Cons.prems, of "kv_key kv" "kv_value kv"], where d = d] Cons.IH [OF Cons.prems, where d = d]
    Cons.IH [OF Cons.prems, where d = "d + 1"]
  show ?case by (auto simp: total Let_def simp del: fun_upd_apply split: prod.splits)
qed simp

lemma merge_answer_ref:
  assumes "represents b m"
  shows "\<exists>b'. merge_answer id_key limit kvs (c, b, d) =
    (let a = admit_ref limit (\<lambda>k. IsReserved k \<or> id_key \<noteq> [] \<and> k = id_key) m kvs
     in (Resource_Merge c (fst a), b', d + snd a))"
  using assms
proof (induction kvs arbitrary: b c m d)
  case (Cons kv kvs)
  note total = represents_total [OF Cons.prems, of "kv_key kv" "kv_value kv"]
  from Cons.IH [OF represents_Set [OF Cons.prems, of "kv_key kv" "kv_value kv"], where c = "merge_one c kv" and d = d]
    Cons.IH [OF Cons.prems, where c = c and d = d] Cons.IH [OF Cons.prems, where c = c and d = "d + 1"]
  show ?case by (auto simp: total Resource_Merge_def Let_def simp del: fun_upd_apply)
qed (simp add: Resource_Merge_def)

lemma admit_ref_admitted:
  assumes "finite (dom m)" "admit_ref limit skipped m kvs = (a, d)"
  shows "subseq a kvs" "\<forall>kv \<in> set a. \<not> skipped (kv_key kv)"
    "length a + d = length (filter (\<lambda>kv. \<not> skipped (kv_key kv)) kvs)"
    "map_cost (m ++ last_map a) \<le> max limit (map_cost m)"
proof -
  have "subseq a kvs \<and> (\<forall>kv \<in> set a. \<not> skipped (kv_key kv)) \<and>
    length a + d = length (filter (\<lambda>kv. \<not> skipped (kv_key kv)) kvs) \<and>
    map_cost (m ++ last_map a) \<le> max limit (map_cost m)"
    using assms
  proof (induction kvs arbitrary: m a d)
    case (Cons kv kvs)
    let ?m = "m(kv_key kv \<mapsto> kv_value kv)"
    have "m ++ last_map (kv # kvs') = ?m ++ last_map kvs'" for kvs'
      by (simp add: last_map_Cons fun_eq_iff map_add_def split: option.splits)
    then show ?case
      using Cons.IH [of m] Cons.IH [of ?m] Cons.prems
      by (cases "admit_ref limit skipped m kvs"; cases "admit_ref limit skipped ?m kvs")
        (auto simp: max_def simp del: fun_upd_apply split: if_splits)
  qed simp
  then show "subseq a kvs" "\<forall>kv \<in> set a. \<not> skipped (kv_key kv)"
    "length a + d = length (filter (\<lambda>kv. \<not> skipped (kv_key kv)) kvs)"
    "map_cost (m ++ last_map a) \<le> max limit (map_cost m)" by auto
qed

section \<open>Layers\<close>

definition id_layer :: "LeafResourceLayers \<Rightarrow> (string \<rightharpoonup> AttributeValue)" where
  "id_layer layers =
     (if ly_id_key layers \<noteq> [] then [ly_id_key layers \<mapsto> AV_string (ly_leaf_id layers)] else Map.empty)"

definition with_service :: "(string \<rightharpoonup> AttributeValue) \<Rightarrow> (string \<rightharpoonup> AttributeValue)" where
  "with_service m =
     (if m kServiceNameKey = None then m(kServiceNameKey \<mapsto> AV_string kUnknownService) else m)"

text \<open>The layers that do not come from the leaf, and what they already use of the budget.\<close>

definition fixed_layers :: "LeafResourceLayers \<Rightarrow> (string \<rightharpoonup> AttributeValue)" where
  "fixed_layers layers =
     with_service (last_map (ly_defaults layers) ++ last_map (ly_configured layers) ++ id_layer layers)"

definition not_for_leaf :: "LeafResourceLayers \<Rightarrow> string \<Rightarrow> bool" where
  "not_for_leaf layers k \<longleftrightarrow> IsReserved k \<or> k \<in> dom (last_map (ly_configured layers) ++ id_layer layers)"

lemma ChargeFixedLayers_spec:
  "represents (snd (ChargeFixedLayers layers Budget_new)) (fixed_layers layers)"
  "set (fst (ChargeFixedLayers layers Budget_new)) =
     dom (last_map (ly_configured layers) ++ id_layer layers)"
proof -
  let ?b = "foldl charge (foldl charge Budget_new (ly_defaults layers)) (ly_configured layers)"
  let ?m = "last_map (ly_defaults layers) ++ last_map (ly_configured layers)"
  have fixed: "represents ?b ?m"
    using represents_charges [OF represents_charges [OF represents_new], of "ly_defaults layers" "ly_configured layers"]
    by simp
  define b3 where "b3 = (if ly_id_key layers \<noteq> []
    then Budget_Set (ly_id_key layers) (length (ly_leaf_id layers)) ?b else ?b)"
  have b3: "represents b3 (?m ++ id_layer layers)"
    using fixed represents_Set [OF fixed, of "ly_id_key layers" "AV_string (ly_leaf_id layers)"]
    by (simp add: b3_def id_layer_def)
  have "snd (ChargeFixedLayers layers Budget_new) = (if \<not> Budget_Has kServiceNameKey b3
     then Budget_Set kServiceNameKey (length kUnknownService) b3 else b3)"
    by (simp add: ChargeFixedLayers_def b3_def Let_def)
  then show "represents (snd (ChargeFixedLayers layers Budget_new)) (fixed_layers layers)"
    using b3 represents_Set [OF b3, of kServiceNameKey "AV_string kUnknownService"] represents_Has [OF b3]
    by (simp add: fixed_layers_def with_service_def)
  show "set (fst (ChargeFixedLayers layers Budget_new)) =
     dom (last_map (ly_configured layers) ++ id_layer layers)"
    by (auto simp: ChargeFixedLayers_def Let_def id_layer_def)
qed

lemma finite_fixed_layers: "finite (dom (fixed_layers layers))"
  using ChargeFixedLayers_spec(1) by (simp add: represents_def)

lemma map_add_disjoint_swap: "dom b \<inter> dom c = {} \<Longrightarrow> (a ++ b) ++ c = (a ++ c) ++ b"
  by (metis inf_commute map_add_assoc map_add_comm)

text \<open>The layers resolved with the leaf's own in its place, below the configured one and the id.\<close>

definition resolved_layers :: "LeafResourceLayers \<Rightarrow> Resource \<Rightarrow> (string \<rightharpoonup> AttributeValue)" where
  "resolved_layers layers admitted =
     with_service (last_map (ly_defaults layers) ++ last_map admitted ++
       last_map (ly_configured layers) ++ id_layer layers)"

lemma with_service_add: "with_service (m ++ a) = with_service m ++ a"
  by (auto simp: with_service_def fun_eq_iff map_add_def split: option.splits)

lemma with_service_Merge:
  "resource_map (if \<not> Names r kServiceNameKey
     then Resource_Merge r (Layer kServiceNameKey kUnknownService) else r) = with_service (resource_map r)"
  by (auto simp: Names_iff with_service_def)

lemma id_layer_Merge:
  "resource_map (if ly_id_key layers \<noteq> []
     then Resource_Merge r (Layer (ly_id_key layers) (ly_leaf_id layers)) else r) =
   resource_map r ++ id_layer layers"
  by (simp add: id_layer_def)

lemma resolved_layers_above_fixed:
  assumes "\<forall>kv \<in> set a. \<not> not_for_leaf layers (kv_key kv)"
  shows "resolved_layers layers a = fixed_layers layers ++ last_map a"
proof -
  let ?top = "last_map (ly_configured layers) ++ id_layer layers"
  have "dom (last_map a) \<inter> dom ?top = {}" using assms by (auto simp: not_for_leaf_def)
  then have "(last_map (ly_defaults layers) ++ last_map a) ++ ?top =
      (last_map (ly_defaults layers) ++ ?top) ++ last_map a"
    by (rule map_add_disjoint_swap)
  then show ?thesis
    by (simp only: resolved_layers_def fixed_layers_def with_service_add map_add_assoc)
qed

lemma ResolveLeafResource_eq:
  assumes "admit_ref (ly_budget layers) (not_for_leaf layers) (fixed_layers layers) (ly_declared layers) = (a, d)"
  defines "m2 \<equiv> Resource_Merge (Resource_Merge (ly_defaults layers) a) (ly_configured layers)"
  defines "m3 \<equiv> (if ly_id_key layers \<noteq> []
    then Resource_Merge m2 (Layer (ly_id_key layers) (ly_leaf_id layers)) else m2)"
  shows "ResolveLeafResource layers = \<lparr>rl_resource = (if \<not> Names m3 kServiceNameKey
    then Resource_Merge m3 (Layer kServiceNameKey kUnknownService) else m3), rl_attributes_dropped = d\<rparr>"
proof -
  obtain pinned b where fixed: "ChargeFixedLayers layers Budget_new = (pinned, b)" by force
  have b: "represents b (fixed_layers layers)"
    and "set pinned = dom (last_map (ly_configured layers) ++ id_layer layers)"
    using ChargeFixedLayers_spec [of layers] by (simp_all add: fixed)
  then have "(\<lambda>k. IsReserved k \<or> k \<in> set pinned) = not_for_leaf layers"
    by (simp add: not_for_leaf_def fun_eq_iff)
  with AdmitDeclared_ref [OF b, of "ly_budget layers" "ly_declared layers" pinned 0] assms(1)
  obtain b' where "AdmitDeclared (ly_budget layers) (ly_declared layers) pinned b 0 = (a, b', d)"
    by (auto simp: Let_def)
  then show ?thesis
    by (simp add: ResolveLeafResource_def fixed m2_def m3_def Let_def)
qed

lemma ResolveLeafResource_map:
  assumes "distinct (map kv_key (ly_defaults layers))"
    and "admit_ref (ly_budget layers) (not_for_leaf layers) (fixed_layers layers) (ly_declared layers) = (a, d)"
  shows "resource_map (rl_resource (ResolveLeafResource layers)) = resolved_layers layers a"
    "distinct (map kv_key (rl_resource (ResolveLeafResource layers)))"
    "rl_attributes_dropped (ResolveLeafResource layers) = d"
proof -
  have "resource_map (ly_defaults layers) = last_map (ly_defaults layers)"
    using assms(1) by (simp add: last_map_distinct)
  then show "resource_map (rl_resource (ResolveLeafResource layers)) = resolved_layers layers a"
    unfolding ResolveLeafResource_eq [OF assms(2)]
    by (simp only: ResolvedLeafResource.simps with_service_Merge id_layer_Merge resource_map_Merge
        resolved_layers_def map_add_assoc)
  show "distinct (map kv_key (rl_resource (ResolveLeafResource layers)))"
    "rl_attributes_dropped (ResolveLeafResource layers) = d"
    unfolding ResolveLeafResource_eq [OF assms(2)] using assms(1) by auto
qed

text \<open>
  Resolving a leaf's resource. With distinct default keys, each key of the result has the
  value of the highest layer that names it: the leaf id, then the configured resource, then what
  was admitted of the leaf's own, then the defaults, and \<open>unknown_service\<close> for a service name no
  layer gives. What is admitted is what the reference \<open>admit_ref\<close> admits, which recomputes the cost
  from scratch for every candidate: attributes in payload order, neither reserved nor overridden
  by a higher layer, each only if the whole stays within the budget; the others are counted. So
  the bytes of the result exceed the budget only by what the fixed layers alone already take.
\<close>

theorem leaf_resource_layers:
  assumes "distinct (map kv_key (ly_defaults layers))"
    and "admit_ref (ly_budget layers) (not_for_leaf layers) (fixed_layers layers) (ly_declared layers) = (a, d)"
    and "r = rl_resource (ResolveLeafResource layers)"
  shows "resource_map r = with_service (last_map (ly_defaults layers) ++ last_map a ++
       last_map (ly_configured layers) ++ id_layer layers) \<and>
    distinct (map kv_key r) \<and> rl_attributes_dropped (ResolveLeafResource layers) = d \<and>
    subseq a (ly_declared layers) \<and> (\<forall>kv \<in> set a. \<not> not_for_leaf layers (kv_key kv)) \<and>
    length a + d = length (filter (\<lambda>kv. \<not> not_for_leaf layers (kv_key kv)) (ly_declared layers)) \<and>
    (\<Sum>kv \<leftarrow> r. AttributeBytes kv) \<le> max (ly_budget layers) (map_cost (fixed_layers layers))"
proof -
  note r = ResolveLeafResource_map [OF assms(1,2), folded assms(3)]
  note a = admit_ref_admitted [OF finite_fixed_layers assms(2)]
  have "(\<Sum>kv \<leftarrow> r. AttributeBytes kv) = map_cost (fixed_layers layers ++ last_map a)"
    using map_cost_resource [OF r(2)] r(1) resolved_layers_above_fixed [OF a(2)] by simp
  then show ?thesis using r a by (simp add: resolved_layers_def)
qed

definition sample_layers :: LeafResourceLayers where
  "sample_layers =
     \<lparr>ly_defaults = [\<lparr>kv_key = ''env'', kv_value = AV_string ''prod''\<rparr>],
      ly_declared = [\<lparr>kv_key = ''fw'', kv_value = AV_string ''1''\<rparr>,
        \<lparr>kv_key = ''microtel.leaf.proto'', kv_value = AV_int64 1\<rparr>,
        \<lparr>kv_key = ''note'', kv_value = AV_string ''far too long for the budget''\<rparr>],
      ly_configured = [], ly_id_key = ''id'', ly_leaf_id = ''7'', ly_budget = 45\<rparr>"

theorem leaf_resource_layers_witness:
  "distinct (map kv_key (ly_defaults sample_layers)) \<and>
   resource_map (rl_resource (ResolveLeafResource sample_layers)) ''fw'' = Some (AV_string ''1'') \<and>
   rl_attributes_dropped (ResolveLeafResource sample_layers) = 1"
proof -
  have ref: "admit_ref 45 (not_for_leaf sample_layers) (fixed_layers sample_layers) (ly_declared sample_layers) =
      ([\<lparr>kv_key = ''fw'', kv_value = AV_string ''1''\<rparr>], 1)"
    by (simp add: sample_layers_def not_for_leaf_def fixed_layers_def id_layer_def with_service_def
        IsReserved_def kLeafReservedPrefix_def kServiceNameKey_def kUnknownService_def last_map_def
        map_cost_def)
  have d: "distinct (map kv_key (ly_defaults sample_layers))" by (simp add: sample_layers_def)
  from leaf_resource_layers [OF d _ refl] ref d show ?thesis
    by (simp add: sample_layers_def with_service_def id_layer_def last_map_def kServiceNameKey_def)
qed

end
