(* ===== verification/Leaf_Options.thy ===== *)
theory Leaf_Options
  imports Leaf_Resource
begin

text \<open>
  The receiver's options (\<open>include/microtel/leaf_receiver.hpp\<close>) and their validation
  (\<open>src/sdk/leaf_options.cpp\<close>). Durations are in seconds. \<open>std::nullopt\<close> from a check is \<open>None\<close>;
  \<open>Expected<void, ConfigError>\<close> is a sum. The resolver is not part of the record: it is code of the
  application and an argument of the operations that ask it.

  Proved here: what options that pass validation guarantee, and how far beyond its budget the
  resource of a configured leaf can then be.
\<close>

section \<open>Options\<close>

datatype UnknownLeafPolicy = Accept | Reject

record LeafConfig =
  lc_time_mode :: "LeafTimeMode option"
  lc_resource :: Resource

record LeafReceiverOptions =
  o_enabled :: bool
  o_max_payload_bytes :: u32
  o_max_spans_per_payload :: u32
  o_max_leaves :: u32
  o_max_leaf_resource_bytes :: u32
  o_leaf_idle_timeout :: int
  o_unknown_leaf :: UnknownLeafPolicy
  o_leaf_id_attribute :: string
  o_default_time_mode :: "LeafTimeMode option"
  o_max_sync_age :: int
  o_max_clock_skew :: int
  o_boot_anchor_window :: int
  o_leaf_defaults_resource :: Resource
  o_leaves :: "(string \<times> LeafConfig) list"
  o_max_node_resource_bytes :: u32

definition LeafReceiverOptions_default :: LeafReceiverOptions where
  "LeafReceiverOptions_default =
     \<lparr>o_enabled = True, o_max_payload_bytes = 64 * 1024, o_max_spans_per_payload = 512,
      o_max_leaves = 1024, o_max_leaf_resource_bytes = 2 * 1024, o_leaf_idle_timeout = 3600,
      o_unknown_leaf = Accept, o_leaf_id_attribute = ''device.id'', o_default_time_mode = None,
      o_max_sync_age = 3600, o_max_clock_skew = 300, o_boot_anchor_window = 600,
      o_leaf_defaults_resource = [], o_leaves = [], o_max_node_resource_bytes = 16 * 1024\<rparr>"

section \<open>Validation\<close>

datatype ConfigError_Kind =
    CE_Unspecified | CE_InvalidValue | CE_UnknownKey | CE_EnvParseFailure | CE_FileNotFound
  | CE_FileParseFailure | CE_TlsMaterialUnreadable | CE_EndpointMalformed | CE_ProtocolMismatch
  | CE_InsecureDisallowed | CE_BuildAlreadyConsumed | CE_DuplicateProfileName
  | CE_ProfileLimitExceeded

record ConfigError =
  ce_kind :: ConfigError_Kind
  ce_field :: string
  ce_message :: string

definition Invalid :: "string \<Rightarrow> string \<Rightarrow> ConfigError" where
  "Invalid f m = \<lparr>ce_kind = CE_InvalidValue, ce_field = f, ce_message = m\<rparr>"

definition Bytes :: "Resource \<Rightarrow> nat" where
  "Bytes attributes = foldl (\<lambda>n kv. n + AttributeBytes kv) 0 attributes"

fun CheckKeys :: "Resource \<Rightarrow> string \<Rightarrow> string \<Rightarrow> ConfigError option" where
  "CheckKeys [] field_name id_key = None"
| "CheckKeys (kv # kvs) field_name id_key =
     (if take (length kLeafReservedPrefix) (kv_key kv) = kLeafReservedPrefix
      then Some (Invalid field_name ([CHR 0x27] @ kv_key kv @ [CHR 0x27] @
             '' is reserved for the leaf wire contract and cannot be configured''))
      else if id_key \<noteq> [] \<and> kv_key kv = id_key
      then Some (Invalid field_name ([CHR 0x27] @ kv_key kv @ [CHR 0x27] @
             '' is the leaf_id_attribute; the leaf id always overrides it, so configuring it could never take effect''))
      else CheckKeys kvs field_name id_key)"

fun check_durations :: "(string \<times> int) list \<Rightarrow> ConfigError option" where
  "check_durations [] = None"
| "check_durations ((field_name, value) # rest) =
     (if value \<le> 0 then Some (Invalid field_name ''must be greater than zero'') else check_durations rest)"

definition CheckLimits :: "LeafReceiverOptions \<Rightarrow> ConfigError option" where
  "CheckLimits options =
     (if o_max_payload_bytes options = 0
      then Some (Invalid ''concentrator.max_payload_bytes'' ''must be greater than zero'')
      else if o_max_spans_per_payload options = 0
      then Some (Invalid ''concentrator.max_spans_per_payload'' ''must be greater than zero'')
      else if o_max_leaves options = 0
      then Some (Invalid ''concentrator.max_leaves'' ''must be greater than zero'')
      else check_durations
        [(''concentrator.leaf_idle_timeout'', o_leaf_idle_timeout options),
         (''concentrator.max_sync_age'', o_max_sync_age options),
         (''concentrator.max_clock_skew'', o_max_clock_skew options),
         (''concentrator.boot_anchor_window'', o_boot_anchor_window options)])"

text \<open>\<open>BudgetFor\<close>: the bytes and the name of the setting.\<close>

definition lo_BudgetFor :: "LeafReceiverOptions \<Rightarrow> LeafTimeMode option \<Rightarrow> nat \<times> string" where
  "lo_BudgetFor options mode =
     (if mode = Some Unix_mode then (unat (o_max_node_resource_bytes options), ''max_node_resource_bytes'')
      else (unat (o_max_leaf_resource_bytes options), ''max_leaf_resource_bytes''))"

definition leaf_mode :: "LeafReceiverOptions \<Rightarrow> LeafConfig \<Rightarrow> LeafTimeMode option" where
  "leaf_mode options leaf =
     (if lc_time_mode leaf \<noteq> None then lc_time_mode leaf else o_default_time_mode options)"

definition CheckLeaf :: "LeafReceiverOptions \<Rightarrow> string \<Rightarrow> LeafConfig \<Rightarrow> ConfigError option" where
  "CheckLeaf options leaf_id leaf =
     (if leaf_id = [] \<or> length leaf_id > kMaxLeafIdBytes
      then Some (Invalid ''concentrator.leaves'' ''a leaf id must be 1 to 128 bytes long'')
      else
        let field_name = ''concentrator.leaves.'' @ leaf_id @ ''.resource''
        in (case CheckKeys (lc_resource leaf) field_name (o_leaf_id_attribute options) of
              Some err \<Rightarrow> Some err
            | None \<Rightarrow>
                let merged = Resource_Merge (o_leaf_defaults_resource options) (lc_resource leaf);
                    (bytes, setting) = lo_BudgetFor options (leaf_mode options leaf)
                in if Bytes merged > bytes
                   then Some (Invalid field_name (''the leaf's configured Resource exceeds '' @ setting))
                   else None))"

fun check_leaves :: "LeafReceiverOptions \<Rightarrow> (string \<times> LeafConfig) list \<Rightarrow> ConfigError option" where
  "check_leaves options [] = None"
| "check_leaves options ((leaf_id, leaf) # rest) =
     (case CheckLeaf options leaf_id leaf of Some err \<Rightarrow> Some err | None \<Rightarrow> check_leaves options rest)"

definition ValidateLeafReceiverOptions :: "LeafReceiverOptions \<Rightarrow> ConfigError + unit" where
  "ValidateLeafReceiverOptions options =
     (if \<not> o_enabled options then Inr ()
      else
        (case CheckLimits options of
           Some err \<Rightarrow> Inl err
         | None \<Rightarrow>
             let defaults_field = ''concentrator.leaf_defaults.resource''
             in (case CheckKeys (o_leaf_defaults_resource options) defaults_field (o_leaf_id_attribute options) of
                   Some err \<Rightarrow> Inl err
                 | None \<Rightarrow>
                     let (bytes, setting) = lo_BudgetFor options (o_default_time_mode options)
                     in if Bytes (o_leaf_defaults_resource options) > bytes
                        then Inl (Invalid defaults_field (''leaf_defaults.resource exceeds '' @ setting))
                        else (case check_leaves options (o_leaves options) of
                                Some err \<Rightarrow> Inl err
                              | None \<Rightarrow> Inr ()))))"

section \<open>What validation ensures\<close>

lemma Bytes_eq: "Bytes kvs = (\<Sum>kv \<leftarrow> kvs. AttributeBytes kv)"
proof -
  have "foldl (\<lambda>n kv. n + AttributeBytes kv) n kvs = n + (\<Sum>kv \<leftarrow> kvs. AttributeBytes kv)" for n
    by (induction kvs arbitrary: n) auto
  then show ?thesis by (simp add: Bytes_def)
qed

definition keys_ok :: "string \<Rightarrow> Resource \<Rightarrow> bool" where
  "keys_ok id_key r \<longleftrightarrow> (\<forall>kv \<in> set r. \<not> IsReserved (kv_key kv) \<and> (id_key = [] \<or> kv_key kv \<noteq> id_key))"

lemma CheckKeys_None: "CheckKeys r field_name id_key = None \<longleftrightarrow> keys_ok id_key r"
  by (induction r) (auto simp: keys_ok_def IsReserved_def)

lemma CheckKeys_kind: "CheckKeys r field_name id_key = Some e \<Longrightarrow> ce_kind e = CE_InvalidValue"
  by (induction r) (auto simp: Invalid_def split: if_splits)

lemma CheckLimits_None:
  "CheckLimits options = None \<longleftrightarrow> 0 < o_max_payload_bytes options \<and> 0 < o_max_spans_per_payload options \<and>
     0 < o_max_leaves options \<and> 0 < o_leaf_idle_timeout options \<and> 0 < o_max_sync_age options \<and>
     0 < o_max_clock_skew options \<and> 0 < o_boot_anchor_window options"
  by (auto simp: CheckLimits_def word_neq_0_conv)

definition leaf_ok :: "LeafReceiverOptions \<Rightarrow> string \<Rightarrow> LeafConfig \<Rightarrow> bool" where
  "leaf_ok options leaf_id leaf \<longleftrightarrow> 1 \<le> length leaf_id \<and> length leaf_id \<le> kMaxLeafIdBytes \<and>
     keys_ok (o_leaf_id_attribute options) (lc_resource leaf) \<and>
     Bytes (Resource_Merge (o_leaf_defaults_resource options) (lc_resource leaf)) \<le>
       fst (lo_BudgetFor options (leaf_mode options leaf))"

lemma CheckLeaf_None: "CheckLeaf options leaf_id leaf = None \<longleftrightarrow> leaf_ok options leaf_id leaf"
proof -
  have "leaf_id \<noteq> [] \<longleftrightarrow> 1 \<le> length leaf_id" by (cases leaf_id) auto
  then show ?thesis
    by (auto simp: CheckLeaf_def leaf_ok_def Let_def CheckKeys_None split: option.splits prod.splits)
      (metis CheckKeys_None option.distinct(1))+
qed

lemma check_leaves_None:
  "check_leaves options ls = None \<longleftrightarrow> (\<forall>(leaf_id, leaf) \<in> set ls. leaf_ok options leaf_id leaf)"
  by (induction options ls rule: check_leaves.induct) (auto simp: CheckLeaf_None [symmetric] split: option.splits)

lemma CheckLeaf_kind: "CheckLeaf options leaf_id leaf = Some e \<Longrightarrow> ce_kind e = CE_InvalidValue"
  by (auto simp: CheckLeaf_def Invalid_def Let_def CheckKeys_kind split: if_splits option.splits prod.splits)

lemma check_leaves_kind: "check_leaves options ls = Some e \<Longrightarrow> ce_kind e = CE_InvalidValue"
  by (induction options ls rule: check_leaves.induct) (auto simp: CheckLeaf_kind split: option.splits)

lemma CheckLimits_kind: "CheckLimits options = Some e \<Longrightarrow> ce_kind e = CE_InvalidValue"
  by (auto simp: CheckLimits_def Invalid_def split: if_splits)

lemma Validate_kind: "ValidateLeafReceiverOptions options = Inl e \<Longrightarrow> ce_kind e = CE_InvalidValue"
  by (auto simp: ValidateLeafReceiverOptions_def Let_def CheckKeys_kind check_leaves_kind CheckLimits_kind
      Invalid_def split: if_splits option.splits prod.splits)

definition options_ok :: "LeafReceiverOptions \<Rightarrow> bool" where
  "options_ok options \<longleftrightarrow> 0 < o_max_payload_bytes options \<and> 0 < o_max_spans_per_payload options \<and>
     0 < o_max_leaves options \<and> 0 < o_leaf_idle_timeout options \<and> 0 < o_max_sync_age options \<and>
     0 < o_max_clock_skew options \<and> 0 < o_boot_anchor_window options \<and>
     keys_ok (o_leaf_id_attribute options) (o_leaf_defaults_resource options) \<and>
     Bytes (o_leaf_defaults_resource options) \<le> fst (lo_BudgetFor options (o_default_time_mode options)) \<and>
     (\<forall>(leaf_id, leaf) \<in> set (o_leaves options). leaf_ok options leaf_id leaf)"

lemma Validate_Inr:
  "ValidateLeafReceiverOptions options = Inr () \<longleftrightarrow> (if o_enabled options then options_ok options else True)"
proof -
  let ?field = "''concentrator.leaf_defaults.resource''"
  have "options_ok options \<longleftrightarrow> CheckLimits options = None \<and>
    CheckKeys (o_leaf_defaults_resource options) ?field (o_leaf_id_attribute options) = None \<and>
    \<not> fst (lo_BudgetFor options (o_default_time_mode options)) < Bytes (o_leaf_defaults_resource options) \<and>
    check_leaves options (o_leaves options) = None"
    by (auto simp: options_ok_def CheckLimits_None CheckKeys_None check_leaves_None)
  then show ?thesis
    by (auto simp: ValidateLeafReceiverOptions_def Let_def split: option.splits prod.splits)
qed

text \<open>The resource of a configured leaf, as the receiver resolves it for a declared resource.\<close>

definition leaf_layers :: "LeafReceiverOptions \<Rightarrow> string \<Rightarrow> LeafConfig \<Rightarrow> Resource \<Rightarrow> LeafResourceLayers" where
  "leaf_layers options leaf_id leaf declared =
     \<lparr>ly_defaults = o_leaf_defaults_resource options, ly_declared = declared,
      ly_configured = lc_resource leaf, ly_id_key = o_leaf_id_attribute options,
      ly_leaf_id = leaf_id, ly_budget = fst (lo_BudgetFor options (leaf_mode options leaf))\<rparr>"

lemma map_cost_upd_le: "finite (dom m) \<Longrightarrow> map_cost (m(k \<mapsto> v)) \<le> map_cost m + length k + lr_ValueBytes v"
  by (cases "m k") (auto simp: map_cost_upd_new map_cost_upd_old simp del: fun_upd_apply)

lemma map_cost_id_layer_le:
  "finite (dom m) \<Longrightarrow> map_cost (m ++ id_layer layers) \<le>
     map_cost m + length (ly_id_key layers) + length (ly_leaf_id layers)"
  using map_cost_upd_le [of m "ly_id_key layers" "AV_string (ly_leaf_id layers)"]
  by (auto simp: id_layer_def simp del: fun_upd_apply)

lemma map_cost_with_service_le:
  "finite (dom m) \<Longrightarrow> map_cost (with_service m) \<le>
     map_cost m + length kServiceNameKey + length kUnknownService"
  using map_cost_upd_le [of m kServiceNameKey "AV_string kUnknownService"]
  by (auto simp: with_service_def simp del: fun_upd_apply)

lemma fixed_cost_le:
  assumes "distinct (map kv_key (ly_defaults layers))"
  shows "map_cost (fixed_layers layers) \<le>
    Bytes (Resource_Merge (ly_defaults layers) (ly_configured layers)) +
    length (ly_id_key layers) + length (ly_leaf_id layers) + length kServiceNameKey + length kUnknownService"
proof -
  let ?m = "last_map (ly_defaults layers) ++ last_map (ly_configured layers)"
  have "resource_map (Resource_Merge (ly_defaults layers) (ly_configured layers)) = ?m"
    using assms by (simp add: last_map_distinct)
  then have "map_cost ?m = Bytes (Resource_Merge (ly_defaults layers) (ly_configured layers))"
    using map_cost_resource [of "Resource_Merge (ly_defaults layers) (ly_configured layers)"] assms
    by (simp add: Bytes_eq)
  moreover have "finite (dom (?m ++ id_layer layers))" by (simp add: id_layer_def)
  ultimately show ?thesis
    using map_cost_id_layer_le [of ?m layers] map_cost_with_service_le [of "?m ++ id_layer layers"]
    by (simp add: fixed_layers_def)
qed

lemma resolved_bytes_le:
  assumes "distinct (map kv_key (ly_defaults layers))"
  shows "Bytes (rl_resource (ResolveLeafResource layers)) \<le> max (ly_budget layers) (map_cost (fixed_layers layers))"
proof -
  obtain a d where ref: "admit_ref (ly_budget layers) (not_for_leaf layers) (fixed_layers layers)
      (ly_declared layers) = (a, d)" by force
  note r = ResolveLeafResource_map [OF assms ref]
  note a = admit_ref_admitted [OF finite_fixed_layers ref]
  show ?thesis
    using map_cost_resource [OF r(2)] r(1) resolved_layers_above_fixed [OF a(2)] a(4) by (simp add: Bytes_eq)
qed

text \<open>
  Validation of the receiver's options. They pass exactly when the receiver is disabled or
  every limit and duration is positive, no configured key is reserved or the id's, and the
  configured resource of every leaf, merged over the defaults, is within the budget of its time
  mode; every rejection is an \<open>InvalidValue\<close>. For a leaf of options that pass, whatever the leaf
  declares, the resolved resource stays within that budget but for the leaf id and the placeholder
  service name, which validation does not charge: with both it may be exceeded by that much.
\<close>

theorem leaf_options_validated:
  "(ValidateLeafReceiverOptions options = Inr () \<longleftrightarrow> (if o_enabled options then options_ok options else True)) \<and>
   (\<forall>e. ValidateLeafReceiverOptions options = Inl e \<longrightarrow> ce_kind e = CE_InvalidValue) \<and>
   (ValidateLeafReceiverOptions options = Inr () \<and> o_enabled options \<and>
    (leaf_id, leaf) \<in> set (o_leaves options) \<and> distinct (map kv_key (o_leaf_defaults_resource options)) \<longrightarrow>
      Bytes (rl_resource (ResolveLeafResource (leaf_layers options leaf_id leaf declared))) \<le>
        fst (lo_BudgetFor options (leaf_mode options leaf)) +
        length (o_leaf_id_attribute options) + length leaf_id + length kServiceNameKey + length kUnknownService)"
proof (intro conjI impI allI)
  assume h: "ValidateLeafReceiverOptions options = Inr () \<and> o_enabled options \<and>
    (leaf_id, leaf) \<in> set (o_leaves options) \<and> distinct (map kv_key (o_leaf_defaults_resource options))"
  then have "leaf_ok options leaf_id leaf" by (auto simp: Validate_Inr options_ok_def)
  then have "Bytes (Resource_Merge (o_leaf_defaults_resource options) (lc_resource leaf)) \<le>
      fst (lo_BudgetFor options (leaf_mode options leaf))" by (simp add: leaf_ok_def)
  then show "Bytes (rl_resource (ResolveLeafResource (leaf_layers options leaf_id leaf declared))) \<le>
        fst (lo_BudgetFor options (leaf_mode options leaf)) +
        length (o_leaf_id_attribute options) + length leaf_id + length kServiceNameKey + length kUnknownService"
    using resolved_bytes_le [of "leaf_layers options leaf_id leaf declared"]
      fixed_cost_le [of "leaf_layers options leaf_id leaf declared"] h
    by (simp add: leaf_layers_def)
qed (auto simp: Validate_Inr Validate_kind)

definition tight_options :: LeafReceiverOptions where
  "tight_options = LeafReceiverOptions_default
     \<lparr>o_max_leaf_resource_bytes := 3,
      o_leaves := [(''a'', \<lparr>lc_time_mode = None, lc_resource = [\<lparr>kv_key = ''k'', kv_value = AV_string ''vv''\<rparr>]\<rparr>)]\<rparr>"

theorem leaf_options_validated_witness:
  "ValidateLeafReceiverOptions tight_options = Inr () \<and>
   ValidateLeafReceiverOptions (tight_options\<lparr>o_max_leaves := 0\<rparr>) \<noteq> Inr () \<and>
   Bytes (rl_resource (ResolveLeafResource (leaf_layers tight_options ''a''
     \<lparr>lc_time_mode = None, lc_resource = [\<lparr>kv_key = ''k'', kv_value = AV_string ''vv''\<rparr>]\<rparr> []))) \<le> 40"
proof -
  let ?leaf = "\<lparr>lc_time_mode = None, lc_resource = [\<lparr>kv_key = ''k'', kv_value = AV_string ''vv''\<rparr>]\<rparr>"
  note defs = tight_options_def LeafReceiverOptions_default_def options_ok_def keys_ok_def IsReserved_def
    kLeafReservedPrefix_def Bytes_def lo_BudgetFor_def leaf_ok_def kMaxLeafIdBytes_def leaf_mode_def
    Resource_Merge_def AttributeBytes_def
  have ok: "ValidateLeafReceiverOptions tight_options = Inr ()"
    using leaf_options_validated [of tight_options] by (simp add: defs)
  then show ?thesis
    using leaf_options_validated [of tight_options "''a''" ?leaf "[]"]
      leaf_options_validated [of "tight_options\<lparr>o_max_leaves := 0\<rparr>"]
    by (auto simp: tight_options_def LeafReceiverOptions_default_def options_ok_def lo_BudgetFor_def
        leaf_mode_def kServiceNameKey_def kUnknownService_def)
qed

end
