(* ===== verification/Batch_Span_Processor.thy ===== *)
theory Batch_Span_Processor
  imports Batch_Worker Sdk_Span
begin

text \<open>
  \<open>BatchSpanProcessor\<close> (\<open>src/sdk/batch_span_processor.cpp\<close>): the size estimate, the bounded queue
  with its two caps and drop policies, the worker's collection, and the grouping of a drained
  batch by resource and scope. The queue's byte total and the byte caps are 64-bit (the record cap
  32-bit) words as in the code. Sizes of objects in memory and the flush tickets are natural
  numbers. The operations are instances of the skeleton in \<open>Batch_Worker\<close>.

  Proved here: the byte accounting never wraps or drifts and both caps hold after every accepted
  record; eviction removes the fewest oldest records that make room and is counted exactly; the
  grouping puts every record into exactly one handle, in order; and, through the skeleton, that
  flush and shutdown deliver everything that was accepted.
\<close>

section \<open>Size estimate\<close>

definition kRecordFixedBytes :: nat where "kRecordFixedBytes = 64"
definition kEventFixedBytes :: nat where "kEventFixedBytes = 16"
definition kLinkFixedBytes :: nat where "kLinkFixedBytes = 32"
definition kScalarValueBytes :: nat where "kScalarValueBytes = 8"

fun ValueBytes :: "AttributeValue \<Rightarrow> nat" where
  "ValueBytes (AV_string s) = length s"
| "ValueBytes (AV_strings strings) = foldl (\<lambda>t s. t + length s) 0 strings"
| "ValueBytes (AV_bools bools) = length bools"
| "ValueBytes (AV_int64s ints) = length ints * 8"
| "ValueBytes (AV_doubles doubles) = length doubles * 8"
| "ValueBytes _ = kScalarValueBytes"

definition AttributesBytes :: "KeyValue list \<Rightarrow> nat" where
  "AttributesBytes attributes =
     foldl (\<lambda>t kv. t + (length (kv_key kv) + ValueBytes (kv_value kv))) 0 attributes"

definition EstimateRecordBytes :: "SpanRecord \<Rightarrow> nat" where
  "EstimateRecordBytes r =
     (let t0 = kRecordFixedBytes + length (rec_name r) + length (rec_status_description r);
          t1 = t0 + AttributesBytes (rec_attributes r);
          t2 = foldl (\<lambda>t e. t + (kEventFixedBytes + length (ev_name e) +
                               AttributesBytes (ev_attributes e))) t1 (rec_events r)
      in foldl (\<lambda>t l. t + (kLinkFixedBytes + AttributesBytes (lk_attributes l))) t2 (rec_links r))"

section \<open>State\<close>

record QueuedSpan =
  q_record :: SpanRecord
  q_scope :: InstrumentationScope
  q_bytes :: u64

record BatchSpanProcessor =
  m_resource :: "resource_ptr option"
  m_opts :: BatchOptions
  m_max_record_bytes :: u32
  m_max_total_queue_bytes :: u64
  m_group_exporter :: bool
  m_queue :: "QueuedSpan list"
  m_queue_bytes :: u64
  m_shutdown :: bool
  m_flush_seq :: nat
  m_flush_done_seq :: nat

definition BatchSpanProcessor_new ::
    "resource_ptr option \<Rightarrow> BatchOptions \<Rightarrow> u32 \<Rightarrow> u64 \<Rightarrow> bool \<Rightarrow> BatchSpanProcessor" where
  "BatchSpanProcessor_new resource opts max_record_bytes max_total_queue_bytes group_exporter =
     \<lparr>m_resource = resource, m_opts = opts, m_max_record_bytes = max_record_bytes,
      m_max_total_queue_bytes = max_total_queue_bytes, m_group_exporter = group_exporter,
      m_queue = [], m_queue_bytes = 0, m_shutdown = False, m_flush_seq = 0, m_flush_done_seq = 0\<rparr>"

section \<open>Operations of the caller threads\<close>

function MakeRoomFor :: "u64 \<Rightarrow> BatchSpanProcessor \<times> sink \<Rightarrow> bool \<times> BatchSpanProcessor \<times> sink" where
  "MakeRoomFor record_bytes (p, diag) =
     (if length (m_queue p) \<ge> max_queue_size (m_opts p) \<or>
         m_queue_bytes p + record_bytes > m_max_total_queue_bytes p
      then
        let diag' = count_drop QueueFull 1 diag
        in if drop_policy (m_opts p) \<noteq> DropOldest then (False, p, diag')
           else
             (case m_queue p of
                [] \<Rightarrow> (False, p, diag')
              | front # rest \<Rightarrow>
                  MakeRoomFor record_bytes
                    (p\<lparr>m_queue_bytes := m_queue_bytes p - q_bytes front, m_queue := rest\<rparr>, diag'))
      else (True, p, diag))"
  by pat_completeness auto
termination
  by (relation "measure (\<lambda>(_, p, _). length (m_queue p))") auto

declare MakeRoomFor.simps [simp del]

definition Enqueue ::
    "SpanRecord \<Rightarrow> InstrumentationScope \<Rightarrow> BatchSpanProcessor \<times> sink \<Rightarrow>
     bool \<times> BatchSpanProcessor \<times> sink" where
  "Enqueue r scope = (\<lambda>(p, diag).
     let record_bytes = EstimateRecordBytes r
     in if m_shutdown p then (False, p, count_drop PostShutdown 1 diag)
        else if record_bytes > unat (m_max_record_bytes p)
        then (False, p, count_drop RecordTooLarge 1 diag)
        else
          let (room, p1, diag1) = MakeRoomFor (of_nat record_bytes) (p, diag)
          in if \<not> room then (False, p1, diag1)
             else
               (True,
                p1\<lparr>m_queue_bytes := m_queue_bytes p1 + of_nat record_bytes,
                   m_queue := m_queue p1 @
                     [\<lparr>q_record = r, q_scope = scope, q_bytes = of_nat record_bytes\<rparr>]\<rparr>,
                diag1))"

text \<open>\<open>OnEnd\<close> for the span: the record is moved from when it was queued, untouched otherwise.\<close>

definition OnEnd :: "BatchSpanProcessor on_end" where
  "OnEnd r scope w =
     (case Enqueue r scope w of (queued, w') \<Rightarrow>
        (if queued then moved_from r else r, w'))"

definition SetOptions :: "BatchOptions \<Rightarrow> BatchSpanProcessor \<Rightarrow> BatchSpanProcessor" where
  "SetOptions opts p = p\<lparr>m_opts := opts\<rparr>"

text \<open>\<open>ForceFlush\<close> up to its wait, and what the wait returns when it ends in a given state.\<close>

definition ForceFlush_request :: "BatchSpanProcessor \<Rightarrow> nat option \<times> BatchSpanProcessor" where
  "ForceFlush_request p =
     (if m_shutdown p then (None, p)
      else (Some (m_flush_seq p + 1), p\<lparr>m_flush_seq := m_flush_seq p + 1\<rparr>))"

definition ForceFlush_result :: "nat option \<Rightarrow> BatchSpanProcessor \<Rightarrow> Status" where
  "ForceFlush_result ticket p =
     (case ticket of
        None \<Rightarrow> AlreadyShutDown
      | Some target \<Rightarrow> if m_flush_done_seq p \<ge> target then Completed else TimedOut)"

definition Shutdown_request :: "BatchSpanProcessor \<Rightarrow> bool \<times> BatchSpanProcessor" where
  "Shutdown_request p = (if m_shutdown p then (False, p) else (True, p\<lparr>m_shutdown := True\<rparr>))"

text \<open>
  \<open>JoinWithTimeout\<close> with its two clock readings: the worker is joined, however long that takes,
  unless the deadline has already passed when the loop looks at the clock. After the join the
  thread is no longer joinable and the loop ends.
\<close>

definition JoinWithTimeout :: "bool \<Rightarrow> int \<Rightarrow> int \<Rightarrow> int \<Rightarrow> bool" where
  "JoinWithTimeout joinable entered timeout now =
     (if joinable then (let deadline = entered + timeout in if now \<ge> deadline then False else True)
      else True)"

definition Shutdown_result :: "bool \<Rightarrow> bool \<Rightarrow> int \<Rightarrow> int \<Rightarrow> int \<Rightarrow> Status" where
  "Shutdown_result first joinable entered timeout now =
     (if \<not> first then AlreadyShutDown
      else if JoinWithTimeout joinable entered timeout now then Completed else TimedOut)"

section \<open>Operations of the worker thread\<close>

fun pop_fronts :: "nat \<Rightarrow> BatchSpanProcessor \<Rightarrow> QueuedSpan list \<Rightarrow> QueuedSpan list \<times> BatchSpanProcessor" where
  "pop_fronts 0 p batch = (batch, p)"
| "pop_fronts (Suc count) p batch =
     (case m_queue p of
        [] \<Rightarrow> (batch, p)
      | front # rest \<Rightarrow>
          pop_fronts count (p\<lparr>m_queue_bytes := m_queue_bytes p - q_bytes front, m_queue := rest\<rparr>)
            (batch @ [front]))"

definition WaitAndCollect ::
    "BatchSpanProcessor \<Rightarrow> (QueuedSpan list \<times> bool \<times> nat) \<times> BatchSpanProcessor" where
  "WaitAndCollect p =
     (let count = min (length (m_queue p)) (max_export_batch_size (m_opts p));
          (batch, p1) = pop_fronts count p [];
          pending_flush_seq =
            (if m_flush_seq p1 > m_flush_done_seq p1 \<and> m_queue p1 = [] then m_flush_seq p1 else 0)
      in ((batch, m_shutdown p1 \<and> m_queue p1 = [], pending_flush_seq), p1))"

definition acknowledge_flush :: "nat \<Rightarrow> BatchSpanProcessor \<Rightarrow> BatchSpanProcessor" where
  "acknowledge_flush pending p = p\<lparr>m_flush_done_seq := pending\<rparr>"

subsection \<open>Grouping\<close>

record BatchHandle =
  h_records :: "SpanRecord list"
  h_resource :: "resource_ptr option"
  h_scope :: InstrumentationScope

record Group =
  g_resource :: "resource_ptr option"
  g_scope :: InstrumentationScope
  g_records :: "SpanRecord list"
  g_count :: nat

definition same_group :: "QueuedSpan \<Rightarrow> resource_ptr option \<Rightarrow> Group \<Rightarrow> bool" where
  "same_group item key grp \<longleftrightarrow>
     g_resource grp = key \<and> scope_name (g_scope grp) = scope_name (q_scope item) \<and>
     scope_version (g_scope grp) = scope_version (q_scope item)"

fun find_if :: "('a \<Rightarrow> bool) \<Rightarrow> 'a list \<Rightarrow> nat" where
  "find_if P [] = 0"
| "find_if P (x # xs) = (if P x then 0 else Suc (find_if P xs))"

definition owner_of :: "BatchSpanProcessor \<Rightarrow> QueuedSpan \<Rightarrow> resource_ptr option" where
  "owner_of p item =
     (if rec_resource (q_record item) \<noteq> None then rec_resource (q_record item) else m_resource p)"

text \<open>First pass: find every record's group, opening it at its first record, and count.\<close>

fun assign_groups ::
    "BatchSpanProcessor \<Rightarrow> QueuedSpan list \<Rightarrow> Group list \<Rightarrow> nat list \<Rightarrow> Group list \<times> nat list" where
  "assign_groups p [] groups group_of = (groups, group_of)"
| "assign_groups p (item # items) groups group_of =
     (let key = owner_of p item;
          it = find_if (same_group item key) groups;
          groups1 = (if it = length groups
                     then groups @ [\<lparr>g_resource = key, g_scope = q_scope item, g_records = [],
                                     g_count = 0\<rparr>]
                     else groups);
          groups2 = groups1[it := (groups1 ! it)\<lparr>g_count := g_count (groups1 ! it) + 1\<rparr>]
      in assign_groups p items groups2 (group_of @ [it]))"

text \<open>Second pass: move the records into their groups.\<close>

fun fill_groups :: "QueuedSpan list \<Rightarrow> nat list \<Rightarrow> Group list \<Rightarrow> Group list" where
  "fill_groups (item # items) (g # gs) groups =
     fill_groups items gs
       (groups[g := (groups ! g)\<lparr>g_records := g_records (groups ! g) @ [q_record item]\<rparr>])"
| "fill_groups _ _ groups = groups"

definition group_handles :: "BatchSpanProcessor \<Rightarrow> QueuedSpan list \<Rightarrow> BatchHandle list" where
  "group_handles p batch =
     (let (groups, group_of) = assign_groups p batch [] []
      in map (\<lambda>grp. \<lparr>h_records = g_records grp, h_resource = g_resource grp,
                       h_scope = g_scope grp\<rparr>)
           (fill_groups batch group_of groups))"

datatype export_call = Export BatchHandle | ExportGroup "BatchHandle list"

definition ExportBatch :: "BatchSpanProcessor \<Rightarrow> QueuedSpan list \<Rightarrow> export_call list" where
  "ExportBatch p batch =
     (let handles = group_handles p batch
      in if m_group_exporter p then [ExportGroup handles] else map Export handles)"

definition bsp_ops ::
    "(BatchSpanProcessor, QueuedSpan, SpanRecord \<times> InstrumentationScope, export_call) worker_ops" where
  "bsp_ops =
     \<lparr>op_enq = (\<lambda>(r, scope). Enqueue r scope),
      op_item = (\<lambda>(r, scope). \<lparr>q_record = r, q_scope = scope, q_bytes = of_nat (EstimateRecordBytes r)\<rparr>),
      op_set_options = SetOptions, op_flush = ForceFlush_request, op_shutdown = Shutdown_request,
      op_collect = WaitAndCollect, op_export = ExportBatch, op_ack = acknowledge_flush,
      op_queue = m_queue, op_is_shutdown = m_shutdown, op_flush_seq = m_flush_seq,
      op_flush_done_seq = m_flush_done_seq, op_options = m_opts\<rparr>"

section \<open>The queue\<close>

definition same_config :: "BatchSpanProcessor \<Rightarrow> BatchSpanProcessor \<Rightarrow> bool" where
  "same_config p p' \<longleftrightarrow> m_resource p' = m_resource p \<and> m_opts p' = m_opts p \<and>
     m_max_record_bytes p' = m_max_record_bytes p \<and>
     m_max_total_queue_bytes p' = m_max_total_queue_bytes p \<and>
     m_group_exporter p' = m_group_exporter p \<and> m_shutdown p' = m_shutdown p \<and>
     m_flush_seq p' = m_flush_seq p \<and> m_flush_done_seq p' = m_flush_done_seq p"

lemma MakeRoomFor_queue:
  "MakeRoomFor rb (p, diag) = (room, p', diag') \<Longrightarrow>
   same_config p p' \<and> (\<exists>k \<le> length (m_queue p). m_queue p' = drop k (m_queue p))"
proof (induction rb "(p, diag)" arbitrary: p diag rule: MakeRoomFor.induct)
  case (1 rb p diag)
  show ?case
  proof (cases "length (m_queue p) \<ge> max_queue_size (m_opts p) \<or>
      m_queue_bytes p + rb > m_max_total_queue_bytes p")
    case full: True
    show ?thesis
    proof (cases "drop_policy (m_opts p) = DropOldest \<and> m_queue p \<noteq> []")
      case True
      then obtain front rest where q: "m_queue p = front # rest" by (cases "m_queue p") auto
      let ?p = "p\<lparr>m_queue_bytes := m_queue_bytes p - q_bytes front, m_queue := rest\<rparr>"
      have "MakeRoomFor rb (?p, count_drop QueueFull 1 diag) = (room, p', diag')"
        using "1.prems" full True q by (subst (asm) MakeRoomFor.simps) simp
      from "1.hyps" [OF full refl _ q this] True obtain k where
        "same_config ?p p'" "k \<le> length rest" "m_queue p' = drop k rest" by auto
      then show ?thesis using q
        by (intro conjI exI [of _ "Suc k"]) (simp_all add: same_config_def)
    next
      case False
      then show ?thesis
        using "1.prems" full
        by (subst (asm) MakeRoomFor.simps) (auto simp: same_config_def Let_def split: list.splits if_splits)
    qed
  next
    case False
    then show ?thesis
      using "1.prems" by (subst (asm) MakeRoomFor.simps) (auto simp: same_config_def)
  qed
qed

lemma pop_fronts_eq:
  "count \<le> length (m_queue p) \<Longrightarrow> pop_fronts count p batch =
     (batch @ take count (m_queue p),
      p\<lparr>m_queue_bytes := m_queue_bytes p - sum_list (map q_bytes (take count (m_queue p))),
        m_queue := drop count (m_queue p)\<rparr>)"
proof (induction count arbitrary: p batch)
  case (Suc count)
  then obtain front rest where q: "m_queue p = front # rest" by (cases "m_queue p") auto
  with Suc show ?case by (simp add: diff_diff_eq)
qed simp

lemma WaitAndCollect_eq:
  "WaitAndCollect p =
     (let n = max_export_batch_size (m_opts p); rest = drop n (m_queue p)
      in ((take n (m_queue p), m_shutdown p \<and> rest = [],
           if m_flush_seq p > m_flush_done_seq p \<and> rest = [] then m_flush_seq p else 0),
          p\<lparr>m_queue_bytes := m_queue_bytes p - sum_list (map q_bytes (take n (m_queue p))),
            m_queue := rest\<rparr>))"
  by (simp add: WaitAndCollect_def pop_fronts_eq Let_def min_def)

lemma Enqueue_queue:
  assumes "Enqueue r scope (p, diag) = (acc, p', diag')"
  shows "same_config p p'"
    "\<exists>k \<le> length (m_queue p). m_queue p' = drop k (m_queue p) @
       (if acc then [\<lparr>q_record = r, q_scope = scope, q_bytes = of_nat (EstimateRecordBytes r)\<rparr>]
        else [])"
    "m_shutdown p \<Longrightarrow> \<not> acc \<and> p' = p"
proof -
  obtain room p1 diag1 where
    m: "MakeRoomFor (of_nat (EstimateRecordBytes r)) (p, diag) = (room, p1, diag1)"
    by (metis surj_pair)
  from MakeRoomFor_queue [OF m] assms m show "same_config p p'"
    by (auto simp: Enqueue_def Let_def same_config_def split: if_splits)
  show "m_shutdown p \<Longrightarrow> \<not> acc \<and> p' = p"
    using assms by (simp add: Enqueue_def)
  show "\<exists>k \<le> length (m_queue p). m_queue p' = drop k (m_queue p) @
       (if acc then [\<lparr>q_record = r, q_scope = scope, q_bytes = of_nat (EstimateRecordBytes r)\<rparr>]
        else [])"
    using MakeRoomFor_queue [OF m] assms m
    by (auto simp: Enqueue_def Let_def split: if_splits intro: exI [of _ 0])
qed

lemma MakeRoomFor_newest:
  "drop_policy (m_opts p) = DropNewest \<Longrightarrow> MakeRoomFor rb (p, diag) =
     (if length (m_queue p) \<ge> max_queue_size (m_opts p) \<or> m_queue_bytes p + rb > m_max_total_queue_bytes p
      then (False, p, count_drop QueueFull 1 diag) else (True, p, diag))"
  by (subst MakeRoomFor.simps) simp

lemma ExportBatch_cong:
  "m_resource p' = m_resource p \<Longrightarrow> m_group_exporter p' = m_group_exporter p \<Longrightarrow>
   ExportBatch p' = ExportBatch p"
proof
  fix batch assume res: "m_resource p' = m_resource p" and grp: "m_group_exporter p' = m_group_exporter p"
  have "owner_of p' = owner_of p" by (rule ext) (simp add: owner_of_def res)
  then have "assign_groups p' batch groups group_of = assign_groups p batch groups group_of"
    for groups group_of by (induction batch arbitrary: groups group_of) (simp_all add: Let_def)
  then show "ExportBatch p' batch = ExportBatch p batch"
    by (simp add: ExportBatch_def group_handles_def grp)
qed

interpretation bsp: draining_worker bsp_ops
proof
  fix r :: "SpanRecord \<times> InstrumentationScope" and p diag acc p' diag'
  assume e: "op_enq bsp_ops r (p, diag) = (acc, p', diag')"
  obtain rec scope where r: "r = (rec, scope)" by fastforce
  from e have e': "Enqueue rec scope (p, diag) = (acc, p', diag')" by (simp add: bsp_ops_def r)
  note q = Enqueue_queue [OF e']
  show "\<exists>k \<le> length (op_queue bsp_ops p). op_queue bsp_ops p' =
      drop k (op_queue bsp_ops p) @ (if acc then [op_item bsp_ops r] else [])"
    using q(2) by (cases acc) (simp_all add: bsp_ops_def r)
  show "op_queue bsp_ops p' = op_queue bsp_ops p @ (if acc then [op_item bsp_ops r] else [])"
    if "drop_policy (op_options bsp_ops p) = DropNewest"
    using e' that by (auto simp: bsp_ops_def r Enqueue_def MakeRoomFor_newest Let_def split: if_splits)
  show "\<not> acc \<and> op_queue bsp_ops p' = op_queue bsp_ops p" if "op_is_shutdown bsp_ops p"
    using that q(3) by (simp add: bsp_ops_def)
  show "same_control bsp_ops p p'"
    using q(1) ExportBatch_cong [of p' p]
    by (simp add: same_control_def same_config_def bsp_ops_def)
qed (auto simp: bsp_ops_def same_control_def SetOptions_def ForceFlush_request_def
    Shutdown_request_def acknowledge_flush_def WaitAndCollect_eq Let_def
    intro!: ExportBatch_cong split: if_splits)

text \<open>The processor as the interface a span ends into.\<close>

interpretation bsp_end: span_processor OnEnd
proof
  fix r scope and w :: "BatchSpanProcessor \<times> sink" and left_over w'
  assume "OnEnd r scope w = (left_over, w')"
  then show "same_identity (rec_context left_over) (rec_context r)"
    by (auto simp: OnEnd_def moved_from_def split: prod.splits if_splits)
qed

section \<open>Byte accounting\<close>

text \<open>
  \<open>config_ok\<close>: the byte cap leaves room for one more record below \<open>2 ^ 64\<close>. \<open>bytes_ok\<close>: the
  running total is the sum of the queued sizes, no queued record is over the record cap, and the
  total is within the byte cap.
\<close>

definition config_ok :: "BatchSpanProcessor \<Rightarrow> bool" where
  "config_ok p \<longleftrightarrow> unat (m_max_total_queue_bytes p) + unat (m_max_record_bytes p) < 2 ^ 64"

definition queued_bytes :: "BatchSpanProcessor \<Rightarrow> nat" where
  "queued_bytes p = sum_list (map (\<lambda>x. unat (q_bytes x)) (m_queue p))"

definition bytes_ok :: "BatchSpanProcessor \<Rightarrow> bool" where
  "bytes_ok p \<longleftrightarrow> unat (m_queue_bytes p) = queued_bytes p \<and>
     queued_bytes p \<le> unat (m_max_total_queue_bytes p) \<and>
     (\<forall>x \<in> set (m_queue p). unat (q_bytes x) = EstimateRecordBytes (q_record x) \<and>
        unat (q_bytes x) \<le> unat (m_max_record_bytes p))"

lemma unat_add_small: "unat (x :: u64) + unat y < 2 ^ 64 \<Longrightarrow> unat (x + y) = unat x + unat y"
  by (simp add: unat_word_ariths)

lemma unat_diff_small: "unat (y :: u64) \<le> unat x \<Longrightarrow> unat (x - y) = unat x - unat y"
  by (simp add: unat_sub word_le_nat_alt)

lemma unat_u32_less: "unat (x :: u32) < 2 ^ 32"
  using unsigned_less [of x, where 'a = nat] by simp

lemma unat_of_small: "n \<le> unat (x :: u32) \<Longrightarrow> unat (of_nat n :: u64) = n"
  using unat_u32_less [of x] by (simp add: unat_of_nat take_bit_nat_eq_self)

lemma bytes_ok_pop:
  assumes "bytes_ok p" "m_queue p = front # rest"
  shows "bytes_ok (p\<lparr>m_queue_bytes := m_queue_bytes p - q_bytes front, m_queue := rest\<rparr>)"
proof -
  have "unat (m_queue_bytes p - q_bytes front) = unat (m_queue_bytes p) - unat (q_bytes front)"
    using assms by (intro unat_diff_small) (simp add: bytes_ok_def queued_bytes_def)
  then show ?thesis using assms by (auto simp: bytes_ok_def queued_bytes_def)
qed

definition has_room :: "BatchSpanProcessor \<Rightarrow> nat \<Rightarrow> bool" where
  "has_room p rb \<longleftrightarrow> length (m_queue p) < max_queue_size (m_opts p) \<and>
     queued_bytes p + rb \<le> unat (m_max_total_queue_bytes p)"

lemma has_room_iff:
  assumes "bytes_ok p" "config_ok p" "unat rb \<le> unat (m_max_record_bytes p)"
  shows "(length (m_queue p) \<ge> max_queue_size (m_opts p) \<or>
     m_queue_bytes p + rb > m_max_total_queue_bytes p) \<longleftrightarrow> \<not> has_room p (unat rb)"
proof -
  have "unat (m_queue_bytes p + rb) = queued_bytes p + unat rb"
    using assms by (subst unat_add_small) (auto simp: bytes_ok_def config_ok_def)
  then show ?thesis by (auto simp: has_room_def word_less_nat_alt)
qed

definition evict :: "nat \<Rightarrow> BatchSpanProcessor \<Rightarrow> BatchSpanProcessor" where
  "evict k p = p\<lparr>m_queue := drop k (m_queue p)\<rparr>"

lemma evict_0 [simp]: "evict 0 p = p"
  by (simp add: evict_def)

lemma has_room_bytes [simp]: "has_room (p\<lparr>m_queue_bytes := b\<rparr>) rb = has_room p rb"
  by (simp add: has_room_def queued_bytes_def)

text \<open>
  What \<open>MakeRoomFor\<close> does: with \<open>DropOldest\<close> it evicts, one by one and counted, the fewest oldest
  records that make room, and fails only when an empty queue has no room; with \<open>DropNewest\<close> it
  evicts nothing. A failure counts once more, for the incoming record.
\<close>

lemma MakeRoomFor_spec:
  assumes "MakeRoomFor rb (p, diag) = (room, p', diag')"
    "bytes_ok p" "config_ok p" "unat rb \<le> unat (m_max_record_bytes p)"
  shows "bytes_ok p' \<and> (\<exists>k \<le> length (m_queue p).
      m_queue p' = drop k (m_queue p) \<and> (\<forall>i < k. \<not> has_room (evict i p) (unat rb)) \<and>
      room = has_room (evict k p) (unat rb) \<and>
      (drop_policy (m_opts p) = DropNewest \<longrightarrow> k = 0) \<and>
      (drop_policy (m_opts p) = DropOldest \<longrightarrow> \<not> room \<longrightarrow> k = length (m_queue p)) \<and>
      diag' = count_drop QueueFull (k + (if room then 0 else 1)) diag)"
  using assms
proof (induction rb "(p, diag)" arbitrary: p diag rule: MakeRoomFor.induct)
  case (1 rb p diag)
  note room_iff = has_room_iff [OF "1.prems"(2-4)]
  show ?case
  proof (cases "has_room p (unat rb)")
    case True
    with "1.prems"(1) room_iff have "room" "p' = p" "diag' = diag"
      by (subst (asm) MakeRoomFor.simps; simp)+
    with True "1.prems"(2) show ?thesis by (auto simp: evict_def intro!: exI [of _ 0])
  next
    case full: False
    show ?thesis
    proof (cases "drop_policy (m_opts p) = DropOldest \<and> m_queue p \<noteq> []")
      case True
      then obtain front rest where q: "m_queue p = front # rest" by (cases "m_queue p") auto
      let ?p = "p\<lparr>m_queue_bytes := m_queue_bytes p - q_bytes front, m_queue := rest\<rparr>"
      have rest: "MakeRoomFor rb (?p, count_drop QueueFull 1 diag) = (room, p', diag')"
        using "1.prems"(1) full room_iff True q by (subst (asm) MakeRoomFor.simps) simp
      have "bytes_ok ?p" "config_ok ?p" "unat rb \<le> unat (m_max_record_bytes ?p)"
        using bytes_ok_pop [OF "1.prems"(2) q] "1.prems"(3,4) by (simp_all add: config_ok_def)
      moreover have "\<not> drop_policy (m_opts p) \<noteq> DropOldest" using True by simp
      ultimately have ih: "bytes_ok p' \<and> (\<exists>k \<le> length (m_queue ?p).
          m_queue p' = drop k (m_queue ?p) \<and> (\<forall>i < k. \<not> has_room (evict i ?p) (unat rb)) \<and>
          room = has_room (evict k ?p) (unat rb) \<and>
          (drop_policy (m_opts ?p) = DropNewest \<longrightarrow> k = 0) \<and>
          (drop_policy (m_opts ?p) = DropOldest \<longrightarrow> \<not> room \<longrightarrow> k = length (m_queue ?p)) \<and>
          diag' = count_drop QueueFull (k + (if room then 0 else 1)) (count_drop QueueFull 1 diag))"
        using "1.hyps" [OF iffD2 [OF room_iff full] refl _ q rest] by blast
      then obtain k where k: "bytes_ok p'" "k \<le> length (m_queue ?p)"
        "m_queue p' = drop k (m_queue ?p)" "\<forall>i < k. \<not> has_room (evict i ?p) (unat rb)"
        "room = has_room (evict k ?p) (unat rb)"
        "drop_policy (m_opts ?p) = DropOldest \<longrightarrow> \<not> room \<longrightarrow> k = length (m_queue ?p)"
        "diag' = count_drop QueueFull (k + (if room then 0 else 1)) (count_drop QueueFull 1 diag)"
        by blast
      have shift: "has_room (evict i ?p) (unat rb) = has_room (evict (Suc i) p) (unat rb)" for i
        by (simp add: evict_def q has_room_def queued_bytes_def)
      have "\<not> has_room (evict i p) (unat rb)" if "i < Suc k" for i
        using that full k(4) shift by (cases i) simp_all
      moreover have "diag' = count_drop QueueFull (Suc k + (if room then 0 else 1)) diag"
        unfolding k(7) count_drop_add by simp
      moreover have "room = has_room (evict (Suc k) p) (unat rb)" using k(5) shift by (rule trans)
      moreover have "Suc k \<le> length (m_queue p)" "m_queue p' = drop (Suc k) (m_queue p)"
        using k(2,3) q by simp_all
      moreover have "drop_policy (m_opts p) = DropNewest \<longrightarrow> Suc k = 0"
        "drop_policy (m_opts p) = DropOldest \<longrightarrow> \<not> room \<longrightarrow> Suc k = length (m_queue p)"
        using k(6) q True by simp_all
      ultimately show ?thesis using k(1) by blast
    next
      case False
      with "1.prems"(1) full room_iff have "\<not> room" "p' = p" "diag' = count_drop QueueFull 1 diag"
        by (subst (asm) MakeRoomFor.simps; auto simp: Let_def split: list.splits if_splits)+
      with False full "1.prems"(2) show ?thesis
        by (intro conjI exI [of _ 0]) (cases "drop_policy (m_opts p)"; simp)+
    qed
  qed
qed

lemma queued_bytes_append [simp]:
  "queued_bytes (p\<lparr>m_queue_bytes := b, m_queue := xs @ ys\<rparr>) =
     queued_bytes (p\<lparr>m_queue := xs\<rparr>) + sum_list (map (\<lambda>x. unat (q_bytes x)) ys)"
  by (simp add: queued_bytes_def)

lemma Enqueue_exact:
  assumes "Enqueue r scope (p, diag) = (acc, p', diag')" "bytes_ok p" "config_ok p"
  shows "bytes_ok p' \<and> (acc \<longrightarrow> length (m_queue p') \<le> max_queue_size (m_opts p)) \<and>
    (\<exists>k \<le> length (m_queue p).
       acc = (\<not> m_shutdown p \<and> EstimateRecordBytes r \<le> unat (m_max_record_bytes p) \<and>
              has_room (evict k p) (EstimateRecordBytes r)) \<and>
       (\<forall>i < k. \<not> has_room (evict i p) (EstimateRecordBytes r)) \<and>
       (drop_policy (m_opts p) = DropNewest \<longrightarrow> k = 0) \<and>
       (m_shutdown p \<or> EstimateRecordBytes r > unat (m_max_record_bytes p) \<longrightarrow> k = 0) \<and>
       (\<not> acc \<and> \<not> m_shutdown p \<and> EstimateRecordBytes r \<le> unat (m_max_record_bytes p) \<and>
          drop_policy (m_opts p) = DropOldest \<longrightarrow> k = length (m_queue p)) \<and>
       m_queue p' = drop k (m_queue p) @
         (if acc then [\<lparr>q_record = r, q_scope = scope, q_bytes = of_nat (EstimateRecordBytes r)\<rparr>]
          else []) \<and>
       (diag \<noteq> None \<longrightarrow> drops diag' QueueFull = drops diag QueueFull + of_nat
          (k + (if \<not> acc \<and> \<not> m_shutdown p \<and> EstimateRecordBytes r \<le> unat (m_max_record_bytes p)
                then 1 else 0))))"
proof (cases "m_shutdown p \<or> EstimateRecordBytes r > unat (m_max_record_bytes p)")
  case True
  then have "\<not> acc" "p' = p" "diag \<noteq> None \<Longrightarrow> drops diag' QueueFull = drops diag QueueFull"
    using assms(1) by (auto simp: Enqueue_def Let_def drops_count_drop split: if_splits)
  with True assms(2) show ?thesis by (auto intro!: exI [of _ 0])
next
  case False
  let ?n = "EstimateRecordBytes r"
  obtain room p1 diag1 where m: "MakeRoomFor (of_nat ?n) (p, diag) = (room, p1, diag1)"
    by (metis surj_pair)
  have n: "unat (of_nat ?n :: u64) = ?n" using False unat_of_small by (metis not_less)
  then have small: "unat (of_nat ?n :: u64) \<le> unat (m_max_record_bytes p)" using False by simp
  have cfg: "same_config p p1" using MakeRoomFor_queue [OF m] by blast
  obtain k where k: "bytes_ok p1" "k \<le> length (m_queue p)" "m_queue p1 = drop k (m_queue p)"
    "\<forall>i < k. \<not> has_room (evict i p) ?n" "room = has_room (evict k p) ?n"
    "drop_policy (m_opts p) = DropNewest \<longrightarrow> k = 0"
    "diag1 = count_drop QueueFull (k + (if room then 0 else 1)) diag"
    "drop_policy (m_opts p) = DropOldest \<longrightarrow> \<not> room \<longrightarrow> k = length (m_queue p)"
    using MakeRoomFor_spec [OF m assms(2,3) small] unfolding n by blast
  have acc: "acc = room" "diag' = diag1"
    and p': "p' = (if room then p1\<lparr>m_queue_bytes := m_queue_bytes p1 + of_nat ?n,
        m_queue := m_queue p1 @ [\<lparr>q_record = r, q_scope = scope, q_bytes = of_nat ?n\<rparr>]\<rparr> else p1)"
    using assms(1) False m by (auto simp: Enqueue_def Let_def split: if_splits)
  have "bytes_ok p'"
  proof (cases room)
    case True
    have room1: "queued_bytes p1 + ?n \<le> unat (m_max_total_queue_bytes p1)"
      using True k(3,5) cfg by (simp add: has_room_def evict_def queued_bytes_def same_config_def)
    then have "unat (m_queue_bytes p1 + of_nat ?n) = queued_bytes p1 + ?n"
      using k(1) n unsigned_less [of "m_max_total_queue_bytes p1", where 'a = nat]
      by (subst unat_add_small) (simp_all add: bytes_ok_def)
    with k(1) room1 True small n cfg show ?thesis
      by (auto simp: p' bytes_ok_def same_config_def queued_bytes_def)
  qed (use k(1) p' in simp)
  moreover have "length (m_queue p') \<le> max_queue_size (m_opts p)" if acc
    using that acc(1) k(3,5) by (auto simp: p' has_room_def evict_def)
  moreover have "m_queue p' = drop k (m_queue p) @
      (if acc then [\<lparr>q_record = r, q_scope = scope, q_bytes = of_nat ?n\<rparr>] else [])"
    using k(3) by (simp add: p' acc)
  moreover have "drops diag' QueueFull = drops diag QueueFull + of_nat (k + (if acc then 0 else 1))"
    if "diag \<noteq> None" using that k(7) by (simp add: acc drops_count_drop)
  ultimately show ?thesis
    using k(2,4-6,8) acc(1) False by (intro conjI exI [of _ k]) auto
qed

lemma Enqueue_accepts:
  assumes "Enqueue r scope (p, diag) = (acc, p', diag')" "bytes_ok p" "config_ok p"
  shows "acc \<longleftrightarrow> \<not> m_shutdown p \<and> EstimateRecordBytes r \<le> unat (m_max_record_bytes p) \<and>
    (\<exists>j \<le> length (m_queue p). (drop_policy (m_opts p) = DropNewest \<longrightarrow> j = 0) \<and>
       has_room (evict j p) (EstimateRecordBytes r))"
proof -
  let ?fits = "\<not> m_shutdown p \<and> EstimateRecordBytes r \<le> unat (m_max_record_bytes p)"
  obtain k where k: "k \<le> length (m_queue p)"
    "acc = (?fits \<and> has_room (evict k p) (EstimateRecordBytes r))"
    "\<forall>i < k. \<not> has_room (evict i p) (EstimateRecordBytes r)"
    "drop_policy (m_opts p) = DropNewest \<longrightarrow> k = 0"
    "\<not> acc \<and> ?fits \<and> drop_policy (m_opts p) = DropOldest \<longrightarrow> k = length (m_queue p)"
    using Enqueue_exact [OF assms] by blast
  have "has_room (evict k p) (EstimateRecordBytes r)"
    if "?fits" "j \<le> length (m_queue p)" "drop_policy (m_opts p) = DropNewest \<longrightarrow> j = 0"
      "has_room (evict j p) (EstimateRecordBytes r)" for j
  proof (rule ccontr)
    assume no: "\<not> has_room (evict k p) (EstimateRecordBytes r)"
    show False
    proof (cases "drop_policy (m_opts p)")
      case DropNewest
      then show False using that no k(4) by simp
    next
      case DropOldest
      then have "k = length (m_queue p)" using k(2,5) that(1) no by blast
      then show False using that(2,4) no k(3) by (metis le_neq_implies_less)
    qed
  qed
  then show ?thesis using k(1,2,4) by blast
qed


definition sample_item :: QueuedSpan where
  "sample_item =
     \<lparr>q_record = SpanRecord_default, q_scope = \<lparr>scope_name = ''lib'', scope_version = ''1''\<rparr>, q_bytes = 64\<rparr>"

definition sample_processor :: BatchSpanProcessor where
  "sample_processor =
     (BatchSpanProcessor_new (Some 0)
        (BatchOptions_default\<lparr>max_queue_size := 1, drop_policy := DropOldest\<rparr>) 1000 10000 False)
     \<lparr>m_queue := [sample_item], m_queue_bytes := 64\<rparr>"

lemma EstimateRecordBytes_default: "EstimateRecordBytes SpanRecord_default = 64"
  by (simp add: EstimateRecordBytes_def SpanRecord_default_def AttributesBytes_def kRecordFixedBytes_def)


section \<open>Grouping\<close>

definition group_key :: "BatchSpanProcessor \<Rightarrow> QueuedSpan \<Rightarrow> resource_ptr option \<times> InstrumentationScope" where
  "group_key p item = (owner_of p item, q_scope item)"

fun extend_keys :: "'a list \<Rightarrow> 'a list \<Rightarrow> 'a list" where
  "extend_keys ks [] = ks"
| "extend_keys ks (x # xs) = extend_keys (if x \<in> set ks then ks else ks @ [x]) xs"

definition gkey :: "Group \<Rightarrow> resource_ptr option \<times> InstrumentationScope" where
  "gkey g = (g_resource g, g_scope g)"

lemma extend_keys_first_seen: "extend_keys ks xs = ks @ filter (\<lambda>x. x \<notin> set ks) (first_seen xs)"
proof (induction xs arbitrary: ks)
  case (Cons x xs)
  show ?case
  proof (cases "x \<in> set ks")
    case True
    then show ?thesis by (auto simp: Cons intro: filter_cong)
  next
    case False
    then show ?thesis by (auto simp: Cons intro: filter_cong)
  qed
qed simp

lemma find_if_key: "find_if P xs = find_if (\<lambda>b. b) (map P xs)"
  by (induction xs) auto

lemma find_if_eq_index:
  "find_if ((=) k) ks < length ks \<longleftrightarrow> k \<in> set ks"
  "k \<in> set ks \<Longrightarrow> ks ! find_if ((=) k) ks = k"
  "k \<notin> set ks \<Longrightarrow> find_if ((=) k) ks = length ks"
  by (induction ks) auto

lemma find_if_extend: "k \<in> set ks \<Longrightarrow> find_if ((=) k) (ks @ ys) = find_if ((=) k) ks"
  by (induction ks) auto

lemma find_group: "find_if (same_group item (owner_of p item)) groups =
    find_if ((=) (group_key p item)) (map gkey groups)"
  by (induction groups) (auto simp: same_group_def group_key_def gkey_def)

lemma extend_keys_prefix: "\<exists>ys. extend_keys ks xs = ks @ ys"
  by (simp add: extend_keys_first_seen)

lemma assign_groups_eq:
  assumes "assign_groups p items groups group_of = (groups', group_of')" "\<forall>g \<in> set groups. g_records g = []"
  shows "map gkey groups' = extend_keys (map gkey groups) (map (group_key p) items) \<and>
    (\<forall>g \<in> set groups'. g_records g = []) \<and>
    group_of' = group_of @ map (\<lambda>x. find_if ((=) (group_key p x)) (map gkey groups')) items"
  using assms
proof (induction items arbitrary: groups group_of)
  case (Cons item items)
  let ?k = "group_key p item"
  let ?it = "find_if ((=) ?k) (map gkey groups)"
  let ?g1 = "if ?it = length groups
    then groups @ [\<lparr>g_resource = owner_of p item, g_scope = q_scope item, g_records = [], g_count = 0\<rparr>]
    else groups"
  let ?g2 = "?g1[?it := (?g1 ! ?it)\<lparr>g_count := g_count (?g1 ! ?it) + 1\<rparr>]"
  have in1: "?it < length ?g1"
    using find_if_eq_index(1,3) [of ?k "map gkey groups"] by (cases "?k \<in> set (map gkey groups)") auto
  have keys: "map gkey ?g2 = (if ?k \<in> set (map gkey groups) then map gkey groups
      else map gkey groups @ [?k])"
  proof -
    have "map gkey ?g2 = map gkey ?g1"
      using in1 by (simp add: map_update gkey_def list_update_same_conv)
    also have "\<dots> = (if ?k \<in> set (map gkey groups) then map gkey groups else map gkey groups @ [?k])"
      using find_if_eq_index [of ?k "map gkey groups"] by (auto simp: gkey_def group_key_def)
    finally show ?thesis .
  qed
  have empty: "\<forall>g \<in> set ?g2. g_records g = []"
    using Cons.prems(2) in1 by (auto simp: set_conv_nth nth_list_update nth_append split: if_splits)
  have rest: "assign_groups p items ?g2 (group_of @ [?it]) = (groups', group_of')"
    using Cons.prems(1) by (simp add: Let_def find_group)
  note ih = Cons.IH [OF rest empty]
  obtain ys where ys: "map gkey groups' = map gkey ?g2 @ ys"
    using ih extend_keys_prefix by metis
  have "find_if ((=) ?k) (map gkey groups') = ?it"
  proof (cases "?k \<in> set (map gkey groups)")
    case True
    then show ?thesis using ys keys find_if_extend [of ?k "map gkey groups" ys] by (simp cong: if_cong)
  next
    case False
    then have "find_if ((=) ?k) (map gkey groups @ [?k] @ ys) = ?it"
      using find_if_eq_index(3) [of ?k "map gkey groups"] by (induction groups) auto
    then show ?thesis using ys keys False by (simp cong: if_cong)
  qed
  with ih keys show ?case by (simp cong: if_cong)
qed simp

lemma fill_groups_eq:
  assumes "length items = length gs" "\<forall>g \<in> set gs. g < length groups"
  shows "fill_groups items gs groups =
    map (\<lambda>i. (groups ! i)\<lparr>g_records := g_records (groups ! i) @
      map (q_record \<circ> fst) (filter (\<lambda>(x, g). g = i) (zip items gs))\<rparr>) [0..<length groups]"
  using assms
proof (induction items gs arbitrary: groups rule: list_induct2)
  case Nil
  have "map (\<lambda>i. (groups ! i)\<lparr>g_records := g_records (groups ! i)\<rparr>) [0..<length groups] =
      map ((!) groups) [0..<length groups]" by simp
  then show ?case by (simp add: map_nth)
next
  case (Cons item items g gs)
  let ?groups = "groups[g := (groups ! g)\<lparr>g_records := g_records (groups ! g) @ [q_record item]\<rparr>]"
  have "fill_groups (item # items) (g # gs) groups = fill_groups items gs ?groups" by simp
  also have "\<dots> = map (\<lambda>i. (?groups ! i)\<lparr>g_records := g_records (?groups ! i) @
      map (q_record \<circ> fst) (filter (\<lambda>(x, g). g = i) (zip items gs))\<rparr>) [0..<length ?groups]"
    using Cons by simp
  finally show ?case
    using Cons.prems by (auto simp: nth_list_update)
qed

lemma find_if_distinct:
  "distinct ks \<Longrightarrow> i < length ks \<Longrightarrow> k \<in> set ks \<Longrightarrow> find_if ((=) k) ks = i \<longleftrightarrow> k = ks ! i"
  using find_if_eq_index [of k ks] by (auto simp: nth_eq_iff_index_eq)

lemma filter_zip_map: "map fst (filter (\<lambda>(x, g). P g) (zip xs (map f xs))) = filter (\<lambda>x. P (f x)) xs"
  by (induction xs) auto

text \<open>
  C28: the grouping of a drained batch. \<open>ExportBatch\<close> makes one handle for each pair of resource
  and scope in the batch, in the order in which the pairs first occur, and each handle holds
  exactly the records of its pair, in queue order; a record without a resource of its own counts
  as the processor's. The two-pass construction never mixes or drops records.
\<close>

theorem export_batch_grouping:
  "group_handles p batch =
     map (\<lambda>(resource, scope).
            \<lparr>h_records = map q_record (filter (\<lambda>x. group_key p x = (resource, scope)) batch),
             h_resource = resource, h_scope = scope\<rparr>)
       (first_seen (map (group_key p) batch))"
proof -
  obtain groups group_of where a: "assign_groups p batch [] [] = (groups, group_of)" by fastforce
  define ks where "ks = map gkey groups"
  from assign_groups_eq [OF a] have keys: "ks = first_seen (map (group_key p) batch)"
    and empty: "\<forall>g \<in> set groups. g_records g = []"
    and gof: "group_of = map (\<lambda>x. find_if ((=) (group_key p x)) ks) batch"
    by (simp_all add: ks_def extend_keys_first_seen)
  have len: "length ks = length groups" by (simp add: ks_def)
  have dk: "distinct ks" "set ks = group_key p ` set batch" by (simp_all add: keys distinct_first_seen)
  have "\<forall>g \<in> set group_of. g < length groups"
    unfolding gof using dk(2) by (auto simp: len [symmetric] find_if_eq_index(1))
  note fill = fill_groups_eq [OF _ this, of batch]
  have recs: "map (q_record \<circ> fst) (filter (\<lambda>(x, g). g = i) (zip batch group_of)) =
      map q_record (filter (\<lambda>x. group_key p x = ks ! i) batch)" if "i < length groups" for i
  proof -
    have "filter (\<lambda>x. find_if ((=) (group_key p x)) ks = i) batch =
        filter (\<lambda>x. group_key p x = ks ! i) batch"
      using find_if_distinct [OF dk(1)] that len dk(2) by (intro filter_cong) auto
    then show ?thesis
      using filter_zip_map [of "\<lambda>g. g = i" batch "\<lambda>x. find_if ((=) (group_key p x)) ks"]
      by (metis gof map_map)
  qed
  have "group_handles p batch =
      map (\<lambda>i. \<lparr>h_records = map q_record (filter (\<lambda>x. group_key p x = ks ! i) batch),
                h_resource = fst (ks ! i), h_scope = snd (ks ! i)\<rparr>) [0..<length ks]"
    using fill gof empty recs len
    by (simp add: group_handles_def a o_def) (simp add: ks_def gkey_def)
  also have "\<dots> = map (\<lambda>k. \<lparr>h_records = map q_record (filter (\<lambda>x. group_key p x = k) batch),
                h_resource = fst k, h_scope = snd k\<rparr>) (map ((!) ks) [0..<length ks])"
    by (simp add: o_def)
  finally show ?thesis by (simp add: map_nth keys split_def)
qed

section \<open>The processor with its threads\<close>

abbreviation bsp_start ::
    "resource_ptr option \<Rightarrow> BatchOptions \<Rightarrow> u32 \<Rightarrow> u64 \<Rightarrow> bool \<Rightarrow> sink \<Rightarrow>
     (BatchSpanProcessor, QueuedSpan, export_call) world" where
  "bsp_start resource opts max_record max_total grouped diag \<equiv>
     world_init (BatchSpanProcessor_new resource opts max_record max_total grouped) diag"

lemma bsp_start_inv: "worker_inv bsp_ops (bsp_start resource opts mr mt grouped diag)"
  by (rule bsp.inv_init) (simp_all add: bsp_ops_def BatchSpanProcessor_new_def)

lemmas bsp_reachable_inv = bsp.inv_reachable [OF _ bsp_start_inv]

lemma bsp_reachable_newer:
  "reachable bsp_ops (bsp_start resource opts mr mt grouped diag) w \<Longrightarrow> newer bsp_ops w"
  by (erule bsp.newer_reachable) (simp add: newer_def world_init_def)

lemma flush_request_world:
  assumes "fst (ForceFlush_request (w_proc w)) = Some target"
  shows "w_flushes (flush_world bsp_ops w) = (target, length (w_accepted w)) # w_flushes w"
    "w_accepted (flush_world bsp_ops w) = w_accepted w"
    "outgoing bsp_ops (flush_world bsp_ops w) =
       concat (w_batches w) @ in_flight w @ m_queue (w_proc w)"
    "records_with Evicted (flush_world bsp_ops w) = records_with Evicted w"
  using assms
  by (auto simp: flush_world_def bsp_ops_def outgoing_def in_flight_def records_with_def
      ForceFlush_request_def split: prod.splits if_splits)

text \<open>
  C8: nothing is lost, duplicated or reordered. In every reachable state of the processor and
  its threads, the records that have left the queue followed by those in it are the accepted
  records in order; the ones exported are, in order, the batches the worker took; the exporter
  has received exactly the calls \<open>ExportBatch\<close> makes of those batches; and what is neither queued
  nor exported is the batch the worker is holding or was evicted.
\<close>

theorem bsp_conservation:
  assumes "reachable bsp_ops (bsp_start resource opts mr mt grouped diag) w"
  shows "map snd (w_gone w) @ m_queue (w_proc w) = w_accepted w \<and>
    records_with Exported w = concat (w_batches w) \<and> records_with In_Flight w = in_flight w \<and>
    w_calls w = concat (map (ExportBatch (w_proc w)) (w_batches w))"
  using bsp.no_loss [OF bsp_reachable_inv [OF assms]] by (simp add: bsp_ops_def)

text \<open>
  C9: what a completed flush has delivered. Let \<open>ForceFlush\<close> be called in \<open>w0\<close> and return
  \<open>Completed\<close> in \<open>w\<close>, whatever the threads did in between. Then each record accepted before the call
  has left the queue, in the order of acceptance, and was either exported or evicted; none is still
  with the worker. If only \<open>DropNewest\<close> was in force since the call, nothing was evicted meanwhile: the
  exporter has received, in order, everything it had received before the call, then the batch the
  worker was holding, then all that was queued.
\<close>

theorem force_flush_delivers:
  assumes "reachable bsp_ops (bsp_start resource opts mr mt grouped diag) w0"
    "fst (ForceFlush_request (w_proc w0)) = Some target"
    "(worker_step bsp_ops)\<^sup>*\<^sup>* (flush_world bsp_ops w0) w"
    "ForceFlush_result (Some target) (w_proc w) = Completed"
  shows "map snd (take (length (w_accepted w0)) (w_gone w)) = w_accepted w0 \<and>
    (\<forall>x \<in> set (take (length (w_accepted w0)) (w_gone w)). fst x = Exported \<or> fst x = Evicted) \<and>
    ((newest_step bsp_ops)\<^sup>*\<^sup>* (flush_world bsp_ops w0) w \<longrightarrow>
       records_with Evicted w = records_with Evicted w0 \<and>
       (\<exists>later. concat (w_batches w) =
          concat (w_batches w0) @ in_flight w0 @ m_queue (w_proc w0) @ later))"
proof -
  let ?w1 = "flush_world bsp_ops w0"
  have r1: "reachable bsp_ops (bsp_start resource opts mr mt grouped diag) ?w1"
    using assms(1) by (rule reach_step) (rule ws_flush)
  note I = bsp_reachable_inv [OF r1] bsp_reachable_inv [OF reachable_run [OF r1 assms(3)]]
  note same = flush_request_world [OF assms(2)]
  obtain xs where xs: "w_accepted w = w_accepted w0 @ xs"
    using bsp.accepted_run [OF assms(3)] same by auto
  have "(target, length (w_accepted w0)) \<in> set (w_flushes w)"
    using bsp.flushes_run [OF assms(3)] same by auto
  moreover have "flush_completed bsp_ops w target"
    using assms(4) by (simp add: ForceFlush_result_def flush_completed_def bsp_ops_def split: if_splits)
  ultimately have set: "settled w (length (w_accepted w0))" by (rule bsp.flush_settles [OF I(2)])
  have "take (length (w_accepted w0)) (map snd (w_gone w) @ op_queue bsp_ops (w_proc w)) = w_accepted w0"
    using bsp.no_loss(1) [OF I(2)] xs by simp
  then have "map snd (take (length (w_accepted w0)) (w_gone w)) = w_accepted w0"
    using set by (simp add: settled_def take_map)
  moreover have "\<forall>x \<in> set (take (length (w_accepted w0)) (w_gone w)). fst x = Exported \<or> fst x = Evicted"
    using set unfolding settled_def by (metis fate.exhaust)
  moreover have "records_with Evicted w = records_with Evicted w0 \<and>
      (\<exists>later. concat (w_batches w) = concat (w_batches w0) @ in_flight w0 @ m_queue (w_proc w0) @ later)"
    if "(newest_step bsp_ops)\<^sup>*\<^sup>* ?w1 w"
    using bsp.newest_flush_exports [OF I that] bsp.newest_run [OF that] set same by auto
  ultimately show ?thesis by blast
qed

text \<open>
  C10: a shut-down processor leaves nothing behind. Once the worker has exited, which is what a
  \<open>Shutdown\<close> that returns \<open>Completed\<close> has waited for, the queue is empty and every record ever
  accepted was exported or evicted.
\<close>

theorem shutdown_delivers:
  assumes "reachable bsp_ops (bsp_start resource opts mr mt grouped diag) w" "w_pc w = Exited"
  shows "m_queue (w_proc w) = [] \<and> settled w (length (w_accepted w))"
  using bsp.exit_settles [OF bsp_reachable_inv [OF assms(1)] assms(2)] by (simp add: bsp_ops_def)

text \<open>
  C11: the worker gets there, in every interleaving with its callers. Let the worker make \<open>m\<close> moves
  from a reachable state, its batch size positive whenever it moves, while the callers enqueue, retune,
  flush and shut down as they like. As long as a flush requested before is unanswered, \<open>m\<close> is at most
  five plus three for each record that was queued then or has been accepted since: since a flush is
  acknowledged only when the queue is empty, producers that keep it filled can delay one for as long
  as they go on, and nothing else can. Once the processor has been shut down nothing is accepted any
  more, and the worker exits within three moves for each queued record and five more. Until it exits
  it can always move, and when it has exited every flush has been answered.
\<close>

theorem bsp_progress:
  assumes "reachable bsp_ops (bsp_start resource opts mr mt grouped diag) w" "worked bsp_ops w m w'"
  shows "((target, n) \<in> set (w_flushes w) \<and> ForceFlush_result (Some target) (w_proc w') \<noteq> Completed \<longrightarrow>
      m \<le> 3 * (length (m_queue (w_proc w)) + (length (w_accepted w') - length (w_accepted w))) + 5) \<and>
    (m_shutdown (w_proc w) \<longrightarrow> w_accepted w' = w_accepted w \<and>
      (w_pc w' \<noteq> Exited \<longrightarrow> m \<le> 3 * length (m_queue (w_proc w)) + 5)) \<and>
    (w_pc w' \<noteq> Exited \<longrightarrow> (\<exists>w''. worker_move bsp_ops w' w'')) \<and>
    (w_pc w' = Exited \<and> (target, n) \<in> set (w_flushes w) \<longrightarrow>
      ForceFlush_result (Some target) (w_proc w') = Completed)"
proof -
  note I = bsp_reachable_inv [OF assms(1)] bsp_reachable_newer [OF assms(1)]
  have answered: "ForceFlush_result (Some target) (w_proc v) = Completed \<longleftrightarrow> flush_completed bsp_ops v target" for v
    by (simp add: ForceFlush_result_def flush_completed_def bsp_ops_def)
  have q: "op_queue bsp_ops p = m_queue p" "op_is_shutdown bsp_ops p = m_shutdown p" for p
    by (simp_all add: bsp_ops_def)
  have "m \<le> 3 * (length (m_queue (w_proc w)) + (length (w_accepted w') - length (w_accepted w))) + 5"
    if "(target, n) \<in> set (w_flushes w)" "\<not> flush_completed bsp_ops w' target"
  proof -
    let ?E = "effort (\<lambda>_ pending. target \<le> pending) bsp_ops"
    have "m + ?E w' + 3 * length (w_accepted w) \<le> ?E w + 3 * length (w_accepted w')"
      "length (w_accepted w) \<le> length (w_accepted w')"
      using bsp.worked_flush [OF assms(2) I that(1)] that(2) by simp_all
    then show ?thesis
      using effort_bound [of "\<lambda>_ pending. target \<le> pending" bsp_ops w, unfolded q] by arith
  qed
  moreover have "w_accepted w' = w_accepted w \<and> (w_pc w' \<noteq> Exited \<longrightarrow> m \<le> 3 * length (m_queue (w_proc w)) + 5)"
    if "m_shutdown (w_proc w)"
    using bsp.worked_shutdown [OF assms(2) _ I(2)] that effort_bound [of "\<lambda>finished _. finished" bsp_ops w]
    by (auto simp: q)
  moreover have "flush_completed bsp_ops w' target" if "w_pc w' = Exited" "(target, n) \<in> set (w_flushes w)"
    using bsp.worked_flush [OF assms(2) I that(2)] that(1) by (blast intro: bsp.exited_flush)
  ultimately show ?thesis unfolding answered using bsp.not_stuck by blast
qed

lemma pop_fronts_bytes: "bytes_ok p \<Longrightarrow> bytes_ok (snd (pop_fronts count p batch))"
proof (induction count p batch rule: pop_fronts.induct)
  case (2 count p batch)
  then show ?case by (cases "m_queue p") (simp_all add: bytes_ok_pop)
qed simp

lemma pop_fronts_config: "same_config p (snd (pop_fronts count p batch))"
proof (induction count p batch rule: pop_fronts.induct)
  case (2 count p batch)
  then show ?case by (cases "m_queue p") (auto simp: same_config_def)
qed (simp add: same_config_def)

definition within_memory :: "u32 \<Rightarrow> u64 \<Rightarrow> BatchSpanProcessor \<Rightarrow> bool" where
  "within_memory mr mt p \<longleftrightarrow> bytes_ok p \<and> m_max_record_bytes p = mr \<and> m_max_total_queue_bytes p = mt"

lemma within_memory_Enqueue:
  assumes "within_memory mr mt p" "unat mt + unat mr < 2 ^ 64"
    "Enqueue r scope (p, diag) = (acc, p', diag')"
  shows "within_memory mr mt p'"
proof -
  have "config_ok p" "bytes_ok p" using assms(1,2) by (simp_all add: config_ok_def within_memory_def)
  then have "bytes_ok p'" using Enqueue_exact [OF assms(3)] by blast
  then show ?thesis
    using Enqueue_queue(1) [OF assms(3)] assms(1) by (simp add: within_memory_def same_config_def)
qed

lemma within_memory_Collect:
  assumes "within_memory mr mt p" "WaitAndCollect p = (result, p')"
  shows "within_memory mr mt p'"
proof -
  have "p' = snd (pop_fronts (min (length (m_queue p)) (max_export_batch_size (m_opts p))) p [])"
    using assms(2) by (auto simp: WaitAndCollect_def Let_def split: prod.splits)
  then show ?thesis
    using assms(1) pop_fronts_bytes pop_fronts_config
    by (simp add: within_memory_def same_config_def)
qed

lemma within_memory_step:
  assumes "worker_step bsp_ops w w'" "within_memory mr mt (w_proc w)" "unat mt + unat mr < 2 ^ 64"
  shows "within_memory mr mt (w_proc w')"
  using assms
proof (induction rule: worker_step.induct)
  case (ws_enqueue w r)
  obtain rec scope where r: "r = (rec, scope)" by fastforce
  obtain acc p' diag' where e: "Enqueue rec scope (w_proc w, w_sink w) = (acc, p', diag')"
    by (metis surj_pair)
  then have "w_proc (enq_world bsp_ops r w) = p'" by (simp add: enq_world_def bsp_ops_def r)
  with within_memory_Enqueue [OF ws_enqueue e] show ?case by simp
next
  case (ws_worker w w')
  then show ?case
  proof (induction rule: worker_move.induct)
    case (wm_collect w)
    obtain b f n p' where c: "WaitAndCollect (w_proc w) = ((b, f, n), p')" by (metis surj_pair)
    then have "w_proc (collect_world bsp_ops w) = p'" by (simp add: collect_world_def bsp_ops_def)
    with within_memory_Collect [OF _ c] wm_collect show ?case by simp
  qed (auto simp: export_world_def ack_world_def bsp_ops_def acknowledge_flush_def
      within_memory_def bytes_ok_def queued_bytes_def)
qed (auto simp: flush_world_def bsp_ops_def SetOptions_def ForceFlush_request_def
    Shutdown_request_def within_memory_def bytes_ok_def queued_bytes_def)

lemma within_memory_reachable:
  "reachable bsp_ops (bsp_start resource opts mr mt grouped diag) w \<Longrightarrow>
   unat mt + unat mr < 2 ^ 64 \<Longrightarrow> within_memory mr mt (w_proc w)"
proof (induction rule: reachable.induct)
  case reach_init
  then show ?case
    by (simp add: world_init_def BatchSpanProcessor_new_def within_memory_def bytes_ok_def
        queued_bytes_def)
qed (auto intro: within_memory_step)

text \<open>
  C12: the memory bound. Whatever the threads do, options retuned on the way included, the byte
  total is the exact sum of the queued estimates, never wraps around, and stays within
  \<open>max_total_queue_bytes\<close>; and every queued record is within \<open>max_record_bytes\<close>.
\<close>

theorem bsp_memory_bound:
  assumes "reachable bsp_ops (bsp_start resource opts mr mt grouped diag) w"
    "unat mt + unat mr < 2 ^ 64"
  shows "unat (m_queue_bytes (w_proc w)) =
      sum_list (map (\<lambda>x. EstimateRecordBytes (q_record x)) (m_queue (w_proc w))) \<and>
    unat (m_queue_bytes (w_proc w)) \<le> unat mt \<and>
    (\<forall>x \<in> set (m_queue (w_proc w)). EstimateRecordBytes (q_record x) \<le> unat mr)"
proof -
  have W: "within_memory mr mt (w_proc w)" using assms by (rule within_memory_reachable)
  then have est: "\<forall>x \<in> set (m_queue (w_proc w)). unat (q_bytes x) = EstimateRecordBytes (q_record x)"
    by (simp add: within_memory_def bytes_ok_def)
  then have "queued_bytes (w_proc w) =
      sum_list (map (\<lambda>x. EstimateRecordBytes (q_record x)) (m_queue (w_proc w)))"
    unfolding queued_bytes_def by (intro arg_cong [where f = sum_list] map_cong) auto
  with W est show ?thesis by (auto simp: within_memory_def bytes_ok_def)
qed

subsection \<open>A run\<close>

text \<open>One record is accepted, a flush is requested, and the worker drains and acknowledges it; then
  the processor is shut down and the worker exits.\<close>

definition sample_start :: "(BatchSpanProcessor, QueuedSpan, export_call) world" where
  "sample_start = bsp_start (Some 0) BatchOptions_default 1000 10000 False None"

definition sample_flushed :: "(BatchSpanProcessor, QueuedSpan, export_call) world" where
  "sample_flushed =
     (let w1 = enq_world bsp_ops (SpanRecord_default, q_scope sample_item) sample_start;
          w2 = flush_world bsp_ops w1;
          w3 = collect_world bsp_ops w2;
          w4 = export_world bsp_ops [sample_item] False 1 w3
      in ack_world bsp_ops False 1 w4)"

definition sample_exited :: "(BatchSpanProcessor, QueuedSpan, export_call) world" where
  "sample_exited =
     (let w1 = sample_flushed\<lparr>w_proc := snd (op_shutdown bsp_ops (w_proc sample_flushed))\<rparr>;
          w2 = collect_world bsp_ops w1
      in ack_world bsp_ops True 0 w2)"

lemmas sample_run = sample_start_def world_init_def BatchSpanProcessor_new_def BatchOptions_default_def
  sample_item_def EstimateRecordBytes_default enq_world_def flush_world_def collect_world_def
  export_world_def ack_world_def bsp_ops_def Enqueue_def MakeRoomFor.simps ForceFlush_request_def
  Shutdown_request_def WaitAndCollect_eq acknowledge_flush_def

lemma sample_flushed_reachable:
  "reachable bsp_ops (bsp_start (Some 0) BatchOptions_default 1000 10000 False None) sample_flushed"
proof -
  define w1 where "w1 = enq_world bsp_ops (SpanRecord_default, q_scope sample_item) sample_start"
  define w2 where "w2 = flush_world bsp_ops w1"
  define w3 where "w3 = collect_world bsp_ops w2"
  define w4 where "w4 = export_world bsp_ops [sample_item] False 1 w3"
  note run = w1_def w2_def w3_def w4_def
  have "reachable bsp_ops sample_start w1"
    unfolding w1_def by (intro reach_step [OF reach_init] ws_enqueue)
  then have r3: "reachable bsp_ops sample_start w3" unfolding w2_def w3_def
    by (intro reach_step [OF reach_step [OF _ ws_flush] ws_worker [OF wm_collect]])
      (simp_all add: w1_def sample_run)
  have "w_pc w3 = Exporting [sample_item] False 1"
    by (simp add: run sample_run)
  then have "reachable bsp_ops sample_start w4"
    unfolding w4_def by (intro reach_step [OF r3] ws_worker wm_export)
  moreover have "w_pc w4 = Acking False 1" by (simp add: w4_def export_world_def)
  ultimately have "reachable bsp_ops sample_start (ack_world bsp_ops False 1 w4)"
    by (intro reach_step [OF _ ws_worker [OF wm_ack]])
  then show ?thesis by (simp add: sample_flushed_def sample_start_def run Let_def)
qed

lemma sample_flushed_facts:
  "w_flushes sample_flushed = [(1, 1)]" "m_flush_done_seq (w_proc sample_flushed) = 1"
  "w_pc sample_flushed = Waiting" "m_queue (w_proc sample_flushed) = []"
  "m_opts (w_proc sample_flushed) = BatchOptions_default" "w_accepted sample_flushed = [sample_item]"
  "w_gone sample_flushed = [(Exported, sample_item)]" "\<not> m_shutdown (w_proc sample_flushed)"
  "m_flush_seq (w_proc sample_flushed) = 1"
  by (simp_all add: sample_flushed_def sample_run Let_def)

theorem bsp_conservation_witness:
  "w_accepted sample_flushed = [sample_item] \<and> records_with Exported sample_flushed = [sample_item] \<and>
   w_calls sample_flushed = concat (map (ExportBatch (w_proc sample_flushed)) (w_batches sample_flushed))"
  using bsp_conservation [OF sample_flushed_reachable]
  by (simp add: sample_flushed_facts records_with_def)

definition sample_queued :: "(BatchSpanProcessor, QueuedSpan, export_call) world" where
  "sample_queued = enq_world bsp_ops (SpanRecord_default, q_scope sample_item) sample_start"

lemma sample_queued_reachable:
  "reachable bsp_ops (bsp_start (Some 0) BatchOptions_default 1000 10000 False None) sample_queued"
  unfolding sample_queued_def sample_start_def by (intro reach_step [OF reach_init] ws_enqueue)

lemma sample_queued_facts:
  "fst (ForceFlush_request (w_proc sample_queued)) = Some 1" "w_accepted sample_queued = [sample_item]"
  "w_batches sample_queued = []" "in_flight sample_queued = []" "m_queue (w_proc sample_queued) = [sample_item]"
  by (simp_all add: sample_queued_def sample_run Let_def in_flight_def)

lemma sample_flush_run: "(newest_step bsp_ops)\<^sup>*\<^sup>* (flush_world bsp_ops sample_queued) sample_flushed"
proof -
  define w2 where "w2 = flush_world bsp_ops sample_queued"
  define w3 where "w3 = collect_world bsp_ops w2"
  define w4 where "w4 = export_world bsp_ops [sample_item] False 1 w3"
  note run = sample_queued_def w2_def w3_def w4_def
  have pcs: "w_pc w2 = Waiting" "w_pc w3 = Exporting [sample_item] False 1" "w_pc w4 = Acking False 1"
    by (simp_all add: run sample_run)
  have new: "drop_policy (op_options bsp_ops (w_proc w2)) = DropNewest"
    "drop_policy (op_options bsp_ops (w_proc w3)) = DropNewest"
    "drop_policy (op_options bsp_ops (w_proc w4)) = DropNewest" by (simp_all add: run sample_run)
  have "newest_step bsp_ops w2 w3" "newest_step bsp_ops w3 w4" "newest_step bsp_ops w4 (ack_world bsp_ops False 1 w4)"
    using new ws_worker [OF wm_collect [OF pcs(1), of bsp_ops], folded w3_def]
      ws_worker [OF wm_export [OF pcs(2), of bsp_ops], folded w4_def] ws_worker [OF wm_ack [OF pcs(3), of bsp_ops]]
    unfolding newest_step_def by blast+
  moreover have "sample_flushed = ack_world bsp_ops False 1 w4"
    by (simp add: sample_flushed_def run Let_def)
  ultimately show ?thesis unfolding w2_def [symmetric]
    by (metis converse_rtranclp_into_rtranclp rtranclp.rtrancl_refl)
qed

theorem force_flush_delivers_witness:
  "map snd (take 1 (w_gone sample_flushed)) = [sample_item] \<and>
   (\<exists>later. concat (w_batches sample_flushed) = sample_item # later)"
proof -
  have "(worker_step bsp_ops)\<^sup>*\<^sup>* (flush_world bsp_ops sample_queued) sample_flushed"
    using sample_flush_run by (rule rtranclp_mono [THEN predicate2D, rotated]) (auto simp: newest_step_def)
  from force_flush_delivers [OF sample_queued_reachable sample_queued_facts(1) this] sample_flush_run
  show ?thesis by (simp add: sample_queued_facts sample_flushed_facts ForceFlush_result_def)
qed

lemma sample_exited_reachable:
  "reachable bsp_ops (bsp_start (Some 0) BatchOptions_default 1000 10000 False None) sample_exited"
proof -
  define w1 where "w1 = sample_flushed\<lparr>w_proc := snd (op_shutdown bsp_ops (w_proc sample_flushed))\<rparr>"
  define w2 where "w2 = collect_world bsp_ops w1"
  have pc: "w_pc w1 = Waiting" by (simp add: w1_def sample_flushed_facts)
  have "w_pc w2 = Acking True 0"
    using sample_flushed_facts
    by (simp add: w2_def w1_def collect_world_def bsp_ops_def Shutdown_request_def WaitAndCollect_eq)
  moreover have "reachable bsp_ops (bsp_start (Some 0) BatchOptions_default 1000 10000 False None) w2"
    unfolding w2_def using pc
    by (intro reach_step [OF reach_step [OF sample_flushed_reachable ws_shutdown, folded w1_def]
          ws_worker [OF wm_collect]])
  ultimately show ?thesis
    unfolding sample_exited_def Let_def w1_def [symmetric] w2_def [symmetric]
    by (intro reach_step [OF _ ws_worker [OF wm_ack]])
qed

theorem shutdown_delivers_witness: "m_queue (w_proc sample_exited) = []"
  using shutdown_delivers [OF sample_exited_reachable]
  by (simp add: sample_exited_def ack_world_def Let_def)

theorem bsp_progress_witness:
  "\<exists>w'. worked bsp_ops (flush_world bsp_ops sample_queued) 2 w' \<and>
     ForceFlush_result (Some 1) (w_proc w') \<noteq> Completed \<and>
     2 \<le> 3 * (length (m_queue (w_proc (flush_world bsp_ops sample_queued))) +
       (length (w_accepted w') - length (w_accepted (flush_world bsp_ops sample_queued)))) + 5 \<and>
     (\<exists>w''. worker_move bsp_ops w' w'')"
proof -
  define w2 where "w2 = flush_world bsp_ops sample_queued"
  define w3 where "w3 = collect_world bsp_ops w2"
  define w4 where "w4 = export_world bsp_ops [sample_item] False 1 w3"
  note run = sample_queued_def w2_def w3_def w4_def
  have pcs: "w_pc w2 = Waiting" "w_pc w3 = Exporting [sample_item] False 1" "w_pc w4 = Acking False 1"
    and positive: "0 < max_export_batch_size (op_options bsp_ops (w_proc w2))"
      "0 < max_export_batch_size (op_options bsp_ops (w_proc w3))"
    and no: "ForceFlush_result (Some 1) (w_proc w4) \<noteq> Completed" "(1, 1) \<in> set (w_flushes w2)"
    by (simp_all add: run sample_run ForceFlush_result_def)
  have "worked bsp_ops w2 (Suc (Suc 0)) w4"
    using worked_move [OF worked_move [OF worked_0 wm_collect [OF pcs(1)] positive(1), folded w3_def]
        wm_export [OF pcs(2)] positive(2), folded w4_def] .
  then have two: "worked bsp_ops w2 2 w4" by (simp add: numeral_2_eq_2)
  have "reachable bsp_ops (bsp_start (Some 0) BatchOptions_default 1000 10000 False None) w2"
    unfolding w2_def using sample_queued_reachable by (rule reach_step) (rule ws_flush)
  from bsp_progress [OF this two, of 1 1] no two pcs(3) show ?thesis
    unfolding w2_def [symmetric] by auto
qed

theorem bsp_memory_bound_witness: "unat (m_queue_bytes (w_proc sample_flushed)) \<le> 10000"
  using bsp_memory_bound [OF sample_flushed_reachable] by simp

end
