(* ===== verification/Leaf_Receiver.thy ===== *)
theory Leaf_Receiver
  imports Leaf_Options Batch_Span_Processor Sampler
begin

text \<open>
  The concentrator's receiver (\<open>src/sdk/leaf_receiver.cpp\<close>): \<open>Ingest\<close> with everything it calls. The
  OTLP decoder, the resolver of the application and the two clocks are inputs of each call; a
  decoder or resolver that runs out of memory is an outcome of theirs, and where else an allocation
  fails, with what it leaves behind, is an input too. A \<open>shared_ptr<const Resource>\<close> is an address in a store of resources that only grows.
  Counters are 64-bit words. The span counts of one result are natural numbers: the decoder is
  asked to refuse more than a 32-bit number of spans. The log output is left out.

  The model runs one call at a time; that the table operations of concurrent calls may interleave
  is covered in \<open>Leaf_Table\<close>.

  Proved here: how every payload and every span is accounted for on each path, also when memory gives
  out after some spans have been handed over.
\<close>

section \<open>Requests, results and payloads\<close>

datatype IngestStatus =
    IS_Accepted | IS_PartiallyAccepted | IS_Malformed | IS_TooLarge | IS_UnknownLeaf | IS_ShutDown
  | IS_Disabled | IS_OutOfMemory

record IngestRequest =
  rq_leaf_id :: string
  rq_payload :: string
  rq_received_at :: "int option"

record IngestResult =
  ir_status :: IngestStatus
  ir_spans_accepted :: nat
  ir_spans_sampled_out :: nat
  ir_spans_dropped :: nat

record DecodedScopeSpans =
  ds_scope :: InstrumentationScope
  ds_spans :: "SpanRecord list"

record DecodedResourceSpans =
  dr_resource :: Resource
  dr_scopes :: "DecodedScopeSpans list"
  dr_dropped_span_attributes :: u64
  dr_dropped_resource_attributes :: u64

record DecodeLimits =
  dl_max_spans :: u32
  dl_max_depth :: nat
  dl_max_arena_bytes :: nat

datatype DecodeFailure = DF_Malformed | DF_TooLarge

datatype decode_outcome =
    Decoded "DecodedResourceSpans list"
  | Decode_Failed DecodeFailure
  | Decode_Threw

datatype resolver_outcome =
    Answered "LeafConfig option"
  | Resolver_Threw
  | Resolver_OutOfMemory

record Payload =
  pl_decoded :: "DecodedResourceSpans list"
  pl_modes :: "LeafTimeMode list"
  pl_leaf_id :: string
  pl_settings :: LeafSettings
  pl_received :: int
  pl_now :: int

record Counters =
  c_payloads_accepted :: u64
  c_payloads_rejected :: u64
  c_leaf_reported_drops :: u64
  c_payloads_out_of_memory :: u64
  c_resource_attributes_dropped :: u64
  c_leaf_id_conflicts :: u64
  c_time_fallbacks :: u64
  c_payloads_post_shutdown :: u64

record SdkLeafReceiver =
  r_options :: LeafReceiverOptions
  r_leaves :: "string \<rightharpoonup> LeafConfig"
  r_table :: LeafTable
  r_unknown :: UnknownLeafCache
  r_counters :: Counters
  r_shut_down :: bool
  r_store :: "Resource list"

text \<open>
  Memory may give out inside \<open>Admit\<close>, inside \<open>Identify\<close> and, for each \<open>ResourceSpans\<close> of the payload,
  while its correction and Resource are made; handing its spans over is \<open>noexcept\<close>. \<open>ie_interrupt\<close> says
  where, and what the interrupted call has left of the state it writes: the leaf table, the cache of
  refusals, the Resources and the count of dropped Resource attributes.
\<close>

datatype alloc_point = In_Admit | In_Identify | In_Enqueue nat

record leftovers =
  lo_table :: LeafTable
  lo_unknown :: UnknownLeafCache
  lo_store :: "Resource list"
  lo_attributes_dropped :: u64

definition interrupted :: "leftovers \<Rightarrow> SdkLeafReceiver \<Rightarrow> SdkLeafReceiver" where
  "interrupted lo r = r\<lparr>r_table := lo_table lo, r_unknown := lo_unknown lo, r_store := lo_store lo,
     r_counters := (r_counters r)\<lparr>c_resource_attributes_dropped := lo_attributes_dropped lo\<rparr>\<rparr>"

record ingest_env =
  ie_decode :: "string \<Rightarrow> DecodeLimits \<Rightarrow> decode_outcome"
  ie_resolver :: "(string \<Rightarrow> resolver_outcome) option"
  ie_system_now :: int
  ie_steady_now :: int
  ie_interrupt :: "alloc_point \<Rightarrow> (SdkLeafReceiver \<Rightarrow> leftovers) option"

text \<open>
  What the receiver borrows: the sampler, the span limits, and the processor, which is asked through
  \<open>Enqueue\<close> when it is the batch processor and through \<open>OnEnd\<close> otherwise.
\<close>

record 'p LeafReceiverDeps =
  d_sampler :: sampler
  d_processor :: "'p on_end"
  d_batch_processor :: "(SpanRecord \<Rightarrow> InstrumentationScope \<Rightarrow> 'p \<times> sink \<Rightarrow> bool \<times> 'p \<times> sink) option"
  d_span_limits :: SpanLimitOptions

text \<open>A step that may refuse the payload with a result, or throw.\<close>

datatype 'a attempt = Got 'a | Refused IngestResult | Threw

section \<open>Pure helpers\<close>

definition kDecodeMaxDepth :: nat where "kDecodeMaxDepth = 16"
definition kArenaFactor :: nat where "kArenaFactor = 16"
definition kArenaFloor :: nat where "kArenaFloor = 16 * 1024"
definition kUnknownLeafCacheSize :: nat where "kUnknownLeafCacheSize = 256"

text \<open>In nanoseconds.\<close>

definition kUnknownLeafTtl :: int where "kUnknownLeafTtl = 60 * 1000000000"

definition StringValue :: "Resource \<Rightarrow> string \<Rightarrow> string option" where
  "StringValue attrs k =
     (case find (\<lambda>kv. kv_key kv = k) attrs of
        None \<Rightarrow> None
      | Some kv \<Rightarrow> (case kv_value kv of AV_string s \<Rightarrow> Some s | _ \<Rightarrow> None))"

definition Declares :: "Resource \<Rightarrow> string \<Rightarrow> bool" where
  "Declares attrs k \<longleftrightarrow> find (\<lambda>kv. kv_key kv = k) attrs \<noteq> None"

definition span_invalid :: "SpanRecord \<Rightarrow> bool" where
  "span_invalid s \<longleftrightarrow> \<not> TraceId_IsValid (trace_id (rec_context s)) \<or>
     \<not> SpanId_IsValid (span_id (rec_context s)) \<or> rec_end_time s < rec_start_time s"

definition SpansValid :: "DecodedResourceSpans \<Rightarrow> bool" where
  "SpansValid rs = list_all (\<lambda>sc. \<not> list_ex span_invalid (ds_spans sc)) (dr_scopes rs)"

definition NonNegative :: "u64 option \<Rightarrow> u64" where
  "NonNegative v = (case v of Some w \<Rightarrow> if sint w > 0 then w else 0 | None \<Rightarrow> 0)"

definition reported_drops :: "LeafWireInfo \<Rightarrow> u64" where
  "reported_drops info = NonNegative (wi_dropped_spans info) + NonNegative (wi_dropped_items info)"

definition CarriesSpansOrDrops :: "DecodedResourceSpans list \<Rightarrow> bool" where
  "CarriesSpansOrDrops decoded =
     list_ex (\<lambda>rs. reported_drops (ReadWireInfo (dr_resource rs)) > 0 \<or>
                   list_ex (\<lambda>sc. ds_spans sc \<noteq> []) (dr_scopes rs)) decoded"

definition SaturatingNs :: "int \<Rightarrow> int" where
  "SaturatingNs d =
     (let kMaxSeconds = kMax div 1000000000
      in max (- kMaxSeconds) (min kMaxSeconds d) * 1000000000)"

definition SdkLeafReceiver_new :: "LeafReceiverOptions \<Rightarrow> SdkLeafReceiver" where
  "SdkLeafReceiver_new options =
     \<lparr>r_options = options,
      r_leaves = foldl (\<lambda>m (leaf_id, config). m(leaf_id \<mapsto> config)) Map.empty (o_leaves options),
      r_table = LeafTable_new (unat (o_max_leaves options)) (SaturatingNs (o_leaf_idle_timeout options)),
      r_unknown = UnknownLeafCache_new kUnknownLeafCacheSize kUnknownLeafTtl,
      r_counters = \<lparr>c_payloads_accepted = 0, c_payloads_rejected = 0, c_leaf_reported_drops = 0,
        c_payloads_out_of_memory = 0, c_resource_attributes_dropped = 0, c_leaf_id_conflicts = 0,
        c_time_fallbacks = 0, c_payloads_post_shutdown = 0\<rparr>,
      r_shut_down = False, r_store = []\<rparr>"

definition count :: "(Counters \<Rightarrow> Counters) \<Rightarrow> SdkLeafReceiver \<Rightarrow> SdkLeafReceiver" where
  "count f r = r\<lparr>r_counters := f (r_counters r)\<rparr>"

definition result_of :: "IngestStatus \<Rightarrow> IngestResult" where
  "result_of status =
     \<lparr>ir_status = status, ir_spans_accepted = 0, ir_spans_sampled_out = 0, ir_spans_dropped = 0\<rparr>"

definition lr_Reject ::
    "IngestStatus \<Rightarrow> DropReason \<Rightarrow> SdkLeafReceiver \<times> sink \<Rightarrow> 'a attempt \<times> SdkLeafReceiver \<times> sink" where
  "lr_Reject status reason = (\<lambda>(r, diag).
     (Refused (result_of status), count (c_payloads_rejected_update (\<lambda>n. n + 1)) r,
      count_drop reason 1 diag))"

section \<open>Settings\<close>

definition EffectiveMode :: "LeafReceiverOptions \<Rightarrow> LeafSettings \<Rightarrow> LeafTimeMode option" where
  "EffectiveMode options settings =
     (if ls_time_mode settings \<noteq> None then ls_time_mode settings else o_default_time_mode options)"

definition BudgetFor :: "LeafReceiverOptions \<Rightarrow> LeafSettings \<Rightarrow> nat" where
  "BudgetFor options settings =
     (if EffectiveMode options settings = Some Unix_mode then unat (o_max_node_resource_bytes options)
      else unat (o_max_leaf_resource_bytes options))"

text \<open>\<open>AskResolver\<close>: \<open>None\<close> is the exception that propagates.\<close>

definition AskResolver :: "ingest_env \<Rightarrow> string \<Rightarrow> LeafConfig option option" where
  "AskResolver env leaf_id =
     (case ie_resolver env of
        None \<Rightarrow> Some None
      | Some ask \<Rightarrow>
          (case ask leaf_id of
             Answered answer \<Rightarrow> Some answer
           | Resolver_Threw \<Rightarrow> Some None
           | Resolver_OutOfMemory \<Rightarrow> None))"

definition ResolveSettings ::
    "ingest_env \<Rightarrow> string \<Rightarrow> SdkLeafReceiver \<Rightarrow> LeafSettings option \<times> SdkLeafReceiver" where
  "ResolveSettings env leaf_id r =
     (let settings = (case r_leaves r leaf_id of
            Some config \<Rightarrow> \<lparr>ls_configured = True, ls_time_mode = lc_time_mode config, ls_resource = lc_resource config\<rparr>
          | None \<Rightarrow> \<lparr>ls_configured = False, ls_time_mode = None, ls_resource = []\<rparr>)
      in (case AskResolver env leaf_id of
            None \<Rightarrow> (None, r)
          | Some None \<Rightarrow> (Some settings, r)
          | Some (Some answer) \<Rightarrow>
              let settings1 = settings\<lparr>ls_configured := True,
                    ls_time_mode := (if lc_time_mode answer \<noteq> None then lc_time_mode answer
                                     else ls_time_mode settings)\<rparr>;
                  (dropped, merged) = MergeResolverResource (ls_resource settings1) (lc_resource answer)
                    \<lparr>ly_defaults = o_leaf_defaults_resource (r_options r), ly_declared = [], ly_configured = [],
                     ly_id_key = o_leaf_id_attribute (r_options r), ly_leaf_id = leaf_id,
                     ly_budget = BudgetFor (r_options r) settings1\<rparr>
              in (Some (settings1\<lparr>ls_resource := merged\<rparr>),
                  count (c_resource_attributes_dropped_update (\<lambda>n. n + of_nat dropped)) r)))"

definition SettingsFor ::
    "ingest_env \<Rightarrow> string \<Rightarrow> int \<Rightarrow> SdkLeafReceiver \<Rightarrow> LeafSettings option attempt \<times> SdkLeafReceiver" where
  "SettingsFor env leaf_id now r =
     (let (cached, t1) = Settings leaf_id now (r_table r);
          r1 = r\<lparr>r_table := t1\<rparr>;
          rejects = (o_unknown_leaf (r_options r) = Reject)
      in case cached of
           Some s \<Rightarrow> (Got (Some s), r1)
         | None \<Rightarrow>
             let (refused, u2) = (if rejects then uc_Contains leaf_id now (r_unknown r1) else (False, r_unknown r1));
                 r2 = r1\<lparr>r_unknown := u2\<rparr>
             in if refused then (Got None, r2)
                else
                  (case ResolveSettings env leaf_id r2 of
                     (None, r3) \<Rightarrow> (Threw, r3)
                   | (Some fresh, r3) \<Rightarrow>
                       if rejects \<and> \<not> ls_configured fresh
                       then (Got None, r3\<lparr>r_unknown := uc_Insert leaf_id now (r_unknown r3)\<rparr>)
                       else
                         let (kept, t4) = AdoptSettings leaf_id (Some fresh) now (r_table r3)
                         in (Got kept, r3\<lparr>r_table := t4\<rparr>)))"

section \<open>Admission\<close>

definition RefusedBeforeDecode ::
    "ingest_env \<Rightarrow> IngestRequest \<Rightarrow> int \<Rightarrow> SdkLeafReceiver \<Rightarrow> bool \<times> SdkLeafReceiver" where
  "RefusedBeforeDecode env request now r =
     (if rq_leaf_id request = [] \<or> o_unknown_leaf (r_options r) \<noteq> Reject \<or>
         r_leaves r (rq_leaf_id request) \<noteq> None
      then (False, r)
      else if ie_resolver env = None then (True, r)
      else let (hit, u) = uc_Contains (rq_leaf_id request) now (r_unknown r)
           in (hit, r\<lparr>r_unknown := u\<rparr>))"

fun declared_modes :: "DecodedResourceSpans list \<Rightarrow> LeafTimeMode list" where
  "declared_modes [] = []"
| "declared_modes (rs # rest) =
     (case CheckWireInfo (ReadWireInfo (dr_resource rs)) of
        None \<Rightarrow> []
      | Some mode \<Rightarrow> if \<not> SpansValid rs then [] else mode # declared_modes rest)"

definition decode_limits :: "LeafReceiverOptions \<Rightarrow> DecodeLimits" where
  "decode_limits options =
     \<lparr>dl_max_spans = o_max_spans_per_payload options, dl_max_depth = kDecodeMaxDepth,
      dl_max_arena_bytes = kArenaFactor * unat (o_max_payload_bytes options) + kArenaFloor\<rparr>"

definition lr_Admit ::
    "ingest_env \<Rightarrow> IngestRequest \<Rightarrow> int \<Rightarrow> SdkLeafReceiver \<times> sink \<Rightarrow>
     (DecodedResourceSpans list \<times> LeafTimeMode list) attempt \<times> SdkLeafReceiver \<times> sink" where
  "lr_Admit env request now = (\<lambda>(r, diag).
     if length (rq_payload request) > unat (o_max_payload_bytes (r_options r))
     then lr_Reject IS_TooLarge LeafPayloadTooLarge (r, diag)
     else if length (rq_leaf_id request) > kMaxLeafIdBytes
     then lr_Reject IS_Malformed LeafPayloadMalformed (r, diag)
     else
       let (refused, r1) = RefusedBeforeDecode env request now r
       in if refused then lr_Reject IS_UnknownLeaf LeafUnknown (r1, diag)
          else
            (case ie_decode env (rq_payload request) (decode_limits (r_options r1)) of
               Decode_Threw \<Rightarrow> (Threw, r1, diag)
             | Decode_Failed failure \<Rightarrow>
                 if failure = DF_TooLarge then lr_Reject IS_TooLarge LeafPayloadTooLarge (r1, diag)
                 else lr_Reject IS_Malformed LeafPayloadMalformed (r1, diag)
             | Decoded decoded \<Rightarrow>
                 let modes = declared_modes decoded
                 in if decoded = [] \<or> length modes \<noteq> length decoded \<or> \<not> CarriesSpansOrDrops decoded
                    then lr_Reject IS_Malformed LeafPayloadMalformed (r1, diag)
                    else (Got (decoded, modes), r1, diag)))"

fun first_declared_id :: "string \<Rightarrow> DecodedResourceSpans list \<Rightarrow> string" where
  "first_declared_id id_key [] = []"
| "first_declared_id id_key (rs # rest) =
     (case StringValue (dr_resource rs) id_key of Some s \<Rightarrow> s | None \<Rightarrow> first_declared_id id_key rest)"

definition SettleLeafId :: "LeafReceiverOptions \<Rightarrow> IngestRequest \<Rightarrow> DecodedResourceSpans list \<Rightarrow> string" where
  "SettleLeafId options request decoded =
     (if rq_leaf_id request \<noteq> [] then rq_leaf_id request
      else if o_leaf_id_attribute options = [] then []
      else first_declared_id (o_leaf_id_attribute options) decoded)"

definition ModesAllowed :: "LeafReceiverOptions \<Rightarrow> LeafSettings \<Rightarrow> LeafTimeMode list \<Rightarrow> bool" where
  "ModesAllowed options settings modes =
     list_all (\<lambda>mode. TimeModeAllowed mode (EffectiveMode options settings)) modes"

definition CountIdConflict ::
    "IngestRequest \<Rightarrow> string \<Rightarrow> DecodedResourceSpans list \<Rightarrow> SdkLeafReceiver \<Rightarrow> SdkLeafReceiver" where
  "CountIdConflict request leaf_id decoded r =
     (let id_key = o_leaf_id_attribute (r_options r)
      in if rq_leaf_id request = [] \<or> id_key = [] then r
         else if list_ex (\<lambda>rs. Declares (dr_resource rs) id_key \<and>
                (StringValue (dr_resource rs) id_key = None \<or>
                 StringValue (dr_resource rs) id_key \<noteq> Some leaf_id)) decoded
         then count (c_leaf_id_conflicts_update (\<lambda>n. n + 1)) r
         else r)"

definition Identify ::
    "ingest_env \<Rightarrow> IngestRequest \<Rightarrow> int \<Rightarrow> DecodedResourceSpans list \<times> LeafTimeMode list \<Rightarrow>
     SdkLeafReceiver \<times> sink \<Rightarrow> (string \<times> LeafSettings) attempt \<times> SdkLeafReceiver \<times> sink" where
  "Identify env request now = (\<lambda>(decoded, modes) (r, diag).
     let leaf_id = SettleLeafId (r_options r) request decoded
     in if leaf_id = [] \<or> length leaf_id > kMaxLeafIdBytes
        then lr_Reject IS_Malformed LeafPayloadMalformed (r, diag)
        else
          (case SettingsFor env leaf_id now r of
             (Threw, r1) \<Rightarrow> (Threw, r1, diag)
           | (Refused res, r1) \<Rightarrow> (Refused res, r1, diag)
           | (Got None, r1) \<Rightarrow> lr_Reject IS_UnknownLeaf LeafUnknown (r1, diag)
           | (Got (Some settings), r1) \<Rightarrow>
               if \<not> ModesAllowed (r_options r1) settings modes
               then lr_Reject IS_Malformed LeafPayloadMalformed (r1, diag)
               else (Got (leaf_id, settings), CountIdConflict request leaf_id decoded r1, diag)))"

text \<open>A step that memory may give out in, before it has refused anything.\<close>

definition interruptible ::
    "ingest_env \<Rightarrow> alloc_point \<Rightarrow> (SdkLeafReceiver \<times> sink \<Rightarrow> 'a attempt \<times> SdkLeafReceiver \<times> sink) \<Rightarrow>
     SdkLeafReceiver \<times> sink \<Rightarrow> 'a attempt \<times> SdkLeafReceiver \<times> sink" where
  "interruptible env point step = (\<lambda>(r, diag).
     case ie_interrupt env point of
       Some left \<Rightarrow> (Threw, interrupted (left r) r, diag)
     | None \<Rightarrow> step (r, diag))"

section \<open>Spans\<close>

definition ResourceFor ::
    "Payload \<Rightarrow> Resource \<Rightarrow> SdkLeafReceiver \<Rightarrow> resource_ptr option \<times> SdkLeafReceiver" where
  "ResourceFor payload declared r =
     (let hash = HashDeclaredResource declared;
          (cached, t1) = lt_Find (pl_leaf_id payload) hash (pl_now payload) (r_table r);
          r1 = r\<lparr>r_table := t1\<rparr>
      in case cached of
           Some p \<Rightarrow> (Some p, r1)
         | None \<Rightarrow>
             let resolved = ResolveLeafResource
                   \<lparr>ly_defaults = o_leaf_defaults_resource (r_options r), ly_declared = declared,
                    ly_configured = ls_resource (pl_settings payload),
                    ly_id_key = o_leaf_id_attribute (r_options r), ly_leaf_id = pl_leaf_id payload,
                    ly_budget = BudgetFor (r_options r) (pl_settings payload)\<rparr>;
                 r2 = count (c_resource_attributes_dropped_update
                        (\<lambda>n. n + of_nat (rl_attributes_dropped resolved))) r1;
                 fresh = length (r_store r2);
                 r3 = r2\<lparr>r_store := r_store r2 @ [rl_resource resolved]\<rparr>;
                 (kept, t4) = lt_Insert (pl_leaf_id payload) hash (Some fresh) (pl_now payload) (r_table r3)
             in (kept, r3\<lparr>r_table := t4\<rparr>))"

definition int64_or_0 :: "u64 option \<Rightarrow> int" where
  "int64_or_0 v = (case v of Some w \<Rightarrow> sint w | None \<Rightarrow> 0)"

definition CorrectionFor ::
    "Payload \<Rightarrow> LeafTimeMode \<Rightarrow> LeafWireInfo \<Rightarrow> bool \<Rightarrow> SdkLeafReceiver \<Rightarrow>
     TimeCorrection \<times> bool \<times> SdkLeafReceiver" where
  "CorrectionFor payload mode info fell_back r =
     (let options = r_options r;
          stamped = ConcentratorStamped (pl_received payload) (map_option sint (wi_encode_time info))
      in case mode of
           Unix_mode \<Rightarrow> (\<lparr>tc_offset = 0, tc_fixed = None\<rparr>, fell_back, r)
         | SyncRelative_mode \<Rightarrow>
             (case SyncRelative (pl_received payload) (int64_or_0 (wi_encode_time info))
                     (int64_or_0 (wi_sync_age info))
                     \<lparr>max_sync_age = SaturatingNs (o_max_sync_age options),
                      max_clock_skew = SaturatingNs (o_max_clock_skew options)\<rparr> of
                Some trusted \<Rightarrow> (trusted, fell_back, r)
              | None \<Rightarrow> (stamped, True, r))
         | BootRelative_mode \<Rightarrow>
             let (b, t1) = UpdateBootAnchor (pl_leaf_id payload)
                   \<lparr>bs_boot_id = int64_or_0 (wi_boot_id info),
                    bs_offset = SaturatingSub (pl_received payload) (int64_or_0 (wi_encode_time info)),
                    bs_at = pl_received payload\<rparr>
                   (SaturatingNs (o_boot_anchor_window options)) (pl_now payload) (r_table r)
             in (\<lparr>tc_offset = b, tc_fixed = None\<rparr>, fell_back, r\<lparr>r_table := t1\<rparr>)
         | ConcentratorStamped_mode \<Rightarrow> (stamped, fell_back, r))"

definition EnqueueSpan ::
    "'p LeafReceiverDeps \<Rightarrow> InstrumentationScope \<Rightarrow> resource_ptr option \<Rightarrow> TimeCorrection \<Rightarrow>
     SpanRecord \<Rightarrow> IngestResult \<times> 'p \<times> sink \<Rightarrow> IngestResult \<times> 'p \<times> sink" where
  "EnqueueSpan deps scope resource correction s0 = (\<lambda>(result, p, diag).
     let s1 = ApplyTimeCorrection correction s0;
         (s2, diag1) = ApplySpanLimits s1 (d_span_limits deps) diag;
         sampling = ShouldSample (d_sampler deps)
           \<lparr>sc_parent = SpanContext_default, sc_span_kind = rec_kind s2, sc_span_name = rec_name s2,
            sc_initial_attributes = rec_attributes s2, sc_links = rec_links s2,
            sc_trace_id = trace_id (rec_context s2)\<rparr>
     in if sr_decision sampling \<noteq> RecordAndSample
        then (result\<lparr>ir_spans_sampled_out := ir_spans_sampled_out result + 1\<rparr>, p, diag1)
        else
          let (attrs, diag2) = AppendAttributes (rec_attributes s2) (sr_additional_attributes sampling)
                (d_span_limits deps) diag1;
              ctx = (rec_context s2)\<lparr>trace_flags := \<lparr>flag_bits = kSampled\<rparr>\<rparr>;
              ctx' = (case sr_trace_state sampling of Some ts \<Rightarrow> ctx\<lparr>trace_state := ts\<rparr> | None \<Rightarrow> ctx);
              s3 = s2\<lparr>rec_attributes := attrs, rec_context := ctx', rec_resource := resource\<rparr>
          in (case d_batch_processor deps of
                None \<Rightarrow>
                  let (_, p', diag3) = d_processor deps s3 scope (p, diag2)
                  in (result\<lparr>ir_spans_accepted := ir_spans_accepted result + 1\<rparr>, p', diag3)
              | Some enqueue \<Rightarrow>
                  let (queued, p', diag3) = enqueue s3 scope (p, diag2)
                  in (if queued then result\<lparr>ir_spans_accepted := ir_spans_accepted result + 1\<rparr>
                      else result\<lparr>ir_spans_dropped := ir_spans_dropped result + 1\<rparr>, p', diag3)))"

definition EnqueueResourceSpans ::
    "'p LeafReceiverDeps \<Rightarrow> resource_ptr option \<Rightarrow> TimeCorrection \<Rightarrow> DecodedResourceSpans \<Rightarrow>
     IngestResult \<times> 'p \<times> sink \<Rightarrow> IngestResult \<times> 'p \<times> sink" where
  "EnqueueResourceSpans deps resource correction rs w =
     foldl (\<lambda>w sc. foldl (\<lambda>w s. EnqueueSpan deps (ds_scope sc) resource correction s w) w (ds_spans sc))
       w (dr_scopes rs)"

text \<open>The loop of \<open>Enqueue\<close> and its body; the boolean says that an exception left it.\<close>

definition enqueue_one ::
    "'p LeafReceiverDeps \<Rightarrow> ingest_env \<Rightarrow> Payload \<Rightarrow> nat \<Rightarrow> DecodedResourceSpans \<Rightarrow> LeafTimeMode \<Rightarrow>
     bool \<times> SdkLeafReceiver \<times> IngestResult \<times> 'p \<times> sink \<Rightarrow>
     bool \<times> bool \<times> SdkLeafReceiver \<times> IngestResult \<times> 'p \<times> sink" where
  "enqueue_one deps env payload i rs mode = (\<lambda>(fell_back, r, result, p, diag).
     let info = ReadWireInfo (dr_resource rs);
         r1 = count (c_leaf_reported_drops_update (\<lambda>n. n + reported_drops info)) r;
         r2 = count (c_resource_attributes_dropped_update (\<lambda>n. n + dr_dropped_resource_attributes rs)) r1;
         diag1 = count_drop SpanAttributeLimit (unat (dr_dropped_span_attributes rs)) diag
     in case ie_interrupt env (In_Enqueue i) of
          Some left \<Rightarrow> (True, fell_back, interrupted (left r2) r2, result, p, diag1)
        | None \<Rightarrow>
            let (correction, fell_back', r3) = CorrectionFor payload mode info fell_back r2;
                (resource, r4) = ResourceFor payload (dr_resource rs) r3
            in (False, fell_back', r4, EnqueueResourceSpans deps resource correction rs (result, p, diag1)))"

fun enqueue_loop ::
    "'p LeafReceiverDeps \<Rightarrow> ingest_env \<Rightarrow> Payload \<Rightarrow> nat \<Rightarrow> (DecodedResourceSpans \<times> LeafTimeMode) list \<Rightarrow>
     bool \<times> SdkLeafReceiver \<times> IngestResult \<times> 'p \<times> sink \<Rightarrow>
     bool \<times> bool \<times> SdkLeafReceiver \<times> IngestResult \<times> 'p \<times> sink" where
  "enqueue_loop deps env payload i [] w = (False, w)"
| "enqueue_loop deps env payload i ((rs, mode) # rest) w =
     (let (threw, w') = enqueue_one deps env payload i rs mode w
      in if threw then (True, w') else enqueue_loop deps env payload (i + 1) rest w')"

definition lr_Enqueue ::
    "'p LeafReceiverDeps \<Rightarrow> ingest_env \<Rightarrow> Payload \<Rightarrow> SdkLeafReceiver \<times> IngestResult \<times> 'p \<times> sink \<Rightarrow>
     bool \<times> SdkLeafReceiver \<times> IngestResult \<times> 'p \<times> sink" where
  "lr_Enqueue deps env payload w =
     (let (threw, fell_back, r, rest) =
            enqueue_loop deps env payload 0 (zip (pl_decoded payload) (pl_modes payload)) (False, w)
      in (threw, if fell_back \<and> \<not> threw then count (c_time_fallbacks_update (\<lambda>n. n + 1)) r else r, rest))"

section \<open>Ingest\<close>

text \<open>\<open>IngestOrThrow\<close>: the boolean says that an exception left it.\<close>

definition IngestOrThrow ::
    "'p LeafReceiverDeps \<Rightarrow> ingest_env \<Rightarrow> IngestRequest \<Rightarrow> SdkLeafReceiver \<times> IngestResult \<times> 'p \<times> sink \<Rightarrow>
     bool \<times> SdkLeafReceiver \<times> IngestResult \<times> 'p \<times> sink" where
  "IngestOrThrow deps env request = (\<lambda>(r, result, p, diag).
     let received = (case rq_received_at request of Some t \<Rightarrow> t | None \<Rightarrow> ie_system_now env);
         now = ie_steady_now env
     in (case interruptible env In_Admit (lr_Admit env request now) (r, diag) of
           (Threw, r1, diag1) \<Rightarrow> (True, r1, result, p, diag1)
         | (Refused res, r1, diag1) \<Rightarrow> (False, r1, res, p, diag1)
         | (Got (decoded, modes), r1, diag1) \<Rightarrow>
             (case interruptible env In_Identify (Identify env request now (decoded, modes)) (r1, diag1) of
                (Threw, r2, diag2) \<Rightarrow> (True, r2, result, p, diag2)
              | (Refused res, r2, diag2) \<Rightarrow> (False, r2, res, p, diag2)
              | (Got (leaf_id, settings), r2, diag2) \<Rightarrow>
                  let (threw, r3, result3, p3, diag3) = lr_Enqueue deps env
                        \<lparr>pl_decoded = decoded, pl_modes = modes, pl_leaf_id = leaf_id, pl_settings = settings,
                         pl_received = received, pl_now = now\<rparr> (r2, result, p, diag2)
                  in if threw then (True, r3, result3, p3, diag3)
                     else (False, count (c_payloads_accepted_update (\<lambda>n. n + 1)) r3,
                       result3\<lparr>ir_status := (if ir_spans_dropped result3 > 0 then IS_PartiallyAccepted
                                             else IS_Accepted)\<rparr>, p3, diag3))))"

definition Ingest ::
    "'p LeafReceiverDeps \<Rightarrow> ingest_env \<Rightarrow> IngestRequest \<Rightarrow> SdkLeafReceiver \<times> 'p \<times> sink \<Rightarrow>
     IngestResult \<times> SdkLeafReceiver \<times> 'p \<times> sink" where
  "Ingest deps env request = (\<lambda>(r, p, diag).
     if r_shut_down r
     then (result_of IS_ShutDown, count (c_payloads_post_shutdown_update (\<lambda>n. n + 1)) r, p, diag)
     else
       (case IngestOrThrow deps env request (r, result_of IS_Accepted, p, diag) of
          (threw, r1, result, p1, diag1) \<Rightarrow>
            if threw
            then (result\<lparr>ir_status := IS_OutOfMemory\<rparr>,
                  count (c_payloads_out_of_memory_update (\<lambda>n. n + 1)) r1, p1, diag1)
            else (result, r1, p1, diag1)))"

record LeafReceiverStats =
  st_payloads_accepted :: u64
  st_payloads_rejected :: u64
  st_leaves_tracked :: nat
  st_leaves_evicted :: nat
  st_leaf_reported_drops :: u64
  st_time_fallbacks :: u64
  st_payloads_out_of_memory :: u64
  st_resource_attributes_dropped :: u64
  st_leaf_id_conflicts :: u64
  st_payloads_post_shutdown :: u64

definition Stats :: "SdkLeafReceiver \<Rightarrow> LeafReceiverStats" where
  "Stats r =
     \<lparr>st_payloads_accepted = c_payloads_accepted (r_counters r),
      st_payloads_rejected = c_payloads_rejected (r_counters r),
      st_leaves_tracked = lt_Size (r_table r), st_leaves_evicted = lt_evicted (r_table r),
      st_leaf_reported_drops = c_leaf_reported_drops (r_counters r),
      st_time_fallbacks = c_time_fallbacks (r_counters r),
      st_payloads_out_of_memory = c_payloads_out_of_memory (r_counters r),
      st_resource_attributes_dropped = c_resource_attributes_dropped (r_counters r),
      st_leaf_id_conflicts = c_leaf_id_conflicts (r_counters r),
      st_payloads_post_shutdown = c_payloads_post_shutdown (r_counters r)\<rparr>"

definition MarkShutDown :: "SdkLeafReceiver \<Rightarrow> SdkLeafReceiver" where
  "MarkShutDown r = r\<lparr>r_shut_down := True\<rparr>"

section \<open>What the steps leave alone\<close>

text \<open>The counters of whole payloads, and the parts of the receiver no step of \<open>Ingest\<close> changes.\<close>

definition tally :: "SdkLeafReceiver \<Rightarrow> u64 \<times> u64 \<times> u64 \<times> u64" where
  "tally r = (c_payloads_accepted (r_counters r), c_payloads_rejected (r_counters r),
     c_payloads_out_of_memory (r_counters r), c_payloads_post_shutdown (r_counters r))"

definition framed :: "SdkLeafReceiver \<Rightarrow> SdkLeafReceiver \<Rightarrow> bool" where
  "framed r r' \<longleftrightarrow> tally r' = tally r \<and> r_options r' = r_options r \<and> r_leaves r' = r_leaves r \<and>
     r_shut_down r' = r_shut_down r"

lemma framed_refl [simp]: "framed r r"
  by (simp add: framed_def)

lemma framed_trans: "framed a b \<Longrightarrow> framed b c \<Longrightarrow> framed a c"
  by (simp add: framed_def)

lemma framed_fields [simp]:
  "framed r (r\<lparr>r_table := t\<rparr>)" "framed r (r\<lparr>r_unknown := u\<rparr>)" "framed r (r\<lparr>r_store := st\<rparr>)"
  by (simp_all add: framed_def tally_def)

lemma framed_count [simp]:
  "framed r (count (c_leaf_reported_drops_update f) r)"
  "framed r (count (c_resource_attributes_dropped_update f) r)"
  "framed r (count (c_leaf_id_conflicts_update f) r)"
  "framed r (count (c_time_fallbacks_update f) r)"
  by (simp_all add: framed_def tally_def count_def)

lemma ResolveSettings_framed: "ResolveSettings env leaf_id r = (out, r') \<Longrightarrow> framed r r'"
  by (auto simp: ResolveSettings_def Let_def split: option.splits prod.splits)

lemma SettingsFor_framed: "SettingsFor env leaf_id now r = (out, r') \<Longrightarrow> framed r r'"
  by (auto simp: SettingsFor_def Let_def split: option.splits prod.splits if_splits
      dest!: ResolveSettings_framed) (auto simp: framed_def tally_def)

lemma SettingsFor_never_refuses: "SettingsFor env leaf_id now r \<noteq> (Refused res, r')"
  by (auto simp: SettingsFor_def Let_def split: option.splits prod.splits if_splits)

lemma RefusedBeforeDecode_framed: "RefusedBeforeDecode env request now r = (out, r') \<Longrightarrow> framed r r'"
  by (auto simp: RefusedBeforeDecode_def split: if_splits prod.splits)

lemma CountIdConflict_framed: "framed r (CountIdConflict request leaf_id decoded r)"
  by (auto simp: CountIdConflict_def Let_def)

lemma ResourceFor_framed: "ResourceFor payload declared r = (out, r') \<Longrightarrow> framed r r'"
  by (auto simp: ResourceFor_def Let_def split: option.splits prod.splits)
     (auto simp: framed_def tally_def count_def)

lemma CorrectionFor_framed: "CorrectionFor payload mode info fb r = (c, fb', r') \<Longrightarrow> framed r r'"
  by (auto simp: CorrectionFor_def Let_def split: LeafTimeMode.splits option.splits prod.splits)

lemma interrupted_framed [simp]: "framed r (interrupted lo r)"
  by (simp add: framed_def tally_def interrupted_def)

lemma enqueue_one_framed: "framed (fst (snd w)) (fst (snd (snd (enqueue_one deps env payload i rs mode w))))"
  by (cases w) (auto simp: enqueue_one_def Let_def split: prod.splits option.splits
      dest!: CorrectionFor_framed ResourceFor_framed, (meson framed_count framed_trans interrupted_framed)+)

lemma enqueue_loop_framed: "framed (fst (snd w)) (fst (snd (snd (enqueue_loop deps env payload i rss w))))"
proof (induction deps env payload i rss w rule: enqueue_loop.induct)
  case (2 deps env payload i rs mode rest w)
  obtain threw w' where one: "enqueue_one deps env payload i rs mode w = (threw, w')" by (metis surj_pair)
  show ?case
    using "2.IH" [OF one [symmetric]] framed_trans enqueue_one_framed [of w deps env payload i rs mode]
    by (cases threw) (auto simp: one)
qed simp

section \<open>Accounting\<close>

definition handled :: "IngestResult \<Rightarrow> nat" where
  "handled res = ir_spans_accepted res + ir_spans_sampled_out res + ir_spans_dropped res"

definition spans_of :: "DecodedResourceSpans list \<Rightarrow> SpanRecord list" where
  "spans_of decoded = concat (map (\<lambda>rs. concat (map ds_spans (dr_scopes rs))) decoded)"

lemma EnqueueSpan_handled:
  "handled (fst (EnqueueSpan deps scope resource c s w)) = handled (fst w) + 1"
  by (cases w) (auto simp: EnqueueSpan_def handled_def Let_def split: option.splits prod.splits)

lemma EnqueueResourceSpans_handled:
  "handled (fst (EnqueueResourceSpans deps resource c rs w)) =
     handled (fst w) + length (concat (map ds_spans (dr_scopes rs)))"
proof -
  have inner: "handled (fst (foldl (\<lambda>w s. EnqueueSpan deps scope resource c s w) w ss)) =
      handled (fst w) + length ss" for scope ss w
    by (induction ss arbitrary: w) (auto simp: EnqueueSpan_handled)
  have "handled (fst (foldl (\<lambda>w sc. foldl (\<lambda>w s. EnqueueSpan deps (ds_scope sc) resource c s w) w (ds_spans sc))
      w scs)) = handled (fst w) + length (concat (map ds_spans scs))" for scs w
    by (induction scs arbitrary: w) (auto simp: inner)
  then show ?thesis by (simp add: EnqueueResourceSpans_def)
qed

lemma enqueue_one_handled:
  assumes "enqueue_one deps env payload i rs mode (fb, r, res, p, diag) = (threw, fb', r', res', p', diag')"
  shows "threw = (ie_interrupt env (In_Enqueue i) \<noteq> None)" "threw \<Longrightarrow> res' = res \<and> p' = p"
    "\<not> threw \<Longrightarrow> handled res' = handled res + length (concat (map ds_spans (dr_scopes rs)))"
  using assms EnqueueResourceSpans_handled [of deps _ _ rs "(res, p, _)"]
  by (auto simp: enqueue_one_def Let_def split: prod.splits option.splits) (metis fst_conv)+

text \<open>
  The loop stops at the first \<open>ResourceSpans\<close> memory gives out for; the ones before it are handled
  in full, that one and the ones after it not at all.
\<close>

lemma enqueue_loop_handled:
  assumes "enqueue_loop deps env payload i rss (fb, r, res, p, diag) = (threw, fb', r', res', p', diag')"
  shows "(\<not> threw \<longrightarrow> handled res' = handled res + length (spans_of (map fst rss)) \<and>
      (\<forall>j < length rss. ie_interrupt env (In_Enqueue (i + j)) = None)) \<and>
    (threw \<longrightarrow> (\<exists>k < length rss. ie_interrupt env (In_Enqueue (i + k)) \<noteq> None \<and>
      (\<forall>j < k. ie_interrupt env (In_Enqueue (i + j)) = None) \<and>
      handled res' = handled res + length (spans_of (map fst (take k rss))) \<and> (k = 0 \<longrightarrow> res' = res \<and> p' = p)))"
  using assms
proof (induction rss arbitrary: i fb r res p diag)
  case (Cons x rss)
  obtain rs mode where x: "x = (rs, mode)" by force
  obtain t1 fb1 r1 res1 p1 diag1 where
    one: "enqueue_one deps env payload i rs mode (fb, r, res, p, diag) = (t1, fb1, r1, res1, p1, diag1)"
    by (metis surj_pair)
  note first = enqueue_one_handled [OF one]
  show ?case
  proof (cases t1)
    case True
    then show ?thesis
      using Cons.prems first by (auto simp: x one spans_of_def intro!: exI [of _ 0])
  next
    case False
    then have rest: "enqueue_loop deps env payload (Suc i) rss (fb1, r1, res1, p1, diag1) =
        (threw, fb', r', res', p', diag')" using Cons.prems by (simp add: x one)
    have h: "handled res1 = handled res + length (concat (map ds_spans (dr_scopes rs)))"
      and free: "ie_interrupt env (In_Enqueue i) = None" using first False by simp_all
    have shift: "(\<forall>j < Suc k. ie_interrupt env (In_Enqueue (i + j)) = None) \<longleftrightarrow>
        (\<forall>j < k. ie_interrupt env (In_Enqueue (Suc i + j)) = None)" for k
      using free by (auto simp: less_Suc_eq_0_disj)
    show ?thesis
    proof (cases threw)
      case True
      with Cons.IH [OF rest] obtain k where "k < length rss" "ie_interrupt env (In_Enqueue (Suc i + k)) \<noteq> None"
        "\<forall>j < k. ie_interrupt env (In_Enqueue (Suc i + j)) = None"
        "handled res' = handled res1 + length (spans_of (map fst (take k rss)))" by blast
      then show ?thesis
        using True h shift [of k] by (auto simp: x spans_of_def intro!: exI [of _ "Suc k"])
    next
      case no: False
      then show ?thesis using Cons.IH [OF rest] h shift [of "length rss"] by (auto simp: x spans_of_def)
    qed
  qed
qed (simp add: spans_of_def)

text \<open>A refusal: one of three statuses, its drop reason counted once and the payload as rejected.\<close>

fun reason_of :: "IngestStatus \<Rightarrow> DropReason option" where
  "reason_of IS_Malformed = Some LeafPayloadMalformed"
| "reason_of IS_TooLarge = Some LeafPayloadTooLarge"
| "reason_of IS_UnknownLeaf = Some LeafUnknown"
| "reason_of _ = None"

definition rejected_once :: "SdkLeafReceiver \<Rightarrow> SdkLeafReceiver \<Rightarrow> bool" where
  "rejected_once r r' \<longleftrightarrow>
     (case (tally r, tally r') of ((a, j, m, s), (a', j', m', s')) \<Rightarrow> a' = a \<and> j' = j + 1 \<and> m' = m \<and> s' = s)"

definition refusal :: "IngestResult \<Rightarrow> SdkLeafReceiver \<times> sink \<Rightarrow> SdkLeafReceiver \<times> sink \<Rightarrow> bool" where
  "refusal res w w' \<longleftrightarrow> res = result_of (ir_status res) \<and>
     (case reason_of (ir_status res) of
        None \<Rightarrow> False
      | Some reason \<Rightarrow> snd w' = count_drop reason 1 (snd w) \<and> rejected_once (fst w) (fst w'))"

lemma refusal_framed: "framed r r1 \<Longrightarrow> refusal res (r1, diag) w \<Longrightarrow> refusal res (r, diag) w"
  by (auto simp: refusal_def rejected_once_def framed_def split: option.splits)

lemma refusal_Reject:
  assumes "lr_Reject status reason (r, diag) = (out, w')" "reason_of status = Some reason"
  shows "\<exists>res. out = Refused res \<and> refusal res (r, diag) w'"
  using assms by (auto simp: lr_Reject_def refusal_def rejected_once_def tally_def count_def result_of_def)

lemma lr_Admit_cases:
  assumes "lr_Admit env request now (r, diag) = (out, r1, diag1)"
  shows "case out of
     Threw \<Rightarrow> framed r r1 \<and> diag1 = diag
   | Refused res \<Rightarrow> refusal res (r, diag) (r1, diag1)
   | Got (decoded, modes) \<Rightarrow> framed r r1 \<and> diag1 = diag \<and> length modes = length decoded \<and>
       modes = declared_modes decoded \<and>
       ie_decode env (rq_payload request) (decode_limits (r_options r)) = Decoded decoded"
proof -
  obtain refused r0 where pre: "RefusedBeforeDecode env request now r = (refused, r0)" by force
  have framed: "framed r r0" by (rule RefusedBeforeDecode_framed [OF pre])
  then have opts: "r_options r0 = r_options r" by (simp add: framed_def)
  show ?thesis
    using assms framed opts
    by (auto simp: lr_Admit_def pre Let_def split: if_splits decode_outcome.splits
        dest!: refusal_Reject intro: refusal_framed [OF framed])
qed

lemma Identify_cases:
  assumes "Identify env request now (decoded, modes) (r, diag) = (out, r1, diag1)"
  shows "case out of
     Threw \<Rightarrow> framed r r1 \<and> diag1 = diag
   | Refused res \<Rightarrow> refusal res (r, diag) (r1, diag1)
   | Got (leaf_id, settings) \<Rightarrow> framed r r1 \<and> diag1 = diag \<and> leaf_id \<noteq> [] \<and>
       length leaf_id \<le> kMaxLeafIdBytes \<and> ModesAllowed (r_options r) settings modes"
proof -
  obtain o1 r0 where q: "SettingsFor env (SettleLeafId (r_options r) request decoded) now r = (o1, r0)" by force
  have framed: "framed r r0" by (rule SettingsFor_framed [OF q])
  then have opts: "r_options r0 = r_options r" by (simp add: framed_def)
  have never: "o1 \<noteq> Refused res" for res using SettingsFor_never_refuses q by metis
  show ?thesis
    using assms framed opts never framed_trans [OF framed CountIdConflict_framed]
    by (auto simp: Identify_def q Let_def split: if_splits attempt.splits option.splits
        dest!: refusal_Reject intro: refusal_framed [OF framed])
qed

lemma lr_Enqueue_spec:
  assumes "lr_Enqueue deps env payload (r, res, p, diag) = (threw, r', res', p', diag')"
    and "length (pl_modes payload) = length (pl_decoded payload)"
  shows "framed r r'"
    "\<not> threw \<Longrightarrow> handled res' = handled res + length (spans_of (pl_decoded payload))"
    "threw \<Longrightarrow> \<exists>k < length (pl_decoded payload). ie_interrupt env (In_Enqueue k) \<noteq> None \<and>
      (\<forall>j < k. ie_interrupt env (In_Enqueue j) = None) \<and>
      handled res' = handled res + length (spans_of (take k (pl_decoded payload))) \<and> (k = 0 \<longrightarrow> res' = res \<and> p' = p)"
proof -
  let ?rss = "zip (pl_decoded payload) (pl_modes payload)"
  obtain fb r1 where loop: "enqueue_loop deps env payload 0 ?rss (False, r, res, p, diag) = (threw, fb, r1, res', p', diag')"
    and r': "r' = (if fb \<and> \<not> threw then count (c_time_fallbacks_update (\<lambda>n. n + 1)) r1 else r1)"
    using assms(1) by (auto simp: lr_Enqueue_def Let_def split: prod.splits)
  have "framed r r1"
    using enqueue_loop_framed [of "(False, r, res, p, diag)" deps env payload 0 ?rss] by (simp add: loop)
  then show "framed r r'" using r' framed_trans framed_count(4) by (metis (full_types))
  note h = enqueue_loop_handled [OF loop]
  show "handled res' = handled res + length (spans_of (pl_decoded payload))" if "\<not> threw"
    using h that assms(2) by simp
  show "\<exists>k < length (pl_decoded payload). ie_interrupt env (In_Enqueue k) \<noteq> None \<and>
      (\<forall>j < k. ie_interrupt env (In_Enqueue j) = None) \<and>
      handled res' = handled res + length (spans_of (take k (pl_decoded payload))) \<and> (k = 0 \<longrightarrow> res' = res \<and> p' = p)"
    if "threw" using h that assms(2) by (auto simp: take_map [symmetric])
qed

lemma interruptible_cases:
  assumes "interruptible env point step (r, diag) = (out, r', diag')"
  obtains (left) "out = Threw" "framed r r'" "diag' = diag" | (whole) "step (r, diag) = (out, r', diag')"
  using assms by (auto simp: interruptible_def split: option.splits)

text \<open>The ways out of \<open>IngestOrThrow\<close>.\<close>

lemma IngestOrThrow_cases:
  assumes "IngestOrThrow deps env request (r, res0, p, diag) = (threw, r', res, p', diag')"
  obtains (threw) "threw" "framed r r'" "res = res0" "p' = p" "diag' = diag"
    | (refused) "\<not> threw" "refusal res (r, diag) (r', diag')" "p' = p"
    | (enqueued) decoded modes leaf_id settings received r1 r2 r3 res3 where
        "lr_Admit env request (ie_steady_now env) (r, diag) = (Got (decoded, modes), r1, diag)"
        "Identify env request (ie_steady_now env) (decoded, modes) (r1, diag) = (Got (leaf_id, settings), r2, diag)"
        "framed r r2" "length modes = length decoded"
        "ie_decode env (rq_payload request) (decode_limits (r_options r)) = Decoded decoded"
        "received = (case rq_received_at request of Some t \<Rightarrow> t | None \<Rightarrow> ie_system_now env)"
        "lr_Enqueue deps env \<lparr>pl_decoded = decoded, pl_modes = modes, pl_leaf_id = leaf_id, pl_settings = settings,
           pl_received = received, pl_now = ie_steady_now env\<rparr> (r2, res0, p, diag) = (threw, r3, res3, p', diag')"
        "r' = (if threw then r3 else count (c_payloads_accepted_update (\<lambda>n. n + 1)) r3)"
        "res = (if threw then res3
           else res3\<lparr>ir_status := (if ir_spans_dropped res3 > 0 then IS_PartiallyAccepted else IS_Accepted)\<rparr>)"
proof -
  obtain o1 r1 diag1 where
    a: "interruptible env In_Admit (lr_Admit env request (ie_steady_now env)) (r, diag) = (o1, r1, diag1)"
    by (metis surj_pair)
  from a have admit: "case o1 of
     Threw \<Rightarrow> framed r r1 \<and> diag1 = diag
   | Refused x \<Rightarrow> refusal x (r, diag) (r1, diag1)
   | Got (decoded, modes) \<Rightarrow> framed r r1 \<and> diag1 = diag \<and> length modes = length decoded \<and>
       ie_decode env (rq_payload request) (decode_limits (r_options r)) = Decoded decoded \<and>
       lr_Admit env request (ie_steady_now env) (r, diag) = (o1, r1, diag1)"
    by (cases rule: interruptible_cases) (auto dest: lr_Admit_cases split: attempt.splits)
  show thesis
  proof (cases o1)
    case Threw
    then show thesis using assms a admit by (intro threw) (auto simp: IngestOrThrow_def Let_def)
  next
    case (Refused x)
    then show thesis using assms a admit by (intro refused) (auto simp: IngestOrThrow_def Let_def)
  next
    case (Got x)
    obtain decoded modes where x: "x = (decoded, modes)" by force
    have framed1: "framed r r1" and diag1: "diag1 = diag" and len: "length modes = length decoded"
      and dec: "ie_decode env (rq_payload request) (decode_limits (r_options r)) = Decoded decoded"
      and adm: "lr_Admit env request (ie_steady_now env) (r, diag) = (Got (decoded, modes), r1, diag)"
      using admit by (auto simp: Got x)
    obtain o2 r2 diag2 where
      b: "interruptible env In_Identify (Identify env request (ie_steady_now env) (decoded, modes)) (r1, diag1) = (o2, r2, diag2)"
      by (metis surj_pair)
    from b have identify: "case o2 of
       Threw \<Rightarrow> framed r r2 \<and> diag2 = diag
     | Refused x \<Rightarrow> refusal x (r, diag) (r2, diag2)
     | Got y \<Rightarrow> framed r r2 \<and> diag2 = diag \<and>
         Identify env request (ie_steady_now env) (decoded, modes) (r1, diag1) = (o2, r2, diag2)"
      by (cases rule: interruptible_cases)
        (use framed_trans [OF framed1] refusal_framed [OF framed1] diag1 in
          \<open>auto dest!: Identify_cases split: attempt.splits\<close>)
    show thesis
    proof (cases o2)
      case Threw
      then show thesis
        using assms a b identify Got x by (intro threw) (auto simp: IngestOrThrow_def Let_def)
    next
      case (Refused y)
      then show thesis
        using assms a b identify Got x by (intro refused) (auto simp: IngestOrThrow_def Let_def)
    next
      case (Got y)
      obtain leaf_id settings where y: "y = (leaf_id, settings)" by force
      let ?pl = "\<lparr>pl_decoded = decoded, pl_modes = modes, pl_leaf_id = leaf_id, pl_settings = settings,
           pl_received = (case rq_received_at request of Some t \<Rightarrow> t | None \<Rightarrow> ie_system_now env),
           pl_now = ie_steady_now env\<rparr>"
      obtain t3 r3 res3 p3 diag3 where e: "lr_Enqueue deps env ?pl (r2, res0, p, diag) = (t3, r3, res3, p3, diag3)"
        by (metis surj_pair)
      have two: "framed r r2" "diag2 = diag"
        "Identify env request (ie_steady_now env) (decoded, modes) (r1, diag) = (Got (leaf_id, settings), r2, diag)"
        using identify diag1 by (auto simp: Got y)
      have "(threw, r', res, p', diag') = (t3, if t3 then r3 else count (c_payloads_accepted_update (\<lambda>n. n + 1)) r3,
          if t3 then res3 else res3\<lparr>ir_status := (if ir_spans_dropped res3 > 0 then IS_PartiallyAccepted else IS_Accepted)\<rparr>,
          p3, diag3)"
        using assms a b e two(2) \<open>o1 = Got x\<close> x Got y by (cases t3) (auto simp: IngestOrThrow_def Let_def)
      then show thesis
        using adm two len dec e by (intro enqueued [of decoded modes r1 leaf_id settings r2 _ r3 res3]) auto
    qed
  qed
qed

definition counted :: "SdkLeafReceiver \<Rightarrow> SdkLeafReceiver \<Rightarrow> u64 \<times> u64 \<times> u64 \<times> u64 \<Rightarrow> bool" where
  "counted r r' d \<longleftrightarrow>
     (case (tally r, d) of ((a, j, m, s), (da, dj, dm, ds)) \<Rightarrow> tally r' = (a + da, j + dj, m + dm, s + ds))"


section \<open>A sample payload\<close>

text \<open>One node with the default options and times of its own, one span, everything accepted.\<close>

definition sample_leaf_options :: LeafReceiverOptions where
  "sample_leaf_options = LeafReceiverOptions_default\<lparr>o_default_time_mode := Some Unix_mode\<rparr>"

definition sample_leaf_span :: SpanRecord where
  "sample_leaf_span = SpanRecord_default\<lparr>rec_context := SpanContext_default
     \<lparr>trace_id := \<lparr>tid_bytes = [1]\<rparr>, span_id := \<lparr>sid_bytes = [2]\<rparr>\<rparr>\<rparr>"

definition sample_leaf_decoded :: "DecodedResourceSpans list" where
  "sample_leaf_decoded =
     [\<lparr>dr_resource = [], dr_scopes = [\<lparr>ds_scope = \<lparr>scope_name = ''lib'', scope_version = []\<rparr>, ds_spans = [sample_leaf_span]\<rparr>],
       dr_dropped_span_attributes = 0, dr_dropped_resource_attributes = 0\<rparr>]"

definition sample_leaf_env :: ingest_env where
  "sample_leaf_env = \<lparr>ie_decode = (\<lambda>payload limits. if payload = [] then Decode_Failed DF_Malformed else Decoded sample_leaf_decoded),
     ie_resolver = None, ie_system_now = 5, ie_steady_now = 1, ie_interrupt = (\<lambda>_. None)\<rparr>"

definition sample_leaf_deps :: "BatchSpanProcessor LeafReceiverDeps" where
  "sample_leaf_deps = \<lparr>d_sampler = AlwaysOnSampler, d_processor = OnEnd, d_batch_processor = Some Enqueue,
     d_span_limits = SpanLimitOptions_default\<rparr>"

definition sample_leaf_request :: IngestRequest where
  "sample_leaf_request = \<lparr>rq_leaf_id = ''n1'', rq_payload = ''x'', rq_received_at = None\<rparr>"

definition sample_leaf_processor :: BatchSpanProcessor where
  "sample_leaf_processor = BatchSpanProcessor_new None BatchOptions_default 1000 10000 False"

lemma sample_leaf_sels [simp]:
  "r_options (SdkLeafReceiver_new op) = op" "o_max_payload_bytes sample_leaf_options = 65536"
  "o_unknown_leaf sample_leaf_options = Accept" "o_default_time_mode sample_leaf_options = Some Unix_mode"
  "o_leaf_id_attribute sample_leaf_options = ''device.id''" "o_leaf_defaults_resource sample_leaf_options = []"
  "rq_payload sample_leaf_request = ''x''" "rq_leaf_id sample_leaf_request = ''n1''"
  "ie_decode sample_leaf_env ''x'' limits = Decoded sample_leaf_decoded" "ie_interrupt sample_leaf_env point = None" "ie_resolver sample_leaf_env = None"
  "r_leaves (SdkLeafReceiver_new sample_leaf_options) = Map.empty" "r_shut_down (SdkLeafReceiver_new op) = False"
  by (simp_all add: SdkLeafReceiver_new_def sample_leaf_options_def LeafReceiverOptions_default_def sample_leaf_request_def
     sample_leaf_env_def)

lemma sample_leaf_valid: "\<not> span_invalid sample_leaf_span"
  by (simp add: sample_leaf_span_def span_invalid_def TraceId_IsValid_def SpanId_IsValid_def SpanRecord_default_def)

lemma sample_leaf_modes: "declared_modes sample_leaf_decoded = [Unix_mode]" "sample_leaf_decoded \<noteq> []" "length sample_leaf_decoded = 1"
   "CarriesSpansOrDrops sample_leaf_decoded"
  by (simp_all add: sample_leaf_decoded_def ReadWireInfo_def CheckWireInfo_def LeafWireInfo_new_def SpansValid_def sample_leaf_valid CarriesSpansOrDrops_def)

lemma sample_leaf_admit:
  "lr_Admit sample_leaf_env sample_leaf_request now (SdkLeafReceiver_new sample_leaf_options, diag) =
    (Got (sample_leaf_decoded, [Unix_mode]), SdkLeafReceiver_new sample_leaf_options, diag)"
  by (simp add: lr_Admit_def sample_leaf_modes RefusedBeforeDecode_def kMaxLeafIdBytes_def)

lemma sample_leaf_settings:
  "\<exists>r. SettingsFor sample_leaf_env ''n1'' now (SdkLeafReceiver_new sample_leaf_options) =
     (Got (Some \<lparr>ls_configured = False, ls_time_mode = None, ls_resource = []\<rparr>), r) \<and> r_options r = sample_leaf_options"
  by (simp add: SettingsFor_def ResolveSettings_def AskResolver_def Settings_def Touch_def AdoptSettings_def TouchOrInsert_def
     EvictIdle_def EvictIdle_loop.simps LeafTable_new_def SdkLeafReceiver_new_def sample_leaf_env_def sample_leaf_options_def LeafReceiverOptions_default_def
    front_def update_front_def new_entry_def Let_def)

lemma sample_leaf_identify:
  "\<exists>r. Identify sample_leaf_env sample_leaf_request now (sample_leaf_decoded, [Unix_mode]) (SdkLeafReceiver_new sample_leaf_options, diag) =
    (Got (''n1'', \<lparr>ls_configured = False, ls_time_mode = None, ls_resource = []\<rparr>), r, diag)"
  using sample_leaf_settings [of now]
  by (auto simp: Identify_def SettleLeafId_def kMaxLeafIdBytes_def ModesAllowed_def EffectiveMode_def TimeModeAllowed_def Let_def)

lemma sample_leaf_limited: "ApplySpanLimits sample_leaf_span SpanLimitOptions_default None = (sample_leaf_span, None)"
  by (simp add: sample_leaf_span_def SpanRecord_default_def ApplySpanLimits_def KeepFirst_def Count_def count_drop_def)

lemma sample_leaf_corrected: "ApplyTimeCorrection \<lparr>tc_offset = 0, tc_fixed = None\<rparr> sample_leaf_span = sample_leaf_span"
  by (simp add: sample_leaf_span_def SpanRecord_default_def ApplyTimeCorrection_def Corrected_def SaturatingAdd_def kMax_def kMin_def)

lemma sample_leaf_bytes: "EstimateRecordBytes (sample_leaf_span\<lparr>rec_attributes := [], rec_context := c, rec_resource := r\<rparr>) = 64"
  "EstimateRecordBytes (sample_leaf_span\<lparr>rec_context := c, rec_resource := r\<rparr>) = 64" "rec_attributes sample_leaf_span = []"
  by (simp_all add: sample_leaf_span_def SpanRecord_default_def EstimateRecordBytes_def AttributesBytes_def kRecordFixedBytes_def)

lemma sample_leaf_enqueue:
  "\<exists>q. EnqueueSpan sample_leaf_deps scope resource \<lparr>tc_offset = 0, tc_fixed = None\<rparr> sample_leaf_span
     (result_of IS_Accepted, sample_leaf_processor, None) =
     ((result_of IS_Accepted)\<lparr>ir_spans_accepted := 1\<rparr>, sample_leaf_processor\<lparr>m_queue := [q], m_queue_bytes := 64\<rparr>, None)"
  by (simp add: EnqueueSpan_def sample_leaf_deps_def sample_leaf_corrected sample_leaf_limited Let_def AppendAttributes_def sample_leaf_bytes
    Enqueue_def MakeRoomFor.simps sample_leaf_processor_def BatchSpanProcessor_new_def BatchOptions_default_def result_of_def count_drop_def plain_result_def Count_def)

lemma sample_leaf_enqueue_one:
  "\<exists>q fb r'. enqueue_one sample_leaf_deps sample_leaf_env payload i (hd sample_leaf_decoded) Unix_mode (fb0, r, result_of IS_Accepted, sample_leaf_processor, None) =
     (False, fb, r', (result_of IS_Accepted)\<lparr>ir_spans_accepted := 1\<rparr>, sample_leaf_processor\<lparr>m_queue := [q], m_queue_bytes := 64\<rparr>, None)"
  using sample_leaf_enqueue
  by (auto simp: enqueue_one_def sample_leaf_decoded_def CorrectionFor_def Let_def EnqueueResourceSpans_def count_drop_def split: prod.splits)

lemma sample_leaf_ingested:
  "\<exists>r' q. Ingest sample_leaf_deps sample_leaf_env sample_leaf_request
     (SdkLeafReceiver_new sample_leaf_options, sample_leaf_processor, None) =
     ((result_of IS_Accepted)\<lparr>ir_spans_accepted := 1\<rparr>, r', sample_leaf_processor\<lparr>m_queue := [q], m_queue_bytes := 64\<rparr>, None)"
proof -
  let ?st = "\<lparr>ls_configured = False, ls_time_mode = None, ls_resource = []\<rparr> :: LeafSettings"
  obtain r1 where r1: "Identify sample_leaf_env sample_leaf_request (ie_steady_now sample_leaf_env) (sample_leaf_decoded, [Unix_mode])
      (SdkLeafReceiver_new sample_leaf_options, None) = (Got (''n1'', ?st), r1, None)"
    using sample_leaf_identify [of "ie_steady_now sample_leaf_env" None] by blast
  have one: "sample_leaf_decoded = [hd sample_leaf_decoded]" by (simp add: sample_leaf_decoded_def)
  let ?pl = "\<lparr>pl_decoded = sample_leaf_decoded, pl_modes = [Unix_mode], pl_leaf_id = ''n1'', pl_settings = ?st,
    pl_received = (case rq_received_at sample_leaf_request of Some t \<Rightarrow> t | None \<Rightarrow> ie_system_now sample_leaf_env),
    pl_now = ie_steady_now sample_leaf_env\<rparr>"
  obtain q fb r2 where "enqueue_one sample_leaf_deps sample_leaf_env ?pl 0 (hd sample_leaf_decoded) Unix_mode
      (False, r1, result_of IS_Accepted, sample_leaf_processor, None) =
     (False, fb, r2, (result_of IS_Accepted)\<lparr>ir_spans_accepted := 1\<rparr>, sample_leaf_processor\<lparr>m_queue := [q], m_queue_bytes := 64\<rparr>, None)"
    using sample_leaf_enqueue_one by blast
  then have "enqueue_loop sample_leaf_deps sample_leaf_env ?pl 0 (zip sample_leaf_decoded [Unix_mode])
      (False, r1, result_of IS_Accepted, sample_leaf_processor, None) =
     (False, fb, r2, (result_of IS_Accepted)\<lparr>ir_spans_accepted := 1\<rparr>, sample_leaf_processor\<lparr>m_queue := [q], m_queue_bytes := 64\<rparr>, None)"
    by (subst one) simp
  then show ?thesis
    by (auto simp: Ingest_def IngestOrThrow_def interruptible_def sample_leaf_admit r1 lr_Enqueue_def Let_def result_of_def)
qed


end
