(* ===== verification/Leaf_Ingest.thy ===== *)
theory Leaf_Ingest
  imports Leaf_Receiver
begin

text \<open>
  Safety of the receiver: the invariant of its table, caches and stored resources under \<open>Ingest\<close>,
  what holds of every record that \<open>Ingest\<close> puts into the batch span processor, and that refused
  leaves never evict accepted ones.
\<close>

section \<open>What reaches the span processor\<close>

text \<open>A stored resource that names a leaf, and the invariant that table entries hold such resources.\<close>

definition names_leaf :: "string \<Rightarrow> Resource list \<Rightarrow> string \<Rightarrow> resource_ptr \<Rightarrow> bool" where
  "names_leaf id_key store leaf ptr \<longleftrightarrow> ptr < length store \<and>
     (id_key = [] \<or> resource_map (store ! ptr) id_key = Some (AV_string leaf))"

definition resources_ok :: "(string \<Rightarrow> resource_ptr \<Rightarrow> bool) \<Rightarrow> Entry list \<Rightarrow> bool" where
  "resources_ok f es \<longleftrightarrow> (\<forall>e \<in> set es. \<forall>ptr. e_resource e = Some ptr \<longrightarrow> f (e_id e) ptr)"

definition receiver_inv :: "SdkLeafReceiver \<Rightarrow> bool" where
  "receiver_inv r \<longleftrightarrow> lt_inv (r_table r) \<and> uc_inv (r_unknown r) \<and>
     resources_ok (names_leaf (o_leaf_id_attribute (r_options r)) (r_store r)) (entries (r_table r))"

lemma receiver_inv_new: "receiver_inv (SdkLeafReceiver_new options)"
  by (simp add: receiver_inv_def SdkLeafReceiver_new_def lt_inv_def LeafTable_new_def entries_def uc_inv_new
      resources_ok_def)

lemma resources_ok_tracked:
  "resources_ok f es \<Longrightarrow> tracked leaf es = Some e \<Longrightarrow> e_resource e = Some ptr \<Longrightarrow> f leaf ptr"
  by (auto simp: resources_ok_def tracked_def find_Some_iff)

lemma resources_ok_looked_up: "resources_ok f es \<Longrightarrow> resources_ok f (looked_up leaf now es)"
  by (auto simp: resources_ok_def looked_up_def tracked_def find_Some_iff move_to_front_def split: option.splits)

lemma resources_ok_seen:
  assumes "resources_ok f es"
  shows "resources_ok f (seen capacity timeout leaf now es)"
proof (cases "tracked leaf es")
  case None
  have "set (take (capacity - 1) (drop_idle timeout now es)) \<subseteq> set es"
    using drop_idle_subset set_take_subset by fastforce
  then show ?thesis
    using None assms by (auto simp: resources_ok_def seen_def tracked_def new_entry_def)
qed (simp add: assms seen_eq_looked_up resources_ok_looked_up)

lemma resources_ok_on_front:
  assumes "resources_ok f es" "es \<noteq> []" "\<And>e. e_id (g e) = e_id e"
    and "\<And>ptr. e_resource (g (hd es)) = Some ptr \<Longrightarrow> f (e_id (hd es)) ptr"
  shows "resources_ok f (on_front g es)"
  using assms by (cases es) (auto simp: resources_ok_def)

lemma resources_ok_hd: "resources_ok f es \<Longrightarrow> es \<noteq> [] \<Longrightarrow> e_resource (hd es) = Some ptr \<Longrightarrow> f (e_id (hd es)) ptr"
  by (cases es) (auto simp: resources_ok_def)

lemma resources_ok_step:
  assumes "resources_ok f es"
    and "\<And>leaf h ptr now. op = Op_Insert leaf h (Some ptr) now \<Longrightarrow> f leaf ptr"
  shows "resources_ok f (plain_step capacity timeout op es)"
proof (cases op)
  case (Op_AdoptSettings leaf settings now)
  then show ?thesis
    using resources_ok_seen [OF assms(1)] resources_ok_hd [OF resources_ok_seen [OF assms(1)] seen_nonempty]
    by (auto simp: adopt_def intro!: resources_ok_on_front split: if_splits)
next
  case (Op_Insert leaf h res now)
  let ?es = "seen capacity timeout leaf now es"
  have "f (e_id (hd ?es)) ptr" if "e_resource (declare_resource h res (hd ?es)) = Some ptr" for ptr
  proof (cases "e_resource (hd ?es) = None \<or> e_declared_hash (hd ?es) \<noteq> h")
    case True
    then have "res = Some ptr" using that by (auto simp: declare_resource_def)
    then show ?thesis using assms(2) Op_Insert by (simp add: id_hd_seen)
  next
    case False
    then show ?thesis
      using that resources_ok_hd [OF resources_ok_seen [OF assms(1)] seen_nonempty]
      by (auto simp: declare_resource_def)
  qed
  then show ?thesis
    using Op_Insert resources_ok_seen [OF assms(1)] by (auto intro!: resources_ok_on_front)
next
  case (Op_UpdateBootAnchor leaf sample window now)
  then show ?thesis
    using resources_ok_seen [OF assms(1)] resources_ok_hd [OF resources_ok_seen [OF assms(1)] seen_nonempty]
    by (auto simp: add_sample_def intro!: resources_ok_on_front)
qed (simp_all add: resources_ok_looked_up assms)

lemma table_step_ok:
  assumes "lt_inv t" "resources_ok f (entries t)"
    and "\<And>leaf h ptr now. op = Op_Insert leaf h (Some ptr) now \<Longrightarrow> f leaf ptr"
  shows "lt_inv (lt_step op t) \<and> resources_ok f (entries (lt_step op t))"
  using lt_step_spec [OF assms(1), of op] resources_ok_step [OF assms(2,3)] by auto

text \<open>A step that keeps the invariant, the options and the stored resources.\<close>

definition keeps :: "SdkLeafReceiver \<Rightarrow> SdkLeafReceiver \<Rightarrow> bool" where
  "keeps r r' \<longleftrightarrow> (receiver_inv r \<longrightarrow> receiver_inv r') \<and> prefix (r_store r) (r_store r') \<and>
     r_options r' = r_options r"

lemma keeps_refl [simp]: "keeps r r"
  by (simp add: keeps_def)

lemma keeps_trans: "keeps a b \<Longrightarrow> keeps b c \<Longrightarrow> keeps a c"
  by (auto simp: keeps_def intro: prefix_order.trans)

lemma keeps_count [simp]: "keeps r (count f r)"
  by (simp add: keeps_def count_def receiver_inv_def)

lemma keeps_table:
  assumes "t' = lt_step op (r_table r)"
    and "\<And>leaf h ptr now. op = Op_Insert leaf h (Some ptr) now \<Longrightarrow>
       names_leaf (o_leaf_id_attribute (r_options r)) (r_store r) leaf ptr"
  shows "keeps r (r\<lparr>r_table := t'\<rparr>)"
  using table_step_ok [of "r_table r" "names_leaf (o_leaf_id_attribute (r_options r)) (r_store r)" op] assms
  by (auto simp: keeps_def receiver_inv_def)

lemma keeps_unknown: "(uc_inv (r_unknown r) \<Longrightarrow> uc_inv u) \<Longrightarrow> keeps r (r\<lparr>r_unknown := u\<rparr>)"
  by (simp add: keeps_def receiver_inv_def)

lemma keeps_Contains: "uc_Contains leaf now (r_unknown r) = (b, u) \<Longrightarrow> keeps r (r\<lparr>r_unknown := u\<rparr>)"
  using uc_Contains_spec(2) [of "r_unknown r" leaf now] by (intro keeps_unknown) simp

lemma keeps_unknown_Insert: "keeps r (r\<lparr>r_unknown := uc_Insert leaf now (r_unknown r)\<rparr>)"
  using uc_Insert_spec by (intro keeps_unknown) blast

lemma keeps_Settings: "Settings leaf now (r_table r) = (s, t) \<Longrightarrow> keeps r (r\<lparr>r_table := t\<rparr>)"
  by (rule keeps_table [where op = "Op_Settings leaf now"]) simp_all

lemma keeps_AdoptSettings: "AdoptSettings leaf st now (r_table r) = (s, t) \<Longrightarrow> keeps r (r\<lparr>r_table := t\<rparr>)"
  by (rule keeps_table [where op = "Op_AdoptSettings leaf st now"]) simp_all

lemma keeps_UpdateBootAnchor:
  "UpdateBootAnchor leaf sample window now (r_table r) = (b, t) \<Longrightarrow> keeps r (r\<lparr>r_table := t\<rparr>)"
  by (rule keeps_table [where op = "Op_UpdateBootAnchor leaf sample window now"]) simp_all

lemma keeps_Find: "lt_Find leaf h now (r_table r) = (res, t) \<Longrightarrow> keeps r (r\<lparr>r_table := t\<rparr>)"
  by (rule keeps_table [where op = "Op_Find leaf h now"]) simp_all

lemma RefusedBeforeDecode_keeps: "RefusedBeforeDecode env request now r = (out, r') \<Longrightarrow> keeps r r'"
  by (auto simp: RefusedBeforeDecode_def keeps_Contains split: if_splits prod.splits)

lemma ResolveSettings_keeps: "ResolveSettings env leaf_id r = (out, r') \<Longrightarrow> keeps r r'"
  by (auto simp: ResolveSettings_def Let_def split: option.splits prod.splits)

lemma SettingsFor_keeps:
  assumes "SettingsFor env leaf_id now r = (out, r')"
  shows "keeps r r'"
proof -
  obtain cached t1 where c: "Settings leaf_id now (r_table r) = (cached, t1)" by force
  let ?r1 = "r\<lparr>r_table := t1\<rparr>"
  have k1: "keeps r ?r1" by (rule keeps_Settings [OF c])
  show ?thesis
  proof (cases cached)
    case (Some s)
    then show ?thesis using assms c k1 by (simp add: SettingsFor_def)
  next
    case None
    obtain refused u2 where u: "(if o_unknown_leaf (r_options r) = Reject then uc_Contains leaf_id now (r_unknown ?r1)
        else (False, r_unknown ?r1)) = (refused, u2)" by force
    let ?r2 = "?r1\<lparr>r_unknown := u2\<rparr>"
    have "keeps ?r1 ?r2"
    proof (cases "o_unknown_leaf (r_options r) = Reject")
      case True
      then show ?thesis using u by (intro keeps_Contains [of leaf_id now ?r1 refused]) simp
    next
      case False
      then have "u2 = r_unknown ?r1" using u by simp
      then show ?thesis by (intro keeps_unknown) simp
    qed
    then have k2: "keeps r ?r2" by (rule keeps_trans [OF k1])
    obtain out3 r3 where s: "ResolveSettings env leaf_id ?r2 = (out3, r3)" by force
    have k3: "keeps r r3" by (rule keeps_trans [OF k2 ResolveSettings_keeps [OF s]])
    show ?thesis
      using assms c None u s k2 k3 keeps_trans [OF k3 keeps_unknown_Insert]
        keeps_trans [OF k3 keeps_AdoptSettings]
      by (auto simp: SettingsFor_def Let_def split: if_splits option.splits prod.splits)
  qed
qed

lemma ResolveLeafResource_names_leaf:
  "ly_id_key layers \<noteq> [] \<Longrightarrow>
   resource_map (rl_resource (ResolveLeafResource layers)) (ly_id_key layers) = Some (AV_string (ly_leaf_id layers))"
proof -
  assume id_key: "ly_id_key layers \<noteq> []"
  obtain a d where ref: "admit_ref (ly_budget layers) (not_for_leaf layers) (fixed_layers layers)
      (ly_declared layers) = (a, d)" by force
  show ?thesis
    unfolding ResolveLeafResource_eq [OF ref]
    by (simp only: ResolvedLeafResource.simps with_service_Merge id_layer_Merge)
       (simp add: id_key id_layer_def with_service_def)
qed

lemma names_leaf_prefix: "prefix store store' \<Longrightarrow> names_leaf id_key store leaf ptr \<Longrightarrow> names_leaf id_key store' leaf ptr"
  by (auto simp: names_leaf_def nth_append elim!: prefixE)

lemma keeps_store: "keeps r (r\<lparr>r_store := r_store r @ [res]\<rparr>)"
  using names_leaf_prefix [of "r_store r" "r_store r @ [res]" "o_leaf_id_attribute (r_options r)"]
  by (auto simp: keeps_def receiver_inv_def resources_ok_def)

lemma ResourceFor_spec:
  assumes "ResourceFor payload declared r = (out, r')" "receiver_inv r"
  shows "keeps r r' \<and> (\<exists>ptr. out = Some ptr \<and>
    names_leaf (o_leaf_id_attribute (r_options r')) (r_store r') (pl_leaf_id payload) ptr)"
proof -
  let ?leaf = "pl_leaf_id payload" and ?h = "HashDeclaredResource declared" and ?now = "pl_now payload"
  obtain cached t1 where f: "lt_Find ?leaf ?h ?now (r_table r) = (cached, t1)" by force
  let ?r1 = "r\<lparr>r_table := t1\<rparr>"
  have k1: "keeps r ?r1" by (rule keeps_Find [OF f])
  have lt: "lt_inv (r_table r)" and ok: "resources_ok (names_leaf (o_leaf_id_attribute (r_options r)) (r_store r)) (entries (r_table r))"
    using assms(2) by (auto simp: receiver_inv_def)
  show ?thesis
  proof (cases cached)
    case (Some ptr)
    then have "cached_resource (r_table r) ?leaf = Some (?h, ptr)"
      using lt_Find_result [OF lt, of ?leaf ?h ?now] f by (auto split: option.splits if_splits)
    then have "names_leaf (o_leaf_id_attribute (r_options r)) (r_store r) ?leaf ptr"
      using resources_ok_tracked [OF ok, of ?leaf] by (auto simp: cached_resource_def split: option.splits)
    then show ?thesis using assms(1) f Some k1 by (auto simp: ResourceFor_def)
  next
    case None
    let ?layers = "\<lparr>ly_defaults = o_leaf_defaults_resource (r_options r), ly_declared = declared,
       ly_configured = ls_resource (pl_settings payload), ly_id_key = o_leaf_id_attribute (r_options r),
       ly_leaf_id = ?leaf, ly_budget = BudgetFor (r_options r) (pl_settings payload)\<rparr>"
    let ?new = "rl_resource (ResolveLeafResource ?layers)"
    define r2 where "r2 = count (c_resource_attributes_dropped_update
        (\<lambda>n. n + of_nat (rl_attributes_dropped (ResolveLeafResource ?layers)))) ?r1"
    define r3 where "r3 = r2\<lparr>r_store := r_store r2 @ [?new]\<rparr>"
    have k3: "keeps r r3"
      unfolding r3_def r2_def by (rule keeps_trans [OF k1 keeps_trans [OF keeps_count keeps_store]])
    have inv3: "receiver_inv r3" using k3 assms(2) by (simp add: keeps_def)
    have opts: "r_options r3 = r_options r" "r_store r3 = r_store r @ [?new]"
      by (simp_all add: r3_def r2_def count_def)
    have new: "names_leaf (o_leaf_id_attribute (r_options r3)) (r_store r3) ?leaf (length (r_store r))"
      using ResolveLeafResource_names_leaf [of ?layers] by (auto simp: names_leaf_def opts)
    obtain kept t4 where i: "lt_Insert ?leaf ?h (Some (length (r_store r))) ?now (r_table r3) = (kept, t4)" by force
    have k4: "keeps r3 (r3\<lparr>r_table := t4\<rparr>)"
      using i new by (intro keeps_table [where op = "Op_Insert ?leaf ?h (Some (length (r_store r))) ?now"]) auto
    have r': "r' = r3\<lparr>r_table := t4\<rparr>" "out = kept"
      using assms(1) f None i
      by (auto simp: ResourceFor_def Let_def r3_def r2_def count_def split: prod.splits)
    have lt3: "lt_inv (r_table r3)" and
      ok3: "resources_ok (names_leaf (o_leaf_id_attribute (r_options r3)) (r_store r3)) (entries (r_table r3))"
      using inv3 by (auto simp: receiver_inv_def)
    have "\<exists>ptr. kept = Some ptr \<and> names_leaf (o_leaf_id_attribute (r_options r3)) (r_store r3) ?leaf ptr"
      using lt_Insert_result(1) [OF lt3, of ?leaf ?h "length (r_store r)" ?now] i new
        resources_ok_tracked [OF ok3, of ?leaf]
      by (auto simp: cached_resource_def split: option.splits prod.splits if_splits)
    then show ?thesis using r' keeps_trans [OF k3 k4] by auto
  qed
qed

lemma CorrectionFor_keeps: "CorrectionFor payload mode info fb r = (c, fb', r') \<Longrightarrow> keeps r r'"
  by (auto simp: CorrectionFor_def Let_def keeps_UpdateBootAnchor
      split: LeafTimeMode.splits option.splits prod.splits)

section \<open>Released records\<close>

definition released :: "SpanLimitOptions \<Rightarrow> string \<Rightarrow> Resource list \<Rightarrow> string \<Rightarrow> SpanRecord \<Rightarrow> bool" where
  "released limits id_key store leaf rec \<longleftrightarrow>
     TraceId_IsValid (trace_id (rec_context rec)) \<and> SpanId_IsValid (span_id (rec_context rec)) \<and>
     TraceFlags_IsSampled (trace_flags (rec_context rec)) \<and> rec_start_time rec \<le> rec_end_time rec \<and>
     record_within limits rec \<and> (\<exists>ptr. rec_resource rec = Some ptr \<and> names_leaf id_key store leaf ptr)"

definition queue_all :: "(SpanRecord \<Rightarrow> bool) \<Rightarrow> BatchSpanProcessor \<Rightarrow> bool" where
  "queue_all Q p \<longleftrightarrow> (\<forall>q \<in> set (m_queue p). Q (q_record q))"

lemma queue_all_Enqueue:
  assumes "Enqueue rec scope (p, diag) = (queued, p', diag')" "queue_all Q p" "Q rec"
  shows "queue_all Q p'"
  using assms MakeRoomFor_queue [of "of_nat (EstimateRecordBytes rec)" p diag]
  by (auto simp: Enqueue_def Let_def queue_all_def split: if_splits prod.splits dest!: in_set_dropD)

lemma Corrected_mono_any: "s \<le> t \<Longrightarrow> Corrected s c \<le> Corrected t c"
  by (auto simp: Corrected_def SaturatingAdd_def split: option.splits)

lemma attrs_within_snoc:
  "attrs_within n limit kvs \<Longrightarrow> length kvs < n \<Longrightarrow>
   attrs_within n limit (kvs @ [kv\<lparr>kv_value := clip_value limit (kv_value kv)\<rparr>])"
  by (auto simp: attrs_within_def value_texts_clip clip_text_facts)

lemma AppendAttributes_loop_within:
  "attrs_within (attribute_count_limit limits) (attribute_value_length_limit limits) kvs \<Longrightarrow>
   attrs_within (attribute_count_limit limits) (attribute_value_length_limit limits)
     (fst (AppendAttributes_loop kvs extra limits n1 n2))"
  by (induction kvs extra limits n1 n2 rule: AppendAttributes_loop.induct)
     (auto simp: TruncateStrings_eq attrs_within_snoc not_le)

lemma AppendAttributes_within:
  "attrs_within (attribute_count_limit limits) (attribute_value_length_limit limits) kvs \<Longrightarrow>
   attrs_within (attribute_count_limit limits) (attribute_value_length_limit limits)
     (fst (AppendAttributes kvs extra limits diag))"
  using AppendAttributes_loop_within [of limits kvs extra 0 0]
  by (auto simp: AppendAttributes_def split: prod.splits)

lemma EnqueueSpan_released:
  assumes "EnqueueSpan deps scope (Some ptr) c s (res, p, diag) = (res', p', diag')"
    and "d_batch_processor deps = Some Enqueue" "\<not> span_invalid s" "names_leaf id_key store leaf ptr"
    and "queue_all Q p" "\<And>rec. released (d_span_limits deps) id_key store leaf rec \<Longrightarrow> Q rec"
  shows "queue_all Q p'"
proof -
  let ?limits = "d_span_limits deps"
  obtain s2 diag1 where l: "ApplySpanLimits (ApplyTimeCorrection c s) ?limits diag = (s2, diag1)" by force
  have s2: "s2 = fst (ApplySpanLimits (ApplyTimeCorrection c s) ?limits diag)" by (simp add: l)
  have ctx: "rec_context s2 = rec_context s" and times: "rec_start_time s2 \<le> rec_end_time s2"
    using assms(3) Corrected_mono_any
    by (auto simp: s2 ApplySpanLimits_record ApplyTimeCorrection_def span_invalid_def)
  have within: "record_within ?limits s2"
    by (auto simp: s2 ApplySpanLimits_record record_within_def limited_within)
  define sampling where "sampling = ShouldSample (d_sampler deps)
     \<lparr>sc_parent = SpanContext_default, sc_span_kind = rec_kind s2, sc_span_name = rec_name s2,
      sc_initial_attributes = rec_attributes s2, sc_links = rec_links s2,
            sc_trace_id = trace_id (rec_context s2)\<rparr>"
  obtain attrs diag2 where a: "AppendAttributes (rec_attributes s2) (sr_additional_attributes sampling) ?limits diag1 = (attrs, diag2)"
    by force
  have attrs: "attrs_within (attribute_count_limit ?limits) (attribute_value_length_limit ?limits) attrs"
    using AppendAttributes_within [of ?limits "rec_attributes s2" "sr_additional_attributes sampling" diag1] within a
    by (simp add: record_within_def)
  define ctx' where "ctx' = (case sr_trace_state sampling of
      Some ts \<Rightarrow> (rec_context s2)\<lparr>trace_flags := \<lparr>flag_bits = kSampled\<rparr>, trace_state := ts\<rparr>
    | None \<Rightarrow> (rec_context s2)\<lparr>trace_flags := \<lparr>flag_bits = kSampled\<rparr>\<rparr>)"
  define s3 where "s3 = s2\<lparr>rec_attributes := attrs, rec_context := ctx', rec_resource := Some ptr\<rparr>"
  have "released ?limits id_key store leaf s3"
    using assms(3,4) times within attrs ctx
    by (auto simp: released_def s3_def ctx'_def record_within_def span_invalid_def TraceFlags_IsSampled_def
        kSampled_def split: option.splits)
  then have Q: "Q s3" by (rule assms(6))
  obtain queued p3 diag3 where e: "Enqueue s3 scope (p, diag2) = (queued, p3, diag3)" by (metis surj_pair)
  have "p' = p \<or> p' = p3"
    using assms(1,2) l a e
    by (auto simp: EnqueueSpan_def Let_def s3_def ctx'_def sampling_def [symmetric] split: if_splits option.splits)
  then show ?thesis using queue_all_Enqueue [OF e assms(5) Q] assms(5) by auto
qed

lemma EnqueueResourceSpans_released:
  assumes "EnqueueResourceSpans deps (Some ptr) c rs (res, p, diag) = (res', p', diag')"
    and "d_batch_processor deps = Some Enqueue" "SpansValid rs" "names_leaf id_key store leaf ptr"
    and "queue_all Q p" "\<And>rec. released (d_span_limits deps) id_key store leaf rec \<Longrightarrow> Q rec"
  shows "queue_all Q p'"
proof -
  let ?Q = "\<lambda>w. queue_all Q (fst (snd w))"
  have one: "?Q (EnqueueSpan deps scope (Some ptr) c s w)" if "?Q w" "\<not> span_invalid s" for w s scope
  proof -
    obtain res0 p0 diag0 where w: "w = (res0, p0, diag0)" by (cases w) auto
    obtain res1 p1 diag1 where e: "EnqueueSpan deps scope (Some ptr) c s (res0, p0, diag0) = (res1, p1, diag1)"
      by (cases "EnqueueSpan deps scope (Some ptr) c s (res0, p0, diag0)") auto
    have "queue_all Q p1"
      by (rule EnqueueSpan_released [OF e assms(2) that(2) assms(4) _ assms(6)]) (use that(1) w in simp_all)
    then show ?thesis by (simp add: w e)
  qed
  have spans: "?Q w \<Longrightarrow> \<forall>s \<in> set ss. \<not> span_invalid s \<Longrightarrow>
      ?Q (foldl (\<lambda>w s. EnqueueSpan deps scope (Some ptr) c s w) w ss)" for w ss scope
    by (induction ss arbitrary: w) (auto simp: one)
  have scopes: "?Q w \<Longrightarrow> \<forall>sc \<in> set scs. \<forall>s \<in> set (ds_spans sc). \<not> span_invalid s \<Longrightarrow>
      ?Q (foldl (\<lambda>w sc. foldl (\<lambda>w s. EnqueueSpan deps (ds_scope sc) (Some ptr) c s w) w (ds_spans sc)) w scs)" for w scs
    by (induction scs arbitrary: w) (auto simp: spans)
  have "\<forall>sc \<in> set (dr_scopes rs). \<forall>s \<in> set (ds_spans sc). \<not> span_invalid s"
    using assms(3) by (auto simp: SpansValid_def list_all_iff list_ex_iff)
  from scopes [of "(res, p, diag)", OF _ this] assms(1,5) show ?thesis
    by (simp add: EnqueueResourceSpans_def)
qed

text \<open>
  The loop: the invariant, and a queue in which every record was there before or is released under
  the resources stored so far.
\<close>

definition loop_ok ::
    "BatchSpanProcessor LeafReceiverDeps \<Rightarrow> SpanRecord set \<Rightarrow> string \<Rightarrow> SdkLeafReceiver \<Rightarrow> BatchSpanProcessor \<Rightarrow> bool" where
  "loop_ok deps old leaf r p \<longleftrightarrow> receiver_inv r \<and>
     queue_all (\<lambda>rec. rec \<in> old \<or>
       released (d_span_limits deps) (o_leaf_id_attribute (r_options r)) (r_store r) leaf rec) p"

lemma released_keeps:
  "keeps r r' \<Longrightarrow> released limits (o_leaf_id_attribute (r_options r)) (r_store r) leaf rec \<Longrightarrow>
   released limits (o_leaf_id_attribute (r_options r')) (r_store r') leaf rec"
  by (auto simp: released_def keeps_def intro: names_leaf_prefix)

lemma loop_ok_keeps: "keeps r r' \<Longrightarrow> loop_ok deps old leaf r p \<Longrightarrow> loop_ok deps old leaf r' p"
  using released_keeps [of r r'] by (auto simp: loop_ok_def queue_all_def keeps_def)

text \<open>A call that runs out of memory leaves the invariant intact.\<close>

definition interrupts_keep :: "ingest_env \<Rightarrow> bool" where
  "interrupts_keep env \<longleftrightarrow> (\<forall>point left r. ie_interrupt env point = Some left \<longrightarrow> keeps r (interrupted (left r) r))"

lemma interruptible_keeps:
  assumes "interruptible env point step (r, diag) = (out, r', diag')" "interrupts_keep env"
    and "step (r, diag) = (out, r', diag') \<Longrightarrow> keeps r r'"
  shows "keeps r r'"
  using assms by (auto simp: interruptible_def interrupts_keep_def split: option.splits)

lemma enqueue_one_interrupted:
  assumes "enqueue_one deps env payload i rs mode (fb, r, res, p, diag) = (True, fb', r', res', p', diag')"
    and "interrupts_keep env"
  shows "keeps r r' \<and> p' = p"
proof -
  let ?r2 = "count (c_resource_attributes_dropped_update (\<lambda>n. n + dr_dropped_resource_attributes rs))
    (count (c_leaf_reported_drops_update (\<lambda>n. n + reported_drops (ReadWireInfo (dr_resource rs)))) r)"
  obtain left where "ie_interrupt env (In_Enqueue i) = Some left" "r' = interrupted (left ?r2) ?r2" "p' = p"
    using assms(1) by (auto simp: enqueue_one_def Let_def split: option.splits prod.splits)
  moreover from this have "keeps ?r2 r'" using assms(2) unfolding interrupts_keep_def by blast
  then have "keeps r r'" by (rule keeps_trans [OF keeps_trans [OF keeps_count keeps_count]])
  ultimately show ?thesis by blast
qed

lemma enqueue_one_ok:
  assumes "enqueue_one deps env payload i rs mode (fb, r, res, p, diag) = (False, fb', r', res', p', diag')"
    and "d_batch_processor deps = Some Enqueue" "SpansValid rs"
    and "loop_ok deps old (pl_leaf_id payload) r p"
  shows "keeps r r' \<and> loop_ok deps old (pl_leaf_id payload) r' p'"
proof -
  let ?info = "ReadWireInfo (dr_resource rs)" and ?leaf = "pl_leaf_id payload"
  define r2 where "r2 = count (c_resource_attributes_dropped_update (\<lambda>n. n + dr_dropped_resource_attributes rs))
    (count (c_leaf_reported_drops_update (\<lambda>n. n + reported_drops ?info)) r)"
  define d1 where "d1 = count_drop SpanAttributeLimit (unat (dr_dropped_span_attributes rs)) diag"
  obtain c fb1 r3 where c: "CorrectionFor payload mode ?info fb r2 = (c, fb1, r3)" by (metis surj_pair)
  obtain resource r4 where q: "ResourceFor payload (dr_resource rs) r3 = (resource, r4)" by force
  have k3: "keeps r r3"
    using keeps_trans [OF keeps_trans [OF keeps_count keeps_count] CorrectionFor_keeps [OF c [unfolded r2_def]]] .
  then have "receiver_inv r3" using assms(4) by (simp add: keeps_def loop_ok_def)
  from ResourceFor_spec [OF q this] obtain ptr where
    k4: "keeps r3 r4" and ptr: "resource = Some ptr"
      "names_leaf (o_leaf_id_attribute (r_options r4)) (r_store r4) ?leaf ptr"
    by blast
  have k: "keeps r r4" by (rule keeps_trans [OF k3 k4])
  have out: "r' = r4" "EnqueueResourceSpans deps (Some ptr) c rs (res, p, d1) = (res', p', diag')"
    using assms(1) c q ptr(1) by (simp_all add: enqueue_one_def Let_def r2_def d1_def split: option.splits)
  have ok4: "loop_ok deps old ?leaf r4 p" by (rule loop_ok_keeps [OF k assms(4)])
  then have "queue_all (\<lambda>rec. rec \<in> old \<or> released (d_span_limits deps)
      (o_leaf_id_attribute (r_options r4)) (r_store r4) ?leaf rec) p'"
    by (intro EnqueueResourceSpans_released [OF out(2) assms(2,3) ptr(2)]) (auto simp: loop_ok_def)
  then show ?thesis using k ok4 out(1) by (simp add: loop_ok_def)
qed

lemma enqueue_loop_ok:
  assumes "enqueue_loop deps env payload i rss (fb, r, res, p, diag) = (threw, fb', r', res', p', diag')"
    and "d_batch_processor deps = Some Enqueue" "\<forall>x \<in> set rss. SpansValid (fst x)" "interrupts_keep env"
    and "loop_ok deps old (pl_leaf_id payload) r p"
  shows "keeps r r' \<and> loop_ok deps old (pl_leaf_id payload) r' p'"
  using assms
proof (induction rss arbitrary: i fb r res p diag)
  case (Cons x rss)
  obtain rs mode where x: "x = (rs, mode)" by force
  obtain t1 fb1 r1 res1 p1 diag1 where
    one: "enqueue_one deps env payload i rs mode (fb, r, res, p, diag) = (t1, fb1, r1, res1, p1, diag1)"
    by (metis surj_pair)
  show ?case
  proof (cases t1)
    case True
    then have "keeps r r1 \<and> p1 = p" using enqueue_one_interrupted [OF _ Cons.prems(4)] one by simp
    with True Cons.prems one x show ?thesis by (auto intro: loop_ok_keeps)
  next
    case False
    have "keeps r r1 \<and> loop_ok deps old (pl_leaf_id payload) r1 p1"
      using enqueue_one_ok [OF _ Cons.prems(2) _ Cons.prems(5)] one False Cons.prems(3) x by auto
    moreover have "keeps r1 r' \<and> loop_ok deps old (pl_leaf_id payload) r' p'"
      using Cons.IH [of "Suc i" fb1 r1 res1 p1 diag1] Cons.prems x one False calculation by auto
    ultimately show ?thesis using keeps_trans by blast
  qed
qed simp

text \<open>The steps before the loop keep the invariant, and settle an identity and valid spans.\<close>

lemma lr_Reject_keeps: "lr_Reject status reason (r, diag) = (out, r', diag') \<Longrightarrow> keeps r r'"
  by (auto simp: lr_Reject_def)

lemma lr_Admit_keeps:
  assumes "lr_Admit env request now (r, diag) = (out, r', diag')"
  shows "keeps r r'"
proof -
  obtain refused r0 where pre: "RefusedBeforeDecode env request now r = (refused, r0)" by force
  note k = RefusedBeforeDecode_keeps [OF pre]
  show ?thesis
    using assms k
    by (auto simp: lr_Admit_def pre Let_def split: if_splits decode_outcome.splits
        dest!: lr_Reject_keeps intro: keeps_trans [OF k])
qed

lemma CountIdConflict_keeps: "keeps r (CountIdConflict request leaf_id decoded r)"
  by (auto simp: CountIdConflict_def Let_def)

lemma Identify_keeps:
  assumes "Identify env request now (decoded, modes) (r, diag) = (out, r', diag')"
  shows "keeps r r'"
proof -
  obtain o1 r0 where q: "SettingsFor env (SettleLeafId (r_options r) request decoded) now r = (o1, r0)" by force
  note k = SettingsFor_keeps [OF q]
  show ?thesis
    using assms k keeps_trans [OF k CountIdConflict_keeps]
    by (auto simp: Identify_def q Let_def split: if_splits attempt.splits option.splits
        dest!: lr_Reject_keeps intro: keeps_trans [OF k])
qed

lemma declared_modes_valid:
  "length (declared_modes decoded) = length decoded \<Longrightarrow> \<forall>rs \<in> set decoded. SpansValid rs"
  by (induction decoded) (auto split: option.splits if_splits)

lemma lr_Enqueue_ok:
  assumes "lr_Enqueue deps env payload (r, res, p, diag) = (threw, r', res', p', diag')"
    and "d_batch_processor deps = Some Enqueue" "\<forall>rs \<in> set (pl_decoded payload). SpansValid rs"
    and "interrupts_keep env" "loop_ok deps old (pl_leaf_id payload) r p"
  shows "keeps r r' \<and> loop_ok deps old (pl_leaf_id payload) r' p'"
proof -
  let ?rss = "zip (pl_decoded payload) (pl_modes payload)"
  obtain t fb r1 res1 p1 diag1 where
    loop: "enqueue_loop deps env payload 0 ?rss (False, r, res, p, diag) = (t, fb, r1, res1, p1, diag1)"
    by (metis surj_pair)
  have valid: "\<forall>x \<in> set ?rss. SpansValid (fst x)" using assms(3) by (auto dest: set_zip_leftD)
  have k: "keeps r r1" and ok: "loop_ok deps old (pl_leaf_id payload) r1 p1"
    using enqueue_loop_ok [OF loop assms(2) valid assms(4,5)] by auto
  have out: "r' = (if fb \<and> \<not> t then count (c_time_fallbacks_update (\<lambda>n. n + 1)) r1 else r1)" "p' = p1"
    using assms(1) by (auto simp: lr_Enqueue_def loop)
  have "keeps r1 r'" by (simp add: out)
  then show ?thesis using keeps_trans [OF k] loop_ok_keeps [OF _ ok] by (simp add: out(2))
qed

definition settled_leaf :: "IngestRequest \<Rightarrow> string \<Rightarrow> bool" where
  "settled_leaf request leaf \<longleftrightarrow> leaf \<noteq> [] \<and> length leaf \<le> kMaxLeafIdBytes \<and>
     (rq_leaf_id request \<noteq> [] \<longrightarrow> leaf = rq_leaf_id request)"

lemma Identify_leaf:
  assumes "Identify env request now (decoded, modes) (r, diag) = (Got (leaf, settings), r', diag')"
  shows "settled_leaf request leaf"
  using assms
  by (auto simp: Identify_def Let_def lr_Reject_def settled_leaf_def SettleLeafId_def
      split: if_splits attempt.splits option.splits prod.splits)

lemma IngestOrThrow_released:
  assumes "IngestOrThrow deps env request (r, res0, p, diag) = (threw, r', res, p', diag')"
    and "receiver_inv r" "d_batch_processor deps = Some Enqueue" "interrupts_keep env"
  shows "keeps r r' \<and> (p' = p \<or> (\<exists>leaf. settled_leaf request leaf \<and>
    loop_ok deps (q_record ` set (m_queue p)) leaf r' p'))"
proof -
  obtain o1 r1 diag1 where
    a: "interruptible env In_Admit (lr_Admit env request (ie_steady_now env)) (r, diag) = (o1, r1, diag1)"
    by (metis surj_pair)
  note k1 = interruptible_keeps [OF a assms(4) lr_Admit_keeps]
  show ?thesis
  proof (cases o1)
    case (Got x)
    obtain decoded modes where x: "x = (decoded, modes)" by force
    have "lr_Admit env request (ie_steady_now env) (r, diag) = (o1, r1, diag1)"
      using a Got by (auto simp: interruptible_def split: option.splits)
    then have valid: "\<forall>rs \<in> set decoded. SpansValid rs"
      using lr_Admit_cases declared_modes_valid by (fastforce simp: Got x)
    obtain o2 r2 diag2 where
      b: "interruptible env In_Identify (Identify env request (ie_steady_now env) (decoded, modes)) (r1, diag1) = (o2, r2, diag2)"
      by (metis surj_pair)
    have k2: "keeps r r2" by (rule keeps_trans [OF k1 interruptible_keeps [OF b assms(4) Identify_keeps]])
    show ?thesis
    proof (cases o2)
      case (Got y)
      obtain leaf settings where y: "y = (leaf, settings)" by force
      let ?pl = "\<lparr>pl_decoded = decoded, pl_modes = modes, pl_leaf_id = leaf, pl_settings = settings,
           pl_received = (case rq_received_at request of Some t \<Rightarrow> t | None \<Rightarrow> ie_system_now env),
           pl_now = ie_steady_now env\<rparr>"
      obtain t3 r3 res3 p3 diag3 where e: "lr_Enqueue deps env ?pl (r2, res0, p, diag2) = (t3, r3, res3, p3, diag3)"
        by (metis surj_pair)
      have "loop_ok deps (q_record ` set (m_queue p)) leaf r2 p"
        using k2 assms(2) by (simp add: loop_ok_def queue_all_def keeps_def)
      then have ok: "keeps r2 r3" "loop_ok deps (q_record ` set (m_queue p)) leaf r3 p3"
        using lr_Enqueue_ok [OF e assms(3)] assms(4) valid by auto
      have out: "r' = (if t3 then r3 else count (c_payloads_accepted_update (\<lambda>n. n + 1)) r3)" "p' = p3"
        using assms(1) a b e \<open>o1 = Got x\<close> x Got y by (cases t3; auto simp: IngestOrThrow_def Let_def)+
      have "keeps r3 r'" by (simp add: out)
      moreover have "settled_leaf request leaf"
        using b Identify_leaf by (fastforce simp: Got y interruptible_def split: option.splits)
      ultimately show ?thesis
        using keeps_trans [OF keeps_trans [OF k2 ok(1)]] loop_ok_keeps [OF _ ok(2)] by (auto simp: out(2))
    qed (use assms(1) a b k2 Got x in \<open>auto simp: IngestOrThrow_def Let_def\<close>)
  qed (use assms(1) a k1 in \<open>auto simp: IngestOrThrow_def Let_def\<close>)
qed

text \<open>
  What a leaf can put into the process. From a receiver that satisfies its invariant, and if a call
  that runs out of memory leaves the invariant intact, \<open>Ingest\<close> on the batch span processor ends in one that does, and unless it leaves the processor as it was,
  there is one leaf, whose id is not empty, at most 128 bytes long and the caller's when the caller
  gave one, such that every record of the queue was there before or is fit for export: valid trace
  and span ids, sampled, not ending before it starts, within the span limits, and carrying a
  resource that names the leaf under the configured attribute, whatever the payload declares.
\<close>

theorem ingest_releases:
  assumes "receiver_inv r" and "d_batch_processor deps = Some Enqueue"
    and "Ingest deps env request (r, p, diag) = (res, r', p', diag')" "interrupts_keep env"
  shows "receiver_inv r' \<and> (p' = p \<or> (\<exists>leaf. leaf \<noteq> [] \<and> length leaf \<le> 128 \<and>
      (rq_leaf_id request \<noteq> [] \<longrightarrow> leaf = rq_leaf_id request) \<and>
      (\<forall>q \<in> set (m_queue p'). q_record q \<in> q_record ` set (m_queue p) \<or>
         released (d_span_limits deps) (o_leaf_id_attribute (r_options r)) (r_store r') leaf (q_record q))))"
proof (cases "r_shut_down r")
  case True
  then show ?thesis
    using assms keeps_count [of r "c_payloads_post_shutdown_update (\<lambda>n. n + 1)"]
    by (auto simp: Ingest_def keeps_def)
next
  case False
  obtain threw r1 res1 p1 diag1 where
    i: "IngestOrThrow deps env request (r, result_of IS_Accepted, p, diag) = (threw, r1, res1, p1, diag1)"
    by (metis surj_pair)
  have k: "keeps r1 r'" and p': "p' = p1"
    using assms(3) False i by (auto simp: Ingest_def split: if_splits)
  note rel = IngestOrThrow_released [OF i assms(1,2,4)]
  have all: "keeps r r'" using rel k keeps_trans by blast
  then have inv: "receiver_inv r'" "r_options r' = r_options r" using assms(1) by (auto simp: keeps_def)
  from rel consider "p' = p" | leaf where "settled_leaf request leaf"
      "loop_ok deps (q_record ` set (m_queue p)) leaf r' p'"
    unfolding p' using loop_ok_keeps [OF k] by blast
  then show ?thesis
  proof cases
    case 2
    then have "\<forall>q \<in> set (m_queue p'). q_record q \<in> q_record ` set (m_queue p) \<or>
        released (d_span_limits deps) (o_leaf_id_attribute (r_options r)) (r_store r') leaf (q_record q)"
      unfolding loop_ok_def queue_all_def inv(2) by blast
    then show ?thesis using inv(1) 2(1) unfolding settled_leaf_def kMaxLeafIdBytes_def by blast
  qed (simp add: inv)
qed

theorem ingest_releases_witness:
  "case Ingest sample_leaf_deps sample_leaf_env sample_leaf_request
     (SdkLeafReceiver_new sample_leaf_options, sample_leaf_processor, None) of
     (res, r', p', diag') \<Rightarrow> ir_status res = IS_Accepted \<and> (\<exists>q. m_queue p' = [q] \<and>
       released SpanLimitOptions_default ''device.id'' (r_store r') ''n1'' (q_record q))"
proof -
  obtain r' q where i: "Ingest sample_leaf_deps sample_leaf_env sample_leaf_request
     (SdkLeafReceiver_new sample_leaf_options, sample_leaf_processor, None) =
     ((result_of IS_Accepted)\<lparr>ir_spans_accepted := 1\<rparr>, r',
      sample_leaf_processor\<lparr>m_queue := [q], m_queue_bytes := 64\<rparr>, None)"
    using sample_leaf_ingested by blast
  have "d_batch_processor sample_leaf_deps = Some Enqueue" by (simp add: sample_leaf_deps_def)
  from ingest_releases [OF receiver_inv_new this i]
  have "released SpanLimitOptions_default ''device.id'' (r_store r') ''n1'' (q_record q)"
    by (auto simp: interrupts_keep_def sample_leaf_processor_def BatchSpanProcessor_new_def sample_leaf_deps_def)
  then show ?thesis by (simp add: i result_of_def)
qed

section \<open>Refused leaves\<close>

definition same_leaves :: "SdkLeafReceiver \<Rightarrow> SdkLeafReceiver \<Rightarrow> bool" where
  "same_leaves r r' \<longleftrightarrow> e_id ` set (entries (r_table r')) = e_id ` set (entries (r_table r)) \<and>
     lt_evicted (r_table r') = lt_evicted (r_table r) \<and> r_store r' = r_store r"

lemma same_leaves_refl [simp]: "same_leaves r r"
  by (simp add: same_leaves_def)

lemma same_leaves_count [simp]: "same_leaves r (count f r')  = same_leaves r r'"
  by (simp add: same_leaves_def count_def)

lemma same_leaves_unknown [simp]: "same_leaves r (r'\<lparr>r_unknown := u\<rparr>) = same_leaves r r'"
  by (simp add: same_leaves_def)

lemma ids_looked_up: "e_id ` set (looked_up leaf now es) = e_id ` set es"
  by (auto simp: looked_up_def tracked_def find_Some_iff move_to_front_def image_iff split: option.splits)

lemma same_leaves_Settings:
  "lt_inv (r_table r) \<Longrightarrow> Settings leaf now (r_table r) = (s, t) \<Longrightarrow> same_leaves r (r\<lparr>r_table := t\<rparr>)"
  using Touch_looked_up [of "r_table r" leaf now]
  by (auto simp: same_leaves_def Settings_def ids_looked_up split: prod.splits)

lemma ResolveSettings_same_leaves: "ResolveSettings env leaf r = (out, r') \<Longrightarrow> same_leaves r0 r \<Longrightarrow> same_leaves r0 r'"
  by (auto simp: ResolveSettings_def Let_def split: option.splits prod.splits)

lemma SettingsFor_refused:
  assumes "SettingsFor env leaf now r = (Got None, r')" "lt_inv (r_table r)"
  shows "same_leaves r r'"
proof -
  obtain cached t1 where c: "Settings leaf now (r_table r) = (cached, t1)" by force
  have adopted: "AdoptSettings leaf (Some fresh) now t \<noteq> (None, t')" if "lt_inv t" for t t' fresh
    by (auto simp: writing_operations [OF that] adopt_def)
  have same: "same_leaves r (r\<lparr>r_table := t1\<rparr>)" by (rule same_leaves_Settings [OF assms(2) c])
  have t1: "lt_inv t1" using table_step_ok [OF assms(2), of "\<lambda>_ _. True" "Op_Settings leaf now"] c
    by (simp add: resources_ok_def)
  obtain refused u2 where u: "(if o_unknown_leaf (r_options r) = Reject then uc_Contains leaf now (r_unknown r)
      else (False, r_unknown r)) = (refused, u2)" by force
  obtain out3 r3 where s: "ResolveSettings env leaf (r\<lparr>r_table := t1, r_unknown := u2\<rparr>) = (out3, r3)" by force
  have "same_leaves r r3" using ResolveSettings_same_leaves [OF s] same by simp
  moreover have "r_table r3 = t1"
    using s by (auto simp: ResolveSettings_def Let_def count_def split: option.splits prod.splits)
  ultimately show ?thesis
    using assms(1) c u s same adopted [OF t1]
    by (auto simp: SettingsFor_def Let_def split: option.splits if_splits prod.splits)
qed

lemma UnknownLeaf_path:
  assumes "Ingest deps env request (r, p, diag) = (res, r', p', diag')" "ir_status res = IS_UnknownLeaf"
  obtains "lr_Admit env request (ie_steady_now env) (r, diag) = (Refused res, r', diag')"
    | decoded modes r1 diag1 where
        "lr_Admit env request (ie_steady_now env) (r, diag) = (Got (decoded, modes), r1, diag1)"
        "Identify env request (ie_steady_now env) (decoded, modes) (r1, diag1) = (Refused res, r', diag')"
  using assms
  by (auto simp: Ingest_def IngestOrThrow_def interruptible_def Let_def result_of_def split: if_splits attempt.splits prod.splits option.splits)

lemma RefusedBeforeDecode_table:
  "RefusedBeforeDecode env request now r = (out, r') \<Longrightarrow> same_leaves r r' \<and> r_table r' = r_table r"
  by (auto simp: RefusedBeforeDecode_def split: if_splits prod.splits)

lemma lr_Admit_table:
  assumes "lr_Admit env request now (r, diag) = (out, r', diag')"
  shows "same_leaves r r' \<and> r_table r' = r_table r"
proof -
  obtain refused r0 where pre: "RefusedBeforeDecode env request now r = (refused, r0)" by force
  from assms RefusedBeforeDecode_table [OF pre] show ?thesis
    by (auto simp: lr_Admit_def pre Let_def lr_Reject_def split: if_splits decode_outcome.splits)
       (auto simp: count_def)
qed

lemma Identify_unknown:
  assumes "Identify env request now (decoded, modes) (r, diag) = (Refused res, r', diag')"
    and "ir_status res = IS_UnknownLeaf" "lt_inv (r_table r)"
  shows "same_leaves r r'"
  using assms SettingsFor_refused [OF _ assms(3), of env "SettleLeafId (r_options r) request decoded" now]
    SettingsFor_never_refuses
  by (auto simp: Identify_def Let_def lr_Reject_def result_of_def
      split: if_splits attempt.splits option.splits prod.splits)

text \<open>
  Refusing a leaf costs no accepted one. When \<open>Ingest\<close> answers \<open>UnknownLeaf\<close>, the table tracks the
  same leaves as before, none was evicted, no resource was stored, and the cache of refusals stays
  within its capacity: whatever stream of unknown ids arrives, it cannot push out an accepted leaf.
\<close>

theorem unknown_leaf_keeps_table:
  assumes "receiver_inv r" and "Ingest deps env request (r, p, diag) = (res, r', p', diag')"
    and "ir_status res = IS_UnknownLeaf"
  shows "same_leaves r r' \<and> length (answers (r_unknown r')) \<le> uc_capacity (r_unknown r')"
  using assms(2,3)
proof (cases rule: UnknownLeaf_path)
  case 1
  then show ?thesis
    using lr_Admit_table [OF 1] lr_Admit_keeps [OF 1] assms(1) by (auto simp: keeps_def receiver_inv_def uc_inv_def)
next
  case (2 decoded modes r1 diag1)
  note table = lr_Admit_table [OF 2(1)]
  have "keeps r r'" by (rule keeps_trans [OF lr_Admit_keeps [OF 2(1)] Identify_keeps [OF 2(2)]])
  moreover have "same_leaves r1 r'"
    using Identify_unknown [OF 2(2) assms(3)] table assms(1) by (simp add: receiver_inv_def)
  ultimately show ?thesis
    using table assms(1) by (auto simp: same_leaves_def keeps_def receiver_inv_def uc_inv_def)
qed

theorem unknown_leaf_keeps_table_witness:
  "let options = sample_leaf_options\<lparr>o_unknown_leaf := Reject\<rparr>; r = SdkLeafReceiver_new options
   in case Ingest sample_leaf_deps sample_leaf_env sample_leaf_request (r, sample_leaf_processor, None) of
        (res, r', p', diag') \<Rightarrow> ir_status res = IS_UnknownLeaf \<and> same_leaves r r'"
proof -
  let ?r = "SdkLeafReceiver_new (sample_leaf_options\<lparr>o_unknown_leaf := Reject\<rparr>)"
  obtain res r' p' diag' where
    i: "Ingest sample_leaf_deps sample_leaf_env sample_leaf_request (?r, sample_leaf_processor, None) =
      (res, r', p', diag')" by (metis surj_pair)
  have "r_leaves ?r = Map.empty"
    by (simp add: SdkLeafReceiver_new_def sample_leaf_options_def LeafReceiverOptions_default_def)
  then have "ir_status res = IS_UnknownLeaf"
    using i by (auto simp: Ingest_def IngestOrThrow_def interruptible_def lr_Admit_def RefusedBeforeDecode_def Let_def
        lr_Reject_def result_of_def kMaxLeafIdBytes_def)
  with unknown_leaf_keeps_table [OF receiver_inv_new i] i show ?thesis by simp
qed

end
