(* ===== verification/Metric_Series.thy ===== *)
theory Metric_Series
  imports Sampler Diagnostics "HOL-Library.List_Lexorder" "HOL-Library.Multiset"
begin

text \<open>
  Attribute sets and the series of an instrument (\<open>src/sdk/metric_attribute_set.cpp\<close>, and the block that
  \<open>SumStorage::Add\<close>, \<open>GaugeStorage::Record\<close>, \<open>HistogramStorage::Record\<close> and
  \<open>ExponentialHistogramStorage::Record\<close> share, which finds the series of a measurement or folds it
  into the overflow series when the cardinality limit is reached).

  \<open>std::hash\<close> is a parameter, \<open>std_hash\<close>: its values are left to the implementation; what is used of it,
  that equal doubles have equal hashes, is \<open>hash_ok\<close>. A double attribute is its bit pattern; equality
  of doubles is that of IEEE 754. \<open>std::ranges::sort\<close> by key is \<open>sort_key\<close>, which is stable; for distinct
  keys there is no other result. An \<open>unordered_map\<close> is a list of its entries with distinct keys, in
  the order of insertion; an iterator is a position. The order in which the map is traversed is not
  specified by C++, and no statement below depends on it.

  Proved here: two attribute sets are equal exactly when they give every key the same value, in
  whatever order they were written; and what becomes of the measurements of an instrument.
\<close>

section \<open>Attribute sets\<close>

record std_hash =
  hash_string :: "string \<Rightarrow> u64"
  hash_bool :: "bool \<Rightarrow> u64"
  hash_int64 :: "u64 \<Rightarrow> u64"
  hash_double :: "u64 \<Rightarrow> u64"

definition HashCombine :: "u64 \<Rightarrow> u64 \<Rightarrow> u64" where
  "HashCombine seed v = seed XOR (v + 0x9e3779b97f4a7c15 + push_bit 6 seed + drop_bit 2 seed)"

definition HashArray :: "('a \<Rightarrow> u64) \<Rightarrow> 'a list \<Rightarrow> u64" where
  "HashArray h vec = foldl (\<lambda>hash elem. HashCombine hash (h elem)) 0 vec"

fun ms_HashValue :: "std_hash \<Rightarrow> AttributeValue \<Rightarrow> u64" where
  "ms_HashValue h (AV_bool b) = hash_bool h b"
| "ms_HashValue h (AV_int64 i) = hash_int64 h i"
| "ms_HashValue h (AV_double d) = hash_double h d"
| "ms_HashValue h (AV_string s) = hash_string h s"
| "ms_HashValue h (AV_bools bs) = HashArray (hash_bool h) bs"
| "ms_HashValue h (AV_int64s is) = HashArray (hash_int64 h) is"
| "ms_HashValue h (AV_doubles ds) = HashArray (hash_double h) ds"
| "ms_HashValue h (AV_strings ss) = HashArray (hash_string h) ss"

definition HashPair :: "std_hash \<Rightarrow> KeyValue \<Rightarrow> u64" where
  "HashPair h pair = HashCombine (hash_string h (kv_key pair)) (ms_HashValue h (kv_value pair))"

definition HashPairs :: "std_hash \<Rightarrow> KeyValue list \<Rightarrow> u64" where
  "HashPairs h attrs = foldl (\<lambda>total pair. total + HashPair h pair) 0 attrs"

definition PairEqual :: "KeyValue \<Rightarrow> KeyValue \<Rightarrow> bool" where
  "PairEqual a b \<longleftrightarrow> kv_key a = kv_key b \<and> value_eq (kv_value a) (kv_value b)"

record AttributeSet =
  as_pairs :: "KeyValue list"
  as_hash :: u64

definition AttributeSet_of :: "std_hash \<Rightarrow> KeyValue list \<Rightarrow> AttributeSet" where
  "AttributeSet_of h attrs = \<lparr>as_pairs = sort_key kv_key attrs, as_hash = HashPairs h attrs\<rparr>"

definition HashOf :: "std_hash \<Rightarrow> KeyValue list \<Rightarrow> u64" where
  "HashOf h attrs = HashPairs h attrs"

definition AttributeSet_eq :: "AttributeSet \<Rightarrow> AttributeSet \<Rightarrow> bool" where
  "AttributeSet_eq a b =
     (if as_hash a \<noteq> as_hash b \<or> length (as_pairs a) \<noteq> length (as_pairs b) then False
      else list_all2 PairEqual (as_pairs a) (as_pairs b))"

definition MatchesSpan :: "AttributeSet \<Rightarrow> KeyValue list \<Rightarrow> bool" where
  "MatchesSpan a attrs =
     (if length (as_pairs a) \<noteq> length attrs then False
      else list_all (\<lambda>mine.
        case find (\<lambda>kv. kv_key kv = kv_key mine) attrs of
          None \<Rightarrow> False
        | Some found \<Rightarrow> value_eq (kv_value found) (kv_value mine)) (as_pairs a))"

definition OverflowAttributeSet :: "std_hash \<Rightarrow> AttributeSet" where
  "OverflowAttributeSet h = AttributeSet_of h [\<lparr>kv_key = ''otel.metric.overflow'', kv_value = AV_bool True\<rparr>]"

definition hash_ok :: "std_hash \<Rightarrow> bool" where
  "hash_ok h \<longleftrightarrow> (\<forall>a b. double_eq a b \<longrightarrow> hash_double h a = hash_double h b)"

subsection \<open>Equality is that of the maps\<close>

lemma double_eq_sym: "double_eq a b \<Longrightarrow> double_eq b a"
  by (auto simp: double_eq_def)

lemma double_eq_trans: "double_eq a b \<Longrightarrow> double_eq b c \<Longrightarrow> double_eq a c"
  by (auto simp: double_eq_def)

lemma list_all2_sym: "(\<And>a b. R a b \<Longrightarrow> R b a) \<Longrightarrow> list_all2 R xs ys \<Longrightarrow> list_all2 R ys xs"
  by (simp add: list_all2_conv_all_nth)

lemma value_eq_doubles [simp]: "value_eq (AV_doubles as) (AV_doubles bs) = list_all2 double_eq as bs"
  by (simp add: list_all2_iff list_all_iff)

declare value_eq.simps(2) [simp del]

lemma value_eq_sym: "value_eq a b \<Longrightarrow> value_eq b a"
  by (induction a b rule: value_eq.induct) (auto intro: double_eq_sym list_all2_sym [of double_eq])

lemma value_eq_trans: "value_eq a b \<Longrightarrow> value_eq b c \<Longrightarrow> value_eq a c"
  by (cases a; cases b; cases c) (auto intro: double_eq_trans list_all2_trans [of double_eq double_eq])

lemma HashArray_cong: "list_all2 (\<lambda>a b. h a = h b) xs ys \<Longrightarrow> HashArray h xs = HashArray h ys"
proof -
  have "list_all2 (\<lambda>a b. h a = h b) xs ys \<Longrightarrow>
      foldl (\<lambda>hash elem. HashCombine hash (h elem)) s xs = foldl (\<lambda>hash elem. HashCombine hash (h elem)) s ys" for s
    by (induction arbitrary: s rule: list_all2_induct) auto
  then show "list_all2 (\<lambda>a b. h a = h b) xs ys \<Longrightarrow> HashArray h xs = HashArray h ys"
    by (simp add: HashArray_def)
qed

lemma HashPair_cong: "hash_ok h \<Longrightarrow> PairEqual a b \<Longrightarrow> HashPair h a = HashPair h b"
proof -
  assume h: "hash_ok h" and "PairEqual a b"
  then have "kv_key a = kv_key b" and v: "value_eq (kv_value a) (kv_value b)" by (auto simp: PairEqual_def)
  moreover have "ms_HashValue h (kv_value a) = ms_HashValue h (kv_value b)"
    using v h by (cases "(kv_value a, kv_value b)" rule: value_eq.cases)
      (auto simp: hash_ok_def intro!: HashArray_cong elim: list_all2_mono)
  ultimately show "HashPair h a = HashPair h b" by (simp add: HashPair_def)
qed

lemma HashPairs_sum: "HashPairs h attrs = (\<Sum>p \<leftarrow> attrs. HashPair h p)"
proof -
  have "foldl (\<lambda>total pair. total + HashPair h pair) s attrs = s + (\<Sum>p \<leftarrow> attrs. HashPair h p)" for s
    by (induction attrs arbitrary: s) (auto simp: algebra_simps)
  then show ?thesis by (simp add: HashPairs_def)
qed

lemma HashPairs_perm: "mset xs = mset ys \<Longrightarrow> HashPairs h xs = HashPairs h ys"
  unfolding HashPairs_sum by (metis mset_map sum_mset_sum_list)

text \<open>A span read as a map; the keys are expected to be distinct.\<close>

abbreviation attr_map :: "KeyValue list \<Rightarrow> (string \<rightharpoonup> AttributeValue)" where
  "attr_map \<equiv> assoc_of kv_key kv_value"

definition same_map :: "KeyValue list \<Rightarrow> KeyValue list \<Rightarrow> bool" where
  "same_map xs ys \<longleftrightarrow> (\<forall>k. rel_option value_eq (attr_map xs k) (attr_map ys k))"

lemma attr_map_distinct: "distinct (map kv_key xs) \<Longrightarrow> p \<in> set xs \<Longrightarrow> attr_map xs (kv_key p) = Some (kv_value p)"
  by (auto simp: assoc_of_def o_def intro!: map_of_is_SomeI)

lemma attr_map_mset:
  assumes "distinct (map kv_key xs)" "mset xs = mset ys"
  shows "attr_map xs = attr_map ys"
proof -
  have "mset (map (\<lambda>e. (kv_key e, kv_value e)) xs) = mset (map (\<lambda>e. (kv_key e, kv_value e)) ys)"
    using assms(2) by (simp add: mset_map)
  moreover have "distinct (map fst (map (\<lambda>e. (kv_key e, kv_value e)) xs))" using assms(1) by (simp add: o_def)
  moreover have "distinct (map kv_key ys)" using assms by (metis mset_map mset_eq_imp_distinct_iff)
  then have "distinct (map fst (map (\<lambda>e. (kv_key e, kv_value e)) ys))" by (simp add: o_def)
  ultimately show ?thesis unfolding assoc_of_def by (intro map_of_inject_set [THEN iffD2] mset_eq_setD)
qed

lemma list_all2_same_map: "list_all2 PairEqual xs ys \<Longrightarrow> same_map xs ys"
  unfolding same_map_def
  by (induction rule: list_all2_induct) (auto simp: PairEqual_def)

lemma same_map_list_all2:
  assumes "same_map xs ys" "sorted (map kv_key xs)" "sorted (map kv_key ys)"
    and "distinct (map kv_key xs)" "distinct (map kv_key ys)"
  shows "list_all2 PairEqual xs ys"
proof -
  have "k \<in> kv_key ` set xs \<longleftrightarrow> k \<in> kv_key ` set ys" for k
  proof -
    have "(attr_map xs k = None) = (attr_map ys k = None)"
      using assms(1) by (metis same_map_def rel_option_None1 rel_option_None2)
    then show ?thesis by (simp add: assoc_of_None_iff)
  qed
  then have "set (map kv_key xs) = set (map kv_key ys)" by auto
  then have keys: "map kv_key xs = map kv_key ys"
    using assms(2-5) by (intro sorted_distinct_set_unique) auto
  then have len: "length xs = length ys" by (metis length_map)
  have "PairEqual (xs ! i) (ys ! i)" if "i < length xs" for i
  proof -
    have key: "kv_key (xs ! i) = kv_key (ys ! i)" using keys that len by (metis nth_map)
    have "attr_map xs (kv_key (xs ! i)) = Some (kv_value (xs ! i))"
      "attr_map ys (kv_key (xs ! i)) = Some (kv_value (ys ! i))"
      using attr_map_distinct [OF assms(4)] attr_map_distinct [OF assms(5)] that len key by (metis nth_mem)+
    then show ?thesis using assms(1) key by (metis PairEqual_def option.rel_inject(2) same_map_def)
  qed
  then show ?thesis using len by (simp add: list_all2_conv_all_nth)
qed

lemma AttributeSet_eq_same_map:
  assumes "hash_ok h" "distinct (map kv_key xs)" "distinct (map kv_key ys)"
  shows "AttributeSet_eq (AttributeSet_of h xs) (AttributeSet_of h ys) \<longleftrightarrow> same_map xs ys"
proof -
  let ?xs = "sort_key kv_key xs" and ?ys = "sort_key kv_key ys"
  have maps: "attr_map ?xs = attr_map xs" "attr_map ?ys = attr_map ys"
    using attr_map_mset [OF assms(2)] attr_map_mset [OF assms(3)] by (metis mset_sort)+
  have dist: "distinct (map kv_key ?xs)" "distinct (map kv_key ?ys)"
    using assms(2,3) by (metis mset_eq_imp_distinct_iff mset_map mset_sort)+
  have iff: "list_all2 PairEqual ?xs ?ys \<longleftrightarrow> same_map xs ys"
    using list_all2_same_map [of ?xs ?ys] same_map_list_all2 [of ?xs ?ys] dist maps
    by (auto simp: same_map_def sorted_sort_key)
  have "HashPairs h xs = HashPairs h ys \<and> length ?xs = length ?ys" if "list_all2 PairEqual ?xs ?ys"
  proof
    have "map (HashPair h) ?xs = map (HashPair h) ?ys"
      using that HashPair_cong [OF assms(1)] by (auto simp: list_all2_conv_all_nth list_eq_iff_nth_eq)
    then have "HashPairs h ?xs = HashPairs h ?ys" by (simp only: HashPairs_sum)
    then show "HashPairs h xs = HashPairs h ys" by (metis HashPairs_perm mset_sort)
    show "length ?xs = length ?ys" using that by (rule list_all2_lengthD)
  qed
  then show ?thesis using iff by (auto simp: AttributeSet_eq_def AttributeSet_of_def)
qed

lemma MatchesSpan_same_map:
  assumes "distinct (map kv_key xs)" "distinct (map kv_key ys)"
  shows "MatchesSpan (AttributeSet_of h xs) ys \<longleftrightarrow> same_map xs ys"
proof -
  have found: "(case find (\<lambda>kv. kv_key kv = k) ys of None \<Rightarrow> False | Some f \<Rightarrow> value_eq (kv_value f) v) \<longleftrightarrow>
      (\<exists>w. attr_map ys k = Some w \<and> value_eq w v)" for k v
    by (induction ys) auto
  have keys: "card (dom (attr_map xs)) = length xs" "card (dom (attr_map ys)) = length ys"
    using distinct_card [OF assms(1)] distinct_card [OF assms(2)] by simp_all
  have "MatchesSpan (AttributeSet_of h xs) ys \<longleftrightarrow>
      length xs = length ys \<and> (\<forall>p \<in> set xs. \<exists>w. attr_map ys (kv_key p) = Some w \<and> value_eq w (kv_value p))"
    by (auto simp: MatchesSpan_def AttributeSet_of_def list_all_iff found)
  also have "... \<longleftrightarrow> same_map xs ys"
  proof
    assume l: "length xs = length ys \<and> (\<forall>p \<in> set xs. \<exists>w. attr_map ys (kv_key p) = Some w \<and> value_eq w (kv_value p))"
    then have "dom (attr_map xs) \<subseteq> dom (attr_map ys)"
      unfolding dom_assoc_of [of kv_key kv_value xs] by (blast intro: domI)
    moreover have "finite (dom (attr_map ys))" by simp
    ultimately have dom: "dom (attr_map xs) = dom (attr_map ys)" using keys l by (simp add: card_subset_eq)
    have eq: "value_eq v w" if "attr_map xs k = Some v" "attr_map ys k = Some w" for k v w
    proof -
      from that(1) obtain p where "p \<in> set xs" "k = kv_key p" "v = kv_value p"
        by (auto simp: assoc_of_def dest!: map_of_SomeD)
      then show ?thesis using l that(2) value_eq_sym by fastforce
    qed
    have "rel_option value_eq (attr_map xs k) (attr_map ys k)" for k
    proof (cases "attr_map xs k")
      case None
      then have "attr_map ys k = None" using dom by (metis domIff)
      then show ?thesis using None by simp
    next
      case (Some v)
      then obtain w where "attr_map ys k = Some w" using dom by (metis domD domI)
      then show ?thesis using eq [OF Some] Some by simp
    qed
    then show "same_map xs ys" by (simp add: same_map_def)
  next
    assume m: "same_map xs ys"
    then have "(attr_map xs k = None) = (attr_map ys k = None)" for k
      by (metis same_map_def rel_option_None1 rel_option_None2)
    then have "dom (attr_map xs) = dom (attr_map ys)" by (auto simp del: dom_assoc_of simp: dom_def)
    then have "length xs = length ys" using keys by simp
    moreover have "\<exists>w. attr_map ys (kv_key p) = Some w \<and> value_eq w (kv_value p)" if "p \<in> set xs" for p
      using m attr_map_distinct [OF assms(1) that] value_eq_sym
      by (metis same_map_def option_rel_Some1)
    ultimately show "length xs = length ys \<and> (\<forall>p \<in> set xs. \<exists>w. attr_map ys (kv_key p) = Some w \<and> value_eq w (kv_value p))"
      by blast
  qed
  finally show ?thesis .
qed

text \<open>
  The key of a series. With distinct attribute keys, two attribute sets are equal exactly when
  they give the same keys equal values, whatever order the attributes came in; matching a borrowed
  span without building the set decides the same, under the same hash. So the order in which a
  program writes its attributes never splits a series, and no two sets that differ share one.
\<close>

theorem attribute_set_unordered:
  assumes "hash_ok h" and "distinct (map kv_key xs)" and "distinct (map kv_key ys)"
  shows "(AttributeSet_eq (AttributeSet_of h xs) (AttributeSet_of h ys) \<longleftrightarrow>
      (\<forall>k. rel_option value_eq (attr_map xs k) (attr_map ys k))) \<and>
    (MatchesSpan (AttributeSet_of h xs) ys \<longleftrightarrow> AttributeSet_eq (AttributeSet_of h xs) (AttributeSet_of h ys)) \<and>
    HashOf h xs = as_hash (AttributeSet_of h xs) \<and>
    (mset xs = mset ys \<longrightarrow> AttributeSet_of h xs = AttributeSet_of h ys)"
proof -
  have "AttributeSet_of h xs = AttributeSet_of h ys" if "mset xs = mset ys"
  proof -
    have "sort_key kv_key ys = sort_key kv_key xs"
    proof (rule properties_for_sort_key)
      show "mset (sort_key kv_key xs) = mset ys" using that by simp
      have one: "filter (\<lambda>x. kv_key k = kv_key x) zs = [k]" if "k \<in> set zs" "distinct (map kv_key zs)" for k zs
        using that by (induction zs) (auto simp: filter_empty_conv image_iff)
      fix k assume "k \<in> set (sort_key kv_key xs)"
      then have k: "k \<in> set (sort_key kv_key xs)" "k \<in> set ys" using that by (auto dest: mset_eq_setD)
      have "distinct (map kv_key (sort_key kv_key xs))"
        using assms(2) by (metis mset_eq_imp_distinct_iff mset_map mset_sort)
      then show "filter (\<lambda>x. kv_key k = kv_key x) (sort_key kv_key xs) = filter (\<lambda>x. kv_key k = kv_key x) ys"
        using one [OF k(1)] one [OF k(2) assms(3)] by simp
    qed (simp add: sorted_sort_key)
    then show ?thesis using HashPairs_perm [OF that] by (simp add: AttributeSet_of_def)
  qed
  then show ?thesis
    using AttributeSet_eq_same_map [OF assms] MatchesSpan_same_map [OF assms(2,3), of h]
    by (auto simp: same_map_def HashOf_def AttributeSet_of_def)
qed

definition sample_hash :: std_hash where
  "sample_hash = \<lparr>hash_string = (\<lambda>s. of_nat (length s)), hash_bool = (\<lambda>b. if b then 1 else 0), hash_int64 = (\<lambda>i. i),
     hash_double = (\<lambda>d. if unat d mod 2 ^ 63 = 0 then 0 else d)\<rparr>"

theorem attribute_set_unordered_witness:
  "let a = \<lparr>kv_key = ''a'', kv_value = AV_double 0\<rparr>; b = \<lparr>kv_key = ''b'', kv_value = AV_bool True\<rparr>;
       a' = \<lparr>kv_key = ''a'', kv_value = AV_double 0x8000000000000000\<rparr>
   in AttributeSet_of sample_hash [b, a] = AttributeSet_of sample_hash [a, b] \<and>
      AttributeSet_eq (AttributeSet_of sample_hash [a', b]) (AttributeSet_of sample_hash [b, a])"
proof -
  let ?a = "\<lparr>kv_key = ''a'', kv_value = AV_double 0\<rparr>" and ?b = "\<lparr>kv_key = ''b'', kv_value = AV_bool True\<rparr>"
  let ?a' = "\<lparr>kv_key = ''a'', kv_value = AV_double 0x8000000000000000\<rparr>"
  have h: "hash_ok sample_hash" by (auto simp: hash_ok_def sample_hash_def double_eq_def)
  have "double_eq 0x8000000000000000 0" by (simp add: double_eq_def is_nan_bits_def)
  then show ?thesis
    using attribute_set_unordered [OF h, of "[?b, ?a]" "[?a, ?b]"] attribute_set_unordered [OF h, of "[?a', ?b]" "[?b, ?a]"]
    by (simp add: Let_def)
qed

section \<open>The series of an instrument\<close>

type_synonym 'p series = "(AttributeSet \<times> 'p) list"

primrec series_find :: "AttributeSet \<Rightarrow> 'p series \<Rightarrow> nat option" where
  "series_find key [] = None"
| "series_find key (e # es) =
     (if AttributeSet_eq (fst e) key then Some 0 else map_option Suc (series_find key es))"

definition try_emplace :: "AttributeSet \<Rightarrow> 'p \<Rightarrow> 'p series \<Rightarrow> nat \<times> 'p series" where
  "try_emplace key fresh points =
     (case series_find key points of
        Some i \<Rightarrow> (i, points)
      | None \<Rightarrow> (length points, points @ [(key, fresh)]))"

definition find_or_emplace ::
    "std_hash \<Rightarrow> nat \<Rightarrow> 'p \<Rightarrow> KeyValue list \<Rightarrow> 'p series \<times> sink \<Rightarrow> nat \<times> 'p series \<times> sink" where
  "find_or_emplace h max_cardinality fresh attrs = (\<lambda>(points, diag).
     let key = AttributeSet_of h attrs
     in case series_find key points of
          Some i \<Rightarrow> (i, points, diag)
        | None \<Rightarrow>
            let needs_drop = (length points \<ge> max_cardinality);
                key' = (if needs_drop then OverflowAttributeSet h else key);
                (i, points') = try_emplace key' fresh points
            in (i, points', if needs_drop then count_drop CardinalityOverflow 1 diag else diag))"

definition update_at :: "nat \<Rightarrow> ('p \<Rightarrow> 'p) \<Rightarrow> 'p series \<Rightarrow> 'p series" where
  "update_at i f points = points[i := (fst (points ! i), f (snd (points ! i)))]"

definition insert_or_assign :: "AttributeSet \<Rightarrow> 'e \<Rightarrow> 'e series \<Rightarrow> 'e series" where
  "insert_or_assign key e es =
     (case series_find key es of
        Some i \<Rightarrow> update_at i (\<lambda>_. e) es
      | None \<Rightarrow> es @ [(key, e)])"

definition series_lookup :: "AttributeSet \<Rightarrow> 'e series \<Rightarrow> 'e option" where
  "series_lookup key es = map_option (\<lambda>i. snd (es ! i)) (series_find key es)"

text \<open>The shared block with the update of the point it finds.\<close>

definition series_record ::
    "std_hash \<Rightarrow> nat \<Rightarrow> 'p \<Rightarrow> ('p \<Rightarrow> 'p) \<Rightarrow> KeyValue list \<Rightarrow> 'p series \<times> sink \<Rightarrow> 'p series \<times> sink" where
  "series_record h max_cardinality fresh f attrs w =
     (let (i, points, diag) = find_or_emplace h max_cardinality fresh attrs w
      in (update_at i f points, diag))"

subsection \<open>Where a measurement goes\<close>

lemma AttributeSet_eq_iff: "AttributeSet_eq a b \<longleftrightarrow> as_hash a = as_hash b \<and> list_all2 PairEqual (as_pairs a) (as_pairs b)"
  by (auto simp: AttributeSet_eq_def dest: list_all2_lengthD)

lemma AttributeSet_eq_sym: "AttributeSet_eq a b \<Longrightarrow> AttributeSet_eq b a"
  by (auto simp: AttributeSet_eq_iff PairEqual_def intro: value_eq_sym elim!: list_all2_sym [rotated])

lemma AttributeSet_eq_trans: "AttributeSet_eq a b \<Longrightarrow> AttributeSet_eq b c \<Longrightarrow> AttributeSet_eq a c"
proof -
  have trans: "PairEqual p q \<Longrightarrow> PairEqual q r \<Longrightarrow> PairEqual p r" for p q r
    by (auto simp: PairEqual_def intro: value_eq_trans)
  show "AttributeSet_eq a b \<Longrightarrow> AttributeSet_eq b c \<Longrightarrow> AttributeSet_eq a c"
    unfolding AttributeSet_eq_iff using list_all2_trans [of PairEqual PairEqual PairEqual, OF trans] by auto
qed

lemma OverflowAttributeSet_refl: "AttributeSet_eq (OverflowAttributeSet h) (OverflowAttributeSet h)"
  by (simp add: OverflowAttributeSet_def AttributeSet_of_def AttributeSet_eq_iff PairEqual_def)

lemma series_find_Some:
  "series_find key es = Some i \<Longrightarrow> i < length es \<and> AttributeSet_eq (fst (es ! i)) key"
  by (induction es arbitrary: i) (auto split: if_splits)

lemma series_find_None: "series_find key es = None \<longleftrightarrow> (\<forall>e \<in> set es. \<not> AttributeSet_eq (fst e) key)"
  by (induction es) auto

lemma series_find_map: "series_find key (map (\<lambda>e. (fst e, g (snd e))) es) = series_find key es"
  by (induction es) auto

text \<open>The three ways a measurement can go: into its series, into a new one, into the overflow.\<close>

lemma series_record_cases:
  obtains (found) i where "i < length points" "AttributeSet_eq (fst (points ! i)) (AttributeSet_of h attrs)"
      "series_record h n fresh f attrs (points, diag) = (update_at i f points, diag)"
  | (new) "\<forall>e \<in> set points. \<not> AttributeSet_eq (fst e) (AttributeSet_of h attrs)" "length points < n"
      "series_record h n fresh f attrs (points, diag) = (points @ [(AttributeSet_of h attrs, f fresh)], diag)"
  | (folded) i where "\<forall>e \<in> set points. \<not> AttributeSet_eq (fst e) (AttributeSet_of h attrs)" "n \<le> length points"
      "i < length points" "AttributeSet_eq (fst (points ! i)) (OverflowAttributeSet h)"
      "series_record h n fresh f attrs (points, diag) = (update_at i f points, count_drop CardinalityOverflow 1 diag)"
  | (overflow) "\<forall>e \<in> set points. \<not> AttributeSet_eq (fst e) (AttributeSet_of h attrs)" "n \<le> length points"
      "\<forall>e \<in> set points. \<not> AttributeSet_eq (fst e) (OverflowAttributeSet h)"
      "series_record h n fresh f attrs (points, diag) =
         (points @ [(OverflowAttributeSet h, f fresh)], count_drop CardinalityOverflow 1 diag)"
proof (cases "series_find (AttributeSet_of h attrs) points")
  case (Some i)
  then show thesis
    using series_find_Some [OF Some] by (intro found) (auto simp: series_record_def find_or_emplace_def)
next
  case None
  have absent: "series_find key points = None \<Longrightarrow> try_emplace key fresh points = (length points, points @ [(key, fresh)])"
    for key by (simp add: try_emplace_def)
  have last: "update_at (length points) f (points @ [(key, fresh)]) = points @ [(key, f fresh)]" for key
    by (simp add: update_at_def)
  note none = None [unfolded series_find_None]
  show thesis
  proof (cases "n \<le> length points")
    case False
    then show thesis
      using None none by (intro new) (auto simp: series_record_def find_or_emplace_def absent last)
  next
    case full: True
    show thesis
    proof (cases "series_find (OverflowAttributeSet h) points")
      case (Some i)
      then show thesis
        using series_find_Some [OF Some] None none full
        by (intro folded) (auto simp: series_record_def find_or_emplace_def try_emplace_def)
    next
      case no: None
      then show thesis
        using None none full no [unfolded series_find_None]
        by (intro overflow) (auto simp: series_record_def find_or_emplace_def absent last)
    qed
  qed
qed

subsection \<open>What becomes of all measurements\<close>

text \<open>The run that keeps every value, and how any aggregation is read off it.\<close>

definition routed_step ::
    "std_hash \<Rightarrow> nat \<Rightarrow> KeyValue list \<times> 'v \<Rightarrow> 'v list series \<times> sink \<Rightarrow> 'v list series \<times> sink" where
  "routed_step h n m w = series_record h n [] (\<lambda>vs. vs @ [snd m]) (fst m) w"

definition routed :: "std_hash \<Rightarrow> nat \<Rightarrow> sink \<Rightarrow> (KeyValue list \<times> 'v) list \<Rightarrow> 'v list series \<times> sink" where
  "routed h n diag ms = foldl (\<lambda>w m. routed_step h n m w) ([], diag) ms"

abbreviation aggregated :: "('v \<Rightarrow> 'p \<Rightarrow> 'p) \<Rightarrow> 'p \<Rightarrow> 'v list series \<Rightarrow> 'p series" where
  "aggregated step fresh pts \<equiv> map (\<lambda>e. (fst e, foldl (\<lambda>p v. step v p) fresh (snd e))) pts"

lemma update_at_map:
  "i < length pts \<Longrightarrow> f' (g (snd (pts ! i))) = g (f (snd (pts ! i))) \<Longrightarrow>
   update_at i f' (map (\<lambda>e. (fst e, g (snd e))) pts) = map (\<lambda>e. (fst e, g (snd e))) (update_at i f pts)"
  by (simp add: update_at_def map_update)

lemma series_record_map:
  assumes "g fresh = fresh'" "\<And>p. f' (g p) = g (f p)"
  shows "series_record h n fresh' f' attrs (map (\<lambda>e. (fst e, g (snd e))) pts, diag) =
    map_prod (map (\<lambda>e. (fst e, g (snd e)))) id (series_record h n fresh f attrs (pts, diag))"
proof -
  have emplace: "try_emplace key fresh' (map (\<lambda>e. (fst e, g (snd e))) pts) =
      (let (i, pts') = try_emplace key fresh pts in (i, map (\<lambda>e. (fst e, g (snd e))) pts'))" for key
    by (auto simp: try_emplace_def series_find_map assms(1) split: option.splits)
  have bound: "fst (try_emplace key fresh pts) < length (snd (try_emplace key fresh pts))" for key
    using series_find_Some [of key pts] by (auto simp: try_emplace_def split: option.splits)
  have "find_or_emplace h n fresh' attrs (map (\<lambda>e. (fst e, g (snd e))) pts, diag) =
      (let (i, pts', d) = find_or_emplace h n fresh attrs (pts, diag) in (i, map (\<lambda>e. (fst e, g (snd e))) pts', d))"
    by (auto simp: find_or_emplace_def series_find_map emplace Let_def split: option.splits prod.splits)
  moreover have "fst (find_or_emplace h n fresh attrs (pts, diag)) < length (fst (snd (find_or_emplace h n fresh attrs (pts, diag))))"
    using bound series_find_Some [of "AttributeSet_of h attrs" pts]
    by (auto simp: find_or_emplace_def Let_def split: option.splits prod.splits) (metis fst_conv snd_conv)+
  ultimately show ?thesis
    by (auto simp: series_record_def update_at_map assms(2) split: prod.splits)
qed

lemma routed_snoc: "routed h n diag (ms @ [m]) = routed_step h n m (routed h n diag ms)"
  by (simp add: routed_def)

lemma routed_aggregates:
  "foldl (\<lambda>w m. series_record h n fresh (step (snd m)) (fst m) w) ([], diag) ms =
     map_prod (aggregated step fresh) id (routed h n diag ms)"
proof (induction ms rule: rev_induct)
  case (snoc m ms)
  obtain pts d where r: "routed h n diag ms = (pts, d)" by force
  show ?case
    using snoc series_record_map [where g = "foldl (\<lambda>p v. step v p) fresh" and fresh = "[]" and f' = "step (snd m)"
        and f = "\<lambda>vs. vs @ [snd m]" and fresh' = fresh and h = h and n = n and attrs = "fst m" and pts = pts and diag = d]
    by (simp add: routed_snoc routed_step_def r id_def)
qed (simp add: routed_def)

text \<open>A measurement whose own series exists, and the invariant of the routing.\<close>

definition in_series :: "std_hash \<Rightarrow> 'p series \<Rightarrow> KeyValue list \<Rightarrow> bool" where
  "in_series h pts attrs \<longleftrightarrow> (\<exists>e \<in> set pts. AttributeSet_eq (fst e) (AttributeSet_of h attrs))"

definition routing_ok :: "std_hash \<Rightarrow> nat \<Rightarrow> (KeyValue list \<times> 'v) list \<Rightarrow> 'v list series \<Rightarrow> bool" where
  "routing_ok h n ms pts \<longleftrightarrow> length pts \<le> n + 1 \<and>
     (n < length pts \<longrightarrow> (\<exists>e \<in> set pts. AttributeSet_eq (fst e) (OverflowAttributeSet h))) \<and>
     sorted_wrt (\<lambda>a b. \<not> AttributeSet_eq (fst a) (fst b)) pts \<and>
     mset (concat (map snd pts)) = mset (map snd ms) \<and> (\<forall>e \<in> set pts. snd e \<noteq> []) \<and>
     ((\<exists>m \<in> set ms. \<not> in_series h pts (fst m)) \<longrightarrow> n \<le> length pts) \<and>
     (\<forall>e \<in> set pts. \<not> AttributeSet_eq (fst e) (OverflowAttributeSet h) \<longrightarrow>
        snd e = map snd (filter (\<lambda>m. AttributeSet_eq (fst e) (AttributeSet_of h (fst m))) ms))"

lemma fst_update_at [simp]: "map fst (update_at i f pts) = map fst pts"
  by (cases "i < length pts") (simp_all add: update_at_def map_update list_update_same_conv list_update_beyond)

lemma in_series_fst: "in_series h pts attrs \<longleftrightarrow> (\<exists>k \<in> set (map fst pts). AttributeSet_eq k (AttributeSet_of h attrs))"
  by (auto simp: in_series_def)

lemma update_at_keys:
  "length (update_at i f pts) = length pts" "in_series h (update_at i f pts) = in_series h pts"
  "(\<exists>e \<in> set (update_at i f pts). Q (fst e)) = (\<exists>e \<in> set pts. Q (fst e))"
  "sorted_wrt (\<lambda>a b. R (fst a) (fst b)) (update_at i f pts) = sorted_wrt (\<lambda>a b. R (fst a) (fst b)) pts"
proof -
  have ex: "(\<exists>e \<in> set xs. Q (fst e)) = (\<exists>k \<in> set (map fst xs). Q k)" for xs :: "(AttributeSet \<times> 'a) list" and Q
    by auto
  show "length (update_at i f pts) = length pts" by (simp add: update_at_def)
  show "in_series h (update_at i f pts) = in_series h pts" by (rule ext) (simp only: in_series_fst fst_update_at)
  show "(\<exists>e \<in> set (update_at i f pts). Q (fst e)) = (\<exists>e \<in> set pts. Q (fst e))"
    by (simp only: ex fst_update_at)
  show "sorted_wrt (\<lambda>a b. R (fst a) (fst b)) (update_at i f pts) = sorted_wrt (\<lambda>a b. R (fst a) (fst b)) pts"
    using sorted_wrt_map [of R fst "update_at i f pts"] sorted_wrt_map [of R fst pts] by simp
qed

lemma update_at_values:
  "i < length pts \<Longrightarrow> mset (concat (map snd (update_at i (\<lambda>vs. vs @ [v]) pts))) = mset (concat (map snd pts)) + {#v#}"
  by (induction pts arbitrary: i) (auto simp: update_at_def nth_Cons' split: nat.splits)

lemma update_at_entries:
  assumes "e \<in> set (update_at i f pts)"
  obtains "i < length pts" "e = (fst (pts ! i), f (snd (pts ! i)))" | j where "j < length pts" "j \<noteq> i" "e = pts ! j"
proof -
  from assms obtain j where j: "j < length pts" "e = update_at i f pts ! j"
    by (auto simp: in_set_conv_nth update_at_def)
  then show thesis using that by (cases "j = i") (auto simp: update_at_def)
qed

lemma sorted_wrt_other:
  assumes "sorted_wrt (\<lambda>a b. \<not> AttributeSet_eq (fst a) (fst b)) pts" "i < length pts" "j < length pts" "i \<noteq> j"
  shows "\<not> AttributeSet_eq (fst (pts ! i)) (fst (pts ! j))"
  using assms AttributeSet_eq_sym sorted_wrt_nth_less [OF assms(1)] by (metis nat_neq_iff)

lemma routing_ok_update:
  assumes ok: "routing_ok h n ms pts" and i: "i < length pts"
    and none: "\<And>j. j < length pts \<Longrightarrow> j \<noteq> i \<Longrightarrow> \<not> AttributeSet_eq (fst (pts ! j)) (AttributeSet_of h (fst m))"
    and here: "AttributeSet_eq (fst (pts ! i)) (AttributeSet_of h (fst m)) \<or>
       AttributeSet_eq (fst (pts ! i)) (OverflowAttributeSet h) \<and> n \<le> length pts"
  shows "routing_ok h n (ms @ [m]) (update_at i (\<lambda>vs. vs @ [snd m]) pts)"
proof -
  let ?pts = "update_at i (\<lambda>vs. vs @ [snd m]) pts"
  have "snd e = map snd (filter (\<lambda>m. AttributeSet_eq (fst e) (AttributeSet_of h (fst m))) (ms @ [m]))"
    if "e \<in> set ?pts" "\<not> AttributeSet_eq (fst e) (OverflowAttributeSet h)" for e
    using that(1)
  proof (cases rule: update_at_entries)
    case 1
    then have "AttributeSet_eq (fst (pts ! i)) (AttributeSet_of h (fst m))" using here that(2) by auto
    then show ?thesis using 1 ok i that(2) by (auto simp: routing_ok_def)
  next
    case (2 j)
    then show ?thesis using ok none [of j] that(2) by (auto simp: routing_ok_def)
  qed
  moreover have "snd e \<noteq> []" if "e \<in> set ?pts" for e
    using that ok by (cases rule: update_at_entries) (auto simp: routing_ok_def)
  moreover have "in_series h pts (fst m) \<or> n \<le> length pts" using here i by (auto simp: in_series_def)
  moreover have "sorted_wrt (\<lambda>a b. \<not> AttributeSet_eq (fst a) (fst b)) ?pts"
    using ok unfolding routing_ok_def update_at_keys(4) [where R = "\<lambda>a b. \<not> AttributeSet_eq a b"] by blast
  moreover have "n < length pts \<longrightarrow> (\<exists>e \<in> set ?pts. AttributeSet_eq (fst e) (OverflowAttributeSet h))"
    using ok unfolding routing_ok_def update_at_keys(3) [where Q = "\<lambda>k. AttributeSet_eq k (OverflowAttributeSet h)"]
    by blast
  ultimately show ?thesis
    using ok by (simp add: routing_ok_def update_at_keys(1,2) update_at_values [OF i]) blast
qed

lemma routing_ok_append:
  assumes ok: "routing_ok h n ms pts" and len: "length pts \<le> n"
    and key: "AttributeSet_eq key key" "\<forall>e \<in> set pts. \<not> AttributeSet_eq (fst e) key"
    and none: "\<forall>e \<in> set pts. \<not> AttributeSet_eq (fst e) (AttributeSet_of h (fst m))"
    and new: "key = AttributeSet_of h (fst m) \<and> length pts < n \<or> key = OverflowAttributeSet h \<and> n \<le> length pts"
  shows "routing_ok h n (ms @ [m]) (pts @ [(key, [snd m])])"
proof -
  have old: "snd e = map snd (filter (\<lambda>m. AttributeSet_eq (fst e) (AttributeSet_of h (fst m))) (ms @ [m]))"
    if "e \<in> set pts" "\<not> AttributeSet_eq (fst e) (OverflowAttributeSet h)" for e
    using that ok none by (auto simp: routing_ok_def)
  have "filter (\<lambda>m. AttributeSet_eq key (AttributeSet_of h (fst m))) ms = []" if "\<not> AttributeSet_eq key (OverflowAttributeSet h)"
  proof -
    have lt: "length pts < n" using new that key(1) by auto
    have "\<not> AttributeSet_eq key (AttributeSet_of h (fst m'))" if m': "m' \<in> set ms" for m'
    proof
      assume eq: "AttributeSet_eq key (AttributeSet_of h (fst m'))"
      have "in_series h pts (fst m')" using ok m' lt by (auto simp: routing_ok_def)
      then show False
        using eq key(2) AttributeSet_eq_sym AttributeSet_eq_trans unfolding in_series_def by blast
    qed
    then show ?thesis by (simp add: filter_empty_conv)
  qed
  moreover have "AttributeSet_eq key (AttributeSet_of h (fst m))" if "\<not> AttributeSet_eq key (OverflowAttributeSet h)"
    using new that key(1) by auto
  moreover have "(\<exists>m' \<in> set (ms @ [m]). \<not> in_series h (pts @ [(key, [snd m])]) (fst m')) \<longrightarrow>
      n \<le> length (pts @ [(key, [snd m])])"
  proof
    assume "\<exists>m' \<in> set (ms @ [m]). \<not> in_series h (pts @ [(key, [snd m])]) (fst m')"
    then consider m' where "m' \<in> set ms" "\<not> in_series h pts (fst m')" | "\<not> in_series h (pts @ [(key, [snd m])]) (fst m)"
      by (auto simp: in_series_def)
    then show "n \<le> length (pts @ [(key, [snd m])])"
      using ok new key(1) by cases (auto simp: routing_ok_def in_series_def)
  qed
  moreover have "n < length (pts @ [(key, [snd m])]) \<longrightarrow>
      (\<exists>e \<in> set (pts @ [(key, [snd m])]). AttributeSet_eq (fst e) (OverflowAttributeSet h))"
    using new key(1) by auto
  moreover have "length pts \<le> n" "sorted_wrt (\<lambda>a b. \<not> AttributeSet_eq (fst a) (fst b)) (pts @ [(key, [snd m])])"
      "mset (concat (map snd pts)) = mset (map snd ms)" "\<forall>e \<in> set pts. snd e \<noteq> []"
    using ok len key(2) by (auto simp: routing_ok_def sorted_wrt_append)
  ultimately show ?thesis using old unfolding routing_ok_def by simp
qed

lemma routed_step_ok:
  assumes "routing_ok h n ms pts" "AttributeSet_eq (AttributeSet_of h (fst m)) (AttributeSet_of h (fst m))"
  shows "routing_ok h n (ms @ [m]) (fst (routed_step h n m (pts, diag)))"
proof (cases rule: series_record_cases [of pts h "fst m" n "[]" "\<lambda>vs. vs @ [snd m]" diag])
  case (found i)
  have "\<not> AttributeSet_eq (fst (pts ! j)) (AttributeSet_of h (fst m))" if "j < length pts" "j \<noteq> i" for j
    using sorted_wrt_other [of pts i j] assms(1) found(1,2) that AttributeSet_eq_sym AttributeSet_eq_trans
    unfolding routing_ok_def by blast
  then show ?thesis using routing_ok_update [OF assms(1) found(1)] found by (simp add: routed_step_def)
next
  case new
  then show ?thesis using routing_ok_append [OF assms(1) _ assms(2)] by (simp add: routed_step_def)
next
  case (folded i)
  then show ?thesis using routing_ok_update [OF assms(1) folded(3)] by (simp add: routed_step_def)
next
  case overflow
  then have "length pts \<le> n" using assms(1) by (fastforce simp: routing_ok_def not_less)
  then show ?thesis using routing_ok_append [OF assms(1) _ OverflowAttributeSet_refl [of h]] overflow
    by (simp add: routed_step_def)
qed

text \<open>Measurements whose attributes can be compared (no NaN among them) and do not claim the overflow.\<close>

definition plain_attrs :: "std_hash \<Rightarrow> KeyValue list \<Rightarrow> bool" where
  "plain_attrs h attrs \<longleftrightarrow> AttributeSet_eq (AttributeSet_of h attrs) (AttributeSet_of h attrs) \<and>
     \<not> AttributeSet_eq (OverflowAttributeSet h) (AttributeSet_of h attrs)"

lemma routed_ok:
  "\<forall>m \<in> set ms. plain_attrs h (fst m) \<Longrightarrow> routing_ok h n ms (fst (routed h n diag ms))"
proof (induction ms rule: rev_induct)
  case Nil
  then show ?case by (simp add: routed_def routing_ok_def)
next
  case (snoc m ms)
  then show ?case
    using routed_step_ok [of h n ms "fst (routed h n diag ms)" m "snd (routed h n diag ms)"]
    by (simp add: routed_snoc plain_attrs_def)
qed

definition unserved :: "std_hash \<Rightarrow> 'p series \<Rightarrow> (KeyValue list \<times> 'v) list \<Rightarrow> nat" where
  "unserved h pts ms = length (filter (\<lambda>m. \<not> in_series h pts (fst m)) ms)"

lemma unserved_step:
  assumes ok: "routing_ok h n ms pts" and plain: "\<forall>m \<in> set (ms @ [m]). plain_attrs h (fst m)"
    and step: "routed_step h n m (pts, diag) = (pts', diag')" and "diag \<noteq> None"
  shows "diag' \<noteq> None \<and> drops diag' CardinalityOverflow + of_nat (unserved h pts ms) =
    drops diag CardinalityOverflow + of_nat (unserved h pts' (ms @ [m]))"
proof (cases rule: series_record_cases [of pts h "fst m" n "[]" "\<lambda>vs. vs @ [snd m]" diag])
  case (found i)
  then have "in_series h pts (fst m)" by (auto simp: in_series_def)
  then show ?thesis
    using found step assms(4) by (auto simp: routed_step_def unserved_def update_at_keys(2))
next
  case new
  have "in_series h pts (fst m')" if "m' \<in> set ms" for m' using ok new(2) that by (force simp: routing_ok_def)
  moreover have "in_series h pts' (fst m)" "in_series h pts a \<Longrightarrow> in_series h pts' a" for a
    using new step plain by (auto simp: routed_step_def in_series_def plain_attrs_def)
  ultimately have "unserved h pts ms = 0" "unserved h pts' (ms @ [m]) = 0"
    by (auto simp: unserved_def filter_empty_conv)
  then show ?thesis using new step assms(4) by (auto simp: routed_step_def)
next
  case (folded i)
  then have "\<not> in_series h pts (fst m)" by (auto simp: in_series_def)
  moreover have "pts' = update_at i (\<lambda>vs. vs @ [snd m]) pts" "diag' = count_drop CardinalityOverflow 1 diag"
    using folded step by (simp_all add: routed_step_def)
  ultimately show ?thesis
    using assms(4) by (simp add: unserved_def update_at_keys(2) drops_count_drop del: not_None_eq)
next
  case overflow
  have same: "in_series h pts' (fst m') \<longleftrightarrow> in_series h pts (fst m')" if "m' \<in> set (ms @ [m])" for m'
  proof -
    have "pts' = pts @ [(OverflowAttributeSet h, [snd m])]" using overflow step by (simp add: routed_step_def)
    moreover have "\<not> AttributeSet_eq (OverflowAttributeSet h) (AttributeSet_of h (fst m'))"
      using plain that unfolding plain_attrs_def by blast
    ultimately show ?thesis by (simp add: in_series_def)
  qed
  have "\<not> in_series h pts (fst m)" using overflow by (auto simp: in_series_def)
  then have "unserved h pts' (ms @ [m]) = unserved h pts ms + 1"
    using same by (simp add: unserved_def cong: filter_cong)
  moreover have "diag' = count_drop CardinalityOverflow 1 diag" using overflow step by (simp add: routed_step_def)
  ultimately show ?thesis using assms(4) by (simp add: drops_count_drop del: not_None_eq)
qed

lemma fst_series_record:
  "fst (series_record h n fresh f attrs (pts, d)) = fst (series_record h n fresh f attrs (pts, d'))"
  by (auto simp: series_record_def find_or_emplace_def Let_def split: option.splits prod.splits)

abbreviation routed_series :: "std_hash \<Rightarrow> nat \<Rightarrow> (KeyValue list \<times> 'v) list \<Rightarrow> 'v list series" where
  "routed_series h n ms \<equiv> fst (routed h n None ms)"

lemma routed_series_snoc: "routed_series h n (ms @ [m]) = fst (routed_step h n m (routed_series h n ms, diag))"
  using fst_series_record [of h n "[]" "\<lambda>vs. vs @ [snd m]" "fst m" "routed_series h n ms" "snd (routed h n None ms)" diag]
  by (simp add: routed_snoc routed_step_def)

section \<open>The contract of a storage\<close>

text \<open>
  What the storages of all instruments promise: a measurement that is accepted goes through the
  shared block with the storage's own update of a point; one that is not finite is only counted.
\<close>

locale series_storage =
  fixes h :: std_hash
    and record_op :: "'m \<Rightarrow> 's \<times> sink \<Rightarrow> 's \<times> sink"
    and attrs_of :: "'m \<Rightarrow> KeyValue list"
    and value_of :: "'m \<Rightarrow> 'v"
    and accepts :: "'v \<Rightarrow> bool"
    and points :: "'s \<Rightarrow> 'p series"
    and config :: "'s \<Rightarrow> 'c"
    and limit :: "'c \<Rightarrow> nat"
    and fresh :: 'p
    and step :: "'c \<Rightarrow> 'v \<Rightarrow> 'p \<Rightarrow> 'p"
  assumes record_accepted: "accepts (value_of m) \<Longrightarrow> record_op m (st, diag) = (st', diag') \<Longrightarrow>
      (points st', diag') = series_record h (limit (config st)) fresh (step (config st) (value_of m)) (attrs_of m)
        (points st, diag)"
    and record_refused: "\<not> accepts (value_of m) \<Longrightarrow> record_op m (st, diag) = (st, count_drop NonFiniteValue 1 diag)"
    and record_config: "record_op m (st, diag) = (st', diag') \<Longrightarrow> config st' = config st"
begin

definition run :: "'m list \<Rightarrow> 's \<times> sink \<Rightarrow> 's \<times> sink" where
  "run ms w = foldl (\<lambda>w m. record_op m w) w ms"

definition accepted :: "'m list \<Rightarrow> (KeyValue list \<times> 'v) list" where
  "accepted ms = map (\<lambda>m. (attrs_of m, value_of m)) (filter (\<lambda>m. accepts (value_of m)) ms)"

lemma run_snoc: "run (ms @ [m]) w = record_op m (run ms w)"
  by (simp add: run_def)

lemma accepted_snoc:
  "accepted (ms @ [m]) = accepted ms @ (if accepts (value_of m) then [(attrs_of m, value_of m)] else [])"
  by (simp add: accepted_def)

lemma run_config: "config (fst (run ms (st, diag))) = config st"
proof (induction ms rule: rev_induct)
  case (snoc m ms)
  then show ?case by (metis record_config run_snoc prod.collapse)
qed (simp add: run_def)

text \<open>The points of a storage after any run, each the aggregation of the values routed to it.\<close>

lemma run_points:
  assumes "points st = []"
  shows "points (fst (run ms (st, diag))) = aggregated (step (config st)) fresh (routed_series h (limit (config st)) (accepted ms))"
proof (induction ms rule: rev_induct)
  case Nil
  then show ?case using assms by (simp add: run_def accepted_def routed_def)
next
  case (snoc m ms)
  obtain st1 d1 where r: "run ms (st, diag) = (st1, d1)" by force
  obtain st2 d2 where s: "record_op m (st1, d1) = (st2, d2)" by force
  have cfg: "config st1 = config st" using run_config [of ms st diag] r by simp
  let ?pts = "routed_series h (limit (config st)) (accepted ms)"
  show ?case
  proof (cases "accepts (value_of m)")
    case True
    have "points st2 = fst (series_record h (limit (config st)) fresh (step (config st) (value_of m)) (attrs_of m) (points st1, d1))"
      using record_accepted [OF True s] by (metis fst_conv cfg)
    also have "... = aggregated (step (config st)) fresh
        (fst (series_record h (limit (config st)) [] (\<lambda>vs. vs @ [value_of m]) (attrs_of m) (?pts, d1)))"
      using snoc r series_record_map [where g = "foldl (\<lambda>p v. step (config st) v p) fresh" and fresh = "[]"
          and f' = "step (config st) (value_of m)" and f = "\<lambda>vs. vs @ [value_of m]" and fresh' = fresh and h = h
          and n = "limit (config st)" and attrs = "attrs_of m" and pts = ?pts and diag = d1] by simp
    finally show ?thesis
      using True r s by (simp add: run_snoc accepted_snoc routed_series_snoc [where diag = d1] routed_step_def)
  next
    case False
    then show ?thesis using record_refused [OF False, of st1 d1] snoc r s by (simp add: run_snoc accepted_snoc)
  qed
qed

text \<open>Their drops: one for each refused value, and one for each value without a series of its own.\<close>

lemma run_drops:
  assumes "points st = []" "diag \<noteq> None" "\<forall>m \<in> set ms. plain_attrs h (attrs_of m)"
  shows "snd (run ms (st, diag)) \<noteq> None \<and>
    drops (snd (run ms (st, diag))) CardinalityOverflow = drops diag CardinalityOverflow +
      of_nat (unserved h (routed_series h (limit (config st)) (accepted ms)) (accepted ms)) \<and>
    drops (snd (run ms (st, diag))) NonFiniteValue = drops diag NonFiniteValue +
      of_nat (length (filter (\<lambda>m. \<not> accepts (value_of m)) ms))"
  using assms(3)
proof (induction ms rule: rev_induct)
  case Nil
  then show ?case using assms by (simp add: run_def accepted_def unserved_def)
next
  case (snoc m ms)
  obtain st1 d1 where r: "run ms (st, diag) = (st1, d1)" by force
  obtain st2 d2 where s: "record_op m (st1, d1) = (st2, d2)" by force
  have cfg: "config st1 = config st" using run_config [of ms st diag] r by simp
  let ?pts = "routed_series h (limit (config st)) (accepted ms)"
  have plain: "\<forall>m \<in> set (accepted ms). plain_attrs h (fst m)" using snoc.prems by (auto simp: accepted_def)
  note ih = snoc.IH [unfolded r]
  show ?case
  proof (cases "accepts (value_of m)")
    case True
    obtain pts' d' where step': "routed_step h (limit (config st)) (attrs_of m, value_of m) (?pts, d1) = (pts', d')" by force
    have "(points st2, d2) = map_prod (aggregated (step (config st)) fresh) id
        (series_record h (limit (config st)) [] (\<lambda>vs. vs @ [value_of m]) (attrs_of m) (?pts, d1))"
      using record_accepted [OF True s] run_points [OF assms(1), of ms diag] r cfg
        series_record_map [where g = "foldl (\<lambda>p v. step (config st) v p) fresh" and fresh = "[]"
          and f' = "step (config st) (value_of m)" and f = "\<lambda>vs. vs @ [value_of m]" and fresh' = fresh and h = h
          and n = "limit (config st)" and attrs = "attrs_of m" and pts = ?pts and diag = d1] by simp
    then have d2: "d2 = d'" using step' by (simp add: routed_step_def)
    have pts': "routed_series h (limit (config st)) (accepted (ms @ [m])) = pts'"
      using step' True by (simp add: accepted_snoc routed_series_snoc [where diag = d1])
    have nf: "drops d' NonFiniteValue = drops d1 NonFiniteValue"
      using step' ih snoc.prems
      by (cases rule: series_record_cases [of ?pts h "attrs_of m" "limit (config st)" "[]" "\<lambda>vs. vs @ [value_of m]" d1])
         (auto simp: routed_step_def drops_count_drop simp del: not_None_eq)
    show ?thesis
      using unserved_step [OF routed_ok [OF plain] _ step'] plain snoc.prems ih True r s d2 pts' nf
      by (auto simp: run_snoc accepted_snoc algebra_simps simp del: not_None_eq)
  next
    case False
    then show ?thesis
      using record_refused [OF False, of st1 d1] ih snoc.prems r s
      by (auto simp: run_snoc accepted_snoc drops_count_drop count_drop_None_iff simp del: not_None_eq)
  qed
qed

lemma run_series:
  assumes "points st = []" "diag \<noteq> None" "\<forall>m \<in> set ms. plain_attrs h (attrs_of m)"
    and "run ms (st, diag) = (st', diag')"
  obtains rs where "points st' = aggregated (step (config st)) fresh rs"
    "routing_ok h (limit (config st)) (accepted ms) rs"
    "drops diag' CardinalityOverflow = drops diag CardinalityOverflow + of_nat (unserved h (points st') (accepted ms))"
    "drops diag' NonFiniteValue = drops diag NonFiniteValue +
       of_nat (length (filter (\<lambda>m. \<not> accepts (value_of m)) ms))"
proof -
  let ?rs = "routed_series h (limit (config st)) (accepted ms)"
  have pts: "points st' = aggregated (step (config st)) fresh ?rs" using run_points [OF assms(1), of ms diag] assms(4) by simp
  have "in_series h (points st') = in_series h ?rs"
    by (rule ext) (simp only: pts in_series_fst, simp add: o_def)
  then have "unserved h (points st') (accepted ms) = unserved h ?rs (accepted ms)" by (simp add: unserved_def)
  moreover have "routing_ok h (limit (config st)) (accepted ms) ?rs"
    using assms(3) by (intro routed_ok) (auto simp: accepted_def)
  ultimately show thesis using that pts run_drops [OF assms(1-3)] assms(4) by simp
qed

end

end
