(* ===== verification/Metric_Storage.thy ===== *)
theory Metric_Storage
  imports Metric_Series
begin

text \<open>
  The storages of counters, gauges and explicit-bucket histograms (\<open>src/sdk/metric_sum_storage.cpp\<close>,
  \<open>metric_gauge_storage.cpp\<close>, \<open>metric_histogram_storage.cpp\<close>) with their snapshots
  (\<open>include/microtel/internal/metric_batch.hpp\<close>).

  The value type \<open>T\<close> of the templates, \<open>int64_t\<close> or \<open>double\<close>, is a record of the operations they use. A
  double is a \<open>double_value\<close>; the parameter \<open>fl\<close> rounds an exact result to a double, which may be an
  infinity. Bucket boundaries, minima and maxima are finite. 64-bit sums wrap; in C++ a signed sum
  that overflows is undefined. The current span and the clock are part of a measurement: what the
  span source and \<open>system_clock::now\<close> return while it is recorded.

  Proved here: every finite measurement is in exactly one point, its own or the overflow's; what
  each point then holds; and that the snapshots of a counter add up to everything recorded.
\<close>

section \<open>Values and snapshots\<close>

datatype MetricValue = MV_int64 "64 word" | MV_double double_value

datatype AggregationTemporality = Cumulative | Delta

record Exemplar =
  ex_span_context :: SpanContext
  ex_time :: int
  ex_value :: MetricValue
  ex_filtered_attributes :: "KeyValue list"

record NumberPoint =
  np_attributes :: "KeyValue list"
  np_start_time :: int
  np_time :: int
  np_value :: MetricValue
  np_exemplars :: "Exemplar list"

record HistogramPoint =
  hp_attributes :: "KeyValue list"
  hp_start_time :: int
  hp_time :: int
  hp_count :: u64
  hp_sum :: double_value
  hp_min :: "rat option"
  hp_max :: "rat option"
  hp_bucket_counts :: "u64 list"
  hp_explicit_bounds :: "rat list"
  hp_exemplars :: "Exemplar list"

record SumData =
  sd_temporality :: AggregationTemporality
  sd_is_monotonic :: bool
  sd_points :: "NumberPoint list"

record GaugeData = gd_points :: "NumberPoint list"

record HistogramData =
  hd_temporality :: AggregationTemporality
  hd_points :: "HistogramPoint list"

text \<open>The operations on \<open>T\<close> the storages use.\<close>

record 'v number =
  nm_double :: "'v \<Rightarrow> double_value"
  nm_zero :: 'v
  nm_add :: "'v \<Rightarrow> 'v \<Rightarrow> 'v"
  nm_value :: "'v \<Rightarrow> MetricValue"

fun double_add :: "(rat \<Rightarrow> double_value) \<Rightarrow> double_value \<Rightarrow> double_value \<Rightarrow> double_value" where
  "double_add fl (Finite a) (Finite b) = fl (a + b)"
| "double_add fl NaN b = NaN"
| "double_add fl a NaN = NaN"
| "double_add fl Plus_Inf Minus_Inf = NaN"
| "double_add fl Minus_Inf Plus_Inf = NaN"
| "double_add fl Plus_Inf b = Plus_Inf"
| "double_add fl Minus_Inf b = Minus_Inf"
| "double_add fl (Finite a) b = b"

definition int64_number :: "(rat \<Rightarrow> double_value) \<Rightarrow> 64 word number" where
  "int64_number fl =
     \<lparr>nm_double = (\<lambda>w. fl (of_int (sint w))), nm_zero = 0, nm_add = (+), nm_value = MV_int64\<rparr>"

definition double_number :: "(rat \<Rightarrow> double_value) \<Rightarrow> double_value number" where
  "double_number fl =
     \<lparr>nm_double = (\<lambda>d. d), nm_zero = Finite 0, nm_add = double_add fl, nm_value = MV_double\<rparr>"

text \<open>\<open>std::isfinite\<close>, with the number it accepts.\<close>

fun finite_of :: "double_value \<Rightarrow> rat option" where
  "finite_of (Finite x) = Some x"
| "finite_of _ = None"

record 'v measurement =
  me_value :: 'v
  me_attrs :: "KeyValue list"
  me_span :: "SpanContext option"
  me_now :: int

definition capture_exemplar :: "SpanContext option \<Rightarrow> int \<Rightarrow> MetricValue \<Rightarrow> Exemplar option" where
  "capture_exemplar source now v =
     (case source of
        None \<Rightarrow> None
      | Some ctx \<Rightarrow>
          if SpanContext_IsValid ctx \<and> TraceFlags_IsSampled (trace_flags ctx)
          then Some \<lparr>ex_span_context = ctx, ex_time = now, ex_value = v, ex_filtered_attributes = []\<rparr>
          else None)"

definition keep_exemplar :: "AttributeSet \<Rightarrow> Exemplar option \<Rightarrow> Exemplar series \<Rightarrow> Exemplar series" where
  "keep_exemplar key exemplar es =
     (case exemplar of Some e \<Rightarrow> insert_or_assign key e es | None \<Rightarrow> es)"

definition point_exemplars :: "AttributeSet \<Rightarrow> Exemplar series \<Rightarrow> Exemplar list" where
  "point_exemplars key es = (case series_lookup key es of Some e \<Rightarrow> [e] | None \<Rightarrow> [])"

section \<open>Sums\<close>

record 'v SumStorage =
  ss_monotonic :: bool
  ss_max_cardinality :: nat
  ss_points :: "'v series"
  ss_exemplars :: "Exemplar series"

definition Sum_Add :: "std_hash \<Rightarrow> 'v number \<Rightarrow> 'v measurement \<Rightarrow> 'v SumStorage \<times> sink \<Rightarrow> 'v SumStorage \<times> sink" where
  "Sum_Add h num m = (\<lambda>(st, diag).
     if finite_of (nm_double num (me_value m)) = None then (st, count_drop NonFiniteValue 1 diag)
     else
       let exemplar = capture_exemplar (me_span m) (me_now m) (nm_value num (me_value m));
           (i, pts, diag1) = find_or_emplace h (ss_max_cardinality st) (nm_zero num) (me_attrs m) (ss_points st, diag)
       in (st\<lparr>ss_points := update_at i (\<lambda>s. nm_add num s (me_value m)) pts,
              ss_exemplars := keep_exemplar (fst (pts ! i)) exemplar (ss_exemplars st)\<rparr>, diag1))"

definition number_point :: "'v number \<Rightarrow> Exemplar series \<Rightarrow> AttributeSet \<times> 'v \<Rightarrow> NumberPoint" where
  "number_point num es = (\<lambda>(key, v).
     \<lparr>np_attributes = as_pairs key, np_start_time = 0, np_time = 0, np_value = nm_value num v,
      np_exemplars = point_exemplars key es\<rparr>)"

definition Sum_Collect ::
    "'v number \<Rightarrow> AggregationTemporality \<Rightarrow> 'v SumStorage \<Rightarrow> SumData \<times> 'v SumStorage" where
  "Sum_Collect num temporality st =
     (\<lparr>sd_temporality = temporality, sd_is_monotonic = ss_monotonic st,
       sd_points = map (number_point num (ss_exemplars st)) (ss_points st)\<rparr>,
      st\<lparr>ss_exemplars := [], ss_points := (if temporality = Delta then [] else ss_points st)\<rparr>)"

section \<open>Gauges\<close>

record 'v GaugeStorage =
  gs_max_cardinality :: nat
  gs_points :: "'v series"
  gs_exemplars :: "Exemplar series"

definition Gauge_Record ::
    "std_hash \<Rightarrow> 'v number \<Rightarrow> 'v measurement \<Rightarrow> 'v GaugeStorage \<times> sink \<Rightarrow> 'v GaugeStorage \<times> sink" where
  "Gauge_Record h num m = (\<lambda>(st, diag).
     if finite_of (nm_double num (me_value m)) = None then (st, count_drop NonFiniteValue 1 diag)
     else
       let exemplar = capture_exemplar (me_span m) (me_now m) (nm_value num (me_value m));
           (i, pts, diag1) = find_or_emplace h (gs_max_cardinality st) (nm_zero num) (me_attrs m) (gs_points st, diag)
       in (st\<lparr>gs_points := update_at i (\<lambda>_. me_value m) pts,
              gs_exemplars := keep_exemplar (fst (pts ! i)) exemplar (gs_exemplars st)\<rparr>, diag1))"

definition Gauge_Collect :: "'v number \<Rightarrow> 'v GaugeStorage \<Rightarrow> GaugeData \<times> 'v GaugeStorage" where
  "Gauge_Collect num st =
     (\<lparr>gd_points = map (number_point num (gs_exemplars st)) (gs_points st)\<rparr>, st\<lparr>gs_exemplars := []\<rparr>)"

section \<open>Histograms\<close>

record Point =
  pt_count :: u64
  pt_sum :: double_value
  pt_min :: rat
  pt_max :: rat
  pt_bucket_counts :: "u64 list"

definition Point_new :: Point where
  "Point_new = \<lparr>pt_count = 0, pt_sum = Finite 0, pt_min = 0, pt_max = 0, pt_bucket_counts = []\<rparr>"

record HistogramStorage =
  hs_boundaries :: "rat list"
  hs_max_cardinality :: nat
  hs_points :: "Point series"
  hs_exemplars :: "Exemplar series"

text \<open>\<open>std::ranges::lower_bound\<close>: bisection of the \<open>len\<close> elements from \<open>first\<close> on.\<close>

function lower_bound :: "'a :: linorder list \<Rightarrow> 'a \<Rightarrow> nat \<Rightarrow> nat \<Rightarrow> nat" where
  "lower_bound bounds v first len =
     (if len = 0 then first
      else
        let half = len div 2; mid = first + half
        in if bounds ! mid < v then lower_bound bounds v (mid + 1) (len - half - 1)
           else lower_bound bounds v first half)"
  by pat_completeness auto
termination
  by (relation "measure (\<lambda>(_, _, _, len). len)") auto

declare lower_bound.simps [simp del]

definition histogram_step :: "(rat \<Rightarrow> double_value) \<Rightarrow> rat list \<Rightarrow> rat \<Rightarrow> Point \<Rightarrow> Point" where
  "histogram_step fl bounds observation p =
     (let p1 = (if pt_bucket_counts p = []
                then p\<lparr>pt_bucket_counts := replicate (length bounds + 1) 0, pt_min := observation, pt_max := observation\<rparr>
                else p\<lparr>pt_min := min (pt_min p) observation, pt_max := max (pt_max p) observation\<rparr>);
          bucket = lower_bound bounds observation 0 (length bounds)
      in p1\<lparr>pt_bucket_counts := (pt_bucket_counts p1)[bucket := pt_bucket_counts p1 ! bucket + 1],
            pt_count := pt_count p1 + 1,
            pt_sum := double_add fl (pt_sum p1) (Finite observation)\<rparr>)"

definition Histogram_Record ::
    "std_hash \<Rightarrow> (rat \<Rightarrow> double_value) \<Rightarrow> 'v number \<Rightarrow> 'v measurement \<Rightarrow> HistogramStorage \<times> sink \<Rightarrow>
     HistogramStorage \<times> sink" where
  "Histogram_Record h fl num m = (\<lambda>(st, diag).
     case finite_of (nm_double num (me_value m)) of
       None \<Rightarrow> (st, count_drop NonFiniteValue 1 diag)
     | Some observation \<Rightarrow>
         let exemplar = capture_exemplar (me_span m) (me_now m) (MV_double (Finite observation));
             (i, pts, diag1) = find_or_emplace h (hs_max_cardinality st) Point_new (me_attrs m) (hs_points st, diag)
         in (st\<lparr>hs_points := update_at i (histogram_step fl (hs_boundaries st) observation) pts,
                hs_exemplars := keep_exemplar (fst (pts ! i)) exemplar (hs_exemplars st)\<rparr>, diag1))"

definition Histogram_Collect :: "AggregationTemporality \<Rightarrow> HistogramStorage \<Rightarrow> HistogramData \<times> HistogramStorage" where
  "Histogram_Collect temporality st =
     (\<lparr>hd_temporality = temporality,
       hd_points = map (\<lambda>(key, p).
         \<lparr>hp_attributes = as_pairs key, hp_start_time = 0, hp_time = 0, hp_count = pt_count p, hp_sum = pt_sum p,
          hp_min = Some (pt_min p), hp_max = Some (pt_max p), hp_bucket_counts = pt_bucket_counts p,
          hp_explicit_bounds = hs_boundaries st, hp_exemplars = point_exemplars key (hs_exemplars st)\<rparr>)
         (hs_points st)\<rparr>,
      st\<lparr>hs_exemplars := [], hs_points := (if temporality = Delta then [] else hs_points st)\<rparr>)"

section \<open>All three keep the contract\<close>

lemma series_recordI:
  "find_or_emplace h n fresh attrs w = (i, pts, d) \<Longrightarrow> series_record h n fresh f attrs w = (update_at i f pts, d)"
  by (simp add: series_record_def)

interpretation sum_st: series_storage h "Sum_Add h num" me_attrs me_value
  "\<lambda>v. finite_of (nm_double num v) \<noteq> None" ss_points ss_max_cardinality "\<lambda>n. n" "nm_zero num"
  "\<lambda>_ v s. nm_add num s v"
  for h :: std_hash and num :: "'v number"
  by unfold_locales (auto simp: Sum_Add_def Let_def series_recordI split: prod.splits if_splits)

interpretation gauge_st: series_storage h "Gauge_Record h num" me_attrs me_value
  "\<lambda>v. finite_of (nm_double num v) \<noteq> None" gs_points gs_max_cardinality "\<lambda>n. n" "nm_zero num" "\<lambda>_ v _. v"
  for h :: std_hash and num :: "'v number"
  by unfold_locales (auto simp: Gauge_Record_def Let_def series_recordI split: prod.splits if_splits)

definition histogram_config :: "HistogramStorage \<Rightarrow> rat list \<times> nat" where
  "histogram_config st = (hs_boundaries st, hs_max_cardinality st)"

interpretation histogram_st: series_storage h "Histogram_Record h fl num" me_attrs "\<lambda>m. finite_of (nm_double num (me_value m))"
  "\<lambda>v. v \<noteq> None" hs_points histogram_config snd Point_new "\<lambda>c v. histogram_step fl (fst c) (the v)"
  for h :: std_hash and fl :: "rat \<Rightarrow> double_value" and num :: "'v number"
  by unfold_locales
    (auto simp: Histogram_Record_def Let_def series_recordI histogram_config_def split: prod.splits option.splits)

section \<open>Nothing is lost\<close>

definition finite_value :: "'v number \<Rightarrow> 'v measurement \<Rightarrow> bool" where
  "finite_value num m \<longleftrightarrow> finite_of (nm_double num (me_value m)) \<noteq> None"

text \<open>The finite measurements among \<open>ms\<close> with the attributes of a series.\<close>

definition of_series :: "std_hash \<Rightarrow> AttributeSet \<Rightarrow> 'v measurement list \<Rightarrow> 'v measurement list" where
  "of_series h key ms = filter (\<lambda>m. AttributeSet_eq key (AttributeSet_of h (me_attrs m))) ms"

text \<open>
  No finite measurement is lost, and none is counted twice. After any sequence of measurements
  into an empty sum, there are at most \<open>max_cardinality\<close> series and one for the overflow, no two with
  equal attributes; the values behind the points are together the values of all finite
  measurements; a series other than the overflow holds the sum of exactly the measurements with its
  attributes, in order. A measurement that got no series of its own is counted as an overflow,
  once, and a NaN or an infinity as not finite.
\<close>

theorem sum_series_conserved:
  assumes "ss_points st = []" and "\<forall>m \<in> set ms. plain_attrs h (me_attrs m)"
    and "foldl (\<lambda>w m. Sum_Add h num m w) (st, Some d) ms = (st', diag')"
    and "fin = filter (finite_value num) ms"
  shows "\<exists>rs. ss_points st' = map (\<lambda>(key, vs). (key, foldl (nm_add num) (nm_zero num) vs)) rs \<and>
      length rs \<le> ss_max_cardinality st + 1 \<and>
      sorted_wrt (\<lambda>a b. \<not> AttributeSet_eq (fst a) (fst b)) rs \<and>
      mset (concat (map snd rs)) = mset (map me_value fin) \<and>
      (\<forall>(key, vs) \<in> set rs. \<not> AttributeSet_eq key (OverflowAttributeSet h) \<longrightarrow>
         vs = map me_value (of_series h key fin)) \<and>
      drops diag' CardinalityOverflow = drops (Some d) CardinalityOverflow +
        of_nat (length (filter (\<lambda>m. \<not> in_series h (ss_points st') (me_attrs m)) fin)) \<and>
      drops diag' NonFiniteValue = drops (Some d) NonFiniteValue + of_nat (length ms - length fin)"
proof -
  have acc: "sum_st.accepted num ms = map (\<lambda>m. (me_attrs m, me_value m)) fin"
    unfolding sum_st.accepted_def assms(4) finite_value_def [abs_def] by simp
  have "sum_st.run h num ms (st, Some d) = (st', diag')" using assms(3) by (simp add: sum_st.run_def)
  from sum_st.run_series [OF assms(1) _ assms(2) this] obtain rs where
    pts: "ss_points st' = aggregated (\<lambda>v s. nm_add num s v) (nm_zero num) rs" and
    ok: "routing_ok h (ss_max_cardinality st) (map (\<lambda>m. (me_attrs m, me_value m)) fin) rs" and
    card: "drops diag' CardinalityOverflow = drops (Some d) CardinalityOverflow +
       of_nat (unserved h (ss_points st') (map (\<lambda>m. (me_attrs m, me_value m)) fin))" and
    nf: "drops diag' NonFiniteValue = drops (Some d) NonFiniteValue +
       of_nat (length (filter (\<lambda>m. \<not> finite_of (nm_double num (me_value m)) \<noteq> None) ms))"
    unfolding acc by blast
  have "length (filter (\<lambda>m. \<not> finite_of (nm_double num (me_value m)) \<noteq> None) ms) = length ms - length fin"
    using sum_length_filter_compl [of "finite_value num" ms] by (simp add: assms(4) finite_value_def)
  moreover have "unserved h (ss_points st') (map (\<lambda>m. (me_attrs m, me_value m)) fin) =
      length (filter (\<lambda>m. \<not> in_series h (ss_points st') (me_attrs m)) fin)"
    by (simp add: unserved_def filter_map o_def)
  moreover have "\<forall>(key, vs) \<in> set rs. \<not> AttributeSet_eq key (OverflowAttributeSet h) \<longrightarrow>
         vs = map me_value (of_series h key fin)"
    using ok by (auto simp: routing_ok_def of_series_def filter_map o_def)
  ultimately show ?thesis
    using pts ok card nf by (intro exI [of _ rs]) (auto simp: routing_ok_def o_def split_def)
qed

definition sample_measurement :: "double_value \<Rightarrow> string \<Rightarrow> double_value measurement" where
  "sample_measurement v k =
     \<lparr>me_value = v, me_attrs = [\<lparr>kv_key = k, kv_value = AV_bool True\<rparr>], me_span = None, me_now = 0\<rparr>"

lemma plain_attrs_one: "k \<noteq> ''otel.metric.overflow'' \<Longrightarrow> plain_attrs h [\<lparr>kv_key = k, kv_value = AV_bool b\<rparr>]"
  by (simp add: plain_attrs_def OverflowAttributeSet_def AttributeSet_of_def AttributeSet_eq_iff PairEqual_def)

theorem sum_series_conserved_witness:
  "let ms = [sample_measurement (Finite 1) ''a'', sample_measurement NaN ''a'', sample_measurement (Finite 2) ''b''];
       st = \<lparr>ss_monotonic = True, ss_max_cardinality = 1, ss_points = [], ss_exemplars = []\<rparr>
   in case foldl (\<lambda>w m. Sum_Add sample_hash (double_number Finite) m w) (st, Some DiagnosticsCounters_init) ms of
        (st', diag') \<Rightarrow> length (ss_points st') \<le> 2 \<and> drops diag' NonFiniteValue = 1"
proof -
  let ?ms = "[sample_measurement (Finite 1) ''a'', sample_measurement NaN ''a'', sample_measurement (Finite 2) ''b'']"
  let ?st = "\<lparr>ss_monotonic = True, ss_max_cardinality = 1, ss_points = [], ss_exemplars = []\<rparr> :: double_value SumStorage"
  obtain st' diag' where r: "foldl (\<lambda>w m. Sum_Add sample_hash (double_number Finite) m w)
      (?st, Some DiagnosticsCounters_init) ?ms = (st', diag')" by force
  have "\<forall>m \<in> set ?ms. plain_attrs sample_hash (me_attrs m)"
    by (simp add: sample_measurement_def plain_attrs_one)
  from sum_series_conserved [OF _ this r refl] have "length (ss_points st') \<le> 2 \<and> drops diag' NonFiniteValue = 1"
    by (auto simp: finite_value_def sample_measurement_def double_number_def drops_init)
  then show ?thesis using r by simp
qed

section \<open>Snapshots add up\<close>

text \<open>A counter's life: measurements, interleaved with the collections of its reader.\<close>

datatype sum_event = SE_Add "64 word measurement" | SE_Collect AggregationTemporality

fun sum_event_step ::
    "std_hash \<Rightarrow> 64 word number \<Rightarrow> (64 word SumStorage \<times> sink) \<times> SumData list \<Rightarrow> sum_event \<Rightarrow>
     (64 word SumStorage \<times> sink) \<times> SumData list" where
  "sum_event_step h num (w, out) (SE_Add m) = (Sum_Add h num m w, out)"
| "sum_event_step h num ((st, diag), out) (SE_Collect t) =
     (let (data, st1) = Sum_Collect num t st in ((st1, diag), out @ [data]))"

definition point_total :: "SumData \<Rightarrow> 64 word" where
  "point_total data = (\<Sum>p \<leftarrow> sd_points data. case np_value p of MV_int64 v \<Rightarrow> v | MV_double _ \<Rightarrow> 0)"

fun added :: "64 word number \<Rightarrow> sum_event \<Rightarrow> 64 word" where
  "added num (SE_Add m) = (if finite_value num m then me_value m else 0)"
| "added num (SE_Collect _) = 0"

definition series_total :: "64 word series \<Rightarrow> 64 word" where
  "series_total pts = sum_list (map snd pts)"

lemma series_total_update:
  "i < length pts \<Longrightarrow> series_total (update_at i (\<lambda>s. s + v) pts) = series_total pts + v"
  by (induction pts arbitrary: i) (auto simp: series_total_def update_at_def nth_Cons' algebra_simps split: nat.splits)

lemma series_total_record:
  "series_total (fst (series_record h n 0 (\<lambda>s. s + v) attrs (pts, diag))) = series_total pts + v"
  by (cases rule: series_record_cases [of pts h attrs n 0 "\<lambda>s. s + v" diag])
    (simp_all add: series_total_update, simp_all add: series_total_def)

lemma Sum_Add_total:
  assumes "num = int64_number fl"
  shows "series_total (ss_points (fst (Sum_Add h num m (st, diag)))) = series_total (ss_points st) + added num (SE_Add m)"
proof (cases "finite_value num m")
  case True
  obtain st' d' where r: "Sum_Add h num m (st, diag) = (st', d')" by force
  have "(ss_points st', d') = series_record h (ss_max_cardinality st) 0 (\<lambda>s. s + me_value m) (me_attrs m) (ss_points st, diag)"
    using sum_st.record_accepted [OF _ r] True by (simp add: finite_value_def assms int64_number_def)
  then show ?thesis
    using series_total_record [of h "ss_max_cardinality st" "me_value m" "me_attrs m" "ss_points st" diag] r True
    by (metis added.simps(1) fst_conv)
next
  case False
  then show ?thesis by (simp add: Sum_Add_def finite_value_def)
qed

lemma Sum_Collect_total:
  assumes "num = int64_number fl"
  shows "point_total (fst (Sum_Collect num t st)) = series_total (ss_points st)"
  by (simp add: Sum_Collect_def point_total_def series_total_def number_point_def assms int64_number_def o_def split_def)

text \<open>
  The snapshots of a counter account for everything added. However measurements and
  collections interleave, delta snapshots taken so far and the points still in the storage add up,
  over all series, to the sum of all finite measurements modulo \<open>2 ^ 64\<close>; and if only cumulative
  snapshots are taken, each reports the sum of all finite measurements before it.
\<close>

theorem sum_snapshots_add_up:
  assumes "ss_points st = []" and "num = int64_number fl"
    and "foldl (sum_event_step h num) ((st, diag), []) evs = ((st', diag'), out)"
  shows "(SE_Collect Cumulative \<notin> set evs \<longrightarrow>
      sum_list (map point_total out) + series_total (ss_points st') = sum_list (map (added num) evs)) \<and>
    (SE_Collect Delta \<notin> set evs \<longrightarrow>
      series_total (ss_points st') = sum_list (map (added num) evs) \<and>
      point_total (fst (Sum_Collect num Cumulative st')) = sum_list (map (added num) evs))"
  using assms(3)
proof (induction evs arbitrary: st' diag' out rule: rev_induct)
  case Nil
  then show ?case using assms(1) Sum_Collect_total [OF assms(2), of Cumulative st'] by (simp add: series_total_def)
next
  case (snoc ev evs)
  obtain st1 d1 out1 where r: "foldl (sum_event_step h num) ((st, diag), []) evs = ((st1, d1), out1)"
    by (metis prod.exhaust)
  have total: "point_total (fst (Sum_Collect num Cumulative st')) = series_total (ss_points st')"
    by (rule Sum_Collect_total [OF assms(2)])
  show ?case
  proof (cases ev)
    case (SE_Add m)
    then have "Sum_Add h num m (st1, d1) = (st', diag')" "out = out1" using snoc.prems r by simp_all
    then show ?thesis
      using snoc.IH [OF r] Sum_Add_total [OF assms(2), of h m st1 d1] total SE_Add by (auto simp: algebra_simps)
  next
    case (SE_Collect t)
    then have "out = out1 @ [fst (Sum_Collect num t st1)]" "ss_points st' = (if t = Delta then [] else ss_points st1)"
      using snoc.prems r by (auto simp: Sum_Collect_def)
    then show ?thesis
      using snoc.IH [OF r] Sum_Collect_total [OF assms(2), of t st1] total SE_Collect
      by (cases t) (auto simp: series_total_def)
  qed
qed

theorem sum_snapshots_add_up_witness:
  "let m = \<lparr>me_value = 5, me_attrs = [], me_span = None, me_now = 0\<rparr>;
       st = \<lparr>ss_monotonic = True, ss_max_cardinality = 1, ss_points = [], ss_exemplars = []\<rparr>
   in case foldl (sum_event_step sample_hash (int64_number Finite)) ((st, None), []) [SE_Add m, SE_Collect Delta, SE_Add m] of
        ((st', diag'), out) \<Rightarrow> sum_list (map point_total out) + series_total (ss_points st') = 10"
proof -
  let ?m = "\<lparr>me_value = 5, me_attrs = [], me_span = None, me_now = 0\<rparr> :: 64 word measurement"
  let ?st = "\<lparr>ss_monotonic = True, ss_max_cardinality = 1, ss_points = [], ss_exemplars = []\<rparr> :: 64 word SumStorage"
  obtain st' diag' out where r: "foldl (sum_event_step sample_hash (int64_number Finite)) ((?st, None), [])
      [SE_Add ?m, SE_Collect Delta, SE_Add ?m] = ((st', diag'), out)" by (metis prod.exhaust)
  then have "sum_list (map point_total out) + series_total (ss_points st') = 10"
    using sum_snapshots_add_up [OF _ refl r] by (simp add: finite_value_def int64_number_def)
  then show ?thesis using r by simp
qed

section \<open>Buckets\<close>

lemma lower_bound_partition:
  assumes "sorted bounds" "first + len \<le> length bounds" "\<forall>i < first. bounds ! i < v"
    and "\<forall>i. first + len \<le> i \<and> i < length bounds \<longrightarrow> v \<le> bounds ! i"
  shows "lower_bound bounds v first len \<le> length bounds \<and> (\<forall>i < lower_bound bounds v first len. bounds ! i < v) \<and>
    (\<forall>i. lower_bound bounds v first len \<le> i \<and> i < length bounds \<longrightarrow> v \<le> bounds ! i)"
  using assms
proof (induction bounds v first len rule: lower_bound.induct)
  case (1 bounds v first len)
  show ?case
  proof (cases "len = 0")
    case True
    then show ?thesis using "1.prems" by (subst (1 2 3) lower_bound.simps) auto
  next
    case False
    let ?mid = "first + len div 2"
    have mid: "?mid < length bounds" using "1.prems"(2) False by linarith
    show ?thesis
    proof (cases "bounds ! ?mid < v")
      case True
      have "\<forall>i < ?mid + 1. bounds ! i < v"
        using True sorted_nth_mono [OF "1.prems"(1)] mid by (metis add.commute less_Suc_eq_le order.strict_trans1 plus_1_eq_Suc)
      moreover have "?mid + 1 + (len - len div 2 - 1) = first + len" using False by linarith
      ultimately have "?mid + 1 + (len - len div 2 - 1) \<le> length bounds" "\<forall>i < ?mid + 1. bounds ! i < v"
        "\<forall>i. ?mid + 1 + (len - len div 2 - 1) \<le> i \<and> i < length bounds \<longrightarrow> v \<le> bounds ! i"
        using "1.prems"(2,4) by simp_all
      from "1.IH"(1) [OF False refl refl True "1.prems"(1) this] show ?thesis
        using False True by (simp add: lower_bound.simps [of bounds v first len] Let_def)
    next
      case ge: False
      have "first + len div 2 \<le> length bounds" using mid by simp
      moreover have "\<forall>i. first + len div 2 \<le> i \<and> i < length bounds \<longrightarrow> v \<le> bounds ! i"
        using ge sorted_nth_mono [OF "1.prems"(1)] by (meson not_less order.trans)
      ultimately show ?thesis
        using "1.IH"(2) [OF False refl refl ge "1.prems"(1) _ "1.prems"(3)] False ge
        by (simp add: lower_bound.simps [of bounds v first len] Let_def)
    qed
  qed
qed

definition in_bucket :: "rat list \<Rightarrow> nat \<Rightarrow> rat \<Rightarrow> bool" where
  "in_bucket bounds i v \<longleftrightarrow> (i < length bounds \<longrightarrow> v \<le> bounds ! i) \<and> (0 < i \<longrightarrow> bounds ! (i - 1) < v)"

lemma lower_bound_bucket:
  assumes "sorted bounds" "i \<le> length bounds"
  shows "lower_bound bounds v 0 (length bounds) = i \<longleftrightarrow> in_bucket bounds i v"
proof -
  let ?r = "lower_bound bounds v 0 (length bounds)"
  have r: "?r \<le> length bounds" "\<And>i. i < ?r \<Longrightarrow> bounds ! i < v"
    "\<And>i. ?r \<le> i \<Longrightarrow> i < length bounds \<Longrightarrow> v \<le> bounds ! i"
    using lower_bound_partition [OF assms(1), of 0 "length bounds" v] by auto
  show ?thesis
  proof
    assume "?r = i"
    then show "in_bucket bounds i v" using r assms(2) by (auto simp: in_bucket_def)
  next
    assume b: "in_bucket bounds i v"
    have "\<not> ?r < i" using b r(3) [of "i - 1"] assms(2) by (fastforce simp: in_bucket_def)
    moreover have "\<not> i < ?r" using b r(1) r(2) [of i] by (fastforce simp: in_bucket_def)
    ultimately show "?r = i" by simp
  qed
qed

text \<open>A point that summarises a list of observations.\<close>

definition summarises :: "(rat \<Rightarrow> double_value) \<Rightarrow> rat list \<Rightarrow> rat list \<Rightarrow> Point \<Rightarrow> bool" where
  "summarises fl bounds vs p \<longleftrightarrow> pt_count p = of_nat (length vs) \<and>
     pt_sum p = foldl (\<lambda>s v. double_add fl s (Finite v)) (Finite 0) vs \<and>
     pt_min p = Min (set vs) \<and> pt_max p = Max (set vs) \<and>
     length (pt_bucket_counts p) = length bounds + 1 \<and>
     (\<forall>i \<le> length bounds. pt_bucket_counts p ! i = of_nat (length (filter (in_bucket bounds i) vs)))"

lemma histogram_step_eq:
  "pt_bucket_counts p \<noteq> [] \<Longrightarrow> r = lower_bound bounds v 0 (length bounds) \<Longrightarrow>
   histogram_step fl bounds v p =
     p\<lparr>pt_min := min (pt_min p) v, pt_max := max (pt_max p) v,
       pt_bucket_counts := (pt_bucket_counts p)[r := pt_bucket_counts p ! r + 1],
       pt_count := pt_count p + 1, pt_sum := double_add fl (pt_sum p) (Finite v)\<rparr>"
  by (simp add: histogram_step_def Let_def)

lemma histogram_step_first:
  "r = lower_bound bounds v 0 (length bounds) \<Longrightarrow>
   histogram_step fl bounds v Point_new =
     \<lparr>pt_count = 1, pt_sum = double_add fl (Finite 0) (Finite v), pt_min = v, pt_max = v,
      pt_bucket_counts = (replicate (length bounds + 1) 0)[r := replicate (length bounds + 1) 0 ! r + 1]\<rparr>"
  by (simp add: histogram_step_def Let_def Point_new_def del: replicate_Suc)

lemma histogram_summarises:
  assumes "sorted bounds"
  shows "vs \<noteq> [] \<Longrightarrow> summarises fl bounds vs (foldl (\<lambda>p v. histogram_step fl bounds v p) Point_new vs)"
proof (induction vs rule: rev_induct)
  case (snoc v vs)
  define p where "p = foldl (\<lambda>p v. histogram_step fl bounds v p) Point_new vs"
  define r where "r = lower_bound bounds v 0 (length bounds)"
  have b: "r \<le> length bounds" using lower_bound_partition [OF assms, of 0 "length bounds" v] by (simp add: r_def)
  have here: "in_bucket bounds i v \<longleftrightarrow> i = r" if "i \<le> length bounds" for i
    using lower_bound_bucket [OF assms that, of v] by (auto simp: r_def)
  show ?case
  proof (cases "vs = []")
    case True
    then show ?thesis
      using b here by (auto simp: summarises_def histogram_step_first [OF r_def] nth_list_update
          simp del: replicate_Suc)
  next
    case False
    then have s: "summarises fl bounds vs p" using snoc.IH by (simp add: p_def)
    then have "pt_bucket_counts p \<noteq> []" by (auto simp: summarises_def)
    then have "summarises fl bounds (vs @ [v]) (histogram_step fl bounds v p)"
      using s b False here
      by (auto simp: summarises_def histogram_step_eq [OF _ r_def] nth_list_update min.commute max.commute)
    then show ?thesis by (simp add: p_def)
  qed
qed simp

text \<open>The points of a storage of observations, when its update of a point has been understood.\<close>

lemma summarised_points:
  fixes step :: "rat \<Rightarrow> 'p \<Rightarrow> 'p" and fin :: "'v measurement list"
  assumes pts: "pts = aggregated (\<lambda>v. step (the v)) fresh rs"
    and ok: "routing_ok h n (map (\<lambda>m. (me_attrs m, v m)) fin) rs" and obs: "obs = map (\<lambda>m. the (v m))"
    and sums: "\<And>vs. vs \<noteq> [] \<Longrightarrow> length vs \<le> length fin \<Longrightarrow> set vs \<subseteq> set (obs fin) \<Longrightarrow> S vs (foldl (\<lambda>p v. step v p) fresh vs)"
  shows "\<exists>rs. list_all2 (\<lambda>(key, p) (key', vs). key = key' \<and> vs \<noteq> [] \<and> S vs p) pts rs \<and>
      length rs \<le> n + 1 \<and> mset (concat (map snd rs)) = mset (obs fin) \<and>
      (\<forall>(key, vs) \<in> set rs. \<not> AttributeSet_eq key (OverflowAttributeSet h) \<longrightarrow> vs = obs (of_series h key fin))"
proof -
  let ?rs = "map (\<lambda>(key, vs). (key, map the vs)) rs"
  have agg: "pts = map (\<lambda>(key, vs). (key, foldl (\<lambda>p v. step v p) fresh vs)) ?rs"
    by (simp add: pts o_def split_def foldl_map)
  have all: "mset (concat (map snd rs)) = mset (map v fin)" using ok by (simp add: routing_ok_def o_def)
  have "length (snd e) \<le> length fin" if "e \<in> set rs" for e
  proof -
    have "length (snd e) \<le> length (concat (map snd rs))" using that by (induction rs) auto
    then show ?thesis using arg_cong [OF all, of size] by simp
  qed
  moreover have total: "mset (concat (map snd ?rs)) = mset (obs fin)"
  proof -
    have "concat (map snd ?rs) = map the (concat (map snd rs))" by (simp add: map_concat o_def split_def)
    then have "mset (concat (map snd ?rs)) = image_mset the (mset (map v fin))" using all by simp
    then show ?thesis by (simp add: obs o_def multiset.map_comp)
  qed
  then have "set (snd e) \<subseteq> set (obs fin)" if "e \<in> set ?rs" for e
    using that mset_eq_setD [OF total] by auto
  ultimately have ne: "\<forall>e \<in> set ?rs. snd e \<noteq> [] \<and> length (snd e) \<le> length fin \<and> set (snd e) \<subseteq> set (obs fin)"
    using ok by (auto simp: routing_ok_def)
  have "list_all2 (\<lambda>(key, p) (key', vs). key = key' \<and> vs \<noteq> [] \<and> S vs p) pts ?rs"
    unfolding agg list_all2_map1 list_all2_same using ne sums by (fastforce simp: list_all2_same)
  moreover note total
  moreover have "\<forall>(key, vs) \<in> set ?rs. \<not> AttributeSet_eq key (OverflowAttributeSet h) \<longrightarrow> vs = obs (of_series h key fin)"
    using ok by (auto simp: routing_ok_def of_series_def filter_map o_def obs)
  moreover have "length ?rs \<le> n + 1" using ok by (simp add: routing_ok_def)
  ultimately show ?thesis by blast
qed

text \<open>
  What a histogram reports. With sorted boundaries, each point of a histogram that was empty and
  then took any sequence of measurements summarises a non-empty list of finite observations: their
  number, their sum in the order they came, least and greatest, and for each bucket the number of
  observations above the boundary below it and at most the boundary above it, the bisection
  notwithstanding. A point other than the overflow's summarises exactly the finite observations with
  its attributes; all points together summarise all of them.
\<close>

theorem histogram_points:
  assumes "hs_points st = []" and "sorted (hs_boundaries st)" and "\<forall>m \<in> set ms. plain_attrs h (me_attrs m)"
    and "foldl (\<lambda>w m. Histogram_Record h fl num m w) (st, Some d) ms = (st', diag')"
    and "obs = map (\<lambda>m. the (finite_of (nm_double num (me_value m))))"
    and "fin = filter (finite_value num) ms"
  shows "\<exists>rs. list_all2 (\<lambda>(key, p) (key', vs). key = key' \<and> vs \<noteq> [] \<and> summarises fl (hs_boundaries st) vs p)
        (hs_points st') rs \<and>
      length rs \<le> hs_max_cardinality st + 1 \<and> mset (concat (map snd rs)) = mset (obs fin) \<and>
      (\<forall>(key, vs) \<in> set rs. \<not> AttributeSet_eq key (OverflowAttributeSet h) \<longrightarrow> vs = obs (of_series h key fin))"
proof -
  let ?v = "\<lambda>m. finite_of (nm_double num (me_value m))"
  have acc: "histogram_st.accepted num ms = map (\<lambda>m. (me_attrs m, ?v m)) fin"
    unfolding histogram_st.accepted_def assms(6) finite_value_def [abs_def] by simp
  have "histogram_st.run h fl num ms (st, Some d) = (st', diag')" using assms(4) by (simp add: histogram_st.run_def)
  from histogram_st.run_series [OF assms(1) _ assms(3) this] obtain rs where
    pts: "hs_points st' = aggregated (\<lambda>v. histogram_step fl (hs_boundaries st) (the v)) Point_new rs" and
    ok: "routing_ok h (hs_max_cardinality st) (map (\<lambda>m. (me_attrs m, ?v m)) fin) rs"
    unfolding acc histogram_config_def by auto
  show ?thesis by (rule summarised_points [OF pts ok assms(5)]) (rule histogram_summarises [OF assms(2)])
qed

theorem histogram_points_witness:
  "let ms = [sample_measurement (Finite 1) ''a'', sample_measurement (Finite 7) ''a''];
       st = \<lparr>hs_boundaries = [5], hs_max_cardinality = 1, hs_points = [], hs_exemplars = []\<rparr>
   in case foldl (\<lambda>w m. Histogram_Record sample_hash Finite (double_number Finite) m w) (st, Some DiagnosticsCounters_init) ms of
        (st', diag') \<Rightarrow> length (hs_points st') \<le> 2 \<and> (\<forall>(key, p) \<in> set (hs_points st'). length (pt_bucket_counts p) = 2)"
proof -
  let ?ms = "[sample_measurement (Finite 1) ''a'', sample_measurement (Finite 7) ''a'']"
  let ?st = "\<lparr>hs_boundaries = [5], hs_max_cardinality = 1, hs_points = [], hs_exemplars = []\<rparr>"
  obtain st' diag' where r: "foldl (\<lambda>w m. Histogram_Record sample_hash Finite (double_number Finite) m w)
      (?st, Some DiagnosticsCounters_init) ?ms = (st', diag')" by force
  have "\<forall>m \<in> set ?ms. plain_attrs sample_hash (me_attrs m)"
    by (simp add: sample_measurement_def plain_attrs_one)
  from histogram_points [OF _ _ this r refl refl] obtain rs where
    all: "list_all2 (\<lambda>(key, p) (key', vs). key = key' \<and> vs \<noteq> [] \<and> summarises Finite [5] vs p) (hs_points st') rs" and
    len: "length rs \<le> 2"
    by auto
  from all have "(\<forall>(key, p) \<in> set (hs_points st'). length (pt_bucket_counts p) = 2)"
    by (induction rule: list_all2_induct) (auto simp: summarises_def)
  moreover have "length (hs_points st') \<le> 2" using list_all2_lengthD [OF all] len by simp
  ultimately show ?thesis using r by simp
qed

end
