(* ===== verification/Exp_Buckets.thy ===== *)
theory Exp_Buckets
  imports Complex_Main "HOL-Library.Signed_Division" Microtel_Prelude
begin

text \<open>
  The buckets of an exponential histogram (\<open>src/sdk/metric_exp_histogram_storage.cpp\<close>): mapping a value
  to its bucket, growing the array, and merging buckets when the array would get too long.

  Indices, offsets and the scale are \<open>int32_t\<close> in the code and integers here; \<open>fits32\<close> says that one
  fits, and the operation that calls these functions (\<open>InsertValue\<close>) has no result when an index, a span
  or a shift does not. Scales up to 20 give the magnitudes of all normal doubles indices strictly
  between \<open>-2 ^ 30\<close> and \<open>2 ^ 30\<close> (\<open>index30\<close>); for these the search for a downscale stays within 32 bits,
  which is part of what is proved about it. Division truncates towards zero, as in C++ (\<open>sdiv\<close>, \<open>smod\<close>).
  Counts are 64-bit words.

  A magnitude is a positive rational. \<open>std::log2\<close> is the parameter \<open>log2\<close>: its accuracy is left to the
  implementation. The product of its result with a power of two is exact, and so is \<open>std::ceil\<close>; so
  nothing else about floating point enters the choice of a bucket.

  The search for a downscale may not end: it is a partial function. Proved here: exactly when it
  returns, that what it returns is the least merge that fits, and that the buckets are always the
  exact tally of the indices placed.
\<close>

section \<open>Buckets\<close>

record ExpBuckets =
  eb_offset :: int
  eb_counts :: "u64 list"

definition fits32 :: "int \<Rightarrow> bool" where
  "fits32 x \<longleftrightarrow> - (2 ^ 31) \<le> x \<and> x < 2 ^ 31"

definition index30 :: "int \<Rightarrow> bool" where
  "index30 x \<longleftrightarrow> - (2 ^ 30) < x \<and> x < 2 ^ 30"

definition FloorDivPow2 :: "int \<Rightarrow> nat \<Rightarrow> int" where
  "FloorDivPow2 v k =
     (let divisor = 2 ^ k;
          quotient = v sdiv divisor
      in if v smod divisor \<noteq> 0 \<and> v < 0 then quotient - 1 else quotient)"

text \<open>\<open>std::ldexp(1.0, scale)\<close>.\<close>

definition ldexp_1 :: "int \<Rightarrow> rat" where
  "ldexp_1 scale = (if scale \<ge> 0 then 2 ^ nat scale else 1 / 2 ^ nat (- scale))"

definition MapIndex :: "(rat \<Rightarrow> rat) \<Rightarrow> rat \<Rightarrow> int \<Rightarrow> int" where
  "MapIndex log2 abs_value scale = \<lceil>log2 abs_value * ldexp_1 scale\<rceil> - 1"

definition LastIndex :: "ExpBuckets \<Rightarrow> int" where
  "LastIndex b = eb_offset b + int (length (eb_counts b)) - 1"

definition MergedSpan :: "ExpBuckets \<Rightarrow> int \<Rightarrow> nat \<Rightarrow> int" where
  "MergedSpan b index change =
     (let low = FloorDivPow2 (min (eb_offset b) index) change;
          high = FloorDivPow2 (max (LastIndex b) index) change
      in high - low + 1)"

partial_function (option) RequiredDownscale_loop :: "ExpBuckets \<Rightarrow> int \<Rightarrow> int \<Rightarrow> nat \<Rightarrow> nat option" where
  "RequiredDownscale_loop b index max_buckets change =
     (if MergedSpan b index change > max_buckets
      then RequiredDownscale_loop b index max_buckets (change + 1)
      else Some change)"

definition RequiredDownscale :: "ExpBuckets \<Rightarrow> int \<Rightarrow> int \<Rightarrow> nat option" where
  "RequiredDownscale b index max_buckets = RequiredDownscale_loop b index max_buckets 1"

definition Rescale :: "ExpBuckets \<Rightarrow> nat \<Rightarrow> ExpBuckets" where
  "Rescale b k =
     (if eb_counts b = [] then b
      else
        let new_offset = FloorDivPow2 (eb_offset b) k;
            new_last = FloorDivPow2 (LastIndex b) k;
            new_span = new_last - new_offset + 1;
            merged = foldl (\<lambda>merged i.
                if eb_counts b ! i = 0 then merged
                else
                  let slot = nat (FloorDivPow2 (eb_offset b + int i) k - new_offset)
                  in merged[slot := merged ! slot + eb_counts b ! i])
              (replicate (nat new_span) 0) [0..<length (eb_counts b)]
        in \<lparr>eb_offset = new_offset, eb_counts = merged\<rparr>)"

definition Place :: "ExpBuckets \<Rightarrow> int \<Rightarrow> ExpBuckets" where
  "Place b index =
     (let b1 = (if eb_counts b = [] then \<lparr>eb_offset = index, eb_counts = [0]\<rparr>
                else if index < eb_offset b
                then \<lparr>eb_offset = index, eb_counts = replicate (nat (eb_offset b - index)) 0 @ eb_counts b\<rparr>
                else if index > LastIndex b
                then b\<lparr>eb_counts := eb_counts b @
                       replicate (nat (index - eb_offset b + 1) - length (eb_counts b)) 0\<rparr>
                else b);
          slot = nat (index - eb_offset b1)
      in b1\<lparr>eb_counts := (eb_counts b1)[slot := eb_counts b1 ! slot + 1]\<rparr>)"

section \<open>Arithmetic\<close>

lemma FloorDivPow2_eq: "FloorDivPow2 v k = v div 2 ^ k"
proof (cases "v < 0")
  case True
  define m :: int where "m = 2 ^ k"
  have m: "m > 0" by (simp add: m_def)
  have "v sdiv m = - ((- v) div m)" "v smod m = - ((- v) mod m)"
    using True m by (auto simp: signed_divide_int_def signed_modulo_int_def sgn_if)
  moreover have "m \<noteq> v mod m" using pos_mod_bound [OF m, of v] by linarith
  ultimately show ?thesis
    using True m unfolding FloorDivPow2_def Let_def m_def [symmetric]
    by (auto simp: div_minus_minus zdiv_zminus1_eq_if zmod_zminus1_eq_if)
next
  case False
  then show ?thesis by (auto simp: FloorDivPow2_def signed_divide_int_def signed_modulo_int_def sgn_if)
qed

lemma MergedSpan_eq:
  "MergedSpan b index k = max (LastIndex b) index div 2 ^ k - min (eb_offset b) index div 2 ^ k + 1"
  by (simp add: MergedSpan_def FloorDivPow2_eq)

text \<open>Halving the resolution is dividing the index: \<open>MapIndex\<close> agrees with the merge.\<close>

lemma ldexp_1_diff: "ldexp_1 (s - int k) = ldexp_1 s / 2 ^ k"
proof (cases "s \<ge> int k")
  case True
  then have "nat s = nat (s - int k) + k" by simp
  then show ?thesis using True by (simp add: ldexp_1_def power_add)
next
  case False
  show ?thesis
  proof (cases "s \<ge> 0")
    case True
    then have "k = nat s + nat (int k - s)" using False by simp
    then have "(2::rat) ^ k = 2 ^ nat s * 2 ^ nat (int k - s)" by (metis power_add)
    then show ?thesis using True False by (simp add: ldexp_1_def)
  next
    case neg: False
    then have "nat (int k - s) = nat (- s) + k" by simp
    then show ?thesis using neg False by (simp add: ldexp_1_def power_add)
  qed
qed

lemma ceiling_div:
  fixes y :: rat and m :: int
  assumes "m > 0"
  shows "\<lceil>y / of_int m\<rceil> - 1 = (\<lceil>y\<rceil> - 1) div m"
proof -
  define j where "j = (\<lceil>y\<rceil> - 1) div m"
  have j: "j * m \<le> \<lceil>y\<rceil> - 1" "\<lceil>y\<rceil> - 1 < (j + 1) * m"
    using minus_mod_eq_div_mult [of "\<lceil>y\<rceil> - 1" m] pos_mod_bound [OF assms, of "\<lceil>y\<rceil> - 1"]
      pos_mod_sign [OF assms, of "\<lceil>y\<rceil> - 1"]
    unfolding j_def distrib_right by linarith+
  have "of_int (j * m) < y" using j(1) by (metis less_ceiling_iff zle_diff1_eq)
  moreover have "y \<le> of_int ((j + 1) * m)" using j(2) by (metis ceiling_le_iff zle_diff1_eq zless_imp_add1_zle diff_add_cancel)
  ultimately have "of_int j < y / of_int m" "y / of_int m \<le> of_int j + 1"
    using assms by (simp_all add: field_simps)
  then have "\<lceil>y / of_int m\<rceil> = j + 1" by (simp add: ceiling_eq_iff)
  then show ?thesis by (simp add: j_def)
qed

lemma MapIndex_merge: "MapIndex log2 v (s - int k) = MapIndex log2 v s div 2 ^ k"
  using ceiling_div [of "2 ^ k" "log2 v * ldexp_1 s"] by (simp add: MapIndex_def ldexp_1_diff)

section \<open>The search for a downscale\<close>

lemma min_div: "min a b div (2 ^ k :: int) = min (a div 2 ^ k) (b div 2 ^ k)"
  and max_div: "max a b div (2 ^ k :: int) = max (a div 2 ^ k) (b div 2 ^ k)"
  by (auto simp: min_def max_def intro!: antisym zdiv_mono1)

lemma MergedSpan_Suc_le: "eb_offset b \<le> LastIndex b \<Longrightarrow> MergedSpan b i (Suc k) \<le> MergedSpan b i k"
proof -
  assume "eb_offset b \<le> LastIndex b"
  define hi lo where "hi = max (LastIndex b) i div 2 ^ k" and "lo = min (eb_offset b) i div 2 ^ k"
  have "lo \<le> hi" unfolding hi_def lo_def by (intro zdiv_mono1) (use \<open>eb_offset b \<le> LastIndex b\<close> in auto)
  moreover have "max (LastIndex b) i div 2 ^ Suc k = hi div 2" "min (eb_offset b) i div 2 ^ Suc k = lo div 2"
    by (simp_all add: hi_def lo_def zdiv_zmult2_eq [symmetric] mult.commute)
  ultimately show ?thesis unfolding MergedSpan_eq hi_def [symmetric] lo_def [symmetric] by simp
qed

text \<open>A loop that stops returns the first change that fits; one that never fits does not return.\<close>

lemma RequiredDownscale_loop_least:
  "MergedSpan b i c \<le> m \<Longrightarrow> c0 \<le> c \<Longrightarrow> \<forall>d. c0 \<le> d \<and> d < c \<longrightarrow> m < MergedSpan b i d \<Longrightarrow>
   RequiredDownscale_loop b i m c0 = Some c"
proof (induction "c - c0" arbitrary: c0)
  case 0
  then show ?case by (subst RequiredDownscale_loop.simps) simp
next
  case (Suc n)
  then show ?case by (subst RequiredDownscale_loop.simps) auto
qed

lemma RequiredDownscale_loop_Some:
  assumes "RequiredDownscale_loop b i m c0 = Some c"
  shows "c0 \<le> c \<and> MergedSpan b i c \<le> m"
proof -
  have "\<And>f b i m c0 c. (\<And>b i m c0 c. f b i m c0 = Some c \<Longrightarrow> c0 \<le> c \<and> MergedSpan b i c \<le> m) \<Longrightarrow>
      (if m < MergedSpan b i c0 then f b i m (c0 + 1) else Some c0) = Some c \<Longrightarrow>
      c0 \<le> c \<and> MergedSpan b i c \<le> m"
    by (fastforce split: if_splits)
  then show ?thesis by (rule RequiredDownscale_loop.raw_induct [OF _ assms])
qed

lemma RequiredDownscale_fits:
  assumes "MergedSpan b i c \<le> m" "1 \<le> c"
  shows "\<exists>d. RequiredDownscale b i m = Some d \<and> 1 \<le> d \<and> d \<le> c \<and> MergedSpan b i d \<le> m \<and>
    (\<forall>d' \<ge> 1. MergedSpan b i d' \<le> m \<longrightarrow> d \<le> d')"
proof -
  define d where "d = (LEAST d. 1 \<le> d \<and> MergedSpan b i d \<le> m)"
  have d: "1 \<le> d \<and> MergedSpan b i d \<le> m" unfolding d_def by (rule LeastI2_wellorder [where a = c]) (use assms in auto)
  have least: "d \<le> d'" if "1 \<le> d'" "MergedSpan b i d' \<le> m" for d'
    unfolding d_def by (rule Least_le) (use that in blast)
  then have "RequiredDownscale b i m = Some d"
    unfolding RequiredDownscale_def using d by (intro RequiredDownscale_loop_least) fastforce+
  moreover have "d \<le> c" by (rule least [OF assms(2,1)])
  ultimately show ?thesis using d least by blast
qed

text \<open>Two indices meet in one bucket eventually, unless their signs differ: then in two.\<close>

lemma div_small: "0 \<le> x \<Longrightarrow> x < 2 ^ k \<Longrightarrow> x div (2 ^ k :: int) = 0"
  and div_small_neg: "x < 0 \<Longrightarrow> - (2 ^ k) \<le> x \<Longrightarrow> x div (2 ^ k :: int) = - 1"
  by (simp_all add: div_pos_pos_trivial) (rule int_div_pos_eq [where r = "x + 2 ^ k"], auto)

lemma less_2_power: "\<bar>x\<bar> < (2 ^ k :: int)" if "nat \<bar>x\<bar> \<le> k"
proof -
  have "nat \<bar>x\<bar> < 2 ^ nat \<bar>x\<bar>" by (rule less_exp)
  also have "... \<le> 2 ^ k" using that by simp
  finally show ?thesis by (simp add: nat_less_iff)
qed

lemma span_wide:
  fixes lo hi :: int
  assumes "lo \<le> hi" "- (2 ^ k) \<le> lo" "hi < 2 ^ k"
  shows "hi div 2 ^ k - lo div 2 ^ k + 1 = (if lo < 0 \<and> 0 \<le> hi then 2 else 1)"
  using assms div_small [of lo k] div_small [of hi k] div_small_neg [of lo k] div_small_neg [of hi k] by auto

lemma span_signs: "lo < 0 \<Longrightarrow> 0 \<le> hi \<Longrightarrow> 2 \<le> hi div 2 ^ k - lo div (2 ^ k :: int) + 1"
  using div_neg_pos_less0 [of lo "2 ^ k"] pos_imp_zdiv_nonneg_iff [of "2 ^ k" hi] by simp

lemma MergedSpan_pos: "eb_offset b \<le> LastIndex b \<Longrightarrow> 1 \<le> MergedSpan b i k"
  using zdiv_mono1 [of "min (eb_offset b) i" "max (LastIndex b) i" "2 ^ k"] by (simp add: MergedSpan_eq)

lemma RequiredDownscale_returns_iff:
  assumes "eb_counts b \<noteq> []" and "lo = min (eb_offset b) i" and "hi = max (LastIndex b) i"
  shows "(\<exists>c. RequiredDownscale b i m = Some c) \<longleftrightarrow> 2 \<le> m \<or> m = 1 \<and> (0 \<le> lo \<or> hi < 0)" (is "?ret \<longleftrightarrow> ?ok")
proof
  have ne: "eb_offset b \<le> LastIndex b" using assms(1) by (cases "eb_counts b") (auto simp: LastIndex_def)
  have wide: "MergedSpan b i k = (if lo < 0 \<and> 0 \<le> hi then 2 else 1)" if "- (2 ^ k) \<le> lo" "hi < 2 ^ k" for k
    using span_wide [of lo hi k] that ne assms(2,3) by (simp add: MergedSpan_eq)
  {
    assume ?ok
    let ?k = "nat \<bar>lo\<bar> + nat \<bar>hi\<bar> + 1"
    have "- (2 ^ ?k) \<le> lo" "hi < 2 ^ ?k" using less_2_power [of lo ?k] less_2_power [of hi ?k] by linarith+
    from wide [OF this] have "MergedSpan b i ?k \<le> m" using \<open>?ok\<close> by (auto split: if_splits)
    then show ?ret using RequiredDownscale_fits [of b i ?k m] by auto
  next
    assume ?ret
    then obtain c where "MergedSpan b i c \<le> m"
      unfolding RequiredDownscale_def using RequiredDownscale_loop_Some by blast
    then show ?ok using MergedSpan_pos [OF ne, of i c] span_signs [of lo hi c]
      unfolding MergedSpan_eq assms(2,3) [symmetric] by (cases "lo < 0"; cases "0 \<le> hi") auto
  }
qed

lemma RequiredDownscale_least:
  assumes "RequiredDownscale b i m = Some c"
  shows "1 \<le> c" "MergedSpan b i c \<le> m" "\<And>d. 1 \<le> d \<Longrightarrow> MergedSpan b i d \<le> m \<Longrightarrow> c \<le> d"
  using assms RequiredDownscale_loop_Some RequiredDownscale_fits [of b i _ m]
  unfolding RequiredDownscale_def by (blast, blast, fastforce)

lemma MergedSpan_narrow:
  "lo = min (eb_offset b) i \<Longrightarrow> hi = max (LastIndex b) i \<Longrightarrow> - (2 ^ 30) < lo \<Longrightarrow> hi < 2 ^ 30 \<Longrightarrow>
   eb_offset b \<le> LastIndex b \<Longrightarrow> MergedSpan b i d < 2 ^ 31"
proof (induction d)
  case (Suc d)
  then show ?case using MergedSpan_Suc_le [of b i d] by simp
qed (auto simp: MergedSpan_eq min_def max_def split: if_splits)

text \<open>
  C18: the search for a downscale. For a non-empty array it returns exactly when two buckets are
  allowed, or one is and the indices to merge all have one sign; with one bucket and indices on
  both sides of zero it runs forever, since \<open>-1\<close> and \<open>0\<close> never merge. What it returns is the least
  change of at least one that makes the span fit. For indices strictly between \<open>-2 ^ 30\<close> and \<open>2 ^ 30\<close> it
  is at most 30, so that the shift it is used in is defined, and no span it computes on the way
  exceeds an \<open>int32_t\<close>.
\<close>

theorem required_downscale_terminates:
  assumes "eb_counts b \<noteq> []" and "lo = min (eb_offset b) i" and "hi = max (LastIndex b) i"
  shows "((\<exists>c. RequiredDownscale b i m = Some c) \<longleftrightarrow> 2 \<le> m \<or> m = 1 \<and> (0 \<le> lo \<or> hi < 0)) \<and>
    (\<forall>c. RequiredDownscale b i m = Some c \<longrightarrow> 1 \<le> c \<and> MergedSpan b i c \<le> m \<and>
      (\<forall>d. 1 \<le> d \<and> MergedSpan b i d \<le> m \<longrightarrow> c \<le> d) \<and> (- (2 ^ 30) < lo \<and> hi < 2 ^ 30 \<longrightarrow> c \<le> 30)) \<and>
    (- (2 ^ 30) < lo \<and> hi < 2 ^ 30 \<longrightarrow> (\<forall>d. MergedSpan b i d < 2 ^ 31))"
proof -
  have ne: "eb_offset b \<le> LastIndex b" using assms(1) by (cases "eb_counts b") (auto simp: LastIndex_def)
  note ret = RequiredDownscale_returns_iff [OF assms, of m]
  have "c \<le> 30" if "RequiredDownscale b i m = Some c" "- (2 ^ 30) < lo" "hi < 2 ^ 30" for c
  proof -
    have "MergedSpan b i 30 = (if lo < 0 \<and> 0 \<le> hi then 2 else 1)"
      using span_wide [of lo hi 30] that ne assms(2,3) by (simp add: MergedSpan_eq)
    then show ?thesis using RequiredDownscale_least(3) [OF that(1), of 30] ret that(1) by (auto split: if_splits)
  qed
  then show ?thesis
    using ret RequiredDownscale_least [of b i m] MergedSpan_narrow [OF assms(2,3) _ _ ne] by blast
qed

theorem required_downscale_terminates_witness:
  "RequiredDownscale \<lparr>eb_offset = 0, eb_counts = [1]\<rparr> (- 1) 1 = None \<and>
   (\<exists>c. RequiredDownscale \<lparr>eb_offset = 0, eb_counts = [1]\<rparr> (- 1) 2 = Some c)"
  using required_downscale_terminates [of "\<lparr>eb_offset = 0, eb_counts = [1]\<rparr>" "- 1" "- 1" 0 1]
    required_downscale_terminates [of "\<lparr>eb_offset = 0, eb_counts = [1]\<rparr>" "- 1" "- 1" 0 2]
  by (auto simp: LastIndex_def)

section \<open>The tally\<close>

definition bucket_count :: "ExpBuckets \<Rightarrow> int \<Rightarrow> u64" where
  "bucket_count b i =
     (if eb_offset b \<le> i \<and> i \<le> LastIndex b then eb_counts b ! nat (i - eb_offset b) else 0)"

definition tallies :: "ExpBuckets \<Rightarrow> int list \<Rightarrow> bool" where
  "tallies b xs \<longleftrightarrow> (eb_counts b = [] \<longleftrightarrow> xs = []) \<and>
     (xs \<noteq> [] \<longrightarrow> eb_offset b = Min (set xs) \<and> LastIndex b = Max (set xs)) \<and>
     (\<forall>i. bucket_count b i = of_nat (count_list xs i))"

lemma bucket_count_Nil [simp]: "eb_counts b = [] \<Longrightarrow> bucket_count b i = 0"
  by (auto simp: bucket_count_def LastIndex_def)

lemma Place_span:
  "eb_counts (Place b i) \<noteq> []"
  "eb_offset (Place b i) = (if eb_counts b = [] then i else min (eb_offset b) i)"
  "LastIndex (Place b i) = (if eb_counts b = [] then i else max (LastIndex b) i)"
  by (auto simp: Place_def LastIndex_def Let_def)

lemma Place_count: "bucket_count (Place b i) j = bucket_count b j + (if j = i then 1 else 0)"
proof (cases "eb_counts b = []")
  case True
  then show ?thesis by (auto simp: Place_def bucket_count_def LastIndex_def)
next
  case False
  then have ne: "length (eb_counts b) > 0" by simp
  consider "i < eb_offset b" | "i > LastIndex b" | "eb_offset b \<le> i" "i \<le> LastIndex b" by linarith
  then show ?thesis
    using False ne
    by cases (auto simp: Place_def bucket_count_def LastIndex_def Let_def nth_append nth_list_update
        nat_diff_distrib [symmetric])
qed

lemma tallies_Place: "tallies b xs \<Longrightarrow> tallies (Place b i) (xs @ [i])"
  by (auto simp: tallies_def Place_span Place_count min.commute max.commute)

text \<open>Merging: the loop adds to each new bucket the counts of the old ones that fall into it.\<close>

lemma merge_loop:
  fixes f :: "nat \<Rightarrow> nat" and cs :: "u64 list"
  assumes "\<forall>i \<in> set is. f i < length m"
  shows "length (foldl (\<lambda>m i. if cs ! i = 0 then m else m[f i := m ! f i + cs ! i]) m is) = length m"
    and "s < length m \<Longrightarrow> foldl (\<lambda>m i. if cs ! i = 0 then m else m[f i := m ! f i + cs ! i]) m is ! s =
      m ! s + (\<Sum>i \<leftarrow> is. if f i = s then cs ! i else 0)"
  using assms by (induction "is" arbitrary: m) (auto simp: nth_list_update algebra_simps)

lemma count_list_div:
  "(\<forall>x \<in> set xs. lo \<le> x \<and> x < lo + int n) \<Longrightarrow>
   (\<Sum>i \<leftarrow> [0..<n]. if (lo + int i) div d = j then of_nat (count_list xs (lo + int i)) else 0) =
   (of_nat (count_list (map (\<lambda>x. x div d) xs) j) :: u64)"
proof (induction xs)
  case (Cons x xs)
  have "(\<Sum>i \<leftarrow> [0..<n]. if (lo + int i) div d = j then of_nat (count_list (x # xs) (lo + int i)) else 0) =
      (\<Sum>i \<leftarrow> [0..<n]. if (lo + int i) div d = j then of_nat (count_list xs (lo + int i)) else 0) +
      ((\<Sum>i \<leftarrow> [0..<n]. if i = nat (x - lo) then (if x div d = j then 1 else 0) else 0) :: u64)"
    unfolding sum_list_addf [symmetric] using Cons.prems
    by (intro arg_cong [where f = sum_list] map_cong refl) auto
  also have "(\<Sum>i \<leftarrow> [0..<n]. if i = nat (x - lo) then (if x div d = j then 1 else 0) else 0 :: u64) =
      (if x div d = j then 1 else 0)"
    using Cons.prems by (auto simp: interv_sum_list_conv_sum_set_nat sum.delta)
  finally show ?case using Cons by simp
qed (simp cong: if_cong)

lemma div_contracts: "a \<le> b \<Longrightarrow> b div 2 ^ k - a div 2 ^ k \<le> b - (a :: int)"
proof -
  assume "a \<le> b"
  then have "0 \<le> b - a" by simp
  then have "(b - a) * 1 \<le> (b - a) * 2 ^ k" by (intro mult_left_mono) simp_all
  then have "b div 2 ^ k \<le> (a + (b - a) * 2 ^ k) div 2 ^ k" by (intro zdiv_mono1) simp_all
  then show ?thesis by simp
qed

lemma div_contracts_neg: "x < 0 \<Longrightarrow> x \<le> x div (2 ^ k :: int)"
  using div_contracts [of x 0 k] by simp

lemma Min_div: "xs \<noteq> [] \<Longrightarrow> Min ((\<lambda>x. x div (2 ^ k :: int)) ` set xs) = Min (set xs) div 2 ^ k"
  and Max_div: "xs \<noteq> [] \<Longrightarrow> Max ((\<lambda>x. x div (2 ^ k :: int)) ` set xs) = Max (set xs) div 2 ^ k"
  by (simp_all add: mono_Min_commute [symmetric] mono_Max_commute [symmetric] mono_def zdiv_mono1)

lemma Rescale_span:
  assumes "eb_counts b \<noteq> []"
  shows "eb_counts (Rescale b k) \<noteq> []" "eb_offset (Rescale b k) = eb_offset b div 2 ^ k"
    "LastIndex (Rescale b k) = LastIndex b div 2 ^ k"
proof -
  let ?d = "2 ^ k :: int" and ?off = "eb_offset b" and ?n = "length (eb_counts b)"
  let ?no = "?off div ?d" and ?nl = "LastIndex b div ?d"
  define f where "f i = nat ((?off + int i) div ?d - ?no)" for i
  define m where "m = foldl (\<lambda>m i. if eb_counts b ! i = 0 then m else m[f i := m ! f i + eb_counts b ! i])
      (replicate (nat (?nl - ?no + 1)) 0) [0..<?n]"
  have r: "Rescale b k = \<lparr>eb_offset = ?no, eb_counts = m\<rparr>"
    using assms unfolding Rescale_def FloorDivPow2_eq Let_def m_def f_def by simp
  have "?no \<le> (?off + int i) div ?d \<and> (i < ?n \<longrightarrow> (?off + int i) div ?d \<le> ?nl)" for i
    by (auto intro!: zdiv_mono1 simp: LastIndex_def)
  then have "\<forall>i \<in> set [0..<?n]. f i < length (replicate (nat (?nl - ?no + 1)) (0::u64))"
    by (force simp: f_def)
  then have len: "length m = nat (?nl - ?no + 1)" using merge_loop(1) by (simp add: m_def)
  moreover have le: "?no \<le> ?nl" using assms by (auto intro!: zdiv_mono1 simp: LastIndex_def)
  ultimately have "m \<noteq> []" by auto
  then show "eb_counts (Rescale b k) \<noteq> []" "eb_offset (Rescale b k) = ?no" "LastIndex (Rescale b k) = ?nl"
    using len le by (simp_all add: r LastIndex_def)
qed

lemma index30_div: "index30 x \<Longrightarrow> index30 (x div 2 ^ k)"
proof -
  assume x: "index30 x"
  have "0 \<le> x \<Longrightarrow> x div 2 ^ k \<le> x" using div_contracts [of 0 x k] by simp
  moreover have "x < 0 \<Longrightarrow> x \<le> x div 2 ^ k"
    using div_contracts_neg [of x k] by simp
  moreover have "x < 0 \<Longrightarrow> x div 2 ^ k < 0" "0 \<le> x \<Longrightarrow> 0 \<le> x div 2 ^ k"
    by (simp_all add: div_neg_pos_less0 pos_imp_zdiv_nonneg_iff)
  ultimately show ?thesis using x unfolding index30_def by (cases "x < 0") auto
qed

text \<open>Buckets whose indices are all in that range; the search then stays within 32 bits.\<close>

definition narrow_buckets :: "ExpBuckets \<Rightarrow> bool" where
  "narrow_buckets b \<longleftrightarrow> (eb_counts b \<noteq> [] \<longrightarrow> index30 (eb_offset b) \<and> index30 (LastIndex b))"

lemma narrow_Place: "narrow_buckets b \<Longrightarrow> index30 i \<Longrightarrow> narrow_buckets (Place b i)"
  by (auto simp: narrow_buckets_def Place_span min_def max_def)

lemma narrow_Rescale: "narrow_buckets b \<Longrightarrow> narrow_buckets (Rescale b k)"
proof (cases "eb_counts b = []")
  case True
  then show "narrow_buckets b \<Longrightarrow> narrow_buckets (Rescale b k)" by (simp add: Rescale_def)
qed (simp add: narrow_buckets_def Rescale_span index30_div)

lemma narrow_span:
  assumes "narrow_buckets b" "index30 i" "eb_counts b \<noteq> []"
  shows "fits32 (MergedSpan b i 0)"
proof -
  have le: "eb_offset b \<le> LastIndex b" using assms(3) by (cases "eb_counts b") (auto simp: LastIndex_def)
  then show ?thesis
    using assms MergedSpan_narrow [OF refl refl _ _ le, of i 0] MergedSpan_pos [OF le, of i 0]
    by (auto simp: narrow_buckets_def index30_def fits32_def)
qed

lemma narrow_downscale:
  assumes "narrow_buckets b" "index30 i" "eb_counts b \<noteq> []" "RequiredDownscale b i m = Some c"
  shows "c \<le> 30"
proof -
  have le: "eb_offset b \<le> LastIndex b" using assms(3) by (cases "eb_counts b") (auto simp: LastIndex_def)
  let ?lo = "min (eb_offset b) i" and ?hi = "max (LastIndex b) i"
  have "- (2 ^ 30) < ?lo" "?hi < 2 ^ 30"
    using assms(1-3) by (auto simp: narrow_buckets_def index30_def min_def max_def)
  then have "MergedSpan b i 30 = (if ?lo < 0 \<and> 0 \<le> ?hi then 2 else 1)"
    using span_wide [of ?lo ?hi 30] le by (simp add: MergedSpan_eq)
  then show ?thesis
    using RequiredDownscale_least(3) [OF assms(4), of 30] RequiredDownscale_returns_iff [OF assms(3) refl refl, of i m] assms(4)
    by (auto split: if_splits)
qed

lemma tallies_Rescale:
  assumes "tallies b xs"
  shows "tallies (Rescale b k) (map (\<lambda>x. x div 2 ^ k) xs)"
proof (cases "xs = []")
  case True
  then show ?thesis using assms by (simp add: tallies_def Rescale_def)
next
  case False
  let ?d = "2 ^ k :: int" and ?off = "eb_offset b" and ?n = "length (eb_counts b)"
  let ?no = "?off div ?d" and ?nl = "LastIndex b div ?d"
  have ne: "eb_counts b \<noteq> []" and hull: "?off = Min (set xs)" "LastIndex b = Max (set xs)"
    and cnt: "\<And>i. bucket_count b i = of_nat (count_list xs i)"
    using assms False by (auto simp: tallies_def)
  have in_hull: "\<forall>x \<in> set xs. ?off \<le> x \<and> x < ?off + int ?n"
  proof
    fix x assume "x \<in> set xs"
    then have "?off \<le> x" "x \<le> LastIndex b" by (simp_all add: hull)
    then show "?off \<le> x \<and> x < ?off + int ?n" by (simp add: LastIndex_def)
  qed
  have cs: "eb_counts b ! i = of_nat (count_list xs (?off + int i))" if "i < ?n" for i
    using cnt [of "?off + int i"] that by (simp add: bucket_count_def LastIndex_def)
  define f where "f i = nat ((?off + int i) div ?d - ?no)" for i
  define m where "m = foldl (\<lambda>m i. if eb_counts b ! i = 0 then m else m[f i := m ! f i + eb_counts b ! i])
      (replicate (nat (?nl - ?no + 1)) 0) [0..<?n]"
  have r: "Rescale b k = \<lparr>eb_offset = ?no, eb_counts = m\<rparr>"
    using ne unfolding Rescale_def FloorDivPow2_eq Let_def m_def f_def by simp
  have mono: "?no \<le> (?off + int i) div ?d \<and> (i < ?n \<longrightarrow> (?off + int i) div ?d \<le> ?nl)" for i
    by (auto intro!: zdiv_mono1 simp: LastIndex_def)
  have f_len: "\<forall>i \<in> set [0..<?n]. f i < length (replicate (nat (?nl - ?no + 1)) (0::u64))"
    using mono by (force simp: f_def)
  have len: "length m = nat (?nl - ?no + 1)" using merge_loop(1) [OF f_len] by (simp add: m_def)
  have le: "?no \<le> ?nl" using ne by (auto intro!: zdiv_mono1 simp: LastIndex_def)
  have "bucket_count (Rescale b k) j = of_nat (count_list (map (\<lambda>x. x div ?d) xs) j)" for j
  proof (cases "?no \<le> j \<and> j \<le> ?nl")
    case True
    have f_eq: "f i = nat (j - ?no) \<longleftrightarrow> (?off + int i) div ?d = j" for i
      using True mono [of i] by (simp add: f_def eq_nat_nat_iff)
    from True have "bucket_count (Rescale b k) j = m ! nat (j - ?no)"
      by (simp add: r bucket_count_def LastIndex_def len)
    also have "... = (\<Sum>i \<leftarrow> [0..<?n]. if f i = nat (j - ?no) then eb_counts b ! i else 0)"
      using True merge_loop(2) [OF f_len, of "nat (j - ?no)"] by (simp add: m_def)
    also have "... = (\<Sum>i \<leftarrow> [0..<?n]. if (?off + int i) div ?d = j then of_nat (count_list xs (?off + int i)) else 0)"
      using f_eq by (intro arg_cong [where f = sum_list] map_cong refl) (auto simp: cs)
    also have "... = of_nat (count_list (map (\<lambda>x. x div ?d) xs) j)" by (rule count_list_div [OF in_hull])
    finally show ?thesis .
  next
    case out: False
    have "j \<notin> (\<lambda>x. x div ?d) ` set xs"
      using out in_hull by (auto simp: LastIndex_def intro: zdiv_mono1)
    then have "count_list (map (\<lambda>x. x div ?d) xs) j = 0" by (simp add: count_list_0_iff)
    moreover have "bucket_count (Rescale b k) j = 0" using out le by (auto simp: r bucket_count_def LastIndex_def len)
    ultimately show ?thesis by simp
  qed
  then show ?thesis
    using False hull le len by (auto simp: tallies_def r LastIndex_def Min_div Max_div)
qed

end
