(* ===== verification/Exp_Histogram.thy ===== *)
theory Exp_Histogram
  imports Metric_Storage Exp_Buckets
begin

text \<open>
  The storage of an exponential histogram (\<open>src/sdk/metric_exp_histogram_storage.cpp\<close>): a point with its
  scale, its zero count and its two bucket arrays, which are coarsened together when one of them
  would exceed \<open>max_buckets\<close>.

  \<open>InsertValue\<close> searches for a downscale and may not return, and its \<open>int32_t\<close> arithmetic may overflow,
  which is undefined; in both cases its value, and that of \<open>Record\<close>, is \<open>None\<close>. With at least two buckets
  and observations whose indices at the finest scale are strictly between \<open>-2 ^ 30\<close> and \<open>2 ^ 30\<close> it always
  returns. Proved here: a point is determined by the
  observations alone. Its scale is the largest one not above \<open>max_scale\<close> at which both signs fit,
  and each bucket holds the number of the observations that \<open>MapIndex\<close> puts there at that scale; so
  neither the order of the observations nor the history of the merges can be seen in it.
\<close>

section \<open>The point\<close>

record ExpHistoPoint =
  ep_scale :: int
  ep_zero_count :: u64
  ep_count :: u64
  ep_sum :: double_value
  ep_min :: rat
  ep_max :: rat
  ep_positive :: ExpBuckets
  ep_negative :: ExpBuckets

definition ExpBuckets_new :: ExpBuckets where
  "ExpBuckets_new = \<lparr>eb_offset = 0, eb_counts = []\<rparr>"

definition ExpHistoPoint_new :: ExpHistoPoint where
  "ExpHistoPoint_new =
     \<lparr>ep_scale = 0, ep_zero_count = 0, ep_count = 0, ep_sum = Finite 0, ep_min = 0, ep_max = 0,
      ep_positive = ExpBuckets_new, ep_negative = ExpBuckets_new\<rparr>"

text \<open>
  The first test is not in the code: it says where the cast of \<open>MapIndex\<close>, its decrement or the
  span leaves \<open>int32_t\<close>, and the second one, on \<open>change\<close>, where the divisor of the merge does.
\<close>

definition InsertValue :: "(rat \<Rightarrow> rat) \<Rightarrow> ExpHistoPoint \<Rightarrow> rat \<Rightarrow> bool \<Rightarrow> int \<Rightarrow> ExpHistoPoint option" where
  "InsertValue log2 point abs_value is_negative max_buckets =
     (let index = MapIndex log2 abs_value (ep_scale point);
          target = (if is_negative then ep_negative point else ep_positive point);
          place = (\<lambda>point index.
            if is_negative then point\<lparr>ep_negative := Place (ep_negative point) index\<rparr>
            else point\<lparr>ep_positive := Place (ep_positive point) index\<rparr>)
      in if \<not> fits32 (index + 1) \<or> \<not> fits32 index \<or>
            eb_counts target \<noteq> [] \<and> \<not> fits32 (MergedSpan target index 0)
         then None
         else if eb_counts target \<noteq> [] \<and> MergedSpan target index 0 > max_buckets
         then case RequiredDownscale target index max_buckets of
             None \<Rightarrow> None
           | Some change \<Rightarrow>
               if change > 30 then None else
               let point1 = point\<lparr>ep_positive := Rescale (ep_positive point) change,
                                  ep_negative := Rescale (ep_negative point) change,
                                  ep_scale := ep_scale point - int change\<rparr>
               in Some (place point1 (FloorDivPow2 index change))
         else Some (place point index))"

definition exp_observe ::
    "(rat \<Rightarrow> rat) \<Rightarrow> (rat \<Rightarrow> double_value) \<Rightarrow> int \<Rightarrow> int \<Rightarrow> rat \<Rightarrow> ExpHistoPoint \<Rightarrow> ExpHistoPoint option" where
  "exp_observe log2 fl max_scale max_buckets observation point =
     (let point1 = (if ep_count point = 0
                    then point\<lparr>ep_scale := max_scale, ep_min := observation, ep_max := observation\<rparr>
                    else point\<lparr>ep_min := min (ep_min point) observation, ep_max := max (ep_max point) observation\<rparr>);
          point2 = point1\<lparr>ep_count := ep_count point1 + 1,
                          ep_sum := double_add fl (ep_sum point1) (Finite observation)\<rparr>
      in if observation = 0 then Some (point2\<lparr>ep_zero_count := ep_zero_count point2 + 1\<rparr>)
         else InsertValue log2 point2 \<bar>observation\<bar> (observation < 0) max_buckets)"

section \<open>The storage\<close>

record ExponentialHistogramStorage =
  es_max_scale :: int
  es_max_buckets :: int
  es_max_cardinality :: nat
  es_points :: "ExpHistoPoint series"
  es_exemplars :: "Exemplar series"

definition ExpHistogram_Record ::
    "std_hash \<Rightarrow> (rat \<Rightarrow> rat) \<Rightarrow> (rat \<Rightarrow> double_value) \<Rightarrow> 'v number \<Rightarrow> 'v measurement \<Rightarrow>
     ExponentialHistogramStorage \<times> sink \<Rightarrow> (ExponentialHistogramStorage \<times> sink) option" where
  "ExpHistogram_Record h log2 fl num m = (\<lambda>(st, diag).
     case finite_of (nm_double num (me_value m)) of
       None \<Rightarrow> Some (st, count_drop NonFiniteValue 1 diag)
     | Some observation \<Rightarrow>
         let exemplar = capture_exemplar (me_span m) (me_now m) (MV_double (Finite observation));
             (i, pts, diag1) =
               find_or_emplace h (es_max_cardinality st) ExpHistoPoint_new (me_attrs m) (es_points st, diag)
         in case exp_observe log2 fl (es_max_scale st) (es_max_buckets st) observation (snd (pts ! i)) of
              None \<Rightarrow> None
            | Some point \<Rightarrow>
                Some (st\<lparr>es_points := update_at i (\<lambda>_. point) pts,
                         es_exemplars := (if observation = 0 then es_exemplars st
                                          else keep_exemplar (fst (pts ! i)) exemplar (es_exemplars st))\<rparr>, diag1))"

record ExponentialHistogramPoint =
  xp_attributes :: "KeyValue list"
  xp_start_time :: int
  xp_time :: int
  xp_count :: u64
  xp_sum :: double_value
  xp_min :: "rat option"
  xp_max :: "rat option"
  xp_scale :: int
  xp_zero_count :: u64
  xp_positive :: ExpBuckets
  xp_negative :: ExpBuckets
  xp_exemplars :: "Exemplar list"

record ExponentialHistogramData =
  xd_temporality :: AggregationTemporality
  xd_points :: "ExponentialHistogramPoint list"

definition ExpHistogram_Collect ::
    "AggregationTemporality \<Rightarrow> ExponentialHistogramStorage \<Rightarrow>
     ExponentialHistogramData \<times> ExponentialHistogramStorage" where
  "ExpHistogram_Collect temporality st =
     (\<lparr>xd_temporality = temporality,
       xd_points = map (\<lambda>(key, p).
         \<lparr>xp_attributes = as_pairs key, xp_start_time = 0, xp_time = 0, xp_count = ep_count p, xp_sum = ep_sum p,
          xp_min = Some (ep_min p), xp_max = Some (ep_max p), xp_scale = ep_scale p,
          xp_zero_count = ep_zero_count p, xp_positive = ep_positive p, xp_negative = ep_negative p,
          xp_exemplars = point_exemplars key (es_exemplars st)\<rparr>)
         (es_points st)\<rparr>,
      st\<lparr>es_exemplars := [], es_points := (if temporality = Delta then [] else es_points st)\<rparr>)"

section \<open>Scales that fit\<close>

text \<open>The indices of some magnitudes at a scale, and whether \<open>m\<close> buckets cover them.\<close>

abbreviation indices :: "(rat \<Rightarrow> rat) \<Rightarrow> int \<Rightarrow> rat list \<Rightarrow> int list" where
  "indices log2 s vs \<equiv> map (\<lambda>v. MapIndex log2 v s) vs"

definition fits :: "int \<Rightarrow> int list \<Rightarrow> bool" where
  "fits m xs \<longleftrightarrow> xs = [] \<or> Max (set xs) - Min (set xs) + 1 \<le> m"

lemma fits_append: "fits m (xs @ ys) \<Longrightarrow> fits m xs"
proof (cases "xs = []")
  case False
  assume "fits m (xs @ ys)"
  then have "Max (set (xs @ ys)) - Min (set (xs @ ys)) + 1 \<le> m" using False by (simp only: fits_def append_is_Nil_conv simp_thms)
  moreover have "Max (set xs) \<le> Max (set (xs @ ys))" "Min (set (xs @ ys)) \<le> Min (set xs)"
    using False by (intro Max_mono Min_antimono; simp)+
  ultimately have "Max (set xs) - Min (set xs) + 1 \<le> m" by linarith
  then show ?thesis by (simp only: fits_def simp_thms)
qed (simp add: fits_def)

lemma indices_merge: "indices log2 (s - int d) vs = map (\<lambda>x. x div 2 ^ d) (indices log2 s vs)"
  by (simp add: MapIndex_merge)

lemma fits_coarser: "fits m (indices log2 s vs) \<Longrightarrow> fits m (indices log2 (s - int d) vs)"
proof (cases "vs = []")
  case False
  let ?xs = "indices log2 s vs"
  assume "fits m ?xs"
  moreover have "?xs \<noteq> []" using False by simp
  ultimately have "Max (set ?xs) - Min (set ?xs) + 1 \<le> m" by (simp only: fits_def simp_thms)
  moreover have "Min (set ?xs) \<le> Max (set ?xs)" 
    by (rule Max_ge [OF finite_set Min_in [OF finite_set]]) (use False in simp)
  ultimately have "Max (set ?xs) div 2 ^ d - Min (set ?xs) div 2 ^ d + 1 \<le> m"
    using div_contracts [of "Min (set ?xs)" "Max (set ?xs)" d] by linarith
  then show ?thesis
    unfolding fits_def indices_merge set_map [of "\<lambda>x. x div 2 ^ d"] Min_div [OF \<open>?xs \<noteq> []\<close>] Max_div [OF \<open>?xs \<noteq> []\<close>] ..
qed (simp add: fits_def)

lemma MergedSpan_fits:
  assumes "tallies b (indices log2 s vs)" "vs \<noteq> []"
  shows "MergedSpan b (MapIndex log2 v s) d \<le> m \<longleftrightarrow> fits m (indices log2 (s - int d) (vs @ [v]))"
proof -
  let ?xs = "indices log2 s (vs @ [v])"
  have "eb_offset b = Min (set (indices log2 s vs))" "LastIndex b = Max (set (indices log2 s vs))"
    using assms by (auto simp: tallies_def)
  then have "min (eb_offset b) (MapIndex log2 v s) = Min (set ?xs)" "max (LastIndex b) (MapIndex log2 v s) = Max (set ?xs)"
    using assms(2) by (auto simp: min.commute max.commute)
  then show ?thesis
    using Max_div [of ?xs d] Min_div [of ?xs d] unfolding MergedSpan_eq fits_def indices_merge set_map by simp
qed

section \<open>Inserting\<close>

text \<open>
  A point holds the magnitudes \<open>ps\<close> and \<open>ns\<close>: exact tallies of their indices at its scale, within
  the limit, and no finer scale is possible.
\<close>

definition exp_holds :: "(rat \<Rightarrow> rat) \<Rightarrow> int \<Rightarrow> int \<Rightarrow> rat list \<Rightarrow> rat list \<Rightarrow> ExpHistoPoint \<Rightarrow> bool" where
  "exp_holds log2 max_scale m ps ns p \<longleftrightarrow> ep_scale p \<le> max_scale \<and>
     tallies (ep_positive p) (indices log2 (ep_scale p) ps) \<and> tallies (ep_negative p) (indices log2 (ep_scale p) ns) \<and>
     fits m (indices log2 (ep_scale p) ps) \<and> fits m (indices log2 (ep_scale p) ns) \<and>
     (\<forall>s. ep_scale p < s \<and> s \<le> max_scale \<longrightarrow> \<not> (fits m (indices log2 s ps) \<and> fits m (indices log2 s ns)))"

lemma tallies_insert:
  "tallies b (indices log2 s vs) \<Longrightarrow> tallies (Place b (MapIndex log2 v s)) (indices log2 s (vs @ [v]))"
  using tallies_Place by simp

lemma InsertValue_placed:
  assumes "exp_holds log2 max_scale m ps ns p" "2 \<le> m"
    and "eb_counts (ep_positive p) = [] \<or> MergedSpan (ep_positive p) (MapIndex log2 v (ep_scale p)) 0 \<le> m"
  shows "exp_holds log2 max_scale m (ps @ [v]) ns
    (p\<lparr>ep_positive := Place (ep_positive p) (MapIndex log2 v (ep_scale p))\<rparr>)"
proof -
  let ?s = "ep_scale p"
  have t: "tallies (ep_positive p) (indices log2 ?s ps)" using assms(1) by (simp add: exp_holds_def)
  have "fits m (indices log2 ?s (ps @ [v]))"
  proof (cases "ps = []")
    case False
    then have "MergedSpan (ep_positive p) (MapIndex log2 v ?s) 0 \<le> m" using assms(3) t by (auto simp: tallies_def)
    then show ?thesis using MergedSpan_fits [OF t False, of v 0 m] by simp
  qed (use assms(2) in \<open>simp add: fits_def\<close>)
  moreover have "\<not> (fits m (indices log2 s (ps @ [v])) \<and> fits m (indices log2 s ns))"
    if "?s < s" "s \<le> max_scale" for s
    using assms(1) that fits_append [of m "indices log2 s ps"] by (auto simp: exp_holds_def)
  ultimately show ?thesis using assms(1) tallies_insert [OF t, of v] by (simp add: exp_holds_def)
qed

lemma InsertValue_rescaled:
  assumes holds: "exp_holds log2 max_scale m ps ns p" and s: "s = ep_scale p"
    and ne: "eb_counts (ep_positive p) \<noteq> []" and wide: "m < MergedSpan (ep_positive p) (MapIndex log2 v s) 0"
    and c: "RequiredDownscale (ep_positive p) (MapIndex log2 v s) m = Some c"
  shows "exp_holds log2 max_scale m (ps @ [v]) ns
    (p\<lparr>ep_positive := Place (Rescale (ep_positive p) c) (MapIndex log2 v s div 2 ^ c),
       ep_negative := Rescale (ep_negative p) c, ep_scale := s - int c\<rparr>)"
proof -
  have t: "tallies (ep_positive p) (indices log2 s ps)" "tallies (ep_negative p) (indices log2 s ns)"
    using holds by (auto simp: exp_holds_def s)
  have ps: "ps \<noteq> []" using t(1) ne by (auto simp: tallies_def)
  note span = MergedSpan_fits [OF t(1) ps, of v _ m]
  have "tallies (Place (Rescale (ep_positive p) c) (MapIndex log2 v s div 2 ^ c)) (indices log2 (s - int c) (ps @ [v]))"
    "tallies (Rescale (ep_negative p) c) (indices log2 (s - int c) ns)"
    using tallies_insert [of "Rescale (ep_positive p) c" log2 "s - int c" ps v] tallies_Rescale [OF t(1), of c]
      tallies_Rescale [OF t(2), of c] by (simp_all add: o_def MapIndex_merge)
  moreover have "fits m (indices log2 (s - int c) (ps @ [v]))" "fits m (indices log2 (s - int c) ns)"
    using span RequiredDownscale_least(2) [OF c] fits_coarser [of m log2 s ns c] holds by (auto simp: exp_holds_def s)
  moreover have "\<not> (fits m (indices log2 s' (ps @ [v])) \<and> fits m (indices log2 s' ns))"
    if "s - int c < s'" "s' \<le> max_scale" for s'
  proof (cases "s' \<le> s")
    case True
    define d where "d = nat (s - s')"
    have d: "s' = s - int d" "d < c" using True that by (auto simp: d_def)
    then have "m < MergedSpan (ep_positive p) (MapIndex log2 v s) d"
      using wide RequiredDownscale_least(3) [OF c, of d] by (cases "d = 0") (simp, linarith)
    then show ?thesis using span [of d] d(1) by simp
  next
    case False
    then show ?thesis using holds that fits_append [of m "indices log2 s' ps"] by (auto simp: exp_holds_def s)
  qed
  ultimately show ?thesis using holds by (simp add: exp_holds_def s)
qed

text \<open>A magnitude in range stays so at every coarser scale.\<close>

lemma MapIndex_narrow: "index30 (MapIndex log2 v max_scale) \<Longrightarrow> s \<le> max_scale \<Longrightarrow> index30 (MapIndex log2 v s)"
  using MapIndex_merge [of log2 v max_scale "nat (max_scale - s)"] index30_div by simp

lemma index30_fits: "index30 i \<Longrightarrow> fits32 (i + 1) \<and> fits32 i"
  by (auto simp: index30_def fits32_def)

lemma InsertValue_positive:
  assumes "exp_holds log2 max_scale m ps ns p" "2 \<le> m"
    and "index30 (MapIndex log2 v max_scale)" "narrow_buckets (ep_positive p)"
  obtains p' where "InsertValue log2 p v False m = Some p'" "exp_holds log2 max_scale m (ps @ [v]) ns p'"
    "p' = p\<lparr>ep_positive := ep_positive p', ep_negative := ep_negative p', ep_scale := ep_scale p'\<rparr>"
proof -
  let ?i = "MapIndex log2 v (ep_scale p)"
  have "ep_scale p \<le> max_scale" using assms(1) by (simp add: exp_holds_def)
  then have i: "index30 ?i" by (rule MapIndex_narrow [OF assms(3)])
  note fit = index30_fits [OF i] narrow_span [OF assms(4) i]
  show thesis
  proof (cases "eb_counts (ep_positive p) = [] \<or> MergedSpan (ep_positive p) ?i 0 \<le> m")
    case True
    then show thesis
      using that InsertValue_placed [OF assms(1,2) True] fit by (force simp: InsertValue_def Let_def not_less)
  next
    case False
    then have ne: "eb_counts (ep_positive p) \<noteq> []" and wide: "m < MergedSpan (ep_positive p) ?i 0" by simp_all
    obtain c where c: "RequiredDownscale (ep_positive p) ?i m = Some c"
      using RequiredDownscale_returns_iff [OF ne refl refl] assms(2) by blast
    have "c \<le> 30" by (rule narrow_downscale [OF assms(4) i ne c])
    show thesis
      by (rule that [OF _ InsertValue_rescaled [OF assms(1) refl ne wide c]])
        (use ne wide c fit \<open>c \<le> 30\<close> in \<open>simp_all add: InsertValue_def Let_def FloorDivPow2_eq\<close>)
  qed
qed

text \<open>The negative side is the positive one of the mirrored point.\<close>

definition mirrored :: "ExpHistoPoint \<Rightarrow> ExpHistoPoint" where
  "mirrored p = p\<lparr>ep_positive := ep_negative p, ep_negative := ep_positive p\<rparr>"

lemma exp_holds_mirrored: "exp_holds log2 max_scale m ns ps (mirrored p) \<longleftrightarrow> exp_holds log2 max_scale m ps ns p"
  by (auto simp: exp_holds_def mirrored_def)

lemma InsertValue_mirrored:
  "InsertValue log2 (mirrored p) v True m = map_option mirrored (InsertValue log2 p v False m)"
  by (simp add: InsertValue_def mirrored_def Let_def split: option.split)

lemma mirrored_mirrored [simp]: "mirrored (mirrored p) = p"
  by (simp add: mirrored_def)

lemma InsertValue_holds:
  assumes "exp_holds log2 max_scale m ps ns p" "2 \<le> m"
    and "index30 (MapIndex log2 v max_scale)" "narrow_buckets (ep_positive p)" "narrow_buckets (ep_negative p)"
  obtains p' where "InsertValue log2 p v neg m = Some p'"
    "exp_holds log2 max_scale m (if neg then ps else ps @ [v]) (if neg then ns @ [v] else ns) p'"
    "p' = p\<lparr>ep_positive := ep_positive p', ep_negative := ep_negative p', ep_scale := ep_scale p'\<rparr>"
proof (cases neg)
  case False
  then show thesis using that by (rule_tac InsertValue_positive [OF assms(1-4)]) simp_all
next
  case True
  have "exp_holds log2 max_scale m ns ps (mirrored p)" using assms(1) by (simp add: exp_holds_mirrored)
  from InsertValue_positive [OF this assms(2,3)] assms(5) obtain q where
    q: "InsertValue log2 (mirrored p) v False m = Some q" "exp_holds log2 max_scale m (ns @ [v]) ps q"
      "q = (mirrored p)\<lparr>ep_positive := ep_positive q, ep_negative := ep_negative q, ep_scale := ep_scale q\<rparr>"
    by (auto simp: mirrored_def)
  have "InsertValue log2 p v True m = Some (mirrored q)"
    using q(1) InsertValue_mirrored [of log2 "mirrored p" v m] by simp
  moreover have "exp_holds log2 max_scale m ps (ns @ [v]) (mirrored q)" using q(2) by (simp add: exp_holds_mirrored)
  moreover have "mirrored q =
      p\<lparr>ep_positive := ep_positive (mirrored q), ep_negative := ep_negative (mirrored q), ep_scale := ep_scale (mirrored q)\<rparr>"
    by (subst q(3)) (simp add: mirrored_def)
  ultimately show thesis using that True by simp
qed

section \<open>Observing\<close>

text \<open>An observation whose index at the finest scale is in range, and a point that holds only such.\<close>

definition in_range :: "(rat \<Rightarrow> rat) \<Rightarrow> int \<Rightarrow> rat \<Rightarrow> bool" where
  "in_range log2 max_scale v \<longleftrightarrow> v \<noteq> 0 \<longrightarrow> index30 (MapIndex log2 \<bar>v\<bar> max_scale)"

definition narrow :: "int \<Rightarrow> ExpHistoPoint \<Rightarrow> bool" where
  "narrow max_scale p \<longleftrightarrow> (ep_count p \<noteq> 0 \<longrightarrow> ep_scale p \<le> max_scale) \<and>
     narrow_buckets (ep_positive p) \<and> narrow_buckets (ep_negative p)"

lemma narrow_new: "narrow max_scale ExpHistoPoint_new"
  by (simp add: narrow_def narrow_buckets_def ExpHistoPoint_new_def ExpBuckets_new_def)

text \<open>A point that summarises a list of observations.\<close>

definition exp_summarises ::
    "(rat \<Rightarrow> rat) \<Rightarrow> (rat \<Rightarrow> double_value) \<Rightarrow> int \<Rightarrow> int \<Rightarrow> rat list \<Rightarrow> ExpHistoPoint \<Rightarrow> bool" where
  "exp_summarises log2 fl max_scale m vs p \<longleftrightarrow>
     ep_count p = of_nat (length vs) \<and> ep_zero_count p = of_nat (length (filter (\<lambda>v. v = 0) vs)) \<and>
     ep_sum p = foldl (\<lambda>s v. double_add fl s (Finite v)) (Finite 0) vs \<and>
     ep_min p = Min (set vs) \<and> ep_max p = Max (set vs) \<and>
     exp_holds log2 max_scale m (filter (\<lambda>v. 0 < v) vs) (map uminus (filter (\<lambda>v. v < 0) vs)) p"

lemma exp_holds_scalars:
  "exp_holds log2 max_scale m ps ns
     (p\<lparr>ep_min := a, ep_max := b, ep_count := c, ep_sum := d, ep_zero_count := e\<rparr>) = exp_holds log2 max_scale m ps ns p"
  by (simp add: exp_holds_def)

lemma exp_holds_new:
  "exp_holds log2 max_scale m [] []
     (ExpHistoPoint_new\<lparr>ep_scale := max_scale, ep_min := a, ep_max := b, ep_count := c, ep_sum := d, ep_zero_count := e\<rparr>)"
  by (simp add: exp_holds_def tallies_def fits_def ExpHistoPoint_new_def ExpBuckets_new_def)

text \<open>What \<open>Record\<close> does to the scalars of a point before it looks at the buckets.\<close>

definition exp_scalars :: "(rat \<Rightarrow> double_value) \<Rightarrow> int \<Rightarrow> rat \<Rightarrow> ExpHistoPoint \<Rightarrow> ExpHistoPoint" where
  "exp_scalars fl max_scale v p =
     (if ep_count p = 0 then p\<lparr>ep_scale := max_scale, ep_min := v, ep_max := v\<rparr>
      else p\<lparr>ep_min := min (ep_min p) v, ep_max := max (ep_max p) v\<rparr>)
     \<lparr>ep_count := ep_count p + 1, ep_sum := double_add fl (ep_sum p) (Finite v)\<rparr>"

lemma exp_observe_eq:
  "exp_observe log2 fl max_scale m v p =
     (let q = exp_scalars fl max_scale v p
      in if v = 0 then Some (q\<lparr>ep_zero_count := ep_zero_count q + 1\<rparr>) else InsertValue log2 q \<bar>v\<bar> (v < 0) m)"
  by (simp add: exp_observe_def exp_scalars_def Let_def)

lemma exp_observe_summarises:
  assumes scal: "exp_scalars fl max_scale v p = q" and "2 \<le> m"
    and holds: "exp_holds log2 max_scale m (filter (\<lambda>v. 0 < v) vs) (map uminus (filter (\<lambda>v. v < 0) vs)) q"
    and "ep_count q = of_nat (length (vs @ [v]))" "ep_zero_count q = of_nat (length (filter (\<lambda>v. v = 0) vs))"
    and "ep_sum q = foldl (\<lambda>s v. double_add fl s (Finite v)) (Finite 0) (vs @ [v])"
    and "ep_min q = Min (set (vs @ [v]))" "ep_max q = Max (set (vs @ [v]))"
    and range: "in_range log2 max_scale v" "narrow_buckets (ep_positive q)" "narrow_buckets (ep_negative q)"
  obtains p' where "exp_observe log2 fl max_scale m v p = Some p'" "exp_summarises log2 fl max_scale m (vs @ [v]) p'"
proof (cases "v = 0")
  case True
  then show thesis
    using that [of "q\<lparr>ep_zero_count := ep_zero_count q + 1\<rparr>"] assms
    by (simp add: exp_observe_eq exp_summarises_def exp_holds_def)
next
  case False
  obtain p' where p': "InsertValue log2 q \<bar>v\<bar> (v < 0) m = Some p'"
    "exp_holds log2 max_scale m (if v < 0 then filter (\<lambda>v. 0 < v) vs else filter (\<lambda>v. 0 < v) vs @ [\<bar>v\<bar>])
      (if v < 0 then map uminus (filter (\<lambda>v. v < 0) vs) @ [\<bar>v\<bar>] else map uminus (filter (\<lambda>v. v < 0) vs)) p'"
    "p' = q\<lparr>ep_positive := ep_positive p', ep_negative := ep_negative p', ep_scale := ep_scale p'\<rparr>"
    using InsertValue_holds [OF holds assms(2) _ range(2,3)] range(1) False by (auto simp: in_range_def)
  have "ep_count p' = ep_count q" "ep_zero_count p' = ep_zero_count q" "ep_sum p' = ep_sum q"
    "ep_min p' = ep_min q" "ep_max p' = ep_max q" by (subst p'(3), simp)+
  moreover have "exp_holds log2 max_scale m (filter (\<lambda>v. 0 < v) (vs @ [v])) (map uminus (filter (\<lambda>v. v < 0) (vs @ [v]))) p'"
    using p'(2) False by (cases "v < 0") auto
  ultimately show thesis
    using that [of p'] p'(1) scal False assms(4-8) by (simp add: exp_observe_eq exp_summarises_def)
qed


text \<open>
  With two buckets and observations in range nothing runs forever or overflows; \<open>settled\<close> names the
  result.
\<close>

definition settled :: "'p option \<Rightarrow> 'p \<Rightarrow> 'p" where
  "settled r p = (case r of Some p' \<Rightarrow> p' | None \<Rightarrow> p)"

lemma InsertValue_narrow:
  assumes "2 \<le> m" "index30 (MapIndex log2 v max_scale)" "ep_scale p \<le> max_scale"
    and "narrow_buckets (ep_positive p)" "narrow_buckets (ep_negative p)"
  shows "\<exists>q. InsertValue log2 p v neg m = Some q \<and> narrow max_scale q"
proof -
  let ?i = "MapIndex log2 v (ep_scale p)" and ?t = "if neg then ep_negative p else ep_positive p"
  have i: "index30 ?i" by (rule MapIndex_narrow [OF assms(2,3)])
  have t: "narrow_buckets ?t" using assms(4,5) by simp
  have fit: "fits32 (?i + 1)" "fits32 ?i" "eb_counts ?t = [] \<or> fits32 (MergedSpan ?t ?i 0)"
    using index30_fits [OF i] narrow_span [OF t i] by blast+
  show ?thesis
  proof (cases "eb_counts ?t = [] \<or> MergedSpan ?t ?i 0 \<le> m")
    case True
    then show ?thesis
      using fit assms(3-5) i by (cases neg) (auto simp: InsertValue_def Let_def narrow_def narrow_Place)
  next
    case False
    then obtain c where c: "RequiredDownscale ?t ?i m = Some c"
      using RequiredDownscale_returns_iff [of ?t, OF _ refl refl] assms(1) by blast
    have "c \<le> 30" using narrow_downscale [OF t i _ c] False by blast
    then show ?thesis
      using fit False c assms(3-5) i
      by (cases neg) (auto simp: InsertValue_def Let_def narrow_def FloorDivPow2_eq intro!: narrow_Place narrow_Rescale index30_div)
  qed
qed

lemma exp_observe_narrow:
  assumes "2 \<le> m" "in_range log2 max_scale v" "narrow max_scale p"
  shows "exp_observe log2 fl max_scale m v p = Some (settled (exp_observe log2 fl max_scale m v p) p)"
    "narrow max_scale (settled (exp_observe log2 fl max_scale m v p) p)"
proof -
  define q where "q = exp_scalars fl max_scale v p"
  have q: "ep_scale q \<le> max_scale" "narrow_buckets (ep_positive q)" "narrow_buckets (ep_negative q)"
    using assms(3) by (auto simp: q_def exp_scalars_def narrow_def)
  have "\<exists>p'. exp_observe log2 fl max_scale m v p = Some p' \<and> narrow max_scale p'"
  proof (cases "v = 0")
    case True
    then show ?thesis using q unfolding q_def by (auto simp: exp_observe_eq Let_def narrow_def)
  next
    case False
    then have "index30 (MapIndex log2 \<bar>v\<bar> max_scale)" using assms(2) by (simp add: in_range_def)
    from InsertValue_narrow [OF assms(1) this q] show ?thesis
      using False by (simp add: exp_observe_eq q_def [symmetric])
  qed
  then show "exp_observe log2 fl max_scale m v p = Some (settled (exp_observe log2 fl max_scale m v p) p)"
    "narrow max_scale (settled (exp_observe log2 fl max_scale m v p) p)" by (auto simp: settled_def)
qed

lemma exp_fold_narrow:
  assumes "2 \<le> m"
  shows "\<forall>v \<in> set vs. in_range log2 max_scale v \<Longrightarrow> narrow max_scale
    (foldl (\<lambda>p v. settled (exp_observe log2 fl max_scale m v p) p) ExpHistoPoint_new vs)"
  by (induction vs rule: rev_induct) (simp_all add: narrow_new exp_observe_narrow(2) [OF assms])

lemma exp_fold_summarises:
  assumes "2 \<le> m"
  shows "vs \<noteq> [] \<Longrightarrow> length vs < 2 ^ 64 \<Longrightarrow> \<forall>v \<in> set vs. in_range log2 max_scale v \<Longrightarrow> exp_summarises log2 fl max_scale m vs
    (foldl (\<lambda>p v. settled (exp_observe log2 fl max_scale m v p) p) ExpHistoPoint_new vs)"
proof (induction vs rule: rev_induct)
  case (snoc v vs)
  define p where "p = foldl (\<lambda>p v. settled (exp_observe log2 fl max_scale m v p) p) ExpHistoPoint_new vs"
  define q where "q = exp_scalars fl max_scale v p"
  have "exp_holds log2 max_scale m (filter (\<lambda>v. 0 < v) vs) (map uminus (filter (\<lambda>v. v < 0) vs)) q \<and>
      ep_count q = of_nat (length (vs @ [v])) \<and> ep_zero_count q = of_nat (length (filter (\<lambda>v. v = 0) vs)) \<and>
      ep_sum q = foldl (\<lambda>s v. double_add fl s (Finite v)) (Finite 0) (vs @ [v]) \<and>
      ep_min q = Min (set (vs @ [v])) \<and> ep_max q = Max (set (vs @ [v]))"
  proof (cases "vs = []")
    case True
    then show ?thesis
      by (simp add: q_def p_def exp_scalars_def exp_holds_def tallies_def fits_def ExpHistoPoint_new_def ExpBuckets_new_def)
  next
    case False
    then have s: "exp_summarises log2 fl max_scale m vs p" using snoc by (simp add: p_def)
    have "\<not> 2 ^ 64 dvd length vs" using snoc.prems(2) False by (auto dest: dvd_imp_le)
    then have "ep_count p \<noteq> 0" using s by (simp add: exp_summarises_def word_of_nat_eq_0_iff)
    then show ?thesis
      using s False by (simp add: q_def exp_scalars_def exp_summarises_def exp_holds_def min.commute max.commute)
  qed
  moreover have "narrow max_scale p" unfolding p_def by (rule exp_fold_narrow [OF assms]) (use snoc.prems in simp)
  then have "narrow_buckets (ep_positive q)" "narrow_buckets (ep_negative q)"
    by (auto simp: narrow_def q_def exp_scalars_def)
  ultimately obtain p' where "exp_observe log2 fl max_scale m v p = Some p'" "exp_summarises log2 fl max_scale m (vs @ [v]) p'"
    using exp_observe_summarises [OF q_def [symmetric] assms, of log2 vs] snoc.prems(3) by auto
  then show ?case by (simp add: p_def settled_def)
qed simp

text \<open>Thirty steps below the finest scale two buckets hold every index in range.\<close>

lemma fits_30:
  assumes "2 \<le> m" "\<forall>v \<in> set vs. index30 (MapIndex log2 v max_scale)"
  shows "fits m (indices log2 (max_scale - 30) vs)"
proof (cases "vs = []")
  case False
  let ?xs = "indices log2 (max_scale - 30) vs"
  have small: "x \<in> {-1, 0}" if x: "x \<in> set ?xs" for x
  proof -
    obtain v where v: "v \<in> set vs" "x = MapIndex log2 v max_scale div 2 ^ 30"
      using x MapIndex_merge [of log2 _ max_scale 30] by auto
    then have "- (2 ^ 30) \<le> MapIndex log2 v max_scale" "MapIndex log2 v max_scale < 2 ^ 30"
      using assms(2) by (auto simp: index30_def)
    then show ?thesis unfolding v(2)
      using div_small [of "MapIndex log2 v max_scale" 30] div_small_neg [of "MapIndex log2 v max_scale" 30] by (cases "MapIndex log2 v max_scale < 0") auto
  qed
  have "Max (set ?xs) \<in> {-1, 0}" "Min (set ?xs) \<in> {-1, 0}" using False by (intro small Max_in Min_in; simp)+
  then have "Max (set ?xs) - Min (set ?xs) + 1 \<le> m" using assms(1) by auto
  then show ?thesis unfolding fits_def ..
qed (simp add: fits_def)

lemma exp_summarises_scale:
  assumes "exp_summarises log2 fl max_scale m vs p" "2 \<le> m" "\<forall>v \<in> set vs. in_range log2 max_scale v"
  shows "max_scale - 30 \<le> ep_scale p"
proof (rule ccontr)
  assume "\<not> max_scale - 30 \<le> ep_scale p"
  moreover have "index30 (MapIndex log2 v max_scale)" if "v \<in> set (filter (\<lambda>v. 0 < v) vs)" for v
    using assms(3) that by (fastforce simp: in_range_def)
  moreover have "index30 (MapIndex log2 v max_scale)" if "v \<in> set (map uminus (filter (\<lambda>v. v < 0) vs))" for v
    using assms(3) that by (fastforce simp: in_range_def)
  ultimately have "fits m (indices log2 (max_scale - 30) (filter (\<lambda>v. 0 < v) vs))"
    "fits m (indices log2 (max_scale - 30) (map uminus (filter (\<lambda>v. v < 0) vs)))" "ep_scale p < max_scale - 30"
    using fits_30 [OF assms(2)] by (blast, blast, simp)
  then show False using assms(1) unfolding exp_summarises_def exp_holds_def by auto
qed

section \<open>Recording\<close>

definition ExpHistogram_settled ::
    "std_hash \<Rightarrow> (rat \<Rightarrow> rat) \<Rightarrow> (rat \<Rightarrow> double_value) \<Rightarrow> 'v number \<Rightarrow> 'v measurement \<Rightarrow>
     ExponentialHistogramStorage \<times> sink \<Rightarrow> ExponentialHistogramStorage \<times> sink" where
  "ExpHistogram_settled h log2 fl num m = (\<lambda>(st, diag).
     case finite_of (nm_double num (me_value m)) of
       None \<Rightarrow> (st, count_drop NonFiniteValue 1 diag)
     | Some v \<Rightarrow>
         let exemplar = capture_exemplar (me_span m) (me_now m) (MV_double (Finite v));
             (i, pts, diag1) =
               find_or_emplace h (es_max_cardinality st) ExpHistoPoint_new (me_attrs m) (es_points st, diag)
         in (st\<lparr>es_points := update_at i (\<lambda>p. settled (exp_observe log2 fl (es_max_scale st) (es_max_buckets st) v p) p) pts,
                es_exemplars := (if v = 0 then es_exemplars st
                                 else keep_exemplar (fst (pts ! i)) exemplar (es_exemplars st))\<rparr>, diag1))"

text \<open>
  A storage all of whose points are in range, and a measurement whose observation is, if it has a
  finite one: recording then returns, and leaves such a storage.
\<close>

definition narrow_storage :: "ExponentialHistogramStorage \<Rightarrow> bool" where
  "narrow_storage st \<longleftrightarrow> (\<forall>e \<in> set (es_points st). narrow (es_max_scale st) (snd e))"

definition value_in_range :: "(rat \<Rightarrow> rat) \<Rightarrow> 'v number \<Rightarrow> int \<Rightarrow> 'v measurement \<Rightarrow> bool" where
  "value_in_range log2 num max_scale m \<longleftrightarrow>
     (case finite_of (nm_double num (me_value m)) of None \<Rightarrow> True | Some v \<Rightarrow> in_range log2 max_scale v)"

lemma find_or_emplace_all:
  assumes "find_or_emplace h n fresh attrs (points, diag) = (i, pts, diag')" "\<forall>e \<in> set points. P (snd e)" "P fresh"
  shows "i < length pts \<and> (\<forall>e \<in> set pts. P (snd e))"
  using assms series_find_Some [of _ points i] series_find_Some [of "OverflowAttributeSet h" points i]
  by (auto simp: find_or_emplace_def try_emplace_def Let_def split: option.splits if_splits)

lemma ExpHistogram_Record_settled:
  assumes "2 \<le> es_max_buckets st" "narrow_storage st" "value_in_range log2 num (es_max_scale st) m"
    and s: "ExpHistogram_settled h log2 fl num m (st, diag) = (st', diag')"
  shows "ExpHistogram_Record h log2 fl num m (st, diag) = Some (st', diag')" "narrow_storage st'"
proof -
  have "ExpHistogram_Record h log2 fl num m (st, diag) = Some (st', diag') \<and> narrow_storage st'"
  proof (cases "finite_of (nm_double num (me_value m))")
    case None
    then show ?thesis using assms(2) s by (auto simp: ExpHistogram_Record_def ExpHistogram_settled_def)
  next
    case (Some v)
    define g where "g p = settled (exp_observe log2 fl (es_max_scale st) (es_max_buckets st) v p) p" for p
    obtain i pts diag1 where
      e: "find_or_emplace h (es_max_cardinality st) ExpHistoPoint_new (me_attrs m) (es_points st, diag) = (i, pts, diag1)"
      by (metis surj_pair)
    have pts: "i < length pts" "\<forall>e \<in> set pts. narrow (es_max_scale st) (snd e)"
      using find_or_emplace_all [OF e, of "narrow (es_max_scale st)"] assms(2) narrow_new by (auto simp: narrow_storage_def)
    have "in_range log2 (es_max_scale st) v" using assms(3) Some by (simp add: value_in_range_def)
    from exp_observe_narrow [OF assms(1) this, of "snd (pts ! i)" fl] pts
    have obs: "exp_observe log2 fl (es_max_scale st) (es_max_buckets st) v (snd (pts ! i)) = Some (g (snd (pts ! i)))"
      and ok: "narrow (es_max_scale st) (g (snd (pts ! i)))" by (simp_all add: g_def)
    have upd: "update_at i (\<lambda>_. g (snd (pts ! i))) pts = update_at i g pts" by (simp add: update_at_def)
    have "\<forall>e \<in> set (update_at i g pts). narrow (es_max_scale st) (snd e)"
      using pts(2) ok set_update_subset_insert [of pts i "(fst (pts ! i), g (snd (pts ! i)))"]
      by (auto simp: update_at_def)
    moreover have "es_points st' = update_at i g pts" "es_max_scale st' = es_max_scale st"
      using Some s e by (auto simp: ExpHistogram_settled_def g_def [symmetric])
    ultimately have "narrow_storage st'" unfolding narrow_storage_def by simp
    then show ?thesis
      using Some s e obs upd by (simp add: ExpHistogram_Record_def ExpHistogram_settled_def g_def [symmetric])
  qed
  then show "ExpHistogram_Record h log2 fl num m (st, diag) = Some (st', diag')" "narrow_storage st'" by simp_all
qed

definition exp_config :: "ExponentialHistogramStorage \<Rightarrow> int \<times> int \<times> nat" where
  "exp_config st = (es_max_scale st, es_max_buckets st, es_max_cardinality st)"

interpretation exp_st: series_storage h "ExpHistogram_settled h log2 fl num" me_attrs
  "\<lambda>m. finite_of (nm_double num (me_value m))" "\<lambda>v. v \<noteq> None" es_points exp_config "\<lambda>c. snd (snd c)" ExpHistoPoint_new
  "\<lambda>c v p. settled (exp_observe log2 fl (fst c) (fst (snd c)) (the v) p) p"
  for h :: std_hash and log2 :: "rat \<Rightarrow> rat" and fl :: "rat \<Rightarrow> double_value" and num :: "'v number"
  by unfold_locales
    (auto simp: ExpHistogram_settled_def Let_def series_recordI exp_config_def split: prod.splits option.splits)


abbreviation ExpHistogram_run ::
    "std_hash \<Rightarrow> (rat \<Rightarrow> rat) \<Rightarrow> (rat \<Rightarrow> double_value) \<Rightarrow> 'v number \<Rightarrow> 'v measurement list \<Rightarrow>
     ExponentialHistogramStorage \<times> sink \<Rightarrow> (ExponentialHistogramStorage \<times> sink) option" where
  "ExpHistogram_run h log2 fl num ms w \<equiv>
     foldl (\<lambda>w m. Option.bind w (ExpHistogram_Record h log2 fl num m)) (Some w) ms"

lemma ExpHistogram_run_settled:
  "2 \<le> es_max_buckets st \<Longrightarrow> narrow_storage st \<Longrightarrow> \<forall>m \<in> set ms. value_in_range log2 num (es_max_scale st) m \<Longrightarrow>
   exp_st.run h log2 fl num ms (st, diag) = (st', diag') \<Longrightarrow>
   ExpHistogram_run h log2 fl num ms (st, diag) = Some (st', diag') \<and> narrow_storage st'"
proof (induction ms arbitrary: st' diag' rule: rev_induct)
  case (snoc m ms)
  obtain st1 d1 where r: "exp_st.run h log2 fl num ms (st, diag) = (st1, d1)" by force
  then have c: "es_max_buckets st1 = es_max_buckets st" "es_max_scale st1 = es_max_scale st"
    using exp_st.run_config [of h log2 fl num ms st diag] by (simp_all add: exp_config_def)
  have ih: "ExpHistogram_run h log2 fl num ms (st, diag) = Some (st1, d1)" "narrow_storage st1"
    using snoc.IH [OF snoc.prems(1,2) _ r] snoc.prems(3) by simp_all
  have "ExpHistogram_settled h log2 fl num m (st1, d1) = (st', diag')"
    using snoc.prems(4) r by (simp add: exp_st.run_snoc)
  from ExpHistogram_Record_settled [OF _ ih(2) _ this] ih(1) show ?case
    using snoc.prems(1,3) c by simp
qed (simp add: exp_st.run_def)

text \<open>
  C17: an exponential histogram is exact. Take at least two buckets, fewer than \<open>2 ^ 64\<close> measurements,
  and observations whose indices at \<open>max_scale\<close> are strictly between \<open>-2 ^ 30\<close> and \<open>2 ^ 30\<close>, as those of
  all normal doubles are up to scale 20. Then recording always returns and no \<open>int32_t\<close> computed on
  the way overflows; and each point is determined by the observations with its attributes (for the
  overflow, by those that found no series): their number, zeros, sum, minimum and maximum; the
  largest scale not above \<open>max_scale\<close> at which the positive and the negative magnitudes both fit in
  \<open>max_buckets\<close>, which is at most 30 below it; and in each bucket the number of magnitudes that
  \<open>MapIndex\<close> puts there at that scale, however often the buckets were merged on the way.
\<close>

theorem exp_histogram_exact:
  assumes "es_points st = []" and "2 \<le> es_max_buckets st" and "length ms < 2 ^ 64"
    and "\<forall>m \<in> set ms. plain_attrs h (me_attrs m)"
    and "obs = map (\<lambda>m. the (finite_of (nm_double num (me_value m))))"
    and "fin = filter (finite_value num) ms"
    and "\<forall>m \<in> set ms. value_in_range log2 num (es_max_scale st) m"
  shows "\<exists>st' diag'. ExpHistogram_run h log2 fl num ms (st, Some d) = Some (st', diag') \<and>
    (\<exists>rs. list_all2 (\<lambda>(key, p) (key', vs). key = key' \<and> vs \<noteq> [] \<and> es_max_scale st - 30 \<le> ep_scale p \<and>
        exp_summarises log2 fl (es_max_scale st) (es_max_buckets st) vs p) (es_points st') rs \<and>
      length rs \<le> es_max_cardinality st + 1 \<and> mset (concat (map snd rs)) = mset (obs fin) \<and>
      (\<forall>(key, vs) \<in> set rs. \<not> AttributeSet_eq key (OverflowAttributeSet h) \<longrightarrow> vs = obs (of_series h key fin)))"
proof -
  let ?v = "\<lambda>m. finite_of (nm_double num (me_value m))"
  have acc: "exp_st.accepted num ms = map (\<lambda>m. (me_attrs m, ?v m)) fin"
    unfolding exp_st.accepted_def assms(6) finite_value_def [abs_def] by simp
  obtain st' diag' where r: "exp_st.run h log2 fl num ms (st, Some d) = (st', diag')" by force
  from exp_st.run_series [OF assms(1) _ assms(4) r] obtain rs where
    pts: "es_points st' = aggregated (\<lambda>v p. settled (exp_observe log2 fl (es_max_scale st) (es_max_buckets st) (the v) p) p)
        ExpHistoPoint_new rs" and
    ok: "routing_ok h (es_max_cardinality st) (map (\<lambda>m. (me_attrs m, ?v m)) fin) rs"
    unfolding acc exp_config_def by auto
  have len: "length fin < 2 ^ 64" 
    unfolding assms(6) by (rule le_less_trans [OF length_filter_le assms(3)])
  have range: "\<forall>v \<in> set (obs fin). in_range log2 (es_max_scale st) v"
    using assms(7) by (auto simp: assms(5,6) value_in_range_def finite_value_def split: option.splits)
  have "\<exists>rs. list_all2 (\<lambda>(key, p) (key', vs). key = key' \<and> vs \<noteq> [] \<and>
        (es_max_scale st - 30 \<le> ep_scale p \<and> exp_summarises log2 fl (es_max_scale st) (es_max_buckets st) vs p)) (es_points st') rs \<and>
      length rs \<le> es_max_cardinality st + 1 \<and> mset (concat (map snd rs)) = mset (obs fin) \<and>
      (\<forall>(key, vs) \<in> set rs. \<not> AttributeSet_eq key (OverflowAttributeSet h) \<longrightarrow> vs = obs (of_series h key fin))"
  proof (rule summarised_points [OF pts ok assms(5)])
    fix vs assume vs: "vs \<noteq> []" "length vs \<le> length fin" "set vs \<subseteq> set (obs fin)"
    have r: "\<forall>v \<in> set vs. in_range log2 (es_max_scale st) v" using range vs(3) by blast
    have "exp_summarises log2 fl (es_max_scale st) (es_max_buckets st) vs
        (foldl (\<lambda>p v. settled (exp_observe log2 fl (es_max_scale st) (es_max_buckets st) v p) p) ExpHistoPoint_new vs)"
      by (rule exp_fold_summarises [OF assms(2) vs(1) _ r]) (use len vs(2) in simp)
    moreover from exp_summarises_scale [OF this assms(2) r]
    have "es_max_scale st - 30 \<le> ep_scale
        (foldl (\<lambda>p v. settled (exp_observe log2 fl (es_max_scale st) (es_max_buckets st) v p) p) ExpHistoPoint_new vs)" .
    ultimately show "es_max_scale st - 30 \<le> ep_scale
        (foldl (\<lambda>p v. settled (exp_observe log2 fl (es_max_scale st) (es_max_buckets st) v p) p) ExpHistoPoint_new vs) \<and>
      exp_summarises log2 fl (es_max_scale st) (es_max_buckets st) vs
        (foldl (\<lambda>p v. settled (exp_observe log2 fl (es_max_scale st) (es_max_buckets st) v p) p) ExpHistoPoint_new vs)" by simp
  qed
  moreover have "narrow_storage st" using assms(1) by (simp add: narrow_storage_def)
  then have "ExpHistogram_run h log2 fl num ms (st, Some d) = Some (st', diag')"
    using ExpHistogram_run_settled [OF assms(2) _ assms(7) r] by blast
  ultimately show ?thesis by blast
qed

theorem exp_histogram_exact_witness:
  "let ms = [sample_measurement (Finite 1) ''a'', sample_measurement (Finite (- 7)) ''a'', sample_measurement (Finite 0) ''a''];
       st = \<lparr>es_max_scale = 20, es_max_buckets = 2, es_max_cardinality = 1, es_points = [], es_exemplars = []\<rparr>
   in \<exists>st' diag'. ExpHistogram_run sample_hash (\<lambda>x. x) Finite (double_number Finite) ms (st, Some DiagnosticsCounters_init) =
        Some (st', diag') \<and> length (es_points st') \<le> 2"
proof -
  let ?ms = "[sample_measurement (Finite 1) ''a'', sample_measurement (Finite (- 7)) ''a'', sample_measurement (Finite 0) ''a'']"
  let ?st = "\<lparr>es_max_scale = 20, es_max_buckets = 2, es_max_cardinality = 1, es_points = [], es_exemplars = []\<rparr>"
  have "\<forall>m \<in> set ?ms. plain_attrs sample_hash (me_attrs m)"
    by (simp add: sample_measurement_def plain_attrs_one)
  moreover have "\<forall>m \<in> set ?ms. value_in_range (\<lambda>x. x) (double_number Finite) 20 m"
    by (simp add: value_in_range_def in_range_def index30_def MapIndex_def ldexp_1_def sample_measurement_def double_number_def)
  ultimately obtain st' diag' rs where
    r: "ExpHistogram_run sample_hash (\<lambda>x. x) Finite (double_number Finite) ?ms (?st, Some DiagnosticsCounters_init) = Some (st', diag')"
    and rs: "list_all2 (\<lambda>(key, p) (key', vs). key = key' \<and> vs \<noteq> [] \<and> es_max_scale ?st - 30 \<le> ep_scale p \<and>
        exp_summarises (\<lambda>x. x) Finite (es_max_scale ?st) (es_max_buckets ?st) vs p) (es_points st') rs"
      "length rs \<le> es_max_cardinality ?st + 1"
    using exp_histogram_exact [OF _ _ _ _ refl refl, of ?st ?ms sample_hash "\<lambda>x. x" "double_number Finite" Finite DiagnosticsCounters_init]
    by (simp del: foldl_Cons) blast
  from list_all2_lengthD [OF rs(1)] rs(2) have "length (es_points st') \<le> 2" by simp
  with r show ?thesis by (simp del: foldl_Cons)
qed

end
