(* ===== verification/Metric_Meter.thy ===== *)
theory Metric_Meter
  imports Exp_Histogram
begin

text \<open>
  Views, the meter and the producer (\<open>src/sdk/view_registry.cpp\<close>, \<open>sdk_meter.cpp\<close>, \<open>metric_producer.cpp\<close>,
  \<open>metric_stream_impls.hpp\<close>, \<open>metric_observable_instruments.hpp\<close>).

  A stream object is owned by the producer and reached from the instruments by a raw pointer to its
  storage: the objects are a list and a pointer is a position in it. Streams are never removed. The
  value type \<open>T\<close> of a stream object is \<open>int64_t\<close> or \<open>double\<close>. A callback of an observable instrument is
  the application's; what it observes during one collection, and whether it throws, is a parameter
  of \<open>Collect\<close>. The clock is read once per measurement here and once per slot in the code, which is
  visible in the time of an exemplar only. \<open>Record\<close> on an exponential histogram may not return; then
  the value of recording through an instrument is \<open>None\<close>.

  Proved here: a measurement reaches exactly the streams of the views that match, with the attributes
  they allow, and each stream then holds what it would hold alone; and a collection reads every
  stream exactly once, or fails in a way that loses what it had already reset.
\<close>

section \<open>Views\<close>

datatype InstrumentKind = Counter | UpDownCounter | Gauge | Histogram | ExponentialHistogram
  | ObservableCounter | ObservableUpDownCounter | ObservableGauge

record InstrumentSelector =
  sel_name :: "string option"
  sel_kind :: "InstrumentKind option"
  sel_meter_name :: "string option"

record ViewTransform =
  tr_name :: "string option"
  tr_attribute_allowlist :: "string list option"
  tr_drop :: bool

record ViewConfig =
  vw_selector :: InstrumentSelector
  vw_transform :: ViewTransform

record InstrumentDescriptor =
  id_name :: string
  id_kind :: InstrumentKind
  id_meter_name :: string

record ViewRegistry = m_views :: "ViewConfig list"

definition ViewRegistry_Add :: "ViewConfig \<Rightarrow> ViewRegistry \<Rightarrow> ViewRegistry" where
  "ViewRegistry_Add view reg = reg\<lparr>m_views := m_views reg @ [view]\<rparr>"

definition MatchesName :: "string option \<Rightarrow> string \<Rightarrow> bool" where
  "MatchesName pattern name =
     (case pattern of
        None \<Rightarrow> True
      | Some p \<Rightarrow>
          if p \<noteq> [] \<and> last p = CHR ''*''
          then take (length p - 1) name = take (length p - 1) p
          else name = p)"

definition Match :: "ViewRegistry \<Rightarrow> InstrumentDescriptor \<Rightarrow> ViewConfig list" where
  "Match reg desc =
     foldl (\<lambda>result view.
       let sel = vw_selector view
       in if \<not> MatchesName (sel_name sel) (id_name desc) then result
          else if sel_kind sel \<noteq> None \<and> the (sel_kind sel) \<noteq> id_kind desc then result
          else if sel_meter_name sel \<noteq> None \<and> the (sel_meter_name sel) \<noteq> id_meter_name desc then result
          else result @ [view]) [] (m_views reg)"

text \<open>\<open>std::ranges::binary_search\<close>.\<close>

definition binary_search :: "'a :: linorder list \<Rightarrow> 'a \<Rightarrow> bool" where
  "binary_search xs v =
     (let i = lower_bound xs v 0 (length xs) in i < length xs \<and> \<not> v < xs ! i)"

definition FilterAttrs :: "KeyValue list \<Rightarrow> string list \<Rightarrow> KeyValue list" where
  "FilterAttrs attrs allowlist =
     foldl (\<lambda>buf kv. if binary_search allowlist (kv_key kv) then buf @ [kv] else buf) [] attrs"

record StreamSpec =
  sp_name :: string
  sp_allowlist :: "string list option"

definition ResolveStreamSpecs :: "string \<Rightarrow> ViewRegistry option \<Rightarrow> InstrumentDescriptor \<Rightarrow> StreamSpec list" where
  "ResolveStreamSpecs instrument_name registry desc =
     (case registry of
        None \<Rightarrow> [\<lparr>sp_name = instrument_name, sp_allowlist = None\<rparr>]
      | Some reg \<Rightarrow>
          let matches = Match reg desc
          in if matches = [] then [\<lparr>sp_name = instrument_name, sp_allowlist = None\<rparr>]
             else
               foldl (\<lambda>specs view.
                 if tr_drop (vw_transform view) then specs
                 else specs @ [\<lparr>sp_name = (case tr_name (vw_transform view) of Some n \<Rightarrow> n | None \<Rightarrow> instrument_name),
                                sp_allowlist = map_option sort (tr_attribute_allowlist (vw_transform view))\<rparr>])
                 [] matches)"

section \<open>Streams\<close>

record 'v ObservableResult =
  or_max_cardinality :: nat
  or_map :: "'v series"

definition Observe :: "std_hash \<Rightarrow> 'v \<Rightarrow> KeyValue list \<Rightarrow> 'v ObservableResult \<times> sink \<Rightarrow> 'v ObservableResult \<times> sink" where
  "Observe h v attrs = (\<lambda>(r, diag).
     let key = AttributeSet_of h attrs;
         is_new = (series_find key (or_map r) = None);
         needs_fold = (is_new \<and> length (or_map r) \<ge> or_max_cardinality r);
         key' = (if needs_fold then OverflowAttributeSet h else key)
     in (r\<lparr>or_map := insert_or_assign key' v (or_map r)\<rparr>,
         if needs_fold then count_drop CardinalityOverflow 1 diag else diag))"

text \<open>The state of a stream; the callback of an observable one is its number.\<close>

datatype 'v stream_body =
    SB_Sum "'v SumStorage"
  | SB_Gauge "'v GaugeStorage"
  | SB_Histogram HistogramStorage
  | SB_ExpHistogram ExponentialHistogramStorage
  | SB_ObservableSum bool nat "string list option" "'v ObservableResult"
  | SB_ObservableGauge nat "string list option" "'v ObservableResult"

record 'v MetricStream =
  sm_name :: string
  sm_description :: string
  sm_unit :: string
  sm_body :: "'v stream_body"

datatype stream_object = Stream_I64 "64 word MetricStream" | Stream_Double "double_value MetricStream"

datatype MetricData = MD_Sum SumData | MD_Gauge GaugeData | MD_Histogram HistogramData
  | MD_ExponentialHistogram ExponentialHistogramData

record MetricRecord =
  mr_name :: string
  mr_description :: string
  mr_unit :: string
  mr_data :: MetricData

text \<open>What a callback does during a collection: what it observes, and whether it then throws.\<close>

record 'v callback_run =
  cr_observations :: "('v \<times> KeyValue list) list"
  cr_throws :: bool

record callback_world =
  cw_int64 :: "nat \<Rightarrow> 64 word callback_run"
  cw_double :: "nat \<Rightarrow> double_value callback_run"

definition BridgeCallback ::
    "std_hash \<Rightarrow> string list option \<Rightarrow> 'v callback_run \<Rightarrow> 'v ObservableResult \<times> sink \<Rightarrow> 'v ObservableResult \<times> sink" where
  "BridgeCallback h allowlist run w =
     foldl (\<lambda>w (v, attrs).
       case allowlist of
         Some al \<Rightarrow> Observe h v (FilterAttrs attrs al) w
       | None \<Rightarrow> Observe h v attrs w) w (cr_observations run)"

definition observable_points :: "'v number \<Rightarrow> 'v series \<Rightarrow> NumberPoint list" where
  "observable_points num pts = map (number_point num []) pts"

text \<open>
  \<open>IMetricStream::Collect\<close>: the record, unless the callback threw, and the state left behind.
\<close>

definition body_Collect ::
    "std_hash \<Rightarrow> 'v number \<Rightarrow> (nat \<Rightarrow> 'v callback_run) \<Rightarrow> AggregationTemporality \<Rightarrow> 'v stream_body \<times> sink \<Rightarrow>
     MetricData option \<times> 'v stream_body \<times> sink" where
  "body_Collect h num cbs temporality = (\<lambda>(body, diag).
     case body of
       SB_Sum st \<Rightarrow> (let (data, st1) = Sum_Collect num temporality st in (Some (MD_Sum data), SB_Sum st1, diag))
     | SB_Gauge st \<Rightarrow> (let (data, st1) = Gauge_Collect num st in (Some (MD_Gauge data), SB_Gauge st1, diag))
     | SB_Histogram st \<Rightarrow>
         (let (data, st1) = Histogram_Collect temporality st in (Some (MD_Histogram data), SB_Histogram st1, diag))
     | SB_ExpHistogram st \<Rightarrow>
         (let (data, st1) = ExpHistogram_Collect temporality st
          in (Some (MD_ExponentialHistogram data), SB_ExpHistogram st1, diag))
     | SB_ObservableSum monotonic cb allowlist r \<Rightarrow>
         (let (r1, diag1) = BridgeCallback h allowlist (cbs cb) (r\<lparr>or_map := []\<rparr>, diag)
          in (if cr_throws (cbs cb) then None
              else Some (MD_Sum \<lparr>sd_temporality = temporality, sd_is_monotonic = monotonic,
                                 sd_points = observable_points num (or_map r1)\<rparr>),
              SB_ObservableSum monotonic cb allowlist r1, diag1))
     | SB_ObservableGauge cb allowlist r \<Rightarrow>
         (let (r1, diag1) = BridgeCallback h allowlist (cbs cb) (r\<lparr>or_map := []\<rparr>, diag)
          in (if cr_throws (cbs cb) then None
              else Some (MD_Gauge \<lparr>gd_points = observable_points num (or_map r1)\<rparr>),
              SB_ObservableGauge cb allowlist r1, diag1)))"

definition MetricStream_Collect ::
    "std_hash \<Rightarrow> 'v number \<Rightarrow> (nat \<Rightarrow> 'v callback_run) \<Rightarrow> AggregationTemporality \<Rightarrow> 'v MetricStream \<times> sink \<Rightarrow>
     MetricRecord option \<times> 'v MetricStream \<times> sink" where
  "MetricStream_Collect h num cbs temporality = (\<lambda>(s, diag).
     let (data, body, diag1) = body_Collect h num cbs temporality (sm_body s, diag)
     in (map_option (\<lambda>d. \<lparr>mr_name = sm_name s, mr_description = sm_description s, mr_unit = sm_unit s, mr_data = d\<rparr>) data,
         s\<lparr>sm_body := body\<rparr>, diag1))"

fun stream_Collect ::
    "std_hash \<Rightarrow> (rat \<Rightarrow> double_value) \<Rightarrow> callback_world \<Rightarrow> AggregationTemporality \<Rightarrow> stream_object \<times> sink \<Rightarrow>
     MetricRecord option \<times> stream_object \<times> sink" where
  "stream_Collect h fl cw t (Stream_I64 s, diag) =
     (let (r, s1, diag1) = MetricStream_Collect h (int64_number fl) (cw_int64 cw) t (s, diag) in (r, Stream_I64 s1, diag1))"
| "stream_Collect h fl cw t (Stream_Double s, diag) =
     (let (r, s1, diag1) = MetricStream_Collect h (double_number fl) (cw_double cw) t (s, diag) in (r, Stream_Double s1, diag1))"

section \<open>The producer\<close>

record MetricProducer =
  mp_resource :: "resource_ptr option"
  mp_scopes :: "(InstrumentationScope \<times> nat list) list"
  mp_streams :: "stream_object list"

fun add_to_scope :: "InstrumentationScope \<Rightarrow> nat \<Rightarrow> (InstrumentationScope \<times> nat list) list \<Rightarrow>
    (InstrumentationScope \<times> nat list) list" where
  "add_to_scope scope a [] = [(scope, [a])]"
| "add_to_scope scope a ((s, as) # es) =
     (if scope_name s = scope_name scope \<and> scope_version s = scope_version scope then (s, as @ [a]) # es
      else (s, as) # add_to_scope scope a es)"

definition AddStream :: "InstrumentationScope \<Rightarrow> stream_object \<Rightarrow> MetricProducer \<Rightarrow> nat \<times> MetricProducer" where
  "AddStream scope s p =
     (let a = length (mp_streams p)
      in (a, p\<lparr>mp_streams := mp_streams p @ [s], mp_scopes := add_to_scope scope a (mp_scopes p)\<rparr>))"

record MetricBatchHandle =
  mb_metrics :: "MetricRecord list"
  mb_resource :: "resource_ptr option"
  mb_scope :: InstrumentationScope

definition SnapshotScopes :: "MetricProducer \<Rightarrow> (InstrumentationScope \<times> nat list) list" where
  "SnapshotScopes p = mp_scopes p"

text \<open>
  The loops of \<open>Collect\<close>: the streams of one scope, and the scopes. The first result is \<open>None\<close> when a
  callback threw, which ends both.
\<close>

fun collect_streams ::
    "(stream_object \<times> sink \<Rightarrow> MetricRecord option \<times> stream_object \<times> sink) \<Rightarrow> nat list \<Rightarrow>
     stream_object list \<times> sink \<Rightarrow> MetricRecord list option \<times> stream_object list \<times> sink" where
  "collect_streams collect [] w = (Some [], w)"
| "collect_streams collect (a # as) (ss, diag) =
     (case collect (ss ! a, diag) of
        (None, s1, diag1) \<Rightarrow> (None, ss[a := s1], diag1)
      | (Some r, s1, diag1) \<Rightarrow>
          (case collect_streams collect as (ss[a := s1], diag1) of
             (None, w) \<Rightarrow> (None, w)
           | (Some rs, w) \<Rightarrow> (Some (r # rs), w)))"

fun collect_scopes ::
    "(stream_object \<times> sink \<Rightarrow> MetricRecord option \<times> stream_object \<times> sink) \<Rightarrow> resource_ptr option \<Rightarrow>
     (InstrumentationScope \<times> nat list) list \<Rightarrow> stream_object list \<times> sink \<Rightarrow>
     MetricBatchHandle list option \<times> stream_object list \<times> sink" where
  "collect_scopes collect resource [] w = (Some [], w)"
| "collect_scopes collect resource ((scope, as) # es) w =
     (case collect_streams collect as w of
        (None, w1) \<Rightarrow> (None, w1)
      | (Some records, w1) \<Rightarrow>
          (case collect_scopes collect resource es w1 of
             (None, w2) \<Rightarrow> (None, w2)
           | (Some hs, w2) \<Rightarrow>
               (Some (\<lparr>mb_metrics = records, mb_resource = resource, mb_scope = scope\<rparr> # hs), w2)))"

definition MetricProducer_Collect ::
    "std_hash \<Rightarrow> (rat \<Rightarrow> double_value) \<Rightarrow> callback_world \<Rightarrow> AggregationTemporality \<Rightarrow> MetricProducer \<times> sink \<Rightarrow>
     MetricBatchHandle list option \<times> MetricProducer \<times> sink" where
  "MetricProducer_Collect h fl cw temporality = (\<lambda>(p, diag).
     let (hs, ss, diag1) =
           collect_scopes (stream_Collect h fl cw temporality) (mp_resource p) (SnapshotScopes p) (mp_streams p, diag)
     in (hs, p\<lparr>mp_streams := ss\<rparr>, diag1))"

section \<open>The meter\<close>

record SdkMeter =
  mt_scope :: InstrumentationScope
  mt_max_cardinality :: nat
  mt_registry :: "ViewRegistry option"

record StorageSlot =
  sl_storage :: nat
  sl_allowlist :: "string list option"

type_synonym instrument = "StorageSlot list"

text \<open>What the ten factories of synchronous instruments share: one stream and one slot per view.\<close>

definition add_slot ::
    "SdkMeter \<Rightarrow> (string \<Rightarrow> stream_object) \<Rightarrow> instrument \<times> MetricProducer \<Rightarrow> StreamSpec \<Rightarrow> instrument \<times> MetricProducer" where
  "add_slot mt new_stream = (\<lambda>(slots, p) spec.
     let (a, p1) = AddStream (mt_scope mt) (new_stream (sp_name spec)) p
     in (slots @ [\<lparr>sl_storage = a, sl_allowlist = sp_allowlist spec\<rparr>], p1))"

definition create_instrument ::
    "SdkMeter \<Rightarrow> InstrumentKind \<Rightarrow> (string \<Rightarrow> stream_object) \<Rightarrow> string \<Rightarrow> MetricProducer \<Rightarrow> instrument \<times> MetricProducer" where
  "create_instrument mt kind new_stream name p =
     (let desc = \<lparr>id_name = name, id_kind = kind, id_meter_name = scope_name (mt_scope mt)\<rparr>;
          specs = ResolveStreamSpecs name (mt_registry mt) desc
      in foldl (add_slot mt new_stream) ([], p) specs)"

definition SumStorage_new :: "bool \<Rightarrow> nat \<Rightarrow> 'v SumStorage" where
  "SumStorage_new monotonic n =
     \<lparr>ss_monotonic = monotonic, ss_max_cardinality = n, ss_points = [], ss_exemplars = []\<rparr>"

definition GaugeStorage_new :: "nat \<Rightarrow> 'v GaugeStorage" where
  "GaugeStorage_new n = \<lparr>gs_max_cardinality = n, gs_points = [], gs_exemplars = []\<rparr>"

definition HistogramStorage_new :: "rat list \<Rightarrow> nat \<Rightarrow> HistogramStorage" where
  "HistogramStorage_new boundaries n =
     \<lparr>hs_boundaries = boundaries, hs_max_cardinality = n, hs_points = [], hs_exemplars = []\<rparr>"

definition ExponentialHistogramStorage_new :: "int \<Rightarrow> int \<Rightarrow> nat \<Rightarrow> ExponentialHistogramStorage" where
  "ExponentialHistogramStorage_new max_scale max_buckets n =
     \<lparr>es_max_scale = max_scale, es_max_buckets = max_buckets, es_max_cardinality = n, es_points = [], es_exemplars = []\<rparr>"

definition MetricStream_new :: "string \<Rightarrow> string \<Rightarrow> 'v stream_body \<Rightarrow> string \<Rightarrow> 'v MetricStream" where
  "MetricStream_new description unit body name =
     \<lparr>sm_name = name, sm_description = description, sm_unit = unit, sm_body = body\<rparr>"

definition DoCreateCounterI64 where
  "DoCreateCounterI64 mt name description unit =
     create_instrument mt Counter
       (\<lambda>n. Stream_I64 (MetricStream_new description unit (SB_Sum (SumStorage_new True (mt_max_cardinality mt))) n)) name"

definition DoCreateCounterDouble where
  "DoCreateCounterDouble mt name description unit =
     create_instrument mt Counter
       (\<lambda>n. Stream_Double (MetricStream_new description unit (SB_Sum (SumStorage_new True (mt_max_cardinality mt))) n)) name"

definition DoCreateUpDownCounterI64 where
  "DoCreateUpDownCounterI64 mt name description unit =
     create_instrument mt UpDownCounter
       (\<lambda>n. Stream_I64 (MetricStream_new description unit (SB_Sum (SumStorage_new False (mt_max_cardinality mt))) n)) name"

definition DoCreateUpDownCounterDouble where
  "DoCreateUpDownCounterDouble mt name description unit =
     create_instrument mt UpDownCounter
       (\<lambda>n. Stream_Double (MetricStream_new description unit (SB_Sum (SumStorage_new False (mt_max_cardinality mt))) n)) name"

definition DoCreateGaugeI64 where
  "DoCreateGaugeI64 mt name description unit =
     create_instrument mt Gauge
       (\<lambda>n. Stream_I64 (MetricStream_new description unit (SB_Gauge (GaugeStorage_new (mt_max_cardinality mt))) n)) name"

definition DoCreateGaugeDouble where
  "DoCreateGaugeDouble mt name description unit =
     create_instrument mt Gauge
       (\<lambda>n. Stream_Double (MetricStream_new description unit (SB_Gauge (GaugeStorage_new (mt_max_cardinality mt))) n)) name"

definition DoCreateHistogramI64 where
  "DoCreateHistogramI64 mt name description unit boundaries =
     create_instrument mt Histogram
       (\<lambda>n. Stream_I64 (MetricStream_new description unit
          (SB_Histogram (HistogramStorage_new boundaries (mt_max_cardinality mt))) n)) name"

definition DoCreateHistogramDouble where
  "DoCreateHistogramDouble mt name description unit boundaries =
     create_instrument mt Histogram
       (\<lambda>n. Stream_Double (MetricStream_new description unit
          (SB_Histogram (HistogramStorage_new boundaries (mt_max_cardinality mt))) n)) name"

definition DoCreateExponentialHistogramI64 where
  "DoCreateExponentialHistogramI64 mt name description unit max_scale max_buckets =
     create_instrument mt ExponentialHistogram
       (\<lambda>n. Stream_I64 (MetricStream_new description unit
          (SB_ExpHistogram (ExponentialHistogramStorage_new max_scale max_buckets (mt_max_cardinality mt))) n)) name"

definition DoCreateExponentialHistogramDouble where
  "DoCreateExponentialHistogramDouble mt name description unit max_scale max_buckets =
     create_instrument mt ExponentialHistogram
       (\<lambda>n. Stream_Double (MetricStream_new description unit
          (SB_ExpHistogram (ExponentialHistogramStorage_new max_scale max_buckets (mt_max_cardinality mt))) n)) name"

text \<open>Observable instruments have no handle: only their streams are registered.\<close>

definition AddObservableSums ::
    "('v MetricStream \<Rightarrow> stream_object) \<Rightarrow> SdkMeter \<Rightarrow> string \<Rightarrow> string \<Rightarrow> StreamSpec list \<Rightarrow> bool \<Rightarrow> nat \<Rightarrow>
     MetricProducer \<Rightarrow> MetricProducer" where
  "AddObservableSums wrap mt description unit specs monotonic callback p =
     foldl (\<lambda>p spec. snd (AddStream (mt_scope mt) (wrap (MetricStream_new description unit
         (SB_ObservableSum monotonic callback (sp_allowlist spec)
            \<lparr>or_max_cardinality = mt_max_cardinality mt, or_map = []\<rparr>) (sp_name spec))) p)) p specs"

definition AddObservableGauges ::
    "('v MetricStream \<Rightarrow> stream_object) \<Rightarrow> SdkMeter \<Rightarrow> string \<Rightarrow> string \<Rightarrow> StreamSpec list \<Rightarrow> nat \<Rightarrow>
     MetricProducer \<Rightarrow> MetricProducer" where
  "AddObservableGauges wrap mt description unit specs callback p =
     foldl (\<lambda>p spec. snd (AddStream (mt_scope mt) (wrap (MetricStream_new description unit
         (SB_ObservableGauge callback (sp_allowlist spec)
            \<lparr>or_max_cardinality = mt_max_cardinality mt, or_map = []\<rparr>) (sp_name spec))) p)) p specs"

definition RegisterObservable ::
    "('v MetricStream \<Rightarrow> stream_object) \<Rightarrow> SdkMeter \<Rightarrow> string \<Rightarrow> string \<Rightarrow> string \<Rightarrow> InstrumentKind \<Rightarrow> nat \<Rightarrow>
     MetricProducer \<Rightarrow> MetricProducer" where
  "RegisterObservable wrap mt name description unit kind callback p =
     (let desc = \<lparr>id_name = name, id_kind = kind, id_meter_name = scope_name (mt_scope mt)\<rparr>;
          specs = ResolveStreamSpecs name (mt_registry mt) desc
      in if kind = ObservableGauge then AddObservableGauges wrap mt description unit specs callback p
         else AddObservableSums wrap mt description unit specs (kind = ObservableCounter) callback p)"

section \<open>Recording through an instrument\<close>

definition body_Record ::
    "std_hash \<Rightarrow> (rat \<Rightarrow> rat) \<Rightarrow> (rat \<Rightarrow> double_value) \<Rightarrow> 'v number \<Rightarrow> 'v measurement \<Rightarrow> 'v stream_body \<times> sink \<Rightarrow>
     ('v stream_body \<times> sink) option" where
  "body_Record h log2 fl num m = (\<lambda>(body, diag).
     case body of
       SB_Sum st \<Rightarrow> Some (map_prod SB_Sum id (Sum_Add h num m (st, diag)))
     | SB_Gauge st \<Rightarrow> Some (map_prod SB_Gauge id (Gauge_Record h num m (st, diag)))
     | SB_Histogram st \<Rightarrow> Some (map_prod SB_Histogram id (Histogram_Record h fl num m (st, diag)))
     | SB_ExpHistogram st \<Rightarrow> map_option (map_prod SB_ExpHistogram id) (ExpHistogram_Record h log2 fl num m (st, diag))
     | _ \<Rightarrow> None)"

text \<open>A measurement of either value type, and recording it in the object a slot points to.\<close>

datatype typed_measurement = TM_I64 "64 word measurement" | TM_Double "double_value measurement"

fun tm_attrs :: "typed_measurement \<Rightarrow> KeyValue list" where
  "tm_attrs (TM_I64 m) = me_attrs m"
| "tm_attrs (TM_Double m) = me_attrs m"

fun tm_with_attrs :: "KeyValue list \<Rightarrow> typed_measurement \<Rightarrow> typed_measurement" where
  "tm_with_attrs attrs (TM_I64 m) = TM_I64 (m\<lparr>me_attrs := attrs\<rparr>)"
| "tm_with_attrs attrs (TM_Double m) = TM_Double (m\<lparr>me_attrs := attrs\<rparr>)"

fun stream_Record ::
    "std_hash \<Rightarrow> (rat \<Rightarrow> rat) \<Rightarrow> (rat \<Rightarrow> double_value) \<Rightarrow> typed_measurement \<Rightarrow> stream_object \<times> sink \<Rightarrow>
     (stream_object \<times> sink) option" where
  "stream_Record h log2 fl (TM_I64 m) (Stream_I64 s, diag) =
     map_option (map_prod (\<lambda>b. Stream_I64 (s\<lparr>sm_body := b\<rparr>)) id) (body_Record h log2 fl (int64_number fl) m (sm_body s, diag))"
| "stream_Record h log2 fl (TM_Double m) (Stream_Double s, diag) =
     map_option (map_prod (\<lambda>b. Stream_Double (s\<lparr>sm_body := b\<rparr>)) id) (body_Record h log2 fl (double_number fl) m (sm_body s, diag))"
| "stream_Record h log2 fl _ _ = None"

definition slot_attrs :: "StorageSlot \<Rightarrow> KeyValue list \<Rightarrow> KeyValue list" where
  "slot_attrs slot attrs = (case sl_allowlist slot of Some al \<Rightarrow> FilterAttrs attrs al | None \<Rightarrow> attrs)"

primrec ForEach ::
    "instrument \<Rightarrow> KeyValue list \<Rightarrow> (nat \<Rightarrow> KeyValue list \<Rightarrow> 'w \<Rightarrow> 'w option) \<Rightarrow> 'w \<Rightarrow> 'w option" where
  "ForEach [] attrs record_in w = Some w"
| "ForEach (slot # slots) attrs record_in w =
     (case record_in (sl_storage slot) (slot_attrs slot attrs) w of
        None \<Rightarrow> None
      | Some w1 \<Rightarrow> ForEach slots attrs record_in w1)"

definition Instrument_Record ::
    "std_hash \<Rightarrow> (rat \<Rightarrow> rat) \<Rightarrow> (rat \<Rightarrow> double_value) \<Rightarrow> instrument \<Rightarrow> typed_measurement \<Rightarrow> MetricProducer \<times> sink \<Rightarrow>
     (MetricProducer \<times> sink) option" where
  "Instrument_Record h log2 fl slots m w =
     ForEach slots (tm_attrs m) (\<lambda>a attrs (p, diag).
       map_option (\<lambda>(s, diag1). (p\<lparr>mp_streams := (mp_streams p)[a := s]\<rparr>, diag1))
         (stream_Record h log2 fl (tm_with_attrs attrs m) (mp_streams p ! a, diag))) w"


section \<open>Views, declaratively\<close>

lemma binary_search_sorted:
  assumes "sorted xs"
  shows "binary_search xs v \<longleftrightarrow> v \<in> set xs"
proof -
  define r where "r = lower_bound xs v 0 (length xs)"
  have "\<forall>i. 0 + length xs \<le> i \<and> i < length xs \<longrightarrow> v \<le> xs ! i" using leD by auto
  from lower_bound_partition [OF assms _ _ this, folded r_def]
  have r: "\<And>i. i < r \<Longrightarrow> xs ! i < v" "\<And>i. r \<le> i \<Longrightarrow> i < length xs \<Longrightarrow> v \<le> xs ! i" by auto
  show ?thesis
  proof
    assume "binary_search xs v"
    then show "v \<in> set xs" using r(2) [of r] by (force simp: binary_search_def r_def [symmetric] in_set_conv_nth not_less)
  next
    assume "v \<in> set xs"
    then obtain i where i: "i < length xs" "xs ! i = v" by (auto simp: in_set_conv_nth)
    then have "r \<le> i" using r(1) [of i] by (cases "i < r") auto
    moreover from this have "\<not> v < xs ! r" using sorted_nth_mono [OF assms, of r i] i by (simp add: not_less)
    ultimately show "binary_search xs v" using i(1) by (simp add: binary_search_def r_def [symmetric])
  qed
qed

lemma foldl_filter_map:
  "foldl (\<lambda>acc x. if P x then acc @ [f x] else acc) ys xs = ys @ map f (filter P xs)"
  by (induction xs arbitrary: ys) auto

lemma FilterAttrs_sort: "FilterAttrs attrs (sort al) = filter (\<lambda>kv. kv_key kv \<in> set al) attrs"
  using foldl_filter_map [of "\<lambda>kv. binary_search (sort al) (kv_key kv)" "\<lambda>kv. kv" "[]" attrs]
  by (simp add: FilterAttrs_def binary_search_sorted)

definition view_matches :: "InstrumentDescriptor \<Rightarrow> ViewConfig \<Rightarrow> bool" where
  "view_matches desc view \<longleftrightarrow>
     (case sel_name (vw_selector view) of
        None \<Rightarrow> True
      | Some p \<Rightarrow> id_name desc = p \<and> (p = [] \<or> last p \<noteq> CHR ''*'') \<or> (\<exists>pre post. p = pre @ ''*'' \<and> id_name desc = pre @ post)) \<and>
     (\<forall>k. sel_kind (vw_selector view) = Some k \<longrightarrow> k = id_kind desc) \<and>
     (\<forall>n. sel_meter_name (vw_selector view) = Some n \<longrightarrow> n = id_meter_name desc)"

lemma MatchesName_iff:
  "MatchesName (Some p) n \<longleftrightarrow> n = p \<and> (p = [] \<or> last p \<noteq> CHR ''*'') \<or> (\<exists>pre post. p = pre @ ''*'' \<and> n = pre @ post)"
proof (cases p rule: rev_cases)
  case (snoc pre c)
  have "take (length pre) n = pre \<longleftrightarrow> (\<exists>post. n = pre @ post)" by (metis append_eq_conv_conj append_take_drop_id)
  then show ?thesis using snoc by (auto simp: MatchesName_def)
qed (simp add: MatchesName_def)

lemma Match_eq: "Match reg desc = filter (view_matches desc) (m_views reg)"
proof -
  let ?P = "\<lambda>view. MatchesName (sel_name (vw_selector view)) (id_name desc) \<and>
      \<not> (sel_kind (vw_selector view) \<noteq> None \<and> the (sel_kind (vw_selector view)) \<noteq> id_kind desc) \<and>
      \<not> (sel_meter_name (vw_selector view) \<noteq> None \<and> the (sel_meter_name (vw_selector view)) \<noteq> id_meter_name desc)"
  have "Match reg desc = foldl (\<lambda>acc x. if ?P x then acc @ [x] else acc) [] (m_views reg)"
    unfolding Match_def Let_def by (intro arg_cong2 [where f = "\<lambda>f. foldl f []"] refl ext) auto
  then have "Match reg desc = filter ?P (m_views reg)" using foldl_filter_map [of ?P "\<lambda>x. x" "[]" "m_views reg"] by simp
  moreover have "?P view \<longleftrightarrow> view_matches desc view" for view
    by (cases "sel_name (vw_selector view)"; cases "sel_kind (vw_selector view)"; cases "sel_meter_name (vw_selector view)")
      (simp_all add: view_matches_def MatchesName_iff MatchesName_def [of None])
  ultimately show ?thesis by simp
qed

text \<open>The streams an instrument should have: name and allowed keys.\<close>

definition view_specs :: "SdkMeter \<Rightarrow> InstrumentKind \<Rightarrow> string \<Rightarrow> (string \<times> string set option) list" where
  "view_specs mt kind name =
     (let desc = \<lparr>id_name = name, id_kind = kind, id_meter_name = scope_name (mt_scope mt)\<rparr>;
          views = (case mt_registry mt of None \<Rightarrow> [] | Some reg \<Rightarrow> filter (view_matches desc) (m_views reg))
      in if views = [] then [(name, None)]
         else map (\<lambda>v. (case tr_name (vw_transform v) of Some n \<Rightarrow> n | None \<Rightarrow> name,
                        map_option set (tr_attribute_allowlist (vw_transform v))))
           (filter (\<lambda>v. \<not> tr_drop (vw_transform v)) views))"

definition allowed :: "string set option \<Rightarrow> KeyValue list \<Rightarrow> KeyValue list" where
  "allowed keys attrs = (case keys of None \<Rightarrow> attrs | Some ks \<Rightarrow> filter (\<lambda>kv. kv_key kv \<in> ks) attrs)"

definition spec_meaning :: "StreamSpec \<Rightarrow> string \<times> string set option" where
  "spec_meaning spec = (sp_name spec, map_option set (sp_allowlist spec))"

lemma ResolveStreamSpecs_meaning:
  assumes "specs = ResolveStreamSpecs name (mt_registry mt) \<lparr>id_name = name, id_kind = kind, id_meter_name = scope_name (mt_scope mt)\<rparr>"
  shows "map spec_meaning specs = view_specs mt kind name" and "\<forall>spec \<in> set specs. \<forall>al. sp_allowlist spec = Some al \<longrightarrow> sorted al"
proof -
  have fold: "foldl (\<lambda>specs view. if tr_drop (vw_transform view) then specs else specs @ [f view]) ys views =
      ys @ map f (filter (\<lambda>v. \<not> tr_drop (vw_transform v)) views)" for f :: "ViewConfig \<Rightarrow> StreamSpec" and ys views
    by (induction views arbitrary: ys) auto
  show "map spec_meaning specs = view_specs mt kind name"
    by (cases "mt_registry mt")
      (auto simp: assms ResolveStreamSpecs_def view_specs_def Let_def fold Match_eq spec_meaning_def option.map_comp o_def)
  show "\<forall>spec \<in> set specs. \<forall>al. sp_allowlist spec = Some al \<longrightarrow> sorted al"
    by (cases "mt_registry mt") (auto simp: assms ResolveStreamSpecs_def Let_def fold)
qed

lemma slot_attrs_allowed:
  assumes "\<forall>al. sl_allowlist slot = Some al \<longrightarrow> sorted al"
  shows "slot_attrs slot attrs = allowed (map_option set (sl_allowlist slot)) attrs"
proof (cases "sl_allowlist slot")
  case (Some al)
  then have "sort al = al" using assms by (simp add: sort_key_id_if_sorted)
  then show ?thesis using FilterAttrs_sort [of attrs al] Some by (simp add: slot_attrs_def allowed_def)
qed (simp add: slot_attrs_def allowed_def)


section \<open>Storages do not look at the sink\<close>

lemma find_or_emplace_sink:
  "find_or_emplace h n fresh attrs (pts, d) = (i, pts', d1) \<Longrightarrow>
   \<exists>d2. find_or_emplace h n fresh attrs (pts, d') = (i, pts', d2)"
  by (auto simp: find_or_emplace_def Let_def split: option.splits prod.splits)

lemma storage_sinks:
  "fst (Sum_Add h num m (st, d)) = fst (Sum_Add h num m (st, d'))"
  "fst (Gauge_Record h num m (gs, d)) = fst (Gauge_Record h num m (gs, d'))"
  "fst (Histogram_Record h fl num m (hs, d)) = fst (Histogram_Record h fl num m (hs, d'))"
  "map_option fst (ExpHistogram_Record h log2 fl num m (es, d)) = map_option fst (ExpHistogram_Record h log2 fl num m (es, d'))"
  by (auto simp: Sum_Add_def Gauge_Record_def Histogram_Record_def ExpHistogram_Record_def Let_def
      split: prod.splits option.splits dest: find_or_emplace_sink [where d' = d] find_or_emplace_sink [where d' = d'])

lemma map_option_fst_map_prod: "map_option fst (map_option (map_prod f id) x) = map_option f (map_option fst x)"
  by (cases x) (auto simp: map_prod_def split_def)

lemma body_Record_sink:
  "map_option fst (body_Record h log2 fl num m (body, d)) = map_option fst (body_Record h log2 fl num m (body, d'))"
proof (cases body)
  case (SB_ExpHistogram es)
  show ?thesis
    unfolding body_Record_def SB_ExpHistogram prod.case stream_body.case map_option_fst_map_prod
    by (rule arg_cong [OF storage_sinks(4)])
qed (auto simp: body_Record_def fst_map_prod intro: storage_sinks)

lemma stream_Record_sink:
  "map_option fst (stream_Record h log2 fl m (s, d)) = map_option fst (stream_Record h log2 fl m (s, d'))"
  by (cases m; cases s) (simp_all only: stream_Record.simps map_option_fst_map_prod
      body_Record_sink [of h log2 fl "int64_number fl" _ _ d d'] body_Record_sink [of h log2 fl "double_number fl" _ _ d d'])

section \<open>Fan-out\<close>

text \<open>
  Measurements a stream takes: of its value type, and for an exponential histogram with two buckets
  and observations in range.
\<close>

fun body_takes :: "(rat \<Rightarrow> rat) \<Rightarrow> 'v number \<Rightarrow> 'v stream_body \<Rightarrow> 'v measurement \<Rightarrow> bool" where
  "body_takes log2 num (SB_ExpHistogram st) m \<longleftrightarrow>
     2 \<le> es_max_buckets st \<and> narrow_storage st \<and> value_in_range log2 num (es_max_scale st) m"
| "body_takes log2 num (SB_ObservableSum _ _ _ _) m = False"
| "body_takes log2 num (SB_ObservableGauge _ _ _) m = False"
| "body_takes log2 num _ m = True"

fun takes :: "(rat \<Rightarrow> rat) \<Rightarrow> (rat \<Rightarrow> double_value) \<Rightarrow> stream_object \<Rightarrow> typed_measurement \<Rightarrow> bool" where
  "takes log2 fl (Stream_I64 s) (TM_I64 m) = body_takes log2 (int64_number fl) (sm_body s) m"
| "takes log2 fl (Stream_Double s) (TM_Double m) = body_takes log2 (double_number fl) (sm_body s) m"
| "takes log2 fl _ _ = False"

definition stream_step ::
    "std_hash \<Rightarrow> (rat \<Rightarrow> rat) \<Rightarrow> (rat \<Rightarrow> double_value) \<Rightarrow> typed_measurement \<Rightarrow> stream_object \<Rightarrow> stream_object option" where
  "stream_step h log2 fl m s = map_option fst (stream_Record h log2 fl m (s, None))"

text \<open>What a stream holds after some measurements of its own.\<close>

definition replay ::
    "std_hash \<Rightarrow> (rat \<Rightarrow> rat) \<Rightarrow> (rat \<Rightarrow> double_value) \<Rightarrow> typed_measurement list \<Rightarrow> stream_object \<Rightarrow> stream_object option" where
  "replay h log2 fl ms s = foldl (\<lambda>s m. Option.bind s (stream_step h log2 fl m)) (Some s) ms"

lemma body_Record_ok:
  assumes "body_takes log2 num b m"
  obtains b' d' where "body_Record h log2 fl num m (b, d) = Some (b', d')"
    "\<And>m'. body_takes log2 num b m' \<Longrightarrow> body_takes log2 num b' m'"
proof (cases b)
  case (SB_ExpHistogram es)
  obtain es' d' where r: "ExpHistogram_settled h log2 fl num m (es, d) = (es', d')" by force
  have "ExpHistogram_Record h log2 fl num m (es, d) = Some (es', d')" "narrow_storage es'"
    using ExpHistogram_Record_settled [OF _ _ _ r] assms SB_ExpHistogram by simp_all
  moreover have "exp_config es' = exp_config es" by (rule exp_st.record_config [OF r])
  ultimately show thesis
    using that [of "SB_ExpHistogram es'" d'] SB_ExpHistogram by (simp add: body_Record_def exp_config_def)
qed (use assms that in \<open>auto simp: body_Record_def map_prod_def split_def\<close>)

lemma stream_Record_takes:
  assumes "takes log2 fl s m"
  obtains s' d' where "stream_Record h log2 fl m (s, d) = Some (s', d')"
    "\<And>m'. takes log2 fl s m' \<Longrightarrow> takes log2 fl s' m'"
proof (cases s)
  case (Stream_I64 t)
  then obtain x where m: "m = TM_I64 x" and ok: "body_takes log2 (int64_number fl) (sm_body t) x"
    using assms by (cases m) auto
  obtain b d' where "body_Record h log2 fl (int64_number fl) x (sm_body t, d) = Some (b, d')"
    "\<And>m'. body_takes log2 (int64_number fl) (sm_body t) m' \<Longrightarrow> body_takes log2 (int64_number fl) b m'"
    using body_Record_ok [OF ok] by metis
  moreover have "takes log2 fl (Stream_I64 (t\<lparr>sm_body := b\<rparr>)) m'" if "takes log2 fl s m'" for m'
    using that calculation(2) Stream_I64 by (cases m') auto
  ultimately show thesis using that [of "Stream_I64 (t\<lparr>sm_body := b\<rparr>)" d'] Stream_I64 m by simp
next
  case (Stream_Double t)
  then obtain x where m: "m = TM_Double x" and ok: "body_takes log2 (double_number fl) (sm_body t) x"
    using assms by (cases m) auto
  obtain b d' where "body_Record h log2 fl (double_number fl) x (sm_body t, d) = Some (b, d')"
    "\<And>m'. body_takes log2 (double_number fl) (sm_body t) m' \<Longrightarrow> body_takes log2 (double_number fl) b m'"
    using body_Record_ok [OF ok] by metis
  moreover have "takes log2 fl (Stream_Double (t\<lparr>sm_body := b\<rparr>)) m'" if "takes log2 fl s m'" for m'
    using that calculation(2) Stream_Double by (cases m') auto
  ultimately show thesis using that [of "Stream_Double (t\<lparr>sm_body := b\<rparr>)" d'] Stream_Double m by simp
qed

lemma body_takes_attrs: "me_value m' = me_value m \<Longrightarrow> body_takes log2 num b m' = body_takes log2 num b m"
  by (cases b) (auto simp: value_in_range_def)

lemma takes_with_attrs [simp]: "takes log2 fl s (tm_with_attrs attrs m) = takes log2 fl s m"
  by (cases s; cases m) (auto intro!: body_takes_attrs)

definition slot_measurement :: "StorageSlot \<Rightarrow> typed_measurement \<Rightarrow> typed_measurement" where
  "slot_measurement slot m = tm_with_attrs (slot_attrs slot (tm_attrs m)) m"

abbreviation slots_ok :: "instrument \<Rightarrow> MetricProducer \<Rightarrow> (stream_object \<Rightarrow> bool) \<Rightarrow> bool" where
  "slots_ok slots p Q \<equiv> distinct (map sl_storage slots) \<and>
     (\<forall>slot \<in> set slots. sl_storage slot < length (mp_streams p) \<and> Q (mp_streams p ! sl_storage slot))"

lemma Instrument_Record_slots:
  assumes "slots_ok slots p (\<lambda>s. takes log2 fl s m)"
  shows "\<exists>ss d'. Instrument_Record h log2 fl slots m (p, d) = Some (p\<lparr>mp_streams := ss\<rparr>, d') \<and>
    length ss = length (mp_streams p) \<and> (\<forall>a. a \<notin> sl_storage ` set slots \<longrightarrow> ss ! a = mp_streams p ! a) \<and>
    (\<forall>slot \<in> set slots. stream_step h log2 fl (slot_measurement slot m) (mp_streams p ! sl_storage slot) =
       Some (ss ! sl_storage slot)) \<and>
    (\<forall>a m'. takes log2 fl (mp_streams p ! a) m' \<longrightarrow> takes log2 fl (ss ! a) m')"
  using assms
proof (induction slots arbitrary: p d)
  case Nil
  then show ?case by (auto simp: Instrument_Record_def intro: exI [of _ "mp_streams p"])
next
  case (Cons slot slots)
  let ?a = "sl_storage slot"
  have t: "takes log2 fl (mp_streams p ! ?a) (slot_measurement slot m)" using Cons.prems by (simp add: slot_measurement_def)
  obtain s' d1 where r: "stream_Record h log2 fl (slot_measurement slot m) (mp_streams p ! ?a, d) = Some (s', d1)"
    and keep: "\<And>m'. takes log2 fl (mp_streams p ! ?a) m' \<Longrightarrow> takes log2 fl s' m'"
    using stream_Record_takes [OF t] by metis
  let ?p = "p\<lparr>mp_streams := (mp_streams p)[?a := s']\<rparr>"
  have step: "stream_step h log2 fl (slot_measurement slot m) (mp_streams p ! ?a) = Some s'"
    unfolding stream_step_def using stream_Record_sink [of h log2 fl _ _ None d] r by simp
  have ok: "slots_ok slots ?p (\<lambda>s. takes log2 fl s m)" using Cons.prems by (auto simp: nth_list_update)
  from Cons.IH [OF ok, of d1] obtain ss d' where
    ih: "Instrument_Record h log2 fl slots m (?p, d1) = Some (?p\<lparr>mp_streams := ss\<rparr>, d')" "length ss = length (mp_streams ?p)"
      "\<forall>a. a \<notin> sl_storage ` set slots \<longrightarrow> ss ! a = mp_streams ?p ! a"
      "\<forall>slot \<in> set slots. stream_step h log2 fl (slot_measurement slot m) (mp_streams ?p ! sl_storage slot) = Some (ss ! sl_storage slot)"
      "\<forall>a m'. takes log2 fl (mp_streams ?p ! a) m' \<longrightarrow> takes log2 fl (ss ! a) m'" by blast
  have "Instrument_Record h log2 fl (slot # slots) m (p, d) = Instrument_Record h log2 fl slots m (?p, d1)"
    using r by (simp add: Instrument_Record_def slot_measurement_def)
  moreover have "stream_step h log2 fl (slot_measurement x m) (mp_streams p ! sl_storage x) = Some (ss ! sl_storage x)"
    if "x \<in> set (slot # slots)" for x
  proof (cases "x \<in> set slots")
    case True
    then have "sl_storage x \<noteq> ?a" using Cons.prems by (fastforce simp: image_iff)
    then show ?thesis using ih(4) True by auto
  next
    case False
    then have "x = slot" "ss ! ?a = s'" using that ih(3) Cons.prems by auto
    then show ?thesis using step by simp
  qed
  moreover have "takes log2 fl (ss ! a) m'" if "takes log2 fl (mp_streams p ! a) m'" for a m'
    using ih(5) keep that Cons.prems by (cases "a = ?a") auto
  moreover have "ss ! a = mp_streams p ! a" if "a \<notin> sl_storage ` set (slot # slots)" for a
    using ih(3) that by auto
  ultimately show ?case using ih(1,2) by (intro exI [of _ ss] exI [of _ d']) auto
qed

abbreviation Instrument_run ::
    "std_hash \<Rightarrow> (rat \<Rightarrow> rat) \<Rightarrow> (rat \<Rightarrow> double_value) \<Rightarrow> instrument \<Rightarrow> typed_measurement list \<Rightarrow> MetricProducer \<times> sink \<Rightarrow>
     (MetricProducer \<times> sink) option" where
  "Instrument_run h log2 fl slots ms w \<equiv>
     foldl (\<lambda>w m. Option.bind w (Instrument_Record h log2 fl slots m)) (Some w) ms"

lemma Instrument_run_slots:
  assumes "slots_ok slots p (\<lambda>s. \<forall>m \<in> set ms. takes log2 fl s m)"
  shows "\<exists>ss d'. Instrument_run h log2 fl slots ms (p, d) = Some (p\<lparr>mp_streams := ss\<rparr>, d') \<and>
    length ss = length (mp_streams p) \<and> (\<forall>a. a \<notin> sl_storage ` set slots \<longrightarrow> ss ! a = mp_streams p ! a) \<and>
    (\<forall>slot \<in> set slots. replay h log2 fl (map (slot_measurement slot) ms) (mp_streams p ! sl_storage slot) =
       Some (ss ! sl_storage slot)) \<and>
    (\<forall>a m'. takes log2 fl (mp_streams p ! a) m' \<longrightarrow> takes log2 fl (ss ! a) m')"
  using assms
proof (induction ms rule: rev_induct)
  case Nil
  then show ?case by (auto simp: replay_def intro: exI [of _ "mp_streams p"])
next
  case (snoc m ms)
  then obtain ss d' where ih: "Instrument_run h log2 fl slots ms (p, d) = Some (p\<lparr>mp_streams := ss\<rparr>, d')"
    "length ss = length (mp_streams p)" "\<forall>a. a \<notin> sl_storage ` set slots \<longrightarrow> ss ! a = mp_streams p ! a"
    "\<forall>slot \<in> set slots. replay h log2 fl (map (slot_measurement slot) ms) (mp_streams p ! sl_storage slot) = Some (ss ! sl_storage slot)"
    "\<forall>a m'. takes log2 fl (mp_streams p ! a) m' \<longrightarrow> takes log2 fl (ss ! a) m'" by fastforce
  have "slots_ok slots (p\<lparr>mp_streams := ss\<rparr>) (\<lambda>s. takes log2 fl s m)" using snoc.prems ih(2,5) by simp
  from Instrument_Record_slots [OF this, of h d'] show ?case
    using ih by (auto simp: replay_def)
qed


lemma create_fold:
  "foldl (add_slot mt new_stream) (slots0, p) specs = (slots, p') \<Longrightarrow>
   slots = slots0 @ map (\<lambda>(a, spec). \<lparr>sl_storage = a, sl_allowlist = sp_allowlist spec\<rparr>)
     (enumerate (length (mp_streams p)) specs) \<and>
   mp_streams p' = mp_streams p @ map (\<lambda>spec. new_stream (sp_name spec)) specs"
proof (induction specs arbitrary: slots0 p)
  case (Cons spec specs)
  obtain p1 where p1: "add_slot mt new_stream (slots0, p) spec =
      (slots0 @ [\<lparr>sl_storage = length (mp_streams p), sl_allowlist = sp_allowlist spec\<rparr>], p1)"
    "mp_streams p1 = mp_streams p @ [new_stream (sp_name spec)]"
    by (simp add: add_slot_def AddStream_def Let_def)
  have "foldl (add_slot mt new_stream)
      (slots0 @ [\<lparr>sl_storage = length (mp_streams p), sl_allowlist = sp_allowlist spec\<rparr>], p1) specs = (slots, p')"
    using Cons.prems p1(1) by simp
  from Cons.IH [OF this] show ?case by (simp add: p1(2))
qed simp

text \<open>
  Views. An instrument that a meter creates gets one stream per view that selects it and does
  not drop it, in the order of registration and under the view's name, or one plain stream when no
  view selects it; a view selects by exact name or by prefix, kind and meter. Recording any
  measurements its streams take through it returns, touches no other stream, and leaves each of its
  streams as if that stream alone had recorded them, stripped of all attributes whose keys the view
  does not allow.
\<close>

theorem instrument_fan_out:
  assumes "create_instrument mt kind new_stream name p = (slots, p1)"
    and "\<forall>n. \<forall>m \<in> set ms. takes log2 fl (new_stream n) m" and "specs = view_specs mt kind name"
  shows "\<exists>p2 d2. Instrument_run h log2 fl slots ms (p1, d) = Some (p2, d2) \<and>
    length (mp_streams p2) = length (mp_streams p) + length specs \<and>
    (\<forall>a < length (mp_streams p). mp_streams p2 ! a = mp_streams p ! a) \<and>
    (\<forall>j < length specs.
       replay h log2 fl (map (\<lambda>m. tm_with_attrs (allowed (snd (specs ! j)) (tm_attrs m)) m) ms) (new_stream (fst (specs ! j))) =
       Some (mp_streams p2 ! (length (mp_streams p) + j)))"
proof -
  define ss where "ss = ResolveStreamSpecs name (mt_registry mt) \<lparr>id_name = name, id_kind = kind, id_meter_name = scope_name (mt_scope mt)\<rparr>"
  let ?n = "length (mp_streams p)"
  note meaning = ResolveStreamSpecs_meaning [OF ss_def, folded assms(3)]
  have cr: "slots = map (\<lambda>(a, spec). \<lparr>sl_storage = a, sl_allowlist = sp_allowlist spec\<rparr>) (enumerate ?n ss)"
    "mp_streams p1 = mp_streams p @ map (\<lambda>spec. new_stream (sp_name spec)) ss"
    using assms(1) create_fold [of mt new_stream "[]" p ss slots p1]
    unfolding create_instrument_def Let_def ss_def [symmetric] by simp_all
  have addr: "map sl_storage slots = [?n..<?n + length ss]" by (simp add: cr(1) split_def o_def)
  have ok: "slots_ok slots p1 (\<lambda>s. \<forall>m \<in> set ms. takes log2 fl s m)"
  proof -
    have "sl_storage slot < length (mp_streams p1) \<and> (\<forall>m \<in> set ms. takes log2 fl (mp_streams p1 ! sl_storage slot) m)"
      if "slot \<in> set slots" for slot
    proof -
      have "sl_storage slot \<in> set [?n..<?n + length ss]" using that by (metis addr image_eqI set_map)
      then show ?thesis using assms(2) by (auto simp: cr(2) nth_append)
    qed
    then show ?thesis by (simp add: addr)
  qed
  obtain st d2 where r: "Instrument_run h log2 fl slots ms (p1, d) = Some (p1\<lparr>mp_streams := st\<rparr>, d2)"
    "length st = length (mp_streams p1)" "\<forall>a. a \<notin> sl_storage ` set slots \<longrightarrow> st ! a = mp_streams p1 ! a"
    "\<forall>slot \<in> set slots. replay h log2 fl (map (slot_measurement slot) ms) (mp_streams p1 ! sl_storage slot) = Some (st ! sl_storage slot)"
    using Instrument_run_slots [OF ok, of h d] by blast
  have len: "length specs = length ss" by (metis length_map meaning(1))
  have "replay h log2 fl (map (\<lambda>m. tm_with_attrs (allowed (snd (specs ! j)) (tm_attrs m)) m) ms) (new_stream (fst (specs ! j))) =
      Some (st ! (?n + j))" if j: "j < length specs" for j
  proof -
    let ?slot = "\<lparr>sl_storage = ?n + j, sl_allowlist = sp_allowlist (ss ! j)\<rparr>"
    have slot: "?slot \<in> set slots" using j len by (force simp: cr(1) in_set_conv_nth nth_enumerate_eq)
    have spec: "specs ! j = spec_meaning (ss ! j)" using j len meaning(1) by (metis nth_map)
    have "ss ! j \<in> set ss" using j len by simp
    then have "\<forall>al. sl_allowlist ?slot = Some al \<longrightarrow> sorted al" using meaning(2) by simp
    then have "slot_measurement ?slot = (\<lambda>m. tm_with_attrs (allowed (snd (specs ! j)) (tm_attrs m)) m)"
      by (intro ext) (simp add: slot_measurement_def slot_attrs_allowed spec spec_meaning_def)
    moreover have "mp_streams p1 ! (?n + j) = new_stream (fst (specs ! j))"
      using j len by (simp add: cr(2) nth_append spec spec_meaning_def)
    moreover have "replay h log2 fl (map (slot_measurement ?slot) ms) (mp_streams p1 ! sl_storage ?slot) = Some (st ! sl_storage ?slot)"
      using r(4) slot by blast
    ultimately show ?thesis by simp
  qed
  moreover have "st ! a = mp_streams p ! a" if "a < ?n" for a
  proof -
    have "sl_storage ` set slots = set [?n..<?n + length ss]" by (metis addr set_map)
    then have "a \<notin> sl_storage ` set slots" using that by simp
    then show ?thesis using r(3) that by (simp add: cr(2) nth_append)
  qed
  ultimately show ?thesis using r(1,2) len by (simp add: cr(2))
qed

theorem instrument_fan_out_witness:
  "let view = \<lparr>vw_selector = \<lparr>sel_name = Some ''http.*'', sel_kind = None, sel_meter_name = None\<rparr>,
               vw_transform = \<lparr>tr_name = Some ''renamed'', tr_attribute_allowlist = Some [''b'', ''a''], tr_drop = False\<rparr>\<rparr>;
       mt = \<lparr>mt_scope = \<lparr>scope_name = ''m'', scope_version = []\<rparr>, mt_max_cardinality = 7, mt_registry = Some \<lparr>m_views = [view, view]\<rparr>\<rparr>;
       m = TM_Double (sample_measurement (Finite 1) ''c'');
       (slots, p) = DoCreateCounterDouble mt ''http.x'' [] [] \<lparr>mp_resource = None, mp_scopes = [], mp_streams = []\<rparr>
   in case Instrument_run sample_hash (\<lambda>x. x) Finite slots [m] (p, None) of
        Some (p2, d2) \<Rightarrow> length (mp_streams p2) = 2
      | None \<Rightarrow> False"
proof -
  define view where "view = \<lparr>vw_selector = \<lparr>sel_name = Some ''http.*'', sel_kind = None, sel_meter_name = None\<rparr>,
               vw_transform = \<lparr>tr_name = Some ''renamed'', tr_attribute_allowlist = Some [''b'', ''a''], tr_drop = False\<rparr>\<rparr>"
  define mt where "mt = \<lparr>mt_scope = \<lparr>scope_name = ''m'', scope_version = []\<rparr>, mt_max_cardinality = 7, mt_registry = Some \<lparr>m_views = [view, view]\<rparr>\<rparr>"
  let ?m = "TM_Double (sample_measurement (Finite 1) ''c'')" and ?p = "\<lparr>mp_resource = None, mp_scopes = [], mp_streams = []\<rparr>"
  let ?new = "\<lambda>n. Stream_Double (MetricStream_new [] [] (SB_Sum (SumStorage_new True 7)) n)"
  obtain slots p1 where c: "create_instrument mt Counter ?new ''http.x'' ?p = (slots, p1)" by force
  have "\<forall>n. \<forall>m \<in> set [?m]. takes (\<lambda>x. x) Finite (?new n) m" by (simp add: MetricStream_new_def)
  from instrument_fan_out [OF c this refl, of sample_hash None] obtain p2 d2 where
    r: "Instrument_run sample_hash (\<lambda>x. x) Finite slots [?m] (p1, None) = Some (p2, d2)"
      "length (mp_streams p2) = length (view_specs mt Counter ''http.x'')" by auto
  have "view_matches \<lparr>id_name = ''http.x'', id_kind = Counter, id_meter_name = ''m''\<rparr> view"
    by (simp add: view_matches_def view_def)
  then have "length (view_specs mt Counter ''http.x'') = 2" by (simp add: view_specs_def mt_def Let_def) (simp add: view_def)
  then show ?thesis using c r by (simp add: Let_def DoCreateCounterDouble_def view_def [symmetric] mt_def [symmetric] del: foldl.simps)
qed


section \<open>Collecting\<close>

lemma Observe_sink: "fst (Observe h v attrs (r, d)) = fst (Observe h v attrs (r, d'))"
  by (simp add: Observe_def Let_def)

lemma BridgeCallback_sink: "fst (BridgeCallback h al run (r, d)) = fst (BridgeCallback h al run (r, d'))"
proof -
  define F where "F = (\<lambda>(w :: 'a ObservableResult \<times> sink) (v, attrs). case al of
      Some al \<Rightarrow> Observe h v (FilterAttrs attrs al) w | None \<Rightarrow> Observe h v attrs w)"
  have F: "fst (F (r, d) x) = fst (F (r, d') x)" for r d d' x
    unfolding F_def by (cases x; cases al) (simp_all add: Observe_sink [of h _ _ r d d'])
  have "fst (foldl F (r, d) xs) = fst (foldl F (r, d') xs)" for xs
  proof (induction xs rule: rev_induct)
    case (snoc x xs)
    then show ?case using F by (metis foldl_Cons foldl_Nil foldl_append prod.collapse)
  qed simp
  then show ?thesis by (simp add: BridgeCallback_def F_def)
qed

text \<open>The record a stream gives, and the state it is left in.\<close>

definition stream_collected ::
    "std_hash \<Rightarrow> (rat \<Rightarrow> double_value) \<Rightarrow> callback_world \<Rightarrow> AggregationTemporality \<Rightarrow> stream_object \<Rightarrow>
     MetricRecord option \<times> stream_object" where
  "stream_collected h fl cw t s = (let (r, s1, _) = stream_Collect h fl cw t (s, None) in (r, s1))"

lemma body_Collect_sink:
  "\<exists>d1. body_Collect h num cbs t (b, d) =
     (fst (body_Collect h num cbs t (b, d')), fst (snd (body_Collect h num cbs t (b, d'))), d1)"
proof (cases b)
  case (SB_ObservableSum monotonic cb al r)
  then show ?thesis using BridgeCallback_sink [of h al "cbs cb" "r\<lparr>or_map := []\<rparr>" d d']
    by (auto simp: body_Collect_def Let_def split_def)
next
  case (SB_ObservableGauge cb al r)
  then show ?thesis using BridgeCallback_sink [of h al "cbs cb" "r\<lparr>or_map := []\<rparr>" d d']
    by (auto simp: body_Collect_def Let_def split_def)
qed (auto simp: body_Collect_def Let_def split_def)

lemma stream_Collect_sink:
  "\<exists>d1. stream_Collect h fl cw t (s, d) = (fst (stream_collected h fl cw t s), snd (stream_collected h fl cw t s), d1)"
proof (cases s)
  case (Stream_I64 x)
  then show ?thesis using body_Collect_sink [of h "int64_number fl" "cw_int64 cw" t "sm_body x" d None]
    by (auto simp: stream_collected_def MetricStream_Collect_def Let_def split_def)
next
  case (Stream_Double x)
  then show ?thesis using body_Collect_sink [of h "double_number fl" "cw_double cw" t "sm_body x" d None]
    by (auto simp: stream_collected_def MetricStream_Collect_def Let_def split_def)
qed

text \<open>The elements up to and including the first that fails \<open>P\<close>.\<close>

primrec until :: "('a \<Rightarrow> bool) \<Rightarrow> 'a list \<Rightarrow> 'a list" where
  "until P [] = []"
| "until P (x # xs) = x # (if P x then until P xs else [])"

lemma until_append: "until P (xs @ ys) = until P xs @ (if list_all P xs then until P ys else [])"
  by (induction xs) auto

lemma until_all: "list_all P xs \<Longrightarrow> until P xs = xs"
  by (induction xs) auto

lemma set_until: "set (until P xs) \<subseteq> set xs"
  by (induction xs) auto

lemma until_cong: "(\<And>x. x \<in> set xs \<Longrightarrow> P x = Q x) \<Longrightarrow> until P xs = until Q xs"
  by (induction xs) auto

text \<open>One pass over distinct streams, with \<open>C\<close> what a stream gives and becomes.\<close>

lemma collect_streams_spec:
  assumes C: "\<And>s d. \<exists>d1. collect (s, d) = (fst (C s), snd (C s), d1)"
    and "distinct as" "\<forall>a \<in> set as. a < length ss"
    and "collect_streams collect as (ss, d) = (rs, ss', d')"
  shows "rs = (if list_all (\<lambda>a. fst (C (ss ! a)) \<noteq> None) as then Some (map (\<lambda>a. the (fst (C (ss ! a)))) as) else None) \<and>
    length ss' = length ss \<and>
    (\<forall>a. ss' ! a = (if a \<in> set (until (\<lambda>a. fst (C (ss ! a)) \<noteq> None) as) then snd (C (ss ! a)) else ss ! a))"
  using assms(2-)
proof (induction as arbitrary: ss d rs ss' d')
  case (Cons a as)
  obtain d1 where c: "collect (ss ! a, d) = (fst (C (ss ! a)), snd (C (ss ! a)), d1)" using C by blast
  let ?ss = "ss[a := snd (C (ss ! a))]"
  show ?case
  proof (cases "fst (C (ss ! a))")
    case None
    then show ?thesis using Cons.prems c by auto
  next
    case (Some r)
    obtain rs1 where rest: "collect_streams collect as (?ss, d1) = (rs1, ss', d')" "rs = map_option (Cons r) rs1"
      using Cons.prems(3) c Some by (auto split: prod.splits option.splits)
    have same: "?ss ! b = ss ! b" if "b \<in> set as" for b using Cons.prems(1) that by (cases "b = a") auto
    have u: "until (\<lambda>b. fst (C (?ss ! b)) \<noteq> None) as = until (\<lambda>b. fst (C (ss ! b)) \<noteq> None) as"
      by (rule until_cong) (simp add: same del: not_None_eq)
    have "a \<notin> set (until (\<lambda>b. fst (C (ss ! b)) \<noteq> None) as)" using Cons.prems(1) set_until by fastforce
    moreover have "?ss ! b = ss ! b" if "b \<in> set (until (\<lambda>b. fst (C (ss ! b)) \<noteq> None) as)" for b
      using that set_until same by fast
    moreover have "distinct as" "\<forall>b \<in> set as. b < length ?ss" using Cons.prems by auto
    note ih = Cons.IH [OF this rest(1), unfolded u]
    ultimately show ?thesis
      using ih same Cons.prems(2) Some rest(2) by (auto simp: list_all_iff simp del: not_None_eq)
  qed
qed auto


lemma collect_scopes_spec:
  assumes C: "\<And>s d. \<exists>d1. collect (s, d) = (fst (C s), snd (C s), d1)"
    and "distinct (concat (map snd es))" "\<forall>a \<in> set (concat (map snd es)). a < length ss"
    and "collect_scopes collect res es (ss, d) = (hs, ss', d')"
  shows "hs = (if list_all (\<lambda>a. fst (C (ss ! a)) \<noteq> None) (concat (map snd es))
      then Some (map (\<lambda>(scope, as). \<lparr>mb_metrics = map (\<lambda>a. the (fst (C (ss ! a)))) as, mb_resource = res, mb_scope = scope\<rparr>) es)
      else None) \<and>
    length ss' = length ss \<and>
    (\<forall>a. ss' ! a = (if a \<in> set (until (\<lambda>a. fst (C (ss ! a)) \<noteq> None) (concat (map snd es))) then snd (C (ss ! a)) else ss ! a))"
  using assms(2-)
proof (induction es arbitrary: ss d hs ss' d')
  case (Cons e es)
  obtain scope as where e: "e = (scope, as)" by force
  let ?P = "\<lambda>ss a. fst (C (ss ! a)) \<noteq> None"
  obtain rs ss1 d1 where r: "collect_streams collect as (ss, d) = (rs, ss1, d1)" by (metis prod.exhaust)
  have "distinct as" "\<forall>a \<in> set as. a < length ss" using Cons.prems e by auto
  note first = collect_streams_spec [OF C this r]
  show ?case
  proof (cases "list_all (?P ss) as")
    case False
    then have "rs = None" using first by simp
    then show ?thesis using first False Cons.prems(3) e r by (simp add: until_append del: not_None_eq)
  next
    case True
    then have rs: "rs = Some (map (\<lambda>a. the (fst (C (ss ! a)))) as)"
      and ss1: "length ss1 = length ss" "\<And>a. ss1 ! a = (if a \<in> set as then snd (C (ss ! a)) else ss ! a)"
      using first by (simp_all add: until_all)
    obtain hs1 where rest: "collect_scopes collect res es (ss1, d1) = (hs1, ss', d')"
        "hs = map_option (Cons \<lparr>mb_metrics = map (\<lambda>a. the (fst (C (ss ! a)))) as, mb_resource = res, mb_scope = scope\<rparr>) hs1"
      using Cons.prems(3) e r rs by (auto split: prod.splits option.splits)
    let ?rest = "concat (map snd es)"
    have same: "ss1 ! a = ss ! a" if "a \<in> set ?rest" for a using Cons.prems(1) e that ss1(2) by auto
    have u: "until (?P ss1) ?rest = until (?P ss) ?rest" by (rule until_cong) (simp only: same)
    have all: "list_all (?P ss1) ?rest = list_all (?P ss) ?rest" by (simp only: list_all_iff same cong: ball_cong)
    have recs: "map (\<lambda>a. the (fst (C (ss1 ! a)))) (snd x) = map (\<lambda>a. the (fst (C (ss ! a)))) (snd x)" if "x \<in> set es" for x
      using that same by (auto intro!: arg_cong [where f = "\<lambda>s. the (fst (C s))"])
    have "distinct ?rest" "\<forall>a \<in> set ?rest. a < length ss1" using Cons.prems e ss1(1) by auto
    note ih = Cons.IH [OF this rest(1), unfolded u all]
    have "ss' ! a = (if a \<in> set (as @ until (?P ss) ?rest) then snd (C (ss ! a)) else ss ! a)" for a
    proof (cases "a \<in> set as")
      case True
      then have "a \<notin> set (until (?P ss) ?rest)" using Cons.prems(1) e set_until by fastforce
      then show ?thesis using ih ss1(2) True by simp
    next
      case False
      then show ?thesis using ih ss1(2) by simp
    qed
    then show ?thesis
      using ih ss1(1) rest(2) True e recs by (auto simp: until_append until_all split_def simp del: not_None_eq cong: map_cong)
  qed
qed auto

text \<open>Every stream is in exactly one scope entry, in every state a program can reach.\<close>

inductive producer_reach :: "std_hash \<Rightarrow> (rat \<Rightarrow> rat) \<Rightarrow> (rat \<Rightarrow> double_value) \<Rightarrow> MetricProducer \<Rightarrow> bool" for h log2 fl where
  reach_new: "producer_reach h log2 fl \<lparr>mp_resource = res, mp_scopes = [], mp_streams = []\<rparr>"
| reach_add: "producer_reach h log2 fl p \<Longrightarrow> AddStream scope s p = (a, p') \<Longrightarrow> producer_reach h log2 fl p'"
| reach_record: "producer_reach h log2 fl p \<Longrightarrow> Instrument_Record h log2 fl slots m (p, d) = Some (p', d') \<Longrightarrow> producer_reach h log2 fl p'"
| reach_collect: "producer_reach h log2 fl p \<Longrightarrow> MetricProducer_Collect h fl cw t (p, d) = (hs, p', d') \<Longrightarrow> producer_reach h log2 fl p'"

definition producer_wf :: "MetricProducer \<Rightarrow> bool" where
  "producer_wf p \<longleftrightarrow> mset (concat (map snd (mp_scopes p))) = mset [0..<length (mp_streams p)] \<and>
     distinct (map (\<lambda>e. (scope_name (fst e), scope_version (fst e))) (mp_scopes p)) \<and> (\<forall>e \<in> set (mp_scopes p). snd e \<noteq> [])"

lemma add_to_scope_addresses: "mset (concat (map snd (add_to_scope scope a es))) = mset (concat (map snd es)) + {#a#}"
  by (induction scope a es rule: add_to_scope.induct) auto

lemma add_to_scope_keys:
  "(\<lambda>e. (scope_name (fst e), scope_version (fst e))) ` set (add_to_scope scope a es) =
   insert (scope_name scope, scope_version scope) ((\<lambda>e. (scope_name (fst e), scope_version (fst e))) ` set es)"
  by (induction scope a es rule: add_to_scope.induct) auto

lemma add_to_scope_distinct:
  "distinct (map (\<lambda>e. (scope_name (fst e), scope_version (fst e))) es) \<Longrightarrow>
   distinct (map (\<lambda>e. (scope_name (fst e), scope_version (fst e))) (add_to_scope scope a es))"
  by (induction scope a es rule: add_to_scope.induct) (auto simp: add_to_scope_keys image_iff)

lemma add_to_scope_nonempty: "\<forall>e \<in> set es. snd e \<noteq> [] \<Longrightarrow> \<forall>e \<in> set (add_to_scope scope a es). snd e \<noteq> []"
  by (induction scope a es rule: add_to_scope.induct) auto

lemma Instrument_Record_frame:
  "Instrument_Record h log2 fl slots m (p, d) = Some (p', d') \<Longrightarrow>
   mp_scopes p' = mp_scopes p \<and> length (mp_streams p') = length (mp_streams p)"
  by (induction slots arbitrary: p d) (fastforce simp: Instrument_Record_def split: option.splits prod.splits)+

lemma collect_streams_length: "collect_streams collect as (ss, d) = (rs, ss', d') \<Longrightarrow> length ss' = length ss"
  by (induction collect as "(ss, d)" arbitrary: ss d rs rule: collect_streams.induct)
    (fastforce split: prod.splits option.splits)+

lemma collect_scopes_length: "collect_scopes collect res es (ss, d) = (hs, ss', d') \<Longrightarrow> length ss' = length ss"
  by (induction es arbitrary: ss d hs)
    (fastforce split: prod.splits option.splits dest: collect_streams_length)+

lemma producer_reach_wf: "producer_reach h log2 fl p \<Longrightarrow> producer_wf p"
proof (induction rule: producer_reach.induct)
  case (reach_add p scope s a p')
  then have p': "mp_scopes p' = add_to_scope scope (length (mp_streams p)) (mp_scopes p)"
    "length (mp_streams p') = Suc (length (mp_streams p))" by (auto simp: AddStream_def Let_def)
  have wf: "mset (concat (map snd (mp_scopes p))) = mset [0..<length (mp_streams p)]"
    "distinct (map (\<lambda>e. (scope_name (fst e), scope_version (fst e))) (mp_scopes p))" "\<forall>e \<in> set (mp_scopes p). snd e \<noteq> []"
    using reach_add.IH unfolding producer_wf_def by blast+
  show ?case
    unfolding producer_wf_def p' add_to_scope_addresses
    using wf(1) add_to_scope_distinct [OF wf(2)] add_to_scope_nonempty [OF wf(3)] by (simp del: mset_upt)
next
  case (reach_record p slots m d p' d')
  then show ?case using Instrument_Record_frame by (auto simp: producer_wf_def)
next
  case (reach_collect p cw t d hs p' d')
  then have "mp_scopes p' = mp_scopes p \<and> length (mp_streams p') = length (mp_streams p)"
    by (auto simp: MetricProducer_Collect_def split: prod.splits dest: collect_scopes_length)
  then show ?case using reach_collect by (simp add: producer_wf_def)
qed (simp add: producer_wf_def)


text \<open>
  C19: a collection reads everything once, or loses something. In every reachable state of a
  producer each stream is in exactly one scope, scopes differ in name or version, and a collection in
  which no callback throws yields one batch per scope, in the order of registration, that holds the
  record of each of its streams; every stream is left as its own \<open>Collect\<close> leaves it. When a callback
  throws, no batch is returned at all, although all streams before the throwing one have been
  collected: under delta temporality they have been emptied, and what they held is in no batch.
\<close>

theorem producer_collects:
  assumes "producer_reach h log2 fl p" and "MetricProducer_Collect h fl cw t (p, d) = (hs, p', d')"
    and "order = concat (map snd (mp_scopes p))" and "C = stream_collected h fl cw t"
    and "fine = (\<lambda>a. fst (C (mp_streams p ! a)) \<noteq> None)"
  shows "mset order = mset [0..<length (mp_streams p)] \<and>
    distinct (map (\<lambda>e. (scope_name (fst e), scope_version (fst e))) (mp_scopes p)) \<and>
    length (mp_streams p') = length (mp_streams p) \<and>
    ((\<forall>a < length (mp_streams p). fine a) \<longrightarrow>
      hs = Some (map (\<lambda>(scope, as). \<lparr>mb_metrics = map (\<lambda>a. the (fst (C (mp_streams p ! a)))) as,
             mb_resource = mp_resource p, mb_scope = scope\<rparr>) (mp_scopes p)) \<and>
      mp_streams p' = map (\<lambda>s. snd (C s)) (mp_streams p)) \<and>
    ((\<exists>a < length (mp_streams p). \<not> fine a) \<longrightarrow>
      hs = None \<and> (\<forall>a < length (mp_streams p).
        mp_streams p' ! a = (if a \<in> set (until fine order) then snd (C (mp_streams p ! a)) else mp_streams p ! a)))"
proof -
  have wf: "mset order = mset [0..<length (mp_streams p)]"
    "distinct (map (\<lambda>e. (scope_name (fst e), scope_version (fst e))) (mp_scopes p))"
    using producer_reach_wf [OF assms(1)] unfolding producer_wf_def assms(3) by blast+
  have dist: "distinct order" using wf(1) by (metis distinct_upt mset_eq_imp_distinct_iff)
  have addr: "set order = {..<length (mp_streams p)}" 
    using mset_eq_setD [OF wf(1)] by (simp only: set_upt atLeast0LessThan)
  obtain ss where c: "collect_scopes (stream_Collect h fl cw t) (mp_resource p) (mp_scopes p) (mp_streams p, d) = (hs, ss, d')"
    "p' = p\<lparr>mp_streams := ss\<rparr>"
    using assms(2) by (auto simp: MetricProducer_Collect_def SnapshotScopes_def split: prod.splits)
  have "\<forall>a \<in> set (concat (map snd (mp_scopes p))). a < length (mp_streams p)" using addr assms(3) by auto
  note spec = collect_scopes_spec [where C = C, OF _ dist [unfolded assms(3)] this c(1), folded assms(3)]
  have spec: "hs = (if list_all fine order
      then Some (map (\<lambda>(scope, as). \<lparr>mb_metrics = map (\<lambda>a. the (fst (C (mp_streams p ! a)))) as,
             mb_resource = mp_resource p, mb_scope = scope\<rparr>) (mp_scopes p)) else None)"
    "length ss = length (mp_streams p)"
    "\<And>a. ss ! a = (if a \<in> set (until fine order) then snd (C (mp_streams p ! a)) else mp_streams p ! a)"
    using spec stream_Collect_sink [of h fl cw t] unfolding assms(4,5) by blast+
  have all: "list_all fine order \<longleftrightarrow> (\<forall>a < length (mp_streams p). fine a)" by (auto simp: list_all_iff addr)
  have "ss = map (\<lambda>s. snd (C s)) (mp_streams p)" if "\<forall>a < length (mp_streams p). fine a"
  proof -
    have "until fine order = order" using that all until_all by blast
    then show ?thesis using spec(2,3) addr by (intro nth_equalityI) auto
  qed
  moreover have "\<not> list_all fine order" if "\<exists>a < length (mp_streams p). \<not> fine a" using that all by blast
  ultimately show ?thesis using wf spec(1) [folded all] spec(2,3) c(2) all by (intro conjI impI) simp_all
qed


theorem producer_collects_witness:
  "let key = AttributeSet_of sample_hash [];
       total = Stream_Double (MetricStream_new [] [] (SB_Sum ((SumStorage_new True 7)\<lparr>ss_points := [(key, Finite 5)]\<rparr>)) []);
       broken = Stream_Double (MetricStream_new [] [] (SB_ObservableGauge 0 None \<lparr>or_max_cardinality = 7, or_map = []\<rparr>) []);
       scope = \<lparr>scope_name = [], scope_version = []\<rparr>;
       p = snd (AddStream scope broken (snd (AddStream scope total \<lparr>mp_resource = None, mp_scopes = [], mp_streams = []\<rparr>)));
       cw = \<lparr>cw_int64 = (\<lambda>_. \<lparr>cr_observations = [], cr_throws = False\<rparr>), cw_double = (\<lambda>_. \<lparr>cr_observations = [], cr_throws = True\<rparr>)\<rparr>
   in case MetricProducer_Collect sample_hash Finite cw Delta (p, None) of
        (hs, p', d') \<Rightarrow> hs = None \<and>
          mp_streams p' ! 0 = Stream_Double (MetricStream_new [] [] (SB_Sum (SumStorage_new True 7)) [])"
proof -
  let ?scope = "\<lparr>scope_name = [], scope_version = []\<rparr>" and ?st = "SumStorage_new True 7 :: double_value SumStorage"
  define total where "total = Stream_Double (MetricStream_new [] []
      (SB_Sum (?st\<lparr>ss_points := [(AttributeSet_of sample_hash [], Finite 5)]\<rparr>)) [])"
  define broken where "broken = Stream_Double (MetricStream_new [] []
      (SB_ObservableGauge 0 None \<lparr>or_max_cardinality = 7, or_map = []\<rparr>) [])"
  define cw :: callback_world where "cw = \<lparr>cw_int64 = (\<lambda>_. \<lparr>cr_observations = [], cr_throws = False\<rparr>),
      cw_double = (\<lambda>_. \<lparr>cr_observations = [], cr_throws = True\<rparr>)\<rparr>"
  define p where "p = snd (AddStream ?scope broken (snd (AddStream ?scope total \<lparr>mp_resource = None, mp_scopes = [], mp_streams = []\<rparr>)))"
  have reach: "producer_reach sample_hash (\<lambda>x. x) Finite p"
    unfolding p_def by (metis reach_new reach_add prod.collapse)
  have p: "mp_streams p = [total, broken]" "mp_scopes p = [(?scope, [0, 1])]" by (simp_all add: p_def AddStream_def Let_def)
  obtain hs p' d' where c: "MetricProducer_Collect sample_hash Finite cw Delta (p, None) = (hs, p', d')" by (metis prod.exhaust)
  let ?C = "stream_collected sample_hash Finite cw Delta"
  have C: "fst (?C total) \<noteq> None" "snd (?C total) = Stream_Double (MetricStream_new [] [] (SB_Sum ?st) [])" "fst (?C broken) = None"
    by (simp_all add: stream_collected_def total_def broken_def MetricStream_Collect_def MetricStream_new_def body_Collect_def
        Sum_Collect_def SumStorage_new_def cw_def split_def Let_def)
  have "hs = None \<and> mp_streams p' ! 0 = snd (?C total)"
    using producer_collects [OF reach c refl refl refl] C(1,3) by (auto simp: p less_Suc_eq)
  then show ?thesis
    using c C(2) unfolding Let_def p_def total_def broken_def cw_def by simp
qed

end
