(* ===== verification/Metric_Reader.thy ===== *)
theory Metric_Reader
  imports Metric_Meter "HOL-Library.Sublist"
begin

text \<open>
  The metric readers (\<open>src/sdk/synchronous_metric_reader.cpp\<close>, \<open>periodic_exporting_metric_reader.cpp\<close>).

  The synchronous reader is a function over its producer and an exporter, which is a parameter. The
  periodic reader is a step relation: the background thread has the number 0, callers of \<open>Collect\<close>,
  \<open>ForceFlush\<close> and \<open>Shutdown\<close> have the others, and a step is what happens under one lock or one atomic
  access, or one call of the producer or the exporter. What the exporter answers is arbitrary, and so
  is the moment at which a timed wait ends: the timer may fire in any state. Measurements are recorded
  and instruments created at any time. Time itself is not modelled, so the interval only is stored.

  Proved here: cycles of collection and export never overlap, every batch collected is handed to the
  exporter in order, or dropped because an earlier one of its cycle failed; and that \<open>Shutdown\<close> does
  not always run the final cycle it promises.
\<close>

section \<open>The synchronous reader\<close>

datatype ExportResult = Export_Success | Export_Failure | Export_Dropped | Export_AlreadyShutDown

record 'e metric_exporter =
  ex_export :: "MetricBatchHandle \<Rightarrow> 'e \<Rightarrow> ExportResult \<times> 'e"
  ex_flush :: "int \<Rightarrow> 'e \<Rightarrow> Status \<times> 'e"
  ex_shutdown :: "int \<Rightarrow> 'e \<Rightarrow> Status \<times> 'e"

record SynchronousMetricReader = sr_shut_down :: bool

fun export_all :: "'e metric_exporter \<Rightarrow> MetricBatchHandle list \<Rightarrow> 'e \<Rightarrow> Status \<times> 'e" where
  "export_all ex [] e = (Completed, e)"
| "export_all ex (b # bs) e =
     (case ex_export ex b e of
        (r, e1) \<Rightarrow> if r = Export_Failure then (Failed, e1) else export_all ex bs e1)"

definition Sync_Collect ::
    "std_hash \<Rightarrow> (rat \<Rightarrow> double_value) \<Rightarrow> callback_world \<Rightarrow> 'e metric_exporter \<Rightarrow>
     SynchronousMetricReader \<Rightarrow> (MetricProducer \<times> sink) \<times> 'e \<Rightarrow> Status \<times> (MetricProducer \<times> sink) \<times> 'e" where
  "Sync_Collect h fl cw ex rd = (\<lambda>(w, e).
     if sr_shut_down rd then (AlreadyShutDown, w, e)
     else
       case MetricProducer_Collect h fl cw Cumulative w of
         (None, w1) \<Rightarrow> (Failed, w1, e)
       | (Some bs, w1) \<Rightarrow> (case export_all ex bs e of (s, e1) \<Rightarrow> (s, w1, e1)))"

definition Sync_ForceFlush ::
    "'e metric_exporter \<Rightarrow> SynchronousMetricReader \<Rightarrow> int \<Rightarrow> 'e \<Rightarrow> Status \<times> 'e" where
  "Sync_ForceFlush ex rd timeout e = (if sr_shut_down rd then (AlreadyShutDown, e) else ex_flush ex timeout e)"

definition Sync_Shutdown ::
    "'e metric_exporter \<Rightarrow> SynchronousMetricReader \<Rightarrow> int \<Rightarrow> 'e \<Rightarrow> Status \<times> SynchronousMetricReader \<times> 'e" where
  "Sync_Shutdown ex rd timeout e =
     (if sr_shut_down rd then (AlreadyShutDown, rd, e)
      else case ex_shutdown ex timeout e of (s, e1) \<Rightarrow> (s, rd\<lparr>sr_shut_down := True\<rparr>, e1))"

text \<open>
  With an exporter that keeps what it is given: a collection hands over a prefix of what the producer
  returned, all of it when it reports success.
\<close>

definition keeping :: "(MetricBatchHandle \<Rightarrow> ExportResult) \<Rightarrow> (MetricBatchHandle list) metric_exporter" where
  "keeping f = \<lparr>ex_export = (\<lambda>b e. (f b, e @ [b])), ex_flush = (\<lambda>_ e. (Completed, e)), ex_shutdown = (\<lambda>_ e. (Completed, e))\<rparr>"

lemma export_all_prefix:
  "export_all (keeping f) bs e = (s, e') \<Longrightarrow>
   (\<exists>k. e' = e @ take k bs \<and> k \<le> length bs \<and> (\<forall>b \<in> set (butlast (take k bs)). f b \<noteq> Export_Failure)) \<and>
   (s = Completed \<longrightarrow> e' = e @ bs \<and> (\<forall>b \<in> set bs. f b \<noteq> Export_Failure)) \<and>
   (s \<noteq> Completed \<longrightarrow> s = Failed \<and> (\<exists>b \<in> set bs. f b = Export_Failure))"
proof (induction bs arbitrary: e)
  case (Cons b bs)
  show ?case
  proof (cases "f b = Export_Failure")
    case True
    then show ?thesis using Cons.prems by (auto simp: keeping_def intro!: exI [of _ 1])
  next
    case False
    then have rest: "export_all (keeping f) bs (e @ [b]) = (s, e')" using Cons.prems by (simp add: keeping_def)
    from Cons.IH [OF rest] obtain k where
      "e' = (e @ [b]) @ take k bs" "k \<le> length bs" "\<forall>b \<in> set (butlast (take k bs)). f b \<noteq> Export_Failure" by blast
    then show ?thesis using Cons.IH [OF rest] False by (auto intro!: exI [of _ "Suc k"] split: if_splits)
  qed
qed (simp add: keeping_def)

lemma Sync_Collect_exports:
  assumes "Sync_Collect h fl cw (keeping f) rd (w, e) = (s, w', e')"
  shows "s = Completed \<longleftrightarrow> \<not> sr_shut_down rd \<and>
    (\<exists>bs. fst (MetricProducer_Collect h fl cw Cumulative w) = Some bs \<and> e' = e @ bs \<and> (\<forall>b \<in> set bs. f b \<noteq> Export_Failure))"
  using assms by (auto simp: Sync_Collect_def split: if_splits prod.splits option.splits dest!: export_all_prefix)

section \<open>The periodic reader\<close>

record PeriodicReader =
  pr_interval :: int
  pr_temporality :: AggregationTemporality
  pr_shut_down :: bool
  pr_wake :: bool
  pr_collecting :: bool

text \<open>Who runs a cycle, and where a thread is.\<close>

datatype cycle_owner = By_Loop | By_Collect | By_ForceFlush

datatype reader_pc =
    At_Loop
  | At_Wait
  | At_Claim cycle_owner
  | At_Collect cycle_owner
  | At_Export cycle_owner "MetricBatchHandle list"
  | At_Release cycle_owner Status
  | At_Flush
  | At_Wake
  | At_Join
  | Returned "Status option"
  | Exited

record reader_world =
  rw_reader :: PeriodicReader
  rw_producer :: MetricProducer
  rw_diag :: sink
  rw_pc :: "nat \<Rightarrow> reader_pc"
  rw_taken :: "MetricBatchHandle list"
  rw_sent :: "(MetricBatchHandle \<times> ExportResult) list"
  rw_dropped :: "MetricBatchHandle list"
  rw_joined :: bool

text \<open>
  The last four components are not in the code: what collections returned, what the exporter was given
  with its answers, what was given up, and whether a \<open>Shutdown\<close> has joined the thread.
\<close>

abbreviation goto :: "nat \<Rightarrow> reader_pc \<Rightarrow> reader_world \<Rightarrow> reader_world" where
  "goto i c w \<equiv> w\<lparr>rw_pc := (rw_pc w)(i := c)\<rparr>"

definition PeriodicReader_new :: "int \<Rightarrow> AggregationTemporality \<Rightarrow> PeriodicReader" where
  "PeriodicReader_new interval temporality =
     \<lparr>pr_interval = interval, pr_temporality = temporality, pr_shut_down = False, pr_wake = False, pr_collecting = False\<rparr>"

definition SetInterval :: "int \<Rightarrow> PeriodicReader \<Rightarrow> PeriodicReader" where
  "SetInterval interval r = r\<lparr>pr_interval := interval\<rparr>"

text \<open>\<open>CollectSlot\<close>, the slot of \<open>DoCollectExport\<close>: claimed when free, and released.\<close>

definition CollectSlot_claim :: "PeriodicReader \<Rightarrow> PeriodicReader option" where
  "CollectSlot_claim r = (if pr_collecting r then None else Some (r\<lparr>pr_collecting := True\<rparr>))"

definition CollectSlot_release :: "PeriodicReader \<Rightarrow> PeriodicReader" where
  "CollectSlot_release r = r\<lparr>pr_collecting := False\<rparr>"

fun after_cycle :: "cycle_owner \<Rightarrow> Status \<Rightarrow> reader_pc" where
  "after_cycle By_Loop s = At_Loop"
| "after_cycle By_Collect s = Returned (Some s)"
| "after_cycle By_ForceFlush s = At_Flush"

text \<open>\<open>DoCollectExport\<close>, one step of the thread \<open>i\<close> in it.\<close>

inductive cycle_step :: "std_hash \<Rightarrow> (rat \<Rightarrow> double_value) \<Rightarrow> nat \<Rightarrow> reader_world \<Rightarrow> reader_world \<Rightarrow> bool" for h fl i where
  claim: "rw_pc w i = At_Claim c \<Longrightarrow> CollectSlot_claim (rw_reader w) = Some r \<Longrightarrow>
    cycle_step h fl i w (goto i (At_Collect c) (w\<lparr>rw_reader := r\<rparr>))"
| collect_throws: "rw_pc w i = At_Collect c \<Longrightarrow>
    MetricProducer_Collect h fl cw (pr_temporality (rw_reader w)) (rw_producer w, rw_diag w) = (None, p, d) \<Longrightarrow>
    cycle_step h fl i w (goto i (At_Release c Failed) (w\<lparr>rw_producer := p, rw_diag := d\<rparr>))"
| collect: "rw_pc w i = At_Collect c \<Longrightarrow>
    MetricProducer_Collect h fl cw (pr_temporality (rw_reader w)) (rw_producer w, rw_diag w) = (Some bs, p, d) \<Longrightarrow>
    cycle_step h fl i w (goto i (At_Export c bs) (w\<lparr>rw_producer := p, rw_diag := d, rw_taken := rw_taken w @ bs\<rparr>))"
| export: "rw_pc w i = At_Export c (b # bs) \<Longrightarrow> r \<noteq> Export_Failure \<Longrightarrow>
    cycle_step h fl i w (goto i (At_Export c bs) (w\<lparr>rw_sent := rw_sent w @ [(b, r)]\<rparr>))"
| export_fails: "rw_pc w i = At_Export c (b # bs) \<Longrightarrow>
    cycle_step h fl i w (goto i (At_Release c Failed)
      (w\<lparr>rw_sent := rw_sent w @ [(b, Export_Failure)], rw_dropped := rw_dropped w @ bs\<rparr>))"
| exported: "rw_pc w i = At_Export c [] \<Longrightarrow> cycle_step h fl i w (goto i (At_Release c Completed) w)"
| release: "rw_pc w i = At_Release c s \<Longrightarrow>
    cycle_step h fl i w (goto i (after_cycle c s) (w\<lparr>rw_reader := CollectSlot_release (rw_reader w)\<rparr>))"

text \<open>
  \<open>RunLoop\<close>, the calls, and the application. A wait ends when the timer fires or \<open>m_wake\<close> is set, so it
  may end in any state.
\<close>

inductive reader_step :: "std_hash \<Rightarrow> (rat \<Rightarrow> rat) \<Rightarrow> (rat \<Rightarrow> double_value) \<Rightarrow> reader_world \<Rightarrow> reader_world \<Rightarrow> bool" for h log2 fl where
  cycle: "cycle_step h fl i w w' \<Longrightarrow> reader_step h log2 fl w w'"
| loop_ends: "rw_pc w 0 = At_Loop \<Longrightarrow> pr_shut_down (rw_reader w) \<Longrightarrow> reader_step h log2 fl w (goto 0 Exited w)"
| loop_waits: "rw_pc w 0 = At_Loop \<Longrightarrow> \<not> pr_shut_down (rw_reader w) \<Longrightarrow> reader_step h log2 fl w (goto 0 At_Wait w)"
| wakes: "rw_pc w 0 = At_Wait \<Longrightarrow>
    reader_step h log2 fl w (goto 0 (At_Claim By_Loop) (w\<lparr>rw_reader := (rw_reader w)\<lparr>pr_wake := False\<rparr>\<rparr>))"
| calls_collect: "i \<noteq> 0 \<Longrightarrow> rw_pc w i = Returned s \<Longrightarrow>
    reader_step h log2 fl w (goto i (if pr_shut_down (rw_reader w) then Returned (Some AlreadyShutDown) else At_Claim By_Collect) w)"
| calls_flush: "i \<noteq> 0 \<Longrightarrow> rw_pc w i = Returned s \<Longrightarrow>
    reader_step h log2 fl w (goto i (if pr_shut_down (rw_reader w) then Returned (Some AlreadyShutDown) else At_Claim By_ForceFlush) w)"
| flushes: "rw_pc w i = At_Flush \<Longrightarrow> reader_step h log2 fl w (goto i (Returned (Some s)) w)"
| calls_shutdown: "i \<noteq> 0 \<Longrightarrow> rw_pc w i = Returned s \<Longrightarrow>
    reader_step h log2 fl w (if pr_shut_down (rw_reader w) then goto i (Returned (Some AlreadyShutDown)) w
      else goto i At_Wake (w\<lparr>rw_reader := (rw_reader w)\<lparr>pr_shut_down := True\<rparr>\<rparr>))"
| sets_wake: "rw_pc w i = At_Wake \<Longrightarrow>
    reader_step h log2 fl w (goto i At_Join (w\<lparr>rw_reader := (rw_reader w)\<lparr>pr_wake := True\<rparr>\<rparr>))"
| joins: "rw_pc w i = At_Join \<Longrightarrow> rw_pc w 0 = Exited \<Longrightarrow>
    reader_step h log2 fl w (goto i (Returned (Some s)) (w\<lparr>rw_joined := True\<rparr>))"
| sets_interval: "reader_step h log2 fl w (w\<lparr>rw_reader := SetInterval interval (rw_reader w)\<rparr>)"
| records: "Instrument_Record h log2 fl slots m (rw_producer w, rw_diag w) = Some (p, d) \<Longrightarrow>
    reader_step h log2 fl w (w\<lparr>rw_producer := p, rw_diag := d\<rparr>)"
| adds: "AddStream scope s (rw_producer w) = (a, p) \<Longrightarrow> reader_step h log2 fl w (w\<lparr>rw_producer := p\<rparr>)"

definition reader_init :: "int \<Rightarrow> AggregationTemporality \<Rightarrow> MetricProducer \<Rightarrow> sink \<Rightarrow> reader_world" where
  "reader_init interval temporality p d =
     \<lparr>rw_reader = PeriodicReader_new interval temporality, rw_producer = p, rw_diag = d,
      rw_pc = (\<lambda>i. if i = 0 then At_Loop else Returned None), rw_taken = [], rw_sent = [], rw_dropped = [], rw_joined = False\<rparr>"

inductive reader_reach :: "std_hash \<Rightarrow> (rat \<Rightarrow> rat) \<Rightarrow> (rat \<Rightarrow> double_value) \<Rightarrow> reader_world \<Rightarrow> bool" for h log2 fl where
  starts: "producer_reach h log2 fl p \<Longrightarrow> reader_reach h log2 fl (reader_init interval t p d)"
| steps: "reader_reach h log2 fl w \<Longrightarrow> reader_step h log2 fl w w' \<Longrightarrow> reader_reach h log2 fl w'"

section \<open>Cycles exclude each other\<close>

fun in_cycle :: "reader_pc \<Rightarrow> bool" where
  "in_cycle (At_Collect _) = True"
| "in_cycle (At_Export _ _) = True"
| "in_cycle (At_Release _ _) = True"
| "in_cycle _ = False"

fun pending :: "reader_pc \<Rightarrow> MetricBatchHandle list" where
  "pending (At_Export _ bs) = bs"
| "pending _ = []"

text \<open>The batches of a cycle that is under way.\<close>

definition in_flight :: "reader_world \<Rightarrow> MetricBatchHandle list \<Rightarrow> bool" where
  "in_flight w bs \<longleftrightarrow> (\<forall>i. in_cycle (rw_pc w i) \<longrightarrow> pending (rw_pc w i) = bs) \<and>
     ((\<forall>i. \<not> in_cycle (rw_pc w i)) \<longrightarrow> bs = [])"

definition reader_inv :: "reader_world \<Rightarrow> bool" where
  "reader_inv w \<longleftrightarrow>
     (\<forall>i j. in_cycle (rw_pc w i) \<and> in_cycle (rw_pc w j) \<longrightarrow> i = j) \<and>
     (pr_collecting (rw_reader w) \<longleftrightarrow> (\<exists>i. in_cycle (rw_pc w i))) \<and>
     (\<exists>bs. in_flight w bs \<and> mset (rw_taken w) = mset (map fst (rw_sent w)) + mset (rw_dropped w) + mset bs \<and>
        (\<exists>past. rw_taken w = past @ bs \<and> subseq (map fst (rw_sent w)) past)) \<and>
     (rw_joined w \<longrightarrow> rw_pc w 0 = Exited) \<and> (rw_pc w 0 = Exited \<longrightarrow> pr_shut_down (rw_reader w))"

lemma reader_init_inv: "reader_inv (reader_init interval t p d)"
  by (auto simp: reader_inv_def reader_init_def in_flight_def PeriodicReader_new_def)


lemma reader_inv_frame:
  assumes "reader_inv w" "\<And>j. in_cycle (rw_pc w' j) = in_cycle (rw_pc w j)"
    and "\<And>j. in_cycle (rw_pc w j) \<Longrightarrow> pending (rw_pc w' j) = pending (rw_pc w j)"
    and "rw_taken w' = rw_taken w" "rw_sent w' = rw_sent w" "rw_dropped w' = rw_dropped w"
    and "pr_collecting (rw_reader w') = pr_collecting (rw_reader w)"
    and "rw_joined w' \<longrightarrow> rw_pc w' 0 = Exited" "rw_pc w' 0 = Exited \<longrightarrow> pr_shut_down (rw_reader w')"
  shows "reader_inv w'"
proof -
  have "in_flight w' bs \<longleftrightarrow> in_flight w bs" for bs using assms(2,3) by (simp add: in_flight_def)
  then show ?thesis using assms unfolding reader_inv_def by simp
qed

lemma reader_invI:
  assumes "\<And>i j. in_cycle (rw_pc w i) \<Longrightarrow> in_cycle (rw_pc w j) \<Longrightarrow> i = j"
    and "pr_collecting (rw_reader w) \<longleftrightarrow> (\<exists>i. in_cycle (rw_pc w i))" "in_flight w bs"
    and "mset (rw_taken w) = mset (map fst (rw_sent w)) + mset (rw_dropped w) + mset bs"
    and "\<exists>past. rw_taken w = past @ bs \<and> subseq (map fst (rw_sent w)) past"
    and "rw_joined w \<longrightarrow> rw_pc w 0 = Exited" "rw_pc w 0 = Exited \<longrightarrow> pr_shut_down (rw_reader w)"
  shows "reader_inv w"
proof -
  have "\<forall>i j. in_cycle (rw_pc w i) \<and> in_cycle (rw_pc w j) \<longrightarrow> i = j" using assms(1) by blast
  then show ?thesis unfolding reader_inv_def using assms(2-) by simp blast
qed

lemma reader_invD:
  assumes "reader_inv w"
  shows "in_cycle (rw_pc w i) \<Longrightarrow> in_cycle (rw_pc w j) \<Longrightarrow> i = j"
    and "pr_collecting (rw_reader w) \<longleftrightarrow> (\<exists>i. in_cycle (rw_pc w i))"
    and "rw_joined w \<longrightarrow> rw_pc w 0 = Exited" and "rw_pc w 0 = Exited \<longrightarrow> pr_shut_down (rw_reader w)"
    and "\<exists>bs past. in_flight w bs \<and> mset (rw_taken w) = mset (map fst (rw_sent w)) + mset (rw_dropped w) + mset bs \<and>
        rw_taken w = past @ bs \<and> subseq (map fst (rw_sent w)) past"
  using assms unfolding reader_inv_def by (blast, blast, blast, blast, blast)

lemma in_flight_owner: "in_cycle (rw_pc w i) \<Longrightarrow> in_flight w bs \<Longrightarrow> bs = pending (rw_pc w i)"
  unfolding in_flight_def by metis

lemma inv_owner:
  assumes "reader_inv w" "in_cycle (rw_pc w i)"
  shows "mset (rw_taken w) = mset (map fst (rw_sent w)) + mset (rw_dropped w) + mset (pending (rw_pc w i))"
    and "\<exists>past. rw_taken w = past @ pending (rw_pc w i) \<and> subseq (map fst (rw_sent w)) past"
    and "\<And>j. j \<noteq> i \<Longrightarrow> \<not> in_cycle (rw_pc w j)" and "pr_collecting (rw_reader w)"
proof -
  from reader_invD(5) [OF assms(1)] obtain bs past where
    bs: "in_flight w bs" "mset (rw_taken w) = mset (map fst (rw_sent w)) + mset (rw_dropped w) + mset bs"
      "rw_taken w = past @ bs" "subseq (map fst (rw_sent w)) past" by blast
  have eq: "pending (rw_pc w i) = bs" using in_flight_owner [OF assms(2) bs(1)] by simp
  show "mset (rw_taken w) = mset (map fst (rw_sent w)) + mset (rw_dropped w) + mset (pending (rw_pc w i))"
    using bs(2) by (simp only: eq)
  show "\<exists>past. rw_taken w = past @ pending (rw_pc w i) \<and> subseq (map fst (rw_sent w)) past"
    using bs(3,4) unfolding eq by blast
  show "\<And>j. j \<noteq> i \<Longrightarrow> \<not> in_cycle (rw_pc w j)" using reader_invD(1) [OF assms(1) assms(2)] by blast
  show "pr_collecting (rw_reader w)" using reader_invD(2) [OF assms(1)] assms(2) by blast
qed

text \<open>A step of the owner of the cycle, and one that ends or starts a cycle.\<close>

lemma inv_owner_step:
  assumes "reader_inv w" "in_cycle (rw_pc w i)" "in_cycle c" "rw_pc w' = (rw_pc w)(i := c)"
    and "mset (rw_taken w') = mset (map fst (rw_sent w')) + mset (rw_dropped w') + mset (pending c)"
    and "\<exists>past. rw_taken w' = past @ pending c \<and> subseq (map fst (rw_sent w')) past"
    and "rw_reader w' = rw_reader w" "rw_joined w' = rw_joined w"
  shows "reader_inv w'"
proof -
  note owner = inv_owner [OF assms(1,2)]
  have only: "in_cycle (rw_pc w' j) \<longleftrightarrow> j = i" for j using owner(3) assms(3,4) by auto
  then have "in_flight w' (pending c)" unfolding in_flight_def by (metis assms(4) fun_upd_same)
  moreover have "rw_pc w' 0 = Exited \<longleftrightarrow> rw_pc w 0 = Exited" using assms(2-4) by auto
  moreover note reader_invD(3,4) [OF assms(1)]
  ultimately show ?thesis using only owner(4) assms(5-8) by (intro reader_invI [of w' "pending c"]) simp_all
qed

lemma cycle_step_inv:
  assumes "cycle_step h fl i w w'" "reader_inv w"
  shows "reader_inv w'"
  using assms(1)
proof cases
  case (claim c r)
  then have free: "\<not> pr_collecting (rw_reader w)" "r = (rw_reader w)\<lparr>pr_collecting := True\<rparr>"
    by (auto simp: CollectSlot_claim_def split: if_splits)
  then have none: "\<not> in_cycle (rw_pc w j)" for j using assms(2) unfolding reader_inv_def by blast
  then have "in_flight w bs \<Longrightarrow> bs = []" for bs by (simp add: in_flight_def)
  then have "mset (rw_taken w) = mset (map fst (rw_sent w)) + mset (rw_dropped w)" "subseq (map fst (rw_sent w)) (rw_taken w)"
    using reader_invD(5) [OF assms(2)] by force+
  moreover have "in_flight w' []" "\<And>j. in_cycle (rw_pc w' j) \<longleftrightarrow> j = i" using none claim by (auto simp: in_flight_def)
  moreover have "rw_pc w' 0 = Exited \<longleftrightarrow> rw_pc w 0 = Exited" using claim by auto
  moreover note reader_invD(3,4) [OF assms(2)]
  ultimately show ?thesis using claim free by (intro reader_invI [of w' "[]"]) auto
next
  case (collect_throws c cw p d)
  then show ?thesis
    using inv_owner [OF assms(2), of i] by (intro inv_owner_step [OF assms(2), of i "At_Release c Failed"]) auto
next
  case (collect c cw bs p d)
  then show ?thesis
    using inv_owner [OF assms(2), of i] by (intro inv_owner_step [OF assms(2), of i "At_Export c bs"]) auto
next
  case (export c b bs r)
  then obtain past where "rw_taken w = past @ b # bs" "subseq (map fst (rw_sent w)) past"
    using inv_owner(2) [OF assms(2), of i] by auto
  then have "rw_taken w = (past @ [b]) @ bs \<and> subseq (map fst (rw_sent w) @ [b]) (past @ [b])"
    by (simp add: list_emb_append_mono)
  then show ?thesis
    using export inv_owner(1) [OF assms(2), of i] by (intro inv_owner_step [OF assms(2), of i "At_Export c bs"]) auto
next
  case (export_fails c b bs)
  then obtain past where past: "rw_taken w = past @ b # bs" "subseq (map fst (rw_sent w)) past"
    using inv_owner(2) [OF assms(2), of i] by auto
  then have "subseq (map fst (rw_sent w) @ [b]) (past @ [b])" by (simp add: list_emb_append_mono)
  then have "subseq (map fst (rw_sent w) @ [b]) (past @ b # bs)"
    using subseq_rev_drop_many [of "map fst (rw_sent w) @ [b]" "past @ [b]" bs] by simp
  then show ?thesis
    using export_fails past inv_owner(1) [OF assms(2), of i]
    by (intro inv_owner_step [OF assms(2), of i "At_Release c Failed"]) auto
next
  case (exported c)
  then show ?thesis
    using inv_owner [OF assms(2), of i] by (intro inv_owner_step [OF assms(2), of i "At_Release c Completed"]) auto
next
  case (release c s)
  note owner = inv_owner [OF assms(2), of i]
  have none: "\<not> in_cycle (rw_pc w' j)" for j using owner(3) release by (cases c) auto
  then have "in_flight w' []" by (auto simp: in_flight_def)
  moreover have "rw_pc w' 0 = Exited \<longleftrightarrow> rw_pc w 0 = Exited" using release by (cases c) auto
  moreover have "\<not> pr_collecting (rw_reader w')" "pr_shut_down (rw_reader w') = pr_shut_down (rw_reader w)"
    using release by (simp_all add: CollectSlot_release_def)
  moreover note reader_invD(3,4) [OF assms(2)]
  ultimately show ?thesis using owner(1,2) release none by (intro reader_invI [of w' "[]"]) auto
qed

lemma reader_step_inv:
  assumes "reader_step h log2 fl w w'" "reader_inv w"
  shows "reader_inv w'"
  using assms(1)
proof cases
  case (cycle i)
  then show ?thesis using cycle_step_inv assms(2) by blast
next
  case (joins i s)
  then have "i \<noteq> 0" by (cases "i = 0") auto
  then show ?thesis using joins assms(2) by (intro reader_inv_frame [OF assms(2)]) (use reader_invD(4) [OF assms(2)] in auto)
qed (rule reader_inv_frame [OF assms(2)]; use reader_invD(3,4) [OF assms(2)] in \<open>auto simp: SetInterval_def split: if_splits\<close>)+

lemma reader_reach_inv: "reader_reach h log2 fl w \<Longrightarrow> reader_inv w"
  by (induction rule: reader_reach.induct) (auto intro: reader_init_inv reader_step_inv)



text \<open>A world in which the background thread runs a cycle, and a second caller is kept out.\<close>

definition sample_reader :: reader_world where
  "sample_reader = reader_init 1000 Cumulative \<lparr>mp_resource = None, mp_scopes = [], mp_streams = []\<rparr> None"

lemma sample_reader_reach: "reader_reach sample_hash (\<lambda>x. x) Finite sample_reader"
  unfolding sample_reader_def by (intro starts reach_new)


section \<open>Shutting down\<close>

text \<open>Whoever owns the slot can run its cycle to the end, whatever the exporter answers.\<close>

lemma export_finishes:
  "rw_pc w i = At_Export c bs \<Longrightarrow>
   \<exists>w' s. (cycle_step h fl i)\<^sup>*\<^sup>* w w' \<and> rw_pc w' = (rw_pc w)(i := At_Release c s) \<and> rw_reader w' = rw_reader w"
proof (induction bs arbitrary: w)
  case Nil
  have "cycle_step h fl i w (goto i (At_Release c Completed) w)" using Nil by (rule exported)
  then show ?case by (intro exI [of _ "goto i (At_Release c Completed) w"] exI [of _ Completed]) auto
next
  case (Cons b bs)
  let ?v = "goto i (At_Export c bs) (w\<lparr>rw_sent := rw_sent w @ [(b, Export_Success)]\<rparr>)"
  have step: "cycle_step h fl i w ?v" using Cons.prems by (intro export) auto
  have at: "rw_pc ?v i = At_Export c bs" by simp
  obtain w' s where "(cycle_step h fl i)\<^sup>*\<^sup>* ?v w'" "rw_pc w' = (rw_pc ?v)(i := At_Release c s)" "rw_reader w' = rw_reader ?v"
    using Cons.IH [of ?v, OF at] by blast
  then show ?case using converse_rtranclp_into_rtranclp [of "cycle_step h fl i", OF step] by (intro exI [of _ w'] exI [of _ s]) auto
qed

lemma collect_finishes:
  assumes "rw_pc w i = At_Collect c"
  shows "\<exists>w' s. (cycle_step h fl i)\<^sup>*\<^sup>* w w' \<and> rw_pc w' = (rw_pc w)(i := At_Release c s) \<and> rw_reader w' = rw_reader w"
proof -
  fix cw
  obtain bs p d where "MetricProducer_Collect h fl cw (pr_temporality (rw_reader w)) (rw_producer w, rw_diag w) = (bs, p, d)"
    by (metis prod.exhaust)
  note c = this
  show ?thesis
  proof (cases bs)
    case None
    let ?v = "goto i (At_Release c Failed) (w\<lparr>rw_producer := p, rw_diag := d\<rparr>)"
    have "cycle_step h fl i w ?v" using assms c None by (intro collect_throws) auto
    then show ?thesis by (intro exI [of _ ?v] exI [of _ Failed]) auto
  next
    case (Some hs)
    let ?v = "goto i (At_Export c hs) (w\<lparr>rw_producer := p, rw_diag := d, rw_taken := rw_taken w @ hs\<rparr>)"
    have step: "cycle_step h fl i w ?v" using assms c Some by (intro collect) auto
    have at: "rw_pc ?v i = At_Export c hs" by simp
    obtain w' s where "(cycle_step h fl i)\<^sup>*\<^sup>* ?v w'" "rw_pc w' = (rw_pc ?v)(i := At_Release c s)" "rw_reader w' = rw_reader ?v"
      using export_finishes [OF at] by blast
    then show ?thesis using converse_rtranclp_into_rtranclp [of "cycle_step h fl i", OF step] by (intro exI [of _ w'] exI [of _ s]) auto
  qed
qed

lemma cycle_finishes:
  assumes "in_cycle (rw_pc w i)"
  shows "\<exists>w' c s. (cycle_step h fl i)\<^sup>*\<^sup>* w w' \<and> rw_pc w' = (rw_pc w)(i := after_cycle c s) \<and>
    rw_reader w' = CollectSlot_release (rw_reader w) \<and> (\<exists>bs st. rw_pc w i \<in> {At_Collect c, At_Export c bs, At_Release c st})"
proof -
  obtain w' c s where w': "(cycle_step h fl i)\<^sup>*\<^sup>* w w'" "rw_pc w' = (rw_pc w)(i := At_Release c s)" "rw_reader w' = rw_reader w"
    "\<exists>bs st. rw_pc w i \<in> {At_Collect c, At_Export c bs, At_Release c st}"
    using assms collect_finishes [of w i _ h fl] export_finishes [of w i _ _ h fl]
    by (cases "rw_pc w i") (force, force, force, force, force, fastforce, force+)
  let ?v = "goto i (after_cycle c s) (w'\<lparr>rw_reader := CollectSlot_release (rw_reader w')\<rparr>)"
  have "cycle_step h fl i w' ?v" using w'(2) by (intro release) auto
  then show ?thesis using w' by (intro exI [of _ ?v] exI [of _ c] exI [of _ s]) auto
qed


lemma cycle_steps_reader: "(cycle_step h fl i)\<^sup>*\<^sup>* w w' \<Longrightarrow> (reader_step h log2 fl)\<^sup>*\<^sup>* w w'"
  by (induction rule: rtranclp_induct) (auto intro: rtranclp.rtrancl_into_rtrancl cycle)

lemma reader_reach_steps: "(reader_step h log2 fl)\<^sup>*\<^sup>* w w' \<Longrightarrow> reader_reach h log2 fl w \<Longrightarrow> reader_reach h log2 fl w'"
  by (induction rule: rtranclp_induct) (auto intro: steps)

definition can_reach :: "std_hash \<Rightarrow> (rat \<Rightarrow> rat) \<Rightarrow> (rat \<Rightarrow> double_value) \<Rightarrow> reader_world \<Rightarrow> (reader_world \<Rightarrow> bool) \<Rightarrow> bool" where
  "can_reach h log2 fl w P \<longleftrightarrow> (\<exists>w'. (reader_step h log2 fl)\<^sup>*\<^sup>* w w' \<and> P w')"

lemma can_reach_after: "(reader_step h log2 fl)\<^sup>*\<^sup>* w v \<Longrightarrow> can_reach h log2 fl v P \<Longrightarrow> can_reach h log2 fl w P"
  unfolding can_reach_def by (meson rtranclp_trans)

lemmas can_reach_step = can_reach_after [OF r_into_rtranclp]

text \<open>Which points belong to the background thread, and which to the callers.\<close>

fun cycle_of :: "reader_pc \<Rightarrow> cycle_owner option" where
  "cycle_of (At_Claim c) = Some c"
| "cycle_of (At_Collect c) = Some c"
| "cycle_of (At_Export c _) = Some c"
| "cycle_of (At_Release c _) = Some c"
| "cycle_of _ = None"

definition roles :: "reader_world \<Rightarrow> bool" where
  "roles w \<longleftrightarrow> (cycle_of (rw_pc w 0) = Some By_Loop \<or> rw_pc w 0 \<in> {At_Loop, At_Wait, Exited}) \<and>
     (\<forall>i. rw_pc w i \<in> {At_Wake, At_Join} \<longrightarrow> pr_shut_down (rw_reader w))"

lemma roles_caller: "roles w \<Longrightarrow> rw_pc w i \<in> {At_Flush, At_Wake, At_Join} \<Longrightarrow> i \<noteq> 0"
  by (cases "i = 0") (auto simp: roles_def)

lemma reader_step_roles:
  assumes "reader_step h log2 fl w w'" "roles w"
  shows "roles w'"
  using assms(1)
proof cases
  case (cycle i)
  have after: "after_cycle c s \<noteq> At_Wake" "after_cycle c s \<noteq> At_Join" "after_cycle By_Loop s = At_Loop" for c s by (cases c; simp)+
  from cycle show ?thesis
    using assms(2) by cases (auto simp: roles_def after CollectSlot_claim_def CollectSlot_release_def split: if_splits)
qed (use assms(2) roles_caller [OF assms(2)] in \<open>force simp: roles_def SetInterval_def split: if_splits\<close>)+

lemma reader_init_roles: "roles (reader_init interval t p d)"
  by (simp add: roles_def reader_init_def)

lemma reader_reach_roles: "reader_reach h log2 fl w \<Longrightarrow> roles w"
  by (induction rule: reader_reach.induct) (auto intro: reader_step_roles reader_init_roles)

abbreviation joining :: "nat \<Rightarrow> reader_world \<Rightarrow> bool" where
  "joining k w \<equiv> k \<noteq> 0 \<and> rw_pc w k = At_Join \<and> pr_shut_down (rw_reader w)"

abbreviation ended :: "nat \<Rightarrow> reader_world \<Rightarrow> bool" where
  "ended k w \<equiv> rw_pc w 0 = Exited \<and> rw_joined w \<and> (\<exists>s. rw_pc w k = Returned (Some s))"

lemma exit_from_exited: "joining k w \<Longrightarrow> rw_pc w 0 = Exited \<Longrightarrow> can_reach h log2 fl w (ended k)"
  by (rule can_reach_step [OF joins [of w k h log2 fl Completed]]) (auto simp: can_reach_def intro!: exI)

lemma exit_from_loop: "joining k w \<Longrightarrow> rw_pc w 0 = At_Loop \<Longrightarrow> can_reach h log2 fl w (ended k)"
  by (rule can_reach_step [OF loop_ends]) (auto intro!: exit_from_exited)

lemma exit_from_cycle:
  assumes "joining k w" "in_cycle (rw_pc w 0)" "cycle_of (rw_pc w 0) = Some By_Loop"
  shows "can_reach h log2 fl w (ended k)"
proof -
  obtain w' c s where w': "(cycle_step h fl 0)\<^sup>*\<^sup>* w w'" "rw_pc w' = (rw_pc w)(0 := after_cycle c s)"
    "rw_reader w' = CollectSlot_release (rw_reader w)" "\<exists>bs st. rw_pc w 0 \<in> {At_Collect c, At_Export c bs, At_Release c st}"
    using cycle_finishes [OF assms(2)] by blast
  have "c = By_Loop" using w'(4) assms(3) by auto
  then have "can_reach h log2 fl w' (ended k)"
    using w'(2,3) assms(1) by (intro exit_from_loop) (auto simp: CollectSlot_release_def)
  then show ?thesis using can_reach_after [OF cycle_steps_reader [OF w'(1)]] by blast
qed

lemma exit_from_free_claim:
  assumes "joining k w" "rw_pc w 0 = At_Claim By_Loop" "\<not> pr_collecting (rw_reader w)"
  shows "can_reach h log2 fl w (ended k)"
proof -
  let ?r = "(rw_reader w)\<lparr>pr_collecting := True\<rparr>"
  have "cycle_step h fl 0 w (goto 0 (At_Collect By_Loop) (w\<lparr>rw_reader := ?r\<rparr>))"
    using assms by (intro claim) (auto simp: CollectSlot_claim_def)
  moreover have "can_reach h log2 fl (goto 0 (At_Collect By_Loop) (w\<lparr>rw_reader := ?r\<rparr>)) (ended k)"
    using assms(1) by (intro exit_from_cycle) auto
  ultimately show ?thesis by (blast intro: can_reach_step cycle)
qed

lemma exit_from_claim:
  assumes "reader_inv w" "joining k w" "rw_pc w 0 = At_Claim By_Loop"
  shows "can_reach h log2 fl w (ended k)"
proof (cases "pr_collecting (rw_reader w)")
  case True
  then obtain i where i: "in_cycle (rw_pc w i)" using reader_invD(2) [OF assms(1)] by blast
  then have neq: "i \<noteq> 0" "i \<noteq> k" using assms(2,3) by (metis in_cycle.simps)+
  obtain w' c s where w': "(cycle_step h fl i)\<^sup>*\<^sup>* w w'" "rw_pc w' = (rw_pc w)(i := after_cycle c s)"
    "rw_reader w' = CollectSlot_release (rw_reader w)" using cycle_finishes [OF i] by blast
  then have "can_reach h log2 fl w' (ended k)"
    using neq assms(2,3) by (intro exit_from_free_claim) (auto simp: CollectSlot_release_def)
  then show ?thesis using can_reach_after [OF cycle_steps_reader [OF w'(1)]] by blast
qed (use assms in \<open>blast intro: exit_from_free_claim\<close>)

text \<open>
  \<open>Shutdown\<close> can always finish. In every reachable world in which a caller waits for the join,
  whatever the background thread, the slot and the other callers are doing, the thread can run to its
  exit and the caller can return: no cycle in the way is stuck, and no wake-up is lost for good.
\<close>

theorem reader_shutdown_progress:
  assumes "reader_reach h log2 fl w" "rw_pc w k = At_Join"
  shows "\<exists>w' s. (reader_step h log2 fl)\<^sup>*\<^sup>* w w' \<and> rw_pc w' 0 = Exited \<and> rw_joined w' \<and> rw_pc w' k = Returned (Some s)"
proof -
  have roles: "roles w" and inv: "reader_inv w" using assms(1) by (auto intro: reader_reach_roles reader_reach_inv)
  have join: "joining k w" using roles assms(2) by (cases k) (auto simp: roles_def)
  have wait: "can_reach h log2 fl w (ended k)" if "rw_pc w 0 = At_Wait"
  proof (rule can_reach_step [OF wakes [of w h log2 fl, OF that]])
    let ?v = "goto 0 (At_Claim By_Loop) (w\<lparr>rw_reader := (rw_reader w)\<lparr>pr_wake := False\<rparr>\<rparr>)"
    have "reader_inv ?v" using reader_step_inv [OF wakes [of w h log2 fl, OF that] inv] .
    then show "can_reach h log2 fl ?v (ended k)" using join by (intro exit_from_claim) auto
  qed
  have "can_reach h log2 fl w (ended k)"
    using roles join inv wait exit_from_claim [OF inv join] exit_from_cycle [OF join] exit_from_loop [OF join] exit_from_exited [OF join]
    by (cases "rw_pc w 0") (auto simp: roles_def)
  then show ?thesis unfolding can_reach_def by blast
qed

theorem reader_shutdown_progress_witness:
  "\<exists>w w' s. reader_reach sample_hash (\<lambda>x. x) Finite w \<and> rw_pc w 1 = At_Join \<and> rw_pc w 0 = At_Wait \<and>
     (reader_step sample_hash (\<lambda>x. x) Finite)\<^sup>*\<^sup>* w w' \<and> rw_pc w' 0 = Exited \<and> rw_pc w' 1 = Returned (Some s)"
proof -
  let ?R = "reader_step sample_hash (\<lambda>x. x) Finite"
  let ?w1 = "goto 0 At_Wait sample_reader"
  let ?w2 = "goto 1 At_Wake (?w1\<lparr>rw_reader := (rw_reader ?w1)\<lparr>pr_shut_down := True\<rparr>\<rparr>)"
  let ?w3 = "goto 1 At_Join (?w2\<lparr>rw_reader := (rw_reader ?w2)\<lparr>pr_wake := True\<rparr>\<rparr>)"
  have s: "rw_pc sample_reader 0 = At_Loop" "rw_pc sample_reader 1 = Returned None" "\<not> pr_shut_down (rw_reader sample_reader)"
    by (simp_all add: sample_reader_def reader_init_def PeriodicReader_new_def)
  have 1: "?R sample_reader ?w1" by (rule loop_waits) (simp_all add: s)
  have 2: "?R ?w1 ?w2" using calls_shutdown [of 1 ?w1 None] s by simp
  have 3: "?R ?w2 ?w3" by (rule sets_wake) simp
  have reach: "reader_reach sample_hash (\<lambda>x. x) Finite ?w3" by (rule steps [OF steps [OF steps [OF sample_reader_reach 1] 2] 3])
  moreover have at: "rw_pc ?w3 1 = At_Join" "rw_pc ?w3 0 = At_Wait" by simp_all
  ultimately show ?thesis using reader_shutdown_progress [OF reach at(1)] by blast
qed

text \<open>
  C21: the final cycle is not guaranteed. Whatever the producer holds, there is a run in which a
  \<open>Shutdown\<close> completes, with the thread joined, and nothing of it has been collected: the thread tests
  the flag between the \<open>Shutdown\<close> that sets it and the wait that the wake-up was meant to end.
\<close>

theorem shutdown_skips_final_cycle:
  "\<exists>w. (reader_step h log2 fl)\<^sup>*\<^sup>* (reader_init interval t p d) w \<and> rw_joined w \<and> rw_pc w 0 = Exited \<and>
    rw_pc w 1 = Returned (Some Completed) \<and> rw_producer w = p \<and> rw_taken w = [] \<and> rw_sent w = []"
proof -
  let ?w0 = "reader_init interval t p d"
  let ?w1 = "goto 1 At_Wake (?w0\<lparr>rw_reader := (rw_reader ?w0)\<lparr>pr_shut_down := True\<rparr>\<rparr>)"
  let ?w2 = "goto 0 Exited ?w1"
  let ?w3 = "goto 1 At_Join (?w2\<lparr>rw_reader := (rw_reader ?w2)\<lparr>pr_wake := True\<rparr>\<rparr>)"
  let ?w4 = "goto 1 (Returned (Some Completed)) (?w3\<lparr>rw_joined := True\<rparr>)"
  have "reader_step h log2 fl ?w0 ?w1"
    using calls_shutdown [of 1 ?w0 None h log2 fl] by (simp add: reader_init_def PeriodicReader_new_def)
  moreover have "reader_step h log2 fl ?w1 ?w2" by (rule loop_ends) (simp_all add: reader_init_def)
  moreover have "reader_step h log2 fl ?w2 ?w3" by (rule sets_wake) simp
  moreover have "reader_step h log2 fl ?w3 ?w4" by (rule joins) simp_all
  ultimately have "(reader_step h log2 fl)\<^sup>*\<^sup>* ?w0 ?w4" by (meson rtranclp.rtrancl_into_rtrancl rtranclp.rtrancl_refl)
  then show ?thesis by (intro exI [of _ ?w4]) (simp add: reader_init_def)
qed

end
