(* ===== verification/Provider_Registry.thy ===== *)
theory Provider_Registry
  imports Microtel_Prelude "HOL-Library.Multiset"
begin

text \<open>
  The registry of providers (\<open>src/sdk/provider_registry.cpp\<close>): an array of slots, each empty or the
  address of a live provider, that every thread reads and changes by single atomic accesses.

  The operations are modelled twice: as functions, for a caller that is not disturbed, and as the
  sequence of atomic accesses they are, for any interleaving. In the second model \<open>reg_next\<close> is one
  access of one provider's activity: its registration by \<open>Build\<close> and, later, its deregistration by the
  destructor, since a provider address is registered by one call only. A schedule says whose turn it is.

  Proved here: undisturbed, the registry is a map from names to providers with a capacity; a call that
  runs alone is the function; whatever the schedule, one name has one registered provider as long as
  slots are only given back by contenders for that name; and that this condition is needed.
\<close>

section \<open>State\<close>

type_synonym provider = nat

record SdkProvider =
  profile_name :: string
  forked_child :: bool

definition kMaxProfiles :: nat where "kMaxProfiles = 8"

type_synonym slots = "provider option list"

record Registry =
  g_slots :: slots
  g_providers :: "provider \<Rightarrow> SdkProvider"
  g_fork_sweep_runs :: nat

datatype RegistrationResult = Registered | DuplicateName | CapacityExhausted

section \<open>The operations\<close>

fun NameIsTaken :: "(provider \<Rightarrow> string) \<Rightarrow> slots \<Rightarrow> string \<Rightarrow> nat \<Rightarrow> bool" where
  "NameIsTaken nm [] name limit = False"
| "NameIsTaken nm (s # ss) name 0 = False"
| "NameIsTaken nm (s # ss) name (Suc limit) =
     (case s of
        Some other \<Rightarrow> if nm other = name then True else NameIsTaken nm ss name limit
      | None \<Rightarrow> NameIsTaken nm ss name limit)"

text \<open>The index claimed and the slots after, \<open>None\<close> for \<open>kMaxProfiles\<close>.\<close>

fun ClaimEmptySlot :: "provider \<Rightarrow> slots \<Rightarrow> (nat \<times> slots) option" where
  "ClaimEmptySlot p [] = None"
| "ClaimEmptySlot p (s # ss) =
     (if s = None then Some (0, Some p # ss)
      else case ClaimEmptySlot p ss of None \<Rightarrow> None | Some (i, ss') \<Rightarrow> Some (Suc i, s # ss'))"

definition MarkForkedChild :: "SdkProvider \<Rightarrow> SdkProvider" where
  "MarkForkedChild p = p\<lparr>forked_child := True\<rparr>"

fun sweep :: "slots \<Rightarrow> (provider \<Rightarrow> SdkProvider) \<Rightarrow> slots \<times> (provider \<Rightarrow> SdkProvider)" where
  "sweep [] ps = ([], ps)"
| "sweep (s # ss) ps =
     (let ps1 = (case s of None \<Rightarrow> ps | Some p \<Rightarrow> ps(p := MarkForkedChild (ps p)))
      in case sweep ss ps1 of (ss', ps') \<Rightarrow> (None # ss', ps'))"

definition MarkForkedChildProviders :: "Registry \<Rightarrow> Registry" where
  "MarkForkedChildProviders g =
     (case sweep (g_slots g) (g_providers g) of
        (ss, ps) \<Rightarrow> g\<lparr>g_slots := ss, g_providers := ps, g_fork_sweep_runs := g_fork_sweep_runs g + 1\<rparr>)"

definition RegisterProvider :: "provider \<Rightarrow> Registry \<Rightarrow> RegistrationResult \<times> Registry" where
  "RegisterProvider p g =
     (let nm = (\<lambda>q. profile_name (g_providers g q)); name = nm p
      in if NameIsTaken nm (g_slots g) name kMaxProfiles then (DuplicateName, g)
         else case ClaimEmptySlot p (g_slots g) of
           None \<Rightarrow> (CapacityExhausted, g)
         | Some (claimed, ss) \<Rightarrow>
             if NameIsTaken nm ss name claimed then (DuplicateName, g\<lparr>g_slots := ss[claimed := None]\<rparr>)
             else (Registered, g\<lparr>g_slots := ss\<rparr>))"

fun release :: "provider \<Rightarrow> slots \<Rightarrow> slots" where
  "release p [] = []"
| "release p (s # ss) = (if s = Some p then None # ss else s # release p ss)"

definition DeregisterProvider :: "provider \<Rightarrow> Registry \<Rightarrow> Registry" where
  "DeregisterProvider p g = g\<lparr>g_slots := release p (g_slots g)\<rparr>"

definition ForkSweepRuns :: "Registry \<Rightarrow> nat" where
  "ForkSweepRuns g = g_fork_sweep_runs g"

fun find_slot :: "(provider \<Rightarrow> string) \<Rightarrow> slots \<Rightarrow> string \<Rightarrow> provider option" where
  "find_slot nm [] name = None"
| "find_slot nm (s # ss) name =
     (case s of
        Some p \<Rightarrow> if nm p = name then Some p else find_slot nm ss name
      | None \<Rightarrow> find_slot nm ss name)"

definition FindProvider :: "string \<Rightarrow> Registry \<Rightarrow> provider option" where
  "FindProvider name g = find_slot (\<lambda>q. profile_name (g_providers g q)) (g_slots g) name"

definition GetProvider :: "string \<Rightarrow> Registry \<Rightarrow> provider option" where
  "GetProvider = FindProvider"

definition Registry_empty :: "(provider \<Rightarrow> SdkProvider) \<Rightarrow> Registry" where
  "Registry_empty ps = \<lparr>g_slots = replicate kMaxProfiles None, g_providers = ps, g_fork_sweep_runs = 0\<rparr>"

section \<open>A map from names to providers\<close>

abbreviation name_in :: "Registry \<Rightarrow> provider \<Rightarrow> string" where
  "name_in g q \<equiv> profile_name (g_providers g q)"

definition live :: "slots \<Rightarrow> provider list" where
  "live ss = map the (filter (\<lambda>s. s \<noteq> None) ss)"

lemma live_simps [simp]: "live [] = []" "live (None # ss) = live ss" "live (Some p # ss) = p # live ss"
  by (simp_all add: live_def)

lemma live_set: "p \<in> set (live ss) \<longleftrightarrow> Some p \<in> set ss"
  by (induction ss) (auto simp: live_def)

lemma live_length: "length (live ss) + length (filter (\<lambda>s. s = None) ss) = length ss"
  by (induction ss) (auto simp: live_def)

definition registry_ok :: "Registry \<Rightarrow> bool" where
  "registry_ok g \<longleftrightarrow> length (g_slots g) = kMaxProfiles \<and> distinct (map (name_in g) (live (g_slots g)))"

text \<open>What the registry means: who holds a name.\<close>

definition directory :: "Registry \<Rightarrow> string \<rightharpoonup> provider" where
  "directory g = map_of (map (\<lambda>p. (name_in g p, p)) (live (g_slots g)))"

lemma NameIsTaken_iff:
  "NameIsTaken nm ss name limit \<longleftrightarrow> (\<exists>k < min limit (length ss). \<exists>p. ss ! k = Some p \<and> nm p = name)"
proof (induction nm ss name limit rule: NameIsTaken.induct)
  case (3 nm s ss name limit)
  show ?case
    using 3 by (cases s) (auto simp: less_Suc_eq_0_disj)
qed auto

lemma NameIsTaken_live:
  "length ss \<le> limit \<Longrightarrow> NameIsTaken nm ss name limit \<longleftrightarrow> name \<in> nm ` set (live ss)"
  unfolding NameIsTaken_iff image_iff Bex_def live_set by (auto simp: in_set_conv_nth min_def)

lemma ClaimEmptySlot_spec:
  "ClaimEmptySlot p ss =
     (if None \<in> set ss
      then let k = length (takeWhile (\<lambda>s. s \<noteq> None) ss) in Some (k, ss[k := Some p]) else None)"
  by (induction ss) (auto simp: Let_def split: option.splits)


lemma claim_index:
  assumes "None \<in> set ss"
  shows "length (takeWhile (\<lambda>s. s \<noteq> None) ss) < length ss" "ss ! length (takeWhile (\<lambda>s. s \<noteq> None) ss) = None"
  using assms by (induction ss) auto

lemma live_upd_Some: "k < length ss \<Longrightarrow> ss ! k = None \<Longrightarrow> mset (live (ss[k := Some p])) = add_mset p (mset (live ss))"
proof (induction ss arbitrary: k)
  case (Cons s ss)
  then show ?case by (cases k; cases s) auto
qed simp

lemma live_release: "live (release p ss) = remove1 p (live ss)"
proof (induction ss)
  case (Cons s ss)
  then show ?case by (cases s) auto
qed simp

lemma release_length [simp]: "length (release p ss) = length ss"
  by (induction ss) auto

lemma sweep_spec: "sweep ss ps = (ss', ps') \<Longrightarrow> ss' = replicate (length ss) None \<and>
    (\<forall>q. profile_name (ps' q) = profile_name (ps q)) \<and>
    (\<forall>q. forked_child (ps' q) \<longleftrightarrow> forked_child (ps q) \<or> Some q \<in> set ss)"
proof (induction ss arbitrary: ps ss' ps')
  case (Cons s ss)
  let ?ps = "case s of None \<Rightarrow> ps | Some p \<Rightarrow> ps(p := MarkForkedChild (ps p))"
  obtain t qs where t: "sweep ss ?ps = (t, qs)" by (metis prod.exhaust)
  then show ?case using Cons.prems Cons.IH [OF t] by (cases s) (auto simp: MarkForkedChild_def)
qed simp

lemma live_replicate [simp]: "live (replicate n None) = []"
  by (simp add: live_def)

lemma distinct_names_mset:
  assumes "distinct (map f xs)" "mset ys = add_mset p (mset xs)" "f p \<notin> f ` set xs"
  shows "distinct (map f ys)"
proof -
  have "mset (map f ys) = mset (map f (p # xs))" using assms(2) by simp
  then show ?thesis using assms(1,3) mset_eq_imp_distinct_iff by fastforce
qed

lemma directory_iff: "registry_ok g \<Longrightarrow> directory g n = Some p \<longleftrightarrow> Some p \<in> set (g_slots g) \<and> name_in g p = n"
  unfolding directory_def registry_ok_def
  by (subst map_of_eq_Some_iff) (auto simp: comp_def live_set)

lemma directory_dom: "dom (directory g) = name_in g ` set (live (g_slots g))"
  unfolding directory_def dom_map_of_conv_image_fst by force

lemma directory_card: "registry_ok g \<Longrightarrow> card (dom (directory g)) = length (live (g_slots g))"
  unfolding directory_dom registry_ok_def by (metis distinct_card length_map list.set_map)

lemma find_slot_directory: "find_slot nm ss n = map_of (map (\<lambda>p. (nm p, p)) (live ss)) n"
  by (induction ss) (auto split: option.splits)

lemma registry_full: "registry_ok g \<Longrightarrow> None \<in> set (g_slots g) \<longleftrightarrow> card (dom (directory g)) < kMaxProfiles"
  using live_length [of "g_slots g"] directory_card [of g] filter_empty_conv [of "\<lambda>s. s = None" "g_slots g"]
  by (auto simp: registry_ok_def) (metis add.right_neutral less_irrefl length_greater_0_conv less_add_same_cancel1)+

lemma RegisterProvider_refines:
  assumes "registry_ok g"
  shows "RegisterProvider p g =
    (if name_in g p \<in> dom (directory g) then (DuplicateName, g)
     else if card (dom (directory g)) = kMaxProfiles then (CapacityExhausted, g)
     else (Registered, g\<lparr>g_slots := (g_slots g)[length (takeWhile (\<lambda>s. s \<noteq> None) (g_slots g)) := Some p]\<rparr>))"
proof -
  let ?ss = "g_slots g" and ?k = "length (takeWhile (\<lambda>s. s \<noteq> None) (g_slots g))"
  have len: "length ?ss = kMaxProfiles" using assms by (simp add: registry_ok_def)
  have taken: "NameIsTaken (name_in g) ?ss (name_in g p) kMaxProfiles \<longleftrightarrow> name_in g p \<in> dom (directory g)"
    using NameIsTaken_live [of ?ss kMaxProfiles] len by (simp add: directory_dom)
  have below: "\<not> NameIsTaken (name_in g) (?ss[?k := Some p]) (name_in g p) ?k" if "name_in g p \<notin> dom (directory g)"
    using that taken len unfolding NameIsTaken_iff by auto
  have "card (dom (directory g)) \<le> kMaxProfiles"
    using directory_card [OF assms] live_length [of ?ss] len by simp
  then have "None \<in> set ?ss \<longleftrightarrow> card (dom (directory g)) \<noteq> kMaxProfiles" using registry_full [OF assms] by auto
  then show ?thesis using taken below by (auto simp: RegisterProvider_def Let_def ClaimEmptySlot_spec)
qed

lemma map_eqI: "(\<And>k v. f k = Some v \<longleftrightarrow> g k = Some v) \<Longrightarrow> f = g"
  by (rule ext) (metis not_None_eq)

lemma register_adds:
  assumes "registry_ok g" "name_in g p \<notin> dom (directory g)" "k < length (g_slots g)" "g_slots g ! k = None"
  defines "g' \<equiv> g\<lparr>g_slots := (g_slots g)[k := Some p]\<rparr>"
  shows "registry_ok g' \<and> directory g' = (directory g)(name_in g p \<mapsto> p)"
proof -
  have ok: "registry_ok g'"
    using assms(1-4) distinct_names_mset [of "name_in g" "live (g_slots g)" "live ((g_slots g)[k := Some p])" p]
    by (simp add: registry_ok_def g'_def live_upd_Some directory_dom)
  have mem: "Some q \<in> set (g_slots g') \<longleftrightarrow> q = p \<or> Some q \<in> set (g_slots g)" for q
    using live_upd_Some [OF assms(3,4), of p] live_set [of q] unfolding g'_def
    by (metis Registry.select_convs(1) Registry.surjective Registry.update_convs(1) insert_iff set_mset_add_mset_insert set_mset_mset)
  have "directory g' m = Some q \<longleftrightarrow> ((directory g)(name_in g p \<mapsto> p)) m = Some q" for m q
  proof -
    have "name_in g' q = name_in g q" by (simp add: g'_def)
    then have "directory g' m = Some q \<longleftrightarrow> (q = p \<or> Some q \<in> set (g_slots g)) \<and> name_in g q = m"
      using directory_iff [OF ok, of m q] mem by simp
    then show ?thesis using directory_iff [OF assms(1), of m q] assms(2) by auto
  qed
  then show ?thesis using ok map_eqI by blast
qed

lemma deregister_removes:
  assumes "registry_ok g"
  shows "registry_ok (DeregisterProvider p g) \<and>
    directory (DeregisterProvider p g) = (\<lambda>m. if directory g m = Some p then None else directory g m)"
proof -
  let ?g = "DeregisterProvider p g"
  have dist: "distinct (live (g_slots g))" "inj_on (name_in g) (set (live (g_slots g)))"
    using assms by (auto simp: registry_ok_def distinct_map)
  then have set: "set (live (release p (g_slots g))) = set (live (g_slots g)) - {p}" by (simp add: live_release)
  have ok: "registry_ok ?g"
    using assms dist by (auto simp: registry_ok_def DeregisterProvider_def distinct_map live_release intro: inj_on_subset)
  have mem: "Some q \<in> set (g_slots ?g) \<longleftrightarrow> Some q \<in> set (g_slots g) \<and> q \<noteq> p" for q
    using set by (auto simp: DeregisterProvider_def simp flip: live_set)
  have nm: "name_in ?g q = name_in g q" for q by (simp add: DeregisterProvider_def)
  have "directory ?g m = Some q \<longleftrightarrow> directory g m = Some q \<and> q \<noteq> p" for m q
    by (simp only: directory_iff [OF ok] directory_iff [OF assms] mem nm) blast
  then have "directory ?g = (\<lambda>m. if directory g m = Some p then None else directory g m)" by (intro map_eqI) auto
  then show ?thesis using ok by blast
qed

lemma sweep_empties:
  assumes "registry_ok g"
  shows "registry_ok (MarkForkedChildProviders g) \<and> directory (MarkForkedChildProviders g) = Map.empty \<and>
    (\<forall>q. forked_child (g_providers (MarkForkedChildProviders g) q) \<longleftrightarrow>
       forked_child (g_providers g q) \<or> q \<in> ran (directory g))"
proof -
  obtain ss ps where s: "sweep (g_slots g) (g_providers g) = (ss, ps)" by (metis prod.exhaust)
  have "q \<in> ran (directory g) \<longleftrightarrow> Some q \<in> set (g_slots g)" for q
    using directory_iff [OF assms] by (auto simp: ran_def)
  then show ?thesis
    using sweep_spec [OF s] assms by (auto simp: MarkForkedChildProviders_def s registry_ok_def directory_def)
qed

lemma RegisterProvider_directory:
  assumes "registry_ok g" "RegisterProvider p g = (r, g')"
  shows "registry_ok g' \<and>
    (if name_in g p \<in> dom (directory g) then r = DuplicateName \<and> g' = g
     else if card (dom (directory g)) = kMaxProfiles then r = CapacityExhausted \<and> g' = g
     else r = Registered \<and> directory g' = (directory g)(name_in g p \<mapsto> p))"
proof (cases "name_in g p \<in> dom (directory g) \<or> card (dom (directory g)) = kMaxProfiles")
  case False
  then have "None \<in> set (g_slots g)"
    using registry_full [OF assms(1)] directory_card [OF assms(1)] live_length [of "g_slots g"] assms(1) by (auto simp: registry_ok_def)
  from register_adds [OF assms(1) _ claim_index [OF this], of p] show ?thesis
    using False assms(2) by (simp add: RegisterProvider_refines [OF assms(1)])
qed (use assms in \<open>simp add: RegisterProvider_refines [OF assms(1)] split: if_splits\<close>)

lemma FindProvider_directory: "FindProvider n g = directory g n"
  by (simp add: FindProvider_def directory_def find_slot_directory)

text \<open>
  C22: undisturbed, the registry is a map from profile names to providers that holds at most
  \<open>kMaxProfiles\<close> names. \<open>FindProvider\<close> looks a name up; \<open>RegisterProvider\<close> refuses a name that is held and,
  when the map is full, any name, and changes nothing then; otherwise it adds the name.
  \<open>DeregisterProvider\<close> removes the entry of its provider and no other. In a forked child the map is empty
  and exactly the providers it held, besides those marked before, are marked.
\<close>

theorem registry_refines_directory:
  assumes "registry_ok g"
  shows "FindProvider n g = directory g n \<and>
    (\<forall>p r g'. RegisterProvider p g = (r, g') \<longrightarrow> registry_ok g' \<and>
      (if name_in g p \<in> dom (directory g) then r = DuplicateName \<and> g' = g
       else if card (dom (directory g)) = kMaxProfiles then r = CapacityExhausted \<and> g' = g
       else r = Registered \<and> directory g' = (directory g)(name_in g p \<mapsto> p))) \<and>
    (\<forall>p. registry_ok (DeregisterProvider p g) \<and>
      directory (DeregisterProvider p g) = (\<lambda>m. if directory g m = Some p then None else directory g m)) \<and>
    registry_ok (MarkForkedChildProviders g) \<and> directory (MarkForkedChildProviders g) = Map.empty \<and>
    (\<forall>q. forked_child (g_providers (MarkForkedChildProviders g) q) \<longleftrightarrow>
       forked_child (g_providers g q) \<or> q \<in> ran (directory g))"
  using RegisterProvider_directory [OF assms] FindProvider_directory deregister_removes [OF assms] sweep_empties [OF assms] by blast


theorem registry_refines_directory_witness:
  "let ps = (\<lambda>p. \<lparr>profile_name = (if p < 2 then ''audit'' else ''ops''), forked_child = False\<rparr>);
       g1 = snd (RegisterProvider 0 (Registry_empty ps))
   in FindProvider ''audit'' g1 = directory g1 ''audit'' \<and> directory g1 ''audit'' = Some 0 \<and>
      fst (RegisterProvider 1 g1) = DuplicateName \<and> directory (DeregisterProvider 0 g1) ''audit'' = None"
proof -
  let ?ps = "\<lambda>p. \<lparr>profile_name = (if p < 2 then ''audit'' else ''ops''), forked_child = False\<rparr>"
  let ?g1 = "snd (RegisterProvider 0 (Registry_empty ?ps))"
  have g1: "?g1 = (Registry_empty ?ps)\<lparr>g_slots := Some 0 # replicate 7 None\<rparr>"
    by (simp add: RegisterProvider_def Registry_empty_def kMaxProfiles_def Let_def eval_nat_numeral)
  have ok: "registry_ok ?g1" unfolding g1 by (simp add: registry_ok_def Registry_empty_def kMaxProfiles_def)
  have d: "directory ?g1 ''audit'' = Some 0" unfolding g1 by (simp add: directory_def Registry_empty_def)
  have nm: "name_in ?g1 1 = ''audit''" unfolding g1 by (simp add: Registry_empty_def)
  obtain r g' where r: "RegisterProvider 1 ?g1 = (r, g')" by (metis prod.exhaust)
  have "r = DuplicateName"
    using registry_refines_directory [OF ok, of "''audit''"] r d nm by (metis (no_types, lifting) domI)
  then show ?thesis using registry_refines_directory [OF ok, of "''audit''"] d r by (simp add: Let_def)
qed

section \<open>Any interleaving\<close>

datatype reg_pc =
    Reg_Idle
  | Reg_Scan nat
  | Reg_Claim nat
  | Reg_Rescan nat nat
  | Reg_BackOut nat
  | Reg_Done RegistrationResult
  | Dereg nat
  | Reg_Gone

text \<open>The log of slots given back is not in the code: who gave it back, and whether by the destructor.\<close>

datatype giving = Backed_Out provider | Deregistered provider

record reg_world =
  gw_slots :: slots
  gw_pc :: "provider \<Rightarrow> reg_pc"
  gw_freed :: "giving list"

definition holds_name :: "(provider \<Rightarrow> string) \<Rightarrow> string \<Rightarrow> provider option \<Rightarrow> bool" where
  "holds_name nm name s \<longleftrightarrow> (case s of None \<Rightarrow> False | Some other \<Rightarrow> nm other = name)"

abbreviation reg_goto :: "provider \<Rightarrow> reg_pc \<Rightarrow> reg_world \<Rightarrow> reg_world" where
  "reg_goto i c w \<equiv> w\<lparr>gw_pc := (gw_pc w)(i := c)\<rparr>"

definition reg_next :: "(provider \<Rightarrow> string) \<Rightarrow> provider \<Rightarrow> reg_world \<Rightarrow> reg_world" where
  "reg_next nm i w =
     (case gw_pc w i of
        Reg_Idle \<Rightarrow> reg_goto i (Reg_Scan 0) w
      | Reg_Scan k \<Rightarrow>
          if k < kMaxProfiles then
            if holds_name nm (nm i) (gw_slots w ! k) then reg_goto i (Reg_Done DuplicateName) w
            else reg_goto i (Reg_Scan (Suc k)) w
          else reg_goto i (Reg_Claim 0) w
      | Reg_Claim k \<Rightarrow>
          if k < kMaxProfiles then
            if gw_slots w ! k = None then reg_goto i (Reg_Rescan k 0) (w\<lparr>gw_slots := (gw_slots w)[k := Some i]\<rparr>)
            else reg_goto i (Reg_Claim (Suc k)) w
          else reg_goto i (Reg_Done CapacityExhausted) w
      | Reg_Rescan c k \<Rightarrow>
          if k < c then
            if holds_name nm (nm i) (gw_slots w ! k) then reg_goto i (Reg_BackOut c) w
            else reg_goto i (Reg_Rescan c (Suc k)) w
          else reg_goto i (Reg_Done Registered) w
      | Reg_BackOut c \<Rightarrow>
          reg_goto i (Reg_Done DuplicateName)
            (w\<lparr>gw_slots := (gw_slots w)[c := None], gw_freed := gw_freed w @ [Backed_Out i]\<rparr>)
      | Reg_Done r \<Rightarrow> reg_goto i (Dereg 0) w
      | Dereg k \<Rightarrow>
          if k < kMaxProfiles then
            if gw_slots w ! k = Some i
            then reg_goto i Reg_Gone (w\<lparr>gw_slots := (gw_slots w)[k := None], gw_freed := gw_freed w @ [Deregistered i]\<rparr>)
            else reg_goto i (Dereg (Suc k)) w
          else reg_goto i Reg_Gone w
      | Reg_Gone \<Rightarrow> w)"

definition reg_start :: reg_world where
  "reg_start = \<lparr>gw_slots = replicate kMaxProfiles None, gw_pc = (\<lambda>_. Reg_Idle), gw_freed = []\<rparr>"

definition reg_run :: "(provider \<Rightarrow> string) \<Rightarrow> provider list \<Rightarrow> reg_world" where
  "reg_run nm sched = fold (reg_next nm) sched reg_start"


text \<open>A provider is in at most one slot, and only while its activity is there.\<close>

definition reg_inv :: "reg_world \<Rightarrow> bool" where
  "reg_inv w \<longleftrightarrow> length (gw_slots w) = kMaxProfiles \<and>
     (\<forall>k < kMaxProfiles. \<forall>i. gw_slots w ! k = Some i \<longrightarrow>
        (\<exists>j. gw_pc w i = Reg_Rescan k j) \<or> gw_pc w i = Reg_BackOut k \<or> gw_pc w i = Reg_Done Registered \<or> (\<exists>j. gw_pc w i = Dereg j)) \<and>
     (\<forall>k < kMaxProfiles. \<forall>k' < kMaxProfiles. \<forall>i. gw_slots w ! k = Some i \<and> gw_slots w ! k' = Some i \<longrightarrow> k = k') \<and>
     (\<forall>i c j. gw_pc w i = Reg_Rescan c j \<longrightarrow> c < kMaxProfiles \<and> j \<le> c \<and> gw_slots w ! c = Some i) \<and>
     (\<forall>i c. gw_pc w i = Reg_BackOut c \<longrightarrow> c < kMaxProfiles \<and> gw_slots w ! c = Some i) \<and>
     (\<forall>i. gw_pc w i = Reg_Done Registered \<longrightarrow> (\<exists>c < kMaxProfiles. gw_slots w ! c = Some i)) \<and>
     (\<forall>i k. gw_pc w i = Dereg k \<longrightarrow> (\<forall>m < kMaxProfiles. m < k \<longrightarrow> gw_slots w ! m \<noteq> Some i))"

lemma reg_inv_goto:
  assumes "reg_inv w" "\<And>k. gw_pc w i \<noteq> Reg_BackOut k" "gw_pc w i \<noteq> Reg_Done Registered" "\<And>k j. gw_pc w i \<noteq> Reg_Rescan k j"
    "\<And>j. gw_pc w i \<noteq> Dereg j" "\<And>j. c \<noteq> Dereg j" "c \<noteq> Reg_Done Registered" "\<And>k. c \<noteq> Reg_BackOut k" "\<And>k j. c \<noteq> Reg_Rescan k j"
  shows "reg_inv (reg_goto i c w)"
  using assms unfolding reg_inv_def by (simp split: if_splits) metis

lemma reg_inv_free:
  assumes "reg_inv w" "k < kMaxProfiles" "gw_slots w ! k = Some i" "c = Reg_Done DuplicateName \<or> c = Reg_Gone"
  shows "reg_inv (reg_goto i c (w\<lparr>gw_slots := (gw_slots w)[k := None], gw_freed := log\<rparr>))" (is "reg_inv ?w")
proof -
  have len: "length (gw_slots w) = kMaxProfiles" using assms(1) by (simp add: reg_inv_def)
  have slot: "gw_slots ?w ! m = Some j \<longleftrightarrow> gw_slots w ! m = Some j \<and> j \<noteq> i" if "m < kMaxProfiles" for m j
    using that assms(1-3) len unfolding reg_inv_def by (cases "m = k") (simp, simp, metis option.inject)
  have pc: "j \<noteq> i \<Longrightarrow> gw_pc ?w j = gw_pc w j" for j by simp
  have ci: "gw_pc ?w i \<noteq> Reg_Rescan a b" "gw_pc ?w i \<noteq> Reg_BackOut a" "gw_pc ?w i \<noteq> Reg_Done Registered" "gw_pc ?w i \<noteq> Dereg a" for a b
    using assms(4) by auto
  show ?thesis
    unfolding reg_inv_def
    by (intro conjI allI impI; (elim conjE)?) (use assms(1) slot pc ci len in \<open>(simp add: reg_inv_def; metis)+\<close>)
qed

lemma reg_next_inv:
  assumes "reg_inv w"
  shows "reg_inv (reg_next nm i w)"
proof (cases "gw_pc w i")
  case (Reg_Claim k)
  then show ?thesis 
    using assms by (auto simp: reg_next_def reg_inv_def nth_list_update) (metis option.distinct(1))
next
  case (Reg_Rescan c k)
  then show ?thesis 
    using assms by (auto simp: reg_next_def reg_inv_def) blast
next
  case (Reg_BackOut c)
  then have "c < kMaxProfiles" "gw_slots w ! c = Some i" using assms by (auto simp: reg_inv_def)
  from reg_inv_free [OF assms this, of "Reg_Done DuplicateName" "gw_freed w @ [Backed_Out i]"]
  show ?thesis using Reg_BackOut by (simp add: reg_next_def)
next
  case (Reg_Done r)
  then show ?thesis 
    using assms by (auto simp: reg_next_def reg_inv_def)
next
  case (Dereg k)
  show ?thesis
  proof (cases "k < kMaxProfiles \<and> gw_slots w ! k = Some i")
    case True
    then show ?thesis
      using reg_inv_free [OF assms, of k i Reg_Gone "gw_freed w @ [Deregistered i]"] Dereg by (simp add: reg_next_def)
  next
    case False
    moreover have "gw_slots w ! m \<noteq> Some i" if "m < kMaxProfiles" "m < k" for m
      using assms Dereg that by (auto simp: reg_inv_def)
    ultimately show ?thesis
      using assms Dereg by (auto simp: reg_next_def reg_inv_def less_Suc_eq)
  qed
qed (use assms in \<open>auto simp: reg_next_def intro!: reg_inv_goto\<close>)

text \<open>Slots have been given back only by contenders for the name.\<close>

definition contended :: "(provider \<Rightarrow> string) \<Rightarrow> string \<Rightarrow> reg_world \<Rightarrow> bool" where
  "contended nm x w \<longleftrightarrow> (\<forall>e \<in> set (gw_freed w). \<exists>j. e = Backed_Out j \<and> nm j = x)"

text \<open>No one holds the name yet, or there is a winner: everything below it is taken by other names.\<close>

definition no_holder :: "(provider \<Rightarrow> string) \<Rightarrow> string \<Rightarrow> reg_world \<Rightarrow> bool" where
  "no_holder nm x w \<longleftrightarrow> (\<forall>k < kMaxProfiles. \<not> holds_name nm x (gw_slots w ! k)) \<and>
     (\<forall>i k. nm i = x \<and> gw_pc w i = Reg_Claim k \<longrightarrow> (\<forall>l < min k kMaxProfiles. gw_slots w ! l \<noteq> None)) \<and>
     (\<forall>i. nm i = x \<longrightarrow> gw_pc w i \<noteq> Reg_Done DuplicateName)"

definition winner :: "(provider \<Rightarrow> string) \<Rightarrow> string \<Rightarrow> provider \<Rightarrow> nat \<Rightarrow> reg_world \<Rightarrow> bool" where
  "winner nm x i0 L w \<longleftrightarrow> L < kMaxProfiles \<and> gw_slots w ! L = Some i0 \<and> nm i0 = x \<and>
     (\<forall>k < L. gw_slots w ! k \<noteq> None \<and> \<not> holds_name nm x (gw_slots w ! k)) \<and>
     (\<forall>i c j. nm i = x \<and> gw_pc w i = Reg_Rescan c j \<longrightarrow> c = L \<or> L < c \<and> j \<le> L) \<and>
     (\<forall>i c. nm i = x \<and> gw_pc w i = Reg_BackOut c \<longrightarrow> L < c) \<and>
     (\<forall>i. nm i = x \<and> gw_pc w i = Reg_Done Registered \<longrightarrow> i = i0)"

lemma no_holder_pcs:
  assumes "reg_inv w" "no_holder nm x w" "nm j = x"
  shows "gw_pc w j \<noteq> Reg_Rescan c k" "gw_pc w j \<noteq> Reg_BackOut c" "gw_pc w j \<noteq> Reg_Done Registered"
proof -
  have "gw_slots w ! c \<noteq> Some j" if "c < kMaxProfiles" for c
    using assms(2,3) that by (auto simp: no_holder_def holds_name_def)
  then show "gw_pc w j \<noteq> Reg_Rescan c k" "gw_pc w j \<noteq> Reg_BackOut c" "gw_pc w j \<noteq> Reg_Done Registered"
    using assms(1) unfolding reg_inv_def by blast+
qed

lemma first_claim_wins:
  assumes "reg_inv w" "no_holder nm x w" "gw_pc w i = Reg_Claim k" "k < kMaxProfiles" "gw_slots w ! k = None" "nm i = x"
  shows "winner nm x i k (reg_goto i (Reg_Rescan k 0) (w\<lparr>gw_slots := (gw_slots w)[k := Some i]\<rparr>))"
proof -
  note none = no_holder_pcs [OF assms(1,2)]
  have len: "length (gw_slots w) = kMaxProfiles" using assms(1) by (simp add: reg_inv_def)
  have "\<forall>l < k. gw_slots w ! l \<noteq> None \<and> \<not> holds_name nm x (gw_slots w ! l)"
    using assms(2,3,4,6) by (auto simp: no_holder_def)
  then show ?thesis using assms(4,6) none len by (auto simp: winner_def)
qed

lemma no_holder_next:
  assumes "reg_inv w" "no_holder nm x w" "contended nm x (reg_next nm i w)"
  shows "no_holder nm x (reg_next nm i w) \<or> (\<exists>L. winner nm x i L (reg_next nm i w))"
proof (cases "gw_pc w i")
  case (Reg_Claim k)
  show ?thesis
  proof (cases "k < kMaxProfiles \<and> gw_slots w ! k = None")
    case True
    then show ?thesis
      using Reg_Claim first_claim_wins [OF assms(1,2) Reg_Claim] assms(1,2)
      by (cases "nm i = x") (auto simp: reg_next_def no_holder_def reg_inv_def nth_list_update holds_name_def)
  next
    case False
    then show ?thesis using Reg_Claim assms(2) by (auto simp: reg_next_def no_holder_def less_Suc_eq)
  qed
next
  case (Reg_BackOut c)
  then show ?thesis using assms(3) no_holder_pcs(2) [OF assms(1,2)] by (auto simp: reg_next_def contended_def)
next
  case (Dereg k)
  then show ?thesis using assms(2,3) by (auto simp: reg_next_def no_holder_def contended_def)
next
  case (Reg_Rescan c k)
  then have "nm i \<noteq> x" using no_holder_pcs(1) [OF assms(1,2)] by blast
  then show ?thesis using Reg_Rescan assms(2) by (auto simp: reg_next_def no_holder_def)
qed (use assms(2) in \<open>auto simp: reg_next_def no_holder_def\<close>)

lemma winner_rescan:
  assumes "reg_inv w" "winner nm x i0 L w" "gw_pc w i = Reg_Rescan c k"
  shows "winner nm x i0 L (reg_next nm i w)"
proof (cases "nm i = x")
  case True
  have L: "c = L \<or> L < c \<and> k \<le> L" "holds_name nm x (gw_slots w ! L)" "\<forall>k < L. \<not> holds_name nm x (gw_slots w ! k)"
    using assms(2,3) True by (auto simp: winner_def holds_name_def)
  have own: "gw_slots w ! c = Some i" "k \<le> c" using assms(1,3) by (auto simp: reg_inv_def)
  consider (hit) "k < c" "holds_name nm x (gw_slots w ! k)" | (miss) "k < c" "\<not> holds_name nm x (gw_slots w ! k)" | (last) "k = c"
    using own(2) by linarith
  then show ?thesis
  proof cases
    case hit
    then have "L < c" using L by auto
    then show ?thesis using hit assms(2,3) True by (auto simp: reg_next_def winner_def)
  next
    case miss
    then have "c = L \<or> L < c \<and> Suc k \<le> L" using L by (metis Suc_leI le_neq_implies_less)
    then show ?thesis using miss assms(2,3) True by (auto simp: reg_next_def winner_def)
  next
    case last
    then have "i = i0" using L(1) own assms(2) by (auto simp: winner_def)
    then show ?thesis using last assms(2,3) True by (auto simp: reg_next_def winner_def)
  qed
qed (use assms(2,3) in \<open>auto simp: reg_next_def winner_def\<close>)

lemma winner_next:
  assumes "reg_inv w" "winner nm x i0 L w" "contended nm x (reg_next nm i w)"
  shows "winner nm x i0 L (reg_next nm i w)"
proof (cases "gw_pc w i")
  case (Reg_Claim k)
  have "k > L" if "k < kMaxProfiles" "gw_slots w ! k = None"
    using assms(2) that by (auto simp: winner_def) (metis linorder_neqE_nat option.distinct(1))
  then show ?thesis using Reg_Claim assms(2) by (auto simp: reg_next_def winner_def)
next
  case (Reg_BackOut c)
  then have "nm i = x" using assms(3) by (auto simp: reg_next_def contended_def)
  then have "L < c" using Reg_BackOut assms(2) by (auto simp: winner_def)
  then show ?thesis using Reg_BackOut assms(2) by (auto simp: reg_next_def winner_def)
next
  case (Dereg k)
  then show ?thesis using assms(2,3) by (auto simp: reg_next_def winner_def contended_def)
qed (use assms(2) winner_rescan [OF assms(1,2)] in \<open>auto simp: reg_next_def winner_def\<close>)

lemma reg_run_snoc: "reg_run nm (sched @ [i]) = reg_next nm i (reg_run nm sched)"
  by (simp add: reg_run_def)

lemma reg_run_inv: "reg_inv (reg_run nm sched)"
  by (induction sched rule: rev_induct)
    (auto simp: reg_run_snoc intro: reg_next_inv, simp add: reg_run_def reg_inv_def reg_start_def)

lemma contended_before: "contended nm x (reg_next nm i w) \<Longrightarrow> contended nm x w"
  by (auto simp: contended_def reg_next_def split: reg_pc.splits if_splits)

lemma reg_run_winner:
  "contended nm x (reg_run nm sched) \<Longrightarrow>
   no_holder nm x (reg_run nm sched) \<or> (\<exists>i0 L. winner nm x i0 L (reg_run nm sched))"
proof (induction sched rule: rev_induct)
  case Nil
  show ?case by (simp add: reg_run_def reg_start_def no_holder_def holds_name_def)
next
  case (snoc i sched)
  let ?w = "reg_run nm sched"
  have freed: "contended nm x (reg_next nm i ?w)" using snoc.prems by (simp add: reg_run_snoc)
  from snoc.IH [OF contended_before [OF freed]] show ?case
    unfolding reg_run_snoc using no_holder_next [OF reg_run_inv _ freed] winner_next [OF reg_run_inv _ freed] by blast
qed

lemma find_slot_lowest:
  "L < length ss \<Longrightarrow> ss ! L = Some p \<Longrightarrow> nm p = x \<Longrightarrow> \<forall>k < L. \<not> holds_name nm x (ss ! k) \<Longrightarrow> find_slot nm ss x = Some p"
proof (induction ss arbitrary: L)
  case (Cons s ss)
  show ?case
  proof (cases L)
    case (Suc m)
    have "\<not> holds_name nm x s" using Cons.prems(4) Suc by force
    moreover have "\<forall>k < m. \<not> holds_name nm x (ss ! k)" using Cons.prems(4) Suc by fastforce
    ultimately show ?thesis
      using Cons.IH [of m] Cons.prems Suc by (auto simp: holds_name_def split: option.splits)
  qed (use Cons.prems in simp)
qed simp

text \<open>
  C23: one name, one provider. Whatever the interleaving of any number of registrations, as long as no
  slot has been given back but by a contender for the name itself, at most one provider of the name
  is told \<open>Registered\<close>, and it is the one \<open>FindProvider\<close> finds; whoever is told \<open>DuplicateName\<close> lost
  against a provider that holds a slot and will not back out.
\<close>

theorem registration_unique:
  assumes "w = reg_run nm sched" "contended nm x w"
  shows "(\<forall>i. nm i = x \<and> gw_pc w i = Reg_Done Registered \<longrightarrow>
       find_slot nm (gw_slots w) x = Some i \<and> (\<forall>j. nm j = x \<and> gw_pc w j = Reg_Done Registered \<longrightarrow> j = i)) \<and>
     (\<forall>i. nm i = x \<and> gw_pc w i = Reg_Done DuplicateName \<longrightarrow>
       (\<exists>j. nm j = x \<and> find_slot nm (gw_slots w) x = Some j \<and> (\<forall>c. gw_pc w j \<noteq> Reg_BackOut c)))"
proof -
  have inv: "reg_inv w" using reg_run_inv assms(1) by simp
  from reg_run_winner [of nm x sched] assms consider "no_holder nm x w" | i0 L where "winner nm x i0 L w" by blast
  then show ?thesis
  proof cases
    case 1
    then show ?thesis using no_holder_pcs(3) [OF inv 1] by (auto simp: no_holder_def)
  next
    case 2
    have len: "length (gw_slots w) = kMaxProfiles" using inv by (simp add: reg_inv_def)
    have found: "find_slot nm (gw_slots w) x = Some i0" using 2 len by (intro find_slot_lowest [of L]) (auto simp: winner_def)
    have "gw_pc w i0 \<noteq> Reg_BackOut c" for c
    proof
      assume b: "gw_pc w i0 = Reg_BackOut c"
      then have "c < kMaxProfiles" "gw_slots w ! c = Some i0" using inv by (auto simp: reg_inv_def)
      then have "c = L" using 2 inv unfolding winner_def reg_inv_def by blast
      then show False using b 2 by (auto simp: winner_def)
    qed
    then show ?thesis using 2 found unfolding winner_def by metis
  qed
qed

theorem registration_unique_witness:
  "let nm = (\<lambda>p. ''audit''); w = reg_run nm (replicate 10 1 @ replicate 12 0 @ replicate 4 1)
   in gw_pc w 0 = Reg_Done Registered \<and> gw_pc w 1 = Reg_Done DuplicateName \<and> gw_freed w = [Backed_Out 1] \<and>
      find_slot nm (gw_slots w) ''audit'' = Some 0"
proof -
  let ?nm = "\<lambda>p :: provider. ''audit''" and ?sched = "replicate 10 1 @ replicate 12 0 @ replicate 4 1"
  have run: "gw_pc (reg_run ?nm ?sched) 0 = Reg_Done Registered \<and> gw_pc (reg_run ?nm ?sched) 1 = Reg_Done DuplicateName \<and>
      gw_freed (reg_run ?nm ?sched) = [Backed_Out 1]" by code_simp
  then have "contended ?nm ''audit'' (reg_run ?nm ?sched)" by (simp add: contended_def)
  from registration_unique [OF refl this] run show ?thesis by (simp add: Let_def)
qed

text \<open>
  The condition is needed. There is a run in which two providers of one name are both told
  \<open>Registered\<close> and both hold a slot: the second has found the name free, the first claims the slot above
  that of a third provider and sees no one of its name below, the third provider is destroyed, and the
  second claims the slot that has become free, below which there is nothing left to see.
\<close>

theorem registration_race:
  "let nm = (\<lambda>p. if p < 2 then ''audit'' else ''ops'');
       w = reg_run nm (replicate 12 2 @ replicate 10 1 @ replicate 14 0 @ replicate 2 2 @ replicate 2 1)
   in gw_pc w 0 = Reg_Done Registered \<and> gw_pc w 1 = Reg_Done Registered \<and> gw_slots w ! 0 = Some 1 \<and> gw_slots w ! 1 = Some 0 \<and>
      gw_freed w = [Deregistered 2]"
  by code_simp

section \<open>A call that runs alone\<close>

definition alone :: "(provider \<Rightarrow> string) \<Rightarrow> provider \<Rightarrow> reg_world \<Rightarrow> reg_world \<Rightarrow> bool" where
  "alone nm i w w' \<longleftrightarrow> (\<exists>n. w' = (reg_next nm i ^^ n) w)"

lemma alone_refl: "alone nm i w w"
  unfolding alone_def by (rule exI [of _ 0]) simp

lemma alone_step: "alone nm i (reg_next nm i w) w' \<Longrightarrow> alone nm i w w'"
  unfolding alone_def by (metis comp_apply funpow_Suc_right)

lemma alone_one: "reg_next nm i w = w' \<Longrightarrow> alone nm i w w'"
  by (metis alone_refl alone_step)

lemma alone_trans: "alone nm i w v \<Longrightarrow> alone nm i v w' \<Longrightarrow> alone nm i w w'"
  unfolding alone_def by (metis comp_apply funpow_add)

text \<open>The activity can go on alone until it is at \<open>c\<close>, with the slots \<open>ss\<close>.\<close>

definition gets :: "(provider \<Rightarrow> string) \<Rightarrow> provider \<Rightarrow> reg_world \<Rightarrow> reg_pc \<Rightarrow> slots \<Rightarrow> bool" where
  "gets nm i w c ss \<longleftrightarrow> (\<exists>w'. alone nm i w w' \<and> gw_pc w' i = c \<and> gw_slots w' = ss)"

lemma gets_one: "gw_pc (reg_next nm i w) i = c \<Longrightarrow> gw_slots (reg_next nm i w) = ss \<Longrightarrow> gets nm i w c ss"
  unfolding gets_def by (blast intro: alone_one)

lemma gets_step: "gets nm i (reg_next nm i w) c ss \<Longrightarrow> gets nm i w c ss"
  unfolding gets_def by (blast intro: alone_step)

lemma gets_trans:
  "gets nm i w c ss \<Longrightarrow> (\<And>v. gw_pc v i = c \<Longrightarrow> gw_slots v = ss \<Longrightarrow> gets nm i v d ts) \<Longrightarrow> gets nm i w d ts"
  unfolding gets_def by (blast intro: alone_trans)

lemma gets_scan:
  assumes "k \<le> kMaxProfiles" "gw_pc w i = Reg_Scan k"
  shows "gets nm i w (if \<exists>m. k \<le> m \<and> m < kMaxProfiles \<and> holds_name nm (nm i) (gw_slots w ! m)
    then Reg_Done DuplicateName else Reg_Claim 0) (gw_slots w)"
  using assms
proof (induction k arbitrary: w rule: inc_induct)
  case base
  then show ?case by (intro gets_one) (auto simp: reg_next_def)
next
  case (step k)
  show ?case
  proof (cases "holds_name nm (nm i) (gw_slots w ! k)")
    case True
    then have "\<exists>m. k \<le> m \<and> m < kMaxProfiles \<and> holds_name nm (nm i) (gw_slots w ! m)" using step.hyps by blast
    then show ?thesis using step True by (intro gets_one) (simp_all add: reg_next_def)
  next
    case False
    then have eq: "(\<exists>m. k \<le> m \<and> m < kMaxProfiles \<and> holds_name nm (nm i) (gw_slots w ! m)) \<longleftrightarrow>
        (\<exists>m. Suc k \<le> m \<and> m < kMaxProfiles \<and> holds_name nm (nm i) (gw_slots w ! m))"
      by (metis Suc_leD le_eq_less_or_eq Suc_leI)
    have "gw_pc (reg_next nm i w) i = Reg_Scan (Suc k)" "gw_slots (reg_next nm i w) = gw_slots w"
      using step.hyps step.prems False by (simp_all add: reg_next_def)
    then show ?thesis using step.IH [of "reg_next nm i w"] unfolding eq by (metis gets_step)
  qed
qed

lemma gets_claim:
  assumes "k \<le> kMaxProfiles" "gw_pc w i = Reg_Claim k" "c = k + length (takeWhile (\<lambda>s. s \<noteq> None) (drop k (gw_slots w)))"
    "length (gw_slots w) = kMaxProfiles"
  shows "if c < kMaxProfiles then gets nm i w (Reg_Rescan c 0) ((gw_slots w)[c := Some i])
    else gets nm i w (Reg_Done CapacityExhausted) (gw_slots w)"
  using assms
proof (induction k arbitrary: w rule: inc_induct)
  case base
  then show ?case by (simp add: gets_one reg_next_def)
next
  case (step k)
  have drop: "drop k (gw_slots w) = gw_slots w ! k # drop (Suc k) (gw_slots w)"
    using step.hyps step.prems(3) by (simp add: Cons_nth_drop_Suc)
  show ?case
  proof (cases "gw_slots w ! k = None")
    case True
    then show ?thesis using step.hyps step.prems drop by (simp add: gets_one reg_next_def)
  next
    case False
    have c: "c = Suc k + length (takeWhile (\<lambda>s. s \<noteq> None) (drop (Suc k) (gw_slots w)))"
      using step.prems(2) drop False by simp
    have n: "gw_pc (reg_next nm i w) i = Reg_Claim (Suc k)" "gw_slots (reg_next nm i w) = gw_slots w"
      using step.hyps step.prems(1) False by (auto simp: reg_next_def)
    from step.IH [OF n(1), unfolded n(2), OF c step.prems(3)] show ?thesis
      by (metis gets_step)
  qed
qed

lemma gets_rescan:
  assumes "k \<le> c" "gw_pc w i = Reg_Rescan c k" "\<And>m. m < c \<Longrightarrow> \<not> holds_name nm (nm i) (gw_slots w ! m)"
  shows "gets nm i w (Reg_Done Registered) (gw_slots w)"
  using assms
proof (induction k arbitrary: w rule: inc_induct)
  case base
  then show ?case by (simp add: gets_one reg_next_def)
next
  case (step k)
  then have n: "gw_pc (reg_next nm i w) i = Reg_Rescan c (Suc k)" "gw_slots (reg_next nm i w) = gw_slots w"
    by (simp_all add: reg_next_def)
  from step.IH [OF n(1), unfolded n(2)] step.prems(2) show ?case by (metis gets_step)
qed

lemma registry_room:
  assumes "registry_ok g"
  shows "card (dom (directory g)) = kMaxProfiles \<longleftrightarrow> \<not> length (takeWhile (\<lambda>s. s \<noteq> None) (g_slots g)) < kMaxProfiles"
proof -
  have len: "length (g_slots g) = kMaxProfiles" using assms by (simp add: registry_ok_def)
  have le: "card (dom (directory g)) \<le> kMaxProfiles"
    using directory_card [OF assms] live_length [of "g_slots g"] len by simp
  show ?thesis
  proof (cases "None \<in> set (g_slots g)")
    case True
    then have "card (dom (directory g)) < kMaxProfiles" using registry_full [OF assms] by blast
    then show ?thesis using claim_index(1) [OF True] unfolding len by linarith
  next
    case False
    then have "\<forall>s \<in> set (g_slots g). s \<noteq> None" by metis
    then have "takeWhile (\<lambda>s. s \<noteq> None) (g_slots g) = g_slots g" by (simp only: takeWhile_eq_all_conv)
    then have "length (takeWhile (\<lambda>s. s \<noteq> None) (g_slots g)) = kMaxProfiles" by (simp only: len)
    moreover have "card (dom (directory g)) = kMaxProfiles" using registry_full [OF assms] False le by linarith
    ultimately show ?thesis by linarith
  qed
qed

text \<open>The function is what the accesses of a call amount to when no one else runs in between.\<close>

lemma RegisterProvider_alone:
  assumes "registry_ok g" "gw_slots w = g_slots g" "gw_pc w i = Reg_Idle" "RegisterProvider i g = (r, g')"
  shows "gets (name_in g) i w (Reg_Done r) (g_slots g')"
proof -
  let ?nm = "name_in g" and ?ss = "g_slots g" and ?k = "length (takeWhile (\<lambda>s. s \<noteq> None) (g_slots g))"
  have len: "length ?ss = kMaxProfiles" using assms(1) by (simp add: registry_ok_def)
  have taken: "?nm i \<in> dom (directory g) \<longleftrightarrow> (\<exists>m. 0 \<le> m \<and> m < kMaxProfiles \<and> holds_name ?nm (?nm i) (?ss ! m))"
    using NameIsTaken_live [of ?ss kMaxProfiles ?nm "?nm i"] len
    by (auto simp: directory_dom NameIsTaken_iff holds_name_def split: option.splits)
  have "gets ?nm i w (Reg_Scan 0) ?ss" using assms(2,3) by (intro gets_one) (auto simp: reg_next_def)
  then have scan: "gets ?nm i w (if ?nm i \<in> dom (directory g) then Reg_Done DuplicateName else Reg_Claim 0) ?ss"
  proof (rule gets_trans)
    fix v :: reg_world assume v: "gw_pc v i = Reg_Scan 0" "gw_slots v = ?ss"
    from gets_scan [of 0 v i ?nm, OF _ v(1)]
    show "gets ?nm i v (if ?nm i \<in> dom (directory g) then Reg_Done DuplicateName else Reg_Claim 0) ?ss"
      unfolding v(2) taken by simp
  qed
  have room: "card (dom (directory g)) = kMaxProfiles \<longleftrightarrow> \<not> ?k < kMaxProfiles"
    using registry_room [OF assms(1)] len by simp
  show ?thesis
  proof (cases "?nm i \<in> dom (directory g)")
    case True
    then show ?thesis using scan assms(2,4) by (simp add: RegisterProvider_refines [OF assms(1)])
  next
    case new: False
    then have scan: "gets ?nm i w (Reg_Claim 0) ?ss" using scan by simp
    have claim: "if ?k < kMaxProfiles then gets ?nm i v (Reg_Rescan ?k 0) (?ss[?k := Some i])
        else gets ?nm i v (Reg_Done CapacityExhausted) ?ss" if "gw_pc v i = Reg_Claim 0" "gw_slots v = ?ss" for v
      using gets_claim [of 0 v i ?k ?nm, OF _ that(1)] len unfolding that(2) by (simp del: not_None_eq split del: if_split)
    show ?thesis
    proof (cases "?k < kMaxProfiles")
      case True
      have "gets ?nm i w (Reg_Rescan ?k 0) (?ss[?k := Some i])"
        using scan by (rule gets_trans) (use claim True in presburger)
      then have "gets ?nm i w (Reg_Done Registered) (?ss[?k := Some i])"
      proof (rule gets_trans)
        fix v :: reg_world assume v: "gw_pc v i = Reg_Rescan ?k 0" "gw_slots v = ?ss[?k := Some i]"
        have "\<not> holds_name ?nm (?nm i) (gw_slots v ! m)" if "m < ?k" for m using new taken True that v(2) by simp
        from gets_rescan [of 0 ?k v i ?nm, OF _ v(1) this] show "gets ?nm i v (Reg_Done Registered) (?ss[?k := Some i])"
          by (simp add: v(2))
      qed
      then show ?thesis using new room True assms(4) by (auto simp: RegisterProvider_refines [OF assms(1)])
    next
      case False
      have "gets ?nm i w (Reg_Done CapacityExhausted) ?ss" using scan by (rule gets_trans) (use claim False in presburger)
      then show ?thesis using False new room assms(4) by (auto simp: RegisterProvider_refines [OF assms(1)])
    qed
  qed
qed

end
