(* ===== verification/Exporter_Worker.thy ===== *)
theory Exporter_Worker
  imports Metric_Reader
begin

text \<open>
  The concurrency of the three OTLP exporters (\<open>src/exporter/otlp_exporter.cpp\<close>, \<open>otlp_log_exporter.cpp\<close>,
  \<open>otlp_metric_exporter.cpp\<close>): callers that hand over batches, flush and shut down under the mutex, one
  thread in \<open>Shutdown\<close>, and the worker running \<open>WorkerLoop\<close>. A step is one critical section, or what the
  worker does with a drain outside the lock. A timed wait may end at any time.

  What differs between the exporters is the parameter \<open>exporter_ops\<close>; the locale states what the skeleton
  relies on and \<open>Otlp_Exporter\<close> interprets it for the three. The world carries history that no step reads:
  the batches accepted, those processed, and for every flush its number and how many batches had been
  accepted when it was requested.

  Proved here: batches are processed once each and in order; an acknowledged flush, and a shutdown that
  has returned, have processed everything accepted before; from every state the worker can get there.
\<close>

section \<open>The state\<close>

record 'b exporter_core =
  exp_queue :: "'b list"
  exp_flush_seq :: nat
  exp_flush_done_seq :: nat
  exp_shutdown :: bool

definition exporter_core_new :: "'b exporter_core" where
  "exporter_core_new = \<lparr>exp_queue = [], exp_flush_seq = 0, exp_flush_done_seq = 0, exp_shutdown = False\<rparr>"

record ('b, 'x, 'w) exporter_ops =
  xo_enqueue :: "'b \<Rightarrow> ('b, 'x) exporter_core_scheme \<times> sink \<Rightarrow> ExportResult \<times> ('b, 'x) exporter_core_scheme \<times> sink"
  xo_groups :: bool
  xo_taken :: "('b, 'x) exporter_core_scheme \<Rightarrow> ('b, 'x) exporter_core_scheme"
  xo_process :: "int \<Rightarrow> 'b list \<Rightarrow> sink \<times> 'w \<Rightarrow> sink \<times> 'w"
  xo_publish :: "('b, 'x) exporter_core_scheme \<Rightarrow> sink \<Rightarrow> sink"
  xo_abort :: "'w \<Rightarrow> 'w"
  xo_on_timeout :: "'w \<Rightarrow> 'w"

text \<open>
  \<open>xo_groups\<close>: whether several batches can be handed over under one lock. \<open>xo_taken\<close>: what else changes when
  the whole queue is taken. \<open>xo_process\<close> is told the time that is recorded with a failure.
\<close>

datatype 'b exporter_pc = X_Waiting | X_Processing "'b list" | X_Relocking | X_Leaving | X_Exited

datatype shutdown_pc = S_Idle | S_Aborting | S_Waiting | S_Joining Status | S_Returned Status

record ('b, 'x, 'w) exporter_world =
  xw_exp :: "('b, 'x) exporter_core_scheme"
  xw_sink :: sink
  xw_env :: 'w
  xw_pc :: "'b exporter_pc"
  xw_shut :: shutdown_pc
  xw_accepted :: "'b list"
  xw_drains :: "'b list list"
  xw_tickets :: "(nat \<times> nat) list"

definition exporter_init :: "('b, 'x) exporter_core_scheme \<Rightarrow> sink \<Rightarrow> 'w \<Rightarrow> ('b, 'x, 'w) exporter_world" where
  "exporter_init e diag v =
     \<lparr>xw_exp = e, xw_sink = diag, xw_env = v, xw_pc = X_Waiting, xw_shut = S_Idle, xw_accepted = [],
      xw_drains = [], xw_tickets = []\<rparr>"

section \<open>Steps\<close>

text \<open>Handing over batches under one lock: those that were accepted.\<close>

fun enqueue_all ::
    "('b, 'x, 'w) exporter_ops \<Rightarrow> 'b list \<Rightarrow> ('b, 'x) exporter_core_scheme \<times> sink \<Rightarrow>
     'b list \<times> ('b, 'x) exporter_core_scheme \<times> sink" where
  "enqueue_all ops [] s = ([], s)"
| "enqueue_all ops (b # bs) s =
     (case xo_enqueue ops b s of
        (r, s1) \<Rightarrow> (case enqueue_all ops bs s1 of (taken, s2) \<Rightarrow> ((if r = Export_Success then b # taken else taken), s2)))"

definition hand_over :: "('b, 'x, 'w) exporter_ops \<Rightarrow> 'b list \<Rightarrow> ('b, 'x, 'w) exporter_world \<Rightarrow> ('b, 'x, 'w) exporter_world" where
  "hand_over ops bs w =
     (case enqueue_all ops bs (xw_exp w, xw_sink w) of
        (taken, e, diag) \<Rightarrow> w\<lparr>xw_exp := e, xw_sink := diag, xw_accepted := xw_accepted w @ taken\<rparr>)"

definition request_flush :: "('b, 'x, 'w) exporter_world \<Rightarrow> ('b, 'x, 'w) exporter_world" where
  "request_flush w =
     w\<lparr>xw_exp := (xw_exp w)\<lparr>exp_flush_seq := exp_flush_seq (xw_exp w) + 1\<rparr>,
       xw_tickets := (exp_flush_seq (xw_exp w) + 1, length (xw_accepted w)) # xw_tickets w\<rparr>"

definition request_shutdown :: "('b, 'x, 'w) exporter_world \<Rightarrow> ('b, 'x, 'w) exporter_world" where
  "request_shutdown w =
     (if exp_shutdown (xw_exp w) then w
      else (request_flush (w\<lparr>xw_exp := (xw_exp w)\<lparr>exp_shutdown := True\<rparr>\<rparr>))\<lparr>xw_shut := S_Aborting\<rparr>)"

text \<open>The predicate on which \<open>ForceFlush\<close> and \<open>Shutdown\<close> wait: it reads the number of the latest flush, not of their own.\<close>

definition flush_done :: "('b, 'x) exporter_core_scheme \<Rightarrow> bool" where
  "flush_done e \<longleftrightarrow> exp_flush_done_seq e \<ge> exp_flush_seq e"

text \<open>The head of the loop in \<open>DrainQueue\<close>, with what follows it when the queue is empty.\<close>

definition drain_head :: "('b, 'x, 'w) exporter_ops \<Rightarrow> ('b, 'x, 'w) exporter_world \<Rightarrow> ('b, 'x, 'w) exporter_world" where
  "drain_head ops w =
     (let e = xw_exp w
      in if exp_queue e \<noteq> [] then
           w\<lparr>xw_exp := xo_taken ops (e\<lparr>exp_queue := []\<rparr>), xw_pc := X_Processing (exp_queue e)\<rparr>
         else
           w\<lparr>xw_exp := (if exp_flush_seq e > exp_flush_done_seq e then e\<lparr>exp_flush_done_seq := exp_flush_seq e\<rparr> else e),
             xw_pc := (if exp_shutdown e then X_Leaving else X_Waiting)\<rparr>)"

definition process_world ::
    "('b, 'x, 'w) exporter_ops \<Rightarrow> int \<Rightarrow> 'b list \<Rightarrow> ('b, 'x, 'w) exporter_world \<Rightarrow> ('b, 'x, 'w) exporter_world" where
  "process_world ops now batches w =
     (case xo_process ops now batches (xw_sink w, xw_env w) of
        (diag, v) \<Rightarrow> w\<lparr>xw_sink := diag, xw_env := v, xw_pc := X_Relocking, xw_drains := xw_drains w @ [batches]\<rparr>)"

definition leave_world :: "('b, 'x, 'w) exporter_world \<Rightarrow> ('b, 'x, 'w) exporter_world" where
  "leave_world w = w\<lparr>xw_exp := (xw_exp w)\<lparr>exp_flush_done_seq := exp_flush_seq (xw_exp w)\<rparr>, xw_pc := X_Exited\<rparr>"

inductive exporter_move :: "('b, 'x, 'w) exporter_ops \<Rightarrow> ('b, 'x, 'w) exporter_world \<Rightarrow> ('b, 'x, 'w) exporter_world \<Rightarrow> bool"
  for ops :: "('b, 'x, 'w) exporter_ops" where
  xm_wake: "xw_pc w = X_Waiting \<Longrightarrow> exp_queue (xw_exp w) \<noteq> [] \<or> \<not> flush_done (xw_exp w) \<or> exp_shutdown (xw_exp w) \<Longrightarrow>
     exporter_move ops w (drain_head ops w)"
| xm_process: "xw_pc w = X_Processing batches \<Longrightarrow> exporter_move ops w (process_world ops now batches w)"
| xm_relock: "xw_pc w = X_Relocking \<Longrightarrow>
     exporter_move ops w (drain_head ops (w\<lparr>xw_sink := xo_publish ops (xw_exp w) (xw_sink w)\<rparr>))"
| xm_leave: "xw_pc w = X_Leaving \<Longrightarrow> exporter_move ops w (leave_world w)"

inductive exporter_step :: "('b, 'x, 'w) exporter_ops \<Rightarrow> ('b, 'x, 'w) exporter_world \<Rightarrow> ('b, 'x, 'w) exporter_world \<Rightarrow> bool"
  for ops :: "('b, 'x, 'w) exporter_ops" where
  xs_export: "length bs = 1 \<or> xo_groups ops \<Longrightarrow> exporter_step ops w (hand_over ops bs w)"
| xs_flush: "exporter_step ops w (request_flush w)"
| xs_shutdown: "exporter_step ops w (request_shutdown w)"
| xs_abort: "xw_shut w = S_Aborting \<Longrightarrow> exporter_step ops w (w\<lparr>xw_env := xo_abort ops (xw_env w), xw_shut := S_Waiting\<rparr>)"
| xs_completed: "xw_shut w = S_Waiting \<Longrightarrow> flush_done (xw_exp w) \<Longrightarrow> exporter_step ops w (w\<lparr>xw_shut := S_Joining Completed\<rparr>)"
| xs_timed_out: "xw_shut w = S_Waiting \<Longrightarrow> \<not> flush_done (xw_exp w) \<Longrightarrow>
     exporter_step ops w (w\<lparr>xw_env := xo_on_timeout ops (xw_env w), xw_shut := S_Joining TimedOut\<rparr>)"
| xs_joined: "xw_shut w = S_Joining status \<Longrightarrow> xw_pc w = X_Exited \<Longrightarrow> exporter_step ops w (w\<lparr>xw_shut := S_Returned status\<rparr>)"
| xs_worker: "exporter_move ops w w' \<Longrightarrow> exporter_step ops w w'"

inductive exporter_reachable ::
    "('b, 'x, 'w) exporter_ops \<Rightarrow> ('b, 'x, 'w) exporter_world \<Rightarrow> ('b, 'x, 'w) exporter_world \<Rightarrow> bool"
  for ops :: "('b, 'x, 'w) exporter_ops" and w0 :: "('b, 'x, 'w) exporter_world" where
  xr_init: "exporter_reachable ops w0 w0"
| xr_step: "exporter_reachable ops w0 w \<Longrightarrow> exporter_step ops w w' \<Longrightarrow> exporter_reachable ops w0 w'"

lemma exporter_reachable_trans:
  "exporter_reachable ops w1 w2 \<Longrightarrow> exporter_reachable ops w0 w1 \<Longrightarrow> exporter_reachable ops w0 w2"
  by (induction rule: exporter_reachable.induct) (auto intro: exporter_reachable.intros)

section \<open>The invariant\<close>

definition processing :: "('b, 'x, 'w) exporter_world \<Rightarrow> 'b list" where
  "processing w = (case xw_pc w of X_Processing bs \<Rightarrow> bs | _ \<Rightarrow> [])"

definition exporter_conserved :: "('b, 'x, 'w) exporter_world \<Rightarrow> bool" where
  "exporter_conserved w \<longleftrightarrow> xw_accepted w = concat (xw_drains w) @ processing w @ exp_queue (xw_exp w)"

definition exporter_tickets :: "('b, 'x, 'w) exporter_world \<Rightarrow> bool" where
  "exporter_tickets w \<longleftrightarrow>
     (\<forall>(t, n) \<in> set (xw_tickets w). t \<le> exp_flush_seq (xw_exp w) \<and> n \<le> length (xw_accepted w) \<and>
        (t \<le> exp_flush_done_seq (xw_exp w) \<longrightarrow> n \<le> length (concat (xw_drains w)))) \<and>
     exp_flush_done_seq (xw_exp w) \<le> exp_flush_seq (xw_exp w)"

definition exporter_stopping :: "('b, 'x, 'w) exporter_world \<Rightarrow> bool" where
  "exporter_stopping w \<longleftrightarrow>
     (xw_pc w = X_Leaving \<or> xw_pc w = X_Exited \<longrightarrow> exp_shutdown (xw_exp w) \<and> exp_queue (xw_exp w) = []) \<and>
     (xw_shut w \<noteq> S_Idle \<longleftrightarrow> exp_shutdown (xw_exp w)) \<and>
     (\<forall>s. xw_shut w = S_Returned s \<longrightarrow> xw_pc w = X_Exited)"

definition exporter_inv :: "('b, 'x, 'w) exporter_world \<Rightarrow> bool" where
  "exporter_inv w \<longleftrightarrow> exporter_conserved w \<and> exporter_tickets w \<and> exporter_stopping w"

lemmas exporter_inv_defs = exporter_inv_def exporter_conserved_def exporter_tickets_def exporter_stopping_def

section \<open>What the skeleton relies on\<close>

locale exporter_worker =
  fixes ops :: "('b, 'x, 'w) exporter_ops" and fits :: "('b, 'x) exporter_core_scheme \<Rightarrow> bool"
  assumes enqueue_law: "xo_enqueue ops b (e, d) = (r, e', d') \<Longrightarrow>
      exp_flush_seq e' = exp_flush_seq e \<and> exp_flush_done_seq e' = exp_flush_done_seq e \<and> exp_shutdown e' = exp_shutdown e \<and>
      (if r = Export_Success then \<not> exp_shutdown e \<and> exp_queue e' = exp_queue e @ [b] else exp_queue e' = exp_queue e)"
    and enqueue_fits: "xo_enqueue ops b (e, d) = (r, e', d') \<Longrightarrow> fits e \<Longrightarrow> fits e'"
    and taken_law: "exp_queue (xo_taken ops e) = exp_queue e" "exp_flush_seq (xo_taken ops e) = exp_flush_seq e"
      "exp_flush_done_seq (xo_taken ops e) = exp_flush_done_seq e" "exp_shutdown (xo_taken ops e) = exp_shutdown e"
    and taken_fits: "exp_queue e = [] \<Longrightarrow> fits (xo_taken ops e)"
    and control_fits: "fits (e\<lparr>exp_flush_seq := n\<rparr>) = fits e" "fits (e\<lparr>exp_flush_done_seq := n\<rparr>) = fits e"
      "fits (e\<lparr>exp_shutdown := s\<rparr>) = fits e"
begin

lemma enqueue_all_law:
  "enqueue_all ops bs (e, d) = (taken, e', d') \<Longrightarrow>
   exp_flush_seq e' = exp_flush_seq e \<and> exp_flush_done_seq e' = exp_flush_done_seq e \<and> exp_shutdown e' = exp_shutdown e \<and>
   exp_queue e' = exp_queue e @ taken \<and> (exp_shutdown e \<longrightarrow> taken = []) \<and> (fits e \<longrightarrow> fits e')"
proof (induction bs arbitrary: e d taken e' d')
  case (Cons b bs)
  obtain r e1 d1 where r: "xo_enqueue ops b (e, d) = (r, e1, d1)" by (metis prod.exhaust)
  obtain t e2 d2 where t: "enqueue_all ops bs (e1, d1) = (t, e2, d2)" by (metis prod.exhaust)
  show ?case using Cons.IH [OF t] enqueue_law [OF r] enqueue_fits [OF r] Cons.prems r t by (auto split: if_splits)
qed simp

lemma export_inv: "exporter_inv w \<Longrightarrow> exporter_inv (hand_over ops bs w)"
proof -
  obtain taken e d where t: "enqueue_all ops bs (xw_exp w, xw_sink w) = (taken, e, d)" by (metis prod.exhaust)
  show "exporter_inv w \<Longrightarrow> exporter_inv (hand_over ops bs w)"
    using enqueue_all_law [OF t] t by (cases "exp_shutdown (xw_exp w)") (auto simp: exporter_inv_defs hand_over_def processing_def)
qed

lemma flush_inv: "exporter_inv w \<Longrightarrow> exporter_inv (request_flush w)"
  by (fastforce simp: exporter_inv_defs request_flush_def processing_def)

lemma shutdown_inv:
  assumes "exporter_inv w"
  shows "exporter_inv (request_shutdown w)"
proof (cases "exp_shutdown (xw_exp w)")
  case False
  let ?w = "request_flush w"
  have "exporter_inv ?w" by (rule flush_inv [OF assms])
  moreover have "request_shutdown w = ?w\<lparr>xw_exp := (xw_exp ?w)\<lparr>exp_shutdown := True\<rparr>, xw_shut := S_Aborting\<rparr>"
    using False by (simp add: request_shutdown_def request_flush_def)
  moreover have "xw_shut ?w = S_Idle" "xw_pc ?w \<noteq> X_Leaving" "xw_pc ?w \<noteq> X_Exited"
    using assms False by (auto simp: exporter_inv_defs request_flush_def)
  ultimately show ?thesis by (auto simp: exporter_inv_defs processing_def)
qed (use assms in \<open>simp add: request_shutdown_def\<close>)

lemma head_inv:
  assumes "exporter_inv w" "processing w = []" "\<forall>s. xw_shut w \<noteq> S_Returned s"
  shows "exporter_inv (drain_head ops w)"
proof (cases "exp_queue (xw_exp w) = []")
  case True
  then have "length (xw_accepted w) = length (concat (xw_drains w))" using assms by (simp add: exporter_inv_defs)
  then show ?thesis using assms True by (auto simp: exporter_inv_defs drain_head_def processing_def Let_def)
next
  case False
  then show ?thesis using assms by (auto simp: exporter_inv_defs drain_head_def processing_def Let_def taken_law)
qed

lemma process_inv:
  assumes "exporter_inv w" "xw_pc w = X_Processing bs"
  shows "exporter_inv (process_world ops now bs w)"
  using assms by (fastforce simp: exporter_inv_defs process_world_def processing_def split: prod.splits)

lemma leave_inv:
  assumes "exporter_inv w" "xw_pc w = X_Leaving"
  shows "exporter_inv (leave_world w)"
proof -
  have "length (xw_accepted w) = length (concat (xw_drains w))" using assms by (simp add: exporter_inv_defs processing_def)
  then show ?thesis using assms by (auto simp: exporter_inv_defs leave_world_def processing_def)
qed

lemma move_inv: "exporter_move ops w w' \<Longrightarrow> exporter_inv w \<Longrightarrow> exporter_inv w'"
proof (induction rule: exporter_move.induct)
  case (xm_relock w)
  then have "exporter_inv (w\<lparr>xw_sink := xo_publish ops (xw_exp w) (xw_sink w)\<rparr>)" by (auto simp: exporter_inv_defs processing_def)
  then show ?case using xm_relock by (intro head_inv) (auto simp: exporter_inv_defs processing_def)
next
  case (xm_wake w)
  then show ?case by (intro head_inv) (auto simp: exporter_inv_defs processing_def)
qed (auto intro: process_inv leave_inv)

lemma step_inv: "exporter_step ops w w' \<Longrightarrow> exporter_inv w \<Longrightarrow> exporter_inv w'"
proof (induction rule: exporter_step.induct)
  case (xs_worker w w')
  then show ?case by (metis move_inv)
qed (auto intro: export_inv flush_inv shutdown_inv, auto simp: exporter_inv_defs processing_def)

lemma move_fits: "exporter_move ops w w' \<Longrightarrow> fits (xw_exp w) \<Longrightarrow> fits (xw_exp w')"
  by (induction rule: exporter_move.induct)
    (auto simp: drain_head_def process_world_def leave_world_def taken_fits control_fits Let_def split: prod.splits)

lemma step_fits: "exporter_step ops w w' \<Longrightarrow> fits (xw_exp w) \<Longrightarrow> fits (xw_exp w')"
proof (induction rule: exporter_step.induct)
  case (xs_export bs w)
  obtain taken e d where t: "enqueue_all ops bs (xw_exp w, xw_sink w) = (taken, e, d)" by (metis prod.exhaust)
  show ?case using enqueue_all_law [OF t] t xs_export by (simp add: hand_over_def)
next
  case (xs_worker w w')
  then show ?case by (metis move_fits)
qed (auto simp: request_flush_def request_shutdown_def control_fits)

lemma fresh_inv: "exp_queue e = [] \<Longrightarrow> exp_flush_seq e = 0 \<Longrightarrow> exp_flush_done_seq e = 0 \<Longrightarrow> \<not> exp_shutdown e \<Longrightarrow>
    exporter_inv (exporter_init e d v)"
  by (simp add: exporter_inv_defs exporter_init_def processing_def)

lemma reachable_inv: "exporter_reachable ops w0 w \<Longrightarrow> exporter_inv w0 \<Longrightarrow> exporter_inv w"
  by (induction rule: exporter_reachable.induct) (auto intro: step_inv)

lemma reachable_fits: "exporter_reachable ops w0 w \<Longrightarrow> fits (xw_exp w0) \<Longrightarrow> fits (xw_exp w)"
  by (induction rule: exporter_reachable.induct) (auto intro: step_fits)

end

section \<open>Progress\<close>

abbreviation worker_run :: "('b, 'x, 'w) exporter_ops \<Rightarrow> ('b, 'x, 'w) exporter_world \<Rightarrow> ('b, 'x, 'w) exporter_world \<Rightarrow> bool" where
  "worker_run ops \<equiv> rtranclp (exporter_move ops)"

lemma worker_run_reachable: "worker_run ops w w' \<Longrightarrow> exporter_reachable ops w w'"
  by (induction rule: rtranclp_induct) (auto intro: exporter_reachable.intros xs_worker)

text \<open>The worker gets to the head of its loop with an empty queue: what it does there.\<close>

definition rested :: "('b, 'x, 'w) exporter_ops \<Rightarrow> ('b, 'x, 'w) exporter_world \<Rightarrow> ('b, 'x, 'w) exporter_world \<Rightarrow> bool" where
  "rested ops w w' \<longleftrightarrow> worker_run ops w w' \<and> flush_done (xw_exp w') \<and> xw_shut w' = xw_shut w \<and> xw_accepted w' = xw_accepted w \<and>
     xw_pc w' = (if exp_shutdown (xw_exp w) then X_Leaving else X_Waiting)"

definition abandoned :: "('b, 'x, 'w) exporter_world \<Rightarrow> bool" where
  "abandoned w \<longleftrightarrow> xw_pc w = X_Exited \<and> exp_shutdown (xw_exp w) \<and> \<not> flush_done (xw_exp w) \<and>
     xw_shut w \<in> {S_Waiting, S_Joining TimedOut, S_Returned TimedOut}"

context exporter_worker
begin

lemma head_empty:
  "exp_queue (xw_exp v) = [] \<Longrightarrow> flush_done (xw_exp (drain_head ops v)) \<and> xw_shut (drain_head ops v) = xw_shut v \<and>
     xw_accepted (drain_head ops v) = xw_accepted v \<and> xw_pc (drain_head ops v) = (if exp_shutdown (xw_exp v) then X_Leaving else X_Waiting)"
  by (simp add: drain_head_def flush_done_def Let_def)

lemma head_rests:
  assumes "exporter_move ops w (drain_head ops v)" "xw_shut v = xw_shut w" "xw_accepted v = xw_accepted w"
    "exp_shutdown (xw_exp v) = exp_shutdown (xw_exp w)"
  shows "\<exists>w'. rested ops w w'"
proof (cases "exp_queue (xw_exp v) = []")
  case True
  then have "rested ops w (drain_head ops v)"
    using assms head_empty [OF True] by (simp add: rested_def)
  then show ?thesis ..
next
  case False
  let ?v = "drain_head ops v"
  have pc: "xw_pc ?v = X_Processing (exp_queue (xw_exp v))" and q: "exp_queue (xw_exp ?v) = []"
    and same: "xw_shut ?v = xw_shut w" "xw_accepted ?v = xw_accepted w" "exp_shutdown (xw_exp ?v) = exp_shutdown (xw_exp w)"
    using False assms by (simp_all add: drain_head_def taken_law Let_def)
  let ?p = "process_world ops 0 (exp_queue (xw_exp v)) ?v"
  have p: "xw_pc ?p = X_Relocking" "xw_exp ?p = xw_exp ?v" "xw_shut ?p = xw_shut w" "xw_accepted ?p = xw_accepted w"
    using same by (simp_all add: process_world_def split: prod.splits)
  define u where "u = ?p\<lparr>xw_sink := xo_publish ops (xw_exp ?p) (xw_sink ?p)\<rparr>"
  have "worker_run ops w (drain_head ops u)"
    using assms(1) xm_process [OF pc, of ops 0] xm_relock [OF p(1), of ops] unfolding u_def
    by (meson converse_rtranclp_into_rtranclp r_into_rtranclp)
  moreover have "exp_queue (xw_exp u) = []" "xw_shut u = xw_shut w" "xw_accepted u = xw_accepted w" "exp_shutdown (xw_exp u) = exp_shutdown (xw_exp w)"
    using p q same by (simp_all add: u_def)
  ultimately have "rested ops w (drain_head ops u)" using head_empty [of u] by (simp add: rested_def)
  then show ?thesis ..
qed

lemma worker_rests:
  assumes "exporter_inv w" "xw_pc w \<noteq> X_Leaving" "xw_pc w \<noteq> X_Exited"
    "\<not> flush_done (xw_exp w) \<or> exp_shutdown (xw_exp w)"
  shows "\<exists>w'. rested ops w w'"
proof (cases "xw_pc w")
  case X_Waiting
  then show ?thesis using assms(4) by (intro head_rests [of w w] xm_wake) auto
next
  case (X_Processing bs)
  let ?p = "process_world ops 0 bs w"
  have p: "xw_pc ?p = X_Relocking" "xw_exp ?p = xw_exp w" "xw_shut ?p = xw_shut w" "xw_accepted ?p = xw_accepted w"
    by (simp_all add: process_world_def split: prod.splits)
  obtain w' where "rested ops ?p w'" using head_rests [OF xm_relock [OF p(1)]] by auto
  moreover have "exporter_move ops w ?p" by (rule xm_process [OF X_Processing])
  ultimately have "rested ops w w'" using p by (auto simp: rested_def intro: converse_rtranclp_into_rtranclp)
  then show ?thesis ..
next
  case X_Relocking
  then show ?thesis using head_rests [OF xm_relock [OF X_Relocking]] by auto
qed (use assms in auto)

lemma worker_exits:
  assumes "exporter_inv w" "exp_shutdown (xw_exp w)"
  shows "\<exists>w'. worker_run ops w w' \<and> xw_pc w' = X_Exited \<and> xw_shut w' = xw_shut w"
proof -
  have leave: "\<exists>w'. worker_run ops v w' \<and> xw_pc w' = X_Exited \<and> xw_shut w' = xw_shut v" if "xw_pc v = X_Leaving" for v
    using xm_leave [OF that, of ops] by (intro exI [of _ "leave_world v"]) (auto simp: leave_world_def)
  show ?thesis
  proof (cases "xw_pc w = X_Leaving \<or> xw_pc w = X_Exited")
    case True
    then show ?thesis using leave [of w] by auto
  next
    case False
    then obtain v where v: "rested ops w v" using worker_rests assms by blast
    then have "xw_pc v = X_Leaving" using assms(2) by (simp add: rested_def)
    from leave [OF this] show ?thesis using v by (auto simp: rested_def intro: rtranclp_trans)
  qed
qed

lemma shutdown_returns:
  assumes "exporter_inv w" "xw_shut w \<noteq> S_Idle"
  shows "\<exists>w' status. exporter_reachable ops w w' \<and> xw_shut w' = S_Returned status"
proof -
  have "exp_shutdown (xw_exp w)" using assms by (simp add: exporter_inv_defs)
  from worker_exits [OF assms(1) this] obtain v where v: "exporter_reachable ops w v" "xw_pc v = X_Exited" "xw_shut v = xw_shut w"
    using worker_run_reachable by blast
  have join: "\<exists>w' status. exporter_reachable ops u w' \<and> xw_shut w' = S_Returned status"
    if "xw_shut u = S_Joining s" "xw_pc u = X_Exited" for u s
  proof -
    let ?u = "u\<lparr>xw_shut := S_Returned s\<rparr>"
    have "exporter_reachable ops u ?u" using that by (intro xr_step [OF xr_init] xs_joined)
    moreover have "xw_shut ?u = S_Returned s" by simp
    ultimately show ?thesis by blast
  qed
  have wait: "\<exists>w' status. exporter_reachable ops u w' \<and> xw_shut w' = S_Returned status" if u: "xw_shut u = S_Waiting" "xw_pc u = X_Exited" for u
  proof -
    obtain s u' where "exporter_step ops u u'" "xw_shut u' = S_Joining s" "xw_pc u' = X_Exited"
      using xs_completed [OF u(1)] xs_timed_out [OF u(1)] u(2) by (cases "flush_done (xw_exp u)") fastforce+
    then show ?thesis using join [of u' s] exporter_reachable_trans [OF _ xr_step [OF xr_init]] by blast
  qed
  have "\<exists>w' status. exporter_reachable ops v w' \<and> xw_shut w' = S_Returned status"
  proof (cases "xw_shut v")
    case S_Aborting
    let ?u = "v\<lparr>xw_env := xo_abort ops (xw_env v), xw_shut := S_Waiting\<rparr>"
    have "\<exists>w' status. exporter_reachable ops ?u w' \<and> xw_shut w' = S_Returned status" using v(2) by (intro wait) auto
    then show ?thesis using exporter_reachable_trans [OF _ xr_step [OF xr_init xs_abort [OF S_Aborting]]] by blast
  next
    case (S_Returned s)
    then show ?thesis using xr_init by blast
  qed (use assms v wait join in auto)
  then show ?thesis using v(1) exporter_reachable_trans by metis
qed

lemma fresh_shutdown_returns:
  assumes "exporter_reachable ops (exporter_init e d v) w \<and> xw_shut w \<noteq> S_Idle"
    and "exp_queue e = []" "exp_flush_seq e = 0" "exp_flush_done_seq e = 0" "\<not> exp_shutdown e"
  shows "\<exists>w' status. exporter_reachable ops w w' \<and> xw_shut w' = S_Returned status"
  using assms shutdown_returns [OF reachable_inv [OF _ fresh_inv]] by blast

text \<open>A worker that has exited acknowledges nothing any more.\<close>

lemma abandoned_step: "exporter_step ops w w' \<Longrightarrow> abandoned w \<Longrightarrow> abandoned w'"
proof (induction rule: exporter_step.induct)
  case (xs_export bs w)
  obtain taken e d where t: "enqueue_all ops bs (xw_exp w, xw_sink w) = (taken, e, d)" by (metis prod.exhaust)
  show ?case using enqueue_all_law [OF t] t xs_export by (simp add: abandoned_def hand_over_def flush_done_def)
next
  case (xs_worker w w')
  then show ?case by (auto simp: abandoned_def elim: exporter_move.cases)
qed (auto simp: abandoned_def request_flush_def request_shutdown_def flush_done_def)

lemma abandoned_forever: "exporter_reachable ops w w' \<Longrightarrow> abandoned w \<Longrightarrow> abandoned w'"
  by (induction rule: exporter_reachable.induct) (auto dest: abandoned_step)

lemma late_flush:
  assumes "exp_queue e = []" "exp_flush_seq e = 0" "exp_flush_done_seq e = 0" "\<not> exp_shutdown e"
  shows "\<exists>w. exporter_reachable ops (exporter_init e d v) w \<and> abandoned w \<and> xw_shut w = S_Waiting \<and> concat (xw_drains w) = xw_accepted w"
proof -
  let ?w0 = "exporter_init e d v"
  let ?w1 = "request_shutdown ?w0"
  let ?w2 = "drain_head ops ?w1"
  let ?w3 = "leave_world ?w2"
  let ?w4 = "request_flush ?w3"
  let ?w5 = "?w4\<lparr>xw_env := xo_abort ops (xw_env ?w4), xw_shut := S_Waiting\<rparr>"
  note defs = exporter_init_def request_shutdown_def request_flush_def drain_head_def leave_world_def flush_done_def Let_def
  have "exporter_move ops ?w1 ?w2" using assms by (intro xm_wake) (simp_all add: defs)
  moreover have "exporter_move ops ?w2 ?w3" using assms by (intro xm_leave) (simp add: defs)
  moreover have "exporter_step ops ?w4 ?w5" using assms by (intro xs_abort) (simp add: defs)
  ultimately have "exporter_reachable ops ?w0 ?w5"
    using xs_shutdown [of ops ?w0] xs_flush [of ops ?w3] by (meson xr_init xr_step xs_worker)
  moreover have "abandoned ?w5" "concat (xw_drains ?w5) = xw_accepted ?w5" using assms by (simp_all add: abandoned_def defs)
  moreover have "xw_shut ?w5 = S_Waiting" by simp
  ultimately show ?thesis by blast
qed

end

end
