(* ===== verification/Retry.thy ===== *)
theory Retry
  imports Complex_Main Diagnostics
begin

text \<open>
  The export retry engine (\<open>src/exporter/retry_engine.cpp\<close>) and its backoff policy
  (\<open>src/exporter/retry_policy.cpp\<close>). The world a batch is settled in is a type with the operations
  \<open>retry_env\<close>: the steady clock, the jitter draw, the interruptible sleep and the retry attempt the
  exporter supplies. The clock counts nanoseconds and the durations milliseconds, both in an
  \<open>std::int64_t\<close>: \<open>int64\<close> wraps what the source computes in that type. (A signed overflow is
  undefined in the language; the wrapped value is what two's complement arithmetic gives. No theorem
  promises anything about a wait whose end does not fit.)

  Doubles are rationals and every floating-point operation is followed by the rounding \<open>fl\<close>, a
  parameter; \<open>ieee_rounding\<close> states what is used of it: it is monotone and keeps 0. \<open>pow_fl\<close> is
  \<open>std::pow\<close>. The cast of the result to milliseconds truncates; \<open>cast_ub\<close> is what it yields for a
  double that does not fit, which the language leaves undefined.

  Proved here: the bounds of the backoff, that the loop retries only retryable failures, never
  more often than configured and never past the budget, and that every settled batch is counted
  exactly once.
\<close>

section \<open>Backoff\<close>

definition int64 :: "int \<Rightarrow> int" where
  "int64 x = signed_take_bit 63 x"

definition fits64 :: "int \<Rightarrow> bool" where
  "fits64 x \<longleftrightarrow> - (2 ^ 63) \<le> x \<and> x < 2 ^ 63"

lemma int64_fits [simp]: "fits64 x \<Longrightarrow> int64 x = x"
  by (simp add: int64_def fits64_def signed_take_bit_int_eq_self)

definition cast_int64 :: "(rat \<Rightarrow> int) \<Rightarrow> rat \<Rightarrow> int" where
  "cast_int64 cast_ub x = (if fits64 \<lfloor>x\<rfloor> then \<lfloor>x\<rfloor> else cast_ub x)"

record RetryPolicyConfig =
  max_attempts :: nat
  initial_backoff :: int
  max_backoff :: int
  backoff_multiplier :: rat
  jitter_fraction :: rat
  retry_budget :: int

definition ComputeBackoff ::
    "(rat \<Rightarrow> rat) \<Rightarrow> (rat \<Rightarrow> nat \<Rightarrow> rat) \<Rightarrow> (rat \<Rightarrow> int) \<Rightarrow> nat \<Rightarrow> RetryPolicyConfig \<Rightarrow> int option \<Rightarrow> rat \<Rightarrow> int" where
  "ComputeBackoff fl pow_fl cast_ub attempt config retry_after jitter_01 =
     (let initial_ms = fl (of_int (initial_backoff config));
          max_ms = fl (of_int (max_backoff config));
          scaled = fl (initial_ms * pow_fl (backoff_multiplier config) attempt);
          base_ms = min scaled max_ms;
          jitter = fl (fl (base_ms * jitter_fraction config) * fl (fl (2 * jitter_01) - 1));
          result_ms = max 0 (fl (base_ms + jitter));
          backoff = cast_int64 cast_ub result_ms
      in case retry_after of
           Some ra \<Rightarrow> if ra > backoff then ra else backoff
         | None \<Rightarrow> backoff)"

definition ieee_rounding :: "(rat \<Rightarrow> rat) \<Rightarrow> bool" where
  "ieee_rounding fl \<longleftrightarrow> mono fl \<and> fl 0 = 0"

section \<open>The engine\<close>

record WireResult =
  success :: bool
  retryable :: bool
  retry_after :: "int option"
  partial_success_rejected :: nat
  error :: "Error option"
  response_excerpt :: string

record 'w retry_env =
  env_now :: "'w \<Rightarrow> int"
  env_jitter :: "'w \<Rightarrow> rat \<times> 'w"
  env_sleep :: "int \<Rightarrow> 'w \<Rightarrow> bool \<times> 'w"
  env_retry :: "'w \<Rightarrow> WireResult \<times> 'w"
  env_fl :: "rat \<Rightarrow> rat"
  env_pow :: "rat \<Rightarrow> nat \<Rightarrow> rat"
  env_cast_ub :: "rat \<Rightarrow> int"

text \<open>A time point plus a duration: the duration is converted to nanoseconds, then added.\<close>

definition ns_of_ms :: "int \<Rightarrow> int" where
  "ns_of_ms ms = int64 (ms * 1000000)"

definition plus_ms :: "int \<Rightarrow> int \<Rightarrow> int" where
  "plus_ms now ms = int64 (now + ns_of_ms ms)"

text \<open>
  \<open>env_sleep\<close> reports whether the wait was aborted. The result says whether to go on and, as
  history, the sleep that was made: the clock reading before it and its length.
\<close>

definition BackOffBeforeRetry ::
    "'w retry_env \<Rightarrow> RetryPolicyConfig \<Rightarrow> WireResult \<Rightarrow> nat \<Rightarrow> int \<Rightarrow> 'w \<Rightarrow>
     (bool \<times> (int \<times> int) option) \<times> 'w" where
  "BackOffBeforeRetry env policy prev attempt budget_deadline w =
     (if success prev \<or> \<not> retryable prev then ((False, None), w)
      else
        let (jitter, w1) = env_jitter env w;
            backoff = ComputeBackoff (env_fl env) (env_pow env) (env_cast_ub env) (attempt - 1) policy
                        (retry_after prev) jitter
        in if plus_ms (env_now env w1) backoff \<ge> budget_deadline then ((False, None), w1)
           else
             let (aborted, w2) = env_sleep env backoff w1
             in ((\<not> aborted, Some (env_now env w1, backoff)), w2))"

text \<open>One retry, as history: the result before it, the sleep and its own result.\<close>

type_synonym retry_event = "WireResult \<times> (int \<times> int) option \<times> WireResult"

function retry_loop ::
    "'w retry_env \<Rightarrow> RetryPolicyConfig \<Rightarrow> nat \<Rightarrow> int \<Rightarrow> WireResult \<Rightarrow> WireResult option \<Rightarrow> nat \<Rightarrow> 'w \<Rightarrow>
     (WireResult option \<times> retry_event list) \<times> 'w" where
  "retry_loop env policy max_tries budget_deadline first_attempt latest attempt w =
     (if attempt < max_tries then
        let prev = (case latest of Some r \<Rightarrow> r | None \<Rightarrow> first_attempt);
            ((go_on, slept), w1) = BackOffBeforeRetry env policy prev attempt budget_deadline w
        in if \<not> go_on then ((latest, []), w1)
           else
             let (r, w2) = env_retry env w1;
                 ((final, events), w3) = retry_loop env policy max_tries budget_deadline first_attempt
                   (Some r) (attempt + 1) w2
             in ((final, (prev, slept, r) # events), w3)
      else ((latest, []), w))"
  by pat_completeness auto
termination
  by (relation "measure (\<lambda>(_, _, max_tries, _, _, _, attempt, _). max_tries - attempt)") auto

declare retry_loop.simps [simp del]

definition RunRetryLoop ::
    "'w retry_env \<Rightarrow> RetryPolicyConfig \<Rightarrow> WireResult \<Rightarrow> 'w \<Rightarrow>
     (WireResult option \<times> retry_event list) \<times> 'w" where
  "RunRetryLoop env policy first_attempt w =
     (let max_tries = (if max_attempts policy > 0 then max_attempts policy else 1);
          budget_deadline = plus_ms (env_now env w) (retry_budget policy)
      in retry_loop env policy max_tries budget_deadline first_attempt None 1 w)"

definition Resolve ::
    "'w retry_env \<Rightarrow> RetryPolicyConfig \<Rightarrow> WireResult \<Rightarrow> nat \<Rightarrow> DiagnosticsCounters option \<Rightarrow> 'w \<Rightarrow>
     WireResult \<times> DiagnosticsCounters option \<times> 'w" where
  "Resolve env policy first_attempt batches diag w =
     (if success first_attempt \<or> \<not> retryable first_attempt then (first_attempt, diag, w)
      else
        let ((retried, _), w1) = RunRetryLoop env policy first_attempt w
        in case retried of
             None \<Rightarrow> (first_attempt, diag, w1)
           | Some r \<Rightarrow>
               (r, if success r then count_drop RetryableFailureRecovered batches diag else diag, w1))"

fun times :: "nat \<Rightarrow> ('a \<Rightarrow> 'a) \<Rightarrow> 'a \<Rightarrow> 'a" where
  "times 0 f x = x"
| "times (Suc n) f x = times n f (f x)"

definition RecordOutcome ::
    "int \<Rightarrow> WireResult \<Rightarrow> string \<Rightarrow> nat \<Rightarrow> DiagnosticsCounters option \<Rightarrow> DiagnosticsCounters option" where
  "RecordOutcome now result failure_stage batches diag =
     (case diag of
        None \<Rightarrow> None
      | Some d \<Rightarrow>
          if success result then
            let d1 = (if partial_success_rejected result > 0
                      then RecordDrop PartialSuccessRejection (of_nat (partial_success_rejected result)) d
                      else d)
            in Some (times batches RecordBatchSent d1)
          else
            let d1 = RecordDrop (if retryable result then RetryBudgetExhausted else NonRetryableFailure)
                       (of_nat batches) d;
                err = (case error result of Some e \<Rightarrow> e
                       | None \<Rightarrow> \<lparr>err_kind = Kind_Network, err_message = failure_stage, err_os_errno = 0\<rparr>)
            in Some (times batches (RecordBatchFailed now err) d1))"

definition Settle ::
    "'w retry_env \<Rightarrow> RetryPolicyConfig \<Rightarrow> int \<Rightarrow> WireResult \<Rightarrow> string \<Rightarrow> nat \<Rightarrow>
     DiagnosticsCounters option \<Rightarrow> 'w \<Rightarrow> DiagnosticsCounters option \<times> 'w" where
  "Settle env policy now first_attempt failure_stage batches diag w =
     (let (result, diag1, w1) = Resolve env policy first_attempt batches diag w
      in (RecordOutcome now result failure_stage batches diag1, w1))"

section \<open>Bounds of the backoff\<close>

lemma jitter_bounds:
  assumes fl: "ieee_rounding fl" and j: "0 \<le> j" "j \<le> 1" and one: "fl 1 = 1" "fl 2 = 2" "fl (-1) = -1"
  shows "-1 \<le> fl (fl (2 * j) - 1)" "fl (fl (2 * j) - 1) \<le> 1"
proof -
  have m: "\<And>x y. x \<le> y \<Longrightarrow> fl x \<le> fl y" using fl by (auto simp: ieee_rounding_def mono_def)
  have z: "fl 0 = 0" using fl by (simp add: ieee_rounding_def)
  have "0 \<le> fl (2 * j)" using m [of 0 "2 * j"] j z by simp
  moreover have "fl (2 * j) \<le> 2" using m [of "2 * j" 2] j one by simp
  ultimately show "-1 \<le> fl (fl (2 * j) - 1)" "fl (fl (2 * j) - 1) \<le> 1"
    using m [of "-1" "fl (2 * j) - 1"] m [of "fl (2 * j) - 1" 1] one by simp_all
qed

text \<open>The ceiling with the largest jitter on it.\<close>

definition backoff_cap :: "(rat \<Rightarrow> rat) \<Rightarrow> RetryPolicyConfig \<Rightarrow> int" where
  "backoff_cap fl config =
     (let ceiling_ms = fl (of_int (max_backoff config))
      in \<lfloor>fl (ceiling_ms + fl (fl (ceiling_ms * jitter_fraction config)))\<rfloor>)"

text \<open>A policy whose durations and factors are not negative, and a power that is not either.\<close>

definition policy_ok :: "(rat \<Rightarrow> nat \<Rightarrow> rat) \<Rightarrow> RetryPolicyConfig \<Rightarrow> bool" where
  "policy_ok pow_fl config \<longleftrightarrow> 0 \<le> initial_backoff config \<and> 0 \<le> max_backoff config \<and>
     0 \<le> jitter_fraction config \<and> (\<forall>n. 0 \<le> pow_fl (backoff_multiplier config) n)"

text \<open>
  The bounds of the backoff. With monotone rounding that is exact on -1, 0, 1 and 2 and a ceiling
  that fits the type with its jitter, the computed wait is never negative and never below what the
  server asked for. It is capped, when the server asked for less, by the configured ceiling plus the
  jitter on that ceiling: the jitter is added after clamping, so a wait may exceed \<open>max_backoff\<close>
  itself.
\<close>

theorem backoff_bounds:
  assumes "ieee_rounding fl" "fl 1 = 1" "fl 2 = 2" "fl (-1) = -1" "policy_ok pow_fl config"
    "0 \<le> jitter_01" "jitter_01 \<le> 1" "backoff_cap fl config < 2 ^ 63"
  shows "0 \<le> ComputeBackoff fl pow_fl cast_ub attempt config ra jitter_01 \<and>
    (\<forall>r. ra = Some r \<longrightarrow> r \<le> ComputeBackoff fl pow_fl cast_ub attempt config ra jitter_01) \<and>
    ComputeBackoff fl pow_fl cast_ub attempt config ra jitter_01 \<le>
      (case ra of None \<Rightarrow> backoff_cap fl config | Some r \<Rightarrow> max r (backoff_cap fl config))"
proof -
  have m: "\<And>x y. x \<le> y \<Longrightarrow> fl x \<le> fl y" and z: "fl 0 = 0"
    using assms(1) by (auto simp: ieee_rounding_def mono_def)
  have nn: "\<And>x. 0 \<le> x \<Longrightarrow> 0 \<le> fl x" using m z by metis
  define M where "M = fl (of_int (max_backoff config))"
  define base where "base = min (fl (fl (of_int (initial_backoff config)) *
    pow_fl (backoff_multiplier config) attempt)) M"
  define u where "u = fl (fl (2 * jitter_01) - 1)"
  define jf where "jf = jitter_fraction config"
  note ok = assms(5) [unfolded policy_ok_def]
  have base: "0 \<le> base" "base \<le> M" using ok nn by (auto simp: base_def M_def)
  have u: "-1 \<le> u" "u \<le> 1" using jitter_bounds [OF assms(1,6,7,2,3,4)] by (simp_all add: u_def)
  have jf: "0 \<le> jf" using ok by (simp add: jf_def)
  have "fl (base * jf) \<le> fl (M * jf)" using base jf by (intro m mult_right_mono) auto
  moreover have "0 \<le> fl (base * jf)" using base jf by (intro nn) simp
  ultimately have "fl (base * jf) * u \<le> fl (M * jf)"
    using u(2) by (metis mult.right_neutral mult_left_mono order_trans)
  then have cap: "fl (base + fl (fl (base * jf) * u)) \<le> fl (M + fl (fl (M * jf)))"
    using base by (intro m add_mono) auto
  have "0 \<le> fl (M + fl (fl (M * jf)))" using base jf nn by (meson add_nonneg_nonneg mult_nonneg_nonneg order_trans)
  with cap have le: "\<lfloor>max 0 (fl (base + fl (fl (base * jf) * u)))\<rfloor> \<le> backoff_cap fl config"
    unfolding backoff_cap_def Let_def M_def [symmetric] jf_def [symmetric] by (intro floor_mono) simp
  define B where "B = \<lfloor>max 0 (fl (base + fl (fl (base * jf) * u)))\<rfloor>"
  have B: "0 \<le> B" "B \<le> backoff_cap fl config" using le by (simp_all add: B_def)
  have "fits64 B" using B assms(8) unfolding fits64_def by linarith
  then have "cast_int64 cast_ub (max 0 (fl (base + fl (fl (base * jf) * u)))) = B"
    unfolding cast_int64_def B_def [symmetric] by (rule if_P)
  then have "ComputeBackoff fl pow_fl cast_ub attempt config ra jitter_01 =
      (case ra of Some r \<Rightarrow> if r > B then r else B | None \<Rightarrow> B)"
    unfolding ComputeBackoff_def Let_def base_def M_def u_def jf_def by (simp only:)
  with B show ?thesis by (auto simp: le_max_iff_disj split: option.splits)
qed

definition RetryPolicyConfig_default :: RetryPolicyConfig where
  "RetryPolicyConfig_default =
     \<lparr>max_attempts = 5, initial_backoff = 1000, max_backoff = 32000, backoff_multiplier = 3 / 2,
      jitter_fraction = 1 / 5, retry_budget = 300000\<rparr>"

theorem backoff_bounds_witness:
  "ComputeBackoff (\<lambda>x. x) (^) (\<lambda>x. 0) 20 RetryPolicyConfig_default None 1 = 38400 \<and>
   ComputeBackoff (\<lambda>x. x) (^) (\<lambda>x. 0) 20 RetryPolicyConfig_default None 1 \<le> \<lfloor>32000 + 32000 * (1 / 5 :: rat)\<rfloor>"
proof -
  have "ieee_rounding (\<lambda>x. x)" by (simp add: ieee_rounding_def mono_def)
  moreover have "policy_ok (^) RetryPolicyConfig_default"
    by (simp add: policy_ok_def RetryPolicyConfig_default_def)
  moreover have cap: "backoff_cap (\<lambda>x. x) RetryPolicyConfig_default = 38400"
    by (simp add: backoff_cap_def RetryPolicyConfig_default_def)
  ultimately have "ComputeBackoff (\<lambda>x. x) (^) (\<lambda>x. 0) 20 RetryPolicyConfig_default None 1 \<le> 38400"
    using backoff_bounds [of "\<lambda>x. x" "(^)" RetryPolicyConfig_default 1 "\<lambda>x. 0" 20 None] by simp
  moreover have "ComputeBackoff (\<lambda>x. x) (^) (\<lambda>x. 0) 20 RetryPolicyConfig_default None 1 = 38400"
    by (simp add: ComputeBackoff_def RetryPolicyConfig_default_def Let_def power_divide cast_int64_def fits64_def)
  ultimately show ?thesis by simp
qed

section \<open>The retry loop\<close>

text \<open>
  A retry that was in order. The last clause is about the exact end of the sleep and the exact end of
  the budget, which began at \<open>start\<close>: it holds where both fit the type they are computed in.
\<close>

definition event_ok :: "RetryPolicyConfig \<Rightarrow> int \<Rightarrow> retry_event \<Rightarrow> bool" where
  "event_ok policy start e \<longleftrightarrow>
     (case e of (prev, slept, r) \<Rightarrow> \<not> success prev \<and> retryable prev \<and>
        (\<exists>now backoff. slept = Some (now, backoff) \<and>
           (\<forall>ra. retry_after prev = Some ra \<longrightarrow> ra \<le> backoff) \<and>
           (fits64 (retry_budget policy * 1000000) \<and> fits64 (start + retry_budget policy * 1000000) \<and>
            fits64 (backoff * 1000000) \<and> fits64 (now + backoff * 1000000) \<longrightarrow>
            now + backoff * 1000000 < start + retry_budget policy * 1000000)))"

definition final_result :: "WireResult option \<Rightarrow> retry_event list \<Rightarrow> WireResult option" where
  "final_result latest events = (if events = [] then latest else Some (snd (snd (last events))))"

lemma ComputeBackoff_after: "ra = Some r \<Longrightarrow> r \<le> ComputeBackoff fl pow_fl cast_ub attempt config ra jitter"
  by (simp add: ComputeBackoff_def Let_def)

lemma BackOff_event:
  assumes "BackOffBeforeRetry env policy prev attempt deadline w = ((True, slept), w')"
    "deadline = plus_ms start (retry_budget policy)"
  shows "event_ok policy start (prev, slept, r)"
  using assms
  by (auto simp: BackOffBeforeRetry_def event_ok_def Let_def plus_ms_def ns_of_ms_def ComputeBackoff_after
      split: if_splits prod.splits)

lemma retry_loop_facts:
  "retry_loop env policy max_tries deadline first latest attempt w = ((final, events), w') \<Longrightarrow>
   deadline = plus_ms start (retry_budget policy) \<Longrightarrow>
   length events \<le> max_tries - attempt \<and> (\<forall>e \<in> set events. event_ok policy start e) \<and>
   final = final_result latest events \<and>
   map fst events = take (length events)
     ((case latest of Some r \<Rightarrow> r | None \<Rightarrow> first) # map (snd \<circ> snd) events)"
proof (induction "max_tries - attempt" arbitrary: latest attempt w events final w' rule: less_induct)
  case less
  let ?prev = "case latest of Some r \<Rightarrow> r | None \<Rightarrow> first"
  obtain go_on slept w1 where
    b: "BackOffBeforeRetry env policy ?prev attempt deadline w = ((go_on, slept), w1)"
    by (metis surj_pair)
  show ?case
  proof (cases "attempt < max_tries \<and> go_on")
    case True
    obtain r w2 where r: "env_retry env w1 = (r, w2)" by fastforce
    obtain fin ev w3 where
      rest: "retry_loop env policy max_tries deadline first (Some r) (attempt + 1) w2 = ((fin, ev), w3)"
      by (metis surj_pair)
    have eq: "final = fin" "events = (?prev, slept, r) # ev"
      using less.prems(1) True b r rest by (subst (asm) retry_loop.simps; simp)+
    have "max_tries - (attempt + 1) < max_tries - attempt" using True by auto
    from less.hyps [OF this rest less.prems(2)] have ih: "length ev \<le> max_tries - (attempt + 1)" "\<forall>e \<in> set ev. event_ok policy start e"
      "fin = final_result (Some r) ev" "map fst ev = take (length ev) (r # map (snd \<circ> snd) ev)"
      by simp_all
    moreover have "event_ok policy start (?prev, slept, r)" using BackOff_event [OF _ less.prems(2)] b True by metis
    ultimately show ?thesis using True eq by (auto simp: final_result_def)
  next
    case False
    then have "events = [] \<and> final = latest"
      using less.prems(1) b by (subst (asm) retry_loop.simps) (auto split: if_splits)
    then show ?thesis by (simp add: final_result_def)
  qed
qed

text \<open>
  C14: the retry loop is bounded. It makes at most \<open>max_attempts - 1\<close> retries; each one follows a
  failure the codec marked retryable, namely the result just before it (the first attempt for the
  first), after a sleep that is not shorter than the delay the server asked for and that ends before
  the retry budget does, provided both ends fit the 64-bit nanoseconds they are computed in (a delay
  so long that they do not is outside this guarantee); and its outcome is the last attempt's.
\<close>

theorem retry_loop_bounded:
  assumes "RunRetryLoop env policy first w = ((final, events), w')"
  shows "length events \<le> max_attempts policy - 1 \<and>
    (\<forall>e \<in> set events. event_ok policy (env_now env w) e) \<and>
    final = final_result None events \<and>
    map fst events = take (length events) (first # map (snd \<circ> snd) events)"
proof -
  from retry_loop_facts [OF assms [unfolded RunRetryLoop_def Let_def] refl]
  show ?thesis by (auto split: if_splits)
qed

text \<open>A world that always fails in a retryable way, on a clock that stands still.\<close>

definition failing_env :: "nat retry_env" where
  "failing_env =
     \<lparr>env_now = (\<lambda>_. 0), env_jitter = (\<lambda>w. (1 / 2, w)), env_sleep = (\<lambda>_ w. (False, w)),
      env_retry = (\<lambda>w. (\<lparr>success = False, retryable = True, retry_after = None,
                         partial_success_rejected = 0, error = None,
                         response_excerpt = []\<rparr>, Suc w)),
      env_fl = (\<lambda>x. x), env_pow = (^), env_cast_ub = (\<lambda>_. 0)\<rparr>"

theorem retry_loop_bounded_witness:
  "case RunRetryLoop failing_env RetryPolicyConfig_default (fst (env_retry failing_env 0)) 0 of
     ((final, events), w') \<Rightarrow> length events \<le> 4"
proof -
  obtain final events w' where
    r: "RunRetryLoop failing_env RetryPolicyConfig_default (fst (env_retry failing_env 0)) 0 =
      ((final, events), w')" by (metis surj_pair)
  from retry_loop_bounded [OF r] have "length events \<le> 4" by (simp add: RetryPolicyConfig_default_def)
  then show ?thesis by (simp add: r)
qed

text \<open>
  Why the range matters. The budget check adds the delay to the clock in 64 bits. A delay of ten
  billion seconds, which \<open>RetryInfo\<close> can carry, is refused by no one: its nanoseconds wrap to a negative
  number, the check passes for any budget that ends after the clock's zero, and the engine sleeps.
\<close>

theorem huge_delay_passes_budget:
  assumes "\<not> success prev" "retryable prev" "retry_after prev = Some 10000000000000"
    "env_jitter env w = (jitter, w1)" "0 \<le> env_now env w1" "env_now env w1 < 2 ^ 60" "0 \<le> budget_deadline"
    "ComputeBackoff (env_fl env) (env_pow env) (env_cast_ub env) (attempt - 1) policy None jitter < 10000000000000"
    "env_sleep env 10000000000000 w1 = (False, w2)"
  shows "BackOffBeforeRetry env policy prev attempt budget_deadline w =
    ((True, Some (env_now env w1, 10000000000000)), w2)"
proof -
  have b: "ComputeBackoff (env_fl env) (env_pow env) (env_cast_ub env) (attempt - 1) policy (Some 10000000000000) jitter = 10000000000000"
    using assms(8) by (simp add: ComputeBackoff_def Let_def)
  have "ns_of_ms 10000000000000 = - 8446744073709551616"
    by (simp add: ns_of_ms_def int64_def signed_take_bit_eq_take_bit_shift take_bit_eq_mod)
  then have "plus_ms (env_now env w1) 10000000000000 = env_now env w1 - 8446744073709551616"
    using assms(5,6) by (simp add: plus_ms_def fits64_def)
  then show ?thesis using assms b by (simp add: BackOffBeforeRetry_def)
qed

theorem huge_delay_passes_budget_witness:
  "BackOffBeforeRetry failing_env RetryPolicyConfig_default
     (fst (env_retry failing_env 0)\<lparr>retry_after := Some 10000000000000\<rparr>) 1 300000000000 0 =
   ((True, Some (0, 10000000000000)), 0)"
proof -
  have "ComputeBackoff (env_fl failing_env) (env_pow failing_env) (env_cast_ub failing_env) (1 - 1)
      RetryPolicyConfig_default None (1 / 2) < 10000000000000"
    by (simp add: failing_env_def ComputeBackoff_def RetryPolicyConfig_default_def cast_int64_def fits64_def)
  from huge_delay_passes_budget [OF _ _ _ _ _ _ _ this, of "fst (env_retry failing_env 0)\<lparr>retry_after := Some 10000000000000\<rparr>"
      0 0 300000000000 0]
  show ?thesis by (simp add: failing_env_def)
qed

section \<open>Accounting\<close>

lemma times_sent:
  "m_counters (times n RecordBatchSent d) = m_counters d"
  "m_batches_sent (times n RecordBatchSent d) = m_batches_sent d + of_nat n"
  "m_batches_failed (times n RecordBatchSent d) = m_batches_failed d"
  by (induction n arbitrary: d) (simp_all add: RecordBatchSent_def)

lemma times_failed:
  "m_counters (times n (RecordBatchFailed now e) d) = m_counters d"
  "m_batches_sent (times n (RecordBatchFailed now e) d) = m_batches_sent d"
  "m_batches_failed (times n (RecordBatchFailed now e) d) = m_batches_failed d + of_nat n"
  by (induction n arbitrary: d) (simp_all add: RecordBatchFailed_def)

text \<open>
  Every settled batch is counted once. With a sink, settling \<open>batches\<close> batches adds exactly
  that number to the sent or to the failed count, never to both: to the sent count when the final
  result is a success, and then a success reached by retrying is also counted as recovered and a
  partial rejection with the number the collector refused; otherwise to the failed count and to
  the one drop reason that says whether the failure was retryable. No other counter moves.
\<close>

theorem settle_accounting:
  "let (result, _, w1) = Resolve env policy first batches (Some d) w;
       retried = (\<not> success first \<and> retryable first);
       d' = the (fst (Settle env policy now first stage batches (Some d) w))
   in snd (Settle env policy now first stage batches (Some d) w) = w1 \<and>
      m_batches_sent d' = m_batches_sent d + (if success result then of_nat batches else 0) \<and>
      m_batches_failed d' = m_batches_failed d + (if success result then 0 else of_nat batches) \<and>
      (\<forall>reason. m_counters d' reason = m_counters d reason +
         (if success result then
            (if reason = RetryableFailureRecovered \<and> retried then of_nat batches else 0) +
            (if reason = PartialSuccessRejection then of_nat (partial_success_rejected result) else 0)
          else if reason = (if retryable result then RetryBudgetExhausted else NonRetryableFailure)
               then of_nat batches else 0))"
proof -
  obtain result diag1 w1 where r: "Resolve env policy first batches (Some d) w = (result, diag1, w1)"
    by (metis surj_pair)
  have diag1: "diag1 = (if success result \<and> \<not> success first \<and> retryable first
      then count_drop RetryableFailureRecovered batches (Some d) else Some d)"
    using r by (auto simp: Resolve_def Let_def split: if_splits option.splits prod.splits)
  show ?thesis
    unfolding Settle_def r Let_def
    by (auto simp: diag1 RecordOutcome_def count_drop_def RecordDrop_def Let_def times_sent
        times_failed split: if_splits)
qed

end
