(* ===== verification/Proto_Wire.thy ===== *)
theory Proto_Wire
  imports Microtel_Prelude
begin

unbundle bit_operations_syntax

text \<open>
  The reader of the protobuf wire format and the parser of Export responses (\<open>src/wire/otlp_response.cpp\<close>;
  \<open>src/wire/grpc/grpc_wire_codec.cpp\<close> has its own copy of \<open>ReadVarint\<close>, \<open>ReadLenDelim\<close> and \<open>SkipField\<close>).
  A buffer that a function advances is returned beside its result; \<open>std::uint64_t\<close> values are words.

  The specification is a grammar: a message is a sequence of fields, a field a tag and a payload, a varint
  one to ten bytes of which all but the last have the high bit. Proved here: the reader reads exactly the
  grammar, the grammar is unambiguous, and the parser of responses accepts exactly the bodies that are
  messages, and reports the last rejected count of the last partial success, capped.
\<close>

section \<open>Reading\<close>

type_synonym bytes = "u8 list"

fun ReadVarint_loop :: "u64 \<Rightarrow> nat \<Rightarrow> bytes \<Rightarrow> u64 option \<times> bytes" where
  "ReadVarint_loop result shift [] = (None, [])"
| "ReadVarint_loop result shift (b # buf) =
     (let result' = result OR push_bit shift (ucast (b AND 0x7F))
      in if b AND 0x80 = 0 then (Some result', buf)
         else if shift + 7 \<ge> 64 then (None, buf)
         else ReadVarint_loop result' (shift + 7) buf)"

definition ReadVarint :: "bytes \<Rightarrow> u64 option \<times> bytes" where
  "ReadVarint buf = ReadVarint_loop 0 0 buf"

definition ReadLenDelim :: "bytes \<Rightarrow> bytes option \<times> bytes" where
  "ReadLenDelim buf =
     (case ReadVarint buf of
        (None, buf1) \<Rightarrow> (None, buf1)
      | (Some len, buf1) \<Rightarrow>
          if unat len > length buf1 then (None, buf1)
          else (Some (take (unat len) buf1), drop (unat len) buf1))"

record Tag =
  tag_field :: u32
  tag_wire_type :: u32

definition kMaxFieldNumber :: u64 where "kMaxFieldNumber = 2 ^ 29 - 1"

definition ReadTag :: "bytes \<Rightarrow> Tag option \<times> bytes" where
  "ReadTag buf =
     (case ReadVarint buf of
        (None, buf1) \<Rightarrow> (None, buf1)
      | (Some raw, buf1) \<Rightarrow>
          let field = drop_bit 3 raw
          in if field = 0 \<or> field > kMaxFieldNumber then (None, buf1)
             else (Some \<lparr>tag_field = ucast field, tag_wire_type = ucast (raw AND 7)\<rparr>, buf1))"

definition SkipField :: "bytes \<Rightarrow> u32 \<Rightarrow> bool \<times> bytes" where
  "SkipField buf wire_type =
     (if wire_type = 0 then (case ReadVarint buf of (v, buf1) \<Rightarrow> (v \<noteq> None, buf1))
      else if wire_type = 2 then (case ReadLenDelim buf of (v, buf1) \<Rightarrow> (v \<noteq> None, buf1))
      else if wire_type = 1 then (if length buf < 8 then (False, buf) else (True, drop 8 buf))
      else if wire_type = 5 then (if length buf < 4 then (False, buf) else (True, drop 4 buf))
      else (False, buf))"

lemma ReadVarint_loop_shorter: "ReadVarint_loop r s buf = (v, buf1) \<Longrightarrow> buf \<noteq> [] \<Longrightarrow> length buf1 < length buf"
proof (induction r s buf rule: ReadVarint_loop.induct)
  case (2 result shift b buf)
  then show ?case by (cases "buf = []") (auto simp: Let_def split: if_splits)
qed simp

lemma ReadVarint_shorter: "ReadVarint buf = (v, buf1) \<Longrightarrow> buf \<noteq> [] \<Longrightarrow> length buf1 < length buf"
  unfolding ReadVarint_def by (rule ReadVarint_loop_shorter)

lemma ReadVarint_empty [simp]: "ReadVarint [] = (None, [])"
  by (simp add: ReadVarint_def)

lemma ReadVarint_le: "ReadVarint buf = (v, buf1) \<Longrightarrow> length buf1 \<le> length buf"
  using ReadVarint_shorter [of buf v buf1] by (cases "buf = []") auto

lemma ReadLenDelim_le: "ReadLenDelim buf = (v, buf1) \<Longrightarrow> length buf1 \<le> length buf"
  unfolding ReadLenDelim_def by (auto split: prod.splits option.splits if_splits dest!: ReadVarint_le)

lemma ReadTag_shorter: "ReadTag buf = (t, buf1) \<Longrightarrow> buf \<noteq> [] \<Longrightarrow> length buf1 < length buf"
  unfolding ReadTag_def by (auto simp: Let_def split: prod.splits option.splits if_splits dest!: ReadVarint_shorter)

lemma SkipField_le: "SkipField buf wt = (ok, buf1) \<Longrightarrow> length buf1 \<le> length buf"
  unfolding SkipField_def by (auto split: prod.splits if_splits dest!: ReadVarint_le ReadLenDelim_le)

lemmas reader_shorter = ReadVarint_shorter ReadVarint_le ReadLenDelim_le ReadTag_shorter SkipField_le

section \<open>The response\<close>

datatype PartialSuccessOutcome = Absent | Parsed | Unparseable

record PartialSuccessResult =
  outcome :: PartialSuccessOutcome
  rejected :: u32

definition kMaxRejected :: u64 where "kMaxRejected = 0xFFFFFFFF"

definition ReadRejected :: "bytes \<Rightarrow> u32 \<Rightarrow> bool \<times> bytes \<times> u32" where
  "ReadRejected data rej =
     (case ReadVarint data of
        (None, data1) \<Rightarrow> (False, data1, rej)
      | (Some v, data1) \<Rightarrow> (True, data1, ucast (min v kMaxRejected)))"

lemma ReadRejected_le: "ReadRejected data rej = (ok, data1, rej1) \<Longrightarrow> length data1 \<le> length data"
  unfolding ReadRejected_def by (auto split: prod.splits option.splits dest!: ReadVarint_le)

function ParsePartialSuccess :: "bytes \<Rightarrow> u32 \<Rightarrow> bool \<times> u32" where
  "ParsePartialSuccess data rej =
     (if data = [] then (True, rej)
      else
        case ReadTag data of
          (None, data1) \<Rightarrow> (False, rej)
        | (Some tag, data1) \<Rightarrow>
            let (ok, data2, rej2) =
              (if tag_field tag = 1 \<and> tag_wire_type tag = 0 then ReadRejected data1 rej
               else case SkipField data1 (tag_wire_type tag) of (ok, data2) \<Rightarrow> (ok, data2, rej))
            in if ok then ParsePartialSuccess data2 rej2 else (False, rej2))"
  by pat_completeness auto
termination
  by (relation "measure (\<lambda>(data, rej). length data)")
    (auto split: if_splits prod.splits dest!: ReadTag_shorter [OF sym] ReadRejected_le [OF sym] SkipField_le [OF sym] SkipField_le)

declare ParsePartialSuccess.simps [simp del]

definition kUnparseable :: PartialSuccessResult where
  "kUnparseable = \<lparr>outcome = Unparseable, rejected = 0\<rparr>"

definition ExtractPartialSuccess :: "bytes \<Rightarrow> PartialSuccessResult \<Rightarrow> bool \<times> bytes \<times> PartialSuccessResult" where
  "ExtractPartialSuccess data result =
     (case ReadLenDelim data of
        (None, data1) \<Rightarrow> (False, data1, result)
      | (Some inner, data1) \<Rightarrow>
          (case ParsePartialSuccess inner (rejected result) of
             (ok, rej) \<Rightarrow>
               if ok then (True, data1, \<lparr>outcome = Parsed, rejected = rej\<rparr>)
               else (False, data1, result\<lparr>rejected := rej\<rparr>)))"

lemma ExtractPartialSuccess_le: "ExtractPartialSuccess data r = (ok, data1, r1) \<Longrightarrow> length data1 \<le> length data"
  unfolding ExtractPartialSuccess_def by (auto split: prod.splits option.splits if_splits dest!: ReadLenDelim_le)

function ParseResponse_loop :: "bytes \<Rightarrow> PartialSuccessResult \<Rightarrow> PartialSuccessResult" where
  "ParseResponse_loop data result =
     (if data = [] then result
      else
        case ReadTag data of
          (None, data1) \<Rightarrow> kUnparseable
        | (Some tag, data1) \<Rightarrow>
            let (ok, data2, result2) =
              (if tag_field tag = 1 \<and> tag_wire_type tag = 2 then ExtractPartialSuccess data1 result
               else case SkipField data1 (tag_wire_type tag) of (ok, data2) \<Rightarrow> (ok, data2, result))
            in if ok then ParseResponse_loop data2 result2 else kUnparseable)"
  by pat_completeness auto
termination
  by (relation "measure (\<lambda>(data, result). length data)")
    (auto split: if_splits prod.splits dest!: ReadTag_shorter [OF sym] ExtractPartialSuccess_le [OF sym] SkipField_le [OF sym] SkipField_le)

declare ParseResponse_loop.simps [simp del]

definition ParseResponse :: "bytes \<Rightarrow> PartialSuccessResult" where
  "ParseResponse data = ParseResponse_loop data \<lparr>outcome = Absent, rejected = 0\<rparr>"

definition ParseRejectedSpans :: "bytes \<Rightarrow> PartialSuccessResult" where
  "ParseRejectedSpans body = (if body = [] then \<lparr>outcome = Absent, rejected = 0\<rparr> else ParseResponse body)"

section \<open>The grammar\<close>

fun varint_value :: "bytes \<Rightarrow> nat" where
  "varint_value [] = 0"
| "varint_value (b # bs) = unat (b AND 0x7F) + 128 * varint_value bs"

text \<open>Of a varint of ten bytes the bits from 64 on are lost.\<close>

definition is_varint :: "bytes \<Rightarrow> u64 \<Rightarrow> bool" where
  "is_varint bs v \<longleftrightarrow> bs \<noteq> [] \<and> length bs \<le> 10 \<and> (\<forall>b \<in> set (butlast bs). b AND 0x80 \<noteq> 0) \<and> last bs AND 0x80 = 0 \<and>
     v = of_nat (varint_value bs)"

datatype wire_value = Varint u64 | Fixed64 bytes | LenDelim bytes | Fixed32 bytes

fun wire_type_of :: "wire_value \<Rightarrow> nat" where
  "wire_type_of (Varint _) = 0"
| "wire_type_of (Fixed64 _) = 1"
| "wire_type_of (LenDelim _) = 2"
| "wire_type_of (Fixed32 _) = 5"

fun is_payload :: "wire_value \<Rightarrow> bytes \<Rightarrow> bool" where
  "is_payload (Varint v) bs \<longleftrightarrow> is_varint bs v"
| "is_payload (Fixed64 xs) bs \<longleftrightarrow> bs = xs \<and> length xs = 8"
| "is_payload (LenDelim xs) bs \<longleftrightarrow> (\<exists>l n. bs = l @ xs \<and> is_varint l n \<and> unat n = length xs)"
| "is_payload (Fixed32 xs) bs \<longleftrightarrow> bs = xs \<and> length xs = 4"

type_synonym field = "nat \<times> wire_value"

definition is_field :: "field \<Rightarrow> bytes \<Rightarrow> bool" where
  "is_field f bs \<longleftrightarrow> (case f of (n, v) \<Rightarrow> 0 < n \<and> n < 2 ^ 29 \<and>
     (\<exists>t p. bs = t @ p \<and> is_varint t (of_nat (n * 8 + wire_type_of v)) \<and> is_payload v p))"

lemma is_fieldI:
  "0 < n \<Longrightarrow> n < 2 ^ 29 \<Longrightarrow> is_varint t (of_nat (n * 8 + wire_type_of v)) \<Longrightarrow> is_payload v p \<Longrightarrow> is_field (n, v) (t @ p)"
  by (auto simp: is_field_def)

inductive is_message :: "field list \<Rightarrow> bytes \<Rightarrow> bool" where
  message_nil: "is_message [] []"
| message_cons: "is_field f bs \<Longrightarrow> is_message fs rest \<Longrightarrow> is_message (f # fs) (bs @ rest)"


section \<open>The reader reads the grammar\<close>

fun terminated :: "bytes \<Rightarrow> bool" where
  "terminated [] = False"
| "terminated (b # bs) = (if bs = [] then b AND 0x80 = 0 else b AND 0x80 \<noteq> 0 \<and> terminated bs)"

lemma is_varint_terminated: "is_varint bs v \<longleftrightarrow> terminated bs \<and> length bs \<le> 10 \<and> v = of_nat (varint_value bs)"
proof -
  have "terminated bs \<longleftrightarrow> bs \<noteq> [] \<and> (\<forall>b \<in> set (butlast bs). b AND 0x80 \<noteq> 0) \<and> last bs AND 0x80 = 0"
    by (induction bs) auto
  then show ?thesis by (auto simp: is_varint_def)
qed

lemma add_digit: "of_nat (unat (b AND 0x7F) + 128 * n) = (ucast (b AND 0x7F) OR push_bit 7 (of_nat n) :: u64)" for b :: u8
proof -
  have "(0x7F :: u8) = mask 7" by (simp add: mask_eq_exp_minus_1)
  then have low: "b AND 0x7F = take_bit 7 b" by (simp add: take_bit_eq_mask)
  have "(ucast (b AND 0x7F) :: u64) + push_bit 7 (of_nat n) = ucast (b AND 0x7F) OR push_bit 7 (of_nat n)"
    by (rule disjunctive_add) (auto simp: low bit_simps)
  then show ?thesis by (simp add: push_bit_eq_mult mult.commute)
qed

lemma shift_digit:
  "push_bit s (of_nat (unat (b AND 0x7F) + 128 * n)) =
   (push_bit s (ucast (b AND 0x7F)) OR push_bit (s + 7) (of_nat n) :: u64)" for b :: u8
  unfolding add_digit by (simp add: push_bit_or push_bit_push_bit)

lemma ReadVarint_loop_iff:
  assumes "n < 10"
  shows "ReadVarint_loop r (7 * n) buf = (Some v, rest) \<longleftrightarrow>
    (\<exists>bs. buf = bs @ rest \<and> terminated bs \<and> length bs + n \<le> 10 \<and> v = r OR push_bit (7 * n) (of_nat (varint_value bs)))"
  using assms
proof (induction buf arbitrary: r n)
  case (Cons b buf)
  let ?r = "r OR push_bit (7 * n) (ucast (b AND 0x7F))"
  let ?P = "\<lambda>bs. b # buf = bs @ rest \<and> terminated bs \<and> length bs + n \<le> 10 \<and> v = r OR push_bit (7 * n) (of_nat (varint_value bs))"
  have one: "push_bit (7 * n) (of_nat (varint_value [b])) = (push_bit (7 * n) (ucast (b AND 0x7F)) :: u64)"
    using shift_digit [of "7 * n" b 0] by simp
  have split: "(\<exists>bs. ?P bs) \<longleftrightarrow> ?P [b] \<or> (\<exists>bs. bs \<noteq> [] \<and> ?P (b # bs))"
  proof -
    have "bs = [b] \<or> (\<exists>cs. cs \<noteq> [] \<and> bs = b # cs)" if "?P bs" for bs using that by (cases bs) auto
    then show ?thesis by blast
  qed
  show ?case
  proof (cases "b AND 0x80 = 0")
    case True
    then show ?thesis using one Cons.prems unfolding split by auto
  next
    case high: False
    show ?thesis
    proof (cases "n = 9")
      case True
      then show ?thesis using high unfolding split by (auto simp: Suc_le_eq)
    next
      case False
      then have small: "Suc n < 10" "\<not> 7 * n + 7 \<ge> 64" using Cons.prems by auto
      have step: "r OR push_bit (7 * n) (of_nat (varint_value (b # bs))) = ?r OR push_bit (7 * Suc n) (of_nat (varint_value bs))" for bs
        using shift_digit [of "7 * n" b "varint_value bs"] by (simp add: or.assoc add.commute)
      have "ReadVarint_loop r (7 * n) (b # buf) = ReadVarint_loop ?r (7 * Suc n) buf" using high small by (simp add: add.commute)
      also have "\<dots> = (Some v, rest) \<longleftrightarrow> (\<exists>bs. bs \<noteq> [] \<and> ?P (b # bs))"
        unfolding Cons.IH [OF small(1)] step by (intro ex_cong1) (use high in \<open>auto simp del: varint_value.simps\<close>)
      finally show ?thesis using high unfolding split by auto
    qed
  qed
qed simp

lemma ReadVarint_iff: "ReadVarint buf = (Some v, rest) \<longleftrightarrow> (\<exists>bs. buf = bs @ rest \<and> is_varint bs v)"
  using ReadVarint_loop_iff [of 0 0 buf v rest] by (simp add: ReadVarint_def is_varint_terminated)

lemma ReadVarint_append: "is_varint bs v \<Longrightarrow> ReadVarint (bs @ rest) = (Some v, rest)"
  by (auto simp: ReadVarint_iff)

lemma ReadLenDelim_iff:
  "ReadLenDelim buf = (Some xs, rest) \<longleftrightarrow> (\<exists>bs. buf = bs @ rest \<and> is_payload (LenDelim xs) bs)"
proof
  assume "ReadLenDelim buf = (Some xs, rest)"
  then obtain n buf1 where r: "ReadVarint buf = (Some n, buf1)" "unat n \<le> length buf1" "xs = take (unat n) buf1" "rest = drop (unat n) buf1"
    by (auto simp: ReadLenDelim_def split: prod.splits option.splits if_splits)
  then obtain bs where "buf = bs @ buf1" "is_varint bs n" by (auto simp: ReadVarint_iff)
  then show "\<exists>bs. buf = bs @ rest \<and> is_payload (LenDelim xs) bs" using r by (intro exI [of _ "bs @ xs"]) auto
next
  assume "\<exists>bs. buf = bs @ rest \<and> is_payload (LenDelim xs) bs"
  then obtain l n where "buf = l @ (xs @ rest)" "is_varint l n" "unat n = length xs" by auto
  then show "ReadLenDelim buf = (Some xs, rest)" by (simp add: ReadLenDelim_def ReadVarint_append)
qed

lemma unat_of_nat_u64: "n < 2 ^ 64 \<Longrightarrow> unat (of_nat n :: u64) = n"
  by (simp add: unat_of_nat take_bit_nat_eq_self)

lemma tag_parts:
  fixes raw :: u64
  assumes "n = unat raw div 8" "t = unat raw mod 8"
  shows "raw = of_nat (n * 8 + t)" "unat (drop_bit 3 raw) = n" "raw AND 7 = of_nat t"
proof -
  show "raw = of_nat (n * 8 + t)" using assms by (simp add: div_mult_mod_eq)
  show "unat (drop_bit 3 raw) = n" unfolding unat_drop_bit_eq using assms by (simp add: drop_bit_eq_div)
  have "(7 :: u64) = mask 3" by (simp add: mask_eq_exp_minus_1)
  then have "raw AND 7 = take_bit 3 raw" by (simp add: take_bit_eq_mask)
  also have "\<dots> = of_nat (unat (take_bit 3 raw))" by simp
  also have "unat (take_bit 3 raw) = t" unfolding unsigned_take_bit_eq using assms by (simp add: take_bit_eq_mod)
  finally show "raw AND 7 = of_nat t" .
qed

lemma tag_number: "field = of_nat n \<Longrightarrow> n < 2 ^ 61 \<Longrightarrow> \<not> (field = 0 \<or> field > kMaxFieldNumber) \<longleftrightarrow> 0 < n \<and> n < 2 ^ 29"
  by (auto simp: kMaxFieldNumber_def word_less_nat_alt word_eq_iff_unsigned [where ?'a = nat] unat_of_nat_u64)

lemma ReadTag_iff:
  "ReadTag buf = (Some tag, rest) \<longleftrightarrow>
   (\<exists>bs n t. buf = bs @ rest \<and> 0 < n \<and> n < 2 ^ 29 \<and> t < 8 \<and> is_varint bs (of_nat (n * 8 + t)) \<and>
      tag = \<lparr>tag_field = of_nat n, tag_wire_type = of_nat t\<rparr>)"
proof -
  have tag: "ReadTag buf = (Some tag, rest) \<longleftrightarrow> (\<exists>raw n t. ReadVarint buf = (Some raw, rest) \<and> n = unat raw div 8 \<and> t = unat raw mod 8 \<and>
      0 < n \<and> n < 2 ^ 29 \<and> tag = \<lparr>tag_field = of_nat n, tag_wire_type = of_nat t\<rparr>)"
  proof -
    have "\<not> (drop_bit 3 raw = 0 \<or> drop_bit 3 raw > kMaxFieldNumber) \<longleftrightarrow> 0 < unat raw div 8 \<and> unat raw div 8 < 2 ^ 29"
      "ucast (drop_bit 3 raw) = (of_nat (unat raw div 8) :: u32)" "ucast (raw AND 7) = (of_nat (unat raw mod 8) :: u32)" for raw :: u64
    proof -
      note parts = tag_parts [of "unat raw div 8" raw "unat raw mod 8", OF refl refl]
      have "unat raw < 2 ^ LENGTH(64)" by (rule unsigned_less)
      then have "unat raw div 8 < 2 ^ 61" by simp
      then show "\<not> (drop_bit 3 raw = 0 \<or> drop_bit 3 raw > kMaxFieldNumber) \<longleftrightarrow> 0 < unat raw div 8 \<and> unat raw div 8 < 2 ^ 29"
        by (intro tag_number) (use parts(2) in \<open>metis of_nat_unat ucast_id\<close>)
      show "ucast (drop_bit 3 raw) = (of_nat (unat raw div 8) :: u32)" by (simp flip: parts(2))
      show "ucast (raw AND 7) = (of_nat (unat raw mod 8) :: u32)" 
        unfolding parts(3) by (subst of_nat_unat [symmetric]) (simp add: unat_of_nat_u64)
    qed
    then show ?thesis by (auto simp: ReadTag_def Let_def split: prod.splits option.splits if_splits)
  qed
  show ?thesis
    unfolding tag ReadVarint_iff
  proof safe
    fix bs n t
    assume a: "0 < n" "n < 2 ^ 29" "t < 8" "is_varint bs (of_nat (n * 8 + t))"
    define raw :: u64 where "raw = of_nat (n * 8 + t)"
    have "unat raw = n * 8 + t" unfolding raw_def using a by (intro unat_of_nat_u64) simp
    then have "n = unat raw div 8" "t = unat raw mod 8" using a(3) by simp_all
    then show "\<exists>raw n' t'. (\<exists>cs. bs @ rest = cs @ rest \<and> is_varint cs raw) \<and> n' = unat raw div 8 \<and> t' = unat raw mod 8 \<and>
        0 < n' \<and> n' < 2 ^ 29 \<and> \<lparr>tag_field = of_nat n, tag_wire_type = of_nat t\<rparr> = (\<lparr>tag_field = of_nat n', tag_wire_type = of_nat t'\<rparr> :: Tag)"
      using a unfolding raw_def [symmetric] by blast
  next
    fix raw bs
    assume a: "0 < unat raw div 8" "unat raw div 8 < 2 ^ 29" "is_varint bs raw"
    then show "\<exists>cs n t. bs @ rest = cs @ rest \<and> 0 < n \<and> n < 2 ^ 29 \<and> t < 8 \<and> is_varint cs (of_nat (n * 8 + t)) \<and>
        \<lparr>tag_field = of_nat (unat raw div 8), tag_wire_type = of_nat (unat raw mod 8)\<rparr> = (\<lparr>tag_field = of_nat n, tag_wire_type = of_nat t\<rparr> :: Tag)"
      using tag_parts(1) [of "unat raw div 8" raw "unat raw mod 8"]
      by (intro exI [of _ bs] exI [of _ "unat raw div 8"] exI [of _ "unat raw mod 8"]) auto
  qed
qed


lemma SkipField_iff:
  assumes "t < 8"
  shows "SkipField buf (of_nat t) = (True, rest) \<longleftrightarrow> (\<exists>bs v. buf = bs @ rest \<and> wire_type_of v = t \<and> is_payload v bs)"
proof -
  have cut: "\<not> length buf < n \<and> drop n buf = rest \<longleftrightarrow> (\<exists>xs. buf = xs @ rest \<and> length xs = n)" for n
    by (metis append_eq_conv_conj append_take_drop_id length_append length_take min.absorb2 not_le not_less_iff_gr_or_eq le_add1)
  have which: "(\<exists>v. wire_type_of v = t \<and> P v) \<longleftrightarrow>
      t = 0 \<and> (\<exists>x. P (Varint x)) \<or> t = 1 \<and> (\<exists>x. P (Fixed64 x)) \<or> t = 2 \<and> (\<exists>x. P (LenDelim x)) \<or> t = 5 \<and> (\<exists>x. P (Fixed32 x))" for P
    by (metis wire_type_of.simps wire_value.exhaust)
  have rhs: "(\<exists>bs v. buf = bs @ rest \<and> wire_type_of v = t \<and> is_payload v bs) \<longleftrightarrow>
      (\<exists>bs. buf = bs @ rest \<and> (t = 0 \<and> (\<exists>x. is_payload (Varint x) bs) \<or> t = 1 \<and> (\<exists>x. is_payload (Fixed64 x) bs) \<or>
         t = 2 \<and> (\<exists>x. is_payload (LenDelim x) bs) \<or> t = 5 \<and> (\<exists>x. is_payload (Fixed32 x) bs)))"
  proof -
    have "(\<exists>bs v. buf = bs @ rest \<and> wire_type_of v = t \<and> is_payload v bs) \<longleftrightarrow>
        (\<exists>bs. buf = bs @ rest \<and> (\<exists>v. wire_type_of v = t \<and> is_payload v bs))" by blast
    then show ?thesis by (simp only: which)
  qed
  consider "t = 0" | "t = 1" | "t = 2" | "t = 5" | "t \<in> {3, 4, 6, 7}" using assms by fastforce
  then show ?thesis
  proof cases
    case 1
    have "SkipField buf 0 = (True, rest) \<longleftrightarrow> (\<exists>x. ReadVarint buf = (Some x, rest))"
      by (auto simp: SkipField_def split: prod.splits)
    then show ?thesis using 1 unfolding ReadVarint_iff unfolding rhs by auto
  next
    case 3
    have "SkipField buf 2 = (True, rest) \<longleftrightarrow> (\<exists>x. ReadLenDelim buf = (Some x, rest))"
      by (auto simp: SkipField_def split: prod.splits)
    then show ?thesis using 3 unfolding ReadLenDelim_iff unfolding rhs by auto
  next
    case 2
    have "SkipField buf 1 = (True, rest) \<longleftrightarrow> \<not> length buf < 8 \<and> drop 8 buf = rest" by (auto simp: SkipField_def)
    then show ?thesis using 2 unfolding cut unfolding rhs by auto
  next
    case 4
    have "SkipField buf 5 = (True, rest) \<longleftrightarrow> \<not> length buf < 4 \<and> drop 4 buf = rest" by (auto simp: SkipField_def)
    then show ?thesis using 4 unfolding cut unfolding rhs by auto
  next
    case 5
    then show ?thesis unfolding rhs by (auto simp: SkipField_def)
  qed
qed


text \<open>What is read is determined by the bytes.\<close>

lemma varint_unique: "is_varint bs v \<Longrightarrow> is_varint bs' v' \<Longrightarrow> bs @ r = bs' @ r' \<Longrightarrow> bs = bs' \<and> v = v' \<and> r = r'"
  using ReadVarint_append [of bs v r] ReadVarint_append [of bs' v' r'] by auto

lemma payload_unique:
  assumes "is_payload v bs" "is_payload v' bs'" "wire_type_of v = wire_type_of v'" "bs @ r = bs' @ r'"
  shows "v = v' \<and> r = r'"
proof (cases v)
  case (LenDelim xs)
  then obtain ys where v': "v' = LenDelim ys" using assms(3) by (cases v') auto
  have "ReadLenDelim (bs @ r) = (Some xs, r)" "ReadLenDelim (bs' @ r') = (Some ys, r')"
    using assms(1,2) LenDelim v' by (metis ReadLenDelim_iff)+
  then show ?thesis using assms(4) LenDelim v' by simp
next
  case (Varint x)
  then obtain y where v': "v' = Varint y" using assms(3) by (cases v') auto
  then show ?thesis using assms Varint varint_unique [of bs x bs' y r r'] by simp
next
  case (Fixed64 xs)
  then obtain ys where v': "v' = Fixed64 ys" using assms(3) by (cases v') auto
  then show ?thesis using assms Fixed64 by simp
next
  case (Fixed32 xs)
  then obtain ys where v': "v' = Fixed32 ys" using assms(3) by (cases v') auto
  then show ?thesis using assms Fixed32 by simp
qed

lemma is_field_read:
  assumes "is_field (n, v) bs"
  obtains d where "ReadTag (bs @ rest) = (Some \<lparr>tag_field = of_nat n, tag_wire_type = of_nat (wire_type_of v)\<rparr>, d)"
    "\<exists>p. d = p @ rest \<and> is_payload v p" "0 < n" "n < 2 ^ 29" "bs \<noteq> []"
proof -
  obtain t p where tp: "bs = t @ p" "is_varint t (of_nat (n * 8 + wire_type_of v))" "is_payload v p" "0 < n" "n < 2 ^ 29"
    using assms by (auto simp: is_field_def)
  have "wire_type_of v < 8" by (cases v) auto
  then have "ReadTag (bs @ rest) = (Some \<lparr>tag_field = of_nat n, tag_wire_type = of_nat (wire_type_of v)\<rparr>, p @ rest)"
    unfolding ReadTag_iff using tp by (intro exI [of _ t] exI [of _ n] exI [of _ "wire_type_of v"]) auto
  moreover have "bs \<noteq> []" using tp(1,2) by (auto simp: is_varint_def)
  ultimately show thesis using tp that by blast
qed

lemma read_is_field:
  assumes "ReadTag data = (Some tag, d)" "SkipField d (tag_wire_type tag) = (True, rest)"
  obtains n v bs p where "data = bs @ rest" "is_field (n, v) bs" "d = p @ rest" "is_payload v p"
    "tag_field tag = of_nat n" "tag_wire_type tag = of_nat (wire_type_of v)" "0 < n" "n < 2 ^ 29"
proof -
  obtain t n wt where t: "data = t @ d" "0 < n" "n < 2 ^ 29" "wt < 8" "is_varint t (of_nat (n * 8 + wt))"
      "tag = \<lparr>tag_field = of_nat n, tag_wire_type = of_nat wt\<rparr>"
    using assms(1) unfolding ReadTag_iff by blast
  obtain p v where p: "d = p @ rest" "wire_type_of v = wt" "is_payload v p"
    using assms(2) t(6) SkipField_iff [OF t(4), of d rest] by auto
  have "is_field (n, v) (t @ p)" using t p by (auto simp: is_field_def)
  then show thesis using that [of "t @ p"] t p by simp
qed

lemma number_u32: "n < 2 ^ 29 \<Longrightarrow> (of_nat n :: u32) = 1 \<longleftrightarrow> n = 1"
  by (simp add: word_eq_iff_unsigned [where ?'a = nat] unat_of_nat take_bit_nat_eq_self)

lemma wire_type_u32: "k < 8 \<Longrightarrow> (of_nat (wire_type_of v) :: u32) = of_nat k \<longleftrightarrow> wire_type_of v = k"
  by (cases v) (simp_all add: word_eq_iff_unsigned [where ?'a = nat] unat_of_nat take_bit_nat_eq_self)

lemma wire_type_less: "wire_type_of v < 8"
  by (cases v) auto

lemma field_unique:
  assumes "is_field f bs" "is_field f' bs'" "bs @ r = bs' @ r'"
  shows "f = f' \<and> r = r'"
proof -
  obtain n v n' v' where f: "f = (n, v)" "f' = (n', v')" by (metis prod.exhaust)
  obtain d where d: "ReadTag (bs @ r) = (Some \<lparr>tag_field = of_nat n, tag_wire_type = of_nat (wire_type_of v)\<rparr>, d)"
    "\<exists>p. d = p @ r \<and> is_payload v p" "n < 2 ^ 29" using is_field_read [of n v bs r] assms(1) f by metis
  obtain d' where d': "ReadTag (bs' @ r') = (Some \<lparr>tag_field = of_nat n', tag_wire_type = of_nat (wire_type_of v')\<rparr>, d')"
    "\<exists>p. d' = p @ r' \<and> is_payload v' p" "n' < 2 ^ 29" using is_field_read [of n' v' bs' r'] assms(2) f by metis
  have "wire_type_of v' < 8" by (cases v') auto
  then have "wire_type_of v = wire_type_of v'" "d = d'" "(of_nat n :: u32) = of_nat n'"
    using d(1) d'(1) assms(3) wire_type_u32 [of "wire_type_of v'" v] by auto
  moreover from this(3) have "n = n'"
    using d(3) d'(3) by (simp add: word_eq_iff_unsigned [where ?'a = nat] unat_of_nat take_bit_nat_eq_self)
  ultimately show ?thesis using payload_unique d(2) d'(2) f by metis
qed

lemma message_unique: "is_message fs bs \<Longrightarrow> is_message fs' bs \<Longrightarrow> fs = fs'"
proof (induction fs bs arbitrary: fs' rule: is_message.induct)
  case message_nil
  from this show ?case by cases (auto simp: is_field_def is_varint_def)
next
  case (message_cons f bs fs rest)
  from message_cons.prems show ?case
  proof cases
    case message_nil
    then show ?thesis using message_cons.hyps(1) by (auto simp: is_field_def is_varint_def)
  next
    case (message_cons f' bs' gs rest')
    then show ?thesis using field_unique [OF \<open>is_field f bs\<close> message_cons(3)] message_cons.IH by metis
  qed
qed

section \<open>The parser of responses\<close>

fun rejects :: "field list \<Rightarrow> u64 list" where
  "rejects [] = []"
| "rejects ((n, v) # fs) = (case v of Varint x \<Rightarrow> if n = 1 then x # rejects fs else rejects fs | _ \<Rightarrow> rejects fs)"

fun partials :: "field list \<Rightarrow> bytes list" where
  "partials [] = []"
| "partials ((n, v) # fs) = (case v of LenDelim xs \<Rightarrow> if n = 1 then xs # partials fs else partials fs | _ \<Rightarrow> partials fs)"

definition capped :: "u64 \<Rightarrow> u32" where
  "capped v = of_nat (min (unat v) (2 ^ 32 - 1))"

lemma capped_code: "ucast (min v kMaxRejected) = capped v"
  by (subst of_nat_unat [symmetric]) (simp add: capped_def kMaxRejected_def min_def word_le_nat_alt)

lemma ParsePartialSuccess_complete:
  "is_message fs data \<Longrightarrow> ParsePartialSuccess data rej = (True, last (rej # map capped (rejects fs)))"
proof (induction fs data arbitrary: rej rule: is_message.induct)
  case message_nil
  then show ?case by (simp add: ParsePartialSuccess.simps)
next
  case (message_cons f bs fs rest)
  obtain n v where f: "f = (n, v)" by (metis prod.exhaust)
  obtain d where d: "ReadTag (bs @ rest) = (Some \<lparr>tag_field = of_nat n, tag_wire_type = of_nat (wire_type_of v)\<rparr>, d)"
    "\<exists>p. d = p @ rest \<and> is_payload v p" "n < 2 ^ 29" "bs \<noteq> []"
    using is_field_read [of n v bs rest] message_cons.hyps(1) f by metis
  have skip: "SkipField d (of_nat (wire_type_of v)) = (True, rest)"
    using d(2) SkipField_iff [OF wire_type_less] by blast
  have is_rejected: "((of_nat n :: u32) = 1 \<and> (of_nat (wire_type_of v) :: u32) = 0) \<longleftrightarrow> n = 1 \<and> (\<exists>x. v = Varint x)"
    using number_u32 [OF d(3)] wire_type_u32 [of 0 v] by (cases v) auto
  show ?case
  proof (cases "n = 1 \<and> (\<exists>x. v = Varint x)")
    case True
    then obtain x where x: "v = Varint x" "n = 1" by blast
    then have "ReadRejected d rej = (True, rest, capped x)" using d(2) by (auto simp: ReadRejected_def ReadVarint_append capped_code)
    then show ?thesis using d x message_cons.IH f by (subst ParsePartialSuccess.simps) simp
  next
    case False
    then have "rejects (f # fs) = rejects fs" using f by (cases v) auto
    moreover have "\<not> ((of_nat n :: u32) = 1 \<and> (of_nat (wire_type_of v) :: u32) = 0)" using is_rejected False by blast
    ultimately show ?thesis using d(1,4) skip message_cons.IH by (subst ParsePartialSuccess.simps) auto
  qed
qed


lemma ParsePartialSuccess_sound: "fst (ParsePartialSuccess data rej) \<Longrightarrow> \<exists>fs. is_message fs data"
proof (induction data rej rule: ParsePartialSuccess.induct)
  case (1 data rej)
  show ?case
  proof (cases "data = []")
    case False
    obtain tag d where tag: "ReadTag data = (Some tag, d)"
      using "1.prems" False by (subst (asm) ParsePartialSuccess.simps) (auto split: prod.splits option.splits)
    let ?step = "if tag_field tag = 1 \<and> tag_wire_type tag = 0 then ReadRejected d rej
      else case SkipField d (tag_wire_type tag) of (ok, data2) \<Rightarrow> (ok, data2, rej)"
    obtain ok rest rej2 where step: "?step = (ok, rest, rej2)" by (metis prod.exhaust)
    have go: "ok" "fst (ParsePartialSuccess rest rej2)"
      using "1.prems" False tag step by (subst (asm) ParsePartialSuccess.simps; simp split: if_splits)+
    have "SkipField d (tag_wire_type tag) = (True, rest)"
      using step go(1) by (auto simp: ReadRejected_def SkipField_def split: if_splits prod.splits option.splits)
    from read_is_field [OF tag this] obtain f bs where "data = bs @ rest" "is_field f bs" by metis
    moreover obtain fs where "is_message fs rest"
      using "1.IH" [OF False tag [symmetric] refl refl step [symmetric] refl go(1) go(2)] by blast
    ultimately show ?thesis by (metis message_cons)
  qed (use message_nil in blast)
qed

lemma ParseResponse_complete:
  "is_message fs data \<Longrightarrow> list_all2 is_message gss (partials fs) \<Longrightarrow>
   ParseResponse_loop data result =
     \<lparr>outcome = (if partials fs = [] then outcome result else Parsed),
      rejected = last (rejected result # map capped (rejects (concat gss)))\<rparr>"
proof (induction fs data arbitrary: result gss rule: is_message.induct)
  case message_nil
  then show ?case by (simp add: ParseResponse_loop.simps)
next
  case (message_cons f bs fs rest)
  obtain n v where f: "f = (n, v)" by (metis prod.exhaust)
  obtain d where d: "ReadTag (bs @ rest) = (Some \<lparr>tag_field = of_nat n, tag_wire_type = of_nat (wire_type_of v)\<rparr>, d)"
    "\<exists>p. d = p @ rest \<and> is_payload v p" "n < 2 ^ 29" "bs \<noteq> []"
    using is_field_read [of n v bs rest] message_cons.hyps(1) f by metis
  have skip: "SkipField d (of_nat (wire_type_of v)) = (True, rest)" using d(2) SkipField_iff [OF wire_type_less] by blast
  have is_partial: "((of_nat n :: u32) = 1 \<and> (of_nat (wire_type_of v) :: u32) = 2) \<longleftrightarrow> n = 1 \<and> (\<exists>x. v = LenDelim x)"
    using number_u32 [OF d(3)] wire_type_u32 [of 2 v] by (cases v) auto
  show ?case
  proof (cases "n = 1 \<and> (\<exists>x. v = LenDelim x)")
    case True
    then obtain xs where x: "v = LenDelim xs" "n = 1" by blast
    then obtain g gs where g: "gss = g # gs" "is_message g xs" "list_all2 is_message gs (partials fs)"
      using message_cons.prems f by (auto simp: list_all2_Cons2)
    have "ReadLenDelim d = (Some xs, rest)" using d(2) x(1) ReadLenDelim_iff by metis
    then have "ExtractPartialSuccess d result = (True, rest, \<lparr>outcome = Parsed, rejected = last (rejected result # map capped (rejects g))\<rparr>)"
      using ParsePartialSuccess_complete [OF g(2)] by (simp add: ExtractPartialSuccess_def)
    moreover have "rejects (g @ h) = rejects g @ rejects h" for h by (induction g rule: rejects.induct) (auto split: wire_value.splits)
    ultimately show ?thesis
      using d x g message_cons.IH [OF g(3)] f by (subst ParseResponse_loop.simps) (simp add: last_append)
  next
    case False
    then have "partials (f # fs) = partials fs" using f by (cases v) auto
    moreover have "\<not> ((of_nat n :: u32) = 1 \<and> (of_nat (wire_type_of v) :: u32) = 2)" using is_partial False by blast
    ultimately show ?thesis
      using d(1,4) skip message_cons.IH message_cons.prems by (subst ParseResponse_loop.simps) auto
  qed
qed


lemma ParseResponse_sound:
  "outcome (ParseResponse_loop data result) \<noteq> Unparseable \<Longrightarrow>
   \<exists>fs gss. is_message fs data \<and> list_all2 is_message gss (partials fs)"
proof (induction data result rule: ParseResponse_loop.induct)
  case (1 data result)
  show ?case
  proof (cases "data = []")
    case False
    obtain tag d where tag: "ReadTag data = (Some tag, d)"
      using "1.prems" False by (subst (asm) ParseResponse_loop.simps) (auto simp: kUnparseable_def split: prod.splits option.splits)
    let ?step = "if tag_field tag = 1 \<and> tag_wire_type tag = 2 then ExtractPartialSuccess d result
      else case SkipField d (tag_wire_type tag) of (ok, data2) \<Rightarrow> (ok, data2, result)"
    obtain ok rest result2 where step: "?step = (ok, rest, result2)" by (metis prod.exhaust)
    have go: "ok" "outcome (ParseResponse_loop rest result2) \<noteq> Unparseable"
      using "1.prems" False tag step by (subst (asm) ParseResponse_loop.simps; simp add: kUnparseable_def split: if_splits)+
    have "SkipField d (tag_wire_type tag) = (True, rest)"
      using step go(1) by (auto simp: ExtractPartialSuccess_def SkipField_def split: if_splits prod.splits option.splits)
    from read_is_field [OF tag this] obtain n v bs p where f: "data = bs @ rest" "is_field (n, v) bs" "d = p @ rest" "is_payload v p"
      "tag_field tag = of_nat n" "tag_wire_type tag = of_nat (wire_type_of v)" "n < 2 ^ 29" by metis
    obtain fs gss where rest: "is_message fs rest" "list_all2 is_message gss (partials fs)"
      using "1.IH" [OF False tag [symmetric] refl refl step [symmetric] refl go(1) go(2)] by blast
    have "\<exists>gss'. list_all2 is_message gss' (partials ((n, v) # fs))"
    proof (cases "n = 1 \<and> (\<exists>x. v = LenDelim x)")
      case True
      then obtain xs where x: "n = 1" "v = LenDelim xs" by blast
      then have "ReadLenDelim d = (Some xs, rest)" using f(3,4) ReadLenDelim_iff by metis
      then have "fst (ParsePartialSuccess xs (rejected result))"
        using step go(1) f(5,6) x by (auto simp: ExtractPartialSuccess_def split: prod.splits if_splits)
      then show ?thesis using ParsePartialSuccess_sound rest(2) x by (auto simp: list_all2_Cons2)
    next
      case False
      then have "partials ((n, v) # fs) = partials fs" by (cases v) auto
      then show ?thesis using rest(2) by auto
    qed
    then show ?thesis using message_cons [OF f(2) rest(1)] f(1) by blast
  qed (use message_nil in \<open>auto intro!: exI [of _ "[]"]\<close>)
qed

text \<open>
  C24: a response is read exactly. A body is \<open>Unparseable\<close> when, and only when, it is not a message,
  or one of its partial successes is not; truncated bytes, a bad tag or trailing bytes anywhere make it
  so. Otherwise its fields are determined by the body, the outcome says whether it has a partial
  success, and the count is the last one given in the last partial success that gives one, capped at
  the largest 32-bit number, or zero.
\<close>

theorem response_exact:
  "(outcome (ParseRejectedSpans body) = Unparseable \<longleftrightarrow>
     \<not> (\<exists>fs gss. is_message fs body \<and> list_all2 is_message gss (partials fs))) \<and>
   (\<forall>fs gss. is_message fs body \<and> list_all2 is_message gss (partials fs) \<longrightarrow>
     (\<forall>fs'. is_message fs' body \<longrightarrow> fs' = fs) \<and>
     ParseRejectedSpans body =
       \<lparr>outcome = (if partials fs = [] then Absent else Parsed), rejected = last (0 # map capped (rejects (concat gss)))\<rparr>)"
proof -
  let ?good = "\<lambda>fs gss. is_message fs body \<and> list_all2 is_message gss (partials fs)"
  have same: "ParseRejectedSpans body = ParseResponse_loop body \<lparr>outcome = Absent, rejected = 0\<rparr>"
    by (simp add: ParseRejectedSpans_def ParseResponse_def ParseResponse_loop.simps)
  have spec: "ParseRejectedSpans body =
      \<lparr>outcome = (if partials fs = [] then Absent else Parsed), rejected = last (0 # map capped (rejects (concat gss)))\<rparr>"
    if "?good fs gss" for fs gss
    using that ParseResponse_complete [of fs body gss "\<lparr>outcome = Absent, rejected = 0\<rparr>"] by (simp add: same)
  have "outcome (ParseRejectedSpans body) = Unparseable \<longleftrightarrow> \<not> (\<exists>fs gss. ?good fs gss)"
  proof
    assume "outcome (ParseRejectedSpans body) = Unparseable"
    then show "\<not> (\<exists>fs gss. ?good fs gss)" using spec by (auto split: if_splits)
  next
    assume "\<not> (\<exists>fs gss. ?good fs gss)"
    then show "outcome (ParseRejectedSpans body) = Unparseable" using ParseResponse_sound same by metis
  qed
  then show ?thesis using spec message_unique by blast
qed

theorem response_exact_witness:
  "ParseRejectedSpans [0x0A, 0x03, 0x08, 0x96, 0x01, 0x18, 0x05] = \<lparr>outcome = Parsed, rejected = 150\<rparr>"
proof -
  have "is_field (1, Varint 150) [0x08, 0x96, 0x01]"
    using is_fieldI [of 1 "[0x08]" "Varint 150" "[0x96, 0x01]"] by (simp add: is_varint_def)
  from message_cons [OF this message_nil] have inner: "is_message [(1, Varint 150)] [0x08, 0x96, 0x01]" by simp
  have "is_payload (LenDelim [0x08, 0x96, 0x01]) [0x03, 0x08, 0x96, 0x01]"
    by (auto simp: is_varint_def intro!: exI [of _ "[0x03]"])
  then have "is_field (1, LenDelim [0x08, 0x96, 0x01]) [0x0A, 0x03, 0x08, 0x96, 0x01]"
    using is_fieldI [of 1 "[0x0A]" "LenDelim [0x08, 0x96, 0x01]" "[0x03, 0x08, 0x96, 0x01]"] by (simp add: is_varint_def)
  moreover have "is_field (3, Varint 5) [0x18, 0x05]"
    using is_fieldI [of 3 "[0x18]" "Varint 5" "[0x05]"] by (simp add: is_varint_def)
  ultimately have "is_message [(1, LenDelim [0x08, 0x96, 0x01]), (3, Varint 5)] ([0x0A, 0x03, 0x08, 0x96, 0x01] @ [0x18, 0x05] @ [])"
    by (intro message_cons message_nil)
  then show ?thesis
    using response_exact [of "[0x0A, 0x03, 0x08, 0x96, 0x01, 0x18, 0x05]"] inner
    by (auto simp: capped_def dest!: spec [of _ "[(1, LenDelim [0x08, 0x96, 0x01]), (3, Varint 5)]"] spec [of _ "[[(1, Varint 150)]]"])
qed

text \<open>The encoding every writer uses is in the grammar.\<close>

fun varint_bytes :: "nat \<Rightarrow> bytes" where
  "varint_bytes n = (if n < 128 then [of_nat n] else of_nat (n mod 128 + 128) # varint_bytes (n div 128))"

declare varint_bytes.simps [simp del]

lemma low_digit: "m < 128 \<Longrightarrow> unat (of_nat m AND 0x7F :: u8) = m" "m < 128 \<Longrightarrow> (of_nat m AND 0x80 :: u8) = 0"
  "m < 128 \<Longrightarrow> unat (of_nat (m + 128) AND 0x7F :: u8) = m" "m < 128 \<Longrightarrow> (of_nat (m + 128) AND 0x80 :: u8) \<noteq> 0"
proof -
  have "\<forall>m \<in> {..<128}. unat (of_nat m AND 0x7F :: u8) = m \<and> (of_nat m AND 0x80 :: u8) = 0 \<and>
      unat (of_nat (m + 128) AND 0x7F :: u8) = m \<and> (of_nat (m + 128) AND 0x80 :: u8) \<noteq> 0"
    by code_simp
  then show "m < 128 \<Longrightarrow> unat (of_nat m AND 0x7F :: u8) = m" "m < 128 \<Longrightarrow> (of_nat m AND 0x80 :: u8) = 0"
    "m < 128 \<Longrightarrow> unat (of_nat (m + 128) AND 0x7F :: u8) = m" "m < 128 \<Longrightarrow> (of_nat (m + 128) AND 0x80 :: u8) \<noteq> 0"
    by blast+
qed

lemma varint_bytes_value: "varint_value (varint_bytes n) = n" "terminated (varint_bytes n)" "varint_bytes n \<noteq> []"
proof (induction n rule: varint_bytes.induct)
  case (1 n)
  show "varint_bytes n \<noteq> []" by (simp add: varint_bytes.simps [of n])
  show "varint_value (varint_bytes n) = n"
    using low_digit(1) [of n] low_digit(3) [of "n mod 128"] 1 by (cases "n < 128") (simp_all add: varint_bytes.simps [of n])
  show "terminated (varint_bytes n)"
    using low_digit(2) [of n] low_digit(4) [of "n mod 128"] 1 by (cases "n < 128") (simp_all add: varint_bytes.simps [of n])
qed

lemma varint_bytes_length: "n < 128 ^ Suc k \<Longrightarrow> length (varint_bytes n) \<le> Suc k"
proof (induction k arbitrary: n)
  case (Suc k)
  then have "n div 128 < 128 ^ Suc k" by (simp add: div_less_iff_less_mult mult.commute)
  then show ?case using Suc.IH [of "n div 128"] by (subst varint_bytes.simps) auto
qed (simp add: varint_bytes.simps)

lemma ReadVarint_bytes: "ReadVarint (varint_bytes (unat v) @ rest) = (Some v, rest)"
proof -
  have "unat v < 2 ^ LENGTH(64)" by (rule unsigned_less)
  then have "unat v < 128 ^ Suc 9" by simp
  then have "is_varint (varint_bytes (unat v)) v"
    using varint_bytes_length [of "unat v" 9] by (simp add: is_varint_terminated varint_bytes_value)
  then show ?thesis by (rule ReadVarint_append)
qed

end
