(* ===== verification/Wire_Common.thy ===== *)
theory Wire_Common
  imports Retry Proto_Wire
begin

unbundle bit_operations_syntax

text \<open>
  What the two wire codecs share (\<open>include/microtel/internal/transport.hpp\<close>, \<open>src/wire/auth_failure.hpp\<close> and
  the helpers both have a copy of): requests and responses, header lookup, the number parser of the
  standard library, and the prologue of a send.

  The transport, the authorization provider and the clock are interfaces of the code; they are a
  parameter, a record of functions over a world \<open>'t\<close> of theirs. A future is modelled by what waiting
  for it gives: a result, or nothing within the time. The compressor is a parameter too.
\<close>

section \<open>Data\<close>

record HeaderField =
  hf_name :: string
  hf_value :: string

record RequestSpec =
  rs_headers :: "HeaderField list"
  rs_payload :: bytes
  rs_deadline :: int

record TransportResult =
  tr_success :: bool
  response_headers :: "HeaderField list"
  response_trailers :: "HeaderField list"
  response_body :: bytes
  tr_error :: "Error option"
  response_too_large :: bool
  transport_busy :: bool

datatype GzipDecompressError = Gzip_Corrupt | Gzip_TooLarge

record gzip =
  GzipCompress :: "bytes \<Rightarrow> bytes option"
  GzipDecompress :: "bytes \<Rightarrow> nat \<Rightarrow> GzipDecompressError + bytes"

record ('t, 'h) transport =
  GetState :: "'t \<Rightarrow> ConnectionState"
  Connect :: "'t \<Rightarrow> Error option \<times> 't"
  Transport_Send :: "RequestSpec \<Rightarrow> 't \<Rightarrow> 'h \<times> 't"
  wait_for :: "'h \<Rightarrow> int \<Rightarrow> 't \<Rightarrow> TransportResult option \<times> 't"
  Cancel :: "'h \<Rightarrow> 't \<Rightarrow> 't"
  steady_now :: "'t \<Rightarrow> int"
  GetAuthorization :: "(int \<Rightarrow> 't \<Rightarrow> (Error + string option) \<times> 't) option"

text \<open>\<open>GetAuthorization\<close> is \<open>None\<close> when the codec has no provider.\<close>

section \<open>Helpers\<close>

fun FindHeaderValue :: "HeaderField list \<Rightarrow> string \<Rightarrow> string option" where
  "FindHeaderValue [] name = None"
| "FindHeaderValue (h # hs) name = (if hf_name h = name then Some (hf_value h) else FindHeaderValue hs name)"

definition is_digit :: "char \<Rightarrow> bool" where
  "is_digit c \<longleftrightarrow> 48 \<le> (of_char c :: nat) \<and> (of_char c :: nat) \<le> 57"

definition digit_value :: "char \<Rightarrow> nat" where
  "digit_value c = of_char c - 48"

definition decimal :: "string \<Rightarrow> nat" where
  "decimal s = foldl (\<lambda>n c. 10 * n + digit_value c) 0 s"

text \<open>
  \<open>std::from_chars\<close> in base ten: the value when there is one and it is in range, and what is left. A sign
  is read for a signed type only; nothing else is skipped.
\<close>

definition from_chars :: "bool \<Rightarrow> int \<Rightarrow> int \<Rightarrow> string \<Rightarrow> int option \<times> string" where
  "from_chars negatable lo hi s =
     (let negative = negatable \<and> s \<noteq> [] \<and> hd s = CHR ''-'';
          body = (if negative then tl s else s);
          digits = takeWhile is_digit body;
          rest = dropWhile is_digit body;
          v = (if negative then - int (decimal digits) else int (decimal digits))
      in if digits = [] then (None, s)
         else if lo \<le> v \<and> v \<le> hi then (Some v, rest) else (None, rest))"

definition from_chars_int :: "string \<Rightarrow> int option \<times> string" where
  "from_chars_int = from_chars True (- (2 ^ 31)) (2 ^ 31 - 1)"

definition from_chars_u32 :: "string \<Rightarrow> int option \<times> string" where
  "from_chars_u32 = from_chars False 0 (2 ^ 32 - 1)"

fun nat_string :: "nat \<Rightarrow> string" where
  "nat_string n = (if n < 10 then [char_of (48 + n)] else nat_string (n div 10) @ [char_of (48 + n mod 10)])"

declare nat_string.simps [simp del]

definition to_string :: "int \<Rightarrow> string" where
  "to_string i = (if i < 0 then CHR ''-'' # nat_string (nat (- i)) else nat_string (nat i))"

definition wire_failure :: "bool \<Rightarrow> int option \<Rightarrow> Error option \<Rightarrow> string \<Rightarrow> WireResult" where
  "wire_failure again after err excerpt =
     \<lparr>success = False, retryable = again, retry_after = after, partial_success_rejected = 0, error = err, response_excerpt = excerpt\<rparr>"

definition an_error :: "Error_Kind \<Rightarrow> string \<Rightarrow> Error" where
  "an_error kind message = \<lparr>err_kind = kind, err_message = message, err_os_errno = 0\<rparr>"

definition AuthFailure :: "Error \<Rightarrow> WireResult" where
  "AuthFailure err =
     wire_failure False None
       (Some \<lparr>err_kind = err_kind err, err_message = ''authorization header unavailable: '' @ err_message err, err_os_errno = err_os_errno err\<rparr>) []"

definition AppendAuthHeader ::
    "('t, 'h) transport \<Rightarrow> HeaderField list \<Rightarrow> 't \<Rightarrow> (Error + HeaderField list) \<times> 't" where
  "AppendAuthHeader tp headers w =
     (case GetAuthorization tp of
        None \<Rightarrow> (Inr headers, w)
      | Some auth \<Rightarrow>
          (case auth (steady_now tp w) w of
             (Inl err, w1) \<Rightarrow> (Inl err, w1)
           | (Inr None, w1) \<Rightarrow> (Inr headers, w1)
           | (Inr (Some token), w1) \<Rightarrow> (Inr (headers @ [\<lparr>hf_name = ''authorization'', hf_value = token\<rparr>]), w1)))"

text \<open>\<open>EnsureConnected\<close>: the failure, if any, and whether a new connection was made.\<close>

definition EnsureConnected ::
    "('t, 'h) transport \<Rightarrow> sink \<Rightarrow> 't \<Rightarrow> WireResult option \<times> bool \<times> sink \<times> 't" where
  "EnsureConnected tp diag w =
     (if GetState tp w = Connected then (None, False, diag, w)
      else
        case Connect tp w of
          (Some err, w1) \<Rightarrow>
            (Some (wire_failure (err_kind err \<noteq> Kind_Protocol) None (Some err) []), False, count_drop ConnectFailure 1 diag, w1)
        | (None, w1) \<Rightarrow> (None, True, diag, w1))"

definition DeadlineExceeded :: WireResult where
  "DeadlineExceeded = wire_failure True None (Some (an_error Kind_Cancelled ''request deadline exceeded'')) []"

definition compress_body :: "gzip \<Rightarrow> bool \<Rightarrow> bytes \<Rightarrow> bytes \<times> bool" where
  "compress_body gz enabled raw =
     (if enabled then (case GzipCompress gz raw of Some c \<Rightarrow> (c, True) | None \<Rightarrow> (raw, False)) else (raw, False))"

section \<open>Numbers in headers\<close>

lemma digit_chars: "n < 10 \<Longrightarrow> is_digit (char_of (48 + n)) \<and> digit_value (char_of (48 + n)) = n"
proof -
  have "\<forall>n \<in> {..<10::nat}. is_digit (char_of (48 + n)) \<and> digit_value (char_of (48 + n)) = n" by code_simp
  then show "n < 10 \<Longrightarrow> ?thesis" by blast
qed

lemma decimal_snoc: "decimal (s @ [c]) = 10 * decimal s + digit_value c"
  by (simp add: decimal_def)

lemma nat_string_decimal: "decimal (nat_string n) = n \<and> (\<forall>c \<in> set (nat_string n). is_digit c) \<and> nat_string n \<noteq> []"
proof (induction n rule: nat_string.induct)
  case (1 n)
  show ?case
  proof (cases "n < 10")
    case True
    then show ?thesis using digit_chars [of n] by (simp add: nat_string.simps [of n] decimal_def)
  next
    case False
    then show ?thesis using 1 digit_chars [of "n mod 10"] by (simp add: nat_string.simps [of n] decimal_snoc)
  qed
qed

text \<open>What \<open>std::to_string\<close> writes, \<open>std::from_chars\<close> reads, whatever follows that is not a digit.\<close>

lemma from_chars_to_string:
  assumes "lo \<le> i" "i \<le> hi" "negatable \<or> 0 \<le> i" "rest = [] \<or> \<not> is_digit (hd rest)"
  shows "from_chars negatable lo hi (to_string i @ rest) = (Some i, rest)"
proof -
  have dash: "\<not> is_digit (CHR ''-'')" by code_simp
  have run: "takeWhile is_digit (nat_string n @ rest) = nat_string n" "dropWhile is_digit (nat_string n @ rest) = rest" for n
    using nat_string_decimal [of n] assms(4) by (cases rest; simp add: takeWhile_append2 dropWhile_append2)+
  have hd: "hd (nat_string n @ rest) \<noteq> CHR ''-''" for n
    using nat_string_decimal [of n] dash by (metis hd_append2 hd_in_set)
  show ?thesis
    using assms(1-3) nat_string_decimal hd by (auto simp: from_chars_def to_string_def Let_def run)
qed


section \<open>What is put on the wire\<close>

text \<open>The same transport, with a record of the requests it was given.\<close>

definition recording :: "('t, 'h) transport \<Rightarrow> ('t \<times> RequestSpec list, 'h) transport" where
  "recording tp =
     \<lparr>GetState = (\<lambda>(w, sent). GetState tp w),
      Connect = (\<lambda>(w, sent). case Connect tp w of (e, w1) \<Rightarrow> (e, w1, sent)),
      Transport_Send = (\<lambda>spec (w, sent). case Transport_Send tp spec w of (h, w1) \<Rightarrow> (h, w1, sent @ [spec])),
      wait_for = (\<lambda>h ms (w, sent). case wait_for tp h ms w of (r, w1) \<Rightarrow> (r, w1, sent)),
      Cancel = (\<lambda>h (w, sent). (Cancel tp h w, sent)),
      steady_now = (\<lambda>(w, sent). steady_now tp w),
      GetAuthorization = map_option (\<lambda>auth now (w, sent). case auth now w of (a, w1) \<Rightarrow> (a, w1, sent)) (GetAuthorization tp)\<rparr>"

lemma recording_connect: "EnsureConnected (recording tp) diag (w, sent) = (f, fresh, d, w1, sent1) \<Longrightarrow> sent1 = sent"
  by (auto simp: EnsureConnected_def recording_def split: if_splits prod.splits option.splits)

lemma recording_auth:
  assumes "AppendAuthHeader (recording tp) hs (w, sent) = (a, w1, sent1)"
  shows "sent1 = sent" "a = Inr hs' \<Longrightarrow> \<exists>auth. hs' = hs @ auth \<and>
    (auth = [] \<or> GetAuthorization tp \<noteq> None \<and> (\<exists>token. auth = [\<lparr>hf_name = ''authorization'', hf_value = token\<rparr>]))"
  using assms by (auto simp: AppendAuthHeader_def recording_def split: option.splits prod.splits sum.splits)

lemma recording_ops [simp]:
  "Transport_Send (recording tp) spec (w, sent) = (fst (Transport_Send tp spec w), snd (Transport_Send tp spec w), sent @ [spec])"
  "wait_for (recording tp) h ms (w, sent) = (fst (wait_for tp h ms w), snd (wait_for tp h ms w), sent)"
  "Cancel (recording tp) h (w, sent) = (Cancel tp h w, sent)"
  by (auto simp: recording_def split: prod.splits)

section \<open>What the retry engine relies on\<close>

text \<open>
  A codec answers with a success that is final: it asks for no retry and carries no error. The engine then
  settles it at the first attempt.
\<close>

definition settled_success :: "WireResult \<Rightarrow> bool" where
  "settled_success r \<longleftrightarrow> (success r \<longrightarrow> \<not> retryable r \<and> error r = None \<and> retry_after r = None) \<and>
     (\<not> success r \<longrightarrow> partial_success_rejected r = 0)"

locale wire_codec =
  fixes send :: "'c \<Rightarrow> WireResult \<times> 'c"
  assumes answers: "send c = (r, c') \<Longrightarrow> settled_success r"
begin

lemma partial_success_not_retried:
  assumes "send c = (r, c')" "0 < partial_success_rejected r"
  shows "Resolve env policy r batches diag w = (r, diag, w) \<and> success r"
proof -
  have "success r" using answers [OF assms(1)] assms(2) by (auto simp: settled_success_def)
  then show ?thesis by (simp add: Resolve_def)
qed

end

lemma wire_failure_settled [simp]: "settled_success (wire_failure again after err excerpt)"
  by (simp add: settled_success_def wire_failure_def)

lemma wire_failure_sel [simp]:
  "success (wire_failure again after err excerpt) = False" "retryable (wire_failure again after err excerpt) = again"
  "retry_after (wire_failure again after err excerpt) = after" "error (wire_failure again after err excerpt) = err"
  "partial_success_rejected (wire_failure again after err excerpt) = 0"
  "response_excerpt (wire_failure again after err excerpt) = excerpt"
  by (simp_all add: wire_failure_def)

lemma EnsureConnected_failure: "EnsureConnected tp diag w = (Some r, fresh, d, w1) \<Longrightarrow> settled_success r \<and> \<not> success r"
  by (auto simp: EnsureConnected_def split: if_splits prod.splits option.splits)

section \<open>Samples\<close>

text \<open>A compressor that does nothing.\<close>

definition no_gzip :: gzip where
  "no_gzip = \<lparr>GzipCompress = (\<lambda>_. None), GzipDecompress = (\<lambda>_ _. Inl Gzip_Corrupt)\<rparr>"

text \<open>A transport that is connected and answers every request with a response.\<close>

definition sample_transport :: "TransportResult \<Rightarrow> (unit, unit) transport" where
  "sample_transport tr =
     \<lparr>GetState = (\<lambda>_. Connected), Connect = (\<lambda>w. (None, w)), Transport_Send = (\<lambda>_ w. ((), w)),
      wait_for = (\<lambda>_ _ w. (Some tr, w)), Cancel = (\<lambda>_ w. w), steady_now = (\<lambda>_. 0),
      GetAuthorization = Some (\<lambda>_ w. (Inr (Some ''Bearer x''), w))\<rparr>"

end
