(* ===== verification/Grpc_Retry_Info.thy ===== *)
theory Grpc_Retry_Info
  imports Wire_Common
begin

unbundle bit_operations_syntax

text \<open>
  The retry delay a gRPC server may attach to an overload (\<open>src/wire/grpc/grpc_wire_codec.cpp\<close>): the value of
  \<open>grpc-status-details-bin\<close>, a base64 text of a \<open>google.rpc.Status\<close>, whose details may hold a \<open>RetryInfo\<close>,
  which holds a \<open>Duration\<close>. The readers are those of \<open>Proto_Wire\<close>, of which this file has a copy; the
  tags are not checked here: the field number is truncated to 32 bits, and a number of 0 is skipped.

  Durations are milliseconds; the product of the seconds wraps in 64 bits as compiled code does, which the
  language leaves undefined. Proved here: the base64 decoder inverts both alphabets with or without padding,
  and the delay of the first \<open>RetryInfo\<close> is found behind any other details.
\<close>

section \<open>Base64\<close>

definition B64CharValue :: "char \<Rightarrow> int" where
  "B64CharValue c =
     (let n = of_char c :: int
      in if 65 \<le> n \<and> n \<le> 90 then n - 65
         else if 97 \<le> n \<and> n \<le> 122 then n - 97 + 26
         else if 48 \<le> n \<and> n \<le> 57 then n - 48 + 52
         else if c = CHR ''-'' \<or> c = CHR ''+'' then 62
         else if c = CHR ''_'' \<or> c = CHR ''/'' then 63
         else -1)"

definition b64_byte :: "u32 \<Rightarrow> u8" where "b64_byte x = ucast x"

fun b64_loop :: "string \<Rightarrow> bytes \<Rightarrow> bytes option" where
  "b64_loop (s0 # s1 # sv) out =
     (let c0 = B64CharValue s0; c1 = B64CharValue s1
      in if c0 < 0 \<or> c1 < 0 then None
         else
           let out1 = out @ [b64_byte (push_bit 2 (of_int c0) OR drop_bit 4 (of_int c1))]
           in case sv of
                [] \<Rightarrow> Some out1
              | s2 # sv2 \<Rightarrow>
                  let c2 = B64CharValue s2
                  in if c2 < 0 then None
                     else
                       let out2 = out1 @ [b64_byte (push_bit 4 (of_int c1 AND 0xF) OR drop_bit 2 (of_int c2))]
                       in case sv2 of
                            [] \<Rightarrow> Some out2
                          | s3 # sv3 \<Rightarrow>
                              let c3 = B64CharValue s3
                              in if c3 < 0 then None
                                 else b64_loop sv3 (out2 @ [b64_byte (push_bit 6 (of_int c2 AND 0x3) OR of_int c3)]))"
| "b64_loop sv out = Some out"

declare b64_loop.simps(1) [simp del]

fun strip_padding :: "string \<Rightarrow> string" where
  "strip_padding sv = (if sv \<noteq> [] \<and> last sv = CHR ''='' then strip_padding (butlast sv) else sv)"

declare strip_padding.simps [simp del]

definition Base64UrlDecode :: "string \<Rightarrow> bytes option" where
  "Base64UrlDecode sv = b64_loop (strip_padding sv) []"

section \<open>The messages\<close>

definition field_number :: "u64 \<Rightarrow> u32" where "field_number tag = ucast (drop_bit 3 tag)"

definition wire_type :: "u64 \<Rightarrow> u32" where "wire_type tag = ucast (tag AND 7)"

definition ParseDurationField ::
    "bytes \<Rightarrow> u32 \<Rightarrow> u32 \<Rightarrow> 64 word \<Rightarrow> 32 word \<Rightarrow> bool \<times> bytes \<times> 64 word \<times> 32 word" where
  "ParseDurationField data fn wt seconds nanos =
     (if fn = 1 \<and> wt = 0 then
        (case ReadVarint data of
           (None, data1) \<Rightarrow> (False, data1, seconds, nanos)
         | (Some v, data1) \<Rightarrow> (True, data1, v, nanos))
      else if fn = 2 \<and> wt = 0 then
        (case ReadVarint data of
           (None, data1) \<Rightarrow> (False, data1, seconds, nanos)
         | (Some v, data1) \<Rightarrow> (True, data1, seconds, ucast v))
      else (case SkipField data wt of (ok, data1) \<Rightarrow> (ok, data1, seconds, nanos)))"

lemma ParseDurationField_le: "ParseDurationField data fn wt s n = (ok, data1, s1, n1) \<Longrightarrow> length data1 \<le> length data"
  unfolding ParseDurationField_def by (auto split: if_splits prod.splits option.splits dest!: ReadVarint_le SkipField_le)

text \<open>The two words are read as signed numbers; the division truncates.\<close>

definition duration_ms :: "64 word \<Rightarrow> 32 word \<Rightarrow> int" where
  "duration_ms seconds nanos = signed_take_bit 63 (sint seconds * 1000 + (sgn (sint nanos) * (\<bar>sint nanos\<bar> div 1000000)))"

function ParseDurationMs_loop :: "bytes \<Rightarrow> 64 word \<Rightarrow> 32 word \<Rightarrow> int option" where
  "ParseDurationMs_loop data seconds nanos =
     (if data = [] then Some (duration_ms seconds nanos)
      else
        case ReadVarint data of
          (None, data1) \<Rightarrow> None
        | (Some tag, data1) \<Rightarrow>
            (case ParseDurationField data1 (field_number tag) (wire_type tag) seconds nanos of
               (ok, data2, seconds2, nanos2) \<Rightarrow> if ok then ParseDurationMs_loop data2 seconds2 nanos2 else None))"
  by pat_completeness auto
termination
  by (relation "measure (\<lambda>(data, s, n). length data)")
    (auto dest!: ReadVarint_shorter [OF sym] ParseDurationField_le [OF sym])

declare ParseDurationMs_loop.simps [simp del]

definition ParseDurationMs :: "bytes \<Rightarrow> int option" where
  "ParseDurationMs data = ParseDurationMs_loop data 0 0"

definition ReadRetryDelayField :: "bytes \<Rightarrow> int option" where
  "ReadRetryDelayField data =
     (case ReadLenDelim data of (None, data1) \<Rightarrow> None | (Some delay_bytes, data1) \<Rightarrow> ParseDurationMs delay_bytes)"

function ParseRetryInfoMs :: "bytes \<Rightarrow> int option" where
  "ParseRetryInfoMs data =
     (if data = [] then None
      else
        case ReadVarint data of
          (None, data1) \<Rightarrow> None
        | (Some tag, data1) \<Rightarrow>
            if field_number tag = 1 \<and> wire_type tag = 2 then ReadRetryDelayField data1
            else (case SkipField data1 (wire_type tag) of (ok, data2) \<Rightarrow> if ok then ParseRetryInfoMs data2 else None))"
  by pat_completeness auto
termination
  by (relation "measure length") (auto dest!: ReadVarint_shorter [OF sym] SkipField_le [OF sym])

declare ParseRetryInfoMs.simps [simp del]

definition chars_of :: "bytes \<Rightarrow> string" where "chars_of bs = map (\<lambda>b. char_of (unat b)) bs"

definition ParseAnyField ::
    "bytes \<Rightarrow> u32 \<Rightarrow> u32 \<Rightarrow> string \<Rightarrow> bytes option \<Rightarrow> bool \<times> bytes \<times> string \<times> bytes option" where
  "ParseAnyField data fn wt type_url any_value =
     (if fn = 1 \<and> wt = 2 then
        (case ReadLenDelim data of
           (None, data1) \<Rightarrow> (False, data1, type_url, any_value)
         | (Some bs, data1) \<Rightarrow> (True, data1, chars_of bs, any_value))
      else if fn = 2 \<and> wt = 2 then
        (case ReadLenDelim data of (v, data1) \<Rightarrow> (v \<noteq> None, data1, type_url, v))
      else (case SkipField data wt of (ok, data1) \<Rightarrow> (ok, data1, type_url, any_value)))"

lemma ParseAnyField_le: "ParseAnyField data fn wt u v = (ok, data1, u1, v1) \<Longrightarrow> length data1 \<le> length data"
  unfolding ParseAnyField_def by (auto split: if_splits prod.splits option.splits dest!: ReadLenDelim_le SkipField_le)

function ParseAny_loop :: "bytes \<Rightarrow> string \<Rightarrow> bytes option \<Rightarrow> (string \<times> bytes) option" where
  "ParseAny_loop data type_url any_value =
     (if data = [] then (case any_value of None \<Rightarrow> None | Some v \<Rightarrow> Some (type_url, v))
      else
        case ReadVarint data of
          (None, data1) \<Rightarrow> None
        | (Some tag, data1) \<Rightarrow>
            (case ParseAnyField data1 (field_number tag) (wire_type tag) type_url any_value of
               (ok, data2, url2, value2) \<Rightarrow> if ok then ParseAny_loop data2 url2 value2 else None))"
  by pat_completeness auto
termination
  by (relation "measure (\<lambda>(data, u, v). length data)")
    (auto dest!: ReadVarint_shorter [OF sym] ParseAnyField_le [OF sym])

declare ParseAny_loop.simps [simp del]

definition ParseAny :: "bytes \<Rightarrow> (string \<times> bytes) option" where
  "ParseAny data = ParseAny_loop data [] None"

definition kRetryInfoTypeUrl :: string where
  "kRetryInfoTypeUrl = ''type.googleapis.com/google.rpc.RetryInfo''"

definition TryParseRetryInfoFromAny :: "bytes \<Rightarrow> int option" where
  "TryParseRetryInfoFromAny any_bytes =
     (case ParseAny any_bytes of
        None \<Rightarrow> None
      | Some (url, v) \<Rightarrow> if url \<noteq> kRetryInfoTypeUrl then None else ParseRetryInfoMs v)"

record RetrySearchSignal =
  sig_stop :: bool
  sig_delay :: "int option"

definition SearchStatusField :: "bytes \<Rightarrow> u32 \<Rightarrow> u32 \<Rightarrow> RetrySearchSignal \<times> bytes" where
  "SearchStatusField data fn wt =
     (if fn = 3 \<and> wt = 2 then
        (case ReadLenDelim data of
           (None, data1) \<Rightarrow> (\<lparr>sig_stop = True, sig_delay = None\<rparr>, data1)
         | (Some any_bytes, data1) \<Rightarrow>
             let result = TryParseRetryInfoFromAny any_bytes
             in (\<lparr>sig_stop = result \<noteq> None, sig_delay = result\<rparr>, data1))
      else (case SkipField data wt of (ok, data1) \<Rightarrow> (\<lparr>sig_stop = \<not> ok, sig_delay = None\<rparr>, data1)))"

lemma SearchStatusField_le: "SearchStatusField data fn wt = (sig, data1) \<Longrightarrow> length data1 \<le> length data"
  unfolding SearchStatusField_def by (auto simp: Let_def split: if_splits prod.splits option.splits dest!: ReadLenDelim_le SkipField_le)

function ParseStatusForRetryInfo :: "bytes \<Rightarrow> int option" where
  "ParseStatusForRetryInfo data =
     (if data = [] then None
      else
        case ReadVarint data of
          (None, data1) \<Rightarrow> None
        | (Some tag, data1) \<Rightarrow>
            (case SearchStatusField data1 (field_number tag) (wire_type tag) of
               (sig, data2) \<Rightarrow> if sig_stop sig then sig_delay sig else ParseStatusForRetryInfo data2))"
  by pat_completeness auto
termination
  by (relation "measure length") (auto dest!: ReadVarint_shorter [OF sym] SearchStatusField_le [OF sym])

declare ParseStatusForRetryInfo.simps [simp del]

definition TryDecodeRetryDelay :: "string \<Rightarrow> int option" where
  "TryDecodeRetryDelay details_bin =
     (case Base64UrlDecode details_bin of
        None \<Rightarrow> None
      | Some bs \<Rightarrow> if bs = [] then None else ParseStatusForRetryInfo bs)"


section \<open>Base64 round trip\<close>

text \<open>RFC 4648, over any alphabet.\<close>

fun b64_encode :: "(nat \<Rightarrow> char) \<Rightarrow> bytes \<Rightarrow> string" where
  "b64_encode al [] = []"
| "b64_encode al [a] = [al (unat a div 4), al ((unat a mod 4) * 16)]"
| "b64_encode al [a, b] = [al (unat a div 4), al ((unat a mod 4) * 16 + unat b div 16), al ((unat b mod 16) * 4)]"
| "b64_encode al (a # b # c # bs) =
     al (unat a div 4) # al ((unat a mod 4) * 16 + unat b div 16) # al ((unat b mod 16) * 4 + unat c div 64) #
     al (unat c mod 64) # b64_encode al bs"

definition b64_alphabet :: "(nat \<Rightarrow> char) \<Rightarrow> bool" where
  "b64_alphabet al \<longleftrightarrow> (\<forall>k \<in> {..<64}. B64CharValue (al k) = int k)"

definition std_alphabet :: "nat \<Rightarrow> char" where
  "std_alphabet k = ''ABCDEFGHIJKLMNOPQRSTUVWXYZabcdefghijklmnopqrstuvwxyz0123456789+/'' ! k"

definition url_alphabet :: "nat \<Rightarrow> char" where
  "url_alphabet k = ''ABCDEFGHIJKLMNOPQRSTUVWXYZabcdefghijklmnopqrstuvwxyz0123456789-_'' ! k"

lemma alphabets: "b64_alphabet std_alphabet" "b64_alphabet url_alphabet"
  by code_simp+

lemma join_bits: "y < 2 ^ k \<Longrightarrow> (push_bit k (of_nat x) OR of_nat y :: u32) = of_nat (x * 2 ^ k + y)"
proof -
  assume y: "y < 2 ^ k"
  have "(push_bit k (of_nat x) :: u32) + of_nat y = push_bit k (of_nat x) OR of_nat y"
  proof (rule disjunctive_add)
    fix i
    have "\<not> bit y i" if "k \<le> i" using y that by (metis bit_take_bit_iff leD take_bit_nat_eq_self)
    then show "\<not> bit (push_bit k (of_nat x) :: u32) i \<or> \<not> bit (of_nat y :: u32) i" by (auto simp: bit_simps)
  qed
  then show ?thesis by (simp add: push_bit_eq_mult)
qed

lemma small_word_ops:
  assumes "n < 256"
  shows "drop_bit k (of_nat n :: u32) = of_nat (n div 2 ^ k)" "(of_nat n AND 0xF :: u32) = of_nat (n mod 16)"
    "(of_nat n AND 0x3 :: u32) = of_nat (n mod 4)"
proof -
  have u: "unat (of_nat n :: u32) = n" using assms by (simp add: unat_of_nat take_bit_nat_eq_self)
  then show "drop_bit k (of_nat n :: u32) = of_nat (n div 2 ^ k)"
    by (metis drop_bit_eq_div of_nat_unat ucast_id unat_drop_bit_eq)
  have mask: "(0xF :: u32) = mask 4" "(0x3 :: u32) = mask 2" by (simp_all add: mask_eq_exp_minus_1)
  show "(of_nat n AND 0xF :: u32) = of_nat (n mod 16)" "(of_nat n AND 0x3 :: u32) = of_nat (n mod 4)"
    unfolding mask take_bit_eq_mask [symmetric] by (simp_all add: take_bit_eq_mod word_arith_nat_mod u)
qed

lemma byte_of_nat: "n < 256 \<Longrightarrow> b64_byte (of_nat n) = of_nat n"
  unfolding b64_byte_def by (subst of_nat_unat [symmetric]) (simp add: unat_of_nat take_bit_nat_eq_self)

lemma b64_bytes:
  assumes "s0 < 64" "s1 < 64" "s2 < 64" "s3 < 64"
  shows "b64_byte (push_bit 2 (of_nat s0) OR drop_bit 4 (of_nat s1)) = of_nat (s0 * 4 + s1 div 16)"
    "b64_byte (push_bit 4 (of_nat s1 AND 0xF) OR drop_bit 2 (of_nat s2)) = of_nat ((s1 mod 16) * 16 + s2 div 4)"
    "b64_byte (push_bit 6 (of_nat s2 AND 0x3) OR of_nat s3) = of_nat ((s2 mod 4) * 64 + s3)"
  using assms join_bits [of "s1 div 16" 2 s0] join_bits [of "s2 div 4" 4 "s1 mod 16"] join_bits [of s3 6 "s2 mod 4"]
    small_word_ops [of s1] small_word_ops [of s2] byte_of_nat [of "s0 * 4 + s1 div 16"]
    byte_of_nat [of "(s1 mod 16) * 16 + s2 div 4"] byte_of_nat [of "(s2 mod 4) * 64 + s3"]
  by (simp_all add: less_mult_imp_div_less)


lemma sextets: "s0 = unat a div 4 \<Longrightarrow> s1 = (unat a mod 4) * 16 + y \<Longrightarrow> y < 16 \<Longrightarrow> s0 < 64 \<and> s1 < 64 \<and> s0 * 4 + s1 div 16 = unat a"
  for a :: u8
proof -
  have "unat a < 2 ^ LENGTH(8)" by (rule unsigned_less)
  then show "s0 = unat a div 4 \<Longrightarrow> s1 = (unat a mod 4) * 16 + y \<Longrightarrow> y < 16 \<Longrightarrow> s0 < 64 \<and> s1 < 64 \<and> s0 * 4 + s1 div 16 = unat a"
    by auto
qed

lemma b64_loop_group:
  assumes "b64_alphabet al" "s0 < 64" "s1 < 64" "s2 < 64" "s3 < 64"
  shows "b64_loop [al s0, al s1] out = Some (out @ [of_nat (s0 * 4 + s1 div 16)])"
    "b64_loop [al s0, al s1, al s2] out = Some (out @ [of_nat (s0 * 4 + s1 div 16), of_nat ((s1 mod 16) * 16 + s2 div 4)])"
    "b64_loop (al s0 # al s1 # al s2 # al s3 # r) out =
       b64_loop r (out @ [of_nat (s0 * 4 + s1 div 16), of_nat ((s1 mod 16) * 16 + s2 div 4), of_nat ((s2 mod 4) * 64 + s3)])"
proof -
  have al: "B64CharValue (al k) = int k" if "k < 64" for k using assms(1) that by (simp add: b64_alphabet_def)
  note v = al [OF assms(2)] al [OF assms(3)] al [OF assms(4)] al [OF assms(5)]
  note bytes = b64_bytes [OF assms(2-5)]
  show "b64_loop [al s0, al s1] out = Some (out @ [of_nat (s0 * 4 + s1 div 16)])"
    by (simp add: b64_loop.simps(1) v bytes Let_def del: of_nat_add of_nat_mult push_bit_and)
  show "b64_loop [al s0, al s1, al s2] out = Some (out @ [of_nat (s0 * 4 + s1 div 16), of_nat ((s1 mod 16) * 16 + s2 div 4)])"
    by (simp add: b64_loop.simps(1) v bytes Let_def del: of_nat_add of_nat_mult push_bit_and)
  show "b64_loop (al s0 # al s1 # al s2 # al s3 # r) out =
       b64_loop r (out @ [of_nat (s0 * 4 + s1 div 16), of_nat ((s1 mod 16) * 16 + s2 div 4), of_nat ((s2 mod 4) * 64 + s3)])"
    by (simp add: b64_loop.simps(1) v bytes Let_def del: of_nat_add of_nat_mult push_bit_and)
qed

lemma u8_bound: "unat (a :: u8) < 256"
  using unsigned_less [of a] by simp

lemma b64_loop_encode: "b64_alphabet al \<Longrightarrow> b64_loop (b64_encode al bs) out = Some (out @ bs)"
proof (induction al bs arbitrary: out rule: b64_encode.induct)
  case (2 al a)
  have "unat a div 4 < 64" "(unat a mod 4) * 16 < 64" "(unat a div 4) * 4 + ((unat a mod 4) * 16) div 16 = unat a"
    using u8_bound [of a] by auto
  then show ?case using b64_loop_group(1) [OF 2, of "unat a div 4" "(unat a mod 4) * 16" 0 0 out] by (simp del: of_nat_add of_nat_mult)
next
  case (3 al a b)
  let ?s0 = "unat a div 4" and ?s1 = "(unat a mod 4) * 16 + unat b div 16" and ?s2 = "(unat b mod 16) * 4"
  have "?s0 < 64" "?s1 < 64" "?s2 < 64" "?s0 * 4 + ?s1 div 16 = unat a" "(?s1 mod 16) * 16 + ?s2 div 4 = unat b"
    using u8_bound [of a] u8_bound [of b] by auto
  then show ?case using b64_loop_group(2) [OF 3, of ?s0 ?s1 ?s2 0 out] by (simp del: of_nat_add of_nat_mult)
next
  case (4 al a b c bs)
  let ?s0 = "unat a div 4" and ?s1 = "(unat a mod 4) * 16 + unat b div 16" and ?s2 = "(unat b mod 16) * 4 + unat c div 64" and ?s3 = "unat c mod 64"
  have "?s0 < 64" "?s1 < 64" "?s2 < 64" "?s3 < 64" "?s0 * 4 + ?s1 div 16 = unat a" "(?s1 mod 16) * 16 + ?s2 div 4 = unat b"
    "(?s2 mod 4) * 64 + ?s3 = unat c"
    using u8_bound [of a] u8_bound [of b] u8_bound [of c] by auto
  then show ?case using b64_loop_group(3) [OF 4(2), of ?s0 ?s1 ?s2 ?s3 _ out] 4(1) [OF 4(2)] by (simp del: of_nat_add of_nat_mult)
qed simp

lemma strip_padding_replicate: "(s = [] \<or> last s \<noteq> CHR ''='') \<Longrightarrow> strip_padding (s @ replicate n (CHR ''='')) = s"
proof (induction n)
  case (Suc n)
  have "strip_padding (s @ replicate (Suc n) (CHR ''='')) = strip_padding (s @ replicate n (CHR ''=''))"
    unfolding replicate_append_same [symmetric] replicate_Suc append_assoc [symmetric]
    by (subst strip_padding.simps) (simp add: butlast_append)
  then show ?case using Suc by simp
qed (subst strip_padding.simps, auto)

lemma b64_encode_chars: "c \<in> set (b64_encode al bs) \<Longrightarrow> \<exists>k < 64. c = al k"
proof (induction al bs rule: b64_encode.induct)
  case (2 al a)
  then have "c = al (unat a div 4) \<or> c = al ((unat a mod 4) * 16)" by simp
  moreover have "unat a div 4 < 64" "(unat a mod 4) * 16 < 64" using u8_bound [of a] by auto
  ultimately show ?case by blast
next
  case (3 al a b)
  then have "c = al (unat a div 4) \<or> c = al ((unat a mod 4) * 16 + unat b div 16) \<or> c = al ((unat b mod 16) * 4)" by simp
  moreover have "unat a div 4 < 64" "(unat a mod 4) * 16 + unat b div 16 < 64" "(unat b mod 16) * 4 < 64"
    using u8_bound [of a] u8_bound [of b] by auto
  ultimately show ?case by blast
next
  case (4 al a b c' bs)
  then have "c = al (unat a div 4) \<or> c = al ((unat a mod 4) * 16 + unat b div 16) \<or> c = al ((unat b mod 16) * 4 + unat c' div 64) \<or>
      c = al (unat c' mod 64) \<or> c \<in> set (b64_encode al bs)" by simp
  moreover have "unat a div 4 < 64" "(unat a mod 4) * 16 + unat b div 16 < 64" "(unat b mod 16) * 4 + unat c' div 64 < 64" "unat c' mod 64 < 64"
    using u8_bound [of a] u8_bound [of b] u8_bound [of c'] by auto
  ultimately show ?case using 4 by blast
qed simp

lemma Base64UrlDecode_encode:
  assumes "b64_alphabet al"
  shows "Base64UrlDecode (b64_encode al bs @ replicate n (CHR ''='')) = Some bs"
proof -
  have pad: "B64CharValue (CHR ''='') = -1" by code_simp
  have "c \<noteq> CHR ''=''" if c: "c \<in> set (b64_encode al bs)" for c
  proof -
    obtain k where "k < 64" "c = al k" using b64_encode_chars [OF c] by blast
    then have "B64CharValue c = int k" using assms by (simp add: b64_alphabet_def)
    then show ?thesis using pad by auto
  qed
  then have "b64_encode al bs = [] \<or> last (b64_encode al bs) \<noteq> CHR ''=''" by (metis last_in_set)
  then show ?thesis using b64_loop_encode [OF assms, of bs "[]"] by (simp add: Base64UrlDecode_def strip_padding_replicate)
qed

section \<open>The delay is found\<close>

text \<open>One field, read without the checks of \<open>ReadTag\<close>.\<close>

lemma is_field_tag:
  assumes "is_field (n, v) bs"
  obtains tag d where "ReadVarint (bs @ rest) = (Some tag, d)" "field_number tag = of_nat n" "wire_type tag = of_nat (wire_type_of v)"
    "\<exists>p. d = p @ rest \<and> is_payload v p" "n < 2 ^ 29" "bs \<noteq> []"
proof -
  obtain t p where tp: "bs = t @ p" "is_varint t (of_nat (n * 8 + wire_type_of v))" "is_payload v p" "n < 2 ^ 29"
    using assms by (auto simp: is_field_def)
  let ?tag = "of_nat (n * 8 + wire_type_of v) :: u64"
  have u: "unat ?tag = n * 8 + wire_type_of v" using tp(4) wire_type_less [of v] by (intro unat_of_nat_u64) simp
  have n: "n = unat ?tag div 8" "wire_type_of v = unat ?tag mod 8" using u wire_type_less [of v] by simp_all
  note parts = tag_parts [OF n]
  have "field_number ?tag = of_nat n"
    unfolding field_number_def by (subst of_nat_unat [symmetric]) (simp only: parts(2))
  moreover have "wire_type ?tag = of_nat (wire_type_of v)"
    unfolding wire_type_def parts(3) by (subst of_nat_unat [symmetric]) (use wire_type_less [of v] in \<open>simp add: unat_of_nat_u64\<close>)
  moreover have "ReadVarint (bs @ rest) = (Some ?tag, p @ rest)" using tp ReadVarint_append by simp
  moreover have "bs \<noteq> []" using tp(1,2) by (auto simp: is_varint_def)
  ultimately show thesis using tp that by blast
qed

lemma number_u32_eq: "n < 2 ^ 29 \<Longrightarrow> k < 2 ^ 29 \<Longrightarrow> (of_nat n :: u32) = of_nat k \<longleftrightarrow> n = k"
  by (simp add: word_eq_iff_unsigned [where ?'a = nat] unat_of_nat take_bit_nat_eq_self)

lemma payload_skip: "d = p @ rest \<and> is_payload v p \<Longrightarrow> SkipField d (of_nat (wire_type_of v)) = (True, rest)"
  using SkipField_iff [OF wire_type_less] by blast

definition reads_field :: "nat \<Rightarrow> wire_value \<Rightarrow> bytes \<Rightarrow> bytes \<Rightarrow> u64 \<Rightarrow> bytes \<Rightarrow> bool" where
  "reads_field m v bs rest tag d \<longleftrightarrow> ReadVarint (bs @ rest) = (Some tag, d) \<and> bs \<noteq> [] \<and>
     wire_type tag = of_nat (wire_type_of v) \<and> (\<forall>k < 2 ^ 29. field_number tag = of_nat k \<longleftrightarrow> m = k) \<and>
     SkipField d (wire_type tag) = (True, rest) \<and> (\<forall>x. v = Varint x \<longrightarrow> ReadVarint d = (Some x, rest)) \<and>
     (\<forall>xs. v = LenDelim xs \<longrightarrow> ReadLenDelim d = (Some xs, rest))"

lemma field_step:
  assumes "is_field (m, v) bs"
  shows "\<exists>tag d. reads_field m v bs rest tag d"
proof -
  obtain tag d where d: "ReadVarint (bs @ rest) = (Some tag, d)" "field_number tag = of_nat m" "wire_type tag = of_nat (wire_type_of v)"
    "\<exists>p. d = p @ rest \<and> is_payload v p" "m < 2 ^ 29" "bs \<noteq> []"
    using is_field_tag [of m v bs rest] assms by metis
  have "v = LenDelim xs \<Longrightarrow> ReadLenDelim d = (Some xs, rest)" for xs using d(4) ReadLenDelim_iff by metis
  moreover have "v = Varint x \<Longrightarrow> ReadVarint d = (Some x, rest)" for x using d(4) ReadVarint_append by auto
  ultimately have "reads_field m v bs rest tag d"
    unfolding reads_field_def using d number_u32_eq [OF d(5)] payload_skip by metis
  then show ?thesis by blast
qed

lemma reads_fieldD:
  assumes "reads_field m v bs rest tag d"
  shows "ReadVarint (bs @ rest) = (Some tag, d)" "bs \<noteq> []" "wire_type tag = of_nat (wire_type_of v)"
    "field_number tag = 1 \<longleftrightarrow> m = 1" "field_number tag = 2 \<longleftrightarrow> m = 2" "field_number tag = 3 \<longleftrightarrow> m = 3"
    "SkipField d (of_nat (wire_type_of v)) = (True, rest)" "v = Varint x \<Longrightarrow> ReadVarint d = (Some x, rest)"
    "v = LenDelim xs \<Longrightarrow> ReadLenDelim d = (Some xs, rest)"
proof -
  have num: "\<forall>k < 2 ^ 29. field_number tag = of_nat k \<longleftrightarrow> m = k" using assms by (simp add: reads_field_def)
  show "field_number tag = 1 \<longleftrightarrow> m = 1" "field_number tag = 2 \<longleftrightarrow> m = 2" "field_number tag = 3 \<longleftrightarrow> m = 3"
    using num [rule_format, of 1] num [rule_format, of 2] num [rule_format, of 3] by simp_all
qed (use assms in \<open>auto simp: reads_field_def\<close>)

fun seconds_of :: "field list \<Rightarrow> 64 word \<Rightarrow> 64 word" where
  "seconds_of [] s = s"
| "seconds_of ((n, v) # fs) s = seconds_of fs (case v of Varint x \<Rightarrow> if n = 1 then x else s | _ \<Rightarrow> s)"

fun nanos_of :: "field list \<Rightarrow> 32 word \<Rightarrow> 32 word" where
  "nanos_of [] s = s"
| "nanos_of ((n, v) # fs) s = nanos_of fs (case v of Varint x \<Rightarrow> if n = 2 then ucast x else s | _ \<Rightarrow> s)"

lemma ParseDurationMs_complete:
  "is_message fs data \<Longrightarrow> ParseDurationMs_loop data s n = Some (duration_ms (seconds_of fs s) (nanos_of fs n))"
proof (induction fs data arbitrary: s n rule: is_message.induct)
  case message_nil
  then show ?case by (simp add: ParseDurationMs_loop.simps)
next
  case (message_cons f bs fs rest)
  obtain m v where f: "f = (m, v)" by (metis prod.exhaust)
  obtain tag d where "reads_field m v bs rest tag d" using field_step message_cons.hyps(1) f by blast
  note d = reads_fieldD [OF this]
  have "ParseDurationField d (field_number tag) (wire_type tag) s n =
      (True, rest, (case v of Varint x \<Rightarrow> if m = 1 then x else s | _ \<Rightarrow> s), (case v of Varint x \<Rightarrow> if m = 2 then ucast x else n | _ \<Rightarrow> n))"
    unfolding ParseDurationField_def using d(3-9) by (cases v) auto
  then show ?case using d(1,2) message_cons.IH f by (subst ParseDurationMs_loop.simps) simp
qed


fun url_of :: "field list \<Rightarrow> string \<Rightarrow> string" where
  "url_of [] u = u"
| "url_of ((n, v) # fs) u = url_of fs (case v of LenDelim x \<Rightarrow> if n = 1 then chars_of x else u | _ \<Rightarrow> u)"

fun value_of :: "field list \<Rightarrow> bytes option \<Rightarrow> bytes option" where
  "value_of [] u = u"
| "value_of ((n, v) # fs) u = value_of fs (case v of LenDelim x \<Rightarrow> if n = 2 then Some x else u | _ \<Rightarrow> u)"

lemma ParseAny_complete:
  "is_message fs data \<Longrightarrow>
   ParseAny_loop data u x = (case value_of fs x of None \<Rightarrow> None | Some v \<Rightarrow> Some (url_of fs u, v))"
proof (induction fs data arbitrary: u x rule: is_message.induct)
  case message_nil
  then show ?case by (simp add: ParseAny_loop.simps split: option.split)
next
  case (message_cons f bs fs rest)
  obtain m v where f: "f = (m, v)" by (metis prod.exhaust)
  obtain tag d where "reads_field m v bs rest tag d" using field_step message_cons.hyps(1) f by blast
  note d = reads_fieldD [OF this]
  have "ParseAnyField d (field_number tag) (wire_type tag) u x =
      (True, rest, (case v of LenDelim y \<Rightarrow> if m = 1 then chars_of y else u | _ \<Rightarrow> u), (case v of LenDelim y \<Rightarrow> if m = 2 then Some y else x | _ \<Rightarrow> x))"
    unfolding ParseAnyField_def using d(3-9) by (cases v) auto
  then show ?case using d(1,2) message_cons.IH f by (subst ParseAny_loop.simps) (simp split: option.split)
qed

fun first_len :: "nat \<Rightarrow> field list \<Rightarrow> bytes option" where
  "first_len k [] = None"
| "first_len k ((n, v) # fs) = (case v of LenDelim x \<Rightarrow> if n = k then Some x else first_len k fs | _ \<Rightarrow> first_len k fs)"

lemma ParseRetryInfoMs_complete:
  "is_message fs data \<Longrightarrow> ParseRetryInfoMs data = (case first_len 1 fs of None \<Rightarrow> None | Some x \<Rightarrow> ParseDurationMs x)"
proof (induction fs data rule: is_message.induct)
  case message_nil
  then show ?case by (simp add: ParseRetryInfoMs.simps)
next
  case (message_cons f bs fs rest)
  obtain m v where f: "f = (m, v)" by (metis prod.exhaust)
  obtain tag d where "reads_field m v bs rest tag d" using field_step message_cons.hyps(1) f by blast
  note d = reads_fieldD [OF this]
  show ?case
    using d message_cons.IH f
    by (subst ParseRetryInfoMs.simps) (cases v; auto simp: ReadRetryDelayField_def)
qed

fun details_of :: "field list \<Rightarrow> bytes list" where
  "details_of [] = []"
| "details_of ((n, v) # fs) = (case v of LenDelim x \<Rightarrow> if n = 3 then x # details_of fs else details_of fs | _ \<Rightarrow> details_of fs)"

fun first_some :: "('a \<Rightarrow> 'b option) \<Rightarrow> 'a list \<Rightarrow> 'b option" where
  "first_some g [] = None"
| "first_some g (x # xs) = (case g x of None \<Rightarrow> first_some g xs | Some y \<Rightarrow> Some y)"

lemma ParseStatus_complete:
  "is_message fs data \<Longrightarrow> ParseStatusForRetryInfo data = first_some TryParseRetryInfoFromAny (details_of fs)"
proof (induction fs data rule: is_message.induct)
  case message_nil
  then show ?case by (simp add: ParseStatusForRetryInfo.simps)
next
  case (message_cons f bs fs rest)
  obtain m v where f: "f = (m, v)" by (metis prod.exhaust)
  obtain tag d where "reads_field m v bs rest tag d" using field_step message_cons.hyps(1) f by blast
  note d = reads_fieldD [OF this]
  show ?case
    using d message_cons.IH f
    by (subst ParseStatusForRetryInfo.simps) (cases v; auto simp: SearchStatusField_def Let_def split: option.splits)
qed


lemma duration_ms_exact:
  assumes "0 \<le> sint s" "sint s < 2 ^ 53" "0 \<le> sint n"
  shows "duration_ms s n = sint s * 1000 + sint n div 1000000"
proof -
  have n: "sint n < 2 ^ 31" using sint_lt [of n] by simp
  let ?ms = "sint s * 1000 + sint n div 1000000"
  have "sgn (sint n) * (\<bar>sint n\<bar> div 1000000) = sint n div 1000000" using assms(3) by (auto simp: sgn_if)
  moreover have "signed_take_bit 63 ?ms = ?ms" using assms n by (intro signed_take_bit_int_eq_self) auto
  ultimately show ?thesis unfolding duration_ms_def by simp
qed

text \<open>
  The delay a server attaches is found. Let the status be any message, in base64 of either alphabet
  with any padding, one of whose details is an \<open>Any\<close> of the type \<open>RetryInfo\<close> whose value has a delay, and
  let the details before it be of other types. Then the delay is that of the last seconds and nanoseconds
  of the duration, in milliseconds rounded down as long as nothing overflows.
\<close>

theorem retry_delay_found:
  assumes "b64_alphabet al" "is_message st bs" "details_of st = pre @ a # post"
    and "\<And>x. x \<in> set pre \<Longrightarrow> \<exists>fs. is_message fs x \<and> url_of fs [] \<noteq> kRetryInfoTypeUrl"
    and "is_message af a" "url_of af [] = kRetryInfoTypeUrl" "value_of af None = Some r"
    and "is_message rf r" "first_len 1 rf = Some delay" "is_message df delay"
    and "0 \<le> sint (seconds_of df 0)" "sint (seconds_of df 0) < 2 ^ 53" "0 \<le> sint (nanos_of df 0)"
  shows "TryDecodeRetryDelay (b64_encode al bs @ replicate n (CHR ''='')) =
    Some (sint (seconds_of df 0) * 1000 + sint (nanos_of df 0) div 1000000)"
proof -
  have pre: "TryParseRetryInfoFromAny x = None" if x: "x \<in> set pre" for x
  proof -
    obtain fs where "is_message fs x" "url_of fs [] \<noteq> kRetryInfoTypeUrl" using assms(4) [OF x] by blast
    then show ?thesis by (simp add: TryParseRetryInfoFromAny_def ParseAny_def ParseAny_complete split: option.splits)
  qed
  have "TryParseRetryInfoFromAny a = ParseDurationMs delay"
    using assms(5-9) by (simp add: TryParseRetryInfoFromAny_def ParseAny_def ParseAny_complete ParseRetryInfoMs_complete)
  also have "\<dots> = Some (sint (seconds_of df 0) * 1000 + sint (nanos_of df 0) div 1000000)"
    using assms(10-13) by (simp add: ParseDurationMs_def ParseDurationMs_complete duration_ms_exact)
  finally have a: "TryParseRetryInfoFromAny a = Some (sint (seconds_of df 0) * 1000 + sint (nanos_of df 0) div 1000000)" .
  have "first_some TryParseRetryInfoFromAny (pre @ a # post) = TryParseRetryInfoFromAny a"
    using pre a by (induction pre) auto
  moreover have "bs \<noteq> []"
  proof
    assume "bs = []"
    then have "st = []" using assms(2) message_unique message_nil by blast
    then show False using assms(3) by simp
  qed
  ultimately show ?thesis
    using a by (simp add: TryDecodeRetryDelay_def Base64UrlDecode_encode [OF assms(1)] ParseStatus_complete [OF assms(2)] assms(3))
qed


text \<open>A status whose only detail is a delay of five seconds.\<close>

definition sample_url :: bytes where "sample_url = map (\<lambda>c. of_nat (of_char c)) kRetryInfoTypeUrl"

definition sample_any :: bytes where
  "sample_any = [0x0A, 0x28] @ sample_url @ [0x12, 0x04, 0x0A, 0x02, 0x08, 0x05]"

lemma single_field: "is_field f bs \<Longrightarrow> is_message [f] bs"
  using message_cons [OF _ message_nil] by simp

lemma one_byte: "k < 128 \<Longrightarrow> is_varint [of_nat k] (of_nat k)"
  using low_digit(1,2) [of k] by (simp add: is_varint_def)

lemma len_field:
  assumes "0 < n" "n < 15" "length xs < 128"
  shows "is_field (n, LenDelim xs) ([of_nat (n * 8 + 2), of_nat (length xs)] @ xs)"
proof -
  have "is_payload (LenDelim xs) ([of_nat (length xs)] @ xs)"
    using one_byte [OF assms(3)] unat_of_nat_u64 [of "length xs"] assms(3)
    by (auto intro!: exI [of _ "[of_nat (length xs)]"] exI [of _ "of_nat (length xs)"])
  then show ?thesis
    using is_fieldI [of n "[of_nat (n * 8 + 2)]" "LenDelim xs" "[of_nat (length xs)] @ xs"] one_byte [of "n * 8 + 2"] assms
    by simp
qed

theorem retry_delay_found_witness:
  "TryDecodeRetryDelay (b64_encode std_alphabet ([0x1A, 0x30] @ sample_any) @ ''='') = Some 5000"
proof -
  have url: "length sample_url = 40" "chars_of sample_url = kRetryInfoTypeUrl" by code_simp+
  have df: "is_message [(1, Varint 5)] [0x08, 0x05]"
    using is_fieldI [of 1 "[0x08]" "Varint 5" "[0x05]"] by (intro single_field) (simp add: is_varint_def)
  have rf: "is_message [(1, LenDelim [0x08, 0x05])] [0x0A, 0x02, 0x08, 0x05]"
    using len_field [of 1 "[0x08, 0x05]"] by (intro single_field) simp
  have "is_message [(1, LenDelim sample_url), (2, LenDelim [0x0A, 0x02, 0x08, 0x05])]
      (([0x0A, 0x28] @ sample_url) @ [0x12, 0x04, 0x0A, 0x02, 0x08, 0x05])"
    using len_field [of 1 sample_url] len_field [of 2 "[0x0A, 0x02, 0x08, 0x05]"] url(1)
    by (intro message_cons single_field) simp_all
  then have af: "is_message [(1, LenDelim sample_url), (2, LenDelim [0x0A, 0x02, 0x08, 0x05])] sample_any" by (simp add: sample_any_def)
  have "is_message [(3, LenDelim sample_any)] ([0x1A, 0x30] @ sample_any)"
    using len_field [of 3 sample_any] url(1) by (intro single_field) (simp add: sample_any_def)
  from retry_delay_found [OF alphabets(1) this _ _ af _ _ rf _ df, of "[]" "[]" 1] show ?thesis
    by (simp add: url(2))
qed

end
