(* ===== verification/Grpc_Codec.thy ===== *)
theory Grpc_Codec
  imports Grpc_Retry_Info
begin

unbundle bit_operations_syntax

text \<open>
  The gRPC codec (\<open>src/wire/grpc/grpc_wire_codec.cpp\<close>, \<open>grpc_status.cpp\<close>): framing, the status table, the
  classification of responses and \<open>Send\<close>. A response yields a \<open>WireResult\<close>, the diagnostics sink after, and
  whether the warning about missing trailers has been given on this connection. The compressor and the
  transport are parameters (\<open>Wire_Common\<close>); the log message of the warning is left out.

  Proved here: a framed payload is read back, the verdict on every response is that of the table of
  retryable codes, and what \<open>Send\<close> puts on the wire agrees with what it says there.
\<close>

section \<open>Status codes\<close>

record GrpcStatusInfo =
  status_name :: string
  status_retryable :: bool

definition kStatusTable :: "GrpcStatusInfo list" where
  "kStatusTable =
     [\<lparr>status_name = ''OK'', status_retryable = False\<rparr>,
      \<lparr>status_name = ''CANCELLED'', status_retryable = True\<rparr>,
      \<lparr>status_name = ''UNKNOWN'', status_retryable = False\<rparr>,
      \<lparr>status_name = ''INVALID_ARGUMENT'', status_retryable = False\<rparr>,
      \<lparr>status_name = ''DEADLINE_EXCEEDED'', status_retryable = True\<rparr>,
      \<lparr>status_name = ''NOT_FOUND'', status_retryable = False\<rparr>,
      \<lparr>status_name = ''ALREADY_EXISTS'', status_retryable = False\<rparr>,
      \<lparr>status_name = ''PERMISSION_DENIED'', status_retryable = False\<rparr>,
      \<lparr>status_name = ''RESOURCE_EXHAUSTED'', status_retryable = False\<rparr>,
      \<lparr>status_name = ''FAILED_PRECONDITION'', status_retryable = False\<rparr>,
      \<lparr>status_name = ''ABORTED'', status_retryable = True\<rparr>,
      \<lparr>status_name = ''OUT_OF_RANGE'', status_retryable = True\<rparr>,
      \<lparr>status_name = ''UNIMPLEMENTED'', status_retryable = False\<rparr>,
      \<lparr>status_name = ''INTERNAL'', status_retryable = False\<rparr>,
      \<lparr>status_name = ''UNAVAILABLE'', status_retryable = True\<rparr>,
      \<lparr>status_name = ''DATA_LOSS'', status_retryable = True\<rparr>,
      \<lparr>status_name = ''UNAUTHENTICATED'', status_retryable = False\<rparr>]"

definition LookupGrpcStatus :: "int \<Rightarrow> GrpcStatusInfo option" where
  "LookupGrpcStatus code = (if code < 0 \<or> code \<ge> 17 then None else Some (kStatusTable ! nat code))"

definition HexValue :: "char \<Rightarrow> nat option" where
  "HexValue c =
     (let n = of_char c :: nat
      in if 48 \<le> n \<and> n \<le> 57 then Some (n - 48)
         else if 97 \<le> n \<and> n \<le> 102 then Some (n - 97 + 10)
         else if 65 \<le> n \<and> n \<le> 70 then Some (n - 65 + 10)
         else None)"

text \<open>The escape at the start of the text, if there is one.\<close>

definition DecodeEscapeAt :: "string \<Rightarrow> char option" where
  "DecodeEscapeAt inp =
     (if hd inp \<noteq> CHR ''%'' \<or> 3 > length inp then None
      else case (HexValue (inp ! 1), HexValue (inp ! 2)) of
             (Some high, Some low) \<Rightarrow> Some (char_of (push_bit 4 high OR low))
           | _ \<Rightarrow> None)"

function GrpcPercentDecode :: "string \<Rightarrow> string" where
  "GrpcPercentDecode inp =
     (if inp = [] then []
      else case DecodeEscapeAt inp of
             Some c \<Rightarrow> c # GrpcPercentDecode (drop 3 inp)
           | None \<Rightarrow> hd inp # GrpcPercentDecode (tl inp))"
  by pat_completeness auto
termination by (relation "measure length") auto

declare GrpcPercentDecode.simps [simp del]

definition kMaxGrpcMessageChars :: nat where "kMaxGrpcMessageChars = 256"

definition FormatGrpcError :: "int \<Rightarrow> string \<Rightarrow> string" where
  "FormatGrpcError code decoded_message =
     (let name = (case LookupGrpcStatus code of Some info \<Rightarrow> status_name info | None \<Rightarrow> ''UNRECOGNIZED'');
          message = take (min (length decoded_message) kMaxGrpcMessageChars) decoded_message
      in name @ '' ('' @ to_string code @ '')'' @ (if message \<noteq> [] then '': '' @ message else []))"

text \<open>A percent encoding is decoded, whichever characters it escapes, as long as it escapes the percent sign.\<close>

definition hex_upper :: "nat \<Rightarrow> char" where "hex_upper d = char_of (if d < 10 then 48 + d else 55 + d)"

definition escaped :: "(char \<Rightarrow> bool) \<Rightarrow> char \<Rightarrow> string" where
  "escaped plain c = (if plain c then [c] else [CHR ''%'', hex_upper (of_char c div 16), hex_upper (of_char c mod 16)])"

lemma HexValue_upper: "d < 16 \<Longrightarrow> HexValue (hex_upper d) = Some d"
proof -
  have "HexValue (char_of (48 + k)) = Some k" if "k < 10" for k using that by (simp add: HexValue_def Let_def take_bit_nat_eq_self)
  moreover have "HexValue (char_of (55 + k)) = Some k" if "10 \<le> k" "k < 16" for k
    using that by (simp add: HexValue_def Let_def take_bit_nat_eq_self)
  ultimately show "d < 16 \<Longrightarrow> HexValue (hex_upper d) = Some d" by (simp add: hex_upper_def)
qed

lemma GrpcPercentDecode_escaped:
  assumes "\<not> plain (CHR ''%'')"
  shows "GrpcPercentDecode (concat (map (escaped plain) s)) = s"
proof (induction s)
  case Nil
  show ?case by (simp add: GrpcPercentDecode.simps)
next
  case (Cons c s)
  let ?rest = "concat (map (escaped plain) s)"
  have byte: "of_char c < (256 :: nat)" by (simp add: of_char_def)
  show ?case
  proof (cases "plain c")
    case True
    then have "c \<noteq> CHR ''%''" using assms by auto
    then have "DecodeEscapeAt (c # ?rest) = None" by (simp add: DecodeEscapeAt_def)
    then show ?thesis using True Cons by (subst GrpcPercentDecode.simps) (simp add: escaped_def [of plain c])
  next
    case False
    have "push_bit 4 (of_char c div 16 :: nat) OR of_char c mod 16 = of_char c"
      using nibbles_join [OF byte] byte by (simp add: and_15_take_bit drop_bit_eq_div take_bit_eq_mod less_mult_imp_div_less)
    then have "DecodeEscapeAt (escaped plain c @ ?rest) = Some c"
      using False byte by (simp add: DecodeEscapeAt_def escaped_def [of plain c] HexValue_upper less_mult_imp_div_less)
    then show ?thesis using False Cons by (subst GrpcPercentDecode.simps) (simp add: escaped_def [of plain c])
  qed
qed

section \<open>Responses\<close>

fun ParseHttpStatus :: "HeaderField list \<Rightarrow> int" where
  "ParseHttpStatus [] = 0"
| "ParseHttpStatus (h # hs) =
     (if hf_name h \<noteq> '':status'' then ParseHttpStatus hs
      else case fst (from_chars_int (hf_value h)) of Some code \<Rightarrow> code | None \<Rightarrow> ParseHttpStatus hs)"

datatype FrameError = Frame_Malformed | Frame_TooLarge | Frame_UnparseableMessage

definition ReadFrameLength :: "bytes \<Rightarrow> u32" where
  "ReadFrameLength body =
     push_bit 24 (ucast (body ! 1)) OR push_bit 16 (ucast (body ! 2)) OR push_bit 8 (ucast (body ! 3)) OR ucast (body ! 4)"

definition DecodeResponseFrame :: "gzip \<Rightarrow> bytes \<Rightarrow> nat \<Rightarrow> FrameError + bytes" where
  "DecodeResponseFrame gz body max_decompressed =
     (if body = [] then Inr []
      else if length body < 5 then Inl Frame_Malformed
      else
        let flag = body ! 0; message = drop 5 body
        in if unat (ReadFrameLength body) \<noteq> length message then Inl Frame_Malformed
           else if flag = 0 then Inr message
           else if flag \<noteq> 1 then Inl Frame_Malformed
           else case GzipDecompress gz message max_decompressed of
                  Inl e \<Rightarrow> Inl (if e = Gzip_TooLarge then Frame_TooLarge else Frame_Malformed)
                | Inr inflated \<Rightarrow> Inr inflated)"

definition FrameFailure :: "FrameError \<Rightarrow> sink \<Rightarrow> WireResult \<times> sink" where
  "FrameFailure err diag =
     (let too_large = (err = Frame_TooLarge);
          reason = (if too_large then DecompressionTooLarge else MalformedResponse);
          message = (if too_large then ''response exceeds max_decompressed_bytes''
            else if err = Frame_UnparseableMessage then ''unparseable export response message''
            else ''malformed gRPC response frame'')
      in (wire_failure False None (Some (an_error Kind_Malformed message)) [], count_drop reason 1 diag))"

definition DecodeGrpcMessage :: "TransportResult \<Rightarrow> string" where
  "DecodeGrpcMessage tr =
     (let raw = (case FindHeaderValue (response_trailers tr) ''grpc-message'' of
                   Some m \<Rightarrow> Some m | None \<Rightarrow> FindHeaderValue (response_headers tr) ''grpc-message'')
      in case raw of None \<Rightarrow> [] | Some m \<Rightarrow> if m = [] then [] else GrpcPercentDecode m)"

definition Grpc_BuildExcerpt :: "string \<Rightarrow> string" where
  "Grpc_BuildExcerpt message = (if length message \<le> kMaxGrpcMessageChars then message else take kMaxGrpcMessageChars message)"

definition ClassifyMissingGrpcStatus :: "HeaderField list \<Rightarrow> sink \<Rightarrow> bool \<Rightarrow> WireResult \<times> sink \<times> bool" where
  "ClassifyMissingGrpcStatus headers diag already_warned =
     (let http_status = ParseHttpStatus headers;
          again = (http_status = 429 \<or> http_status = 502 \<or> http_status = 503 \<or> http_status = 504)
      in (wire_failure again None
            (Some (an_error Kind_Protocol (''missing grpc-status (HTTP '' @ to_string http_status @ '')''))) [],
          if again then diag else count_drop MalformedResponse 1 diag, True))"

definition ResourceExhaustedWithoutRetryInfo :: "TransportResult \<Rightarrow> WireResult" where
  "ResourceExhaustedWithoutRetryInfo tr =
     (let decoded = DecodeGrpcMessage tr
      in wire_failure False None
           (Some (an_error Kind_Protocol (FormatGrpcError 8 decoded @ '' - no RetryInfo, not retried''))) (Grpc_BuildExcerpt decoded))"

definition ClassifyResourceExhausted :: "TransportResult \<Rightarrow> WireResult" where
  "ClassifyResourceExhausted tr =
     (let details = (case FindHeaderValue (response_trailers tr) ''grpc-status-details-bin'' of
                       Some m \<Rightarrow> Some m | None \<Rightarrow> FindHeaderValue (response_headers tr) ''grpc-status-details-bin'')
      in case details of
           None \<Rightarrow> ResourceExhaustedWithoutRetryInfo tr
         | Some d \<Rightarrow>
             (case TryDecodeRetryDelay d of
                None \<Rightarrow> ResourceExhaustedWithoutRetryInfo tr
              | Some delay \<Rightarrow> wire_failure True (Some delay) None []))"

definition ClassifyGrpcSuccess :: "gzip \<Rightarrow> TransportResult \<Rightarrow> nat \<Rightarrow> sink \<Rightarrow> WireResult \<times> sink" where
  "ClassifyGrpcSuccess gz tr max_decompressed diag =
     (case DecodeResponseFrame gz (response_body tr) max_decompressed of
        Inl e \<Rightarrow> FrameFailure e diag
      | Inr message \<Rightarrow>
          let parsed = ParseRejectedSpans message
          in if outcome parsed = Unparseable then FrameFailure Frame_UnparseableMessage diag
             else (\<lparr>success = True, retryable = False, retry_after = None, partial_success_rejected = unat (rejected parsed),
                    error = None, response_excerpt = []\<rparr>, diag))"

definition ClassifyGrpcCode :: "gzip \<Rightarrow> int \<Rightarrow> TransportResult \<Rightarrow> nat \<Rightarrow> sink \<Rightarrow> WireResult \<times> sink" where
  "ClassifyGrpcCode gz code tr max_decompressed diag =
     (if code = 0 then ClassifyGrpcSuccess gz tr max_decompressed diag
      else if code = 8 then (ClassifyResourceExhausted tr, diag)
      else
        let again = (case LookupGrpcStatus code of Some info \<Rightarrow> status_retryable info | None \<Rightarrow> False);
            decoded = DecodeGrpcMessage tr
        in (wire_failure again None (Some (an_error Kind_Protocol (FormatGrpcError code decoded))) (Grpc_BuildExcerpt decoded), diag))"

definition ClassifyTransportFailure :: "TransportResult \<Rightarrow> sink \<Rightarrow> WireResult \<times> sink" where
  "ClassifyTransportFailure tr diag =
     (let diag1 = (if response_too_large tr then count_drop ResponseTooLarge 1 diag else diag);
          diag2 = (if transport_busy tr then count_drop TransportBusy 1 diag1 else diag1)
      in (wire_failure (\<not> response_too_large tr) None (tr_error tr) [], diag2))"

definition grpc_status_text :: "TransportResult \<Rightarrow> string option" where
  "grpc_status_text tr =
     (case FindHeaderValue (response_trailers tr) ''grpc-status'' of
        Some s \<Rightarrow> Some s | None \<Rightarrow> FindHeaderValue (response_headers tr) ''grpc-status'')"

definition Grpc_ClassifyResponse :: "gzip \<Rightarrow> TransportResult \<Rightarrow> nat \<Rightarrow> sink \<Rightarrow> bool \<Rightarrow> WireResult \<times> sink \<times> bool" where
  "Grpc_ClassifyResponse gz tr max_decompressed diag already_warned =
     (if tr_error tr \<noteq> None then (case ClassifyTransportFailure tr diag of (r, d) \<Rightarrow> (r, d, already_warned))
      else case grpc_status_text tr of
             None \<Rightarrow> ClassifyMissingGrpcStatus (response_headers tr) diag already_warned
           | Some s \<Rightarrow>
               let code = (case fst (from_chars_int s) of Some c \<Rightarrow> c | None \<Rightarrow> -1)
               in case ClassifyGrpcCode gz code tr max_decompressed diag of (r, d) \<Rightarrow> (r, d, already_warned))"

section \<open>Requests\<close>

definition FramePayload :: "bytes \<Rightarrow> bool \<Rightarrow> bytes" where
  "FramePayload body compressed =
     (let n = length body
      in [if compressed then 1 else 0, of_nat (drop_bit 24 n AND 0xFF), of_nat (drop_bit 16 n AND 0xFF),
          of_nat (drop_bit 8 n AND 0xFF), of_nat (n AND 0xFF)] @ body)"

record GrpcWireCodecConfig =
  gc_host :: string
  gc_scheme :: string
  gc_extra_headers :: "HeaderField list"
  gc_service_path :: string
  gc_compression_gzip :: bool
  gc_max_decompressed_bytes :: u32

record GrpcWireCodec =
  gw_config :: GrpcWireCodecConfig
  gw_diag :: sink
  gw_warned :: bool

abbreviation header :: "string \<Rightarrow> string \<Rightarrow> HeaderField" where
  "header n v \<equiv> \<lparr>hf_name = n, hf_value = v\<rparr>"

definition kGrpcTracesPath :: string where
  "kGrpcTracesPath = ''/opentelemetry.proto.collector.trace.v1.TraceService/Export''"

definition grpc_base_headers :: "GrpcWireCodecConfig \<Rightarrow> bool \<Rightarrow> HeaderField list" where
  "grpc_base_headers cfg compressed =
     [header '':method'' ''POST'', header '':scheme'' (gc_scheme cfg), header '':authority'' (gc_host cfg),
      header '':path'' (if gc_service_path cfg = [] then kGrpcTracesPath else gc_service_path cfg),
      header ''te'' ''trailers'', header ''content-type'' ''application/grpc+proto'',
      header ''user-agent'' ''microtel-cpp/1.2.3'', header ''grpc-accept-encoding'' ''gzip'']
     @ (if compressed then [header ''grpc-encoding'' ''gzip''] else []) @ gc_extra_headers cfg"

definition Grpc_BuildHeaders ::
    "('t, 'h) transport \<Rightarrow> GrpcWireCodecConfig \<Rightarrow> bool \<Rightarrow> 't \<Rightarrow> (Error + HeaderField list) \<times> 't" where
  "Grpc_BuildHeaders tp cfg compressed w = AppendAuthHeader tp (grpc_base_headers cfg compressed) w"

definition Grpc_Send ::
    "gzip \<Rightarrow> ('t, 'h) transport \<Rightarrow> bytes \<Rightarrow> int \<Rightarrow> GrpcWireCodec \<Rightarrow> 't \<Rightarrow> WireResult \<times> GrpcWireCodec \<times> 't" where
  "Grpc_Send gz tp payload deadline c w =
     (case EnsureConnected tp (gw_diag c) w of
        (Some failure, fresh, d, w1) \<Rightarrow> (failure, c\<lparr>gw_diag := d\<rparr>, w1)
      | (None, fresh, d, w1) \<Rightarrow>
          let c1 = c\<lparr>gw_diag := d, gw_warned := (if fresh then False else gw_warned c)\<rparr>;
              (body, did_compress) = compress_body gz (gc_compression_gzip (gw_config c)) payload;
              framed = FramePayload body did_compress
          in case Grpc_BuildHeaders tp (gw_config c) did_compress w1 of
               (Inl err, w2) \<Rightarrow> (AuthFailure err, c1, w2)
             | (Inr headers, w2) \<Rightarrow>
                 (case Transport_Send tp \<lparr>rs_headers = headers, rs_payload = framed, rs_deadline = deadline\<rparr> w2 of
                    (handle, w3) \<Rightarrow>
                      (case wait_for tp handle deadline w3 of
                         (None, w4) \<Rightarrow> (DeadlineExceeded, c1, Cancel tp handle w4)
                       | (Some tr, w4) \<Rightarrow>
                           (case Grpc_ClassifyResponse gz tr (unat (gc_max_decompressed_bytes (gw_config c))) (gw_diag c1) (gw_warned c1) of
                              (r, d2, warned) \<Rightarrow> (r, c1\<lparr>gw_diag := d2, gw_warned := warned\<rparr>, w4)))))"


section \<open>Frames\<close>

lemma ReadFrameLength_value:
  "unat (ReadFrameLength (f # a # b # c # d # body)) = ((unat a * 256 + unat b) * 256 + unat c) * 256 + unat d"
proof -
  have "ReadFrameLength (f # a # b # c # d # body) =
      push_bit 8 (push_bit 8 (push_bit 8 (of_nat (unat a)) OR of_nat (unat b)) OR of_nat (unat c)) OR of_nat (unat d)"
    by (simp add: ReadFrameLength_def push_bit_or push_bit_push_bit or.assoc)
  also have "\<dots> = of_nat (((unat a * 256 + unat b) * 256 + unat c) * 256 + unat d)"
    using join_bits [of "unat b" 8 "unat a"] join_bits [of "unat c" 8 "unat a * 256 + unat b"]
      join_bits [of "unat d" 8 "(unat a * 256 + unat b) * 256 + unat c"] u8_bound [of b] u8_bound [of c] u8_bound [of d]
    by (simp del: of_nat_add of_nat_mult)
  finally have eq: "ReadFrameLength (f # a # b # c # d # body) = of_nat (((unat a * 256 + unat b) * 256 + unat c) * 256 + unat d)" .
  have "((unat a * 256 + unat b) * 256 + unat c) * 256 + unat d < 2 ^ 32"
    using u8_bound [of a] u8_bound [of b] u8_bound [of c] u8_bound [of d] by simp
  then show ?thesis unfolding eq unat_of_nat by (simp add: take_bit_nat_eq_self)
qed

lemma byte_digit: "unat (of_nat (n AND 0xFF) :: u8) = n mod 256" for n :: nat
proof -
  have "n AND 0xFF = n mod 256" using take_bit_eq_mask [of 8 n] by (simp add: mask_eq_exp_minus_1 take_bit_eq_mod)
  then show ?thesis by (simp add: unat_of_nat take_bit_nat_eq_self)
qed

lemma FramePayload_length:
  assumes "length body < 2 ^ 32"
  shows "unat (ReadFrameLength (FramePayload body compressed)) = length body"
proof -
  let ?n = "length body"
  have "?n div 2 ^ 24 mod 256 = ?n div 2 ^ 24" using assms by simp
  moreover have "((?n div 2 ^ 24 * 256 + ?n div 2 ^ 16 mod 256) * 256 + ?n div 2 ^ 8 mod 256) * 256 + ?n mod 256 = ?n"
  proof -
    have "?n div 2 ^ 16 = ?n div 2 ^ 8 div 256" "?n div 2 ^ 24 = ?n div 2 ^ 16 div 256" by (simp_all flip: div_mult2_eq)
    then show ?thesis by (simp add: div_mult_mod_eq)
  qed
  ultimately show ?thesis
    by (simp add: FramePayload_def Let_def ReadFrameLength_value byte_digit drop_bit_eq_div del: power_numeral)
qed


lemma frame_split: "5 \<le> length body \<Longrightarrow> \<exists>f a b c d message. body = f # a # b # c # d # message"
  by (auto simp: Suc_le_length_iff eval_nat_numeral)

lemma length_digits:
  assumes "n = ((a * 256 + b) * 256 + c) * 256 + d" "b < 256" "c < 256" "d < (256 :: nat)"
  shows "n mod 256 = d" "n div 2 ^ 8 mod 256 = c" "n div 2 ^ 16 mod 256 = b" "n div 2 ^ 24 = a"
proof -
  have q: "(x * 256 + y) mod 256 = y" "(x * 256 + y) div 256 = x" if "y < 256" for x y :: nat using that by auto
  have 1: "n mod 256 = d" "n div 256 = (a * 256 + b) * 256 + c" unfolding assms(1) by (rule q [OF assms(4)])+
  have 2: "n div 256 mod 256 = c" "n div 256 div 256 = a * 256 + b" unfolding 1(2) by (rule q [OF assms(3)])+
  have 3: "n div 256 div 256 mod 256 = b" "n div 256 div 256 div 256 = a" unfolding 2(2) by (rule q [OF assms(2)])+
  have pow: "n div 2 ^ 8 = n div 256" "n div 2 ^ 16 = n div 256 div 256" "n div 2 ^ 24 = n div 256 div 256 div 256"
    by (simp_all flip: div_mult2_eq)
  show "n mod 256 = d" "n div 2 ^ 8 mod 256 = c" "n div 2 ^ 16 mod 256 = b" "n div 2 ^ 24 = a"
    unfolding pow by (rule 1(1) 2(1) 3)+
qed

lemma frame_unique:
  assumes "body = f # a # b # c # d # message" "unat (ReadFrameLength body) = length message" "f = (if z then 1 else 0)"
  shows "body = FramePayload message z \<and> length message < 2 ^ 32"
proof -
  let ?n = "length message"
  have n: "?n = ((unat a * 256 + unat b) * 256 + unat c) * 256 + unat d"
    using assms(1,2) ReadFrameLength_value by simp
  note digits = length_digits [OF n u8_bound u8_bound u8_bound]
  have "of_nat (drop_bit 24 ?n AND 0xFF) = a" "of_nat (drop_bit 16 ?n AND 0xFF) = b" "of_nat (drop_bit 8 ?n AND 0xFF) = c"
    "of_nat (?n AND 0xFF) = d"
    using digits u8_bound [of a] byte_digit by (simp_all add: word_unat_eq_iff drop_bit_eq_div del: power_numeral)
  moreover have "?n < 2 ^ 32" unfolding n using u8_bound [of a] u8_bound [of b] u8_bound [of c] u8_bound [of d] by simp
  ultimately show ?thesis using assms(1,3) by (simp add: FramePayload_def Let_def)
qed

lemma FramePayload_shape:
  "\<exists>a b c d. FramePayload message z = (if z then 1 else 0) # a # b # c # d # message"
  by (simp add: FramePayload_def Let_def)

text \<open>
  C25: frames are read exactly. A body yields a message when, and only when, it is empty, or the frame
  of that message uncompressed, or the frame of bytes that inflate to it within the limit; in a frame the
  length is exact and the flag is 0 or 1. Every body that yields none is refused as too large when it
  inflates beyond the limit, and as malformed otherwise.
\<close>

theorem grpc_frames_exact:
  "(DecodeResponseFrame gz body limit = Inr message \<longleftrightarrow>
     body = [] \<and> message = [] \<or>
     body = FramePayload message False \<and> length message < 2 ^ 32 \<or>
     (\<exists>z. body = FramePayload z True \<and> length z < 2 ^ 32 \<and> GzipDecompress gz z limit = Inr message)) \<and>
   (DecodeResponseFrame gz body limit = Inl Frame_TooLarge \<longleftrightarrow>
     (\<exists>z. body = FramePayload z True \<and> length z < 2 ^ 32 \<and> GzipDecompress gz z limit = Inl Gzip_TooLarge)) \<and>
   DecodeResponseFrame gz body limit \<noteq> Inl Frame_UnparseableMessage"
proof (cases "\<exists>message z. body = FramePayload message z \<and> length message < 2 ^ 32")
  case True
  then obtain m z where m: "body = FramePayload m z" "length m < 2 ^ 32" by blast
  obtain a b c d where shape: "body = (if z then 1 else 0) # a # b # c # d # m" using FramePayload_shape m(1) by metis
  have same: "body = FramePayload m' z' \<longleftrightarrow> m' = m \<and> z' = z" for m' z'
  proof
    assume "body = FramePayload m' z'"
    then obtain a' b' c' d' where "body = (if z' then 1 else 0) # a' # b' # c' # d' # m'" using FramePayload_shape by metis
    then show "m' = m \<and> z' = z" using shape by (cases z; cases z') simp_all
  qed (use m(1) in simp)
  have "DecodeResponseFrame gz body limit =
      (if z then case GzipDecompress gz m limit of Inl e \<Rightarrow> Inl (if e = Gzip_TooLarge then Frame_TooLarge else Frame_Malformed) | Inr x \<Rightarrow> Inr x
       else Inr m)"
    using shape FramePayload_length [OF m(2), of z] m(1) by (auto simp: DecodeResponseFrame_def Let_def)
  then show ?thesis unfolding same using m(2) shape by (auto split: sum.splits if_splits)
next
  case False
  have "DecodeResponseFrame gz body limit = Inl Frame_Malformed" if ne: "body \<noteq> []"
  proof (cases "5 \<le> length body")
    case True
    then obtain f a b c d m where shape: "body = f # a # b # c # d # m" using frame_split by blast
    then show ?thesis
      using frame_unique [OF shape _, of True] frame_unique [OF shape _, of False] False
      by (auto simp: DecodeResponseFrame_def Let_def)
  qed (simp add: DecodeResponseFrame_def ne)
  then show ?thesis using False by (cases "body = []") (auto simp: DecodeResponseFrame_def)
qed


section \<open>The verdict\<close>

definition grpc_retryable :: "int set" where
  "grpc_retryable = {1, 4, 10, 11, 14, 15}"

lemma table_retryable:
  "(case LookupGrpcStatus code of Some info \<Rightarrow> status_retryable info | None \<Rightarrow> False) \<longleftrightarrow> code \<in> grpc_retryable"
proof (cases "0 \<le> code \<and> code < 17")
  case True
  have "\<forall>k \<in> {0..<17::nat}. status_retryable (kStatusTable ! k) \<longleftrightarrow> k \<in> {1, 4, 10, 11, 14, 15}" by code_simp
  moreover have "nat code \<in> {0..<17}" using True by auto
  ultimately have "status_retryable (kStatusTable ! nat code) \<longleftrightarrow> nat code \<in> {1, 4, 10, 11, 14, 15}" by blast
  then show ?thesis using True by (auto simp: LookupGrpcStatus_def grpc_retryable_def)
qed (auto simp: LookupGrpcStatus_def grpc_retryable_def)

definition grpc_code :: "string \<Rightarrow> int" where
  "grpc_code s = (case fst (from_chars_int s) of Some c \<Rightarrow> c | None \<Rightarrow> -1)"

definition grpc_delay :: "TransportResult \<Rightarrow> int option" where
  "grpc_delay tr =
     (case (case FindHeaderValue (response_trailers tr) ''grpc-status-details-bin'' of
              Some m \<Rightarrow> Some m | None \<Rightarrow> FindHeaderValue (response_headers tr) ''grpc-status-details-bin'') of
        None \<Rightarrow> None | Some d \<Rightarrow> TryDecodeRetryDelay d)"

definition grpc_accepted :: "gzip \<Rightarrow> TransportResult \<Rightarrow> nat \<Rightarrow> PartialSuccessResult option" where
  "grpc_accepted gz tr limit =
     (case DecodeResponseFrame gz (response_body tr) limit of
        Inl _ \<Rightarrow> None
      | Inr message \<Rightarrow> if outcome (ParseRejectedSpans message) = Unparseable then None else Some (ParseRejectedSpans message))"

lemma ClassifyResourceExhausted_spec:
  "success (ClassifyResourceExhausted tr) = False \<and> retryable (ClassifyResourceExhausted tr) = (grpc_delay tr \<noteq> None) \<and>
   retry_after (ClassifyResourceExhausted tr) = grpc_delay tr \<and> settled_success (ClassifyResourceExhausted tr)"
  by (auto simp: ClassifyResourceExhausted_def grpc_delay_def ResourceExhaustedWithoutRetryInfo_def Let_def split: option.splits)

lemma ClassifyGrpcSuccess_spec:
  assumes "ClassifyGrpcSuccess gz tr limit diag = (r, diag')"
  shows "retryable r = False \<and> retry_after r = None \<and> settled_success r \<and>
    (case grpc_accepted gz tr limit of
       Some p \<Rightarrow> success r \<and> partial_success_rejected r = unat (rejected p) \<and> diag' = diag
     | None \<Rightarrow> \<not> success r \<and> diag' = count_drop
         (if DecodeResponseFrame gz (response_body tr) limit = Inl Frame_TooLarge then DecompressionTooLarge else MalformedResponse) 1 diag)"
  using assms
  by (auto simp: ClassifyGrpcSuccess_def FrameFailure_def grpc_accepted_def Let_def settled_success_def wire_failure_def
      split: sum.splits if_splits)

text \<open>
  C26: the verdict on every gRPC response and what it counts. A request the transport failed is retryable
  unless the response was too large; that a response was too large, and that the transport was busy, is
  counted once each, and nothing else. Without a \<open>grpc-status\<close> the HTTP status decides, and other than 429, 502, 503 and 504 it
  is counted as malformed. With one, the response is a success exactly for code 0 with a frame and a
  message that can be read, whose rejected count it carries; code 0 without is a final failure, counted
  once, as too large when the message inflates beyond the limit and as malformed otherwise. The codes 1, 4, 10, 11, 14 and 15 are
  retryable, and 8 when the server says how long to wait, which is then the delay; no other code counts anything. Every success is final,
  and only a success carries a count.
\<close>

theorem grpc_verdict:
  assumes "Grpc_ClassifyResponse gz tr limit diag warned = (r, diag', warned')"
  shows "settled_success r \<and>
    (tr_error tr \<noteq> None \<longrightarrow> \<not> success r \<and> (retryable r \<longleftrightarrow> \<not> response_too_large tr) \<and> retry_after r = None \<and> error r = tr_error tr \<and> warned' = warned \<and>
       diag' = (let counted = (if response_too_large tr then count_drop ResponseTooLarge 1 diag else diag)
                in if transport_busy tr then count_drop TransportBusy 1 counted else counted)) \<and>
    (tr_error tr = None \<and> grpc_status_text tr = None \<longrightarrow>
       \<not> success r \<and> warned' \<and> retry_after r = None \<and>
       (retryable r \<longleftrightarrow> ParseHttpStatus (response_headers tr) \<in> {429, 502, 503, 504}) \<and>
       diag' = (if retryable r then diag else count_drop MalformedResponse 1 diag)) \<and>
    (\<forall>s. tr_error tr = None \<and> grpc_status_text tr = Some s \<longrightarrow>
       (success r \<longleftrightarrow> grpc_code s = 0 \<and> grpc_accepted gz tr limit \<noteq> None) \<and>
       (success r \<longrightarrow> partial_success_rejected r = unat (rejected (the (grpc_accepted gz tr limit)))) \<and>
       (retryable r \<longleftrightarrow> grpc_code s \<in> grpc_retryable \<or> grpc_code s = 8 \<and> grpc_delay tr \<noteq> None) \<and>
       retry_after r = (if grpc_code s = 8 then grpc_delay tr else None) \<and> warned' = warned \<and>
       diag' = (if grpc_code s \<noteq> 0 \<or> success r then diag
                else count_drop (if DecodeResponseFrame gz (response_body tr) limit = Inl Frame_TooLarge
                                 then DecompressionTooLarge else MalformedResponse) 1 diag))"
proof (cases "tr_error tr = None")
  case False
  then show ?thesis using assms by (auto simp: Grpc_ClassifyResponse_def ClassifyTransportFailure_def Let_def)
next
  case True
  show ?thesis
  proof (cases "grpc_status_text tr")
    case None
    then show ?thesis using True assms by (auto simp: Grpc_ClassifyResponse_def ClassifyMissingGrpcStatus_def Let_def)
  next
    case (Some s)
    then have code: "ClassifyGrpcCode gz (grpc_code s) tr limit diag = (r, diag')" "warned' = warned"
      using True assms by (auto simp: Grpc_ClassifyResponse_def grpc_code_def Let_def split: prod.splits)
    consider "grpc_code s = 0" | "grpc_code s = 8" | "grpc_code s \<notin> {0, 8}" by blast
    then have "settled_success r \<and> (success r \<longleftrightarrow> grpc_code s = 0 \<and> grpc_accepted gz tr limit \<noteq> None) \<and>
       (success r \<longrightarrow> partial_success_rejected r = unat (rejected (the (grpc_accepted gz tr limit)))) \<and>
       (retryable r \<longleftrightarrow> grpc_code s \<in> grpc_retryable \<or> grpc_code s = 8 \<and> grpc_delay tr \<noteq> None) \<and>
       retry_after r = (if grpc_code s = 8 then grpc_delay tr else None) \<and>
       diag' = (if grpc_code s \<noteq> 0 \<or> success r then diag
                else count_drop (if DecodeResponseFrame gz (response_body tr) limit = Inl Frame_TooLarge
                                 then DecompressionTooLarge else MalformedResponse) 1 diag)"
    proof cases
      case 1
      then have "ClassifyGrpcSuccess gz tr limit diag = (r, diag')" using code(1) by (simp add: ClassifyGrpcCode_def)
      from ClassifyGrpcSuccess_spec [OF this] show ?thesis using 1 by (auto simp: grpc_retryable_def split: option.splits)
    next
      case 2
      then have "r = ClassifyResourceExhausted tr" "diag' = diag" using code(1) by (auto simp: ClassifyGrpcCode_def)
      then show ?thesis using 2 ClassifyResourceExhausted_spec [of tr] by (simp add: grpc_retryable_def)
    next
      case 3
      then show ?thesis using code(1) table_retryable [of "grpc_code s"] by (auto simp: ClassifyGrpcCode_def Let_def)
    qed
    then show ?thesis using True Some code(2) by simp
  qed
qed


lemma classify_settled: "Grpc_ClassifyResponse gz tr limit diag warned = (r, diag', warned') \<Longrightarrow> settled_success r"
  by (auto simp: Grpc_ClassifyResponse_def ClassifyTransportFailure_def ClassifyMissingGrpcStatus_def ClassifyGrpcCode_def Let_def
      split: if_splits option.splits prod.splits dest: ClassifyGrpcSuccess_spec)
    (use ClassifyResourceExhausted_spec in blast)+

text \<open>A server that is not available.\<close>

definition sample_unavailable :: TransportResult where
  "sample_unavailable =
     \<lparr>tr_success = True, response_headers = [header '':status'' ''200'', header ''grpc-status'' ''14''], response_trailers = [],
      response_body = [], tr_error = None, response_too_large = False, transport_busy = False\<rparr>"

theorem grpc_verdict_witness:
  "case Grpc_ClassifyResponse no_gzip sample_unavailable 100 None False of
     (r, diag', warned') \<Rightarrow> \<not> success r \<and> retryable r \<and> retry_after r = None \<and> diag' = None \<and> \<not> warned'"
proof -
  obtain r diag' warned' where c: "Grpc_ClassifyResponse no_gzip sample_unavailable 100 None False = (r, diag', warned')" by (metis prod.exhaust)
  have "grpc_code ''14'' = 14" by code_simp
  then show ?thesis
    using grpc_verdict [OF c] c by (simp add: sample_unavailable_def grpc_status_text_def grpc_retryable_def)
qed

section \<open>The request\<close>

lemma Grpc_Send_settled: "Grpc_Send gz tp payload deadline c w = (r, c', w') \<Longrightarrow> settled_success r"
  by (auto simp: Grpc_Send_def AuthFailure_def DeadlineExceeded_def Let_def
      split: prod.splits option.splits sum.splits dest: EnsureConnected_failure classify_settled)

interpretation grpc: wire_codec "\<lambda>(c, w). Grpc_Send gz tp payload deadline c w" for gz tp payload deadline
  by unfold_locales (auto intro: Grpc_Send_settled)

text \<open>
  What a send puts on the wire is what it says there. At most one request is made, and none when the
  connection or the authorization fails. Its payload is one frame of the message, compressed exactly when
  compression is on and works, and the frame's flag and the \<open>grpc-encoding\<close> header agree on that; after the
  headers of the configuration comes at most the provider's authorization. No result is a success unless the
  request was made.
\<close>

theorem grpc_send_honest:
  assumes "Grpc_Send gz (recording tp) payload deadline c (w, sent) = (r, c', w', sent')"
    and "(body, z) = compress_body gz (gc_compression_gzip (gw_config c)) payload"
  shows "settled_success r \<and> gw_config c' = gw_config c \<and>
    (sent' = sent \<and> \<not> success r \<or>
     (\<exists>auth. sent' = sent @ [\<lparr>rs_headers = grpc_base_headers (gw_config c) z @ auth, rs_payload = FramePayload body z, rs_deadline = deadline\<rparr>] \<and>
        (auth = [] \<or> GetAuthorization tp \<noteq> None \<and> (\<exists>token. auth = [header ''authorization'' token]))))"
proof -
  obtain f fresh d w1 s1 where con: "EnsureConnected (recording tp) (gw_diag c) (w, sent) = (f, fresh, d, w1, s1)" by (metis prod.exhaust)
  have s1: "s1 = sent" using recording_connect [OF con] .
  show ?thesis
  proof (cases f)
    case (Some fail)
    then show ?thesis using assms(1) con s1 EnsureConnected_failure [OF con [unfolded Some]] by (auto simp: Grpc_Send_def)
  next
    case None
    obtain a w2 s2 where hs: "AppendAuthHeader (recording tp) (grpc_base_headers (gw_config c) z) (w1, sent) = (a, w2, s2)" by (metis prod.exhaust)
    have s2: "s2 = sent" using recording_auth(1) [OF hs] .
    show ?thesis
    proof (cases a)
      case (Inl e)
      then show ?thesis
        using assms con s1 s2 None hs by (auto simp: Grpc_Send_def Grpc_BuildHeaders_def AuthFailure_def Let_def split: prod.splits)
    next
      case (Inr headers)
      let ?spec = "\<lparr>rs_headers = headers, rs_payload = FramePayload body z, rs_deadline = deadline\<rparr>"
      obtain h w3 where h: "Transport_Send tp ?spec w2 = (h, w3)" by (metis prod.exhaust)
      obtain t w4 where t: "wait_for tp h deadline w3 = (t, w4)" by (metis prod.exhaust)
      have "sent' = sent @ [?spec] \<and> settled_success r \<and> gw_config c' = gw_config c"
      proof (cases t)
        case None
        then show ?thesis using assms con s1 s2 \<open>f = None\<close> hs Inr h t
          by (auto simp: Grpc_Send_def Grpc_BuildHeaders_def DeadlineExceeded_def Let_def split: prod.splits)
      next
        case (Some tr)
        then show ?thesis using assms con s1 s2 \<open>f = None\<close> hs Inr h t
          by (auto simp: Grpc_Send_def Grpc_BuildHeaders_def Let_def split: prod.splits dest!: classify_settled)
      qed
      then show ?thesis using recording_auth(2) [OF hs Inr] by auto
    qed
  qed
qed


definition sample_grpc :: GrpcWireCodec where
  "sample_grpc =
     \<lparr>gw_config = \<lparr>gc_host = ''h:4317'', gc_scheme = ''https'', gc_extra_headers = [], gc_service_path = [],
        gc_compression_gzip = True, gc_max_decompressed_bytes = 100\<rparr>, gw_diag = None, gw_warned = False\<rparr>"

theorem grpc_send_honest_witness:
  "case Grpc_Send no_gzip (recording (sample_transport sample_unavailable)) [1, 2] 500 sample_grpc ((), []) of
     (r, c', w', sent) \<Rightarrow> \<exists>auth. sent = [\<lparr>rs_headers = grpc_base_headers (gw_config sample_grpc) False @ auth,
       rs_payload = [0, 0, 0, 0, 2, 1, 2], rs_deadline = 500\<rparr>]"
proof -
  obtain r c' w' sent where c: "Grpc_Send no_gzip (recording (sample_transport sample_unavailable)) [1, 2] 500 sample_grpc ((), []) =
      (r, c', w', sent)" by (metis prod.exhaust)
  have body: "([1, 2], False) = compress_body no_gzip (gc_compression_gzip (gw_config sample_grpc)) [1, 2]"
    by (simp add: compress_body_def no_gzip_def)
  have "FramePayload [1, 2] False = [0, 0, 0, 0, 2, 1, 2]" by (simp add: FramePayload_def Let_def drop_bit_eq_div flip: numeral_2_eq_2)
  moreover have "sent \<noteq> []"
  proof -
    let ?tp = "recording (sample_transport sample_unavailable)"
    have con: "EnsureConnected ?tp d ((), []) = (None, False, d, (), [])" for d
      by (simp add: EnsureConnected_def recording_def sample_transport_def)
    have auth: "AppendAuthHeader ?tp hs ((), []) = (Inr (hs @ [header ''authorization'' ''Bearer x'']), (), [])" for hs
      by (simp add: AppendAuthHeader_def recording_def sample_transport_def)
    have wait: "wait_for (sample_transport sample_unavailable) h ms w = (Some sample_unavailable, w)" for h ms w
      by (simp add: sample_transport_def)
    show ?thesis using c by (auto simp: Grpc_Send_def con auth wait Grpc_BuildHeaders_def body [symmetric] Let_def split: prod.splits)
  qed
  ultimately show ?thesis using grpc_send_honest [OF c body] c by auto
qed

end
