(* ===== verification/Http_Codec.thy ===== *)
theory Http_Codec
  imports Wire_Common
begin

text \<open>
  The OTLP/HTTP codec (\<open>src/wire/http/http_wire_codec.cpp\<close>): the classification of responses, \<open>Send\<close>, and
  \<open>SendAll\<close>, which submits all requests before it waits for any. Time in \<open>SendAll\<close> is the clock of the
  transport's world, in nanoseconds.

  Proved here: the verdict on every response is that of the table of status codes, except that a body that
  cannot be decoded decides before the status is looked at; and that the results of \<open>SendAll\<close> are in step
  with its payloads whichever of them cannot be sent.
\<close>

section \<open>Responses\<close>

datatype BodyError = Body_Malformed | Body_TooLarge

fun ParseRetryAfter :: "HeaderField list \<Rightarrow> int option" where
  "ParseRetryAfter [] = None"
| "ParseRetryAfter (h # hs) =
     (if hf_name h \<noteq> ''retry-after'' then ParseRetryAfter hs
      else case from_chars_u32 (hf_value h) of
             (Some secs, rest) \<Rightarrow> if rest = [] then Some (secs * 1000) else None
           | (None, rest) \<Rightarrow> None)"

fun ParseStatusCode :: "HeaderField list \<Rightarrow> int" where
  "ParseStatusCode [] = 0"
| "ParseStatusCode (h # hs) =
     (if hf_name h \<noteq> '':status'' then ParseStatusCode hs
      else case fst (from_chars_int (hf_value h)) of Some code \<Rightarrow> code | None \<Rightarrow> 0)"

definition ClassifyStatus :: "int \<Rightarrow> HeaderField list \<Rightarrow> WireResult" where
  "ClassifyStatus code headers =
     (if 200 \<le> code \<and> code < 300 then
        \<lparr>success = True, retryable = False, retry_after = None, partial_success_rejected = 0, error = None, response_excerpt = []\<rparr>
      else if code = 429 \<or> code = 502 \<or> code = 503 \<or> code = 504 then wire_failure True (ParseRetryAfter headers) None []
      else wire_failure False None (Some (an_error Kind_Protocol (''HTTP '' @ to_string code))) [])"

definition DecodeBody :: "gzip \<Rightarrow> TransportResult \<Rightarrow> nat \<Rightarrow> BodyError + bytes" where
  "DecodeBody gz result max_decompressed =
     (let raw = response_body result; encoding = FindHeaderValue (response_headers result) ''content-encoding''
      in if encoding = None \<or> encoding = Some [] \<or> encoding = Some ''identity'' \<or> raw = [] then Inr raw
         else if encoding \<noteq> Some ''gzip'' then Inl Body_Malformed
         else case GzipDecompress gz raw max_decompressed of
                Inl e \<Rightarrow> Inl (if e = Gzip_TooLarge then Body_TooLarge else Body_Malformed)
              | Inr inflated \<Rightarrow> Inr inflated)"

definition BodyFailure :: "BodyError \<Rightarrow> sink \<Rightarrow> WireResult \<times> sink" where
  "BodyFailure err diag =
     (let too_large = (err = Body_TooLarge);
          reason = (if too_large then DecompressionTooLarge else MalformedResponse);
          message = (if too_large then ''response exceeds max_decompressed_bytes'' else ''undecodable response content-encoding'')
      in (wire_failure False None (Some (an_error Kind_Malformed message)) [], count_drop reason 1 diag))"

definition UnparseableBody :: "sink \<Rightarrow> WireResult \<times> sink" where
  "UnparseableBody diag =
     (wire_failure False None (Some (an_error Kind_Malformed ''unparseable export response body'')) [], count_drop MalformedResponse 1 diag)"

definition TransportFailure :: "TransportResult \<Rightarrow> sink \<Rightarrow> WireResult \<times> sink" where
  "TransportFailure result diag =
     (let diag1 = (if transport_busy result then count_drop TransportBusy 1 diag else diag)
      in if \<not> response_too_large result then (wire_failure True None (tr_error result) [], diag1)
         else (wire_failure False None (tr_error result) [], count_drop ResponseTooLarge 1 diag1))"

section \<open>The codec\<close>

record HttpWireCodecConfig =
  hc_host :: string
  hc_scheme :: string
  hc_path :: string
  hc_signal_path :: string
  hc_extra_headers :: "HeaderField list"
  hc_compression_gzip :: bool
  hc_max_decompressed_bytes :: u32

definition ResolvePath :: "HttpWireCodecConfig \<Rightarrow> string" where
  "ResolvePath cfg =
     (if hc_signal_path cfg \<noteq> [] then hc_signal_path cfg
      else if hc_path cfg = [] \<or> hc_path cfg = ''/'' then ''/v1/traces''
      else hc_path cfg @ ''/v1/traces'')"

definition http_base_headers :: "HttpWireCodecConfig \<Rightarrow> nat \<Rightarrow> bool \<Rightarrow> HeaderField list" where
  "http_base_headers cfg content_length compressed =
     [\<lparr>hf_name = '':method'', hf_value = ''POST''\<rparr>, \<lparr>hf_name = '':scheme'', hf_value = hc_scheme cfg\<rparr>,
      \<lparr>hf_name = '':path'', hf_value = ResolvePath cfg\<rparr>, \<lparr>hf_name = '':authority'', hf_value = hc_host cfg\<rparr>,
      \<lparr>hf_name = ''content-type'', hf_value = ''application/x-protobuf''\<rparr>,
      \<lparr>hf_name = ''content-length'', hf_value = nat_string content_length\<rparr>,
      \<lparr>hf_name = ''accept-encoding'', hf_value = ''gzip''\<rparr>]
     @ (if compressed then [\<lparr>hf_name = ''content-encoding'', hf_value = ''gzip''\<rparr>] else []) @ hc_extra_headers cfg"

definition Http_BuildHeaders ::
    "('t, 'h) transport \<Rightarrow> HttpWireCodecConfig \<Rightarrow> nat \<Rightarrow> bool \<Rightarrow> 't \<Rightarrow> (Error + HeaderField list) \<times> 't" where
  "Http_BuildHeaders tp cfg content_length compressed w = AppendAuthHeader tp (http_base_headers cfg content_length compressed) w"

definition Http_BuildExcerpt :: "bytes \<Rightarrow> string" where
  "Http_BuildExcerpt body = map (\<lambda>b. char_of (unat b)) (take 256 body)"

definition PrepareBody :: "gzip \<Rightarrow> HttpWireCodecConfig \<Rightarrow> bytes \<Rightarrow> bytes \<times> bool" where
  "PrepareBody gz cfg raw = compress_body gz (hc_compression_gzip cfg) raw"

definition Http_ClassifyResponse :: "gzip \<Rightarrow> HttpWireCodecConfig \<Rightarrow> TransportResult \<Rightarrow> sink \<Rightarrow> WireResult \<times> sink" where
  "Http_ClassifyResponse gz cfg result diag =
     (case DecodeBody gz result (unat (hc_max_decompressed_bytes cfg)) of
        Inl e \<Rightarrow> BodyFailure e diag
      | Inr body \<Rightarrow>
          let code = ParseStatusCode (response_headers result);
              wire = ClassifyStatus code (response_headers result);
              (wire1, diag1) =
                (if success wire \<and> body \<noteq> [] then
                   let parsed = ParseRejectedSpans body;
                       (wire2, diag2) = (if outcome parsed = Unparseable then UnparseableBody diag else (wire, diag))
                   in (wire2\<lparr>partial_success_rejected := unat (rejected parsed)\<rparr>, diag2)
                 else (wire, diag))
          in (wire1\<lparr>response_excerpt := Http_BuildExcerpt body\<rparr>, diag1))"

text \<open>Waiting for one request, with the given time left; \<open>Send\<close> waits for the whole deadline.\<close>

definition collect_result ::
    "gzip \<Rightarrow> ('t, 'h) transport \<Rightarrow> HttpWireCodecConfig \<Rightarrow> 'h \<Rightarrow> int \<Rightarrow> sink \<Rightarrow> 't \<Rightarrow> WireResult \<times> sink \<times> 't" where
  "collect_result gz tp cfg handle wait_ms diag w =
     (case wait_for tp handle wait_ms w of
        (None, w1) \<Rightarrow> (DeadlineExceeded, diag, Cancel tp handle w1)
      | (Some result, w1) \<Rightarrow>
          (case (if \<not> tr_success result then TransportFailure result diag else Http_ClassifyResponse gz cfg result diag) of
             (r, d) \<Rightarrow> (r, d, w1)))"

definition Http_Send ::
    "gzip \<Rightarrow> ('t, 'h) transport \<Rightarrow> HttpWireCodecConfig \<Rightarrow> bytes \<Rightarrow> int \<Rightarrow> sink \<Rightarrow> 't \<Rightarrow> WireResult \<times> sink \<times> 't" where
  "Http_Send gz tp cfg payload deadline diag w =
     (case EnsureConnected tp diag w of
        (Some failure, fresh, d, w1) \<Rightarrow> (failure, d, w1)
      | (None, fresh, d, w1) \<Rightarrow>
          let (body, compressed) = PrepareBody gz cfg payload
          in case Http_BuildHeaders tp cfg (length body) compressed w1 of
               (Inl err, w2) \<Rightarrow> (AuthFailure err, d, w2)
             | (Inr headers, w2) \<Rightarrow>
                 (case Transport_Send tp \<lparr>rs_headers = headers, rs_payload = body, rs_deadline = deadline\<rparr> w2 of
                    (handle, w3) \<Rightarrow> collect_result gz tp cfg handle deadline d w3))"

definition CollectOneResult ::
    "gzip \<Rightarrow> ('t, 'h) transport \<Rightarrow> HttpWireCodecConfig \<Rightarrow> int \<Rightarrow> 'h \<Rightarrow> sink \<Rightarrow> 't \<Rightarrow> WireResult \<times> sink \<times> 't" where
  "CollectOneResult gz tp cfg deadline_point handle diag w =
     (let remaining = deadline_point - steady_now tp w;
          wait_ms = (if remaining > 0 then remaining div 1000000 else 0)
      in collect_result gz tp cfg handle wait_ms diag w)"

text \<open>Submission: the results of the payloads that cannot be sent, and the handles with their indices.\<close>

fun submit_all ::
    "gzip \<Rightarrow> ('t, 'h) transport \<Rightarrow> HttpWireCodecConfig \<Rightarrow> int \<Rightarrow> nat \<Rightarrow> bytes list \<Rightarrow> WireResult list \<Rightarrow> ('h \<times> nat) list \<Rightarrow> 't \<Rightarrow>
     WireResult list \<times> ('h \<times> nat) list \<times> 't" where
  "submit_all gz tp cfg deadline i [] results in_flight w = (results, in_flight, w)"
| "submit_all gz tp cfg deadline i (payload # payloads) results in_flight w =
     (let (body, compressed) = PrepareBody gz cfg payload
      in case Http_BuildHeaders tp cfg (length body) compressed w of
           (Inl err, w1) \<Rightarrow> submit_all gz tp cfg deadline (Suc i) payloads (results[i := AuthFailure err]) in_flight w1
         | (Inr headers, w1) \<Rightarrow>
             (case Transport_Send tp \<lparr>rs_headers = headers, rs_payload = body, rs_deadline = deadline\<rparr> w1 of
                (handle, w2) \<Rightarrow> submit_all gz tp cfg deadline (Suc i) payloads results (in_flight @ [(handle, i)]) w2))"

fun collect_all ::
    "gzip \<Rightarrow> ('t, 'h) transport \<Rightarrow> HttpWireCodecConfig \<Rightarrow> int \<Rightarrow> ('h \<times> nat) list \<Rightarrow> WireResult list \<Rightarrow> sink \<Rightarrow> 't \<Rightarrow>
     WireResult list \<times> sink \<times> 't" where
  "collect_all gz tp cfg deadline_point [] results diag w = (results, diag, w)"
| "collect_all gz tp cfg deadline_point ((handle, i) # in_flight) results diag w =
     (case CollectOneResult gz tp cfg deadline_point handle diag w of
        (r, d, w1) \<Rightarrow> collect_all gz tp cfg deadline_point in_flight (results[i := r]) d w1)"

definition WireResult_new :: WireResult where
  "WireResult_new = wire_failure False None None []"

definition SendAll ::
    "gzip \<Rightarrow> ('t, 'h) transport \<Rightarrow> HttpWireCodecConfig \<Rightarrow> bytes list \<Rightarrow> int \<Rightarrow> sink \<Rightarrow> 't \<Rightarrow> WireResult list \<times> sink \<times> 't" where
  "SendAll gz tp cfg payloads deadline diag w =
     (if payloads = [] then ([], diag, w)
      else
        case EnsureConnected tp diag w of
          (Some failure, fresh, d, w1) \<Rightarrow> (replicate (length payloads) failure, d, w1)
        | (None, fresh, d, w1) \<Rightarrow>
            let deadline_point = steady_now tp w1 + deadline * 1000000
            in case submit_all gz tp cfg deadline 0 payloads (replicate (length payloads) WireResult_new) [] w1 of
                 (results, in_flight, w2) \<Rightarrow> collect_all gz tp cfg deadline_point in_flight results d w2)"


section \<open>The verdict\<close>

lemma ParseResponse_loop_unparseable:
  "outcome result \<noteq> Unparseable \<Longrightarrow> ParseResponse_loop data result = kUnparseable \<or> outcome (ParseResponse_loop data result) \<noteq> Unparseable"
proof (induction data result rule: ParseResponse_loop.induct)
  case (1 data result)
  show ?case
  proof (cases "data = [] \<or> fst (ReadTag data) = None")
    case True
    then show ?thesis using "1.prems" by (subst (1 2) ParseResponse_loop.simps) (auto split: prod.splits)
  next
    case False
    then obtain tag d where tag: "ReadTag data = (Some tag, d)" "data \<noteq> []" by (cases "ReadTag data") auto
    obtain ok rest result2 where step: "(if tag_field tag = 1 \<and> tag_wire_type tag = 2 then ExtractPartialSuccess d result
      else case SkipField d (tag_wire_type tag) of (ok, data2) \<Rightarrow> (ok, data2, result)) = (ok, rest, result2)" by (metis prod.exhaust)
    have "ok \<Longrightarrow> outcome result2 \<noteq> Unparseable"
      using step "1.prems" by (auto simp: ExtractPartialSuccess_def split: if_splits prod.splits option.splits)
    then have "ok \<Longrightarrow> ?thesis"
      using "1.IH" [OF tag(2) tag(1) [symmetric] refl refl step [symmetric] refl] tag step
      by (subst (1 2) ParseResponse_loop.simps) simp
    moreover have "\<not> ok \<Longrightarrow> ?thesis" using tag step by (subst (1 2) ParseResponse_loop.simps) simp
    ultimately show ?thesis by blast
  qed
qed

lemma unparseable_count: "outcome (ParseRejectedSpans body) = Unparseable \<Longrightarrow> rejected (ParseRejectedSpans body) = 0"
  using ParseResponse_loop_unparseable [of "\<lparr>outcome = Absent, rejected = 0\<rparr>" body]
  by (auto simp: ParseRejectedSpans_def ParseResponse_def kUnparseable_def split: if_splits)

lemma Http_ClassifyResponse_2xx:
  assumes "DecodeBody gz result (unat (hc_max_decompressed_bytes cfg)) = Inr body"
    and "code = ParseStatusCode (response_headers result)" "200 \<le> code" "code < 300"
  shows "Http_ClassifyResponse gz cfg result diag =
    (if body \<noteq> [] \<and> outcome (ParseRejectedSpans body) = Unparseable then
       (wire_failure False None (Some (an_error Kind_Malformed ''unparseable export response body'')) (Http_BuildExcerpt body),
        count_drop MalformedResponse 1 diag)
     else (\<lparr>success = True, retryable = False, retry_after = None,
        partial_success_rejected = (if body = [] then 0 else unat (rejected (ParseRejectedSpans body))),
        error = None, response_excerpt = Http_BuildExcerpt body\<rparr>, diag))"
  using assms unparseable_count [of body]
  by (simp add: Http_ClassifyResponse_def ClassifyStatus_def UnparseableBody_def wire_failure_def Let_def)

lemma Http_ClassifyResponse_other:
  assumes "DecodeBody gz result (unat (hc_max_decompressed_bytes cfg)) = Inr body"
    and "code = ParseStatusCode (response_headers result)" "\<not> (200 \<le> code \<and> code < 300)"
  shows "Http_ClassifyResponse gz cfg result diag =
    ((if code \<in> {429, 502, 503, 504} then wire_failure True (ParseRetryAfter (response_headers result)) None (Http_BuildExcerpt body)
      else wire_failure False None (Some (an_error Kind_Protocol (''HTTP '' @ to_string code))) (Http_BuildExcerpt body)), diag)"
proof -
  let ?wire = "ClassifyStatus code (response_headers result)"
  have wire: "?wire = (if code \<in> {429, 502, 503, 504} then wire_failure True (ParseRetryAfter (response_headers result)) None []
      else wire_failure False None (Some (an_error Kind_Protocol (''HTTP '' @ to_string code))) [])"
    unfolding ClassifyStatus_def if_not_P [OF assms(3)] by simp
  then have "\<not> success ?wire" by simp
  then have "Http_ClassifyResponse gz cfg result diag = (?wire\<lparr>response_excerpt := Http_BuildExcerpt body\<rparr>, diag)"
    using assms(1) by (simp add: Http_ClassifyResponse_def Let_def assms(2) [symmetric])
  then show ?thesis using wire by (simp add: wire_failure_def)
qed

text \<open>
  C27: the verdict on every HTTP response. When the body can be decoded, the response is a success exactly for
  a status from 200 to 299 with a body that is empty or an Export response, whose rejected count it
  carries; 429, 502, 503 and 504 are retryable, after the seconds of a \<open>Retry-After\<close> that is a number;
  nothing else is. A success that cannot be parsed is counted as malformed. When the body cannot be decoded
  the response is a final failure, whatever its status, and counted.
\<close>

theorem http_verdict:
  assumes "Http_ClassifyResponse gz cfg result diag = (r, diag')"
    and "code = ParseStatusCode (response_headers result)" "limit = unat (hc_max_decompressed_bytes cfg)"
  shows "settled_success r \<and> length (response_excerpt r) \<le> 256 \<and>
    (\<forall>e. DecodeBody gz result limit = Inl e \<longrightarrow> \<not> success r \<and> \<not> retryable r \<and>
       diag' = count_drop (if e = Body_TooLarge then DecompressionTooLarge else MalformedResponse) 1 diag) \<and>
    (\<forall>body. DecodeBody gz result limit = Inr body \<longrightarrow>
       (success r \<longleftrightarrow> 200 \<le> code \<and> code < 300 \<and> (body = [] \<or> outcome (ParseRejectedSpans body) \<noteq> Unparseable)) \<and>
       (retryable r \<longleftrightarrow> code \<in> {429, 502, 503, 504}) \<and>
       retry_after r = (if code \<in> {429, 502, 503, 504} then ParseRetryAfter (response_headers result) else None) \<and>
       partial_success_rejected r = (if success r \<and> body \<noteq> [] then unat (rejected (ParseRejectedSpans body)) else 0) \<and>
       diag' = (if 200 \<le> code \<and> code < 300 \<and> \<not> success r then count_drop MalformedResponse 1 diag else diag))"
proof (cases "DecodeBody gz result limit")
  case (Inl e)
  then show ?thesis using assms by (auto simp: Http_ClassifyResponse_def BodyFailure_def Let_def)
next
  case (Inr body)
  have excerpt: "length (Http_BuildExcerpt body) \<le> 256" by (simp add: Http_BuildExcerpt_def)
  note decoded = Inr [unfolded assms(3)]
  show ?thesis
  proof (cases "200 \<le> code \<and> code < 300")
    case True
    then have not_overloaded: "code \<notin> {429, 502, 503, 504}" by auto
    have "(r, diag') = Http_ClassifyResponse gz cfg result diag" using assms(1) by simp
    note r = this [unfolded Http_ClassifyResponse_2xx [OF decoded assms(2) True [THEN conjunct1] True [THEN conjunct2]]]
    show ?thesis
    proof (cases "body \<noteq> [] \<and> outcome (ParseRejectedSpans body) = Unparseable")
      case bad: True
      then show ?thesis using r True not_overloaded excerpt Inr by simp
    next
      case False
      then have "r = \<lparr>success = True, retryable = False, retry_after = None,
          partial_success_rejected = (if body = [] then 0 else unat (rejected (ParseRejectedSpans body))),
          error = None, response_excerpt = Http_BuildExcerpt body\<rparr>" "diag' = diag" using r [unfolded if_not_P [OF False]] by simp_all
      then show ?thesis using False True not_overloaded excerpt Inr by (simp add: settled_success_def)
    qed
  next
    case False
    have "(r, diag') = Http_ClassifyResponse gz cfg result diag" using assms(1) by simp
    note r = this [unfolded Http_ClassifyResponse_other [OF decoded assms(2) False]]
    then show ?thesis using False excerpt Inr by (cases "code \<in> {429, 502, 503, 504}") (simp_all, blast+)
  qed
qed

text \<open>A server that is overloaded and says so in a body of an encoding the codec does not know.\<close>

definition overloaded_reply :: "string \<Rightarrow> TransportResult" where
  "overloaded_reply encoding =
     \<lparr>tr_success = True,
      response_headers = [\<lparr>hf_name = '':status'', hf_value = ''503''\<rparr>, \<lparr>hf_name = ''retry-after'', hf_value = ''5''\<rparr>,
        \<lparr>hf_name = ''content-encoding'', hf_value = encoding\<rparr>],
      response_trailers = [], response_body = [1], tr_error = None, response_too_large = False, transport_busy = False\<rparr>"

definition sample_http :: HttpWireCodecConfig where
  "sample_http =
     \<lparr>hc_host = ''h:4318'', hc_scheme = ''https'', hc_path = ''/'', hc_signal_path = [], hc_extra_headers = [],
      hc_compression_gzip = False, hc_max_decompressed_bytes = 100\<rparr>"

lemma overloaded_status:
  "ParseStatusCode (response_headers (overloaded_reply encoding)) = 503"
  "ParseRetryAfter (response_headers (overloaded_reply encoding)) = Some 5000"
proof -
  have "from_chars_int ''503'' = (Some 503, [])" by code_simp
  then show "ParseStatusCode (response_headers (overloaded_reply encoding)) = 503" by (simp add: overloaded_reply_def)
  have "from_chars_u32 ''5'' = (Some 5, [])" by code_simp
  then show "ParseRetryAfter (response_headers (overloaded_reply encoding)) = Some 5000" by (simp add: overloaded_reply_def)
qed

theorem http_verdict_witness:
  "case Http_ClassifyResponse no_gzip sample_http (overloaded_reply ''identity'') None of
     (r, diag') \<Rightarrow> \<not> success r \<and> retryable r \<and> retry_after r = Some 5000 \<and> diag' = None"
proof -
  obtain r diag' where c: "Http_ClassifyResponse no_gzip sample_http (overloaded_reply ''identity'') None = (r, diag')" by (metis prod.exhaust)
  have "DecodeBody no_gzip (overloaded_reply ''identity'') 100 = Inr [1]" by (simp add: DecodeBody_def overloaded_reply_def)
  then show ?thesis
    using http_verdict [OF c overloaded_status(1) [symmetric] refl] c by (auto simp: sample_http_def overloaded_status)
qed

text \<open>
  A body that cannot be decoded hides the status. An answer of an overloaded server, 429, 502, 503 or 504,
  is retryable, after its \<open>Retry-After\<close>, when its body is in plain bytes, and a final failure, with no
  delay and counted, when the same answer comes with a body that cannot be decoded. The batch is then
  dropped although the status asks for it again.
\<close>

theorem http_overload_lost:
  assumes "ParseStatusCode (response_headers result) \<in> {429, 502, 503, 504}"
    "Http_ClassifyResponse gz cfg result diag = (r, d)" "limit = unat (hc_max_decompressed_bytes cfg)"
  shows "(\<forall>e. DecodeBody gz result limit = Inl e \<longrightarrow> \<not> success r \<and> \<not> retryable r \<and> retry_after r = None \<and>
       d = count_drop (if e = Body_TooLarge then DecompressionTooLarge else MalformedResponse) 1 diag) \<and>
    (\<forall>body. DecodeBody gz result limit = Inr body \<longrightarrow> retryable r \<and>
       retry_after r = ParseRetryAfter (response_headers result) \<and> d = diag)"
proof (cases "DecodeBody gz result limit")
  case (Inl e)
  then show ?thesis using assms by (auto simp: Http_ClassifyResponse_def BodyFailure_def Let_def)
next
  case (Inr body)
  have "\<not> (200 \<le> ParseStatusCode (response_headers result) \<and> ParseStatusCode (response_headers result) < 300)"
    using assms(1) by auto
  from Http_ClassifyResponse_other [OF Inr [unfolded assms(3)] refl this] show ?thesis
    using assms Inr by (auto split: if_splits)
qed

theorem http_overload_lost_witness:
  "(case Http_ClassifyResponse no_gzip sample_http (overloaded_reply ''identity'') diag of
      (r, d) \<Rightarrow> retryable r \<and> retry_after r = Some 5000) \<and>
   (case Http_ClassifyResponse no_gzip sample_http (overloaded_reply ''br'') diag of
      (r, d) \<Rightarrow> \<not> retryable r \<and> retry_after r = None)"
proof -
  have bodies: "DecodeBody no_gzip (overloaded_reply ''identity'') limit = Inr [1]"
    "DecodeBody no_gzip (overloaded_reply ''br'') limit = Inl Body_Malformed" for limit
    by (simp_all add: DecodeBody_def overloaded_reply_def)
  obtain r d r' d' where c: "Http_ClassifyResponse no_gzip sample_http (overloaded_reply ''identity'') diag = (r, d)"
    "Http_ClassifyResponse no_gzip sample_http (overloaded_reply ''br'') diag = (r', d')" by (metis surj_pair)
  show ?thesis
    using http_overload_lost [OF _ c(1) refl] http_overload_lost [OF _ c(2) refl] overloaded_status bodies by (simp add: c)
qed

text \<open>A \<open>Retry-After\<close> in seconds is read.\<close>

lemma ParseRetryAfter_seconds:
  assumes "0 \<le> n" "n < 2 ^ 32" "\<And>h. h \<in> set pre \<Longrightarrow> hf_name h \<noteq> ''retry-after''"
  shows "ParseRetryAfter (pre @ \<lparr>hf_name = ''retry-after'', hf_value = to_string n\<rparr> # post) = Some (n * 1000)"
  using assms(3)
proof (induction pre)
  case Nil
  have "from_chars_u32 (to_string n) = (Some n, [])"
    using from_chars_to_string [of 0 n "2 ^ 32 - 1" False "[]"] assms(1,2) by (simp add: from_chars_u32_def)
  then show ?case by simp
qed simp

section \<open>Many requests at once\<close>

text \<open>A payload whose headers could not be built, and one for which a request was made and given a handle.\<close>

definition refused :: "gzip \<Rightarrow> ('t, 'h) transport \<Rightarrow> HttpWireCodecConfig \<Rightarrow> bytes \<Rightarrow> WireResult \<Rightarrow> bool" where
  "refused gz tp cfg payload r \<longleftrightarrow>
     (\<exists>body z err w w1. PrepareBody gz cfg payload = (body, z) \<and>
        Http_BuildHeaders tp cfg (length body) z w = (Inl err, w1) \<and> r = AuthFailure err)"

definition issued :: "gzip \<Rightarrow> ('t, 'h) transport \<Rightarrow> HttpWireCodecConfig \<Rightarrow> int \<Rightarrow> bytes \<Rightarrow> 'h \<Rightarrow> bool" where
  "issued gz tp cfg deadline payload h \<longleftrightarrow>
     (\<exists>body z headers w w1 w2. PrepareBody gz cfg payload = (body, z) \<and>
        Http_BuildHeaders tp cfg (length body) z w = (Inr headers, w1) \<and>
        Transport_Send tp \<lparr>rs_headers = headers, rs_payload = body, rs_deadline = deadline\<rparr> w1 = (h, w2))"

lemma submit_all_spec:
  assumes "submit_all gz tp cfg deadline i ps results fl w = (results', fl', w')" "length results = i + length ps" "snd ` set fl \<subseteq> {..<i}"
  shows "length results' = length results \<and> set fl \<subseteq> set fl' \<and> (\<forall>k<i. results' ! k = results ! k) \<and>
    (\<forall>k\<ge>i. k < length results \<longrightarrow> k \<in> snd ` set fl' \<or> refused gz tp cfg (ps ! (k - i)) (results' ! k)) \<and>
    (\<forall>(h, k) \<in> set fl'. (h, k) \<in> set fl \<or> i \<le> k \<and> k < length results \<and> issued gz tp cfg deadline (ps ! (k - i)) h)"
  using assms
proof (induction ps arbitrary: i results fl w)
  case (Cons p ps)
  have step: ?case
    if go: "submit_all gz tp cfg deadline (Suc i) ps results1 fl1 w1 = (results', fl', w')" "length results1 = length results"
      and kept: "\<And>k. k < i \<Longrightarrow> results1 ! k = results ! k" "set fl \<subseteq> set fl1"
      and made: "i \<in> snd ` set fl1 \<or> refused gz tp cfg p (results1 ! i)"
        "\<And>h k. (h, k) \<in> set fl1 \<Longrightarrow> (h, k) \<in> set fl \<or> k = i \<and> issued gz tp cfg deadline p h"
    for results1 fl1 w1
  proof -
    have "snd ` set fl1 \<subseteq> {..<Suc i}" using made(2) Cons.prems(3) by fastforce
    with Cons.IH [OF go(1)] go(2) Cons.prems(2)
    have IH: "length results' = length results1" "set fl1 \<subseteq> set fl'" "\<And>k. k < Suc i \<Longrightarrow> results' ! k = results1 ! k"
        "\<And>k. Suc i \<le> k \<Longrightarrow> k < length results \<Longrightarrow> k \<in> snd ` set fl' \<or> refused gz tp cfg (ps ! (k - Suc i)) (results' ! k)"
        "\<And>h k. (h, k) \<in> set fl' \<Longrightarrow> (h, k) \<in> set fl1 \<or> Suc i \<le> k \<and> k < length results \<and> issued gz tp cfg deadline (ps ! (k - Suc i)) h"
      by auto
    have later: "(p # ps) ! (k - i) = ps ! (k - Suc i)" if "Suc i \<le> k" for k using that by (simp add: nth_Cons')
    show ?thesis
    proof (intro conjI allI impI ballI, goal_cases)
      case (4 k)
      then show ?case using made(1) IH(2,3,4) later [of k] by (cases "k = i") auto
    next
      case (5 x)
      obtain h k where "x = (h, k)" by (metis prod.exhaust)
      with 5 have "(h, k) \<in> set fl \<or> k = i \<and> issued gz tp cfg deadline p h \<or>
          Suc i \<le> k \<and> k < length results \<and> issued gz tp cfg deadline (ps ! (k - Suc i)) h" using IH(5) made(2) by blast
      then show ?case using \<open>x = (h, k)\<close> later [of k] Cons.prems(2) by auto
    qed (use go(2) IH(1-3) kept in auto)
  qed
  obtain body z where body: "PrepareBody gz cfg p = (body, z)" by (metis prod.exhaust)
  obtain a w1 where a: "Http_BuildHeaders tp cfg (length body) z w = (a, w1)" by (metis prod.exhaust)
  show ?case
  proof (cases a)
    case (Inl err)
    have "refused gz tp cfg p (AuthFailure err)" using body a Inl unfolding refused_def by blast
    then show ?thesis using Cons.prems(1,2) body a Inl by (intro step [of "results[i := AuthFailure err]" fl w1]) auto
  next
    case (Inr headers)
    obtain h w2 where h: "Transport_Send tp \<lparr>rs_headers = headers, rs_payload = body, rs_deadline = deadline\<rparr> w1 = (h, w2)" by (metis prod.exhaust)
    have "issued gz tp cfg deadline p h" using body a Inr h unfolding issued_def by blast
    then show ?thesis using Cons.prems(1) body a Inr h by (intro step [of results "fl @ [(h, i)]" w2]) auto
  qed
qed auto

lemma collect_all_spec:
  assumes "collect_all gz tp cfg point fl results diag w = (results', diag', w')"
  shows "length results' = length results \<and>
    (\<forall>k < length results. k \<notin> snd ` set fl \<and> results' ! k = results ! k \<or>
       (\<exists>h d w d1 w1. (h, k) \<in> set fl \<and> CollectOneResult gz tp cfg point h d w = (results' ! k, d1, w1)))"
  using assms
proof (induction fl arbitrary: results diag w)
  case (Cons e fl)
  obtain h i where e: "e = (h, i)" by (metis prod.exhaust)
  obtain r d1 w1 where r: "CollectOneResult gz tp cfg point h diag w = (r, d1, w1)" by (metis prod.exhaust)
  have "collect_all gz tp cfg point fl (results[i := r]) d1 w1 = (results', diag', w')" using Cons.prems e r by simp
  note IH = Cons.IH [OF this]
  show ?case
  proof (intro conjI allI impI)
    show "length results' = length results" using IH by simp
    fix k assume k: "k < length results"
    show "k \<notin> snd ` set (e # fl) \<and> results' ! k = results ! k \<or>
       (\<exists>h d w d1 w1. (h, k) \<in> set (e # fl) \<and> CollectOneResult gz tp cfg point h d w = (results' ! k, d1, w1))"
    proof (cases "k \<in> snd ` set fl")
      case True
      then obtain h d w d1 w1 where "(h, k) \<in> set fl" "CollectOneResult gz tp cfg point h d w = (results' ! k, d1, w1)"
        using IH k by (metis length_list_update)
      then show ?thesis by (meson list.set_intros(2))
    next
      case False
      then have "results' ! k = results[i := r] ! k" using IH k by (force simp: image_iff)
      then show ?thesis using False r e k by (cases "k = i") (auto, blast)
    qed
  qed
qed simp

text \<open>
  The results of \<open>SendAll\<close> are in step with its payloads. There is one for each payload. When the
  connection cannot be made each is that failure; otherwise the result at a payload's index is the failure
  to authorize that payload's request, or what waiting for the handle of a request with that payload's body
  gave, never a result that was left unset and never that of another payload, whichever of the payloads
  before it were refused.
\<close>

theorem send_all_aligned:
  assumes "SendAll gz tp cfg payloads deadline diag w = (results, diag', w')"
  shows "length results = length payloads \<and>
    (\<forall>i < length payloads.
       (\<exists>fresh d w1. EnsureConnected tp diag w = (Some (results ! i), fresh, d, w1)) \<or>
       refused gz tp cfg (payloads ! i) (results ! i) \<or>
       (\<exists>h point d w1 d1 w2. issued gz tp cfg deadline (payloads ! i) h \<and>
          CollectOneResult gz tp cfg point h d w1 = (results ! i, d1, w2)))"
proof (cases "payloads = []")
  case True
  then show ?thesis using assms by (simp add: SendAll_def)
next
  case False
  obtain f fresh d w1 where con: "EnsureConnected tp diag w = (f, fresh, d, w1)" by (metis prod.exhaust)
  show ?thesis
  proof (cases f)
    case (Some failure)
    then show ?thesis using assms con False by (auto simp: SendAll_def)
  next
    case None
    let ?point = "steady_now tp w1 + deadline * 1000000"
    let ?start = "replicate (length payloads) WireResult_new"
    obtain rs fl w2 where sub: "submit_all gz tp cfg deadline 0 payloads ?start [] w1 = (rs, fl, w2)" by (metis prod.exhaust)
    have col: "collect_all gz tp cfg ?point fl rs d w2 = (results, diag', w')" using assms con False None sub by (simp add: SendAll_def)
    have S: "length rs = length payloads"
        "\<And>k. k < length payloads \<Longrightarrow> k \<in> snd ` set fl \<or> refused gz tp cfg (payloads ! k) (rs ! k)"
        "\<And>h k. (h, k) \<in> set fl \<Longrightarrow> issued gz tp cfg deadline (payloads ! k) h"
      using submit_all_spec [OF sub] by auto
    show ?thesis
    proof (intro conjI allI impI)
      show "length results = length payloads" using collect_all_spec [OF col] S(1) by simp
      fix i assume i: "i < length payloads"
      then consider "i \<notin> snd ` set fl" "results ! i = rs ! i" |
          h d w d1 w1 where "(h, i) \<in> set fl" "CollectOneResult gz tp cfg ?point h d w = (results ! i, d1, w1)"
        using collect_all_spec [OF col] S(1) by metis
      then show "(\<exists>fresh d w1. EnsureConnected tp diag w = (Some (results ! i), fresh, d, w1)) \<or>
         refused gz tp cfg (payloads ! i) (results ! i) \<or>
         (\<exists>h point d w1 d1 w2. issued gz tp cfg deadline (payloads ! i) h \<and> CollectOneResult gz tp cfg point h d w1 = (results ! i, d1, w2))"
        by cases (use S(2) [OF i] S(3) in metis)+
    qed
  qed
qed

section \<open>What the retry engine relies on\<close>

lemma Http_Classify_settled: "Http_ClassifyResponse gz cfg result diag = (r, d) \<Longrightarrow> settled_success r"
proof (cases "DecodeBody gz result (unat (hc_max_decompressed_bytes cfg))")
  case (Inl e)
  then show "Http_ClassifyResponse gz cfg result diag = (r, d) \<Longrightarrow> settled_success r"
    by (auto simp: Http_ClassifyResponse_def BodyFailure_def Let_def)
next
  case (Inr body)
  then show "Http_ClassifyResponse gz cfg result diag = (r, d) \<Longrightarrow> settled_success r"
    using Http_ClassifyResponse_2xx [OF Inr refl, of diag] Http_ClassifyResponse_other [OF Inr refl, of diag]
    by (cases "200 \<le> ParseStatusCode (response_headers result) \<and> ParseStatusCode (response_headers result) < 300")
      (auto simp: settled_success_def split: if_splits)
qed

lemma collect_settled: "collect_result gz tp cfg h ms diag w = (r, d, w1) \<Longrightarrow> settled_success r"
  by (auto simp: collect_result_def DeadlineExceeded_def TransportFailure_def Let_def
      split: prod.splits option.splits if_splits dest: Http_Classify_settled)

lemma Http_Send_settled: "Http_Send gz tp cfg payload deadline diag w = (r, d, w1) \<Longrightarrow> settled_success r"
  by (auto simp: Http_Send_def AuthFailure_def Let_def
      split: prod.splits option.splits sum.splits dest: EnsureConnected_failure collect_settled)

interpretation http: wire_codec "\<lambda>(d, w). Http_Send gz tp cfg payload deadline d w" for gz tp cfg payload deadline
  by unfold_locales (auto intro: Http_Send_settled)

text \<open>Three payloads over a connected transport.\<close>

theorem send_all_aligned_witness:
  "case SendAll no_gzip (sample_transport (overloaded_reply ''identity'')) sample_http [[1], [2], [3]] 500 None () of
     (results, diag', w') \<Rightarrow> length results = 3 \<and> (\<forall>i \<in> {0, 1, 2}. \<not> success (results ! i) \<and> error (results ! i) = None)"
proof -
  let ?tp = "sample_transport (overloaded_reply ''identity'')"
  obtain results diag' w' where s: "SendAll no_gzip ?tp sample_http [[1], [2], [3]] 500 None () = (results, diag', w')" by (metis prod.exhaust)
  have "\<not> success r \<and> error r = None" if "CollectOneResult no_gzip ?tp sample_http point h d w = (r, d1, w1)" for point h d w r d1 w1
  proof -
    have "DecodeBody no_gzip (overloaded_reply ''identity'') limit = Inr [1]" for limit by (simp add: DecodeBody_def overloaded_reply_def)
    moreover have "tr_success (overloaded_reply ''identity'')" by (simp add: overloaded_reply_def)
    ultimately show ?thesis
      using that Http_ClassifyResponse_other [of no_gzip "overloaded_reply ''identity''" sample_http "[1]" 503 d] overloaded_status
      by (auto simp: CollectOneResult_def collect_result_def sample_transport_def Let_def split: prod.splits)
  qed
  moreover have "EnsureConnected ?tp None () = (None, False, None, ())" by (simp add: EnsureConnected_def sample_transport_def)
  moreover have "\<not> refused no_gzip ?tp sample_http p r" for p r
    by (auto simp: refused_def Http_BuildHeaders_def AppendAuthHeader_def sample_transport_def)
  ultimately have each: "i < 3 \<Longrightarrow> \<not> success (results ! i) \<and> error (results ! i) = None" and "length results = 3" for i
    using send_all_aligned [OF s] by (auto dest!: spec [of _ i])
  then show ?thesis using each [of 0] each [of 1] each [of 2] s by simp
qed

end
