(* ===== verification/Otlp_Exporter.thy ===== *)
theory Otlp_Exporter
  imports Exporter_Worker Log_Pipeline Batch_Span_Processor Grpc_Codec Http_Codec
begin

text \<open>
  The three OTLP exporters (\<open>src/exporter/otlp_exporter.cpp\<close>, \<open>otlp_log_exporter.cpp\<close>, \<open>otlp_metric_exporter.cpp\<close>)
  and the joining of encoded requests (\<open>src/wire/encoder/trace_request_concat.cpp\<close>). The encoder is a
  parameter, a function from batches to bytes; a codec is a record of its two operations over a world,
  and the two codecs of the library are instances. A codec counts its own drops in the sink it was given;
  these are additions that no exporter reads, and they are part of the codec's world. Failing allocations
  are left out, so the one exception a drain can raise is that of a codec with too many results; the
  text of that exception is a parameter.

  Proved here: the queue stays within both bounds, nothing accepted is lost, the grouping of a drain into
  requests, and that with either codec every batch of a drain is counted once as sent or as failed.
\<close>

section \<open>Codecs\<close>

record 'w codec =
  cd_Send :: "bytes \<Rightarrow> int \<Rightarrow> 'w \<Rightarrow> WireResult \<times> 'w"
  cd_SendAll :: "bytes list \<Rightarrow> int \<Rightarrow> 'w \<Rightarrow> WireResult list \<times> 'w"

fun default_SendAll :: "(bytes \<Rightarrow> int \<Rightarrow> 'w \<Rightarrow> WireResult \<times> 'w) \<Rightarrow> bytes list \<Rightarrow> int \<Rightarrow> 'w \<Rightarrow> WireResult list \<times> 'w" where
  "default_SendAll send [] deadline w = ([], w)"
| "default_SendAll send (p # ps) deadline w =
     (case send p deadline w of
        (r, w1) \<Rightarrow> (case default_SendAll send ps deadline w1 of (rs, w2) \<Rightarrow> (r # rs, w2)))"

definition grpc_codec :: "gzip \<Rightarrow> ('t, 'h) transport \<Rightarrow> (GrpcWireCodec \<times> 't) codec" where
  "grpc_codec gz tp =
     (let send = (\<lambda>p deadline (c, w). case Grpc_Send gz tp p deadline c w of (r, c1, w1) \<Rightarrow> (r, c1, w1))
      in \<lparr>cd_Send = send, cd_SendAll = default_SendAll send\<rparr>)"

definition http_codec :: "gzip \<Rightarrow> ('t, 'h) transport \<Rightarrow> HttpWireCodecConfig \<Rightarrow> (sink \<times> 't) codec" where
  "http_codec gz tp cfg =
     \<lparr>cd_Send = (\<lambda>p deadline (d, w). Http_Send gz tp cfg p deadline d w),
      cd_SendAll = (\<lambda>ps deadline (d, w). SendAll gz tp cfg ps deadline d w)\<rparr>"

section \<open>The trace exporter\<close>

record OtlpExporterConfig =
  ec_max_queue_size :: nat
  ec_max_queued_spans :: nat
  ec_export_deadline :: int
  ec_retry_policy :: RetryPolicyConfig
  ec_max_spans_per_request :: nat
  ec_max_request_bytes :: nat

record OtlpExporter = "BatchHandle exporter_core" +
  m_queued_spans :: nat

definition OtlpExporter_new :: OtlpExporter where
  "OtlpExporter_new = exporter_core.extend exporter_core_new \<lparr>m_queued_spans = 0\<rparr>"

definition span_count :: "BatchHandle \<Rightarrow> nat" where
  "span_count b = length (h_records b)"

definition PublishQueueDepth :: "('b, 'x) exporter_core_scheme \<Rightarrow> sink \<Rightarrow> sink" where
  "PublishQueueDepth e diag = map_option (SetQueueDepth (of_nat (length (exp_queue e)))) diag"

definition EnqueueLocked :: "OtlpExporterConfig \<Rightarrow> BatchHandle \<Rightarrow> OtlpExporter \<times> sink \<Rightarrow> ExportResult \<times> OtlpExporter \<times> sink" where
  "EnqueueLocked cfg batch = (\<lambda>(e, diag).
     if exp_shutdown e then (Export_AlreadyShutDown, e, count_drop PostShutdown (span_count batch) diag)
     else if length (exp_queue e) \<ge> ec_max_queue_size cfg \<or> m_queued_spans e + span_count batch > ec_max_queued_spans cfg
       then (Export_Dropped, e, count_drop QueueFull (span_count batch) diag)
     else
       let e1 = e\<lparr>exp_queue := exp_queue e @ [batch], m_queued_spans := m_queued_spans e + span_count batch\<rparr>
       in (Export_Success, e1, PublishQueueDepth e1 diag))"

definition RecordDrainFailure :: "int \<Rightarrow> string \<Rightarrow> sink \<Rightarrow> sink" where
  "RecordDrainFailure now what diag = map_option (RecordBatchFailed now (an_error Kind_InternalFailure what)) diag"

definition ConcatenateTraceRequests :: "bytes list \<Rightarrow> bytes" where
  "ConcatenateTraceRequests parts =
     (if length parts = 1 then hd parts else if sum_list (map length parts) = 0 then [] else concat parts)"

record RequestRange =
  rr_first :: nat
  rr_count :: nat

definition EncodeRequest :: "(BatchHandle \<Rightarrow> bytes) \<Rightarrow> BatchHandle list \<Rightarrow> nat \<Rightarrow> nat \<Rightarrow> bytes" where
  "EncodeRequest encoder batches first number =
     ConcatenateTraceRequests (map (\<lambda>i. encoder (batches ! i)) [first..<first + number])"

text \<open>The loop of \<open>GroupIntoRequests\<close>, over the spans and encoded bytes of each batch.\<close>

fun group_loop :: "OtlpExporterConfig \<Rightarrow> nat \<Rightarrow> (nat \<times> nat) list \<Rightarrow> RequestRange list \<Rightarrow> nat \<Rightarrow> nat \<Rightarrow> RequestRange list" where
  "group_loop cfg i [] requests spans_in_request bytes_in_request = requests"
| "group_loop cfg i ((spans, bytes) # sizes) requests spans_in_request bytes_in_request =
     (let over_spans = (spans_in_request + spans > ec_max_spans_per_request cfg);
          over_bytes = (ec_max_request_bytes cfg \<noteq> 0 \<and> bytes_in_request + bytes > ec_max_request_bytes cfg);
          fresh = (requests = [] \<or> over_spans \<or> over_bytes);
          requests1 = (if fresh then requests @ [\<lparr>rr_first = i, rr_count = 0\<rparr>] else requests);
          spans1 = (if fresh then 0 else spans_in_request);
          bytes1 = (if fresh then 0 else bytes_in_request);
          requests2 = butlast requests1 @ [(last requests1)\<lparr>rr_count := rr_count (last requests1) + 1\<rparr>]
      in group_loop cfg (Suc i) sizes requests2 (spans1 + spans) (bytes1 + bytes))"

definition GroupIntoRequests :: "OtlpExporterConfig \<Rightarrow> BatchHandle list \<Rightarrow> bytes list \<Rightarrow> RequestRange list" where
  "GroupIntoRequests cfg batches parts = group_loop cfg 0 (zip (map span_count batches) (map length parts)) [] 0 0"

definition kFailureStage :: string where
  "kFailureStage = ''export failed at wire codec''"

fun settle_requests ::
    "(BatchHandle \<Rightarrow> bytes) \<Rightarrow> 'w codec \<Rightarrow> 'w retry_env \<Rightarrow> OtlpExporterConfig \<Rightarrow> string \<Rightarrow> int \<Rightarrow> BatchHandle list \<Rightarrow>
     RequestRange list \<Rightarrow> WireResult list \<Rightarrow> sink \<times> 'w \<Rightarrow> string option \<times> sink \<times> 'w" where
  "settle_requests encoder codec env cfg out_of_range now batches requests [] s = (None, s)"
| "settle_requests encoder codec env cfg out_of_range now batches [] (r # results) s = (Some out_of_range, s)"
| "settle_requests encoder codec env cfg out_of_range now batches (request # requests) (r # results) (diag, w) =
     settle_requests encoder codec env cfg out_of_range now batches requests results
       (Settle (env\<lparr>env_retry := cd_Send codec (EncodeRequest encoder batches (rr_first request) (rr_count request)) (ec_export_deadline cfg)\<rparr>)
          (ec_retry_policy cfg) now r kFailureStage (rr_count request) diag w)"

definition FanOutAndProcess ::
    "(BatchHandle \<Rightarrow> bytes) \<Rightarrow> 'w codec \<Rightarrow> 'w retry_env \<Rightarrow> OtlpExporterConfig \<Rightarrow> string \<Rightarrow> int \<Rightarrow> BatchHandle list \<Rightarrow>
     sink \<times> 'w \<Rightarrow> string option \<times> sink \<times> 'w" where
  "FanOutAndProcess encoder codec env cfg out_of_range now batches = (\<lambda>(diag, w).
     if batches = [] then (None, diag, w)
     else
       let parts = map encoder batches;
           requests = GroupIntoRequests cfg batches parts;
           payloads = map (\<lambda>q. ConcatenateTraceRequests (map (\<lambda>i. parts ! i) [rr_first q..<rr_first q + rr_count q])) requests
       in case cd_SendAll codec payloads (ec_export_deadline cfg) w of
            (results, w1) \<Rightarrow> settle_requests encoder codec env cfg out_of_range now batches requests results (diag, w1))"

text \<open>The body of the loop of \<open>DrainQueue\<close> outside the lock, with its handler.\<close>

definition guarded :: "int \<Rightarrow> string option \<times> sink \<times> 'w \<Rightarrow> sink \<times> 'w" where
  "guarded now = (\<lambda>(thrown, diag, w). (case thrown of None \<Rightarrow> diag | Some what \<Rightarrow> RecordDrainFailure now what diag, w))"

definition otlp_ops ::
    "(BatchHandle \<Rightarrow> bytes) \<Rightarrow> 'w codec \<Rightarrow> 'w retry_env \<Rightarrow> OtlpExporterConfig \<Rightarrow> string \<Rightarrow> ('w \<Rightarrow> 'w) \<Rightarrow> ('w \<Rightarrow> 'w) \<Rightarrow>
     (BatchHandle, unit OtlpExporter_ext, 'w) exporter_ops" where
  "otlp_ops encoder codec env cfg out_of_range abort on_shutdown_timeout =
     \<lparr>xo_enqueue = EnqueueLocked cfg, xo_groups = True, xo_taken = (\<lambda>e. e\<lparr>m_queued_spans := 0\<rparr>),
      xo_process = (\<lambda>now batches s. guarded now (FanOutAndProcess encoder codec env cfg out_of_range now batches s)),
      xo_publish = PublishQueueDepth, xo_abort = abort, xo_on_timeout = on_shutdown_timeout\<rparr>"

section \<open>The log and the metric exporter\<close>

record PlainExporterConfig =
  pc_max_queue_size :: nat
  pc_export_deadline :: int
  pc_retry_policy :: RetryPolicyConfig

definition Plain_Export ::
    "('b \<Rightarrow> nat) \<Rightarrow> PlainExporterConfig \<Rightarrow> 'b \<Rightarrow> 'b exporter_core \<times> sink \<Rightarrow> ExportResult \<times> 'b exporter_core \<times> sink" where
  "Plain_Export items cfg batch = (\<lambda>(e, diag).
     if exp_shutdown e then (Export_AlreadyShutDown, e, count_drop PostShutdown (items batch) diag)
     else if length (exp_queue e) \<ge> pc_max_queue_size cfg then (Export_Dropped, e, count_drop QueueFull (items batch) diag)
     else (Export_Success, e\<lparr>exp_queue := exp_queue e @ [batch]\<rparr>, diag))"

fun settle_batches ::
    "('b \<Rightarrow> bytes) \<Rightarrow> 'w codec \<Rightarrow> 'w retry_env \<Rightarrow> PlainExporterConfig \<Rightarrow> string \<Rightarrow> string \<Rightarrow> int \<Rightarrow> 'b list \<Rightarrow> WireResult list \<Rightarrow>
     sink \<times> 'w \<Rightarrow> string option \<times> sink \<times> 'w" where
  "settle_batches encoder codec env cfg stage out_of_range now batches [] s = (None, s)"
| "settle_batches encoder codec env cfg stage out_of_range now [] (r # results) s = (Some out_of_range, s)"
| "settle_batches encoder codec env cfg stage out_of_range now (batch # batches) (r # results) (diag, w) =
     settle_batches encoder codec env cfg stage out_of_range now batches results
       (Settle (env\<lparr>env_retry := cd_Send codec (encoder batch) (pc_export_deadline cfg)\<rparr>) (pc_retry_policy cfg) now r stage 1 diag w)"

definition ProcessBatches ::
    "('b \<Rightarrow> bytes) \<Rightarrow> 'w codec \<Rightarrow> 'w retry_env \<Rightarrow> PlainExporterConfig \<Rightarrow> string \<Rightarrow> string \<Rightarrow> int \<Rightarrow> 'b list \<Rightarrow>
     sink \<times> 'w \<Rightarrow> string option \<times> sink \<times> 'w" where
  "ProcessBatches encoder codec env cfg stage out_of_range now batches = (\<lambda>(diag, w).
     case cd_SendAll codec (map encoder batches) (pc_export_deadline cfg) w of
       (results, w1) \<Rightarrow> settle_batches encoder codec env cfg stage out_of_range now batches results (diag, w1))"

definition plain_ops ::
    "('b \<Rightarrow> nat) \<Rightarrow> string \<Rightarrow> ('b \<Rightarrow> bytes) \<Rightarrow> 'w codec \<Rightarrow> 'w retry_env \<Rightarrow> PlainExporterConfig \<Rightarrow> string \<Rightarrow> ('w \<Rightarrow> 'w) \<Rightarrow> ('w \<Rightarrow> 'w) \<Rightarrow>
     ('b, unit, 'w) exporter_ops" where
  "plain_ops items stage encoder codec env cfg out_of_range abort on_shutdown_timeout =
     \<lparr>xo_enqueue = Plain_Export items cfg, xo_groups = False, xo_taken = (\<lambda>e. e),
      xo_process = (\<lambda>now batches s. guarded now (ProcessBatches encoder codec env cfg stage out_of_range now batches s)),
      xo_publish = (\<lambda>e diag. diag), xo_abort = abort, xo_on_timeout = on_shutdown_timeout\<rparr>"

definition OtlpLogExporter ::
    "(LogBatchHandle \<Rightarrow> bytes) \<Rightarrow> 'w codec \<Rightarrow> 'w retry_env \<Rightarrow> PlainExporterConfig \<Rightarrow> string \<Rightarrow> ('w \<Rightarrow> 'w) \<Rightarrow> ('w \<Rightarrow> 'w) \<Rightarrow>
     (LogBatchHandle, unit, 'w) exporter_ops" where
  "OtlpLogExporter = plain_ops (\<lambda>b. length (lh_records b)) ''log export failed at wire codec''"

definition OtlpMetricExporter ::
    "(MetricBatchHandle \<Rightarrow> bytes) \<Rightarrow> 'w codec \<Rightarrow> 'w retry_env \<Rightarrow> PlainExporterConfig \<Rightarrow> string \<Rightarrow> ('w \<Rightarrow> 'w) \<Rightarrow> ('w \<Rightarrow> 'w) \<Rightarrow>
     (MetricBatchHandle, unit, 'w) exporter_ops" where
  "OtlpMetricExporter = plain_ops (\<lambda>b. length (mb_metrics b)) ''metric export failed at wire codec''"

section \<open>A sample\<close>

definition sample_env :: "'w retry_env" where
  "sample_env =
     \<lparr>env_now = (\<lambda>_. 0), env_jitter = (\<lambda>w. (0, w)), env_sleep = (\<lambda>_ w. (True, w)), env_retry = (\<lambda>w. (WireResult_new, w)),
      env_fl = (\<lambda>x. x), env_pow = (^), env_cast_ub = (\<lambda>_. 0)\<rparr>"

definition sample_config :: OtlpExporterConfig where
  "sample_config =
     \<lparr>ec_max_queue_size = 2, ec_max_queued_spans = 3, ec_export_deadline = 10000, ec_retry_policy = RetryPolicyConfig_default,
      ec_max_spans_per_request = 2, ec_max_request_bytes = 0\<rparr>"

definition sample_batch :: "nat \<Rightarrow> BatchHandle" where
  "sample_batch n =
     \<lparr>h_records = replicate n SpanRecord_default, h_resource = None, h_scope = \<lparr>scope_name = [], scope_version = []\<rparr>\<rparr>"

definition sample_ops :: "(BatchHandle, unit OtlpExporter_ext, sink \<times> unit) exporter_ops" where
  "sample_ops =
     otlp_ops (\<lambda>b. [of_nat (length (h_records b))]) (http_codec no_gzip (sample_transport (overloaded_reply ''identity'')) sample_http)
       sample_env sample_config [] (\<lambda>w. w) (\<lambda>w. w)"

definition exporter_start :: "(BatchHandle, unit OtlpExporter_ext, sink \<times> unit) exporter_world" where
  "exporter_start = exporter_init OtlpExporter_new None (None, ())"

lemma sample_span_count [simp]: "span_count (sample_batch n) = n"
  by (simp add: span_count_def sample_batch_def)

section \<open>The queue\<close>

definition within_budget :: "OtlpExporterConfig \<Rightarrow> OtlpExporter \<Rightarrow> bool" where
  "within_budget cfg e \<longleftrightarrow> length (exp_queue e) \<le> ec_max_queue_size cfg \<and>
     m_queued_spans e = sum_list (map span_count (exp_queue e)) \<and> m_queued_spans e \<le> ec_max_queued_spans cfg"

lemma otlp_ops_sel [simp]:
  "xo_enqueue (otlp_ops encoder codec env cfg oor abort timeout) = EnqueueLocked cfg"
  "xo_taken (otlp_ops encoder codec env cfg oor abort timeout) = (\<lambda>e. e\<lparr>m_queued_spans := 0\<rparr>)"
  by (simp_all add: otlp_ops_def)

interpretation traces: exporter_worker "otlp_ops encoder codec env cfg oor abort timeout" "within_budget cfg"
  for encoder codec env cfg oor abort timeout
  by unfold_locales (auto simp: EnqueueLocked_def within_budget_def Let_def split: if_splits)

definition within_size :: "PlainExporterConfig \<Rightarrow> 'b exporter_core \<Rightarrow> bool" where
  "within_size cfg e \<longleftrightarrow> length (exp_queue e) \<le> pc_max_queue_size cfg"

lemma plain_ops_sel [simp]:
  "xo_enqueue (plain_ops items stage encoder codec env cfg oor abort timeout) = Plain_Export items cfg"
  "xo_taken (plain_ops items stage encoder codec env cfg oor abort timeout) = (\<lambda>e. e)"
  by (simp_all add: plain_ops_def)

interpretation plain: exporter_worker "plain_ops items stage encoder codec env cfg oor abort timeout" "within_size cfg"
  for items stage encoder codec env cfg oor abort timeout
  by unfold_locales (auto simp: Plain_Export_def within_size_def split: if_splits)

lemma OtlpExporter_new_sel [simp]:
  "exp_queue OtlpExporter_new = []" "exp_flush_seq OtlpExporter_new = 0" "exp_flush_done_seq OtlpExporter_new = 0"
  "\<not> exp_shutdown OtlpExporter_new" "m_queued_spans OtlpExporter_new = 0"
  by (simp_all add: OtlpExporter_new_def exporter_core_new_def exporter_core.defs)

text \<open>
  C29: the trace exporter delivers. In every state that callers and worker can reach, the batches accepted
  are those drained, those with the worker and those queued, in this order and once each; the queue is
  within its size and the spans in it within the budget, whose counter is exact. Every flush whose number
  has been acknowledged has had all batches accepted before it drained, and when \<open>Shutdown\<close> has returned,
  with whatever status, every batch ever accepted has been.
\<close>

theorem exporter_delivers:
  assumes "exporter_reachable (otlp_ops encoder codec env cfg oor abort timeout) (exporter_init OtlpExporter_new diag v) w"
  shows "xw_accepted w = concat (xw_drains w) @ processing w @ exp_queue (xw_exp w) \<and>
    length (exp_queue (xw_exp w)) \<le> ec_max_queue_size cfg \<and>
    m_queued_spans (xw_exp w) = sum_list (map span_count (exp_queue (xw_exp w))) \<and>
    m_queued_spans (xw_exp w) \<le> ec_max_queued_spans cfg \<and>
    (\<forall>(t, n) \<in> set (xw_tickets w). t \<le> exp_flush_done_seq (xw_exp w) \<longrightarrow>
       take n (xw_accepted w) = take n (concat (xw_drains w))) \<and>
    (\<forall>status. xw_shut w = S_Returned status \<longrightarrow> concat (xw_drains w) = xw_accepted w)"
proof -
  have inv: "exporter_inv w" by (rule traces.reachable_inv [OF assms]) (simp add: traces.fresh_inv)
  have "within_budget cfg (xw_exp w)" by (rule traces.reachable_fits [OF assms]) (simp add: within_budget_def exporter_init_def)
  moreover have "take n (xw_accepted w) = take n (concat (xw_drains w))"
    if "(t, n) \<in> set (xw_tickets w)" "t \<le> exp_flush_done_seq (xw_exp w)" for t n
  proof -
    have "n \<le> length (concat (xw_drains w))" using that inv by (auto simp: exporter_inv_defs)
    then show ?thesis using inv by (simp add: exporter_inv_defs)
  qed
  moreover have "concat (xw_drains w) = xw_accepted w" if "xw_shut w = S_Returned status" for status
    using inv that by (auto simp: exporter_inv_defs processing_def)
  ultimately show ?thesis using inv by (auto simp: within_budget_def exporter_inv_defs)
qed

theorem exporter_delivers_witness:
  "let w = hand_over sample_ops [sample_batch 2, sample_batch 2] exporter_start
   in xw_accepted w = [sample_batch 2] \<and> exp_queue (xw_exp w) = [sample_batch 2] \<and> m_queued_spans (xw_exp w) = 2"
proof -
  let ?w = "hand_over sample_ops [sample_batch 2, sample_batch 2] exporter_start"
  have "exporter_reachable sample_ops exporter_start ?w"
    by (intro xr_step [OF xr_init] xs_export) (simp add: sample_ops_def otlp_ops_def)
  note spec = exporter_delivers [OF this [unfolded sample_ops_def exporter_start_def], folded sample_ops_def exporter_start_def]
  have acc: "xw_accepted ?w = [sample_batch 2]"
    by (simp add: hand_over_def exporter_start_def exporter_init_def sample_ops_def EnqueueLocked_def sample_config_def Let_def)
  have "xw_drains ?w = []" "processing ?w = []"
    by (simp_all add: hand_over_def exporter_start_def exporter_init_def processing_def split: prod.splits)
  with spec acc have "exp_queue (xw_exp ?w) = [sample_batch 2]" by simp
  with spec acc show ?thesis by (simp add: Let_def)
qed

text \<open>
  \<open>Shutdown\<close> returns. From every reachable state in which a thread is in \<open>Shutdown\<close> of the trace, the log or
  the metric exporter, whatever that thread and the worker are doing, the two can run until \<open>Shutdown\<close> has
  returned, provided that each call of encoder and codec does.
\<close>

theorem exporter_shutdown_returns:
  assumes "otlp = otlp_ops encoder codec env cfg oor abort timeout"
    "logs = OtlpLogExporter log_encoder codec env lcfg oor abort timeout"
    "metrics = OtlpMetricExporter metric_encoder codec env mcfg oor abort timeout"
  shows "(\<forall>w. exporter_reachable otlp (exporter_init OtlpExporter_new diag v) w \<and> xw_shut w \<noteq> S_Idle \<longrightarrow>
      (\<exists>w' status. exporter_reachable otlp w w' \<and> xw_shut w' = S_Returned status)) \<and>
    (\<forall>w. exporter_reachable logs (exporter_init exporter_core_new diag v) w \<and> xw_shut w \<noteq> S_Idle \<longrightarrow>
      (\<exists>w' status. exporter_reachable logs w w' \<and> xw_shut w' = S_Returned status)) \<and>
    (\<forall>w. exporter_reachable metrics (exporter_init exporter_core_new diag v) w \<and> xw_shut w \<noteq> S_Idle \<longrightarrow>
      (\<exists>w' status. exporter_reachable metrics w w' \<and> xw_shut w' = S_Returned status))"
  unfolding assms OtlpLogExporter_def OtlpMetricExporter_def
  by (intro conjI allI impI; erule traces.fresh_shutdown_returns plain.fresh_shutdown_returns; simp add: exporter_core_new_def)

theorem exporter_shutdown_returns_witness:
  "\<exists>w' status. exporter_reachable sample_ops (request_shutdown exporter_start) w' \<and> xw_shut w' = S_Returned status"
proof -
  have "exporter_reachable sample_ops exporter_start (request_shutdown exporter_start)" by (intro xr_step [OF xr_init] xs_shutdown)
  moreover have "xw_shut (request_shutdown exporter_start) = S_Aborting"
    by (simp add: request_shutdown_def exporter_start_def exporter_init_def)
  ultimately show ?thesis
    using exporter_shutdown_returns [OF sample_ops_def refl refl, of None "(None, ())"] by (simp add: exporter_start_def)
qed

text \<open>
  C30: a flush that comes late defeats a shutdown. The waits of \<open>Shutdown\<close> and \<open>ForceFlush\<close> compare with the number
  of the latest flush, not with their own. There is a run in which the worker has drained everything and
  exited, and then another thread asks for a flush before the thread in \<open>Shutdown\<close> has looked: no
  continuation lets \<open>Shutdown\<close> return anything but \<open>TimedOut\<close>, although nothing was lost, and its handler for
  an expired drain is run.
\<close>

theorem late_flush_defeats_shutdown:
  assumes "ops = otlp_ops encoder codec env cfg oor abort timeout"
  shows "\<exists>w. exporter_reachable ops (exporter_init OtlpExporter_new diag v) w \<and> xw_pc w = X_Exited \<and>
    concat (xw_drains w) = xw_accepted w \<and> xw_shut w = S_Waiting \<and>
    (\<forall>w' status. exporter_reachable ops w w' \<and> xw_shut w' = S_Returned status \<longrightarrow> status = TimedOut)"
proof -
  obtain w where w: "exporter_reachable ops (exporter_init OtlpExporter_new diag v) w" "abandoned w" "xw_shut w = S_Waiting"
      "concat (xw_drains w) = xw_accepted w"
    using traces.late_flush [of OtlpExporter_new encoder codec env cfg oor abort timeout diag v] assms by auto
  have "status = TimedOut" if "exporter_reachable ops w w'" "xw_shut w' = S_Returned status" for w' status
    using traces.abandoned_forever that w(2) unfolding assms abandoned_def by fastforce
  then show ?thesis using w unfolding abandoned_def by blast
qed

theorem late_flush_defeats_shutdown_witness:
  "\<exists>w w'. exporter_reachable sample_ops exporter_start w \<and> concat (xw_drains w) = xw_accepted w \<and>
     exporter_reachable sample_ops w w' \<and> xw_shut w' = S_Returned TimedOut"
proof -
  obtain w where w: "exporter_reachable sample_ops exporter_start w" "concat (xw_drains w) = xw_accepted w" "xw_shut w = S_Waiting"
      "\<And>w' status. exporter_reachable sample_ops w w' \<Longrightarrow> xw_shut w' = S_Returned status \<Longrightarrow> status = TimedOut"
    using late_flush_defeats_shutdown [OF sample_ops_def, of None "(None, ())"] unfolding exporter_start_def by blast
  have "\<exists>w' status. exporter_reachable sample_ops w w' \<and> xw_shut w' = S_Returned status"
    using w(1,3) traces.fresh_shutdown_returns [of _ _ _ _ _ _ _ OtlpExporter_new None "(None, ())" w]
    unfolding sample_ops_def exporter_start_def by simp
  then show ?thesis using w by metis
qed

section \<open>Requests\<close>

definition range_of :: "RequestRange \<Rightarrow> nat list" where
  "range_of q = [rr_first q..<rr_first q + rr_count q]"

definition spans_in :: "(nat \<times> nat) list \<Rightarrow> RequestRange \<Rightarrow> nat" where
  "spans_in sizes q = sum_list (map (\<lambda>i. fst (sizes ! i)) (range_of q))"

definition bytes_in :: "(nat \<times> nat) list \<Rightarrow> RequestRange \<Rightarrow> nat" where
  "bytes_in sizes q = sum_list (map (\<lambda>i. snd (sizes ! i)) (range_of q))"

definition joinable :: "OtlpExporterConfig \<Rightarrow> nat \<Rightarrow> nat \<Rightarrow> bool" where
  "joinable cfg spans bytes \<longleftrightarrow> spans \<le> ec_max_spans_per_request cfg \<and> (ec_max_request_bytes cfg = 0 \<or> bytes \<le> ec_max_request_bytes cfg)"

text \<open>
  The requests cover the batches in order; each has at least one batch and is within the limits or has
  only one; and none could have taken the batch after it.
\<close>

definition grouped :: "OtlpExporterConfig \<Rightarrow> (nat \<times> nat) list \<Rightarrow> nat \<Rightarrow> RequestRange list \<Rightarrow> bool" where
  "grouped cfg sizes n requests \<longleftrightarrow> concat (map range_of requests) = [0..<n] \<and>
     (\<forall>q \<in> set requests. 0 < rr_count q \<and> (joinable cfg (spans_in sizes q) (bytes_in sizes q) \<or> rr_count q = 1)) \<and>
     (\<forall>k. Suc k < length requests \<longrightarrow>
        (case sizes ! rr_first (requests ! Suc k) of
           (spans, bytes) \<Rightarrow> \<not> joinable cfg (spans_in sizes (requests ! k) + spans) (bytes_in sizes (requests ! k) + bytes)))"

lemma grouped_end: "grouped cfg sizes n (qs @ [q]) \<Longrightarrow> rr_first q + rr_count q = n"
proof -
  assume g: "grouped cfg sizes n (qs @ [q])"
  then have eq: "concat (map range_of qs) @ range_of q = [0..<n]" "0 < rr_count q" by (auto simp: grouped_def)
  then have ne: "range_of q \<noteq> []" by (simp add: range_of_def)
  with eq(1) have "[0..<n] \<noteq> []" by (metis append_is_Nil_conv)
  moreover have "last [0..<n] = last (range_of q)" using eq(1) ne by (metis last_appendR)
  ultimately show ?thesis using ne eq(2) by (simp add: range_of_def)
qed

lemma grouped_fresh:
  assumes "grouped cfg sizes i qs" "sizes ! i = (spans, bytes)"
    and "qs = [] \<or> \<not> joinable cfg (spans_in sizes (last qs) + spans) (bytes_in sizes (last qs) + bytes)"
  shows "grouped cfg sizes (Suc i) (qs @ [\<lparr>rr_first = i, rr_count = 1\<rparr>])"
  unfolding grouped_def
proof (intro conjI allI impI)
  show "concat (map range_of (qs @ [\<lparr>rr_first = i, rr_count = 1\<rparr>])) = [0..<Suc i]" using assms(1) by (simp add: grouped_def range_of_def)
  show "\<forall>q \<in> set (qs @ [\<lparr>rr_first = i, rr_count = 1\<rparr>]). 0 < rr_count q \<and> (joinable cfg (spans_in sizes q) (bytes_in sizes q) \<or> rr_count q = 1)"
    using assms(1) by (auto simp: grouped_def)
  fix k assume k: "Suc k < length (qs @ [\<lparr>rr_first = i, rr_count = 1\<rparr>])"
  show "case sizes ! rr_first ((qs @ [\<lparr>rr_first = i, rr_count = 1\<rparr>]) ! Suc k) of
      (spans, bytes) \<Rightarrow> \<not> joinable cfg (spans_in sizes ((qs @ [\<lparr>rr_first = i, rr_count = 1\<rparr>]) ! k) + spans)
         (bytes_in sizes ((qs @ [\<lparr>rr_first = i, rr_count = 1\<rparr>]) ! k) + bytes)"
  proof (cases "Suc k = length qs")
    case True
    then have "qs \<noteq> []" "qs ! k = last qs" by (cases qs rule: rev_cases; simp)+
    then show ?thesis using assms(2,3) True by (simp add: nth_append)
  next
    case False
    then show ?thesis using assms(1) k by (simp add: grouped_def nth_append)
  qed
qed

lemma grouped_more:
  assumes "grouped cfg sizes i (qs @ [q])" "sizes ! i = (spans, bytes)"
    and "joinable cfg (spans_in sizes q + spans) (bytes_in sizes q + bytes)"
  shows "grouped cfg sizes (Suc i) (qs @ [q\<lparr>rr_count := rr_count q + 1\<rparr>])"
    "spans_in sizes (q\<lparr>rr_count := rr_count q + 1\<rparr>) = spans_in sizes q + spans"
    "bytes_in sizes (q\<lparr>rr_count := rr_count q + 1\<rparr>) = bytes_in sizes q + bytes"
proof -
  let ?q = "q\<lparr>rr_count := rr_count q + 1\<rparr>"
  have r: "range_of ?q = range_of q @ [i]" using grouped_end [OF assms(1)] by (simp add: range_of_def)
  show s: "spans_in sizes ?q = spans_in sizes q + spans" "bytes_in sizes ?q = bytes_in sizes q + bytes"
    using assms(2) by (simp_all only: spans_in_def bytes_in_def r) simp_all
  have tight: "case sizes ! rr_first ((qs @ [?q]) ! Suc k) of
      (spans, bytes) \<Rightarrow> \<not> joinable cfg (spans_in sizes ((qs @ [?q]) ! k) + spans) (bytes_in sizes ((qs @ [?q]) ! k) + bytes)"
    if "Suc k < length (qs @ [?q])" for k
  proof -
    have "(qs @ [?q]) ! k = (qs @ [q]) ! k" "rr_first ((qs @ [?q]) ! Suc k) = rr_first ((qs @ [q]) ! Suc k)"
      using that by (auto simp: nth_append)
    then show ?thesis using assms(1) that by (simp add: grouped_def)
  qed
  have "concat (map range_of (qs @ [?q])) = [0..<Suc i]" using assms(1) r by (simp add: grouped_def)
  moreover have "\<forall>x \<in> set (qs @ [?q]). 0 < rr_count x \<and> (joinable cfg (spans_in sizes x) (bytes_in sizes x) \<or> rr_count x = 1)"
    using assms(1,3) s by (auto simp: grouped_def)
  ultimately show "grouped cfg sizes (Suc i) (qs @ [?q])" using tight unfolding grouped_def by blast
qed

lemma group_loop_step:
  "group_loop cfg i ((spans, bytes) # sizes) requests s b =
     (if requests = [] \<or> \<not> joinable cfg (s + spans) (b + bytes)
      then group_loop cfg (Suc i) sizes (requests @ [\<lparr>rr_first = i, rr_count = 1\<rparr>]) spans bytes
      else group_loop cfg (Suc i) sizes (butlast requests @ [(last requests)\<lparr>rr_count := rr_count (last requests) + 1\<rparr>]) (s + spans) (b + bytes))"
  by (auto simp: joinable_def Let_def)

lemma group_loop_grouped:
  assumes "grouped cfg all_sizes i requests" "drop i all_sizes = sizes" "i \<le> length all_sizes" "requests \<noteq> [] \<Longrightarrow> s = spans_in all_sizes (last requests) \<and> b = bytes_in all_sizes (last requests)"
  shows "grouped cfg all_sizes (length all_sizes) (group_loop cfg i sizes requests s b)"
  using assms
proof (induction sizes arbitrary: i requests s b)
  case (Cons x sizes)
  obtain spans bytes where x: "x = (spans, bytes)" by (metis prod.exhaust)
  have i: "i < length all_sizes" "all_sizes ! i = (spans, bytes)" "drop (Suc i) all_sizes = sizes"
    using Cons.prems(2) x by (metis drop_eq_Nil list.distinct(1) not_le, metis nth_via_drop, metis drop_Suc tl_drop list.sel(3))
  let ?fresh = "requests = [] \<or> \<not> joinable cfg (s + spans) (b + bytes)"
  show ?case
  proof (cases ?fresh)
    case True
    let ?rs = "requests @ [\<lparr>rr_first = i, rr_count = 1\<rparr>]"
    have "grouped cfg all_sizes (Suc i) ?rs" using Cons.prems(1,4) i True by (intro grouped_fresh) auto
    moreover have "spans = spans_in all_sizes (last ?rs) \<and> bytes = bytes_in all_sizes (last ?rs)" using i(2) by (simp add: spans_in_def bytes_in_def range_of_def)
    ultimately have "grouped cfg all_sizes (length all_sizes) (group_loop cfg (Suc i) sizes ?rs spans bytes)" using i by (intro Cons.IH) auto
    then show ?thesis unfolding x group_loop_step if_P [OF True] .
  next
    case False
    then obtain qs q where rs: "requests = qs @ [q]" by (metis rev_exhaust)
    let ?rs = "qs @ [q\<lparr>rr_count := rr_count q + 1\<rparr>]"
    have sb: "s = spans_in all_sizes q" "b = bytes_in all_sizes q" using Cons.prems(4) rs by auto
    have "joinable cfg (spans_in all_sizes q + spans) (bytes_in all_sizes q + bytes)" using False sb by simp
    note more = grouped_more [OF Cons.prems(1) [unfolded rs] i(2) this]
    have "grouped cfg all_sizes (length all_sizes) (group_loop cfg (Suc i) sizes ?rs (s + spans) (b + bytes))"
      using i more sb by (intro Cons.IH) auto
    then show ?thesis unfolding x group_loop_step if_not_P [OF False] using rs by simp
  qed
qed simp

lemma Concatenate_concat: "ConcatenateTraceRequests parts = concat parts"
proof (cases "length parts = 1")
  case True
  then show ?thesis by (cases parts) (auto simp: ConcatenateTraceRequests_def)
next
  case False
  have "sum_list (map length parts) = length (concat parts)" by (simp add: length_concat)
  then show ?thesis using False by (auto simp: ConcatenateTraceRequests_def)
qed

lemma GroupIntoRequests_grouped:
  "length parts = length batches \<Longrightarrow>
   grouped cfg (zip (map span_count batches) (map length parts)) (length batches) (GroupIntoRequests cfg batches parts)"
  using group_loop_grouped [of cfg "zip (map span_count batches) (map length parts)" 0 "[]" "zip (map span_count batches) (map length parts)" 0 0]
  by (simp add: GroupIntoRequests_def grouped_def)

text \<open>
  C31: how a drain is split into requests. The requests cover the batches in order, each at least one batch;
  a request is within the limits of spans and bytes unless it is a single batch, and could not have taken
  the batch after it. What is sent first for a request is what a retry encodes again, and all requests
  together are the encodings of all batches in order.
\<close>

theorem drain_requests:
  assumes "requests = GroupIntoRequests cfg batches parts" "parts = map encoder batches"
  shows "grouped cfg (zip (map span_count batches) (map length parts)) (length batches) requests \<and>
    (\<forall>q \<in> set requests. ConcatenateTraceRequests (map (\<lambda>i. parts ! i) (range_of q)) = EncodeRequest encoder batches (rr_first q) (rr_count q)) \<and>
    concat (map (\<lambda>q. EncodeRequest encoder batches (rr_first q) (rr_count q)) requests) = concat (map encoder batches)"
proof -
  have g: "grouped cfg (zip (map span_count batches) (map length parts)) (length batches) requests"
    unfolding assms by (rule GroupIntoRequests_grouped) simp
  have cover: "concat (map range_of requests) = [0..<length batches]" using g by (simp add: grouped_def)
  have "i < length batches" if "q \<in> set requests" "i \<in> set (range_of q)" for q i
  proof -
    have "i \<in> set (concat (map range_of requests))" using that by auto
    then show ?thesis by (simp add: cover)
  qed
  then have same: "map (\<lambda>i. parts ! i) (range_of q) = map (\<lambda>i. encoder (batches ! i)) (range_of q)" if "q \<in> set requests" for q
    using that by (simp add: assms(2))
  have all: "concat (concat (map (\<lambda>q. map (\<lambda>i. encoder (batches ! i)) (range_of q)) rs)) =
      concat (map (\<lambda>i. encoder (batches ! i)) (concat (map range_of rs)))" for rs
    by (induction rs) simp_all
  have "concat (map (\<lambda>q. EncodeRequest encoder batches (rr_first q) (rr_count q)) requests) =
      concat (concat (map (\<lambda>q. map (\<lambda>i. encoder (batches ! i)) (range_of q)) requests))"
    by (induction requests) (simp_all add: EncodeRequest_def Concatenate_concat range_of_def)
  also have "\<dots> = concat (map (\<lambda>i. encoder (batches ! i)) [0..<length batches])" by (simp only: all cover)
  also have "map (\<lambda>i. encoder (batches ! i)) [0..<length batches] = map encoder batches" by (rule nth_equalityI) simp_all
  finally have joined: "concat (map (\<lambda>q. EncodeRequest encoder batches (rr_first q) (rr_count q)) requests) = concat (map encoder batches)" .
  have "ConcatenateTraceRequests (map (\<lambda>i. parts ! i) (range_of q)) = EncodeRequest encoder batches (rr_first q) (rr_count q)"
    if "q \<in> set requests" for q
    unfolding EncodeRequest_def range_of_def [symmetric] same [OF that] ..
  then show ?thesis using g joined by blast
qed

theorem drain_requests_witness:
  "concat (map (\<lambda>q. EncodeRequest (\<lambda>b. [of_nat (length (h_records b))]) [sample_batch 1, sample_batch 1, sample_batch 2] (rr_first q) (rr_count q))
     [\<lparr>rr_first = 0, rr_count = 2\<rparr>, \<lparr>rr_first = 2, rr_count = 1\<rparr>]) = [1, 1, 2]"
proof -
  let ?b = "[sample_batch 1, sample_batch 1, sample_batch 2]"
  let ?e = "\<lambda>b :: BatchHandle. [of_nat (length (h_records b))] :: bytes"
  have "[\<lparr>rr_first = 0, rr_count = 2\<rparr>, \<lparr>rr_first = 2, rr_count = 1\<rparr>] = GroupIntoRequests sample_config ?b (map ?e ?b)"
    by (simp add: GroupIntoRequests_def sample_config_def Let_def)
  from drain_requests [OF this refl] show ?thesis by (simp add: sample_batch_def)
qed

section \<open>Accounting\<close>

definition batches_settled :: "DiagnosticsCounters \<Rightarrow> u64" where
  "batches_settled d = m_batches_sent d + m_batches_failed d"

lemma settle_total:
  "\<exists>d' w'. Settle env policy now first stage batches (Some d) w = (Some d', w') \<and> batches_settled d' = batches_settled d + of_nat batches"
proof -
  obtain r diag1 w1 where r: "Resolve env policy first batches (Some d) w = (r, diag1, w1)" by (metis prod.exhaust)
  then have "diag1 \<noteq> None" by (auto simp: Resolve_def count_drop_def Let_def split: prod.splits option.splits if_splits)
  then have "RecordOutcome now r stage batches diag1 \<noteq> None" by (auto simp: RecordOutcome_def Let_def)
  then obtain d' w' where s: "Settle env policy now first stage batches (Some d) w = (Some d', w')"
    using r by (auto simp: Settle_def)
  show ?thesis
    using settle_accounting [of env policy first batches d w now stage] s
    by (cases "success (fst (Resolve env policy first batches (Some d) w))") (auto simp: batches_settled_def Let_def split: prod.splits)
qed

lemma settle_requests_total:
  "length results = length requests \<Longrightarrow>
   \<exists>d' w'. settle_requests encoder codec env cfg oor now batches requests results (Some d, w) = (None, Some d', w') \<and>
     batches_settled d' = batches_settled d + of_nat (sum_list (map rr_count requests))"
proof (induction results arbitrary: requests d w)
  case (Cons r results)
  then obtain q qs where q: "requests = q # qs" by (cases requests) auto
  let ?env = "env\<lparr>env_retry := cd_Send codec (EncodeRequest encoder batches (rr_first q) (rr_count q)) (ec_export_deadline cfg)\<rparr>"
  obtain d1 w1 where s: "Settle ?env (ec_retry_policy cfg) now r kFailureStage (rr_count q) (Some d) w = (Some d1, w1)"
      "batches_settled d1 = batches_settled d + of_nat (rr_count q)"
    using settle_total [of ?env "ec_retry_policy cfg" now r kFailureStage "rr_count q" d w] by blast
  show ?case using Cons.IH [of qs d1 w1] Cons.prems q s by (auto simp: add.assoc)
qed simp

lemma settle_batches_total:
  "length results = length batches \<Longrightarrow>
   \<exists>d' w'. settle_batches encoder codec env cfg stage oor now batches results (Some d, w) = (None, Some d', w') \<and>
     batches_settled d' = batches_settled d + of_nat (length batches)"
proof (induction results arbitrary: batches d w)
  case (Cons r results)
  then obtain b bs where b: "batches = b # bs" by (cases batches) auto
  let ?env = "env\<lparr>env_retry := cd_Send codec (encoder b) (pc_export_deadline cfg)\<rparr>"
  obtain d1 w1 where s: "Settle ?env (pc_retry_policy cfg) now r stage 1 (Some d) w = (Some d1, w1)"
      "batches_settled d1 = batches_settled d + of_nat 1"
    using settle_total [of ?env "pc_retry_policy cfg" now r stage 1 d w] by blast
  show ?case using Cons.IH [of bs d1 w1] Cons.prems b s by (auto simp: add.assoc)
qed simp

text \<open>What the exporters rely on of a codec: as many results as payloads.\<close>

locale aligned_codec =
  fixes codec :: "'w codec"
  assumes aligned: "cd_SendAll codec payloads deadline w = (results, w') \<Longrightarrow> length results = length payloads"
begin

lemma fan_out_total:
  "\<exists>d' w'. FanOutAndProcess encoder codec env cfg oor now batches (Some d, w) = (None, Some d', w') \<and>
     batches_settled d' = batches_settled d + of_nat (length batches)"
proof (cases "batches = []")
  case False
  let ?requests = "GroupIntoRequests cfg batches (map encoder batches)"
  let ?payloads = "map (\<lambda>q. ConcatenateTraceRequests (map (\<lambda>i. map encoder batches ! i) [rr_first q..<rr_first q + rr_count q])) ?requests"
  obtain results w1 where r: "cd_SendAll codec ?payloads (ec_export_deadline cfg) w = (results, w1)"
    by (rule prod.exhaust)
  have "length results = length ?requests" using aligned [OF r] by simp
  moreover have "sum_list (map rr_count ?requests) = length batches"
  proof -
    have "length (concat (map range_of ?requests)) = length batches"
      using GroupIntoRequests_grouped [of "map encoder batches" batches cfg] by (simp add: grouped_def)
    then show ?thesis by (simp add: length_concat comp_def range_of_def)
  qed
  ultimately show ?thesis
    using settle_requests_total [of results ?requests encoder codec env cfg oor now batches d w1] r False
    by (simp add: FanOutAndProcess_def Let_def)
qed (simp add: FanOutAndProcess_def)

lemma process_total:
  "\<exists>d' w'. ProcessBatches encoder codec env cfg stage oor now batches (Some d, w) = (None, Some d', w') \<and>
     batches_settled d' = batches_settled d + of_nat (length batches)"
proof -
  obtain results w1 where r: "cd_SendAll codec (map encoder batches) (pc_export_deadline cfg) w = (results, w1)" by (metis prod.exhaust)
  have "length results = length batches" using aligned [OF r] by simp
  then show ?thesis
    using settle_batches_total [of results batches encoder codec env cfg stage oor now d w1] r by (simp add: ProcessBatches_def)
qed

end

lemma default_SendAll_length: "default_SendAll send ps deadline w = (rs, w') \<Longrightarrow> length rs = length ps"
  by (induction ps arbitrary: w rs) (auto split: prod.splits)

lemma SendAll_length:
  assumes "SendAll gz tp cfg payloads deadline diag w = (results, diag', w')"
  shows "length results = length payloads"
proof (cases "payloads = []")
  case False
  obtain f fresh d w1 where con: "EnsureConnected tp diag w = (f, fresh, d, w1)" by (metis prod.exhaust)
  show ?thesis
  proof (cases f)
    case None
    obtain rs fl w2 where sub: "submit_all gz tp cfg deadline 0 payloads (replicate (length payloads) WireResult_new) [] w1 = (rs, fl, w2)"
      by (metis prod.exhaust)
    show ?thesis
      using assms con False None sub submit_all_spec [OF sub] collect_all_spec [of gz tp cfg _ fl rs d w2]
      by (auto simp: SendAll_def)
  qed (use assms con False in \<open>auto simp: SendAll_def\<close>)
qed (use assms in \<open>simp add: SendAll_def\<close>)

interpretation grpc_sends: aligned_codec "grpc_codec gz tp" for gz tp
  by unfold_locales (auto simp: grpc_codec_def Let_def dest: default_SendAll_length)

interpretation http_sends: aligned_codec "http_codec gz tp cfg" for gz tp cfg
  by unfold_locales (auto simp: http_codec_def dest: SendAll_length split: prod.splits)

text \<open>
  Every batch of a drain is counted. With either codec of the library, whatever the transport answers
  and however often a request is retried, a drain of the trace exporter raises no exception and adds
  exactly the number of its batches to those sent and failed; and so does a drain of the log or the metric
  exporter.
\<close>

theorem drain_accounts:
  "(case FanOutAndProcess encoder (http_codec gz tp hcfg) henv cfg oor now batches (Some d, hw) of
      (thrown, diag, w') \<Rightarrow> thrown = None \<and> (\<exists>d'. diag = Some d' \<and> batches_settled d' = batches_settled d + of_nat (length batches))) \<and>
   (case FanOutAndProcess encoder (grpc_codec gz tp) genv cfg oor now batches (Some d, gw) of
      (thrown, diag, w') \<Rightarrow> thrown = None \<and> (\<exists>d'. diag = Some d' \<and> batches_settled d' = batches_settled d + of_nat (length batches))) \<and>
   (case ProcessBatches plain_encoder (http_codec gz tp hcfg) henv pcfg stage oor now plain_batches (Some d, hw) of
      (thrown, diag, w') \<Rightarrow> thrown = None \<and> (\<exists>d'. diag = Some d' \<and> batches_settled d' = batches_settled d + of_nat (length plain_batches))) \<and>
   (case ProcessBatches plain_encoder (grpc_codec gz tp) genv pcfg stage oor now plain_batches (Some d, gw) of
      (thrown, diag, w') \<Rightarrow> thrown = None \<and> (\<exists>d'. diag = Some d' \<and> batches_settled d' = batches_settled d + of_nat (length plain_batches)))"
  using http_sends.fan_out_total [of encoder gz tp hcfg henv cfg oor now batches d hw]
    grpc_sends.fan_out_total [of encoder gz tp genv cfg oor now batches d gw]
    http_sends.process_total [of plain_encoder gz tp hcfg henv pcfg stage oor now plain_batches d hw]
    grpc_sends.process_total [of plain_encoder gz tp genv pcfg stage oor now plain_batches d gw]
  by auto

end
