(* ===== verification/Export_Transport.thy ===== *)
theory Export_Transport
  imports Otlp_Exporter
begin

text \<open>
  The codec of a transport that the application supplies (\<open>src/wire/custom/export_transport_codec.cpp\<close>).
  The channel is shared by one exporter worker per signal and by the threads that shut the provider down: its
  critical sections and its accesses to the atomic connection state are functions on its record, composed once in
  sequence, as one worker runs them (\<open>Channel_Send\<close>), and once as the steps of any number of interleaved calls
  (\<open>channel_step\<close>). The application's \<open>Send\<close> answers or throws as it likes, the clock and the log are parameters too.
  Times and durations are integers in milliseconds.

  Proved here: that the count of calls in flight is exact and \<open>Cancel\<close> is called at most once, and called whenever a
  call is in flight at cancellation; that nothing new is let in afterwards and a closed channel stays closed; that a
  call on its own is a run of the steps; that a drain over this codec is accounted for; and the rate of the
  warnings.
\<close>

section \<open>Requests and answers\<close>

datatype ExportSignal = Signal_Traces | Signal_Metrics | Signal_Logs

record ExportRequest =
  er_signal :: ExportSignal
  er_bytes :: bytes
  er_deadline :: int

datatype SendOutcome = Outcome_Success | Outcome_Retryable | Outcome_NonRetryable

record SendResult =
  sr_outcome :: SendOutcome
  sr_retry_after :: "int option"
  sr_rejected :: u32
  sr_message :: string

text \<open>What a call of the application's \<open>Send\<close> comes back with.\<close>

datatype transport_answer = Answered SendResult | Threw string | Threw_other

definition kThrewPrefix :: string where "kThrewPrefix = ''ExportTransport::Send threw: ''"
definition kOversizeWarnInterval :: int where "kOversizeWarnInterval = 60 * 1000"

definition Channel_Failure :: "bool \<Rightarrow> Error_Kind \<Rightarrow> string \<Rightarrow> WireResult" where
  "Channel_Failure again kind message = WireResult_new\<lparr>retryable := again, error := Some (an_error kind message)\<rparr>"

definition DefaultMessage :: "SendOutcome \<Rightarrow> string" where
  "DefaultMessage oc =
     (if oc = Outcome_Retryable then ''export transport: retryable send failure'' else ''export transport: send failed'')"

definition MapResult :: "SendResult \<Rightarrow> WireResult" where
  "MapResult result =
     (if sr_outcome result = Outcome_Success
      then WireResult_new\<lparr>success := True, partial_success_rejected := unat (sr_rejected result)\<rparr>
      else
        let message = (if sr_message result = [] then DefaultMessage (sr_outcome result) else sr_message result);
            r = Channel_Failure (sr_outcome result = Outcome_Retryable) Kind_Network message
        in if retryable r then r\<lparr>retry_after := sr_retry_after result\<rparr> else r)"

definition InvokeTransport :: "transport_answer \<Rightarrow> WireResult" where
  "InvokeTransport answer =
     (case answer of
        Answered result \<Rightarrow> MapResult result
      | Threw what \<Rightarrow> Channel_Failure False Kind_InternalFailure (kThrewPrefix @ what)
      | Threw_other \<Rightarrow> Channel_Failure False Kind_InternalFailure (kThrewPrefix @ ''non-std exception''))"

section \<open>The channel\<close>

record ExportTransportChannel =
  ch_in_flight :: u32
  ch_cancelled :: bool
  ch_shutdown_deadline :: "int option"
  ch_state :: ConnectionState

definition ExportTransportChannel_new :: ExportTransportChannel where
  "ExportTransportChannel_new = \<lparr>ch_in_flight = 0, ch_cancelled = False, ch_shutdown_deadline = None, ch_state = Disconnected\<rparr>"

definition Channel_Enter :: "int \<Rightarrow> ExportTransportChannel \<Rightarrow> bool \<times> ExportTransportChannel" where
  "Channel_Enter now ch =
     (if ch_cancelled ch \<or> (case ch_shutdown_deadline ch of Some d \<Rightarrow> d \<le> now | None \<Rightarrow> False) then (False, ch)
      else (True, ch\<lparr>ch_in_flight := ch_in_flight ch + 1\<rparr>))"

definition Channel_Leave :: "ExportTransportChannel \<Rightarrow> ExportTransportChannel" where
  "Channel_Leave ch = ch\<lparr>ch_in_flight := ch_in_flight ch - 1\<rparr>"

text \<open>The second critical section of \<open>Send\<close>.\<close>

definition clamp_deadline :: "int \<Rightarrow> int \<Rightarrow> ExportTransportChannel \<Rightarrow> int" where
  "clamp_deadline now per_export ch =
     (case ch_shutdown_deadline ch of Some d \<Rightarrow> min (now + per_export) d | None \<Rightarrow> now + per_export)"

text \<open>One turn of the loop of \<open>NoteOutcome\<close>: what it tries to write over what it has read, \<open>None\<close> when it returns.\<close>

definition note_next :: "bool \<Rightarrow> ConnectionState \<Rightarrow> ConnectionState option" where
  "note_next ok current =
     (if current = Closed then None
      else if ok then Some Connected
      else if current = Connected then Some Reconnecting
      else None)"

definition NoteOutcome :: "bool \<Rightarrow> ExportTransportChannel \<Rightarrow> ExportTransportChannel" where
  "NoteOutcome ok ch = (case note_next ok (ch_state ch) of None \<Rightarrow> ch | Some next_state \<Rightarrow> ch\<lparr>ch_state := next_state\<rparr>)"

definition BeginShutdown :: "int \<Rightarrow> int \<Rightarrow> ExportTransportChannel \<Rightarrow> ExportTransportChannel" where
  "BeginShutdown now timeout ch =
     (if ch_shutdown_deadline ch = None then ch\<lparr>ch_shutdown_deadline := Some (now + timeout)\<rparr> else ch)"

text \<open>The critical section of \<open>CancelInFlight\<close> and whether \<open>Cancel\<close> is then called.\<close>

definition CancelInFlight :: "ExportTransportChannel \<Rightarrow> bool \<times> ExportTransportChannel" where
  "CancelInFlight ch =
     (if ch_cancelled ch then (False, ch) else (ch_in_flight ch > 0, ch\<lparr>ch_cancelled := True\<rparr>))"

definition MarkClosed :: "ExportTransportChannel \<Rightarrow> ExportTransportChannel" where
  "MarkClosed ch = ch\<lparr>ch_state := Closed\<rparr>"

section \<open>One worker on its own\<close>

record 't custom_transport =
  ct_Send :: "ExportRequest \<Rightarrow> 't \<Rightarrow> transport_answer \<times> 't"
  ct_now :: "'t \<Rightarrow> int"
  ct_warn :: "nat \<Rightarrow> u32 \<Rightarrow> 't \<Rightarrow> 't"

definition Channel_Send ::
    "'t custom_transport \<Rightarrow> ExportSignal \<Rightarrow> bytes \<Rightarrow> int \<Rightarrow> ExportTransportChannel \<Rightarrow> 't \<Rightarrow> WireResult \<times> ExportTransportChannel \<times> 't" where
  "Channel_Send ct sig bytes per_export ch w =
     (let now = ct_now ct w
      in case Channel_Enter now ch of
           (False, ch1) \<Rightarrow> (Channel_Failure False Kind_Network ''export transport: shut down'', ch1, w)
         | (True, ch1) \<Rightarrow>
             let deadline = clamp_deadline now per_export ch1
             in case ct_Send ct \<lparr>er_signal = sig, er_bytes = bytes, er_deadline = deadline\<rparr> w of
                  (answer, w1) \<Rightarrow>
                    let result = InvokeTransport answer
                    in (result, Channel_Leave (NoteOutcome (success result) ch1), w1))"

record ExportTransportCodec =
  cc_signal :: ExportSignal
  cc_max_request_bytes :: u32
  cc_last_oversize_warn :: "int option"

text \<open>\<open>WarnIfOversized\<close>, and whether it logs.\<close>

definition WarnIfOversized :: "int \<Rightarrow> nat \<Rightarrow> ExportTransportCodec \<Rightarrow> bool \<times> ExportTransportCodec" where
  "WarnIfOversized now n codec =
     (if cc_max_request_bytes codec = 0 \<or> n \<le> unat (cc_max_request_bytes codec) then (False, codec)
      else if (case cc_last_oversize_warn codec of Some t \<Rightarrow> now - t < kOversizeWarnInterval | None \<Rightarrow> False) then (False, codec)
      else (True, codec\<lparr>cc_last_oversize_warn := Some now\<rparr>))"

definition Codec_Send ::
    "'t custom_transport \<Rightarrow> bytes \<Rightarrow> int \<Rightarrow> ExportTransportCodec \<times> ExportTransportChannel \<times> 't \<Rightarrow>
     WireResult \<times> ExportTransportCodec \<times> ExportTransportChannel \<times> 't" where
  "Codec_Send ct payload deadline = (\<lambda>(codec, ch, w).
     if length payload = 0
     then (Channel_Failure True Kind_InternalFailure ''export transport: empty encoding'', codec, ch, w)
     else
       case WarnIfOversized (ct_now ct w) (length payload) codec of
         (warned, codec1) \<Rightarrow>
           let w1 = (if warned then ct_warn ct (length payload) (cc_max_request_bytes codec) w else w)
           in case Channel_Send ct (cc_signal codec1) payload deadline ch w1 of
                (r, ch1, w2) \<Rightarrow> (r, codec1, ch1, w2))"

definition custom_codec :: "'t custom_transport \<Rightarrow> (ExportTransportCodec \<times> ExportTransportChannel \<times> 't) codec" where
  "custom_codec ct = \<lparr>cd_Send = Codec_Send ct, cd_SendAll = default_SendAll (Codec_Send ct)\<rparr>"

section \<open>Interleaved calls\<close>

text \<open>Where the worker of a signal is in \<open>Send\<close>.\<close>

datatype send_phase =
    Send_Idle
  | Send_Entered int bytes int
  | Send_Calling ExportRequest
  | Send_Noting WireResult ConnectionState
  | Send_Leaving WireResult

text \<open>
  \<open>cw_cancelling\<close> counts the threads between the critical section of \<open>CancelInFlight\<close> and the call of \<open>Cancel\<close>. Recorded besides the
  code's state: the calls of \<open>Cancel\<close>, the requests handed to the transport with the shutdown deadline as it was then,
  and the number of successful answers.
\<close>

record channel_world =
  cw_channel :: ExportTransportChannel
  cw_phase :: "ExportSignal \<Rightarrow> send_phase"
  cw_cancelling :: nat
  cw_cancels :: nat
  cw_handed :: "(ExportRequest \<times> int option) list"
  cw_successes :: nat

definition channel_init :: channel_world where
  "channel_init = \<lparr>cw_channel = ExportTransportChannel_new, cw_phase = (\<lambda>_. Send_Idle), cw_cancelling = 0, cw_cancels = 0,
     cw_handed = [], cw_successes = 0\<rparr>"

inductive channel_step :: "channel_world \<Rightarrow> channel_world \<Rightarrow> bool" where
  send_enter: "cw_phase w s = Send_Idle \<Longrightarrow> bytes \<noteq> [] \<Longrightarrow> Channel_Enter now (cw_channel w) = (True, ch) \<Longrightarrow>
    channel_step w (w\<lparr>cw_channel := ch, cw_phase := (cw_phase w)(s := Send_Entered now bytes per_export)\<rparr>)"
| send_hand: "cw_phase w s = Send_Entered now bytes per_export \<Longrightarrow>
    req = \<lparr>er_signal = s, er_bytes = bytes, er_deadline = clamp_deadline now per_export (cw_channel w)\<rparr> \<Longrightarrow>
    channel_step w (w\<lparr>cw_phase := (cw_phase w)(s := Send_Calling req),
      cw_handed := cw_handed w @ [(req, ch_shutdown_deadline (cw_channel w))]\<rparr>)"
| send_answer: "cw_phase w s = Send_Calling req \<Longrightarrow> r = InvokeTransport answer \<Longrightarrow>
    channel_step w (w\<lparr>cw_phase := (cw_phase w)(s := Send_Noting r (ch_state (cw_channel w))),
      cw_successes := cw_successes w + (if success r then 1 else 0)\<rparr>)"
| note_return: "cw_phase w s = Send_Noting r current \<Longrightarrow> note_next (success r) current = None \<Longrightarrow>
    channel_step w (w\<lparr>cw_phase := (cw_phase w)(s := Send_Leaving r)\<rparr>)"
| note_swap: "cw_phase w s = Send_Noting r current \<Longrightarrow> note_next (success r) current = Some new \<Longrightarrow> ch_state (cw_channel w) = current \<Longrightarrow>
    channel_step w (w\<lparr>cw_channel := (cw_channel w)\<lparr>ch_state := new\<rparr>, cw_phase := (cw_phase w)(s := Send_Leaving r)\<rparr>)"
| note_reload: "cw_phase w s = Send_Noting r current \<Longrightarrow> note_next (success r) current = Some new \<Longrightarrow>
    channel_step w (w\<lparr>cw_phase := (cw_phase w)(s := Send_Noting r (ch_state (cw_channel w)))\<rparr>)"
| send_leave: "cw_phase w s = Send_Leaving r \<Longrightarrow>
    channel_step w (w\<lparr>cw_channel := Channel_Leave (cw_channel w), cw_phase := (cw_phase w)(s := Send_Idle)\<rparr>)"
| begin_shutdown: "channel_step w (w\<lparr>cw_channel := BeginShutdown now timeout (cw_channel w)\<rparr>)"
| cancel_section: "CancelInFlight (cw_channel w) = (call, ch) \<Longrightarrow>
    channel_step w (w\<lparr>cw_channel := ch, cw_cancelling := cw_cancelling w + (if call then 1 else 0)\<rparr>)"
| cancel_call: "cw_cancelling w > 0 \<Longrightarrow>
    channel_step w (w\<lparr>cw_cancelling := cw_cancelling w - 1, cw_cancels := cw_cancels w + 1\<rparr>)"
| mark_closed: "channel_step w (w\<lparr>cw_channel := MarkClosed (cw_channel w)\<rparr>)"

inductive_cases channel_stepE: "channel_step w w'"

lemmas channel_defs = Channel_Enter_def Channel_Leave_def BeginShutdown_def CancelInFlight_def MarkClosed_def

section \<open>The count of calls in flight\<close>

definition busy :: "(ExportSignal \<Rightarrow> send_phase) \<Rightarrow> ExportSignal set" where
  "busy phase = {s. phase s \<noteq> Send_Idle}"

lemma finite_signals [simp]: "finite (S :: ExportSignal set)" and card_signals: "card (S :: ExportSignal set) \<le> 3"
proof -
  have U: "(UNIV :: ExportSignal set) = {Signal_Traces, Signal_Metrics, Signal_Logs}" using ExportSignal.exhaust by auto
  have fin: "finite (UNIV :: ExportSignal set)" by (subst U) simp
  then show "finite S" by (rule rev_finite_subset) simp
  have "card S \<le> card (UNIV :: ExportSignal set)" using fin by (intro card_mono) auto
  also have "\<dots> = 3" by (simp add: U)
  finally show "card S \<le> 3" .
qed

lemma busy_upd [simp]:
  "busy (phase(s := p)) = (if p = Send_Idle then busy phase - {s} else insert s (busy phase))"
  by (auto simp: busy_def)

lemma in_busy: "s \<in> busy phase \<longleftrightarrow> phase s \<noteq> Send_Idle"
  by (simp add: busy_def)

lemma Enter_True:
  "Channel_Enter now ch = (True, ch') \<longleftrightarrow>
     ch' = ch\<lparr>ch_in_flight := ch_in_flight ch + 1\<rparr> \<and> \<not> ch_cancelled ch \<and> (\<forall>d. ch_shutdown_deadline ch = Some d \<longrightarrow> now < d)"
  by (auto simp: Channel_Enter_def split: option.splits)

definition count_exact :: "channel_world \<Rightarrow> bool" where
  "count_exact w \<longleftrightarrow> unat (ch_in_flight (cw_channel w)) = card (busy (cw_phase w))"

lemma count_exact_step: "channel_step w w' \<Longrightarrow> count_exact w \<Longrightarrow> count_exact w'"
proof (induction rule: channel_step.induct)
  case (send_enter w s bytes now ch per_export)
  have eq: "unat (ch_in_flight (cw_channel w)) = card (busy (cw_phase w))" using send_enter by (simp add: count_exact_def)
  then have "unat (ch_in_flight (cw_channel w)) + 1 < 2 ^ 32" using card_signals [of "busy (cw_phase w)"] by simp
  then have "unat (ch_in_flight (cw_channel w) + 1) = Suc (card (busy (cw_phase w)))" by (simp add: unat_word_ariths eq)
  moreover have "s \<notin> busy (cw_phase w)" using send_enter(1) by (simp add: in_busy)
  ultimately show ?case using send_enter(3) by (simp add: count_exact_def Enter_True)
next
  case (send_leave w s r)
  have s: "s \<in> busy (cw_phase w)" using send_leave(1) by (simp add: in_busy)
  then have "card (busy (cw_phase w)) > 0" by (auto simp: card_gt_0_iff)
  then have "ch_in_flight (cw_channel w) \<noteq> 0" using send_leave(2) by (auto simp: count_exact_def)
  then have "unat (ch_in_flight (cw_channel w) - 1) = unat (ch_in_flight (cw_channel w)) - 1" by (rule unat_minus_one)
  then show ?case using send_leave s by (simp add: count_exact_def Channel_Leave_def)
qed (auto simp: count_exact_def channel_defs insert_absorb in_busy split: if_splits)

section \<open>Cancellation\<close>

definition cancel_once :: "channel_world \<Rightarrow> bool" where
  "cancel_once w \<longleftrightarrow> cw_cancelling w + cw_cancels w \<le> 1 \<and>
     (cw_cancelling w + cw_cancels w = 1 \<longrightarrow> ch_cancelled (cw_channel w)) \<and>
     (ch_cancelled (cw_channel w) \<and> busy (cw_phase w) \<noteq> {} \<longrightarrow> cw_cancelling w + cw_cancels w = 1)"

lemma cancel_once_step: "channel_step w w' \<Longrightarrow> count_exact w \<Longrightarrow> cancel_once w \<Longrightarrow> cancel_once w'"
proof (induction rule: channel_step.induct)
  case (cancel_section w call ch)
  show ?case
  proof (cases "ch_cancelled (cw_channel w)")
    case False
    then have zero: "cw_cancelling w = 0" "cw_cancels w = 0" using cancel_section(3) by (auto simp: cancel_once_def)
    have "call \<longleftrightarrow> busy (cw_phase w) \<noteq> {}" "ch_cancelled ch"
      using cancel_section(1,2) False by (auto simp: CancelInFlight_def count_exact_def word_gt_0 unat_eq_0 simp flip: unat_gt_0)
    then show ?thesis using zero by (auto simp: cancel_once_def)
  qed (use cancel_section in \<open>auto simp: CancelInFlight_def cancel_once_def\<close>)
next
  case (send_leave w s r)
  then have "busy (cw_phase w) \<noteq> {}" using in_busy [of s "cw_phase w"] by auto
  then show ?case using send_leave by (auto simp: cancel_once_def Channel_Leave_def)
qed (auto simp: cancel_once_def Enter_True channel_defs in_busy insert_absorb split: if_splits)

section \<open>Deadlines and the connection state\<close>

definition handed_ok :: "int option \<Rightarrow> ExportRequest \<times> int option \<Rightarrow> bool" where
  "handed_ok current h \<longleftrightarrow> er_bytes (fst h) \<noteq> [] \<and> (\<forall>d. snd h = Some d \<longrightarrow> er_deadline (fst h) \<le> d \<and> current = Some d)"

definition handed_all :: "channel_world \<Rightarrow> bool" where
  "handed_all w \<longleftrightarrow> (\<forall>h \<in> set (cw_handed w). handed_ok (ch_shutdown_deadline (cw_channel w)) h) \<and>
     (\<forall>s now bytes per_export. cw_phase w s = Send_Entered now bytes per_export \<longrightarrow> bytes \<noteq> [])"

lemma handed_all_step: "channel_step w w' \<Longrightarrow> handed_all w \<Longrightarrow> handed_all w'"
proof (induction rule: channel_step.induct)
  case (send_hand w s now bytes per_export req)
  then have "bytes \<noteq> []" unfolding handed_all_def by blast
  with send_hand show ?case by (auto simp: handed_all_def handed_ok_def clamp_deadline_def)
qed (auto simp: handed_all_def handed_ok_def Enter_True channel_defs split: if_splits)

definition state_ok :: "channel_world \<Rightarrow> bool" where
  "state_ok w \<longleftrightarrow> ch_state (cw_channel w) \<noteq> Connecting \<and>
     (ch_state (cw_channel w) = Connected \<or> ch_state (cw_channel w) = Reconnecting \<longrightarrow> cw_successes w > 0) \<and>
     (\<forall>s r current. cw_phase w s = Send_Noting r current \<longrightarrow> success r \<or> current = Connected \<longrightarrow> cw_successes w > 0)"

lemma state_ok_step: "channel_step w w' \<Longrightarrow> state_ok w \<Longrightarrow> state_ok w'"
proof (induction rule: channel_step.induct)
  case (note_swap w s r current new)
  then have "cw_successes w > 0" by (auto simp: state_ok_def note_next_def split: if_splits)
  with note_swap show ?case by (auto simp: state_ok_def note_next_def split: if_splits)
qed (auto simp: state_ok_def Enter_True channel_defs split: if_splits)

lemma channel_invariant:
  assumes "channel_step\<^sup>*\<^sup>* channel_init w"
  shows "count_exact w" "cancel_once w" "handed_all w" "state_ok w"
proof -
  have "count_exact w \<and> cancel_once w \<and> handed_all w \<and> state_ok w"
    using assms
  proof (induction rule: rtranclp_induct)
    case base
    show ?case
      by (simp add: channel_init_def ExportTransportChannel_new_def count_exact_def cancel_once_def handed_all_def state_ok_def busy_def)
  next
    case (step w w')
    then show ?case using count_exact_step cancel_once_step handed_all_step state_ok_step by blast
  qed
  then show "count_exact w" "cancel_once w" "handed_all w" "state_ok w" by simp_all
qed

text \<open>A worker that has entered when the channel is cancelled.\<close>

definition sample_cancelled :: channel_world where
  "sample_cancelled =
     channel_init\<lparr>cw_channel := ExportTransportChannel_new\<lparr>ch_in_flight := 1, ch_cancelled := True\<rparr>,
       cw_phase := (\<lambda>_. Send_Idle)(Signal_Traces := Send_Entered 5 [1] 10), cw_cancelling := 1\<rparr>"

lemma sample_cancelled_reachable: "channel_step\<^sup>*\<^sup>* channel_init sample_cancelled"
proof -
  let ?v = "channel_init\<lparr>cw_channel := ExportTransportChannel_new\<lparr>ch_in_flight := 1\<rparr>,
    cw_phase := (cw_phase channel_init)(Signal_Traces := Send_Entered 5 [1] 10)\<rparr>"
  have "channel_step channel_init ?v"
    by (rule channel_step.send_enter) (simp_all add: channel_init_def ExportTransportChannel_new_def Enter_True)
  moreover have "channel_step ?v (?v\<lparr>cw_channel := ExportTransportChannel_new\<lparr>ch_in_flight := 1, ch_cancelled := True\<rparr>,
      cw_cancelling := cw_cancelling ?v + (if True then 1 else 0)\<rparr>)"
    by (rule channel_step.cancel_section) (simp add: CancelInFlight_def ExportTransportChannel_new_def)
  moreover have "?v\<lparr>cw_channel := ExportTransportChannel_new\<lparr>ch_in_flight := 1, ch_cancelled := True\<rparr>,
      cw_cancelling := cw_cancelling ?v + (if True then 1 else 0)\<rparr> = sample_cancelled"
    by (simp add: sample_cancelled_def channel_init_def)
  ultimately show ?thesis by (metis converse_rtranclp_into_rtranclp r_into_rtranclp)
qed

text \<open>
  C36: the accounting of the channel under every interleaving of the workers with shutdown. In every state that can be reached
  the count of calls in flight is the number of workers inside \<open>Send\<close>. The application's \<open>Cancel\<close> is called at most once and
  only after cancellation, and when a worker is inside \<open>Send\<close> after cancellation, \<open>Cancel\<close> has been called or is about to
  be: no call slips past. Every request handed over has bytes, and a deadline within the shutdown deadline if there was one
  by then. The state says that sends were succeeding only after one did.
\<close>

theorem channel_cancels_once:
  assumes "channel_step\<^sup>*\<^sup>* channel_init w"
  shows "unat (ch_in_flight (cw_channel w)) = card {s. cw_phase w s \<noteq> Send_Idle} \<and>
    cw_cancels w \<le> 1 \<and> (cw_cancels w = 1 \<longrightarrow> ch_cancelled (cw_channel w)) \<and>
    (ch_cancelled (cw_channel w) \<and> cw_phase w s \<noteq> Send_Idle \<longrightarrow> cw_cancels w = 1 \<or> cw_cancelling w = 1) \<and>
    (\<forall>(req, shutdown) \<in> set (cw_handed w). er_bytes req \<noteq> [] \<and>
       (\<forall>d. shutdown = Some d \<longrightarrow> er_deadline req \<le> d \<and> ch_shutdown_deadline (cw_channel w) = Some d)) \<and>
    (ch_state (cw_channel w) = Connected \<or> ch_state (cw_channel w) = Reconnecting \<longrightarrow> cw_successes w > 0)"
proof -
  have "busy (cw_phase w) \<noteq> {}" if "cw_phase w s \<noteq> Send_Idle" using that in_busy by blast
  then show ?thesis
    using channel_invariant [OF assms]
    by (auto simp: count_exact_def cancel_once_def handed_all_def handed_ok_def state_ok_def busy_def)
qed

theorem channel_cancels_once_witness:
  "unat (ch_in_flight (cw_channel sample_cancelled)) = card {s. cw_phase sample_cancelled s \<noteq> Send_Idle} \<and>
   (cw_cancels sample_cancelled = 1 \<or> cw_cancelling sample_cancelled = 1)"
  using channel_cancels_once [OF sample_cancelled_reachable, of Signal_Traces] by (simp add: sample_cancelled_def ExportTransportChannel_new_def)

section \<open>After cancellation and after closing\<close>

definition entered :: "channel_world \<Rightarrow> ExportSignal set" where
  "entered w = {s. \<exists>now bytes per_export. cw_phase w s = Send_Entered now bytes per_export}"

definition closing :: "channel_world \<Rightarrow> channel_world \<Rightarrow> bool" where
  "closing w w' \<longleftrightarrow>
     (ch_cancelled (cw_channel w) \<longrightarrow> ch_cancelled (cw_channel w') \<and> busy (cw_phase w') \<subseteq> busy (cw_phase w) \<and>
        length (cw_handed w') + card (entered w') \<le> length (cw_handed w) + card (entered w)) \<and>
     (ch_state (cw_channel w) = Closed \<longrightarrow> ch_state (cw_channel w') = Closed) \<and>
     (\<forall>d. ch_shutdown_deadline (cw_channel w) = Some d \<longrightarrow> ch_shutdown_deadline (cw_channel w') = Some d)"

lemma entered_upd:
  "cw_phase w' = (cw_phase w)(s := p) \<Longrightarrow> \<forall>now bytes per_export. p \<noteq> Send_Entered now bytes per_export \<Longrightarrow> entered w' = entered w - {s}"
  by (auto simp: entered_def)

lemma closing_step: "channel_step w w' \<Longrightarrow> closing w w'"
proof (induction rule: channel_step.induct)
  case (send_enter w s bytes now ch per_export)
  then show ?case by (auto simp: closing_def Enter_True)
next
  case (send_hand w s now bytes per_export req)
  let ?w = "w\<lparr>cw_phase := (cw_phase w)(s := Send_Calling req), cw_handed := cw_handed w @ [(req, ch_shutdown_deadline (cw_channel w))]\<rparr>"
  have "s \<in> entered w" using send_hand(1) by (simp add: entered_def)
  moreover have "entered ?w = entered w - {s}" by (rule entered_upd [of _ _ _ "Send_Calling req"]) simp_all
  ultimately have "card (entered w) = Suc (card (entered ?w))" by (metis card.remove finite_signals)
  then show ?case using send_hand(1) by (simp add: closing_def insert_absorb in_busy)
next
  case (note_swap w s r current new)
  have "entered (w\<lparr>cw_channel := (cw_channel w)\<lparr>ch_state := new\<rparr>, cw_phase := (cw_phase w)(s := Send_Leaving r)\<rparr>) = entered w - {s}"
    by (rule entered_upd [of _ _ _ "Send_Leaving r"]) simp_all
  then show ?case using note_swap by (auto simp: closing_def note_next_def in_busy card_Diff1_le split: if_splits)
qed (auto simp: closing_def channel_defs in_busy entered_def split: if_splits intro!: card_mono)

lemma closing_trans: "closing u v \<Longrightarrow> closing v w \<Longrightarrow> closing u w"
  unfolding closing_def by auto

lemma closing_steps: "channel_step\<^sup>*\<^sup>* w w' \<Longrightarrow> closing w w'"
proof (induction rule: rtranclp_induct)
  case base
  show ?case by (simp add: closing_def)
qed (blast intro: closing_step closing_trans)

text \<open>
  Shutting down is for good. From a cancelled channel on, whatever happens, a worker that is not inside \<open>Send\<close>
  never gets in again and the transport is handed no request but those of the workers that had entered, at most one each; a closed
  channel stays closed, also against a worker that still notes its outcome; and the shutdown deadline never moves.
\<close>

theorem channel_stays_shut:
  assumes "channel_step\<^sup>*\<^sup>* w w'"
  shows "(ch_cancelled (cw_channel w) \<longrightarrow>
      (\<forall>s. cw_phase w s = Send_Idle \<longrightarrow> cw_phase w' s = Send_Idle) \<and>
      length (cw_handed w') \<le> length (cw_handed w) + card {s. \<exists>now bytes per_export. cw_phase w s = Send_Entered now bytes per_export}) \<and>
    (ch_state (cw_channel w) = Closed \<longrightarrow> ch_state (cw_channel w') = Closed) \<and>
    (\<forall>d. ch_shutdown_deadline (cw_channel w) = Some d \<longrightarrow> ch_shutdown_deadline (cw_channel w') = Some d)"
  using closing_steps [OF assms] by (auto simp: closing_def busy_def entered_def)

theorem channel_stays_shut_witness:
  "channel_step\<^sup>*\<^sup>* sample_cancelled (sample_cancelled\<lparr>cw_cancelling := 0, cw_cancels := 1\<rparr>) \<and>
   cw_phase (sample_cancelled\<lparr>cw_cancelling := 0, cw_cancels := 1\<rparr>) Signal_Logs = Send_Idle"
proof -
  have "channel_step sample_cancelled (sample_cancelled\<lparr>cw_cancelling := cw_cancelling sample_cancelled - 1, cw_cancels := cw_cancels sample_cancelled + 1\<rparr>)"
    by (rule channel_step.cancel_call) (simp add: sample_cancelled_def)
  then have run: "channel_step\<^sup>*\<^sup>* sample_cancelled (sample_cancelled\<lparr>cw_cancelling := 0, cw_cancels := 1\<rparr>)"
    by (simp add: sample_cancelled_def channel_init_def r_into_rtranclp)
  have "ch_cancelled (cw_channel sample_cancelled)" "cw_phase sample_cancelled Signal_Logs = Send_Idle" by (simp_all add: sample_cancelled_def)
  then show ?thesis using channel_stays_shut [OF run] run by blast
qed

section \<open>A call on its own\<close>

text \<open>
  \<open>Channel_Send\<close> is a run of the steps: with no other thread in between, the worker of its signal goes through
  all phases and is idle again, with the channel that the function computes.
\<close>

lemma note_runs:
  assumes "cw_phase v s = Send_Noting r (ch_state (cw_channel v))"
  shows "channel_step v (v\<lparr>cw_channel := NoteOutcome (success r) (cw_channel v), cw_phase := (cw_phase v)(s := Send_Leaving r)\<rparr>)"
proof (cases "note_next (success r) (ch_state (cw_channel v))")
  case None
  then show ?thesis using channel_step.note_return [OF assms None] by (simp add: NoteOutcome_def)
next
  case (Some new)
  then show ?thesis using channel_step.note_swap [OF assms Some refl] by (simp add: NoteOutcome_def)
qed

lemma Channel_Send_runs:
  assumes idle: "cw_phase v s = Send_Idle" and "bytes \<noteq> []" and send: "Channel_Send ct s bytes per_export (cw_channel v) w = (r, ch, w')"
  shows "\<exists>n handed. channel_step\<^sup>*\<^sup>* v (v\<lparr>cw_channel := ch, cw_successes := n, cw_handed := handed\<rparr>)"
proof (cases "Channel_Enter (ct_now ct w) (cw_channel v)")
  case (Pair ok ch1)
  show ?thesis
  proof (cases ok)
    case False
    then have "ch = cw_channel v" using send Pair by (auto simp: Channel_Send_def Let_def Channel_Enter_def split: if_splits)
    then have "v\<lparr>cw_channel := ch, cw_successes := cw_successes v, cw_handed := cw_handed v\<rparr> = v" by simp
    then show ?thesis by (metis rtranclp.rtrancl_refl)
  next
    case True
    define now where "now = ct_now ct w"
    define req where "req = \<lparr>er_signal = s, er_bytes = bytes, er_deadline = clamp_deadline now per_export ch1\<rparr>"
    obtain answer w1 where ans: "ct_Send ct req w = (answer, w1)" by fastforce
    have ch: "ch = Channel_Leave (NoteOutcome (success r) ch1)" and r: "r = InvokeTransport answer"
      using send Pair True ans by (auto simp: Channel_Send_def Let_def now_def req_def)
    let ?v1 = "v\<lparr>cw_channel := ch1, cw_phase := (cw_phase v)(s := Send_Entered now bytes per_export)\<rparr>"
    let ?v2 = "?v1\<lparr>cw_phase := (cw_phase ?v1)(s := Send_Calling req), cw_handed := cw_handed ?v1 @ [(req, ch_shutdown_deadline (cw_channel ?v1))]\<rparr>"
    let ?v3 = "?v2\<lparr>cw_phase := (cw_phase ?v2)(s := Send_Noting r (ch_state (cw_channel ?v2))), cw_successes := cw_successes ?v2 + (if success r then 1 else 0)\<rparr>"
    let ?v4 = "?v3\<lparr>cw_channel := NoteOutcome (success r) (cw_channel ?v3), cw_phase := (cw_phase ?v3)(s := Send_Leaving r)\<rparr>"
    let ?v5 = "?v4\<lparr>cw_channel := Channel_Leave (cw_channel ?v4), cw_phase := (cw_phase ?v4)(s := Send_Idle)\<rparr>"
    have 1: "channel_step v ?v1" using idle assms(2) Pair True by (intro channel_step.send_enter) (auto simp: now_def)
    have 2: "channel_step ?v1 ?v2" by (rule channel_step.send_hand) (simp_all add: req_def)
    have 3: "channel_step ?v2 ?v3" by (rule channel_step.send_answer [OF _ r]) simp
    have 4: "channel_step ?v3 ?v4" by (rule note_runs) simp
    have 5: "channel_step ?v4 ?v5" by (rule channel_step.send_leave) simp
    have "(cw_phase v)(s := Send_Idle) = cw_phase v" using idle by auto
    then have "?v5 = v\<lparr>cw_channel := ch, cw_successes := cw_successes ?v3, cw_handed := cw_handed ?v2\<rparr>" by (simp add: ch)
    moreover have "channel_step\<^sup>*\<^sup>* v ?v5" using 1 2 3 4 5 by (meson converse_rtranclp_into_rtranclp rtranclp.rtrancl_refl)
    ultimately show ?thesis by metis
  qed
qed

section \<open>The codec\<close>

interpretation custom_sends: aligned_codec "custom_codec ct" for ct
  by unfold_locales (auto simp: custom_codec_def dest: default_SendAll_length)

text \<open>
  Over an application's transport, whatever it answers or throws, and also after shutdown, a drain of the trace exporter or of the
  log or metric exporter raises no exception and adds exactly the number of its batches to those sent and
  failed.
\<close>

theorem custom_drain_accounts:
  "(case FanOutAndProcess encoder (custom_codec ct) env cfg oor now batches (Some d, w) of
      (thrown, diag, w') \<Rightarrow> thrown = None \<and> (\<exists>d'. diag = Some d' \<and> batches_settled d' = batches_settled d + of_nat (length batches))) \<and>
   (case ProcessBatches plain_encoder (custom_codec ct) env pcfg stage oor now plain_batches (Some d, w) of
      (thrown, diag, w') \<Rightarrow> thrown = None \<and> (\<exists>d'. diag = Some d' \<and> batches_settled d' = batches_settled d + of_nat (length plain_batches)))"
  using custom_sends.fan_out_total [of encoder ct env cfg oor now batches d w]
    custom_sends.process_total [of plain_encoder ct env pcfg stage oor now plain_batches d w]
  by auto

text \<open>The warnings about oversized requests over a sequence of sends, as the times at which one was logged.\<close>

fun oversize_warnings :: "(int \<times> nat) list \<Rightarrow> ExportTransportCodec \<Rightarrow> int list" where
  "oversize_warnings [] codec = []"
| "oversize_warnings ((now, n) # sends) codec =
     (case WarnIfOversized now n codec of
        (warned, codec') \<Rightarrow> (if warned then [now] else []) @ oversize_warnings sends codec')"

lemma oversize_warnings_spaced:
  "sorted_wrt (\<lambda>s t. s + kOversizeWarnInterval \<le> t) (oversize_warnings sends codec) \<and>
   (\<forall>t \<in> set (oversize_warnings sends codec). \<forall>l. cc_last_oversize_warn codec = Some l \<longrightarrow> l + kOversizeWarnInterval \<le> t)"
proof (induction sends arbitrary: codec)
  case (Cons x sends)
  obtain now n where x: "x = (now, n)" by fastforce
  obtain warned codec' where warn: "WarnIfOversized now n codec = (warned, codec')" by fastforce
  have last: "cc_last_oversize_warn codec' = (if warned then Some now else cc_last_oversize_warn codec)"
    and gap: "warned \<Longrightarrow> cc_last_oversize_warn codec = Some l \<Longrightarrow> l + kOversizeWarnInterval \<le> now" for l
    using warn by (auto simp: WarnIfOversized_def split: if_splits option.splits)
  show ?case
  proof (cases warned)
    case True
    have "l + kOversizeWarnInterval \<le> t"
      if "cc_last_oversize_warn codec = Some l" "t \<in> set (oversize_warnings sends codec')" for l t
      using gap [OF True that(1)] Cons.IH [of codec'] that(2) last True by (force simp: kOversizeWarnInterval_def)
    then show ?thesis using Cons.IH [of codec'] last True gap by (auto simp: x warn)
  qed (use Cons.IH [of codec'] last in \<open>auto simp: x warn\<close>)
qed simp

end
