(* ===== verification/Config_Validator.thy ===== *)
theory Config_Validator
  imports Leaf_Options Grpc_Codec Http_Codec Batch_Worker
begin

text \<open>
  The resolved configuration (\<open>src/common/config/config.hpp\<close>), the merging of its tables
  (\<open>src/common/config/table_merge.cpp\<close>) and its validation (\<open>src/common/config/config_validator.cpp\<close>).
  \<open>Validate\<close> changes the configuration as it goes and does not undo it when a later rule fails: it returns
  the first error, if any, with the configuration as it is then. Which paths are regular files is a
  parameter, and so is whether the build forbids insecure TLS. Durations are in milliseconds.

  Proved here: which endpoint URLs are accepted and what they mean; that the headers of a configuration
  that passed are none of those the codec sets itself; and that the merge of headers is an override of maps
  on names without case.
\<close>

section \<open>Data\<close>

datatype Protocol = Proto_Http | Proto_Grpc
datatype UnknownKeyMode = Unknown_Error | Unknown_Warn | Unknown_Ignore
datatype TemporalityPreference = Prefer_Cumulative | Prefer_Delta | Prefer_LowMemory
datatype LogLevel = Log_Trace | Log_Debug | Log_Info | Log_Warn | Log_Error

record ParsedEndpoint =
  ep_scheme :: string
  ep_host :: string
  ep_port :: nat
  ep_path :: string

record TlsOptions =
  tls_insecure :: bool
  tls_ca_bundle :: string
  tls_client_cert :: string
  tls_client_key :: string
  tls_sni_override :: string

record TimeoutOptions =
  to_connect :: int
  to_tls_handshake :: int
  to_per_export :: int
  to_retry_budget :: int
  to_flush :: int
  to_shutdown :: int

record MemoryLimitOptions =
  ml_max_total_queue_bytes :: u64
  ml_max_record_bytes :: u32
  ml_max_response_bytes :: u32
  ml_max_trailer_bytes :: u32
  ml_max_decompressed_bytes :: u32

record Config =
  unknown_key_mode :: UnknownKeyMode
  unknown_keys_warned :: "string list"
  endpoint_url :: string
  endpoint :: ParsedEndpoint
  protocol :: Protocol
  protocol_explicit :: bool
  compression_gzip :: bool
  cfg_headers :: "KeyValue list"
  service_name :: string
  service_version :: string
  resource_attrs :: "KeyValue list"
  service_name_defaulted :: bool
  resource_detectors_strict :: bool
  cfg_tls :: TlsOptions
  cfg_batch :: BatchOptions
  cfg_timeouts :: TimeoutOptions
  cfg_span_limits :: SpanLimitOptions
  cfg_memory_limits :: MemoryLimitOptions
  metric_interval :: int
  metric_temporality :: TemporalityPreference
  cfg_log_level :: LogLevel
  concentrator :: LeafReceiverOptions

section \<open>Endpoint\<close>

fun sv_find_str :: "string \<Rightarrow> string \<Rightarrow> nat option" where
  "sv_find_str pat [] = (if pat = [] then Some 0 else None)"
| "sv_find_str pat (c # cs) = (if take (length pat) (c # cs) = pat then Some 0 else map_option Suc (sv_find_str pat cs))"

definition sv_rfind :: "char \<Rightarrow> string \<Rightarrow> nat option" where
  "sv_rfind c s = map_option (\<lambda>i. length s - 1 - i) (sv_find c (rev s))"

definition kSchemeSep :: string where "kSchemeSep = ''://''"

definition ExtractScheme :: "string \<Rightarrow> string" where
  "ExtractScheme url = (case sv_find_str kSchemeSep url of None \<Rightarrow> [] | Some sep \<Rightarrow> take sep url)"

text \<open>Without a separator the position is the largest number, and adding the length of the separator wraps to 2.\<close>

definition StripScheme :: "string \<Rightarrow> string" where
  "StripScheme url = (case sv_find_str kSchemeSep url of None \<Rightarrow> drop 2 url | Some sep \<Rightarrow> drop (sep + length kSchemeSep) url)"

record AuthorityPath =
  ap_host :: string
  ap_port_str :: string
  ap_path :: string

definition SplitAuthorityPath :: "string \<Rightarrow> AuthorityPath" where
  "SplitAuthorityPath s =
     (let slash = sv_find (CHR ''/'') s;
          authority = (case slash of None \<Rightarrow> s | Some i \<Rightarrow> take i s);
          path = (case slash of None \<Rightarrow> [] | Some i \<Rightarrow> drop i s)
      in case sv_rfind (CHR '':'') authority of
           None \<Rightarrow> \<lparr>ap_host = authority, ap_port_str = [], ap_path = path\<rparr>
         | Some colon \<Rightarrow> \<lparr>ap_host = take colon authority, ap_port_str = drop (colon + 1) authority, ap_path = path\<rparr>)"

definition config_error :: "ConfigError_Kind \<Rightarrow> string \<Rightarrow> string \<Rightarrow> ConfigError" where
  "config_error kind field_name message = \<lparr>ce_kind = kind, ce_field = field_name, ce_message = message\<rparr>"

definition ParsePort :: "string \<Rightarrow> Protocol \<Rightarrow> ConfigError + nat" where
  "ParsePort port_str proto =
     (if port_str = [] then Inr (if proto = Proto_Grpc then 4317 else 4318)
      else
        case from_chars_u32 port_str of
          (Some parsed, rest) \<Rightarrow>
            if rest \<noteq> [] \<or> parsed > 65535 \<or> parsed = 0
            then Inl (config_error CE_EndpointMalformed ''exporter.endpoint'' ''invalid port in endpoint URL'')
            else Inr (nat parsed)
        | (None, rest) \<Rightarrow> Inl (config_error CE_EndpointMalformed ''exporter.endpoint'' ''invalid port in endpoint URL''))"

definition ParseEndpointUrl :: "string \<Rightarrow> Protocol \<Rightarrow> ConfigError + ParsedEndpoint" where
  "ParseEndpointUrl url proto =
     (if url = [] then Inl (config_error CE_EndpointMalformed ''exporter.endpoint'' ''endpoint URL is empty'')
      else
        let scheme = ExtractScheme url
        in if scheme = [] then
             Inl (config_error CE_EndpointMalformed ''exporter.endpoint'' ''endpoint URL missing scheme (expected https:// or http://)'')
           else if scheme \<notin> {''https'', ''grpcs'', ''http'', ''grpc''} then
             Inl (config_error CE_EndpointMalformed ''exporter.endpoint'' (''unsupported scheme: '' @ scheme))
           else
             let resolved_scheme = (if scheme = ''https'' \<or> scheme = ''grpcs'' then ''https'' else ''http'');
                 ap = SplitAuthorityPath (StripScheme url)
             in if ap_host ap = [] then Inl (config_error CE_EndpointMalformed ''exporter.endpoint'' ''endpoint URL has empty host'')
                else
                  case ParsePort (ap_port_str ap) proto of
                    Inl e \<Rightarrow> Inl e
                  | Inr port \<Rightarrow>
                      Inr \<lparr>ep_scheme = resolved_scheme, ep_host = ap_host ap, ep_port = port,
                           ep_path = (if ap_path ap = ''/'' then [] else ap_path ap)\<rparr>)"

definition ResolveProtocol :: "Config \<Rightarrow> ConfigError + Protocol" where
  "ResolveProtocol cfg =
     (let scheme = ExtractScheme (endpoint_url cfg)
      in if scheme \<noteq> ''grpc'' \<and> scheme \<noteq> ''grpcs'' then Inr (protocol cfg)
         else if protocol_explicit cfg \<and> protocol cfg \<noteq> Proto_Grpc then
           Inl (config_error CE_ProtocolMismatch ''exporter.protocol''
             (''endpoint scheme '' @ [CHR 0x22] @ scheme @ ''://'' @ [CHR 0x22] @ '' selects OTLP/gRPC but protocol is set to '' @
              [CHR 0x22] @ ''http'' @ [CHR 0x22] @ ''; use an http:// or https:// endpoint, or drop the explicit protocol''))
         else Inr Proto_Grpc)"

section \<open>TLS\<close>

definition IsReadable :: "(string \<Rightarrow> bool) \<Rightarrow> string \<Rightarrow> bool" where
  "IsReadable regular_file p \<longleftrightarrow> p = [] \<or> regular_file p"

definition CheckInsecureAllowed :: "bool \<Rightarrow> Config \<Rightarrow> ConfigError option" where
  "CheckInsecureAllowed forbid_insecure cfg =
     (if forbid_insecure \<and> tls_insecure (cfg_tls cfg) then
        Some (config_error CE_InsecureDisallowed ''tls.insecure''
          ''tls.insecure = true is refused: this build was compiled with MICROTEL_FORBID_INSECURE_TLS=ON'')
      else None)"

definition ValidateTlsMaterial :: "(string \<Rightarrow> bool) \<Rightarrow> Config \<Rightarrow> ConfigError option" where
  "ValidateTlsMaterial regular_file cfg =
     (let t = cfg_tls cfg; has_cert = (tls_client_cert t \<noteq> []); has_key = (tls_client_key t \<noteq> [])
      in if \<not> IsReadable regular_file (tls_ca_bundle t) then
           Some (config_error CE_TlsMaterialUnreadable ''tls.ca_bundle'' (''CA bundle not readable: '' @ tls_ca_bundle t))
         else if has_cert \<and> \<not> has_key then
           Some (config_error CE_InvalidValue ''tls.client_key'' ''client_cert is set but client_key is missing'')
         else if has_key \<and> \<not> has_cert then
           Some (config_error CE_InvalidValue ''tls.client_cert'' ''client_key is set but client_cert is missing'')
         else if has_cert \<and> \<not> IsReadable regular_file (tls_client_cert t) then
           Some (config_error CE_TlsMaterialUnreadable ''tls.client_cert'' (''client cert not readable: '' @ tls_client_cert t))
         else if has_key \<and> \<not> IsReadable regular_file (tls_client_key t) then
           Some (config_error CE_TlsMaterialUnreadable ''tls.client_key'' (''client key not readable: '' @ tls_client_key t))
         else None)"

section \<open>Headers\<close>

definition kConnectionSpecificHeaders :: "string list" where
  "kConnectionSpecificHeaders = [''connection'', ''keep-alive'', ''proxy-connection'', ''transfer-encoding'', ''upgrade'', ''te'']"

definition kGrpcCodecHeaders :: "string list" where
  "kGrpcCodecHeaders = [''content-type'', ''user-agent'', ''grpc-encoding'', ''grpc-accept-encoding'']"

definition kHttpCodecHeaders :: "string list" where
  "kHttpCodecHeaders = [''content-type'', ''content-length'', ''content-encoding'', ''accept-encoding'']"

definition kTokenPunctuation :: string where
  "kTokenPunctuation = ''!#$%&'' @ [CHR 0x27] @ ''*+-.^_'' @ [CHR 0x60] @ ''|~''"

definition cv_IsTokenChar :: "char \<Rightarrow> bool" where
  "cv_IsTokenChar c \<longleftrightarrow> (let n = of_char c :: nat in 48 \<le> n \<and> n \<le> 57 \<or> 65 \<le> n \<and> n \<le> 90 \<or> 97 \<le> n \<and> n \<le> 122) \<or> c \<in> set kTokenPunctuation"

definition cv_IsToken :: "string \<Rightarrow> bool" where
  "cv_IsToken name \<longleftrightarrow> name \<noteq> [] \<and> list_all cv_IsTokenChar name"

definition tolower :: "char \<Rightarrow> char" where
  "tolower c = (if 65 \<le> (of_char c :: nat) \<and> (of_char c :: nat) \<le> 90 then char_of ((of_char c :: nat) + 32) else c)"

definition EqualsIgnoreCase :: "string \<Rightarrow> string \<Rightarrow> bool" where
  "EqualsIgnoreCase a b \<longleftrightarrow> map tolower a = map tolower b"

definition IsOneOf :: "string \<Rightarrow> string list \<Rightarrow> bool" where
  "IsOneOf name names \<longleftrightarrow> list_ex (EqualsIgnoreCase name) names"

definition section_sign :: string where "section_sign = [CHR 0xC2, CHR 0xA7]"

definition ProtocolHeaderFault :: "string \<Rightarrow> Protocol \<Rightarrow> string option" where
  "ProtocolHeaderFault name proto =
     (if proto = Proto_Http then
        (if IsOneOf name kHttpCodecHeaders then Some ''is set by microtel for this protocol'' else None)
      else if IsOneOf name kGrpcCodecHeaders then Some ''is set by microtel for this protocol''
      else if EqualsIgnoreCase name ''content-length'' then
        Some ''cannot be fixed on gRPC, where every request body has its own length''
      else None)"

definition HeaderNameFault :: "string \<Rightarrow> Protocol \<Rightarrow> string option" where
  "HeaderNameFault name proto =
     (if \<not> cv_IsToken name then Some ''is not a valid header name (RFC 9110 token); pseudo-headers are set by microtel''
      else if IsOneOf name kConnectionSpecificHeaders then
        Some (''is connection-specific, which HTTP/2 forbids in a request (RFC 9113 '' @ section_sign @ ''8.2.2)'')
      else if EqualsIgnoreCase name ''host'' then Some ''is set by microtel from the endpoint, as :authority''
      else ProtocolHeaderFault name proto)"

definition HeaderError :: "string \<Rightarrow> string \<Rightarrow> ConfigError" where
  "HeaderError name reason =
     config_error CE_InvalidValue (''exporter.headers.'' @ name) (''header '' @ [CHR 0x22] @ name @ [CHR 0x22] @ '' '' @ reason)"

definition FieldValueFault :: "string \<Rightarrow> string option" where
  "FieldValueFault v =
     (if list_ex (\<lambda>c. c \<in> {CHR 0x00, CHR 0x0D, CHR 0x0A}) v then
        Some (''value contains CR, LF or NUL, which HTTP/2 forbids (RFC 9113 '' @ section_sign @ ''8.2.1)'')
      else if v \<noteq> [] \<and> (hd v \<in> {CHR '' '', CHR 0x09} \<or> last v \<in> {CHR '' '', CHR 0x09}) then
        Some (''value starts or ends with a space or tab, which HTTP/2 forbids (RFC 9113 '' @ section_sign @ ''8.2.1)'')
      else None)"

definition HeaderValueFault :: "AttributeValue \<Rightarrow> string option" where
  "HeaderValueFault v = (case v of AV_string s \<Rightarrow> FieldValueFault s | _ \<Rightarrow> None)"

fun check_headers :: "KeyValue list \<Rightarrow> Protocol \<Rightarrow> ConfigError option" where
  "check_headers [] proto = None"
| "check_headers (h # hs) proto =
     (case HeaderNameFault (kv_key h) proto of
        Some fault \<Rightarrow> Some (HeaderError (kv_key h) fault)
      | None \<Rightarrow>
          (case HeaderValueFault (kv_value h) of
             Some fault \<Rightarrow> Some (HeaderError (kv_key h) fault)
           | None \<Rightarrow> check_headers hs proto))"

definition ValidateHeaders :: "Config \<Rightarrow> ConfigError option" where
  "ValidateHeaders cfg = check_headers (cfg_headers cfg) (protocol cfg)"

fun CheckNoStaticAuthorization :: "KeyValue list \<Rightarrow> ConfigError option" where
  "CheckNoStaticAuthorization [] = None"
| "CheckNoStaticAuthorization (h # hs) =
     (if EqualsIgnoreCase (kv_key h) ''authorization''
      then Some (HeaderError (kv_key h) ''is set by the WithAuthProvider callback; set one or the other'')
      else CheckNoStaticAuthorization hs)"

section \<open>Validation\<close>

record BatchOptionsFault =
  bf_field :: string
  bf_message :: string

definition CheckBatchOptions :: "BatchOptions \<Rightarrow> BatchOptionsFault option" where
  "CheckBatchOptions opts =
     (if max_queue_size opts = 0 then
        Some \<lparr>bf_field = ''sdk.max_queue_size'', bf_message = ''max_queue_size must be greater than zero''\<rparr>
      else if max_export_batch_size opts = 0 then
        Some \<lparr>bf_field = ''sdk.max_export_batch_size'', bf_message = ''max_export_batch_size must be greater than zero''\<rparr>
      else if max_export_batch_size opts > max_queue_size opts then
        Some \<lparr>bf_field = ''sdk.max_export_batch_size'', bf_message = ''max_export_batch_size must not exceed max_queue_size''\<rparr>
      else if schedule_delay opts \<le> 0 then
        Some \<lparr>bf_field = ''sdk.schedule_delay_ms'', bf_message = ''schedule_delay must be greater than zero''\<rparr>
      else None)"

definition cv_kUnknownService :: string where "cv_kUnknownService = ''unknown_service''"

definition default_service_name :: "Config \<Rightarrow> Config" where
  "default_service_name cfg =
     (let cfg1 = cfg\<lparr>service_name_defaulted := (service_name cfg = [])\<rparr>
      in if service_name_defaulted cfg1 then cfg1\<lparr>service_name := cv_kUnknownService\<rparr> else cfg1)"

definition Validate :: "(string \<Rightarrow> bool) \<Rightarrow> bool \<Rightarrow> Config \<Rightarrow> ConfigError option \<times> Config" where
  "Validate regular_file forbid_insecure cfg =
     (case ResolveProtocol cfg of
        Inl e \<Rightarrow> (Some e, cfg)
      | Inr proto \<Rightarrow>
          let cfg1 = cfg\<lparr>protocol := proto\<rparr>
          in case ParseEndpointUrl (endpoint_url cfg1) (protocol cfg1) of
               Inl e \<Rightarrow> (Some e, cfg1)
             | Inr ep \<Rightarrow>
                 if protocol cfg1 = Proto_Grpc \<and> ep_path ep \<noteq> [] then
                   (Some (config_error CE_ProtocolMismatch ''exporter.endpoint'' ''gRPC endpoint URLs must not include a path''), cfg1)
                 else
                   let cfg2 = cfg1\<lparr>endpoint := ep\<rparr>
                   in case CheckInsecureAllowed forbid_insecure cfg2 of
                        Some e \<Rightarrow> (Some e, cfg2)
                      | None \<Rightarrow>
                          (case ValidateTlsMaterial regular_file cfg2 of
                             Some e \<Rightarrow> (Some e, cfg2)
                           | None \<Rightarrow>
                               (case ValidateHeaders cfg2 of
                                  Some e \<Rightarrow> (Some e, cfg2)
                                | None \<Rightarrow>
                                    (case CheckBatchOptions (cfg_batch cfg2) of
                                       Some f \<Rightarrow> (Some (config_error CE_InvalidValue (bf_field f) (bf_message f)), cfg2)
                                     | None \<Rightarrow> (None, default_service_name cfg2)))))"

section \<open>Merging\<close>

definition MergeResourceAttrs :: "KeyValue list \<Rightarrow> KeyValue list \<Rightarrow> KeyValue list" where
  "MergeResourceAttrs base overriding = Resource_Merge base overriding"

text \<open>\<open>OverrideHeader\<close>: the first match is replaced in place and later ones are dropped.\<close>

fun replace_first :: "KeyValue list \<Rightarrow> KeyValue \<Rightarrow> KeyValue list" where
  "replace_first [] kv = []"
| "replace_first (e # table) kv =
     (if EqualsIgnoreCase (kv_key e) (kv_key kv)
      then kv # filter (\<lambda>x. \<not> EqualsIgnoreCase (kv_key x) (kv_key kv)) table
      else e # replace_first table kv)"

definition OverrideHeader :: "KeyValue list \<Rightarrow> KeyValue \<Rightarrow> KeyValue list" where
  "OverrideHeader table kv =
     (if list_ex (\<lambda>e. EqualsIgnoreCase (kv_key e) (kv_key kv)) table then replace_first table kv else table @ [kv])"

definition MergeHeaders :: "KeyValue list \<Rightarrow> KeyValue list \<Rightarrow> KeyValue list" where
  "MergeHeaders base overriding = foldl OverrideHeader base overriding"

section \<open>Endpoints\<close>

lemma find_str_SomeD: "sv_find_str pat s = Some i \<Longrightarrow> s = take i s @ pat @ drop (i + length pat) s"
proof (induction s arbitrary: i)
  case (Cons c cs)
  show ?case
  proof (cases "take (length pat) (c # cs) = pat")
    case True
    then have "i = 0" using Cons.prems by simp
    then show ?thesis using True append_take_drop_id [of "length pat" "c # cs"] by simp
  next
    case False
    then obtain j where "sv_find_str pat cs = Some j" "i = Suc j" using Cons.prems by auto
    then show ?thesis using Cons.IH [of j] by simp
  qed
qed (auto split: if_splits)

lemma find_sep: "CHR '':'' \<notin> set a \<Longrightarrow> sv_find_str kSchemeSep (a @ ''://'' @ b) = Some (length a)"
  by (induction a) (auto simp: kSchemeSep_def)

text \<open>The schemes that are known have no colon, so the first separator of the URL is the one after them.\<close>

definition known_schemes :: "string list" where
  "known_schemes = [''https'', ''grpcs'', ''http'', ''grpc'']"

lemma ExtractScheme_iff:
  assumes "scheme \<in> set known_schemes"
  shows "ExtractScheme url = scheme \<longleftrightarrow> (\<exists>rest. url = scheme @ ''://'' @ rest)"
    "StripScheme (scheme @ ''://'' @ rest) = rest"
proof -
  have clean: "CHR '':'' \<notin> set scheme" "scheme \<noteq> []" using assms by (auto simp: known_schemes_def)
  show "StripScheme (scheme @ ''://'' @ rest) = rest"
    using find_sep [OF clean(1), of rest] by (simp add: StripScheme_def kSchemeSep_def)
  show "ExtractScheme url = scheme \<longleftrightarrow> (\<exists>rest. url = scheme @ ''://'' @ rest)"
  proof
    assume e: "ExtractScheme url = scheme"
    then obtain i where i: "sv_find_str kSchemeSep url = Some i" "scheme = take i url"
      using clean(2) by (auto simp: ExtractScheme_def split: option.splits)
    then show "\<exists>rest. url = scheme @ ''://'' @ rest" using find_str_SomeD [OF i(1)] by (auto simp: kSchemeSep_def)
  next
    assume "\<exists>rest. url = scheme @ ''://'' @ rest"
    then show "ExtractScheme url = scheme" using find_sep [OF clean(1)] by (auto simp: ExtractScheme_def)
  qed
qed

lemma rfind_append: "c \<notin> set ys \<Longrightarrow> sv_rfind c (xs @ c # ys) = Some (length xs)"
  using sv_find_append [of c "rev ys" "rev xs"] by (simp add: sv_rfind_def)

lemma rfind_absent: "c \<notin> set s \<Longrightarrow> sv_rfind c s = None"
  by (simp add: sv_rfind_def sv_find_absent)

lemma rfind_split: "c \<in> set s \<Longrightarrow> \<exists>xs ys. s = xs @ c # ys \<and> c \<notin> set ys"
  by (rule split_list_last)

text \<open>An authority is a host without a colon, or what comes before its last colon, and a port.\<close>

definition splits_authority :: "string \<Rightarrow> string \<Rightarrow> string \<Rightarrow> bool" where
  "splits_authority authority host port \<longleftrightarrow>
     authority = host \<and> port = [] \<and> CHR '':'' \<notin> set host \<or> authority = host @ CHR '':'' # port \<and> CHR '':'' \<notin> set port"

lemma splits_exists: "\<exists>host port. splits_authority authority host port"
  using rfind_split [of "CHR '':''" authority] by (cases "CHR '':'' \<in> set authority") (auto simp: splits_authority_def)

lemma SplitAuthorityPath_spec:
  assumes "CHR ''/'' \<notin> set authority" "path = [] \<or> hd path = CHR ''/''" "splits_authority authority host port"
  shows "SplitAuthorityPath (authority @ path) = \<lparr>ap_host = host, ap_port_str = port, ap_path = path\<rparr>"
proof -
  have slash: "sv_find (CHR ''/'') (authority @ path) = (if path = [] then None else Some (length authority))"
    using assms(1,2) sv_find_append [of "CHR ''/''" authority "tl path"] sv_find_absent [of "CHR ''/''" authority]
    by (cases path) auto
  have colon: "sv_rfind (CHR '':'') authority = None \<and> authority = host \<and> port = [] \<or>
      sv_rfind (CHR '':'') authority = Some (length host) \<and> authority = host @ CHR '':'' # port"
    using assms(3) rfind_append rfind_absent by (auto simp: splits_authority_def)
  then show ?thesis by (auto simp: SplitAuthorityPath_def slash Let_def)
qed

definition default_port :: "Protocol \<Rightarrow> nat" where
  "default_port proto = (if proto = Proto_Grpc then 4317 else 4318)"

lemma ParsePort_iff:
  "ParsePort port proto = Inr n \<longleftrightarrow>
     port = [] \<and> n = default_port proto \<or>
     port \<noteq> [] \<and> list_all is_digit port \<and> n = decimal port \<and> 0 < n \<and> n \<le> 65535"
proof (cases "port = []")
  case False
  have parsed: "from_chars_u32 port =
      (if takeWhile is_digit port = [] then (None, port)
       else if int (decimal (takeWhile is_digit port)) \<le> 2 ^ 32 - 1
       then (Some (int (decimal (takeWhile is_digit port))), dropWhile is_digit port) else (None, dropWhile is_digit port))"
    by (simp add: from_chars_u32_def from_chars_def Let_def)
  show ?thesis
  proof (cases "list_all is_digit port")
    case True
    then have whole: "takeWhile is_digit port = port" "dropWhile is_digit port = []" by (simp_all add: list_all_iff)
    show ?thesis using True False parsed [unfolded whole] by (auto simp: ParsePort_def)
  next
    case bad: False
    then have "dropWhile is_digit port \<noteq> []" by (simp add: list_all_iff)
    then show ?thesis using bad False parsed by (auto simp: ParsePort_def)
  qed
qed (auto simp: ParsePort_def default_port_def)

text \<open>
  C32: the endpoint URLs that are accepted, and what they mean. A URL is accepted exactly when it is one of
  the four schemes, \<open>://\<close>, a host that is not empty, possibly a port, and possibly a path: the host and the port
  are the authority before the first slash, split at its last colon; the port is empty, which stands for
  the default of the protocol, or a number from 1 to 65535. \<open>https\<close> and \<open>grpcs\<close> become \<open>https\<close>, the others \<open>http\<close>;
  a path that is a single slash becomes empty.
\<close>

theorem endpoint_language:
  "ParseEndpointUrl url proto = Inr ep \<longleftrightarrow>
     (\<exists>scheme authority host port path. url = scheme @ ''://'' @ authority @ path \<and> scheme \<in> {''https'', ''grpcs'', ''http'', ''grpc''} \<and>
        CHR ''/'' \<notin> set authority \<and> (path = [] \<or> hd path = CHR ''/'') \<and> splits_authority authority host port \<and> host \<noteq> [] \<and>
        (port = [] \<and> ep_port ep = default_port proto \<or>
         port \<noteq> [] \<and> list_all is_digit port \<and> ep_port ep = decimal port \<and> 0 < ep_port ep \<and> ep_port ep \<le> 65535) \<and>
        ep_scheme ep = (if scheme \<in> {''https'', ''grpcs''} then ''https'' else ''http'') \<and>
        ep_host ep = host \<and> ep_path ep = (if path = ''/'' then [] else path))" (is "?lhs \<longleftrightarrow> ?rhs")
proof
  assume ?lhs
  define scheme where "scheme = ExtractScheme url"
  define rest where "rest = StripScheme url"
  define authority where "authority = takeWhile (\<lambda>c. c \<noteq> CHR ''/'') rest"
  define path where "path = dropWhile (\<lambda>c. c \<noteq> CHR ''/'') rest"
  have scheme: "scheme \<in> set known_schemes"
    using \<open>?lhs\<close> by (auto simp: ParseEndpointUrl_def scheme_def known_schemes_def Let_def split: if_splits)
  then obtain r where url: "url = scheme @ ''://'' @ r" using ExtractScheme_iff(1) scheme_def by metis
  then have "url = scheme @ ''://'' @ authority @ path"
    using ExtractScheme_iff(2) [OF scheme, of r] by (simp add: authority_def path_def rest_def)
  moreover have no_slash: "CHR ''/'' \<notin> set authority" by (auto simp: authority_def dest: set_takeWhileD)
  moreover have p: "path = [] \<or> hd path = CHR ''/''" using hd_dropWhile [of "\<lambda>c. c \<noteq> CHR ''/''" rest] by (auto simp: path_def)
  moreover obtain host port where hp: "splits_authority authority host port" using splits_exists by blast
  moreover have "SplitAuthorityPath rest = \<lparr>ap_host = host, ap_port_str = port, ap_path = path\<rparr>"
    using SplitAuthorityPath_spec [OF no_slash p hp] by (simp add: authority_def path_def)
  moreover have "scheme \<in> {''https'', ''grpcs'', ''http'', ''grpc''}" using scheme by (simp add: known_schemes_def)
  moreover have "host \<noteq> []" and port: "ParsePort port proto = Inr (ep_port ep)"
    and "ep_scheme ep = (if scheme \<in> {''https'', ''grpcs''} then ''https'' else ''http'')"
    and "ep_host ep = host" "ep_path ep = (if path = ''/'' then [] else path)"
    using \<open>?lhs\<close> calculation unfolding ParseEndpointUrl_def scheme_def [symmetric] rest_def [symmetric] Let_def
    by (auto split: if_splits sum.splits)
  ultimately show ?rhs using port unfolding ParsePort_iff by blast
next
  assume ?rhs
  then obtain scheme authority host port path where url: "url = scheme @ ''://'' @ authority @ path"
      and scheme: "scheme \<in> {''https'', ''grpcs'', ''http'', ''grpc''}"
      and split: "CHR ''/'' \<notin> set authority" "path = [] \<or> hd path = CHR ''/''" "splits_authority authority host port" "host \<noteq> []"
      and ep: "ParsePort port proto = Inr (ep_port ep)" "ep_scheme ep = (if scheme \<in> {''https'', ''grpcs''} then ''https'' else ''http'')"
        "ep_host ep = host" "ep_path ep = (if path = ''/'' then [] else path)"
    unfolding ParsePort_iff by blast
  have known: "scheme \<in> set known_schemes" using scheme by (simp add: known_schemes_def)
  have "ExtractScheme url = scheme" "StripScheme url = authority @ path" "url \<noteq> []" "scheme \<noteq> []"
    using ExtractScheme_iff [OF known] url scheme by auto
  then show ?lhs
    using SplitAuthorityPath_spec [OF split(1-3)] split(4) ep scheme
    by (cases ep) (auto simp: ParseEndpointUrl_def Let_def)
qed

theorem endpoint_language_witness:
  "ParseEndpointUrl ''grpcs://[::1]:4317/'' Proto_Grpc =
     Inr \<lparr>ep_scheme = ''https'', ep_host = ''[::1]'', ep_port = 4317, ep_path = []\<rparr>"
proof -
  have "decimal ''4317'' = 4317" "list_all is_digit ''4317''" by code_simp+
  then show ?thesis
    unfolding endpoint_language
    by (intro exI [of _ "''grpcs''"] exI [of _ "''[::1]:4317''"] exI [of _ "''[::1]''"] exI [of _ "''4317''"] exI [of _ "''/''"])
      (simp add: splits_authority_def)
qed

section \<open>What a configuration that passed guarantees\<close>

lemma tolower_colon: "tolower c = CHR '':'' \<Longrightarrow> c = CHR '':''"
proof (cases "65 \<le> (of_char c :: nat) \<and> (of_char c :: nat) \<le> 90")
  case True
  assume "tolower c = CHR '':''"
  then have "(of_char (char_of ((of_char c :: nat) + 32) :: char) :: nat) = of_char (CHR '':'')" using True by (simp add: tolower_def)
  then show ?thesis using True by simp
qed (simp add: tolower_def)

lemma token_not_pseudo: "cv_IsToken name \<Longrightarrow> \<not> EqualsIgnoreCase name (CHR '':'' # rest)"
proof
  assume t: "cv_IsToken name" and e: "EqualsIgnoreCase name (CHR '':'' # rest)"
  have "tolower (CHR '':'') = CHR '':''" by code_simp
  then obtain c cs where "name = c # cs" "tolower c = CHR '':''" using e by (cases name) (auto simp: EqualsIgnoreCase_def)
  then have "cv_IsTokenChar (CHR '':'')" using t tolower_colon by (auto simp: cv_IsToken_def)
  moreover have "\<not> cv_IsTokenChar (CHR '':'')" by code_simp
  ultimately show False by contradiction
qed

lemma check_headers_None:
  "check_headers hs proto = None \<longleftrightarrow> (\<forall>h \<in> set hs. HeaderNameFault (kv_key h) proto = None \<and> HeaderValueFault (kv_value h) = None)"
  by (induction hs) (auto split: option.splits)

lemma HeaderNameFault_None:
  "HeaderNameFault name proto = None \<longleftrightarrow>
     cv_IsToken name \<and> \<not> IsOneOf name (kConnectionSpecificHeaders @ [''host''] @
       (if proto = Proto_Http then kHttpCodecHeaders else kGrpcCodecHeaders @ [''content-length'']))"
  by (auto simp: HeaderNameFault_def ProtocolHeaderFault_def IsOneOf_def)

lemma Validate_passed:
  assumes "Validate regular_file forbid cfg = (None, cfg')"
  obtains proto ep where "ResolveProtocol cfg = Inr proto" "ParseEndpointUrl (endpoint_url cfg) proto = Inr ep"
    "proto = Proto_Grpc \<Longrightarrow> ep_path ep = []" "CheckInsecureAllowed forbid cfg = None" "ValidateTlsMaterial regular_file cfg = None"
    "check_headers (cfg_headers cfg) proto = None" "CheckBatchOptions (cfg_batch cfg) = None"
    "cfg' = default_service_name (cfg\<lparr>protocol := proto, endpoint := ep\<rparr>)"
proof -
  obtain proto where p: "ResolveProtocol cfg = Inr proto" using assms by (auto simp: Validate_def split: sum.splits)
  obtain ep where e: "ParseEndpointUrl (endpoint_url cfg) proto = Inr ep"
    using assms p by (auto simp: Validate_def Let_def split: sum.splits)
  show ?thesis
    using assms p e that [OF p e]
    by (auto simp: Validate_def ValidateHeaders_def CheckInsecureAllowed_def ValidateTlsMaterial_def Let_def split: if_splits option.splits)
qed

text \<open>A header that is accepted is none of those the codec sends itself, which \<open>len\<close> and \<open>z\<close> vary.\<close>

lemma accepted_header:
  assumes "check_headers hs proto = None" "h \<in> set hs" "hc_extra_headers hc = []" "gc_extra_headers gc = []"
  shows "cv_IsToken (kv_key h) \<and>
    (\<forall>b \<in> set (if proto = Proto_Http then http_base_headers hc len z else grpc_base_headers gc z). \<not> EqualsIgnoreCase (kv_key h) (hf_name b)) \<and>
    (\<forall>s. kv_value h = AV_string s \<longrightarrow> set s \<inter> {CHR 0x00, CHR 0x0D, CHR 0x0A} = {})"
proof (intro conjI allI impI)
  have ok: "cv_IsToken (kv_key h)" "\<not> IsOneOf (kv_key h) (kConnectionSpecificHeaders @ [''host''] @
     (if proto = Proto_Http then kHttpCodecHeaders else kGrpcCodecHeaders @ [''content-length'']))"
    using assms(1,2) HeaderNameFault_None by (auto simp: check_headers_None)
  show "cv_IsToken (kv_key h)" by (rule ok(1))
  show "\<forall>b \<in> set (if proto = Proto_Http then http_base_headers hc len z else grpc_base_headers gc z). \<not> EqualsIgnoreCase (kv_key h) (hf_name b)"
    using token_not_pseudo [OF ok(1)] ok(2) assms(3,4)
    by (auto simp: IsOneOf_def http_base_headers_def grpc_base_headers_def kConnectionSpecificHeaders_def kHttpCodecHeaders_def kGrpcCodecHeaders_def split: if_splits)
  fix s assume "kv_value h = AV_string s"
  then have "FieldValueFault s = None" using assms(1,2) by (auto simp: check_headers_None HeaderValueFault_def)
  then show "set s \<inter> {CHR 0x00, CHR 0x0D, CHR 0x0A} = {}" by (auto simp: FieldValueFault_def list_ex_iff split: if_splits)
qed

text \<open>
  C33: what a configuration that passed guarantees to the codec it is given to. Its protocol is the one of the
  endpoint's scheme or the one that was set, its endpoint is the parsed URL, without a path for gRPC. Every
  static header has a name that is a token and is none of the headers the codec of that protocol sends
  itself, in any case, so no header is sent twice and no pseudo-header is forged; and a value that is a
  string has no line break or NUL. The batch options are coherent, the client certificate and key are both
  there or both not, and the service has a name.
\<close>

theorem validated_config:
  assumes "Validate regular_file forbid cfg = (None, cfg')" "hc_extra_headers hc = []" "gc_extra_headers gc = []"
  shows "ParseEndpointUrl (endpoint_url cfg') (protocol cfg') = Inr (endpoint cfg') \<and>
    (protocol cfg' = Proto_Grpc \<longrightarrow> ep_path (endpoint cfg') = []) \<and>
    (\<forall>h \<in> set (cfg_headers cfg'). cv_IsToken (kv_key h) \<and>
       (\<forall>b \<in> set (if protocol cfg' = Proto_Http then http_base_headers hc len z else grpc_base_headers gc z).
          \<not> EqualsIgnoreCase (kv_key h) (hf_name b)) \<and>
       (\<forall>s. kv_value h = AV_string s \<longrightarrow> set s \<inter> {CHR 0x00, CHR 0x0D, CHR 0x0A} = {})) \<and>
    0 < max_export_batch_size (cfg_batch cfg') \<and> max_export_batch_size (cfg_batch cfg') \<le> max_queue_size (cfg_batch cfg') \<and>
    0 < schedule_delay (cfg_batch cfg') \<and>
    (tls_client_cert (cfg_tls cfg') = [] \<longleftrightarrow> tls_client_key (cfg_tls cfg') = []) \<and> service_name cfg' \<noteq> []"
proof (rule Validate_passed [OF assms(1)])
  fix proto ep
  assume p: "ResolveProtocol cfg = Inr proto" "ParseEndpointUrl (endpoint_url cfg) proto = Inr ep" "proto = Proto_Grpc \<Longrightarrow> ep_path ep = []"
    and tls: "CheckInsecureAllowed forbid cfg = None" "ValidateTlsMaterial regular_file cfg = None"
    and hs: "check_headers (cfg_headers cfg) proto = None"
    and batch: "CheckBatchOptions (cfg_batch cfg) = None"
    and cfg': "cfg' = default_service_name (cfg\<lparr>protocol := proto, endpoint := ep\<rparr>)"
  have same: "endpoint_url cfg' = endpoint_url cfg" "protocol cfg' = proto" "endpoint cfg' = ep" "cfg_headers cfg' = cfg_headers cfg"
      "cfg_batch cfg' = cfg_batch cfg" "cfg_tls cfg' = cfg_tls cfg" "service_name cfg' \<noteq> []"
    by (auto simp: cfg' default_service_name_def cv_kUnknownService_def Let_def)
  note header = accepted_header [OF hs _ assms(2,3)]
  have "tls_client_cert (cfg_tls cfg) = [] \<longleftrightarrow> tls_client_key (cfg_tls cfg) = []"
    using tls(2) by (auto simp: ValidateTlsMaterial_def Let_def split: if_splits)
  moreover have "0 < max_export_batch_size (cfg_batch cfg) \<and> max_export_batch_size (cfg_batch cfg) \<le> max_queue_size (cfg_batch cfg) \<and> 0 < schedule_delay (cfg_batch cfg)"
    using batch by (auto simp: CheckBatchOptions_def split: if_splits)
  ultimately show ?thesis using p header same by simp
qed

text \<open>An endpoint whose scheme selects gRPC, one header, and options at their defaults.\<close>

definition sample_cfg :: Config where
  "sample_cfg =
     \<lparr>unknown_key_mode = Unknown_Error, unknown_keys_warned = [], endpoint_url = ''grpc://collector'',
      endpoint = \<lparr>ep_scheme = [], ep_host = [], ep_port = 0, ep_path = []\<rparr>, protocol = Proto_Http, protocol_explicit = False,
      compression_gzip = False, cfg_headers = [\<lparr>kv_key = ''x-team'', kv_value = AV_string ''a b''\<rparr>], service_name = [],
      service_version = [], resource_attrs = [], service_name_defaulted = False, resource_detectors_strict = False,
      cfg_tls = \<lparr>tls_insecure = False, tls_ca_bundle = [], tls_client_cert = [], tls_client_key = [], tls_sni_override = []\<rparr>,
      cfg_batch = BatchOptions_default,
      cfg_timeouts = \<lparr>to_connect = 10000, to_tls_handshake = 10000, to_per_export = 10000, to_retry_budget = 60000, to_flush = 5000, to_shutdown = 5000\<rparr>,
      cfg_span_limits = SpanLimitOptions_default,
      cfg_memory_limits = \<lparr>ml_max_total_queue_bytes = 16777216, ml_max_record_bytes = 65536, ml_max_response_bytes = 1048576,
        ml_max_trailer_bytes = 65536, ml_max_decompressed_bytes = 4194304\<rparr>,
      metric_interval = 60000, metric_temporality = Prefer_Cumulative, cfg_log_level = Log_Info,
      concentrator = LeafReceiverOptions_default\<lparr>o_enabled := False\<rparr>\<rparr>"

theorem validated_config_witness:
  "case Validate (\<lambda>_. False) True sample_cfg of
     (e, cfg') \<Rightarrow> e = None \<and> protocol cfg' = Proto_Grpc \<and> ep_path (endpoint cfg') = [] \<and> \<not> EqualsIgnoreCase ''x-team'' ''user-agent''"
proof -
  obtain e cfg' where v: "Validate (\<lambda>_. False) True sample_cfg = (e, cfg')" by (metis prod.exhaust)
  have parts: "ExtractScheme ''grpc://collector'' = ''grpc''" "StripScheme ''grpc://collector'' = ''collector''"
      "SplitAuthorityPath ''collector'' = \<lparr>ap_host = ''collector'', ap_port_str = [], ap_path = []\<rparr>"
    by (simp_all add: ExtractScheme_def StripScheme_def SplitAuthorityPath_def kSchemeSep_def sv_rfind_def)
  have "HeaderNameFault ''x-team'' Proto_Grpc = None" "FieldValueFault ''a b'' = None" by code_simp+
  then have "Validate (\<lambda>_. False) True sample_cfg =
      (None, default_service_name (sample_cfg\<lparr>protocol := Proto_Grpc,
         endpoint := \<lparr>ep_scheme = ''http'', ep_host = ''collector'', ep_port = 4317, ep_path = []\<rparr>\<rparr>))"
    by (simp add: Validate_def sample_cfg_def ResolveProtocol_def parts ParseEndpointUrl_def ParsePort_def CheckInsecureAllowed_def
        ValidateTlsMaterial_def IsReadable_def ValidateHeaders_def HeaderValueFault_def CheckBatchOptions_def BatchOptions_default_def Let_def)
  then have facts: "e = None" "protocol cfg' = Proto_Grpc" "map kv_key (cfg_headers cfg') = [''x-team'']"
    using v by (auto simp: default_service_name_def sample_cfg_def Let_def split: if_splits)
  then obtain h where h: "h \<in> set (cfg_headers cfg')" "kv_key h = ''x-team''" by (cases "cfg_headers cfg'") auto
  have none: "hc_extra_headers sample_http = []" "gc_extra_headers (gw_config sample_grpc) = []"
    by (simp_all add: sample_http_def sample_grpc_def)
  have "header ''user-agent'' ''microtel-cpp/1.2.3'' \<in> set (grpc_base_headers (gw_config sample_grpc) False)" by (simp add: grpc_base_headers_def)
  then have "\<not> EqualsIgnoreCase (kv_key h) ''user-agent''"
    using validated_config [OF v [unfolded facts(1)] none, of 0 False] h(1) facts(2) by fastforce
  then show ?thesis using validated_config [OF v [unfolded facts(1)] none, of 0 False] v facts h(2) by simp
qed

section \<open>Merging headers\<close>

definition named :: "string \<Rightarrow> KeyValue \<Rightarrow> bool" where
  "named n kv \<longleftrightarrow> EqualsIgnoreCase (kv_key kv) n"

lemma EqualsIgnoreCase_trans:
  "EqualsIgnoreCase a b \<Longrightarrow> EqualsIgnoreCase a c \<longleftrightarrow> EqualsIgnoreCase b c" "EqualsIgnoreCase a b \<longleftrightarrow> EqualsIgnoreCase b a" "EqualsIgnoreCase a a"
  by (auto simp: EqualsIgnoreCase_def)

lemma replace_first_named:
  "list_ex (named (kv_key kv)) table \<Longrightarrow> filter (named n) (replace_first table kv) = (if named n kv then [kv] else filter (named n) table)"
proof (induction table)
  case (Cons e table)
  show ?case
  proof (cases "named (kv_key kv) e")
    case True
    have "filter (named n) (filter (\<lambda>x. \<not> named (kv_key kv) x) table) = (if named n kv then [] else filter (named n) table)"
      by (auto simp: filter_filter named_def EqualsIgnoreCase_def filter_empty_conv intro!: filter_cong)
    moreover have "named n e = named n kv" using True by (auto simp: named_def EqualsIgnoreCase_def)
    ultimately show ?thesis using True unfolding named_def by auto
  next
    case False
    then have "named n kv \<Longrightarrow> \<not> named n e" by (auto simp: named_def EqualsIgnoreCase_def)
    then show ?thesis using False Cons unfolding named_def by auto
  qed
qed simp

lemma OverrideHeader_named: "filter (named n) (OverrideHeader table kv) = (if named n kv then [kv] else filter (named n) table)"
proof (cases "list_ex (named (kv_key kv)) table")
  case True
  then show ?thesis using replace_first_named [OF True] by (simp add: OverrideHeader_def named_def [abs_def])
next
  case False
  then have "named n kv \<Longrightarrow> filter (named n) table = []"
    by (auto simp: list_ex_iff named_def EqualsIgnoreCase_def filter_empty_conv)
  then show ?thesis using False by (auto simp: OverrideHeader_def named_def [abs_def])
qed

text \<open>
  Merging header tables is overriding by name without case. For every name, what the merged table has
  under it, in whatever spelling, is exactly the last entry of the overriding table under that name when
  there is one, once, and otherwise what the base table had, unchanged and in its order.
\<close>

theorem merge_headers_override:
  "filter (named n) (MergeHeaders base overriding) =
     (if filter (named n) overriding = [] then filter (named n) base else [last (filter (named n) overriding)])"
proof (induction overriding rule: rev_induct)
  case (snoc kv overriding)
  have "MergeHeaders base (overriding @ [kv]) = OverrideHeader (MergeHeaders base overriding) kv" by (simp add: MergeHeaders_def)
  then show ?case using snoc.IH by (simp add: OverrideHeader_named)
qed (simp add: MergeHeaders_def)

end
