(* ===== verification/Config_Env.thy ===== *)
theory Config_Env
  imports Config_Validator Baggage
begin

text \<open>
  The environment overlay of the configuration (\<open>src/common/config/env_resolver.cpp\<close>) and the value
  syntax and merge of the concentrator's settings (\<open>src/common/config/concentrator_config.cpp\<close>). The
  environment is a parameter, the function \<open>getenv\<close> computes. An overlay changes the configuration in place
  and stops at the first variable it cannot read: it returns the error, if any, with the configuration as
  it is then.

  Proved here: the language of sizes and durations; that a list of keys and percent-encoded values is read
  back, and that an error in such a list tells nothing about its values; that the overlay is the application
  of a table of settings in order, which error it reports and what the configuration is when there is none;
  and that the settings made in code are merged over the others per leaf and per key.
\<close>

section \<open>The syntax of the concentrator's values\<close>

record Number =
  num_value :: nat
  num_suffix :: string

definition SplitNumber :: "string \<Rightarrow> Number option" where
  "SplitNumber txt =
     (case from_chars False 0 (2 ^ 64 - 1) txt of
        (None, rest) \<Rightarrow> None
      | (Some v, rest) \<Rightarrow> Some \<lparr>num_value = nat v, num_suffix = rest\<rparr>)"

definition UnitOf :: "string \<Rightarrow> (string \<times> nat) list \<Rightarrow> nat option" where
  "UnitOf sfx units = map_of units sfx"

definition kByteUnits :: "(string \<times> nat) list" where
  "kByteUnits = [([], 1), (''B'', 1), (''KiB'', 1024), (''MiB'', 1024 * 1024)]"

definition kDurationUnits :: "(string \<times> nat) list" where
  "kDurationUnits = [(''s'', 1), (''m'', 60), (''h'', 60 * 60)]"

text \<open>The product is taken after the check that it is in range, so it is a product of naturals.\<close>

definition ParseByteSize :: "string \<Rightarrow> u32 option" where
  "ParseByteSize txt =
     (case SplitNumber txt of
        None \<Rightarrow> None
      | Some n \<Rightarrow>
          (case UnitOf (num_suffix n) kByteUnits of
             None \<Rightarrow> None
           | Some u \<Rightarrow> if num_value n > (2 ^ 32 - 1) div u then None else Some (of_nat (num_value n * u))))"

definition ParseDuration :: "string \<Rightarrow> int option" where
  "ParseDuration txt =
     (case SplitNumber txt of
        None \<Rightarrow> None
      | Some n \<Rightarrow>
          (case UnitOf (num_suffix n) kDurationUnits of
             None \<Rightarrow> None
           | Some u \<Rightarrow> if num_value n > (2 ^ 63 - 1) div u then None else Some (int (num_value n) * int u)))"

definition ParseUnknownLeafPolicy :: "string \<Rightarrow> UnknownLeafPolicy option" where
  "ParseUnknownLeafPolicy txt =
     (if txt = ''accept'' then Some Accept else if txt = ''reject'' then Some Reject else None)"

definition ParseLeafTimeMode :: "string \<Rightarrow> LeafTimeMode option" where
  "ParseLeafTimeMode txt =
     (if txt = ''concentrator_stamped'' then Some ConcentratorStamped_mode
      else if txt = ''sync_relative'' then Some SyncRelative_mode
      else if txt = ''boot_relative'' then Some BootRelative_mode
      else if txt = ''unix'' then Some Unix_mode else None)"

definition ParseDefaultTimeMode :: "string \<Rightarrow> LeafTimeMode option option" where
  "ParseDefaultTimeMode txt =
     (if txt = ''auto'' then Some None
      else case ParseLeafTimeMode txt of None \<Rightarrow> None | Some mode \<Rightarrow> Some (Some mode))"

definition ParseLogLevel :: "string \<Rightarrow> LogLevel option" where
  "ParseLogLevel txt =
     (if txt = ''trace'' then Some Log_Trace else if txt = ''debug'' then Some Log_Debug
      else if txt = ''info'' then Some Log_Info else if txt = ''warn'' then Some Log_Warn
      else if txt = ''error'' then Some Log_Error else None)"

text \<open>One leaf of the code's options, merged into the leaves: the first entry of its id, or a new one.\<close>

fun merge_leaf :: "(string \<times> LeafConfig) list \<Rightarrow> string \<times> LeafConfig \<Rightarrow> (string \<times> LeafConfig) list" where
  "merge_leaf [] (lid, leaf) = [(lid, leaf)]"
| "merge_leaf ((lid', leaf') # leaves) (lid, leaf) =
     (if lid' = lid
      then (lid', leaf'\<lparr>lc_resource := MergeResourceAttrs (lc_resource leaf') (lc_resource leaf),
                       lc_time_mode := (if lc_time_mode leaf \<noteq> None then lc_time_mode leaf else lc_time_mode leaf')\<rparr>) # leaves
      else (lid', leaf') # merge_leaf leaves (lid, leaf))"

definition MergeLeafReceiverOptions :: "LeafReceiverOptions \<Rightarrow> LeafReceiverOptions \<Rightarrow> LeafReceiverOptions" where
  "MergeLeafReceiverOptions base opts =
     opts\<lparr>o_leaf_defaults_resource := MergeResourceAttrs (o_leaf_defaults_resource base) (o_leaf_defaults_resource opts),
          o_leaves := foldl merge_leaf (o_leaves base) (o_leaves opts)\<rparr>"

section \<open>Values of variables\<close>

definition GetEnv :: "(string \<Rightarrow> string option) \<Rightarrow> string \<Rightarrow> string" where
  "GetEnv getenv name = (case getenv name of Some val \<Rightarrow> val | None \<Rightarrow> [])"

definition ParseMs :: "string \<Rightarrow> string \<Rightarrow> ConfigError + int" where
  "ParseMs sv var_name =
     (case from_chars True (- (2 ^ 63)) (2 ^ 63 - 1) sv of
        (Some ms, []) \<Rightarrow> Inr ms
      | _ \<Rightarrow> Inl (config_error CE_EnvParseFailure var_name (var_name @ '': expected integer milliseconds'')))"

text \<open>
  \<open>PercentDecode\<close>. \<open>from_chars\<close> in base sixteen takes both digits or fails; the loop copies up to a percent
  sign, which is character by character here.
\<close>

fun env_PercentDecode :: "string \<Rightarrow> string option" where
  "env_PercentDecode [] = Some []"
| "env_PercentDecode (c # cs) =
     (if c \<noteq> CHR ''%'' then map_option ((#) c) (env_PercentDecode cs)
      else (case cs of
              high # low # rest \<Rightarrow>
                if IsHexDigit high \<and> IsHexDigit low
                then map_option ((#) (char_of (16 * bg_HexDigitValue high + bg_HexDigitValue low))) (env_PercentDecode rest)
                else None
            | _ \<Rightarrow> None))"

definition missing_equals :: "string \<Rightarrow> nat \<Rightarrow> ConfigError" where
  "missing_equals var_name entry =
     config_error CE_EnvParseFailure var_name
       (var_name @ '': entry '' @ to_string (int entry) @ '' is not a key=value pair (missing '' @ [CHR 0x27] @ ''='' @ [CHR 0x27] @ '')'')"

definition malformed_escape :: "string \<Rightarrow> string \<Rightarrow> ConfigError" where
  "malformed_escape var_name k =
     config_error CE_EnvParseFailure var_name
       (var_name @ '': malformed percent-escape in the value of '' @ k @ '' (expected %XX, two hex digits)'')"

text \<open>The loop of \<open>ParseKeyValueList\<close>: \<open>entry\<close> counts the members that were taken off.\<close>

function ParseKeyValueList_loop :: "string \<Rightarrow> string \<Rightarrow> nat \<Rightarrow> KeyValue list \<Rightarrow> ConfigError + KeyValue list" where
  "ParseKeyValueList_loop sv var_name entry result =
     (if sv = [] then Inr result
      else
        let (token, sv') = next_member sv
        in if token = [] then ParseKeyValueList_loop sv' var_name (entry + 1) result
           else (case sv_find (CHR ''='') token of
                   None \<Rightarrow> Inl (missing_equals var_name (entry + 1))
                 | Some eq \<Rightarrow>
                     let k = TrimOptionalWhitespace (take eq token)
                     in (case env_PercentDecode (TrimOptionalWhitespace (drop (eq + 1) token)) of
                           None \<Rightarrow> Inl (malformed_escape var_name k)
                         | Some v \<Rightarrow> ParseKeyValueList_loop sv' var_name (entry + 1)
                                      (result @ [\<lparr>kv_key = k, kv_value = AV_string v\<rparr>]))))"
  by pat_completeness auto
termination
  by (relation "measure (\<lambda>(sv, _). length sv)") (auto dest: next_member_lt)

declare ParseKeyValueList_loop.simps [simp del]

definition ParseKeyValueList :: "string \<Rightarrow> string \<Rightarrow> ConfigError + KeyValue list" where
  "ParseKeyValueList sv var_name = ParseKeyValueList_loop sv var_name 0 []"

definition ParseProtocol :: "string \<Rightarrow> ConfigError + Protocol" where
  "ParseProtocol sv =
     (if sv = ''grpc'' then Inr Proto_Grpc
      else if sv = ''http/protobuf'' \<or> sv = ''http'' then Inr Proto_Http
      else Inl (config_error CE_EnvParseFailure ''OTEL_EXPORTER_OTLP_PROTOCOL''
                  (''expected '' @ [CHR 0x22] @ ''grpc'' @ [CHR 0x22] @ '' or '' @ [CHR 0x22] @ ''http/protobuf'' @ [CHR 0x22])))"

definition ParseBool :: "string \<Rightarrow> bool option" where
  "ParseBool v =
     (if v = ''true'' \<or> v = ''1'' then Some True else if v = ''false'' \<or> v = ''0'' then Some False else None)"

definition ParseCount :: "string \<Rightarrow> u32 option" where
  "ParseCount v = (case from_chars_u32 v of (Some n, []) \<Rightarrow> Some (of_int n) | _ \<Rightarrow> None)"

section \<open>Overlays\<close>

type_synonym overlay = "Config \<Rightarrow> ConfigError option \<times> Config"
type_synonym environment = "string \<Rightarrow> string option"

definition quoted :: "string \<Rightarrow> string" where "quoted s = CHR 0x22 # s @ [CHR 0x22]"

definition OverlayTimeout :: "environment \<Rightarrow> overlay" where
  "OverlayTimeout getenv cfg =
     (let v = GetEnv getenv ''OTEL_EXPORTER_OTLP_TIMEOUT''
      in if v = [] then (None, cfg)
         else case ParseMs v ''OTEL_EXPORTER_OTLP_TIMEOUT'' of
                Inl err \<Rightarrow> (Some err, cfg)
              | Inr ms \<Rightarrow> (None, cfg\<lparr>cfg_timeouts := cfg_timeouts cfg\<lparr>to_per_export := ms\<rparr>\<rparr>))"

definition OverlayHeaders :: "environment \<Rightarrow> overlay" where
  "OverlayHeaders getenv cfg =
     (let v = GetEnv getenv ''OTEL_EXPORTER_OTLP_HEADERS''
      in if v = [] then (None, cfg)
         else case ParseKeyValueList v ''OTEL_EXPORTER_OTLP_HEADERS'' of
                Inl err \<Rightarrow> (Some err, cfg)
              | Inr headers \<Rightarrow> (None, cfg\<lparr>cfg_headers := MergeHeaders (cfg_headers cfg) headers\<rparr>))"

definition OverlayProtocol :: "environment \<Rightarrow> overlay" where
  "OverlayProtocol getenv cfg =
     (let v = GetEnv getenv ''OTEL_EXPORTER_OTLP_PROTOCOL''
      in if v = [] then (None, cfg)
         else case ParseProtocol v of
                Inl err \<Rightarrow> (Some err, cfg)
              | Inr proto \<Rightarrow> (None, cfg\<lparr>protocol := proto, protocol_explicit := True\<rparr>))"

definition OverlayMetricInterval :: "environment \<Rightarrow> overlay" where
  "OverlayMetricInterval getenv cfg =
     (let v = GetEnv getenv ''OTEL_METRIC_EXPORT_INTERVAL''
      in if v = [] then (None, cfg)
         else case ParseMs v ''OTEL_METRIC_EXPORT_INTERVAL'' of
                Inl err \<Rightarrow> (Some err, cfg)
              | Inr ms \<Rightarrow> (None, cfg\<lparr>metric_interval := ms\<rparr>))"

definition OverlayMetricTemporality :: "environment \<Rightarrow> overlay" where
  "OverlayMetricTemporality getenv cfg =
     (let v = GetEnv getenv ''OTEL_EXPORTER_OTLP_METRICS_TEMPORALITY_PREFERENCE''
      in if v = [] then (None, cfg)
         else if v = ''cumulative'' then (None, cfg\<lparr>metric_temporality := Prefer_Cumulative\<rparr>)
         else if v = ''delta'' then (None, cfg\<lparr>metric_temporality := Prefer_Delta\<rparr>)
         else if v = ''lowmemory'' then (None, cfg\<lparr>metric_temporality := Prefer_LowMemory\<rparr>)
         else (Some (config_error CE_EnvParseFailure ''OTEL_EXPORTER_OTLP_METRICS_TEMPORALITY_PREFERENCE''
                       (''expected '' @ quoted ''cumulative'' @ '', '' @ quoted ''delta'' @ '', or '' @ quoted ''lowmemory'')), cfg))"

definition OverlayResourceAttrs :: "environment \<Rightarrow> overlay" where
  "OverlayResourceAttrs getenv cfg =
     (let v = GetEnv getenv ''OTEL_RESOURCE_ATTRIBUTES''
      in if v = [] then (None, cfg)
         else case ParseKeyValueList v ''OTEL_RESOURCE_ATTRIBUTES'' of
                Inl err \<Rightarrow> (Some err, cfg)
              | Inr attrs \<Rightarrow> (None, cfg\<lparr>resource_attrs := MergeResourceAttrs (resource_attrs cfg) attrs\<rparr>))"

definition OverlayResourceDetectorsStrict :: "environment \<Rightarrow> overlay" where
  "OverlayResourceDetectorsStrict getenv cfg =
     (let v = GetEnv getenv ''MICROTEL_RESOURCE_DETECTORS_STRICT''
      in if v = [] then (None, cfg)
         else if v = ''true'' \<or> v = ''1'' then (None, cfg\<lparr>resource_detectors_strict := True\<rparr>)
         else if v = ''false'' \<or> v = ''0'' then (None, cfg\<lparr>resource_detectors_strict := False\<rparr>)
         else (Some (config_error CE_EnvParseFailure ''MICROTEL_RESOURCE_DETECTORS_STRICT''
                       (''expected '' @ quoted ''true'' @ ''/'' @ quoted ''1'' @ '' or '' @ quoted ''false'' @ ''/'' @ quoted ''0'')), cfg))"

definition OverlayLogLevel :: "environment \<Rightarrow> overlay" where
  "OverlayLogLevel getenv cfg =
     (let v = GetEnv getenv ''MICROTEL_LOG_LEVEL''
      in if v = [] then (None, cfg)
         else case ParseLogLevel v of
                None \<Rightarrow> (Some (config_error CE_EnvParseFailure ''MICROTEL_LOG_LEVEL''
                                 (''expected '' @ quoted ''trace'' @ '', '' @ quoted ''debug'' @ '', '' @ quoted ''info'' @ '', '' @
                                  quoted ''warn'' @ '' or '' @ quoted ''error'')), cfg)
              | Some lvl \<Rightarrow> (None, cfg\<lparr>cfg_log_level := lvl\<rparr>))"

text \<open>\<open>OverlayParsed\<close>; the reference \<open>out\<close> is the update of the field it names.\<close>

definition OverlayParsed ::
  "environment \<Rightarrow> string \<Rightarrow> (string \<Rightarrow> 'a option) \<Rightarrow> string \<Rightarrow> ('a \<Rightarrow> Config \<Rightarrow> Config) \<Rightarrow> overlay" where
  "OverlayParsed getenv var_name parse expected out cfg =
     (let v = GetEnv getenv var_name
      in if v = [] then (None, cfg)
         else case parse v of
                None \<Rightarrow> (Some (config_error CE_EnvParseFailure var_name (var_name @ '': expected '' @ expected)), cfg)
              | Some x \<Rightarrow> (None, out x cfg))"

text \<open>\<open>if (auto r = f(cfg); !r) return r.error()\<close> before what follows.\<close>

definition or_return :: "overlay \<Rightarrow> overlay \<Rightarrow> overlay" where
  "or_return f g cfg = (case f cfg of (Some err, cfg') \<Rightarrow> (Some err, cfg') | (None, cfg') \<Rightarrow> g cfg')"

definition upd_concentrator :: "(LeafReceiverOptions \<Rightarrow> LeafReceiverOptions) \<Rightarrow> Config \<Rightarrow> Config" where
  "upd_concentrator f cfg = cfg\<lparr>concentrator := f (concentrator cfg)\<rparr>"

definition OverlayConcentratorResource :: "environment \<Rightarrow> overlay" where
  "OverlayConcentratorResource getenv cfg =
     (let v = GetEnv getenv ''MICROTEL_CONCENTRATOR_RESOURCE_ATTRIBUTES''
      in if v = [] then (None, cfg)
         else case ParseKeyValueList v ''MICROTEL_CONCENTRATOR_RESOURCE_ATTRIBUTES'' of
                Inl err \<Rightarrow> (Some err, cfg)
              | Inr attrs \<Rightarrow> (None, upd_concentrator (\<lambda>o'. o'\<lparr>o_leaf_defaults_resource :=
                                       MergeResourceAttrs (o_leaf_defaults_resource o') attrs\<rparr>) cfg))"

definition OverlayConcentratorEnv :: "environment \<Rightarrow> overlay" where
  "OverlayConcentratorEnv getenv =
     or_return (OverlayParsed getenv ''MICROTEL_CONCENTRATOR_ENABLED'' ParseBool
                  (quoted ''true'' @ ''/'' @ quoted ''1'' @ '' or '' @ quoted ''false'' @ ''/'' @ quoted ''0'')
                  (\<lambda>b. upd_concentrator (\<lambda>o'. o'\<lparr>o_enabled := b\<rparr>)))
    (or_return (OverlayParsed getenv ''MICROTEL_CONCENTRATOR_MAX_PAYLOAD_BYTES'' ParseByteSize
                  ''a byte count, optionally with a B, KiB or MiB suffix''
                  (\<lambda>n. upd_concentrator (\<lambda>o'. o'\<lparr>o_max_payload_bytes := n\<rparr>)))
    (or_return (OverlayParsed getenv ''MICROTEL_CONCENTRATOR_MAX_LEAVES'' ParseCount ''a decimal integer''
                  (\<lambda>n. upd_concentrator (\<lambda>o'. o'\<lparr>o_max_leaves := n\<rparr>)))
    (or_return (OverlayParsed getenv ''MICROTEL_CONCENTRATOR_UNKNOWN_LEAF'' ParseUnknownLeafPolicy
                  (quoted ''accept'' @ '' or '' @ quoted ''reject'')
                  (\<lambda>p. upd_concentrator (\<lambda>o'. o'\<lparr>o_unknown_leaf := p\<rparr>)))
    (or_return (OverlayParsed getenv ''MICROTEL_CONCENTRATOR_DEFAULT_TIME_MODE'' ParseDefaultTimeMode
                  (quoted ''auto'' @ '', '' @ quoted ''concentrator_stamped'' @ '', '' @ quoted ''sync_relative'' @ '', '' @
                   quoted ''boot_relative'' @ '' or '' @ quoted ''unix'')
                  (\<lambda>m. upd_concentrator (\<lambda>o'. o'\<lparr>o_default_time_mode := m\<rparr>)))
       (OverlayConcentratorResource getenv)))))"

text \<open>\<open>if (const auto v = GetEnv(name); !v.empty())\<close> and the assignment it guards.\<close>

definition overlay_text :: "environment \<Rightarrow> string \<Rightarrow> (string \<Rightarrow> Config \<Rightarrow> Config) \<Rightarrow> overlay" where
  "overlay_text getenv name assign cfg =
     (None, if GetEnv getenv name = [] then cfg else assign (GetEnv getenv name) cfg)"

definition OverlayExporterEnv :: "environment \<Rightarrow> overlay" where
  "OverlayExporterEnv getenv =
     or_return (overlay_text getenv ''OTEL_EXPORTER_OTLP_ENDPOINT'' (\<lambda>v cfg. cfg\<lparr>endpoint_url := v\<rparr>))
    (or_return (OverlayProtocol getenv)
    (or_return (OverlayHeaders getenv)
    (or_return (OverlayTimeout getenv)
    (or_return (overlay_text getenv ''OTEL_EXPORTER_OTLP_COMPRESSION'' (\<lambda>v cfg. cfg\<lparr>compression_gzip := (v = ''gzip'')\<rparr>))
       (overlay_text getenv ''OTEL_EXPORTER_OTLP_CERTIFICATE'' (\<lambda>v cfg. cfg\<lparr>cfg_tls := cfg_tls cfg\<lparr>tls_ca_bundle := v\<rparr>\<rparr>))))))"

definition OverlayResourceAndMetricEnv :: "environment \<Rightarrow> overlay" where
  "OverlayResourceAndMetricEnv getenv =
     or_return (overlay_text getenv ''OTEL_SERVICE_NAME'' (\<lambda>v cfg. cfg\<lparr>service_name := v\<rparr>))
    (or_return (OverlayResourceAttrs getenv)
    (or_return (OverlayResourceDetectorsStrict getenv)
    (or_return (OverlayMetricInterval getenv)
    (or_return (OverlayMetricTemporality getenv)
       (OverlayLogLevel getenv)))))"

definition OverlayEnv :: "environment \<Rightarrow> overlay" where
  "OverlayEnv getenv =
     or_return (OverlayExporterEnv getenv) (or_return (OverlayResourceAndMetricEnv getenv) (OverlayConcentratorEnv getenv))"

section \<open>Sizes and durations\<close>

lemma SplitNumber_iff:
  "SplitNumber txt = Some n \<longleftrightarrow>
     (\<exists>ds. txt = ds @ num_suffix n \<and> ds \<noteq> [] \<and> list_all is_digit ds \<and> (num_suffix n = [] \<or> \<not> is_digit (hd (num_suffix n))) \<and>
        num_value n = decimal ds \<and> decimal ds < 2 ^ 64)" (is "?lhs \<longleftrightarrow> ?rhs")
proof
  assume ?lhs
  then have "txt = takeWhile is_digit txt @ num_suffix n" "takeWhile is_digit txt \<noteq> []" "num_value n = decimal (takeWhile is_digit txt)"
    "decimal (takeWhile is_digit txt) < 2 ^ 64" "num_suffix n = dropWhile is_digit txt"
    by (auto simp: SplitNumber_def from_chars_def Let_def split: if_splits)
  moreover have "list_all is_digit (takeWhile is_digit txt)" by (auto simp: list_all_iff dest: set_takeWhileD)
  ultimately show ?rhs by (metis hd_dropWhile)
next
  assume ?rhs
  then obtain ds where ds: "txt = ds @ num_suffix n" "ds \<noteq> []" "list_all is_digit ds" "num_suffix n = [] \<or> \<not> is_digit (hd (num_suffix n))"
    "num_value n = decimal ds" "decimal ds < 2 ^ 64" by blast
  have "takeWhile is_digit txt = ds" "dropWhile is_digit txt = num_suffix n"
    using ds(3,4) by (cases "num_suffix n"; auto simp: ds(1) list_all_iff takeWhile_append dropWhile_append)+
  then show ?lhs using ds(2,5,6) by (cases n) (simp add: SplitNumber_def from_chars_def Let_def)
qed

text \<open>What both parsers compute: the number times its unit, when it is at most a bound.\<close>

definition scaled :: "(string \<times> nat) list \<Rightarrow> nat \<Rightarrow> string \<Rightarrow> nat option" where
  "scaled units bound txt =
     (case SplitNumber txt of
        None \<Rightarrow> None
      | Some n \<Rightarrow>
          (case UnitOf (num_suffix n) units of
             None \<Rightarrow> None
           | Some u \<Rightarrow> if num_value n > bound div u then None else Some (num_value n * u)))"

lemma scaled_iff:
  assumes "\<forall>(s, u) \<in> set units. 0 < u \<and> (s = [] \<or> \<not> is_digit (hd s))" "distinct (map fst units)" "bound < 2 ^ 64"
  shows "scaled units bound txt = Some k \<longleftrightarrow>
    (\<exists>ds s u. txt = ds @ s \<and> ds \<noteq> [] \<and> list_all is_digit ds \<and> (s, u) \<in> set units \<and> k = decimal ds * u \<and> k \<le> bound)" (is "?lhs \<longleftrightarrow> ?rhs")
proof
  assume ?lhs
  then obtain n u where n: "SplitNumber txt = Some n" "map_of units (num_suffix n) = Some u" "num_value n \<le> bound div u" "k = num_value n * u"
    by (auto simp: scaled_def UnitOf_def split: option.splits if_splits)
  then have "(num_suffix n, u) \<in> set units" "0 < u" using assms(1) by (auto dest: map_of_SomeD)
  moreover obtain ds where "txt = ds @ num_suffix n" "ds \<noteq> []" "list_all is_digit ds" "num_value n = decimal ds"
    using n(1) by (auto simp: SplitNumber_iff)
  ultimately show ?rhs using n(3,4) less_eq_div_iff_mult_less_eq [of u "num_value n" bound] by metis
next
  assume ?rhs
  then obtain ds s u where w: "txt = ds @ s" "ds \<noteq> []" "list_all is_digit ds" "(s, u) \<in> set units" "k = decimal ds * u" "k \<le> bound" by blast
  then have u: "0 < u" "s = [] \<or> \<not> is_digit (hd s)" using assms(1) by auto
  then have "decimal ds < 2 ^ 64" using w(5,6) assms(3) le_trans [of "decimal ds" k bound] by simp
  then have "SplitNumber txt = Some \<lparr>num_value = decimal ds, num_suffix = s\<rparr>" using w u assms(3) by (auto simp: SplitNumber_iff)
  moreover have "decimal ds \<le> bound div u" using w(5,6) u(1) less_eq_div_iff_mult_less_eq [of u "decimal ds" bound] by simp
  moreover have "map_of units s = Some u" using w(4) assms(2) by simp
  ultimately show ?lhs using w(5) by (simp add: scaled_def UnitOf_def)
qed

lemma ParseDuration_scaled: "ParseDuration txt = map_option int (scaled kDurationUnits (2 ^ 63 - 1) txt)"
  by (simp add: ParseDuration_def scaled_def split: option.split)

lemma ParseByteSize_scaled: "ParseByteSize txt = map_option of_nat (scaled kByteUnits (2 ^ 32 - 1) txt)"
  by (simp add: ParseByteSize_def scaled_def split: option.split)

lemma unit_tables:
  "\<forall>(s, u) \<in> set kDurationUnits. 0 < u \<and> (s = [] \<or> \<not> is_digit (hd s))" "distinct (map fst kDurationUnits)"
  "\<forall>(s, u) \<in> set kByteUnits. 0 < u \<and> (s = [] \<or> \<not> is_digit (hd s))" "distinct (map fst kByteUnits)"
  by (simp_all add: kDurationUnits_def kByteUnits_def is_digit_def)

text \<open>
  The language of the concentrator's durations and byte sizes. A text is accepted exactly when it is
  decimal digits followed by a unit of the table and the product is in the range of the result, which it
  then is: a duration always names its unit, and no accepted value has wrapped around.
\<close>

theorem quantity_language:
  "(ParseDuration txt = Some d \<longleftrightarrow>
      (\<exists>ds s u. txt = ds @ s \<and> ds \<noteq> [] \<and> list_all is_digit ds \<and> (s, u) \<in> {(''s'', 1), (''m'', 60), (''h'', 3600)} \<and>
         d = int (decimal ds * u) \<and> d < 2 ^ 63)) \<and>
   (ParseByteSize txt = Some b \<longleftrightarrow>
      (\<exists>ds s u. txt = ds @ s \<and> ds \<noteq> [] \<and> list_all is_digit ds \<and>
         (s, u) \<in> {([], 1), (''B'', 1), (''KiB'', 1024), (''MiB'', 1048576)} \<and> unat b = decimal ds * u))"
proof
  have "(2 ^ 63 - 1 :: nat) < 2 ^ 64" by simp
  note iff = scaled_iff [OF unit_tables(1,2) this]
  have le: "(k \<le> 2 ^ 63 - 1) \<longleftrightarrow> int k < 2 ^ 63" for k :: nat by auto
  have "ParseDuration txt = Some d \<longleftrightarrow> (\<exists>k. scaled kDurationUnits (2 ^ 63 - 1) txt = Some k \<and> d = int k)"
    by (auto simp: ParseDuration_scaled)
  also have "\<dots> \<longleftrightarrow> (\<exists>ds s u. txt = ds @ s \<and> ds \<noteq> [] \<and> list_all is_digit ds \<and> (s, u) \<in> set kDurationUnits \<and>
      d = int (decimal ds * u) \<and> d < 2 ^ 63)"
    unfolding iff le by blast
  finally show "ParseDuration txt = Some d \<longleftrightarrow>
      (\<exists>ds s u. txt = ds @ s \<and> ds \<noteq> [] \<and> list_all is_digit ds \<and> (s, u) \<in> {(''s'', 1), (''m'', 60), (''h'', 3600)} \<and>
         d = int (decimal ds * u) \<and> d < 2 ^ 63)"
    by (simp only: kDurationUnits_def) simp
next
  have "(2 ^ 32 - 1 :: nat) < 2 ^ 64" by simp
  note iff = scaled_iff [OF unit_tables(3,4) this]
  have word: "(of_nat k = b \<and> k \<le> 2 ^ 32 - 1) \<longleftrightarrow> unat b = k" for k
  proof -
    have "unat b < 2 ^ 32" using unsigned_less [of b] by simp
    then show ?thesis by (auto simp: unat_of_nat take_bit_nat_eq_self_iff)
  qed
  have "ParseByteSize txt = Some b \<longleftrightarrow> (\<exists>k. scaled kByteUnits (2 ^ 32 - 1) txt = Some k \<and> of_nat k = b)"
    by (auto simp: ParseByteSize_scaled)
  also have "\<dots> \<longleftrightarrow> (\<exists>ds s u. txt = ds @ s \<and> ds \<noteq> [] \<and> list_all is_digit ds \<and> (s, u) \<in> set kByteUnits \<and>
      of_nat (decimal ds * u) = b \<and> decimal ds * u \<le> 2 ^ 32 - 1)"
    unfolding iff by blast
  finally show "ParseByteSize txt = Some b \<longleftrightarrow>
      (\<exists>ds s u. txt = ds @ s \<and> ds \<noteq> [] \<and> list_all is_digit ds \<and>
         (s, u) \<in> {([], 1), (''B'', 1), (''KiB'', 1024), (''MiB'', 1048576)} \<and> unat b = decimal ds * u)"
    unfolding word by (simp only: kByteUnits_def) simp
qed

section \<open>Lists of keys and values\<close>

text \<open>The loop is a walk over the trimmed members.\<close>

definition kv_member :: "string \<Rightarrow> nat \<Rightarrow> string \<Rightarrow> ConfigError + KeyValue list" where
  "kv_member var_name entry token =
     (if token = [] then Inr []
      else case sv_find (CHR ''='') token of
             None \<Rightarrow> Inl (missing_equals var_name entry)
           | Some eq \<Rightarrow>
               (case env_PercentDecode (TrimOptionalWhitespace (drop (eq + 1) token)) of
                  None \<Rightarrow> Inl (malformed_escape var_name (TrimOptionalWhitespace (take eq token)))
                | Some v \<Rightarrow> Inr [\<lparr>kv_key = TrimOptionalWhitespace (take eq token), kv_value = AV_string v\<rparr>]))"

fun kv_members :: "string \<Rightarrow> nat \<Rightarrow> string list \<Rightarrow> ConfigError + KeyValue list" where
  "kv_members var_name entry [] = Inr []"
| "kv_members var_name entry (m # ms) =
     (case kv_member var_name (entry + 1) m of
        Inl err \<Rightarrow> Inl err
      | Inr kvs \<Rightarrow> map_sum (\<lambda>e. e) ((@) kvs) (kv_members var_name (entry + 1) ms))"

lemma map_sum_append: "map_sum (\<lambda>e. e) ((@) xs) (map_sum (\<lambda>e. e) ((@) ys) r) = map_sum (\<lambda>e. e) (\<lambda>a. xs @ (ys @ a)) r"
  by (cases r) auto

lemma ParseKeyValueList_loop_eq:
  "ParseKeyValueList_loop sv var_name entry result = map_sum (\<lambda>e. e) ((@) result) (kv_members var_name entry (members sv))"
proof (induction sv var_name entry result rule: ParseKeyValueList_loop.induct)
  case (1 sv var_name entry result)
  show ?case
  proof (cases "sv = []")
    case True
    then show ?thesis by (simp add: ParseKeyValueList_loop.simps)
  next
    case False
    obtain token sv' where nm: "next_member sv = (token, sv')" by fastforce
    note IH = 1 [OF False nm [symmetric] refl]
    show ?thesis
    proof (cases "token = [] \<or> sv_find (CHR ''='') token = None")
      case True
      then show ?thesis using False nm IH(1)
        by (auto simp: ParseKeyValueList_loop.simps [of sv] members_step kv_member_def map_sum_append)
    next
      case found: False
      then obtain eq where eq: "token \<noteq> []" "sv_find (CHR ''='') token = Some eq" by auto
      show ?thesis using False nm IH(2) [OF eq(1) eq(2) refl] eq
        by (auto simp: ParseKeyValueList_loop.simps [of sv] members_step kv_member_def Let_def map_sum_append split: option.split)
    qed
  qed
qed

lemma ParseKeyValueList_members: "ParseKeyValueList sv var_name = kv_members var_name 0 (members sv)"
  by (cases "kv_members var_name 0 (members sv)") (simp_all add: ParseKeyValueList_def ParseKeyValueList_loop_eq)

lemma nibble_nat: "(n::nat) AND 15 = n mod 16" "drop_bit 4 n = n div 16"
proof -
  have "n AND mask 4 = n mod 2 ^ 4" by (simp only: take_bit_eq_mask [symmetric] take_bit_eq_mod)
  then show "n AND 15 = n mod 16" by (simp add: mask_eq_exp_minus_1)
  show "drop_bit 4 n = n div 16" by (simp add: drop_bit_eq_div)
qed

lemma env_PercentDecode_enc_char: "env_PercentDecode (enc_char c @ r) = map_option ((#) c) (env_PercentDecode r)"
proof (cases "NeedsEscape c")
  case True
  have lt: "(of_char c :: nat) < 256" by (rule nat_of_char_less_256)
  then have "(of_char c :: nat) div 16 < 16" by (simp only: div_less_iff_less_mult)
  then have "(of_char c :: nat) div 16 mod 16 = of_char c div 16" by (rule mod_less)
  then have "16 * (drop_bit 4 (of_char c :: nat) AND 15) + (of_char c AND 15) = of_char c" by (simp add: nibble_nat)
  with escape_ok(1,2) [of c] True show ?thesis by (simp add: enc_char_def upper_digit_ok_def)
qed (simp add: enc_char_def NeedsEscape_def)

lemma env_PercentDecode_enc: "env_PercentDecode (enc s) = Some s"
  by (induction s) (simp_all add: enc_def env_PercentDecode_enc_char)

definition all_ows :: "string \<Rightarrow> bool" where "all_ows s \<longleftrightarrow> list_all IsOptionalWhitespace s"

lemma trim_front_pad: "all_ows a \<Longrightarrow> trim_front (a @ s) = trim_front s"
  by (induction a) (auto simp: all_ows_def)

lemma trim_back_pad: "all_ows b \<Longrightarrow> trim_back (s @ b) = trim_back s"
proof (induction b rule: rev_induct)
  case (snoc c b)
  then show ?case by (simp add: all_ows_def trim_back.simps [of "s @ b @ [c]"] butlast_append)
qed simp

lemma trim_back_Cons: "\<not> IsOptionalWhitespace c \<Longrightarrow> trim_back (p @ c # q) = p @ c # trim_back q"
proof (induction q rule: rev_induct)
  case (snoc x q)
  then show ?case
    by (cases "IsOptionalWhitespace x")
      (simp_all add: trim_back.simps [of "p @ c # q @ [x]"] trim_back.simps [of "q @ [x]"] butlast_append)
qed (simp add: trim_back_last)

lemma trim_front_equals: "trim_front (p @ CHR ''='' # q) = trim_front p @ CHR ''='' # q"
  by (induction p) (auto simp: IsOptionalWhitespace_def)

lemma Trim_around_equals:
  "TrimOptionalWhitespace (p @ CHR ''='' # q) = trim_front p @ CHR ''='' # trim_back q"
  by (simp add: TrimOptionalWhitespace_def trim_front_equals trim_back_Cons IsOptionalWhitespace_def)

definition trimmed :: "string \<Rightarrow> bool" where
  "trimmed s \<longleftrightarrow> s = [] \<or> \<not> IsOptionalWhitespace (hd s) \<and> \<not> IsOptionalWhitespace (last s)"

lemma trim_padded:
  assumes "all_ows a" "all_ows b" "trimmed s"
  shows "trim_front (a @ s @ b) = (if s = [] then [] else s @ b)" "trim_back (a @ s @ b) = (if s = [] then [] else a @ s)"
    "TrimOptionalWhitespace (a @ s) = s" "TrimOptionalWhitespace (s @ b) = s"
proof -
  have ws: "trim_front a = []" "trim_back a = []" "trim_front b = []" "trim_back b = []" "trim_back [] = []"
    using trim_front_pad [of _ "[]"] trim_back_pad [of _ "[]"] assms(1,2) by (auto simp: trim_back_last)
  show "trim_front (a @ s @ b) = (if s = [] then [] else s @ b)"
    using assms(1,3) ws(3) by (auto simp: trim_front_pad trimmed_def intro!: trim_front_hd)
  show "trim_back (a @ s @ b) = (if s = [] then [] else a @ s)"
    using trim_back_pad [OF assms(2), of "a @ s"] assms(3) ws(2) by (auto simp: trimmed_def intro!: trim_back_last)
  show "TrimOptionalWhitespace (a @ s) = s"
    using assms(1,3) Trim_id [of s] by (simp add: TrimOptionalWhitespace_def trim_front_pad trimmed_def)
  show "TrimOptionalWhitespace (s @ b) = s"
    using assms(2,3) ws(3,5) trim_back_pad [OF assms(2), of s] trim_front_hd [of "s @ b"] trim_back_last [of s]
    by (cases "s = []") (auto simp: TrimOptionalWhitespace_def trimmed_def)
qed

lemma members_join_trim:
  "\<forall>m \<in> set ms. m \<noteq> [] \<and> CHR '','' \<notin> set m \<Longrightarrow> members (join_on (CHR '','') ms) = map TrimOptionalWhitespace ms"
proof (induction "CHR '',''" ms rule: join_on.induct)
  case (2 m)
  then show ?case by (simp add: members_step next_member_def sv_simps sv_upto_def sv_after_def)
next
  case (3 m m' ms)
  then have "next_member (join_on (CHR '','') (m # m' # ms)) = (TrimOptionalWhitespace m, join_on (CHR '','') (m' # ms))"
    by (simp add: next_member_def sv_simps sv_upto_def sv_after_def)
  with 3 show ?case by (simp add: members_step)
qed simp

text \<open>A member as it may be written: a key and an encoded value, with optional whitespace around each.\<close>

record padded_pair =
  pp_key :: string
  pp_value :: string
  pp_pads :: "string \<times> string \<times> string \<times> string"

definition pair_text :: "padded_pair \<Rightarrow> string" where
  "pair_text p = (case pp_pads p of (a, b, c, d) \<Rightarrow> (a @ pp_key p @ b) @ CHR ''='' # (c @ enc (pp_value p) @ d))"

definition pair_ok :: "padded_pair \<Rightarrow> bool" where
  "pair_ok p \<longleftrightarrow> (case pp_pads p of (a, b, c, d) \<Rightarrow> all_ows a \<and> all_ows b \<and> all_ows c \<and> all_ows d) \<and>
     CHR ''='' \<notin> set (pp_key p) \<and> CHR '','' \<notin> set (pp_key p) \<and> trimmed (pp_key p)"

definition pair_kv :: "padded_pair \<Rightarrow> KeyValue" where
  "pair_kv p = \<lparr>kv_key = pp_key p, kv_value = AV_string (pp_value p)\<rparr>"

lemma all_ows_no: "all_ows s \<Longrightarrow> CHR ''='' \<notin> set s \<and> CHR '','' \<notin> set s"
proof -
  have "\<not> IsOptionalWhitespace (CHR ''='')" "\<not> IsOptionalWhitespace (CHR '','')" by (simp_all add: IsOptionalWhitespace_def)
  then show "all_ows s \<Longrightarrow> ?thesis" by (auto simp only: all_ows_def list_all_iff)
qed

lemma trimmed_enc: "trimmed (enc v)"
  using enc_octets [of v] octet_facts by (metis trimmed_def hd_in_set last_in_set)

lemma enc_no_comma: "CHR '','' \<notin> set (enc v)"
  using enc_octets [of v] octet_facts by blast

lemma kv_member_pair:
  assumes "pair_ok p"
  shows "kv_member var_name entry (TrimOptionalWhitespace (pair_text p)) = Inr [pair_kv p]"
proof -
  obtain a b c d where pads: "pp_pads p = (a, b, c, d)" by (cases "pp_pads p")
  then have ws: "all_ows a" "all_ows b" "all_ows c" "all_ows d" and k: "CHR ''='' \<notin> set (pp_key p)" "trimmed (pp_key p)"
    using assms by (auto simp: pair_ok_def)
  let ?p = "if pp_key p = [] then [] else pp_key p @ b" and ?q = "if enc (pp_value p) = [] then [] else c @ enc (pp_value p)"
  have tok: "TrimOptionalWhitespace (pair_text p) = ?p @ CHR ''='' # ?q"
    unfolding pair_text_def pads prod.case Trim_around_equals
    by (simp only: trim_padded(1) [OF ws(1,2) k(2)] trim_padded(2) [OF ws(3,4) trimmed_enc])
  have "CHR ''='' \<notin> set ?p" using k(1) all_ows_no [OF ws(2)] by auto
  then have found: "sv_find (CHR ''='') (?p @ CHR ''='' # ?q) = Some (length ?p)" by (rule sv_find_append)
  have "TrimOptionalWhitespace ?p = pp_key p" "TrimOptionalWhitespace ?q = enc (pp_value p)"
    using trim_padded(4) [OF ws(1,2) k(2)] trim_padded(3) [OF ws(3,4) trimmed_enc] Trim_id [of "[]"] by auto
  then show ?thesis unfolding tok kv_member_def found by (simp add: env_PercentDecode_enc pair_kv_def)
qed

lemma kv_members_pairs:
  "\<forall>p \<in> set ps. pair_ok p \<Longrightarrow>
   kv_members var_name entry (map (\<lambda>p. TrimOptionalWhitespace (pair_text p)) ps) = Inr (map pair_kv ps)"
  by (induction ps arbitrary: entry) (simp_all add: kv_member_pair)

text \<open>
  C34: the list variables are read back. A list of pairs, each a key and a value percent-encoded as the baggage
  header encodes it, with any spaces and tabs around the keys and the values, is read as exactly these keys
  and values in this order: spaces inside a value survive, those around it do not.
\<close>

theorem key_value_list_roundtrip:
  assumes "\<forall>p \<in> set ps. pair_ok p"
  shows "ParseKeyValueList (join_on (CHR '','') (map pair_text ps)) var_name = Inr (map pair_kv ps)"
proof -
  have "pair_text p \<noteq> [] \<and> CHR '','' \<notin> set (pair_text p)" if "p \<in> set ps" for p
    using assms that all_ows_no enc_no_comma by (fastforce simp: pair_text_def pair_ok_def split: prod.splits)
  then have "members (join_on (CHR '','') (map pair_text ps)) = map (\<lambda>p. TrimOptionalWhitespace (pair_text p)) ps"
    using members_join_trim [of "map pair_text ps"] by simp
  then show ?thesis using assms by (simp add: ParseKeyValueList_members kv_members_pairs)
qed

theorem key_value_list_roundtrip_witness:
  "ParseKeyValueList '' k = a%20b ,l='' ''V'' =
     Inr [\<lparr>kv_key = ''k'', kv_value = AV_string ''a b''\<rparr>, \<lparr>kv_key = ''l'', kv_value = AV_string []\<rparr>]"
proof -
  let ?ps = "[\<lparr>pp_key = ''k'', pp_value = ''a b'', pp_pads = ('' '', '' '', '' '', '' '')\<rparr>, \<lparr>pp_key = ''l'', pp_value = [], pp_pads = ([], [], [], [])\<rparr>]"
  have "\<forall>p \<in> set ?ps. pair_ok p" by (simp add: pair_ok_def all_ows_def trimmed_def IsOptionalWhitespace_def)
  moreover have "join_on (CHR '','') (map pair_text ?ps) = '' k = a%20b ,l=''" by code_simp
  ultimately show ?thesis using key_value_list_roundtrip [of ?ps "''V''"] by (simp add: pair_kv_def)
qed

text \<open>What an error of a list may depend on: of each member whether it is empty, whether it has an equals sign, and then its key
  and whether its value is well-formed.\<close>

datatype member_view = View_Empty | View_No_Equals | View_Pair string bool

definition view :: "string \<Rightarrow> member_view" where
  "view token =
     (if token = [] then View_Empty
      else case sv_find (CHR ''='') token of
             None \<Rightarrow> View_No_Equals
           | Some eq \<Rightarrow> View_Pair (TrimOptionalWhitespace (take eq token))
                         (env_PercentDecode (TrimOptionalWhitespace (drop (eq + 1) token)) \<noteq> None))"

definition failure :: "'e + 'a \<Rightarrow> 'e option" where
  "failure r = (case r of Inl err \<Rightarrow> Some err | Inr _ \<Rightarrow> None)"

lemma kv_member_view: "view m = view m' \<Longrightarrow> failure (kv_member var_name n m) = failure (kv_member var_name n m')"
  by (auto simp: view_def kv_member_def failure_def split: option.splits if_splits)

lemma kv_members_view:
  "map view ms = map view ms' \<Longrightarrow> failure (kv_members var_name n ms) = failure (kv_members var_name n ms')"
proof (induction ms arbitrary: ms' n)
  case (Cons m ms)
  then obtain m' ms'' where ms': "ms' = m' # ms''" "view m = view m'" "map view ms = map view ms''" by auto
  have step: "failure (kv_members var_name n (x # xs)) =
      (case failure (kv_member var_name (n + 1) x) of Some e \<Rightarrow> Some e | None \<Rightarrow> failure (kv_members var_name (n + 1) xs))" for x xs
    by (cases "kv_member var_name (n + 1) x"; cases "kv_members var_name (n + 1) xs") (auto simp: failure_def)
  show ?case unfolding ms'(1) step kv_member_view [OF ms'(2)] Cons.IH [OF ms'(3)] ..
qed simp

text \<open>
  Errors tell nothing about the values, which may be secrets. Two texts of a list variable whose members agree in their keys, in which
  have an equals sign and in which have a well-formed value fail with the same error, or neither fails,
  whatever their values and whatever the members without an equals sign are.
\<close>

theorem key_value_errors_secret:
  assumes "map view (members sv) = map view (members sv')"
  shows "failure (ParseKeyValueList sv var_name) = failure (ParseKeyValueList sv' var_name)"
  unfolding ParseKeyValueList_members by (rule kv_members_view [OF assms])

theorem key_value_errors_secret_witness:
  "failure (ParseKeyValueList ''a=xyz,b=%zz'' ''V'') = failure (ParseKeyValueList ''a=p,b=%1'' ''V'')"
proof (rule key_value_errors_secret)
  show "map view (members ''a=xyz,b=%zz'') = map view (members ''a=p,b=%1'')" by code_simp
qed

section \<open>The overlay as a table of settings\<close>

text \<open>
  A setting is a variable with the reading of its text: an error, or a change of the configuration. The
  overlay of a table goes through it in order, skips the variables that are unset or empty and stops at the first
  error.
\<close>

type_synonym setting = "string \<times> (string \<Rightarrow> ConfigError + (Config \<Rightarrow> Config))"

fun overlay_all :: "environment \<Rightarrow> setting list \<Rightarrow> overlay" where
  "overlay_all getenv [] cfg = (None, cfg)"
| "overlay_all getenv ((name, readf) # settings) cfg =
     (if GetEnv getenv name = [] then overlay_all getenv settings cfg
      else case readf (GetEnv getenv name) of
             Inl err \<Rightarrow> (Some err, cfg)
           | Inr change \<Rightarrow> overlay_all getenv settings (change cfg))"

definition reading :: "(Config \<Rightarrow> 'a \<Rightarrow> Config) \<Rightarrow> ConfigError + 'a \<Rightarrow> ConfigError + (Config \<Rightarrow> Config)" where
  "reading assign r = map_sum (\<lambda>e. e) (\<lambda>x cfg. assign cfg x) r"

definition expecting :: "string \<Rightarrow> string \<Rightarrow> 'a option \<Rightarrow> ConfigError + 'a" where
  "expecting name message r = (case r of None \<Rightarrow> Inl (config_error CE_EnvParseFailure name message) | Some x \<Rightarrow> Inr x)"

definition parse_temporality :: "string \<Rightarrow> TemporalityPreference option" where
  "parse_temporality v = map_of [(''cumulative'', Prefer_Cumulative), (''delta'', Prefer_Delta), (''lowmemory'', Prefer_LowMemory)] v"

definition exporter_settings :: "setting list" where
  "exporter_settings =
     [(''OTEL_EXPORTER_OTLP_ENDPOINT'', \<lambda>v. Inr (\<lambda>cfg. cfg\<lparr>endpoint_url := v\<rparr>)),
      (''OTEL_EXPORTER_OTLP_PROTOCOL'', \<lambda>v. reading (\<lambda>cfg p. cfg\<lparr>protocol := p, protocol_explicit := True\<rparr>) (ParseProtocol v)),
      (''OTEL_EXPORTER_OTLP_HEADERS'', \<lambda>v. reading (\<lambda>cfg hs. cfg\<lparr>cfg_headers := MergeHeaders (cfg_headers cfg) hs\<rparr>)
         (ParseKeyValueList v ''OTEL_EXPORTER_OTLP_HEADERS'')),
      (''OTEL_EXPORTER_OTLP_TIMEOUT'', \<lambda>v. reading (\<lambda>cfg ms. cfg\<lparr>cfg_timeouts := cfg_timeouts cfg\<lparr>to_per_export := ms\<rparr>\<rparr>)
         (ParseMs v ''OTEL_EXPORTER_OTLP_TIMEOUT'')),
      (''OTEL_EXPORTER_OTLP_COMPRESSION'', \<lambda>v. Inr (\<lambda>cfg. cfg\<lparr>compression_gzip := (v = ''gzip'')\<rparr>)),
      (''OTEL_EXPORTER_OTLP_CERTIFICATE'', \<lambda>v. Inr (\<lambda>cfg. cfg\<lparr>cfg_tls := cfg_tls cfg\<lparr>tls_ca_bundle := v\<rparr>\<rparr>))]"

definition resource_and_metric_settings :: "setting list" where
  "resource_and_metric_settings =
     [(''OTEL_SERVICE_NAME'', \<lambda>v. Inr (\<lambda>cfg. cfg\<lparr>service_name := v\<rparr>)),
      (''OTEL_RESOURCE_ATTRIBUTES'', \<lambda>v. reading (\<lambda>cfg kvs. cfg\<lparr>resource_attrs := MergeResourceAttrs (resource_attrs cfg) kvs\<rparr>)
         (ParseKeyValueList v ''OTEL_RESOURCE_ATTRIBUTES'')),
      (''MICROTEL_RESOURCE_DETECTORS_STRICT'', \<lambda>v. reading (\<lambda>cfg b. cfg\<lparr>resource_detectors_strict := b\<rparr>)
         (expecting ''MICROTEL_RESOURCE_DETECTORS_STRICT''
            (''expected '' @ quoted ''true'' @ ''/'' @ quoted ''1'' @ '' or '' @ quoted ''false'' @ ''/'' @ quoted ''0'') (ParseBool v))),
      (''OTEL_METRIC_EXPORT_INTERVAL'', \<lambda>v. reading (\<lambda>cfg ms. cfg\<lparr>metric_interval := ms\<rparr>) (ParseMs v ''OTEL_METRIC_EXPORT_INTERVAL'')),
      (''OTEL_EXPORTER_OTLP_METRICS_TEMPORALITY_PREFERENCE'', \<lambda>v. reading (\<lambda>cfg t. cfg\<lparr>metric_temporality := t\<rparr>)
         (expecting ''OTEL_EXPORTER_OTLP_METRICS_TEMPORALITY_PREFERENCE''
            (''expected '' @ quoted ''cumulative'' @ '', '' @ quoted ''delta'' @ '', or '' @ quoted ''lowmemory'') (parse_temporality v))),
      (''MICROTEL_LOG_LEVEL'', \<lambda>v. reading (\<lambda>cfg l. cfg\<lparr>cfg_log_level := l\<rparr>)
         (expecting ''MICROTEL_LOG_LEVEL''
            (''expected '' @ quoted ''trace'' @ '', '' @ quoted ''debug'' @ '', '' @ quoted ''info'' @ '', '' @
             quoted ''warn'' @ '' or '' @ quoted ''error'') (ParseLogLevel v)))]"

definition conc_reading :: "string \<Rightarrow> string \<Rightarrow> ('a \<Rightarrow> LeafReceiverOptions \<Rightarrow> LeafReceiverOptions) \<Rightarrow> 'a option \<Rightarrow> ConfigError + (Config \<Rightarrow> Config)" where
  "conc_reading name what assign r =
     reading (\<lambda>cfg x. cfg\<lparr>concentrator := assign x (concentrator cfg)\<rparr>) (expecting name (name @ '': expected '' @ what) r)"

definition concentrator_settings :: "setting list" where
  "concentrator_settings =
     [(''MICROTEL_CONCENTRATOR_ENABLED'', \<lambda>v. conc_reading ''MICROTEL_CONCENTRATOR_ENABLED''
         (quoted ''true'' @ ''/'' @ quoted ''1'' @ '' or '' @ quoted ''false'' @ ''/'' @ quoted ''0'') (\<lambda>b o'. o'\<lparr>o_enabled := b\<rparr>) (ParseBool v)),
      (''MICROTEL_CONCENTRATOR_MAX_PAYLOAD_BYTES'', \<lambda>v. conc_reading ''MICROTEL_CONCENTRATOR_MAX_PAYLOAD_BYTES''
         ''a byte count, optionally with a B, KiB or MiB suffix'' (\<lambda>n o'. o'\<lparr>o_max_payload_bytes := n\<rparr>) (ParseByteSize v)),
      (''MICROTEL_CONCENTRATOR_MAX_LEAVES'', \<lambda>v. conc_reading ''MICROTEL_CONCENTRATOR_MAX_LEAVES''
         ''a decimal integer'' (\<lambda>n o'. o'\<lparr>o_max_leaves := n\<rparr>) (ParseCount v)),
      (''MICROTEL_CONCENTRATOR_UNKNOWN_LEAF'', \<lambda>v. conc_reading ''MICROTEL_CONCENTRATOR_UNKNOWN_LEAF''
         (quoted ''accept'' @ '' or '' @ quoted ''reject'') (\<lambda>p o'. o'\<lparr>o_unknown_leaf := p\<rparr>) (ParseUnknownLeafPolicy v)),
      (''MICROTEL_CONCENTRATOR_DEFAULT_TIME_MODE'', \<lambda>v. conc_reading ''MICROTEL_CONCENTRATOR_DEFAULT_TIME_MODE''
         (quoted ''auto'' @ '', '' @ quoted ''concentrator_stamped'' @ '', '' @ quoted ''sync_relative'' @ '', '' @
          quoted ''boot_relative'' @ '' or '' @ quoted ''unix'') (\<lambda>m o'. o'\<lparr>o_default_time_mode := m\<rparr>) (ParseDefaultTimeMode v)),
      (''MICROTEL_CONCENTRATOR_RESOURCE_ATTRIBUTES'', \<lambda>v. reading (\<lambda>cfg kvs. cfg\<lparr>concentrator := (concentrator cfg)\<lparr>o_leaf_defaults_resource :=
             MergeResourceAttrs (o_leaf_defaults_resource (concentrator cfg)) kvs\<rparr>\<rparr>)
         (ParseKeyValueList v ''MICROTEL_CONCENTRATOR_RESOURCE_ATTRIBUTES''))]"

definition env_settings :: "setting list" where
  "env_settings = exporter_settings @ resource_and_metric_settings @ concentrator_settings"

lemma overlay_all_append:
  "overlay_all getenv (ss @ ts) cfg = or_return (overlay_all getenv ss) (overlay_all getenv ts) cfg"
  by (induction getenv ss cfg rule: overlay_all.induct) (auto simp: or_return_def split: sum.split)

lemma overlay_Cons:
  assumes "\<And>c. f c = overlay_all getenv [s] c" "\<And>c. g c = overlay_all getenv ss c"
  shows "or_return f g cfg = overlay_all getenv (s # ss) cfg"
  using overlay_all_append [of getenv "[s]" ss cfg] assms by (cases "f cfg") (auto simp: or_return_def split: option.split)

lemmas overlay_defs = overlay_text_def OverlayProtocol_def OverlayHeaders_def OverlayTimeout_def OverlayResourceAttrs_def
  OverlayResourceDetectorsStrict_def OverlayMetricInterval_def OverlayMetricTemporality_def OverlayLogLevel_def
  OverlayParsed_def OverlayConcentratorResource_def upd_concentrator_def

lemmas setting_defs = reading_def expecting_def conc_reading_def parse_temporality_def ParseBool_def

lemma OverlayExporterEnv_settings: "OverlayExporterEnv getenv cfg = overlay_all getenv exporter_settings cfg"
  unfolding OverlayExporterEnv_def exporter_settings_def
  by (intro overlay_Cons) (simp_all add: overlay_defs setting_defs Let_def split: sum.split)

lemma OverlayResourceAndMetricEnv_settings:
  "OverlayResourceAndMetricEnv getenv cfg = overlay_all getenv resource_and_metric_settings cfg"
  unfolding OverlayResourceAndMetricEnv_def resource_and_metric_settings_def
  by (intro overlay_Cons) (simp_all add: overlay_defs setting_defs Let_def split: sum.split option.split)

lemma OverlayConcentratorEnv_settings: "OverlayConcentratorEnv getenv cfg = overlay_all getenv concentrator_settings cfg"
  unfolding OverlayConcentratorEnv_def concentrator_settings_def
  by (intro overlay_Cons) (simp_all add: overlay_defs setting_defs Let_def split: sum.split option.split)

lemma OverlayEnv_settings: "OverlayEnv getenv cfg = overlay_all getenv env_settings cfg"
proof -
  have "OverlayExporterEnv getenv = overlay_all getenv exporter_settings"
    "OverlayResourceAndMetricEnv getenv = overlay_all getenv resource_and_metric_settings"
    "OverlayConcentratorEnv getenv = overlay_all getenv concentrator_settings"
    by (simp_all add: fun_eq_iff OverlayExporterEnv_settings OverlayResourceAndMetricEnv_settings OverlayConcentratorEnv_settings)
  moreover have "overlay_all getenv (ss @ ts) = or_return (overlay_all getenv ss) (overlay_all getenv ts)" for ss ts
    by (simp add: fun_eq_iff overlay_all_append)
  ultimately show ?thesis by (simp add: OverlayEnv_def env_settings_def)
qed

lemma map_sum_Inl: "map_sum (\<lambda>e. e) g r = Inl err \<longleftrightarrow> r = Inl err"
  and map_sum_Inr: "map_sum (\<lambda>e. e) g r = Inr y \<longleftrightarrow> (\<exists>x. r = Inr x \<and> y = g x)"
  by (cases r; auto)+

text \<open>Every error of a setting names its variable.\<close>

lemma ParseKeyValueList_error:
  "ParseKeyValueList v name = Inl err \<Longrightarrow> ce_kind err = CE_EnvParseFailure \<and> ce_field err = name"
proof -
  have "kv_members name n ms = Inl err \<Longrightarrow> ce_kind err = CE_EnvParseFailure \<and> ce_field err = name" for n ms
    by (induction ms arbitrary: n)
      (auto simp: kv_member_def missing_equals_def malformed_escape_def config_error_def map_sum_def split: sum.splits if_splits option.splits)
  then show "ParseKeyValueList v name = Inl err \<Longrightarrow> ?thesis" by (auto simp: ParseKeyValueList_members)
qed

definition setting_named :: "setting \<Rightarrow> bool" where
  "setting_named s \<longleftrightarrow> (\<forall>v err. snd s v = Inl err \<longrightarrow> ce_kind err = CE_EnvParseFailure \<and> ce_field err = fst s)"

lemma env_settings_named: "\<forall>s \<in> set env_settings. setting_named s"
  unfolding env_settings_def exporter_settings_def resource_and_metric_settings_def concentrator_settings_def
  by (auto simp: setting_named_def setting_defs config_error_def ParseMs_def ParseProtocol_def map_sum_Inl dest: ParseKeyValueList_error
      split: option.splits if_splits prod.splits list.splits)

text \<open>A setting settles when its variable is unset or read without error, and then takes effect.\<close>

definition settles :: "environment \<Rightarrow> setting \<Rightarrow> bool" where
  "settles getenv s \<longleftrightarrow> GetEnv getenv (fst s) = [] \<or> failure (snd s (GetEnv getenv (fst s))) = None"

definition take_effect :: "environment \<Rightarrow> Config \<Rightarrow> setting \<Rightarrow> Config" where
  "take_effect getenv cfg s =
     (if GetEnv getenv (fst s) = [] then cfg
      else case snd s (GetEnv getenv (fst s)) of Inl _ \<Rightarrow> cfg | Inr change \<Rightarrow> change cfg)"

lemma overlay_all_None:
  "overlay_all getenv ss cfg = (None, cfg') \<longleftrightarrow> (\<forall>s \<in> set ss. settles getenv s) \<and> cfg' = foldl (take_effect getenv) cfg ss"
  by (induction getenv ss cfg rule: overlay_all.induct) (auto simp: settles_def take_effect_def failure_def split: sum.split)

lemma overlay_all_step:
  "settles getenv s \<Longrightarrow> overlay_all getenv (s # ss) cfg = overlay_all getenv ss (take_effect getenv cfg s)"
  by (cases s) (auto simp: settles_def take_effect_def failure_def split: sum.splits)

lemma overlay_all_Some:
  "overlay_all getenv ss cfg = (Some err, cfg') \<Longrightarrow>
   \<exists>pre s post. ss = pre @ s # post \<and> (\<forall>s' \<in> set pre. settles getenv s') \<and> GetEnv getenv (fst s) \<noteq> [] \<and>
     snd s (GetEnv getenv (fst s)) = Inl err \<and> cfg' = foldl (take_effect getenv) cfg pre"
proof (induction ss arbitrary: cfg)
  case (Cons s ss)
  show ?case
  proof (cases "settles getenv s")
    case True
    then obtain pre s' post where w: "ss = pre @ s' # post" "\<forall>t \<in> set pre. settles getenv t" "GetEnv getenv (fst s') \<noteq> []"
      "snd s' (GetEnv getenv (fst s')) = Inl err" "cfg' = foldl (take_effect getenv) (take_effect getenv cfg s) pre"
      using Cons.IH [of "take_effect getenv cfg s"] Cons.prems overlay_all_step by metis
    then show ?thesis using True by (intro exI [of _ "s # pre"] exI [of _ s'] exI [of _ post]) simp
  next
    case False
    then show ?thesis using Cons.prems
      by (intro exI [of _ "[]"] exI [of _ s] exI [of _ ss]) (cases s, auto simp: settles_def failure_def split: if_splits sum.splits)
  qed
qed simp

lemma overlay_all_keeps:
  "\<forall>s \<in> set ss. \<forall>v change cfg. snd s v = Inr change \<longrightarrow> h (change cfg) = h cfg \<Longrightarrow> h (snd (overlay_all getenv ss cfg)) = h cfg"
  by (induction getenv ss cfg rule: overlay_all.induct) (auto split: sum.split)

text \<open>
  C35: the overlay of the environment implements the table of settings. It succeeds exactly when every variable that is set can
  be read, and then the configuration has exactly the changes of these variables, made in the order of the table. Otherwise the
  error is that of the first variable in this order that cannot be read, it names that variable, and only the variables
  before it have taken effect.
\<close>

theorem env_overlay_refines:
  assumes "OverlayEnv getenv cfg = (r, cfg')"
  shows "case r of
      None \<Rightarrow> (\<forall>s \<in> set env_settings. settles getenv s) \<and> cfg' = foldl (take_effect getenv) cfg env_settings
    | Some err \<Rightarrow> \<exists>pre s post. env_settings = pre @ s # post \<and> (\<forall>s' \<in> set pre. settles getenv s') \<and>
        GetEnv getenv (fst s) \<noteq> [] \<and> snd s (GetEnv getenv (fst s)) = Inl err \<and>
        ce_kind err = CE_EnvParseFailure \<and> ce_field err = fst s \<and> cfg' = foldl (take_effect getenv) cfg pre"
proof (cases r)
  case None
  then show ?thesis using assms by (simp add: OverlayEnv_settings overlay_all_None)
next
  case (Some err)
  then obtain pre s post where w: "env_settings = pre @ s # post" "\<forall>s' \<in> set pre. settles getenv s'" "GetEnv getenv (fst s) \<noteq> []"
    "snd s (GetEnv getenv (fst s)) = Inl err" "cfg' = foldl (take_effect getenv) cfg pre"
    using assms overlay_all_Some [of getenv env_settings cfg err cfg'] by (auto simp: OverlayEnv_settings)
  have "setting_named s" using env_settings_named w(1) by (metis in_set_conv_decomp)
  then have "ce_kind err = CE_EnvParseFailure \<and> ce_field err = fst s" using w(4) by (simp add: setting_named_def)
  then show ?thesis unfolding Some option.case using w by blast
qed

text \<open>What no variable sets stays as it was, errors or not.\<close>

lemma env_settings_frame:
  "\<forall>s \<in> set env_settings. \<forall>v change cfg. snd s v = Inr change \<longrightarrow>
     cfg_batch (change cfg) = cfg_batch cfg \<and> cfg_span_limits (change cfg) = cfg_span_limits cfg \<and>
     cfg_memory_limits (change cfg) = cfg_memory_limits cfg \<and> endpoint (change cfg) = endpoint cfg \<and>
     service_version (change cfg) = service_version cfg \<and> o_leaves (concentrator (change cfg)) = o_leaves (concentrator cfg)"
  unfolding env_settings_def exporter_settings_def resource_and_metric_settings_def concentrator_settings_def
  by (auto simp: reading_def conc_reading_def map_sum_Inr)

lemma env_overlay_frame:
  assumes "OverlayEnv getenv cfg = (r, cfg')"
  shows "cfg_batch cfg' = cfg_batch cfg \<and> cfg_span_limits cfg' = cfg_span_limits cfg \<and> cfg_memory_limits cfg' = cfg_memory_limits cfg \<and>
   endpoint cfg' = endpoint cfg \<and> service_version cfg' = service_version cfg \<and> o_leaves (concentrator cfg') = o_leaves (concentrator cfg)"
proof -
  let ?h = "\<lambda>c. (cfg_batch c, cfg_span_limits c, cfg_memory_limits c, endpoint c, service_version c, o_leaves (concentrator c))"
  have "cfg' = snd (overlay_all getenv env_settings cfg)" using assms by (metis OverlayEnv_settings snd_conv)
  then show ?thesis using env_settings_frame overlay_all_keeps [of env_settings ?h getenv cfg] by simp
qed

section \<open>Settings made in code\<close>

definition merged_leaf :: "LeafConfig \<Rightarrow> LeafConfig \<Rightarrow> LeafConfig" where
  "merged_leaf base leaf =
     base\<lparr>lc_resource := MergeResourceAttrs (lc_resource base) (lc_resource leaf),
          lc_time_mode := (if lc_time_mode leaf \<noteq> None then lc_time_mode leaf else lc_time_mode base)\<rparr>"

lemma merge_leaf_map:
  "map_of (merge_leaf leaves (lid, leaf)) lid' =
     (if lid' = lid then Some (case map_of leaves lid of None \<Rightarrow> leaf | Some base \<Rightarrow> merged_leaf base leaf) else map_of leaves lid')"
  by (induction leaves "(lid, leaf)" rule: merge_leaf.induct) (auto simp: merged_leaf_def)

lemma foldl_merge_leaf_map:
  "distinct (map fst ls) \<Longrightarrow>
   map_of (foldl merge_leaf leaves ls) lid =
     (case map_of ls lid of
        None \<Rightarrow> map_of leaves lid
      | Some leaf \<Rightarrow> Some (case map_of leaves lid of None \<Rightarrow> leaf | Some base \<Rightarrow> merged_leaf base leaf))"
proof (induction ls arbitrary: leaves)
  case (Cons l ls)
  obtain lid' leaf' where l: "l = (lid', leaf')" by fastforce
  have "map_of ls lid' = None" using Cons.prems l by (simp add: map_of_eq_None_iff)
  then show ?case using Cons l by (auto simp: merge_leaf_map split: option.split)
qed simp

text \<open>
  The options set in code win over the file and the environment, per leaf and per key. Every scalar is
  the one set in code. A leaf that only one side names is as that side has it; one that both name has the time mode
  set in code if there is one, and for every attribute the value set in code if there is one. The same holds of
  the attributes of the fleet.
\<close>

theorem leaf_options_merge:
  assumes "distinct (map fst (o_leaves opts))"
  shows "map_of (o_leaves (MergeLeafReceiverOptions base opts)) lid =
      (case (map_of (o_leaves base) lid, map_of (o_leaves opts) lid) of
         (b, None) \<Rightarrow> b
       | (None, Some c) \<Rightarrow> Some c
       | (Some b, Some c) \<Rightarrow> Some (merged_leaf b c)) \<and>
    resource_map (lc_resource (merged_leaf b c)) = resource_map (lc_resource b) ++ last_map (lc_resource c) \<and>
    lc_time_mode (merged_leaf b c) = (case lc_time_mode c of Some m \<Rightarrow> Some m | None \<Rightarrow> lc_time_mode b) \<and>
    resource_map (o_leaf_defaults_resource (MergeLeafReceiverOptions base opts)) =
      resource_map (o_leaf_defaults_resource base) ++ last_map (o_leaf_defaults_resource opts) \<and>
    (MergeLeafReceiverOptions base opts)\<lparr>o_leaf_defaults_resource := [], o_leaves := []\<rparr> = opts\<lparr>o_leaf_defaults_resource := [], o_leaves := []\<rparr>"
  using foldl_merge_leaf_map [OF assms, of "o_leaves base" lid]
  by (auto simp: MergeLeafReceiverOptions_def merged_leaf_def MergeResourceAttrs_def split: option.split)

text \<open>An environment with a variable that cannot be read after one that can.\<close>

definition sample_environment :: environment where
  "sample_environment = [''OTEL_SERVICE_NAME'' \<mapsto> ''shop'', ''MICROTEL_CONCENTRATOR_MAX_LEAVES'' \<mapsto> ''many'']"

lemma sample_environment_outcome:
  "OverlayEnv sample_environment sample_cfg =
     (Some (config_error CE_EnvParseFailure ''MICROTEL_CONCENTRATOR_MAX_LEAVES'' ''MICROTEL_CONCENTRATOR_MAX_LEAVES: expected a decimal integer''),
      sample_cfg\<lparr>service_name := ''shop''\<rparr>)"
proof -
  have "ParseCount ''many'' = None" by code_simp
  then show ?thesis
    by (simp add: OverlayEnv_settings env_settings_def exporter_settings_def resource_and_metric_settings_def concentrator_settings_def
        sample_environment_def GetEnv_def conc_reading_def reading_def expecting_def)
qed

theorem env_overlay_refines_witness:
  "\<exists>pre s post. env_settings = pre @ s # post \<and> fst s = ''MICROTEL_CONCENTRATOR_MAX_LEAVES'' \<and>
     sample_cfg\<lparr>service_name := ''shop''\<rparr> = foldl (take_effect sample_environment) sample_cfg pre"
  using env_overlay_refines [OF sample_environment_outcome] by (auto simp: config_error_def)

theorem leaf_options_merge_witness:
  "map_of (o_leaves (MergeLeafReceiverOptions (LeafReceiverOptions_default\<lparr>o_leaves := [(''a'', \<lparr>lc_time_mode = Some Unix_mode, lc_resource = []\<rparr>)]\<rparr>)
       (LeafReceiverOptions_default\<lparr>o_leaves := [(''a'', \<lparr>lc_time_mode = None, lc_resource = []\<rparr>)]\<rparr>))) ''a'' =
     Some \<lparr>lc_time_mode = Some Unix_mode, lc_resource = []\<rparr>"
proof -
  have "distinct (map fst (o_leaves (LeafReceiverOptions_default\<lparr>o_leaves := [(''a'', \<lparr>lc_time_mode = None, lc_resource = []\<rparr>)]\<rparr>)))" by simp
  from leaf_options_merge [OF this, of "LeafReceiverOptions_default\<lparr>o_leaves := [(''a'', \<lparr>lc_time_mode = Some Unix_mode, lc_resource = []\<rparr>)]\<rparr>" "''a''"]
  show ?thesis by (simp add: merged_leaf_def MergeResourceAttrs_def Resource_Merge_def)
qed

end
