(* ===== verification/Resource_Builder.thy ===== *)
theory Resource_Builder
  imports Config_Env "HOL-Library.List_Lexorder"
begin

text \<open>
  The composition of the Resource (\<open>src/sdk/resource_builder.cpp\<close>) and the two built-in detectors
  (\<open>src/sdk/resource_detectors.cpp\<close>). A detector runs on a world that is a parameter; for the built-in ones the
  world is a file system, given by what its files read as. The text \<open>std::format\<close> gives for a double is a
  parameter. The lines that are logged are a result, with the level of each, because what they show is part of what is proved.

  Proved here: which layer each key of the Resource comes from and when building fails; that the log line shows no
  value of a secret key, is one line, and never cuts an escape in two; that escaping can be undone; and what the
  detectors read.
\<close>

section \<open>Detectors\<close>

record 'w IResourceDetector =
  det_Name :: string
  det_Detect :: "'w \<Rightarrow> (ConfigError + Resource) \<times> 'w"

text \<open>What successive calls of \<open>read\<close> on a descriptor return before the end of the file.\<close>

datatype read_result = Read_Bytes string | Read_Eintr | Read_Error

record file_system =
  fs_open :: "string \<Rightarrow> read_result list option"
  fs_readlink :: "string \<Rightarrow> string option"
  fs_getpid :: int
  fs_gethostname :: "string option"

fun ReadWholeFile_loop :: "read_result list \<Rightarrow> string \<Rightarrow> string option" where
  "ReadWholeFile_loop [] out = Some out"
| "ReadWholeFile_loop (Read_Eintr # reads) out = ReadWholeFile_loop reads out"
| "ReadWholeFile_loop (Read_Error # reads) out = None"
| "ReadWholeFile_loop (Read_Bytes s # reads) out = (if s = [] then Some out else ReadWholeFile_loop reads (out @ s))"

definition ReadWholeFile :: "file_system \<Rightarrow> string \<Rightarrow> string option" where
  "ReadWholeFile fs path = (case fs_open fs path of None \<Rightarrow> None | Some reads \<Rightarrow> ReadWholeFile_loop reads [])"

text \<open>\<open>std::filesystem::path\<close>: joining with a relative path, and the last component.\<close>

definition path_join :: "string \<Rightarrow> string \<Rightarrow> string" where
  "path_join rootdir p = (if rootdir = [] \<or> last rootdir = CHR ''/'' then rootdir @ p else rootdir @ CHR ''/'' # p)"

definition path_filename :: "string \<Rightarrow> string" where
  "path_filename p = rev (takeWhile (\<lambda>c. c \<noteq> CHR ''/'') (rev p))"

function SplitNulSeparated :: "string \<Rightarrow> string list" where
  "SplitNulSeparated bytes =
     (if bytes = [] then []
      else
        let nul = sv_find (CHR 0x00) bytes;
            piece = sv_upto bytes nul
        in (if piece \<noteq> [] then [piece] else []) @ SplitNulSeparated (sv_after bytes nul))"
  by pat_completeness auto
termination
  by (relation "measure length") (auto intro: sv_after_shorter)

declare SplitNulSeparated.simps [simp del]

definition kSpace :: string where
  "kSpace = [CHR '' '', CHR 0x09, CHR 0x0A, CHR 0x0D, CHR 0x0C, CHR 0x0B]"

definition rd_Trim :: "string \<Rightarrow> string" where
  "rd_Trim s = rev (dropWhile (\<lambda>c. c \<in> set kSpace) (rev (dropWhile (\<lambda>c. c \<in> set kSpace) s)))"

definition AppendExecutable :: "file_system \<Rightarrow> string \<Rightarrow> KeyValue list \<Rightarrow> KeyValue list" where
  "AppendExecutable fs rootdir attrs =
     (case fs_readlink fs (path_join rootdir ''proc/self/exe'') of
        None \<Rightarrow> attrs
      | Some exe \<Rightarrow> attrs @ [\<lparr>kv_key = ''process.executable.path'', kv_value = AV_string exe\<rparr>,
                             \<lparr>kv_key = ''process.executable.name'', kv_value = AV_string (path_filename exe)\<rparr>])"

definition AppendCommand :: "KeyValue list \<Rightarrow> string \<Rightarrow> KeyValue list" where
  "AppendCommand attrs cmdline =
     (case SplitNulSeparated cmdline of
        [] \<Rightarrow> attrs
      | arg # args \<Rightarrow> attrs @ [\<lparr>kv_key = ''process.command'', kv_value = AV_string arg\<rparr>,
                             \<lparr>kv_key = ''process.command_args'', kv_value = AV_strings (arg # args)\<rparr>])"

definition ProcessDetector_Detect :: "string \<Rightarrow> file_system \<Rightarrow> (ConfigError + Resource) \<times> file_system" where
  "ProcessDetector_Detect rootdir fs =
     (case ReadWholeFile fs (path_join rootdir ''proc/self/cmdline'') of
        None \<Rightarrow> (Inl (config_error CE_Unspecified ''resource.detectors.process''
                         (''process detector: cannot read '' @ path_join rootdir ''proc/self/cmdline'' @ '' - is /proc mounted?'')), fs)
      | Some cmdline \<Rightarrow>
          (Inr (AppendCommand
                  (AppendExecutable fs rootdir [\<lparr>kv_key = ''process.pid'', kv_value = AV_int64 (of_int (fs_getpid fs))\<rparr>]) cmdline), fs))"

fun MachineId :: "file_system \<Rightarrow> string \<Rightarrow> string list \<Rightarrow> string" where
  "MachineId fs rootdir [] = []"
| "MachineId fs rootdir (candidate # candidates) =
     (case ReadWholeFile fs (path_join rootdir candidate) of
        None \<Rightarrow> MachineId fs rootdir candidates
      | Some contents \<Rightarrow> if rd_Trim contents \<noteq> [] then rd_Trim contents else MachineId fs rootdir candidates)"

definition HostDetector_Detect :: "string \<Rightarrow> file_system \<Rightarrow> (ConfigError + Resource) \<times> file_system" where
  "HostDetector_Detect rootdir fs =
     (case fs_gethostname fs of
        None \<Rightarrow> (Inl (config_error CE_Unspecified ''resource.detectors.host'' ''host detector: gethostname failed''), fs)
      | Some host \<Rightarrow>
          let ident = MachineId fs rootdir [''etc/machine-id'', ''var/lib/dbus/machine-id'']
          in (Inr ([\<lparr>kv_key = ''host.name'', kv_value = AV_string host\<rparr>] @
                   (if ident \<noteq> [] then [\<lparr>kv_key = ''host.id'', kv_value = AV_string ident\<rparr>] else [])), fs))"

definition MakeProcessDetector :: "string \<Rightarrow> file_system IResourceDetector" where
  "MakeProcessDetector rootdir = \<lparr>det_Name = ''process'', det_Detect = ProcessDetector_Detect rootdir\<rparr>"

definition MakeHostDetector :: "string \<Rightarrow> file_system IResourceDetector" where
  "MakeHostDetector rootdir = \<lparr>det_Name = ''host'', det_Detect = HostDetector_Detect rootdir\<rparr>"

section \<open>Layers\<close>

definition DefaultsLayer :: "Config \<Rightarrow> Resource" where
  "DefaultsLayer cfg =
     (if \<not> service_name_defaulted cfg then []
      else [\<lparr>kv_key = ''service.name'', kv_value = AV_string (service_name cfg)\<rparr>])"

definition ConfigLayer :: "Config \<Rightarrow> Resource" where
  "ConfigLayer cfg =
     (if \<not> service_name_defaulted cfg then [\<lparr>kv_key = ''service.name'', kv_value = AV_string (service_name cfg)\<rparr>] else []) @
     (if service_version cfg \<noteq> [] then [\<lparr>kv_key = ''service.version'', kv_value = AV_string (service_version cfg)\<rparr>] else []) @
     resource_attrs cfg"

definition DescribeFailure :: "string \<Rightarrow> ConfigError \<Rightarrow> string" where
  "DescribeFailure name err = ''resource detector '' @ quoted name @ '' failed: '' @ ce_message err"

section \<open>The log line\<close>

fun level_rank :: "LogLevel \<Rightarrow> nat" where
  "level_rank Log_Trace = 0" | "level_rank Log_Debug = 1" | "level_rank Log_Info = 2" | "level_rank Log_Warn = 3" | "level_rank Log_Error = 4"

type_synonym log = "(LogLevel \<times> string) list"

definition LogImpl :: "LogLevel \<Rightarrow> LogLevel \<Rightarrow> string \<Rightarrow> log \<Rightarrow> log" where
  "LogImpl min_level lvl line lines = (if level_rank lvl < level_rank min_level then lines else lines @ [(lvl, line)])"

definition kRedacted :: string where "kRedacted = ''<redacted>''"
definition kEllipsis :: string where "kEllipsis = ''...''"

definition kSecretKeyFragments :: "string list" where
  "kSecretKeyFragments =
     [''authorization'', ''secret'', ''token'', ''password'', ''passwd'', ''credential'', ''api_key'', ''apikey'']"

definition IsSecretKey :: "string \<Rightarrow> bool" where
  "IsSecretKey k = (let lowered = map tolower k in list_ex (\<lambda>fragment. sv_find_str fragment lowered \<noteq> None) kSecretKeyFragments)"

definition AppendEscaped :: "string \<Rightarrow> char \<Rightarrow> string" where
  "AppendEscaped out c =
     (if c = CHR 0x5C then out @ [CHR 0x5C, CHR 0x5C]
      else if c = CHR 0x22 then out @ [CHR 0x5C, CHR 0x22]
      else if c = CHR 0x0A then out @ [CHR 0x5C, CHR ''n'']
      else if c = CHR 0x0D then out @ [CHR 0x5C, CHR ''r'']
      else if c = CHR 0x09 then out @ [CHR 0x5C, CHR ''t'']
      else
        let byte = (of_char c :: nat)
        in if byte < 0x20 \<or> byte = 0x7F
           then out @ [CHR 0x5C, CHR ''x'', kUpperHexDigits ! (byte div 16), kUpperHexDigits ! (byte mod 16)]
           else out @ [c])"

definition Escape :: "string \<Rightarrow> string" where
  "Escape txt = foldl AppendEscaped [] txt"

function SafeCutPoint_loop :: "string \<Rightarrow> nat \<Rightarrow> nat \<Rightarrow> nat" where
  "SafeCutPoint_loop rendered cap pos =
     (if pos < length rendered
      then
        let rest = drop pos rendered;
            len = (if take 2 rest = [CHR 0x5C, CHR ''x''] then 4 else if take 1 rest = [CHR 0x5C] then 2 else (1::nat))
        in if pos + len > cap then pos else SafeCutPoint_loop rendered cap (pos + len)
      else pos)"
  by pat_completeness auto
termination
  by (relation "measure (\<lambda>(rendered, cap, pos). length rendered - pos)") (auto split: if_splits)

declare SafeCutPoint_loop.simps [simp del]

definition SafeCutPoint :: "string \<Rightarrow> nat \<Rightarrow> nat" where
  "SafeCutPoint rendered cap = SafeCutPoint_loop rendered cap 0"

definition Render_bool :: "bool \<Rightarrow> string" where "Render_bool v = (if v then ''true'' else ''false'')"
definition Render_int64 :: "64 word \<Rightarrow> string" where "Render_int64 v = to_string (sint v)"
definition Render_string :: "string \<Rightarrow> string" where "Render_string v = CHR 0x22 # Escape v @ [CHR 0x22]"

fun Render_list :: "('a \<Rightarrow> string) \<Rightarrow> 'a list \<Rightarrow> string" where
  "Render_list render [] = []"
| "Render_list render [v] = render v"
| "Render_list render (v # vs) = render v @ '', '' @ Render_list render vs"

definition Render :: "(u64 \<Rightarrow> string) \<Rightarrow> AttributeValue \<Rightarrow> string" where
  "Render fmt v =
     (case v of
        AV_bool b \<Rightarrow> Render_bool b
      | AV_int64 i \<Rightarrow> Render_int64 i
      | AV_double d \<Rightarrow> fmt d
      | AV_string s \<Rightarrow> Render_string s
      | AV_bools bs \<Rightarrow> ''['' @ Render_list Render_bool bs @ '']''
      | AV_int64s is \<Rightarrow> ''['' @ Render_list Render_int64 is @ '']''
      | AV_doubles ds \<Rightarrow> ''['' @ Render_list fmt ds @ '']''
      | AV_strings ss \<Rightarrow> ''['' @ Render_list Render_string ss @ '']'')"

definition kMaxLoggedResourceAttributes :: nat where "kMaxLoggedResourceAttributes = 32"
definition kMaxLoggedResourceValueChars :: nat where "kMaxLoggedResourceValueChars = 128"

definition LoggedValue :: "(u64 \<Rightarrow> string) \<Rightarrow> KeyValue \<Rightarrow> string" where
  "LoggedValue fmt kv =
     (if IsSecretKey (kv_key kv) then kRedacted
      else
        let rendered = Render fmt (kv_value kv)
        in if length rendered > kMaxLoggedResourceValueChars
           then take (SafeCutPoint rendered kMaxLoggedResourceValueChars) rendered @ kEllipsis
           else rendered)"

definition logged_pair :: "(u64 \<Rightarrow> string) \<Rightarrow> KeyValue \<Rightarrow> string" where
  "logged_pair fmt kv = Escape (kv_key kv) @ ''='' @ LoggedValue fmt kv"

definition resource_line :: "(u64 \<Rightarrow> string) \<Rightarrow> Resource \<Rightarrow> string \<Rightarrow> string" where
  "resource_line fmt resource profile_name =
     (let sorted_kvs = sort_key kv_key resource;
          shown = min (length sorted_kvs) kMaxLoggedResourceAttributes
      in ''resolved resource ('' @
         (if profile_name \<noteq> [] then ''profile '' @ quoted profile_name @ '', '' else []) @
         to_string (int (length sorted_kvs)) @ '' attributes):'' @
         (if shown = 0 then [] else '' '' @ Render_list (logged_pair fmt) (take shown sorted_kvs)) @
         (if length sorted_kvs > shown
          then '', '' @ kEllipsis @ ''and '' @ to_string (int (length sorted_kvs - shown)) @ '' more'' else []))"

definition LogResolvedResource :: "(u64 \<Rightarrow> string) \<Rightarrow> LogLevel \<Rightarrow> Resource \<Rightarrow> string \<Rightarrow> log \<Rightarrow> log" where
  "LogResolvedResource fmt min_level resource profile_name lines =
     (if level_rank min_level > level_rank Log_Info then lines
      else LogImpl min_level Log_Info (resource_line fmt resource profile_name) lines)"

section \<open>Building\<close>

fun detect_all ::
    "Config \<Rightarrow> LogLevel \<Rightarrow> 'w IResourceDetector list \<Rightarrow> Resource \<Rightarrow> log \<Rightarrow> 'w \<Rightarrow> (ConfigError + Resource) \<times> log \<times> 'w" where
  "detect_all cfg min_level [] detected lines w = (Inr detected, lines, w)"
| "detect_all cfg min_level (d # ds) detected lines w =
     (case det_Detect d w of
        (Inr contribution, w1) \<Rightarrow> detect_all cfg min_level ds (Resource_Merge detected contribution) lines w1
      | (Inl err, w1) \<Rightarrow>
          if resource_detectors_strict cfg
          then (Inl (config_error (ce_kind err) (ce_field err) (DescribeFailure (det_Name d) err)), lines, w1)
          else detect_all cfg min_level ds detected
                 (LogImpl min_level Log_Warn
                    (DescribeFailure (det_Name d) err @
                     '' - skipping its contribution (set sdk.resource_detectors_strict to fail Build instead)'') lines) w1)"

definition BuildResource ::
    "(u64 \<Rightarrow> string) \<Rightarrow> LogLevel \<Rightarrow> Config \<Rightarrow> 'w IResourceDetector list \<Rightarrow> string \<Rightarrow> log \<Rightarrow> 'w \<Rightarrow> (ConfigError + Resource) \<times> log \<times> 'w" where
  "BuildResource fmt min_level cfg detectors profile_name lines w =
     (case detect_all cfg min_level detectors [] lines w of
        (Inl err, lines1, w1) \<Rightarrow> (Inl err, lines1, w1)
      | (Inr detected, lines1, w1) \<Rightarrow>
          let resolved = Resource_Merge (Resource_Merge (DefaultsLayer cfg) detected) (ConfigLayer cfg)
          in (Inr resolved, LogResolvedResource fmt min_level resolved profile_name lines1, w1))"

section \<open>What the detectors read\<close>

lemma ReadWholeFile_loop_iff:
  "\<forall>r \<in> set reads. r \<noteq> Read_Bytes [] \<Longrightarrow>
   ReadWholeFile_loop reads out =
     (if Read_Error \<in> set reads then None else Some (out @ concat (map (\<lambda>r. case r of Read_Bytes s \<Rightarrow> s | _ \<Rightarrow> []) reads)))"
  by (induction reads out rule: ReadWholeFile_loop.induct) auto

lemma SplitNulSeparated_args:
  "\<forall>a \<in> set args. a \<noteq> [] \<and> CHR 0x00 \<notin> set a \<Longrightarrow> SplitNulSeparated (concat (map (\<lambda>a. a @ [CHR 0x00]) args)) = args"
proof (induction args)
  case Nil
  show ?case by (simp add: SplitNulSeparated.simps)
next
  case (Cons a args)
  then have "sv_find (CHR 0x00) (a @ CHR 0x00 # concat (map (\<lambda>a. a @ [CHR 0x00]) args)) = Some (length a)"
    by (intro sv_find_append) simp
  then show ?case using Cons by (subst SplitNulSeparated.simps) (simp add: sv_upto_def sv_after_def Let_def)
qed

section \<open>Layers\<close>

text \<open>The results of all detectors, run one after the other.\<close>

fun detections :: "'w IResourceDetector list \<Rightarrow> 'w \<Rightarrow> (ConfigError + Resource) list \<times> 'w" where
  "detections [] w = ([], w)"
| "detections (d # ds) w =
     (case det_Detect d w of (r, w1) \<Rightarrow> (case detections ds w1 of (rs, w2) \<Rightarrow> (r # rs, w2)))"

definition contributions :: "(ConfigError + Resource) list \<Rightarrow> (string \<rightharpoonup> AttributeValue)" where
  "contributions rs = foldl (\<lambda>m r. case r of Inr c \<Rightarrow> m ++ last_map c | Inl _ \<Rightarrow> m) Map.empty rs"

lemma contributions_from:
  "foldl (\<lambda>m r. case r of Inr c \<Rightarrow> m ++ last_map c | Inl _ \<Rightarrow> m) m rs = m ++ contributions rs"
proof (induction rs arbitrary: m)
  case (Cons r rs)
  show ?case
    using Cons [of "case r of Inr c \<Rightarrow> m ++ last_map c | Inl _ \<Rightarrow> m"] Cons [of "case r of Inr c \<Rightarrow> last_map c | Inl _ \<Rightarrow> Map.empty"]
    by (cases r) (simp_all add: contributions_def)
qed (simp add: contributions_def)

lemma contributions_Cons:
  "contributions (r # rs) = (case r of Inr c \<Rightarrow> last_map c | Inl _ \<Rightarrow> Map.empty) ++ contributions rs"
  using contributions_from [of "case r of Inr c \<Rightarrow> last_map c | Inl _ \<Rightarrow> Map.empty" rs]
  by (cases r) (simp_all add: contributions_def)

lemma detect_all_Inr:
  "detect_all cfg lvl ds acc lines w = (Inr detected, lines', w') \<Longrightarrow>
   (\<exists>rs. detections ds w = (rs, w') \<and> (resource_detectors_strict cfg \<longrightarrow> (\<forall>r \<in> set rs. failure r = None)) \<and>
      resource_map detected = resource_map acc ++ contributions rs \<and> distinct (map kv_key detected) = distinct (map kv_key acc))"
proof (induction ds arbitrary: acc lines w)
  case Nil
  then show ?case by (simp add: contributions_def)
next
  case (Cons d ds)
  obtain r w1 where d: "det_Detect d w = (r, w1)" by fastforce
  show ?case
  proof (cases r)
    case (Inl err)
    then have "\<not> resource_detectors_strict cfg" using Cons.prems d by (auto split: if_splits)
    then show ?thesis using Cons.IH Cons.prems d Inl by (fastforce simp: contributions_Cons)
  next
    case (Inr c)
    then show ?thesis using Cons.IH [of "Resource_Merge acc c" lines w1] Cons.prems d by (auto simp: contributions_Cons failure_def)
  qed
qed

lemma detect_all_Inl:
  "detect_all cfg lvl ds acc lines w = (Inl err, lines', w') \<Longrightarrow>
   resource_detectors_strict cfg \<and>
   (\<exists>pre d post rs w1 e. ds = pre @ d # post \<and> detections pre w = (rs, w1) \<and> (\<forall>r \<in> set rs. failure r = None) \<and>
      det_Detect d w1 = (Inl e, w') \<and> err = config_error (ce_kind e) (ce_field e) (DescribeFailure (det_Name d) e))"
proof (induction ds arbitrary: acc lines w)
  case (Cons d ds)
  obtain r w1 where d: "det_Detect d w = (r, w1)" by fastforce
  show ?case
  proof (cases r)
    case (Inl e)
    show ?thesis
    proof (cases "resource_detectors_strict cfg")
      case True
      then show ?thesis using Cons.prems d Inl
        by (intro conjI exI [of _ "[]"] exI [of _ d] exI [of _ ds] exI [of _ "[]"] exI [of _ w] exI [of _ e]) auto
    next
      case False
      then show ?thesis using Cons.IH Cons.prems d Inl by auto
    qed
  next
    case (Inr c)
    then have "detect_all cfg lvl ds (Resource_Merge acc c) lines w1 = (Inl err, lines', w')" using Cons.prems d by simp
    from Cons.IH [OF this] obtain pre d' post rs w2 e where w: "resource_detectors_strict cfg" "ds = pre @ d' # post" "detections pre w1 = (rs, w2)"
      "\<forall>r \<in> set rs. failure r = None" "det_Detect d' w2 = (Inl e, w')"
      "err = config_error (ce_kind e) (ce_field e) (DescribeFailure (det_Name d') e)" by blast
    then show ?thesis using d Inr
      by (intro conjI exI [of _ "d # pre"] exI [of _ d'] exI [of _ post] exI [of _ "Inr c # rs"] exI [of _ w2] exI [of _ e])
        (auto simp: failure_def)
  qed
qed simp

lemma BuildResource_Inr:
  assumes "BuildResource fmt lvl cfg detectors profile lines w = (Inr resource, lines', w')"
  shows "\<exists>rs. detections detectors w = (rs, w') \<and> (resource_detectors_strict cfg \<longrightarrow> (\<forall>r \<in> set rs. failure r = None)) \<and>
    resource_map resource =
      (if service_name_defaulted cfg then [''service.name'' \<mapsto> AV_string (service_name cfg)] else Map.empty) ++
      contributions rs ++ last_map (ConfigLayer cfg) \<and> distinct (map kv_key resource)"
proof -
  obtain detected lines1 where d: "detect_all cfg lvl detectors [] lines w = (Inr detected, lines1, w')"
    "resource = Resource_Merge (Resource_Merge (DefaultsLayer cfg) detected) (ConfigLayer cfg)"
    using assms by (auto simp: BuildResource_def Let_def split: prod.splits sum.splits)
  note ok = detect_all_Inr [OF d(1)]
  have "last_map detected = resource_map detected" using ok by (intro last_map_distinct) auto
  moreover have "resource_map (DefaultsLayer cfg) =
      (if service_name_defaulted cfg then [''service.name'' \<mapsto> AV_string (service_name cfg)] else Map.empty)"
    "distinct (map kv_key (DefaultsLayer cfg))" by (simp_all add: DefaultsLayer_def)
  ultimately show ?thesis using ok by (auto simp: d(2))
qed

text \<open>
  The layers of the Resource. When building succeeds, every detector ran once, in order; the keys of the
  Resource are distinct, and each has the value of the configuration, the last entry for it there, if there is one,
  else that of the last detector that contributed it, else the default. A failing detector is skipped, or, under the strict
  policy, building fails with the error of the first that fails, which names it, and no later one runs.
\<close>

theorem build_resource_layers:
  assumes "BuildResource fmt lvl cfg detectors profile lines w = (res, lines', w')"
  shows "case res of
      Inr resource \<Rightarrow>
        (\<exists>rs. detections detectors w = (rs, w') \<and> (resource_detectors_strict cfg \<longrightarrow> (\<forall>r \<in> set rs. failure r = None)) \<and>
           resource_map resource =
             (if service_name_defaulted cfg then [''service.name'' \<mapsto> AV_string (service_name cfg)] else Map.empty) ++
             contributions rs ++ last_map (ConfigLayer cfg)) \<and>
        distinct (map kv_key resource)
    | Inl err \<Rightarrow> resource_detectors_strict cfg \<and>
        (\<exists>pre d post rs w1 e. detectors = pre @ d # post \<and> detections pre w = (rs, w1) \<and> (\<forall>r \<in> set rs. failure r = None) \<and>
           det_Detect d w1 = (Inl e, w') \<and> err = config_error (ce_kind e) (ce_field e) (DescribeFailure (det_Name d) e))"
proof (cases res)
  case (Inr resource)
  then show ?thesis using BuildResource_Inr [OF assms [unfolded Inr]] by auto
next
  case (Inl err)
  then obtain lines1 where "detect_all cfg lvl detectors [] lines w = (Inl err, lines1, w')"
    using assms by (auto simp: BuildResource_def Let_def split: prod.splits sum.splits)
  then show ?thesis using detect_all_Inl Inl by (simp only: sum.case)
qed

section \<open>Escaping\<close>

abbreviation esc_char :: "char \<Rightarrow> string" where "esc_char c \<equiv> AppendEscaped [] c"

lemma AppendEscaped_eq: "AppendEscaped out c = out @ esc_char c"
  by (simp add: AppendEscaped_def Let_def)

lemma Escape_concat: "Escape s = concat (map esc_char s)"
proof -
  have "foldl AppendEscaped out s = out @ concat (map esc_char s)" for out
  proof (induction s arbitrary: out)
    case (Cons c s)
    show ?case using Cons [of "AppendEscaped out c"] AppendEscaped_eq [of out c] by simp
  qed simp
  then show ?thesis by (simp add: Escape_def)
qed

fun unescape :: "string \<Rightarrow> string" where
  "unescape [] = []"
| "unescape (c # cs) =
     (if c \<noteq> CHR 0x5C then c # unescape cs
      else (case cs of
              [] \<Rightarrow> []
            | e # rest \<Rightarrow>
                if e = CHR ''x''
                then (case rest of
                        h # l # rest' \<Rightarrow> char_of (16 * bg_HexDigitValue h + bg_HexDigitValue l) # unescape rest'
                      | _ \<Rightarrow> [])
                else (if e = CHR ''n'' then CHR 0x0A else if e = CHR ''r'' then CHR 0x0D else if e = CHR ''t'' then CHR 0x09 else e)
                       # unescape rest))"

lemma escape_digits:
  assumes "(of_char c :: nat) < 0x20 \<or> (of_char c :: nat) = 0x7F"
  shows "upper_digit_ok (of_char c div 16)" "upper_digit_ok (of_char c mod 16)"
  using assms by (auto intro!: upper_digit_ok)

lemma unescape_esc_char: "unescape (esc_char c @ r) = c # unescape r"
proof (cases "((of_char c :: nat) < 0x20 \<or> (of_char c :: nat) = 0x7F) \<and> c \<notin> {CHR 0x5C, CHR 0x22, CHR 0x0A, CHR 0x0D, CHR 0x09}")
  case True
  then have "bg_HexDigitValue (kUpperHexDigits ! (of_char c div 16)) = of_char c div 16"
    "bg_HexDigitValue (kUpperHexDigits ! (of_char c mod 16)) = of_char c mod 16"
    using escape_digits [of c] by (auto simp: upper_digit_ok_def)
  moreover have "char_of (16 * ((of_char c :: nat) div 16) + of_char c mod 16) = c" by (simp add: mult_div_mod_eq)
  ultimately show ?thesis using True by (simp add: AppendEscaped_def Let_def)
qed (auto simp: AppendEscaped_def Let_def)

lemma unescape_Escape: "unescape (Escape s) = s"
  unfolding Escape_concat by (induction s) (simp_all add: unescape_esc_char)

definition printable :: "char \<Rightarrow> bool" where
  "printable c \<longleftrightarrow> 0x20 \<le> (of_char c :: nat) \<and> (of_char c :: nat) \<noteq> 0x7F"

lemma octet_printable: "IsBaggageOctet c \<Longrightarrow> printable c"
  by (auto simp: IsBaggageOctet_def printable_def Let_def split: if_splits)

lemma esc_char_printable: "list_all printable (esc_char c)"
proof (cases "(of_char c :: nat) < 0x20 \<or> (of_char c :: nat) = 0x7F")
  case True
  then have "printable (kUpperHexDigits ! (of_char c div 16))" "printable (kUpperHexDigits ! (of_char c mod 16))"
    using escape_digits [of c] by (auto simp: upper_digit_ok_def intro!: octet_printable)
  moreover have "printable (CHR 0x5C)" "printable (CHR ''x'')" "printable (CHR ''n'')" "printable (CHR ''r'')" "printable (CHR ''t'')" "printable (CHR 0x22)"
    by (simp_all add: printable_def)
  ultimately show ?thesis using True by (auto simp: AppendEscaped_def Let_def)
qed (auto simp: AppendEscaped_def Let_def printable_def)

lemma Escape_printable: "list_all printable (Escape s)"
  unfolding Escape_concat by (induction s) (auto simp: esc_char_printable)

section \<open>The cut\<close>

text \<open>What the loop advances over in one turn: a plain character or a whole escape.\<close>

definition is_unit :: "string \<Rightarrow> bool" where
  "is_unit t \<longleftrightarrow> (\<exists>c. t = [c] \<and> c \<noteq> CHR 0x5C) \<or> (\<exists>c. t = [CHR 0x5C, c] \<and> c \<noteq> CHR ''x'') \<or> (\<exists>a b. t = [CHR 0x5C, CHR ''x'', a, b])"

lemma esc_char_unit: "is_unit (esc_char c)"
  by (auto simp: is_unit_def AppendEscaped_def Let_def)

lemma SafeCutPoint_step:
  assumes "is_unit t"
  shows "SafeCutPoint_loop (pre @ t @ post) cap (length pre) =
    (if length (pre @ t) > cap then length pre else SafeCutPoint_loop (pre @ t @ post) cap (length (pre @ t)))"
  using assms by (subst SafeCutPoint_loop.simps) (auto simp: is_unit_def Let_def eval_nat_numeral)

lemma SafeCutPoint_units:
  "\<forall>t \<in> set ts. is_unit t \<Longrightarrow> length pre \<le> cap \<Longrightarrow>
   \<exists>k \<le> length ts. SafeCutPoint_loop (pre @ concat ts) cap (length pre) = length (pre @ concat (take k ts)) \<and>
     length (pre @ concat (take k ts)) \<le> cap \<and> (k < length ts \<longrightarrow> cap < length (pre @ concat (take (Suc k) ts)))"
proof (induction ts arbitrary: pre)
  case Nil
  then show ?case by (simp add: SafeCutPoint_loop.simps)
next
  case (Cons t ts)
  show ?case
  proof (cases "length (pre @ t) > cap")
    case True
    then show ?thesis using Cons.prems SafeCutPoint_step [of t pre "concat ts" cap] by (intro exI [of _ 0]) simp
  next
    case False
    then obtain k where "k \<le> length ts" "SafeCutPoint_loop ((pre @ t) @ concat ts) cap (length (pre @ t)) = length ((pre @ t) @ concat (take k ts))"
      "length ((pre @ t) @ concat (take k ts)) \<le> cap" "k < length ts \<longrightarrow> cap < length ((pre @ t) @ concat (take (Suc k) ts))"
      using Cons.IH [of "pre @ t"] Cons.prems by auto
    then show ?thesis using False Cons.prems SafeCutPoint_step [of t pre "concat ts" cap] by (intro exI [of _ "Suc k"]) simp
  qed
qed

text \<open>
  A string that is too long for the log line is cut after the longest beginning that fits, never inside an escape: what is shown is the
  escaped form of a beginning of the string.
\<close>

lemma logged_string:
  assumes "\<not> IsSecretKey k" "kMaxLoggedResourceValueChars < length (Render_string s)"
  shows "\<exists>n \<le> length s. LoggedValue fmt \<lparr>kv_key = k, kv_value = AV_string s\<rparr> = CHR 0x22 # Escape (take n s) @ kEllipsis \<and>
    1 + length (Escape (take n s)) \<le> kMaxLoggedResourceValueChars \<and>
    (n < length s \<longrightarrow> kMaxLoggedResourceValueChars < 1 + length (Escape (take (Suc n) s)))"
proof -
  let ?ts = "[CHR 0x22] # map esc_char s @ [[CHR 0x22]]" and ?cap = kMaxLoggedResourceValueChars
  have rendered: "Render_string s = concat ?ts" by (simp add: Render_string_def Escape_concat)
  have units: "\<forall>t \<in> set ?ts. is_unit t" using esc_char_unit by (auto simp: is_unit_def)
  then obtain j where j: "j \<le> length ?ts" "SafeCutPoint (Render_string s) ?cap = length (concat (take j ?ts))" "length (concat (take j ?ts)) \<le> ?cap"
    "j < length ?ts \<longrightarrow> ?cap < length (concat (take (Suc j) ?ts))"
    using SafeCutPoint_units [of ?ts "[]" ?cap] unfolding SafeCutPoint_def rendered by auto
  have "j \<noteq> length ?ts" using j(3) assms(2) rendered by auto
  moreover have "j \<noteq> 0" using j(4) by (cases "j = 0") (simp_all add: kMaxLoggedResourceValueChars_def)
  ultimately obtain n where n: "j = Suc n" "n \<le> length s" using j(1) by (cases j) auto
  have part: "concat (take (Suc m) ?ts) = CHR 0x22 # Escape (take m s)" if "m \<le> length s" for m
    using that by (simp add: Escape_concat take_map)
  have "take (length (concat (take j ?ts))) (Render_string s) = concat (take j ?ts)"
    unfolding rendered by (metis append_eq_conv_conj append_take_drop_id concat_append)
  then have "LoggedValue fmt \<lparr>kv_key = k, kv_value = AV_string s\<rparr> = CHR 0x22 # Escape (take n s) @ kEllipsis"
    using assms j(2) part [OF n(2)] by (simp add: LoggedValue_def Render_def n(1))
  then show ?thesis using j(3,4) n part [of n] part [of "Suc n"] by (intro exI [of _ n]) auto
qed

section \<open>The log line\<close>

lemma list_all_take: "list_all P xs \<Longrightarrow> list_all P (take n xs)"
  by (auto simp: list_all_iff dest: in_set_takeD)

lemma to_string_printable: "list_all printable (to_string i)"
proof -
  have "printable c" if "is_digit c" for c using that by (auto simp: is_digit_def printable_def)
  then show ?thesis using nat_string_decimal by (auto simp: to_string_def list_all_iff printable_def)
qed

lemma Render_list_printable: "\<forall>v. list_all printable (render v) \<Longrightarrow> list_all printable (Render_list render vs)"
  by (induction render vs rule: Render_list.induct) (auto simp: printable_def)

lemma Render_printable: "\<forall>d. list_all printable (fmt d) \<Longrightarrow> list_all printable (Render fmt v)"
proof -
  assume fmt: "\<forall>d. list_all printable (fmt d)"
  have *: "list_all printable (Render_bool b)" "list_all printable (Render_int64 i)" "list_all printable (Render_string s)" for b i s
    using to_string_printable Escape_printable [of s] by (auto simp: Render_bool_def Render_int64_def Render_string_def printable_def)
  have "printable (CHR ''['')" "printable (CHR '']'')" by (simp_all add: printable_def)
  then show ?thesis using fmt * by (cases v) (auto simp: Render_def intro!: Render_list_printable)
qed

lemma logged_pair_printable:
  assumes "\<forall>d. list_all printable (fmt d)"
  shows "list_all printable (logged_pair fmt kv)"
proof -
  have "list_all printable kRedacted" "list_all printable kEllipsis" "printable (CHR ''='')"
    by (simp_all add: kRedacted_def kEllipsis_def printable_def)
  then have "list_all printable (LoggedValue fmt kv)"
    using Render_printable [OF assms] by (auto simp: LoggedValue_def Let_def intro!: list_all_take)
  then show ?thesis using Escape_printable \<open>printable (CHR ''='')\<close> by (simp add: logged_pair_def)
qed

text \<open>
  The log line of the resolved Resource is one line. Whatever bytes the keys and the values have, it has no control
  character, provided that the profile's name has none and a formatted double has none.
\<close>

theorem resource_line_printable:
  assumes "\<forall>d. list_all printable (fmt d)" "list_all printable profile"
  shows "list_all printable (resource_line fmt resource profile)"
proof -
  have "list_all printable (Render_list (logged_pair fmt) kvs)" for kvs using logged_pair_printable [OF assms(1)] by (intro Render_list_printable) blast
  moreover have "list_all printable ''resolved resource (''" "list_all printable ''profile ''" "list_all printable '', ''"
    "list_all printable '' attributes):''" "list_all printable '' ''" "list_all printable kEllipsis" "list_all printable ''and ''"
    "list_all printable '' more''" "printable (CHR 0x22)"
    by (simp_all add: printable_def kEllipsis_def)
  ultimately show ?thesis
    unfolding resource_line_def Let_def quoted_def using assms(2) to_string_printable by simp
qed

text \<open>Sorting by a key acts alike on lists that agree on the keys.\<close>

lemma insort_key_list_all2:
  assumes "\<And>x y. R x y \<Longrightarrow> k x = k y"
  shows "list_all2 R xs ys \<Longrightarrow> R x y \<Longrightarrow> list_all2 R (insort_key k x xs) (insort_key k y ys)"
proof (induction xs ys rule: list_all2_induct)
  case (Cons a xs b ys)
  then show ?case using assms [OF Cons.hyps(1)] assms [OF Cons.prems] by auto
qed simp

lemma sort_key_list_all2:
  assumes "\<And>x y. R x y \<Longrightarrow> k x = k y"
  shows "list_all2 R xs ys \<Longrightarrow> list_all2 R (sort_key k xs) (sort_key k ys)"
proof (induction xs ys rule: list_all2_induct)
  case (Cons a xs b ys)
  then show ?case using insort_key_list_all2 [OF assms] by simp
qed simp

lemma Render_list_map: "map render vs = map render vs' \<Longrightarrow> Render_list render vs = Render_list render vs'"
proof (induction render vs arbitrary: vs' rule: Render_list.induct)
  case (3 render v v2 vs)
  then obtain u u2 us where "vs' = u # u2 # us" by (auto simp: Cons_eq_map_conv)
  then show ?case using 3 by simp
qed (auto simp: Cons_eq_map_conv map_eq_Cons_conv)

text \<open>
  The log line keeps secrets. Two Resources with the same keys, and with the same values wherever the key does not look
  like that of a secret, are logged as the same line.
\<close>

theorem resource_line_redacts:
  assumes "list_all2 (\<lambda>kv kv'. kv_key kv = kv_key kv' \<and> (IsSecretKey (kv_key kv) \<or> kv_value kv = kv_value kv')) resource resource'"
  shows "resource_line fmt resource profile = resource_line fmt resource' profile"
proof -
  let ?R = "\<lambda>kv kv'. kv_key kv = kv_key kv' \<and> (IsSecretKey (kv_key kv) \<or> kv_value kv = kv_value kv')"
  have sorted: "list_all2 ?R (sort_key kv_key resource) (sort_key kv_key resource')"
    using assms by (rule sort_key_list_all2 [rotated]) simp
  have pair: "?R kv kv' \<Longrightarrow> logged_pair fmt kv = logged_pair fmt kv'" for kv kv'
    by (auto simp: logged_pair_def LoggedValue_def)
  have "map (logged_pair fmt) (take n (sort_key kv_key resource)) = map (logged_pair fmt) (take n (sort_key kv_key resource'))" for n
    using list_all2_takeI [OF sorted, of n] by (induction rule: list_all2_induct) (auto intro: pair)
  then have "Render_list (logged_pair fmt) (take n (sort_key kv_key resource)) = Render_list (logged_pair fmt) (take n (sort_key kv_key resource'))" for n
    by (rule Render_list_map)
  note shown = this
  have len: "length resource = length resource'" using assms by (rule list_all2_lengthD)
  show ?thesis by (simp only: resource_line_def Let_def length_sort shown len)
qed

section \<open>Samples\<close>

definition failing_detector :: "unit IResourceDetector" where
  "failing_detector = \<lparr>det_Name = ''cloud'', det_Detect = (\<lambda>w. (Inl (config_error CE_Unspecified ''x'' ''no metadata''), w))\<rparr>"

definition naming_detector :: "unit IResourceDetector" where
  "naming_detector = \<lparr>det_Name = ''site'', det_Detect = (\<lambda>w. (Inr [\<lparr>kv_key = ''service.name'', kv_value = AV_string ''found''\<rparr>], w))\<rparr>"

theorem build_resource_layers_witness:
  "\<exists>resource lines. BuildResource (\<lambda>_. []) Log_Error (sample_cfg\<lparr>service_name := ''unknown_service'', service_name_defaulted := True\<rparr>)
       [failing_detector, naming_detector] [] [] () = (Inr resource, lines, ()) \<and>
     resource_map resource ''service.name'' = Some (AV_string ''found'')"
proof -
  let ?cfg = "sample_cfg\<lparr>service_name := ''unknown_service'', service_name_defaulted := True\<rparr>"
  obtain resource lines where run: "BuildResource (\<lambda>_. []) Log_Error ?cfg [failing_detector, naming_detector] [] [] () = (Inr resource, lines, ())"
    by (simp add: BuildResource_def failing_detector_def naming_detector_def sample_cfg_def Let_def)
  have "resource_map resource = [''service.name'' \<mapsto> AV_string ''unknown_service''] ++ [''service.name'' \<mapsto> AV_string ''found''] ++ Map.empty"
    using build_resource_layers [OF run]
    by (simp add: failing_detector_def naming_detector_def contributions_def ConfigLayer_def sample_cfg_def last_map_def)
  then show ?thesis using run by auto
qed

theorem resource_line_printable_witness:
  "list_all printable (resource_line (\<lambda>_. ''1.5'') [\<lparr>kv_key = [CHR 0x0A], kv_value = AV_string [CHR 0x00, CHR 0x22]\<rparr>] ''default'')"
  by (rule resource_line_printable) (simp_all add: printable_def)

theorem resource_line_redacts_witness:
  "resource_line (\<lambda>_. []) [\<lparr>kv_key = ''API_Token'', kv_value = AV_string ''abc''\<rparr>] ''p'' =
   resource_line (\<lambda>_. []) [\<lparr>kv_key = ''API_Token'', kv_value = AV_string ''xyz''\<rparr>] ''p''"
proof (rule resource_line_redacts)
  have "IsSecretKey ''API_Token''" by code_simp
  then show "list_all2 (\<lambda>kv kv'. kv_key kv = kv_key kv' \<and> (IsSecretKey (kv_key kv) \<or> kv_value kv = kv_value kv'))
      [\<lparr>kv_key = ''API_Token'', kv_value = AV_string ''abc''\<rparr>] [\<lparr>kv_key = ''API_Token'', kv_value = AV_string ''xyz''\<rparr>]" by simp
qed

end
