(* ===== verification/Sdk_Builder.thy ===== *)
theory Sdk_Builder
  imports Resource_Builder Export_Transport Provider_Registry
begin

text \<open>
  \<open>SdkBuilder\<close> (\<open>src/sdk/sdk_builder.cpp\<close>): the settings made in code, the resolution of the configuration from file,
  environment and code, and \<open>Build\<close> up to the provider that it registers. What \<open>Build\<close> makes is modelled as the
  arguments its parts are constructed with: the configurations of codecs and exporters, the Resource and the rest of \<open>SdkProviderArgs\<close>.
  The loader of TOML files, the environment, the file system, the detectors and the creation of the
  HTTP/2 transport are parameters; so are the two compile-time options. Auth callback and application transport are
  opaque values, of which only the presence matters here.

  What is proved about it is in \<open>Sdk_Build\<close>.
\<close>

section \<open>Settings made in code\<close>

record ExportTransportOptions =
  xo_traces :: bool
  xo_metrics :: bool
  xo_logs :: bool
  xo_max_request_bytes :: u32

record ('a, 'x, 'w) SdkBuilder =
  bd_file_path :: "string option"
  bd_endpoint :: "string option"
  bd_protocol :: "Protocol option"
  bd_compression_gzip :: "bool option"
  bd_headers :: "KeyValue list option"
  bd_service_name :: "string option"
  bd_service_version :: "string option"
  bd_resource_attrs :: "KeyValue list option"
  bd_resource_detectors :: "'w IResourceDetector list"
  bd_sampler :: "sampler option"
  bd_batch :: "BatchOptions option"
  bd_span_limits :: "SpanLimitOptions option"
  bd_memory_limits :: "MemoryLimitOptions option"
  bd_timeouts :: "TimeoutOptions option"
  bd_tls :: "TlsOptions option"
  bd_auth_cb :: "'a option"
  bd_auth_cache_ttl :: int
  bd_metric_interval :: "int option"
  bd_metric_temporality :: "TemporalityPreference option"
  bd_metric_limits :: "nat option"
  bd_views :: "ViewConfig list"
  bd_profile_name :: "string option"
  bd_leaf_receiver :: "LeafReceiverOptions option"
  bd_export_transport :: "'x option"
  bd_export_transport_opts :: "ExportTransportOptions option"
  bd_consumed :: bool

definition SdkBuilder_new :: "('a, 'x, 'w) SdkBuilder" where
  "SdkBuilder_new =
     \<lparr>bd_file_path = None, bd_endpoint = None, bd_protocol = None, bd_compression_gzip = None, bd_headers = None, bd_service_name = None,
      bd_service_version = None, bd_resource_attrs = None, bd_resource_detectors = [], bd_sampler = Some AlwaysOnSampler, bd_batch = None,
      bd_span_limits = None, bd_memory_limits = None, bd_timeouts = None, bd_tls = None, bd_auth_cb = None, bd_auth_cache_ttl = 60 * 1000,
      bd_metric_interval = None, bd_metric_temporality = None, bd_metric_limits = None, bd_views = [], bd_profile_name = None,
      bd_leaf_receiver = None, bd_export_transport = None, bd_export_transport_opts = None, bd_consumed = False\<rparr>"

type_synonym ('a, 'x, 'w) setter = "('a, 'x, 'w) SdkBuilder \<Rightarrow> ('a, 'x, 'w) SdkBuilder"

definition FromFile :: "string \<Rightarrow> ('a, 'x, 'w) setter" where "FromFile path b = b\<lparr>bd_file_path := Some path\<rparr>"
definition WithEndpoint :: "string \<Rightarrow> ('a, 'x, 'w) setter" where "WithEndpoint ep b = b\<lparr>bd_endpoint := Some ep\<rparr>"
definition WithProtocol :: "Protocol \<Rightarrow> ('a, 'x, 'w) setter" where "WithProtocol p b = b\<lparr>bd_protocol := Some p\<rparr>"
definition WithCompressionGzip :: "bool \<Rightarrow> ('a, 'x, 'w) setter" where "WithCompressionGzip on b = b\<lparr>bd_compression_gzip := Some on\<rparr>"
definition WithHeaders :: "KeyValue list \<Rightarrow> ('a, 'x, 'w) setter" where "WithHeaders hs b = b\<lparr>bd_headers := Some hs\<rparr>"
definition WithServiceName :: "string \<Rightarrow> ('a, 'x, 'w) setter" where "WithServiceName nm b = b\<lparr>bd_service_name := Some nm\<rparr>"
definition WithServiceVersion :: "string \<Rightarrow> ('a, 'x, 'w) setter" where "WithServiceVersion v b = b\<lparr>bd_service_version := Some v\<rparr>"
definition WithResource :: "KeyValue list \<Rightarrow> ('a, 'x, 'w) setter" where "WithResource attrs b = b\<lparr>bd_resource_attrs := Some attrs\<rparr>"
definition WithProfileName :: "string \<Rightarrow> ('a, 'x, 'w) setter" where "WithProfileName nm b = b\<lparr>bd_profile_name := Some nm\<rparr>"
definition WithSampler :: "sampler option \<Rightarrow> ('a, 'x, 'w) setter" where "WithSampler s b = b\<lparr>bd_sampler := s\<rparr>"
definition WithBatch :: "BatchOptions \<Rightarrow> ('a, 'x, 'w) setter" where "WithBatch opts b = b\<lparr>bd_batch := Some opts\<rparr>"
definition WithSpanLimits :: "SpanLimitOptions \<Rightarrow> ('a, 'x, 'w) setter" where "WithSpanLimits opts b = b\<lparr>bd_span_limits := Some opts\<rparr>"
definition WithMemoryLimits :: "MemoryLimitOptions \<Rightarrow> ('a, 'x, 'w) setter" where "WithMemoryLimits opts b = b\<lparr>bd_memory_limits := Some opts\<rparr>"
definition WithTimeouts :: "TimeoutOptions \<Rightarrow> ('a, 'x, 'w) setter" where "WithTimeouts opts b = b\<lparr>bd_timeouts := Some opts\<rparr>"
definition WithTls :: "TlsOptions \<Rightarrow> ('a, 'x, 'w) setter" where "WithTls opts b = b\<lparr>bd_tls := Some opts\<rparr>"
definition WithMetricInterval :: "int \<Rightarrow> ('a, 'x, 'w) setter" where "WithMetricInterval i b = b\<lparr>bd_metric_interval := Some i\<rparr>"
definition WithMetricTemporality :: "TemporalityPreference \<Rightarrow> ('a, 'x, 'w) setter" where "WithMetricTemporality p b = b\<lparr>bd_metric_temporality := Some p\<rparr>"
definition WithMetricLimits :: "nat \<Rightarrow> ('a, 'x, 'w) setter" where "WithMetricLimits cap b = b\<lparr>bd_metric_limits := Some cap\<rparr>"
definition WithView :: "ViewConfig \<Rightarrow> ('a, 'x, 'w) setter" where "WithView v b = b\<lparr>bd_views := bd_views b @ [v]\<rparr>"
definition WithLeafReceiver :: "LeafReceiverOptions \<Rightarrow> ('a, 'x, 'w) setter" where "WithLeafReceiver opts b = b\<lparr>bd_leaf_receiver := Some opts\<rparr>"

definition WithResourceDetector :: "'w IResourceDetector option \<Rightarrow> ('a, 'x, 'w) setter" where
  "WithResourceDetector d b =
     (case d of None \<Rightarrow> b | Some detector \<Rightarrow> b\<lparr>bd_resource_detectors := bd_resource_detectors b @ [detector]\<rparr>)"

definition WithAuthProvider :: "'a \<Rightarrow> int \<Rightarrow> ('a, 'x, 'w) setter" where
  "WithAuthProvider cb ttl b = b\<lparr>bd_auth_cb := Some cb, bd_auth_cache_ttl := ttl\<rparr>"

definition WithExportTransport :: "'x option \<Rightarrow> ExportTransportOptions \<Rightarrow> ('a, 'x, 'w) setter" where
  "WithExportTransport x opts b = b\<lparr>bd_export_transport := x, bd_export_transport_opts := Some opts\<rparr>"

section \<open>The configuration\<close>

definition TlsOptions_default :: TlsOptions where
  "TlsOptions_default = \<lparr>tls_insecure = False, tls_ca_bundle = [], tls_client_cert = [], tls_client_key = [], tls_sni_override = []\<rparr>"

definition TimeoutOptions_default :: TimeoutOptions where
  "TimeoutOptions_default =
     \<lparr>to_connect = 10000, to_tls_handshake = 10000, to_per_export = 10000, to_retry_budget = 60000, to_flush = 5000, to_shutdown = 5000\<rparr>"

definition MemoryLimitOptions_default :: MemoryLimitOptions where
  "MemoryLimitOptions_default =
     \<lparr>ml_max_total_queue_bytes = 16 * 1024 * 1024, ml_max_record_bytes = 64 * 1024, ml_max_response_bytes = 1024 * 1024,
      ml_max_trailer_bytes = 64 * 1024, ml_max_decompressed_bytes = 4 * 1024 * 1024\<rparr>"

definition Config_default :: Config where
  "Config_default =
     \<lparr>unknown_key_mode = Unknown_Error, unknown_keys_warned = [], endpoint_url = [],
      endpoint = \<lparr>ep_scheme = [], ep_host = [], ep_port = 0, ep_path = []\<rparr>, protocol = Proto_Http, protocol_explicit = False,
      compression_gzip = False, cfg_headers = [], service_name = [], service_version = [], resource_attrs = [],
      service_name_defaulted = False, resource_detectors_strict = False, cfg_tls = TlsOptions_default, cfg_batch = BatchOptions_default,
      cfg_timeouts = TimeoutOptions_default, cfg_span_limits = SpanLimitOptions_default, cfg_memory_limits = MemoryLimitOptions_default,
      metric_interval = 60000, metric_temporality = Prefer_Cumulative, cfg_log_level = Log_Info,
      concentrator = LeafReceiverOptions_default\<lparr>o_enabled := False\<rparr>\<rparr>"

definition kCustomTransportPlaceholderEndpoint :: string where
  "kCustomTransportPlaceholderEndpoint = ''https://localhost:4318''"

definition TlsConfigured :: "TlsOptions \<Rightarrow> bool" where
  "TlsConfigured tls \<longleftrightarrow> tls_insecure tls \<or> tls_ca_bundle tls \<noteq> [] \<or> tls_client_cert tls \<noteq> [] \<or> tls_client_key tls \<noteq> [] \<or> tls_sni_override tls \<noteq> []"

definition DropExporterSettings :: "Config \<Rightarrow> string list \<times> Config" where
  "DropExporterSettings cfg =
     (map snd (filter fst [(endpoint_url cfg \<noteq> [], ''endpoint''), (protocol_explicit cfg, ''protocol''), (cfg_headers cfg \<noteq> [], ''headers''),
         (compression_gzip cfg, ''compression''), (TlsConfigured (cfg_tls cfg), ''tls'')]),
      cfg\<lparr>endpoint_url := kCustomTransportPlaceholderEndpoint, protocol := protocol Config_default, protocol_explicit := False, cfg_headers := [],
          compression_gzip := False, cfg_tls := TlsOptions_default\<rparr>)"

definition kExportTransportField :: string where "kExportTransportField = ''exporter.transport''"

definition CheckExportTransport :: "('a, 'x, 'w) SdkBuilder \<Rightarrow> ConfigError option" where
  "CheckExportTransport b =
     (if bd_export_transport_opts b = None then None
      else if bd_export_transport b = None
      then Some (config_error CE_InvalidValue kExportTransportField ''WithExportTransport needs a non-null ExportTransport'')
      else case filter fst [(bd_endpoint b \<noteq> None, ''WithEndpoint''), (bd_protocol b \<noteq> None, ''WithProtocol''), (bd_headers b \<noteq> None, ''WithHeaders''),
                  (bd_tls b \<noteq> None, ''WithTls''), (bd_auth_cb b \<noteq> None, ''WithAuthProvider''), (bd_compression_gzip b \<noteq> None, ''WithCompressionGzip'')] of
             [] \<Rightarrow> None
           | (_, name) # _ \<Rightarrow> Some (config_error CE_InvalidValue kExportTransportField
               (name @ '' has no meaning with WithExportTransport, which replaces the HTTP/2 exporter; set one or the other'')))"

text \<open>\<open>if (x) cfg.field = *x;\<close>\<close>

definition override :: "'v option \<Rightarrow> ('v \<Rightarrow> Config \<Rightarrow> Config) \<Rightarrow> Config \<Rightarrow> Config" where
  "override v assign cfg = (case v of None \<Rightarrow> cfg | Some x \<Rightarrow> assign x cfg)"

definition ApplyExporterOverrides :: "('a, 'x, 'w) SdkBuilder \<Rightarrow> Config \<Rightarrow> Config" where
  "ApplyExporterOverrides b cfg =
     override (bd_metric_temporality b) (\<lambda>v c. c\<lparr>metric_temporality := v\<rparr>)
    (override (bd_metric_interval b) (\<lambda>v c. c\<lparr>metric_interval := v\<rparr>)
    (override (bd_tls b) (\<lambda>v c. c\<lparr>cfg_tls := v\<rparr>)
    (override (bd_headers b) (\<lambda>v c. c\<lparr>cfg_headers := MergeHeaders (cfg_headers c) v\<rparr>)
    (override (bd_compression_gzip b) (\<lambda>v c. c\<lparr>compression_gzip := v\<rparr>)
    (override (bd_protocol b) (\<lambda>v c. c\<lparr>protocol := v, protocol_explicit := True\<rparr>)
    (override (bd_endpoint b) (\<lambda>v c. c\<lparr>endpoint_url := v\<rparr>) cfg))))))"

definition ApplyResourceOverrides :: "('a, 'x, 'w) SdkBuilder \<Rightarrow> Config \<Rightarrow> Config" where
  "ApplyResourceOverrides b cfg =
     override (bd_timeouts b) (\<lambda>v c. c\<lparr>cfg_timeouts := v\<rparr>)
    (override (bd_memory_limits b) (\<lambda>v c. c\<lparr>cfg_memory_limits := v\<rparr>)
    (override (bd_span_limits b) (\<lambda>v c. c\<lparr>cfg_span_limits := v\<rparr>)
    (override (bd_batch b) (\<lambda>v c. c\<lparr>cfg_batch := v\<rparr>)
    (override (bd_resource_attrs b) (\<lambda>v c. c\<lparr>resource_attrs := MergeResourceAttrs (resource_attrs c) v\<rparr>)
    (override (bd_service_version b) (\<lambda>v c. c\<lparr>service_version := v\<rparr>)
    (override (bd_service_name b) (\<lambda>v c. c\<lparr>service_name := v\<rparr>) cfg))))))"

text \<open>What \<open>Build\<close> reads of its surroundings.\<close>

record build_env =
  be_load_toml :: "string \<Rightarrow> ConfigError + Config"
  be_getenv :: environment
  be_regular_file :: "string \<Rightarrow> bool"
  be_forbid_insecure :: bool
  be_with_concentrator :: bool
  be_format_double :: "u64 \<Rightarrow> string"
  be_create_transport :: "string option"

definition file_config :: "build_env \<Rightarrow> ('a, 'x, 'w) SdkBuilder \<Rightarrow> ConfigError + Config" where
  "file_config env b = (case bd_file_path b of None \<Rightarrow> Inr Config_default | Some path \<Rightarrow> be_load_toml env path)"

text \<open>\<open>LoadConfig\<close>: the configuration or the error, and the names of the settings that were ignored.\<close>

definition LoadConfig :: "build_env \<Rightarrow> ('a, 'x, 'w) SdkBuilder \<Rightarrow> (ConfigError + Config) \<times> string list" where
  "LoadConfig env b =
     (case file_config env b of
        Inl err \<Rightarrow> (Inl err, [])
      | Inr cfg0 \<Rightarrow>
          (case OverlayEnv (be_getenv env) cfg0 of
             (Some err, cfg1) \<Rightarrow> (Inl err, [])
           | (None, cfg1) \<Rightarrow>
               let (ignored, cfg2) = (if bd_export_transport_opts b \<noteq> None then DropExporterSettings cfg1 else ([], cfg1));
                   cfg3 = ApplyResourceOverrides b (ApplyExporterOverrides b cfg2);
                   cfg4 = (case bd_leaf_receiver b of
                             None \<Rightarrow> cfg3
                           | Some opts \<Rightarrow> cfg3\<lparr>concentrator := MergeLeafReceiverOptions (concentrator cfg3) opts\<rparr>)
               in case Validate (be_regular_file env) (be_forbid_insecure env) cfg4 of
                    (Some err, cfg5) \<Rightarrow> (Inl err, ignored)
                  | (None, cfg5) \<Rightarrow>
                      (case if bd_auth_cb b \<noteq> None then CheckNoStaticAuthorization (cfg_headers cfg5) else None of
                         Some err \<Rightarrow> (Inl err, ignored)
                       | None \<Rightarrow> (Inr cfg5, ignored))))"

section \<open>Warnings\<close>

definition WarnOnUnknownKeys :: "LogLevel \<Rightarrow> Config \<Rightarrow> log \<Rightarrow> log" where
  "WarnOnUnknownKeys min_level cfg lines =
     foldl (\<lambda>ls k. LogImpl min_level Log_Warn
              (''unknown configuration key '' @ quoted k @ '' ignored ([config] unknown_keys = '' @ quoted ''warn'' @ '')'') ls) lines (unknown_keys_warned cfg)"

definition WarnOnRiskyConfig :: "LogLevel \<Rightarrow> Config \<Rightarrow> log \<Rightarrow> log" where
  "WarnOnRiskyConfig min_level cfg lines =
     (let lines1 =
            (if protocol cfg = Proto_Http \<and> ep_scheme (endpoint cfg) = ''http''
             then LogImpl min_level Log_Warn
                    (''plaintext OTLP/HTTP (http:// with protocol=http) is HTTP/2 with prior knowledge '' @
                     ''and cannot reach an HTTP/1.1-only OTLP receiver such as a stock OpenTelemetry '' @
                     ''Collector - use https:// or OTLP/gRPC; see docs/compatibility-matrix.md'') lines
             else lines)
      in if tls_insecure (cfg_tls cfg)
         then LogImpl min_level Log_Warn
                (''tls.insecure = true - TLS certificate verification is '' @
                 ''disabled and any certificate will be accepted, including an attacker'' @ [CHR 0x27] @ ''s. '' @
                 ''Not for production; see docs/compatibility-matrix.md'') lines1
         else lines1)"

definition WarnOnCustomTransport :: "LogLevel \<Rightarrow> string list \<Rightarrow> ExportTransportOptions \<Rightarrow> log \<Rightarrow> log" where
  "WarnOnCustomTransport min_level ignored opts lines =
     (let lines1 =
            (if ignored = [] then lines
             else LogImpl min_level Log_Warn
                    (''export transport: exporter settings from the environment or file are ignored with a custom transport: '' @
                     Render_list (\<lambda>name. name) ignored) lines)
      in if \<not> xo_traces opts
         then LogImpl min_level Log_Warn
                (''export transport: traces are off in ExportTransportOptions; the '' @
                 ''sampler is always-off and no span is recorded'') lines1
         else lines1)"

section \<open>Codecs and exporters\<close>

text \<open>\<open>std::stoull\<close> in base ten: the value and how much was read; \<open>None\<close> when it throws. A minus sign negates modulo \<open>2 ^ 64\<close>.\<close>

definition stoull :: "string \<Rightarrow> (nat \<times> nat) option" where
  "stoull s =
     (let blanks = takeWhile (\<lambda>c. c \<in> set kSpace) s;
          rest = dropWhile (\<lambda>c. c \<in> set kSpace) s;
          signed = rest \<noteq> [] \<and> (hd rest = CHR ''-'' \<or> hd rest = CHR ''+'');
          digits = takeWhile is_digit (if signed then tl rest else rest);
          v = decimal digits
      in if digits = [] \<or> v \<ge> 2 ^ 64 then None
         else Some (if signed \<and> hd rest = CHR ''-'' then (2 ^ 64 - v) mod 2 ^ 64 else v,
                    length blanks + (if signed then 1 else 0) + length digits))"

definition ParseEnvCardinality :: "environment \<Rightarrow> nat option" where
  "ParseEnvCardinality getenv =
     (case getenv ''MICROTEL_METRIC_CARDINALITY_LIMIT'' of
        None \<Rightarrow> None
      | Some str \<Rightarrow>
          (case stoull str of
             None \<Rightarrow> None
           | Some (val, pos) \<Rightarrow> if pos \<noteq> length str \<or> val = 0 then None else Some val))"

definition kDefaultMaxCardinality :: nat where "kDefaultMaxCardinality = 2000"

definition ResolveMaxCardinality :: "environment \<Rightarrow> nat option \<Rightarrow> nat" where
  "ResolveMaxCardinality getenv explicit_limits =
     (case explicit_limits of
        Some cap \<Rightarrow> cap
      | None \<Rightarrow> (case ParseEnvCardinality getenv of Some cap \<Rightarrow> cap | None \<Rightarrow> kDefaultMaxCardinality))"

record ConnectOptions =
  co_endpoint :: string
  co_protocol :: Protocol
  co_connect_timeout :: int
  co_tls_handshake_timeout :: int
  co_insecure :: bool
  co_ca_bundle :: string
  co_client_cert :: string
  co_client_key :: string
  co_sni_override :: string
  co_max_concurrent_streams :: u32
  co_initial_window_size :: u32
  co_max_response_bytes :: u32
  co_max_trailer_bytes :: u32
  co_max_pending_requests :: u32

definition BuildConnectOptions :: "Config \<Rightarrow> ConnectOptions" where
  "BuildConnectOptions cfg =
     \<lparr>co_endpoint = ep_scheme (endpoint cfg) @ ''://'' @ ep_host (endpoint cfg) @ '':'' @ to_string (int (ep_port (endpoint cfg))),
      co_protocol = protocol cfg, co_connect_timeout = to_connect (cfg_timeouts cfg), co_tls_handshake_timeout = to_tls_handshake (cfg_timeouts cfg),
      co_insecure = tls_insecure (cfg_tls cfg), co_ca_bundle = tls_ca_bundle (cfg_tls cfg), co_client_cert = tls_client_cert (cfg_tls cfg),
      co_client_key = tls_client_key (cfg_tls cfg), co_sni_override = tls_sni_override (cfg_tls cfg),
      co_max_concurrent_streams = 100, co_initial_window_size = 2 ^ 20, co_max_response_bytes = ml_max_response_bytes (cfg_memory_limits cfg),
      co_max_trailer_bytes = ml_max_trailer_bytes (cfg_memory_limits cfg), co_max_pending_requests = 64\<rparr>"

fun ToHeaderFields :: "KeyValue list \<Rightarrow> HeaderField list" where
  "ToHeaderFields [] = []"
| "ToHeaderFields (kv # kvs) =
     (case kv_value kv of
        AV_string s \<Rightarrow> \<lparr>hf_name = kv_key kv, hf_value = s\<rparr> # ToHeaderFields kvs
      | _ \<Rightarrow> ToHeaderFields kvs)"

datatype built_codec =
    Built_Http HttpWireCodecConfig ConnectOptions
  | Built_Grpc GrpcWireCodecConfig ConnectOptions
  | Built_Custom ExportTransportCodec

definition BuildWireCodec :: "Config \<Rightarrow> HeaderField list \<Rightarrow> string \<Rightarrow> built_codec" where
  "BuildWireCodec cfg extra_headers signal_path =
     (let host_port = ep_host (endpoint cfg) @ '':'' @ to_string (int (ep_port (endpoint cfg)))
      in if protocol cfg = Proto_Grpc
         then Built_Grpc \<lparr>gc_host = host_port, gc_scheme = ep_scheme (endpoint cfg), gc_extra_headers = extra_headers, gc_service_path = signal_path,
                gc_compression_gzip = compression_gzip cfg, gc_max_decompressed_bytes = ml_max_decompressed_bytes (cfg_memory_limits cfg)\<rparr>
                (BuildConnectOptions cfg)
         else Built_Http \<lparr>hc_host = host_port, hc_scheme = ep_scheme (endpoint cfg), hc_path = ep_path (endpoint cfg), hc_signal_path = signal_path,
                hc_extra_headers = extra_headers, hc_compression_gzip = compression_gzip cfg,
                hc_max_decompressed_bytes = ml_max_decompressed_bytes (cfg_memory_limits cfg)\<rparr> (BuildConnectOptions cfg))"

definition BuildViewRegistry :: "ViewConfig list \<Rightarrow> ViewRegistry" where
  "BuildViewRegistry views = foldl (\<lambda>reg v. ViewRegistry_Add v reg) \<lparr>m_views = []\<rparr> views"

definition SharedRetryPolicy :: "Config \<Rightarrow> RetryPolicyConfig" where
  "SharedRetryPolicy cfg = RetryPolicyConfig_default\<lparr>retry_budget := to_retry_budget (cfg_timeouts cfg)\<rparr>"

definition QueuedSpanBudget :: "nat \<Rightarrow> nat" where "QueuedSpanBudget n = 256 * n mod 2 ^ 64"

definition TraceExporterConfig :: "Config \<Rightarrow> OtlpExporterConfig" where
  "TraceExporterConfig cfg =
     (let queued_spans = QueuedSpanBudget (max_export_batch_size (cfg_batch cfg))
      in \<lparr>ec_max_queue_size = queued_spans, ec_max_queued_spans = queued_spans, ec_export_deadline = to_per_export (cfg_timeouts cfg),
          ec_retry_policy = SharedRetryPolicy cfg, ec_max_spans_per_request = max_export_batch_size (cfg_batch cfg), ec_max_request_bytes = 0\<rparr>)"

definition plain_exporter_config :: "Config \<Rightarrow> PlainExporterConfig" where
  "plain_exporter_config cfg =
     \<lparr>pc_max_queue_size = 256, pc_export_deadline = to_per_export (cfg_timeouts cfg), pc_retry_policy = SharedRetryPolicy cfg\<rparr>"

text \<open>The exporters of the three signals with their codecs, and whether a shutdown that times out cancels the channel.\<close>

record ExporterPack =
  xp_codec :: built_codec
  xp_exporter :: OtlpExporterConfig
  xp_metric :: "(built_codec \<times> PlainExporterConfig) option"
  xp_log :: "(built_codec \<times> PlainExporterConfig) option"
  xp_cancels :: bool

definition BuildExporters :: "Config \<Rightarrow> ExporterPack" where
  "BuildExporters cfg =
     (let hs = ToHeaderFields (cfg_headers cfg); grpc = (protocol cfg = Proto_Grpc)
      in \<lparr>xp_codec = BuildWireCodec cfg hs [], xp_exporter = TraceExporterConfig cfg,
          xp_metric = Some (BuildWireCodec cfg hs (if grpc then ''/opentelemetry.proto.collector.metrics.v1.MetricsService/Export'' else ''/v1/metrics''),
            plain_exporter_config cfg),
          xp_log = Some (BuildWireCodec cfg hs (if grpc then ''/opentelemetry.proto.collector.logs.v1.LogsService/Export'' else ''/v1/logs''),
            plain_exporter_config cfg),
          xp_cancels = False\<rparr>)"

definition custom_codec_config :: "ExportSignal \<Rightarrow> u32 \<Rightarrow> built_codec" where
  "custom_codec_config sig cap = Built_Custom \<lparr>cc_signal = sig, cc_max_request_bytes = cap, cc_last_oversize_warn = None\<rparr>"

definition BuildCustomExporters :: "ExportTransportOptions \<Rightarrow> Config \<Rightarrow> ExporterPack" where
  "BuildCustomExporters opts cfg =
     \<lparr>xp_codec = custom_codec_config Signal_Traces (xo_max_request_bytes opts),
      xp_exporter = (TraceExporterConfig cfg)\<lparr>ec_max_request_bytes := unat (xo_max_request_bytes opts)\<rparr>,
      xp_metric = (if xo_metrics opts then Some (custom_codec_config Signal_Metrics 0, plain_exporter_config cfg) else None),
      xp_log = (if xo_logs opts then Some (custom_codec_config Signal_Logs 0, plain_exporter_config cfg) else None),
      xp_cancels = True\<rparr>"

definition CheckLeafReceiver :: "bool \<Rightarrow> LeafReceiverOptions \<Rightarrow> ConfigError option" where
  "CheckLeafReceiver with_concentrator opts =
     (if \<not> o_enabled opts then None
      else if with_concentrator then (case ValidateLeafReceiverOptions opts of Inl err \<Rightarrow> Some err | Inr _ \<Rightarrow> None)
      else Some (config_error CE_InvalidValue ''concentrator.enabled''
                   ''the leaf receiver is not compiled into this build of microtel; rebuild with -DMICROTEL_WITH_CONCENTRATOR=ON''))"

section \<open>Profiles\<close>

definition kProfileNameField :: string where "kProfileNameField = ''profile_name''"
definition kDefaultProfileName :: string where "kDefaultProfileName = ''default''"

definition DuplicateProfileNameError :: "string \<Rightarrow> ConfigError" where
  "DuplicateProfileNameError name =
     config_error CE_DuplicateProfileName kProfileNameField
       (''a live provider is already registered under profile name '' @ [CHR 0x27] @ name @ [CHR 0x27] @
        ''; shutting a provider down does not release its name, destroying it does'')"

definition ResolveProfileName :: "string option \<Rightarrow> Registry \<Rightarrow> ConfigError + string" where
  "ResolveProfileName configured g =
     (let name = (case configured of Some nm \<Rightarrow> nm | None \<Rightarrow> kDefaultProfileName)
      in if name = []
         then Inl (config_error CE_InvalidValue kProfileNameField
                     ''profile name must not be empty; omit WithProfileName to build the default profile'')
         else if FindProvider name g \<noteq> None then Inl (DuplicateProfileNameError name)
         else Inr name)"

definition RegistrationError :: "RegistrationResult \<Rightarrow> string \<Rightarrow> ConfigError" where
  "RegistrationError result name =
     (if result = CapacityExhausted
      then config_error CE_ProfileLimitExceeded kProfileNameField
             (''the process already holds the maximum of '' @ to_string (int kMaxProfiles) @ '' live providers'')
      else DuplicateProfileNameError name)"

section \<open>Building\<close>

record 'a SdkProviderArgs =
  pa_exporters :: ExporterPack
  pa_auth :: "('a \<times> int) option"
  pa_export_channel :: bool
  pa_resource :: Resource
  pa_batch :: BatchOptions
  pa_max_record_bytes :: u32
  pa_max_total_queue_bytes :: u64
  pa_sampler :: "sampler option"
  pa_span_limits :: SpanLimitOptions
  pa_connect_opts :: ConnectOptions
  pa_metric_interval :: int
  pa_metric_temporality :: TemporalityPreference
  pa_metric_max_cardinality :: nat
  pa_view_registry :: ViewRegistry
  pa_log_batch_opts :: BatchOptions
  pa_profile_name :: string
  pa_leaf_receiver :: "LeafReceiverOptions option"
  pa_leaf_decoder :: bool

record 'w build_state =
  st_registry :: Registry
  st_min_level :: LogLevel
  st_log :: log
  st_world :: 'w
  st_fresh :: provider

definition provider_args :: "build_env \<Rightarrow> ('a, 'x, 'w) SdkBuilder \<Rightarrow> Config \<Rightarrow> Resource \<Rightarrow> string \<Rightarrow> 'a SdkProviderArgs" where
  "provider_args env b cfg resource profile =
     \<lparr>pa_exporters = (case bd_export_transport_opts b of Some opts \<Rightarrow> BuildCustomExporters opts cfg | None \<Rightarrow> BuildExporters cfg),
      pa_auth = map_option (\<lambda>cb. (cb, bd_auth_cache_ttl b)) (bd_auth_cb b), pa_export_channel = (bd_export_transport_opts b \<noteq> None),
      pa_resource = resource, pa_batch = cfg_batch cfg, pa_max_record_bytes = ml_max_record_bytes (cfg_memory_limits cfg),
      pa_max_total_queue_bytes = ml_max_total_queue_bytes (cfg_memory_limits cfg), pa_sampler = bd_sampler b, pa_span_limits = cfg_span_limits cfg,
      pa_connect_opts = BuildConnectOptions cfg, pa_metric_interval = metric_interval cfg, pa_metric_temporality = metric_temporality cfg,
      pa_metric_max_cardinality = ResolveMaxCardinality (be_getenv env) (bd_metric_limits b), pa_view_registry = BuildViewRegistry (bd_views b),
      pa_log_batch_opts = cfg_batch cfg, pa_profile_name = profile,
      pa_leaf_receiver = (if o_enabled (concentrator cfg) then Some (concentrator cfg) else None),
      pa_leaf_decoder = (be_with_concentrator env \<and> o_enabled (concentrator cfg))\<rparr>"

text \<open>\<open>Assemble\<close>: the provider exists, at a fresh address, before it claims its name; when it is refused
  it is destroyed at once, and its destructor deregisters it.\<close>

definition Assemble ::
    "build_env \<Rightarrow> ('a, 'x, 'w) SdkBuilder \<Rightarrow> Config \<Rightarrow> Resource \<Rightarrow> string \<Rightarrow> 'w build_state \<Rightarrow>
     (ConfigError + provider \<times> 'a SdkProviderArgs) \<times> 'w build_state" where
  "Assemble env b cfg resource profile st =
     (let p = st_fresh st;
          g = (st_registry st)\<lparr>g_providers := (g_providers (st_registry st))(p := \<lparr>profile_name = profile, forked_child = False\<rparr>)\<rparr>
      in case RegisterProvider p g of
           (result, g') \<Rightarrow>
             if result \<noteq> Registered
             then (Inl (RegistrationError result profile), st\<lparr>st_registry := DeregisterProvider p g', st_fresh := p + 1\<rparr>)
             else (Inr (p, provider_args env b cfg resource profile), st\<lparr>st_registry := g', st_fresh := p + 1\<rparr>))"

definition PrepareCustomTransport ::
    "LogLevel \<Rightarrow> string list \<Rightarrow> ExportTransportOptions \<Rightarrow> ('a, 'x, 'w) SdkBuilder \<Rightarrow> log \<Rightarrow> ('a, 'x, 'w) SdkBuilder \<times> log" where
  "PrepareCustomTransport min_level ignored opts b lines =
     (if \<not> xo_traces opts then b\<lparr>bd_sampler := Some AlwaysOffSampler\<rparr> else b, WarnOnCustomTransport min_level ignored opts lines)"

definition CreateTransportUnless :: "build_env \<Rightarrow> bool \<Rightarrow> ConfigError option" where
  "CreateTransportUnless env custom_transport =
     (if custom_transport then None
      else case be_create_transport env of None \<Rightarrow> None | Some message \<Rightarrow> Some (config_error CE_Unspecified [] message))"

definition Build ::
    "build_env \<Rightarrow> ('a, 'x, 'w) SdkBuilder \<Rightarrow> 'w build_state \<Rightarrow>
     (ConfigError + provider \<times> 'a SdkProviderArgs) \<times> ('a, 'x, 'w) SdkBuilder \<times> 'w build_state" where
  "Build env b0 st =
     (if bd_consumed b0
      then (Inl (config_error CE_BuildAlreadyConsumed [] ''SdkBuilder::Build() called more than once''), b0, st)
      else
        let b = b0\<lparr>bd_consumed := True\<rparr>
        in case ResolveProfileName (bd_profile_name b) (st_registry st) of
             Inl err \<Rightarrow> (Inl err, b, st)
           | Inr profile \<Rightarrow>
               (case CheckExportTransport b of
                  Some err \<Rightarrow> (Inl err, b, st)
                | None \<Rightarrow>
                    (case LoadConfig env b of
                       (Inl err, ignored) \<Rightarrow> (Inl err, b, st)
                     | (Inr cfg, ignored) \<Rightarrow>
                         let lvl = cfg_log_level cfg;
                             lines1 = WarnOnUnknownKeys lvl cfg (st_log st);
                             (b1, lines2) = (case bd_export_transport_opts b of
                                Some opts \<Rightarrow> PrepareCustomTransport lvl ignored opts b lines1
                              | None \<Rightarrow> (b, WarnOnRiskyConfig lvl cfg lines1));
                             st1 = st\<lparr>st_min_level := lvl, st_log := lines2\<rparr>
                         in case CheckLeafReceiver (be_with_concentrator env) (concentrator cfg) of
                              Some err \<Rightarrow> (Inl err, b1, st1)
                            | None \<Rightarrow>
                                (case BuildResource (be_format_double env) lvl cfg (bd_resource_detectors b1) profile lines2 (st_world st) of
                                   (Inl err, lines3, w) \<Rightarrow> (Inl err, b1, st1\<lparr>st_log := lines3, st_world := w\<rparr>)
                                 | (Inr resource, lines3, w) \<Rightarrow>
                                     let st2 = st1\<lparr>st_log := lines3, st_world := w\<rparr>
                                     in case CreateTransportUnless env (bd_export_transport_opts b \<noteq> None) of
                                          Some err \<Rightarrow> (Inl err, b1, st2)
                                        | None \<Rightarrow>
                                            (case Assemble env b1 cfg resource profile st2 of (result, st3) \<Rightarrow> (result, b1, st3))))))"

end
