(* ===== verification/Sdk_Precedence.thy ===== *)
theory Sdk_Precedence
  imports Sdk_Builder
begin

text \<open>
  The configuration that \<open>SdkBuilder::Build\<close> resolves: the precedence of file, environment and code per setting
  and per key, and that the codecs built from it send no static header beside one of their own.
\<close>

section \<open>What the environment sets\<close>

text \<open>What a variable holds, read by \<open>p\<close>; its text; the entries of a list variable; nothing when it is unset.\<close>

definition env_read :: "environment \<Rightarrow> string \<Rightarrow> (string \<Rightarrow> 'v option) \<Rightarrow> 'v option" where
  "env_read g name p = (if GetEnv g name = [] then None else p (GetEnv g name))"

definition env_text :: "environment \<Rightarrow> string \<Rightarrow> string option" where
  "env_text g name = (if GetEnv g name = [] then None else Some (GetEnv g name))"

definition right :: "'e + 'v \<Rightarrow> 'v option" where
  "right r = (case r of Inr x \<Rightarrow> Some x | Inl _ \<Rightarrow> None)"

definition env_list :: "environment \<Rightarrow> string \<Rightarrow> KeyValue list" where
  "env_list g name = (case env_read g name (\<lambda>v. right (ParseKeyValueList v name)) of Some kvs \<Rightarrow> kvs | None \<Rightarrow> [])"

text \<open>A value changed by what a source holds; a value of the code over one of the environment over that of the file.\<close>

definition changed :: "('x \<Rightarrow> 'v \<Rightarrow> 'v) \<Rightarrow> 'x option \<Rightarrow> 'v \<Rightarrow> 'v" where
  "changed f x v = (case x of None \<Rightarrow> v | Some x \<Rightarrow> f x v)"

definition layered :: "'v option \<Rightarrow> 'v option \<Rightarrow> 'v \<Rightarrow> 'v" where
  "layered code env file = (case code of Some v \<Rightarrow> v | None \<Rightarrow> (case env of Some v \<Rightarrow> v | None \<Rightarrow> file))"

lemmas settings_table = env_settings_def exporter_settings_def resource_and_metric_settings_def concentrator_settings_def

lemma effect_text: "take_effect g c (name, \<lambda>v. Inr (assign v)) = changed assign (env_text g name) c"
  by (simp add: take_effect_def changed_def env_text_def)

lemma effect_reading:
  "take_effect g c (name, \<lambda>v. reading assign (P v)) = changed (\<lambda>x c. assign c x) (env_read g name (\<lambda>v. right (P v))) c"
  by (simp add: take_effect_def changed_def env_read_def right_def reading_def split: sum.split)

lemma right_expecting: "right (expecting name message r) = r"
  by (simp add: right_def expecting_def split: option.split)

lemma changed_keeps: "(\<And>x c. h (F x c) = h c) \<Longrightarrow> h (changed F e c) = h c"
  by (simp add: changed_def split: option.split)

lemma changed_sets: "(\<And>x c. h (F x c) = f x (h c)) \<Longrightarrow> h (changed F e c) = changed f e (h c)"
  by (simp add: changed_def split: option.split)

lemma layered_changed: "layered None x v = changed (\<lambda>x _. x) x v"
  by (simp add: layered_def changed_def split: option.split)

lemma changed_list:
  "m v [] = v \<Longrightarrow> changed (\<lambda>kvs v. m v kvs) (env_read g name (\<lambda>t. right (ParseKeyValueList t name))) v = m v (env_list g name)"
  by (simp add: changed_def env_list_def split: option.split)

lemma changed_map: "changed f (map_option h x) v = changed (\<lambda>x. f (h x)) x v"
  by (simp add: changed_def split: option.split)

lemma changed_flag: "changed (\<lambda>_ _. True) x v \<longleftrightarrow> x \<noteq> None \<or> v"
  by (simp add: changed_def split: option.split)

text \<open>The options of the concentrator after the environment.\<close>

definition env_concentrator :: "environment \<Rightarrow> LeafReceiverOptions \<Rightarrow> LeafReceiverOptions" where
  "env_concentrator g o' = o'
     \<lparr>o_enabled := layered None (env_read g ''MICROTEL_CONCENTRATOR_ENABLED'' ParseBool) (o_enabled o'),
      o_max_payload_bytes := layered None (env_read g ''MICROTEL_CONCENTRATOR_MAX_PAYLOAD_BYTES'' ParseByteSize) (o_max_payload_bytes o'),
      o_max_leaves := layered None (env_read g ''MICROTEL_CONCENTRATOR_MAX_LEAVES'' ParseCount) (o_max_leaves o'),
      o_unknown_leaf := layered None (env_read g ''MICROTEL_CONCENTRATOR_UNKNOWN_LEAF'' ParseUnknownLeafPolicy) (o_unknown_leaf o'),
      o_default_time_mode := layered None (env_read g ''MICROTEL_CONCENTRATOR_DEFAULT_TIME_MODE'' ParseDefaultTimeMode) (o_default_time_mode o'),
      o_leaf_defaults_resource :=
        MergeResourceAttrs (o_leaf_defaults_resource o') (env_list g ''MICROTEL_CONCENTRATOR_RESOURCE_ATTRIBUTES'')\<rparr>"

lemma merge_nothing: "MergeHeaders hs [] = hs" "MergeResourceAttrs kvs [] = kvs"
  by (simp_all add: MergeHeaders_def MergeResourceAttrs_def Resource_Merge_def)

lemmas env_effects = settings_table effect_text effect_reading conc_reading_def right_expecting

lemmas conc_keeps = changed_keeps [of "\<lambda>c. o_enabled (concentrator c)"] changed_keeps [of "\<lambda>c. o_max_payload_bytes (concentrator c)"]
  changed_keeps [of "\<lambda>c. o_max_spans_per_payload (concentrator c)"] changed_keeps [of "\<lambda>c. o_max_leaves (concentrator c)"]
  changed_keeps [of "\<lambda>c. o_max_leaf_resource_bytes (concentrator c)"] changed_keeps [of "\<lambda>c. o_leaf_idle_timeout (concentrator c)"]
  changed_keeps [of "\<lambda>c. o_unknown_leaf (concentrator c)"] changed_keeps [of "\<lambda>c. o_leaf_id_attribute (concentrator c)"]
  changed_keeps [of "\<lambda>c. o_default_time_mode (concentrator c)"] changed_keeps [of "\<lambda>c. o_max_sync_age (concentrator c)"]
  changed_keeps [of "\<lambda>c. o_max_clock_skew (concentrator c)"] changed_keeps [of "\<lambda>c. o_boot_anchor_window (concentrator c)"]
  changed_keeps [of "\<lambda>c. o_leaf_defaults_resource (concentrator c)"] changed_keeps [of "\<lambda>c. o_leaves (concentrator c)"]
  changed_keeps [of "\<lambda>c. o_max_node_resource_bytes (concentrator c)"]

lemma concentrator_overlay:
  "concentrator (foldl (take_effect g) cfg concentrator_settings) = env_concentrator g (concentrator cfg)"
  by (rule LeafReceiverOptions.equality; simp add: env_effects conc_keeps env_concentrator_def)
    (simp_all add: changed_def layered_def env_list_def merge_nothing split: option.split)

lemmas cfg_keeps = changed_keeps [of endpoint_url] changed_keeps [of protocol] changed_keeps [of protocol_explicit] changed_keeps [of cfg_headers]
  changed_keeps [of cfg_timeouts] changed_keeps [of compression_gzip] changed_keeps [of cfg_tls] changed_keeps [of service_name]
  changed_keeps [of resource_attrs] changed_keeps [of resource_detectors_strict] changed_keeps [of metric_interval]
  changed_keeps [of metric_temporality] changed_keeps [of cfg_log_level] changed_keeps [of cfg_batch] changed_keeps [of cfg_span_limits]
  changed_keeps [of cfg_memory_limits] changed_keeps [of service_version] changed_keeps [of concentrator]

lemmas cfg_sets = changed_sets [of endpoint_url _ "\<lambda>x _. x"] changed_sets [of protocol _ "\<lambda>x _. x"] changed_sets [of protocol_explicit _ "\<lambda>_ _. True"]
  changed_sets [of cfg_headers _ "\<lambda>kvs hs. MergeHeaders hs kvs"] changed_sets [of cfg_timeouts _ "\<lambda>ms t. t\<lparr>to_per_export := ms\<rparr>"] changed_sets [of compression_gzip _ "\<lambda>v _. v = ''gzip''"]
  changed_sets [of cfg_tls _ "\<lambda>path t. t\<lparr>tls_ca_bundle := path\<rparr>"] changed_sets [of service_name _ "\<lambda>x _. x"] changed_sets [of resource_attrs _ "\<lambda>kvs rs. MergeResourceAttrs rs kvs"]
  changed_sets [of resource_detectors_strict _ "\<lambda>x _. x"] changed_sets [of metric_interval _ "\<lambda>x _. x"] changed_sets [of metric_temporality _ "\<lambda>x _. x"]
  changed_sets [of cfg_log_level _ "\<lambda>x _. x"]

lemma env_result: "OverlayEnv g cfg = (None, cfg') \<Longrightarrow> cfg' = foldl (take_effect g) cfg env_settings"
  by (simp add: OverlayEnv_settings overlay_all_None)

lemmas env_chain = env_result [unfolded settings_table,
  unfolded append_Cons append_Nil foldl.simps conc_reading_def effect_text effect_reading right_expecting]

text \<open>What each variable sets, and the settings that have none.\<close>

lemma env_fields:
  assumes "OverlayEnv g cfg = (None, cfg')"
  shows "endpoint_url cfg' = layered None (env_text g ''OTEL_EXPORTER_OTLP_ENDPOINT'') (endpoint_url cfg)"
    "protocol cfg' = layered None (env_read g ''OTEL_EXPORTER_OTLP_PROTOCOL'' (\<lambda>v. right (ParseProtocol v))) (protocol cfg)"
    "protocol_explicit cfg' \<longleftrightarrow> env_read g ''OTEL_EXPORTER_OTLP_PROTOCOL'' (\<lambda>v. right (ParseProtocol v)) \<noteq> None \<or> protocol_explicit cfg"
    "cfg_headers cfg' = MergeHeaders (cfg_headers cfg) (env_list g ''OTEL_EXPORTER_OTLP_HEADERS'')"
    "cfg_timeouts cfg' = changed (\<lambda>ms t. t\<lparr>to_per_export := ms\<rparr>)
       (env_read g ''OTEL_EXPORTER_OTLP_TIMEOUT'' (\<lambda>v. right (ParseMs v ''OTEL_EXPORTER_OTLP_TIMEOUT''))) (cfg_timeouts cfg)"
    "compression_gzip cfg' = layered None (map_option (\<lambda>v. v = ''gzip'') (env_text g ''OTEL_EXPORTER_OTLP_COMPRESSION'')) (compression_gzip cfg)"
    "cfg_tls cfg' = changed (\<lambda>path t. t\<lparr>tls_ca_bundle := path\<rparr>) (env_text g ''OTEL_EXPORTER_OTLP_CERTIFICATE'') (cfg_tls cfg)"
    "service_name cfg' = layered None (env_text g ''OTEL_SERVICE_NAME'') (service_name cfg)"
    "resource_attrs cfg' = MergeResourceAttrs (resource_attrs cfg) (env_list g ''OTEL_RESOURCE_ATTRIBUTES'')"
    "resource_detectors_strict cfg' =
       layered None (env_read g ''MICROTEL_RESOURCE_DETECTORS_STRICT'' ParseBool) (resource_detectors_strict cfg)"
    "metric_interval cfg' =
       layered None (env_read g ''OTEL_METRIC_EXPORT_INTERVAL'' (\<lambda>v. right (ParseMs v ''OTEL_METRIC_EXPORT_INTERVAL''))) (metric_interval cfg)"
    "metric_temporality cfg' =
       layered None (env_read g ''OTEL_EXPORTER_OTLP_METRICS_TEMPORALITY_PREFERENCE'' parse_temporality) (metric_temporality cfg)"
    "cfg_log_level cfg' = layered None (env_read g ''MICROTEL_LOG_LEVEL'' ParseLogLevel) (cfg_log_level cfg)"
    "cfg_batch cfg' = cfg_batch cfg" "cfg_span_limits cfg' = cfg_span_limits cfg" "cfg_memory_limits cfg' = cfg_memory_limits cfg"
    "service_version cfg' = service_version cfg"
  by (simp_all add: env_chain [OF assms] cfg_keeps cfg_sets layered_changed changed_list changed_map changed_flag merge_nothing)

lemma env_concentrator_field:
  assumes "OverlayEnv g cfg = (None, cfg')"
  shows "concentrator cfg' = env_concentrator g (concentrator cfg)"
proof -
  have "cfg' = foldl (take_effect g) (foldl (take_effect g) cfg (exporter_settings @ resource_and_metric_settings)) concentrator_settings"
    by (simp add: env_result [OF assms] env_settings_def)
  then show ?thesis by (simp only: concentrator_overlay) (simp add: env_effects changed_keeps [of concentrator])
qed

section \<open>Precedence\<close>

text \<open>What the code's settings make of a configuration.\<close>

definition with_code :: "('a, 'x, 'w) SdkBuilder \<Rightarrow> Config \<Rightarrow> Config" where
  "with_code b cfg =
     (let cfg3 = ApplyResourceOverrides b (ApplyExporterOverrides b cfg)
      in case bd_leaf_receiver b of None \<Rightarrow> cfg3 | Some opts \<Rightarrow> cfg3\<lparr>concentrator := MergeLeafReceiverOptions (concentrator cfg3) opts\<rparr>)"

text \<open>With a custom transport the exporter settings of file and environment are dropped.\<close>

definition dropped :: "bool \<Rightarrow> Config \<Rightarrow> Config" where
  "dropped custom cfg = (if custom then snd (DropExporterSettings cfg) else cfg)"

lemma LoadConfig_loaded:
  assumes "LoadConfig env b = (Inr cfg, ignored)"
  obtains ff cfg1 where "file_config env b = Inr ff" "OverlayEnv (be_getenv env) ff = (None, cfg1)"
    "Validate (be_regular_file env) (be_forbid_insecure env)
       (with_code b (dropped (bd_export_transport_opts b \<noteq> None) cfg1)) = (None, cfg)"
    "bd_auth_cb b \<noteq> None \<Longrightarrow> CheckNoStaticAuthorization (cfg_headers cfg) = None"
proof -
  obtain ff where f: "file_config env b = Inr ff" using assms by (auto simp: LoadConfig_def split: sum.splits)
  obtain cfg1 where e: "OverlayEnv (be_getenv env) ff = (None, cfg1)"
    using assms f by (cases "OverlayEnv (be_getenv env) ff") (auto simp: LoadConfig_def split: option.splits)
  let ?cfg = "with_code b (dropped (bd_export_transport_opts b \<noteq> None) cfg1)"
  obtain ign cfg2 where d: "DropExporterSettings cfg1 = (ign, cfg2)" by fastforce
  define names where "names = (if bd_export_transport_opts b = None then [] else ign)"
  have *: "LoadConfig env b = (case Validate (be_regular_file env) (be_forbid_insecure env) ?cfg of
      (Some err, cfg5) \<Rightarrow> (Inl err, names)
    | (None, cfg5) \<Rightarrow> (case if bd_auth_cb b \<noteq> None then CheckNoStaticAuthorization (cfg_headers cfg5) else None of
         Some err \<Rightarrow> (Inl err, names) | None \<Rightarrow> (Inr cfg5, names)))"
    unfolding LoadConfig_def names_def f e d prod.case sum.case option.case
    by (cases "bd_export_transport_opts b"; cases "bd_leaf_receiver b") (simp_all add: with_code_def dropped_def d Let_def)
  show ?thesis
    using assms that [OF f e] unfolding *
    by (cases "Validate (be_regular_file env) (be_forbid_insecure env) ?cfg") (auto split: option.splits if_splits)
qed

lemma override_changed: "override v assign cfg = changed assign v cfg"
  by (simp add: override_def changed_def)

lemma with_code_changed:
  "with_code b cfg = changed (\<lambda>opts c. c\<lparr>concentrator := MergeLeafReceiverOptions (concentrator c) opts\<rparr>) (bd_leaf_receiver b)
     (ApplyResourceOverrides b (ApplyExporterOverrides b cfg))"
  by (simp add: with_code_def changed_def Let_def)

lemma layered_code: "layered code None v = changed (\<lambda>x _. x) code v"
  by (simp add: layered_def changed_def split: option.split)

lemma layered_layered: "layered code None (layered None x v) = layered code x v"
  by (simp add: layered_def split: option.split)

lemma changed_merge: "m v [] = v \<Longrightarrow> changed (\<lambda>kvs v. m v kvs) x v = m v (layered x None [])"
  by (simp add: changed_def layered_def split: option.split)

lemmas code_sets = changed_sets [of compression_gzip _ "\<lambda>x _. x"] changed_sets [of cfg_batch _ "\<lambda>x _. x"] changed_sets [of cfg_span_limits _ "\<lambda>x _. x"]
  changed_sets [of cfg_memory_limits _ "\<lambda>x _. x"] changed_sets [of service_version _ "\<lambda>x _. x"]
  changed_sets [of cfg_timeouts _ "\<lambda>x _. x"] changed_sets [of cfg_tls _ "\<lambda>x _. x"]
  changed_sets [of concentrator _ "\<lambda>opts o'. MergeLeafReceiverOptions o' opts"]

lemma with_code_fields:
  "endpoint_url (with_code b cfg) = layered (bd_endpoint b) None (endpoint_url cfg)"
  "protocol (with_code b cfg) = layered (bd_protocol b) None (protocol cfg)"
  "protocol_explicit (with_code b cfg) \<longleftrightarrow> bd_protocol b \<noteq> None \<or> protocol_explicit cfg"
  "compression_gzip (with_code b cfg) = layered (bd_compression_gzip b) None (compression_gzip cfg)"
  "cfg_headers (with_code b cfg) = MergeHeaders (cfg_headers cfg) (layered (bd_headers b) None [])"
  "cfg_tls (with_code b cfg) = layered (bd_tls b) None (cfg_tls cfg)"
  "cfg_timeouts (with_code b cfg) = layered (bd_timeouts b) None (cfg_timeouts cfg)"
  "metric_interval (with_code b cfg) = layered (bd_metric_interval b) None (metric_interval cfg)"
  "metric_temporality (with_code b cfg) = layered (bd_metric_temporality b) None (metric_temporality cfg)"
  "cfg_batch (with_code b cfg) = layered (bd_batch b) None (cfg_batch cfg)"
  "cfg_span_limits (with_code b cfg) = layered (bd_span_limits b) None (cfg_span_limits cfg)"
  "cfg_memory_limits (with_code b cfg) = layered (bd_memory_limits b) None (cfg_memory_limits cfg)"
  "service_name (with_code b cfg) = layered (bd_service_name b) None (service_name cfg)"
  "service_version (with_code b cfg) = layered (bd_service_version b) None (service_version cfg)"
  "resource_attrs (with_code b cfg) = MergeResourceAttrs (resource_attrs cfg) (layered (bd_resource_attrs b) None [])"
  "resource_detectors_strict (with_code b cfg) = resource_detectors_strict cfg"
  "cfg_log_level (with_code b cfg) = cfg_log_level cfg"
  "concentrator (with_code b cfg) = changed (\<lambda>opts o'. MergeLeafReceiverOptions o' opts) (bd_leaf_receiver b) (concentrator cfg)"
  by (simp_all add: with_code_changed ApplyResourceOverrides_def ApplyExporterOverrides_def override_changed cfg_keeps cfg_sets code_sets
      layered_code changed_flag changed_merge [of MergeHeaders] changed_merge [of MergeResourceAttrs] merge_nothing)

text \<open>What the validator makes of a configuration that it accepts.\<close>

lemma Validate_fields:
  assumes "Validate regular_file forbid cfg = (None, cfg')"
  shows "endpoint_url cfg' = endpoint_url cfg" "compression_gzip cfg' = compression_gzip cfg" "cfg_headers cfg' = cfg_headers cfg"
    "cfg_tls cfg' = cfg_tls cfg" "cfg_timeouts cfg' = cfg_timeouts cfg" "metric_interval cfg' = metric_interval cfg"
    "metric_temporality cfg' = metric_temporality cfg" "cfg_batch cfg' = cfg_batch cfg" "cfg_span_limits cfg' = cfg_span_limits cfg"
    "cfg_memory_limits cfg' = cfg_memory_limits cfg" "service_version cfg' = service_version cfg" "resource_attrs cfg' = resource_attrs cfg"
    "resource_detectors_strict cfg' = resource_detectors_strict cfg" "cfg_log_level cfg' = cfg_log_level cfg" "concentrator cfg' = concentrator cfg"
    "service_name cfg' = (if service_name cfg = [] then cv_kUnknownService else service_name cfg)"
    "service_name_defaulted cfg' \<longleftrightarrow> service_name cfg = []"
  by (rule Validate_passed [OF assms]; simp add: default_service_name_def Let_def)+

lemma Validate_protocol:
  assumes "Validate regular_file forbid cfg = (None, cfg')"
  shows "protocol cfg' = (if ExtractScheme (endpoint_url cfg) \<in> {''grpc'', ''grpcs''} then Proto_Grpc else protocol cfg)"
    "protocol_explicit cfg \<Longrightarrow> protocol cfg' = protocol cfg"
    "ParseEndpointUrl (endpoint_url cfg) (protocol cfg') = Inr (endpoint cfg')"
  by (rule Validate_passed [OF assms]; auto simp: default_service_name_def ResolveProtocol_def Let_def split: if_splits)+

lemma dropped_fields:
  "endpoint_url (dropped custom cfg) = (if custom then kCustomTransportPlaceholderEndpoint else endpoint_url cfg)"
  "protocol (dropped custom cfg) = (if custom then Proto_Http else protocol cfg)"
  "protocol_explicit (dropped custom cfg) \<longleftrightarrow> \<not> custom \<and> protocol_explicit cfg"
  "cfg_headers (dropped custom cfg) = (if custom then [] else cfg_headers cfg)"
  "compression_gzip (dropped custom cfg) \<longleftrightarrow> \<not> custom \<and> compression_gzip cfg"
  "cfg_tls (dropped custom cfg) = (if custom then TlsOptions_default else cfg_tls cfg)"
  "cfg_timeouts (dropped custom cfg) = cfg_timeouts cfg" "metric_interval (dropped custom cfg) = metric_interval cfg"
  "metric_temporality (dropped custom cfg) = metric_temporality cfg" "cfg_batch (dropped custom cfg) = cfg_batch cfg"
  "cfg_span_limits (dropped custom cfg) = cfg_span_limits cfg" "cfg_memory_limits (dropped custom cfg) = cfg_memory_limits cfg"
  "service_name (dropped custom cfg) = service_name cfg" "service_version (dropped custom cfg) = service_version cfg"
  "resource_attrs (dropped custom cfg) = resource_attrs cfg" "resource_detectors_strict (dropped custom cfg) = resource_detectors_strict cfg"
  "cfg_log_level (dropped custom cfg) = cfg_log_level cfg" "concentrator (dropped custom cfg) = concentrator cfg"
  by (simp_all add: dropped_def DropExporterSettings_def Config_default_def)

text \<open>What describes the service, with any transport.\<close>

lemma LoadConfig_service:
  assumes "LoadConfig env b = (Inr cfg, ignored)" "file_config env b = Inr ff"
  shows "resource_attrs cfg = MergeResourceAttrs (MergeResourceAttrs (resource_attrs ff) (env_list (be_getenv env) ''OTEL_RESOURCE_ATTRIBUTES''))
      (layered (bd_resource_attrs b) None [])"
    "service_version cfg = layered (bd_service_version b) None (service_version ff)"
    "service_name cfg =
       (let nm = layered (bd_service_name b) (env_text (be_getenv env) ''OTEL_SERVICE_NAME'') (service_name ff)
        in if nm = [] then cv_kUnknownService else nm)"
    "service_name_defaulted cfg \<longleftrightarrow> layered (bd_service_name b) (env_text (be_getenv env) ''OTEL_SERVICE_NAME'') (service_name ff) = []"
proof -
  obtain ff1 cfg1 where f: "file_config env b = Inr ff1" and e: "OverlayEnv (be_getenv env) ff1 = (None, cfg1)"
    and v: "Validate (be_regular_file env) (be_forbid_insecure env)
      (with_code b (dropped (bd_export_transport_opts b \<noteq> None) cfg1)) = (None, cfg)"
    by (rule LoadConfig_loaded [OF assms(1)])
  have ff: "ff1 = ff" using f assms(2) by simp
  note e = e [unfolded ff]
  show "resource_attrs cfg = MergeResourceAttrs (MergeResourceAttrs (resource_attrs ff) (env_list (be_getenv env) ''OTEL_RESOURCE_ATTRIBUTES''))
      (layered (bd_resource_attrs b) None [])"
    by (simp only: Validate_fields [OF v] with_code_fields dropped_fields env_fields [OF e])
  show "service_version cfg = layered (bd_service_version b) None (service_version ff)"
    by (simp only: Validate_fields [OF v] with_code_fields dropped_fields env_fields [OF e])
  show "service_name cfg =
       (let nm = layered (bd_service_name b) (env_text (be_getenv env) ''OTEL_SERVICE_NAME'') (service_name ff)
        in if nm = [] then cv_kUnknownService else nm)"
    by (simp only: Validate_fields [OF v] with_code_fields dropped_fields env_fields [OF e] layered_layered Let_def)
  show "service_name_defaulted cfg \<longleftrightarrow> layered (bd_service_name b) (env_text (be_getenv env) ''OTEL_SERVICE_NAME'') (service_name ff) = []"
    by (simp only: Validate_fields [OF v] with_code_fields dropped_fields env_fields [OF e] layered_layered)
qed

text \<open>
  C37: the configuration that \<open>Build\<close> resolves, every setting of it. Without a custom transport each setting is the code's, else
  the environment's, else that of the file (the default, without a file), with these details. The timeout
  variable sets the timeout per export alone and the certificate variable the CA bundle alone, both under a whole
  record set in code; batch, span and memory limits and the service version have no variable, and the log level and the strictness of
  resource detectors no setting in code. A \<open>grpc\<close> or \<open>grpcs\<close> endpoint makes the protocol gRPC,
  and a protocol that code, environment or file names is never replaced by another one. The endpoint is the parse of the
  URL, and only when nothing names the service is it \<open>unknown_service\<close>. Headers and resource attributes are resolved key by key: under a
  header name, in any spelling, stands the last entry of the code, else the last of the environment, else what the
  file has; a resource key has the value of the highest source that has it. The options of the concentrator are those of the code, merged
  into what environment and file give. With a custom transport the same holds, except that URL, protocol,
  compression, TLS and headers of environment and file are replaced by the placeholder URL and the defaults.
\<close>

theorem config_precedence:
  assumes "LoadConfig env b = (Inr cfg, ignored)" "file_config env b = Inr ff"
  defines "g \<equiv> be_getenv env" and "custom \<equiv> bd_export_transport_opts b \<noteq> None"
    and "env_protocol \<equiv> env_read (be_getenv env) ''OTEL_EXPORTER_OTLP_PROTOCOL'' (\<lambda>v. right (ParseProtocol v))"
  shows "endpoint_url cfg = layered (bd_endpoint b) None
      (if custom then kCustomTransportPlaceholderEndpoint else layered None (env_text g ''OTEL_EXPORTER_OTLP_ENDPOINT'') (endpoint_url ff)) \<and>
    ParseEndpointUrl (endpoint_url cfg) (protocol cfg) = Inr (endpoint cfg) \<and>
    protocol cfg = (if ExtractScheme (endpoint_url cfg) \<in> {''grpc'', ''grpcs''} then Proto_Grpc
      else layered (bd_protocol b) None (if custom then Proto_Http else layered None env_protocol (protocol ff))) \<and>
    (bd_protocol b \<noteq> None \<longrightarrow> bd_protocol b = Some (protocol cfg)) \<and>
    (bd_protocol b = None \<and> \<not> custom \<and> env_protocol \<noteq> None \<longrightarrow> env_protocol = Some (protocol cfg)) \<and>
    (bd_protocol b = None \<and> \<not> custom \<and> env_protocol = None \<and> protocol_explicit ff \<longrightarrow> protocol cfg = protocol ff) \<and>
    compression_gzip cfg = layered (bd_compression_gzip b) None
      (\<not> custom \<and> layered None (map_option (\<lambda>v. v = ''gzip'') (env_text g ''OTEL_EXPORTER_OTLP_COMPRESSION'')) (compression_gzip ff)) \<and>
    cfg_tls cfg = layered (bd_tls b) None
      (if custom then TlsOptions_default
       else changed (\<lambda>path t. t\<lparr>tls_ca_bundle := path\<rparr>) (env_text g ''OTEL_EXPORTER_OTLP_CERTIFICATE'') (cfg_tls ff)) \<and>
    (\<forall>n. filter (named n) (cfg_headers cfg) =
       (let code = filter (named n) (layered (bd_headers b) None []); envs = filter (named n) (env_list g ''OTEL_EXPORTER_OTLP_HEADERS'')
        in if code \<noteq> [] then [last code] else if custom then []
           else if envs \<noteq> [] then [last envs] else filter (named n) (cfg_headers ff))) \<and>
    cfg_timeouts cfg = layered (bd_timeouts b) None
      (changed (\<lambda>ms t. t\<lparr>to_per_export := ms\<rparr>)
         (env_read g ''OTEL_EXPORTER_OTLP_TIMEOUT'' (\<lambda>v. right (ParseMs v ''OTEL_EXPORTER_OTLP_TIMEOUT''))) (cfg_timeouts ff)) \<and>
    metric_interval cfg = layered (bd_metric_interval b)
      (env_read g ''OTEL_METRIC_EXPORT_INTERVAL'' (\<lambda>v. right (ParseMs v ''OTEL_METRIC_EXPORT_INTERVAL''))) (metric_interval ff) \<and>
    metric_temporality cfg = layered (bd_metric_temporality b)
      (env_read g ''OTEL_EXPORTER_OTLP_METRICS_TEMPORALITY_PREFERENCE'' parse_temporality) (metric_temporality ff) \<and>
    cfg_batch cfg = layered (bd_batch b) None (cfg_batch ff) \<and>
    cfg_span_limits cfg = layered (bd_span_limits b) None (cfg_span_limits ff) \<and>
    cfg_memory_limits cfg = layered (bd_memory_limits b) None (cfg_memory_limits ff) \<and>
    service_version cfg = layered (bd_service_version b) None (service_version ff) \<and>
    (let nm = layered (bd_service_name b) (env_text g ''OTEL_SERVICE_NAME'') (service_name ff)
     in service_name cfg = (if nm = [] then ''unknown_service'' else nm)) \<and>
    resource_map (resource_attrs cfg) =
      resource_map (resource_attrs ff) ++ last_map (env_list g ''OTEL_RESOURCE_ATTRIBUTES'') ++ last_map (layered (bd_resource_attrs b) None []) \<and>
    resource_detectors_strict cfg =
      layered None (env_read g ''MICROTEL_RESOURCE_DETECTORS_STRICT'' ParseBool) (resource_detectors_strict ff) \<and>
    cfg_log_level cfg = layered None (env_read g ''MICROTEL_LOG_LEVEL'' ParseLogLevel) (cfg_log_level ff) \<and>
    concentrator cfg = changed (\<lambda>opts o'. MergeLeafReceiverOptions o' opts) (bd_leaf_receiver b) (env_concentrator g (concentrator ff))"
proof (rule LoadConfig_loaded [OF assms(1)])
  fix ff1 cfg1
  assume f: "file_config env b = Inr ff1" and e: "OverlayEnv (be_getenv env) ff1 = (None, cfg1)"
    and v: "Validate (be_regular_file env) (be_forbid_insecure env) (with_code b (dropped (bd_export_transport_opts b \<noteq> None) cfg1)) = (None, cfg)"
  have ff: "ff1 = ff" using f assms(2) by simp
  note e = e [folded g_def, unfolded ff] and v = v [folded custom_def] and env_protocol_def = env_protocol_def [folded g_def]
  note fields = Validate_fields [OF v] with_code_fields dropped_fields env_fields [OF e] env_concentrator_field [OF e]
    layered_layered env_protocol_def [symmetric]
  note proto = Validate_protocol [OF v, unfolded with_code_fields dropped_fields env_fields [OF e], folded env_protocol_def]
  have hs: "filter (named n) (cfg_headers cfg) =
       (let code = filter (named n) (layered (bd_headers b) None []); envs = filter (named n) (env_list g ''OTEL_EXPORTER_OTLP_HEADERS'')
        in if code \<noteq> [] then [last code] else if custom then []
           else if envs \<noteq> [] then [last envs] else filter (named n) (cfg_headers ff))" for n
    by (simp add: fields merge_headers_override Let_def)
  have "resource_map (resource_attrs cfg) =
      resource_map (resource_attrs ff) ++ last_map (env_list g ''OTEL_RESOURCE_ATTRIBUTES'') ++ last_map (layered (bd_resource_attrs b) None [])"
    by (simp add: fields MergeResourceAttrs_def)
  moreover have "(bd_protocol b \<noteq> None \<longrightarrow> bd_protocol b = Some (protocol cfg)) \<and>
    (bd_protocol b = None \<and> \<not> custom \<and> env_protocol \<noteq> None \<longrightarrow> env_protocol = Some (protocol cfg)) \<and>
    (bd_protocol b = None \<and> \<not> custom \<and> env_protocol = None \<and> protocol_explicit ff \<longrightarrow> protocol cfg = protocol ff)"
    using proto(2) by (auto simp: layered_def)
  ultimately show ?thesis
    using hs proto(1,3) by (simp only: fields cv_kUnknownService_def Let_def) simp
qed

text \<open>No file, an endpoint and a name from the environment, another name and two spellings of a header in code.\<close>

definition sample_build_env :: build_env where
  "sample_build_env =
     \<lparr>be_load_toml = (\<lambda>_. Inr Config_default),
      be_getenv = [''OTEL_EXPORTER_OTLP_ENDPOINT'' \<mapsto> ''http://a'', ''OTEL_SERVICE_NAME'' \<mapsto> ''e'', ''OTEL_RESOURCE_ATTRIBUTES'' \<mapsto> ''service.name=x''],
      be_regular_file = (\<lambda>_. False), be_forbid_insecure = False, be_with_concentrator = False, be_format_double = (\<lambda>_. []),
      be_create_transport = None\<rparr>"

definition sample_builder :: "(unit, unit, unit) SdkBuilder" where
  "sample_builder =
     WithHeaders [\<lparr>kv_key = ''X-A'', kv_value = AV_string ''1''\<rparr>, \<lparr>kv_key = ''x-a'', kv_value = AV_string ''2''\<rparr>]
       (WithServiceName ''svc'' SdkBuilder_new)"

lemmas sample_builder_defs = sample_builder_def WithHeaders_def WithServiceName_def SdkBuilder_new_def

definition sample_loaded :: Config where
  "sample_loaded = Config_default
     \<lparr>endpoint_url := ''http://a'', service_name := ''svc'', resource_attrs := [\<lparr>kv_key = ''service.name'', kv_value = AV_string ''x''\<rparr>],
      cfg_headers := [\<lparr>kv_key = ''x-a'', kv_value = AV_string ''2''\<rparr>],
      endpoint := \<lparr>ep_scheme = ''http'', ep_host = ''a'', ep_port = 4318, ep_path = []\<rparr>\<rparr>"

lemma sample_overlay:
  "OverlayEnv (be_getenv sample_build_env) Config_default =
     (None, Config_default\<lparr>endpoint_url := ''http://a'', service_name := ''e'', resource_attrs := [\<lparr>kv_key = ''service.name'', kv_value = AV_string ''x''\<rparr>]\<rparr>)"
proof -
  have kv: "ParseKeyValueList ''service.name=x'' ''OTEL_RESOURCE_ATTRIBUTES'' = Inr [\<lparr>kv_key = ''service.name'', kv_value = AV_string ''x''\<rparr>]"
    by code_simp
  have get: "GetEnv (be_getenv sample_build_env) n =
      (if n = ''OTEL_EXPORTER_OTLP_ENDPOINT'' then ''http://a'' else if n = ''OTEL_SERVICE_NAME'' then ''e''
       else if n = ''OTEL_RESOURCE_ATTRIBUTES'' then ''service.name=x'' else [])" for n
    by (simp add: GetEnv_def sample_build_env_def)
  have merge: "MergeResourceAttrs [] [\<lparr>kv_key = ''service.name'', kv_value = AV_string ''x''\<rparr>] = [\<lparr>kv_key = ''service.name'', kv_value = AV_string ''x''\<rparr>]"
    by code_simp
  have "resource_attrs Config_default = []" by (simp add: Config_default_def)
  then show ?thesis by (simp add: OverlayEnv_settings settings_table get kv merge reading_def)
qed

lemma sample_validates:
  "Validate (\<lambda>_. False) False (sample_loaded\<lparr>endpoint := endpoint Config_default\<rparr>) = (None, sample_loaded)"
proof -
  have parts: "ExtractScheme ''http://a'' = ''http''" "StripScheme ''http://a'' = ''a''"
      "SplitAuthorityPath ''a'' = \<lparr>ap_host = ''a'', ap_port_str = [], ap_path = []\<rparr>"
    by (simp_all add: ExtractScheme_def StripScheme_def SplitAuthorityPath_def kSchemeSep_def sv_rfind_def)
  have "HeaderNameFault ''x-a'' Proto_Http = None" "FieldValueFault ''2'' = None" by code_simp+
  then show ?thesis
    by (simp add: Validate_def sample_loaded_def Config_default_def TlsOptions_default_def ResolveProtocol_def parts ParseEndpointUrl_def ParsePort_def CheckInsecureAllowed_def
        ValidateTlsMaterial_def IsReadable_def ValidateHeaders_def HeaderValueFault_def CheckBatchOptions_def BatchOptions_default_def default_service_name_def Let_def)
qed

lemma sample_loads: "LoadConfig sample_build_env sample_builder = (Inr sample_loaded, [])"
proof -
  have hs: "MergeHeaders [] [\<lparr>kv_key = ''X-A'', kv_value = AV_string ''1''\<rparr>, \<lparr>kv_key = ''x-a'', kv_value = AV_string ''2''\<rparr>] =
      [\<lparr>kv_key = ''x-a'', kv_value = AV_string ''2''\<rparr>]" by code_simp
  have cfg: "ApplyResourceOverrides sample_builder (ApplyExporterOverrides sample_builder (Config_default
       \<lparr>endpoint_url := ''http://a'', service_name := ''e'', resource_attrs := [\<lparr>kv_key = ''service.name'', kv_value = AV_string ''x''\<rparr>]\<rparr>)) =
      sample_loaded\<lparr>endpoint := endpoint Config_default\<rparr>"
    by (simp add: ApplyResourceOverrides_def ApplyExporterOverrides_def override_def sample_builder_defs sample_loaded_def hs Config_default_def)
  have b: "bd_export_transport_opts sample_builder = None" "bd_leaf_receiver sample_builder = None" "bd_auth_cb sample_builder = None"
      "bd_file_path sample_builder = None" by (simp_all add: sample_builder_defs)
  have e: "be_regular_file sample_build_env = (\<lambda>_. False)" "be_forbid_insecure sample_build_env = False" by (simp_all add: sample_build_env_def)
  show ?thesis by (simp add: LoadConfig_def file_config_def b e sample_overlay cfg sample_validates)
qed

theorem config_precedence_witness:
  "\<exists>cfg. LoadConfig sample_build_env sample_builder = (Inr cfg, []) \<and> endpoint_url cfg = ''http://a'' \<and> service_name cfg = ''svc'' \<and>
     filter (named ''x-A'') (cfg_headers cfg) = [\<lparr>kv_key = ''x-a'', kv_value = AV_string ''2''\<rparr>]"
proof -
  have b: "bd_endpoint sample_builder = None" "bd_service_name sample_builder = Some ''svc''" "bd_export_transport_opts sample_builder = None"
      "bd_headers sample_builder = Some [\<lparr>kv_key = ''X-A'', kv_value = AV_string ''1''\<rparr>, \<lparr>kv_key = ''x-a'', kv_value = AV_string ''2''\<rparr>]"
      "file_config sample_build_env sample_builder = Inr Config_default"
    by (simp_all add: sample_builder_defs file_config_def)
  have e: "env_text (be_getenv sample_build_env) ''OTEL_EXPORTER_OTLP_ENDPOINT'' = Some ''http://a''"
    by (simp add: sample_build_env_def env_text_def GetEnv_def)
  have n: "named ''x-A'' \<lparr>kv_key = ''X-A'', kv_value = AV_string ''1''\<rparr>" "named ''x-A'' \<lparr>kv_key = ''x-a'', kv_value = AV_string ''2''\<rparr>"
    by code_simp+
  show ?thesis using sample_loads config_precedence [OF sample_loads b(5)] by (simp add: b e n layered_def Let_def)
qed

section \<open>The headers of the codecs\<close>

lemma ToHeaderFields_from: "f \<in> set (ToHeaderFields kvs) \<Longrightarrow> \<exists>kv \<in> set kvs. hf_name f = kv_key kv \<and> kv_value kv = AV_string (hf_value f)"
  by (induction kvs) (auto split: AttributeValue.splits)

lemma CheckNoStaticAuthorization_None:
  "CheckNoStaticAuthorization hs = None \<longleftrightarrow> (\<forall>h \<in> set hs. \<not> EqualsIgnoreCase (kv_key h) ''authorization'')"
  by (induction hs) auto

text \<open>The headers a codec sends with a body of length \<open>len\<close>, compressed or not, before it adds the authorization.\<close>

definition sent_headers :: "built_codec \<Rightarrow> nat \<Rightarrow> bool \<Rightarrow> HeaderField list" where
  "sent_headers codec len z =
     (case codec of
        Built_Http hc _ \<Rightarrow> http_base_headers hc len z
      | Built_Grpc gc _ \<Rightarrow> grpc_base_headers gc z
      | Built_Custom _ \<Rightarrow> [])"

lemma base_headers_extra:
  "http_base_headers hc len z = http_base_headers (hc\<lparr>hc_extra_headers := []\<rparr>) len z @ hc_extra_headers hc"
  "grpc_base_headers gc z = grpc_base_headers (gc\<lparr>gc_extra_headers := []\<rparr>) z @ gc_extra_headers gc"
  by (simp_all add: http_base_headers_def grpc_base_headers_def ResolvePath_def)

lemma LoadConfig_headers:
  assumes "LoadConfig env b = (Inr cfg, ignored)"
  shows "check_headers (cfg_headers cfg) (protocol cfg) = None"
    "bd_auth_cb b \<noteq> None \<Longrightarrow> CheckNoStaticAuthorization (cfg_headers cfg) = None"
proof -
  obtain c where v: "Validate (be_regular_file env) (be_forbid_insecure env) c = (None, cfg)"
    and a: "bd_auth_cb b \<noteq> None \<Longrightarrow> CheckNoStaticAuthorization (cfg_headers cfg) = None"
    using LoadConfig_loaded [OF assms] by metis
  show "check_headers (cfg_headers cfg) (protocol cfg) = None"
    by (rule Validate_passed [OF v]) (simp add: default_service_name_def Let_def)
  show "bd_auth_cb b \<noteq> None \<Longrightarrow> CheckNoStaticAuthorization (cfg_headers cfg) = None" by (rule a)
qed

text \<open>
  C38: the headers of the codec that \<open>Build\<close> makes from a configuration it resolved, whatever the signal, the body and the
  protocol. What it sends is its own headers followed by the static ones; each static one has a name that is a token
  and that none of its own has, in any spelling, and a value without line breaks and NUL, so no
  configuration can forge a pseudo-header, send one of the codec's headers twice or smuggle a header into a
  value; and beside an auth callback none is an authorization.
\<close>

theorem built_codec_headers:
  assumes "LoadConfig env b = (Inr cfg, ignored)"
  shows "\<exists>own. sent_headers (BuildWireCodec cfg (ToHeaderFields (cfg_headers cfg)) path) len z = own @ ToHeaderFields (cfg_headers cfg) \<and>
    '':path'' \<in> hf_name ` set own \<and>
    (\<forall>f \<in> set (ToHeaderFields (cfg_headers cfg)).
       cv_IsToken (hf_name f) \<and> (\<forall>o' \<in> set own. \<not> EqualsIgnoreCase (hf_name f) (hf_name o')) \<and>
       set (hf_value f) \<inter> {CHR 0x00, CHR 0x0D, CHR 0x0A} = {} \<and>
       (bd_auth_cb b \<noteq> None \<longrightarrow> \<not> EqualsIgnoreCase (hf_name f) ''authorization''))"
proof -
  let ?fs = "ToHeaderFields (cfg_headers cfg)"
  define host where "host = ep_host (endpoint cfg) @ '':'' @ to_string (int (ep_port (endpoint cfg)))"
  define hc where "hc = \<lparr>hc_host = host, hc_scheme = ep_scheme (endpoint cfg), hc_path = ep_path (endpoint cfg), hc_signal_path = path,
      hc_extra_headers = ?fs, hc_compression_gzip = compression_gzip cfg, hc_max_decompressed_bytes = ml_max_decompressed_bytes (cfg_memory_limits cfg)\<rparr>"
  define gc where "gc = \<lparr>gc_host = host, gc_scheme = ep_scheme (endpoint cfg), gc_extra_headers = ?fs, gc_service_path = path,
      gc_compression_gzip = compression_gzip cfg, gc_max_decompressed_bytes = ml_max_decompressed_bytes (cfg_memory_limits cfg)\<rparr>"
  have codec: "BuildWireCodec cfg ?fs path =
      (if protocol cfg = Proto_Http then Built_Http hc (BuildConnectOptions cfg) else Built_Grpc gc (BuildConnectOptions cfg))"
    "hc_extra_headers hc = ?fs" "gc_extra_headers gc = ?fs"
    by (cases "protocol cfg"; simp add: BuildWireCodec_def hc_def gc_def host_def Let_def)+
  let ?hc = "hc\<lparr>hc_extra_headers := []\<rparr>" and ?gc = "gc\<lparr>gc_extra_headers := []\<rparr>"
  let ?own = "if protocol cfg = Proto_Http then http_base_headers ?hc len z else grpc_base_headers ?gc z"
  have sent: "sent_headers (BuildWireCodec cfg ?fs path) len z = ?own @ ?fs"
    using codec base_headers_extra(1) [of hc len z] base_headers_extra(2) [of gc z] by (simp add: sent_headers_def)
  have path: "'':path'' \<in> hf_name ` set ?own" by (auto simp: http_base_headers_def grpc_base_headers_def image_def)
  have fields: "cv_IsToken (hf_name f) \<and> (\<forall>o' \<in> set ?own. \<not> EqualsIgnoreCase (hf_name f) (hf_name o')) \<and>
       set (hf_value f) \<inter> {CHR 0x00, CHR 0x0D, CHR 0x0A} = {} \<and>
       (bd_auth_cb b \<noteq> None \<longrightarrow> \<not> EqualsIgnoreCase (hf_name f) ''authorization'')" if "f \<in> set ?fs" for f
  proof -
    obtain kv where kv: "kv \<in> set (cfg_headers cfg)" "hf_name f = kv_key kv" "kv_value kv = AV_string (hf_value f)"
      using ToHeaderFields_from \<open>f \<in> set ?fs\<close> by blast
    have "hc_extra_headers ?hc = []" "gc_extra_headers ?gc = []" by simp_all
    from accepted_header [OF LoadConfig_headers(1) [OF assms] kv(1) this, of len z] show ?thesis
      using LoadConfig_headers(2) [OF assms] kv by (auto simp: CheckNoStaticAuthorization_None)
  qed
  show ?thesis by (intro exI [of _ ?own] conjI [OF sent conjI [OF path]] ballI fields)
qed

theorem built_codec_headers_witness:
  "\<exists>cfg own. LoadConfig sample_build_env sample_builder = (Inr cfg, []) \<and>
     sent_headers (BuildWireCodec cfg (ToHeaderFields (cfg_headers cfg)) ''/v1/logs'') 3 True = own @ ToHeaderFields (cfg_headers cfg)"
proof -
  from built_codec_headers [OF sample_loads, of "''/v1/logs''" 3 True] obtain own where
    "sent_headers (BuildWireCodec sample_loaded (ToHeaderFields (cfg_headers sample_loaded)) ''/v1/logs'') 3 True = own @ ToHeaderFields (cfg_headers sample_loaded)"
    by (elim exE conjE)
  with sample_loads show ?thesis by (intro exI conjI)
qed

end
