(* ===== verification/Sdk_Build.thy ===== *)
theory Sdk_Build
  imports Sdk_Precedence
begin

text \<open>
  What \<open>SdkBuilder::Build\<close> guarantees as a whole: how it registers the provider and what its failures leave, and the
  Resource of the provider in terms of the sources it comes from, which shows where the code departs from
  its documentation.
\<close>

section \<open>Registration\<close>

text \<open>Live providers are below the next fresh address.\<close>

definition build_state_ok :: "'w build_state \<Rightarrow> bool" where
  "build_state_ok st \<longleftrightarrow> registry_ok (st_registry st) \<and> (\<forall>q. Some q \<in> set (g_slots (st_registry st)) \<longrightarrow> q < st_fresh st)"

lemma directory_constructed:
  fixes x :: SdkProvider
  assumes "build_state_ok st"
  defines "g \<equiv> (st_registry st)\<lparr>g_providers := (g_providers (st_registry st))(st_fresh st := x)\<rparr>"
  shows "registry_ok g \<and> directory g = directory (st_registry st)"
proof -
  have "name_in g q = name_in (st_registry st) q" if "q \<in> set (live (g_slots (st_registry st)))" for q
    using assms(1) that by (auto simp: g_def build_state_ok_def live_set)
  then have names: "map (name_in g) (live (g_slots (st_registry st))) = map (name_in (st_registry st)) (live (g_slots (st_registry st)))"
    "map (\<lambda>p. (name_in g p, p)) (live (g_slots (st_registry st))) = map (\<lambda>p. (name_in (st_registry st) p, p)) (live (g_slots (st_registry st)))"
    by auto
  have slots: "g_slots g = g_slots (st_registry st)" by (simp add: g_def)
  show ?thesis using assms(1) unfolding registry_ok_def directory_def build_state_ok_def slots names by blast
qed

lemma release_absent: "Some p \<notin> set ss \<Longrightarrow> release p ss = ss"
  by (induction ss) auto

lemma Assemble_registers:
  assumes ok: "build_state_ok st" and run: "Assemble env b cfg resource profile st = (res, st')"
  shows "build_state_ok st' \<and>
    (if profile \<in> dom (directory (st_registry st))
     then res = Inl (DuplicateProfileNameError profile) \<and> directory (st_registry st') = directory (st_registry st)
     else if card (dom (directory (st_registry st))) = kMaxProfiles
     then res = Inl (RegistrationError CapacityExhausted profile) \<and> directory (st_registry st') = directory (st_registry st)
     else res = Inr (st_fresh st, provider_args env b cfg resource profile) \<and>
       directory (st_registry st') = (directory (st_registry st))(profile \<mapsto> st_fresh st))"
proof -
  let ?p = "st_fresh st"
  define g where "g = (st_registry st)\<lparr>g_providers := (g_providers (st_registry st))(?p := \<lparr>profile_name = profile, forked_child = False\<rparr>)\<rparr>"
  obtain r g' where reg: "RegisterProvider ?p g = (r, g')" by fastforce
  have g: "registry_ok g" "directory g = directory (st_registry st)" "name_in g ?p = profile" "g_slots g = g_slots (st_registry st)"
    using directory_constructed [OF ok] by (simp_all add: g_def)
  have fresh: "Some ?p \<notin> set (g_slots g)" using ok g(4) by (auto simp: build_state_ok_def)
  have "DeregisterProvider ?p g' = g'" if "r \<noteq> Registered"
  proof -
    have "g' = g" using reg that unfolding RegisterProvider_refines [OF g(1)] by (auto split: if_splits)
    then show ?thesis using fresh release_absent [of ?p "g_slots g"] by (simp add: DeregisterProvider_def)
  qed
  then have out: "st' = st\<lparr>st_registry := g', st_fresh := ?p + 1\<rparr>"
    "res = (if r \<noteq> Registered then Inl (RegistrationError r profile) else Inr (?p, provider_args env b cfg resource profile))"
    using run reg unfolding g_def by (auto simp: Assemble_def Let_def split: if_splits)
  note d = RegisterProvider_directory [OF g(1) reg, unfolded g(2,3)]
  have "q < ?p + 1" if "Some q \<in> set (g_slots g')" for q
  proof -
    have "g_slots g' = g_slots g \<or> (\<exists>k. g_slots g' = (g_slots g)[k := Some ?p])"
      using reg unfolding RegisterProvider_refines [OF g(1)] by (auto split: if_splits)
    then have "Some q \<in> insert (Some ?p) (set (g_slots g))" using that set_update_subset_insert by fastforce
    then show ?thesis using ok g(4) by (auto simp: build_state_ok_def less_Suc_eq)
  qed
  then have "build_state_ok st'" using d by (auto simp: build_state_ok_def out(1))
  then show ?thesis using d g(2) by (auto simp: out RegistrationError_def split: if_splits)
qed

text \<open>What \<open>Build\<close> does before it assembles never touches the registry.\<close>

lemma Build_cases:
  assumes "Build env b st = (res, b', st')"
  shows "bd_consumed b' \<and>
    ((\<exists>err. res = Inl err) \<and> st_registry st' = st_registry st \<and> st_fresh st' = st_fresh st \<or>
     \<not> bd_consumed b \<and> (\<exists>profile cfg resource st2.
        ResolveProfileName (bd_profile_name b) (st_registry st) = Inr profile \<and> st_registry st2 = st_registry st \<and> st_fresh st2 = st_fresh st \<and>
        Assemble env b' cfg resource profile st2 = (res, st')))"
proof (cases "bd_consumed b")
  case False
  show ?thesis
  proof (cases "ResolveProfileName (bd_profile_name b) (st_registry st)")
    case (Inr profile)
    show ?thesis
      using assms False Inr
      by (auto simp: Build_def Let_def PrepareCustomTransport_def split: option.splits sum.splits prod.splits)
  qed (use assms False in \<open>auto simp: Build_def Let_def\<close>)
qed (use assms in \<open>auto simp: Build_def\<close>)

text \<open>
  C39: \<open>Build\<close> and the registry. When it succeeds, the profile's name, \<open>default\<close> unless one was set, is not empty, was free, and
  now finds the provider that was built, which is a new one; every other name finds what it found before,
  and there was room. When it fails, every name finds what it found before. Either way the builder is spent:
  another \<open>Build\<close> fails and changes nothing.
\<close>

theorem build_registers:
  assumes "build_state_ok st" "Build env b st = (res, b', st')"
  shows "build_state_ok st' \<and>
    (case res of
       Inl err \<Rightarrow> directory (st_registry st') = directory (st_registry st)
     | Inr (p, args) \<Rightarrow>
         (let nm = (case bd_profile_name b of None \<Rightarrow> ''default'' | Some n \<Rightarrow> n)
          in \<not> bd_consumed b \<and> nm \<noteq> [] \<and> pa_profile_name args = nm \<and> directory (st_registry st) nm = None \<and>
             card (dom (directory (st_registry st))) < kMaxProfiles \<and> p \<notin> ran (directory (st_registry st)) \<and>
             directory (st_registry st') = (directory (st_registry st))(nm \<mapsto> p))) \<and>
    (\<forall>env' st''. Build env' b' st'' =
       (Inl (config_error CE_BuildAlreadyConsumed [] ''SdkBuilder::Build() called more than once''), b', st''))"
proof -
  let ?d = "directory (st_registry st)"
  have spent: "bd_consumed b'" and cases:
    "(\<exists>err. res = Inl err) \<and> st_registry st' = st_registry st \<and> st_fresh st' = st_fresh st \<or>
     \<not> bd_consumed b \<and> (\<exists>profile cfg resource st2.
        ResolveProfileName (bd_profile_name b) (st_registry st) = Inr profile \<and> st_registry st2 = st_registry st \<and> st_fresh st2 = st_fresh st \<and>
        Assemble env b' cfg resource profile st2 = (res, st'))"
    using Build_cases [OF assms(2)] by blast+
  have again: "Build env' b' st'' = (Inl (config_error CE_BuildAlreadyConsumed [] ''SdkBuilder::Build() called more than once''), b', st'')"
    for env' st'' using spent by (simp add: Build_def)
  show ?thesis
    using cases
  proof (elim disjE conjE exE)
    fix profile cfg resource st2
    assume new: "\<not> bd_consumed b" and name: "ResolveProfileName (bd_profile_name b) (st_registry st) = Inr profile"
      and st2: "st_registry st2 = st_registry st" "st_fresh st2 = st_fresh st" and run: "Assemble env b' cfg resource profile st2 = (res, st')"
    have ok2: "build_state_ok st2" using assms(1) st2 by (simp add: build_state_ok_def)
    have profile: "profile = (case bd_profile_name b of None \<Rightarrow> ''default'' | Some n \<Rightarrow> n)" "profile \<noteq> []" "?d profile = None"
      using name by (auto simp: ResolveProfileName_def Let_def kDefaultProfileName_def FindProvider_directory split: if_splits option.splits)
    have reg: "registry_ok (st_registry st)" using assms(1) by (simp add: build_state_ok_def)
    then have "card (dom ?d) \<le> kMaxProfiles"
      using directory_card [OF reg] live_length [of "g_slots (st_registry st)"] by (simp add: registry_ok_def)
    moreover have "st_fresh st \<notin> ran ?d"
      using directory_iff [OF reg] assms(1) by (auto simp: ran_def build_state_ok_def)
    ultimately show ?thesis
      using Assemble_registers [OF ok2 run, unfolded st2] profile new again by (auto simp: provider_args_def Let_def split: if_splits)
  qed (use assms(1) again in \<open>auto simp: build_state_ok_def\<close>)
qed

text \<open>A process without providers.\<close>

definition sample_state :: "unit build_state" where
  "sample_state = \<lparr>st_registry = Registry_empty (\<lambda>_. \<lparr>profile_name = [], forked_child = False\<rparr>), st_min_level = Log_Info, st_log = [], st_world = (), st_fresh = 0\<rparr>"

lemma sample_state_ok: "build_state_ok sample_state" "directory (st_registry sample_state) = Map.empty"
  by (auto simp: sample_state_def build_state_ok_def registry_ok_def Registry_empty_def directory_def)

lemma LoadConfig_consumed: "LoadConfig env (b\<lparr>bd_consumed := x\<rparr>) = LoadConfig env b"
proof -
  have same: "bd_file_path (b\<lparr>bd_consumed := x\<rparr>) = bd_file_path b" "bd_leaf_receiver (b\<lparr>bd_consumed := x\<rparr>) = bd_leaf_receiver b"
    "bd_export_transport_opts (b\<lparr>bd_consumed := x\<rparr>) = bd_export_transport_opts b" "bd_auth_cb (b\<lparr>bd_consumed := x\<rparr>) = bd_auth_cb b"
    "ApplyResourceOverrides (b\<lparr>bd_consumed := x\<rparr>) = ApplyResourceOverrides b"
    "ApplyExporterOverrides (b\<lparr>bd_consumed := x\<rparr>) = ApplyExporterOverrides b"
    by (simp_all add: ApplyResourceOverrides_def ApplyExporterOverrides_def fun_eq_iff)
  show ?thesis unfolding LoadConfig_def file_config_def same ..
qed

lemma sample_build_ok: "\<exists>p args b' st'. Build sample_build_env sample_builder sample_state = (Inr (p, args), b', st')"
proof -
  let ?b = "sample_builder\<lparr>bd_consumed := True\<rparr>"
  have name: "ResolveProfileName None (st_registry sample_state) = Inr ''default''"
    by (simp add: ResolveProfileName_def kDefaultProfileName_def FindProvider_directory sample_state_ok Let_def)
  have b: "\<not> bd_consumed sample_builder" "bd_profile_name sample_builder = None" "bd_export_transport_opts sample_builder = None"
      "bd_resource_detectors sample_builder = []"
    by (simp_all add: sample_builder_defs)
  have load: "LoadConfig sample_build_env ?b = (Inr sample_loaded, [])" by (simp add: LoadConfig_consumed sample_loads)
  have leaf: "CheckLeafReceiver (be_with_concentrator sample_build_env) (concentrator sample_loaded) = None"
    by (simp add: CheckLeafReceiver_def sample_loaded_def Config_default_def)
  have tp: "CheckExportTransport ?b = None" "CreateTransportUnless sample_build_env False = None"
    by (simp_all add: CheckExportTransport_def CreateTransportUnless_def sample_build_env_def b)
  obtain resource lines st2 where run: "Build sample_build_env sample_builder sample_state =
      (case Assemble sample_build_env ?b sample_loaded resource ''default'' st2 of (result, st3) \<Rightarrow> (result, ?b, st3))"
    and st2: "st_registry st2 = st_registry sample_state" "st_fresh st2 = st_fresh sample_state"
    by (simp add: Build_def b name load leaf tp BuildResource_def Let_def)
  obtain res st3 where a: "Assemble sample_build_env ?b sample_loaded resource ''default'' st2 = (res, st3)" by fastforce
  have "build_state_ok st2" using sample_state_ok(1) st2 by (simp add: build_state_ok_def)
  from Assemble_registers [OF this a] have "\<exists>p args. res = Inr (p, args)" by (simp add: st2 sample_state_ok kMaxProfiles_def)
  then show ?thesis using run a by auto
qed

theorem build_registers_witness:
  "case Build sample_build_env sample_builder sample_state of
     (res, b', st') \<Rightarrow> \<exists>p args. res = Inr (p, args) \<and> directory (st_registry st') = [''default'' \<mapsto> p] \<and>
       fst (Build sample_build_env b' st') = Inl (config_error CE_BuildAlreadyConsumed [] ''SdkBuilder::Build() called more than once'')"
proof -
  obtain p args b' st' where run: "Build sample_build_env sample_builder sample_state = (Inr (p, args), b', st')" using sample_build_ok by blast
  have "bd_profile_name sample_builder = None" by (simp add: sample_builder_defs)
  then show ?thesis using build_registers [OF sample_state_ok(1) run] sample_state_ok(2) by (simp add: run Let_def)
qed

section \<open>The Resource of the provider\<close>

lemma Assemble_parts:
  "Assemble env b cfg resource profile st = (Inr (p, args), st') \<Longrightarrow>
     args = provider_args env b cfg resource profile \<and> st_world st' = st_world st"
  by (auto simp: Assemble_def Let_def split: prod.splits if_splits)

lemma Build_success:
  assumes "Build env b st = (Inr (p, args), b', st')"
  obtains cfg ignored profile lvl lines lines' where "LoadConfig env (b\<lparr>bd_consumed := True\<rparr>) = (Inr cfg, ignored)"
    "BuildResource (be_format_double env) lvl cfg (bd_resource_detectors b) profile lines (st_world st) = (Inr (pa_resource args), lines', st_world st')"
proof -
  let ?b = "b\<lparr>bd_consumed := True\<rparr>"
  have new: "\<not> bd_consumed b" using assms by (auto simp: Build_def)
  obtain profile where profile: "ResolveProfileName (bd_profile_name ?b) (st_registry st) = Inr profile"
    using assms new by (auto simp: Build_def Let_def split: sum.splits)
  have custom: "CheckExportTransport ?b = None" using assms new profile by (auto simp: Build_def Let_def split: option.splits)
  obtain cfg ign where cfg: "LoadConfig env ?b = (Inr cfg, ign)"
    using assms new profile custom by (cases "LoadConfig env ?b") (auto simp: Build_def Let_def split: sum.splits)
  define lvl where "lvl = cfg_log_level cfg"
  obtain b1 lines2 where b1: "(case bd_export_transport_opts ?b of
      Some opts \<Rightarrow> PrepareCustomTransport lvl ign opts ?b (WarnOnUnknownKeys lvl cfg (st_log st))
    | None \<Rightarrow> (?b, WarnOnRiskyConfig lvl cfg (WarnOnUnknownKeys lvl cfg (st_log st)))) = (b1, lines2)" by fastforce
  then have dets: "bd_resource_detectors b1 = bd_resource_detectors b"
    by (auto simp: PrepareCustomTransport_def split: option.splits if_splits)
  obtain r lines3 w where r: "BuildResource (be_format_double env) lvl cfg (bd_resource_detectors b) profile lines2 (st_world st) = (r, lines3, w)"
    by (metis prod.exhaust)
  have run: "Build env b st =
     (case CheckLeafReceiver (be_with_concentrator env) (concentrator cfg) of
        Some err \<Rightarrow> (Inl err, b1, st\<lparr>st_min_level := lvl, st_log := lines2\<rparr>)
      | None \<Rightarrow> (case r of
           Inl err \<Rightarrow> (Inl err, b1, st\<lparr>st_min_level := lvl, st_log := lines3, st_world := w\<rparr>)
         | Inr resource \<Rightarrow> (case CreateTransportUnless env (bd_export_transport_opts ?b \<noteq> None) of
              Some err \<Rightarrow> (Inl err, b1, st\<lparr>st_min_level := lvl, st_log := lines3, st_world := w\<rparr>)
            | None \<Rightarrow> (case Assemble env b1 cfg resource profile (st\<lparr>st_min_level := lvl, st_log := lines3, st_world := w\<rparr>) of
                 (result, st3) \<Rightarrow> (result, b1, st3)))))"
    using new profile custom cfg b1 [unfolded lvl_def] r [unfolded lvl_def] dets unfolding Build_def Let_def lvl_def
    by (cases "CheckLeafReceiver (be_with_concentrator env) (concentrator cfg)"; cases r;
        cases "CreateTransportUnless env (bd_export_transport_opts b \<noteq> None)") simp_all
  obtain resource where "r = Inr resource" "Assemble env b1 cfg resource profile (st\<lparr>st_min_level := lvl, st_log := lines3, st_world := w\<rparr>) = (Inr (p, args), st')"
    using assms unfolding run by (auto split: option.splits sum.splits prod.splits)
  then show ?thesis using Assemble_parts that [OF cfg] r by (fastforce simp: provider_args_def)
qed

lemma last_map_append: "last_map (a @ b) = last_map a ++ last_map b"
  by (simp add: last_map_def)

text \<open>
  C40: the Resource of the provider that \<open>Build\<close> returns, by key, when the file has no key twice. From the lowest layer: \<open>unknown_service\<close> when no source
  names the service; what the detectors found, in their order; the service's name and version, each of
  the code, else the environment, else the file; and above these the resource attributes of the file, of the environment and of the
  code. So a \<open>service.name\<close> among the attributes of even the file stands above the name that the code sets with \<open>WithServiceName\<close>.
\<close>

theorem built_resource:
  assumes "Build env b st = (Inr (p, args), b', st')" "file_config env b = Inr ff" "distinct (map kv_key (resource_attrs ff))"
  defines "nm \<equiv> layered (bd_service_name b) (env_text (be_getenv env) ''OTEL_SERVICE_NAME'') (service_name ff)"
    and "ver \<equiv> layered (bd_service_version b) None (service_version ff)"
  shows "\<exists>rs. detections (bd_resource_detectors b) (st_world st) = (rs, st_world st') \<and>
    resource_map (pa_resource args) =
      (if nm = [] then [''service.name'' \<mapsto> AV_string ''unknown_service''] else Map.empty) ++ contributions rs ++
      (if nm = [] then Map.empty else [''service.name'' \<mapsto> AV_string nm]) ++ (if ver = [] then Map.empty else [''service.version'' \<mapsto> AV_string ver]) ++
      resource_map (resource_attrs ff) ++ last_map (env_list (be_getenv env) ''OTEL_RESOURCE_ATTRIBUTES'') ++
      last_map (layered (bd_resource_attrs b) None [])"
proof (rule Build_success [OF assms(1)])
  fix cfg ignored profile lvl lines lines'
  assume l: "LoadConfig env (b\<lparr>bd_consumed := True\<rparr>) = (Inr cfg, ignored)"
    and r: "BuildResource (be_format_double env) lvl cfg (bd_resource_detectors b) profile lines (st_world st) = (Inr (pa_resource args), lines', st_world st')"
  have "file_config env (b\<lparr>bd_consumed := True\<rparr>) = Inr ff" using assms(2) by (simp add: file_config_def)
  note s = LoadConfig_service [OF l this, simplified, folded nm_def ver_def]
  have "distinct (map kv_key (resource_attrs cfg))" using assms(3) by (simp add: s MergeResourceAttrs_def)
  then have "last_map (resource_attrs cfg) = resource_map (resource_attrs cfg)" by (rule last_map_distinct)
  then have attrs: "last_map (resource_attrs cfg) =
      resource_map (resource_attrs ff) ++ last_map (env_list (be_getenv env) ''OTEL_RESOURCE_ATTRIBUTES'') ++ last_map (layered (bd_resource_attrs b) None [])"
    by (simp add: s MergeResourceAttrs_def)
  have layer: "last_map (ConfigLayer cfg) =
      (if nm = [] then Map.empty else [''service.name'' \<mapsto> AV_string nm]) ++ (if ver = [] then Map.empty else [''service.version'' \<mapsto> AV_string ver]) ++
      last_map (resource_attrs cfg)"
    by (simp add: ConfigLayer_def last_map_append s(2-4) Let_def last_map_Cons)
  obtain rs where rs: "detections (bd_resource_detectors b) (st_world st) = (rs, st_world st')"
    "resource_map (pa_resource args) =
       (if service_name_defaulted cfg then [''service.name'' \<mapsto> AV_string (service_name cfg)] else Map.empty) ++ contributions rs ++ last_map (ConfigLayer cfg)"
    using BuildResource_Inr [OF r] by blast
  have low: "(if service_name_defaulted cfg then [''service.name'' \<mapsto> AV_string (service_name cfg)] else Map.empty) =
      (if nm = [] then [''service.name'' \<mapsto> AV_string ''unknown_service''] else Map.empty)"
    by (simp add: s(3,4) Let_def cv_kUnknownService_def)
  show ?thesis using rs unfolding low layer attrs by (simp only: map_add_assoc) blast
qed

theorem built_resource_witness:
  "\<exists>p args b' st'. Build sample_build_env sample_builder sample_state = (Inr (p, args), b', st') \<and> bd_service_name sample_builder = Some ''svc'' \<and>
     resource_map (pa_resource args) ''service.name'' = Some (AV_string ''x'')"
proof -
  obtain p args b' st' where run: "Build sample_build_env sample_builder sample_state = (Inr (p, args), b', st')" using sample_build_ok by blast
  have b: "file_config sample_build_env sample_builder = Inr Config_default" "bd_service_name sample_builder = Some ''svc''" "bd_resource_attrs sample_builder = None"
    by (simp_all add: sample_builder_defs file_config_def)
  have "distinct (map kv_key (resource_attrs Config_default))" by (simp add: Config_default_def)
  note r = built_resource [OF run b(1) this]
  have "env_list (be_getenv sample_build_env) ''OTEL_RESOURCE_ATTRIBUTES'' = [\<lparr>kv_key = ''service.name'', kv_value = AV_string ''x''\<rparr>]" by code_simp
  then have "resource_map (pa_resource args) ''service.name'' = Some (AV_string ''x'')"
    using r by (auto simp: b(3) layered_def last_map_Cons)
  then show ?thesis using run b(2) by blast
qed

end
