(* ===== verification/Spec2Isabelle.thy ===== *)
theory Spec2Isabelle
  imports Propagator Sdk_Tracer Log_Pipeline Leaf_Ingest Metric_Reader Provider_Registry Export_Transport Sdk_Build
begin

text \<open>
  Verification library of microtel, an OpenTelemetry SDK for embedded and edge processes.

  \<^bold>\<open>The program.\<close> A request enters a process through a propagator (\<open>src/api/propagator.cpp\<close>), which reads
  the W3C headers into a \<open>Context\<close>: a span context with its trace state (\<open>src/api/trace_state.cpp\<close>) and
  a baggage (\<open>src/api/baggage.cpp\<close>). A tracer (\<open>src/sdk/sdk_tracer.cpp\<close>) starts spans in the current
  context of the thread, asks a sampler (\<open>src/sdk/sampler_factories.cpp\<close>, \<open>sampler_chains.cpp\<close>), and hands
  out a recording span (\<open>src/sdk/sdk_span.cpp\<close>) that applies the span limits (\<open>src/sdk/span_limits.cpp\<close>)
  and delivers its record, when it ends, to a span processor. The batch processor
  (\<open>src/sdk/batch_span_processor.cpp\<close>) queues records under two caps and exports them from its own
  thread; the log pipeline (\<open>src/sdk/sdk_logger.cpp\<close>, \<open>batch_log_record_processor.cpp\<close>) has the same
  shape. Failed exports are retried by the retry engine (\<open>src/exporter/retry_engine.cpp\<close>). Everything
  lost anywhere is counted in the diagnostics sink (\<open>src/sdk/diagnostics_counters.cpp\<close>). Measurements go through an instrument of a
  meter (\<open>src/sdk/sdk_meter.cpp\<close>) into the storages of the streams its views select, and a producer
  (\<open>src/sdk/metric_producer.cpp\<close>) snapshots the streams for a reader
  (\<open>src/sdk/periodic_exporting_metric_reader.cpp\<close>). Batches leave through a wire codec
  (\<open>src/wire/grpc\<close>, \<open>src/wire/http\<close>), which judges the response, or through a transport of the application
  (\<open>src/wire/custom\<close>). What all of them are set up with is resolved from a file, the environment and code, and
  validated once (\<open>src/common/config\<close>) when the builder (\<open>src/sdk/sdk_builder.cpp\<close>) puts a provider together. Providers of several profiles are found
  through a registry (\<open>src/sdk/provider_registry.cpp\<close>). On a
  concentrator, a leaf receiver (\<open>src/sdk/leaf_receiver.cpp\<close>) takes payloads of other devices, checks
  them, identifies the device, corrects its timestamps (\<open>src/sdk/leaf_time.cpp\<close>), resolves its resource
  (\<open>src/sdk/leaf_resource.cpp\<close>) with a bounded table of devices (\<open>src/sdk/leaf_table.cpp\<close>), and feeds the
  spans into the same span processor.

  \<^bold>\<open>The theories\<close>, in the order of their imports.

  \<^item> \<open>Microtel_Prelude\<close> and \<open>Kv_Store\<close> hold what the others share: word abbreviations, association lists
    as finite maps, lemmas on lists, and the locale of the key-value container that the trace state and
    the baggage both interpret.
  \<^item> \<open>Header_Text\<close>, \<open>Trace_State\<close> and \<open>Baggage\<close> model the header grammars: parsers and printers on
    character lists, exact specifications of what is accepted, round trips, and the bounded maps.
  \<^item> \<open>Trace_Types\<close> and \<open>Propagator\<close> model identifiers, contexts, the scopes of the thread's context and the
    two propagators over an abstract carrier; round trips across a hop and the exact language of
    \<open>traceparent\<close>.
  \<^item> \<open>Diagnostics\<close> models the counters: 64-bit words, so counting wraps as in the code.
  \<^item> \<open>Span_Record\<close> and \<open>Sdk_Span\<close> model records, truncation at UTF-8 boundaries, the limits and every method
    of a recording span. A span with limits refines one without limits that is limited at the end.
  \<^item> \<open>Batch_Worker\<close> holds what the two batch processors have in common: a locale of processor operations
    with their laws, a step relation over critical sections of callers and worker, reachability, and
    the invariants by rule induction: conservation of records, flush and shutdown delivery, and progress as a
    bound on the worker's moves in every interleaving.
    \<open>Batch_Span_Processor\<close> and \<open>Log_Pipeline\<close> model the two processors and interpret it.
  \<^item> \<open>Sampler\<close> and \<open>Sdk_Tracer\<close> model every sampler with its exact share of the identifier space, retuning,
    and the start of spans; identifiers come from a random source that is a parameter.
  \<^item> \<open>Retry\<close> models backoff, retry loop and the accounting of outcomes. Clock, jitter and sleep are
    parameters, doubles are rationals with a rounding function that is a parameter; times are 64-bit nanoseconds that
    wrap, so the budget is shown to hold for waits whose end fits.
  \<^item> \<open>Leaf_Time\<close> models saturating 64-bit time arithmetic, the time corrections and the boot anchor.
  \<^item> \<open>Leaf_Table\<close> models the recency list with its hash index as linked nodes, and shows that it implements
    a plain bounded list; a locale states what makes racing threads share one resource.
  \<^item> \<open>Leaf_Resource\<close> and \<open>Leaf_Options\<close> model the layers of a leaf's resource under a byte budget, and the
    validation of the receiver's options.
  \<^item> \<open>Leaf_Receiver\<close> and \<open>Leaf_Ingest\<close> model \<open>Ingest\<close> with everything it calls: the accounting of payloads and
    spans, also when memory gives out half-way, the invariant of the receiver, and what holds of every record
    that reaches the processor.

  \<^item> \<open>Metric_Series\<close> models attribute sets and the block in which every metric storage finds the series of a
    measurement, and states what the storages promise as a locale. \<open>Metric_Storage\<close> models sums, gauges and
    histograms, \<open>Exp_Buckets\<close> and \<open>Exp_Histogram\<close> the exponential ones; all four interpret the locale. Shown:
    no finite measurement is lost or counted twice, what each point holds, and that an exponential
    histogram whose indices fit 30 bits overflows nowhere and does not depend on the history of its merges.
  \<^item> \<open>Metric_Meter\<close> models views, the meter, its instruments and the producer, with streams as positions in
    a store: a measurement reaches exactly the streams of the views that select it, and a collection
    reads every stream once or fails as a whole. \<open>Metric_Reader\<close> models the two readers, the periodic one as
    a step relation of its thread, its callers and its shutdown: cycles never overlap, and shutdown can
    always complete.
  \<^item> \<open>Provider_Registry\<close> models the table of providers twice: as operations on slots, which implement a bounded
    map of names, and as atomic accesses of racing threads, with a condition under which a name
    stays unique and a run that shows that it is needed.
  \<^item> \<open>Proto_Wire\<close> models the reader of Export responses (\<open>src/wire/otlp_response.cpp\<close>) and compares it with a
    declarative grammar of protobuf messages. \<open>Wire_Common\<close> holds what the two codecs share, with what the
    retry engine relies on as a locale that both interpret.
  \<^item> \<open>Grpc_Retry_Info\<close> and \<open>Grpc_Codec\<close> model the gRPC codec (\<open>src/wire/grpc\<close>): base64, the nested messages that
    carry a retry delay, frames, the table of statuses, the verdict on a response and what is sent.
    \<open>Http_Codec\<close> models the HTTP codec (\<open>src/wire/http\<close>): its verdicts, and the fan-out of many requests.
  \<^item> \<open>Exporter_Worker\<close> holds the concurrency of the three exporters (\<open>src/exporter\<close>), with what differs between
    them as a locale, and \<open>Otlp_Exporter\<close> models and interprets them: delivery, bounds, the split of a drain
    into requests, and, together with either codec and the retry engine, that every batch is counted once.
  \<^item> \<open>Export_Transport\<close> models the codec for a transport of the application (\<open>src/wire/custom\<close>): its channel under
    every interleaving of senders and shutdown, and as a third codec of the exporters.
  \<^item> \<open>Config_Validator\<close> models the resolved configuration, the merging of its tables and its validation
    (\<open>src/common/config/config_validator.cpp\<close>, \<open>table_merge.cpp\<close>): the language of endpoints, and that a
    validated configuration fits the codec that it is given to. \<open>Config_Env\<close> models the overlay of the environment
    and the concentrator's settings (\<open>env_resolver.cpp\<close>, \<open>concentrator_config.cpp\<close>): lists are read back, their
    errors tell no values, and the overlay implements an ordered table of settings.
  \<^item> \<open>Resource_Builder\<close> models the detectors and the layers of the Resource with its log line
    (\<open>src/sdk/resource_builder.cpp\<close>, \<open>resource_detectors.cpp\<close>): which layer a key comes from, and that the line is one
    line and tells no secret. \<open>Sdk_Builder\<close> models the builder (\<open>src/sdk/sdk_builder.cpp\<close>): its settings, the
    resolution of the configuration, the configurations of codecs and exporters, and \<open>Build\<close>. \<open>Sdk_Precedence\<close> and
    \<open>Sdk_Build\<close> show the precedence of code, environment and file for every setting, that no static header clashes with those of
    the codec that is built, how a profile is claimed, and what the Resource of the provider is in terms of the sources.

  \<^bold>\<open>Conventions.\<close> A class is a record and a method a function that returns the changed state. Strings are
  character lists, one character per byte. Machine integers are words where they can wrap, and natural
  numbers or integers where the code bounds them or a comment of the theory says why they cannot. A
  null pointer is \<open>None\<close>; a shared object is an address into a store. A sink is optional, as in the code.

  \<^bold>\<open>Loops.\<close> Loops are total functions with termination proofs, and no fuel is used; the search for a downscale
  of an exponential histogram, which may run forever, is a partial function with an exact account of
  when it returns. The one loop that waits, the worker of the batch processors, is a step relation; it is
  shown never to be stuck, to exit within a bound after a shutdown, and to answer a flush within a bound that grows
  only with the records accepted meanwhile.

  \<^bold>\<open>Concurrency.\<close> The batch processors are modelled at the granularity of their critical sections: any
  interleaving of callers and worker is a run of the step relation. So is the periodic reader, and the
  registry and the channel of a custom transport at the granularity of single atomic accesses. The leaf table is a sequence of
  locked operations. Other components are used by one thread at a time or are guarded by a lock that
  covers the modelled operation.

  \<^bold>\<open>Not modelled.\<close> Sockets, TLS and HTTP/2 (\<open>src/transport\<close>), the protobuf encoder and decoder, which call
  generated code, compression, configuration files, adapters to other libraries and the C library for
  microcontrollers. The decoder is a parameter of the leaf receiver, the transport and the compressor
  are parameters of the codecs. A failing allocation is modelled
  only where \<open>Ingest\<close> turns it into a result, at any point inside it. Of the log output of the library itself only what building a provider
  writes is modelled. The loader of TOML files goes through a library and is a parameter of the builder; the provider
  (\<open>src/sdk/sdk_provider.cpp\<close>), which owns the parts and their threads and forwards to them, is represented by its arguments.
\<close>

end
